(* ===== verification/Prelude.thy ===== *)
theory Prelude
  imports Main "HOL-Library.AList" "HOL-Library.Multiset"
begin

text \<open>
  Shared material of the development.

  \<^item> Python dictionaries keep insertion order: an association list with distinct keys,
    stored to by \<^const>\<open>AList.update\<close> (a present key keeps its position, a new one goes to
    the end) and deleted from by \<^const>\<open>AList.delete\<close>.
  \<^item> Python sets that the code iterates over are lists without repetition, extended at the
    end (\<open>pset_add\<close>).
  \<^item> Callables that the code receives from outside act on a world of any type and may raise;
    the code that runs them and swallows what they raise is \<open>run_all_quiet\<close>.
  \<^item> Python's stable \<open>sorted(..., key=..., reverse=True)\<close> is \<open>sort_desc\<close>.
\<close>

named_theorems dict_simps \<open>facts on ordered dictionaries\<close>
named_theorems pset_simps \<open>facts on insertion-ordered sets\<close>

subsection \<open>Ordered dictionaries\<close>

type_synonym ('k, 'v) dict = "('k \<times> 'v) list"

abbreviation dict_keys :: "('k, 'v) dict \<Rightarrow> 'k list" where
  "dict_keys d \<equiv> map fst d"

abbreviation dict_ok :: "('k, 'v) dict \<Rightarrow> bool" where
  "dict_ok d \<equiv> distinct (map fst d)"

definition move_to_end :: "'k \<Rightarrow> ('k, 'v) dict \<Rightarrow> ('k, 'v) dict" where
  "move_to_end k d =
     (case map_of d k of None \<Rightarrow> d | Some v \<Rightarrow> AList.delete k d @ [(k, v)])"

lemma map_of_update [simp, dict_simps]:
  "map_of (AList.update k v d) = (map_of d)(k \<mapsto> v)"
  by (rule ext) (simp add: update_conv)

lemma map_of_delete [simp, dict_simps]:
  "map_of (AList.delete k d) = (map_of d)(k := None)"
  by (rule ext) (simp add: delete_conv)

lemma dict_ok_update [simp, intro]: "dict_ok d \<Longrightarrow> dict_ok (AList.update k v d)"
  by (rule distinct_update)

lemma dict_ok_delete [simp, intro]: "dict_ok d \<Longrightarrow> dict_ok (AList.delete k d)"
  by (rule distinct_delete)

lemma set_keys_update [simp, dict_simps]:
  "fst ` set (AList.update k v d) = insert k (fst ` set d)"
  by (simp add: dom_update)

lemma set_keys_delete [simp, dict_simps]:
  "fst ` set (AList.delete k d) = fst ` set d - {k}"
  by (simp add: delete_keys flip: set_map)

lemma map_of_move_to_end [simp, dict_simps]:
  "map_of (move_to_end k d) = map_of d"
proof (cases "map_of d k")
  case None
  then show ?thesis by (simp add: move_to_end_def)
next
  case (Some v)
  have "map_of (AList.delete k d @ [(k, v)]) k' = map_of d k'" for k'
    using Some by (cases "k' = k") (auto simp: map_add_def split: option.splits)
  with Some show ?thesis by (auto simp: move_to_end_def)
qed

lemma dict_ok_move_to_end [simp, intro]: "dict_ok d \<Longrightarrow> dict_ok (move_to_end k d)"
  by (auto simp: move_to_end_def split: option.splits)

lemma set_keys_move_to_end [simp, dict_simps]:
  "fst ` set (move_to_end k d) = fst ` set d"
  using map_of_move_to_end [of k d] by (metis dom_map_of_conv_image_fst)

lemma length_delete_present:
  assumes "dict_ok d" and "k \<in> fst ` set d"
  shows "length (AList.delete k d) = length d - 1"
proof -
  have "length (AList.delete k d) = card (fst ` set (AList.delete k d))"
    using distinct_card [of "map fst (AList.delete k d)"] assms(1) by simp
  also have "\<dots> = card (fst ` set d) - 1"
    using assms(2) by simp
  also have "card (fst ` set d) = length d"
    using distinct_card [of "map fst d"] assms(1) by simp
  finally show ?thesis .
qed

lemma length_move_to_end [simp]: "dict_ok d \<Longrightarrow> length (move_to_end k d) = length d"
  using distinct_card [of "map fst (move_to_end k d)"] distinct_card [of "map fst d"]
  by (simp add: dict_ok_move_to_end)

lemma map_of_None_keys: "map_of d k = None \<longleftrightarrow> k \<notin> fst ` set d"
  by (metis domIff dom_map_of_conv_image_fst)

lemma map_of_Some_keys: "map_of d k = Some v \<Longrightarrow> k \<in> fst ` set d"
  using map_of_None_keys [of d k] by auto

lemma length_update:
  "length (AList.update k v d) = (if k \<in> fst ` set d then length d else Suc (length d))"
  by (induction d) auto

lemma set_update_subset_pairs: "p \<in> set (AList.update k v d) \<Longrightarrow> p = (k, v) \<or> p \<in> set d"
  by (induction d) (auto split: if_splits)

lemma set_delete_pairs: "p \<in> set (AList.delete k d) \<Longrightarrow> p \<in> set d"
  by (induction d) (auto split: if_splits)

lemma update_new: "k \<notin> fst ` set d \<Longrightarrow> AList.update k v d = d @ [(k, v)]"
  by (induction d) auto

subsection \<open>Insertion-ordered sets\<close>

definition pset_add :: "'a \<Rightarrow> 'a list \<Rightarrow> 'a list" where
  "pset_add x s = (if x \<in> set s then s else s @ [x])"

lemma set_pset_add [simp, pset_simps]: "set (pset_add x s) = insert x (set s)"
  by (auto simp: pset_add_def)

lemma distinct_pset_add [simp, intro]: "distinct s \<Longrightarrow> distinct (pset_add x s)"
  by (simp add: pset_add_def)

subsection \<open>Callables supplied from outside\<close>

type_synonym ('w, 'e) action = "'w \<Rightarrow> 'w \<times> 'e option"

fun run_all_quiet :: "('w, 'e) action list \<Rightarrow> 'w \<Rightarrow> 'w" where
  "run_all_quiet [] w = w"
| "run_all_quiet (h # hs) w = run_all_quiet hs (fst (h w))"

lemma run_all_quiet_preserves:
  assumes "\<And>h w. h \<in> set hs \<Longrightarrow> f (fst (h w)) = f w"
  shows "f (run_all_quiet hs w) = f w"
  using assms by (induction hs arbitrary: w) auto

subsection \<open>Stable sorting by decreasing key\<close>

definition sort_desc :: "('a \<Rightarrow> int) \<Rightarrow> 'a list \<Rightarrow> 'a list" where
  "sort_desc f xs = sort_key (\<lambda>x. - f x) xs"

lemma mset_sort_desc [simp]: "mset (sort_desc f xs) = mset xs"
  by (simp add: sort_desc_def)

lemma set_sort_desc [simp]: "set (sort_desc f xs) = set xs"
  by (simp add: sort_desc_def)

lemma sort_desc_sorted: "sorted_wrt (\<lambda>x y. f y \<le> f x) (sort_desc f xs)"
  using sorted_sort_key [of "\<lambda>x. - f x" xs] by (simp add: sort_desc_def sorted_map)

lemma sort_desc_stable: "filter (\<lambda>x. f x = k) (sort_desc f xs) = filter (\<lambda>x. f x = k) xs"
  using sort_key_stable [of "\<lambda>x. - f x" "- k" xs] by (simp add: sort_desc_def)

lemma sort_desc_Nil [simp]: "sort_desc f [] = []"
  by (simp add: sort_desc_def)

lemma sort_desc_unique:
  assumes "mset ys = mset xs" and "sorted_wrt (\<lambda>x y. f y \<le> f x) ys"
    and "\<And>k. filter (\<lambda>x. f x = k) ys = filter (\<lambda>x. f x = k) xs"
  shows "sort_desc f xs = ys"
  unfolding sort_desc_def
proof (rule properties_for_sort_key)
  show "mset ys = mset xs" by (rule assms(1))
  show "filter (\<lambda>x. - f k = - f x) ys = filter (\<lambda>x. - f k = - f x) xs" for k
    using assms(3) [of "f k"] by (simp add: eq_commute)
  show "sorted (map (\<lambda>x. - f x) ys)" using assms(2) by (simp add: sorted_map)
qed

lemma sort_desc_append_left: "sort_desc f (sort_desc f xs @ ys) = sort_desc f (xs @ ys)"
  by (rule sort_desc_unique) (simp_all add: sort_desc_sorted sort_desc_stable)

lemma sort_desc_append_right: "sort_desc f (xs @ sort_desc f ys) = sort_desc f (xs @ ys)"
  by (rule sort_desc_unique) (simp_all add: sort_desc_sorted sort_desc_stable)

lemma sorted_wrt_remove1: "sorted_wrt R xs \<Longrightarrow> sorted_wrt R (remove1 x xs)"
  by (induction xs) (auto dest: in_set_remove1 [THEN iffD1] set_remove1_subset [THEN subsetD])

lemma remove1_sort_desc: "remove1 x (sort_desc f xs) = sort_desc f (remove1 x xs)"
  by (rule sort_desc_unique [symmetric])
    (simp_all add: sort_desc_sorted sort_desc_stable sorted_wrt_remove1 filter_remove1)

subsection \<open>Decimal text of a number\<close>

definition digit_char :: "nat \<Rightarrow> char" where
  "digit_char n = char_of (48 + n)"

fun nat_str :: "nat \<Rightarrow> string" where
  "nat_str n = (if n < 10 then [digit_char n] else nat_str (n div 10) @ [digit_char (n mod 10)])"

declare nat_str.simps [simp del]

lemma nat_str_nonempty [simp]: "nat_str n \<noteq> []"
  by (subst nat_str.simps) simp

subsection \<open>Strings\<close>

text \<open>
  Python's \<open>pattern in text\<close>, the decimal text of an integer, and joining and splitting
  at the bar character.
\<close>

definition substring :: "string \<Rightarrow> string \<Rightarrow> bool" where
  "substring p s = list_ex (\<lambda>i. take (length p) (drop i s) = p) [0..<Suc (length s)]"

definition int_str :: "int \<Rightarrow> string" where
  "int_str i = (if i < 0 then CHR ''-'' # nat_str (nat (- i)) else nat_str (nat i))"

text \<open>\<open>str.lower\<close> on the letters of ASCII.\<close>

definition lower_letter :: "char \<Rightarrow> char" where
  "lower_letter c = (if of_char c \<in> {65..(90 :: nat)} then char_of (of_char c + 32 :: nat) else c)"

fun bar_join :: "string list \<Rightarrow> string" where
  "bar_join [] = []"
| "bar_join [x] = x"
| "bar_join (x # y # ys) = x @ CHR ''|'' # bar_join (y # ys)"

fun bar_split :: "string \<Rightarrow> string list" where
  "bar_split [] = [[]]"
| "bar_split (c # s) =
     (if c = CHR ''|'' then [] # bar_split s
      else (case bar_split s of [] \<Rightarrow> [[c]] | p # ps \<Rightarrow> (c # p) # ps))"

lemma bar_split_nonempty [simp]: "bar_split s \<noteq> []"
  by (induction s) (auto split: list.splits)

lemma bar_split_no_bar: "CHR ''|'' \<notin> set x \<Longrightarrow> bar_split x = [x]"
  by (induction x) auto

lemma bar_split_append:
  "CHR ''|'' \<notin> set x \<Longrightarrow> bar_split (x @ CHR ''|'' # s) = x # bar_split s"
  by (induction x) auto

lemma bar_split_join:
  "xs \<noteq> [] \<Longrightarrow> \<forall>x \<in> set xs. CHR ''|'' \<notin> set x \<Longrightarrow> bar_split (bar_join xs) = xs"
  by (induction xs rule: bar_join.induct) (auto simp: bar_split_no_bar bar_split_append)

lemma hd_bar_split: "hd (bar_split s) = takeWhile (\<lambda>c. c \<noteq> CHR ''|'') s"
  by (induction s) (auto split: list.splits)

lemma bar_join_inj:
  assumes "bar_join xs = bar_join ys" and "xs \<noteq> []" and "ys \<noteq> []"
    and "\<forall>x \<in> set xs. CHR ''|'' \<notin> set x" and "\<forall>y \<in> set ys. CHR ''|'' \<notin> set y"
  shows "xs = ys"
proof -
  have "xs = bar_split (bar_join xs)" using assms(2,4) by (rule bar_split_join [symmetric])
  also have "\<dots> = bar_split (bar_join ys)" by (simp only: assms(1))
  also have "\<dots> = ys" using assms(3,5) by (rule bar_split_join)
  finally show ?thesis .
qed

end
