(* ===== verification/Txn.thy ===== *)
theory Txn
  imports Prelude
begin

text \<open>
  Transactions: \<open>revitpy/api/transaction.py\<close>, with the provider that the package ships,
  the transaction stack of \<open>RevitDocumentProvider\<close> in \<open>revitpy/api/wrapper.py\<close>.

  A \<open>Transaction\<close> is a record; its methods take the record and the world (everything outside
  the object: the document, the provider's state, what the callables touch) and return both,
  with the exception they raise, if any. The provider and the event loop's clock are the
  record \<open>txn_env\<close>, an argument of every method that uses them. Handlers and operations are
  callables on the world; one that itself calls a method of the same transaction object is
  not modelled. Log calls have no effect in the model, except that the message of \<open>commit\<close>
  reads \<open>duration\<close>, and so the clock.
\<close>

subsection \<open>State\<close>

datatype txn_status = NOT_STARTED | STARTED | COMMITTED | ROLLED_BACK | FAILED

datatype exn = PyError string | TransactionError txn_fault
and txn_fault =
    InactiveTransaction
  | AlreadyStarted txn_status
  | StartFailed exn
  | NotCommittable txn_status
  | OperationFailed exn
  | ProviderRefusedCommit
  | RollbackFailed exn
  | GroupNotExtensible
  | GroupAlreadyStarted
  | GroupStartFailed exn
  | GroupNotStarted
  | GroupCommitFailed exn

text \<open>
  \<open>ITransactionProvider\<close> and \<open>asyncio.get_event_loop().time()\<close>. A handle is any Python
  object; Python's \<open>None\<close> is \<^const>\<open>None\<close>, and \<open>truthy\<close> is the truth value of another object.
\<close>

record ('w, 'h) txn_env =
  start_transaction :: "string \<Rightarrow> 'w \<Rightarrow> 'w \<times> (exn + 'h option)"
  commit_transaction :: "'h option \<Rightarrow> 'w \<Rightarrow> 'w \<times> (exn + bool)"
  rollback_transaction :: "'h option \<Rightarrow> 'w \<Rightarrow> 'w \<times> (exn + bool)"
  loop_time :: "'w \<Rightarrow> 'w \<times> (exn + int)"
  truthy :: "'h \<Rightarrow> bool"

record ('w, 'h) txn =
  options_name :: string
  auto_commit :: bool
  txn_handle :: "'h option"
  txn_state :: txn_status
  operations :: "('w, exn) action list"
  rollback_handlers :: "('w, exn) action list"
  commit_handlers :: "('w, exn) action list"
  start_time :: "int option"
  end_time :: "int option"

type_synonym ('w, 'h) txn_outcome = "('w, 'h) txn \<times> 'w \<times> exn option"

definition new_txn :: "string \<Rightarrow> bool \<Rightarrow> ('w, 'h) txn" where
  "new_txn n ac =
     \<lparr>options_name = n, auto_commit = ac, txn_handle = None, txn_state = NOT_STARTED,
      operations = [], rollback_handlers = [], commit_handlers = [],
      start_time = None, end_time = None\<rparr>"

lemma new_txn_state [simp]:
  "txn_state (new_txn n ac) = NOT_STARTED" "txn_handle (new_txn n ac) = None"
  "auto_commit (new_txn n ac) = ac" "operations (new_txn n ac) = []"
  by (simp_all add: new_txn_def)

definition txn_name :: "('w, 'h) txn \<Rightarrow> string" where
  "txn_name t = (if options_name t = [] then ''Unknown'' else options_name t)"

definition is_active :: "('w, 'h) txn \<Rightarrow> bool" where
  "is_active t = (txn_state t = STARTED)"

definition handle_truthy :: "('w, 'h) txn_env \<Rightarrow> 'h option \<Rightarrow> bool" where
  "handle_truthy E h = (case h of None \<Rightarrow> False | Some x \<Rightarrow> truthy E x)"

definition duration :: "('w, 'h) txn_env \<Rightarrow> ('w, 'h) txn \<Rightarrow> 'w \<Rightarrow> 'w \<times> (exn + int option)" where
  "duration E t w =
     (case start_time t of
        None \<Rightarrow> (w, Inr None)
      | Some s \<Rightarrow>
          (case end_time t of
             Some e \<Rightarrow>
               if e \<noteq> 0 then (w, Inr (Some (e - s)))
               else (case loop_time E w of (w', Inl x) \<Rightarrow> (w', Inl x)
                                         | (w', Inr now) \<Rightarrow> (w', Inr (Some (now - s))))
           | None \<Rightarrow> (case loop_time E w of (w', Inl x) \<Rightarrow> (w', Inl x)
                                         | (w', Inr now) \<Rightarrow> (w', Inr (Some (now - s))))))"

subsection \<open>Methods of a transaction\<close>

definition add_operation ::
  "('w, exn) action \<Rightarrow> ('w, 'h) txn \<Rightarrow> ('w, 'h) txn \<times> exn option" where
  "add_operation p t =
     (if \<not> is_active t then (t, Some (TransactionError InactiveTransaction))
      else (t\<lparr>operations := operations t @ [p]\<rparr>, None))"

definition add_rollback_handler ::
  "('w, exn) action \<Rightarrow> ('w, 'h) txn \<Rightarrow> ('w, 'h) txn" where
  "add_rollback_handler p t = t\<lparr>rollback_handlers := rollback_handlers t @ [p]\<rparr>"

definition add_commit_handler ::
  "('w, exn) action \<Rightarrow> ('w, 'h) txn \<Rightarrow> ('w, 'h) txn" where
  "add_commit_handler p t = t\<lparr>commit_handlers := commit_handlers t @ [p]\<rparr>"

definition txn_start :: "('w, 'h) txn_env \<Rightarrow> ('w, 'h) txn \<Rightarrow> 'w \<Rightarrow> ('w, 'h) txn_outcome" where
  "txn_start E t w =
     (if txn_state t \<noteq> NOT_STARTED
      then (t, w, Some (TransactionError (AlreadyStarted (txn_state t))))
      else
        (case loop_time E w of
           (w1, Inl e) \<Rightarrow>
             (t\<lparr>txn_state := FAILED\<rparr>, w1, Some (TransactionError (StartFailed e)))
         | (w1, Inr now) \<Rightarrow>
             (let t1 = t\<lparr>start_time := Some now\<rparr> in
              case start_transaction E (txn_name t1) w1 of
                (w2, Inl e) \<Rightarrow>
                  (t1\<lparr>txn_state := FAILED\<rparr>, w2, Some (TransactionError (StartFailed e)))
              | (w2, Inr h) \<Rightarrow>
                  (t1\<lparr>txn_handle := h, txn_state := STARTED\<rparr>, w2, None))))"

text \<open>\<open>rollback\<close>: on any other status it only logs a warning and returns.\<close>

definition txn_rollback :: "('w, 'h) txn_env \<Rightarrow> ('w, 'h) txn \<Rightarrow> 'w \<Rightarrow> ('w, 'h) txn_outcome" where
  "txn_rollback E t w =
     (if txn_state t \<noteq> STARTED \<and> txn_state t \<noteq> FAILED then (t, w, None)
      else
        (case (if handle_truthy E (txn_handle t)
               then (case rollback_transaction E (txn_handle t) w of
                       (w1, Inl e) \<Rightarrow> (w1, Some e)
                     | (w1, Inr _) \<Rightarrow> (w1, None))
               else (w, None)) of
           (w1, Some e) \<Rightarrow>
             (t\<lparr>txn_state := FAILED\<rparr>, w1, Some (TransactionError (RollbackFailed e)))
         | (w1, None) \<Rightarrow>
             (case loop_time E w1 of
                (w2, Inl e) \<Rightarrow>
                  (t\<lparr>txn_state := FAILED\<rparr>, w2, Some (TransactionError (RollbackFailed e)))
              | (w2, Inr now) \<Rightarrow>
                  (t\<lparr>txn_state := ROLLED_BACK, end_time := Some now\<rparr>,
                   run_all_quiet (rollback_handlers t) w2, None))))"

text \<open>The loop over the pending operations: it stops at the first one that raises.\<close>

fun run_operations :: "('w, exn) action list \<Rightarrow> 'w \<Rightarrow> 'w \<times> exn option" where
  "run_operations [] w = (w, None)"
| "run_operations (p # ps) w =
     (case p w of
        (w', None) \<Rightarrow> run_operations ps w'
      | (w', Some e) \<Rightarrow> (w', Some e))"

text \<open>
  The \<open>try\<close> block of \<open>commit\<close>. A failing operation rolls back and is raised again as a
  \<open>TransactionError\<close>, unless the rollback itself raises, in which case that exception
  replaces it.
\<close>

definition commit_body ::
  "('w, 'h) txn_env \<Rightarrow> ('w, 'h) txn \<Rightarrow> 'w \<Rightarrow> ('w, 'h) txn_outcome" where
  "commit_body E t w =
     (case run_operations (operations t) w of
        (w1, Some e) \<Rightarrow>
          (case txn_rollback E t w1 of
             (t2, w2, Some e') \<Rightarrow> (t2, w2, Some e')
           | (t2, w2, None) \<Rightarrow> (t2, w2, Some (TransactionError (OperationFailed e))))
      | (w1, None) \<Rightarrow>
          (case commit_transaction E (txn_handle t) w1 of
             (w2, Inl e) \<Rightarrow> (t, w2, Some e)
           | (w2, Inr False) \<Rightarrow> (t, w2, Some (TransactionError ProviderRefusedCommit))
           | (w2, Inr True) \<Rightarrow>
               (let t1 = t\<lparr>txn_state := COMMITTED\<rparr> in
                case loop_time E w2 of
                  (w3, Inl e) \<Rightarrow> (t1, w3, Some e)
                | (w3, Inr now) \<Rightarrow>
                    (let t2 = t1\<lparr>end_time := Some now\<rparr> in
                     case duration E t2 (run_all_quiet (commit_handlers t) w3) of
                       (w4, Inl e) \<Rightarrow> (t2, w4, Some e)
                     | (w4, Inr _) \<Rightarrow> (t2, w4, None)))))"

definition txn_commit :: "('w, 'h) txn_env \<Rightarrow> ('w, 'h) txn \<Rightarrow> 'w \<Rightarrow> ('w, 'h) txn_outcome" where
  "txn_commit E t w =
     (if txn_state t \<noteq> STARTED
      then (t, w, Some (TransactionError (NotCommittable (txn_state t))))
      else
        (case commit_body E t w of
           (t1, w1, None) \<Rightarrow> (t1, w1, None)
         | (t1, w1, Some e) \<Rightarrow>
             (if txn_state t1 = STARTED
              then (case txn_rollback E t1 w1 of
                      (t2, w2, Some e') \<Rightarrow> (t2, w2, Some e')
                    | (t2, w2, None) \<Rightarrow> (t2, w2, Some e))
              else (t1, w1, Some e))))"

text \<open>
  \<open>__exit__\<close> (and \<open>__aexit__\<close>, which has the same body): \<open>raised\<close> says whether the block
  ended with an exception. A \<open>with\<close> block runs its body on the transaction and the world.
\<close>

definition txn_exit ::
  "('w, 'h) txn_env \<Rightarrow> bool \<Rightarrow> ('w, 'h) txn \<Rightarrow> 'w \<Rightarrow> ('w, 'h) txn_outcome" where
  "txn_exit E raised t w =
     (if \<not> raised \<and> auto_commit t then txn_commit E t w else txn_rollback E t w)"

type_synonym ('w, 'h, 'a) txn_body =
  "('w, 'h) txn \<Rightarrow> 'w \<Rightarrow> ('w, 'h) txn \<times> 'w \<times> (exn + 'a)"

definition with_txn ::
  "('w, 'h) txn_env \<Rightarrow> ('w, 'h, 'a) txn_body \<Rightarrow> ('w, 'h) txn \<Rightarrow> 'w
     \<Rightarrow> ('w, 'h) txn \<times> 'w \<times> (exn + 'a)" where
  "with_txn E body t w =
     (case txn_start E t w of
        (t1, w1, Some e) \<Rightarrow> (t1, w1, Inl e)
      | (t1, w1, None) \<Rightarrow>
          (case body t1 w1 of
             (t2, w2, Inr a) \<Rightarrow>
               (case txn_exit E False t2 w2 of
                  (t3, w3, Some e) \<Rightarrow> (t3, w3, Inl e)
                | (t3, w3, None) \<Rightarrow> (t3, w3, Inr a))
           | (t2, w2, Inl x) \<Rightarrow>
               (case txn_exit E True t2 w2 of
                  (t3, w3, Some e) \<Rightarrow> (t3, w3, Inl e)
                | (t3, w3, None) \<Rightarrow> (t3, w3, Inl x))))"

text \<open>
  \<open>retry_transaction\<close>: one new transaction per attempt (\<open>nm\<close> gives the attempt's name, which
  the code generates when none is passed); the operation runs inside the block. With no
  attempt at all (\<open>max_retries\<close> negative) the code raises \<open>None\<close>, a \<open>TypeError\<close>.
\<close>

definition retry_attempt ::
  "('w, 'h) txn_env \<Rightarrow> string \<Rightarrow> ('w \<Rightarrow> 'w \<times> (exn + 'a)) \<Rightarrow> 'w \<Rightarrow> 'w \<times> (exn + 'a)" where
  "retry_attempt E n op w =
     (case with_txn E (\<lambda>t w. case op w of (w', r) \<Rightarrow> (t, w', r)) (new_txn n True) w of
        (_, w', r) \<Rightarrow> (w', r))"

fun retry_loop ::
  "('w, 'h) txn_env \<Rightarrow> (nat \<Rightarrow> string) \<Rightarrow> ('w \<Rightarrow> 'w \<times> (exn + 'a)) \<Rightarrow> nat \<Rightarrow> nat
     \<Rightarrow> exn option \<Rightarrow> 'w \<Rightarrow> 'w \<times> (exn + 'a)" where
  "retry_loop E nm op attempt 0 prev w =
     (w, Inl (case prev of Some e \<Rightarrow> e | None \<Rightarrow> PyError ''TypeError''))"
| "retry_loop E nm op attempt (Suc k) prev w =
     (case retry_attempt E (nm attempt) op w of
        (w', Inr a) \<Rightarrow> (w', Inr a)
      | (w', Inl e) \<Rightarrow> retry_loop E nm op (Suc attempt) k (Some e) w')"

definition retry_transaction ::
  "('w, 'h) txn_env \<Rightarrow> (nat \<Rightarrow> string) \<Rightarrow> ('w \<Rightarrow> 'w \<times> (exn + 'a)) \<Rightarrow> int \<Rightarrow> 'w
     \<Rightarrow> 'w \<times> (exn + 'a)" where
  "retry_transaction E nm op max_retries w =
     retry_loop E nm op 0 (nat (max_retries + 1)) None w"

subsection \<open>Transaction groups\<close>

record ('w, 'h) txn_group =
  members :: "('w, 'h) txn list"
  group_state :: txn_status

definition new_group :: "('w, 'h) txn_group" where
  "new_group = \<lparr>members = [], group_state = NOT_STARTED\<rparr>"

definition add_transaction ::
  "('w, 'h) txn \<Rightarrow> ('w, 'h) txn_group \<Rightarrow> ('w, 'h) txn_group \<times> exn option" where
  "add_transaction t g =
     (if group_state g \<noteq> NOT_STARTED then (g, Some (TransactionError GroupNotExtensible))
      else (g\<lparr>members := members g @ [t]\<rparr>, None))"

fun start_members ::
  "('w, 'h) txn_env \<Rightarrow> ('w, 'h) txn list \<Rightarrow> 'w \<Rightarrow> ('w, 'h) txn list \<times> 'w \<times> exn option" where
  "start_members E [] w = ([], w, None)"
| "start_members E (t # ts) w =
     (case txn_start E t w of
        (t', w', Some e) \<Rightarrow> (t' # ts, w', Some e)
      | (t', w', None) \<Rightarrow>
          (case start_members E ts w' of (ts', w'', x) \<Rightarrow> (t' # ts', w'', x)))"

text \<open>The members that committed before a failure come back apart from the others.\<close>

fun commit_members ::
  "('w, 'h) txn_env \<Rightarrow> ('w, 'h) txn list \<Rightarrow> 'w
     \<Rightarrow> ('w, 'h) txn list \<times> ('w, 'h) txn list \<times> 'w \<times> exn option" where
  "commit_members E [] w = ([], [], w, None)"
| "commit_members E (t # ts) w =
     (case txn_commit E t w of
        (t', w', Some e) \<Rightarrow> ([], t' # ts, w', Some e)
      | (t', w', None) \<Rightarrow>
          (case commit_members E ts w' of (cs, us, w'', x) \<Rightarrow> (t' # cs, us, w'', x)))"

fun rollback_members ::
  "('w, 'h) txn_env \<Rightarrow> ('w, 'h) txn list \<Rightarrow> 'w \<Rightarrow> ('w, 'h) txn list \<times> 'w" where
  "rollback_members E [] w = ([], w)"
| "rollback_members E (t # ts) w =
     (case txn_rollback E t w of
        (t', w', _) \<Rightarrow>
          (case rollback_members E ts w' of (ts', w'') \<Rightarrow> (t' # ts', w'')))"

definition rollback_all ::
  "('w, 'h) txn_env \<Rightarrow> ('w, 'h) txn_group \<Rightarrow> 'w \<Rightarrow> ('w, 'h) txn_group \<times> 'w" where
  "rollback_all E g w =
     (if group_state g \<noteq> STARTED \<and> group_state g \<noteq> FAILED then (g, w)
      else (case rollback_members E (members g) w of
              (ts, w') \<Rightarrow> (g\<lparr>members := ts, group_state := ROLLED_BACK\<rparr>, w')))"

definition start_all ::
  "('w, 'h) txn_env \<Rightarrow> ('w, 'h) txn_group \<Rightarrow> 'w \<Rightarrow> ('w, 'h) txn_group \<times> 'w \<times> exn option" where
  "start_all E g w =
     (if group_state g \<noteq> NOT_STARTED then (g, w, Some (TransactionError GroupAlreadyStarted))
      else
        (case start_members E (members g) w of
           (ts, w', None) \<Rightarrow> (g\<lparr>members := ts, group_state := STARTED\<rparr>, w', None)
         | (ts, w', Some e) \<Rightarrow>
             (case rollback_all E (g\<lparr>members := ts, group_state := STARTED\<rparr>) w' of
                (g', w'') \<Rightarrow> (g', w'', Some (TransactionError (GroupStartFailed e))))))"

definition commit_all ::
  "('w, 'h) txn_env \<Rightarrow> ('w, 'h) txn_group \<Rightarrow> 'w \<Rightarrow> ('w, 'h) txn_group \<times> 'w \<times> exn option" where
  "commit_all E g w =
     (if group_state g \<noteq> STARTED then (g, w, Some (TransactionError GroupNotStarted))
      else
        (case commit_members E (members g) w of
           (cs, us, w', None) \<Rightarrow> (g\<lparr>members := cs @ us, group_state := COMMITTED\<rparr>, w', None)
         | (cs, us, w', Some e) \<Rightarrow>
             (case rollback_members E cs w' of
                (cs', w'') \<Rightarrow>
                  (g\<lparr>members := cs' @ us, group_state := FAILED\<rparr>, w'',
                   Some (TransactionError (GroupCommitFailed e))))))"

definition group_exit ::
  "('w, 'h) txn_env \<Rightarrow> bool \<Rightarrow> ('w, 'h) txn_group \<Rightarrow> 'w
     \<Rightarrow> ('w, 'h) txn_group \<times> 'w \<times> exn option" where
  "group_exit E raised g w =
     (if \<not> raised then commit_all E g w
      else (case rollback_all E g w of (g', w') \<Rightarrow> (g', w', None)))"

subsection \<open>The life cycle of a transaction\<close>

lemmas txn_method_defs =
  txn_start_def txn_rollback_def commit_body_def txn_commit_def txn_exit_def
  add_operation_def add_rollback_handler_def add_commit_handler_def is_active_def

lemma start_cases:
  assumes "txn_start E t w = (t', w', x)"
  shows "(x = None \<and> txn_state t = NOT_STARTED \<and> txn_state t' = STARTED)
       \<or> (x \<noteq> None \<and> txn_state t = NOT_STARTED \<and> txn_state t' = FAILED \<and> txn_handle t' = txn_handle t)
       \<or> (x \<noteq> None \<and> txn_state t \<noteq> NOT_STARTED \<and> t' = t \<and> w' = w)"
  using assms
  by (auto simp: txn_start_def Let_def split: if_splits prod.splits sum.splits)

lemma rollback_cases:
  assumes "txn_rollback E t w = (t', w', x)"
  shows "(x = None \<and> txn_state t \<notin> {STARTED, FAILED} \<and> t' = t \<and> w' = w)
       \<or> (x = None \<and> txn_state t \<in> {STARTED, FAILED} \<and> txn_state t' = ROLLED_BACK)
       \<or> (x \<noteq> None \<and> txn_state t \<in> {STARTED, FAILED} \<and> txn_state t' = FAILED)"
  using assms
  by (auto simp: txn_rollback_def split: if_splits prod.splits sum.splits option.splits)

lemma rollback_handle: "txn_rollback E t w = (t', w', x) \<Longrightarrow> txn_handle t' = txn_handle t"
  by (auto simp: txn_rollback_def split: if_splits prod.splits sum.splits option.splits)

lemma commit_body_cases:
  assumes "commit_body E t w = (t', w', x)" and "txn_state t = STARTED"
  shows "(txn_state t' = COMMITTED \<and> txn_handle t' = txn_handle t)
       \<or> (x \<noteq> None \<and> t' = t)
       \<or> (x \<noteq> None \<and> txn_state t' \<in> {ROLLED_BACK, FAILED} \<and> txn_handle t' = txn_handle t)"
proof (cases "run_operations (operations t) w")
  case (Pair w1 r)
  show ?thesis
  proof (cases r)
    case None
    with Pair assms show ?thesis
      by (auto simp: commit_body_def Let_def split: prod.splits sum.splits bool.splits)
  next
    case (Some e)
    obtain t2 w2 y where rb: "txn_rollback E t w1 = (t2, w2, y)"
      by (cases "txn_rollback E t w1")
    from rollback_cases [OF rb] rollback_handle [OF rb] Pair Some assms rb show ?thesis
      by (auto simp: commit_body_def split: option.splits)
  qed
qed

lemma commit_cases:
  assumes "txn_commit E t w = (t', w', x)"
  shows "(x \<noteq> None \<and> txn_state t \<noteq> STARTED \<and> t' = t \<and> w' = w)
       \<or> (txn_state t = STARTED \<and> txn_state t' = COMMITTED)
       \<or> (x \<noteq> None \<and> txn_state t = STARTED \<and> txn_state t' \<in> {ROLLED_BACK, FAILED})"
proof (cases "txn_state t = STARTED")
  case False
  with assms show ?thesis by (auto simp: txn_commit_def)
next
  case True
  obtain t1 w1 y where cb: "commit_body E t w = (t1, w1, y)"
    by (cases "commit_body E t w")
  obtain t2 w2 z where rb: "txn_rollback E t1 w1 = (t2, w2, z)"
    by (cases "txn_rollback E t1 w1")
  from commit_body_cases [OF cb True] rollback_cases [OF rb] cb rb True assms show ?thesis
    by (auto simp: txn_commit_def split: option.splits if_splits)
qed

text \<open>
  One use of a transaction by its owner: a call of a method, or a step of the world that does
  not go through the object (\<open>A\<close> says which ones are allowed).
\<close>

inductive txn_step ::
  "('w, 'h) txn_env \<Rightarrow> ('w \<Rightarrow> 'w \<Rightarrow> bool) \<Rightarrow> ('w, 'h) txn \<times> 'w \<Rightarrow> ('w, 'h) txn \<times> 'w \<Rightarrow> bool"
  for E :: "('w, 'h) txn_env" and A :: "'w \<Rightarrow> 'w \<Rightarrow> bool" where
  operation: "\<lbrakk>\<And>w. A w (fst (p w)); add_operation p t = (t', x)\<rbrakk>
    \<Longrightarrow> txn_step E A (t, w) (t', w)"
| rollback_handler: "(\<And>w. A w (fst (p w)))
    \<Longrightarrow> txn_step E A (t, w) (add_rollback_handler p t, w)"
| commit_handler: "(\<And>w. A w (fst (p w)))
    \<Longrightarrow> txn_step E A (t, w) (add_commit_handler p t, w)"
| start: "txn_start E t w = (t', w', x) \<Longrightarrow> txn_step E A (t, w) (t', w')"
| commit: "txn_commit E t w = (t', w', x) \<Longrightarrow> txn_step E A (t, w) (t', w')"
| rollback: "txn_rollback E t w = (t', w', x) \<Longrightarrow> txn_step E A (t, w) (t', w')"
| world: "A w w' \<Longrightarrow> txn_step E A (t, w) (t, w')"

inductive_simps txn_step_iff: "txn_step E A (t, w) (t', w')"

abbreviation txn_steps ::
  "('w, 'h) txn_env \<Rightarrow> ('w \<Rightarrow> 'w \<Rightarrow> bool) \<Rightarrow> ('w, 'h) txn \<times> 'w \<Rightarrow> ('w, 'h) txn \<times> 'w \<Rightarrow> bool" where
  "txn_steps E A \<equiv> (txn_step E A)\<^sup>*\<^sup>*"

text \<open>The edges of the status diagram, besides staying where one is.\<close>

fun status_edge :: "txn_status \<Rightarrow> txn_status \<Rightarrow> bool" where
  "status_edge NOT_STARTED STARTED = True"
| "status_edge NOT_STARTED FAILED = True"
| "status_edge STARTED COMMITTED = True"
| "status_edge STARTED ROLLED_BACK = True"
| "status_edge STARTED FAILED = True"
| "status_edge FAILED ROLLED_BACK = True"
| "status_edge _ _ = False"

lemma txn_step_edge:
  assumes "txn_step E A (t, w) (t', w')"
  shows "txn_state t' = txn_state t \<or> status_edge (txn_state t) (txn_state t')"
  using assms
proof (cases rule: txn_step.cases)
  case (start x)
  from start_cases [OF start] show ?thesis by auto
next
  case (commit x)
  from commit_cases [OF commit] show ?thesis by auto
next
  case (rollback x)
  from rollback_cases [OF rollback] show ?thesis by auto
qed (auto simp: txn_method_defs split: if_splits)

lemma status_edge_final: "status_edge s s' \<Longrightarrow> s \<noteq> COMMITTED \<and> s \<noteq> ROLLED_BACK"
  by (cases s; cases s') auto

lemma status_edge_NOT_STARTED: "\<not> status_edge s NOT_STARTED"
  by (cases s) auto

lemma txn_steps_pair_induct [consumes 1, case_names refl step]:
  assumes "txn_steps E A (t, w) (t', w')"
    and "P t w"
    and "\<And>t1 w1 t2 w2. \<lbrakk>txn_steps E A (t, w) (t1, w1); txn_step E A (t1, w1) (t2, w2); P t1 w1\<rbrakk>
           \<Longrightarrow> P t2 w2"
  shows "P t' w'"
proof -
  have "P (fst s) (snd s)" if "txn_steps E A (t, w) s" for s
    using that
  proof (induction rule: rtranclp_induct)
    case base
    then show ?case using assms(2) by simp
  next
    case (step y z)
    then show ?case using assms(3) [of "fst y" "snd y" "fst z" "snd z"] by simp
  qed
  from this [OF assms(1)] show ?thesis by simp
qed

subsection \<open>The contract of a provider, and what a transaction does with it\<close>

text \<open>
  \<open>opens w\<close> is the multiset of the handles the provider holds open. The laws: \<open>start\<close> opens
  one usable handle or none; \<open>commit\<close> of an open handle closes it exactly when it answers
  \<open>True\<close>; \<open>rollback\<close> of an open handle closes it; the clock can be read and opens nothing.
\<close>

locale transaction_provider =
  fixes E :: "('w, 'h) txn_env"
    and opens :: "'w \<Rightarrow> 'h multiset"
  assumes start_error: "start_transaction E n w = (w', Inl e) \<Longrightarrow> opens w' = opens w"
    and start_handle: "start_transaction E n w = (w', Inr h)
      \<Longrightarrow> \<exists>k. h = Some k \<and> truthy E k \<and> opens w' = add_mset k (opens w)"
    and commit_law: "\<lbrakk>k \<in># opens w; commit_transaction E (Some k) w = (w', r)\<rbrakk>
      \<Longrightarrow> opens w' = (if r = Inr True then opens w - {#k#} else opens w)"
    and rollback_law: "\<lbrakk>k \<in># opens w; rollback_transaction E (Some k) w = (w', r)\<rbrakk>
      \<Longrightarrow> r = Inr True \<and> opens w' = opens w - {#k#}"
    and clock_law: "loop_time E w = (w', q) \<Longrightarrow> (\<exists>now. q = Inr now) \<and> opens w' = opens w"
begin

abbreviation balanced :: "'w \<Rightarrow> 'w \<Rightarrow> bool" where
  "balanced w w' \<equiv> opens w' = opens w"

definition callables_balanced :: "('w, 'h) txn \<Rightarrow> bool" where
  "callables_balanced t \<longleftrightarrow>
     (\<forall>p \<in> set (operations t) \<union> set (rollback_handlers t) \<union> set (commit_handlers t).
        \<forall>w. balanced w (fst (p w)))"

definition holds :: "'h multiset \<Rightarrow> ('w, 'h) txn \<Rightarrow> 'w \<Rightarrow> bool" where
  "holds B t w \<longleftrightarrow> callables_balanced t \<and>
     (if txn_state t = STARTED
      then (\<exists>k. txn_handle t = Some k \<and> truthy E k \<and> opens w = add_mset k B)
      else opens w = B) \<and>
     (txn_state t \<in> {NOT_STARTED, FAILED} \<longrightarrow> txn_handle t = None)"

lemma holds_new: "holds (opens w) (new_txn n ac) w"
  by (simp add: holds_def callables_balanced_def new_txn_def)

lemma run_operations_balanced:
  assumes "\<And>p w. p \<in> set ps \<Longrightarrow> balanced w (fst (p w))" and "run_operations ps w = (w', x)"
  shows "opens w' = opens w"
  using assms
proof (induction ps arbitrary: w)
  case (Cons p ps)
  obtain w1 r where p: "p w = (w1, r)" by (cases "p w")
  with Cons.prems(1) [of p w] have "opens w1 = opens w" by simp
  with Cons p show ?case by (cases r) auto
qed simp

lemma handlers_balanced:
  "callables_balanced t \<Longrightarrow> opens (run_all_quiet (rollback_handlers t) w) = opens w"
  "callables_balanced t \<Longrightarrow> opens (run_all_quiet (commit_handlers t) w) = opens w"
  by (rule run_all_quiet_preserves; simp add: callables_balanced_def)+

lemma holds_start:
  assumes "holds B t w" and "txn_start E t w = (t', w', x)"
  shows "holds B t' w'"
proof (cases "txn_state t = NOT_STARTED")
  case False
  with assms show ?thesis by (auto simp: txn_start_def)
next
  case True
  obtain w1 r where lt: "loop_time E w = (w1, r)" by (cases "loop_time E w")
  from clock_law [OF lt] obtain now where r: "r = Inr now" and w1: "opens w1 = opens w" by blast
  obtain w2 y where st: "start_transaction E (txn_name (t\<lparr>start_time := Some now\<rparr>)) w1 = (w2, y)"
    by (cases "start_transaction E (txn_name (t\<lparr>start_time := Some now\<rparr>)) w1")
  show ?thesis
  proof (cases y)
    case (Inl e)
    with st start_error have "opens w2 = opens w1" by blast
    with Inl st lt r w1 True assms show ?thesis
      by (auto simp: txn_start_def holds_def callables_balanced_def Let_def)
  next
    case (Inr h)
    with st start_handle obtain k where "h = Some k" "truthy E k" "opens w2 = add_mset k (opens w1)"
      by blast
    with Inr st lt r w1 True assms show ?thesis
      by (auto simp: txn_start_def holds_def callables_balanced_def Let_def)
  qed
qed

lemma holds_rollback:
  assumes "holds B t w" and "txn_rollback E t w = (t', w', x)"
  shows "holds B t' w' \<and> x = None \<and> (txn_state t = STARTED \<longrightarrow> txn_state t' = ROLLED_BACK)"
proof (cases "txn_state t = STARTED \<or> txn_state t = FAILED")
  case False
  with assms show ?thesis by (auto simp: txn_rollback_def)
next
  case True
  have close: "\<exists>w1. (if handle_truthy E (txn_handle t)
               then (case rollback_transaction E (txn_handle t) w of
                       (w1, Inl e) \<Rightarrow> (w1, Some e)
                     | (w1, Inr _) \<Rightarrow> (w1, None))
               else (w, None)) = (w1, None) \<and> opens w1 = B"
  proof (cases "txn_state t = STARTED")
    case True
    with assms(1) obtain k where k: "txn_handle t = Some k" "truthy E k" "opens w = add_mset k B"
      by (auto simp: holds_def)
    obtain w1 r where rb: "rollback_transaction E (Some k) w = (w1, r)"
      by (cases "rollback_transaction E (Some k) w")
    from rollback_law [OF _ rb] k rb show ?thesis by (simp add: handle_truthy_def)
  next
    case False
    with True assms(1) show ?thesis by (auto simp: holds_def handle_truthy_def)
  qed
  then obtain w1 where w1: "opens w1 = B" and eq: "(if handle_truthy E (txn_handle t)
               then (case rollback_transaction E (txn_handle t) w of
                       (w1, Inl e) \<Rightarrow> (w1, Some e)
                     | (w1, Inr _) \<Rightarrow> (w1, None))
               else (w, None)) = (w1, None)" by blast
  obtain w2 r where lt: "loop_time E w1 = (w2, r)" by (cases "loop_time E w1")
  from clock_law [OF lt] obtain now where r: "r = Inr now" and w2: "opens w2 = opens w1" by blast
  have "callables_balanced t" using assms(1) by (simp add: holds_def)
  from handlers_balanced(1) [OF this, of w2] w1 w2 eq lt r True assms show ?thesis
    by (auto simp: txn_rollback_def holds_def callables_balanced_def)
qed

lemma duration_balanced: "duration E t w = (w', r) \<Longrightarrow> opens w' = opens w \<and> (\<exists>d. r = Inr d)"
  by (auto simp: duration_def split: option.splits if_splits prod.splits sum.splits
           dest: clock_law)

lemma holds_commit_body:
  assumes "holds B t w" and "txn_state t = STARTED" and "commit_body E t w = (t', w', x)"
  shows "holds B t' w'"
proof -
  obtain w1 y where ops: "run_operations (operations t) w = (w1, y)"
    by (cases "run_operations (operations t) w")
  have cb: "callables_balanced t" using assms(1) by (simp add: holds_def)
  with run_operations_balanced [OF _ ops] have w1: "opens w1 = opens w"
    by (simp add: callables_balanced_def)
  with assms(1) have h1: "holds B t w1" by (simp add: holds_def)
  show ?thesis
  proof (cases y)
    case (Some e)
    obtain t2 w2 z where rb: "txn_rollback E t w1 = (t2, w2, z)" by (cases "txn_rollback E t w1")
    from holds_rollback [OF h1 rb] rb Some ops assms(3) show ?thesis
      by (auto simp: commit_body_def)
  next
    case None
    from assms(1,2) obtain k where k: "txn_handle t = Some k" "opens w = add_mset k B"
      by (auto simp: holds_def)
    obtain w2 r where cm: "commit_transaction E (Some k) w1 = (w2, r)"
      by (cases "commit_transaction E (Some k) w1")
    from commit_law [OF _ cm] w1 k have w2: "opens w2 = (if r = Inr True then B else opens w)" by simp
    show ?thesis
    proof (cases "r = Inr True")
      case False
      with w2 assms(1) have "holds B t w2" by (simp add: holds_def)
      with False None ops cm k assms(3) show ?thesis
        by (cases r) (auto simp: commit_body_def split: bool.splits)
    next
      case True
      obtain w3 q where lt: "loop_time E w2 = (w3, q)" by (cases "loop_time E w2")
      from clock_law [OF lt] obtain now where q: "q = Inr now" and w3: "opens w3 = opens w2" by blast
      let ?t2 = "t\<lparr>txn_state := COMMITTED, end_time := Some now\<rparr>"
      let ?w4 = "run_all_quiet (commit_handlers t) w3"
      obtain w5 d where du: "duration E ?t2 ?w4 = (w5, d)" by (cases "duration E ?t2 ?w4")
      from duration_balanced [OF du] handlers_balanced(2) [OF cb, of w3] w3 w2 True
      have "opens w5 = B" by simp
      with duration_balanced [OF du] du lt q True None ops cm k cb assms(3) show ?thesis
        by (auto simp: commit_body_def Let_def holds_def callables_balanced_def)
    qed
  qed
qed

lemma holds_commit:
  assumes "holds B t w" and "txn_commit E t w = (t', w', x)"
  shows "holds B t' w' \<and> (txn_state t = STARTED \<longrightarrow> txn_state t' \<noteq> STARTED)"
proof (cases "txn_state t = STARTED")
  case False
  with assms show ?thesis by (auto simp: txn_commit_def)
next
  case True
  obtain t1 w1 y where cb: "commit_body E t w = (t1, w1, y)" by (cases "commit_body E t w")
  have h1: "holds B t1 w1" by (rule holds_commit_body [OF assms(1) True cb])
  obtain t2 w2 z where rb: "txn_rollback E t1 w1 = (t2, w2, z)" by (cases "txn_rollback E t1 w1")
  from holds_rollback [OF h1 rb] commit_cases [OF assms(2)] h1 cb rb True assms(2) show ?thesis
    by (auto simp: txn_commit_def split: option.splits if_splits)
qed

lemma holds_step:
  assumes "txn_step E balanced (t, w) (t', w')" and "holds B t w"
  shows "holds B t' w'"
  using assms(1)
proof (cases rule: txn_step.cases)
  case (start x)
  then show ?thesis using holds_start [OF assms(2)] by blast
next
  case (commit x)
  then show ?thesis using holds_commit [OF assms(2)] by blast
next
  case (rollback x)
  then show ?thesis using holds_rollback [OF assms(2)] by blast
qed (use assms(2) in \<open>auto simp: holds_def callables_balanced_def txn_method_defs split: if_splits\<close>)

lemma holds_steps:
  assumes "txn_steps E balanced (t, w) (t', w')" and "holds B t w"
  shows "holds B t' w'"
  using assms by (induction rule: txn_steps_pair_induct) (auto intro: holds_step)

lemma holds_exit:
  assumes "holds B t w" and "txn_exit E raised t w = (t', w', x)"
  shows "holds B t' w' \<and> txn_state t' \<noteq> STARTED"
proof (cases "\<not> raised \<and> auto_commit t")
  case True
  with assms(2) have c: "txn_commit E t w = (t', w', x)" by (simp add: txn_exit_def)
  from holds_commit [OF assms(1) c] commit_cases [OF c] show ?thesis by auto
next
  case False
  with assms(2) have r: "txn_rollback E t w = (t', w', x)" by (auto simp: txn_exit_def)
  from holds_rollback [OF assms(1) r] rollback_cases [OF r] show ?thesis by auto
qed

lemma holds_closed: "holds B t w \<Longrightarrow> txn_state t \<noteq> STARTED \<Longrightarrow> opens w = B"
  by (simp add: holds_def)

theorem with_txn_balanced:
  assumes body: "\<And>t w t' w' r. body t w = (t', w', r) \<Longrightarrow> txn_steps E balanced (t, w) (t', w')"
    and run: "with_txn E body (new_txn n ac) w = (t', w', r)"
  shows "opens w' = opens w \<and> txn_state t' \<noteq> STARTED"
proof -
  obtain t1 w1 x where st: "txn_start E (new_txn n ac) w = (t1, w1, x)"
    by (cases "txn_start E (new_txn n ac) w")
  have h1: "holds (opens w) t1 w1" by (rule holds_start [OF holds_new st])
  show ?thesis
  proof (cases x)
    case (Some e)
    with st run start_cases [OF st] holds_closed [OF h1] show ?thesis
      by (auto simp: with_txn_def)
  next
    case None
    obtain t2 w2 y where b: "body t1 w1 = (t2, w2, y)" by (cases "body t1 w1")
    have h2: "holds (opens w) t2 w2" by (rule holds_steps [OF body [OF b] h1])
    obtain t3 w3 z where ex: "txn_exit E (case y of Inl _ \<Rightarrow> True | Inr _ \<Rightarrow> False) t2 w2 = (t3, w3, z)"
      by (cases "txn_exit E (case y of Inl _ \<Rightarrow> True | Inr _ \<Rightarrow> False) t2 w2")
    from holds_exit [OF h2 ex] holds_closed have "opens w3 = opens w \<and> txn_state t3 \<noteq> STARTED"
      by blast
    with ex b st None run show ?thesis
      by (cases y; cases z) (auto simp: with_txn_def)
  qed
qed

text \<open>Groups: what the started members hold, and what is left once a member failed.\<close>

definition held1 :: "('w, 'h) txn \<Rightarrow> 'h multiset" where
  "held1 t = (if txn_state t = STARTED then (case txn_handle t of Some k \<Rightarrow> {#k#} | None \<Rightarrow> {#}) else {#})"

definition held :: "('w, 'h) txn list \<Rightarrow> 'h multiset" where
  "held ts = sum_list (map held1 ts)"

definition member_ok :: "('w, 'h) txn \<Rightarrow> bool" where
  "member_ok t \<longleftrightarrow> callables_balanced t \<and>
     (txn_state t = STARTED \<longrightarrow> (\<exists>k. txn_handle t = Some k \<and> truthy E k)) \<and>
     (txn_state t \<in> {NOT_STARTED, FAILED} \<longrightarrow> txn_handle t = None)"

lemma holds_iff: "holds B t w \<longleftrightarrow> member_ok t \<and> opens w = held1 t + B"
  by (auto simp: holds_def member_ok_def held1_def)

definition group_holds :: "'h multiset \<Rightarrow> ('w, 'h) txn list \<Rightarrow> 'w \<Rightarrow> bool" where
  "group_holds B ts w \<longleftrightarrow> (\<forall>t \<in> set ts. member_ok t) \<and> opens w = held ts + B"

lemma group_holds_Nil [simp]: "group_holds B [] w \<longleftrightarrow> opens w = B"
  by (simp add: group_holds_def held_def)

lemma group_holds_Cons:
  "group_holds B (t # ts) w \<longleftrightarrow> holds (held ts + B) t w \<and> (\<forall>u \<in> set ts. member_ok u)"
  by (auto simp: group_holds_def holds_iff held_def ac_simps)

lemma group_holds_tail:
  "group_holds (held1 t + B) ts w \<Longrightarrow> member_ok t \<Longrightarrow> group_holds B (t # ts) w"
  by (auto simp: group_holds_def held_def ac_simps)

lemma group_holds_rest:
  "holds (held ts + B) t w \<Longrightarrow> \<forall>u \<in> set ts. member_ok u \<Longrightarrow>
     group_holds (held1 t + B) ts w \<and> member_ok t"
  by (auto simp: group_holds_def holds_iff held_def ac_simps)

lemma held_idle: "\<forall>t \<in> set ts. txn_state t \<noteq> STARTED \<Longrightarrow> held ts = {#}"
  unfolding held_def by (induction ts) (auto simp: held1_def)

lemma group_holds_new:
  assumes "\<And>t. t \<in> set ts \<Longrightarrow> txn_state t = NOT_STARTED \<and> txn_handle t = None \<and> callables_balanced t"
  shows "group_holds (opens w) ts w"
  using assms by (simp add: group_holds_def member_ok_def held_idle)

lemma group_start:
  assumes "group_holds B ts w" and "start_members E ts w = (ts', w', x)"
  shows "group_holds B ts' w'"
  using assms
proof (induction ts arbitrary: w B ts' w' x)
  case (Cons t ts)
  obtain t1 w1 y where st: "txn_start E t w = (t1, w1, y)" by (cases "txn_start E t w")
  from Cons.prems(1) have h: "holds (held ts + B) t w" and ok: "\<forall>u \<in> set ts. member_ok u"
    by (simp_all add: group_holds_Cons)
  have h1: "holds (held ts + B) t1 w1" by (rule holds_start [OF h st])
  show ?case
  proof (cases y)
    case (Some e)
    with h1 ok st Cons.prems(2) show ?thesis by (auto simp: group_holds_Cons)
  next
    case None
    obtain ts1 w2 z where sm: "start_members E ts w1 = (ts1, w2, z)"
      by (cases "start_members E ts w1")
    from group_holds_rest [OF h1 ok] Cons.IH [OF _ sm]
    have "group_holds (held1 t1 + B) ts1 w2" "member_ok t1" by blast+
    with group_holds_tail sm st None Cons.prems(2) show ?thesis by auto
  qed
qed simp

lemma group_rollback:
  assumes "group_holds B ts w" and "rollback_members E ts w = (ts', w')"
  shows "opens w' = B \<and> (\<forall>t \<in> set ts'. txn_state t \<noteq> STARTED)"
  using assms
proof (induction ts arbitrary: w B ts' w')
  case (Cons t ts)
  obtain t1 w1 y where rb: "txn_rollback E t w = (t1, w1, y)" by (cases "txn_rollback E t w")
  from Cons.prems(1) have h: "holds (held ts + B) t w" and ok: "\<forall>u \<in> set ts. member_ok u"
    by (simp_all add: group_holds_Cons)
  from holds_rollback [OF h rb] rollback_cases [OF rb]
  have h1: "holds (held ts + B) t1 w1" and ns: "txn_state t1 \<noteq> STARTED" by auto
  obtain ts1 w2 where rm: "rollback_members E ts w1 = (ts1, w2)"
    by (cases "rollback_members E ts w1")
  from ns have "held1 t1 = {#}" by (simp add: held1_def)
  with group_holds_rest [OF h1 ok] have "group_holds B ts w1" by simp
  from Cons.IH [OF this rm] ns rb rm Cons.prems(2) show ?case by auto
qed simp

lemma start_all_error_balanced:
  assumes ts: "\<And>t. t \<in> set (members g) \<Longrightarrow>
      txn_state t = NOT_STARTED \<and> txn_handle t = None \<and> callables_balanced t"
    and run: "start_all E g w = (g', w', Some e)" and ns: "group_state g = NOT_STARTED"
  shows "opens w' = opens w \<and> (\<forall>t \<in> set (members g'). txn_state t \<noteq> STARTED)
       \<and> group_state g' = ROLLED_BACK"
proof -
  obtain us w1 x where sm: "start_members E (members g) w = (us, w1, x)"
    by (cases "start_members E (members g) w")
  have gh: "group_holds (opens w) us w1" by (rule group_start [OF group_holds_new [OF ts] sm])
  obtain vs w2 where rm: "rollback_members E us w1 = (vs, w2)" by (cases "rollback_members E us w1")
  from group_rollback [OF gh rm] sm rm run ns show ?thesis
    by (cases x) (auto simp: start_all_def rollback_all_def)
qed

lemma commit_members_holds:
  assumes "group_holds B ts w" and "commit_members E ts w = (cs, us, w', x)"
  shows "group_holds B us w'"
  using assms
proof (induction ts arbitrary: w B cs us w' x)
  case (Cons t ts)
  obtain t1 w1 y where cm: "txn_commit E t w = (t1, w1, y)" by (cases "txn_commit E t w")
  from Cons.prems(1) have h: "holds (held ts + B) t w" and ok: "\<forall>u \<in> set ts. member_ok u"
    by (simp_all add: group_holds_Cons)
  from holds_commit [OF h cm] have h1: "holds (held ts + B) t1 w1" by blast
  show ?case
  proof (cases y)
    case (Some e)
    with h1 ok cm Cons.prems(2) show ?thesis by (auto simp: group_holds_Cons)
  next
    case None
    obtain cs1 us1 w2 z where rest: "commit_members E ts w1 = (cs1, us1, w2, z)"
      by (cases "commit_members E ts w1")
    from commit_cases [OF cm] None have "held1 t1 = {#}" by (auto simp: held1_def)
    with group_holds_rest [OF h1 ok] have "group_holds B ts w1" by simp
    from Cons.IH [OF this rest] rest None cm Cons.prems(2) show ?thesis by auto
  qed
qed simp

end

subsection \<open>Group commit without a rollback of the committed members\<close>

lemma commit_members_shape:
  assumes "commit_members E ts w = (cs, us, w', x)"
  shows "(\<forall>c \<in> set cs. txn_state c = COMMITTED) \<and> length cs + length us = length ts \<and>
     (case x of None \<Rightarrow> us = []
      | Some e \<Rightarrow> (\<exists>t. us = t # drop (Suc (length cs)) ts))"
  using assms
proof (induction E ts w arbitrary: cs us w' x rule: commit_members.induct)
  case (2 E t ts w)
  obtain t1 w1 y where cm: "txn_commit E t w = (t1, w1, y)" by (cases "txn_commit E t w")
  show ?case
  proof (cases y)
    case (Some e)
    with cm "2.prems" show ?thesis by auto
  next
    case None
    obtain cs1 us1 w2 z where rest: "commit_members E ts w1 = (cs1, us1, w2, z)"
      by (cases "commit_members E ts w1")
    from commit_cases [OF cm] None have "txn_state t1 = COMMITTED" by auto
    with "2.IH" [OF cm [symmetric] refl None rest] rest None cm "2.prems" show ?thesis
      by (cases z) auto
  qed
qed simp

lemma rollback_committed_members:
  "\<forall>c \<in> set cs. txn_state c = COMMITTED \<Longrightarrow> rollback_members E cs w = (cs, w)"
  by (induction cs) (auto simp: txn_rollback_def)

subsection \<open>The provider of \<open>wrapper.py\<close>\<close>

text \<open>
  \<open>RevitDocumentProvider\<close> keeps the texts of its open transactions in a list; \<open>doc_state\<close> is
  the rest of the world. The clock, which belongs to the event loop, is the argument \<open>clk\<close>:
  inside a running loop it can always be read.
\<close>

record 'd doc_world =
  txn_stack :: "string list"
  doc_state :: 'd

definition doc_start :: "string \<Rightarrow> 'd doc_world \<Rightarrow> 'd doc_world \<times> (exn + string option)" where
  "doc_start n w =
     (let h = ''Transaction_'' @ n @ ''_'' @ nat_str (length (txn_stack w)) in
      (w\<lparr>txn_stack := txn_stack w @ [h]\<rparr>, Inr (Some h)))"

definition doc_commit :: "string option \<Rightarrow> 'd doc_world \<Rightarrow> 'd doc_world \<times> (exn + bool)" where
  "doc_commit h w =
     (case h of
        None \<Rightarrow> (w, Inr False)
      | Some k \<Rightarrow> (if k \<notin> set (txn_stack w) then (w, Inr False)
                   else (w\<lparr>txn_stack := remove1 k (txn_stack w)\<rparr>, Inr True)))"

definition doc_rollback :: "string option \<Rightarrow> 'd doc_world \<Rightarrow> 'd doc_world \<times> (exn + bool)" where
  "doc_rollback h w =
     (case h of
        None \<Rightarrow> (w, Inr False)
      | Some k \<Rightarrow> (if k \<notin> set (txn_stack w) then (w, Inr False)
                   else (w\<lparr>txn_stack := remove1 k (txn_stack w)\<rparr>, Inr True)))"

definition is_in_transaction :: "'d doc_world \<Rightarrow> bool" where
  "is_in_transaction w = (0 < length (txn_stack w))"

definition doc_env :: "('d doc_world \<Rightarrow> int) \<Rightarrow> ('d doc_world, string) txn_env" where
  "doc_env clk =
     \<lparr>start_transaction = doc_start, commit_transaction = doc_commit,
      rollback_transaction = doc_rollback, loop_time = (\<lambda>w. (w, Inr (clk w))),
      truthy = (\<lambda>h. h \<noteq> [])\<rparr>"

interpretation doc: transaction_provider "doc_env clk" "\<lambda>w. mset (txn_stack w)"
  for clk :: "'d doc_world \<Rightarrow> int"
  by unfold_locales
    (auto simp: doc_env_def doc_start_def doc_commit_def doc_rollback_def Let_def
          split: if_splits)

subsection \<open>Properties\<close>

text \<open>
  C1: A \<open>with\<close> block on a new transaction leaks no open transaction in \<open>RevitDocumentProvider\<close>.
  The conditions: what the body itself, and each operation and handler it adds, opens in the
  provider outside this transaction, it closes again, and the clock of the event loop can be read. Then,
  whatever the body does with the transaction (adding operations and handlers, committing or
  rolling back by hand), and whether the body, an operation or a handler raises an exception, the
  provider's stack holds the same transactions after the block as before, and the transaction is
  no longer started.
\<close>

theorem doc_with_txn_balanced:
  assumes "\<And>t w t' w' r. body t w = (t', w', r) \<Longrightarrow>
      txn_steps (doc_env clk) (\<lambda>w w'. mset (txn_stack w') = mset (txn_stack w)) (t, w) (t', w')"
  shows "case with_txn (doc_env clk) body (new_txn n ac) w of
           (t', w', r) \<Rightarrow> mset (txn_stack w') = mset (txn_stack w) \<and> \<not> is_active t'"
proof -
  obtain t' w' r where "with_txn (doc_env clk) body (new_txn n ac) w = (t', w', r)"
    by (cases "with_txn (doc_env clk) body (new_txn n ac) w")
  with doc.with_txn_balanced [of body clk n ac w t' w' r] assms show ?thesis
    by (simp add: is_active_def)
qed

lemma doc_with_txn_balanced_witness:
  "case with_txn (doc_env (\<lambda>_. 7)) (\<lambda>t w. (t, w, Inl (PyError ''ValueError'')))
          (new_txn ''Rename'' True) \<lparr>txn_stack = [''outer''], doc_state = (0::nat)\<rparr> of
     (t', w', r) \<Rightarrow> mset (txn_stack w') = mset (txn_stack \<lparr>txn_stack = [''outer''], doc_state = (0::nat)\<rparr>)
       \<and> \<not> is_active t'"
  by (rule doc_with_txn_balanced) auto

text \<open>
  \<open>COMMITTED\<close> and \<open>ROLLED_BACK\<close> are final: no sequence of uses of the transaction
  changes its status or its handle any more, and none reaches the provider, the clock or a
  handler: the world moves only by steps that do not go through the transaction.
\<close>

theorem final_status_stays:
  assumes "txn_steps E A (t, w) (t', w')"
    and "txn_state t = COMMITTED \<or> txn_state t = ROLLED_BACK"
  shows "txn_state t' = txn_state t \<and> txn_handle t' = txn_handle t \<and> A\<^sup>*\<^sup>* w w'"
  using assms(1)
proof (induction rule: txn_steps_pair_induct)
  case (step t1 w1 t2 w2)
  with assms(2) have "txn_state t1 = COMMITTED \<or> txn_state t1 = ROLLED_BACK" by auto
  with step.hyps(2) have "txn_state t2 = txn_state t1 \<and> txn_handle t2 = txn_handle t1 \<and>
      (w2 = w1 \<or> A w1 w2)"
    by (cases rule: txn_step.cases)
      (auto simp: txn_method_defs split: if_splits)
  with step.IH show ?case by auto
qed auto

lemma final_status_stays_witness:
  "txn_state ((new_txn ''T'' True :: (nat, nat) txn)\<lparr>txn_state := COMMITTED\<rparr>) =
   txn_state ((new_txn ''T'' True :: (nat, nat) txn)\<lparr>txn_state := COMMITTED\<rparr>) \<and> (\<lambda>w w'. w' = Suc w)\<^sup>*\<^sup>* (3::nat) 4"
  using final_status_stays [of undefined "\<lambda>w w'. w' = Suc w"
      "(new_txn ''T'' True :: (nat, nat) txn)\<lparr>txn_state := COMMITTED\<rparr>" 3
      "(new_txn ''T'' True)\<lparr>txn_state := COMMITTED\<rparr>" 4]
  by (auto intro!: r_into_rtranclp txn_step.world)

text \<open>
  When an operation of a started transaction raises, the operations before it have run
  in order, those after it do not run, and the outcome is that of a rollback in the world the
  failing operation left: the provider is never asked to commit. If the rollback succeeds,
  \<open>commit\<close> raises the operation's exception wrapped in a \<open>TransactionError\<close>.
\<close>

theorem commit_operation_failure:
  assumes "txn_state t = STARTED" and "operations t = ps @ p # qs"
    and "run_operations ps w = (w0, None)" and "p w0 = (w1, Some e)"
    and "txn_rollback E t w1 = (t2, w2, x)"
  shows "txn_commit E t w =
     (case x of None \<Rightarrow> (t2, w2, Some (TransactionError (OperationFailed e)))
              | Some e' \<Rightarrow> (t2, w2, Some e')) \<and> txn_state t2 \<noteq> COMMITTED"
proof -
  have "run_operations (ps @ p # qs) w = (w1, Some e)"
    using assms(3,4) by (induction ps arbitrary: w) (auto split: prod.splits option.splits)
  moreover have "txn_state t2 = ROLLED_BACK \<or> txn_state t2 = FAILED"
    using rollback_cases [OF assms(5)] assms(1) by auto
  ultimately show ?thesis
    using assms(1,2,5) by (auto simp: txn_commit_def commit_body_def split: option.splits)
qed

lemma commit_operation_failure_witness:
  "let E = doc_env (\<lambda>_. 7);
       p = (\<lambda>w. (w\<lparr>doc_state := Suc (doc_state w)\<rparr>, None));
       q = (\<lambda>w. (w, Some (PyError ''KeyError'')));
       t = (new_txn ''T'' True)\<lparr>txn_state := STARTED, txn_handle := Some ''h'', operations := [p, q, p]\<rparr>
   in snd (snd (txn_commit E t \<lparr>txn_stack = [''h''], doc_state = 0\<rparr>))
        = Some (TransactionError (OperationFailed (PyError ''KeyError'')))"
  using commit_operation_failure [of
      "(new_txn ''T'' True)\<lparr>txn_state := STARTED, txn_handle := Some ''h'',
          operations := [\<lambda>w. (w\<lparr>doc_state := Suc (doc_state w)\<rparr>, None),
                         \<lambda>w. (w, Some (PyError ''KeyError'')),
                         \<lambda>w. (w\<lparr>doc_state := Suc (doc_state w)\<rparr>, None)]\<rparr>"
      "[\<lambda>w. (w\<lparr>doc_state := Suc (doc_state w)\<rparr>, None)]" "\<lambda>w. (w, Some (PyError ''KeyError''))"
      "[\<lambda>w. (w\<lparr>doc_state := Suc (doc_state w)\<rparr>, None)]"
      "\<lparr>txn_stack = [''h''], doc_state = 0\<rparr>" "\<lparr>txn_stack = [''h''], doc_state = Suc 0\<rparr>"
      "\<lparr>txn_stack = [''h''], doc_state = Suc 0\<rparr>" "PyError ''KeyError''" "doc_env (\<lambda>_. 7)" _ _ None]
  by (simp add: Let_def txn_rollback_def doc_env_def doc_rollback_def handle_truthy_def new_txn_def)

text \<open>
  A failing \<open>commit_all\<close> is not atomic. The members before the failing one stay
  \<open>COMMITTED\<close> (the loop that is meant to roll them back calls \<open>rollback\<close> on committed
  transactions, which does nothing), the members after it are left exactly as they were, and
  the world is the one the failing commit left.
\<close>

theorem commit_all_partial:
  assumes "group_state g = STARTED" and "commit_all E g w = (g', w', Some e)"
  shows "\<exists>cs t us. members g' = cs @ t # us \<and> group_state g' = FAILED
     \<and> (\<forall>c \<in> set cs. txn_state c = COMMITTED) \<and> us = drop (Suc (length cs)) (members g)
     \<and> (\<exists>e0. commit_members E (members g) w = (cs, t # us, w', Some e0)
           \<and> e = TransactionError (GroupCommitFailed e0))"
proof -
  obtain cs us w1 x where cm: "commit_members E (members g) w = (cs, us, w1, x)"
    by (cases "commit_members E (members g) w")
  from commit_members_shape [OF cm] have com: "\<forall>c \<in> set cs. txn_state c = COMMITTED" by blast
  with commit_members_shape [OF cm] cm assms rollback_committed_members [OF com, of E w1]
  show ?thesis by (cases x) (auto simp: commit_all_def)
qed

definition two_member_group :: "(nat doc_world, string) txn_group" where
  "two_member_group =
     \<lparr>members = [(new_txn ''A'' False)\<lparr>txn_state := STARTED, txn_handle := Some ''a''\<rparr>,
                 (new_txn ''B'' False)\<lparr>txn_state := STARTED, txn_handle := Some ''b'',
                    operations := [\<lambda>w. (w, Some (PyError ''KeyError''))]\<rparr>,
                 (new_txn ''C'' False)\<lparr>txn_state := STARTED, txn_handle := Some ''c''\<rparr>],
      group_state = STARTED\<rparr>"

lemma commit_all_partial_witness:
  "case commit_all (doc_env (\<lambda>_. 7)) two_member_group \<lparr>txn_stack = [''a'', ''b'', ''c''], doc_state = 0\<rparr> of
     (g', w', x) \<Rightarrow> group_state g' = FAILED \<and> txn_stack w' = [''c''] \<and>
       map txn_state (members g') = [COMMITTED, ROLLED_BACK, STARTED]"
proof -
  let ?w = "\<lparr>txn_stack = [''a'', ''b'', ''c''], doc_state = (0::nat)\<rparr>"
  obtain g' w' x where run: "commit_all (doc_env (\<lambda>_. 7)) two_member_group ?w = (g', w', x)"
    by (cases "commit_all (doc_env (\<lambda>_. 7)) two_member_group ?w")
  have ev: "txn_stack w' = [''c'']" "map txn_state (members g') = [COMMITTED, ROLLED_BACK, STARTED]"
    "\<exists>e. x = Some e"
    using run by (auto simp: two_member_group_def commit_all_def txn_commit_def commit_body_def
        doc_env_def doc_commit_def doc_rollback_def new_txn_def txn_rollback_def duration_def
        handle_truthy_def Let_def)
  then obtain e where "x = Some e" by blast
  with commit_all_partial [of two_member_group "doc_env (\<lambda>_. 7)" ?w g' w' e] run ev show ?thesis
    by (auto simp: two_member_group_def)
qed

definition member_idle :: "('d doc_world, string) txn \<Rightarrow> bool" where
  "member_idle t \<longleftrightarrow> txn_state t \<noteq> STARTED \<and>
     (txn_state t = NOT_STARTED \<or> txn_state t = FAILED \<longrightarrow> txn_handle t = None) \<and>
     (\<forall>p \<in> set (operations t) \<union> set (rollback_handlers t) \<union> set (commit_handlers t).
        \<forall>w. mset (txn_stack (fst (p w))) = mset (txn_stack w))"


definition reused_group :: "(nat doc_world, string) txn_group" where
  "reused_group =
     \<lparr>members = [new_txn ''A'' False,
                 (new_txn ''B'' False)\<lparr>txn_state := COMMITTED, txn_handle := Some ''b''\<rparr>],
      group_state = NOT_STARTED\<rparr>"


text \<open>The world before an attempt of \<open>retry_transaction\<close>, while all the earlier ones fail.\<close>

fun retry_world ::
  "('w, 'h) txn_env \<Rightarrow> (nat \<Rightarrow> string) \<Rightarrow> ('w \<Rightarrow> 'w \<times> (exn + 'a)) \<Rightarrow> 'w \<Rightarrow> nat \<Rightarrow> 'w" where
  "retry_world E nm op w 0 = w"
| "retry_world E nm op w (Suc i) = fst (retry_attempt E (nm i) op (retry_world E nm op w i))"

lemma retry_loop_attempt:
  "\<exists>k \<le> n. (\<forall>i<k. isl (snd (retry_attempt E (nm (a + i)) op (retry_world E nm op w (a + i)))))
     \<and> (k < n \<longrightarrow> \<not> isl (snd (retry_attempt E (nm (a + k)) op (retry_world E nm op w (a + k)))))
     \<and> retry_loop E nm op a (Suc n) prev (retry_world E nm op w a)
         = retry_attempt E (nm (a + k)) op (retry_world E nm op w (a + k))"
proof (induction n arbitrary: a prev)
  case 0
  then show ?case by (auto split: prod.splits sum.splits)
next
  case (Suc n)
  obtain w1 r where at: "retry_attempt E (nm a) op (retry_world E nm op w a) = (w1, r)"
    by (cases "retry_attempt E (nm a) op (retry_world E nm op w a)")
  show ?case
  proof (cases r)
    case (Inr v)
    with at show ?thesis by (intro exI [of _ 0]) auto
  next
    case (Inl e)
    from Suc.IH [of "Suc a" "Some e"] obtain k where k: "k \<le> n"
      "\<forall>i<k. isl (snd (retry_attempt E (nm (Suc a + i)) op (retry_world E nm op w (Suc a + i))))"
      "k < n \<longrightarrow> \<not> isl (snd (retry_attempt E (nm (Suc a + k)) op (retry_world E nm op w (Suc a + k))))"
      "retry_loop E nm op (Suc a) (Suc n) (Some e) (retry_world E nm op w (Suc a))
         = retry_attempt E (nm (Suc a + k)) op (retry_world E nm op w (Suc a + k))" by blast
    have "isl (snd (retry_attempt E (nm (a + i)) op (retry_world E nm op w (a + i))))" if "i < Suc k" for i
      using that at Inl k(2) by (cases i) auto
    with at Inl k show ?thesis by (intro exI [of _ "Suc k"]) (auto simp del: retry_loop.simps(2)
        simp: retry_loop.simps(2) [of E nm op a "Suc n"])
  qed
qed

text \<open>
  \<open>retry_transaction\<close> with \<open>m >= 0\<close> retries runs at most \<open>m + 1\<close> attempts, each in a
  transaction of its own and in the world the failed attempts before it left; its result is
  that of the first attempt that succeeds, or of the last one when all fail.
\<close>

theorem retry_transaction_outcome:
  assumes "0 \<le> m"
  shows "\<exists>k. int k \<le> m
     \<and> (\<forall>i<k. isl (snd (retry_attempt E (nm i) op (retry_world E nm op w i))))
     \<and> (int k < m \<longrightarrow> \<not> isl (snd (retry_attempt E (nm k) op (retry_world E nm op w k))))
     \<and> retry_transaction E nm op m w = retry_attempt E (nm k) op (retry_world E nm op w k)"
proof -
  from assms have n: "nat (m + 1) = Suc (nat m)" by simp
  from retry_loop_attempt [of "nat m" E nm 0 op w None] obtain k where
    "k \<le> nat m" "\<forall>i<k. isl (snd (retry_attempt E (nm i) op (retry_world E nm op w i)))"
    "k < nat m \<longrightarrow> \<not> isl (snd (retry_attempt E (nm k) op (retry_world E nm op w k)))"
    "retry_transaction E nm op m w = retry_attempt E (nm k) op (retry_world E nm op w k)"
    unfolding retry_transaction_def n by auto
  with assms show ?thesis by (intro exI [of _ k]) auto
qed

lemma retry_transaction_outcome_witness:
  "\<exists>k. int k \<le> 2 \<and>
     retry_transaction (doc_env (\<lambda>_. 7)) (\<lambda>i. ''T'')
       (\<lambda>w. (w\<lparr>doc_state := Suc (doc_state w)\<rparr>,
             if doc_state w < 1 then Inl (PyError ''OSError'') else Inr True)) 2
       \<lparr>txn_stack = [], doc_state = 0\<rparr>
     = retry_attempt (doc_env (\<lambda>_. 7)) ''T''
       (\<lambda>w. (w\<lparr>doc_state := Suc (doc_state w)\<rparr>,
             if doc_state w < 1 then Inl (PyError ''OSError'') else Inr True))
       (retry_world (doc_env (\<lambda>_. 7)) (\<lambda>i. ''T'')
       (\<lambda>w. (w\<lparr>doc_state := Suc (doc_state w)\<rparr>,
             if doc_state w < 1 then Inl (PyError ''OSError'') else Inr True))
        \<lparr>txn_stack = [], doc_state = 0\<rparr> k)"
  using retry_transaction_outcome [of 2 "doc_env (\<lambda>_. 7)" "\<lambda>i. ''T''"
     "\<lambda>w. (w\<lparr>doc_state := Suc (doc_state w)\<rparr>,
             if doc_state w < 1 then Inl (PyError ''OSError'') else Inr True)"
     "\<lparr>txn_stack = [], doc_state = 0\<rparr>"] by auto

end
