(* ===== verification/Cache.thy ===== *)
theory Cache
  imports Prelude "HOL-Library.While_Combinator"
begin

text \<open>
  The cache of the ORM: keys and entries of \<open>revitpy/orm/types.py\<close>, and \<open>MemoryCache\<close> of
  \<open>revitpy/orm/cache.py\<close>.

  Times are integers in microseconds, the resolution of \<open>datetime\<close>; every method that reads
  the clock takes the reading as an argument. \<open>_cache\<close>, an \<open>OrderedDict\<close>, is an ordered
  dictionary; the two dependency indexes are maps from a text to a set of texts, a set being a
  list without repetition in the order Python iterates over it (any order: no lemma depends on
  it). The locks do not appear: a method is one step. The memory estimate compares
  \<open>0.001 * n\<close> with a whole number of megabytes, which is \<open>n > 1000 * mb\<close>: at
  \<open>n = 1000 * mb\<close> the product rounds to \<open>mb\<close> itself.
\<close>

subsection \<open>Keys\<close>

datatype element_id = IntId int | StrId string | UuidId string

fun id_str :: "element_id \<Rightarrow> string" where
  "id_str (IntId i) = int_str i"
| "id_str (StrId s) = s"
| "id_str (UuidId s) = s"

fun id_truthy :: "element_id \<Rightarrow> bool" where
  "id_truthy (IntId i) = (i \<noteq> 0)"
| "id_truthy (StrId s) = (s \<noteq> [])"
| "id_truthy (UuidId s) = True"

record cache_key =
  entity_type :: string
  query_hash :: "string option"
  entity_id :: "element_id option"
  relationship_path :: "string option"

definition key_parts :: "cache_key \<Rightarrow> string list" where
  "key_parts k =
     [entity_type k]
     @ (case entity_id k of Some i \<Rightarrow> if id_truthy i then [''id:'' @ id_str i] else [] | None \<Rightarrow> [])
     @ (case query_hash k of Some q \<Rightarrow> if q \<noteq> [] then [''query:'' @ q] else [] | None \<Rightarrow> [])
     @ (case relationship_path k of Some r \<Rightarrow> if r \<noteq> [] then [''rel:'' @ r] else [] | None \<Rightarrow> [])"

definition key_str :: "cache_key \<Rightarrow> string" where
  "key_str k = bar_join (key_parts k)"

definition create_entity_cache_key :: "string \<Rightarrow> element_id \<Rightarrow> cache_key" where
  "create_entity_cache_key t i =
     \<lparr>entity_type = t, query_hash = None, entity_id = Some i, relationship_path = None\<rparr>"

definition create_query_cache_key :: "string \<Rightarrow> string \<Rightarrow> cache_key" where
  "create_query_cache_key t q =
     \<lparr>entity_type = t, query_hash = Some q, entity_id = None, relationship_path = None\<rparr>"

definition create_relationship_cache_key :: "string \<Rightarrow> element_id \<Rightarrow> string \<Rightarrow> cache_key" where
  "create_relationship_cache_key t i r =
     \<lparr>entity_type = t, query_hash = None, entity_id = Some i, relationship_path = Some r\<rparr>"

text \<open>What a key's text says of the key: each optional part, unless it is absent or empty.\<close>

definition text_of :: "string option \<Rightarrow> string option" where
  "text_of x = (case x of Some s \<Rightarrow> if s \<noteq> [] then Some s else None | None \<Rightarrow> None)"

definition id_text :: "element_id option \<Rightarrow> string option" where
  "id_text x = (case x of Some i \<Rightarrow> if id_truthy i then Some (id_str i) else None | None \<Rightarrow> None)"

definition key_view :: "cache_key \<Rightarrow> string \<times> string option \<times> string option \<times> string option" where
  "key_view k =
     (entity_type k, id_text (entity_id k), text_of (query_hash k), text_of (relationship_path k))"

definition bar_free :: "cache_key \<Rightarrow> bool" where
  "bar_free k \<longleftrightarrow> (\<forall>p \<in> set (key_parts k). CHR ''|'' \<notin> set p)"

definition opt_part :: "string \<Rightarrow> string option \<Rightarrow> string list" where
  "opt_part pre x = (case x of Some s \<Rightarrow> [pre @ s] | None \<Rightarrow> [])"

lemma key_parts_view:
  "key_parts k = (case key_view k of (t, i, q, r) \<Rightarrow>
     [t] @ opt_part ''id:'' i @ opt_part ''query:'' q @ opt_part ''rel:'' r)"
  by (auto simp: key_parts_def key_view_def opt_part_def id_text_def text_of_def
           split: option.splits)

lemma opt_parts_inj:
  assumes "opt_part ''id:'' i @ opt_part ''query:'' q @ opt_part ''rel:'' r
         = opt_part ''id:'' i' @ opt_part ''query:'' q' @ opt_part ''rel:'' r'"
  shows "i = i' \<and> q = q' \<and> r = r'"
  using assms
  by (cases i; cases q; cases r; cases i'; cases q'; cases r') (auto simp: opt_part_def)

lemma key_parts_eq_iff: "key_parts k = key_parts k' \<longleftrightarrow> key_view k = key_view k'"
proof
  assume eq: "key_parts k = key_parts k'"
  obtain t i q r where v: "key_view k = (t, i, q, r)" by (cases "key_view k")
  obtain t' i' q' r' where v': "key_view k' = (t', i', q', r')" by (cases "key_view k'")
  have "t = t'" "i = i' \<and> q = q' \<and> r = r'"
    using eq opt_parts_inj [of i q r i' q' r']
    unfolding key_parts_view [of k] key_parts_view [of k'] v v' by simp_all
  then show "key_view k = key_view k'" by (simp add: v v')
next
  assume "key_view k = key_view k'"
  then show "key_parts k = key_parts k'" by (simp only: key_parts_view)
qed

subsection \<open>Entries and configuration\<close>

record 'v cache_entry =
  ce_data :: "'v option"
  ce_created :: int
  ce_accessed :: int
  ce_count :: nat
  ce_ttl :: "int option"
  ce_deps :: "string list"

definition is_expired :: "int \<Rightarrow> 'v cache_entry \<Rightarrow> bool" where
  "is_expired now e =
     (case ce_ttl e of None \<Rightarrow> False | Some s \<Rightarrow> s * 1000000 < now - ce_created e)"

definition mark_accessed :: "int \<Rightarrow> 'v cache_entry \<Rightarrow> 'v cache_entry" where
  "mark_accessed now e = e\<lparr>ce_accessed := now, ce_count := Suc (ce_count e)\<rparr>"

datatype eviction_policy = LRU | LFU | FIFO | TTL | SIZE_BASED

record cache_config =
  max_size :: int
  max_memory_mb :: int
  default_ttl :: "int option"
  policy :: eviction_policy
  enable_statistics :: bool
  cleanup_interval :: int

text \<open>\<open>__post_init__\<close>: the message of the \<open>ValueError\<close>, or the configuration.\<close>

definition check_config :: "cache_config \<Rightarrow> string + cache_config" where
  "check_config cfg =
     (if max_size cfg \<le> 0 then Inl ''max_size must be positive''
      else if max_memory_mb cfg \<le> 0 then Inl ''max_memory_mb must be positive''
      else Inr cfg)"

definition config_ok :: "cache_config \<Rightarrow> bool" where
  "config_ok cfg \<longleftrightarrow> check_config cfg = Inr cfg"

lemma config_ok_iff: "config_ok cfg \<longleftrightarrow> 0 < max_size cfg \<and> 0 < max_memory_mb cfg"
  by (auto simp: config_ok_def check_config_def)

subsection \<open>The memory cache\<close>

record 'v mem_cache =
  mc_cache :: "(string, 'v cache_entry) dict"
  key_deps :: "string \<Rightarrow> string list option"
  rev_deps :: "string \<Rightarrow> string list option"
  last_cleanup :: int

definition empty_mem_cache :: "int \<Rightarrow> 'v mem_cache" where
  "empty_mem_cache now =
     \<lparr>mc_cache = [], key_deps = (\<lambda>_. None), rev_deps = (\<lambda>_. None), last_cleanup = now\<rparr>"

definition discard_dep ::
  "string \<Rightarrow> string \<Rightarrow> (string \<Rightarrow> string list option) \<Rightarrow> (string \<Rightarrow> string list option)" where
  "discard_dep k dep kd =
     (case kd dep of
        None \<Rightarrow> kd
      | Some s \<Rightarrow> (let s' = removeAll k s in if s' = [] then kd(dep := None) else kd(dep \<mapsto> s')))"

definition cleanup_dependencies :: "string \<Rightarrow> 'v mem_cache \<Rightarrow> 'v mem_cache" where
  "cleanup_dependencies k c =
     (case rev_deps c k of
        None \<Rightarrow> c
      | Some ds \<Rightarrow> c\<lparr>key_deps := fold (discard_dep k) ds (key_deps c),
                     rev_deps := (rev_deps c)(k := None)\<rparr>)"

text \<open>The two statements every removal of an entry consists of.\<close>

definition remove_key :: "string \<Rightarrow> 'v mem_cache \<Rightarrow> 'v mem_cache" where
  "remove_key k c = cleanup_dependencies k (c\<lparr>mc_cache := AList.delete k (mc_cache c)\<rparr>)"

definition victim :: "cache_config \<Rightarrow> (string, 'v cache_entry) dict \<Rightarrow> string" where
  "victim cfg d =
     (if policy cfg = LFU then fst (arg_min_list (\<lambda>p. ce_count (snd p)) d) else fst (hd d))"

definition evict_one :: "cache_config \<Rightarrow> 'v mem_cache \<Rightarrow> 'v mem_cache" where
  "evict_one cfg c =
     (if mc_cache c = [] then c else remove_key (victim cfg (mc_cache c)) c)"

text \<open>
  The two eviction loops: \<^const>\<open>None\<close> when a loop does not end. \<open>evict_one\<close> does nothing on
  an empty cache, so a limit that an empty cache exceeds would make them run forever.
\<close>

definition evict_over_size :: "cache_config \<Rightarrow> 'v mem_cache \<Rightarrow> 'v mem_cache option" where
  "evict_over_size cfg =
     while_option (\<lambda>c. max_size cfg \<le> int (length (mc_cache c))) (evict_one cfg)"

definition evict_over_memory :: "cache_config \<Rightarrow> 'v mem_cache \<Rightarrow> 'v mem_cache option" where
  "evict_over_memory cfg =
     while_option (\<lambda>c. max_memory_mb cfg * 1000 < int (length (mc_cache c))) (evict_one cfg)"

definition ensure_capacity :: "cache_config \<Rightarrow> 'v mem_cache \<Rightarrow> 'v mem_cache option" where
  "ensure_capacity cfg c = Option.bind (evict_over_size cfg c) (evict_over_memory cfg)"

definition cleanup_expired :: "int \<Rightarrow> 'v mem_cache \<Rightarrow> 'v mem_cache" where
  "cleanup_expired now c =
     fold remove_key (map fst (filter (\<lambda>p. is_expired now (snd p)) (mc_cache c))) c"

definition mem_get ::
  "cache_config \<Rightarrow> int \<Rightarrow> string \<Rightarrow> 'v mem_cache \<Rightarrow> 'v cache_entry option \<times> 'v mem_cache" where
  "mem_get cfg now k c =
     (case map_of (mc_cache c) k of
        None \<Rightarrow> (None, c)
      | Some e \<Rightarrow>
          (if is_expired now e then (None, remove_key k c)
           else
             (let e' = mark_accessed now e;
                  d = AList.update k e' (mc_cache c);
                  d' = (if policy cfg = LRU then move_to_end k d else d)
              in (Some e', c\<lparr>mc_cache := d'\<rparr>))))"

definition add_dep :: "string \<Rightarrow> string \<Rightarrow> 'v mem_cache \<Rightarrow> 'v mem_cache" where
  "add_dep k dep c =
     c\<lparr>key_deps := (key_deps c)(dep \<mapsto> pset_add k (case key_deps c dep of None \<Rightarrow> [] | Some s \<Rightarrow> s)),
       rev_deps := (rev_deps c)(k \<mapsto> pset_add dep (case rev_deps c k of None \<Rightarrow> [] | Some s \<Rightarrow> s))\<rparr>"

definition store_entry :: "string \<Rightarrow> 'v cache_entry \<Rightarrow> 'v mem_cache \<Rightarrow> 'v mem_cache" where
  "store_entry k e c =
     fold (add_dep k) (ce_deps e) (c\<lparr>mc_cache := AList.update k e (mc_cache c)\<rparr>)"

definition periodic_cleanup :: "cache_config \<Rightarrow> int \<Rightarrow> 'v mem_cache \<Rightarrow> 'v mem_cache" where
  "periodic_cleanup cfg now c =
     (if cleanup_interval cfg * 1000000 < now - last_cleanup c
      then (cleanup_expired now c)\<lparr>last_cleanup := now\<rparr> else c)"

definition mem_set ::
  "cache_config \<Rightarrow> int \<Rightarrow> string \<Rightarrow> 'v cache_entry \<Rightarrow> 'v mem_cache \<Rightarrow> (bool \<times> 'v mem_cache) option" where
  "mem_set cfg now k e c =
     (case ensure_capacity cfg c of
        None \<Rightarrow> None
      | Some c1 \<Rightarrow> Some (True, periodic_cleanup cfg now (store_entry k e c1)))"

definition mem_delete :: "string \<Rightarrow> 'v mem_cache \<Rightarrow> bool \<times> 'v mem_cache" where
  "mem_delete k c =
     (if k \<in> set (dict_keys (mc_cache c)) then (True, remove_key k c) else (False, c))"

definition mem_clear :: "'v mem_cache \<Rightarrow> 'v mem_cache" where
  "mem_clear c = c\<lparr>mc_cache := [], key_deps := (\<lambda>_. None), rev_deps := (\<lambda>_. None)\<rparr>"

text \<open>\<open>keys\<close> rebuilds each key from the part of its text before the first bar only.\<close>

definition mem_keys :: "'v mem_cache \<Rightarrow> cache_key list" where
  "mem_keys c =
     map (\<lambda>s. \<lparr>entity_type = hd (bar_split s), query_hash = None, entity_id = None,
               relationship_path = None\<rparr>) (dict_keys (mc_cache c))"

definition mem_size :: "'v mem_cache \<Rightarrow> nat" where
  "mem_size c = length (mc_cache c)"

definition invalidate_one ::
  "string \<Rightarrow> string list \<times> 'v mem_cache \<Rightarrow> string list \<times> 'v mem_cache" where
  "invalidate_one k p =
     (case p of (acc, c) \<Rightarrow>
        if k \<in> set (dict_keys (mc_cache c)) then (pset_add k acc, remove_key k c) else (acc, c))"

definition invalidate_dependencies :: "string \<Rightarrow> 'v mem_cache \<Rightarrow> string list \<times> 'v mem_cache" where
  "invalidate_dependencies dep c =
     (case key_deps c dep of None \<Rightarrow> ([], c) | Some ks \<Rightarrow> fold invalidate_one ks ([], c))"

subsection \<open>The dependency indexes\<close>

definition dset :: "(string \<Rightarrow> string list option) \<Rightarrow> string \<Rightarrow> string set" where
  "dset m x = (case m x of None \<Rightarrow> {} | Some s \<Rightarrow> set s)"

definition index_ok :: "(string \<Rightarrow> string list option) \<Rightarrow> bool" where
  "index_ok m \<longleftrightarrow> (\<forall>x s. m x = Some s \<longrightarrow> s \<noteq> [] \<and> distinct s)"

named_theorems dep_simps \<open>what the operations do to the dependency indexes\<close>

lemma index_ok_empty [simp]: "index_ok (\<lambda>_. None)" by (simp add: index_ok_def)

lemma dset_empty [simp]: "dset (\<lambda>_. None) x = {}" by (simp add: dset_def)

lemma dset_upd [dep_simps]:
  "dset (m(x := v)) y = (if y = x then (case v of None \<Rightarrow> {} | Some s \<Rightarrow> set s) else dset m y)"
  by (simp add: dset_def)

lemma dset_discard [dep_simps]:
  "dset (discard_dep k dep kd) x = (if x = dep then dset kd x - {k} else dset kd x)"
proof (cases "kd dep")
  case (Some s)
  have "removeAll k s = [] \<longleftrightarrow> set s - {k} = {}" by (metis set_empty set_removeAll)
  with Some show ?thesis
    by (cases "removeAll k s = []") (simp_all add: discard_dep_def dset_def Let_def)
qed (simp add: discard_dep_def dset_def)

lemma index_ok_discard [intro]: "index_ok kd \<Longrightarrow> index_ok (discard_dep k dep kd)"
  unfolding index_ok_def discard_dep_def Let_def by (auto simp: distinct_removeAll split: option.splits)

lemma dset_discard_all [dep_simps]:
  "dset (fold (discard_dep k) ds kd) x = (if x \<in> set ds then dset kd x - {k} else dset kd x)"
  by (induction ds arbitrary: kd) (auto simp: dset_discard)

lemma index_ok_discard_all [intro]: "index_ok kd \<Longrightarrow> index_ok (fold (discard_dep k) ds kd)"
  by (induction ds arbitrary: kd) auto

subsection \<open>The invariant of the memory cache\<close>

definition mc_inv :: "'v mem_cache \<Rightarrow> bool" where
  "mc_inv c \<longleftrightarrow>
     dict_ok (mc_cache c) \<and> index_ok (key_deps c) \<and> index_ok (rev_deps c) \<and>
     (\<forall>k d. k \<in> dset (key_deps c) d \<longleftrightarrow> d \<in> dset (rev_deps c) k) \<and>
     (\<forall>k. rev_deps c k \<noteq> None \<longrightarrow> k \<in> fst ` set (mc_cache c)) \<and>
     (\<forall>k e. map_of (mc_cache c) k = Some e \<longrightarrow> set (ce_deps e) \<subseteq> dset (rev_deps c) k)"

lemma mc_invI [intro?]:
  assumes "dict_ok (mc_cache c)" "index_ok (key_deps c)" "index_ok (rev_deps c)"
    and "\<And>k d. k \<in> dset (key_deps c) d \<longleftrightarrow> d \<in> dset (rev_deps c) k"
    and "\<And>k ds. rev_deps c k = Some ds \<Longrightarrow> k \<in> fst ` set (mc_cache c)"
    and "\<And>k e. map_of (mc_cache c) k = Some e \<Longrightarrow> set (ce_deps e) \<subseteq> dset (rev_deps c) k"
  shows "mc_inv c"
  using assms by (auto simp: mc_inv_def)

lemma mc_invD:
  assumes "mc_inv c"
  shows "dict_ok (mc_cache c)" "index_ok (key_deps c)" "index_ok (rev_deps c)"
    and "k \<in> dset (key_deps c) d \<longleftrightarrow> d \<in> dset (rev_deps c) k"
    and "rev_deps c k = Some ds \<Longrightarrow> k \<in> fst ` set (mc_cache c)"
    and "map_of (mc_cache c) k = Some e \<Longrightarrow> set (ce_deps e) \<subseteq> dset (rev_deps c) k"
proof -
  show "dict_ok (mc_cache c)" "index_ok (key_deps c)" "index_ok (rev_deps c)"
    "k \<in> dset (key_deps c) d \<longleftrightarrow> d \<in> dset (rev_deps c) k"
    using assms by (auto simp: mc_inv_def)
  show "rev_deps c k = Some ds \<Longrightarrow> k \<in> fst ` set (mc_cache c)"
    using assms unfolding mc_inv_def by (metis option.distinct(1))
  show "map_of (mc_cache c) k = Some e \<Longrightarrow> set (ce_deps e) \<subseteq> dset (rev_deps c) k"
    using assms unfolding mc_inv_def by blast
qed

lemma mc_inv_empty [simp]: "mc_inv (empty_mem_cache now)"
  by (rule mc_invI) (simp_all add: empty_mem_cache_def)

lemma mc_inv_clear [simp]: "mc_inv (mem_clear c)"
  by (rule mc_invI) (simp_all add: mem_clear_def)

lemma cleanup_fields [simp]:
  "mc_cache (cleanup_dependencies k c) = mc_cache c"
  "last_cleanup (cleanup_dependencies k c) = last_cleanup c"
  by (simp_all add: cleanup_dependencies_def split: option.splits)

lemma remove_key_fields [simp]:
  "mc_cache (remove_key k c) = AList.delete k (mc_cache c)"
  "last_cleanup (remove_key k c) = last_cleanup c"
  by (simp_all add: remove_key_def)

lemma remove_key_rev [dep_simps]: "rev_deps (remove_key k c) = (rev_deps c)(k := None)"
  by (auto simp: remove_key_def cleanup_dependencies_def split: option.splits)

lemma remove_key_deps [dep_simps]:
  assumes "mc_inv c"
  shows "dset (key_deps (remove_key k c)) d = dset (key_deps c) d - {k}"
proof (cases "rev_deps c k")
  case None
  then have "k \<notin> dset (key_deps c) d"
    unfolding mc_invD(4) [OF assms] by (simp add: dset_def)
  with None show ?thesis by (simp add: remove_key_def cleanup_dependencies_def)
next
  case (Some ds)
  have "d \<notin> set ds \<Longrightarrow> k \<notin> dset (key_deps c) d"
    using Some unfolding mc_invD(4) [OF assms] by (simp add: dset_def)
  with Some show ?thesis by (simp add: remove_key_def cleanup_dependencies_def dset_discard_all)
qed

lemma mc_inv_remove_key [intro]:
  assumes "mc_inv c"
  shows "mc_inv (remove_key k c)"
proof
  note inv = mc_invD [OF assms]
  show "dict_ok (mc_cache (remove_key k c))" using inv(1) by simp
  show "index_ok (key_deps (remove_key k c))"
    using inv(2) by (auto simp: remove_key_def cleanup_dependencies_def split: option.splits)
  show "index_ok (rev_deps (remove_key k c))"
    using inv(3) by (auto simp: dep_simps index_ok_def)
  show "(k' \<in> dset (key_deps (remove_key k c)) d) = (d \<in> dset (rev_deps (remove_key k c)) k')" for k' d
    using inv(4) [of k' d] by (simp add: dep_simps remove_key_deps [OF assms])
  show "k' \<in> fst ` set (mc_cache (remove_key k c))" if "rev_deps (remove_key k c) k' = Some ds" for k' ds
    using that inv(5) [of k' ds] by (simp add: dep_simps split: if_splits)
  show "set (ce_deps e) \<subseteq> dset (rev_deps (remove_key k c)) k'"
    if "map_of (mc_cache (remove_key k c)) k' = Some e" for k' e
    using that inv(6) [of k' e] by (simp add: dep_simps split: if_splits)
qed

lemma mc_inv_fold_remove: "mc_inv c \<Longrightarrow> mc_inv (fold remove_key ks c)"
  by (induction ks arbitrary: c) auto

lemma mc_cache_fold_remove:
  "mc_cache (fold remove_key ks c) = filter (\<lambda>p. fst p \<notin> set ks) (mc_cache c)"
  by (induction ks arbitrary: c)
    (auto simp: AList.delete_eq filter_filter intro!: filter_cong)

lemma add_dep_fields [simp]:
  "mc_cache (add_dep k d c) = mc_cache c" "last_cleanup (add_dep k d c) = last_cleanup c"
  by (simp_all add: add_dep_def)

lemma add_deps_fields [simp]:
  "mc_cache (fold (add_dep k) ds c) = mc_cache c"
  "last_cleanup (fold (add_dep k) ds c) = last_cleanup c"
  by (induction ds arbitrary: c) simp_all

lemma add_deps_key [dep_simps]:
  "dset (key_deps (fold (add_dep k) ds c)) d =
     (if d \<in> set ds then insert k (dset (key_deps c) d) else dset (key_deps c) d)"
  by (induction ds arbitrary: c) (auto simp: add_dep_def dset_def split: option.splits)

lemma add_deps_rev [dep_simps]:
  "dset (rev_deps (fold (add_dep k) ds c)) k' =
     (if k' = k then dset (rev_deps c) k' \<union> set ds else dset (rev_deps c) k')"
  by (induction ds arbitrary: c) (auto simp: add_dep_def dset_def split: option.splits)

lemma add_deps_rev_other: "k' \<noteq> k \<Longrightarrow> rev_deps (fold (add_dep k) ds c) k' = rev_deps c k'"
  by (induction ds arbitrary: c) (simp_all add: add_dep_def)

lemma index_ok_add_dep:
  assumes "index_ok (key_deps c)" "index_ok (rev_deps c)"
  shows "index_ok (key_deps (add_dep k d c)) \<and> index_ok (rev_deps (add_dep k d c))"
proof -
  have "index_ok (m(x \<mapsto> pset_add y (case m x of None \<Rightarrow> [] | Some s \<Rightarrow> s)))"
    if "index_ok m" for m x y
    using that unfolding index_ok_def pset_add_def by (auto split: option.splits)
  with assms show ?thesis by (simp add: add_dep_def)
qed

lemma index_ok_add_deps:
  "index_ok (key_deps c) \<Longrightarrow> index_ok (rev_deps c) \<Longrightarrow>
   index_ok (key_deps (fold (add_dep k) ds c)) \<and> index_ok (rev_deps (fold (add_dep k) ds c))"
  by (induction ds arbitrary: c) (auto simp: index_ok_add_dep)

lemma store_entry_cache [simp]:
  "mc_cache (store_entry k e c) = AList.update k e (mc_cache c)"
  "last_cleanup (store_entry k e c) = last_cleanup c"
  by (simp_all add: store_entry_def)

lemma mc_inv_store [intro]:
  assumes "mc_inv c"
  shows "mc_inv (store_entry k e c)"
proof
  note inv = mc_invD [OF assms]
  let ?c = "store_entry k e c"
  show "dict_ok (mc_cache ?c)" using inv(1) by simp
  show "index_ok (key_deps ?c)" "index_ok (rev_deps ?c)"
    unfolding store_entry_def by (rule index_ok_add_deps [THEN conjunct1]
        index_ok_add_deps [THEN conjunct2]; simp add: inv(2,3))+
  show "(k' \<in> dset (key_deps ?c) d) = (d \<in> dset (rev_deps ?c) k')" for k' d
    using inv(4) [of k' d] by (auto simp: store_entry_def dep_simps)
  show "k' \<in> fst ` set (mc_cache ?c)" if "rev_deps ?c k' = Some ds" for k' ds
    using that inv(5) [of k' ds] by (cases "k' = k") (simp_all add: store_entry_def add_deps_rev_other)
  show "set (ce_deps e') \<subseteq> dset (rev_deps ?c) k'" if "map_of (mc_cache ?c) k' = Some e'" for k' e'
    using that inv(6) [of k' e'] by (auto simp: store_entry_def dep_simps split: if_splits)
qed

lemma mc_inv_last_cleanup [simp]: "mc_inv (c\<lparr>last_cleanup := t\<rparr>) = mc_inv c"
  by (simp add: mc_inv_def)

lemma cleanup_expired_cache:
  assumes "dict_ok (mc_cache c)"
  shows "mc_cache (cleanup_expired now c) = filter (\<lambda>p. \<not> is_expired now (snd p)) (mc_cache c)"
proof -
  have "fst p \<in> fst ` set (filter (\<lambda>p. is_expired now (snd p)) (mc_cache c)) \<longleftrightarrow> is_expired now (snd p)"
    (is "?l \<longleftrightarrow> ?r") if "p \<in> set (mc_cache c)" for p
  proof
    assume ?l
    then obtain q where "q \<in> set (mc_cache c)" "is_expired now (snd q)" "fst q = fst p" by auto
    moreover from this that have "snd q = snd p"
      using eq_key_imp_eq_value [OF assms] by (metis prod.collapse)
    ultimately show ?r by simp
  next
    assume ?r
    then show ?l using that by auto
  qed
  then show ?thesis unfolding cleanup_expired_def mc_cache_fold_remove set_map
    by (intro filter_cong refl) blast
qed

lemma mc_inv_periodic [intro]: "mc_inv c \<Longrightarrow> mc_inv (periodic_cleanup cfg now c)"
  by (simp add: periodic_cleanup_def cleanup_expired_def mc_inv_fold_remove)

subsection \<open>Eviction\<close>

lemma victim_present: "d \<noteq> [] \<Longrightarrow> victim cfg d \<in> fst ` set d"
  by (simp add: victim_def arg_min_list_in)

lemma mc_inv_evict_one [intro]: "mc_inv c \<Longrightarrow> mc_inv (evict_one cfg c)"
  by (auto simp: evict_one_def)

lemma evict_one_shrinks:
  assumes "mc_inv c" and "mc_cache c \<noteq> []"
  shows "length (mc_cache (evict_one cfg c)) < length (mc_cache c)"
  using assms length_delete_present [OF mc_invD(1) [OF assms(1)] victim_present [OF assms(2)]]
  by (simp add: evict_one_def)

lemma evict_while:
  assumes "mc_inv c" and "\<And>c. b c \<Longrightarrow> mc_cache c \<noteq> []"
  shows "\<exists>c'. while_option b (evict_one cfg) c = Some c' \<and> mc_inv c' \<and> \<not> b c' \<and>
           length (mc_cache c') \<le> length (mc_cache c)"
proof -
  obtain c' where c': "while_option b (evict_one cfg) c = Some c'"
    using measure_while_option_Some [of mc_inv b "evict_one cfg" "\<lambda>c. length (mc_cache c)" c]
      assms evict_one_shrinks by blast
  have step: "mc_inv (evict_one cfg s) \<and> length (mc_cache (evict_one cfg s)) \<le> length (mc_cache c)"
    if "mc_inv s \<and> length (mc_cache s) \<le> length (mc_cache c)" "b s" for s
    using that evict_one_shrinks [of s cfg] assms(2) [of s] by auto
  have "mc_inv c' \<and> length (mc_cache c') \<le> length (mc_cache c)"
    by (rule while_option_rule [where P = "\<lambda>s. mc_inv s \<and> length (mc_cache s) \<le> length (mc_cache c)", OF _ c'])
      (use assms(1) step in auto)
  with c' while_option_stop [OF c'] show ?thesis by blast
qed

lemma ensure_capacity_ok:
  assumes "config_ok cfg" and "mc_inv c"
  shows "\<exists>c'. ensure_capacity cfg c = Some c' \<and> mc_inv c' \<and>
           int (mem_size c') < max_size cfg \<and> int (mem_size c') \<le> max_memory_mb cfg * 1000"
proof -
  have pos: "0 < max_size cfg" "0 < max_memory_mb cfg" using assms(1) by (auto simp: config_ok_iff)
  obtain c1 where c1: "evict_over_size cfg c = Some c1" "mc_inv c1" "int (length (mc_cache c1)) < max_size cfg"
    using evict_while [OF assms(2), of "\<lambda>c. max_size cfg \<le> int (length (mc_cache c))" cfg] pos
    unfolding evict_over_size_def by (fastforce simp: not_le)
  obtain c2 where "evict_over_memory cfg c1 = Some c2" "mc_inv c2"
    "int (length (mc_cache c2)) \<le> max_memory_mb cfg * 1000" "length (mc_cache c2) \<le> length (mc_cache c1)"
    using evict_while [OF c1(2), of "\<lambda>c. max_memory_mb cfg * 1000 < int (length (mc_cache c))" cfg] pos
    unfolding evict_over_memory_def by (fastforce simp: not_less)
  with c1 show ?thesis by (auto simp: ensure_capacity_def mem_size_def)
qed

lemma evict_one_front:
  assumes "policy cfg \<noteq> LFU" and "dict_ok (mc_cache c)"
  shows "mc_cache (evict_one cfg c) = tl (mc_cache c)"
proof (cases "mc_cache c")
  case (Cons p ps)
  with assms(2) have "AList.delete (fst p) ps = ps" by (auto intro: delete_idem simp: image_iff)
  with Cons assms(1) show ?thesis by (cases p) (simp add: evict_one_def victim_def)
qed (simp add: evict_one_def)

lemma evict_while_front:
  assumes "policy cfg \<noteq> LFU" and "mc_inv c"
    and c': "while_option (\<lambda>c. m < length (mc_cache c)) (evict_one cfg) c = Some c'"
  shows "mc_cache c' = drop (length (mc_cache c) - m) (mc_cache c)"
proof -
  let ?P = "\<lambda>s. mc_inv s \<and> (\<exists>n \<le> length (mc_cache c) - m. mc_cache s = drop n (mc_cache c))"
  have step: "?P (evict_one cfg s)" if P: "?P s" and b: "m < length (mc_cache s)" for s
  proof -
    obtain n where n: "n \<le> length (mc_cache c) - m" "mc_cache s = drop n (mc_cache c)" using P by blast
    have "mc_inv s" using P by simp
    from evict_one_front [OF assms(1) mc_invD(1) [OF this]] n(2)
    have "mc_cache (evict_one cfg s) = drop (Suc n) (mc_cache c)" by (simp add: drop_Suc tl_drop)
    moreover have "Suc n \<le> length (mc_cache c) - m" using n b by simp
    ultimately show ?thesis using P by blast
  qed
  have "?P c'"
    by (rule while_option_rule [where P = ?P, OF _ c'])
      (use assms(2) step in \<open>auto intro: exI [of _ 0]\<close>)
  then obtain n where n: "n \<le> length (mc_cache c) - m" "mc_cache c' = drop n (mc_cache c)" by blast
  have "length (mc_cache c') \<le> m" using while_option_stop [OF c'] by simp
  then have "n = length (mc_cache c) - m" using n by simp
  with n(2) show ?thesis by simp
qed

lemma ensure_capacity_front:
  assumes "config_ok cfg" "policy cfg \<noteq> LFU" "mc_inv c" "ensure_capacity cfg c = Some c'"
  shows "mc_cache c' =
    drop (length (mc_cache c) - min (nat (max_size cfg) - 1) (nat (max_memory_mb cfg * 1000))) (mc_cache c)"
proof -
  have pos: "0 < max_size cfg" "0 < max_memory_mb cfg" using assms(1) by (auto simp: config_ok_iff)
  have b1: "(max_size cfg \<le> int n) = (nat (max_size cfg) - 1 < n)" for n using pos(1) by linarith
  have b2: "(max_memory_mb cfg * 1000 < int n) = (nat (max_memory_mb cfg * 1000) < n)" for n
    using pos(2) by linarith
  obtain c1 where c1: "while_option (\<lambda>c. nat (max_size cfg) - 1 < length (mc_cache c)) (evict_one cfg) c = Some c1"
    "while_option (\<lambda>c. nat (max_memory_mb cfg * 1000) < length (mc_cache c)) (evict_one cfg) c1 = Some c'"
    using assms(4)
    unfolding ensure_capacity_def evict_over_size_def evict_over_memory_def b1 b2
    by (auto simp: bind_eq_Some_conv)
  have "mc_inv c1"
    using evict_while [OF assms(3), of "\<lambda>c. nat (max_size cfg) - 1 < length (mc_cache c)" cfg] c1(1)
    by fastforce
  have "mc_cache c' = drop (length (mc_cache c1) - b) (drop (length (mc_cache c) - a) (mc_cache c))"
    "length (mc_cache c1) = length (mc_cache c) - (length (mc_cache c) - a)"
    if "a = nat (max_size cfg) - 1" "b = nat (max_memory_mb cfg * 1000)" for a b
    using evict_while_front [OF assms(2) \<open>mc_inv c1\<close> c1(2)] evict_while_front [OF assms(2,3) c1(1)]
    by (simp_all add: that del: drop_drop)
  moreover have "length (mc_cache c) - (length (mc_cache c) - a) - b + (length (mc_cache c) - a)
    = length (mc_cache c) - min a b" for a b by linarith
  ultimately show ?thesis by simp
qed

subsection \<open>The operations keep the invariant\<close>

lemma mc_inv_touch:
  assumes "mc_inv c" "dict_ok d" "fst ` set d = fst ` set (mc_cache c)"
    and "\<And>k e. map_of d k = Some e \<Longrightarrow> \<exists>e0. map_of (mc_cache c) k = Some e0 \<and> ce_deps e = ce_deps e0"
  shows "mc_inv (c\<lparr>mc_cache := d\<rparr>)"
proof
  note inv = mc_invD [OF assms(1)]
  show "set (ce_deps e) \<subseteq> dset (rev_deps (c\<lparr>mc_cache := d\<rparr>)) k"
    if "map_of (mc_cache (c\<lparr>mc_cache := d\<rparr>)) k = Some e" for k e
    using that assms(4) [of k e] inv(6) [of k] by auto
qed (use mc_invD [OF assms(1)] assms(2,3) in auto)

lemma mark_accessed_fields [simp]:
  "ce_deps (mark_accessed now e) = ce_deps e" "ce_data (mark_accessed now e) = ce_data e"
  "is_expired t (mark_accessed now e) = is_expired t e"
  "ce_created (mark_accessed now e) = ce_created e" "ce_ttl (mark_accessed now e) = ce_ttl e"
  by (simp_all split: option.splits add: mark_accessed_def is_expired_def)

lemma mc_inv_get:
  assumes "mc_inv c"
  shows "mc_inv (snd (mem_get cfg now k c))"
proof (cases "map_of (mc_cache c) k")
  case (Some e)
  have k: "insert k (fst ` set (mc_cache c)) = fst ` set (mc_cache c)"
    using map_of_Some_keys [OF Some] by auto
  have "mc_inv (c\<lparr>mc_cache := d\<rparr>)"
    if "d = AList.update k (mark_accessed now e) (mc_cache c) \<or>
        d = move_to_end k (AList.update k (mark_accessed now e) (mc_cache c))" for d
  proof (rule mc_inv_touch [OF assms])
    show "dict_ok d" using that mc_invD(1) [OF assms] by auto
    show "fst ` set d = fst ` set (mc_cache c)"
      using that by (elim disjE) (simp_all only: set_keys_update set_keys_move_to_end k)
    show "\<exists>e0. map_of (mc_cache c) k' = Some e0 \<and> ce_deps e' = ce_deps e0"
      if "map_of d k' = Some e'" for k' e'
      using that \<open>d = _ \<or> d = _\<close> Some
      by (elim disjE) (simp_all only: map_of_update map_of_move_to_end fun_upd_apply, auto split: if_splits)
  qed
  with Some assms show ?thesis by (auto simp: mem_get_def Let_def)
qed (simp add: mem_get_def assms)

lemma mem_size_get:
  assumes "mc_inv c"
  shows "mem_size (snd (mem_get cfg now k c)) \<le> mem_size c"
  using map_of_Some_keys [of "mc_cache c" k] mc_invD(1) [OF assms]
  by (auto simp: mem_get_def mem_size_def Let_def length_update length_delete_le split: option.splits)

lemma mc_inv_delete: "mc_inv c \<Longrightarrow> mc_inv (snd (mem_delete k c))"
  by (auto simp: mem_delete_def)

lemma mem_size_remove: "mem_size (remove_key k c) \<le> mem_size c"
  by (simp add: mem_size_def length_delete_le)

lemma mem_size_periodic: "mem_size (periodic_cleanup cfg now c) \<le> mem_size c"
  by (simp add: periodic_cleanup_def mem_size_def cleanup_expired_def mc_cache_fold_remove)

lemma mem_set_ok:
  assumes "config_ok cfg" and "mc_inv c"
  shows "\<exists>c'. mem_set cfg now k e c = Some (True, c') \<and> mc_inv c' \<and>
           int (mem_size c') \<le> max_size cfg \<and> int (mem_size c') \<le> max_memory_mb cfg * 1000 + 1"
proof -
  obtain c1 where c1: "ensure_capacity cfg c = Some c1" "mc_inv c1"
    "int (mem_size c1) < max_size cfg" "int (mem_size c1) \<le> max_memory_mb cfg * 1000"
    using ensure_capacity_ok [OF assms] by blast
  let ?c = "periodic_cleanup cfg now (store_entry k e c1)"
  have "mem_size ?c \<le> Suc (mem_size c1)"
    using mem_size_periodic [of cfg now "store_entry k e c1"] by (simp add: mem_size_def length_update split: if_splits)
  with c1 show ?thesis by (auto simp: mem_set_def)
qed

lemma mc_inv_invalidate_all:
  assumes "mc_inv c"
  shows "mc_inv (snd (fold invalidate_one ks (acc, c))) \<and>
         mc_cache (snd (fold invalidate_one ks (acc, c))) = filter (\<lambda>p. fst p \<notin> set ks) (mc_cache c) \<and>
         set (fst (fold invalidate_one ks (acc, c))) = set acc \<union> (set ks \<inter> fst ` set (mc_cache c)) \<and>
         (distinct acc \<longrightarrow> distinct (fst (fold invalidate_one ks (acc, c))))"
  using assms
proof (induction ks arbitrary: acc c)
  case (Cons k ks)
  show ?case
  proof (cases "k \<in> fst ` set (mc_cache c)")
    case True
    have "filter (\<lambda>p. fst p \<notin> set ks) (AList.delete k (mc_cache c)) =
          filter (\<lambda>p. fst p \<notin> set (k # ks)) (mc_cache c)"
      by (simp add: AList.delete_eq) (metis (mono_tags, lifting) case_prod_unfold)
    with True Cons.IH [OF mc_inv_remove_key [OF Cons.prems], of "pset_add k acc"]
    show ?thesis by (auto simp: invalidate_one_def)
  next
    case False
    then have "filter (\<lambda>p. fst p \<notin> set (k # ks)) (mc_cache c) = filter (\<lambda>p. fst p \<notin> set ks) (mc_cache c)"
      by (intro filter_cong) auto
    with False Cons.IH [OF Cons.prems, of acc] show ?thesis by (auto simp: invalidate_one_def)
  qed
qed auto

lemma key_deps_cached:
  assumes "mc_inv c" shows "dset (key_deps c) d \<subseteq> fst ` set (mc_cache c)"
proof
  fix k assume "k \<in> dset (key_deps c) d"
  then have "d \<in> dset (rev_deps c) k" using mc_invD(4) [OF assms] by blast
  then obtain ds where "rev_deps c k = Some ds" by (auto simp: dset_def split: option.splits)
  then show "k \<in> fst ` set (mc_cache c)" by (rule mc_invD(5) [OF assms])
qed

lemma invalidate_dependencies_lookup:
  assumes "mc_inv c"
  shows "mc_inv (snd (invalidate_dependencies d c)) \<and>
         mc_cache (snd (invalidate_dependencies d c)) = filter (\<lambda>p. fst p \<notin> dset (key_deps c) d) (mc_cache c) \<and>
         set (fst (invalidate_dependencies d c)) = dset (key_deps c) d \<and>
         distinct (fst (invalidate_dependencies d c))"
proof (cases "key_deps c d")
  case (Some ks)
  with mc_inv_invalidate_all [OF assms, of ks "[]"] key_deps_cached [OF assms, of d]
  show ?thesis by (auto simp: invalidate_dependencies_def dset_def)
qed (simp_all add: invalidate_dependencies_def dset_def assms)

subsection \<open>Runs of the cache\<close>

text \<open>Any sequence of calls; \<^const>\<open>None\<close> when a call does not return.\<close>

datatype 'v mem_op =
    MGet int string
  | MSet int string "'v cache_entry"
  | MDelete string
  | MClear
  | MInvalidate string

fun mem_exec :: "cache_config \<Rightarrow> 'v mem_op \<Rightarrow> 'v mem_cache \<Rightarrow> 'v mem_cache option" where
  "mem_exec cfg (MGet now k) c = Some (snd (mem_get cfg now k c))"
| "mem_exec cfg (MSet now k e) c = map_option snd (mem_set cfg now k e c)"
| "mem_exec cfg (MDelete k) c = Some (snd (mem_delete k c))"
| "mem_exec cfg MClear c = Some (mem_clear c)"
| "mem_exec cfg (MInvalidate d) c = Some (snd (invalidate_dependencies d c))"

fun mem_run :: "cache_config \<Rightarrow> 'v mem_op list \<Rightarrow> 'v mem_cache \<Rightarrow> 'v mem_cache option" where
  "mem_run cfg [] c = Some c"
| "mem_run cfg (p # ps) c = Option.bind (mem_exec cfg p c) (mem_run cfg ps)"

definition within_limits :: "cache_config \<Rightarrow> 'v mem_cache \<Rightarrow> bool" where
  "within_limits cfg c \<longleftrightarrow>
     int (mem_size c) \<le> max_size cfg \<and> int (mem_size c) \<le> max_memory_mb cfg * 1000 + 1"

lemma within_limits_le: "within_limits cfg c \<Longrightarrow> mem_size c' \<le> mem_size c \<Longrightarrow> within_limits cfg c'"
  by (simp add: within_limits_def)

lemma mem_exec_ok:
  assumes "config_ok cfg" "mc_inv c" "within_limits cfg c"
  shows "\<exists>c'. mem_exec cfg p c = Some c' \<and> mc_inv c' \<and> within_limits cfg c'"
proof (cases p)
  case (MSet now k e)
  with mem_set_ok [OF assms(1,2), of now k e] show ?thesis by (auto simp: within_limits_def)
next
  case (MGet now k)
  with assms mem_size_get [OF assms(2), of cfg now k] show ?thesis
    by (auto intro: mc_inv_get within_limits_le)
next
  case (MDelete k)
  with assms mem_size_remove [of k c] show ?thesis
    by (auto simp: mem_delete_def intro: within_limits_le)
next
  case MClear
  then show ?thesis using within_limits_le [OF assms(3), of "mem_clear c"] mc_inv_clear [of c] by (simp add: mem_clear_def mem_size_def)
next
  case (MInvalidate d)
  with assms(3) invalidate_dependencies_lookup [OF assms(2), of d] show ?thesis
    by (auto simp: mem_size_def intro!: within_limits_le [OF assms(3)])
qed

lemma mem_run_ok:
  "config_ok cfg \<Longrightarrow> mc_inv c \<Longrightarrow> within_limits cfg c \<Longrightarrow>
   \<exists>c'. mem_run cfg ps c = Some c' \<and> mc_inv c' \<and> within_limits cfg c'"
proof (induction ps arbitrary: c)
  case (Cons p ps)
  obtain c1 where "mem_exec cfg p c = Some c1" "mc_inv c1" "within_limits cfg c1"
    using mem_exec_ok Cons.prems by blast
  then show ?case using Cons.IH [OF Cons.prems(1)] by simp
qed simp

subsection \<open>Properties\<close>

lemma mem_run_cache_ok:
  assumes "config_ok cfg"
  shows "\<exists>c. mem_run cfg ps (empty_mem_cache t0) = Some c \<and> mc_inv c \<and> within_limits cfg c"
proof (rule mem_run_ok [OF assms mc_inv_empty])
  show "within_limits cfg (empty_mem_cache t0)"
    using assms by (simp add: within_limits_def mem_size_def empty_mem_cache_def config_ok_iff)
qed

abbreviation sample_config :: "int \<Rightarrow> eviction_policy \<Rightarrow> cache_config" where
  "sample_config n p \<equiv> \<lparr>max_size = n, max_memory_mb = 500, default_ttl = Some 3600, policy = p,
                        enable_statistics = True, cleanup_interval = 300\<rparr>"

abbreviation sample_entry :: "nat \<Rightarrow> int \<Rightarrow> string list \<Rightarrow> nat cache_entry" where
  "sample_entry v t ds \<equiv> \<lparr>ce_data = Some v, ce_created = t, ce_accessed = t, ce_count = 0,
                          ce_ttl = Some 2, ce_deps = ds\<rparr>"

text \<open>
  C7: A memory cache with a configuration that \<open>__post_init__\<close> accepts never loops: every
  sequence of calls on a new cache returns. Afterwards the two dependency indexes are inverse
  to each other and mention cached keys only, every cached entry is indexed under each of its
  dependencies, and the cache is within its size limit and at most one entry over its memory
  limit (the entry stored after the eviction).
\<close>

theorem mem_run_safe:
  assumes "config_ok cfg"
  shows "\<exists>c. mem_run cfg ps (empty_mem_cache t0) = Some c \<and>
           int (mem_size c) \<le> max_size cfg \<and> int (mem_size c) \<le> max_memory_mb cfg * 1000 + 1 \<and>
           dict_ok (mc_cache c) \<and>
           (\<forall>k d. k \<in> dset (key_deps c) d \<longleftrightarrow> d \<in> dset (rev_deps c) k) \<and>
           (\<forall>d. dset (key_deps c) d \<subseteq> fst ` set (mc_cache c)) \<and>
           (\<forall>(k, e) \<in> set (mc_cache c). set (ce_deps e) \<subseteq> dset (rev_deps c) k)"
proof -
  obtain c where c: "mem_run cfg ps (empty_mem_cache t0) = Some c" "mc_inv c" "within_limits cfg c"
    using mem_run_cache_ok [OF assms] by blast
  note inv = mc_invD [OF c(2)]
  have "\<forall>(k, e) \<in> set (mc_cache c). set (ce_deps e) \<subseteq> dset (rev_deps c) k"
    using inv(6) map_of_is_SomeI [OF inv(1)] by blast
  with c inv(1,4) key_deps_cached [OF c(2)] show ?thesis by (auto simp: within_limits_def)
qed

theorem mem_run_safe_witness:
  "\<exists>c. mem_run (sample_config 1 LFU)
         [MSet 5 ''a'' (sample_entry 7 5 [''Wall'']), MSet 6 ''b'' (sample_entry 8 6 []), MInvalidate ''Wall'']
         (empty_mem_cache 0) = Some c \<and> int (mem_size c) \<le> 1"
  using mem_run_safe [of "sample_config 1 LFU" "[MSet 5 ''a'' (sample_entry 7 5 [''Wall'']),
      MSet 6 ''b'' (sample_entry 8 6 []), MInvalidate ''Wall'']" 0]
  by (simp add: config_ok_iff del: mem_run.simps) blast

text \<open>
  Invalidating a dependency, after any sequence of calls on a new cache, removes exactly
  the keys that are indexed under it, leaves every other entry where it was, reports each
  removed key once, and leaves no entry whose dependencies contain it.
\<close>

theorem invalidate_dependencies_exact:
  assumes "config_ok cfg" and "mem_run cfg ps (empty_mem_cache t0) = Some c"
  shows "case invalidate_dependencies d c of (ks, c') \<Rightarrow>
           mc_cache c' = filter (\<lambda>p. fst p \<notin> set ks) (mc_cache c) \<and>
           set ks = dset (key_deps c) d \<and> distinct ks \<and>
           (\<forall>(k, e) \<in> set (mc_cache c). d \<in> set (ce_deps e) \<longrightarrow> k \<in> set ks) \<and>
           (\<forall>(k, e) \<in> set (mc_cache c'). d \<notin> set (ce_deps e))"
proof -
  obtain c1 where "mem_run cfg ps (empty_mem_cache t0) = Some c1" "mc_inv c1"
    using mem_run_cache_ok [OF assms(1)] by blast
  then have inv: "mc_inv c" using assms(2) by simp
  have dep: "k \<in> dset (key_deps c) d" if "(k, e) \<in> set (mc_cache c)" "d \<in> set (ce_deps e)" for k e
    using mc_invD(4) [OF inv] mc_invD(6) [OF inv] map_of_is_SomeI [OF mc_invD(1) [OF inv] that(1)] that(2)
    by blast
  with invalidate_dependencies_lookup [OF inv, of d] show ?thesis
    by (auto simp: case_prod_unfold)
qed

theorem invalidate_dependencies_exact_witness:
  "\<exists>c. mem_run (sample_config 3 LRU)
         [MSet 5 ''a'' (sample_entry 7 5 [''Wall'']), MSet 6 ''b'' (sample_entry 8 6 [])]
         (empty_mem_cache 0) = Some c \<and>
       (\<forall>(k, e) \<in> set (mc_cache (snd (invalidate_dependencies ''Wall'' c))). ''Wall'' \<notin> set (ce_deps e))"
proof -
  let ?ps = "[MSet 5 ''a'' (sample_entry 7 5 [''Wall'']), MSet 6 ''b'' (sample_entry 8 6 [])]"
  have ok: "config_ok (sample_config 3 LRU)" by (simp add: config_ok_iff)
  obtain c where c: "mem_run (sample_config 3 LRU) ?ps (empty_mem_cache 0) = Some c"
    using mem_run_cache_ok [OF ok] by blast
  from invalidate_dependencies_exact [OF ok c, of "''Wall''"] c show ?thesis
    by (auto simp: case_prod_unfold simp del: mem_run.simps)
qed

text \<open>
  Under every policy but LFU the entries that the two eviction loops drop are the ones at
  the front of the dictionary, just as many as needed; and under LRU a \<open>get\<close> that hits moves
  its entry to the end. So, with room for two entries, an entry that was just read is not the
  one that the next \<open>set\<close> evicts: it is still cached afterwards, unless it had expired by then.
\<close>

theorem lru_hit_survives:
  assumes "config_ok cfg" "policy cfg = LRU" "2 \<le> max_size cfg" "mc_inv c"
    and "mem_get cfg now k c = (Some e, c1)"
    and "mem_set cfg now' k' e' c1 = Some (ok, c2)" "k' \<noteq> k" "\<not> is_expired now' e"
  shows "map_of (mc_cache c2) k = Some e"
proof -
  obtain e0 where e0: "map_of (mc_cache c) k = Some e0" "e = mark_accessed now e0"
    "mc_cache c1 = move_to_end k (AList.update k e (mc_cache c))"
    using assms(2,5) by (auto simp: mem_get_def Let_def split: option.splits if_splits)
  have inv1: "mc_inv c1" using mc_inv_get [OF assms(4), of cfg now k] assms(5) by simp
  obtain d where d: "mc_cache c1 = d @ [(k, e)]"
    using e0 by (simp add: move_to_end_def)
  obtain c' where c': "ensure_capacity cfg c1 = Some c'" "c2 = periodic_cleanup cfg now' (store_entry k' e' c')"
    using assms(6) by (auto simp: mem_set_def split: option.splits)
  have pos: "0 < max_memory_mb cfg" using assms(1) by (simp add: config_ok_iff)
  have "policy cfg \<noteq> LFU" using assms(2) by simp
  from ensure_capacity_front [OF assms(1) this inv1 c'(1)]
  obtain m where m: "mc_cache c' = drop (Suc (length d) - m) (d @ [(k, e)])"
    "m = min (nat (max_size cfg) - 1) (nat (max_memory_mb cfg * 1000))" by (simp add: d)
  have "1 \<le> nat (max_size cfg) - 1" "1 \<le> nat (max_memory_mb cfg * 1000)" using assms(3) pos by linarith+
  then have "1 \<le> m" unfolding m(2) by simp
  then obtain n where n: "mc_cache c' = drop n (d @ [(k, e)])" "n \<le> length d"
    using m(1) by (metis Suc_diff_le diff_Suc_1 diff_le_mono2 diff_le_self le_trans)
  obtain c'' where "ensure_capacity cfg c1 = Some c''" "mc_inv c''" using ensure_capacity_ok [OF assms(1) inv1] by blast
  then have inv0: "mc_inv c'" using c'(1) by simp
  then have inv': "mc_inv (store_entry k' e' c')" by auto
  have "(k, e) \<in> set (mc_cache c')" using n by simp
  then have "map_of (mc_cache c') k = Some e"
    by (rule map_of_is_SomeI [OF mc_invD(1) [OF inv0]])
  then have "(k, e) \<in> set (mc_cache (store_entry k' e' c'))"
    using assms(7) map_of_SomeD [of "mc_cache (store_entry k' e' c')" k e] by simp
  then have "(k, e) \<in> set (mc_cache c2)"
    using assms(8) mc_invD(1) [OF inv'] by (simp add: c'(2) periodic_cleanup_def cleanup_expired_cache)
  then show ?thesis
    using mc_invD(1) [OF mc_inv_periodic [OF inv']] by (simp add: c'(2))
qed

theorem lru_hit_survives_witness:
  "let c = store_entry ''b'' (sample_entry 8 6 []) (store_entry ''a'' (sample_entry 7 5 [''Wall'']) (empty_mem_cache 0));
       e = mark_accessed 6 (sample_entry 7 5 [''Wall''])
   in \<exists>c2. mem_set (sample_config 2 LRU) 7 ''c'' (sample_entry 9 7 [])
              (snd (mem_get (sample_config 2 LRU) 6 ''a'' c)) = Some (True, c2) \<and>
            map_of (mc_cache c2) ''a'' = Some e"
proof -
  let ?c = "store_entry ''b'' (sample_entry 8 6 []) (store_entry ''a'' (sample_entry 7 5 [''Wall'']) (empty_mem_cache 0))"
  let ?e = "mark_accessed 6 (sample_entry 7 5 [''Wall''])"
  let ?cfg = "sample_config 2 LRU"
  have ok: "config_ok ?cfg" by (simp add: config_ok_iff)
  have inv: "mc_inv ?c" by (intro mc_inv_store mc_inv_empty)
  obtain c1 where g: "mem_get ?cfg 6 ''a'' ?c = (Some ?e, c1)"
    by (simp add: mem_get_def Let_def is_expired_def empty_mem_cache_def)
  have inv1: "mc_inv c1" using mc_inv_get [OF inv, of ?cfg 6 "''a''"] g by simp
  obtain c2 where s: "mem_set ?cfg 7 ''c'' (sample_entry 9 7 []) c1 = Some (True, c2)"
    using mem_set_ok [OF ok inv1] by blast
  have "map_of (mc_cache c2) ''a'' = Some ?e"
    by (rule lru_hit_survives [OF ok _ _ inv g s]) (simp_all add: is_expired_def mark_accessed_def)
  with g s show ?thesis by (simp add: Let_def)
qed

text \<open>
  Two keys without a bar in their parts have the same text exactly when they agree on the
  entity type and on the non-empty optional parts, where an id that Python counts as false is
  not a part and an id is known by its decimal or plain text only.
\<close>

theorem key_str_eq_iff:
  assumes "bar_free k" and "bar_free k'"
  shows "key_str k = key_str k' \<longleftrightarrow> key_view k = key_view k'"
proof -
  have ne: "key_parts x \<noteq> []" for x by (simp add: key_parts_def)
  have "key_str k = key_str k' \<longleftrightarrow> key_parts k = key_parts k'"
    using bar_join_inj [OF _ ne ne] assms unfolding key_str_def bar_free_def by auto
  then show ?thesis by (simp add: key_parts_eq_iff)
qed

theorem key_str_eq_iff_witness:
  "key_str (create_entity_cache_key ''Wall'' (StrId ''12'')) \<noteq> key_str (create_query_cache_key ''Wall'' ''12'')"
  using key_str_eq_iff [of "create_entity_cache_key ''Wall'' (StrId ''12'')" "create_query_cache_key ''Wall'' ''12''"]
  by (simp add: bar_free_def key_parts_def key_view_def create_entity_cache_key_def
      create_query_cache_key_def id_text_def text_of_def)

text \<open>The key of the element with id 0 is the key of its whole type.\<close>

lemma zero_id_key_collides:
  "key_str (create_entity_cache_key t (IntId 0)) =
   key_str \<lparr>entity_type = t, query_hash = None, entity_id = None, relationship_path = None\<rparr>"
  by (simp add: key_str_def key_parts_def create_entity_cache_key_def)

end
