(* ===== verification/Cache_Manager.thy ===== *)
theory Cache_Manager
  imports Cache
begin

text \<open>
  \<open>CacheManager\<close> and \<open>CacheStatistics\<close> of \<open>revitpy/orm/cache.py\<close>.

  The manager works on any \<open>CacheBackend\<close>, a record of its operations here: each takes the
  backend's state and returns it with its result or the text of the exception it raises, which
  the manager always swallows; \<open>b_set\<close> is \<^const>\<open>None\<close> when it does not return. The field
  \<open>b_invalidate\<close> is present when \<open>isinstance(backend, MemoryCache)\<close>. Invalidation callbacks are
  objects that the argument \<open>call\<close> runs on a world of any type.

  The locale \<open>cache_backend\<close> holds what a backend promises: it answers, and never makes up an
  entry. \<open>invalidating_backend\<close> adds invalidation by dependency. Both are interpreted on
  \<open>MemoryCache\<close>, and give the refinement: what the manager returns is what the latest
  \<open>set\<close> stored, if no later operation removed it and it is not too old.
\<close>

subsection \<open>Backends\<close>

record ('s, 'v) backend =
  b_get :: "int \<Rightarrow> cache_key \<Rightarrow> 's \<Rightarrow> (string + 'v cache_entry option) \<times> 's"
  b_set :: "int \<Rightarrow> cache_key \<Rightarrow> 'v cache_entry \<Rightarrow> 's \<Rightarrow> ((string + bool) \<times> 's) option"
  b_delete :: "cache_key \<Rightarrow> 's \<Rightarrow> (string + bool) \<times> 's"
  b_clear :: "'s \<Rightarrow> string option \<times> 's"
  b_keys :: "'s \<Rightarrow> (string + cache_key list) \<times> 's"
  b_size :: "'s \<Rightarrow> nat"
  b_invalidate :: "(string \<Rightarrow> 's \<Rightarrow> (string + string list) \<times> 's) option"

definition memory_backend :: "cache_config \<Rightarrow> ('v mem_cache, 'v) backend" where
  "memory_backend cfg =
     \<lparr>b_get = (\<lambda>now k c. apfst Inr (mem_get cfg now (key_str k) c)),
      b_set = (\<lambda>now k e c. map_option (apfst Inr) (mem_set cfg now (key_str k) e c)),
      b_delete = (\<lambda>k c. apfst Inr (mem_delete (key_str k) c)),
      b_clear = (\<lambda>c. (None, mem_clear c)),
      b_keys = (\<lambda>c. (Inr (mem_keys c), c)),
      b_size = mem_size,
      b_invalidate = Some (\<lambda>d c. apfst Inr (invalidate_dependencies d c))\<rparr>"

subsection \<open>Statistics\<close>

record cache_stats =
  hits :: nat
  misses :: nat
  evictions :: nat
  invalidations :: nat
  memory_usage :: int

definition fresh_stats :: cache_stats where
  "fresh_stats = \<lparr>hits = 0, misses = 0, evictions = 0, invalidations = 0, memory_usage = 0\<rparr>"

definition record_hit :: "cache_stats \<Rightarrow> cache_stats" where
  "record_hit st = st\<lparr>hits := Suc (hits st)\<rparr>"

definition record_miss :: "cache_stats \<Rightarrow> cache_stats" where
  "record_miss st = st\<lparr>misses := Suc (misses st)\<rparr>"

definition record_eviction :: "cache_stats \<Rightarrow> cache_stats" where
  "record_eviction st = st\<lparr>evictions := Suc (evictions st)\<rparr>"

definition record_invalidation :: "cache_stats \<Rightarrow> cache_stats" where
  "record_invalidation st = st\<lparr>invalidations := Suc (invalidations st)\<rparr>"

definition update_memory_usage :: "int \<Rightarrow> cache_stats \<Rightarrow> cache_stats" where
  "update_memory_usage delta st = st\<lparr>memory_usage := memory_usage st + delta\<rparr>"

subsection \<open>The manager\<close>

record ('s, 'c) manager =
  cm_backend :: 's
  cm_stats :: "cache_stats option"
  cm_callbacks :: "'c list"

definition new_manager :: "cache_config \<Rightarrow> 's \<Rightarrow> ('s, 'c) manager" where
  "new_manager cfg s =
     \<lparr>cm_backend = s, cm_stats = (if enable_statistics cfg then Some fresh_stats else None),
      cm_callbacks = []\<rparr>"

definition count_stat :: "(cache_stats \<Rightarrow> cache_stats) \<Rightarrow> ('s, 'c) manager \<Rightarrow> ('s, 'c) manager" where
  "count_stat f m = m\<lparr>cm_stats := map_option f (cm_stats m)\<rparr>"

definition cm_get ::
  "('s, 'v) backend \<Rightarrow> int \<Rightarrow> cache_key \<Rightarrow> ('s, 'c) manager \<Rightarrow> 'v option \<times> ('s, 'c) manager" where
  "cm_get B now k m =
     (case b_get B now k (cm_backend m) of
        (Inr (Some e), s) \<Rightarrow> (ce_data e, count_stat record_hit (m\<lparr>cm_backend := s\<rparr>))
      | (Inr None, s) \<Rightarrow> (None, count_stat record_miss (m\<lparr>cm_backend := s\<rparr>))
      | (Inl x, s) \<Rightarrow> (None, count_stat record_miss (m\<lparr>cm_backend := s\<rparr>)))"

text \<open>\<open>ttl_seconds or default\<close>: a lifetime of 0 counts as none given.\<close>

definition effective_ttl :: "cache_config \<Rightarrow> int option \<Rightarrow> int option" where
  "effective_ttl cfg ttl = (case ttl of None \<Rightarrow> default_ttl cfg
                                      | Some s \<Rightarrow> if s = 0 then default_ttl cfg else Some s)"

definition make_entry ::
  "cache_config \<Rightarrow> int \<Rightarrow> 'v option \<Rightarrow> int option \<Rightarrow> string list \<Rightarrow> 'v cache_entry" where
  "make_entry cfg now v ttl ds =
     \<lparr>ce_data = v, ce_created = now, ce_accessed = now, ce_count = 0,
      ce_ttl = effective_ttl cfg ttl, ce_deps = ds\<rparr>"

definition cm_set ::
  "('s, 'v) backend \<Rightarrow> cache_config \<Rightarrow> int \<Rightarrow> cache_key \<Rightarrow> 'v option \<Rightarrow> int option \<Rightarrow> string list \<Rightarrow>
   ('s, 'c) manager \<Rightarrow> (bool \<times> ('s, 'c) manager) option" where
  "cm_set B cfg now k v ttl ds m =
     (case b_set B now k (make_entry cfg now v ttl ds) (cm_backend m) of
        None \<Rightarrow> None
      | Some (Inr ok, s) \<Rightarrow> Some (ok, m\<lparr>cm_backend := s\<rparr>)
      | Some (Inl x, s) \<Rightarrow> Some (False, m\<lparr>cm_backend := s\<rparr>))"

type_synonym ('c, 'w) caller = "'c \<Rightarrow> cache_key \<Rightarrow> ('w, string) action"

definition notify :: "('c, 'w) caller \<Rightarrow> 'c list \<Rightarrow> cache_key \<Rightarrow> 'w \<Rightarrow> 'w" where
  "notify call cbs k w = run_all_quiet (map (\<lambda>cb. call cb k) cbs) w"

definition cm_delete ::
  "('s, 'v) backend \<Rightarrow> ('c, 'w) caller \<Rightarrow> cache_key \<Rightarrow> ('s, 'c) manager \<times> 'w \<Rightarrow>
   bool \<times> ('s, 'c) manager \<times> 'w" where
  "cm_delete B call k = (\<lambda>(m, w).
     (case b_delete B k (cm_backend m) of
        (Inr True, s) \<Rightarrow>
          (True, count_stat record_invalidation (m\<lparr>cm_backend := s\<rparr>), notify call (cm_callbacks m) k w)
      | (Inr False, s) \<Rightarrow> (False, m\<lparr>cm_backend := s\<rparr>, w)
      | (Inl x, s) \<Rightarrow> (False, m\<lparr>cm_backend := s\<rparr>, w)))"

definition cm_invalidate ::
  "('s, 'v) backend \<Rightarrow> ('c, 'w) caller \<Rightarrow> cache_key \<Rightarrow> ('s, 'c) manager \<times> 'w \<Rightarrow>
   bool \<times> ('s, 'c) manager \<times> 'w" where
  "cm_invalidate B call k mw = cm_delete B call k mw"

definition type_key :: "string \<Rightarrow> cache_key" where
  "type_key t = \<lparr>entity_type = t, query_hash = None, entity_id = None, relationship_path = None\<rparr>"

definition cm_invalidate_by_dependency ::
  "('s, 'v) backend \<Rightarrow> ('c, 'w) caller \<Rightarrow> string \<Rightarrow> ('s, 'c) manager \<times> 'w \<Rightarrow>
   nat \<times> ('s, 'c) manager \<times> 'w" where
  "cm_invalidate_by_dependency B call d = (\<lambda>(m, w).
     (case b_invalidate B of
        None \<Rightarrow> (0, m, w)
      | Some f \<Rightarrow>
          (case f d (cm_backend m) of
             (Inl x, s) \<Rightarrow> (0, m\<lparr>cm_backend := s\<rparr>, w)
           | (Inr ks, s) \<Rightarrow>
               (length ks,
                (count_stat record_invalidation ^^ length ks) (m\<lparr>cm_backend := s\<rparr>),
                fold (\<lambda>k. notify call (cm_callbacks m) (type_key (hd (bar_split k)))) ks w))))"

definition cm_invalidate_by_pattern ::
  "('s, 'v) backend \<Rightarrow> ('c, 'w) caller \<Rightarrow> string \<Rightarrow> ('s, 'c) manager \<times> 'w \<Rightarrow>
   nat \<times> ('s, 'c) manager \<times> 'w" where
  "cm_invalidate_by_pattern B call pat = (\<lambda>(m, w).
     (case b_keys B (cm_backend m) of
        (Inl x, s) \<Rightarrow> (0, m\<lparr>cm_backend := s\<rparr>, w)
      | (Inr ks, s) \<Rightarrow>
          (let doomed = filter (\<lambda>k. substring pat (key_str k)) ks
           in (length doomed,
               fold (\<lambda>k mw. snd (cm_delete B call k mw)) doomed (m\<lparr>cm_backend := s\<rparr>, w)))))"

definition cm_clear :: "('s, 'v) backend \<Rightarrow> ('s, 'c) manager \<Rightarrow> ('s, 'c) manager" where
  "cm_clear B m =
     (case b_clear B (cm_backend m) of
        (None, s) \<Rightarrow> count_stat (\<lambda>_. fresh_stats) (m\<lparr>cm_backend := s\<rparr>)
      | (Some x, s) \<Rightarrow> m\<lparr>cm_backend := s\<rparr>)"

definition cm_contains ::
  "('s, 'v) backend \<Rightarrow> int \<Rightarrow> cache_key \<Rightarrow> ('s, 'c) manager \<Rightarrow> bool \<times> ('s, 'c) manager" where
  "cm_contains B now k m = (case cm_get B now k m of (v, m') \<Rightarrow> (v \<noteq> None, m'))"

definition cm_keys :: "('s, 'v) backend \<Rightarrow> ('s, 'c) manager \<Rightarrow> (string + cache_key list) \<times> ('s, 'c) manager" where
  "cm_keys B m = apsnd (\<lambda>s. m\<lparr>cm_backend := s\<rparr>) (b_keys B (cm_backend m))"

definition cm_size :: "('s, 'v) backend \<Rightarrow> ('s, 'c) manager \<Rightarrow> nat" where
  "cm_size B m = b_size B (cm_backend m)"

definition memory_usage_estimate :: "('s, 'v) backend \<Rightarrow> ('s, 'c) manager \<Rightarrow> nat" where
  "memory_usage_estimate B m = cm_size B m * 1000"

definition add_callback :: "'c \<Rightarrow> ('s, 'c) manager \<Rightarrow> ('s, 'c) manager" where
  "add_callback cb m = m\<lparr>cm_callbacks := cm_callbacks m @ [cb]\<rparr>"

definition remove_callback :: "'c \<Rightarrow> ('s, 'c) manager \<Rightarrow> ('s, 'c) manager" where
  "remove_callback cb m = m\<lparr>cm_callbacks := remove1 cb (cm_callbacks m)\<rparr>"

subsection \<open>Runs of the manager\<close>

datatype 'v cm_op =
    CGet int cache_key
  | CContains int cache_key
  | CSet int cache_key "'v option" "int option" "string list"
  | CDelete cache_key
  | CDependency string
  | CPattern string
  | CClear

fun cm_exec ::
  "('s, 'v) backend \<Rightarrow> cache_config \<Rightarrow> ('c, 'w) caller \<Rightarrow> 'v cm_op \<Rightarrow> ('s, 'c) manager \<times> 'w \<Rightarrow>
   (('s, 'c) manager \<times> 'w) option" where
  "cm_exec B cfg call (CGet now k) (m, w) = Some (snd (cm_get B now k m), w)"
| "cm_exec B cfg call (CContains now k) (m, w) = Some (snd (cm_contains B now k m), w)"
| "cm_exec B cfg call (CSet now k v ttl ds) (m, w) =
     map_option (\<lambda>(b, m'). (m', w)) (cm_set B cfg now k v ttl ds m)"
| "cm_exec B cfg call (CDelete k) (m, w) = Some (snd (cm_delete B call k (m, w)))"
| "cm_exec B cfg call (CDependency d) (m, w) = Some (snd (cm_invalidate_by_dependency B call d (m, w)))"
| "cm_exec B cfg call (CPattern p) (m, w) = Some (snd (cm_invalidate_by_pattern B call p (m, w)))"
| "cm_exec B cfg call CClear (m, w) = Some (cm_clear B m, w)"

fun cm_run ::
  "('s, 'v) backend \<Rightarrow> cache_config \<Rightarrow> ('c, 'w) caller \<Rightarrow> 'v cm_op list \<Rightarrow> ('s, 'c) manager \<times> 'w \<Rightarrow>
   (('s, 'c) manager \<times> 'w) option" where
  "cm_run B cfg call [] mw = Some mw"
| "cm_run B cfg call (p # ps) mw = Option.bind (cm_exec B cfg call p mw) (cm_run B cfg call ps)"

text \<open>
  The specification: what the operations so far say that the cache may hold, by the text of
  the key.
\<close>

type_synonym 'v store = "string \<Rightarrow> 'v cache_entry option"

fun spec_step :: "cache_config \<Rightarrow> 'v cm_op \<Rightarrow> 'v store \<Rightarrow> 'v store" where
  "spec_step cfg (CSet now k v ttl ds) st = st(key_str k \<mapsto> make_entry cfg now v ttl ds)"
| "spec_step cfg (CDelete k) st = st(key_str k := None)"
| "spec_step cfg (CDependency d) st =
     (\<lambda>k. case st k of None \<Rightarrow> None | Some e \<Rightarrow> if d \<in> set (ce_deps e) then None else Some e)"
| "spec_step cfg CClear st = (\<lambda>_. None)"
| "spec_step cfg _ st = st"

definition spec_run :: "cache_config \<Rightarrow> 'v cm_op list \<Rightarrow> 'v store" where
  "spec_run cfg ps = fold (spec_step cfg) ps (\<lambda>_. None)"

text \<open>Entries are compared up to the access statistics that \<open>mark_accessed\<close> changes.\<close>

definition payload :: "'v cache_entry \<Rightarrow> 'v option \<times> int \<times> int option \<times> string list" where
  "payload e = (ce_data e, ce_created e, ce_ttl e, ce_deps e)"

definition within_store :: "'v store \<Rightarrow> 'v store \<Rightarrow> bool" where
  "within_store p q \<longleftrightarrow> (\<forall>k e. p k = Some e \<longrightarrow> (\<exists>e0. q k = Some e0 \<and> payload e = payload e0))"

lemma cm_backend_count [simp]: "cm_backend (count_stat f m) = cm_backend m"
  by (simp add: count_stat_def)

lemma payload_expired: "payload e = payload e' \<Longrightarrow> is_expired t e = is_expired t e'"
  unfolding payload_def is_expired_def by (cases "ce_ttl e'") simp_all

lemma within_store_refl [simp]: "within_store p p" by (auto simp: within_store_def)

lemma within_store_none [simp]: "within_store (\<lambda>_. None) q" by (simp add: within_store_def)

lemma within_store_trans [trans]:
  assumes "within_store p q" "within_store q r" shows "within_store p r"
  unfolding within_store_def
proof (intro allI impI)
  fix k e assume "p k = Some e"
  then obtain e1 where "q k = Some e1" "payload e = payload e1"
    using assms(1) unfolding within_store_def by blast
  then show "\<exists>e0. r k = Some e0 \<and> payload e = payload e0"
    using assms(2) unfolding within_store_def by metis
qed

lemma within_store_upd: "within_store p q \<Longrightarrow> within_store (p(k := x)) (q(k := x))"
  by (auto simp: within_store_def)

lemma within_store_del: "within_store p q \<Longrightarrow> within_store (p(k := None)) q"
  by (auto simp: within_store_def)

definition without_dep :: "string \<Rightarrow> 'v store \<Rightarrow> 'v store" where
  "without_dep d st =
     (\<lambda>k. case st k of None \<Rightarrow> None | Some e \<Rightarrow> if d \<in> set (ce_deps e) then None else Some e)"

lemma within_store_without_dep:
  assumes "within_store p q" shows "within_store (without_dep d p) (without_dep d q)"
  unfolding within_store_def
proof (intro allI impI)
  fix k e assume "without_dep d p k = Some e"
  then have e: "p k = Some e" "d \<notin> set (ce_deps e)"
    by (auto simp: without_dep_def split: option.splits if_splits)
  then obtain e0 where "q k = Some e0" "payload e = payload e0"
    using assms unfolding within_store_def by blast
  with e show "\<exists>e0. without_dep d q k = Some e0 \<and> payload e = payload e0"
    by (auto simp: without_dep_def payload_def)
qed

subsection \<open>What a backend promises\<close>

locale cache_backend =
  fixes B :: "('s, 'v) backend"
    and ok :: "'s \<Rightarrow> bool"
    and peek :: "'s \<Rightarrow> 'v store"
  assumes get_law: "ok s \<Longrightarrow> case b_get B now k s of (r, s') \<Rightarrow>
        ok s' \<and> within_store (peek s') (peek s) \<and>
        (\<forall>e. r = Inr (Some e) \<longrightarrow>
           (\<exists>e0. peek s (key_str k) = Some e0 \<and> payload e = payload e0 \<and> \<not> is_expired now e0))"
    and set_law: "ok s \<Longrightarrow> \<exists>s'. b_set B now k e s = Some (Inr True, s') \<and> ok s' \<and>
        within_store (peek s') ((peek s)(key_str k \<mapsto> e))"
    and delete_law: "ok s \<Longrightarrow> case b_delete B k s of (r, s') \<Rightarrow>
        ok s' \<and> within_store (peek s') ((peek s)(key_str k := None))"
    and clear_law: "ok s \<Longrightarrow> case b_clear B s of (x, s') \<Rightarrow> x = None \<and> ok s' \<and> peek s' = (\<lambda>_. None)"
    and keys_law: "ok s \<Longrightarrow> case b_keys B s of (r, s') \<Rightarrow> ok s' \<and> within_store (peek s') (peek s)"
begin

definition held :: "('s, 'c) manager \<Rightarrow> 'v store \<Rightarrow> bool" where
  "held m st \<longleftrightarrow> ok (cm_backend m) \<and> within_store (peek (cm_backend m)) st"

lemma held_count [simp]: "held (count_stat f m) st = held m st"
  by (simp add: held_def count_stat_def)

lemma held_count_pow [simp]: "held ((count_stat f ^^ n) m) st = held m st"
  by (induction n) simp_all

lemma get_held:
  assumes "held m st"
  shows "held (snd (cm_get B now k m)) st"
    and "fst (cm_get B now k m) = Some v \<Longrightarrow>
         \<exists>e. st (key_str k) = Some e \<and> ce_data e = Some v \<and> \<not> is_expired now e"
proof -
  obtain r s where r: "b_get B now k (cm_backend m) = (r, s)" by (cases "b_get B now k (cm_backend m)")
  have law: "ok s" "within_store (peek s) (peek (cm_backend m))"
    "\<And>e. r = Inr (Some e) \<Longrightarrow>
       \<exists>e0. peek (cm_backend m) (key_str k) = Some e0 \<and> payload e = payload e0 \<and> \<not> is_expired now e0"
    using get_law [where s = "cm_backend m" and now = now and k = k] assms r by (auto simp: held_def)
  have "held (m\<lparr>cm_backend := s\<rparr>) st" using law(1,2) assms within_store_trans by (auto simp: held_def)
  then show "held (snd (cm_get B now k m)) st"
    using r by (auto simp: cm_get_def split: sum.splits option.splits)
  assume v: "fst (cm_get B now k m) = Some v"
  then obtain e where e: "r = Inr (Some e)" "ce_data e = Some v"
    using r by (auto simp: cm_get_def split: sum.splits option.splits)
  obtain e0 where e0: "peek (cm_backend m) (key_str k) = Some e0" "payload e = payload e0" "\<not> is_expired now e0"
    using law(3) [OF e(1)] by blast
  then obtain e1 where "st (key_str k) = Some e1" "payload e0 = payload e1"
    using assms unfolding held_def within_store_def by blast
  with e e0 show "\<exists>e. st (key_str k) = Some e \<and> ce_data e = Some v \<and> \<not> is_expired now e"
    using payload_expired [of e0 e1 now] by (auto simp: payload_def)
qed

lemma set_held:
  assumes "held m st"
  shows "\<exists>m'. cm_set B cfg now k v ttl ds m = Some (True, m') \<and>
              held m' (st(key_str k \<mapsto> make_entry cfg now v ttl ds))"
proof -
  let ?e = "make_entry cfg now v ttl ds"
  obtain s where s: "b_set B now k ?e (cm_backend m) = Some (Inr True, s)" "ok s"
    "within_store (peek s) ((peek (cm_backend m))(key_str k \<mapsto> ?e))"
    using set_law assms unfolding held_def by blast
  moreover have "within_store (peek s) (st(key_str k \<mapsto> ?e))"
    using within_store_trans [OF s(3) within_store_upd] assms by (simp add: held_def)
  ultimately show ?thesis by (simp add: cm_set_def held_def)
qed

lemma delete_held:
  assumes "held (fst mw) st"
  shows "held (fst (snd (cm_delete B call k mw))) (st(key_str k := None))"
proof -
  obtain m w r s where mw: "mw = (m, w)" and r: "b_delete B k (cm_backend m) = (r, s)"
    by (metis surj_pair)
  have "ok s" "within_store (peek s) ((peek (cm_backend m))(key_str k := None))"
    using delete_law [where s = "cm_backend m" and k = k] assms mw r by (auto simp: held_def)
  then have "held (m\<lparr>cm_backend := s\<rparr>) (st(key_str k := None))"
    using within_store_trans [OF _ within_store_upd] assms mw by (auto simp: held_def)
  then show ?thesis using mw r by (auto simp: cm_delete_def split: sum.splits bool.splits)
qed

lemma held_upd_none: "held m (st(k := None)) \<Longrightarrow> held m st"
  unfolding held_def using within_store_trans [OF _ within_store_del [OF within_store_refl]] by blast

lemma delete_all_held:
  "held (fst mw) st \<Longrightarrow> held (fst (fold (\<lambda>k mw. snd (cm_delete B call k mw)) ks mw)) st"
proof (induction ks arbitrary: mw)
  case (Cons k ks)
  show ?case using Cons.IH [OF held_upd_none [OF delete_held [OF Cons.prems]]] by simp
qed simp

lemma pattern_held:
  assumes "held (fst mw) st"
  shows "held (fst (snd (cm_invalidate_by_pattern B call p mw))) st"
proof -
  obtain m w r s where mw: "mw = (m, w)" and r: "b_keys B (cm_backend m) = (r, s)" by (metis surj_pair)
  have "held (m\<lparr>cm_backend := s\<rparr>) st"
    using keys_law [of "cm_backend m"] assms mw r within_store_trans by (auto simp: held_def)
  then show ?thesis using mw r delete_all_held [of "(m\<lparr>cm_backend := s\<rparr>, w)"]
    by (auto simp: cm_invalidate_by_pattern_def Let_def split: sum.splits)
qed

lemma clear_held:
  assumes "held m st" shows "held (cm_clear B m) (\<lambda>_. None)"
  using clear_law [of "cm_backend m"] assms by (auto simp: cm_clear_def held_def split: prod.splits)

end

locale invalidating_backend = cache_backend B ok peek
  for B :: "('s, 'v) backend" and ok :: "'s \<Rightarrow> bool" and peek :: "'s \<Rightarrow> 'v store" +
  fixes inval :: "string \<Rightarrow> 's \<Rightarrow> (string + string list) \<times> 's"
  assumes has_inval: "b_invalidate B = Some inval"
    and inval_law: "ok s \<Longrightarrow> case inval d s of (r, s') \<Rightarrow>
        ok s' \<and> within_store (peek s') (without_dep d (peek s))"
begin

lemma dependency_held:
  assumes "held (fst mw) st"
  shows "held (fst (snd (cm_invalidate_by_dependency B call d mw))) (without_dep d st)"
proof -
  obtain m w r s where mw: "mw = (m, w)" and r: "inval d (cm_backend m) = (r, s)" by (metis surj_pair)
  have "held (m\<lparr>cm_backend := s\<rparr>) (without_dep d st)"
    using inval_law [where s = "cm_backend m" and d = d] assms mw r
      within_store_trans [OF _ within_store_without_dep] by (auto simp: held_def)
  then show ?thesis using mw r has_inval
    by (auto simp: cm_invalidate_by_dependency_def split: sum.splits)
qed

lemma exec_held:
  assumes "held (fst mw) st"
  shows "\<exists>mw'. cm_exec B cfg call p mw = Some mw' \<and> held (fst mw') (spec_step cfg p st)"
proof -
  obtain m w where mw: "mw = (m, w)" by (cases mw)
  have h: "held m st" using assms mw by simp
  show ?thesis
  proof (cases p)
    case (CSet now k v ttl ds)
    with set_held [OF h, of cfg now k v ttl ds] mw show ?thesis by auto
  next
    case (CDelete k)
    with delete_held [OF assms, of call k] mw show ?thesis by simp
  next
    case (CDependency d)
    with dependency_held [OF assms, of call d] mw show ?thesis by (simp add: without_dep_def)
  next
    case (CPattern pat)
    with pattern_held [OF assms, of call pat] mw show ?thesis by simp
  next
    case CClear
    with clear_held [OF h] mw show ?thesis by simp
  next
    case (CGet now k)
    with get_held(1) [OF h, of now k] mw show ?thesis by simp
  next
    case (CContains now k)
    with get_held(1) [OF h, of now k] mw show ?thesis by (auto simp: cm_contains_def split: prod.splits)
  qed
qed

lemma run_held:
  "held (fst mw) st \<Longrightarrow>
   \<exists>mw'. cm_run B cfg call ps mw = Some mw' \<and> held (fst mw') (fold (spec_step cfg) ps st)"
proof (induction ps arbitrary: mw st)
  case (Cons p ps)
  obtain mw1 where "cm_exec B cfg call p mw = Some mw1" "held (fst mw1) (spec_step cfg p st)"
    using exec_held [OF Cons.prems] by blast
  with Cons.IH [OF this(2)] show ?case by simp
qed simp

end

subsection \<open>The memory cache as a backend\<close>

definition mem_peek :: "'v mem_cache \<Rightarrow> 'v store" where
  "mem_peek c = map_of (mc_cache c)"

definition mem_ok :: "cache_config \<Rightarrow> 'v mem_cache \<Rightarrow> bool" where
  "mem_ok cfg c \<longleftrightarrow> config_ok cfg \<and> mc_inv c"

lemma peek_remove [simp]: "mem_peek (remove_key k c) = (mem_peek c)(k := None)"
  by (simp add: mem_peek_def)

lemma within_store_remove: "within_store (mem_peek (remove_key k c)) (mem_peek c)"
  by (simp add: within_store_del)

lemma within_store_fold_remove: "within_store (mem_peek (fold remove_key ks c)) (mem_peek c)"
  by (induction ks arbitrary: c) (auto intro: within_store_trans within_store_remove)

lemma within_store_evict_one: "within_store (mem_peek (evict_one cfg c)) (mem_peek c)"
  by (simp add: evict_one_def within_store_del)

lemma within_store_evict_while:
  assumes "while_option b (evict_one cfg) c = Some c'"
  shows "within_store (mem_peek c') (mem_peek c)"
  by (rule while_option_rule [where P = "\<lambda>s. within_store (mem_peek s) (mem_peek c)", OF _ assms])
    (auto intro: within_store_trans within_store_evict_one)

lemma within_store_ensure:
  assumes "ensure_capacity cfg c = Some c'"
  shows "within_store (mem_peek c') (mem_peek c)"
  using assms within_store_trans
  by (auto simp: ensure_capacity_def bind_eq_Some_conv evict_over_size_def evict_over_memory_def
           dest!: within_store_evict_while)

lemma peek_store [simp]: "mem_peek (store_entry k e c) = (mem_peek c)(k \<mapsto> e)"
  by (simp add: mem_peek_def)

lemma within_store_periodic: "within_store (mem_peek (periodic_cleanup cfg now c)) (mem_peek c)"
proof -
  have "mem_peek (periodic_cleanup cfg now c) =
      (if cleanup_interval cfg * 1000000 < now - last_cleanup c then mem_peek (cleanup_expired now c)
       else mem_peek c)"
    by (simp add: periodic_cleanup_def mem_peek_def)
  then show ?thesis by (simp add: cleanup_expired_def within_store_fold_remove)
qed

lemma memory_set_law:
  assumes "mem_ok cfg c"
  shows "\<exists>c'. mem_set cfg now k e c = Some (True, c') \<and> mem_ok cfg c' \<and>
              within_store (mem_peek c') ((mem_peek c)(k \<mapsto> e))"
proof -
  obtain c' where c': "mem_set cfg now k e c = Some (True, c')" "mc_inv c'"
    using mem_set_ok assms by (metis mem_ok_def)
  then obtain c1 where c1: "ensure_capacity cfg c = Some c1" "c' = periodic_cleanup cfg now (store_entry k e c1)"
    by (auto simp: mem_set_def split: option.splits)
  have "within_store (mem_peek (store_entry k e c1)) ((mem_peek c)(k \<mapsto> e))"
    by (simp add: within_store_upd within_store_ensure [OF c1(1)])
  from within_store_trans [OF within_store_periodic this] c' c1 assms show ?thesis
    by (auto simp: mem_ok_def)
qed

lemma memory_get_law:
  assumes "mem_ok cfg c"
  shows "case mem_get cfg now k c of (r, c') \<Rightarrow>
           mem_ok cfg c' \<and> within_store (mem_peek c') (mem_peek c) \<and>
           (\<forall>e. r = Some e \<longrightarrow>
              (\<exists>e0. mem_peek c k = Some e0 \<and> payload e = payload e0 \<and> \<not> is_expired now e0))"
proof -
  have "mem_ok cfg (snd (mem_get cfg now k c))" using assms mc_inv_get by (auto simp: mem_ok_def)
  then show ?thesis
    by (auto simp: mem_get_def mem_peek_def Let_def within_store_del payload_def within_store_def
             split: option.splits if_splits)
qed

lemma memory_delete_law:
  assumes "mem_ok cfg c"
  shows "case mem_delete k c of (r, c') \<Rightarrow>
           mem_ok cfg c' \<and> within_store (mem_peek c') ((mem_peek c)(k := None))"
proof (cases "k \<in> fst ` set (mc_cache c)")
  case True
  with assms show ?thesis by (auto simp: mem_delete_def mem_ok_def)
next
  case False
  then have "mem_peek c k = None" by (simp only: mem_peek_def map_of_None_keys) simp
  then have "(mem_peek c)(k := None) = mem_peek c" by (rule fun_upd_idem)
  with False assms show ?thesis by (auto simp: mem_delete_def)
qed

lemma memory_inval_law:
  assumes "mem_ok cfg c"
  shows "case invalidate_dependencies d c of (r, c') \<Rightarrow>
           mem_ok cfg c' \<and> within_store (mem_peek c') (without_dep d (mem_peek c))"
proof -
  have inv: "mc_inv c" using assms by (simp add: mem_ok_def)
  let ?c = "snd (invalidate_dependencies d c)"
  note L = invalidate_dependencies_lookup [OF inv, of d]
  have "without_dep d (mem_peek c) k = Some e" if "mem_peek ?c k = Some e" for k e
  proof -
    have "(k, e) \<in> set (mc_cache c)" "k \<notin> dset (key_deps c) d"
      using map_of_SomeD [of "mc_cache ?c" k e] that L by (auto simp: mem_peek_def)
    then have "map_of (mc_cache c) k = Some e" "d \<notin> set (ce_deps e)"
      using map_of_is_SomeI [OF mc_invD(1) [OF inv]] mc_invD(4,6) [OF inv] by blast+
    then show ?thesis by (simp add: without_dep_def mem_peek_def)
  qed
  with L assms show ?thesis by (auto simp: within_store_def mem_ok_def case_prod_unfold)
qed

interpretation mem: invalidating_backend "memory_backend cfg" "mem_ok cfg" mem_peek
    "\<lambda>d c. apfst Inr (invalidate_dependencies d c)" for cfg
proof (unfold_locales, goal_cases)
  case (1 s k now)
  with memory_get_law [OF this, of "key_str k" now] show ?case
    by (auto simp: memory_backend_def split: prod.splits)
next
  case (2 s now k e)
  with memory_set_law [OF this, of now "key_str k" e] show ?case by (auto simp: memory_backend_def)
next
  case (3 s k)
  with memory_delete_law [OF this, of "key_str k"] show ?case
    by (auto simp: memory_backend_def split: prod.splits)
next
  case (4 s)
  then show ?case by (simp add: memory_backend_def mem_ok_def mem_peek_def mem_clear_def fun_eq_iff) (metis mc_inv_clear mem_clear_def)
next
  case (5 s)
  then show ?case by (simp add: memory_backend_def)
next
  case 6
  then show ?case by (simp add: memory_backend_def)
next
  case (7 s d)
  with memory_inval_law [OF this, of d] show ?case by (auto split: prod.splits)
qed

subsection \<open>Statistics of a run\<close>

definition is_lookup :: "'v cm_op \<Rightarrow> bool" where
  "is_lookup p = (case p of CGet _ _ \<Rightarrow> True | CContains _ _ \<Rightarrow> True | _ \<Rightarrow> False)"

lemma stats_update [simp]:
  "cm_stats (m\<lparr>cm_backend := s\<rparr>) = cm_stats m"
  "cm_stats (count_stat f m) = map_option f (cm_stats m)"
  by (simp_all add: count_stat_def)

definition counts :: "('s, 'c) manager \<Rightarrow> nat \<Rightarrow> bool" where
  "counts m n \<longleftrightarrow> (\<exists>st. cm_stats m = Some st \<and> hits st + misses st = n \<and> evictions st = 0)"

lemma counts_simps [simp]:
  "counts (m\<lparr>cm_backend := s\<rparr>) n = counts m n"
  "counts m n \<Longrightarrow> counts (count_stat record_invalidation m) n"
  "counts m n \<Longrightarrow> counts (count_stat record_hit m) (Suc n)"
  "counts m n \<Longrightarrow> counts (count_stat record_miss m) (Suc n)"
  by (auto simp: counts_def record_invalidation_def record_hit_def record_miss_def)

lemma counts_invalidations [simp]: "counts m n \<Longrightarrow> counts ((count_stat record_invalidation ^^ j) m) n"
  by (induction j) simp_all

lemma counts_get: "counts m n \<Longrightarrow> counts (snd (cm_get B now k m)) (Suc n)"
  by (auto simp: cm_get_def split: prod.splits sum.splits option.splits)

lemma counts_delete: "counts (fst mw) n \<Longrightarrow> counts (fst (snd (cm_delete B call k mw))) n"
  by (auto simp: cm_delete_def split: prod.splits sum.splits bool.splits)

lemma counts_delete_all:
  "counts (fst mw) n \<Longrightarrow> counts (fst (fold (\<lambda>k mw. snd (cm_delete B call k mw)) ks mw)) n"
proof (induction ks arbitrary: mw)
  case (Cons k ks)
  from Cons.IH [OF counts_delete [OF Cons.prems]] show ?case by simp
qed simp

lemma counts_exec:
  assumes "cm_exec B cfg call p mw = Some mw'" "counts (fst mw) n" "p \<noteq> CClear"
  shows "counts (fst mw') (if is_lookup p then Suc n else n)"
proof (cases mw)
  case (Pair m w)
  show ?thesis
  proof (cases p)
    case (CPattern pat)
    with assms Pair show ?thesis
      by (auto simp: is_lookup_def cm_invalidate_by_pattern_def Let_def
          intro!: counts_delete_all split: prod.splits sum.splits)
  next
    case (CDelete k)
    with assms Pair counts_delete [of mw n B call k] show ?thesis by (auto simp: is_lookup_def)
  next
    case (CContains now k)
    with assms Pair counts_get [of m n B now k] show ?thesis
      by (auto simp: is_lookup_def cm_contains_def split: prod.splits)
  qed (use assms Pair counts_get [of m n B] in
      \<open>auto simp: is_lookup_def cm_set_def cm_invalidate_by_dependency_def
            split: prod.splits sum.splits option.splits\<close>)
qed

lemma counts_run:
  "cm_run B cfg call ps mw = Some mw' \<Longrightarrow> counts (fst mw) n \<Longrightarrow> CClear \<notin> set ps \<Longrightarrow>
   counts (fst mw') (n + length (filter is_lookup ps))"
proof (induction ps arbitrary: mw n)
  case (Cons p ps)
  obtain mw1 where mw1: "cm_exec B cfg call p mw = Some mw1" "cm_run B cfg call ps mw1 = Some mw'"
    using Cons.prems(1) by (auto simp: bind_eq_Some_conv)
  have "counts (fst mw1) (if is_lookup p then Suc n else n)"
    using counts_exec [OF mw1(1) Cons.prems(2)] Cons.prems(3) by auto
  from Cons.IH [OF mw1(2) this] Cons.prems(3) show ?case by (simp split: if_splits)
qed simp

subsection \<open>Properties\<close>

lemma held_new:
  assumes "config_ok cfg"
  shows "mem.held cfg (new_manager cfg (empty_mem_cache t0)) (\<lambda>_. None)"
  using assms by (simp add: mem.held_def new_manager_def mem_ok_def mem_peek_def)
    (simp add: empty_mem_cache_def within_store_def)

text \<open>
  C2: The cache manager over a memory cache refines a map that only its own calls write: every
  sequence of calls on a new manager returns, and a value that a later \<open>get\<close> yields is the one
  that the latest \<open>set\<close> of a key with the same text stored, has not been deleted, cleared or
  invalidated by one of its dependencies since, and is not older than its lifetime.
\<close>

theorem cached_value_is_latest:
  assumes "config_ok cfg"
  shows "\<exists>m w'. cm_run (memory_backend cfg) cfg call ps (new_manager cfg (empty_mem_cache t0), w) = Some (m, w') \<and>
           (\<forall>now k v. fst (cm_get (memory_backend cfg) now k m) = Some v \<longrightarrow>
              (\<exists>e. spec_run cfg ps (key_str k) = Some e \<and> ce_data e = Some v \<and> \<not> is_expired now e))"
proof -
  obtain m w' where m: "cm_run (memory_backend cfg) cfg call ps (new_manager cfg (empty_mem_cache t0), w) = Some (m, w')"
    "mem.held cfg m (spec_run cfg ps)"
    using mem.run_held [of cfg "(new_manager cfg (empty_mem_cache t0), w)" "\<lambda>_. None" cfg call ps]
    by (auto simp: spec_run_def held_new [OF assms])
  with mem.get_held(2) [OF m(2)] show ?thesis by blast
qed

theorem cached_value_is_latest_witness:
  "\<exists>m w'. cm_run (memory_backend (sample_config 2 LRU)) (sample_config 2 LRU) (\<lambda>_ _ w. (w, None))
     [CSet 5 (type_key ''Wall'') (Some (7::nat)) None [], CDelete (type_key ''Wall'')]
     (new_manager (sample_config 2 LRU) (empty_mem_cache 0) :: (nat mem_cache, unit) manager, ()) = Some (m, w') \<and>
     fst (cm_get (memory_backend (sample_config 2 LRU)) 6 (type_key ''Wall'') m) = None"
proof -
  let ?ps = "[CSet 5 (type_key ''Wall'') (Some (7::nat)) None [], CDelete (type_key ''Wall'')]"
  have none: "spec_run (sample_config 2 LRU) ?ps (key_str (type_key ''Wall'')) = None"
    by (simp add: spec_run_def)
  have ok: "config_ok (sample_config 2 LRU)" by (simp add: config_ok_iff)
  obtain m :: "(nat mem_cache, unit) manager" and w' where
    run: "cm_run (memory_backend (sample_config 2 LRU)) (sample_config 2 LRU) (\<lambda>_ _ w. (w, None)) ?ps
            (new_manager (sample_config 2 LRU) (empty_mem_cache 0), ()) = Some (m, w')"
    and get: "\<And>v. fst (cm_get (memory_backend (sample_config 2 LRU)) 6 (type_key ''Wall'') m) = Some v \<Longrightarrow>
            \<exists>e. spec_run (sample_config 2 LRU) ?ps (key_str (type_key ''Wall'')) = Some e"
    using cached_value_is_latest [OF ok, of "\<lambda>_ _ w. (w, None)" ?ps 0 "()"] by blast
  have "fst (cm_get (memory_backend (sample_config 2 LRU)) 6 (type_key ''Wall'') m) = None"
  proof (rule ccontr)
    assume "fst (cm_get (memory_backend (sample_config 2 LRU)) 6 (type_key ''Wall'') m) \<noteq> None"
    then obtain v where "fst (cm_get (memory_backend (sample_config 2 LRU)) 6 (type_key ''Wall'') m) = Some v"
      by (metis not_None_eq)
    from get [OF this] none show False by (metis option.distinct(1))
  qed
  with run show ?thesis by (intro exI conjI)
qed

text \<open>
  With statistics enabled, after any sequence of calls without \<open>clear\<close>, over any backend,
  hits plus misses is the number of calls of \<open>get\<close> and \<open>contains\<close>. No eviction is ever counted,
  however many entries the backend evicted.
\<close>

theorem lookups_are_counted:
  assumes "enable_statistics cfg" and "CClear \<notin> set ps"
    and "cm_run B cfg call ps (new_manager cfg s, w) = Some (m, w')"
  shows "\<exists>st. cm_stats m = Some st \<and> hits st + misses st = length (filter is_lookup ps) \<and> evictions st = 0"
proof -
  have "counts (new_manager cfg s) 0"
    using assms(1) by (simp add: counts_def new_manager_def fresh_stats_def)
  with counts_run [OF assms(3), of 0] assms(2) show ?thesis by (simp add: counts_def)
qed

theorem lookups_are_counted_witness:
  "let cfg = sample_config 1 LRU;
       m = snd (cm_get (memory_backend cfg) 6 (type_key ''Wall'')
                 (new_manager cfg (empty_mem_cache 0) :: (nat mem_cache, unit) manager))
   in \<exists>st. cm_stats m = Some st \<and> hits st + misses st = 1 \<and> evictions st = 0"
  using lookups_are_counted [of "sample_config 1 LRU" "[CGet 6 (type_key ''Wall'')]"
      "memory_backend (sample_config 1 LRU)" "\<lambda>_ _ w. (w, None)" "empty_mem_cache 0 :: nat mem_cache" "()"]
  by (simp add: is_lookup_def Let_def)

lemma spares_delete:
  "filter (\<lambda>q. CHR ''|'' \<in> set (fst q)) (mc_cache (cm_backend (fst (snd
     (cm_delete (memory_backend cfg) call (type_key (takeWhile (\<lambda>c. c \<noteq> CHR ''|'') s)) mw)))))
   = filter (\<lambda>q. CHR ''|'' \<in> set (fst q)) (mc_cache (cm_backend (fst mw)))"
proof -
  have bar: "CHR ''|'' \<notin> set (takeWhile (\<lambda>c. c \<noteq> CHR ''|'') s)" by (auto dest: set_takeWhileD)
  have str: "key_str (type_key t) = t" for t by (simp add: key_str_def key_parts_def type_key_def)
  have "filter (\<lambda>q. CHR ''|'' \<in> set (fst q)) (AList.delete t d) = filter (\<lambda>q. CHR ''|'' \<in> set (fst q)) d"
    if "CHR ''|'' \<notin> set t" for t and d :: "(string, 'a cache_entry) dict"
    unfolding AList.delete_eq filter_filter by (rule filter_cong) (use that in auto)
  with bar show ?thesis
    by (cases mw) (simp add: cm_delete_def memory_backend_def mem_delete_def str split: if_splits)
qed

lemma spares_delete_all:
  "\<forall>k \<in> set ks. \<exists>s. k = type_key (takeWhile (\<lambda>c. c \<noteq> CHR ''|'') s) \<Longrightarrow>
   filter (\<lambda>q. CHR ''|'' \<in> set (fst q)) (mc_cache (cm_backend (fst
     (fold (\<lambda>k mw. snd (cm_delete (memory_backend cfg) call k mw)) ks mw))))
   = filter (\<lambda>q. CHR ''|'' \<in> set (fst q)) (mc_cache (cm_backend (fst mw)))"
proof (induction ks arbitrary: mw)
  case (Cons k ks)
  then obtain s where "k = type_key (takeWhile (\<lambda>c. c \<noteq> CHR ''|'') s)" by auto
  with Cons spares_delete [of cfg call s mw] show ?case by simp
qed simp

text \<open>
  On a memory cache \<open>invalidate_by_pattern\<close> removes no entry whose key has more than its
  entity type, whatever the pattern: \<open>keys\<close> rebuilds only the entity type of each key. The
  number that it returns counts the cached keys whose entity type contains the pattern, whether
  or not their entries went.
\<close>

theorem pattern_spares_compound_keys:
  "case cm_invalidate_by_pattern (memory_backend cfg) call pat (m, w) of (n, m', w') \<Rightarrow>
     filter (\<lambda>q. CHR ''|'' \<in> set (fst q)) (mc_cache (cm_backend m')) =
     filter (\<lambda>q. CHR ''|'' \<in> set (fst q)) (mc_cache (cm_backend m)) \<and>
     n = length (filter (\<lambda>s. substring pat (takeWhile (\<lambda>c. c \<noteq> CHR ''|'') s)) (dict_keys (mc_cache (cm_backend m))))"
proof -
  let ?c = "cm_backend m"
  let ?doomed = "filter (\<lambda>k. substring pat (key_str k)) (mem_keys ?c)"
  have keys: "mem_keys ?c = map (\<lambda>s. type_key (takeWhile (\<lambda>c. c \<noteq> CHR ''|'') s)) (dict_keys (mc_cache ?c))"
    by (simp add: mem_keys_def type_key_def hd_bar_split)
  have str: "key_str (type_key t) = t" for t by (simp add: key_str_def key_parts_def type_key_def)
  have "length ?doomed =
      length (filter (\<lambda>s. substring pat (takeWhile (\<lambda>c. c \<noteq> CHR ''|'') s)) (dict_keys (mc_cache ?c)))"
    unfolding keys filter_map length_map comp_def str ..
  moreover have "\<forall>k \<in> set ?doomed. \<exists>s. k = type_key (takeWhile (\<lambda>c. c \<noteq> CHR ''|'') s)"
    unfolding keys by auto
  note spares_delete_all [OF this, of cfg call "(m, w)"]
  ultimately show ?thesis
    by (simp add: cm_invalidate_by_pattern_def memory_backend_def [of cfg] Let_def case_prod_unfold)
qed

end
