(* ===== verification/Change_Tracker.thy ===== *)
theory Change_Tracker
  imports Prelude
begin

text \<open>
  Change tracking: \<open>EntityTracker\<close>, \<open>ChangeTracker\<close> and \<open>track_changes\<close> of
  \<open>revitpy/orm/change_tracker.py\<close>, with \<open>ChangeSet\<close> and the enumerations of
  \<open>revitpy/orm/types.py\<close> that they use.

  Entities are objects that the code only reaches by reflection: the record \<open>objects\<close> holds
  what \<open>__dict__\<close>, \<open>_property_mappings\<close>, \<open>getattr\<close> and \<open>setattr\<close> do to an object in a world of
  any type. Values are \<open>pyval\<close>; two scalars are equal when Python's \<open>==\<close> says so. Timestamps
  and the random \<open>change_id\<close>s are left out: no operation reads them. Locks do not appear.
\<close>

subsection \<open>Values\<close>

datatype 'a pyval =
    PyNone
  | Scalar 'a
  | PyList "'a pyval list"
  | PyTuple "'a pyval list"
  | PySub nat "'a pyval list"
  | PyDict "('a pyval \<times> 'a pyval) list"
  | PyRef nat

text \<open>
  \<open>_deep_copy_value\<close>. A \<open>PySub c items\<close> is an instance of the class \<open>c\<close> derived from \<open>list\<close> or
  \<open>tuple\<close> (a named tuple, say); \<open>rebuild c\<close> is that class called with one iterable, which may
  raise. The dictionary keeps its keys and the order of its items.
\<close>

type_synonym 'a rebuild = "nat \<Rightarrow> 'a pyval list \<Rightarrow> 'a pyval option"

fun deep_copy_value :: "'a rebuild \<Rightarrow> 'a pyval \<Rightarrow> 'a pyval option" where
  "deep_copy_value R (PyList vs) = map_option PyList (those (map (deep_copy_value R) vs))"
| "deep_copy_value R (PyTuple vs) = map_option PyTuple (those (map (deep_copy_value R) vs))"
| "deep_copy_value R (PySub c vs) = Option.bind (those (map (deep_copy_value R) vs)) (R c)"
| "deep_copy_value R (PyDict kvs) =
     map_option (\<lambda>vs. PyDict (zip (map fst kvs) vs)) (those (map (\<lambda>kv. deep_copy_value R (snd kv)) kvs))"
| "deep_copy_value R v = Some v"

fun plain :: "'a pyval \<Rightarrow> bool" where
  "plain (PyList vs) = list_all plain vs"
| "plain (PyTuple vs) = list_all plain vs"
| "plain (PySub c vs) = False"
| "plain (PyDict kvs) = list_all (\<lambda>kv. plain (snd kv)) kvs"
| "plain v = True"

lemma those_map_Some: "list_all (\<lambda>x. f x = Some x) xs \<Longrightarrow> those (map f xs) = Some xs"
  by (induction xs) auto

lemma those_map_Some_snd:
  "list_all (\<lambda>x. f (snd x) = Some (snd x)) xs \<Longrightarrow> those (map (\<lambda>x. f (snd x)) xs) = Some (map snd xs)"
  by (induction xs) auto

lemma deep_copy_plain: "plain v \<Longrightarrow> deep_copy_value R v = Some v"
proof (induction v)
  case (PyList vs)
  then have "list_all (\<lambda>x. deep_copy_value R x = Some x) vs" by (simp add: list_all_iff)
  then show ?case by (simp add: those_map_Some)
next
  case (PyTuple vs)
  then have "list_all (\<lambda>x. deep_copy_value R x = Some x) vs" by (simp add: list_all_iff)
  then show ?case by (simp add: those_map_Some)
next
  case (PyDict kvs)
  then have "list_all (\<lambda>kv. deep_copy_value R (snd kv) = Some (snd kv)) kvs"
    by (auto simp: list_all_iff snds.simps)
  then show ?case by (simp add: those_map_Some_snd zip_map_fst_snd)
qed simp_all

subsection \<open>Objects\<close>

text \<open>
  \<open>read_attr\<close> is \<^const>\<open>None\<close> when \<open>getattr\<close> raises; reading does not change the world. The
  class number \<open>object_hash\<close> stands for \<open>hash(entity)\<close>, absent for an unhashable object.
\<close>

record ('o, 'a, 'w) objects =
  type_name :: "'o \<Rightarrow> string"
  instance_vars :: "'o \<Rightarrow> 'w \<Rightarrow> (string \<times> 'a pyval) list option"
  property_mappings :: "'o \<Rightarrow> 'w \<Rightarrow> string list option"
  read_attr :: "'o \<Rightarrow> string \<Rightarrow> 'w \<Rightarrow> 'a pyval option"
  write_attr :: "'o \<Rightarrow> string \<Rightarrow> 'a pyval \<Rightarrow> ('w, string) action"
  object_hash :: "'o \<Rightarrow> 'a pyval option"
  object_address :: "'o \<Rightarrow> 'a pyval"
  rebuild_sub :: "'a rebuild"

definition get_entity_id :: "('o, 'a, 'w) objects \<Rightarrow> 'o \<Rightarrow> 'w \<Rightarrow> 'a pyval" where
  "get_entity_id Ob ent w =
     (case read_attr Ob ent ''id'' w of Some v \<Rightarrow> v
      | None \<Rightarrow> (case read_attr Ob ent ''Id'' w of Some v \<Rightarrow> v
                 | None \<Rightarrow> (case object_hash Ob ent of Some v \<Rightarrow> v | None \<Rightarrow> object_address Ob ent)))"

subsection \<open>Change sets and trackers\<close>

datatype element_state = UNCHANGED | ADDED | MODIFIED | DELETED | DETACHED

datatype change_type =
    PROPERTY_CHANGED | RELATIONSHIP_ADDED | RELATIONSHIP_REMOVED
  | ENTITY_ADDED | ENTITY_DELETED | ENTITY_ATTACHED | ENTITY_DETACHED

record 'a change_set =
  cs_entity_id :: "'a pyval"
  cs_entity_type :: string
  cs_original :: "(string, 'a pyval) dict"
  cs_current :: "(string, 'a pyval) dict"
  cs_state :: element_state

text \<open>\<open>original_values.get(key)\<close> is Python's \<open>None\<close> for an absent key.\<close>

definition dict_get :: "(string, 'a pyval) dict \<Rightarrow> string \<Rightarrow> 'a pyval" where
  "dict_get d k = (case map_of d k of None \<Rightarrow> PyNone | Some v \<Rightarrow> v)"

definition cs_changed_properties :: "'a change_set \<Rightarrow> string list" where
  "cs_changed_properties cs =
     (if cs_state cs = ADDED then dict_keys (cs_current cs)
      else map fst (filter (\<lambda>(k, v). dict_get (cs_original cs) k \<noteq> v) (cs_current cs)))"

definition cs_has_changes :: "'a change_set \<Rightarrow> bool" where
  "cs_has_changes cs \<longleftrightarrow> cs_state cs \<noteq> UNCHANGED \<or> cs_changed_properties cs \<noteq> []"

record 'a property_change =
  pc_entity_id :: "'a pyval"
  pc_entity_type :: string
  pc_property :: string
  pc_old :: "'a pyval"
  pc_new :: "'a pyval"

definition pc_has_change :: "'a property_change \<Rightarrow> bool" where
  "pc_has_change c \<longleftrightarrow> pc_old c \<noteq> pc_new c"

record 'a relationship_change =
  rc_entity_id :: "'a pyval"
  rc_entity_type :: string
  rc_relationship :: string
  rc_change_type :: change_type
  rc_related_id :: "'a pyval option"
  rc_related_type :: "string option"

record ('o, 'a) tracker =
  tr_entity_id :: "'a pyval"
  tr_entity_type :: string
  tr_entity_ref :: 'o
  tr_state :: element_state
  tr_original :: "(string, 'a pyval) dict"
  tr_current :: "(string, 'a pyval) dict"
  property_changes :: "(string, 'a property_change) dict"
  relationship_changes :: "'a relationship_change list"
  tr_version :: nat

definition new_tracker :: "('o, 'a, 'w) objects \<Rightarrow> 'o \<Rightarrow> 'a pyval \<Rightarrow> ('o, 'a) tracker" where
  "new_tracker Ob ent i =
     \<lparr>tr_entity_id = i, tr_entity_type = type_name Ob ent, tr_entity_ref = ent, tr_state = UNCHANGED,
      tr_original = [], tr_current = [], property_changes = [], relationship_changes = [],
      tr_version = 0\<rparr>"

definition tr_is_dirty :: "('o, 'a) tracker \<Rightarrow> bool" where
  "tr_is_dirty t \<longleftrightarrow> tr_state t \<noteq> UNCHANGED \<or> property_changes t \<noteq> [] \<or> relationship_changes t \<noteq> []"

definition tr_changed_properties :: "('o, 'a) tracker \<Rightarrow> string list" where
  "tr_changed_properties t = dict_keys (property_changes t)"

text \<open>The two halves of \<open>snapshot_current_state\<close>; only the first lets an exception out.\<close>

fun snapshot_vars ::
  "'a rebuild \<Rightarrow> (string \<times> 'a pyval) list \<Rightarrow> (string, 'a pyval) dict \<Rightarrow> (string, 'a pyval) dict option" where
  "snapshot_vars R [] d = Some d"
| "snapshot_vars R ((n, v) # vs) d =
     (if take 1 n = ''_'' then snapshot_vars R vs d
      else (case deep_copy_value R v of None \<Rightarrow> None
            | Some v' \<Rightarrow> snapshot_vars R vs (AList.update n v' d)))"

definition snapshot_property ::
  "('o, 'a, 'w) objects \<Rightarrow> 'o \<Rightarrow> 'w \<Rightarrow> string \<Rightarrow> (string, 'a pyval) dict \<Rightarrow> (string, 'a pyval) dict" where
  "snapshot_property Ob ent w p d =
     (case Option.bind (read_attr Ob ent p w) (deep_copy_value (rebuild_sub Ob)) of
        None \<Rightarrow> d | Some v \<Rightarrow> AList.update p v d)"

definition snapshot_current_state ::
  "('o, 'a, 'w) objects \<Rightarrow> ('o, 'a) tracker \<Rightarrow> 'w \<Rightarrow> ('o, 'a) tracker option" where
  "snapshot_current_state Ob t w =
     (case (case instance_vars Ob (tr_entity_ref t) w of None \<Rightarrow> Some (tr_original t)
            | Some vs \<Rightarrow> snapshot_vars (rebuild_sub Ob) vs (tr_original t)) of
        None \<Rightarrow> None
      | Some d \<Rightarrow>
          Some (t\<lparr>tr_original := (case property_mappings Ob (tr_entity_ref t) w of None \<Rightarrow> d
                                  | Some ps \<Rightarrow> fold (snapshot_property Ob (tr_entity_ref t) w) ps d),
                  tr_state := UNCHANGED, tr_version := Suc (tr_version t)\<rparr>))"

definition tr_track_property ::
  "string \<Rightarrow> 'a pyval \<Rightarrow> 'a pyval \<Rightarrow> ('o, 'a) tracker \<Rightarrow> ('o, 'a) tracker" where
  "tr_track_property p old new t =
     (let t1 =
        (if old = new then t\<lparr>property_changes := AList.delete p (property_changes t)\<rparr>
         else t\<lparr>property_changes :=
                  AList.update p \<lparr>pc_entity_id = tr_entity_id t, pc_entity_type = tr_entity_type t,
                                  pc_property = p, pc_old = old, pc_new = new\<rparr> (property_changes t),
                tr_state := (if tr_state t = UNCHANGED then MODIFIED else tr_state t)\<rparr>)
      in t1\<lparr>tr_current := AList.update p new (tr_current t1)\<rparr>)"

definition tr_track_relationship ::
  "string \<Rightarrow> change_type \<Rightarrow> 'a pyval option \<Rightarrow> string option \<Rightarrow> ('o, 'a) tracker \<Rightarrow> ('o, 'a) tracker" where
  "tr_track_relationship r ch ri rt t =
     t\<lparr>relationship_changes := relationship_changes t @
         [\<lparr>rc_entity_id = tr_entity_id t, rc_entity_type = tr_entity_type t, rc_relationship = r,
           rc_change_type = ch, rc_related_id = ri, rc_related_type = rt\<rparr>],
       tr_state := (if tr_state t = UNCHANGED then MODIFIED else tr_state t)\<rparr>"

definition dict_update_all :: "('k, 'v) dict \<Rightarrow> ('k, 'v) dict \<Rightarrow> ('k, 'v) dict" where
  "dict_update_all new d = fold (\<lambda>(k, v). AList.update k v) new d"

definition tr_accept :: "('o, 'a) tracker \<Rightarrow> ('o, 'a) tracker" where
  "tr_accept t =
     t\<lparr>tr_original := dict_update_all (tr_current t) (tr_original t),
       property_changes := [], relationship_changes := [], tr_current := [],
       tr_state := UNCHANGED, tr_version := Suc (tr_version t)\<rparr>"

definition revert_property ::
  "('o, 'a, 'w) objects \<Rightarrow> 'o \<Rightarrow> string \<times> 'a pyval \<Rightarrow> 'w \<Rightarrow> 'w" where
  "revert_property Ob ent = (\<lambda>(p, v) w.
     if read_attr Ob ent p w \<noteq> None then fst (write_attr Ob ent p v w) else w)"

definition tr_reject ::
  "('o, 'a, 'w) objects \<Rightarrow> ('o, 'a) tracker \<Rightarrow> 'w \<Rightarrow> ('o, 'a) tracker \<times> 'w" where
  "tr_reject Ob t w =
     (t\<lparr>property_changes := [], relationship_changes := [], tr_current := [], tr_state := UNCHANGED\<rparr>,
      fold (revert_property Ob (tr_entity_ref t)) (tr_original t) w)"

definition get_change_set :: "('o, 'a) tracker \<Rightarrow> 'a change_set" where
  "get_change_set t =
     \<lparr>cs_entity_id = tr_entity_id t, cs_entity_type = tr_entity_type t, cs_original = tr_original t,
      cs_current = tr_current t, cs_state = tr_state t\<rparr>"

subsection \<open>The change tracker\<close>

datatype batch_operation_type = INSERT | UPDATE | DELETE | BULK_UPDATE

record ('o, 'a) batch_operation =
  bo_type :: batch_operation_type
  bo_entity :: 'o
  bo_properties :: "(string, 'a pyval) dict"

record ('o, 'a, 'c) change_tracker =
  tracked_entities :: "('a pyval, ('o, 'a) tracker) dict"
  entity_states :: "('a pyval, element_state) dict"
  batch_operations :: "('o, 'a) batch_operation list"
  change_callbacks :: "'c list"
  auto_track :: bool
  change_counter :: nat

definition new_change_tracker :: "('o, 'a, 'c) change_tracker" where
  "new_change_tracker =
     \<lparr>tracked_entities = [], entity_states = [], batch_operations = [], change_callbacks = [],
      auto_track = True, change_counter = 0\<rparr>"

datatype tracking_error = AttachFailed | EntityError string

definition set_auto_track :: "bool \<Rightarrow> ('o, 'a, 'c) change_tracker \<Rightarrow> ('o, 'a, 'c) change_tracker" where
  "set_auto_track b c = c\<lparr>auto_track := b\<rparr>"

definition has_changes :: "('o, 'a, 'c) change_tracker \<Rightarrow> bool" where
  "has_changes c = list_ex (\<lambda>(i, t). tr_is_dirty t) (tracked_entities c)"

definition changed_entities :: "('o, 'a, 'c) change_tracker \<Rightarrow> 'a pyval list" where
  "changed_entities c = map fst (filter (\<lambda>(i, t). tr_is_dirty t) (tracked_entities c))"

definition change_count :: "('o, 'a, 'c) change_tracker \<Rightarrow> nat" where
  "change_count c =
     sum_list (map (\<lambda>(i, t). length (property_changes t) + length (relationship_changes t)) (tracked_entities c))"

definition put_tracker ::
  "'a pyval \<Rightarrow> ('o, 'a) tracker \<Rightarrow> ('o, 'a, 'c) change_tracker \<Rightarrow> ('o, 'a, 'c) change_tracker" where
  "put_tracker i t c = c\<lparr>tracked_entities := AList.update i t (tracked_entities c)\<rparr>"

definition put_state ::
  "'a pyval \<Rightarrow> element_state \<Rightarrow> ('o, 'a, 'c) change_tracker \<Rightarrow> ('o, 'a, 'c) change_tracker" where
  "put_state i s c = c\<lparr>entity_states := AList.update i s (entity_states c)\<rparr>"

definition attach ::
  "('o, 'a, 'w) objects \<Rightarrow> 'o \<Rightarrow> 'a pyval option \<Rightarrow> 'w \<Rightarrow> ('o, 'a, 'c) change_tracker \<Rightarrow>
   tracking_error option \<times> ('o, 'a, 'c) change_tracker" where
  "attach Ob ent eid w c =
     (let i = (case eid of Some i \<Rightarrow> i | None \<Rightarrow> get_entity_id Ob ent w) in
      if map_of (tracked_entities c) i \<noteq> None then (None, c)
      else (case snapshot_current_state Ob (new_tracker Ob ent i) w of
              None \<Rightarrow> (Some AttachFailed, c)
            | Some t \<Rightarrow> (None, put_state i UNCHANGED (put_tracker i t c))))"

definition detach :: "'a pyval \<Rightarrow> ('o, 'a, 'c) change_tracker \<Rightarrow> ('o, 'a, 'c) change_tracker" where
  "detach i c =
     c\<lparr>tracked_entities := AList.delete i (tracked_entities c),
       entity_states := AList.delete i (entity_states c)\<rparr>"

text \<open>
  What the tracking methods share: attach the entity if it is not tracked, then change its
  tracker. The lookup after the attach always finds the tracker.
\<close>

definition with_tracker ::
  "('o, 'a, 'w) objects \<Rightarrow> 'o \<Rightarrow> 'w \<Rightarrow> ('o, 'a, 'c) change_tracker \<Rightarrow>
   ('a pyval \<Rightarrow> ('o, 'a) tracker \<Rightarrow> ('o, 'a, 'c) change_tracker \<Rightarrow> ('o, 'a, 'c) change_tracker) \<Rightarrow>
   tracking_error option \<times> ('o, 'a, 'c) change_tracker" where
  "with_tracker Ob ent w c f =
     (let i = get_entity_id Ob ent w in
      case attach Ob ent (Some i) w c of
        (Some x, c') \<Rightarrow> (Some x, c')
      | (None, c') \<Rightarrow>
          (case map_of (tracked_entities c') i of None \<Rightarrow> (None, c') | Some t \<Rightarrow> (None, f i t c')))"

definition sync_state ::
  "'a pyval \<Rightarrow> ('o, 'a) tracker \<Rightarrow> ('o, 'a, 'c) change_tracker \<Rightarrow> ('o, 'a, 'c) change_tracker" where
  "sync_state i t c = (if tr_is_dirty t then put_state i (tr_state t) c else c)"

definition count_change :: "('o, 'a, 'c) change_tracker \<Rightarrow> ('o, 'a, 'c) change_tracker" where
  "count_change c = c\<lparr>change_counter := Suc (change_counter c)\<rparr>"

definition notify_change ::
  "('c \<Rightarrow> 'a property_change \<Rightarrow> ('w, string) action) \<Rightarrow> 'c list \<Rightarrow> ('o, 'a) tracker \<Rightarrow> string \<Rightarrow> 'w \<Rightarrow> 'w" where
  "notify_change call cbs t p w =
     (case map_of (property_changes t) p of
        None \<Rightarrow> w
      | Some ch \<Rightarrow> run_all_quiet (map (\<lambda>cb. call cb ch) cbs) w)"

definition track_property_change ::
  "('o, 'a, 'w) objects \<Rightarrow> ('c \<Rightarrow> 'a property_change \<Rightarrow> ('w, string) action) \<Rightarrow>
   'o \<Rightarrow> string \<Rightarrow> 'a pyval \<Rightarrow> 'a pyval \<Rightarrow> ('o, 'a, 'c) change_tracker \<times> 'w \<Rightarrow>
   tracking_error option \<times> ('o, 'a, 'c) change_tracker \<times> 'w" where
  "track_property_change Ob call ent p old new = (\<lambda>(c, w).
     if \<not> auto_track c then (None, c, w)
     else
       (case with_tracker Ob ent w c (\<lambda>i t c'.
               let t' = tr_track_property p old new t
               in count_change (sync_state i t' (put_tracker i t' c'))) of
          (Some x, c') \<Rightarrow> (Some x, c', w)
        | (None, c') \<Rightarrow>
            (None, c',
             (case map_of (tracked_entities c') (get_entity_id Ob ent w) of
                None \<Rightarrow> w
              | Some t' \<Rightarrow> notify_change call (change_callbacks c') t' p w))))"

definition track_relationship_change ::
  "('o, 'a, 'w) objects \<Rightarrow> 'o \<Rightarrow> string \<Rightarrow> change_type \<Rightarrow> 'o option \<Rightarrow> 'w \<Rightarrow>
   ('o, 'a, 'c) change_tracker \<Rightarrow> tracking_error option \<times> ('o, 'a, 'c) change_tracker" where
  "track_relationship_change Ob ent r ch related w c =
     (if \<not> auto_track c then (None, c)
      else with_tracker Ob ent w c (\<lambda>i t c'.
             let t' = tr_track_relationship r ch (map_option (\<lambda>x. get_entity_id Ob x w) related)
                        (map_option (type_name Ob) related) t
             in count_change (sync_state i t' (put_tracker i t' c'))))"

definition mark_as ::
  "element_state \<Rightarrow> ('o, 'a, 'w) objects \<Rightarrow> 'o \<Rightarrow> 'w \<Rightarrow> ('o, 'a, 'c) change_tracker \<Rightarrow>
   tracking_error option \<times> ('o, 'a, 'c) change_tracker" where
  "mark_as s Ob ent w c =
     with_tracker Ob ent w c (\<lambda>i t c'. put_state i s (put_tracker i (t\<lparr>tr_state := s\<rparr>) c'))"

definition mark_as_added ::
  "('o, 'a, 'w) objects \<Rightarrow> 'o \<Rightarrow> 'w \<Rightarrow> ('o, 'a, 'c) change_tracker \<Rightarrow>
   tracking_error option \<times> ('o, 'a, 'c) change_tracker" where
  "mark_as_added Ob ent w c = mark_as ADDED Ob ent w c"

definition mark_as_deleted ::
  "('o, 'a, 'w) objects \<Rightarrow> 'o \<Rightarrow> 'w \<Rightarrow> ('o, 'a, 'c) change_tracker \<Rightarrow>
   tracking_error option \<times> ('o, 'a, 'c) change_tracker" where
  "mark_as_deleted Ob ent w c = mark_as DELETED Ob ent w c"

definition get_entity_state :: "'a pyval \<Rightarrow> ('o, 'a, 'c) change_tracker \<Rightarrow> element_state" where
  "get_entity_state i c = (case map_of (entity_states c) i of None \<Rightarrow> DETACHED | Some s \<Rightarrow> s)"

definition get_changes :: "'a pyval \<Rightarrow> ('o, 'a, 'c) change_tracker \<Rightarrow> 'a change_set option" where
  "get_changes i c = map_option get_change_set (map_of (tracked_entities c) i)"

definition get_all_changes :: "('o, 'a, 'c) change_tracker \<Rightarrow> 'a change_set list" where
  "get_all_changes c =
     map (\<lambda>(i, t). get_change_set t) (filter (\<lambda>(i, t). tr_is_dirty t) (tracked_entities c))"

definition accept_one :: "'a pyval \<Rightarrow> ('o, 'a, 'c) change_tracker \<Rightarrow> ('o, 'a, 'c) change_tracker" where
  "accept_one i c =
     (case map_of (tracked_entities c) i of
        None \<Rightarrow> c
      | Some t \<Rightarrow> put_state i UNCHANGED (put_tracker i (tr_accept t) c))"

definition accept_changes ::
  "'a pyval option \<Rightarrow> ('o, 'a, 'c) change_tracker \<Rightarrow> ('o, 'a, 'c) change_tracker" where
  "accept_changes eid c =
     (case eid of Some i \<Rightarrow> accept_one i c
      | None \<Rightarrow> fold accept_one (dict_keys (tracked_entities c)) c)"

definition reject_one ::
  "('o, 'a, 'w) objects \<Rightarrow> 'a pyval \<Rightarrow> ('o, 'a, 'c) change_tracker \<times> 'w \<Rightarrow>
   ('o, 'a, 'c) change_tracker \<times> 'w" where
  "reject_one Ob i = (\<lambda>(c, w).
     (case map_of (tracked_entities c) i of
        None \<Rightarrow> (c, w)
      | Some t \<Rightarrow> (case tr_reject Ob t w of (t', w') \<Rightarrow> (put_state i UNCHANGED (put_tracker i t' c), w'))))"

definition reject_changes ::
  "('o, 'a, 'w) objects \<Rightarrow> 'a pyval option \<Rightarrow> ('o, 'a, 'c) change_tracker \<times> 'w \<Rightarrow>
   ('o, 'a, 'c) change_tracker \<times> 'w" where
  "reject_changes Ob eid cw =
     (case eid of Some i \<Rightarrow> reject_one Ob i cw
      | None \<Rightarrow> fold (reject_one Ob) (dict_keys (tracked_entities (fst cw))) cw)"

definition ct_clear :: "('o, 'a, 'c) change_tracker \<Rightarrow> ('o, 'a, 'c) change_tracker" where
  "ct_clear c =
     c\<lparr>tracked_entities := [], entity_states := [], batch_operations := [], change_counter := 0\<rparr>"

definition create_batch_operation ::
  "batch_operation_type \<Rightarrow> 'o \<Rightarrow> (string, 'a pyval) dict option \<Rightarrow> ('o, 'a) batch_operation" where
  "create_batch_operation ty ent props =
     \<lparr>bo_type = ty, bo_entity = ent, bo_properties = (case props of None \<Rightarrow> [] | Some d \<Rightarrow> d)\<rparr>"

definition add_batch_operation ::
  "('o, 'a) batch_operation \<Rightarrow> ('o, 'a, 'c) change_tracker \<Rightarrow> ('o, 'a, 'c) change_tracker" where
  "add_batch_operation b c = c\<lparr>batch_operations := batch_operations c @ [b]\<rparr>"

definition clear_batch_operations :: "('o, 'a, 'c) change_tracker \<Rightarrow> ('o, 'a, 'c) change_tracker" where
  "clear_batch_operations c = c\<lparr>batch_operations := []\<rparr>"

definition add_change_callback :: "'c \<Rightarrow> ('o, 'a, 'c) change_tracker \<Rightarrow> ('o, 'a, 'c) change_tracker" where
  "add_change_callback cb c = c\<lparr>change_callbacks := change_callbacks c @ [cb]\<rparr>"

definition remove_change_callback :: "'c \<Rightarrow> ('o, 'a, 'c) change_tracker \<Rightarrow> ('o, 'a, 'c) change_tracker" where
  "remove_change_callback cb c = c\<lparr>change_callbacks := remove1 cb (change_callbacks c)\<rparr>"

definition is_tracked :: "'a pyval \<Rightarrow> ('o, 'a, 'c) change_tracker \<Rightarrow> bool" where
  "is_tracked i c \<longleftrightarrow> map_of (tracked_entities c) i \<noteq> None"

definition get_tracked_count :: "('o, 'a, 'c) change_tracker \<Rightarrow> nat" where
  "get_tracked_count c = length (tracked_entities c)"

text \<open>
  \<open>track_changes\<close>, the decorator of a setter: \<open>f\<close> is the setter, which may raise; the entity's
  \<open>_change_tracker\<close> is present. \<open>without_set\<close> is \<open>name.replace("set_", "")\<close>.
\<close>

fun without_set :: "string \<Rightarrow> string" where
  "without_set [] = []"
| "without_set (a # b # c # d # s) =
     (if [a, b, c, d] = ''set_'' then without_set s else a # without_set (b # c # d # s))"
| "without_set (a # s) = a # without_set s"

definition track_changes ::
  "('o, 'a, 'w) objects \<Rightarrow> ('c \<Rightarrow> 'a property_change \<Rightarrow> ('w, string) action) \<Rightarrow> string \<Rightarrow>
   ('o \<Rightarrow> 'a pyval list \<Rightarrow> 'w \<Rightarrow> (string + 'a pyval) \<times> 'w) \<Rightarrow> 'o \<Rightarrow> 'a pyval list \<Rightarrow>
   ('o, 'a, 'c) change_tracker \<times> 'w \<Rightarrow>
   (tracking_error + 'a pyval) \<times> ('o, 'a, 'c) change_tracker \<times> 'w" where
  "track_changes Ob call name f ent args = (\<lambda>(c, w).
     let p = without_set name;
         old = (case read_attr Ob ent p w of None \<Rightarrow> PyNone | Some v \<Rightarrow> v)
     in (case f ent args w of
           (Inl x, w1) \<Rightarrow> (Inl (EntityError x), c, w1)
         | (Inr r, w1) \<Rightarrow>
             (let new = (case read_attr Ob ent p w1 of
                           Some v \<Rightarrow> v
                         | None \<Rightarrow> (case args of [] \<Rightarrow> PyNone | a # as \<Rightarrow> a))
              in (case track_property_change Ob call ent p old new (c, w1) of
                    (Some x, cw) \<Rightarrow> (Inl x, cw)
                  | (None, cw) \<Rightarrow> (Inr r, cw)))))"

subsection \<open>Trackers agree with their states\<close>

declare map_of_eq_Some_iff [simp del]

definition tr_ok :: "('o, 'a) tracker \<Rightarrow> bool" where
  "tr_ok t \<longleftrightarrow>
     dict_ok (property_changes t) \<and> dict_ok (tr_current t) \<and>
     (property_changes t \<noteq> [] \<or> relationship_changes t \<noteq> [] \<longrightarrow> tr_state t \<noteq> UNCHANGED) \<and>
     (\<forall>p ch. map_of (property_changes t) p = Some ch \<longrightarrow>
        map_of (tr_current t) p = Some (pc_new ch) \<and> pc_property ch = p \<and> pc_has_change ch)"

lemma tr_ok_dirty: "tr_ok t \<Longrightarrow> tr_is_dirty t \<longleftrightarrow> tr_state t \<noteq> UNCHANGED"
  by (auto simp: tr_ok_def tr_is_dirty_def)

lemma tr_ok_new [simp]: "tr_ok (new_tracker Ob ent i)" by (simp add: tr_ok_def new_tracker_def)

lemma tr_id_simps [simp]:
  "tr_entity_id (new_tracker Ob ent i) = i"
  "tr_entity_id (tr_track_property p old new t) = tr_entity_id t"
  "tr_entity_id (tr_track_relationship r ch ri rt t) = tr_entity_id t"
  "tr_entity_id (tr_accept t) = tr_entity_id t"
  "tr_entity_id (fst (tr_reject Ob t w)) = tr_entity_id t"
  by (simp_all add: new_tracker_def tr_track_property_def tr_track_relationship_def tr_accept_def
      tr_reject_def Let_def)

lemma tr_ok_snapshot:
  assumes "snapshot_current_state Ob (new_tracker Ob ent i) w = Some t"
  shows "tr_ok t" "tr_entity_id t = i" "tr_state t = UNCHANGED"
  using assms by (auto simp: snapshot_current_state_def new_tracker_def tr_ok_def split: option.splits)

lemma tr_ok_property:
  assumes "tr_ok t" shows "tr_ok (tr_track_property p old new t)"
proof (cases "old = new")
  case True
  have "AList.delete p (property_changes t) \<noteq> [] \<Longrightarrow> property_changes t \<noteq> []" by auto
  with True assms show ?thesis by (auto simp: tr_ok_def tr_track_property_def Let_def)
next
  case False
  with assms show ?thesis by (auto simp: tr_ok_def tr_track_property_def Let_def pc_has_change_def)
qed

lemma tr_ok_relationship: "tr_ok t \<Longrightarrow> tr_ok (tr_track_relationship r ch ri rt t)"
  by (auto simp: tr_ok_def tr_track_relationship_def)

lemma tr_ok_accept: "tr_ok (tr_accept t)" "tr_state (tr_accept t) = UNCHANGED"
  by (simp_all add: tr_ok_def tr_accept_def)

lemma tr_ok_reject: "tr_ok (fst (tr_reject Ob t w))" "tr_state (fst (tr_reject Ob t w)) = UNCHANGED"
  by (simp_all add: tr_ok_def tr_reject_def)

lemma tr_ok_mark: "tr_ok t \<Longrightarrow> s \<noteq> UNCHANGED \<Longrightarrow> tr_ok (t\<lparr>tr_state := s\<rparr>)"
  by (simp add: tr_ok_def)

definition ct_ok :: "('o, 'a, 'c) change_tracker \<Rightarrow> bool" where
  "ct_ok c \<longleftrightarrow>
     dict_ok (tracked_entities c) \<and> dict_ok (entity_states c) \<and>
     (\<forall>i. map_of (entity_states c) i = map_option tr_state (map_of (tracked_entities c) i)) \<and>
     (\<forall>i t. map_of (tracked_entities c) i = Some t \<longrightarrow> tr_ok t \<and> tr_entity_id t = i)"

lemma sync_state_fields:
  "tracked_entities (sync_state i t c) = tracked_entities c"
  "change_callbacks (sync_state i t c) = change_callbacks c"
  by (simp_all add: sync_state_def put_state_def)

lemma ct_ok_put:
  "ct_ok c \<Longrightarrow> tr_ok t \<Longrightarrow> tr_entity_id t = i \<Longrightarrow> tr_state t = s \<Longrightarrow>
   ct_ok (put_state i s (put_tracker i t c))"
  by (simp add: ct_ok_def put_state_def put_tracker_def)

lemma ct_ok_sync:
  assumes "ct_ok c" "tr_ok t" "tr_entity_id t = i" "map_of (tracked_entities c) i = Some t0"
    and "tr_state t = UNCHANGED \<Longrightarrow> tr_state t0 = UNCHANGED"
  shows "ct_ok (sync_state i t (put_tracker i t c))"
proof (cases "tr_is_dirty t")
  case True
  with ct_ok_put [OF assms(1-3) refl] show ?thesis by (simp add: sync_state_def)
next
  case False
  then have "tr_state t = UNCHANGED" by (simp add: tr_is_dirty_def)
  with assms False show ?thesis by (auto simp: sync_state_def put_tracker_def ct_ok_def)
qed

lemma ct_ok_count [simp]: "ct_ok (count_change c) = ct_ok c"
  by (simp add: ct_ok_def count_change_def)

lemma ct_ok_new [simp]: "ct_ok new_change_tracker" by (simp add: ct_ok_def new_change_tracker_def)

lemma ct_ok_attach: "ct_ok c \<Longrightarrow> ct_ok (snd (attach Ob ent eid w c))"
  by (auto simp: attach_def Let_def tr_ok_snapshot intro!: ct_ok_put split: option.splits)

lemma ct_ok_detach: "ct_ok c \<Longrightarrow> ct_ok (detach i c)"
  by (simp add: ct_ok_def detach_def)

lemma ct_ok_with_tracker:
  assumes "ct_ok c"
    and "\<And>i t c'. ct_ok c' \<Longrightarrow> map_of (tracked_entities c') i = Some t \<Longrightarrow> tr_ok t \<Longrightarrow> tr_entity_id t = i \<Longrightarrow>
           ct_ok (f i t c')"
  shows "ct_ok (snd (with_tracker Ob ent w c f))"
proof -
  let ?i = "get_entity_id Ob ent w"
  obtain x c' where a: "attach Ob ent (Some ?i) w c = (x, c')" by fastforce
  with ct_ok_attach [OF assms(1)] have "ct_ok c'" by (metis snd_conv)
  with a assms(2) show ?thesis
    by (auto simp: with_tracker_def Let_def split: option.splits) (metis ct_ok_def)
qed

lemma tr_state_track: "tr_state (tr_track_property p old new t) = UNCHANGED \<Longrightarrow> tr_state t = UNCHANGED"
  by (auto simp: tr_track_property_def Let_def split: if_splits)

lemma tr_state_relationship:
  "tr_state (tr_track_relationship r ch ri rt t) = UNCHANGED \<Longrightarrow> tr_state t = UNCHANGED"
  by (auto simp: tr_track_relationship_def split: if_splits)

lemma ct_ok_track_property:
  assumes "ct_ok c" shows "ct_ok (fst (snd (track_property_change Ob call ent p old new (c, w))))"
proof -
  have "ct_ok (snd (with_tracker Ob ent w c (\<lambda>i t c'. let t' = tr_track_property p old new t
             in count_change (sync_state i t' (put_tracker i t' c')))))"
    by (rule ct_ok_with_tracker [OF assms])
      (auto simp: Let_def tr_ok_property intro!: ct_ok_sync dest: tr_state_track)
  with assms show ?thesis by (auto simp: track_property_change_def split: prod.splits option.splits)
qed

lemma ct_ok_track_relationship:
  assumes "ct_ok c" shows "ct_ok (snd (track_relationship_change Ob ent r ch rel w c))"
proof -
  have "ct_ok (snd (with_tracker Ob ent w c (\<lambda>i t c'. let t' = tr_track_relationship r ch ri rt t
             in count_change (sync_state i t' (put_tracker i t' c')))))" for ri rt
    by (rule ct_ok_with_tracker [OF assms])
      (auto simp: Let_def tr_ok_relationship intro!: ct_ok_sync dest: tr_state_relationship)
  with assms show ?thesis by (simp add: track_relationship_change_def)
qed

lemma ct_ok_mark: "ct_ok c \<Longrightarrow> s \<noteq> UNCHANGED \<Longrightarrow> ct_ok (snd (mark_as s Ob ent w c))"
  unfolding mark_as_def by (rule ct_ok_with_tracker) (auto intro!: ct_ok_put tr_ok_mark)

lemma ct_ok_tracker:
  "ct_ok c \<Longrightarrow> map_of (tracked_entities c) i = Some t \<Longrightarrow> tr_ok t \<and> tr_entity_id t = i"
  by (simp add: ct_ok_def)

lemma ct_ok_accept_one: "ct_ok c \<Longrightarrow> ct_ok (accept_one i c)"
  by (cases "map_of (tracked_entities c) i")
    (auto simp: accept_one_def tr_ok_accept ct_ok_tracker intro!: ct_ok_put)

lemma ct_ok_accept: "ct_ok c \<Longrightarrow> ct_ok (accept_changes eid c)"
proof -
  have "ct_ok c \<Longrightarrow> ct_ok (fold accept_one is c)" for "is"
    by (induction "is" arbitrary: c) (auto intro: ct_ok_accept_one)
  then show "ct_ok c \<Longrightarrow> ct_ok (accept_changes eid c)"
    by (auto simp: accept_changes_def ct_ok_accept_one split: option.splits)
qed

lemma ct_ok_reject_one:
  assumes "ct_ok (fst cw)" shows "ct_ok (fst (reject_one Ob i cw))"
proof (cases "map_of (tracked_entities (fst cw)) i")
  case (Some t)
  with assms have "tr_entity_id t = i" by (simp add: ct_ok_tracker)
  with Some assms tr_ok_reject [of Ob t "snd cw"] show ?thesis
    by (auto simp: reject_one_def case_prod_unfold intro!: ct_ok_put)
qed (use assms in \<open>simp add: reject_one_def case_prod_unfold\<close>)

lemma ct_ok_reject: "ct_ok (fst cw) \<Longrightarrow> ct_ok (fst (reject_changes Ob eid cw))"
proof -
  have "ct_ok (fst cw) \<Longrightarrow> ct_ok (fst (fold (reject_one Ob) is cw))" for "is"
  proof (induction "is" arbitrary: cw)
    case (Cons i "is")
    from Cons.IH [OF ct_ok_reject_one [OF Cons.prems]] show ?case by simp
  qed simp
  then show "ct_ok (fst cw) \<Longrightarrow> ct_ok (fst (reject_changes Ob eid cw))"
    by (auto simp: reject_changes_def ct_ok_reject_one split: option.splits)
qed

subsection \<open>Runs\<close>

datatype ('o, 'a) ct_op =
    Attach 'o "'a pyval option"
  | Detach "'a pyval"
  | TrackProperty 'o string "'a pyval" "'a pyval"
  | TrackRelationship 'o string change_type "'o option"
  | MarkAdded 'o
  | MarkDeleted 'o
  | Accept "'a pyval option"
  | Reject "'a pyval option"
  | ClearAll
  | SetAuto bool

fun ct_exec ::
  "('o, 'a, 'w) objects \<Rightarrow> ('c \<Rightarrow> 'a property_change \<Rightarrow> ('w, string) action) \<Rightarrow> ('o, 'a) ct_op \<Rightarrow>
   ('o, 'a, 'c) change_tracker \<times> 'w \<Rightarrow> ('o, 'a, 'c) change_tracker \<times> 'w" where
  "ct_exec Ob call (Attach ent eid) (c, w) = (snd (attach Ob ent eid w c), w)"
| "ct_exec Ob call (Detach i) (c, w) = (detach i c, w)"
| "ct_exec Ob call (TrackProperty ent p old new) (c, w) = snd (track_property_change Ob call ent p old new (c, w))"
| "ct_exec Ob call (TrackRelationship ent r ch rel) (c, w) = (snd (track_relationship_change Ob ent r ch rel w c), w)"
| "ct_exec Ob call (MarkAdded ent) (c, w) = (snd (mark_as_added Ob ent w c), w)"
| "ct_exec Ob call (MarkDeleted ent) (c, w) = (snd (mark_as_deleted Ob ent w c), w)"
| "ct_exec Ob call (Accept eid) (c, w) = (accept_changes eid c, w)"
| "ct_exec Ob call (Reject eid) (c, w) = reject_changes Ob eid (c, w)"
| "ct_exec Ob call ClearAll (c, w) = (ct_clear c, w)"
| "ct_exec Ob call (SetAuto b) (c, w) = (set_auto_track b c, w)"

definition ct_run ::
  "('o, 'a, 'w) objects \<Rightarrow> ('c \<Rightarrow> 'a property_change \<Rightarrow> ('w, string) action) \<Rightarrow> ('o, 'a) ct_op list \<Rightarrow>
   ('o, 'a, 'c) change_tracker \<times> 'w \<Rightarrow> ('o, 'a, 'c) change_tracker \<times> 'w" where
  "ct_run Ob call ps cw = fold (ct_exec Ob call) ps cw"

lemma ct_ok_clear: "ct_ok (ct_clear c)" by (simp add: ct_ok_def ct_clear_def)

lemma ct_ok_auto: "ct_ok (set_auto_track b c) = ct_ok c" by (simp add: ct_ok_def set_auto_track_def)

lemma ct_ok_exec: "ct_ok (fst cw) \<Longrightarrow> ct_ok (fst (ct_exec Ob call p cw))"
  by (cases cw; cases p)
    (auto simp: ct_ok_attach ct_ok_detach ct_ok_track_property ct_ok_track_relationship mark_as_added_def
       mark_as_deleted_def ct_ok_mark ct_ok_accept ct_ok_reject ct_ok_clear ct_ok_auto)

lemma ct_ok_run: "ct_ok (fst cw) \<Longrightarrow> ct_ok (fst (ct_run Ob call ps cw))"
  unfolding ct_run_def
proof (induction ps arbitrary: cw)
  case (Cons p ps)
  from Cons.IH [OF ct_ok_exec [OF Cons.prems]] show ?case by simp
qed simp

text \<open>
  C22: After any sequence of calls on a new change tracker, over any objects and callbacks,
  \<open>get_entity_state\<close> is the state in the entity's tracker, and \<open>DETACHED\<close> for one that is not
  tracked; a tracker is dirty exactly when its state is not \<open>UNCHANGED\<close>; and a recorded
  property change is a real change, to the value that the change set shows as current.
\<close>

theorem tracker_states_agree:
  assumes "ct_run Ob call ps (new_change_tracker, w) = (c, w')"
  shows "get_entity_state i c = (case map_of (tracked_entities c) i of None \<Rightarrow> DETACHED | Some t \<Rightarrow> tr_state t) \<and>
         (\<forall>t. map_of (tracked_entities c) i = Some t \<longrightarrow>
            tr_entity_id t = i \<and> (tr_is_dirty t \<longleftrightarrow> tr_state t \<noteq> UNCHANGED) \<and>
            (\<forall>p ch. map_of (property_changes t) p = Some ch \<longrightarrow>
               pc_has_change ch \<and> map_of (cs_current (get_change_set t)) p = Some (pc_new ch)))"
proof -
  have ok: "ct_ok c" using ct_ok_run [of "(new_change_tracker, w)" Ob call ps] assms by simp
  have "get_entity_state i c = (case map_of (tracked_entities c) i of None \<Rightarrow> DETACHED | Some t \<Rightarrow> tr_state t)"
    using ok by (simp add: get_entity_state_def ct_ok_def split: option.splits)
  moreover have "tr_ok t \<and> tr_entity_id t = i \<and> (tr_is_dirty t \<longleftrightarrow> tr_state t \<noteq> UNCHANGED)"
    if "map_of (tracked_entities c) i = Some t" for t
    using ct_ok_tracker [OF ok that] tr_ok_dirty by blast
  moreover have "pc_has_change ch \<and> map_of (cs_current (get_change_set t)) p = Some (pc_new ch)"
    if "tr_ok t" "map_of (property_changes t) p = Some ch" for t :: "('a, 'b) tracker" and p ch
    using that by (simp add: tr_ok_def get_change_set_def)
  ultimately show ?thesis by blast
qed

subsection \<open>Plain objects\<close>

text \<open>
  Python objects without properties of their own: the attributes are the instance dictionary.
\<close>

type_synonym 'a heap = "nat \<Rightarrow> (string, 'a pyval) dict"

definition plain_objects :: "string \<Rightarrow> (nat, 'a, 'a heap) objects" where
  "plain_objects cls =
     \<lparr>type_name = (\<lambda>_. cls), instance_vars = (\<lambda>ent w. Some (w ent)), property_mappings = (\<lambda>_ _. None),
      read_attr = (\<lambda>ent p w. map_of (w ent) p),
      write_attr = (\<lambda>ent p v w. (w(ent := AList.update p v (w ent)), None)),
      object_hash = (\<lambda>ent. Some (PyRef ent)), object_address = PyRef, rebuild_sub = (\<lambda>_ _. None)\<rparr>"

text \<open>What \<open>reject_changes\<close> relies on: attributes that behave like variables.\<close>

locale attribute_store =
  fixes Ob :: "('o, 'a, 'w) objects"
  assumes read_written: "read_attr Ob ent p w \<noteq> None \<Longrightarrow>
            read_attr Ob ent p (fst (write_attr Ob ent p v w)) = Some v"
    and read_other: "(ent', q) \<noteq> (ent, p) \<Longrightarrow>
            read_attr Ob ent' q (fst (write_attr Ob ent p v w)) = read_attr Ob ent' q w"
begin

lemma read_reverted:
  "read_attr Ob ent q (revert_property Ob ent (p, v) w) =
     (if q = p \<and> read_attr Ob ent p w \<noteq> None then Some v else read_attr Ob ent q w)"
  using read_written [of ent p w v] read_other [of ent q ent p v w] by (auto simp: revert_property_def)

lemma read_all_reverted:
  "dict_ok d \<Longrightarrow>
   read_attr Ob ent q (fold (revert_property Ob ent) d w) =
     (case map_of d q of
        None \<Rightarrow> read_attr Ob ent q w
      | Some v \<Rightarrow> if read_attr Ob ent q w = None then None else Some v)"
proof (induction d arbitrary: w)
  case (Cons kv d)
  obtain p v where kv: "kv = (p, v)" by (cases kv)
  have "q = p \<Longrightarrow> map_of d q = None" using Cons.prems by (simp add: kv map_of_None_keys)
  with Cons show ?case by (auto simp: kv read_reverted split: option.splits)
qed simp

end

interpretation plain: attribute_store "plain_objects cls" for cls
  by unfold_locales (auto simp: plain_objects_def)

lemma snapshot_vars_plain:
  "dict_ok vs \<Longrightarrow> list_all (\<lambda>(n, v). plain v) vs \<Longrightarrow>
   \<exists>d'. snapshot_vars R vs d = Some d' \<and> (dict_ok d \<longrightarrow> dict_ok d') \<and>
        (\<forall>p. map_of d' p = (case map_of vs p of Some v \<Rightarrow> if take 1 p = ''_'' then map_of d p else Some v
                             | None \<Rightarrow> map_of d p))"
proof (induction vs arbitrary: d)
  case (Cons nv vs)
  obtain n v where nv: "nv = (n, v)" by (cases nv)
  have n: "map_of vs n = None" using Cons.prems(1) by (simp add: nv map_of_None_keys)
  have split: "(case map_of (nv # vs) p of Some v \<Rightarrow> if take 1 p = ''_'' then map_of d p else Some v
                | None \<Rightarrow> map_of d p) =
      (if p = n then (if take 1 n = ''_'' then map_of d n else Some v)
       else (case map_of vs p of Some v \<Rightarrow> if take 1 p = ''_'' then map_of d p else Some v
             | None \<Rightarrow> map_of d p))" for p
    by (simp add: nv)
  show ?case
  proof (cases "take 1 n = ''_''")
    case True
    obtain d' where "snapshot_vars R vs d = Some d'" "dict_ok d \<longrightarrow> dict_ok d'"
      "\<forall>p. map_of d' p = (case map_of vs p of Some v \<Rightarrow> if take 1 p = ''_'' then map_of d p else Some v
                          | None \<Rightarrow> map_of d p)"
      using Cons.IH [of d] Cons.prems by auto
    then show ?thesis unfolding split using True n by (simp add: nv)
  next
    case False
    have c: "deep_copy_value R v = Some v" using Cons.prems(2) by (simp add: nv deep_copy_plain)
    obtain d' where "snapshot_vars R vs (AList.update n v d) = Some d'" "dict_ok d \<longrightarrow> dict_ok d'"
      "\<forall>p. map_of d' p = (case map_of vs p of Some v' \<Rightarrow>
              if take 1 p = ''_'' then map_of (AList.update n v d) p else Some v'
            | None \<Rightarrow> map_of (AList.update n v d) p)"
      using Cons.IH [of "AList.update n v d"] Cons.prems by auto
    then show ?thesis unfolding split using False n c by (auto simp: nv split: option.splits)
  qed
qed simp

lemma snapshot_plain:
  assumes "dict_ok (w ent)" "list_all (\<lambda>(n, v). plain v) (w ent)"
  shows "\<exists>t. snapshot_current_state (plain_objects cls) (new_tracker (plain_objects cls) ent i) w = Some t \<and>
             dict_ok (tr_original t) \<and> tr_entity_ref t = ent \<and> tr_current t = [] \<and> property_changes t = [] \<and>
             tr_state t = UNCHANGED \<and> relationship_changes t = [] \<and>
             (\<forall>p. map_of (tr_original t) p = (if take 1 p = ''_'' then None else map_of (w ent) p))"
proof -
  obtain d where "snapshot_vars (\<lambda>_ _. None) (w ent) [] = Some d" "dict_ok d"
    "\<And>p. map_of d p = (case map_of (w ent) p of Some v \<Rightarrow> if take 1 p = ''_'' then map_of [] p else Some v
                       | None \<Rightarrow> map_of [] p)"
    using snapshot_vars_plain [OF assms, of "\<lambda>_ _. None" "[]"] by auto
  then show ?thesis
    by (auto simp: snapshot_current_state_def plain_objects_def new_tracker_def split: option.splits)
qed

subsection \<open>Chains of changes to one property\<close>

text \<open>A property that takes the values \<open>v # vs\<close> one after the other, each step reported.\<close>

fun track_chain :: "string \<Rightarrow> 'a pyval \<Rightarrow> 'a pyval list \<Rightarrow> ('o, 'a) tracker \<Rightarrow> ('o, 'a) tracker" where
  "track_chain p v [] t = t"
| "track_chain p v (v' # vs) t = track_chain p v' vs (tr_track_property p v v' t)"

lemma track_chain_snoc:
  "track_chain p v (vs @ [v']) t = tr_track_property p (last (v # vs)) v' (track_chain p v vs t)"
  by (induction vs arbitrary: v t) simp_all

lemma tr_track_fields:
  "tr_original (tr_track_property p old new t) = tr_original t"
  "tr_entity_ref (tr_track_property p old new t) = tr_entity_ref t"
  "tr_current (tr_track_property p old new t) = AList.update p new (tr_current t)"
  "tr_entity_type (tr_track_property p old new t) = tr_entity_type t"
  "tr_state (tr_track_property p old new t) =
     (if old \<noteq> new \<and> tr_state t = UNCHANGED then MODIFIED else tr_state t)"
  "map_of (property_changes (tr_track_property p old new t)) p =
     (if old = new then None
      else Some \<lparr>pc_entity_id = tr_entity_id t, pc_entity_type = tr_entity_type t,
                 pc_property = p, pc_old = old, pc_new = new\<rparr>)"
  by (simp_all add: tr_track_property_def Let_def)

lemma track_chain_fields:
  "tr_original (track_chain p v vs t) = tr_original t"
  "tr_entity_ref (track_chain p v vs t) = tr_entity_ref t"
  "tr_entity_id (track_chain p v vs t) = tr_entity_id t"
  "tr_entity_type (track_chain p v vs t) = tr_entity_type t"
  by (induction vs arbitrary: v t) (simp_all add: tr_track_fields)

lemma track_chain_state:
  "tr_state t \<noteq> ADDED \<Longrightarrow> tr_state (track_chain p v vs t) \<noteq> ADDED"
  by (induction vs arbitrary: v t) (simp_all add: tr_track_fields)

lemma dict_ok_chain: "dict_ok (tr_current t) \<Longrightarrow> dict_ok (tr_current (track_chain p v vs t))"
  by (induction vs arbitrary: v t) (simp_all add: tr_track_fields)

lemma changed_iff:
  assumes "dict_ok (tr_current t)" "tr_state t \<noteq> ADDED" "map_of (tr_current t) p = Some v"
  shows "p \<in> set (cs_changed_properties (get_change_set t)) \<longleftrightarrow> v \<noteq> dict_get (tr_original t) p"
proof -
  have "p \<in> set (cs_changed_properties (get_change_set t)) \<longleftrightarrow>
        (\<exists>v. (p, v) \<in> set (tr_current t) \<and> dict_get (tr_original t) p \<noteq> v)"
    using assms(2) by (force simp: cs_changed_properties_def get_change_set_def)
  also have "\<dots> \<longleftrightarrow> (\<exists>v. map_of (tr_current t) p = Some v \<and> dict_get (tr_original t) p \<noteq> v)"
    using map_of_eq_Some_iff [OF assms(1)] by simp
  finally show ?thesis using assms(3) by auto
qed

text \<open>
  A property takes the values \<open>v0\<close>, then \<open>vs\<close>, then \<open>v\<close>, and each step is reported. The
  tracker then records the last step only: a change from the last value of \<open>v0 # vs\<close> to \<open>v\<close>, or
  no change when the last step repeats the value, although \<open>v\<close> may differ from the original. The
  change set, in contrast, compares with the original: it lists the property exactly when \<open>v\<close> is
  not the original value. So the two views disagree whenever a value is reported twice or goes
  back to the original.
\<close>

theorem track_chain_outcome:
  assumes "dict_ok (tr_current t)" "tr_state t \<noteq> ADDED"
  shows "map_of (property_changes (track_chain p v0 (vs @ [v]) t)) p =
           (if last (v0 # vs) = v then None
            else Some \<lparr>pc_entity_id = tr_entity_id t, pc_entity_type = tr_entity_type t,
                       pc_property = p, pc_old = last (v0 # vs), pc_new = v\<rparr>) \<and>
         (p \<in> set (cs_changed_properties (get_change_set (track_chain p v0 (vs @ [v]) t))) \<longleftrightarrow>
            v \<noteq> dict_get (tr_original t) p)"
proof
  let ?t = "track_chain p v0 (vs @ [v]) t"
  show "map_of (property_changes ?t) p =
           (if last (v0 # vs) = v then None
            else Some \<lparr>pc_entity_id = tr_entity_id t, pc_entity_type = tr_entity_type t,
                       pc_property = p, pc_old = last (v0 # vs), pc_new = v\<rparr>)"
    unfolding track_chain_snoc tr_track_fields track_chain_fields ..
  have "map_of (tr_current ?t) p = Some v" by (simp add: track_chain_snoc tr_track_fields)
  from changed_iff [OF dict_ok_chain track_chain_state this] assms
  show "p \<in> set (cs_changed_properties (get_change_set ?t)) \<longleftrightarrow> v \<noteq> dict_get (tr_original t) p"
    by (simp add: track_chain_fields)
qed

theorem track_chain_outcome_witness:
  "let t = (new_tracker (plain_objects ''Wall'') 1 (Scalar (1::nat)))\<lparr>tr_original := [(''mark'', Scalar 5)]\<rparr>
   in map_of (property_changes (track_chain ''mark'' (Scalar 5) [Scalar 6, Scalar 6] t)) ''mark'' = None \<and>
      ''mark'' \<in> set (cs_changed_properties (get_change_set (track_chain ''mark'' (Scalar 5) [Scalar 6, Scalar 6] t)))"
  using track_chain_outcome [of "(new_tracker (plain_objects ''Wall'') 1 (Scalar (1::nat)))\<lparr>tr_original := [(''mark'', Scalar 5)]\<rparr>"
      "''mark''" "Scalar 5" "[Scalar 6]" "Scalar 6"]
  by (simp add: new_tracker_def Let_def dict_get_def)

subsection \<open>Rejecting changes\<close>

text \<open>
  C6: On plain objects with plain values, rejecting restores: attach an entity, let its attributes
  take any values, report whatever changes of it, then reject. Every public attribute that it had
  when it was attached and still has reads its old value again, other attributes and other
  objects are as they were before the reject, and the tracker is clean.
\<close>

theorem reject_restores:
  assumes "dict_ok (w0 ent)" "list_all (\<lambda>(n, v). plain v) (w0 ent)"
    and "snapshot_current_state (plain_objects cls) (new_tracker (plain_objects cls) ent i) w0 = Some t"
    and "tr_reject (plain_objects cls) (fold (\<lambda>(p, old, new). tr_track_property p old new) changes t) w1 = (t', w2)"
  shows "map_of (w2 ent) q =
           (if take 1 q \<noteq> ''_'' \<and> map_of (w0 ent) q \<noteq> None \<and> map_of (w1 ent) q \<noteq> None
            then map_of (w0 ent) q else map_of (w1 ent) q)
         \<and> (\<forall>ent'. ent' \<noteq> ent \<longrightarrow> w2 ent' = w1 ent') \<and> \<not> tr_is_dirty t'"
proof -
  let ?t = "fold (\<lambda>(p, old, new). tr_track_property p old new) changes t"
  have same: "tr_original ?t = tr_original t \<and> tr_entity_ref ?t = tr_entity_ref t"
    by (induction changes arbitrary: t) (auto simp: tr_track_fields)
  have t: "dict_ok (tr_original t)" "tr_entity_ref t = ent"
    "\<And>p. map_of (tr_original t) p = (if take 1 p = ''_'' then None else map_of (w0 ent) p)"
    using snapshot_plain [of w0 ent cls i] assms(1-3) by auto
  have w2: "w2 = fold (revert_property (plain_objects cls) ent) (tr_original t) w1"
    using assms(4) same t(2) by (simp add: tr_reject_def)
  have other: "ent' \<noteq> ent \<Longrightarrow> fold (revert_property (plain_objects cls) ent) d w ent' = w ent'"
    for ent' d and w :: "'a heap"
    by (induction d arbitrary: w) (auto simp: revert_property_def plain_objects_def)
  have "read_attr (plain_objects cls) e p w = map_of (w e) p" for e p and w :: "'a heap"
    by (simp add: plain_objects_def)
  with plain.read_all_reverted [OF t(1), where ent = ent and q = q and w = w1 and cls = cls]
  have "map_of (w2 ent) q =
      (case if take 1 q = ''_'' then None else map_of (w0 ent) q of
        None \<Rightarrow> map_of (w1 ent) q
      | Some v \<Rightarrow> if map_of (w1 ent) q = None then None else Some v)"
    by (simp only: w2 t(3))
  moreover have "\<not> tr_is_dirty t'" using assms(4) by (auto simp: tr_reject_def tr_is_dirty_def)
  ultimately show ?thesis using other w2 by (auto split: option.splits)
qed

theorem reject_restores_witness:
  "let w0 = (\<lambda>_. [(''mark'', Scalar (5::nat)), (''_cache'', PyNone)]);
       w1 = (\<lambda>_. [(''mark'', Scalar 6), (''_cache'', Scalar 9)]);
       t = the (snapshot_current_state (plain_objects ''Wall'') (new_tracker (plain_objects ''Wall'') 1 (PyRef 1)) w0)
   in map_of (snd (tr_reject (plain_objects ''Wall'') (tr_track_property ''mark'' (Scalar 5) (Scalar 6) t) w1) 1) ''mark''
      = Some (Scalar 5)"
proof -
  let ?w0 = "(\<lambda>_. [(''mark'', Scalar (5::nat)), (''_cache'', PyNone)]) :: nat heap"
  let ?w1 = "(\<lambda>_. [(''mark'', Scalar 6), (''_cache'', Scalar 9)]) :: nat heap"
  obtain t where t: "snapshot_current_state (plain_objects ''Wall'')
      (new_tracker (plain_objects ''Wall'') 1 (PyRef 1)) ?w0 = Some t"
    using snapshot_plain [of ?w0 1 "''Wall''" "PyRef 1"] by auto
  obtain t' w2 where r: "tr_reject (plain_objects ''Wall'')
      (fold (\<lambda>(p, old, new). tr_track_property p old new) [(''mark'', Scalar 5, Scalar 6)] t) ?w1 = (t', w2)"
    by fastforce
  have "map_of (w2 1) ''mark'' = Some (Scalar 5)"
    using reject_restores [OF _ _ t r, of "''mark''"] by simp
  with t r show ?thesis by (simp add: Let_def)
qed

text \<open>
  An entity that is not tracked is attached by the first report of a change, which comes
  after the change: its snapshot holds the new value. So for a plain object whose attribute
  \<open>p\<close> already reads \<open>new\<close>, reporting the change from \<open>old\<close> to \<open>new\<close> marks it \<open>MODIFIED\<close> with a
  change set that lists no change of \<open>p\<close>, and rejecting leaves \<open>new\<close> in place.
\<close>

theorem late_attach_loses_old_value:
  assumes "auto_track c" "change_callbacks c = []"
    and "map_of (tracked_entities c) (get_entity_id (plain_objects cls) ent w) = None"
    and "dict_ok (w ent)" "list_all (\<lambda>(n, v). plain v) (w ent)"
    and "map_of (w ent) p = Some new" "take 1 p \<noteq> ''_''" "old \<noteq> new"
    and "track_property_change (plain_objects cls) call ent p old new (c, w) = (r, c', w')"
  shows "r = None \<and> w' = w \<and>
         (\<exists>cs. get_changes (get_entity_id (plain_objects cls) ent w) c' = Some cs \<and> cs_state cs = MODIFIED \<and>
               p \<notin> set (cs_changed_properties cs)) \<and>
         map_of (snd (reject_changes (plain_objects cls) (Some (get_entity_id (plain_objects cls) ent w)) (c', w)) ent) p
         = Some new"
proof -
  let ?i = "get_entity_id (plain_objects cls) ent w"
  obtain t where t: "snapshot_current_state (plain_objects cls) (new_tracker (plain_objects cls) ent ?i) w = Some t"
    "dict_ok (tr_original t)" "tr_entity_ref t = ent" "tr_current t = []" "tr_state t = UNCHANGED"
    "map_of (tr_original t) p = Some new"
    using snapshot_plain [of w ent cls ?i] assms(4-7) by auto
  let ?t = "tr_track_property p old new t"
  have "r = None \<and> w' = w \<and> map_of (tracked_entities c') ?i = Some ?t"
    using assms(1-3,9) t(1)
    by (auto simp: track_property_change_def with_tracker_def attach_def Let_def put_tracker_def
        put_state_def count_change_def notify_change_def sync_state_fields split: option.splits)
  moreover have "p \<notin> set (cs_changed_properties (get_change_set ?t))"
    using changed_iff [of ?t p new] t by (simp add: tr_track_fields dict_get_def assms(8))
  moreover have "read_attr (plain_objects cls) e q v = map_of (v e) q" for e q and v :: "'a heap"
    by (simp add: plain_objects_def)
  with plain.read_all_reverted [OF t(2), where ent = ent and q = p and w = w and cls = cls]
  have "map_of (fold (revert_property (plain_objects cls) ent) (tr_original t) w ent) p = Some new"
    by (simp add: t(6) assms(6))
  ultimately show ?thesis
    using t(3,5) assms(8)
    by (simp add: get_changes_def get_change_set_def tr_track_fields reject_changes_def reject_one_def
        tr_reject_def)
qed

theorem late_attach_loses_old_value_witness:
  "let w = (\<lambda>_. [(''id'', Scalar (7::nat)), (''mark'', Scalar 6)]);
       cw = snd (track_property_change (plain_objects ''Wall'') (\<lambda>_ _ w. (w, None)) 1 ''mark'' (Scalar 5) (Scalar 6)
                   (new_change_tracker :: (nat, nat, unit) change_tracker, w))
   in map_of (snd (reject_changes (plain_objects ''Wall'') (Some (Scalar 7)) (fst cw, w)) 1) ''mark'' = Some (Scalar 6)"
proof -
  let ?w = "(\<lambda>_. [(''id'', Scalar (7::nat)), (''mark'', Scalar 6)]) :: nat heap"
  have i: "get_entity_id (plain_objects ''Wall'') 1 ?w = Scalar 7"
    by (simp add: get_entity_id_def plain_objects_def)
  obtain r c' w' where r: "track_property_change (plain_objects ''Wall'') (\<lambda>_ _ w. (w, None)) 1 ''mark'' (Scalar 5) (Scalar 6)
                   (new_change_tracker :: (nat, nat, unit) change_tracker, ?w) = (r, c', w')"
    by (metis prod_cases3)
  have "map_of (snd (reject_changes (plain_objects ''Wall'') (Some (Scalar 7)) (c', ?w)) 1) ''mark'' = Some (Scalar 6)"
  proof -
    have "take 1 ''mark'' \<noteq> ''_''" by simp
    from late_attach_loses_old_value [OF _ _ _ _ _ _ this _ r] show ?thesis
      by (simp add: new_change_tracker_def i del: One_nat_def)
  qed
  with r show ?thesis by (simp add: Let_def del: One_nat_def)
qed

theorem tracker_states_agree_witness:
  "let w = (\<lambda>_. [(''id'', Scalar (7::nat)), (''mark'', Scalar 5)]);
       c = fst (ct_run (plain_objects ''Wall'') (\<lambda>_ _ w. (w, None))
                  [Attach 1 None, TrackProperty 1 ''mark'' (Scalar 5) (Scalar 6)]
                  (new_change_tracker :: (nat, nat, unit) change_tracker, w))
   in get_entity_state (Scalar 7) c =
      (case map_of (tracked_entities c) (Scalar 7) of None \<Rightarrow> DETACHED | Some t \<Rightarrow> tr_state t)"
  unfolding Let_def by (rule tracker_states_agree [OF surjective_pairing, THEN conjunct1])

end
