(* ===== verification/Query_Plan.thy ===== *)
theory Query_Plan
  imports Cache_Manager
begin

text \<open>
  Queries of the ORM: \<open>QueryPlan\<close>, \<open>LazyQueryExecutor\<close>, \<open>QueryBuilder\<close> and \<open>StreamingQuery\<close> of
  \<open>revitpy/orm/query_builder.py\<close>.

  A lazy iterable is what it yields and the exception it ends with, if any: \<open>('a list, string
  option)\<close>. The callables are functions that may raise; they do not change the world, so the
  order in which a pipeline calls them does not matter beyond which exception comes first.
  \<open>sorted\<close> is eager: an exception in it is one before the first element. Keys are of any
  linear order. Plans and executors are objects that builders share, so they live in a store and
  a builder holds their addresses. Costs are in tenths, without floating-point rounding.

  The cache manager is the one of \<open>Cache_Manager\<close> on any backend, storing result lists. The
  element provider, the MD5 text of a plan, and the identity of an object are arguments.
\<close>

subsection \<open>Pipelines\<close>

datatype ('a, 'k) query_op =
    QFilter "'a \<Rightarrow> string + bool"
  | QSelect "'a \<Rightarrow> string + 'a"
  | QOrderBy "'a \<Rightarrow> string + 'k" bool
  | QSkip nat
  | QTake nat
  | QDistinct "('a \<Rightarrow> string + 'k) option"

type_synonym 'a lazy_list = "'a list \<times> string option"

fun filter_lazy :: "('a \<Rightarrow> string + bool) \<Rightarrow> 'a list \<Rightarrow> string option \<Rightarrow> 'a lazy_list" where
  "filter_lazy p [] err = ([], err)"
| "filter_lazy p (x # xs) err =
     (case p x of Inl e \<Rightarrow> ([], Some e)
      | Inr b \<Rightarrow> (if b then apfst (Cons x) (filter_lazy p xs err) else filter_lazy p xs err))"

fun map_lazy :: "('a \<Rightarrow> string + 'b) \<Rightarrow> 'a list \<Rightarrow> string option \<Rightarrow> 'b lazy_list" where
  "map_lazy f [] err = ([], err)"
| "map_lazy f (x # xs) err =
     (case f x of Inl e \<Rightarrow> ([], Some e) | Inr y \<Rightarrow> apfst (Cons y) (map_lazy f xs err))"

fun distinct_lazy :: "('a \<Rightarrow> string + 'k) \<Rightarrow> 'k list \<Rightarrow> 'a list \<Rightarrow> string option \<Rightarrow> 'a lazy_list" where
  "distinct_lazy key seen [] err = ([], err)"
| "distinct_lazy key seen (x # xs) err =
     (case key x of Inl e \<Rightarrow> ([], Some e)
      | Inr k \<Rightarrow> (if k \<in> set seen then distinct_lazy key seen xs err
                 else apfst (Cons x) (distinct_lazy key (k # seen) xs err)))"

text \<open>\<open>sorted\<close>: stable, also with \<open>reverse=True\<close>.\<close>

definition sort_pairs :: "bool \<Rightarrow> ('k::linorder \<times> 'a) list \<Rightarrow> 'a list" where
  "sort_pairs reverse kxs = map snd (if reverse then rev (sort_key fst (rev kxs)) else sort_key fst kxs)"

definition sort_lazy :: "('a \<Rightarrow> string + 'k::linorder) \<Rightarrow> bool \<Rightarrow> 'a list \<Rightarrow> string option \<Rightarrow> 'a lazy_list" where
  "sort_lazy key reverse xs err =
     (case map_lazy (\<lambda>x. map_sum id (\<lambda>k. (k, x)) (key x)) xs err of
        (_, Some e) \<Rightarrow> ([], Some e)
      | (kxs, None) \<Rightarrow> (sort_pairs reverse kxs, None))"

definition take_lazy :: "nat \<Rightarrow> 'a list \<Rightarrow> string option \<Rightarrow> 'a lazy_list" where
  "take_lazy n xs err = (take n xs, if n \<le> length xs then None else err)"

definition apply_operation ::
  "('a \<Rightarrow> 'k) \<Rightarrow> ('a, 'k::linorder) query_op \<Rightarrow> 'a lazy_list \<Rightarrow> 'a lazy_list" where
  "apply_operation ident p = (\<lambda>(xs, err).
     case p of
       QFilter f \<Rightarrow> filter_lazy f xs err
     | QSelect f \<Rightarrow> map_lazy f xs err
     | QOrderBy key reverse \<Rightarrow> sort_lazy key reverse xs err
     | QSkip n \<Rightarrow> (drop n xs, err)
     | QTake n \<Rightarrow> take_lazy n xs err
     | QDistinct key \<Rightarrow> distinct_lazy (case key of None \<Rightarrow> \<lambda>x. Inr (ident x) | Some f \<Rightarrow> f) [] xs err)"

definition apply_operations ::
  "('a \<Rightarrow> 'k) \<Rightarrow> ('a, 'k::linorder) query_op list \<Rightarrow> 'a lazy_list \<Rightarrow> 'a lazy_list" where
  "apply_operations ident ps l = fold (apply_operation ident) ps l"

subsection \<open>Plans\<close>

datatype cache_policy = NONE | MEMORY | PERSISTENT | AGGRESSIVE

record ('a, 'k) query_plan =
  qp_operations :: "('a, 'k) query_op list"
  estimated_cost :: nat
  use_index :: bool
  parallel_execution :: bool
  cache_strategy :: cache_policy

definition empty_plan :: "('a, 'k) query_plan" where
  "empty_plan = \<lparr>qp_operations = [], estimated_cost = 0, use_index = False,
                 parallel_execution = False, cache_strategy = MEMORY\<rparr>"

definition plan_add :: "('a, 'k) query_op \<Rightarrow> nat \<Rightarrow> ('a, 'k) query_plan \<Rightarrow> ('a, 'k) query_plan" where
  "plan_add p cost q = q\<lparr>qp_operations := qp_operations q @ [p], estimated_cost := estimated_cost q + cost\<rparr>"

fun is_filter_op :: "('a, 'k) query_op \<Rightarrow> bool" where
  "is_filter_op (QFilter f) = True"
| "is_filter_op _ = False"

fun is_select_op :: "('a, 'k) query_op \<Rightarrow> bool" where
  "is_select_op (QSelect f) = True"
| "is_select_op _ = False"

fun is_order_op :: "('a, 'k) query_op \<Rightarrow> bool" where
  "is_order_op (QOrderBy k r) = True"
| "is_order_op _ = False"

definition reorder :: "('a, 'k) query_op list \<Rightarrow> ('a, 'k) query_op list" where
  "reorder ps = filter is_filter_op ps @ filter (\<lambda>p. \<not> is_filter_op p \<and> \<not> is_select_op p) ps @ filter is_select_op ps"

text \<open>The new cost is 0.8 of the old one, rounded down here; no code reads it.\<close>

definition optimize :: "('a, 'k) query_plan \<Rightarrow> ('a, 'k) query_plan" where
  "optimize q =
     \<lparr>qp_operations = reorder (qp_operations q),
      estimated_cost = (estimated_cost q * 8) div 10,
      use_index = (filter is_filter_op (qp_operations q) \<noteq> []),
      parallel_execution = (100 < estimated_cost q),
      cache_strategy = cache_strategy q\<rparr>"

subsection \<open>Executors and builders\<close>

record ('t, 'a, 'k) executor =
  ex_type :: "'t option"
  ex_plan :: "('a, 'k) query_plan"
  ex_executed :: bool
  ex_results :: "'a list option"
  ex_hash :: "string option"

record ('t, 'a, 'k, 's, 'c) query_store =
  plans :: "('a, 'k) query_plan list"
  executors :: "('t, 'a, 'k) executor list"
  q_cache :: "('s, 'c) manager"

record 't query_builder =
  qb_type :: "'t option"
  qb_plan :: nat
  qb_exec :: nat

text \<open>
  What a query reads from outside: the provider, the name of a type, the hash of the text of a
  plan's operations, object identity, and the backend of the cache manager.
\<close>

record ('t, 'a, 'k, 's) query_env =
  all_elements :: "string + 'a list"
  elements_of_type :: "'t \<Rightarrow> string + 'a list"
  type_text :: "'t \<Rightarrow> string"
  plan_hash :: "('a, 'k) query_op list \<Rightarrow> string"
  identity :: "'a \<Rightarrow> 'k"
  q_backend :: "('s, 'a list) backend"
  q_config :: cache_config

datatype query_error =
    ValueErr string
  | NoElements string
  | MoreThanOne string nat
  | ExecutionFailed string
  | CallableFailed string

definition new_executor :: "'t option \<Rightarrow> ('t, 'a, 'k) executor" where
  "new_executor ty = \<lparr>ex_type = ty, ex_plan = empty_plan, ex_executed = False, ex_results = None, ex_hash = None\<rparr>"

definition set_query_plan :: "('a, 'k) query_plan \<Rightarrow> ('t, 'a, 'k) executor \<Rightarrow> ('t, 'a, 'k) executor" where
  "set_query_plan q ex = ex\<lparr>ex_plan := q, ex_hash := None\<rparr>"

definition query_hash_of :: "('t, 'a, 'k, 's) query_env \<Rightarrow> ('t, 'a, 'k) executor \<Rightarrow> string" where
  "query_hash_of E ex = (case ex_hash ex of Some h \<Rightarrow> h | None \<Rightarrow> plan_hash E (qp_operations (ex_plan ex)))"

definition executor_key :: "('t, 'a, 'k, 's) query_env \<Rightarrow> ('t, 'a, 'k) executor \<Rightarrow> cache_key" where
  "executor_key E ex =
     create_query_cache_key (case ex_type ex of None \<Rightarrow> ''Element'' | Some ty \<Rightarrow> type_text E ty) (query_hash_of E ex)"

definition query_results ::
  "('t, 'a, 'k::linorder, 's) query_env \<Rightarrow> ('t, 'a, 'k) executor \<Rightarrow> string + 'a list" where
  "query_results E ex =
     (case (case ex_type ex of None \<Rightarrow> all_elements E | Some ty \<Rightarrow> elements_of_type E ty) of
        Inl e \<Rightarrow> Inl e
      | Inr xs \<Rightarrow>
          (case apply_operations (identity E) (qp_operations (ex_plan ex)) (xs, None) of
             (ys, None) \<Rightarrow> Inr ys
           | (ys, Some e) \<Rightarrow> Inl e))"

definition put_executor ::
  "nat \<Rightarrow> ('t, 'a, 'k) executor \<Rightarrow> ('t, 'a, 'k, 's, 'c) query_store \<Rightarrow> ('t, 'a, 'k, 's, 'c) query_store" where
  "put_executor i ex st = st\<lparr>executors := (executors st)[i := ex]\<rparr>"

definition finish :: "'a list \<Rightarrow> ('t, 'a, 'k) executor \<Rightarrow> ('t, 'a, 'k) executor" where
  "finish ys ex = ex\<lparr>ex_results := Some ys, ex_executed := True\<rparr>"

type_synonym ('r, 't, 'a, 'k, 's, 'c) query_result =
  "((query_error + 'r) \<times> ('t, 'a, 'k, 's, 'c) query_store) option"

text \<open>\<open>execute\<close>: the executor's own results, then the cache, then the provider.\<close>

definition execute ::
  "('t, 'a, 'k::linorder, 's) query_env \<Rightarrow> int \<Rightarrow> nat \<Rightarrow> ('t, 'a, 'k, 's, 'c) query_store \<Rightarrow>
   ('a list, 't, 'a, 'k, 's, 'c) query_result" where
  "execute E now i st =
     (let ex = executors st ! i;
          caching = (cache_strategy (ex_plan ex) \<noteq> NONE)
      in case (if ex_executed ex then ex_results ex else None) of
           Some ys \<Rightarrow> Some (Inr ys, st)
         | None \<Rightarrow>
             (let key = executor_key E ex;
                  ex1 = (if caching then ex\<lparr>ex_hash := Some (query_hash_of E ex)\<rparr> else ex)
              in case (if caching then cm_get (q_backend E) now key (q_cache st) else (None, q_cache st)) of
                   (Some ys, m) \<Rightarrow> Some (Inr ys, put_executor i (finish ys ex1) (st\<lparr>q_cache := m\<rparr>))
                 | (None, m) \<Rightarrow>
                     (case query_results E ex of
                        Inl e \<Rightarrow> Some (Inl (ExecutionFailed e), put_executor i ex1 (st\<lparr>q_cache := m\<rparr>))
                      | Inr ys \<Rightarrow>
                          (case (if caching \<and> length ys < 1000
                                 then map_option snd (cm_set (q_backend E) (q_config E) now key (Some ys) None [] m)
                                 else Some m) of
                             None \<Rightarrow> None
                           | Some m' \<Rightarrow> Some (Inr ys, put_executor i (finish ys ex1) (st\<lparr>q_cache := m'\<rparr>))))))"

definition new_builder ::
  "'t option \<Rightarrow> ('t, 'a, 'k, 's, 'c) query_store \<Rightarrow> 't query_builder \<times> ('t, 'a, 'k, 's, 'c) query_store" where
  "new_builder ty st =
     (\<lparr>qb_type = ty, qb_plan = length (plans st), qb_exec = length (executors st)\<rparr>,
      st\<lparr>plans := plans st @ [empty_plan], executors := executors st @ [new_executor ty]\<rparr>)"

definition builder_plan :: "'t query_builder \<Rightarrow> ('t, 'a, 'k, 's, 'c) query_store \<Rightarrow> ('a, 'k) query_plan" where
  "builder_plan b st = plans st ! qb_plan b"

definition put_plan ::
  "'t query_builder \<Rightarrow> ('a, 'k) query_plan \<Rightarrow> ('t, 'a, 'k, 's, 'c) query_store \<Rightarrow> ('t, 'a, 'k, 's, 'c) query_store" where
  "put_plan b q st = st\<lparr>plans := (plans st)[qb_plan b := q]\<rparr>"

definition clone_builder ::
  "'t query_builder \<Rightarrow> ('t, 'a, 'k, 's, 'c) query_store \<Rightarrow> 't query_builder \<times> ('t, 'a, 'k, 's, 'c) query_store" where
  "clone_builder b st =
     (case new_builder (qb_type b) st of
        (b', st') \<Rightarrow>
          (b', put_plan b' (empty_plan\<lparr>qp_operations := qp_operations (builder_plan b st),
                                       estimated_cost := estimated_cost (builder_plan b st),
                                       cache_strategy := cache_strategy (builder_plan b st)\<rparr>) st'))"

definition extend_clone ::
  "('a, 'k) query_op \<Rightarrow> nat \<Rightarrow> 't query_builder \<Rightarrow> ('t, 'a, 'k, 's, 'c) query_store \<Rightarrow>
   't query_builder \<times> ('t, 'a, 'k, 's, 'c) query_store" where
  "extend_clone p cost b st =
     (case clone_builder b st of (b', st') \<Rightarrow> (b', put_plan b' (plan_add p cost (builder_plan b' st')) st'))"

definition q_where where "q_where p = extend_clone (QFilter p) 20"

definition q_order_by where "q_order_by key = extend_clone (QOrderBy key False) 30"

definition q_order_by_descending where "q_order_by_descending key = extend_clone (QOrderBy key True) 30"

definition q_distinct where "q_distinct key = extend_clone (QDistinct key) 25"

definition q_skip ::
  "int \<Rightarrow> 't query_builder \<Rightarrow> ('t, 'a, 'k, 's, 'c) query_store \<Rightarrow>
   (query_error + 't query_builder) \<times> ('t, 'a, 'k, 's, 'c) query_store" where
  "q_skip n b st =
     (if n < 0 then (Inl (ValueErr ''Skip count cannot be negative''), st)
      else apfst Inr (extend_clone (QSkip (nat n)) 1 b st))"

definition take_some ::
  "nat \<Rightarrow> 't query_builder \<Rightarrow> ('t, 'a, 'k, 's, 'c) query_store \<Rightarrow>
   't query_builder \<times> ('t, 'a, 'k, 's, 'c) query_store" where
  "take_some n = extend_clone (QTake n) 1"

definition q_take ::
  "int \<Rightarrow> 't query_builder \<Rightarrow> ('t, 'a, 'k, 's, 'c) query_store \<Rightarrow>
   (query_error + 't query_builder) \<times> ('t, 'a, 'k, 's, 'c) query_store" where
  "q_take n b st =
     (if n \<le> 0 then (Inl (ValueErr ''Take count must be positive''), st)
      else apfst Inr (take_some (nat n) b st))"

text \<open>\<open>select\<close> does not clone: the new builder has the old builder's plan object.\<close>

definition q_select ::
  "('a \<Rightarrow> string + 'a) \<Rightarrow> 't query_builder \<Rightarrow> ('t, 'a, 'k, 's, 'c) query_store \<Rightarrow>
   't query_builder \<times> ('t, 'a, 'k, 's, 'c) query_store" where
  "q_select f b st =
     (case new_builder None st of
        (b1, st1) \<Rightarrow>
          (let b' = b1\<lparr>qb_plan := qb_plan b\<rparr>
           in (b', put_plan b' (plan_add (QSelect f) 10 (builder_plan b' st1)) st1)))"

definition set_executor_plan ::
  "'t query_builder \<Rightarrow> ('t, 'a, 'k, 's, 'c) query_store \<Rightarrow> ('t, 'a, 'k, 's, 'c) query_store" where
  "set_executor_plan b st =
     put_executor (qb_exec b) (set_query_plan (optimize (builder_plan b st)) (executors st ! qb_exec b)) st"

definition builder_execute ::
  "('t, 'a, 'k::linorder, 's) query_env \<Rightarrow> int \<Rightarrow> 't query_builder \<Rightarrow> ('t, 'a, 'k, 's, 'c) query_store \<Rightarrow>
   ('a list, 't, 'a, 'k, 's, 'c) query_result" where
  "builder_execute E now b st = execute E now (qb_exec b) (set_executor_plan b st)"

subsection \<open>Terminal operations\<close>

definition then_result ::
  "('r \<Rightarrow> query_error + 'r') \<Rightarrow> ('r, 't, 'a, 'k, 's, 'c) query_result \<Rightarrow> ('r', 't, 'a, 'k, 's, 'c) query_result" where
  "then_result f r = map_option (apfst (\<lambda>x. case x of Inl e \<Rightarrow> Inl e | Inr y \<Rightarrow> f y)) r"

definition where_opt ::
  "('a \<Rightarrow> string + bool) option \<Rightarrow> 't query_builder \<Rightarrow> ('t, 'a, 'k, 's, 'c) query_store \<Rightarrow>
   't query_builder \<times> ('t, 'a, 'k, 's, 'c) query_store" where
  "where_opt pred b st = (case pred of None \<Rightarrow> (b, st) | Some p \<Rightarrow> q_where p b st)"

definition the_first :: "string \<Rightarrow> 'a list \<Rightarrow> query_error + 'a" where
  "the_first op ys = (case ys of [] \<Rightarrow> Inl (NoElements op) | y # _ \<Rightarrow> Inr y)"

definition the_single :: "string \<Rightarrow> 'a list \<Rightarrow> query_error + 'a" where
  "the_single op ys =
     (case ys of [] \<Rightarrow> Inl (NoElements op) | [y] \<Rightarrow> Inr y | _ \<Rightarrow> Inl (MoreThanOne op (length ys)))"

definition take_execute ::
  "('t, 'a, 'k::linorder, 's) query_env \<Rightarrow> int \<Rightarrow> nat \<Rightarrow> ('a \<Rightarrow> string + bool) option \<Rightarrow> 't query_builder \<Rightarrow>
   ('t, 'a, 'k, 's, 'c) query_store \<Rightarrow> ('a list, 't, 'a, 'k, 's, 'c) query_result" where
  "take_execute E now n pred b st =
     (case where_opt pred b st of (b1, st1) \<Rightarrow>
        (case take_some n b1 st1 of (b2, st2) \<Rightarrow> builder_execute E now b2 st2))"

definition q_first where
  "q_first E now pred b st = then_result (the_first ''first'') (take_execute E now 1 pred b st)"

definition q_first_async where
  "q_first_async E now pred b st = then_result (the_first ''first_async'') (take_execute E now 1 pred b st)"

definition q_single where
  "q_single E now pred b st = then_result (the_single ''single'') (take_execute E now 2 pred b st)"

definition q_single_async where
  "q_single_async E now pred b st = then_result (the_single ''single_async'') (take_execute E now 2 pred b st)"

text \<open>Every exception of \<open>first\<close> and \<open>single\<close> is a \<open>QueryError\<close>, a failed execution included.\<close>

definition or_default ::
  "'a option \<Rightarrow> ('a, 't, 'a, 'k, 's, 'c) query_result \<Rightarrow> ('a option, 't, 'a, 'k, 's, 'c) query_result" where
  "or_default d r = map_option (apfst (\<lambda>x. Inr (case x of Inl e \<Rightarrow> d | Inr y \<Rightarrow> Some y))) r"

definition q_first_or_default where
  "q_first_or_default E now pred d b st = or_default d (q_first E now pred b st)"

definition q_first_or_default_async where
  "q_first_or_default_async E now pred d b st = or_default d (q_first_async E now pred b st)"

definition q_single_or_default where
  "q_single_or_default E now pred d b st = or_default d (q_single E now pred b st)"

definition q_any where
  "q_any E now pred b st = then_result (\<lambda>ys. Inr (0 < length ys)) (take_execute E now 1 pred b st)"

definition q_any_async where
  "q_any_async E now pred b st = then_result (\<lambda>ys. Inr (0 < length ys)) (take_execute E now 1 pred b st)"

definition q_all where
  "q_all E now p b st =
     (case q_where (\<lambda>x. map_sum id Not (p x)) b st of
        (b1, st1) \<Rightarrow> then_result (\<lambda>r. Inr (\<not> r)) (q_any E now None b1 st1))"

definition q_count where
  "q_count E now pred b st =
     (case where_opt pred b st of (b1, st1) \<Rightarrow> then_result (\<lambda>ys. Inr (length ys)) (builder_execute E now b1 st1))"

definition q_count_async where
  "q_count_async E now pred b st =
     (case where_opt pred b st of (b1, st1) \<Rightarrow> then_result (\<lambda>ys. Inr (length ys)) (builder_execute E now b1 st1))"

definition q_to_list where "q_to_list E now b st = builder_execute E now b st"

fun dict_by :: "('a \<Rightarrow> string + 'k) \<Rightarrow> 'a list \<Rightarrow> ('k, 'a) dict \<Rightarrow> query_error + ('k, 'a) dict" where
  "dict_by key [] d = Inr d"
| "dict_by key (x # xs) d =
     (case key x of Inl e \<Rightarrow> Inl (CallableFailed e) | Inr k \<Rightarrow> dict_by key xs (AList.update k x d))"

definition q_to_dict where "q_to_dict E now key b st = then_result (\<lambda>ys. dict_by key ys []) (builder_execute E now b st)"

fun group_into :: "('a \<Rightarrow> string + 'k) \<Rightarrow> 'a list \<Rightarrow> ('k, 'a list) dict \<Rightarrow> query_error + ('k, 'a list) dict" where
  "group_into key [] d = Inr d"
| "group_into key (x # xs) d =
     (case key x of Inl e \<Rightarrow> Inl (CallableFailed e)
      | Inr k \<Rightarrow> group_into key xs (AList.update k ((case map_of d k of None \<Rightarrow> [] | Some g \<Rightarrow> g) @ [x]) d))"

definition q_group_by where
  "q_group_by E now key b st = then_result (\<lambda>ys. group_into key ys []) (builder_execute E now b st)"

subsection \<open>Streaming\<close>

text \<open>\<open>range(0, n, step)\<close> over a list; a step of 0 is a \<open>ValueError\<close>, a negative one gives nothing.\<close>

function chunks :: "nat \<Rightarrow> 'a list \<Rightarrow> 'a list list" where
  "chunks n xs = (if n = 0 \<or> xs = [] then [] else take n xs # chunks n (drop n xs))"
  by pat_completeness auto
termination by (relation "measure (\<lambda>(n, xs). length xs)") auto

declare chunks.simps [simp del]

definition stream_batches :: "bool \<Rightarrow> int \<Rightarrow> 'a list \<Rightarrow> query_error + 'a list list" where
  "stream_batches parallel n ys =
     (if \<not> parallel then Inr [ys]
      else if n = 0 then Inl (ValueErr ''range() arg 3 must not be zero'')
      else if n < 0 then Inr [] else Inr (chunks (nat n) ys))"

definition execute_streaming ::
  "('t, 'a, 'k::linorder, 's) query_env \<Rightarrow> int \<Rightarrow> int \<Rightarrow> 't query_builder \<Rightarrow> ('t, 'a, 'k, 's, 'c) query_store \<Rightarrow>
   ('a list list, 't, 'a, 'k, 's, 'c) query_result" where
  "execute_streaming E now n b st =
     then_result (stream_batches (parallel_execution (optimize (builder_plan b st))) n) (builder_execute E now b st)"

definition streaming_to_list where
  "streaming_to_list E now n b st = then_result (\<lambda>bs. Inr (concat bs)) (execute_streaming E now n b st)"

subsection \<open>Pipelines without exceptions\<close>

fun total_op :: "('a, 'k) query_op \<Rightarrow> bool" where
  "total_op (QFilter f) = (\<forall>x. \<exists>b. f x = Inr b)"
| "total_op (QOrderBy key r) = (\<forall>x. \<exists>k. key x = Inr k)"
| "total_op _ = True"

definition holds :: "('a \<Rightarrow> string + bool) \<Rightarrow> 'a \<Rightarrow> bool" where
  "holds f x = (f x = Inr True)"

lemma filter_lazy_total:
  assumes "\<forall>x. \<exists>b. f x = Inr b" shows "filter_lazy f xs err = (filter (holds f) xs, err)"
proof (induction xs)
  case (Cons x xs)
  obtain b where "f x = Inr b" using assms by blast
  with Cons show ?case by (simp add: holds_def)
qed simp

lemma map_lazy_total:
  assumes "\<forall>x. f x = Inr (g x)" shows "map_lazy f xs err = (map g xs, err)"
  using assms by (induction xs) auto

lemma sort_lazy_total:
  assumes "\<forall>x. key x = Inr (k x)"
  shows "sort_lazy key r xs err =
    (case err of Some e \<Rightarrow> ([], Some e)
     | None \<Rightarrow> (if r then rev (sort_key k (rev xs)) else sort_key k xs, None))"
proof -
  have pairs: "map snd (sort_key fst (map (\<lambda>x. (k x, x)) ys)) = sort_key k ys" for ys
  proof (induction ys)
    case (Cons y ys)
    have "map snd (insort_key fst (k y, y) zs) = insort_key k y (map snd zs)"
      if "\<forall>z \<in> set zs. fst z = k (snd z)" for zs using that by (induction zs) auto
    from this [of "sort_key fst (map (\<lambda>x. (k x, x)) ys)"] Cons show ?case by auto
  qed simp
  have "map_lazy (\<lambda>x. map_sum id (\<lambda>k. (k, x)) (key x)) xs err = (map (\<lambda>x. (k x, x)) xs, err)"
    by (rule map_lazy_total) (simp add: assms)
  then show ?thesis
    using pairs [of xs] pairs [of "rev xs"]
    by (simp add: sort_lazy_def sort_pairs_def rev_map flip: rev_map split: option.splits)
qed

lemma order_filter_commute:
  assumes "is_order_op p" "total_op p" "is_filter_op q" "total_op q"
  shows "apply_operation ident q (apply_operation ident p l) = apply_operation ident p (apply_operation ident q l)"
proof -
  obtain key r where p: "p = QOrderBy key r" using assms(1) by (cases p) auto
  obtain f where q: "q = QFilter f" using assms(3) by (cases q) auto
  from assms(2) have "\<forall>x. \<exists>k. key x = Inr k" by (simp add: p)
  then obtain k where k: "\<forall>x. key x = Inr (k x)" by metis
  have f: "\<forall>x. \<exists>b. f x = Inr b" using assms(4) by (simp add: q)
  obtain xs err where l: "l = (xs, err)" by (cases l)
  show ?thesis
    by (cases err) (simp_all add: apply_operation_def p q l sort_lazy_total [OF k] filter_lazy_total [OF f]
        filter_sort rev_filter flip: rev_filter)
qed

lemma apply_operations_simps [simp]:
  "apply_operations ident [] l = l"
  "apply_operations ident (p # ps) l = apply_operations ident ps (apply_operation ident p l)"
  "apply_operations ident (ps @ qs) l = apply_operations ident qs (apply_operations ident ps l)"
  by (simp_all add: apply_operations_def)

lemma order_filters_commute:
  assumes "is_order_op p" "total_op p" "\<forall>q \<in> set qs. is_filter_op q \<and> total_op q"
  shows "apply_operations ident qs (apply_operation ident p l) = apply_operation ident p (apply_operations ident qs l)"
  using assms(3) by (induction qs arbitrary: l) (simp_all add: order_filter_commute [OF assms(1,2)])

lemma filters_first:
  "\<forall>p \<in> set ps. (is_filter_op p \<or> is_order_op p) \<and> total_op p \<Longrightarrow>
   apply_operations ident ps l =
     apply_operations ident (filter (\<lambda>p. \<not> is_filter_op p) ps) (apply_operations ident (filter is_filter_op ps) l)"
proof (induction ps arbitrary: l)
  case (Cons p ps)
  show ?case
  proof (cases "is_filter_op p")
    case True
    with Cons show ?thesis by simp
  next
    case False
    then have "is_order_op p" "total_op p" "\<forall>q \<in> set (filter is_filter_op ps). is_filter_op q \<and> total_op q"
      using Cons.prems by auto
    from order_filters_commute [OF this] Cons False show ?thesis by simp
  qed
qed simp

subsection \<open>Properties\<close>

text \<open>
  C20: The optimiser's reordering keeps the result of a query in which filters come before
  everything but sorting, and projections after everything else, provided the predicates and the
  sort keys in front never raise: the reordered pipeline yields the same elements, or raises the
  same exception, as the pipeline in the order in which it was built.
\<close>

theorem reorder_preserves_results:
  assumes "\<forall>p \<in> set front. (is_filter_op p \<or> is_order_op p) \<and> total_op p"
    and "\<forall>p \<in> set middle. \<not> is_filter_op p \<and> \<not> is_select_op p"
    and "\<forall>p \<in> set back. is_select_op p"
  shows "apply_operations ident (reorder (front @ middle @ back)) l =
         apply_operations ident (front @ middle @ back) l"
proof -
  have sel: "is_select_op p \<Longrightarrow> \<not> is_filter_op p" for p :: "('a, 'b) query_op" by (cases p) auto
  have ord: "is_filter_op p \<or> is_order_op p \<Longrightarrow> \<not> is_select_op p" for p :: "('a, 'b) query_op" by (cases p) auto
  have "filter is_filter_op (front @ middle @ back) = filter is_filter_op front"
    using assms(2,3) sel by (auto simp: filter_empty_conv)
  moreover have "filter is_select_op (front @ middle @ back) = back"
    using assms ord by (auto simp: filter_empty_conv filter_id_conv)
  moreover have "filter (\<lambda>p. \<not> is_filter_op p \<and> \<not> is_select_op p) (front @ middle @ back) =
      filter (\<lambda>p. \<not> is_filter_op p) front @ middle"
  proof -
    have "filter (\<lambda>p. \<not> is_filter_op p \<and> \<not> is_select_op p) front = filter (\<lambda>p. \<not> is_filter_op p) front"
      using assms(1) ord by (intro filter_cong) auto
    with assms(2,3) show ?thesis by (simp add: filter_empty_conv filter_id_conv)
  qed
  ultimately show ?thesis
    using filters_first [OF assms(1), of ident l] by (simp add: reorder_def)
qed

theorem reorder_preserves_results_witness:
  "let ps = [QOrderBy (\<lambda>x::nat. Inr x) True, QFilter (\<lambda>x. Inr (x < 4)), QTake 2, QSelect (\<lambda>x. Inr (x + 1))]
   in apply_operations (\<lambda>x. x) (reorder ps) ([1, 2, 7, 3], None) = ([4, 3], None)"
  using reorder_preserves_results [of "[QOrderBy (\<lambda>x::nat. Inr x) True, QFilter (\<lambda>x. Inr (x < 4))]" "[QTake 2]"
      "[QSelect (\<lambda>x. Inr (x + 1))]" "\<lambda>x. x" "([1, 2, 7, 3], None)"]
  by (simp add: apply_operation_def sort_lazy_def sort_pairs_def take_lazy_def Let_def)

definition predicates :: "('a, 'k) query_op list \<Rightarrow> ('a \<Rightarrow> string + bool) list" where
  "predicates ps = concat (map (\<lambda>p. case p of QFilter f \<Rightarrow> [f] | _ \<Rightarrow> []) ps)"

lemma apply_filters:
  "\<forall>f \<in> set (predicates ps). \<forall>x. \<exists>b. f x = Inr b \<Longrightarrow>
   apply_operations ident (filter is_filter_op ps) (xs, err) =
     (filter (\<lambda>x. \<forall>f \<in> set (predicates ps). holds f x) xs, err)"
proof (induction ps arbitrary: xs)
  case (Cons p ps)
  show ?case
  proof (cases "is_filter_op p")
    case True
    then obtain f where p: "p = QFilter f" by (cases p) auto
    have "apply_operation ident p (xs, err) = (filter (holds f) xs, err)"
      using Cons.prems by (simp add: p predicates_def apply_operation_def filter_lazy_total)
    with Cons p show ?thesis by (simp add: predicates_def conj_commute)
  next
    case False
    then have "predicates (p # ps) = predicates ps" by (cases p) (auto simp: predicates_def)
    with Cons False show ?thesis by simp
  qed
qed (simp add: predicates_def)

text \<open>
  In the optimised plan every \<open>where\<close> acts on the provider's elements, wherever it stands:
  the pipeline is the remaining operations, sorting and limits before projections, run on the
  elements that satisfy all predicates. So \<open>take(n).where(p)\<close> is \<open>where(p).take(n)\<close>, and a
  predicate that follows a \<open>select\<close> sees the element before the projection.
\<close>

theorem filters_see_raw_elements:
  assumes "\<forall>f \<in> set (predicates ps). \<forall>x. \<exists>b. f x = Inr b"
  shows "apply_operations ident (reorder ps) (xs, err) =
         apply_operations ident
           (filter (\<lambda>p. \<not> is_filter_op p \<and> \<not> is_select_op p) ps @ filter is_select_op ps)
           (filter (\<lambda>x. \<forall>f \<in> set (predicates ps). holds f x) xs, err)"
  unfolding reorder_def apply_operations_simps(3) [of ident "filter is_filter_op ps"] apply_filters [OF assms] ..

theorem filters_see_raw_elements_witness:
  "let ps = [QTake 1, QFilter (\<lambda>x::nat. Inr (3 < x))]
   in apply_operations (\<lambda>x. x) (reorder ps) ([1, 5], None) = ([5], None) \<and>
      apply_operations (\<lambda>x. x) ps ([1, 5], None) = ([], None)"
  using filters_see_raw_elements [of "[QTake 1, QFilter (\<lambda>x::nat. Inr (3 < x))]" "\<lambda>x. x" "[1, 5]" None]
  by (simp add: apply_operation_def take_lazy_def predicates_def holds_def)

text \<open>
  \<open>select\<close> hands its builder the plan object of the builder it is called on, and no element
  type. So afterwards the original builder projects too, and the new one queries the elements of
  every type: for both the elements they run on, and the same extended plan, are shown.
\<close>

theorem select_shares_plan:
  assumes "q_select f b st = (b', st')" and "qb_plan b < length (plans st)" "qb_exec b < length (executors st)"
  shows "query_results E (executors (set_executor_plan b st') ! qb_exec b) =
           query_results E (set_query_plan (optimize (plan_add (QSelect f) 10 (builder_plan b st)))
                              (executors st ! qb_exec b)) \<and>
         query_results E (executors (set_executor_plan b' st') ! qb_exec b') =
           query_results E (set_query_plan (optimize (plan_add (QSelect f) 10 (builder_plan b st)))
                              (new_executor None))"
  using assms
  by (auto simp: q_select_def new_builder_def Let_def put_plan_def builder_plan_def set_executor_plan_def
      put_executor_def nth_append)

theorem select_shares_plan_witness:
  "let E = \<lparr>all_elements = Inr [1, 2, 3], elements_of_type = (\<lambda>_::unit. Inr [2]), type_text = (\<lambda>_. ''Wall''),
            plan_hash = (\<lambda>_. ''h''), identity = (\<lambda>x::nat. x), q_backend = memory_backend (sample_config 2 LRU),
            q_config = sample_config 2 LRU\<rparr>;
       (b, st) = new_builder (Some ()) \<lparr>plans = [], executors = [],
                   q_cache = (new_manager (sample_config 2 LRU) (empty_mem_cache 0) :: (nat list mem_cache, unit) manager)\<rparr>;
       (b', st') = q_select (\<lambda>x. Inr (10 * x)) b st
   in query_results E (executors (set_executor_plan b st') ! qb_exec b) = Inr [20] \<and>
      query_results E (executors (set_executor_plan b' st') ! qb_exec b') = Inr [10, 20, 30]"
proof -
  let ?st0 = "\<lparr>plans = [], executors = [],
      q_cache = (new_manager (sample_config 2 LRU) (empty_mem_cache 0) :: (nat list mem_cache, unit) manager)\<rparr>
      :: (unit, nat, nat, nat list mem_cache, unit) query_store"
  let ?E = "\<lparr>all_elements = Inr [1, 2, 3], elements_of_type = (\<lambda>_::unit. Inr [2]), type_text = (\<lambda>_. ''Wall''),
            plan_hash = (\<lambda>_. ''h''), identity = (\<lambda>x::nat. x), q_backend = memory_backend (sample_config 2 LRU),
            q_config = sample_config 2 LRU\<rparr>"
  obtain b st where b: "new_builder (Some ()) ?st0 = (b, st)" by fastforce
  obtain b' st' where s: "q_select (\<lambda>x. Inr (10 * x)) b st = (b', st')" by fastforce
  have v: "qb_plan b < length (plans st)" "qb_exec b < length (executors st)"
    "executors st ! qb_exec b = new_executor (Some ())" "builder_plan b st = empty_plan"
    using b by (auto simp: new_builder_def builder_plan_def)
  have "query_results ?E (set_query_plan (optimize (plan_add (QSelect (\<lambda>x. Inr (10 * x))) 10 empty_plan))
          (new_executor ty)) = (case ty of None \<Rightarrow> Inr [10, 20, 30] | Some _ \<Rightarrow> Inr [20])" for ty
    by (cases ty) (simp_all add: query_results_def set_query_plan_def new_executor_def optimize_def plan_add_def
        empty_plan_def reorder_def apply_operation_def)
  with select_shares_plan [OF s v(1,2), of ?E] v(3,4) b s show ?thesis by simp
qed

text \<open>
  A builder's executor keeps the first result it computes: once a builder has been executed,
  executing it again yields the same elements, whatever has happened in between to the provider,
  the cache and the builder's plan, and asks none of them.
\<close>

theorem executed_builder_is_fixed:
  assumes "builder_execute E now b st = Some (Inr ys, st1)" and "qb_exec b < length (executors st)"
    and "executors st2 ! qb_exec b = executors st1 ! qb_exec b" "qb_exec b < length (executors st2)"
  shows "builder_execute E' now' b st2 = Some (Inr ys, set_executor_plan b st2)"
proof -
  have fixed: "ex_executed (executors st1 ! qb_exec b) \<and> ex_results (executors st1 ! qb_exec b) = Some ys"
    using assms(1,2)
    by (auto simp: builder_execute_def execute_def Let_def set_executor_plan_def put_executor_def finish_def
        split: option.splits if_splits sum.splits prod.splits)
  then show ?thesis
    using assms(3,4)
    by (simp add: builder_execute_def execute_def set_executor_plan_def put_executor_def set_query_plan_def)
qed

theorem executed_builder_is_fixed_witness:
  "let B = \<lparr>b_get = (\<lambda>_ _ s. (Inr None, s)), b_set = (\<lambda>_ _ _ s. Some (Inr False, s)), b_delete = (\<lambda>_ s. (Inr False, s)),
            b_clear = (\<lambda>s. (None, s)), b_keys = (\<lambda>s. (Inr [], s)), b_size = (\<lambda>_. 0), b_invalidate = None\<rparr>;
       env = (\<lambda>xs. \<lparr>all_elements = Inr xs, elements_of_type = (\<lambda>_::unit. Inr xs), type_text = (\<lambda>_. ''Wall''),
            plan_hash = (\<lambda>_. ''h''), identity = (\<lambda>x::nat. x), q_backend = B, q_config = sample_config 2 LRU\<rparr>);
       st0 = \<lparr>plans = [], executors = [], q_cache = (new_manager (sample_config 2 LRU) () :: (unit, unit) manager)\<rparr>
   in case new_builder None st0 of (b, st) \<Rightarrow>
        (\<exists>st1 st2. builder_execute (env [1, 2]) 0 b st = Some (Inr [1, 2], st1) \<and>
                   builder_execute (env [7]) 9 b st1 = Some (Inr [1, 2], st2))"
proof -
  let ?B = "\<lparr>b_get = (\<lambda>_ _ s. (Inr None, s)), b_set = (\<lambda>_ _ _ s. Some (Inr False, s)), b_delete = (\<lambda>_ s. (Inr False, s)),
      b_clear = (\<lambda>s. (None, s)), b_keys = (\<lambda>s. (Inr [], s)), b_size = (\<lambda>_. 0), b_invalidate = None\<rparr> :: (unit, nat list) backend"
  let ?env = "\<lambda>xs. \<lparr>all_elements = Inr xs, elements_of_type = (\<lambda>_::unit. Inr xs), type_text = (\<lambda>_. ''Wall''),
      plan_hash = (\<lambda>_. ''h''), identity = (\<lambda>x::nat. x), q_backend = ?B, q_config = sample_config 2 LRU\<rparr>"
  let ?st0 = "\<lparr>plans = [], executors = [], q_cache = (new_manager (sample_config 2 LRU) () :: (unit, unit) manager)\<rparr>
      :: (unit, nat, nat, unit, unit) query_store"
  obtain b st where b: "new_builder None ?st0 = (b, st)" by fastforce
  then have valid: "qb_exec b < length (executors st)" by (auto simp: new_builder_def)
  have "\<exists>st1. builder_execute (?env [1, 2]) 0 b st = Some (Inr [1, 2], st1) \<and>
          length (executors st1) = length (executors st)"
    using b
    by (auto simp: new_builder_def builder_execute_def execute_def Let_def set_executor_plan_def put_executor_def
        new_executor_def set_query_plan_def query_results_def optimize_def reorder_def empty_plan_def builder_plan_def
        cm_get_def cm_set_def)
  then obtain st1 where st1: "builder_execute (?env [1, 2]) 0 b st = Some (Inr [1, 2], st1)"
    "length (executors st1) = length (executors st)" by blast
  from executed_builder_is_fixed [OF st1(1) valid refl] st1 valid
  have "builder_execute (?env [7]) 9 b st1 = Some (Inr [1, 2], set_executor_plan b st1)" by simp
  with b st1(1) show ?thesis unfolding Let_def by auto
qed

lemma group_into_total:
  assumes "\<forall>x. key x = Inr (k x)"
  shows "dict_ok d \<Longrightarrow> \<exists>d'. group_into key xs d = Inr d' \<and> dict_ok d' \<and>
    (\<forall>c. map_of d' c = (if filter (\<lambda>x. k x = c) xs = [] then map_of d c
                       else Some ((case map_of d c of None \<Rightarrow> [] | Some g \<Rightarrow> g) @ filter (\<lambda>x. k x = c) xs)))"
proof (induction xs arbitrary: d)
  case (Cons x xs)
  let ?d = "AList.update (k x) ((case map_of d (k x) of None \<Rightarrow> [] | Some g \<Rightarrow> g) @ [x]) d"
  have "dict_ok ?d" using Cons.prems by (rule dict_ok_update)
  then obtain d' where d': "group_into key xs ?d = Inr d'" "dict_ok d'"
    "\<And>c. map_of d' c = (if filter (\<lambda>x. k x = c) xs = [] then map_of ?d c
          else Some ((case map_of ?d c of None \<Rightarrow> [] | Some g \<Rightarrow> g) @ filter (\<lambda>x. k x = c) xs))"
    using Cons.IH by blast
  have "map_of d' c = (if filter (\<lambda>x. k x = c) (x # xs) = [] then map_of d c
          else Some ((case map_of d c of None \<Rightarrow> [] | Some g \<Rightarrow> g) @ filter (\<lambda>x. k x = c) (x # xs)))" for c
    unfolding d'(3) by (cases "k x = c") (simp_all del: map_of_eq_Some_iff)
  moreover have "group_into key (x # xs) d = Inr d'"
    using d'(1) assms [rule_format, of x] by simp
  ultimately show ?case using d'(2) by blast
qed simp

text \<open>
  With a key that never raises, \<open>group_by\<close> partitions the elements of the query: a key is in
  the dictionary once, exactly when some element has it, and its group holds the elements with
  that key in the order of the query. The state afterwards is that of executing the query.
\<close>

theorem group_by_partitions:
  assumes "\<forall>x. key x = Inr (k x)" and "builder_execute E now b st = Some (Inr ys, st')"
  shows "\<exists>d. q_group_by E now key b st = Some (Inr d, st') \<and> dict_ok d \<and>
             (\<forall>c g. map_of d c = Some g \<longleftrightarrow> g = filter (\<lambda>x. k x = c) ys \<and> g \<noteq> [])"
proof -
  obtain d where "group_into key ys [] = Inr d" "dict_ok d"
    "\<forall>c. map_of d c = (if filter (\<lambda>x. k x = c) ys = [] then None else Some (filter (\<lambda>x. k x = c) ys))"
    using group_into_total [OF assms(1), of "[]" ys] by auto
  then show ?thesis using assms(2) by (auto simp: q_group_by_def then_result_def)
qed

theorem group_by_partitions_witness:
  "let E = \<lparr>all_elements = Inr [1, 2, 4::nat], elements_of_type = (\<lambda>_::unit. Inr []), type_text = (\<lambda>_. ''Wall''),
            plan_hash = (\<lambda>_. ''h''), identity = (\<lambda>x. x), q_backend = memory_backend (sample_config 2 LRU),
            q_config = sample_config 2 LRU\<rparr>;
       st = \<lparr>plans = [empty_plan], executors = [(new_executor None)\<lparr>ex_executed := True, ex_results := Some [1, 2, 4]\<rparr>],
             q_cache = (new_manager (sample_config 2 LRU) (empty_mem_cache 0) :: (nat list mem_cache, unit) manager)\<rparr>
   in \<exists>d st'. q_group_by E 0 (\<lambda>x. Inr (x mod 2)) \<lparr>qb_type = None, qb_plan = 0, qb_exec = 0\<rparr> st = Some (Inr d, st') \<and>
              map_of d 0 = Some [2, 4]"
proof -
  let ?E = "\<lparr>all_elements = Inr [1, 2, 4::nat], elements_of_type = (\<lambda>_::unit. Inr []), type_text = (\<lambda>_. ''Wall''),
            plan_hash = (\<lambda>_. ''h''), identity = (\<lambda>x. x), q_backend = memory_backend (sample_config 2 LRU),
            q_config = sample_config 2 LRU\<rparr>"
  let ?st = "\<lparr>plans = [empty_plan], executors = [(new_executor None)\<lparr>ex_executed := True, ex_results := Some [1, 2, 4]\<rparr>],
             q_cache = (new_manager (sample_config 2 LRU) (empty_mem_cache 0) :: (nat list mem_cache, unit) manager)\<rparr>"
  let ?b = "\<lparr>qb_type = None, qb_plan = 0, qb_exec = 0\<rparr>"
  have run: "builder_execute ?E 0 ?b ?st = Some (Inr [1, 2, 4], set_executor_plan ?b ?st)"
    by (simp add: builder_execute_def execute_def set_executor_plan_def put_executor_def set_query_plan_def)
  obtain d where "q_group_by ?E 0 (\<lambda>x. Inr (x mod 2)) ?b ?st = Some (Inr d, set_executor_plan ?b ?st)"
    "map_of d 0 = Some [2, 4]"
    using group_by_partitions [OF _ run, of "\<lambda>x. Inr (x mod 2)" "\<lambda>x. x mod 2"] by auto
  then show ?thesis by (auto simp: Let_def)
qed

lemma concat_chunks: "0 < n \<Longrightarrow> concat (chunks n xs) = xs"
proof (induction n xs rule: chunks.induct)
  case (1 n xs)
  then show ?case by (subst chunks.simps) auto
qed

lemma stream_batches_concat: "0 < n \<Longrightarrow> \<exists>bs. stream_batches par n ys = Inr bs \<and> concat bs = ys"
  by (simp add: stream_batches_def concat_chunks)

text \<open>
  Streaming loses and repeats nothing: with a positive batch size, collecting the batches of
  a streaming query gives the result of \<open>to_list\<close>, exceptions and the state afterwards included,
  whether or not the plan is one that is split into batches.
\<close>

theorem streaming_is_to_list:
  assumes "0 < n"
  shows "streaming_to_list E now n b st = q_to_list E now b st"
proof (cases "builder_execute E now b st")
  case (Some r)
  obtain x st' where r: "r = (x, st')" by (cases r)
  show ?thesis
  proof (cases x)
    case (Inr ys)
    obtain bs where "stream_batches (parallel_execution (optimize (builder_plan b st))) n ys = Inr bs" "concat bs = ys"
      using stream_batches_concat [OF assms] by blast
    with Some r Inr show ?thesis
      by (simp add: streaming_to_list_def execute_streaming_def then_result_def q_to_list_def)
  qed (simp add: Some r streaming_to_list_def execute_streaming_def then_result_def q_to_list_def)
qed (simp add: streaming_to_list_def execute_streaming_def then_result_def q_to_list_def)

theorem streaming_is_to_list_witness:
  "concat (chunks 2 [1, 2, 3::nat]) = [1, 2, 3] \<and>
   (\<forall>(E :: (unit, nat, nat, nat list mem_cache) query_env) b (st :: (unit, nat, nat, nat list mem_cache, unit) query_store).
      streaming_to_list E 0 2 b st = q_to_list E 0 b st)"
  by (simp add: concat_chunks streaming_is_to_list)

end
