(* ===== verification/Resolver.thy ===== *)
theory Resolver
  imports Prelude
begin

text \<open>
  Dependency resolution of the package manager:
  \<open>revitpy-package-manager/revitpy_package_manager/installer/resolver.py\<close>.

  Versions and specifiers are the third-party package \<open>packaging\<close>: the record \<open>packaging\<close>
  holds its constructors, which may raise, and its \<open>in\<close>. Names are ASCII text. The loop of
  \<open>resolve_dependencies\<close> carries the stack that it pushes to and pops from, as the code does.
\<close>

subsection \<open>Packages\<close>

text \<open>\<open>re.sub(r"[-_.]+", "-", name).lower()\<close>\<close>

definition is_sep :: "char \<Rightarrow> bool" where
  "is_sep c \<longleftrightarrow> c = CHR ''-'' \<or> c = CHR ''_'' \<or> c = CHR ''.''"

definition lower_char :: "char \<Rightarrow> char" where
  "lower_char c = (let n = (of_char c :: nat) in if 65 \<le> n \<and> n \<le> 90 then char_of (n + 32) else c)"

function normalize_name :: "string \<Rightarrow> string" where
  "normalize_name [] = []"
| "normalize_name (c # s) =
     (if is_sep c then CHR ''-'' # normalize_name (dropWhile is_sep s)
      else lower_char c # normalize_name s)"
  by pat_completeness auto
termination
  by (relation "measure length") (auto simp: length_dropWhile_le le_imp_less_Suc)

lemma of_char_lower: "(of_char (lower_char c) :: nat) =
   (if 65 \<le> (of_char c :: nat) \<and> of_char c \<le> (90 :: nat) then of_char c + 32 else of_char c)"
  by (simp add: lower_char_def Let_def)

lemma is_sep_code: "is_sep c \<longleftrightarrow> (of_char c :: nat) \<in> {45, 46, 95}"
proof -
  have eq: "c = d \<longleftrightarrow> (of_char c :: nat) = of_char d" for d by simp
  show ?thesis unfolding is_sep_def eq by auto
qed

lemma is_sep_lower [simp]: "is_sep (lower_char c) = is_sep c"
  unfolding is_sep_code of_char_lower by auto

lemma lower_lower [simp]: "lower_char (lower_char c) = lower_char c"
proof -
  have "(of_char (lower_char (lower_char c)) :: nat) = of_char (lower_char c)"
    unfolding of_char_lower [of "lower_char c"] using of_char_lower [of c] by simp
  then show ?thesis by simp
qed

lemma drop_normalized:
  "s = [] \<or> \<not> is_sep (hd s) \<Longrightarrow> dropWhile is_sep (normalize_name s) = normalize_name s"
  by (cases s) auto

lemma normalize_idem [simp]: "normalize_name (normalize_name s) = normalize_name s"
proof (induction s rule: normalize_name.induct)
  case (2 c s)
  have "is_sep (CHR ''-'')" by (simp add: is_sep_def)
  moreover have "dropWhile is_sep (normalize_name (dropWhile is_sep s)) = normalize_name (dropWhile is_sep s)"
    using hd_dropWhile [of is_sep s] by (intro drop_normalized) blast
  ultimately show ?case using 2 by simp
qed simp

record package_spec =
  pk_name :: string
  pk_version :: string
  pk_python :: string
  pk_revit :: "string list"
  pk_deps :: "(string, string) dict"
  pk_extras :: "(string, (string, string) dict) dict"
  pk_prerelease :: bool

text \<open>The constructor: \<open>__post_init__\<close> normalises the name.\<close>

definition make_package_spec :: "package_spec \<Rightarrow> package_spec" where
  "make_package_spec p = p\<lparr>pk_name := normalize_name (pk_name p)\<rparr>"

definition is_compatible_with_revit :: "package_spec \<Rightarrow> string \<Rightarrow> bool" where
  "is_compatible_with_revit p r \<longleftrightarrow> pk_revit p = [] \<or> r \<in> set (pk_revit p)"

record ('ver, 'spec) packaging =
  parse_version :: "string \<Rightarrow> 'ver option"
  parse_specifier :: "string \<Rightarrow> 'spec option"
  version_in :: "'ver \<Rightarrow> 'spec \<Rightarrow> bool"
  version_is_prerelease :: "'ver \<Rightarrow> bool"

definition is_compatible_with_python :: "('ver, 'spec) packaging \<Rightarrow> package_spec \<Rightarrow> string \<Rightarrow> bool" where
  "is_compatible_with_python L p py =
     (case (parse_specifier L (pk_python p), parse_version L py) of
        (Some s, Some v) \<Rightarrow> version_in L v s | _ \<Rightarrow> False)"

datatype conflict_type =
    VERSION_CONFLICT | CIRCULAR_DEPENDENCY | MISSING_DEPENDENCY | REVIT_INCOMPATIBLE | PYTHON_INCOMPATIBLE

record dependency_conflict =
  dc_type :: conflict_type
  dc_package :: string
  dc_specs :: "string list"
  dc_affected :: "string list"

record resolution_result =
  resolved_packages :: "(string, package_spec) dict"
  conflicts :: "dependency_conflict list"
  installation_order :: "string list"

definition is_successful :: "resolution_result \<Rightarrow> bool" where
  "is_successful r \<longleftrightarrow> conflicts r = []"

definition get_critical_conflicts :: "resolution_result \<Rightarrow> dependency_conflict list" where
  "get_critical_conflicts r =
     filter (\<lambda>c. dc_type c \<in> {VERSION_CONFLICT, CIRCULAR_DEPENDENCY, MISSING_DEPENDENCY}) (conflicts r)"

subsection \<open>The resolver\<close>

record resolver =
  rs_python :: string
  rs_revit :: string
  allow_prereleases :: bool
  prefer_installed :: bool
  available_packages :: "(string, (string, package_spec) dict) dict"
  installed_packages :: "(string, package_spec) dict"

definition new_resolver :: "string \<Rightarrow> string \<Rightarrow> bool \<Rightarrow> bool \<Rightarrow> resolver" where
  "new_resolver py rv pre inst =
     \<lparr>rs_python = py, rs_revit = rv, allow_prereleases = pre, prefer_installed = inst,
      available_packages = [], installed_packages = []\<rparr>"

definition register_available_package :: "package_spec \<Rightarrow> resolver \<Rightarrow> resolver" where
  "register_available_package p R =
     R\<lparr>available_packages :=
         AList.update (pk_name p)
           (AList.update (pk_version p) p
              (case map_of (available_packages R) (pk_name p) of None \<Rightarrow> [] | Some vs \<Rightarrow> vs))
           (available_packages R)\<rparr>"

definition register_installed_package :: "package_spec \<Rightarrow> resolver \<Rightarrow> resolver" where
  "register_installed_package p R =
     R\<lparr>installed_packages := AList.update (pk_name p) p (installed_packages R)\<rparr>"

definition make_specifier :: "('ver, 'spec) packaging \<Rightarrow> string \<Rightarrow> 'spec option" where
  "make_specifier L s = parse_specifier L (if s \<noteq> ''*'' then s else ''>=0.0.0'')"

text \<open>The body of the loop over the versions of a package: is this one kept?\<close>

definition version_kept ::
  "('ver, 'spec) packaging \<Rightarrow> resolver \<Rightarrow> 'spec \<Rightarrow> bool \<Rightarrow> string \<times> package_spec \<Rightarrow> bool" where
  "version_kept L R spec exclude = (\<lambda>(vs, p).
     case parse_version L vs of
       None \<Rightarrow> False
     | Some v \<Rightarrow>
         version_in L v spec \<and> \<not> (exclude \<and> (version_is_prerelease L v \<or> pk_prerelease p)) \<and>
         is_compatible_with_python L p (rs_python R) \<and> is_compatible_with_revit p (rs_revit R))"

text \<open>\<open>sort(key=Version(...), reverse=True)\<close>, which raises if some version is invalid.\<close>

definition sort_newest ::
  "('ver::linorder, 'spec) packaging \<Rightarrow> package_spec list \<Rightarrow> string + package_spec list" where
  "sort_newest L ps =
     (if list_all (\<lambda>p. parse_version L (pk_version p) \<noteq> None) ps
      then Inr (rev (sort_key (\<lambda>p. the (parse_version L (pk_version p))) (rev ps)))
      else Inl ''InvalidVersion'')"

definition get_compatible_versions ::
  "('ver::linorder, 'spec) packaging \<Rightarrow> resolver \<Rightarrow> string \<Rightarrow> string \<Rightarrow> bool option \<Rightarrow>
   string + package_spec list" where
  "get_compatible_versions L R name vspec exclude =
     (case map_of (available_packages R) (normalize_name name) of
        None \<Rightarrow> Inr []
      | Some vs \<Rightarrow>
          (case make_specifier L vspec of
             None \<Rightarrow> Inl ''InvalidSpecifier''
           | Some spec \<Rightarrow>
               sort_newest L (map snd (filter (version_kept L R spec
                 (case exclude of None \<Rightarrow> \<not> allow_prereleases R | Some b \<Rightarrow> b)) vs))))"

definition is_version_compatible :: "('ver, 'spec) packaging \<Rightarrow> string \<Rightarrow> string \<Rightarrow> bool" where
  "is_version_compatible L v vspec =
     (case (make_specifier L vspec, parse_version L v) of
        (Some s, Some ver) \<Rightarrow> version_in L ver s | _ \<Rightarrow> False)"

definition select_version :: "resolver \<Rightarrow> string \<Rightarrow> package_spec list \<Rightarrow> package_spec" where
  "select_version R n ps =
     (case (if prefer_installed R then map_of (installed_packages R) n else None) of
        Some p \<Rightarrow> if p \<in> set ps then p else hd ps
      | None \<Rightarrow> hd ps)"

type_synonym requirement = "string \<times> string \<times> string option"

definition extra_requirements :: "string \<Rightarrow> package_spec \<Rightarrow> string list \<Rightarrow> requirement list" where
  "extra_requirements n p exs =
     concat (map (\<lambda>ex. case map_of (pk_extras p) ex of None \<Rightarrow> []
                       | Some ds \<Rightarrow> map (\<lambda>(d, s). (d, s, Some (n @ ''['' @ ex @ '']''))) ds) exs)"

definition new_requirements :: "string \<Rightarrow> package_spec \<Rightarrow> string list \<Rightarrow> requirement list" where
  "new_requirements n p exs = map (\<lambda>(d, s). (d, s, Some n)) (pk_deps p) @ extra_requirements n p exs"

definition affected :: "string option \<Rightarrow> string list" where
  "affected by = (case by of None \<Rightarrow> [] | Some b \<Rightarrow> if b = [] then [] else [b])"

record resolve_state =
  to_resolve :: "requirement list"
  resolution_stack :: "string list"
  resolved :: "(string, package_spec) dict"
  found_conflicts :: "dependency_conflict list"

definition add_conflict :: "dependency_conflict \<Rightarrow> resolve_state \<Rightarrow> resolve_state" where
  "add_conflict c st = st\<lparr>found_conflicts := found_conflicts st @ [c]\<rparr>"

definition pop_stack :: "resolve_state \<Rightarrow> resolve_state" where
  "pop_stack st = st\<lparr>resolution_stack := butlast (resolution_stack st)\<rparr>"

definition resolve_new ::
  "(string, string list) dict \<Rightarrow> string \<Rightarrow> package_spec \<Rightarrow> resolve_state \<Rightarrow> resolve_state" where
  "resolve_new extras n p st =
     st\<lparr>resolved := AList.update n p (resolved st),
        to_resolve := to_resolve st @
          new_requirements n p (case map_of extras n of None \<Rightarrow> [] | Some exs \<Rightarrow> exs)\<rparr>"

text \<open>One round of the loop of \<open>resolve_dependencies\<close>, on a requirement taken from the queue.\<close>

definition resolve_round ::
  "('ver::linorder, 'spec) packaging \<Rightarrow> resolver \<Rightarrow> (string, string list) dict \<Rightarrow> requirement \<Rightarrow>
   resolve_state \<Rightarrow> string + resolve_state" where
  "resolve_round L R extras req st =
     (case req of (name, vspec, by) \<Rightarrow>
        let n = normalize_name name in
        if n \<in> set (resolution_stack st) then
          Inr (add_conflict \<lparr>dc_type = CIRCULAR_DEPENDENCY, dc_package = n, dc_specs = [vspec],
                             dc_affected = dropWhile (\<lambda>x. x \<noteq> n) (resolution_stack st) @ [n]\<rparr> st)
        else
          (let st1 = st\<lparr>resolution_stack := resolution_stack st @ [n]\<rparr> in
           case map_of (resolved st1) n of
             Some p \<Rightarrow>
               Inr (pop_stack
                 (if is_version_compatible L (pk_version p) vspec then st1
                  else add_conflict \<lparr>dc_type = VERSION_CONFLICT, dc_package = n,
                                     dc_specs = [pk_version p, vspec], dc_affected = affected by\<rparr> st1))
           | None \<Rightarrow>
               (case get_compatible_versions L R n vspec None of
                  Inl e \<Rightarrow> Inl e
                | Inr ps \<Rightarrow>
                    Inr (pop_stack
                      (if ps = []
                       then add_conflict \<lparr>dc_type = MISSING_DEPENDENCY, dc_package = n, dc_specs = [vspec],
                                          dc_affected = affected by\<rparr> st1
                       else resolve_new extras n (select_version R n ps) st1)))))"

text \<open>
  The loop ends: every round either only takes a requirement from the queue, or resolves one
  more of the available packages.
\<close>

definition unresolved :: "resolver \<Rightarrow> resolve_state \<Rightarrow> string set" where
  "unresolved R st = fst ` set (available_packages R) - fst ` set (resolved st)"

lemma get_compatible_available:
  assumes "get_compatible_versions L R n s ex = Inr ps" "ps \<noteq> []"
  shows "normalize_name n \<in> fst ` set (available_packages R)"
  using assms
proof (cases "map_of (available_packages R) (normalize_name n)")
  case None
  with assms show ?thesis by (simp add: get_compatible_versions_def)
qed (rule map_of_Some_keys)

lemma resolve_round_cases:
  assumes "resolve_round L R extras (name, vspec, by) st = Inr st'"
  shows "to_resolve st' = to_resolve st \<and> resolved st' = resolved st \<or>
         normalize_name name \<notin> fst ` set (resolved st) \<and>
         normalize_name name \<in> fst ` set (available_packages R) \<and>
         (\<exists>p. resolved st' = AList.update (normalize_name name) p (resolved st))"
proof -
  let ?n = "normalize_name name"
  consider "?n \<in> set (resolution_stack st)" | p where "?n \<notin> set (resolution_stack st)" "map_of (resolved st) ?n = Some p"
    | "?n \<notin> set (resolution_stack st)" "map_of (resolved st) ?n = None" by fastforce
  then show ?thesis
  proof cases
    case 1
    with assms have "st' = add_conflict \<lparr>dc_type = CIRCULAR_DEPENDENCY, dc_package = ?n, dc_specs = [vspec],
        dc_affected = dropWhile (\<lambda>x. x \<noteq> ?n) (resolution_stack st) @ [?n]\<rparr> st"
      by (simp add: resolve_round_def Let_def)
    then show ?thesis by (simp add: add_conflict_def)
  next
    case 2
    with assms show ?thesis
      by (auto simp: resolve_round_def Let_def add_conflict_def pop_stack_def split: if_splits)
  next
    case 3
    then obtain ps where ps: "get_compatible_versions L R ?n vspec None = Inr ps"
      using assms by (simp add: resolve_round_def Let_def split: sum.splits)
    show ?thesis
    proof (cases "ps = []")
      case True
      with 3 ps assms show ?thesis by (auto simp: resolve_round_def Let_def add_conflict_def pop_stack_def)
    next
      case False
      with 3 ps assms have "resolved st' = AList.update ?n (select_version R ?n ps) (resolved st)"
        by (auto simp: resolve_round_def Let_def pop_stack_def resolve_new_def)
      with 3 get_compatible_available [OF ps False] show ?thesis by (auto simp: map_of_None_keys)
    qed
  qed
qed

lemma resolve_round_measure:
  assumes "resolve_round L R extras req st = Inr st'"
  shows "card (unresolved R st') < card (unresolved R st) \<or>
         (unresolved R st' = unresolved R st \<and> to_resolve st' = to_resolve st)"
proof -
  obtain name vspec "by" where req: "req = (name, vspec, by)" by (cases req)
  from resolve_round_cases [OF assms [unfolded req]] show ?thesis
  proof (elim disjE conjE exE)
    assume "to_resolve st' = to_resolve st" "resolved st' = resolved st"
    then show ?thesis by (simp add: unresolved_def)
  next
    fix p
    assume n: "normalize_name name \<notin> fst ` set (resolved st)"
      "normalize_name name \<in> fst ` set (available_packages R)"
      "resolved st' = AList.update (normalize_name name) p (resolved st)"
    have "fst ` set (resolved st') = insert (normalize_name name) (fst ` set (resolved st))"
      unfolding n(3) by (rule set_keys_update)
    then have "unresolved R st' = unresolved R st - {normalize_name name}"
      unfolding unresolved_def by (simp only:) (rule Diff_insert)
    moreover have "finite (unresolved R st)"
      unfolding unresolved_def by (intro finite_Diff finite_imageI finite_set)
    moreover have "normalize_name name \<in> unresolved R st"
      unfolding unresolved_def by (rule DiffI [OF n(2,1)])
    ultimately show ?thesis by (simp only: card_Diff1_less simp_thms)
  qed
qed

lemma unresolved_todo [simp]: "unresolved R (st\<lparr>to_resolve := todo\<rparr>) = unresolved R st"
  by (simp add: unresolved_def)

function resolve_loop ::
  "('ver::linorder, 'spec) packaging \<Rightarrow> resolver \<Rightarrow> (string, string list) dict \<Rightarrow> resolve_state \<Rightarrow>
   string + resolve_state" where
  "resolve_loop L R extras st =
     (case to_resolve st of
        [] \<Rightarrow> Inr st
      | req # todo \<Rightarrow>
          (case resolve_round L R extras req (st\<lparr>to_resolve := todo\<rparr>) of
             Inl e \<Rightarrow> Inl e
           | Inr st' \<Rightarrow> resolve_loop L R extras st'))"
  by pat_completeness auto
termination
proof (relation "measures [\<lambda>(L, R, extras, st). card (unresolved R st), \<lambda>(L, R, extras, st). length (to_resolve st)]",
    goal_cases)
  case (2 L R extras st req todo st')
  from resolve_round_measure [OF 2(2)] 2(1) show ?case by auto
qed simp

declare resolve_loop.simps [simp del]

subsection \<open>Installation order\<close>

definition dependency_graph :: "(string, package_spec) dict \<Rightarrow> (string, string list) dict" where
  "dependency_graph pkgs =
     map (\<lambda>(n, p). (n, filter (\<lambda>d. d \<in> set (dict_keys pkgs)) (map normalize_name (dict_keys (pk_deps p))))) pkgs"

definition add_degree :: "string \<Rightarrow> (string, int) dict \<Rightarrow> (string, int) dict" where
  "add_degree d deg = (case map_of deg d of None \<Rightarrow> deg | Some k \<Rightarrow> AList.update d (k + 1) deg)"

definition in_degrees :: "(string, string list) dict \<Rightarrow> (string, int) dict" where
  "in_degrees g = fold add_degree (concat (map snd g)) (map (\<lambda>(n, ds). (n, 0)) g)"

text \<open>The inner loop of Kahn's algorithm, over the dependencies of one package.\<close>

definition release_one :: "string \<Rightarrow> (string, int) dict \<times> string list \<Rightarrow> (string, int) dict \<times> string list" where
  "release_one d = (\<lambda>(deg, queue).
     case map_of deg d of
       None \<Rightarrow> (deg, queue)
     | Some k \<Rightarrow> (AList.update d (k - 1) deg, if k - 1 = 0 then queue @ [d] else queue))"

definition graph_deps :: "(string, string list) dict \<Rightarrow> string \<Rightarrow> string list" where
  "graph_deps g n = (case map_of g n of None \<Rightarrow> [] | Some ds \<Rightarrow> ds)"

definition degree_weight :: "(string, int) dict \<Rightarrow> nat" where
  "degree_weight deg = sum_list (map (\<lambda>(n, k). nat k) deg)"

lemma weight_update:
  "map_of deg d = Some k \<Longrightarrow> degree_weight (AList.update d k' deg) + nat k = degree_weight deg + nat k'"
  by (induction deg) (auto simp: degree_weight_def split: if_splits)

lemma release_one_weight:
  "degree_weight (fst (release_one d (deg, queue))) + length (snd (release_one d (deg, queue)))
   \<le> degree_weight deg + length queue"
proof (cases "map_of deg d")
  case (Some k)
  with weight_update [OF Some, of "k - 1"] show ?thesis by (auto simp: release_one_def)
qed (simp add: release_one_def)

lemma release_weight:
  "degree_weight (fst (fold release_one ds dq)) + length (snd (fold release_one ds dq))
   \<le> degree_weight (fst dq) + length (snd dq)"
proof (induction ds arbitrary: dq)
  case (Cons d ds)
  have "degree_weight (fst (release_one d dq)) + length (snd (release_one d dq)) \<le> degree_weight (fst dq) + length (snd dq)"
    using release_one_weight [of d "fst dq" "snd dq"] by simp
  with Cons.IH [of "release_one d dq"] show ?case by simp
qed simp

function kahn ::
  "(string, string list) dict \<Rightarrow> (string, int) dict \<Rightarrow> string list \<Rightarrow> string list \<Rightarrow> string list" where
  "kahn g deg [] order = order"
| "kahn g deg (current # queue) order =
     (case fold release_one (graph_deps g current) (deg, queue) of
        (deg', queue') \<Rightarrow> kahn g deg' queue' (order @ [current]))"
  by pat_completeness auto
termination
proof (relation "measure (\<lambda>(g, deg, queue, order). degree_weight deg + length queue)", goal_cases)
  case (2 g deg current queue order deg' queue')
  from 2 [symmetric] release_weight [of "graph_deps g current" "(deg, queue)"] show ?case by simp
qed simp

definition calculate_installation_order :: "(string, package_spec) dict \<Rightarrow> string list" where
  "calculate_installation_order pkgs =
     (let g = dependency_graph pkgs; deg = in_degrees g
      in kahn g deg (map fst (filter (\<lambda>(n, k). k = 0) deg)) [])"

definition resolve_dependencies ::
  "('ver::linorder, 'spec) packaging \<Rightarrow> resolver \<Rightarrow> (string, string) dict \<Rightarrow> (string, string list) dict option \<Rightarrow>
   string + resolution_result" where
  "resolve_dependencies L R requirements extras =
     (case resolve_loop L R (case extras of None \<Rightarrow> [] | Some e \<Rightarrow> e)
             \<lparr>to_resolve = map (\<lambda>(n, s). (n, s, None)) requirements, resolution_stack = [],
              resolved = [], found_conflicts = []\<rparr> of
        Inl e \<Rightarrow> Inl e
      | Inr st \<Rightarrow>
          Inr \<lparr>resolved_packages = resolved st, conflicts = found_conflicts st,
               installation_order = calculate_installation_order (resolved st)\<rparr>)"

subsection \<open>Lock files\<close>

record lock_entry =
  le_version :: string
  le_python :: string
  le_revit :: "string list"
  le_deps :: "(string, string) dict"
  le_extras :: "(string, (string, string) dict) dict"
  le_prerelease :: bool

record lock_data =
  ld_version :: string
  ld_python :: string
  ld_revit :: string
  ld_generated_at :: string
  ld_packages :: "(string, lock_entry) dict"
  ld_order :: "string list option"

definition create_lock_file :: "resolver \<Rightarrow> string \<Rightarrow> resolution_result \<Rightarrow> string + lock_data" where
  "create_lock_file R now r =
     (if \<not> is_successful r then Inl ''Cannot create lock file from unsuccessful resolution''
      else Inr \<lparr>ld_version = ''1.0'', ld_python = rs_python R, ld_revit = rs_revit R, ld_generated_at = now,
                ld_packages = map (\<lambda>(n, p). (n, \<lparr>le_version = pk_version p, le_python = pk_python p,
                    le_revit = pk_revit p, le_deps = pk_deps p, le_extras = pk_extras p,
                    le_prerelease = pk_prerelease p\<rparr>)) (resolved_packages r),
                ld_order = Some (installation_order r)\<rparr>)"

definition lock_package :: "string \<Rightarrow> lock_entry \<Rightarrow> package_spec" where
  "lock_package n e =
     make_package_spec \<lparr>pk_name = n, pk_version = le_version e, pk_python = le_python e, pk_revit = le_revit e,
       pk_deps = le_deps e, pk_extras = le_extras e, pk_prerelease = le_prerelease e\<rparr>"

definition resolve_from_lock_file :: "lock_data \<Rightarrow> resolution_result" where
  "resolve_from_lock_file d =
     (let pkgs = map (\<lambda>(n, e). (n, lock_package n e)) (ld_packages d)
      in \<lparr>resolved_packages = pkgs, conflicts = [],
          installation_order = (case ld_order d of None \<Rightarrow> dict_keys pkgs | Some ns \<Rightarrow> ns)\<rparr>)"

subsection \<open>Registries\<close>

text \<open>What registering packages keeps: every package is filed under its own name and version.\<close>

definition registry_ok :: "resolver \<Rightarrow> bool" where
  "registry_ok R \<longleftrightarrow>
     (\<forall>n vs. map_of (available_packages R) n = Some vs \<longrightarrow> normalize_name n = n \<and>
        (\<forall>(v, p) \<in> set vs. v = pk_version p \<and> pk_name p = n)) \<and>
     (\<forall>n p. map_of (installed_packages R) n = Some p \<longrightarrow> pk_name p = n)"

inductive registered :: "resolver \<Rightarrow> bool" where
  reg_new: "registered (new_resolver py rv pre inst)"
| reg_available: "registered R \<Longrightarrow> registered (register_available_package (make_package_spec p) R)"
| reg_installed: "registered R \<Longrightarrow> registered (register_installed_package (make_package_spec p) R)"

lemma update_entries: "(v, p) \<in> set (AList.update k x d) \<Longrightarrow> (v, p) = (k, x) \<or> (v, p) \<in> set d"
  by (induction d) (auto split: if_splits)

lemma registered_ok: "registered R \<Longrightarrow> registry_ok R"
proof (induction rule: registered.induct)
  case (reg_available R p)
  let ?p = "make_package_spec p"
  have name: "normalize_name (pk_name ?p) = pk_name ?p" by (simp add: make_package_spec_def)
  have old: "\<forall>(v, q) \<in> set (case map_of (available_packages R) (pk_name ?p) of None \<Rightarrow> [] | Some vs \<Rightarrow> vs).
        v = pk_version q \<and> pk_name q = pk_name ?p"
  proof (cases "map_of (available_packages R) (pk_name ?p)")
    case (Some vs)
    have "\<forall>(v, q) \<in> set vs. v = pk_version q \<and> pk_name q = pk_name ?p"
      using reg_available.IH Some unfolding registry_ok_def by blast
    then show ?thesis by (simp add: Some)
  qed simp
  have new: "\<forall>(v, q) \<in> set (AList.update (pk_version ?p) ?p
      (case map_of (available_packages R) (pk_name ?p) of None \<Rightarrow> [] | Some vs \<Rightarrow> vs)).
        v = pk_version q \<and> pk_name q = pk_name ?p"
    using old update_entries by fast
  show ?case unfolding registry_ok_def
  proof (intro conjI allI impI)
    fix n vs assume "map_of (available_packages (register_available_package ?p R)) n = Some vs"
    then have "(n = pk_name ?p \<and> vs = AList.update (pk_version ?p) ?p
        (case map_of (available_packages R) (pk_name ?p) of None \<Rightarrow> [] | Some vs \<Rightarrow> vs)) \<or>
        map_of (available_packages R) n = Some vs"
      by (auto simp: register_available_package_def split: if_splits)
    then show "normalize_name n = n" "\<forall>(v, q) \<in> set vs. v = pk_version q \<and> pk_name q = n"
      using new name reg_available.IH unfolding registry_ok_def by blast+
  next
    fix n q assume "map_of (installed_packages (register_available_package ?p R)) n = Some q"
    then show "pk_name q = n" using reg_available.IH by (simp add: register_available_package_def registry_ok_def)
  qed
qed (auto simp: registry_ok_def new_resolver_def register_installed_package_def)

subsection \<open>What a resolution holds\<close>

definition extras_of :: "(string, string list) dict \<Rightarrow> string \<Rightarrow> string list" where
  "extras_of extras n = (case map_of extras n of None \<Rightarrow> [] | Some exs \<Rightarrow> exs)"

text \<open>The requirements of a resolution: the given ones and those of the resolved packages.\<close>

definition wanted ::
  "(string, string list) dict \<Rightarrow> (string, string) dict \<Rightarrow> (string, package_spec) dict \<Rightarrow> (string \<times> string) set" where
  "wanted extras roots pkgs =
     set roots \<union> {(d, s). \<exists>n p b. map_of pkgs n = Some p \<and> (d, s, b) \<in> set (new_requirements n p (extras_of extras n))}"

definition satisfied :: "('ver, 'spec) packaging \<Rightarrow> (string, package_spec) dict \<Rightarrow> string \<times> string \<Rightarrow> bool" where
  "satisfied L pkgs req \<longleftrightarrow>
     (case map_of pkgs (normalize_name (fst req)) of
        None \<Rightarrow> False | Some p \<Rightarrow> is_version_compatible L (pk_version p) (snd req))"

definition good_package :: "('ver, 'spec) packaging \<Rightarrow> resolver \<Rightarrow> string \<Rightarrow> package_spec \<Rightarrow> bool" where
  "good_package L R n p \<longleftrightarrow>
     pk_name p = n \<and> normalize_name n = n \<and>
     is_compatible_with_python L p (rs_python R) \<and> is_compatible_with_revit p (rs_revit R) \<and>
     (\<exists>vs. map_of (available_packages R) n = Some vs \<and> p \<in> snd ` set vs)"

lemma set_sort_newest: "sort_newest L ps = Inr qs \<Longrightarrow> set qs = set ps"
  by (auto simp: sort_newest_def split: if_splits)

lemma compatible_versions_good:
  assumes "registry_ok R" "get_compatible_versions L R n s ex = Inr ps" "normalize_name n = n" "p \<in> set ps"
  shows "good_package L R n p \<and> is_version_compatible L (pk_version p) s"
proof -
  obtain vs spec exb where vs: "map_of (available_packages R) n = Some vs" "make_specifier L s = Some spec"
    "sort_newest L (map snd (filter (version_kept L R spec exb) vs)) = Inr ps"
    using assms(2-4) by (auto simp: get_compatible_versions_def split: option.splits)
  obtain v where v: "(v, p) \<in> set vs" "version_kept L R spec exb (v, p)"
    using set_sort_newest [OF vs(3)] assms(4) by auto
  then have "v = pk_version p" "pk_name p = n" using assms(1) vs(1) unfolding registry_ok_def by blast+
  with v vs assms(3) show ?thesis
    by (force simp: good_package_def is_version_compatible_def version_kept_def split: option.splits)
qed

lemma select_version_in: "ps \<noteq> [] \<Longrightarrow> select_version R n ps \<in> set ps"
  by (auto simp: select_version_def split: option.splits)

definition resolve_inv ::
  "('ver, 'spec) packaging \<Rightarrow> resolver \<Rightarrow> (string, string list) dict \<Rightarrow> (string, string) dict \<Rightarrow>
   resolve_state \<Rightarrow> bool" where
  "resolve_inv L R extras roots st \<longleftrightarrow>
     resolution_stack st = [] \<and> dict_ok (resolved st) \<and>
     (\<forall>n p. map_of (resolved st) n = Some p \<longrightarrow> good_package L R n p) \<and>
     (found_conflicts st = [] \<longrightarrow>
        (\<forall>(n, s) \<in> wanted extras roots (resolved st).
           (n, s) \<in> (\<lambda>(n, s, b). (n, s)) ` set (to_resolve st) \<or> satisfied L (resolved st) (n, s)))"

lemma resolve_round_inv:
  assumes "registry_ok R" "resolve_inv L R extras roots st" "to_resolve st = req # todo"
    and "resolve_round L R extras req (st\<lparr>to_resolve := todo\<rparr>) = Inr st'"
  shows "resolve_inv L R extras roots st'"
proof -
  obtain name vspec "by" where req: "req = (name, vspec, by)" by (cases req)
  let ?n = "normalize_name name"
  have stack: "resolution_stack st = []" using assms(2) by (simp add: resolve_inv_def)
  have old: "(n, s) = (name, vspec) \<or> (n, s) \<in> (\<lambda>(n, s, b). (n, s)) ` set todo \<or> satisfied L (resolved st) (n, s)"
    if "found_conflicts st = []" "(n, s) \<in> wanted extras roots (resolved st)" for n s
    using that assms(2,3) by (auto simp: resolve_inv_def req)
  show ?thesis
  proof (cases "map_of (resolved st) ?n")
    case (Some p)
    then have st': "st' = (if is_version_compatible L (pk_version p) vspec then st\<lparr>to_resolve := todo\<rparr>
        else add_conflict \<lparr>dc_type = VERSION_CONFLICT, dc_package = ?n, dc_specs = [pk_version p, vspec],
               dc_affected = affected by\<rparr> (st\<lparr>to_resolve := todo\<rparr>))"
      using assms(4) stack by (auto simp: resolve_round_def req Let_def pop_stack_def add_conflict_def)
    have "satisfied L (resolved st) (name, vspec)" if "is_version_compatible L (pk_version p) vspec"
      using that Some by (simp add: satisfied_def)
    with old assms(2) show ?thesis unfolding st' resolve_inv_def add_conflict_def by auto
  next
    case None
    obtain ps where ps: "get_compatible_versions L R ?n vspec None = Inr ps"
      using assms(4) None stack by (auto simp: resolve_round_def req Let_def split: sum.splits)
    show ?thesis
    proof (cases "ps = []")
      case True
      with assms(4) None stack ps have "st' = add_conflict \<lparr>dc_type = MISSING_DEPENDENCY, dc_package = ?n,
          dc_specs = [vspec], dc_affected = affected by\<rparr> (st\<lparr>to_resolve := todo\<rparr>)"
        by (auto simp: resolve_round_def req Let_def pop_stack_def add_conflict_def)
      with assms(2) show ?thesis by (simp add: resolve_inv_def add_conflict_def)
    next
      case False
      let ?p = "select_version R ?n ps"
      have st': "st' = resolve_new extras ?n ?p (st\<lparr>to_resolve := todo\<rparr>)"
        using assms(4) None stack ps False
        by (auto simp: resolve_round_def req Let_def pop_stack_def resolve_new_def)
      have p: "good_package L R ?n ?p" "is_version_compatible L (pk_version ?p) vspec"
        using compatible_versions_good [OF assms(1) ps normalize_idem select_version_in [OF False]] by auto
      have res: "resolved st' = AList.update ?n ?p (resolved st)" by (simp add: st' resolve_new_def)
      have todo': "to_resolve st' = todo @ new_requirements ?n ?p (extras_of extras ?n)"
        by (simp add: st' resolve_new_def extras_of_def)
      have keep: "satisfied L (resolved st) r \<Longrightarrow> satisfied L (resolved st') r" for r
        using None by (auto simp: satisfied_def res split: option.splits if_splits)
      have new: "satisfied L (resolved st') (name, vspec)" using p(2) by (simp add: satisfied_def res)
      have "(d, s) \<in> (\<lambda>(n, s, b). (n, s)) ` set (to_resolve st') \<or> satisfied L (resolved st') (d, s)"
        if "found_conflicts st = []" "(d, s) \<in> wanted extras roots (resolved st')" for d s
      proof -
        from that(2) consider "(d, s) \<in> wanted extras roots (resolved st)"
          | b where "(d, s, b) \<in> set (new_requirements ?n ?p (extras_of extras ?n))"
          unfolding wanted_def res by (auto split: if_splits)
        then show ?thesis
        proof cases
          case 1
          from old [OF that(1) this] keep new show ?thesis unfolding todo' set_append image_Un by auto
        qed (force simp: todo')
      qed
      moreover have "\<forall>n p. map_of (resolved st') n = Some p \<longrightarrow> good_package L R n p"
        using p(1) assms(2) by (auto simp: res resolve_inv_def)
      moreover have "resolution_stack st' = []" "found_conflicts st' = found_conflicts st" "dict_ok (resolved st')"
        using stack assms(2) by (simp_all add: st' resolve_new_def resolve_inv_def)
      ultimately show ?thesis unfolding resolve_inv_def by auto
    qed
  qed
qed

lemma resolve_loop_inv:
  "registry_ok R \<Longrightarrow> resolve_inv L R extras roots st \<Longrightarrow> resolve_loop L R extras st = Inr st' \<Longrightarrow>
   resolve_inv L R extras roots st' \<and> to_resolve st' = []"
proof (induction L R extras st rule: resolve_loop.induct)
  case (1 L R extras st)
  show ?case
  proof (cases "to_resolve st")
    case Nil
    with 1(3,4) show ?thesis by (simp add: resolve_loop.simps [of L R extras st])
  next
    case (Cons req todo)
    then obtain st1 where st1: "resolve_round L R extras req (st\<lparr>to_resolve := todo\<rparr>) = Inr st1"
      "resolve_loop L R extras st1 = Inr st'"
      using 1(4) by (auto simp: resolve_loop.simps [of L R extras st] split: sum.splits)
    from 1(1) [OF Cons st1(1) 1(2) resolve_round_inv [OF 1(2,3) Cons st1(1)] st1(2)] show ?thesis .
  qed
qed

lemma resolve_loop_no_cycle:
  "resolution_stack st = [] \<Longrightarrow> \<forall>c \<in> set (found_conflicts st). dc_type c \<noteq> CIRCULAR_DEPENDENCY \<Longrightarrow>
   resolve_loop L R extras st = Inr st' \<Longrightarrow> \<forall>c \<in> set (found_conflicts st'). dc_type c \<noteq> CIRCULAR_DEPENDENCY"
proof (induction L R extras st rule: resolve_loop.induct)
  case (1 L R extras st)
  show ?case
  proof (cases "to_resolve st")
    case Nil
    with 1(3,4) show ?thesis by (simp add: resolve_loop.simps [of L R extras st])
  next
    case (Cons req todo)
    then obtain st1 where st1: "resolve_round L R extras req (st\<lparr>to_resolve := todo\<rparr>) = Inr st1"
      "resolve_loop L R extras st1 = Inr st'"
      using 1(4) by (auto simp: resolve_loop.simps [of L R extras st] split: sum.splits)
    have "resolution_stack st1 = [] \<and> (\<forall>c \<in> set (found_conflicts st1). dc_type c \<noteq> CIRCULAR_DEPENDENCY)"
      using st1(1) 1(2,3)
      by (auto simp: resolve_round_def Let_def pop_stack_def add_conflict_def resolve_new_def
          split: prod.splits option.splits sum.splits if_splits)
    with 1(1) [OF Cons st1(1) _ _ st1(2)] show ?thesis by blast
  qed
qed

lemma resolution_inv:
  assumes "registered R" and "resolve_dependencies L R roots extras = Inr r"
  shows "dict_ok (resolved_packages r) \<and>
         (\<forall>n p. map_of (resolved_packages r) n = Some p \<longrightarrow> good_package L R n p) \<and>
         (is_successful r \<longrightarrow>
            (\<forall>req \<in> wanted (case extras of None \<Rightarrow> [] | Some e \<Rightarrow> e) roots (resolved_packages r).
               satisfied L (resolved_packages r) req))"
proof -
  let ?extras = "case extras of None \<Rightarrow> [] | Some e \<Rightarrow> e"
  let ?st = "\<lparr>to_resolve = map (\<lambda>(n, s). (n, s, None)) roots, resolution_stack = [], resolved = [], found_conflicts = []\<rparr>"
  obtain st where st: "resolve_loop L R ?extras ?st = Inr st" "resolved_packages r = resolved st" "conflicts r = found_conflicts st"
    using assms(2) by (auto simp: resolve_dependencies_def split: sum.splits)
  have "resolve_inv L R ?extras roots ?st"
    by (force simp: resolve_inv_def wanted_def)
  from resolve_loop_inv [OF registered_ok [OF assms(1)] this st(1)]
  show ?thesis unfolding st(2) is_successful_def st(3) by (auto simp: resolve_inv_def)
qed

abbreviation sample_packaging :: "(nat, nat) packaging" where
  "sample_packaging \<equiv> \<lparr>parse_version = (\<lambda>s. Some (length s)), parse_specifier = (\<lambda>s. Some (length s)),
                       version_in = (\<lambda>v s. s \<le> v), version_is_prerelease = (\<lambda>_. False)\<rparr>"

abbreviation sample_package :: "string \<Rightarrow> string \<Rightarrow> (string, string) dict \<Rightarrow> package_spec" where
  "sample_package n v ds \<equiv> make_package_spec \<lparr>pk_name = n, pk_version = v, pk_python = ''3'', pk_revit = [],
                                 pk_deps = ds, pk_extras = [], pk_prerelease = False\<rparr>"

abbreviation sample_resolver :: resolver where
  "sample_resolver \<equiv> register_available_package (sample_package ''core'' ''111'' [])
     (register_available_package (sample_package ''Wall_Tools'' ''11'' [(''core'', ''22'')])
       (new_resolver ''3.11'' ''2025'' False True))"

lemma registered_sample: "registered sample_resolver"
  by (intro registered.intros)

lemma sample_resolution:
  "resolve_dependencies sample_packaging sample_resolver [(''wall.tools'', ''1'')] None =
     Inr \<lparr>resolved_packages = [(''wall-tools'', sample_package ''Wall_Tools'' ''11'' [(''core'', ''22'')]),
                              (''core'', sample_package ''core'' ''111'' [])],
          conflicts = [], installation_order = [''wall-tools'', ''core'']\<rparr>"
  by code_simp

subsection \<open>Kahn's algorithm\<close>

lemma release_all:
  assumes "dict_ok deg" "set ds \<subseteq> fst ` set deg"
    and "\<And>n k. map_of deg n = Some k \<Longrightarrow> int (count_list ds n) \<le> k"
  shows "\<exists>deg' news. fold release_one ds (deg, queue) = (deg', queue @ news) \<and>
           dict_ok deg' \<and> fst ` set deg' = fst ` set deg \<and> distinct news \<and>
           (\<forall>n. map_of deg' n = map_option (\<lambda>k. k - int (count_list ds n)) (map_of deg n)) \<and>
           set news = {n \<in> set ds. map_of deg n = Some (int (count_list ds n))}"
  using assms
proof (induction ds arbitrary: deg queue)
  case Nil
  then show ?case by (auto simp: option.map_ident)
next
  case (Cons d ds)
  obtain k where k: "map_of deg d = Some k"
    using Cons.prems(2) map_of_None_keys [of deg d] by auto
  let ?deg = "AList.update d (k - 1) deg"
  have keys: "fst ` set ?deg = fst ` set deg" using map_of_Some_keys [OF k] by auto
  have sub: "set ds \<subseteq> fst ` set ?deg" using Cons.prems(2) unfolding keys by simp
  have le: "int (count_list ds n) \<le> j" if "map_of ?deg n = Some j" for n j
    using that Cons.prems(3) [of n] k by (auto split: if_splits)
  obtain deg' news where IH: "fold release_one ds (?deg, if k - 1 = 0 then queue @ [d] else queue)
        = (deg', (if k - 1 = 0 then queue @ [d] else queue) @ news)"
    "dict_ok deg'" "fst ` set deg' = fst ` set deg" "distinct news"
    "\<forall>n. map_of deg' n = map_option (\<lambda>k. k - int (count_list ds n)) (map_of ?deg n)"
    "set news = {n \<in> set ds. map_of ?deg n = Some (int (count_list ds n))}"
    using Cons.IH [OF dict_ok_update [OF Cons.prems(1)] sub le, of "if k - 1 = 0 then queue @ [d] else queue"]
    unfolding keys by blast
  have zero: "d \<notin> set ds" if "k - 1 = 0"
    using Cons.prems(3) [OF k] that count_list_0_iff [of ds d] by simp
  have "set ((if k - 1 = 0 then [d] else []) @ news) =
      {n \<in> set (d # ds). map_of deg n = Some (int (count_list (d # ds) n))}"
  proof (cases "k - 1 = 0")
    case True
    with zero IH(6) k show ?thesis by (auto simp: count_list_0_iff)
  next
    case False
    have d: "d \<in> set ds" if "k = 1 + int (count_list ds d)" using that False count_list_0_iff [of ds d] by auto
    show ?thesis
    proof (rule set_eqI)
      fix n
      show "n \<in> set ((if k - 1 = 0 then [d] else []) @ news) \<longleftrightarrow>
            n \<in> {n \<in> set (d # ds). map_of deg n = Some (int (count_list (d # ds) n))}"
      proof (cases "n = d")
        case True
        have "d \<in> set news \<longleftrightarrow> d \<in> set ds \<and> k - 1 = int (count_list ds d)" by (simp add: IH(6))
        also have "\<dots> \<longleftrightarrow> k = 1 + int (count_list ds d)" using d by linarith
        finally show ?thesis using False True k by (simp add: ac_simps)
      next
        case nd: False
        with False show ?thesis by (simp add: IH(6))
      qed
    qed
  qed
  moreover have "distinct ((if k - 1 = 0 then [d] else []) @ news)"
    using IH(4,6) zero by auto
  moreover have "map_of deg' n = map_option (\<lambda>j. j - int (count_list (d # ds) n)) (map_of deg n)" for n
    using IH(5) k by (cases "map_of deg n") auto
  moreover have "fold release_one (d # ds) (deg, queue) = (deg', queue @ ((if k - 1 = 0 then [d] else []) @ news))"
    using IH(1) k by (simp add: release_one_def)
  ultimately show ?case using IH(2,3) by blast
qed

text \<open>How many edges into a package come from packages that are not yet in the order.\<close>

definition incoming :: "(string, string list) dict \<Rightarrow> string list \<Rightarrow> string \<Rightarrow> nat" where
  "incoming g order n = sum_list (map (\<lambda>(m, ds). if m \<in> set order then 0 else count_list ds n) g)"

lemma incoming_zero:
  "incoming g order n = 0 \<longleftrightarrow> (\<forall>(m, ds) \<in> set g. n \<in> set ds \<longrightarrow> m \<in> set order)"
  unfolding incoming_def by (induction g) (auto simp: count_list_0_iff split: if_splits)

lemma incoming_step:
  assumes "dict_ok g" "map_of g c = Some ds" "c \<notin> set order"
  shows "incoming g order n = incoming g (order @ [c]) n + count_list ds n"
  using assms
proof (induction g)
  case (Cons q g)
  obtain m es where q: "q = (m, es)" by (cases q)
  show ?case
  proof (cases "m = c")
    case True
    have "map (\<lambda>(m, ds). if m \<in> set order then 0 else count_list ds n) g =
        map (\<lambda>(m, ds). if m \<in> set (order @ [c]) then 0 else count_list ds n) g"
      using Cons.prems(1) True by (intro map_cong) (auto simp: q image_iff)
    then have "incoming g order n = incoming g (order @ [c]) n" by (simp only: incoming_def)
    with True Cons.prems show ?thesis by (simp add: q incoming_def)
  next
    case False
    with Cons show ?thesis by (simp add: q incoming_def)
  qed
qed simp

definition topo :: "(string, string list) dict \<Rightarrow> string list \<Rightarrow> bool" where
  "topo g order \<longleftrightarrow>
     (\<forall>i < length order. \<forall>(m, ds) \<in> set g. order ! i \<in> set ds \<longrightarrow> m \<in> set (take i order))"

lemma topo_snoc:
  assumes "topo g order" "\<forall>(m, ds) \<in> set g. c \<in> set ds \<longrightarrow> m \<in> set order"
  shows "topo g (order @ [c])"
  using assms unfolding topo_def by (auto simp: nth_append less_Suc_eq)

definition kahn_inv ::
  "(string, string list) dict \<Rightarrow> (string, int) dict \<Rightarrow> string list \<Rightarrow> string list \<Rightarrow> bool" where
  "kahn_inv g deg queue order \<longleftrightarrow>
     dict_ok deg \<and> fst ` set deg = fst ` set g \<and> distinct (queue @ order) \<and>
     (\<forall>n \<in> fst ` set g. map_of deg n = Some (int (incoming g order n))) \<and>
     set queue \<union> set order = {n \<in> fst ` set g. incoming g order n = 0} \<and> topo g order"

lemma kahn_step:
  assumes g: "dict_ok g" "\<forall>(m, ds) \<in> set g. set ds \<subseteq> fst ` set g"
    and inv: "kahn_inv g deg (c # queue) order"
    and step: "fold release_one (graph_deps g c) (deg, queue) = (deg', queue')"
  shows "kahn_inv g deg' queue' (order @ [c])"
proof -
  have c: "c \<in> fst ` set g" "incoming g order c = 0" "c \<notin> set order" "c \<notin> set queue"
    using inv by (auto simp: kahn_inv_def)
  then obtain ds where ds: "map_of g c = Some ds" using map_of_None_keys [of g c] by auto
  have step_n: "incoming g order n = incoming g (order @ [c]) n + count_list ds n" for n
    by (rule incoming_step [OF g(1) ds c(3)])
  have dsN: "set ds \<subseteq> fst ` set g" using g(2) map_of_SomeD [OF ds] by auto
  have deg: "map_of deg n = (if n \<in> fst ` set g then Some (int (incoming g order n)) else None)" for n
    using inv map_of_None_keys [of deg n] by (auto simp: kahn_inv_def)
  have keys: "fst ` set deg = fst ` set g" and ok: "dict_ok deg" using inv by (auto simp: kahn_inv_def)
  have sub: "set ds \<subseteq> fst ` set deg" using dsN unfolding keys .
  have le: "int (count_list ds n) \<le> k" if "map_of deg n = Some k" for n k
    using that step_n [of n] by (simp add: deg split: if_splits)
  obtain news where news: "queue' = queue @ news" "dict_ok deg'" "fst ` set deg' = fst ` set deg" "distinct news"
    "\<forall>n. map_of deg' n = map_option (\<lambda>k. k - int (count_list ds n)) (map_of deg n)"
    "set news = {n \<in> set ds. map_of deg n = Some (int (count_list ds n))}"
    using release_all [OF ok sub le, of queue] step by (auto simp: graph_deps_def ds)
  have news': "set news = {n \<in> fst ` set g. incoming g order n \<noteq> 0 \<and> incoming g (order @ [c]) n = 0}"
  proof (rule set_eqI)
    fix n
    have "n \<in> set ds \<longleftrightarrow> count_list ds n \<noteq> 0" by (simp add: count_list_0_iff)
    with step_n [of n] dsN
    show "n \<in> set news \<longleftrightarrow> n \<in> {n \<in> fst ` set g. incoming g order n \<noteq> 0 \<and> incoming g (order @ [c]) n = 0}"
      unfolding news(6) mem_Collect_eq deg by (cases "n \<in> set ds"; cases "n \<in> fst ` set g") auto
  qed
  have old: "set queue \<union> set order \<union> {c} = {n \<in> fst ` set g. incoming g order n = 0}"
    using inv by (auto simp: kahn_inv_def)
  have "set queue' \<union> set (order @ [c]) = {n \<in> fst ` set g. incoming g (order @ [c]) n = 0}"
    using old news' step_n by (auto simp: news(1))
  moreover have "distinct (queue' @ (order @ [c]))"
  proof -
    have "set news \<inter> (set queue \<union> set order \<union> {c}) = {}" unfolding old news' by auto
    then show ?thesis using inv news(4) by (auto simp: news(1) kahn_inv_def)
  qed
  moreover have "map_of deg' n = Some (int (incoming g (order @ [c]) n))" if "n \<in> fst ` set g" for n
    using that step_n [of n] by (simp add: news(5) deg)
  moreover have "topo g (order @ [c])"
    using inv c(2) by (intro topo_snoc) (auto simp: kahn_inv_def incoming_zero)
  ultimately show ?thesis using news(2,3) keys by (simp add: kahn_inv_def)
qed

lemma kahn_result:
  "dict_ok g \<Longrightarrow> \<forall>(m, ds) \<in> set g. set ds \<subseteq> fst ` set g \<Longrightarrow> kahn_inv g deg queue order \<Longrightarrow>
   \<exists>deg'. kahn_inv g deg' [] (kahn g deg queue order)"
proof (induction g deg queue order rule: kahn.induct)
  case (2 g deg c queue order)
  obtain deg' queue' where step: "fold release_one (graph_deps g c) (deg, queue) = (deg', queue')" by fastforce
  from 2(1) [OF step [symmetric] 2(2,3) kahn_step [OF 2(2,3,4) step]] step show ?case by simp
qed auto

lemma add_degrees:
  "map_of (fold add_degree ds deg) n = map_option (\<lambda>k. k + int (count_list ds n)) (map_of deg n)"
proof (induction ds arbitrary: deg)
  case (Cons d ds)
  have "map_of (add_degree d deg) n = map_option (\<lambda>k. k + (if n = d then 1 else 0)) (map_of deg n)"
    by (auto simp: add_degree_def option.map_ident split: option.splits)
  with Cons.IH [of "add_degree d deg"] show ?case by (cases "map_of deg n") auto
qed (simp add: option.map_ident)

lemma add_degrees_keys:
  "fst ` set (fold add_degree ds deg) = fst ` set deg" "dict_ok deg \<Longrightarrow> dict_ok (fold add_degree ds deg)"
proof -
  have one: "fst ` set (add_degree d deg) = fst ` set deg" for d and deg :: "(string, int) dict"
  proof (cases "map_of deg d")
    case (Some k)
    have "insert d (fst ` set deg) = fst ` set deg" using map_of_Some_keys [OF Some] by (rule insert_absorb)
    with Some show ?thesis by (simp only: add_degree_def option.case set_keys_update)
  qed (simp add: add_degree_def)
  show "fst ` set (fold add_degree ds deg) = fst ` set deg"
    by (induction ds arbitrary: deg) (simp_all add: one)
  have "dict_ok deg \<Longrightarrow> dict_ok (add_degree d deg)" for d and deg :: "(string, int) dict"
    by (simp add: add_degree_def split: option.splits)
  then show "dict_ok deg \<Longrightarrow> dict_ok (fold add_degree ds deg)"
    by (induction ds arbitrary: deg) simp_all
qed

lemma incoming_start: "incoming g [] n = count_list (concat (map snd g)) n"
  by (induction g) (auto simp: incoming_def)

lemma in_degrees_start:
  assumes "dict_ok g"
  shows "kahn_inv g (in_degrees g) (map fst (filter (\<lambda>(n, k). k = 0) (in_degrees g))) []"
proof -
  let ?d = "map (\<lambda>(n, ds). (n, 0 :: int)) g"
  have d: "map fst ?d = map fst g" by (induction g) auto
  then have ok: "dict_ok ?d" and keys: "fst ` set ?d = fst ` set g" using assms by (metis list.set_map)+
  have deg: "dict_ok (in_degrees g)" "fst ` set (in_degrees g) = fst ` set g"
    unfolding in_degrees_def using add_degrees_keys(2) [OF ok] keys by (simp_all only: add_degrees_keys(1))
  have zero: "map_of ?d n = Some 0" if "n \<in> fst ` set g" for n
    using that by (induction g) auto
  have val: "map_of (in_degrees g) n = Some (int (incoming g [] n))" if "n \<in> fst ` set g" for n
    unfolding in_degrees_def add_degrees zero [OF that] incoming_start by simp
  have "n \<in> set (map fst (filter (\<lambda>(n, k). k = 0) (in_degrees g))) \<longleftrightarrow> map_of (in_degrees g) n = Some 0" for n
    using map_of_eq_Some_iff [OF deg(1), of n 0] by force
  then have "set (map fst (filter (\<lambda>(n, k). k = 0) (in_degrees g))) = {n \<in> fst ` set g. incoming g [] n = 0}"
  proof (intro set_eqI)
    fix n
    assume eq: "\<And>n. n \<in> set (map fst (filter (\<lambda>(n, k). k = 0) (in_degrees g))) \<longleftrightarrow> map_of (in_degrees g) n = Some 0"
    show "n \<in> set (map fst (filter (\<lambda>(n, k). k = 0) (in_degrees g))) \<longleftrightarrow>
          n \<in> {n \<in> fst ` set g. incoming g [] n = 0}"
    proof (cases "n \<in> fst ` set g")
      case True
      with val [OF True] show ?thesis unfolding eq by simp
    next
      case False
      then have "map_of (in_degrees g) n = None" unfolding map_of_None_keys deg(2) .
      with False show ?thesis unfolding eq by simp
    qed
  qed
  moreover have "distinct (map fst (filter (\<lambda>(n, k). k = 0) (in_degrees g)))"
    using deg(1) by (rule distinct_map_filter)
  ultimately show ?thesis using deg val by (simp add: kahn_inv_def topo_def del: set_map)
qed

definition requires :: "(string, package_spec) dict \<Rightarrow> string \<Rightarrow> string \<Rightarrow> bool" where
  "requires pkgs m n \<longleftrightarrow>
     n \<in> fst ` set pkgs \<and>
     (case map_of pkgs m of None \<Rightarrow> False | Some p \<Rightarrow> n \<in> normalize_name ` fst ` set (pk_deps p))"

lemma dependency_graph_edges:
  assumes "dict_ok pkgs"
  shows "dict_ok (dependency_graph pkgs)" "fst ` set (dependency_graph pkgs) = fst ` set pkgs"
    and "\<forall>(m, ds) \<in> set (dependency_graph pkgs). set ds \<subseteq> fst ` set (dependency_graph pkgs)"
    and "(\<forall>(m, ds) \<in> set (dependency_graph pkgs). n \<in> set ds \<longrightarrow> m \<in> A) \<longleftrightarrow> (\<forall>m. requires pkgs m n \<longrightarrow> m \<in> A)"
proof -
  have k: "map fst (dependency_graph pkgs) = map fst pkgs"
    by (simp add: dependency_graph_def case_prod_unfold comp_def)
  then show keys: "fst ` set (dependency_graph pkgs) = fst ` set pkgs" by (metis list.set_map)
  show "dict_ok (dependency_graph pkgs)" using assms k by metis
  show "\<forall>(m, ds) \<in> set (dependency_graph pkgs). set ds \<subseteq> fst ` set (dependency_graph pkgs)"
    unfolding keys by (auto simp: dependency_graph_def)
  have "requires pkgs m n \<longleftrightarrow> (\<exists>ds. (m, ds) \<in> set (dependency_graph pkgs) \<and> n \<in> set ds)" for m
    using map_of_eq_Some_iff [OF assms, of m]
    by (cases "map_of pkgs m") (force simp: requires_def dependency_graph_def)+
  then show "(\<forall>(m, ds) \<in> set (dependency_graph pkgs). n \<in> set ds \<longrightarrow> m \<in> A) \<longleftrightarrow> (\<forall>m. requires pkgs m n \<longrightarrow> m \<in> A)"
    by blast
qed

subsection \<open>Properties\<close>



text \<open>
  No resolution reports a circular dependency: the stack that the code searches for a cycle
  is empty whenever it is searched, since each round pops what it pushes. Packages that depend
  on each other resolve without a conflict.
\<close>

theorem cycles_are_not_reported:
  assumes "resolve_dependencies L R roots extras = Inr r"
  shows "\<forall>c \<in> set (conflicts r). dc_type c \<noteq> CIRCULAR_DEPENDENCY"
proof -
  let ?st = "\<lparr>to_resolve = map (\<lambda>(n, s). (n, s, None)) roots, resolution_stack = [], resolved = [], found_conflicts = []\<rparr>"
  obtain st where "resolve_loop L R (case extras of None \<Rightarrow> [] | Some e \<Rightarrow> e) ?st = Inr st" "conflicts r = found_conflicts st"
    using assms by (auto simp: resolve_dependencies_def split: sum.splits)
  with resolve_loop_no_cycle [of ?st] show ?thesis by simp
qed

theorem cycles_are_not_reported_witness:
  "let R = register_available_package (sample_package ''a'' ''1'' [(''b'', ''1'')])
             (register_available_package (sample_package ''b'' ''1'' [(''a'', ''1'')])
               (new_resolver ''3.11'' ''2025'' False True))
   in \<exists>r. resolve_dependencies sample_packaging R [(''a'', ''1'')] None = Inr r \<and>
          (\<forall>c \<in> set (conflicts r). dc_type c \<noteq> CIRCULAR_DEPENDENCY) \<and> installation_order r = []"
proof -
  let ?R = "register_available_package (sample_package ''a'' ''1'' [(''b'', ''1'')])
             (register_available_package (sample_package ''b'' ''1'' [(''a'', ''1'')])
               (new_resolver ''3.11'' ''2025'' False True))"
  have run: "resolve_dependencies sample_packaging ?R [(''a'', ''1'')] None =
     Inr \<lparr>resolved_packages = [(''a'', sample_package ''a'' ''1'' [(''b'', ''1'')]),
                              (''b'', sample_package ''b'' ''1'' [(''a'', ''1'')])],
          conflicts = [], installation_order = []\<rparr>"
    by code_simp
  with cycles_are_not_reported [OF run] show ?thesis by (simp add: Let_def)
qed

text \<open>
  C21: Lock files round trip: a successful resolution can be locked, under any resolver and at any
  time, and resolving from the lock file gives the same result, packages, their order and the
  installation order.
\<close>

theorem lock_file_roundtrip:
  assumes "registered R" and "resolve_dependencies L R roots extras = Inr r" and "is_successful r"
  shows "\<exists>d. create_lock_file R' now r = Inr d \<and> resolve_from_lock_file d = r"
proof -
  have "lock_package n \<lparr>le_version = pk_version p, le_python = pk_python p, le_revit = pk_revit p,
          le_deps = pk_deps p, le_extras = pk_extras p, le_prerelease = pk_prerelease p\<rparr> = p"
    if "(n, p) \<in> set (resolved_packages r)" for n p
  proof -
    have "pk_name p = n \<and> normalize_name n = n"
      using that resolution_inv [OF assms(1,2)] map_of_is_SomeI [of "resolved_packages r" n p]
      unfolding good_package_def by blast
    then show ?thesis by (simp add: lock_package_def make_package_spec_def)
  qed
  then have "map ((\<lambda>(n, e). (n, lock_package n e)) \<circ> (\<lambda>(n, p). (n, \<lparr>le_version = pk_version p,
      le_python = pk_python p, le_revit = pk_revit p, le_deps = pk_deps p, le_extras = pk_extras p,
      le_prerelease = pk_prerelease p\<rparr>))) (resolved_packages r) = resolved_packages r"
    by (intro map_idI) auto
  with assms(3) show ?thesis
    by (cases r) (simp add: create_lock_file_def resolve_from_lock_file_def Let_def is_successful_def)
qed

theorem lock_file_roundtrip_witness:
  "\<exists>r d. resolve_dependencies sample_packaging sample_resolver [(''wall.tools'', ''1'')] None = Inr r \<and>
         create_lock_file sample_resolver ''2025-01-01'' r = Inr d \<and> resolve_from_lock_file d = r"
  using lock_file_roundtrip [OF registered_sample sample_resolution, of sample_resolver "''2025-01-01''"]
  by (auto simp: sample_resolution is_successful_def)

text \<open>
  The installation order puts every package behind all packages that depend on it, so
  dependencies come last, and it silently leaves out the packages on or behind a dependency cycle:
  it lists some of the given packages, each once; a listed package has all the packages that
  require it in front of it; and a package is listed exactly when all those that require it are.
\<close>

theorem installation_order_dependents_first:
  assumes "dict_ok pkgs"
  shows "let order = calculate_installation_order pkgs in
         distinct order \<and> set order \<subseteq> fst ` set pkgs \<and>
         (\<forall>i < length order. \<forall>m. requires pkgs m (order ! i) \<longrightarrow> m \<in> set (take i order)) \<and>
         (\<forall>n \<in> fst ` set pkgs. n \<in> set order \<longleftrightarrow> (\<forall>m. requires pkgs m n \<longrightarrow> m \<in> set order))"
proof -
  let ?g = "dependency_graph pkgs"
  note g = dependency_graph_edges [OF assms]
  obtain deg where inv: "kahn_inv ?g deg [] (calculate_installation_order pkgs)"
    using kahn_result [OF g(1,3) in_degrees_start [OF g(1)]]
    by (auto simp: calculate_installation_order_def Let_def)
  let ?o = "calculate_installation_order pkgs"
  have parts: "distinct ([] @ ?o)" "set [] \<union> set ?o = {n \<in> fst ` set pkgs. incoming ?g ?o n = 0}" "topo ?g ?o"
    using inv unfolding kahn_inv_def g(2) by blast+
  then have set: "set ?o = {n \<in> fst ` set pkgs. incoming ?g ?o n = 0}" and "distinct ?o" and topo: "topo ?g ?o"
    by (simp_all only: append_Nil list.set Un_empty_left)
  have before: "\<forall>i < length ?o. \<forall>m. requires pkgs m (?o ! i) \<longrightarrow> m \<in> set (take i ?o)"
    using topo unfolding topo_def g(4) .
  have closed: "n \<in> set ?o \<longleftrightarrow> (\<forall>m. requires pkgs m n \<longrightarrow> m \<in> set ?o)" if "n \<in> fst ` set pkgs" for n
  proof -
    have "n \<in> set ?o \<longleftrightarrow> incoming ?g ?o n = 0" using that unfolding set by simp
    then show ?thesis unfolding incoming_zero g(4) .
  qed
  have "set ?o \<subseteq> fst ` set pkgs" unfolding set by simp
  with before closed \<open>distinct ?o\<close> show ?thesis unfolding Let_def by blast
qed

theorem installation_order_dependents_first_witness:
  "let pkgs = [(''core'', sample_package ''core'' ''111'' []),
               (''wall-tools'', sample_package ''Wall_Tools'' ''11'' [(''core'', ''22'')])]
   in requires pkgs ''wall-tools'' ''core'' \<and> calculate_installation_order pkgs = [''wall-tools'', ''core''] \<and>
      (\<forall>m. requires pkgs m ''core'' \<longrightarrow> m \<in> {''wall-tools''})"
proof -
  let ?pkgs = "[(''core'', sample_package ''core'' ''111'' []),
               (''wall-tools'', sample_package ''Wall_Tools'' ''11'' [(''core'', ''22'')])]"
  have o: "calculate_installation_order ?pkgs = [''wall-tools'', ''core'']" by code_simp
  have "requires ?pkgs ''wall-tools'' ''core''" by code_simp
  with o installation_order_dependents_first [of ?pkgs] show ?thesis
    by (simp add: Let_def less_Suc_eq)
qed

end
