(* ===== verification/Event_Filters.thy ===== *)
theory Event_Filters
  imports Prelude
begin

text \<open>
  Events and their filters: \<open>revitpy/events/types.py\<close> and \<open>revitpy/events/filters.py\<close>.

  The subclasses of \<open>EventData\<close> are the constructors of \<open>event_detail\<close>, which \<open>isinstance\<close>
  tests. A value that may be Python's \<open>None\<close> is an option. The keyword arguments of
  \<open>create_event_data\<close> are a record of options, \<^const>\<open>None\<close> when the argument is missing. Filters
  only read the event; a predicate may raise, and then so does \<open>matches\<close>. A compiled pattern is
  its \<open>search\<close> as a predicate on text.
\<close>

subsection \<open>Events\<close>

datatype event_type =
    DOCUMENT_OPENED | DOCUMENT_CLOSED | DOCUMENT_SAVED | DOCUMENT_SYNCHRONIZED
  | ELEMENT_CREATED | ELEMENT_MODIFIED | ELEMENT_DELETED | ELEMENT_TYPE_CHANGED
  | TRANSACTION_STARTED | TRANSACTION_COMMITTED | TRANSACTION_ROLLED_BACK
  | PARAMETER_CHANGED | PARAMETER_ADDED | PARAMETER_REMOVED
  | VIEW_ACTIVATED | VIEW_DEACTIVATED | VIEW_CREATED
  | SELECTION_CHANGED | APPLICATION_INITIALIZED | APPLICATION_CLOSING | CUSTOM

datatype event_priority = LOWEST | LOW | NORMAL | HIGH | HIGHEST

fun priority_value :: "event_priority \<Rightarrow> int" where
  "priority_value LOWEST = 0"
| "priority_value LOW = 25"
| "priority_value NORMAL = 50"
| "priority_value HIGH = 75"
| "priority_value HIGHEST = 100"

datatype event_result = CONTINUE | STOP | CANCEL

record document_detail =
  dd_path :: "string option"
  dd_title :: "string option"
  dd_is_family :: bool

record 'v element_detail =
  ed_id :: "'v option"
  ed_type :: "string option"
  ed_category :: "string option"
  ed_changed :: "string list"
  ed_old :: "(string, 'v option) dict"
  ed_new :: "(string, 'v option) dict"

record 'v transaction_detail =
  td_name :: "string option"
  td_id :: "string option"
  td_elements :: "'v option list"
  td_count :: int

record 'v parameter_detail =
  pd_element :: "'v option"
  pd_name :: string
  pd_old :: "'v option"
  pd_new :: "'v option"
  pd_type :: "string option"
  pd_storage :: "string option"

record 'v view_detail =
  vd_id :: "'v option"
  vd_name :: "string option"
  vd_type :: "string option"
  vd_is_3d :: bool
  vd_previous :: "'v option"

record 'v selection_detail =
  sd_selected :: "'v option list"
  sd_previous :: "'v option list"
  sd_added :: "'v option list"
  sd_removed :: "'v option list"

datatype 'v event_detail =
    PlainEvent
  | DocumentEvent document_detail
  | ElementEvent "'v element_detail"
  | TransactionEvent "'v transaction_detail"
  | ParameterEvent "'v parameter_detail"
  | ViewEvent "'v view_detail"
  | SelectionEvent "'v selection_detail"

record 'v event_data =
  ev_type :: event_type
  ev_id :: string
  ev_time :: int
  ev_source :: "'v option"
  ev_data :: "(string, 'v option) dict"
  ev_cancellable :: bool
  ev_cancelled :: bool
  ev_detail :: "'v event_detail"

definition cancel_event :: "'v event_data \<Rightarrow> 'v event_data" where
  "cancel_event ev = (if ev_cancellable ev then ev\<lparr>ev_cancelled := True\<rparr> else ev)"

definition get_data :: "string \<Rightarrow> 'v option \<Rightarrow> 'v event_data \<Rightarrow> 'v option" where
  "get_data k d ev = (case map_of (ev_data ev) k of None \<Rightarrow> d | Some v \<Rightarrow> v)"

definition set_data :: "string \<Rightarrow> 'v option \<Rightarrow> 'v event_data \<Rightarrow> 'v event_data" where
  "set_data k v ev = ev\<lparr>ev_data := AList.update k v (ev_data ev)\<rparr>"

record 'v event_kwargs =
  kw_timestamp :: "int option"
  kw_source :: "'v option"
  kw_data :: "(string, 'v option) dict option"
  kw_cancellable :: "bool option"
  kw_document_path :: "string option"
  kw_document_title :: "string option"
  kw_is_family_document :: "bool option"
  kw_element_id :: "'v option"
  kw_element_type :: "string option"
  kw_category :: "string option"
  kw_parameters_changed :: "string list option"
  kw_old_values :: "(string, 'v option) dict option"
  kw_new_values :: "(string, 'v option) dict option"
  kw_transaction_name :: "string option"
  kw_transaction_id :: "string option"
  kw_elements_affected :: "'v option list option"
  kw_operation_count :: "int option"
  kw_parameter_name :: "string option"
  kw_old_value :: "'v option"
  kw_new_value :: "'v option"
  kw_parameter_type :: "string option"
  kw_storage_type :: "string option"
  kw_view_id :: "'v option"
  kw_view_name :: "string option"
  kw_view_type :: "string option"
  kw_is_3d_view :: "bool option"
  kw_previous_view_id :: "'v option"
  kw_selected_elements :: "'v option list option"
  kw_previously_selected :: "'v option list option"
  kw_added_to_selection :: "'v option list option"
  kw_removed_from_selection :: "'v option list option"

definition no_arguments :: "'v event_kwargs" where
  "no_arguments =
     \<lparr>kw_timestamp = None, kw_source = None, kw_data = None, kw_cancellable = None,
      kw_document_path = None, kw_document_title = None, kw_is_family_document = None,
      kw_element_id = None, kw_element_type = None, kw_category = None,
      kw_parameters_changed = None, kw_old_values = None, kw_new_values = None,
      kw_transaction_name = None, kw_transaction_id = None, kw_elements_affected = None,
      kw_operation_count = None, kw_parameter_name = None, kw_old_value = None,
      kw_new_value = None, kw_parameter_type = None, kw_storage_type = None,
      kw_view_id = None, kw_view_name = None, kw_view_type = None, kw_is_3d_view = None,
      kw_previous_view_id = None, kw_selected_elements = None,
      kw_previously_selected = None, kw_added_to_selection = None,
      kw_removed_from_selection = None\<rparr>"

definition default :: "'a \<Rightarrow> 'a option \<Rightarrow> 'a" where
  "default d x = (case x of None \<Rightarrow> d | Some v \<Rightarrow> v)"

definition create_detail :: "event_type \<Rightarrow> 'v event_kwargs \<Rightarrow> 'v event_detail" where
  "create_detail ty kw =
     (if ty \<in> {DOCUMENT_OPENED, DOCUMENT_CLOSED, DOCUMENT_SAVED, DOCUMENT_SYNCHRONIZED} then
        DocumentEvent \<lparr>dd_path = kw_document_path kw, dd_title = kw_document_title kw,
                       dd_is_family = default False (kw_is_family_document kw)\<rparr>
      else if ty \<in> {ELEMENT_CREATED, ELEMENT_MODIFIED, ELEMENT_DELETED, ELEMENT_TYPE_CHANGED} then
        ElementEvent \<lparr>ed_id = kw_element_id kw, ed_type = kw_element_type kw, ed_category = kw_category kw,
                      ed_changed = default [] (kw_parameters_changed kw),
                      ed_old = default [] (kw_old_values kw), ed_new = default [] (kw_new_values kw)\<rparr>
      else if ty \<in> {TRANSACTION_STARTED, TRANSACTION_COMMITTED, TRANSACTION_ROLLED_BACK} then
        TransactionEvent \<lparr>td_name = kw_transaction_name kw, td_id = kw_transaction_id kw,
                          td_elements = default [] (kw_elements_affected kw),
                          td_count = default 0 (kw_operation_count kw)\<rparr>
      else if ty \<in> {PARAMETER_CHANGED, PARAMETER_ADDED, PARAMETER_REMOVED} then
        ParameterEvent \<lparr>pd_element = kw_element_id kw, pd_name = default [] (kw_parameter_name kw),
                        pd_old = kw_old_value kw, pd_new = kw_new_value kw,
                        pd_type = kw_parameter_type kw, pd_storage = kw_storage_type kw\<rparr>
      else if ty \<in> {VIEW_ACTIVATED, VIEW_DEACTIVATED, VIEW_CREATED} then
        ViewEvent \<lparr>vd_id = kw_view_id kw, vd_name = kw_view_name kw, vd_type = kw_view_type kw,
                   vd_is_3d = default False (kw_is_3d_view kw), vd_previous = kw_previous_view_id kw\<rparr>
      else if ty = SELECTION_CHANGED then
        SelectionEvent \<lparr>sd_selected = default [] (kw_selected_elements kw),
                        sd_previous = default [] (kw_previously_selected kw),
                        sd_added = default [] (kw_added_to_selection kw),
                        sd_removed = default [] (kw_removed_from_selection kw)\<rparr>
      else PlainEvent)"

text \<open>\<open>i\<close> is the fresh event id, \<open>now\<close> the clock.\<close>

definition create_event_data :: "string \<Rightarrow> int \<Rightarrow> event_type \<Rightarrow> 'v event_kwargs \<Rightarrow> 'v event_data" where
  "create_event_data i now ty kw =
     \<lparr>ev_type = ty, ev_id = i, ev_time = default now (kw_timestamp kw), ev_source = kw_source kw,
      ev_data = default [] (kw_data kw), ev_cancellable = default False (kw_cancellable kw),
      ev_cancelled = False, ev_detail = create_detail ty kw\<rparr>"

subsection \<open>Filters\<close>

datatype 'v event_filter =
    EventTypeFilter "event_type list"
  | ElementTypeFilter "string list"
  | CategoryFilter "string list"
  | ParameterChangeFilter "string list"
  | ParameterPatternFilter "(string \<Rightarrow> bool) list"
  | ElementIdFilter "'v option list"
  | SourceFilter "'v option"
  | DataFilter string "'v option" "('v option \<Rightarrow> string + bool) option"
  | TimeRangeFilter "int option" "int option"
  | CancellableFilter bool
  | CustomFilter "'v event_data \<Rightarrow> string + bool"
  | AndFilter "'v event_filter list"
  | OrFilter "'v event_filter list"
  | NotFilter "'v event_filter"

text \<open>Python's \<open>all\<close> and \<open>any\<close> over tests that may raise: they stop at the first answer.\<close>

fun all_of :: "(string + bool) list \<Rightarrow> string + bool" where
  "all_of [] = Inr True"
| "all_of (Inl e # rs) = Inl e"
| "all_of (Inr b # rs) = (if b then all_of rs else Inr False)"

fun any_of :: "(string + bool) list \<Rightarrow> string + bool" where
  "any_of [] = Inr False"
| "any_of (Inl e # rs) = Inl e"
| "any_of (Inr b # rs) = (if b then Inr True else any_of rs)"

definition in_option :: "'a option \<Rightarrow> 'a list \<Rightarrow> bool" where
  "in_option x xs = (case x of None \<Rightarrow> False | Some v \<Rightarrow> v \<in> set xs)"

fun matches :: "'v event_filter \<Rightarrow> 'v event_data \<Rightarrow> string + bool" where
  "matches (EventTypeFilter tys) ev = Inr (ev_type ev \<in> set tys)"
| "matches (ElementTypeFilter tys) ev =
     (case ev_detail ev of ElementEvent d \<Rightarrow> Inr (in_option (ed_type d) tys) | _ \<Rightarrow> Inr False)"
| "matches (CategoryFilter cs) ev =
     (case ev_detail ev of ElementEvent d \<Rightarrow> Inr (in_option (ed_category d) cs) | _ \<Rightarrow> Inr False)"
| "matches (ParameterChangeFilter ns) ev =
     (case ev_detail ev of
        ParameterEvent d \<Rightarrow> Inr (pd_name d \<in> set ns)
      | ElementEvent d \<Rightarrow> Inr (set (ed_changed d) \<inter> set ns \<noteq> {})
      | _ \<Rightarrow> Inr False)"
| "matches (ParameterPatternFilter ps) ev =
     (case ev_detail ev of
        ParameterEvent d \<Rightarrow> Inr (list_ex (\<lambda>p. p (pd_name d)) ps)
      | ElementEvent d \<Rightarrow> Inr (list_ex (\<lambda>n. list_ex (\<lambda>p. p n) ps) (ed_changed d))
      | _ \<Rightarrow> Inr False)"
| "matches (ElementIdFilter ids) ev =
     (case ev_detail ev of
        ElementEvent d \<Rightarrow> Inr (ed_id d \<in> set ids)
      | ParameterEvent d \<Rightarrow> Inr (pd_element d \<in> set ids)
      | _ \<Rightarrow> Inr False)"
| "matches (SourceFilter s) ev = Inr (ev_source ev = s)"
| "matches (DataFilter k v p) ev =
     (case map_of (ev_data ev) k of
        None \<Rightarrow> Inr False
      | Some x \<Rightarrow> (case p of None \<Rightarrow> Inr (x = v) | Some f \<Rightarrow> f x))"
| "matches (TimeRangeFilter s e) ev =
     Inr (\<not> (case s of None \<Rightarrow> False | Some t \<Rightarrow> ev_time ev < t) \<and>
          \<not> (case e of None \<Rightarrow> False | Some t \<Rightarrow> t < ev_time ev))"
| "matches (CancellableFilter b) ev = Inr (ev_cancellable ev = b)"
| "matches (CustomFilter p) ev = p ev"
| "matches (AndFilter fs) ev = all_of (map (\<lambda>f. matches f ev) fs)"
| "matches (OrFilter fs) ev = any_of (map (\<lambda>f. matches f ev) fs)"
| "matches (NotFilter f) ev = (case matches f ev of Inl e \<Rightarrow> Inl e | Inr b \<Rightarrow> Inr (\<not> b))"

definition filter_and :: "'v event_filter \<Rightarrow> 'v event_filter \<Rightarrow> 'v event_filter" where
  "filter_and f g = AndFilter [f, g]"

definition filter_or :: "'v event_filter \<Rightarrow> 'v event_filter \<Rightarrow> 'v event_filter" where
  "filter_or f g = OrFilter [f, g]"

definition filter_invert :: "'v event_filter \<Rightarrow> 'v event_filter" where
  "filter_invert f = NotFilter f"

definition data_equals :: "string \<Rightarrow> 'v option \<Rightarrow> 'v event_filter" where
  "data_equals k v = DataFilter k v None"

definition data_matches :: "string \<Rightarrow> ('v option \<Rightarrow> string + bool) \<Rightarrow> 'v event_filter" where
  "data_matches k p = DataFilter k None (Some p)"

definition walls_created :: "'v event_filter" where
  "walls_created = filter_and (EventTypeFilter [ELEMENT_CREATED]) (ElementTypeFilter [''Wall''])"

definition doors_and_windows :: "'v event_filter" where
  "doors_and_windows = CategoryFilter [''Doors'', ''Windows'']"

definition parameter_change_events :: "'v event_filter" where
  "parameter_change_events = EventTypeFilter [PARAMETER_CHANGED, PARAMETER_ADDED, PARAMETER_REMOVED]"

definition structural_elements :: "'v event_filter" where
  "structural_elements = CategoryFilter [''Structural Columns'', ''Structural Beams'', ''Structural Foundations'']"

definition document_events :: "'v event_filter" where
  "document_events = EventTypeFilter [DOCUMENT_OPENED, DOCUMENT_CLOSED, DOCUMENT_SAVED, DOCUMENT_SYNCHRONIZED]"

subsection \<open>Properties\<close>

lemma all_any_dual:
  "(case all_of rs of Inl e \<Rightarrow> Inl e | Inr b \<Rightarrow> Inr (\<not> b)) =
   any_of (map (\<lambda>r. case r of Inl e \<Rightarrow> Inl e | Inr b \<Rightarrow> Inr (\<not> b)) rs)"
  by (induction rs rule: all_of.induct) auto

text \<open>
  The filters form a Boolean algebra up to exceptions: a negated conjunction matches, fails to
  match or raises exactly as the disjunction of the negations does, a double negation is no
  change, and a conjunction that matches is one whose filters all match.
\<close>

theorem filter_de_morgan:
  "matches (filter_invert (AndFilter fs)) ev = matches (OrFilter (map filter_invert fs)) ev \<and>
   matches (filter_invert (filter_invert f)) ev = matches f ev \<and>
   (matches (AndFilter fs) ev = Inr True \<longleftrightarrow> (\<forall>g \<in> set fs. matches g ev = Inr True)) \<and>
   (matches (filter_and f g) ev = Inr True \<longleftrightarrow> matches f ev = Inr True \<and> matches g ev = Inr True)"
proof -
  have all: "all_of rs = Inr True \<longleftrightarrow> (\<forall>r \<in> set rs. r = Inr True)" for rs
    by (induction rs rule: all_of.induct) auto
  have "matches (AndFilter gs) ev = Inr True \<longleftrightarrow> (\<forall>g \<in> set gs. matches g ev = Inr True)" for gs
    by (simp add: all)
  moreover have "matches (filter_and f g) ev = Inr True \<longleftrightarrow> matches f ev = Inr True \<and> matches g ev = Inr True"
    using all [of "[matches f ev, matches g ev]"] by (simp add: filter_and_def del: all_of.simps)
  moreover have "matches (filter_invert (AndFilter fs)) ev = matches (OrFilter (map filter_invert fs)) ev"
    using all_any_dual [of "map (\<lambda>f. matches f ev) fs"] by (simp add: filter_invert_def comp_def)
  moreover have "matches (filter_invert (filter_invert f)) ev = matches f ev"
    by (simp add: filter_invert_def split: sum.splits)
  ultimately show ?thesis by blast
qed

theorem filter_de_morgan_witness:
  "let ev = create_event_data ''e1'' 7 ELEMENT_CREATED
              (no_arguments\<lparr>kw_element_type := Some ''Wall'', kw_element_id := Some (3::nat)\<rparr>)
   in matches (filter_and (EventTypeFilter [ELEMENT_CREATED]) (ElementTypeFilter [''Wall''])) ev = Inr True"
  unfolding Let_def
  by (subst filter_de_morgan [THEN conjunct2, THEN conjunct2, THEN conjunct2])
    (simp add: create_event_data_def create_detail_def in_option_def no_arguments_def)

text \<open>
  The ready-made filters select what their names say of the events that the factory makes,
  whatever the other arguments: \<open>walls_created\<close> matches the creation of a wall,
  \<open>doors_and_windows\<close> an element event of one of the two categories, \<open>structural_elements\<close> one of
  the three structural ones, and no filter on elements matches an event of another kind.
\<close>

theorem ready_made_filters:
  "matches walls_created (create_event_data i now ty kw) =
     Inr (ty = ELEMENT_CREATED \<and> kw_element_type kw = Some ''Wall'') \<and>
   matches doors_and_windows (create_event_data i now ty kw) =
     Inr (ty \<in> {ELEMENT_CREATED, ELEMENT_MODIFIED, ELEMENT_DELETED, ELEMENT_TYPE_CHANGED} \<and>
          kw_category kw \<in> {Some ''Doors'', Some ''Windows''}) \<and>
   matches structural_elements (create_event_data i now ty kw) =
     Inr (ty \<in> {ELEMENT_CREATED, ELEMENT_MODIFIED, ELEMENT_DELETED, ELEMENT_TYPE_CHANGED} \<and>
          kw_category kw \<in> {Some ''Structural Columns'', Some ''Structural Beams'', Some ''Structural Foundations''}) \<and>
   matches document_events (create_event_data i now ty kw) =
     Inr (\<exists>d. create_detail ty kw = DocumentEvent d)"
  by (cases ty; cases "kw_element_type kw"; cases "kw_category kw")
    (auto simp: walls_created_def filter_and_def doors_and_windows_def structural_elements_def document_events_def
       create_event_data_def create_detail_def in_option_def)

end
