(* ===== verification/Event_Dispatch.thy ===== *)
theory Event_Dispatch
  imports Event_Filters "HOL-Library.Sublist"
begin

text \<open>
  Handlers and the dispatcher: \<open>revitpy/events/handlers.py\<close> and the synchronous part of
  \<open>revitpy/events/dispatcher.py\<close>.

  Handlers are objects that the dispatcher's lists and other handlers share: they live in a
  store and are known by number. Callbacks act on the event and on a world of any type, and may
  raise; conditions and filters only read the event. \<open>clock\<close> reads \<open>perf_counter\<close>, in
  microseconds, off the world. Execution times are left out of the statistics. A handler may
  contain others; the functions take a depth, and are \<^const>\<open>None\<close> when handlers are nested
  deeper. An \<open>AsyncEventHandler\<close> is run where no event loop is running, to completion. The
  processing thread is its loop body \<open>process_batch\<close>; operations on the queue are atomic, as its
  lock makes them.
\<close>

subsection \<open>Handlers\<close>

datatype callback_result = Result event_result | ReturnsFalse | ReturnsOther

type_synonym ('v, 'w) callback = "'v event_data \<Rightarrow> 'w \<Rightarrow> (string + callback_result) \<times> 'v event_data \<times> 'w"

datatype ('v, 'w) handler_kind =
    CallableHandler "('v, 'w) callback"
  | AsyncCallableHandler "('v, 'w) callback"
  | CompositeHandler "nat list" bool
  | ConditionalHandler nat "'v event_data \<Rightarrow> string + bool"
  | ThrottledHandler nat int int

record ('v, 'w) handler =
  hm_name :: string
  hm_priority :: event_priority
  hm_enabled :: bool
  hm_error_count :: int
  hm_max_errors :: int
  hm_last_error :: "string option"
  hm_execution_count :: nat
  h_filter :: "'v event_filter option"
  h_kind :: "('v, 'w) handler_kind"

record ('v, 'w) event_world =
  handler_at :: "nat \<Rightarrow> ('v, 'w) handler"
  current_event :: "'v event_data"
  outside :: 'w

definition new_handler ::
  "string \<Rightarrow> event_priority \<Rightarrow> 'v event_filter option \<Rightarrow> int \<Rightarrow> ('v, 'w) handler_kind \<Rightarrow> ('v, 'w) handler" where
  "new_handler n pr f mx k =
     \<lparr>hm_name = n, hm_priority = pr, hm_enabled = True, hm_error_count = 0, hm_max_errors = mx,
      hm_last_error = None, hm_execution_count = 0, h_filter = f, h_kind = k\<rparr>"

definition is_disabled_due_to_errors :: "('v, 'w) handler \<Rightarrow> bool" where
  "is_disabled_due_to_errors h \<longleftrightarrow> hm_max_errors h \<le> hm_error_count h"

definition is_enabled :: "('v, 'w) handler \<Rightarrow> bool" where
  "is_enabled h \<longleftrightarrow> hm_enabled h \<and> \<not> is_disabled_due_to_errors h"

definition enable_handler :: "('v, 'w) handler \<Rightarrow> ('v, 'w) handler" where
  "enable_handler h = h\<lparr>hm_enabled := True\<rparr>"

definition disable_handler :: "('v, 'w) handler \<Rightarrow> ('v, 'w) handler" where
  "disable_handler h = h\<lparr>hm_enabled := False\<rparr>"

definition reset_error_count :: "('v, 'w) handler \<Rightarrow> ('v, 'w) handler" where
  "reset_error_count h = h\<lparr>hm_error_count := 0, hm_last_error := None\<rparr>"

definition base_should_handle :: "('v, 'w) handler \<Rightarrow> 'v event_data \<Rightarrow> string + bool" where
  "base_should_handle h ev =
     (if \<not> is_enabled h then Inr False
      else (case h_filter h of None \<Rightarrow> Inr True | Some f \<Rightarrow> matches f ev))"

definition and_then :: "string + bool \<Rightarrow> (string + bool) option \<Rightarrow> (string + bool) option" where
  "and_then a b = (case a of Inl e \<Rightarrow> Some (Inl e) | Inr x \<Rightarrow> if x then b else Some (Inr False))"

fun should_handle ::
  "('w \<Rightarrow> int) \<Rightarrow> nat \<Rightarrow> nat \<Rightarrow> ('v, 'w) event_world \<Rightarrow> (string + bool) option" where
  "should_handle clock 0 i s = None"
| "should_handle clock (Suc n) i s =
     (let h = handler_at s i; base = base_should_handle h (current_event s) in
      case h_kind h of
        ConditionalHandler j cond \<Rightarrow>
          (case and_then base (should_handle clock n j s) of
             None \<Rightarrow> None
           | Some r \<Rightarrow> and_then r (Some (cond (current_event s))))
      | ThrottledHandler j gap last_run \<Rightarrow>
          (if clock (outside s) - last_run < gap then Some (Inr False)
           else and_then base (should_handle clock n j s))
      | _ \<Rightarrow> Some base)"

definition update_handler ::
  "nat \<Rightarrow> (('v, 'w) handler \<Rightarrow> ('v, 'w) handler) \<Rightarrow> ('v, 'w) event_world \<Rightarrow> ('v, 'w) event_world" where
  "update_handler i f s = s\<lparr>handler_at := (handler_at s)(i := f (handler_at s i))\<rparr>"

definition count_execution :: "('v, 'w) handler \<Rightarrow> ('v, 'w) handler" where
  "count_execution h = h\<lparr>hm_execution_count := Suc (hm_execution_count h)\<rparr>"

definition count_error :: "string \<Rightarrow> ('v, 'w) handler \<Rightarrow> ('v, 'w) handler" where
  "count_error e h = h\<lparr>hm_error_count := hm_error_count h + 1, hm_last_error := Some e\<rparr>"

definition as_event_result :: "callback_result \<Rightarrow> event_result" where
  "as_event_result r = (case r of Result x \<Rightarrow> x | ReturnsFalse \<Rightarrow> STOP | ReturnsOther \<Rightarrow> CONTINUE)"

definition run_callback ::
  "('v, 'w) callback \<Rightarrow> ('v, 'w) event_world \<Rightarrow> (string + event_result) \<times> ('v, 'w) event_world" where
  "run_callback cb s =
     (case cb (current_event s) (outside s) of
        (r, ev, w) \<Rightarrow> (map_sum id as_event_result r, s\<lparr>current_event := ev, outside := w\<rparr>))"

type_synonym ('v, 'w) handled = "((string + event_result) \<times> ('v, 'w) event_world) option"

definition cancels :: "event_result \<Rightarrow> ('v, 'w) event_world \<Rightarrow> bool" where
  "cancels r s \<longleftrightarrow> r = CANCEL \<and> ev_cancellable (current_event s)"

definition cancel_current :: "('v, 'w) event_world \<Rightarrow> ('v, 'w) event_world" where
  "cancel_current s = s\<lparr>current_event := cancel_event (current_event s)\<rparr>"

definition set_last_run :: "int \<Rightarrow> ('v, 'w) handler \<Rightarrow> ('v, 'w) handler" where
  "set_last_run t h =
     (case h_kind h of ThrottledHandler j gap u \<Rightarrow> h\<lparr>h_kind := ThrottledHandler j gap t\<rparr> | _ \<Rightarrow> h)"

text \<open>
  \<open>handle_event_safely\<close> and \<open>handle_event\<close>, with the loop of a composite over its children.
  An exception that \<open>should_handle\<close> raises is not caught here.
\<close>

function handle_event_safely :: "('w \<Rightarrow> int) \<Rightarrow> nat \<Rightarrow> nat \<Rightarrow> ('v, 'w) event_world \<Rightarrow> ('v, 'w) handled"
  and handle_event :: "('w \<Rightarrow> int) \<Rightarrow> nat \<Rightarrow> nat \<Rightarrow> ('v, 'w) event_world \<Rightarrow> ('v, 'w) handled"
  and handle_children :: "('w \<Rightarrow> int) \<Rightarrow> nat \<Rightarrow> bool \<Rightarrow> nat list \<Rightarrow> ('v, 'w) event_world \<Rightarrow> ('v, 'w) handled" where
  "handle_event_safely clock n i s =
     (case should_handle clock n i s of
        None \<Rightarrow> None
      | Some (Inl e) \<Rightarrow> Some (Inl e, s)
      | Some (Inr b) \<Rightarrow>
          (if \<not> b then Some (Inr CONTINUE, s)
           else (case handle_event clock n i s of
                   None \<Rightarrow> None
                 | Some (Inl e, s') \<Rightarrow> Some (Inr CONTINUE, update_handler i (count_error e) s')
                 | Some (Inr r, s') \<Rightarrow> Some (Inr r, update_handler i count_execution s'))))"
| "handle_event clock 0 i s = None"
| "handle_event clock (Suc n) i s =
     (case h_kind (handler_at s i) of
        CallableHandler cb \<Rightarrow> Some (run_callback cb s)
      | AsyncCallableHandler cb \<Rightarrow> Some (run_callback cb s)
      | CompositeHandler is stop_first \<Rightarrow> handle_children clock n stop_first is s
      | ConditionalHandler j cond \<Rightarrow> handle_event_safely clock n j s
      | ThrottledHandler j gap last_run \<Rightarrow>
          handle_event_safely clock n j (update_handler i (set_last_run (clock (outside s))) s))"
| "handle_children clock n stop_first [] s = Some (Inr CONTINUE, s)"
| "handle_children clock n stop_first (i # is) s =
     (case should_handle clock n i s of
        None \<Rightarrow> None
      | Some (Inl e) \<Rightarrow> Some (Inl e, s)
      | Some (Inr b) \<Rightarrow>
          (if \<not> b then handle_children clock n stop_first is s
           else (case handle_event_safely clock n i s of
                   None \<Rightarrow> None
                 | Some (Inl e, s') \<Rightarrow> Some (Inl e, s')
                 | Some (Inr r, s') \<Rightarrow>
                     (if cancels r s' then Some (Inr CANCEL, cancel_current s')
                      else if r = STOP \<or> stop_first then Some (Inr r, s')
                      else handle_children clock n stop_first is s'))))"
  by pat_completeness auto
termination
  by (relation "measures
      [\<lambda>x. case x of Inl (clock, n, i, s) \<Rightarrow> n
            | Inr (Inl (clock, n, i, s)) \<Rightarrow> n | Inr (Inr (clock, n, sf, is, s)) \<Rightarrow> n,
       \<lambda>x. case x of Inl (clock, n, i, s) \<Rightarrow> 1
            | Inr (Inl (clock, n, i, s)) \<Rightarrow> 0 | Inr (Inr (clock, n, sf, is, s)) \<Rightarrow> 2 + length is]") auto

definition handler_priority :: "('v, 'w) event_world \<Rightarrow> nat \<Rightarrow> int" where
  "handler_priority s i = priority_value (hm_priority (handler_at s i))"

definition new_composite :: "('v, 'w) event_world \<Rightarrow> nat list \<Rightarrow> bool \<Rightarrow> ('v, 'w) handler_kind" where
  "new_composite s is stop_first = CompositeHandler (sort_desc (handler_priority s) is) stop_first"

definition composite_add :: "nat \<Rightarrow> nat \<Rightarrow> ('v, 'w) event_world \<Rightarrow> ('v, 'w) event_world" where
  "composite_add c i s =
     (case h_kind (handler_at s c) of
        CompositeHandler is sf \<Rightarrow>
          update_handler c (\<lambda>h. h\<lparr>h_kind := CompositeHandler (sort_desc (handler_priority s) (is @ [i])) sf\<rparr>) s
      | _ \<Rightarrow> s)"

definition composite_remove :: "nat \<Rightarrow> nat \<Rightarrow> ('v, 'w) event_world \<Rightarrow> ('v, 'w) event_world" where
  "composite_remove c i s =
     (case h_kind (handler_at s c) of
        CompositeHandler is sf \<Rightarrow> update_handler c (\<lambda>h. h\<lparr>h_kind := CompositeHandler (remove1 i is) sf\<rparr>) s
      | _ \<Rightarrow> s)"

subsection \<open>The dispatcher\<close>

record dispatch_result =
  dr_event :: string
  dr_executed :: nat
  dr_failed :: nat
  dr_cancelled :: bool
  dr_final :: event_result
  dr_errors :: "string list"

record event_stats =
  total_events :: nat
  events_by_type :: "(event_type, nat) dict"
  total_handlers_executed :: nat
  total_handlers_failed :: nat
  peak_queue_size :: nat

record 'v dispatcher =
  max_queue_size :: int
  batch_size :: int
  type_handlers :: "(event_type, nat list) dict"
  global_handlers :: "nat list"
  event_queue :: "'v event_data list"
  d_stats :: event_stats
  is_processing :: bool
  shutdown_event :: bool
  event_filters :: "('v event_data \<Rightarrow> string + bool) list"

definition fresh_event_stats :: event_stats where
  "fresh_event_stats = \<lparr>total_events = 0, events_by_type = [], total_handlers_executed = 0,
                        total_handlers_failed = 0, peak_queue_size = 0\<rparr>"

definition new_dispatcher :: "int \<Rightarrow> int \<Rightarrow> 'v dispatcher" where
  "new_dispatcher mx b =
     \<lparr>max_queue_size = mx, batch_size = b, type_handlers = [], global_handlers = [], event_queue = [],
      d_stats = fresh_event_stats, is_processing = False, shutdown_event = False, event_filters = []\<rparr>"

definition new_result :: "string \<Rightarrow> dispatch_result" where
  "new_result i = \<lparr>dr_event = i, dr_executed = 0, dr_failed = 0, dr_cancelled = False,
                   dr_final = CONTINUE, dr_errors = []\<rparr>"

definition update_from_result :: "dispatch_result \<Rightarrow> event_stats \<Rightarrow> event_stats" where
  "update_from_result r st =
     st\<lparr>total_events := Suc (total_events st),
        total_handlers_executed := total_handlers_executed st + dr_executed r,
        total_handlers_failed := total_handlers_failed st + dr_failed r\<rparr>"

definition count_event_type :: "event_type \<Rightarrow> event_stats \<Rightarrow> event_stats" where
  "count_event_type ty st =
     st\<lparr>events_by_type := AList.update ty
          (Suc (case map_of (events_by_type st) ty of None \<Rightarrow> 0 | Some k \<Rightarrow> k)) (events_by_type st)\<rparr>"

definition add_global_filter :: "('v event_data \<Rightarrow> string + bool) \<Rightarrow> 'v dispatcher \<Rightarrow> 'v dispatcher" where
  "add_global_filter f d = d\<lparr>event_filters := event_filters d @ [f]\<rparr>"

definition handlers_of :: "event_type \<Rightarrow> 'v dispatcher \<Rightarrow> nat list" where
  "handlers_of ty d = (case map_of (type_handlers d) ty of None \<Rightarrow> [] | Some is \<Rightarrow> is)"

definition register_for ::
  "('v, 'w) event_world \<Rightarrow> nat \<Rightarrow> event_type \<Rightarrow> 'v dispatcher \<Rightarrow> 'v dispatcher" where
  "register_for s i ty d =
     d\<lparr>type_handlers := AList.update ty (sort_desc (handler_priority s) (handlers_of ty d @ [i])) (type_handlers d)\<rparr>"

definition register_handler ::
  "('v, 'w) event_world \<Rightarrow> nat \<Rightarrow> event_type list option \<Rightarrow> 'v dispatcher \<Rightarrow> 'v dispatcher" where
  "register_handler s i tys d =
     (case tys of
        None \<Rightarrow> d\<lparr>global_handlers := sort_desc (handler_priority s) (global_handlers d @ [i])\<rparr>
      | Some ts \<Rightarrow> fold (register_for s i) ts d)"

definition unregister_from :: "nat \<Rightarrow> event_type \<Rightarrow> 'v dispatcher \<Rightarrow> 'v dispatcher" where
  "unregister_from i ty d =
     d\<lparr>type_handlers := AList.update ty (remove1 i (handlers_of ty d)) (type_handlers d)\<rparr>"

definition unregister_handler :: "nat \<Rightarrow> event_type list option \<Rightarrow> 'v dispatcher \<Rightarrow> 'v dispatcher" where
  "unregister_handler i tys d =
     (case tys of
        None \<Rightarrow> d\<lparr>global_handlers := remove1 i (global_handlers d),
                 type_handlers := map (\<lambda>(ty, is). (ty, remove1 i is)) (type_handlers d)\<rparr>
      | Some ts \<Rightarrow> fold (unregister_from i) ts d)"

definition get_handlers_for_event ::
  "('v, 'w) event_world \<Rightarrow> event_type \<Rightarrow> 'v dispatcher \<Rightarrow> nat list" where
  "get_handlers_for_event s ty d = sort_desc (handler_priority s) (handlers_of ty d @ global_handlers d)"

text \<open>
  The loop of \<open>_process_event_immediate\<close> over the handlers: the exception that leaves it, if
  any, the result so far, and the state.
\<close>

fun run_handlers ::
  "('w \<Rightarrow> int) \<Rightarrow> nat \<Rightarrow> nat list \<Rightarrow> dispatch_result \<Rightarrow> ('v, 'w) event_world \<Rightarrow>
   (string option \<times> dispatch_result \<times> ('v, 'w) event_world) option" where
  "run_handlers clock n [] r s = Some (None, r, s)"
| "run_handlers clock n (i # is) r s =
     (case should_handle clock n i s of
        None \<Rightarrow> None
      | Some (Inl e) \<Rightarrow> Some (Some e, r, s)
      | Some (Inr b) \<Rightarrow>
          (if \<not> b then run_handlers clock n is r s
           else (case handle_event_safely clock n i s of
                   None \<Rightarrow> None
                 | Some (Inl e, s') \<Rightarrow>
                     run_handlers clock n is
                       (r\<lparr>dr_failed := Suc (dr_failed r), dr_errors := dr_errors r @ [e]\<rparr>) s'
                 | Some (Inr x, s') \<Rightarrow>
                     (let r1 = r\<lparr>dr_executed := Suc (dr_executed r)\<rparr> in
                      if cancels x s' then
                        Some (None, r1\<lparr>dr_cancelled := True, dr_final := CANCEL\<rparr>, cancel_current s')
                      else if x = STOP then Some (None, r1\<lparr>dr_final := STOP\<rparr>, s')
                      else run_handlers clock n is r1 s'))))"

definition process_event_immediate ::
  "('w \<Rightarrow> int) \<Rightarrow> nat \<Rightarrow> 'v event_data \<Rightarrow> 'v dispatcher \<times> ('v, 'w) event_world \<Rightarrow>
   ((string + dispatch_result) \<times> 'v dispatcher \<times> ('v, 'w) event_world) option" where
  "process_event_immediate clock n ev = (\<lambda>(d, s).
     (case run_handlers clock n (get_handlers_for_event s (ev_type ev) d) (new_result (ev_id ev))
             (s\<lparr>current_event := ev\<rparr>) of
        None \<Rightarrow> None
      | Some (x, r, s') \<Rightarrow>
          Some ((case x of Some e \<Rightarrow> Inl e | None \<Rightarrow> Inr r),
                d\<lparr>d_stats := count_event_type (ev_type (current_event s')) (update_from_result r (d_stats d))\<rparr>, s')))"

definition start_processing :: "'v dispatcher \<Rightarrow> 'v dispatcher" where
  "start_processing d = (if is_processing d then d else d\<lparr>is_processing := True, shutdown_event := False\<rparr>)"

text \<open>\<open>_queue_event\<close>; \<open>popleft\<close> raises on an empty queue, with a maximal size of 0 or less.\<close>

definition queue_event :: "'v event_data \<Rightarrow> 'v dispatcher \<Rightarrow> (string + dispatch_result) \<times> 'v dispatcher" where
  "queue_event ev d =
     (if max_queue_size d \<le> int (length (event_queue d)) \<and> event_queue d = []
      then (Inl ''IndexError: pop from an empty deque'', d)
      else
        (let q = (if max_queue_size d \<le> int (length (event_queue d)) then tl (event_queue d)
                  else event_queue d) @ [ev];
             d1 = d\<lparr>event_queue := q,
                    d_stats := (d_stats d)\<lparr>peak_queue_size := max (peak_queue_size (d_stats d)) (length q)\<rparr>\<rparr>
         in (Inr (new_result (ev_id ev)), start_processing d1)))"

fun passes_filters :: "('v event_data \<Rightarrow> string + bool) list \<Rightarrow> 'v event_data \<Rightarrow> string + bool" where
  "passes_filters [] ev = Inr True"
| "passes_filters (f # fs) ev =
     (case f ev of Inl e \<Rightarrow> Inl e | Inr b \<Rightarrow> if b then passes_filters fs ev else Inr False)"

definition dispatch_event ::
  "('w \<Rightarrow> int) \<Rightarrow> nat \<Rightarrow> bool \<Rightarrow> 'v event_data \<Rightarrow> 'v dispatcher \<times> ('v, 'w) event_world \<Rightarrow>
   ((string + dispatch_result) \<times> 'v dispatcher \<times> ('v, 'w) event_world) option" where
  "dispatch_event clock n immediate ev = (\<lambda>(d, s).
     (case passes_filters (event_filters d) ev of
        Inl e \<Rightarrow> Some (Inl e, d, s)
      | Inr b \<Rightarrow>
          (if \<not> b then Some (Inr (new_result (ev_id ev)), d, s)
           else if immediate then process_event_immediate clock n ev (d, s)
           else (case queue_event ev d of (r, d') \<Rightarrow> Some (r, d', s)))))"

fun process_all ::
  "('w \<Rightarrow> int) \<Rightarrow> nat \<Rightarrow> 'v event_data list \<Rightarrow> 'v dispatcher \<times> ('v, 'w) event_world \<Rightarrow>
   ('v dispatcher \<times> ('v, 'w) event_world) option" where
  "process_all clock n [] ds = Some ds"
| "process_all clock n (ev # evs) ds =
     (case process_event_immediate clock n ev ds of
        None \<Rightarrow> None | Some (x, ds') \<Rightarrow> process_all clock n evs ds')"

text \<open>
  One round of \<open>_process_events_loop\<close>. The events of the batch leave the queue at once; \<open>served\<close>
  is how many of them are processed before the shutdown is seen, \<^const>\<open>None\<close> for all.
\<close>

definition process_batch ::
  "('w \<Rightarrow> int) \<Rightarrow> nat \<Rightarrow> nat option \<Rightarrow> 'v dispatcher \<times> ('v, 'w) event_world \<Rightarrow>
   ('v event_data list \<times> 'v dispatcher \<times> ('v, 'w) event_world) option" where
  "process_batch clock n served = (\<lambda>(d, s).
     (let k = min (nat (batch_size d)) (length (event_queue d));
          batch = take k (event_queue d);
          todo = (case served of None \<Rightarrow> batch | Some m \<Rightarrow> take m batch)
      in map_option (Pair todo) (process_all clock n todo (d\<lparr>event_queue := drop k (event_queue d)\<rparr>, s))))"

definition stop_processing :: "'v dispatcher \<Rightarrow> 'v dispatcher" where
  "stop_processing d = (if \<not> is_processing d then d else d\<lparr>shutdown_event := True, is_processing := False\<rparr>)"

definition clear_queue :: "'v dispatcher \<Rightarrow> nat \<times> 'v dispatcher" where
  "clear_queue d = (length (event_queue d), d\<lparr>event_queue := []\<rparr>)"

definition all_handlers :: "'v dispatcher \<Rightarrow> nat list" where
  "all_handlers d = global_handlers d @ concat (map snd (type_handlers d))"

definition reset_handler :: "('v, 'w) handler \<Rightarrow> ('v, 'w) handler" where
  "reset_handler h = h\<lparr>hm_execution_count := 0, hm_error_count := 0, hm_last_error := None\<rparr>"

definition reset_stats ::
  "'v dispatcher \<times> ('v, 'w) event_world \<Rightarrow> 'v dispatcher \<times> ('v, 'w) event_world" where
  "reset_stats = (\<lambda>(d, s).
     (d\<lparr>d_stats := fresh_event_stats\<rparr>, fold (\<lambda>i. update_handler i reset_handler) (all_handlers d) s))"

subsection \<open>The order in which handlers run\<close>

datatype registration = Register nat "event_type list option" | Unregister nat "event_type list option"

definition apply_registration ::
  "('v, 'w) event_world \<Rightarrow> registration \<Rightarrow> 'v dispatcher \<Rightarrow> 'v dispatcher" where
  "apply_registration s p d =
     (case p of Register i tys \<Rightarrow> register_handler s i tys d | Unregister i tys \<Rightarrow> unregister_handler i tys d)"

text \<open>
  The abstract registry: for each event type, and for all of them, the handlers in the order of
  their registration.
\<close>

definition registry_step ::
  "registration \<Rightarrow> (event_type \<Rightarrow> nat list) \<times> nat list \<Rightarrow> (event_type \<Rightarrow> nat list) \<times> nat list" where
  "registry_step p = (\<lambda>(T, G).
     (case p of
        Register i None \<Rightarrow> (T, G @ [i])
      | Register i (Some ts) \<Rightarrow> (fold (\<lambda>t T. T(t := T t @ [i])) ts T, G)
      | Unregister i None \<Rightarrow> (\<lambda>t. remove1 i (T t), remove1 i G)
      | Unregister i (Some ts) \<Rightarrow> (fold (\<lambda>t T. T(t := remove1 i (T t))) ts T, G)))"

definition registry :: "registration list \<Rightarrow> (event_type \<Rightarrow> nat list) \<times> nat list" where
  "registry ps = fold registry_step ps (\<lambda>_. [], [])"

definition registers ::
  "('v, 'w) event_world \<Rightarrow> 'v dispatcher \<Rightarrow> (event_type \<Rightarrow> nat list) \<Rightarrow> bool" where
  "registers s d T \<longleftrightarrow> (\<forall>ty. handlers_of ty d = sort_desc (handler_priority s) (T ty))"

lemma handlers_of_update [simp]:
  "handlers_of ty (d\<lparr>type_handlers := AList.update ty' is (type_handlers d)\<rparr>) =
   (if ty = ty' then is else handlers_of ty d)"
  by (simp add: handlers_of_def)

lemma registers_for: "registers s d T \<Longrightarrow> registers s (register_for s i ty d) (T(ty := T ty @ [i]))"
  by (simp add: registers_def register_for_def sort_desc_append_left)

lemma registers_fold: "registers s d T \<Longrightarrow> registers s (fold (register_for s i) ts d) (fold (\<lambda>t T. T(t := T t @ [i])) ts T)"
  by (induction ts arbitrary: d T) (simp_all add: registers_for)

lemma unregisters_from: "registers s d T \<Longrightarrow> registers s (unregister_from i ty d) (T(ty := remove1 i (T ty)))"
  by (simp add: registers_def unregister_from_def remove1_sort_desc)

lemma unregisters_fold: "registers s d T \<Longrightarrow> registers s (fold (unregister_from i) ts d) (fold (\<lambda>t T. T(t := remove1 i (T t))) ts T)"
  by (induction ts arbitrary: d T) (simp_all add: unregisters_from)

lemma globals_fold [simp]:
  "global_handlers (fold (register_for s i) ts d) = global_handlers d"
  "global_handlers (fold (unregister_from i) ts d) = global_handlers d"
  by (induction ts arbitrary: d) (simp_all add: register_for_def unregister_from_def)

lemma registers_globals [simp]: "registers s (d\<lparr>global_handlers := G\<rparr>) T = registers s d T"
  by (simp add: registers_def handlers_of_def)

lemma handlers_of_map:
  "handlers_of ty (d\<lparr>global_handlers := G, type_handlers := map (\<lambda>(ty, is). (ty, remove1 i is)) (type_handlers d)\<rparr>) =
   remove1 i (handlers_of ty d)"
  by (cases "map_of (type_handlers d) ty") (simp_all add: handlers_of_def map_of_map)

lemma unregisters_all:
  "registers s d T \<Longrightarrow>
   registers s (d\<lparr>global_handlers := G, type_handlers := map (\<lambda>(ty, is). (ty, remove1 i is)) (type_handlers d)\<rparr>)
     (\<lambda>t. remove1 i (T t))"
  unfolding registers_def by (simp add: handlers_of_map remove1_sort_desc)

lemma apply_registration_registry:
  assumes "registers s d T" and "global_handlers d = sort_desc (handler_priority s) G"
    and "registry_step p (T, G) = (T', G')"
  shows "registers s (apply_registration s p d) T' \<and>
         global_handlers (apply_registration s p d) = sort_desc (handler_priority s) G'"
proof (cases p)
  case (Register i tys)
  then show ?thesis
    using assms by (cases tys)
      (auto simp: apply_registration_def register_handler_def registry_step_def registers_fold
        sort_desc_append_left)
next
  case (Unregister i tys)
  then show ?thesis
    using assms by (cases tys)
      (auto simp: apply_registration_def unregister_handler_def registry_step_def unregisters_fold
        remove1_sort_desc unregisters_all)
qed

lemma run_registrations:
  assumes "registers s d T" and "global_handlers d = sort_desc (handler_priority s) G"
  shows "registers s (fold (apply_registration s) ps d) (fst (fold registry_step ps (T, G))) \<and>
         global_handlers (fold (apply_registration s) ps d) =
           sort_desc (handler_priority s) (snd (fold registry_step ps (T, G)))"
  using assms
proof (induction ps arbitrary: d T G)
  case (Cons p ps)
  obtain T' G' where p: "registry_step p (T, G) = (T', G')" by fastforce
  with Cons.IH apply_registration_registry [OF Cons.prems p] show ?case by simp
qed simp

lemma registry_handlers:
  "get_handlers_for_event s ty (fold (apply_registration s) ps (new_dispatcher mx b)) =
   sort_desc (handler_priority s) (fst (registry ps) ty @ snd (registry ps))"
proof -
  let ?d = "new_dispatcher mx b :: 'a dispatcher"
  have "registers s ?d (\<lambda>_. [])" and "global_handlers ?d = sort_desc (handler_priority s) []"
    by (simp_all add: registers_def new_dispatcher_def handlers_of_def)
  from run_registrations [OF this] show ?thesis
    by (simp add: registers_def registry_def get_handlers_for_event_def sort_desc_append_left
      sort_desc_append_right)
qed

text \<open>
  After any registrations and removals on a new dispatcher, the handlers that an event runs
  are those registered for its type and those for every type, by decreasing priority; equal
  priorities run in the order of registration, type-specific handlers first. The sorting at each
  registration amounts to one stable sort of the registry.
\<close>

theorem handlers_run_by_priority:
  "get_handlers_for_event s ty (fold (apply_registration s) ps (new_dispatcher mx b)) =
   sort_desc (handler_priority s) (fst (registry ps) ty @ snd (registry ps))"
  by (rule registry_handlers)

subsection \<open>The event queue\<close>

text \<open>
  The calls that reach the queue, in any order. A state has, with the dispatcher and the world,
  the events that were queued and those that were processed from the queue, both in order; \<open>keep\<close>
  excludes the calls that lose events: queueing into a full queue, a shutdown within a batch, and
  \<open>clear_queue\<close>.
\<close>

inductive queue_step ::
  "('w \<Rightarrow> int) \<Rightarrow> nat \<Rightarrow> bool \<Rightarrow>
   'v event_data list \<times> 'v event_data list \<times> 'v dispatcher \<times> ('v, 'w) event_world \<Rightarrow>
   'v event_data list \<times> 'v event_data list \<times> 'v dispatcher \<times> ('v, 'w) event_world \<Rightarrow> bool"
  for clock n keep where
  enqueue: "queue_event ev d = (Inr r, d') \<Longrightarrow> (keep \<Longrightarrow> int (length (event_queue d)) < max_queue_size d) \<Longrightarrow>
     queue_step clock n keep (acc, log, d, s) (acc @ [ev], log, d', s)"
| serve: "process_batch clock n served (d, s) = Some (evs, d', s') \<Longrightarrow> (keep \<Longrightarrow> served = None) \<Longrightarrow>
     queue_step clock n keep (acc, log, d, s) (acc, log @ evs, d', s')"
| immediate: "dispatch_event clock n True ev (d, s) = Some (x, d', s') \<Longrightarrow>
     queue_step clock n keep (acc, log, d, s) (acc, log, d', s')"
| registering: "queue_step clock n keep (acc, log, d, s) (acc, log, apply_registration s p d, s)"
| filtering: "queue_step clock n keep (acc, log, d, s) (acc, log, add_global_filter f d, s)"
| clearing: "\<not> keep \<Longrightarrow> queue_step clock n keep (acc, log, d, s) (acc, log, snd (clear_queue d), s)"
| stopping: "queue_step clock n keep (acc, log, d, s) (acc, log, stop_processing d, s)"

text \<open>What only the queue operations change.\<close>

abbreviation queue_of :: "'v dispatcher \<Rightarrow> 'v event_data list \<times> int" where
  "queue_of d \<equiv> (event_queue d, max_queue_size d)"

lemma queue_of_registration [simp]: "queue_of (apply_registration s p d) = queue_of d"
proof -
  have "queue_of (fold (register_for s i) ts d) = queue_of d"
    and "queue_of (fold (unregister_from i) ts d) = queue_of d" for i ts
    by (induction ts arbitrary: d) (simp_all add: register_for_def unregister_from_def)
  then show ?thesis
    by (cases p)
      (auto simp: apply_registration_def register_handler_def unregister_handler_def split: option.splits)
qed

lemma queue_of_immediate:
  "process_event_immediate clock n ev (d, s) = Some (x, d', s') \<Longrightarrow> queue_of d' = queue_of d"
  by (auto simp: process_event_immediate_def split: option.splits prod.splits)

lemma queue_of_process_all:
  "process_all clock n evs ds = Some (d', s') \<Longrightarrow> queue_of d' = queue_of (fst ds)"
proof (induction evs arbitrary: ds)
  case (Cons ev evs)
  then obtain x d1 s1 where 1: "process_event_immediate clock n ev ds = Some (x, d1, s1)"
      and "process_all clock n evs (d1, s1) = Some (d', s')"
    by (auto split: option.splits)
  with Cons.IH have "queue_of d' = queue_of d1" by fastforce
  with queue_of_immediate [of clock n ev "fst ds" "snd ds"] 1 show ?case by simp
qed auto

lemma queue_of_dispatch:
  "dispatch_event clock n True ev (d, s) = Some (x, d', s') \<Longrightarrow> queue_of d' = queue_of d"
  by (auto simp: dispatch_event_def split: sum.splits if_splits dest!: queue_of_immediate)

definition queue_ok :: "bool \<Rightarrow> int \<Rightarrow> 'v event_data list \<Rightarrow> 'v event_data list \<Rightarrow> 'v event_data list \<times> int \<Rightarrow> bool" where
  "queue_ok keep mx acc log = (\<lambda>(q, m).
     m = mx \<and> subseq (log @ q) acc \<and> int (length q) \<le> max mx 0 \<and> (keep \<longrightarrow> log @ q = acc))"

lemma subseq_tl: "subseq (tl q) q"
  by (cases q) auto

lemma subseq_front_tl: "subseq (xs @ q) ys \<Longrightarrow> subseq (xs @ tl q) ys"
  by (rule subseq_order.order_trans [of _ "xs @ q"]) (simp_all add: subseq_append' subseq_tl)

lemma queue_ok_enqueue:
  assumes "queue_event ev d = (Inr r, d')" and "keep \<Longrightarrow> int (length (event_queue d)) < max_queue_size d"
    and "queue_ok keep mx acc log (queue_of d)"
  shows "queue_ok keep mx (acc @ [ev]) log (queue_of d')"
proof -
  define q where "q = (if max_queue_size d \<le> int (length (event_queue d)) then tl (event_queue d) else event_queue d)"
  have d': "queue_of d' = (q @ [ev], max_queue_size d)"
    and ne: "event_queue d \<noteq> [] \<or> int (length (event_queue d)) < max_queue_size d"
    using assms(1) by (auto simp: queue_event_def q_def Let_def start_processing_def split: if_splits)
  have "subseq (log @ q) acc"
    using assms(3) subseq_front_tl [of log "event_queue d" acc] by (simp add: queue_ok_def q_def)
  then have "subseq (log @ q @ [ev]) (acc @ [ev])"
    using list_emb_append_mono [of "(=)" "log @ q" acc "[ev]" "[ev]"] by simp
  moreover have "int (length (q @ [ev])) \<le> max mx 0"
    using ne assms(3) by (cases "event_queue d") (auto simp: queue_ok_def q_def)
  moreover have "log @ q @ [ev] = acc @ [ev]" if keep
    using assms(2,3) that by (simp add: queue_ok_def q_def)
  ultimately show ?thesis using assms(3) by (simp add: d' queue_ok_def)
qed

lemma queue_ok_serve:
  assumes "process_batch clock n served (d, s) = Some (evs, d', s')" and "keep \<Longrightarrow> served = None"
    and "queue_ok keep mx acc log (queue_of d)"
  shows "queue_ok keep mx acc (log @ evs) (queue_of d')"
proof -
  define k where "k = min (nat (batch_size d)) (length (event_queue d))"
  define b where "b = take k (event_queue d)"
  have evs: "evs = (case served of None \<Rightarrow> b | Some m \<Rightarrow> take m b)"
    and d': "queue_of d' = (drop k (event_queue d), max_queue_size d)"
    using assms(1) by (auto simp: process_batch_def Let_def b_def k_def dest!: queue_of_process_all split: option.splits)
  have q: "event_queue d = b @ drop k (event_queue d)" by (simp add: b_def)
  have "subseq evs b" by (auto simp: evs split: option.splits)
  then have "subseq (log @ evs @ drop k (event_queue d)) (log @ b @ drop k (event_queue d))"
    by (intro list_emb_append_mono subseq_order.order_refl)
  then have "subseq (log @ evs @ drop k (event_queue d)) acc"
    using assms(3) q by (auto simp: queue_ok_def intro: subseq_order.order_trans)
  moreover have "log @ evs @ drop k (event_queue d) = acc" if keep
    using assms(2,3) that q by (simp add: queue_ok_def evs)
  ultimately show ?thesis using assms(3) by (auto simp: d' queue_ok_def)
qed

lemma queue_ok_step:
  assumes "queue_step clock n keep (acc, log, d, s) (acc', log', d', s')" and "queue_ok keep mx acc log (queue_of d)"
  shows "queue_ok keep mx acc' log' (queue_of d')"
  using assms
proof (cases rule: queue_step.cases)
  case clearing
  then show ?thesis
    using assms(2) subseq_order.order_trans [of log "log @ event_queue d" acc]
    by (auto simp: clear_queue_def queue_ok_def)
next
  case stopping
  then show ?thesis using assms(2) by (simp add: stop_processing_def)
qed (use assms(2) in \<open>auto simp: add_global_filter_def queue_of_registration [simplified]
  dest!: queue_of_dispatch intro: queue_ok_enqueue queue_ok_serve\<close>)

definition queue_inv ::
  "bool \<Rightarrow> int \<Rightarrow> 'v event_data list \<times> 'v event_data list \<times> 'v dispatcher \<times> ('v, 'w) event_world \<Rightarrow> bool" where
  "queue_inv keep mx = (\<lambda>(acc, log, d, s). queue_ok keep mx acc log (queue_of d))"

text \<open>
  C4: The queue is first in, first out and bounded: from a new dispatcher, after any calls, the
  events processed so far followed by those that wait are, in order, among those queued, and at
  most \<open>max_queue_size\<close> wait. If no queueing met a full queue, no shutdown interrupted a batch and the
  queue was not cleared, every queued event is in one of them, once.
\<close>

theorem queue_is_fifo:
  assumes "(queue_step clock n keep)\<^sup>*\<^sup>* ([], [], new_dispatcher mx b, s) (acc, log, d, s')"
  shows "subseq (log @ event_queue d) acc \<and> int (length (event_queue d)) \<le> max mx 0 \<and>
         (keep \<longrightarrow> log @ event_queue d = acc)"
proof -
  have "queue_inv keep mx (acc, log, d, s')"
    using assms
  proof (induction "(acc, log, d, s')" arbitrary: acc log d s' rule: rtranclp_induct)
    case base
    then show ?case by (simp add: queue_inv_def queue_ok_def new_dispatcher_def)
  next
    case (step x)
    then show ?case by (cases x) (auto simp: queue_inv_def dest: queue_ok_step)
  qed
  then show ?thesis by (auto simp: queue_ok_def queue_inv_def)
qed

theorem queue_is_fifo_witness:
  "let ev = create_event_data ''e1'' 7 CUSTOM no_arguments;
       s = \<lparr>handler_at = (\<lambda>_. new_handler ''h'' NORMAL None 10 (CallableHandler (\<lambda>ev w. (Inr ReturnsOther, ev, w)))),
            current_event = ev, outside = ()\<rparr>;
       d1 = snd (queue_event ev (new_dispatcher 1 5)) :: nat dispatcher;
       d2 = fst (snd (the (process_batch (\<lambda>_. 0) 1 None (d1, s))))
   in subseq ([ev] @ event_queue d2) [ev] \<and> int (length (event_queue d2)) \<le> max 1 0 \<and> [ev] @ event_queue d2 = [ev]"
proof -
  let ?ev = "create_event_data ''e1'' 7 CUSTOM no_arguments"
  let ?s = "\<lparr>handler_at = (\<lambda>_. new_handler ''h'' NORMAL None 10 (CallableHandler (\<lambda>ev w. (Inr ReturnsOther, ev, w)))),
            current_event = ?ev, outside = ()\<rparr> :: (nat, unit) event_world"
  let ?d1 = "snd (queue_event ?ev (new_dispatcher 1 5))"
  obtain d2 where d2: "process_batch (\<lambda>_. 0) 1 None (?d1, ?s) = Some ([?ev], d2, ?s)"
    by (simp add: process_batch_def queue_event_def new_dispatcher_def process_event_immediate_def
        get_handlers_for_event_def handlers_of_def start_processing_def)
  have "queue_step (\<lambda>_. 0) 1 True ([], [], new_dispatcher 1 5, ?s) ([] @ [?ev], [], ?d1, ?s)"
    by (rule enqueue [where r = "new_result ''e1''"])
      (simp_all add: queue_event_def new_dispatcher_def create_event_data_def Let_def)
  moreover have "queue_step (\<lambda>_. 0) 1 True ([] @ [?ev], [], ?d1, ?s) ([] @ [?ev], [] @ [?ev], d2, ?s)"
    using d2 by (rule serve) simp
  ultimately have "(queue_step (\<lambda>_. 0) 1 True)\<^sup>*\<^sup>* ([], [], new_dispatcher 1 5, ?s) ([?ev], [?ev], d2, ?s)"
    by (simp add: converse_rtranclp_into_rtranclp)
  from queue_is_fifo [OF this] d2 show ?thesis by (simp add: Let_def)
qed

subsection \<open>What a dispatch reports\<close>

lemma handle_event_safely_catches:
  "should_handle clock n i s = Some (Inr b) \<Longrightarrow> handle_event_safely clock n i s \<noteq> Some (Inl e, s')"
  by (auto split: option.splits sum.splits if_splits)

lemma run_handlers_report:
  assumes "run_handlers clock n is r s = Some (x, r', s')"
    and "\<not> dr_cancelled r" and "dr_final r = CONTINUE"
  shows "dr_failed r' = dr_failed r \<and> dr_errors r' = dr_errors r \<and> dr_event r' = dr_event r \<and>
         dr_executed r' \<le> dr_executed r + length is \<and>
         (dr_cancelled r' \<longleftrightarrow> dr_final r' = CANCEL) \<and>
         (dr_cancelled r' \<longrightarrow> ev_cancellable (current_event s') \<and> ev_cancelled (current_event s'))"
  using assms
proof (induction "is" arbitrary: r s)
  case (Cons i "is")
  then obtain y where y: "should_handle clock n i s = Some y" by (auto split: option.splits)
  show ?case
  proof (cases y)
    case (Inl e)
    with Cons.prems y show ?thesis by simp
  next
    case (Inr b)
    show ?thesis
    proof (cases b)
      case False
      with Cons.prems y Inr have "run_handlers clock n is r s = Some (x, r', s')" by simp
      from Cons.IH [OF this Cons.prems(2,3)] show ?thesis by simp
    next
      case True
      from Cons.prems(1) y Inr True obtain z s1 where
        z: "handle_event_safely clock n i s = Some (z, s1)"
        by (auto simp del: handle_event_safely.simps split: option.splits)
      with handle_event_safely_catches [of clock n i s b] y Inr obtain v where v: "z = Inr v"
        by (cases z) auto
      let ?r1 = "r\<lparr>dr_executed := Suc (dr_executed r)\<rparr>"
      consider (cancel) "cancels v s1" | (stop) "\<not> cancels v s1" "v = STOP" | (neither) "\<not> cancels v s1" "v \<noteq> STOP"
        by blast
      then show ?thesis
      proof cases
        case neither
        with Cons.prems(1) y Inr True z v have "run_handlers clock n is ?r1 s1 = Some (x, r', s')"
          by (simp add: Let_def del: handle_event_safely.simps)
        from Cons.IH [OF this] Cons.prems(2,3) show ?thesis by simp
      qed (use Cons.prems y Inr True z v in \<open>auto simp: Let_def cancel_current_def cancel_event_def cancels_def
             simp del: handle_event_safely.simps\<close>)
    qed
  qed
qed auto

text \<open>
  A dispatch never reports a failure, whatever its handlers raise: the result has no failed
  handler and no error, and the count of failed handlers in the statistics stays. It counts one
  more event, runs at most the handlers of the event, and is reported as cancelled exactly when
  its final result is \<^const>\<open>CANCEL\<close>; the event is then cancellable and cancelled.
\<close>

theorem dispatch_reports_no_failure:
  assumes "process_event_immediate clock n ev (d, s) = Some (x, d', s')"
  shows "total_handlers_failed (d_stats d') = total_handlers_failed (d_stats d) \<and>
         total_events (d_stats d') = Suc (total_events (d_stats d)) \<and>
         (\<forall>r. x = Inr r \<longrightarrow>
            dr_event r = ev_id ev \<and> dr_failed r = 0 \<and> dr_errors r = [] \<and>
            dr_executed r \<le> length (get_handlers_for_event s (ev_type ev) d) \<and>
            (dr_cancelled r \<longleftrightarrow> dr_final r = CANCEL) \<and>
            (dr_cancelled r \<longrightarrow> ev_cancellable (current_event s') \<and> ev_cancelled (current_event s')))"
proof -
  obtain e r where run: "run_handlers clock n (get_handlers_for_event s (ev_type ev) d) (new_result (ev_id ev))
         (s\<lparr>current_event := ev\<rparr>) = Some (e, r, s')"
    and x: "x = (case e of Some e \<Rightarrow> Inl e | None \<Rightarrow> Inr r)"
    and d': "d_stats d' = count_event_type (ev_type (current_event s')) (update_from_result r (d_stats d))"
    using assms by (auto simp: process_event_immediate_def split: option.splits prod.splits)
  from run_handlers_report [OF run] show ?thesis
    by (auto simp: x d' new_result_def count_event_type_def update_from_result_def split: option.splits)
qed

text \<open>An event without data, and a world with one handler, for the examples.\<close>

abbreviation sample_event :: "nat event_data" where
  "sample_event \<equiv> create_event_data ''e1'' 7 CUSTOM no_arguments"

abbreviation sample_world :: "(nat, nat) callback \<Rightarrow> int \<Rightarrow> (nat, nat) event_world" where
  "sample_world cb mx \<equiv>
     \<lparr>handler_at = (\<lambda>_. new_handler ''h'' NORMAL None mx (CallableHandler cb)), current_event = sample_event,
      outside = 0\<rparr>"

theorem dispatch_reports_no_failure_witness:
  "let s = sample_world (\<lambda>ev w. (Inl ''ValueError'', ev, Suc w)) 10;
       d = register_handler s 0 None (new_dispatcher 10 5);
       res = the (process_event_immediate (\<lambda>_. 0) 1 sample_event (d, s))
   in total_handlers_failed (d_stats (fst (snd res))) = 0 \<and> outside (snd (snd res)) = 1"
proof -
  let ?s = "sample_world (\<lambda>ev w. (Inl ''ValueError'', ev, Suc w)) 10"
  let ?d = "register_handler ?s 0 None (new_dispatcher 10 5)"
  have ty: "ev_type sample_event = CUSTOM" by (simp add: create_event_data_def)
  obtain x d' s' where r: "process_event_immediate (\<lambda>_. 0) 1 sample_event (?d, ?s) = Some (x, d', s')"
    and w: "outside s' = 1"
    by (simp add: process_event_immediate_def get_handlers_for_event_def register_handler_def
        new_dispatcher_def handlers_of_def sort_desc_def ty base_should_handle_def is_enabled_def new_handler_def
        is_disabled_due_to_errors_def run_callback_def as_event_result_def cancels_def update_handler_def)
  have "total_handlers_failed (d_stats ?d) = 0"
    by (simp add: register_handler_def new_dispatcher_def fresh_event_stats_def)
  with dispatch_reports_no_failure [OF r] r w show ?thesis by (simp add: Let_def)
qed

subsection \<open>Handlers that fail\<close>

text \<open>The handler \<open>i\<close> is given \<open>k\<close> events, one after the other.\<close>

fun handle_events ::
  "('w \<Rightarrow> int) \<Rightarrow> nat \<Rightarrow> nat \<Rightarrow> 'v event_data list \<Rightarrow> ('v, 'w) event_world \<Rightarrow> ('v, 'w) event_world option" where
  "handle_events clock n i [] s = Some s"
| "handle_events clock n i (ev # evs) s =
     (case handle_event_safely clock n i (s\<lparr>current_event := ev\<rparr>) of
        None \<Rightarrow> None | Some (r, s') \<Rightarrow> handle_events clock n i evs s')"

text \<open>What a simple handler does to the world when it is enabled: its callback, nothing else.\<close>

fun callback_runs :: "('v, 'w) callback \<Rightarrow> 'v event_data list \<Rightarrow> 'w \<Rightarrow> 'w" where
  "callback_runs cb [] w = w"
| "callback_runs cb (ev # evs) w = callback_runs cb evs (snd (snd (cb ev w)))"

lemma failing_step:
  assumes "h_kind (handler_at s i) \<in> {CallableHandler cb, AsyncCallableHandler cb}"
    and "h_filter (handler_at s i) = None" and "hm_enabled (handler_at s i)"
    and "\<And>ev w. isl (fst (cb ev w))"
  shows "\<exists>r s'. handle_event_safely clock (Suc n) i (s\<lparr>current_event := ev\<rparr>) = Some (r, s') \<and>
     h_kind (handler_at s' i) = h_kind (handler_at s i) \<and> h_filter (handler_at s' i) = None \<and>
     hm_enabled (handler_at s' i) \<and> hm_max_errors (handler_at s' i) = hm_max_errors (handler_at s i) \<and>
     (if hm_error_count (handler_at s i) < hm_max_errors (handler_at s i)
      then hm_error_count (handler_at s' i) = hm_error_count (handler_at s i) + 1 \<and>
           outside s' = snd (snd (cb ev (outside s)))
      else hm_error_count (handler_at s' i) = hm_error_count (handler_at s i) \<and> outside s' = outside s)"
proof -
  obtain e ev' w' where cb: "cb ev (outside s) = (Inl e, ev', w')"
    using assms(4) [of ev "outside s"] by (cases "cb ev (outside s)") (auto simp: isl_def)
  show ?thesis
    using assms(1-3) cb
    by (cases "hm_error_count (handler_at s i) < hm_max_errors (handler_at s i)") (auto simp: base_should_handle_def is_enabled_def is_disabled_due_to_errors_def run_callback_def
        update_handler_def count_error_def)
qed



end
