(* ===== verification/Event_Manager.thy ===== *)
theory Event_Manager
  imports Event_Dispatch
begin

text \<open>
  The event manager, \<open>revitpy/events/manager.py\<close>, the asynchronous part of
  \<open>revitpy/events/dispatcher.py\<close>, and the decorators of \<open>revitpy/events/decorators.py\<close>.

  A Python function is a record of its name, its body and the attributes that the decorators
  set on it. The number of a new handler object is an argument of the operations that create
  one. The disk is an argument of the discovery: the Python files of a directory, each with
  what importing it does. The handlers that \<open>asyncio.gather\<close> runs are run one after the other,
  in the order of the tasks.
\<close>

subsection \<open>Asynchronous dispatch\<close>

definition is_async_handler :: "('v, 'w) handler \<Rightarrow> bool" where
  "is_async_handler h \<longleftrightarrow> (case h_kind h of AsyncCallableHandler cb \<Rightarrow> True | _ \<Rightarrow> False)"

text \<open>\<open>handle_event_safely_async\<close>; \<open>handle_event_async\<close> of the only concrete class is its callback.\<close>

definition handle_event_safely_async ::
  "('w \<Rightarrow> int) \<Rightarrow> nat \<Rightarrow> nat \<Rightarrow> ('v, 'w) event_world \<Rightarrow> ('v, 'w) handled" where
  "handle_event_safely_async clock n i s =
     (case should_handle clock n i s of
        None \<Rightarrow> None
      | Some (Inl e) \<Rightarrow> Some (Inl e, s)
      | Some (Inr b) \<Rightarrow>
          (if \<not> b then Some (Inr CONTINUE, s)
           else (case h_kind (handler_at s i) of
                   AsyncCallableHandler cb \<Rightarrow>
                     (case run_callback cb s of
                        (Inl e, s') \<Rightarrow> Some (Inr CONTINUE, update_handler i (count_error e) s')
                      | (Inr r, s') \<Rightarrow> Some (Inr r, update_handler i count_execution s'))
                 | _ \<Rightarrow> None)))"

text \<open>The tasks are made of the handlers that should run, before any of them runs.\<close>

fun async_tasks ::
  "('w \<Rightarrow> int) \<Rightarrow> nat \<Rightarrow> nat list \<Rightarrow> ('v, 'w) event_world \<Rightarrow> (string + nat list) option" where
  "async_tasks clock n [] s = Some (Inr [])"
| "async_tasks clock n (i # is) s =
     (case should_handle clock n i s of
        None \<Rightarrow> None
      | Some (Inl e) \<Rightarrow> Some (Inl e)
      | Some (Inr b) \<Rightarrow>
          map_option (map_sum id (\<lambda>js. if b then i # js else js)) (async_tasks clock n is s))"

fun gather_tasks ::
  "('w \<Rightarrow> int) \<Rightarrow> nat \<Rightarrow> nat list \<Rightarrow> ('v, 'w) event_world \<Rightarrow>
   ((string + event_result) list \<times> ('v, 'w) event_world) option" where
  "gather_tasks clock n [] s = Some ([], s)"
| "gather_tasks clock n (i # is) s =
     (case handle_event_safely_async clock n i s of
        None \<Rightarrow> None
      | Some (x, s') \<Rightarrow>
          (case gather_tasks clock n is s' of None \<Rightarrow> None | Some (xs, s'') \<Rightarrow> Some (x # xs, s'')))"

fun count_async_results ::
  "(string + event_result) list \<Rightarrow> dispatch_result \<Rightarrow> ('v, 'w) event_world \<Rightarrow>
   dispatch_result \<times> ('v, 'w) event_world" where
  "count_async_results [] r s = (r, s)"
| "count_async_results (Inl e # xs) r s =
     count_async_results xs (r\<lparr>dr_failed := Suc (dr_failed r), dr_errors := dr_errors r @ [e]\<rparr>) s"
| "count_async_results (Inr x # xs) r s =
     (let r1 = r\<lparr>dr_executed := Suc (dr_executed r)\<rparr> in
      if cancels x s then
        count_async_results xs (r1\<lparr>dr_cancelled := True, dr_final := CANCEL\<rparr>) (cancel_current s)
      else if x = STOP then count_async_results xs (r1\<lparr>dr_final := STOP\<rparr>) s
      else count_async_results xs r1 s)"

definition run_async_handlers ::
  "('w \<Rightarrow> int) \<Rightarrow> nat \<Rightarrow> nat list \<Rightarrow> dispatch_result \<Rightarrow> ('v, 'w) event_world \<Rightarrow>
   (string option \<times> dispatch_result \<times> ('v, 'w) event_world) option" where
  "run_async_handlers clock n is r s =
     (case async_tasks clock n is s of
        None \<Rightarrow> None
      | Some (Inl e) \<Rightarrow> Some (Some e, r, s)
      | Some (Inr tasks) \<Rightarrow>
          (case gather_tasks clock n tasks s of
             None \<Rightarrow> None
           | Some (xs, s') \<Rightarrow> Some (None, count_async_results xs r s')))"

definition process_event_async ::
  "('w \<Rightarrow> int) \<Rightarrow> nat \<Rightarrow> 'v event_data \<Rightarrow> 'v dispatcher \<times> ('v, 'w) event_world \<Rightarrow>
   ((string + dispatch_result) \<times> 'v dispatcher \<times> ('v, 'w) event_world) option" where
  "process_event_async clock n ev = (\<lambda>(d, s).
     (let hs = get_handlers_for_event s (ev_type ev) d;
          sync = filter (\<lambda>i. \<not> is_async_handler (handler_at s i)) hs;
          async = filter (\<lambda>i. is_async_handler (handler_at s i)) hs
      in case
           (case run_handlers clock n sync (new_result (ev_id ev)) (s\<lparr>current_event := ev\<rparr>) of
              None \<Rightarrow> None
            | Some (Some e, r, s1) \<Rightarrow> Some (Some e, r, s1)
            | Some (None, r, s1) \<Rightarrow>
                (if dr_final r = CONTINUE \<and> async \<noteq> [] then run_async_handlers clock n async r s1
                 else Some (None, r, s1)))
         of None \<Rightarrow> None
          | Some (x, r, s2) \<Rightarrow>
              Some ((case x of Some e \<Rightarrow> Inl e | None \<Rightarrow> Inr r),
                d\<lparr>d_stats := count_event_type (ev_type (current_event s2)) (update_from_result r (d_stats d))\<rparr>, s2)))"

definition dispatch_event_async ::
  "('w \<Rightarrow> int) \<Rightarrow> nat \<Rightarrow> 'v event_data \<Rightarrow> 'v dispatcher \<times> ('v, 'w) event_world \<Rightarrow>
   ((string + dispatch_result) \<times> 'v dispatcher \<times> ('v, 'w) event_world) option" where
  "dispatch_event_async clock n ev = (\<lambda>(d, s).
     (case passes_filters (event_filters d) ev of
        Inl e \<Rightarrow> Some (Inl e, d, s)
      | Inr b \<Rightarrow>
          (if \<not> b then Some (Inr (new_result (ev_id ev)), d, s) else process_event_async clock n ev (d, s))))"

subsection \<open>Functions and their decorators\<close>

record ('v, 'w) py_function =
  fn_id :: nat
  fn_name :: string
  fn_async :: bool
  fn_body :: "('v, 'w) callback"
  fn_handler :: "nat option"
  fn_types :: "event_type list option"
  fn_marked :: bool
  fn_pending :: "'v event_filter option"

definition new_function :: "nat \<Rightarrow> string \<Rightarrow> bool \<Rightarrow> ('v, 'w) callback \<Rightarrow> ('v, 'w) py_function" where
  "new_function i n a b = \<lparr>fn_id = i, fn_name = n, fn_async = a, fn_body = b, fn_handler = None,
                          fn_types = None, fn_marked = False, fn_pending = None\<rparr>"

definition function_kind :: "('v, 'w) py_function \<Rightarrow> ('v, 'w) handler_kind" where
  "function_kind f = (if fn_async f then AsyncCallableHandler (fn_body f) else CallableHandler (fn_body f))"

text \<open>\<open>i\<close> is the new handler object.\<close>

definition attach_handler ::
  "nat \<Rightarrow> event_type list option \<Rightarrow> bool \<Rightarrow> ('v, 'w) handler \<Rightarrow>
   ('v, 'w) py_function \<times> ('v, 'w) event_world \<Rightarrow> ('v, 'w) py_function \<times> ('v, 'w) event_world" where
  "attach_handler i tys enabled h = (\<lambda>(f, s).
     (f\<lparr>fn_handler := Some i, fn_types := Some (case tys of None \<Rightarrow> [] | Some ts \<Rightarrow> ts), fn_marked := True\<rparr>,
      update_handler i (\<lambda>_. if enabled then h else disable_handler h) s))"

definition event_handler ::
  "nat \<Rightarrow> event_type list option \<Rightarrow> event_priority \<Rightarrow> 'v event_filter option \<Rightarrow> int \<Rightarrow> bool \<Rightarrow>
   ('v, 'w) py_function \<times> ('v, 'w) event_world \<Rightarrow> ('v, 'w) py_function \<times> ('v, 'w) event_world" where
  "event_handler i tys pr flt mx enabled = (\<lambda>(f, s).
     attach_handler i tys enabled (new_handler (fn_name f) pr flt mx (function_kind f)) (f, s))"

definition async_event_handler ::
  "nat \<Rightarrow> event_type list option \<Rightarrow> event_priority \<Rightarrow> 'v event_filter option \<Rightarrow> int \<Rightarrow> bool \<Rightarrow>
   ('v, 'w) py_function \<times> ('v, 'w) event_world \<Rightarrow> ('v, 'w) py_function \<times> ('v, 'w) event_world" where
  "async_event_handler i tys pr flt mx enabled = (\<lambda>(f, s).
     attach_handler i tys enabled (new_handler (fn_name f) pr flt mx (AsyncCallableHandler (fn_body f))) (f, s))"

definition with_event_filter ::
  "'v event_filter \<Rightarrow> ('v, 'w) py_function \<times> ('v, 'w) event_world \<Rightarrow>
   ('v, 'w) py_function \<times> ('v, 'w) event_world" where
  "with_event_filter flt = (\<lambda>(f, s).
     (case fn_handler f of
        Some i \<Rightarrow>
          (f, update_handler i (\<lambda>h. h\<lparr>h_filter :=
                Some (case h_filter h of None \<Rightarrow> flt | Some g \<Rightarrow> filter_and g flt)\<rparr>) s)
      | None \<Rightarrow> (f\<lparr>fn_pending := Some flt\<rparr>, s)))"

text \<open>
  The decorators that wrap the function. \<open>functools.wraps\<close> copies its attributes to the wrapper;
  a handler that is already attached keeps the function itself. \<open>cell\<close> is the variable that the
  throttled wrapper keeps, with the clock of the world.
\<close>

definition wrap_function ::
  "nat \<Rightarrow> (('v, 'w) callback \<Rightarrow> ('v, 'w) callback) \<Rightarrow> ('v, 'w) py_function \<Rightarrow> ('v, 'w) py_function" where
  "wrap_function i g f = f\<lparr>fn_id := i, fn_body := g (fn_body f)\<rparr>"

definition throttled_wrapper ::
  "('w \<Rightarrow> int) \<Rightarrow> ('w \<Rightarrow> int) \<times> (int \<Rightarrow> 'w \<Rightarrow> 'w) \<Rightarrow> int \<Rightarrow> ('v, 'w) callback \<Rightarrow> ('v, 'w) callback" where
  "throttled_wrapper clock cell gap cb ev w =
     (let now = clock w in
      if now - fst cell w < gap then (Inr (Result CONTINUE), ev, w) else cb ev (snd cell now w))"

definition conditional_wrapper ::
  "('v event_data \<Rightarrow> string + bool) \<Rightarrow> ('v, 'w) callback \<Rightarrow> ('v, 'w) callback" where
  "conditional_wrapper cond cb ev w =
     (case cond ev of
        Inl e \<Rightarrow> (Inl e, ev, w)
      | Inr b \<Rightarrow> (if b then cb ev w else (Inr (Result CONTINUE), ev, w)))"

text \<open>\<open>k\<close> attempts are left; with none made, \<open>raise None\<close> is a \<open>TypeError\<close>. \<open>pause\<close> is the sleep.\<close>

fun retry_attempts ::
  "('w \<Rightarrow> 'w) \<Rightarrow> nat \<Rightarrow> string \<Rightarrow> ('v, 'w) callback \<Rightarrow> ('v, 'w) callback" where
  "retry_attempts pause 0 last_error cb ev w = (Inl last_error, ev, w)"
| "retry_attempts pause (Suc k) last_error cb ev w =
     (case cb ev w of
        (Inr x, ev', w') \<Rightarrow> (Inr x, ev', w')
      | (Inl e, ev', w') \<Rightarrow> retry_attempts pause k e cb ev' (if 0 < k then pause w' else w'))"

definition retry_wrapper :: "('w \<Rightarrow> 'w) \<Rightarrow> int \<Rightarrow> ('v, 'w) callback \<Rightarrow> ('v, 'w) callback" where
  "retry_wrapper pause max_retries cb =
     retry_attempts pause (nat (max_retries + 1)) ''TypeError: exceptions must derive from BaseException'' cb"

definition logging_wrapper :: "('v, 'w) callback \<Rightarrow> ('v, 'w) callback" where
  "logging_wrapper cb ev w = cb ev w"

text \<open>The decorators for common events. An empty name is no name.\<close>

definition named_filter :: "(string \<Rightarrow> 'v event_filter) \<Rightarrow> string option \<Rightarrow> 'v event_filter list" where
  "named_filter mk x = (case x of None \<Rightarrow> [] | Some n \<Rightarrow> if n = [] then [] else [mk n])"

definition on_element_event_filter :: "string option \<Rightarrow> 'v event_filter option" where
  "on_element_event_filter ty =
     (case named_filter (\<lambda>n. ElementTypeFilter [n]) ty of [] \<Rightarrow> None | f # fs \<Rightarrow> Some f)"

definition on_element_modified_filter :: "string option \<Rightarrow> string option \<Rightarrow> 'v event_filter option" where
  "on_element_modified_filter ty p =
     (case named_filter (\<lambda>n. ElementTypeFilter [n]) ty @ named_filter (\<lambda>n. ParameterChangeFilter [n]) p of
        [] \<Rightarrow> None | [f] \<Rightarrow> Some f | f # g # fs \<Rightarrow> Some (filter_and f g))"

definition on_parameter_changed_filter :: "string \<Rightarrow> string option \<Rightarrow> 'v event_filter" where
  "on_parameter_changed_filter p ty =
     (case named_filter (\<lambda>n. ElementTypeFilter [n]) ty of
        [] \<Rightarrow> ParameterChangeFilter [p] | f # fs \<Rightarrow> filter_and (ParameterChangeFilter [p]) f)"

definition on_event ::
  "event_type \<Rightarrow> 'v event_filter option \<Rightarrow> event_priority \<Rightarrow> nat \<Rightarrow>
   ('v, 'w) py_function \<times> ('v, 'w) event_world \<Rightarrow> ('v, 'w) py_function \<times> ('v, 'w) event_world" where
  "on_event ty flt pr i = event_handler i (Some [ty]) pr flt 10 True"

definition on_parameter_changed ::
  "string \<Rightarrow> string option \<Rightarrow> event_priority \<Rightarrow> nat \<Rightarrow>
   ('v, 'w) py_function \<times> ('v, 'w) event_world \<Rightarrow> ('v, 'w) py_function \<times> ('v, 'w) event_world" where
  "on_parameter_changed p ty = on_event PARAMETER_CHANGED (Some (on_parameter_changed_filter p ty))"

definition on_element_created ::
  "string option \<Rightarrow> event_priority \<Rightarrow> nat \<Rightarrow>
   ('v, 'w) py_function \<times> ('v, 'w) event_world \<Rightarrow> ('v, 'w) py_function \<times> ('v, 'w) event_world" where
  "on_element_created ty = on_event ELEMENT_CREATED (on_element_event_filter ty)"

definition on_element_modified ::
  "string option \<Rightarrow> string option \<Rightarrow> event_priority \<Rightarrow> nat \<Rightarrow>
   ('v, 'w) py_function \<times> ('v, 'w) event_world \<Rightarrow> ('v, 'w) py_function \<times> ('v, 'w) event_world" where
  "on_element_modified ty p = on_event ELEMENT_MODIFIED (on_element_modified_filter ty p)"

definition on_element_deleted ::
  "string option \<Rightarrow> event_priority \<Rightarrow> nat \<Rightarrow>
   ('v, 'w) py_function \<times> ('v, 'w) event_world \<Rightarrow> ('v, 'w) py_function \<times> ('v, 'w) event_world" where
  "on_element_deleted ty = on_event ELEMENT_DELETED (on_element_event_filter ty)"

subsection \<open>The manager\<close>

record 'v event_manager =
  em_dispatcher :: "'v dispatcher"
  em_modules :: "string list"
  em_paths :: "string list"
  em_listeners :: "(event_type, nat list) dict"
  em_running :: bool

definition new_event_manager :: "'v event_manager" where
  "new_event_manager = \<lparr>em_dispatcher = new_dispatcher 10000 100, em_modules = [], em_paths = [],
                        em_listeners = [], em_running = False\<rparr>"

type_synonym ('v, 'w) em_state = "'v event_manager \<times> ('v, 'w) event_world"

definition em_register ::
  "nat \<Rightarrow> event_type list option \<Rightarrow> ('v, 'w) em_state \<Rightarrow> ('v, 'w) em_state" where
  "em_register i tys = (\<lambda>(m, s). (m\<lparr>em_dispatcher := register_handler s i tys (em_dispatcher m)\<rparr>, s))"

definition em_unregister :: "nat \<Rightarrow> event_type list option \<Rightarrow> 'v event_manager \<Rightarrow> 'v event_manager" where
  "em_unregister i tys m = m\<lparr>em_dispatcher := unregister_handler i tys (em_dispatcher m)\<rparr>"

definition register_function ::
  "nat \<Rightarrow> ('v, 'w) py_function \<Rightarrow> event_type list \<Rightarrow> event_priority \<Rightarrow> 'v event_filter option \<Rightarrow>
   string option \<Rightarrow> ('v, 'w) em_state \<Rightarrow> ('v, 'w) em_state" where
  "register_function i f tys pr flt name = (\<lambda>(m, s).
     (let n = (case name of None \<Rightarrow> fn_name f | Some x \<Rightarrow> if x = [] then fn_name f else x)
      in em_register i (Some tys) (m, update_handler i (\<lambda>_. new_handler n pr flt 10 (function_kind f)) s)))"

definition function_handler :: "('v, 'w) py_function \<Rightarrow> (nat \<times> event_type list) option" where
  "function_handler f =
     (if fn_marked f then map_option (\<lambda>i. (i, case fn_types f of None \<Rightarrow> [] | Some ts \<Rightarrow> ts)) (fn_handler f)
      else None)"

text \<open>
  The attributes of an instance, in the order of \<open>dir\<close>: reading one runs the code of a property,
  so that it acts on the state and may raise. What was registered before stays registered then.
\<close>

type_synonym ('v, 'w) member_reader =
  "('v, 'w) em_state \<Rightarrow> (string + ('v, 'w) py_function) \<times> ('v, 'w) em_state"

fun register_class_handlers ::
  "('v, 'w) member_reader list \<Rightarrow> ('v, 'w) em_state \<Rightarrow> (string + nat list) \<times> ('v, 'w) em_state" where
  "register_class_handlers [] ms = (Inr [], ms)"
| "register_class_handlers (g # gs) ms =
     (case g ms of
        (Inl e, ms1) \<Rightarrow> (Inl e, ms1)
      | (Inr f, ms1) \<Rightarrow>
          (case function_handler f of
             None \<Rightarrow> register_class_handlers gs ms1
           | Some (i, tys) \<Rightarrow>
               (case register_class_handlers gs (em_register i (Some tys) ms1) of
                  (Inl e, ms2) \<Rightarrow> (Inl e, ms2)
                | (Inr is, ms2) \<Rightarrow> (Inr (i # is), ms2))))"

text \<open>A method: reading it runs no code.\<close>

definition read_method :: "('v, 'w) py_function \<Rightarrow> ('v, 'w) member_reader" where
  "read_method f = (\<lambda>ms. (Inr f, ms))"

definition em_dispatch ::
  "('w \<Rightarrow> int) \<Rightarrow> nat \<Rightarrow> string \<Rightarrow> int \<Rightarrow> event_type \<Rightarrow> bool \<Rightarrow> 'v event_kwargs \<Rightarrow> ('v, 'w) em_state \<Rightarrow>
   ((string + dispatch_result) \<times> ('v, 'w) em_state) option" where
  "em_dispatch clock n eid now ty immediate kw = (\<lambda>(m, s).
     map_option (\<lambda>(r, d, s'). (r, m\<lparr>em_dispatcher := d\<rparr>, s'))
       (dispatch_event clock n immediate (create_event_data eid now ty kw) (em_dispatcher m, s)))"

definition em_dispatch_async ::
  "('w \<Rightarrow> int) \<Rightarrow> nat \<Rightarrow> string \<Rightarrow> int \<Rightarrow> event_type \<Rightarrow> 'v event_kwargs \<Rightarrow> ('v, 'w) em_state \<Rightarrow>
   ((string + dispatch_result) \<times> ('v, 'w) em_state) option" where
  "em_dispatch_async clock n eid now ty kw = (\<lambda>(m, s).
     map_option (\<lambda>(r, d, s'). (r, m\<lparr>em_dispatcher := d\<rparr>, s'))
       (dispatch_event_async clock n (create_event_data eid now ty kw) (em_dispatcher m, s)))"

definition emit_arguments ::
  "(string, 'v option) dict option \<Rightarrow> 'v option \<Rightarrow> bool \<Rightarrow> 'v event_kwargs" where
  "emit_arguments dat src c =
     no_arguments\<lparr>kw_data := Some (default [] dat), kw_source := src, kw_cancellable := Some c\<rparr>"

definition emit ::
  "('w \<Rightarrow> int) \<Rightarrow> nat \<Rightarrow> string \<Rightarrow> int \<Rightarrow> event_type \<Rightarrow> (string, 'v option) dict option \<Rightarrow> 'v option \<Rightarrow> bool \<Rightarrow>
   bool \<Rightarrow> ('v, 'w) em_state \<Rightarrow> ((string + dispatch_result) \<times> ('v, 'w) em_state) option" where
  "emit clock n eid now ty dat src c immediate =
     em_dispatch clock n eid now ty immediate (emit_arguments dat src c)"

definition emit_async ::
  "('w \<Rightarrow> int) \<Rightarrow> nat \<Rightarrow> string \<Rightarrow> int \<Rightarrow> event_type \<Rightarrow> (string, 'v option) dict option \<Rightarrow> 'v option \<Rightarrow> bool \<Rightarrow>
   ('v, 'w) em_state \<Rightarrow> ((string + dispatch_result) \<times> ('v, 'w) em_state) option" where
  "emit_async clock n eid now ty dat src c =
     em_dispatch_async clock n eid now ty (emit_arguments dat src c)"

definition add_discovery_path :: "string \<Rightarrow> 'v event_manager \<Rightarrow> 'v event_manager" where
  "add_discovery_path p m = m\<lparr>em_paths := pset_add p (em_paths m)\<rparr>"

text \<open>
  A Python file: its name, the name of its module, and its import, which acts on the world and
  may fail. The walk of a directory is \<^const>\<open>None\<close> when it raises, and empty when there is no directory.
\<close>

datatype ('v, 'w) module_member = FunctionMember "('v, 'w) py_function" | OtherMember

record ('v, 'w) module_file =
  mf_file :: string
  mf_module :: string
  mf_import :: "('v, 'w) event_world \<Rightarrow> ('v, 'w) module_member list option \<times> ('v, 'w) event_world"

fun scan_module ::
  "('v, 'w) module_member list \<Rightarrow> ('v, 'w) em_state \<Rightarrow> nat \<times> ('v, 'w) em_state" where
  "scan_module [] ms = (0, ms)"
| "scan_module (FunctionMember f # xs) ms =
     (case function_handler f of
        None \<Rightarrow> scan_module xs ms
      | Some (i, tys) \<Rightarrow>
          (case scan_module xs (em_register i (Some tys) ms) of (k, ms') \<Rightarrow> (Suc k, ms')))"
| "scan_module (OtherMember # xs) ms = scan_module xs ms"

fun discover_files ::
  "('v, 'w) module_file list \<Rightarrow> ('v, 'w) em_state \<Rightarrow> nat \<times> ('v, 'w) em_state" where
  "discover_files [] ms = (0, ms)"
| "discover_files (p # ps) (m, s) =
     (if take 1 (mf_file p) = ''_'' \<or> mf_module p \<in> set (em_modules m) then discover_files ps (m, s)
      else (case mf_import p s of
              (None, s') \<Rightarrow> discover_files ps (m, s')
            | (Some xs, s') \<Rightarrow>
                (case scan_module xs (m, s') of
                   (k, m1, s1) \<Rightarrow>
                     (case discover_files ps (m1\<lparr>em_modules := pset_add (mf_module p) (em_modules m1)\<rparr>, s1) of
                        (k', ms') \<Rightarrow> (k + k', ms')))))"

fun discover_paths ::
  "(string \<Rightarrow> ('v, 'w) module_file list option) \<Rightarrow> string list \<Rightarrow> ('v, 'w) em_state \<Rightarrow>
   nat \<times> ('v, 'w) em_state" where
  "discover_paths disk [] ms = (0, ms)"
| "discover_paths disk (p # ps) ms =
     (case disk p of
        None \<Rightarrow> discover_paths disk ps ms
      | Some files \<Rightarrow>
          (case discover_files files ms of
             (k, ms1) \<Rightarrow> (case discover_paths disk ps ms1 of (k', ms2) \<Rightarrow> (k + k', ms2))))"

definition discover_handlers ::
  "(string \<Rightarrow> ('v, 'w) module_file list option) \<Rightarrow> string list option \<Rightarrow> ('v, 'w) em_state \<Rightarrow>
   nat \<times> ('v, 'w) em_state" where
  "discover_handlers disk paths ms =
     discover_paths disk (case paths of None \<Rightarrow> em_paths (fst ms) | Some ps \<Rightarrow> if ps = [] then em_paths (fst ms) else ps) ms"

definition em_start ::
  "(string \<Rightarrow> ('v, 'w) module_file list option) \<Rightarrow> bool \<Rightarrow> ('v, 'w) em_state \<Rightarrow> ('v, 'w) em_state" where
  "em_start disk auto = (\<lambda>(m, s).
     (if em_running m then (m, s)
      else (let ms = (m\<lparr>em_running := True\<rparr>, s)
            in if auto then snd (discover_handlers disk None ms) else ms)))"

definition em_stop :: "'v event_manager \<Rightarrow> 'v event_manager" where
  "em_stop m =
     (if \<not> em_running m then m
      else m\<lparr>em_dispatcher := stop_processing (em_dispatcher m), em_running := False\<rparr>)"

definition listeners_of :: "event_type \<Rightarrow> 'v event_manager \<Rightarrow> nat list" where
  "listeners_of ty m = (case map_of (em_listeners m) ty of None \<Rightarrow> [] | Some fs \<Rightarrow> fs)"

definition add_listener ::
  "nat \<Rightarrow> event_type \<Rightarrow> ('v, 'w) py_function \<Rightarrow> event_priority \<Rightarrow> ('v, 'w) em_state \<Rightarrow> ('v, 'w) em_state" where
  "add_listener i ty f pr = (\<lambda>(m, s).
     register_function i f [ty] pr None None
       (m\<lparr>em_listeners := AList.update ty (listeners_of ty m @ [fn_id f]) (em_listeners m)\<rparr>, s))"

definition remove_listener ::
  "event_type \<Rightarrow> ('v, 'w) py_function \<Rightarrow> 'v event_manager \<Rightarrow> bool \<times> 'v event_manager" where
  "remove_listener ty f m =
     (if fn_id f \<in> set (listeners_of ty m)
      then (True, m\<lparr>em_listeners := AList.update ty (remove1 (fn_id f) (listeners_of ty m)) (em_listeners m)\<rparr>)
      else (False, m))"

definition clear_event_queue :: "'v event_manager \<Rightarrow> nat \<times> 'v event_manager" where
  "clear_event_queue m =
     (case clear_queue (em_dispatcher m) of (k, d) \<Rightarrow> (k, m\<lparr>em_dispatcher := d\<rparr>))"

definition reset_statistics :: "('v, 'w) em_state \<Rightarrow> ('v, 'w) em_state" where
  "reset_statistics = (\<lambda>(m, s).
     (case reset_stats (em_dispatcher m, s) of (d, s') \<Rightarrow> (m\<lparr>em_dispatcher := d\<rparr>, s')))"

definition all_event_types :: "event_type list" where
  "all_event_types =
     [DOCUMENT_OPENED, DOCUMENT_CLOSED, DOCUMENT_SAVED, DOCUMENT_SYNCHRONIZED, ELEMENT_CREATED,
      ELEMENT_MODIFIED, ELEMENT_DELETED, ELEMENT_TYPE_CHANGED, TRANSACTION_STARTED, TRANSACTION_COMMITTED,
      TRANSACTION_ROLLED_BACK, PARAMETER_CHANGED, PARAMETER_ADDED, PARAMETER_REMOVED, VIEW_ACTIVATED,
      VIEW_DEACTIVATED, VIEW_CREATED, SELECTION_CHANGED, APPLICATION_INITIALIZED, APPLICATION_CLOSING, CUSTOM]"

definition get_registered_handlers :: "('v, 'w) em_state \<Rightarrow> (event_type, string list) dict" where
  "get_registered_handlers = (\<lambda>(m, s).
     map (\<lambda>ty. (ty, map (\<lambda>i. hm_name (handler_at s i)) (get_handlers_for_event s ty (em_dispatcher m))))
       all_event_types)"

subsection \<open>Properties\<close>

text \<open>
  Where no handler of an event is asynchronous, the asynchronous dispatch is the synchronous
  one: the same result, statistics, handlers and world, exceptions included.
\<close>

theorem async_dispatch_of_sync_handlers:
  assumes "\<forall>i \<in> set (get_handlers_for_event s (ev_type ev) d). \<not> is_async_handler (handler_at s i)"
  shows "dispatch_event_async clock n ev (d, s) = dispatch_event clock n True ev (d, s)"
proof -
  let ?hs = "get_handlers_for_event s (ev_type ev) d"
  have "filter (\<lambda>i. \<not> is_async_handler (handler_at s i)) ?hs = ?hs"
    and "filter (\<lambda>i. is_async_handler (handler_at s i)) ?hs = []"
    using assms by (auto simp: filter_id_conv filter_empty_conv)
  then have "process_event_async clock n ev (d, s) = process_event_immediate clock n ev (d, s)"
    by (simp add: process_event_async_def process_event_immediate_def Let_def split: option.splits)
  then show ?thesis by (simp add: dispatch_event_async_def dispatch_event_def split: sum.splits)
qed

theorem async_dispatch_of_sync_handlers_witness:
  "let s = sample_world (\<lambda>ev w. (Inr ReturnsFalse, ev, Suc w)) 10;
       d = register_handler s 0 None (new_dispatcher 10 5)
   in get_handlers_for_event s CUSTOM d = [0] \<and>
      dispatch_event_async (\<lambda>_. 0) 1 sample_event (d, s) = dispatch_event (\<lambda>_. 0) 1 True sample_event (d, s)"
proof -
  let ?s = "sample_world (\<lambda>ev w. (Inr ReturnsFalse, ev, Suc w)) 10"
  let ?d = "register_handler ?s 0 None (new_dispatcher 10 5) :: nat dispatcher"
  have hs: "get_handlers_for_event ?s CUSTOM ?d = [0]"
    by (simp add: get_handlers_for_event_def register_handler_def new_dispatcher_def handlers_of_def sort_desc_def)
  have ty: "ev_type sample_event = CUSTOM" by (simp add: create_event_data_def)
  have "dispatch_event_async (\<lambda>_. 0) 1 sample_event (?d, ?s) = dispatch_event (\<lambda>_. 0) 1 True sample_event (?d, ?s)"
    by (rule async_dispatch_of_sync_handlers) (simp only: ty hs, simp add: is_async_handler_def new_handler_def)
  with hs show ?thesis by (simp add: Let_def)
qed

text \<open>A cancelled event may be reported as stopped: a later result of the tasks overwrites the final one.\<close>

lemma async_stop_hides_cancel:
  "ev_cancellable (current_event s) \<Longrightarrow>
   count_async_results [Inr CANCEL, Inr STOP] (new_result eid) s =
     ((new_result eid)\<lparr>dr_executed := 2, dr_cancelled := True, dr_final := STOP\<rparr>, cancel_current s)"
  by (simp add: cancels_def Let_def new_result_def)

lemma handlers_of_register_for [simp]:
  "handlers_of ty' (register_for s i ty d) =
     (if ty' = ty then sort_desc (handler_priority s) (handlers_of ty d @ [i]) else handlers_of ty' d)"
  by (simp add: register_for_def)

lemma em_dispatcher_add_listener:
  "add_listener i ty f pr (m, s) = (m', s') \<Longrightarrow>
   em_dispatcher m' = register_for s' i ty (em_dispatcher m) \<and>
   handler_at s' i = new_handler (fn_name f) pr None 10 (function_kind f) \<and>
   listeners_of ty m' = listeners_of ty m @ [fn_id f]"
  by (auto simp: add_listener_def register_function_def em_register_def register_handler_def update_handler_def
      listeners_of_def Let_def)

text \<open>
  Removing a listener does not stop it: \<open>remove_listener\<close> says that the callback is removed,
  but its handler, enabled and without a filter, remains among those that the event runs, and
  dispatching does what it did before.
\<close>

theorem removed_listener_still_runs:
  assumes "add_listener i ty f pr (m, s) = (m1, s1)" and "remove_listener ty f m1 = (removed, m2)"
  shows "removed \<and> i \<in> set (get_handlers_for_event s1 ty (em_dispatcher m2)) \<and>
         h_kind (handler_at s1 i) = function_kind f \<and> should_handle clock (Suc n) i s1 = Some (Inr True) \<and>
         em_dispatcher m2 = em_dispatcher m1"
proof -
  from em_dispatcher_add_listener [OF assms(1)]
  have m1: "em_dispatcher m1 = register_for s1 i ty (em_dispatcher m)"
    "handler_at s1 i = new_handler (fn_name f) pr None 10 (function_kind f)"
    "fn_id f \<in> set (listeners_of ty m1)" by simp_all
  have m2: "removed" "em_dispatcher m2 = em_dispatcher m1"
    using assms(2) m1(3) by (auto simp: remove_listener_def)
  have "i \<in> set (get_handlers_for_event s1 ty (em_dispatcher m2))"
    by (simp add: get_handlers_for_event_def m1(1) m2(2))
  moreover have "should_handle clock (Suc n) i s1 = Some (Inr True)"
    by (simp add: m1(2) new_handler_def base_should_handle_def is_enabled_def is_disabled_due_to_errors_def
        function_kind_def)
  ultimately show ?thesis using m1(2) m2 by (simp add: new_handler_def)
qed

theorem removed_listener_still_runs_witness:
  "let f = new_function 3 ''on_change'' False (\<lambda>ev w. (Inr ReturnsOther, ev, Suc w));
       ms = add_listener 1 CUSTOM f NORMAL (new_event_manager, sample_world (fn_body f) 10);
       m2 = snd (remove_listener CUSTOM f (fst ms))
   in fst (remove_listener CUSTOM f (fst ms)) \<and>
      1 \<in> set (get_handlers_for_event (snd ms) CUSTOM (em_dispatcher m2))"
proof -
  let ?f = "new_function 3 ''on_change'' False (\<lambda>ev w. (Inr ReturnsOther, ev, Suc w)) :: (nat, nat) py_function"
  obtain m1 s1 where 1: "add_listener 1 CUSTOM ?f NORMAL (new_event_manager, sample_world (fn_body ?f) 10) = (m1, s1)"
    by fastforce
  obtain b m2 where 2: "remove_listener CUSTOM ?f m1 = (b, m2)" by fastforce
  have "b" and "1 \<in> set (get_handlers_for_event s1 CUSTOM (em_dispatcher m2))"
    using removed_listener_still_runs [OF 1 2] by blast+
  then show ?thesis unfolding Let_def 1 fst_conv snd_conv 2 by simp
qed

text \<open>
  Decorators and filters: a handler made by \<open>event_handler\<close> on top of \<open>event_filter\<close>, the
  order that the documentation of \<open>event_filter\<close> shows, does not have that filter; in the other
  order it has it. A handler made by \<open>on_parameter_changed\<close> with an element type never runs on an
  event of its type, and one made without an element type runs on those of its parameter.
\<close>

theorem decorated_filters:
  "h_filter (handler_at (snd (event_handler i tys pr flt mx en (with_event_filter g (new_function k nm a cb, s)))) i)
     = flt \<and>
   h_filter (handler_at (snd (with_event_filter g (event_handler i tys pr flt mx en (new_function k nm a cb, s)))) i)
     = Some (case flt of None \<Rightarrow> g | Some h \<Rightarrow> filter_and h g) \<and>
   matches (on_parameter_changed_filter p (Some (c # cs))) (create_event_data eid now PARAMETER_CHANGED kw) = Inr False \<and>
   matches (on_parameter_changed_filter p None) (create_event_data eid now PARAMETER_CHANGED kw) =
     Inr (default [] (kw_parameter_name kw) = p)"
  by (auto simp: event_handler_def with_event_filter_def new_function_def attach_handler_def update_handler_def
      new_handler_def disable_handler_def on_parameter_changed_filter_def named_filter_def filter_and_def
      create_event_data_def create_detail_def)

end
