(* ===== verification/Ext_Container.thy ===== *)
theory Ext_Container
  imports Prelude
begin

text \<open>
  The dependency injection container, \<open>revitpy/extensions/dependency_injection.py\<close>.

  A service type is a name, with whether the type has a \<open>__name__\<close> (a union type has none). What
  Python's reflection says of a class and what its constructor does is the record \<open>reflection\<close>;
  a factory carries its own signature. Constructors, factories and disposers act on a world of
  any type and may raise; they do not call the containers.

  A container and its parents are a list, the container first: a call reaches no others. The
  creation stack of the container at hand is an argument of \<open>get_service\<close>; it is empty between
  calls, since \<open>_instantiate_service\<close> removes what it pushed whatever happens, and in the parents,
  which never call a child. The functions take a depth; the theorem \<open>get_service_terminates\<close> shows
  how much suffices. A map \<open>type \<Rightarrow> instance\<close> that Python keeps as a dictionary is an ordered
  dictionary.
\<close>

subsection \<open>Services\<close>

datatype service_lifetime = SINGLETON | SCOPED | TRANSIENT

datatype service_type = NamedType string | NamelessType string

datatype di_error =
    CircularDependency "service_type list"
  | NotRegistered service_type
  | UnresolvedParameter string
  | NoName service_type
  | ValueRaised string
  | OtherRaised string

fun is_value_error :: "di_error \<Rightarrow> bool" where
  "is_value_error (NotRegistered t) = True"
| "is_value_error (UnresolvedParameter p) = True"
| "is_value_error (ValueRaised m) = True"
| "is_value_error (CircularDependency ts) = False"
| "is_value_error (NoName t) = False"
| "is_value_error (OtherRaised m) = False"

text \<open>A parameter of a signature, without \<open>self\<close>: its annotation and whether it has a default value.\<close>

record di_param =
  dp_name :: string
  dp_type :: "service_type option"
  dp_default :: bool

type_synonym 'v di_args = "(string \<times> 'v) list"

record ('v, 'w) factory =
  fc_signature :: "di_error + di_param list"
  fc_call :: "'v di_args \<Rightarrow> 'w \<Rightarrow> (di_error + 'v) \<times> 'w"

record ('v, 'w) reflection =
  init_signature :: "service_type \<Rightarrow> di_error + di_param list"
  construct :: "service_type \<Rightarrow> 'v di_args \<Rightarrow> 'w \<Rightarrow> (di_error + 'v) \<times> 'w"
  disposer :: "'v \<Rightarrow> ('w, string) action option"

record ('v, 'w) service_descriptor =
  sd_type :: service_type
  sd_impl :: service_type
  sd_factory :: "('v, 'w) factory option"
  sd_instance :: "'v option"
  sd_lifetime :: service_lifetime
  sd_dependencies :: "service_type list"

record ('v, 'w) di_container =
  di_services :: "(service_type, ('v, 'w) service_descriptor) dict"
  di_singletons :: "(service_type, 'v) dict"
  di_scoped :: "(service_type, 'v) dict"
  di_scope_active :: bool

definition new_container :: "('v, 'w) di_container" where
  "new_container = \<lparr>di_services = [], di_singletons = [], di_scoped = [], di_scope_active = False\<rparr>"

subsection \<open>Registration\<close>

definition analyze_dependencies :: "('v, 'w) reflection \<Rightarrow> service_type \<Rightarrow> service_type list" where
  "analyze_dependencies R t =
     (case init_signature R t of Inl e \<Rightarrow> [] | Inr ps \<Rightarrow> List.map_filter dp_type ps)"

definition has_name :: "service_type \<Rightarrow> bool" where
  "has_name t = (case t of NamedType n \<Rightarrow> True | NamelessType n \<Rightarrow> False)"

text \<open>The message that is logged at the end reads \<open>service_type.__name__\<close>.\<close>

definition register_service ::
  "('v, 'w) reflection \<Rightarrow> service_type \<Rightarrow> service_type option \<Rightarrow> ('v, 'w) factory option \<Rightarrow> 'v option \<Rightarrow>
   service_lifetime \<Rightarrow> ('v, 'w) di_container \<Rightarrow> di_error option \<times> ('v, 'w) di_container" where
  "register_service R t impl fac ins lt c =
     (let i = (case impl of None \<Rightarrow> t | Some x \<Rightarrow> x);
          d = \<lparr>sd_type = t, sd_impl = i, sd_factory = fac, sd_instance = ins, sd_lifetime = lt,
               sd_dependencies = (case fac of None \<Rightarrow> analyze_dependencies R i | Some f \<Rightarrow> [])\<rparr>;
          c1 = c\<lparr>di_services := AList.update t d (di_services c)\<rparr>;
          c2 = (case ins of
                  Some v \<Rightarrow> if lt = SINGLETON then c1\<lparr>di_singletons := AList.update t v (di_singletons c1)\<rparr> else c1
                | None \<Rightarrow> c1)
      in (if has_name t then None else Some (NoName t), c2))"

definition register_singleton ::
  "('v, 'w) reflection \<Rightarrow> service_type \<Rightarrow> service_type option \<Rightarrow> ('v, 'w) factory option \<Rightarrow> 'v option \<Rightarrow>
   ('v, 'w) di_container \<Rightarrow> di_error option \<times> ('v, 'w) di_container" where
  "register_singleton R t impl fac ins c = register_service R t impl fac ins SINGLETON c"

definition register_scoped ::
  "('v, 'w) reflection \<Rightarrow> service_type \<Rightarrow> service_type option \<Rightarrow> ('v, 'w) factory option \<Rightarrow>
   ('v, 'w) di_container \<Rightarrow> di_error option \<times> ('v, 'w) di_container" where
  "register_scoped R t impl fac c = register_service R t impl fac None SCOPED c"

definition register_transient ::
  "('v, 'w) reflection \<Rightarrow> service_type \<Rightarrow> service_type option \<Rightarrow> ('v, 'w) factory option \<Rightarrow>
   ('v, 'w) di_container \<Rightarrow> di_error option \<times> ('v, 'w) di_container" where
  "register_transient R t impl fac c = register_service R t impl fac None TRANSIENT c"

subsection \<open>Resolution\<close>

type_synonym ('v, 'w, 'r) resolved =
  "((di_error + 'r) \<times> ('v, 'w) di_container list \<times> 'w) option"

text \<open>The messages of these two errors read \<open>__name__\<close>, of every type on the stack for the first.\<close>

definition circular_error :: "service_type list \<Rightarrow> service_type \<Rightarrow> di_error" where
  "circular_error st t =
     (case find (\<lambda>x. \<not> has_name x) (st @ [t]) of
        None \<Rightarrow> CircularDependency (st @ [t]) | Some x \<Rightarrow> NoName x)"

definition not_registered :: "service_type \<Rightarrow> di_error" where
  "not_registered t = (if has_name t then NotRegistered t else NoName t)"

definition unresolved_parameter :: "di_param \<Rightarrow> service_type \<Rightarrow> di_error" where
  "unresolved_parameter p t = (if has_name t then UnresolvedParameter (dp_name p) else NoName t)"

definition cached_service ::
  "('v, 'w) service_descriptor \<Rightarrow> service_type \<Rightarrow> ('v, 'w) di_container \<Rightarrow> 'v option" where
  "cached_service d t c =
     (case sd_lifetime d of
        SINGLETON \<Rightarrow> map_of (di_singletons c) t
      | SCOPED \<Rightarrow> if di_scope_active c then map_of (di_scoped c) t else None
      | TRANSIENT \<Rightarrow> None)"

definition cache_service ::
  "('v, 'w) service_descriptor \<Rightarrow> service_type \<Rightarrow> 'v \<Rightarrow> ('v, 'w) di_container \<Rightarrow> ('v, 'w) di_container" where
  "cache_service d t v c =
     (case sd_lifetime d of
        SINGLETON \<Rightarrow> c\<lparr>di_singletons := AList.update t v (di_singletons c)\<rparr>
      | SCOPED \<Rightarrow> if di_scope_active c then c\<lparr>di_scoped := AList.update t v (di_scoped c)\<rparr> else c
      | TRANSIENT \<Rightarrow> c)"

fun on_head :: "('c \<Rightarrow> 'c) \<Rightarrow> 'c list \<Rightarrow> 'c list" where
  "on_head f [] = []"
| "on_head f (c # cs) = f c # cs"

definition call_with ::
  "('v di_args \<Rightarrow> 'w \<Rightarrow> (di_error + 'v) \<times> 'w) \<Rightarrow> ('v, 'w, 'v di_args) resolved \<Rightarrow> ('v, 'w, 'v) resolved" where
  "call_with f r =
     (case r of
        None \<Rightarrow> None
      | Some (Inl e, cs, w) \<Rightarrow> Some (Inl e, cs, w)
      | Some (Inr args, cs, w) \<Rightarrow> (case f args w of (x, w') \<Rightarrow> Some (x, cs, w')))"

text \<open>
  \<open>get_service\<close>, with \<open>_create_service\<close>; \<open>_instantiate_service\<close>; and the loop over the parameters of
  \<open>_resolve_constructor_args\<close> and \<open>_resolve_function_args\<close>.
\<close>

fun get_service ::
  "('v, 'w) reflection \<Rightarrow> nat \<Rightarrow> service_type list \<Rightarrow> service_type \<Rightarrow> ('v, 'w) di_container list \<Rightarrow> 'w \<Rightarrow>
   ('v, 'w, 'v) resolved"
  and instantiate_service ::
  "('v, 'w) reflection \<Rightarrow> nat \<Rightarrow> service_type list \<Rightarrow> ('v, 'w) service_descriptor \<Rightarrow> ('v, 'w) di_container list \<Rightarrow>
   'w \<Rightarrow> ('v, 'w, 'v) resolved"
  and resolve_args ::
  "('v, 'w) reflection \<Rightarrow> nat \<Rightarrow> service_type list \<Rightarrow> di_param list \<Rightarrow> ('v, 'w) di_container list \<Rightarrow> 'w \<Rightarrow>
   ('v, 'w, 'v di_args) resolved" where
  "get_service R n st t [] w = Some (Inl (not_registered t), [], w)"
| "get_service R 0 st t (c # cs) w = None"
| "get_service R (Suc n) st t (c # cs) w =
     (if t \<in> set st then Some (Inl (circular_error st t), c # cs, w)
      else (case map_of (di_services c) t of
              Some d \<Rightarrow>
                (case cached_service d t c of
                   Some v \<Rightarrow> Some (Inr v, c # cs, w)
                 | None \<Rightarrow>
                     (case instantiate_service R n st d (c # cs) w of
                        None \<Rightarrow> None
                      | Some (Inl e, cs', w') \<Rightarrow> Some (Inl e, cs', w')
                      | Some (Inr v, cs', w') \<Rightarrow> Some (Inr v, on_head (cache_service d t v) cs', w')))
            | None \<Rightarrow>
                (case get_service R n [] t cs w of
                   None \<Rightarrow> None
                 | Some (x, cs', w') \<Rightarrow> Some (x, c # cs', w'))))"
| "instantiate_service R n st d cs w =
     (case sd_instance d of
        Some v \<Rightarrow> Some (Inr v, cs, w)
      | None \<Rightarrow>
          (case sd_factory d of
             Some f \<Rightarrow>
               (case fc_signature f of
                  Inl e \<Rightarrow> Some (Inl e, cs, w)
                | Inr ps \<Rightarrow> call_with (fc_call f) (resolve_args R n (st @ [sd_type d]) ps cs w))
           | None \<Rightarrow>
               (case init_signature R (sd_impl d) of
                  Inl e \<Rightarrow> Some (Inl e, cs, w)
                | Inr ps \<Rightarrow>
                    call_with (construct R (sd_impl d)) (resolve_args R n (st @ [sd_type d]) ps cs w))))"
| "resolve_args R n st [] cs w = Some (Inr [], cs, w)"
| "resolve_args R n st (p # ps) cs w =
     (case dp_type p of
        None \<Rightarrow>
          (if \<not> dp_default p then Some (Inl (UnresolvedParameter (dp_name p)), cs, w)
           else resolve_args R n st ps cs w)
      | Some t \<Rightarrow>
          (case get_service R n st t cs w of
             None \<Rightarrow> None
           | Some (Inl e, cs', w') \<Rightarrow>
               (if \<not> is_value_error e then Some (Inl e, cs', w')
                else if \<not> dp_default p then Some (Inl (unresolved_parameter p t), cs', w')
                else resolve_args R n st ps cs' w')
           | Some (Inr v, cs', w') \<Rightarrow>
               (case resolve_args R n st ps cs' w' of
                  None \<Rightarrow> None
                | Some (Inl e, cs'', w'') \<Rightarrow> Some (Inl e, cs'', w'')
                | Some (Inr args, cs'', w'') \<Rightarrow> Some (Inr ((dp_name p, v) # args), cs'', w''))))"

text \<open>Registered services of a container and its parents.\<close>

definition is_registered :: "service_type \<Rightarrow> ('v, 'w) di_container list \<Rightarrow> bool" where
  "is_registered t cs = list_ex (\<lambda>c. t \<in> set (dict_keys (di_services c))) cs"

definition get_registered_services :: "('v, 'w) di_container list \<Rightarrow> service_type list" where
  "get_registered_services cs = concat (map (\<lambda>c. dict_keys (di_services c)) cs)"

definition create_child_container :: "('v, 'w) di_container list \<Rightarrow> ('v, 'w) di_container list" where
  "create_child_container cs = new_container # cs"

subsection \<open>Scopes and disposal\<close>

definition enter_scope :: "('v, 'w) di_container \<Rightarrow> ('v, 'w) di_container" where
  "enter_scope c = c\<lparr>di_scope_active := True, di_scoped := []\<rparr>"

definition dispose_values :: "('v, 'w) reflection \<Rightarrow> (service_type, 'v) dict \<Rightarrow> 'w \<Rightarrow> 'w" where
  "dispose_values R d = run_all_quiet (List.map_filter (\<lambda>(t, v). disposer R v) d)"

definition exit_scope ::
  "('v, 'w) reflection \<Rightarrow> ('v, 'w) di_container \<times> 'w \<Rightarrow> ('v, 'w) di_container \<times> 'w" where
  "exit_scope R = (\<lambda>(c, w).
     (c\<lparr>di_scoped := [], di_scope_active := False\<rparr>, dispose_values R (di_scoped c) w))"

definition dispose_container ::
  "('v, 'w) reflection \<Rightarrow> ('v, 'w) di_container \<times> 'w \<Rightarrow> ('v, 'w) di_container \<times> 'w" where
  "dispose_container R = (\<lambda>(c, w).
     (c\<lparr>di_services := [], di_singletons := [], di_scoped := []\<rparr>,
      dispose_values R (di_scoped c) (dispose_values R (di_singletons c) w)))"

subsection \<open>Injection into functions\<close>

text \<open>
  The wrapper of \<open>inject\<close>: the arguments are resolved, those of the caller replace them by name,
  then the function is called. \<^const>\<open>None\<close> for the containers: there is no current one.
\<close>

definition inject_call ::
  "('v, 'w) reflection \<Rightarrow> nat \<Rightarrow> ('v, 'w) factory \<Rightarrow> 'v di_args \<Rightarrow> ('v, 'w) di_container list option \<Rightarrow> 'w \<Rightarrow>
   ('v, 'w, 'v) resolved" where
  "inject_call R n f kwargs cont w =
     (case cont of
        None \<Rightarrow> Some (Inl (OtherRaised ''RuntimeError: No DI container available''), [], w)
      | Some cs \<Rightarrow>
          (case fc_signature f of
             Inl e \<Rightarrow> Some (Inl e, cs, w)
           | Inr ps \<Rightarrow>
               call_with (\<lambda>args. fc_call f (fold (\<lambda>(k, v). AList.update k v) kwargs args))
                 (resolve_args R n [] ps cs w)))"

text \<open>A class of a module with the marks of the decorators \<open>singleton\<close>, \<open>scoped\<close>, \<open>transient\<close>.\<close>

record marked_class =
  mk_class :: service_type
  mk_marks :: "(service_lifetime \<times> service_type) option"

definition mark_class :: "service_lifetime \<Rightarrow> service_type option \<Rightarrow> marked_class \<Rightarrow> marked_class" where
  "mark_class lt t k = k\<lparr>mk_marks := Some (lt, case t of None \<Rightarrow> mk_class k | Some x \<Rightarrow> x)\<rparr>"

fun register_services_from_module ::
  "('v, 'w) reflection \<Rightarrow> marked_class list \<Rightarrow> ('v, 'w) di_container \<Rightarrow>
   (di_error + nat) \<times> ('v, 'w) di_container" where
  "register_services_from_module R [] c = (Inr 0, c)"
| "register_services_from_module R (k # ks) c =
     (case mk_marks k of
        None \<Rightarrow> register_services_from_module R ks c
      | Some (lt, t) \<Rightarrow>
          (case register_service R t (Some (mk_class k)) None None lt c of
             (Some e, c') \<Rightarrow> (Inl e, c')
           | (None, c') \<Rightarrow>
               (case register_services_from_module R ks c' of
                  (Inl e, c'') \<Rightarrow> (Inl e, c'') | (Inr m, c'') \<Rightarrow> (Inr (Suc m), c''))))"

subsection \<open>What a resolution leaves alone\<close>

abbreviation services_of :: "('v, 'w) di_container list \<Rightarrow> (service_type, ('v, 'w) service_descriptor) dict list" where
  "services_of cs \<equiv> map di_services cs"

lemma services_cache [simp]: "di_services (cache_service d t v c) = di_services c"
  by (simp add: cache_service_def split: service_lifetime.split)

lemma services_on_head [simp]:
  "services_of (on_head (cache_service d t v) cs) = services_of cs"
  by (cases cs) simp_all

lemma call_with_Some:
  "call_with f r = Some (x, cs, w) \<Longrightarrow> \<exists>y w'. r = Some (y, cs, w')"
  by (auto simp: call_with_def split: option.splits sum.splits prod.splits)

lemma call_with_None [simp]: "call_with f r = None \<longleftrightarrow> r = None"
  by (auto simp: call_with_def split: option.splits sum.splits prod.splits)

lemma resolution_keeps_services:
  "get_service R n st t cs w = Some (x, cs', w') \<Longrightarrow> services_of cs' = services_of cs"
  "instantiate_service R n st d cs w = Some (x, cs', w') \<Longrightarrow> services_of cs' = services_of cs"
  "resolve_args R n st ps cs w = Some (y, cs', w') \<Longrightarrow> services_of cs' = services_of cs"
proof (induction R n st t cs w and R n st d cs w and R n st ps cs w arbitrary: x cs' w' and x cs' w' and y cs' w'
    rule: get_service_instantiate_service_resolve_args.induct)
  case (3 R n st t c cs w)
  show ?case
  proof (cases "map_of (di_services c) t")
    case None
    then show ?thesis using 3 by (auto split: if_splits option.splits)
  next
    case (Some d)
    show ?thesis
      using Some 3(3) 3(2)[OF _ Some]
      by (auto simp del: instantiate_service.simps split: if_splits option.splits sum.splits)
  qed
next
  case (4 R n st d cs w)
  then show ?case by (auto split: option.splits sum.splits dest!: call_with_Some)
next
  case (6 R n st p ps cs w)
  show ?case
  proof (cases "dp_type p")
    case None
    then show ?thesis using 6(1) 6(5) by (auto split: if_splits)
  next
    case (Some t)
    then obtain x1 cs1 w1 where g: "get_service R n st t cs w = Some (x1, cs1, w1)"
      using 6(5) by (auto simp del: get_service.simps split: option.splits)
    from 6(2) [OF Some g] have s: "services_of cs1 = services_of cs" .
    show ?thesis
    proof (cases x1)
      case (Inl e)
      then show ?thesis using Some g s 6(3) [OF Some g] 6(5)
        by (auto simp del: get_service.simps split: if_splits)
    next
      case (Inr v)
      then show ?thesis using Some g s 6(4) [OF Some g] 6(5)
        by (auto simp del: get_service.simps split: option.splits sum.splits)
    qed
  qed
qed auto

subsection \<open>Resolution ends\<close>

text \<open>
  The depth that suffices: in each container of the chain, every type that is not yet on the
  creation stack may be under construction once. Every descriptor is that of its own key.
\<close>

fun di_depth :: "service_type list \<Rightarrow> (service_type, 'd) dict list \<Rightarrow> nat" where
  "di_depth st [] = 0"
| "di_depth st (d # ds) = card (fst ` set d - set st) + 1 + di_depth [] ds"

definition di_ok :: "(service_type, ('v, 'w) service_descriptor) dict list \<Rightarrow> bool" where
  "di_ok ds \<longleftrightarrow> (\<forall>d \<in> set ds. \<forall>t s. map_of d t = Some s \<longrightarrow> sd_type s = t)"

lemma di_ok_Cons [simp]:
  "di_ok (d # ds) \<longleftrightarrow> (\<forall>t s. map_of d t = Some s \<longrightarrow> sd_type s = t) \<and> di_ok ds"
  by (auto simp: di_ok_def)

lemma di_ok_Nil [simp]: "di_ok []"
  by (simp add: di_ok_def)

lemma di_ok_register:
  "di_ok [di_services c] \<Longrightarrow> di_ok [di_services (snd (register_service R t impl fac ins lt c))]"
  by (auto simp: register_service_def Let_def split: option.splits if_splits)

lemma di_ok_new [simp]: "di_ok [di_services new_container]"
  by (simp add: new_container_def)

lemma di_depth_push:
  assumes "t \<in> fst ` set d" and "t \<notin> set st"
  shows "di_depth (st @ [t]) (d # ds) = di_depth st (d # ds) - 1" and "0 < di_depth st (d # ds)"
proof -
  have "fst ` set d - set (st @ [t]) = (fst ` set d - set st) - {t}" by auto
  moreover have "t \<in> fst ` set d - set st" using assms by simp
  ultimately have "card (fst ` set d - set (st @ [t])) = card (fst ` set d - set st) - 1"
    by (simp only: card_Diff_singleton)
  moreover have "0 < card (fst ` set d - set st)"
    using assms by (subst card_gt_0_iff) auto
  ultimately show "di_depth (st @ [t]) (d # ds) = di_depth st (d # ds) - 1" by simp
  show "0 < di_depth st (d # ds)" by simp
qed

lemma resolution_ends:
  "di_ok (services_of cs) \<Longrightarrow> di_depth st (services_of cs) \<le> n \<Longrightarrow> get_service R n st t cs w \<noteq> None"
  "di_ok (services_of cs) \<Longrightarrow> di_depth (st @ [sd_type d]) (services_of cs) \<le> n \<Longrightarrow>
     instantiate_service R n st d cs w \<noteq> None"
  "di_ok (services_of cs) \<Longrightarrow> di_depth st (services_of cs) \<le> n \<Longrightarrow> resolve_args R n st ps cs w \<noteq> None"
proof (induction R n st t cs w and R n st d cs w and R n st ps cs w
    rule: get_service_instantiate_service_resolve_args.induct)
  case (3 R n st t c cs w)
  show ?case
  proof (cases "map_of (di_services c) t")
    case None
    have "get_service R n [] t cs w \<noteq> None" if "t \<notin> set st"
      using 3(1) [OF that None] 3(3,4) by simp
    with None show ?thesis by (cases "t \<in> set st") (auto split: option.splits)
  next
    case (Some d)
    then have t: "t \<in> fst ` set (di_services c)" by (rule map_of_Some_keys)
    have d: "sd_type d = t" using 3(3) Some by simp
    have "instantiate_service R n st d (c # cs) w \<noteq> None" if "t \<notin> set st" "cached_service d t c = None"
      using 3(2) [OF that(1) Some that(2) 3(3)] di_depth_push [OF t that(1), of "services_of cs"] 3(4) d
      by simp
    then show ?thesis
      using Some by (cases "t \<in> set st"; cases "cached_service d t c")
        (auto simp del: instantiate_service.simps split: option.splits sum.splits)
  qed
next
  case (4 R n st d cs w)
  then show ?case by (simp del: not_None_eq split: option.splits sum.splits)
next
  case (6 R n st p ps cs w)
  show ?case
  proof (cases "dp_type p")
    case None
    then show ?thesis using 6(1) 6(5,6) by auto
  next
    case (Some t)
    obtain x cs' w' where g: "get_service R n st t cs w = Some (x, cs', w')"
      using 6(2) [OF Some 6(5,6)] by (metis not_None_eq prod_cases3)
    from resolution_keeps_services(1) [OF g] have s: "services_of cs' = services_of cs" .
    show ?thesis
    proof (cases x)
      case (Inl e)
      then show ?thesis using Some g s 6(3) [OF Some g] 6(5,6)
        by (auto simp del: get_service.simps)
    next
      case (Inr v)
      then show ?thesis using Some g s 6(4) [OF Some g] 6(5,6)
        by (auto simp del: get_service.simps split: option.splits sum.splits)
    qed
  qed
qed auto

text \<open>A larger depth changes nothing.\<close>

lemma resolution_mono:
  "get_service R n st t cs w = Some r \<Longrightarrow> get_service R (n + k) st t cs w = Some r"
  "instantiate_service R n st d cs w = Some r \<Longrightarrow> instantiate_service R (n + k) st d cs w = Some r"
  "resolve_args R n st ps cs w = Some q \<Longrightarrow> resolve_args R (n + k) st ps cs w = Some q"
proof (induction R n st t cs w and R n st d cs w and R n st ps cs w arbitrary: r and r and q
    rule: get_service_instantiate_service_resolve_args.induct)
  case (3 R n st t c cs w)
  show ?case
  proof (cases "map_of (di_services c) t")
    case None
    then show ?thesis using 3(1) 3(3) by (auto split: if_splits option.splits)
  next
    case (Some d)
    have "t \<in> set st \<or> (\<exists>v. cached_service d t c = Some v) \<or>
      instantiate_service R (n + k) st d (c # cs) w = instantiate_service R n st d (c # cs) w"
    proof (cases "t \<in> set st \<or> (\<exists>v. cached_service d t c = Some v)")
      case False
      then obtain x where "instantiate_service R n st d (c # cs) w = Some x"
        using Some 3(3) by (auto simp del: instantiate_service.simps split: option.splits)
      with 3(2) [OF _ Some] False show ?thesis by auto
    qed blast
    then show ?thesis
      using Some 3(3)
      by (cases "cached_service d t c") (auto simp del: instantiate_service.simps split: if_splits)
  qed
next
  case (4 R n st d cs w)
  have "resolve_args R (n + k) (st @ [sd_type d]) ps cs w = resolve_args R n (st @ [sd_type d]) ps cs w"
    if "sd_instance d = None" "sd_factory d = None" "init_signature R (sd_impl d) = Inr ps" for ps
    using that 4(1) [OF that] 4(3)
    by (cases "resolve_args R n (st @ [sd_type d]) ps cs w") (auto simp: call_with_def)
  moreover have "resolve_args R (n + k) (st @ [sd_type d]) ps cs w = resolve_args R n (st @ [sd_type d]) ps cs w"
    if "sd_instance d = None" "sd_factory d = Some f" "fc_signature f = Inr ps" for ps f
    using that 4(2) [OF that] 4(3)
    by (cases "resolve_args R n (st @ [sd_type d]) ps cs w") (auto simp: call_with_def)
  ultimately show ?case using 4(3) by (auto split: option.splits sum.splits)
next
  case (6 R n st p ps cs w)
  show ?case
  proof (cases "dp_type p")
    case None
    then show ?thesis using 6(1) 6(5) by (auto split: if_splits)
  next
    case (Some t)
    then obtain x1 cs1 w1 where g: "get_service R n st t cs w = Some (x1, cs1, w1)"
      using 6(5) by (auto simp del: get_service.simps split: option.splits)
    from 6(2) [OF Some g] have s: "get_service R (n + k) st t cs w = Some (x1, cs1, w1)" .
    show ?thesis
    proof (cases x1)
      case (Inl e)
      then show ?thesis using Some g s 6(3) [OF Some g] 6(5)
        by (auto simp del: get_service.simps split: if_splits)
    next
      case (Inr v)
      then have "resolve_args R (n + k) st ps cs1 w1 = resolve_args R n st ps cs1 w1"
        using 6(4) [OF Some g] 6(5) Some g
        by (cases "resolve_args R n st ps cs1 w1") (auto simp del: get_service.simps)
      then show ?thesis using Inr Some g s 6(5) by (simp del: get_service.simps)
    qed
  qed
qed auto

text \<open>
  C9: Resolving a service ends, whatever the constructors and factories ask for: a depth of the
  number of registered types of the container and its parents, plus one for each container,
  suffices, and a larger one changes nothing. Cycles of constructor parameters raise.
\<close>

theorem get_service_terminates:
  assumes "di_ok (services_of cs)" and "di_depth [] (services_of cs) \<le> n"
  shows "\<exists>x cs' w'. get_service R n [] t cs w = Some (x, cs', w') \<and>
           (\<forall>k. get_service R (n + k) [] t cs w = Some (x, cs', w')) \<and> di_ok (services_of cs')"
proof -
  obtain x cs' w' where g: "get_service R n [] t cs w = Some (x, cs', w')"
    using resolution_ends(1) [OF assms] by (metis not_None_eq prod_cases3)
  with resolution_mono(1) resolution_keeps_services(1) assms(1) show ?thesis by metis
qed

text \<open>
  A singleton is shared: once \<open>get_service\<close> has returned an instance of a type that the
  container registers as a singleton, it returns that instance from then on, without any effect;
  registering the type as a singleton again, with another implementation or factory, makes no
  difference.
\<close>

theorem singleton_is_shared:
  assumes "get_service R n [] t (c # cs) w = Some (Inr v, c' # cs', w')"
    and "map_of (di_services c) t = Some d" and "sd_lifetime d = SINGLETON"
  shows "get_service R (Suc m) [] t (c' # cs') w2 = Some (Inr v, c' # cs', w2) \<and>
         get_service R (Suc m) [] t (snd (register_singleton R t impl fac None c') # cs') w2 =
           Some (Inr v, snd (register_singleton R t impl fac None c') # cs', w2)"
proof -
  from resolution_keeps_services(1) [OF assms(1)] have s: "di_services c' = di_services c" by simp
  obtain n' where n: "n = Suc n'" using assms(1) by (cases n) auto
  have "map_of (di_singletons c') t = Some v"
  proof (cases "map_of (di_singletons c) t")
    case None
    then obtain c1 where "c' = cache_service d t v c1"
      using assms n
      by (auto simp: cached_service_def simp del: instantiate_service.simps split: option.splits sum.splits)
        (metis list.sel(1) on_head.elims list.distinct(1))
    then show ?thesis using assms(3) by (simp add: cache_service_def)
  next
    case (Some v')
    then show ?thesis using assms n by (auto simp: cached_service_def)
  qed
  then show ?thesis
    using assms(2,3) s
    by (simp add: cached_service_def register_singleton_def register_service_def Let_def)
qed

text \<open>Two classes whose constructors need each other, and a world that counts the instances.\<close>

definition sample_reflection :: "(nat, nat) reflection" where
  "sample_reflection =
     \<lparr>init_signature = (\<lambda>t. Inr (if t = NamedType ''A'' then [\<lparr>dp_name = ''b'', dp_type = Some (NamedType ''B''), dp_default = False\<rparr>]
                               else if t = NamedType ''B'' then [\<lparr>dp_name = ''a'', dp_type = Some (NamedType ''A''), dp_default = False\<rparr>]
                               else [])),
      construct = (\<lambda>t args w. (Inr w, Suc w)), disposer = (\<lambda>v. None)\<rparr>"

definition sample_container :: "(nat, nat) di_container" where
  "sample_container =
     snd (register_singleton sample_reflection (NamedType ''C'') None None None
       (snd (register_singleton sample_reflection (NamedType ''B'') None None None
         (snd (register_singleton sample_reflection (NamedType ''A'') None None None new_container)))))"

lemma sample_services:
  "di_services sample_container =
     map (\<lambda>(n, ds). (NamedType n, \<lparr>sd_type = NamedType n, sd_impl = NamedType n, sd_factory = None, sd_instance = None,
                                 sd_lifetime = SINGLETON, sd_dependencies = ds\<rparr>))
       [(''A'', [NamedType ''B'']), (''B'', [NamedType ''A'']), (''C'', [])]"
  by (simp add: sample_container_def register_singleton_def register_service_def new_container_def Let_def
      analyze_dependencies_def sample_reflection_def List.map_filter_def)

theorem get_service_terminates_witness:
  "\<exists>x cs' w'. get_service sample_reflection 5 [] (NamedType ''A'') [sample_container] 0 = Some (x, cs', w') \<and>
     (\<forall>k. get_service sample_reflection (5 + k) [] (NamedType ''A'') [sample_container] 0 = Some (x, cs', w')) \<and>
     di_ok (services_of cs')"
  by (rule get_service_terminates) (simp_all add: sample_services)

theorem singleton_is_shared_witness:
  "get_service sample_reflection 1 [] (NamedType ''C'')
     [sample_container\<lparr>di_singletons := [(NamedType ''C'', 4)]\<rparr>] 9 =
   Some (Inr 4, [sample_container\<lparr>di_singletons := [(NamedType ''C'', 4)]\<rparr>], 9)"
proof -
  let ?c = "sample_container\<lparr>di_singletons := [(NamedType ''C'', 4)]\<rparr>"
  have e: "di_singletons sample_container = [] \<and> AList.update (NamedType ''C'') 4 (di_singletons sample_container) = [(NamedType ''C'', 4)]"
    by (simp add: sample_container_def register_singleton_def register_service_def new_container_def Let_def)
  have c: "map_of (di_services sample_container) (NamedType ''C'') =
      Some \<lparr>sd_type = NamedType ''C'', sd_impl = NamedType ''C'', sd_factory = None, sd_instance = None,
            sd_lifetime = SINGLETON, sd_dependencies = []\<rparr>"
    by (simp add: sample_services)
  have "get_service sample_reflection 2 [] (NamedType ''C'') [sample_container] 4 = Some (Inr 4, [?c], 5)"
    using e c by (simp add: eval_nat_numeral cached_service_def cache_service_def call_with_def sample_reflection_def)
  from singleton_is_shared [OF this c, of 0] show ?thesis by simp
qed

end
