(* ===== verification/Ext_Registry.thy ===== *)
theory Ext_Registry
  imports Prelude
begin

text \<open>
  The extension registry: \<open>revitpy/extensions/registry.py\<close>, with \<open>ExtensionMetadata\<close> of
  \<open>revitpy/extensions/extension.py\<close>.

  A time stamp is a moment or, once it has been read from a file, a text. The contents of the
  configuration fields are JSON values of any type. A file is the JSON value that it holds: the
  metadata with their time stamps as texts; \<open>fmt\<close> is \<open>datetime.isoformat\<close>. The dependency
  graph is an ordered dictionary. Python's iteration over the set of unresolved names may start
  anywhere: \<open>pick\<close> chooses the element.
\<close>

subsection \<open>Metadata\<close>

datatype stamp = Moment int | StampText string

record ('j, 't) ext_metadata =
  xm_id :: string
  xm_name :: string
  xm_version :: string
  xm_description :: string
  xm_author :: string
  xm_website :: string
  xm_license :: string
  xm_dependencies :: "string list"
  xm_revit_versions :: "string list"
  xm_python_version :: string
  xm_commands :: "string list"
  xm_services :: "string list"
  xm_tools :: "string list"
  xm_analyzers :: "string list"
  xm_config_schema :: "'j option"
  xm_default_config :: "(string, 'j) dict option"
  xm_load_time :: "'t option"
  xm_activation_time :: "'t option"

definition with_times :: "'t option \<Rightarrow> 't option \<Rightarrow> ('j, 's) ext_metadata \<Rightarrow> ('j, 't) ext_metadata" where
  "with_times l a m =
     \<lparr>xm_id = xm_id m, xm_name = xm_name m, xm_version = xm_version m, xm_description = xm_description m,
      xm_author = xm_author m, xm_website = xm_website m, xm_license = xm_license m,
      xm_dependencies = xm_dependencies m, xm_revit_versions = xm_revit_versions m,
      xm_python_version = xm_python_version m, xm_commands = xm_commands m, xm_services = xm_services m,
      xm_tools = xm_tools m, xm_analyzers = xm_analyzers m, xm_config_schema = xm_config_schema m,
      xm_default_config = xm_default_config m, xm_load_time = l, xm_activation_time = a\<rparr>"

definition new_metadata :: "string \<Rightarrow> string \<Rightarrow> string \<Rightarrow> string list \<Rightarrow> ('j, 't) ext_metadata" where
  "new_metadata eid n v deps =
     \<lparr>xm_id = eid, xm_name = n, xm_version = v, xm_description = [], xm_author = [], xm_website = [], xm_license = [],
      xm_dependencies = deps, xm_revit_versions = [], xm_python_version = ''>=3.11'', xm_commands = [], xm_services = [],
      xm_tools = [], xm_analyzers = [], xm_config_schema = None, xm_default_config = None, xm_load_time = None,
      xm_activation_time = None\<rparr>"

text \<open>The value of a time field in \<open>to_dict\<close>; \<open>Inl\<close> is the \<open>AttributeError\<close> of \<open>isoformat\<close> on a text.\<close>

fun stamp_text :: "(int \<Rightarrow> string) \<Rightarrow> stamp option \<Rightarrow> string + string option" where
  "stamp_text fmt None = Inr None"
| "stamp_text fmt (Some (Moment t)) = Inr (Some (fmt t))"
| "stamp_text fmt (Some (StampText s)) = (if s = [] then Inr None else Inl ''AttributeError: isoformat'')"

definition to_dict :: "(int \<Rightarrow> string) \<Rightarrow> ('j, stamp) ext_metadata \<Rightarrow> string + ('j, string) ext_metadata" where
  "to_dict fmt m =
     (case stamp_text fmt (xm_load_time m) of
        Inl e \<Rightarrow> Inl e
      | Inr l \<Rightarrow> (case stamp_text fmt (xm_activation_time m) of Inl e \<Rightarrow> Inl e | Inr a \<Rightarrow> Inr (with_times l a m)))"

definition from_dict :: "('j, string) ext_metadata \<Rightarrow> ('j, stamp) ext_metadata" where
  "from_dict m = with_times (map_option StampText (xm_load_time m)) (map_option StampText (xm_activation_time m)) m"

subsection \<open>The registry\<close>

record 'j ext_registry =
  xr_by_id :: "(string, ('j, stamp) ext_metadata) dict"
  xr_by_name :: "(string, ('j, stamp) ext_metadata) dict"

definition new_registry :: "'j ext_registry" where
  "new_registry = \<lparr>xr_by_id = [], xr_by_name = []\<rparr>"

definition register_extension :: "('j, stamp) ext_metadata \<Rightarrow> 'j ext_registry \<Rightarrow> 'j ext_registry" where
  "register_extension m r =
     r\<lparr>xr_by_id := AList.update (xm_id m) m (xr_by_id r), xr_by_name := AList.update (xm_name m) m (xr_by_name r)\<rparr>"

definition get_extension :: "string \<Rightarrow> 'j ext_registry \<Rightarrow> ('j, stamp) ext_metadata option" where
  "get_extension k r = (case map_of (xr_by_id r) k of Some m \<Rightarrow> Some m | None \<Rightarrow> map_of (xr_by_name r) k)"

definition unregister_extension :: "string \<Rightarrow> 'j ext_registry \<Rightarrow> bool \<times> 'j ext_registry" where
  "unregister_extension k r =
     (case get_extension k r of
        None \<Rightarrow> (False, r)
      | Some m \<Rightarrow> (True, r\<lparr>xr_by_id := AList.delete (xm_id m) (xr_by_id r),
                           xr_by_name := AList.delete (xm_name m) (xr_by_name r)\<rparr>))"

definition get_all_extensions :: "'j ext_registry \<Rightarrow> ('j, stamp) ext_metadata list" where
  "get_all_extensions r = map snd (xr_by_id r)"

definition get_extensions_by_author :: "string \<Rightarrow> 'j ext_registry \<Rightarrow> ('j, stamp) ext_metadata list" where
  "get_extensions_by_author a r = filter (\<lambda>m. xm_author m = a) (get_all_extensions r)"

definition has_extension :: "string \<Rightarrow> 'j ext_registry \<Rightarrow> bool" where
  "has_extension k r \<longleftrightarrow> get_extension k r \<noteq> None"

definition get_dependency_graph :: "'j ext_registry \<Rightarrow> (string, string list) dict" where
  "get_dependency_graph r = fold (\<lambda>m. AList.update (xm_name m) (xm_dependencies m)) (get_all_extensions r) []"

type_synonym load_state = "string list \<times> string list"

text \<open>
  The nested function \<open>visit\<close> and its loop over the dependencies. The state is the lists of resolved
  and unresolved names; \<open>vis\<close> is the set \<open>visiting\<close>, in the order of the additions. The error
  carries what the message shows: that set and the name.
\<close>

function visit ::
  "(string, string list) dict \<Rightarrow> string list \<Rightarrow> string \<Rightarrow> load_state \<Rightarrow> string list \<times> string + load_state"
  and visit_all ::
  "(string, string list) dict \<Rightarrow> string list \<Rightarrow> string list \<Rightarrow> load_state \<Rightarrow> string list \<times> string + load_state" where
  "visit g vis n st =
     (if n \<in> set vis then Inl (vis, n)
      else if n \<in> set (fst st) then Inr st
      else (case map_of g n of
              None \<Rightarrow> Inr st
            | Some deps \<Rightarrow>
                (case visit_all g (vis @ [n]) deps st of
                   Inl e \<Rightarrow> Inl e
                 | Inr (res, unres) \<Rightarrow> Inr (res @ [n], removeAll n unres))))"
| "visit_all g vis [] st = Inr st"
| "visit_all g vis (n # ns) st =
     (case visit g vis n st of Inl e \<Rightarrow> Inl e | Inr st' \<Rightarrow> visit_all g vis ns st')"
  by pat_completeness auto
termination
proof (relation "measures
    [\<lambda>x. case x of Inl (g, vis, n, st) \<Rightarrow> card (fst ` set g - set vis)
          | Inr (g, vis, ns, st) \<Rightarrow> card (fst ` set g - set vis),
     \<lambda>x. case x of Inl (g, vis, n, st) \<Rightarrow> 0 | Inr (g, vis, ns, st) \<Rightarrow> Suc (length ns)]", goal_cases)
  case (2 g vis n st deps)
  then have "fst ` set g - set (vis @ [n]) \<subset> fst ` set g - set vis"
    using map_of_Some_keys [of g n deps] by auto
  then have "card (fst ` set g - set (vis @ [n])) < card (fst ` set g - set vis)"
    by (intro psubset_card_mono) auto
  then show ?case by simp
qed auto

partial_function (option) load_loop ::
  "(string list \<Rightarrow> string) \<Rightarrow> (string, string list) dict \<Rightarrow> load_state \<Rightarrow> (string list \<times> string + string list) option" where
  "load_loop pick g st =
     (if snd st = [] then Some (Inr (fst st))
      else (case visit g [] (pick (snd st)) st of
              Inl e \<Rightarrow> Some (Inl e)
            | Inr st' \<Rightarrow> load_loop pick g st'))"

definition resolve_load_order ::
  "(string list \<Rightarrow> string) \<Rightarrow> 'j ext_registry \<Rightarrow> (string list \<times> string + string list) option" where
  "resolve_load_order pick r =
     (let g = get_dependency_graph r in load_loop pick g ([], dict_keys g))"

definition validate_dependencies :: "'j ext_registry \<Rightarrow> (string, string list) dict" where
  "validate_dependencies r =
     fold (\<lambda>m d. let missing = filter (\<lambda>k. \<not> has_extension k r) (xm_dependencies m)
                 in if missing = [] then d else AList.update (xm_name m) missing d)
       (get_all_extensions r) []"

definition get_dependents :: "string \<Rightarrow> 'j ext_registry \<Rightarrow> string list" where
  "get_dependents n r = map xm_name (filter (\<lambda>m. n \<in> set (xm_dependencies m)) (get_all_extensions r))"

definition registry_clear :: "'j ext_registry \<Rightarrow> 'j ext_registry" where
  "registry_clear r = r\<lparr>xr_by_id := [], xr_by_name := []\<rparr>"

fun all_dicts :: "(int \<Rightarrow> string) \<Rightarrow> ('j, stamp) ext_metadata list \<Rightarrow> string + ('j, string) ext_metadata list" where
  "all_dicts fmt [] = Inr []"
| "all_dicts fmt (m # ms) =
     (case to_dict fmt m of
        Inl e \<Rightarrow> Inl e
      | Inr d \<Rightarrow> (case all_dicts fmt ms of Inl e \<Rightarrow> Inl e | Inr ds \<Rightarrow> Inr (d # ds)))"

definition export_registry :: "(int \<Rightarrow> string) \<Rightarrow> 'j ext_registry \<Rightarrow> string + ('j, string) ext_metadata list" where
  "export_registry fmt r = all_dicts fmt (get_all_extensions r)"

definition import_registry :: "('j, string) ext_metadata list \<Rightarrow> 'j ext_registry \<Rightarrow> 'j ext_registry" where
  "import_registry ds r = fold (\<lambda>d. register_extension (from_dict d)) ds r"

record registry_statistics =
  rs_total :: nat
  rs_authors :: nat
  rs_with_dependencies :: nat
  rs_dependencies :: nat

definition registry_stats :: "'j ext_registry \<Rightarrow> registry_statistics" where
  "registry_stats r =
     (let ms = get_all_extensions r in
      \<lparr>rs_total = length ms, rs_authors = length (remdups (filter (\<lambda>a. a \<noteq> []) (map xm_author ms))),
       rs_with_dependencies = length (filter (\<lambda>m. xm_dependencies m \<noteq> []) ms),
       rs_dependencies = sum_list (map (\<lambda>m. length (xm_dependencies m)) ms)\<rparr>)"

subsection \<open>The load order\<close>

definition dep_edges :: "(string, string list) dict \<Rightarrow> (string \<times> string) set" where
  "dep_edges g = {(a, b). \<exists>ds. map_of g a = Some ds \<and> b \<in> set ds}"

lemma dep_edges_key: "(a, b) \<in> dep_edges g \<Longrightarrow> a \<in> fst ` set g"
  by (auto simp: dep_edges_def dest: map_of_Some_keys)

text \<open>Each name comes after those that it depends on and the registry knows.\<close>

definition deps_first :: "(string, string list) dict \<Rightarrow> string list \<Rightarrow> bool" where
  "deps_first g ns \<longleftrightarrow>
     (\<forall>xs n ys. ns = xs @ n # ys \<longrightarrow> (\<forall>d. (n, d) \<in> dep_edges g \<longrightarrow> d \<in> fst ` set g \<longrightarrow> d \<in> set xs))"

lemma deps_first_Nil [simp]: "deps_first g []"
  by (simp add: deps_first_def)

lemma deps_first_snoc:
  assumes "deps_first g ns" and "\<And>d. (n, d) \<in> dep_edges g \<Longrightarrow> d \<in> fst ` set g \<Longrightarrow> d \<in> set ns"
  shows "deps_first g (ns @ [n])"
  unfolding deps_first_def
proof (intro allI impI)
  fix xs m ys d
  assume *: "ns @ [n] = xs @ m # ys" "(m, d) \<in> dep_edges g" "d \<in> fst ` set g"
  show "d \<in> set xs"
  proof (cases ys rule: rev_cases)
    case Nil
    then show ?thesis using * assms(2) by auto
  next
    case (snoc ys' y)
    then have "ns = xs @ m # ys'" using *(1) by simp
    then show ?thesis using *(2,3) assms(1) by (auto simp: deps_first_def)
  qed
qed

lemma deps_first_acyclic:
  assumes "deps_first g ns" and "set ns = fst ` set g"
  shows "acyclic (dep_edges g)"
proof -
  let ?f = "\<lambda>a. length (takeWhile (\<lambda>x. x \<noteq> a) ns)"
  have edge: "?f b < ?f a" if "(a, b) \<in> dep_edges g" "b \<in> fst ` set g" for a b
  proof -
    have "a \<in> set ns" using dep_edges_key [OF that(1)] assms(2) by simp
    then obtain xs ys where s: "ns = xs @ a # ys" "a \<notin> set xs" by (meson split_list_first)
    then have "b \<in> set xs" using assms(1) that by (auto simp: deps_first_def)
    then obtain us vs where u: "xs = us @ b # vs" "b \<notin> set us" by (meson split_list_first)
    have "?f a = length xs" using s by (simp add: takeWhile_append)
    moreover have "?f b = length us" using s u by (simp add: takeWhile_append)
    ultimately show ?thesis using u by simp
  qed
  have "b \<in> fst ` set g \<Longrightarrow> ?f b < ?f a" if "(a, b) \<in> (dep_edges g)\<^sup>+" for a b
    using that
  proof (induction rule: trancl_induct)
    case (step y z)
    have "y \<in> fst ` set g" using step.hyps(2) by (rule dep_edges_key)
    with step.IH have "?f y < ?f a" .
    moreover have "?f z < ?f y" using \<open>(y, z) \<in> dep_edges g\<close> step.prems by (rule edge)
    ultimately show ?case by simp
  qed (rule edge)
  moreover have "a \<in> fst ` set g" if "(a, b) \<in> (dep_edges g)\<^sup>+" for a b
    using tranclD [OF that] dep_edges_key by blast
  ultimately show ?thesis unfolding acyclic_def by blast
qed

definition load_ok :: "(string, string list) dict \<Rightarrow> load_state \<Rightarrow> bool" where
  "load_ok g st \<longleftrightarrow> distinct (fst st) \<and> set (fst st) \<subseteq> fst ` set g \<and>
     set (snd st) = fst ` set g - set (fst st) \<and> deps_first g (fst st)"

text \<open>A visit that returns; the names being visited stay unresolved.\<close>

lemma visit_ok:
  "visit g vis n st = Inr st' \<Longrightarrow> load_ok g st \<Longrightarrow>
     load_ok g st' \<and> set (fst st) \<subseteq> set (fst st') \<and> (n \<in> fst ` set g \<longrightarrow> n \<in> set (fst st')) \<and>
     (\<forall>x \<in> set vis. x \<notin> set (fst st) \<longrightarrow> x \<notin> set (fst st'))"
  "visit_all g vis ns st = Inr st' \<Longrightarrow> load_ok g st \<Longrightarrow>
     load_ok g st' \<and> set (fst st) \<subseteq> set (fst st') \<and> (\<forall>n \<in> set ns. n \<in> fst ` set g \<longrightarrow> n \<in> set (fst st')) \<and>
     (\<forall>x \<in> set vis. x \<notin> set (fst st) \<longrightarrow> x \<notin> set (fst st'))"
proof (induction g vis n st and g vis ns st arbitrary: st' and st' rule: visit_visit_all.induct)
  case (1 g vis n st)
  consider (resolved) "n \<in> set (fst st)" "st' = st" | (unknown) "map_of g n = None" "st' = st"
    | (visited) deps where "n \<notin> set vis" "n \<notin> set (fst st)" "map_of g n = Some deps"
    using 1(2) by (auto split: if_splits option.splits)
  then show ?case
  proof cases
    case resolved
    then show ?thesis using 1(3) by simp
  next
    case unknown
    then show ?thesis using 1(3) map_of_None_keys [of g n] by simp
  next
    case visited
    obtain res unres where v: "visit_all g (vis @ [n]) deps st = Inr (res, unres)"
      and st': "st' = (res @ [n], removeAll n unres)"
      using 1(2) visited by (auto split: sum.splits)
    from 1(1) [OF visited v 1(3)] have ih: "load_ok g (res, unres)" "set (fst st) \<subseteq> set res"
        "\<forall>d \<in> set deps. d \<in> fst ` set g \<longrightarrow> d \<in> set res" "\<forall>x \<in> set (vis @ [n]). x \<notin> set (fst st) \<longrightarrow> x \<notin> set res"
      by simp_all
    have "deps_first g (res @ [n])"
      using ih(1,3) visited(3) by (intro deps_first_snoc) (auto simp: load_ok_def dep_edges_def)
    moreover have "n \<in> fst ` set g" using visited(3) by (rule map_of_Some_keys)
    ultimately show ?thesis using ih visited(1,2) by (auto simp: st' load_ok_def)
  qed
next
  case (3 g vis n ns st)
  from 3(3) obtain st1 where v: "visit g vis n st = Inr st1" "visit_all g vis ns st1 = Inr st'"
    by (auto split: sum.splits simp del: visit.simps)
  from 3(1) [OF v(1) 3(4)] have "load_ok g st1" "set (fst st) \<subseteq> set (fst st1)"
      "n \<in> fst ` set g \<longrightarrow> n \<in> set (fst st1)" "\<forall>x \<in> set vis. x \<notin> set (fst st) \<longrightarrow> x \<notin> set (fst st1)"
    by simp_all
  moreover from 3(2) [OF v \<open>load_ok g st1\<close>] have "load_ok g st'" "set (fst st1) \<subseteq> set (fst st')"
      "\<forall>m \<in> set ns. m \<in> fst ` set g \<longrightarrow> m \<in> set (fst st')"
      "\<forall>x \<in> set vis. x \<notin> set (fst st1) \<longrightarrow> x \<notin> set (fst st')"
    by simp_all
  ultimately show ?case by (metis set_ConsD subset_eq)
qed auto

text \<open>A visit that raises has found a cycle.\<close>

definition dep_path :: "(string, string list) dict \<Rightarrow> string list \<Rightarrow> bool" where
  "dep_path g ns \<longleftrightarrow> successively (\<lambda>a b. (a, b) \<in> dep_edges g) ns"

lemma dep_path_cycle:
  assumes "dep_path g (vis @ [n])" and "n \<in> set vis"
  shows "(n, n) \<in> (dep_edges g)\<^sup>+"
proof -
  have reach: "(hd (x # xs), y) \<in> (dep_edges g)\<^sup>+" if "dep_path g (x # xs @ [y])" for x xs y
    using that
  proof (induction xs arbitrary: x)
    case (Cons z zs)
    then have "(x, z) \<in> dep_edges g" "(z, y) \<in> (dep_edges g)\<^sup>+" by (auto simp: dep_path_def)
    then show ?case by (simp add: trancl_into_trancl2)
  qed (auto simp: dep_path_def)
  obtain us vs where "vis = us @ n # vs" using assms(2) by (meson split_list)
  then have "dep_path g (n # vs @ [n])"
    using assms(1) by (auto simp: dep_path_def successively_append_iff)
  from reach [OF this] show ?thesis by simp
qed

lemma visit_cycle:
  "visit g vis n st = Inl e \<Longrightarrow> dep_path g (vis @ [n]) \<Longrightarrow> \<not> acyclic (dep_edges g)"
  "visit_all g vis ns st = Inl e \<Longrightarrow> \<forall>n \<in> set ns. dep_path g (vis @ [n]) \<Longrightarrow> \<not> acyclic (dep_edges g)"
proof (induction g vis n st and g vis ns st arbitrary: e and e rule: visit_visit_all.induct)
  case (1 g vis n st)
  consider (found) "n \<in> set vis" | (visited) deps where "n \<notin> set vis" "n \<notin> set (fst st)" "map_of g n = Some deps"
      "visit_all g (vis @ [n]) deps st = Inl e"
    using 1(2) by (auto split: if_splits option.splits sum.splits)
  then show ?case
  proof cases
    case found
    with dep_path_cycle [OF 1(3)] show ?thesis by (auto simp: acyclic_def)
  next
    case visited
    have "dep_path g ((vis @ [n]) @ [d])" if "d \<in> set deps" for d
    proof -
      have "(n, d) \<in> dep_edges g" using that visited(3) by (auto simp: dep_edges_def)
      then show ?thesis using 1(3) by (simp add: dep_path_def successively_append_iff [of _ "vis @ [n]" "[d]", simplified])
    qed
    then show ?thesis using 1(1) [OF visited] by blast
  qed
next
  case (3 g vis n ns st)
  then show ?case by (auto split: sum.splits simp del: visit.simps)
qed auto

lemma load_loop_ends:
  assumes "\<And>us. us \<noteq> [] \<Longrightarrow> pick us \<in> set us" and "load_ok g st"
  shows "\<exists>r. load_loop pick g st = Some r \<and>
    (case r of Inl e \<Rightarrow> \<not> acyclic (dep_edges g)
     | Inr ns \<Rightarrow> distinct ns \<and> set ns = fst ` set g \<and> deps_first g ns)"
  using assms(2)
proof (induction "card (set (snd st))" arbitrary: st rule: less_induct)
  case less
  show ?case
  proof (cases "snd st = []")
    case True
    then show ?thesis using less.prems by (auto simp: load_loop.simps load_ok_def)
  next
    case False
    let ?n = "pick (snd st)"
    have n: "?n \<in> fst ` set g" "?n \<notin> set (fst st)"
      using assms(1) [OF False] less.prems by (auto simp: load_ok_def)
    show ?thesis
    proof (cases "visit g [] ?n st")
      case (Inl e)
      from visit_cycle(1) [OF this] have "\<not> acyclic (dep_edges g)" by (simp add: dep_path_def)
      then show ?thesis using False Inl by (simp add: load_loop.simps del: visit.simps)
    next
      case (Inr st')
      from visit_ok(1) [OF this less.prems] n have st': "load_ok g st'" "set (fst st) \<subseteq> set (fst st')" "?n \<in> set (fst st')"
        by simp_all
      have "set (snd st') \<subset> set (snd st)"
        using st' n less.prems by (auto simp: load_ok_def)
      then have "card (set (snd st')) < card (set (snd st))" by (intro psubset_card_mono) auto
      from less.hyps [OF this st'(1)] False Inr show ?thesis by (simp add: load_loop.simps [of pick g st] del: visit.simps)
    qed
  qed
qed

lemma dependency_graph_keys:
  "dict_ok (get_dependency_graph r) \<and>
   fst ` set (get_dependency_graph r) = xm_name ` set (get_all_extensions r)"
proof -
  have "dict_ok d \<Longrightarrow>
      dict_ok (fold (\<lambda>m. AList.update (xm_name m) (xm_dependencies m)) ms d) \<and>
      fst ` set (fold (\<lambda>m. AList.update (xm_name m) (xm_dependencies m)) ms d) = fst ` set d \<union> xm_name ` set ms"
    for ms :: "('a, stamp) ext_metadata list" and d
    by (induction ms arbitrary: d) auto
  from this [of "[]" "get_all_extensions r"] show ?thesis by (simp add: get_dependency_graph_def)
qed

text \<open>
  C5: \<open>resolve_load_order\<close> ends, whichever unresolved name the set iteration starts with. It raises
  exactly when the dependencies have a cycle; otherwise the order has the name of every registered
  extension once, after those of all registered extensions that it depends on.
\<close>

theorem load_order_correct:
  assumes "\<forall>us. us \<noteq> [] \<longrightarrow> pick us \<in> set us"
  shows "\<exists>x. resolve_load_order pick r = Some x \<and>
    (isl x \<longleftrightarrow> \<not> acyclic (dep_edges (get_dependency_graph r))) \<and>
    (\<forall>ns. x = Inr ns \<longrightarrow>
       distinct ns \<and> set ns = xm_name ` set (get_all_extensions r) \<and>
       (\<forall>xs n ys d. ns = xs @ n # ys \<longrightarrow> (n, d) \<in> dep_edges (get_dependency_graph r) \<longrightarrow>
          d \<in> xm_name ` set (get_all_extensions r) \<longrightarrow> d \<in> set xs))"
proof -
  let ?g = "get_dependency_graph r"
  have "load_ok ?g ([], dict_keys ?g)" by (simp add: load_ok_def)
  from load_loop_ends [of pick, OF _ this] assms obtain x where x: "resolve_load_order pick r = Some x"
      "case x of Inl e \<Rightarrow> \<not> acyclic (dep_edges ?g)
       | Inr ns \<Rightarrow> distinct ns \<and> set ns = fst ` set ?g \<and> deps_first ?g ns"
    by (auto simp: resolve_load_order_def Let_def)
  have "isl x \<longleftrightarrow> \<not> acyclic (dep_edges ?g)"
    using x(2) deps_first_acyclic [of ?g] by (auto split: sum.splits)
  then show ?thesis
    using x dependency_graph_keys [of r] by (auto simp: deps_first_def)
qed

theorem load_order_correct_witness:
  "let r = register_extension (new_metadata ''1'' ''walls'' ''1.0'' [''core'', ''numpy''])
             (register_extension (new_metadata ''2'' ''core'' ''1.0'' []) (new_registry :: unit ext_registry))
   in \<exists>x. resolve_load_order hd r = Some x \<and>
      (\<forall>ns. x = Inr ns \<longrightarrow> set ns = {''core'', ''walls''})"
proof -
  let ?r = "register_extension (new_metadata ''1'' ''walls'' ''1.0'' [''core'', ''numpy''])
             (register_extension (new_metadata ''2'' ''core'' ''1.0'' []) (new_registry :: unit ext_registry))"
  have "\<forall>us :: string list. us \<noteq> [] \<longrightarrow> hd us \<in> set us" by simp
  from load_order_correct [OF this, of ?r]
  obtain x where "resolve_load_order hd ?r = Some x"
    "\<forall>ns. x = Inr ns \<longrightarrow> set ns = xm_name ` set (get_all_extensions ?r)"
    by (elim exE conjE) (rule that, assumption, metis)
  moreover have "xm_name ` set (get_all_extensions ?r) = {''core'', ''walls''}"
    by (auto simp: get_all_extensions_def register_extension_def new_registry_def new_metadata_def)
  ultimately have "\<exists>x. resolve_load_order hd ?r = Some x \<and> (\<forall>ns. x = Inr ns \<longrightarrow> set ns = {''core'', ''walls''})"
    by metis
  then show ?thesis unfolding Let_def .
qed

subsection \<open>Export and import\<close>

lemma with_times_with_times [simp]: "with_times l a (with_times l' a' m) = with_times l a m"
  by (simp add: with_times_def)

lemma with_times_fields [simp]:
  "xm_id (with_times l a m) = xm_id m" "xm_name (with_times l a m) = xm_name m"
  "xm_load_time (with_times l a m) = l" "xm_activation_time (with_times l a m) = a"
  "xm_dependencies (with_times l a m) = xm_dependencies m"
  by (simp_all add: with_times_def)

definition text_stamp :: "(int \<Rightarrow> string) \<Rightarrow> stamp option \<Rightarrow> stamp option" where
  "text_stamp fmt t = (case t of Some (Moment i) \<Rightarrow> Some (StampText (fmt i)) | _ \<Rightarrow> None)"

definition reimported :: "(int \<Rightarrow> string) \<Rightarrow> ('j, stamp) ext_metadata \<Rightarrow> ('j, stamp) ext_metadata" where
  "reimported fmt m = with_times (text_stamp fmt (xm_load_time m)) (text_stamp fmt (xm_activation_time m)) m"

definition live_times :: "('j, stamp) ext_metadata \<Rightarrow> bool" where
  "live_times m \<longleftrightarrow> (\<forall>s. xm_load_time m \<noteq> Some (StampText s) \<and> xm_activation_time m \<noteq> Some (StampText s))"

lemma stamp_text_live:
  assumes "\<And>s. t \<noteq> Some (StampText s)"
  shows "\<exists>x. stamp_text fmt t = Inr x \<and> map_option StampText x = text_stamp fmt t"
  using assms by (cases "(fmt, t)" rule: stamp_text.cases) (auto simp: text_stamp_def)

lemma to_dict_live:
  assumes "live_times m"
  shows "\<exists>d. to_dict fmt m = Inr d \<and> from_dict d = reimported fmt m"
proof -
  obtain x y where "stamp_text fmt (xm_load_time m) = Inr x" "map_option StampText x = text_stamp fmt (xm_load_time m)"
    and "stamp_text fmt (xm_activation_time m) = Inr y"
      "map_option StampText y = text_stamp fmt (xm_activation_time m)"
    using stamp_text_live [of "xm_load_time m" fmt] stamp_text_live [of "xm_activation_time m" fmt] assms
    by (auto simp: live_times_def)
  then show ?thesis by (auto simp: to_dict_def from_dict_def reimported_def)
qed

lemma all_dicts_live:
  "\<forall>m \<in> set ms. live_times m \<Longrightarrow> \<exists>ds. all_dicts fmt ms = Inr ds \<and> map from_dict ds = map (reimported fmt) ms"
proof (induction ms)
  case (Cons m ms)
  moreover obtain d where "to_dict fmt m = Inr d" "from_dict d = reimported fmt m"
    using to_dict_live Cons.prems by fastforce
  ultimately show ?case by auto
qed simp

lemma reimported_fields [simp]:
  "xm_id (reimported fmt m) = xm_id m" "xm_name (reimported fmt m) = xm_name m"
  "xm_dependencies (reimported fmt m) = xm_dependencies m"
  by (simp_all add: reimported_def)

definition ext_registry_ok :: "'j ext_registry \<Rightarrow> bool" where
  "ext_registry_ok r \<longleftrightarrow> dict_ok (xr_by_id r) \<and> (\<forall>(k, m) \<in> set (xr_by_id r). xm_id m = k)"

lemma ext_registry_ok_operations [simp, intro]:
  "ext_registry_ok new_registry"
  "ext_registry_ok r \<Longrightarrow> ext_registry_ok (register_extension m r)"
  "ext_registry_ok r \<Longrightarrow> ext_registry_ok (snd (unregister_extension k r))"
  by (auto simp: ext_registry_ok_def new_registry_def register_extension_def unregister_extension_def
      dest!: set_update_subset_pairs set_delete_pairs split: option.splits)

lemma import_by_id:
  assumes "distinct (map xm_id ms)" and "map from_dict ds = ms" and "fst ` set (xr_by_id r) \<inter> xm_id ` set ms = {}"
  shows "xr_by_id (import_registry ds r) = xr_by_id r @ map (\<lambda>m. (xm_id m, m)) ms"
  using assms
proof (induction ms arbitrary: ds r)
  case (Cons m ms)
  then obtain d ds' where ds: "ds = d # ds'" "from_dict d = m" "map from_dict ds' = ms" by auto
  let ?r = "register_extension m r"
  have r: "xr_by_id ?r = xr_by_id r @ [(xm_id m, m)]"
    using Cons.prems(3) by (simp add: register_extension_def update_new)
  have "import_registry ds r = import_registry ds' ?r" by (simp add: import_registry_def ds)
  also have "xr_by_id \<dots> = xr_by_id ?r @ map (\<lambda>m. (xm_id m, m)) ms"
    using Cons.prems(1,3) by (intro Cons.IH ds(3)) (auto simp: r)
  finally show ?case by (simp add: r)
qed (simp add: import_registry_def)

text \<open>
  A registry of live extensions can be exported, and importing the file into an empty registry
  gives the same extensions in the same order, except that their time stamps have become texts;
  the load order is the same. The imported registry can be exported again exactly when no
  extension has a time stamp.
\<close>

theorem registry_roundtrip:
  assumes "ext_registry_ok r" and "\<forall>m \<in> set (get_all_extensions r). live_times m" and "\<And>i. fmt i \<noteq> []"
  shows "\<exists>ds. export_registry fmt r = Inr ds \<and>
    get_all_extensions (import_registry ds new_registry) = map (reimported fmt) (get_all_extensions r) \<and>
    resolve_load_order pick (import_registry ds new_registry) = resolve_load_order pick r \<and>
    (isl (export_registry fmt (import_registry ds new_registry)) \<longleftrightarrow>
       (\<exists>m \<in> set (get_all_extensions r). xm_load_time m \<noteq> None \<or> xm_activation_time m \<noteq> None))"
proof -
  let ?ms = "get_all_extensions r"
  obtain ds where ds: "all_dicts fmt ?ms = Inr ds" "map from_dict ds = map (reimported fmt) ?ms"
    using all_dicts_live [OF assms(2)] by blast
  have "map xm_id ?ms = dict_keys (xr_by_id r)"
    using assms(1) by (auto simp: ext_registry_ok_def get_all_extensions_def)
  then have "distinct (map xm_id (map (reimported fmt) ?ms))"
    using assms(1) by (simp add: ext_registry_ok_def comp_def)
  from import_by_id [OF this ds(2), of new_registry]
  have all: "get_all_extensions (import_registry ds new_registry) = map (reimported fmt) ?ms"
    by (simp add: get_all_extensions_def new_registry_def comp_def)
  then have graph: "get_dependency_graph (import_registry ds new_registry) = get_dependency_graph r"
    by (simp add: get_dependency_graph_def fold_map comp_def)
  have "isl (all_dicts fmt (map (reimported fmt) ms)) \<longleftrightarrow>
      (\<exists>m \<in> set ms. xm_load_time m \<noteq> None \<or> xm_activation_time m \<noteq> None)" if "\<forall>m \<in> set ms. live_times m" for ms
    using that
  proof (induction ms)
    case (Cons m ms)
    have "isl (to_dict fmt (reimported fmt m)) \<longleftrightarrow> xm_load_time m \<noteq> None \<or> xm_activation_time m \<noteq> None"
      using Cons.prems assms(3)
      by (cases "xm_load_time m"; cases "xm_activation_time m")
        (auto simp: to_dict_def reimported_def text_stamp_def live_times_def split: stamp.splits)
    with Cons show ?case by (auto split: sum.splits)
  qed simp
  then show ?thesis
    using ds(1) all graph assms(2) by (auto simp: export_registry_def resolve_load_order_def)
qed

theorem registry_roundtrip_witness:
  "let r = register_extension ((new_metadata ''1'' ''walls'' ''1.0'' [])\<lparr>xm_load_time := Some (Moment 5)\<rparr>)
             (new_registry :: unit ext_registry)
   in \<exists>ds. export_registry int_str r = Inr ds \<and> isl (export_registry int_str (import_registry ds new_registry))"
proof -
  let ?r = "register_extension ((new_metadata ''1'' ''walls'' ''1.0'' [])\<lparr>xm_load_time := Some (Moment 5)\<rparr>)
             (new_registry :: unit ext_registry)"
  have "\<forall>m \<in> set (get_all_extensions ?r). live_times m"
    by (simp add: get_all_extensions_def register_extension_def new_registry_def new_metadata_def live_times_def)
  moreover have "ext_registry_ok ?r" by simp
  moreover have "int_str i \<noteq> []" for i by (simp add: int_str_def)
  ultimately show ?thesis
    using registry_roundtrip [of ?r int_str hd]
    by (auto simp: get_all_extensions_def register_extension_def new_registry_def new_metadata_def)
qed

end
