(* ===== verification/Extension_Lifecycle.thy ===== *)
theory Extension_Lifecycle
  imports Event_Manager Ext_Container Ext_Registry
begin

text \<open>
  One extension, \<open>revitpy/extensions/extension.py\<close>, with the hooks and the history of
  \<open>revitpy/extensions/lifecycle.py\<close>.

  An extension class is what its author writes: the methods \<open>load\<close>, \<open>activate\<close>, \<open>deactivate\<close> and
  possibly \<open>dispose\<close>, the callbacks that its constructor registers, its attributes, and its reflection
  for the container. Methods, callbacks and the reading of attributes act on the event manager and
  the world and may raise; they do not change the extension's own fields. Coroutines run to their
  end without interleaving: none is cancelled. \<open>xc_now\<close> is the clock. The three objects that the extension registers in its
  container are the values \<open>xc_values\<close>. Commands, services, tools and analyzers are known by the
  name of their member.
\<close>

subsection \<open>Lifecycle hooks\<close>

datatype lifecycle_stage =
  DISCOVERY | REGISTRATION | STAGE_LOADING | INITIALIZATION | ACTIVATION | RUNTIME | DEACTIVATION | DISPOSAL

definition all_stages :: "lifecycle_stage list" where
  "all_stages = [DISCOVERY, REGISTRATION, STAGE_LOADING, INITIALIZATION, ACTIVATION, RUNTIME, DEACTIVATION, DISPOSAL]"

record 'j lifecycle_event =
  le_stage :: lifecycle_stage
  le_name :: string
  le_id :: string
  le_time :: int
  le_data :: "(string, 'j) dict"
  le_success :: bool
  le_error :: "string option"

record ('j, 'w) lifecycle_manager =
  lm_hooks :: "lifecycle_stage \<Rightarrow> (nat \<times> ('j lifecycle_event \<Rightarrow> ('w, string) action)) list"
  lm_events :: "'j lifecycle_event list"
  lm_max_events :: nat

definition new_lifecycle_manager :: "('j, 'w) lifecycle_manager" where
  "new_lifecycle_manager = \<lparr>lm_hooks = (\<lambda>_. []), lm_events = [], lm_max_events = 1000\<rparr>"

definition add_hook ::
  "lifecycle_stage \<Rightarrow> nat \<times> ('j lifecycle_event \<Rightarrow> ('w, string) action) \<Rightarrow> ('j, 'w) lifecycle_manager \<Rightarrow>
   ('j, 'w) lifecycle_manager" where
  "add_hook st h l = l\<lparr>lm_hooks := (lm_hooks l)(st := lm_hooks l st @ [h])\<rparr>"

fun remove_hook_from :: "nat \<Rightarrow> (nat \<times> 'h) list \<Rightarrow> (nat \<times> 'h) list" where
  "remove_hook_from i [] = []"
| "remove_hook_from i (h # hs) = (if fst h = i then hs else h # remove_hook_from i hs)"

definition remove_hook :: "lifecycle_stage \<Rightarrow> nat \<Rightarrow> ('j, 'w) lifecycle_manager \<Rightarrow> ('j, 'w) lifecycle_manager" where
  "remove_hook st i l = l\<lparr>lm_hooks := (lm_hooks l)(st := remove_hook_from i (lm_hooks l st))\<rparr>"

text \<open>The last \<open>n\<close> elements, \<open>xs[-n:]\<close>.\<close>

definition last_n :: "nat \<Rightarrow> 'a list \<Rightarrow> 'a list" where
  "last_n n xs = (if n = 0 then xs else drop (length xs - n) xs)"

definition trigger_stage ::
  "lifecycle_stage \<Rightarrow> string \<Rightarrow> string \<Rightarrow> (string, 'j) dict option \<Rightarrow> string option \<Rightarrow> int \<Rightarrow>
   ('j, 'w) lifecycle_manager \<times> 'w \<Rightarrow> ('j, 'w) lifecycle_manager \<times> 'w" where
  "trigger_stage st n eid dat err now = (\<lambda>(l, w).
     (let e = \<lparr>le_stage = st, le_name = n, le_id = eid, le_time = now,
               le_data = (case dat of None \<Rightarrow> [] | Some d \<Rightarrow> d), le_success = (err = None), le_error = err\<rparr>;
          es = lm_events l @ [e];
          es' = (if lm_max_events l < length es then last_n (lm_max_events l) es else es)
      in (l\<lparr>lm_events := es'\<rparr>, run_all_quiet (map (\<lambda>h. snd h e) (lm_hooks l st)) w)))"

definition get_events ::
  "string option \<Rightarrow> lifecycle_stage option \<Rightarrow> int option \<Rightarrow> ('j, 'w) lifecycle_manager \<Rightarrow> 'j lifecycle_event list" where
  "get_events n st lim l =
     (let es1 = (case n of None \<Rightarrow> lm_events l
                 | Some x \<Rightarrow> if x = [] then lm_events l else filter (\<lambda>e. le_name e = x) (lm_events l));
          es2 = (case st of None \<Rightarrow> es1 | Some s \<Rightarrow> filter (\<lambda>e. le_stage e = s) es1)
      in case lim of
           None \<Rightarrow> es2
         | Some k \<Rightarrow> if 0 \<le> k then last_n (nat k) es2 else drop (nat (- k)) es2)"

definition clear_events :: "('j, 'w) lifecycle_manager \<Rightarrow> ('j, 'w) lifecycle_manager" where
  "clear_events l = l\<lparr>lm_events := []\<rparr>"

record lifecycle_statistics =
  ls_total :: nat
  ls_stages :: "(lifecycle_stage, nat) dict"
  ls_successes :: "(lifecycle_stage, nat) dict"
  ls_failures :: "(lifecycle_stage, nat) dict"

definition lifecycle_stats :: "('j, 'w) lifecycle_manager \<Rightarrow> lifecycle_statistics" where
  "lifecycle_stats l =
     (let n = (\<lambda>st. length (filter (\<lambda>e. le_stage e = st) (lm_events l)));
          k = (\<lambda>st. length (filter (\<lambda>e. le_stage e = st \<and> le_success e) (lm_events l)))
      in \<lparr>ls_total = length (lm_events l), ls_stages = map (\<lambda>st. (st, n st)) all_stages,
          ls_successes = map (\<lambda>st. (st, k st)) all_stages, ls_failures = map (\<lambda>st. (st, n st - k st)) all_stages\<rparr>)"

subsection \<open>Extensions\<close>

datatype extension_status =
  UNLOADED | LOADING | LOADED | INITIALIZING | ACTIVE | DEACTIVATING | DEACTIVATED | ERROR | DISPOSED

text \<open>
  What an attribute of the instance is: for each kind of mark, none, a mark with the name in its
  information if it has one, or a mark whose information cannot be read (no \<open>_command_info\<close>, or one
  that is no dictionary); and the function that the event manager sees. \<open>mb_get\<close> is \<open>getattr\<close>: it
  runs the code of a property, so it acts on the state and may raise.
\<close>

datatype mark = No_Mark | Mark "string option" | Bad_Mark string

record ('v, 'w) member_object =
  mo_command :: mark
  mo_service :: mark
  mo_tool :: mark
  mo_analyzer :: mark
  mo_function :: "('v, 'w) py_function"

record ('v, 'w) ext_member =
  mb_name :: string
  mb_get :: "('v, 'w) em_state \<Rightarrow> (string + ('v, 'w) member_object) \<times> ('v, 'w) em_state"

type_synonym ('v, 'w) ext_action = "(('v, 'w) em_state, string) action"

record ('d, 'v, 'w) ext_class =
  xc_name :: string
  xc_reflection :: "('d, ('v, 'w) em_state) reflection"
  xc_values :: "'d \<times> 'd \<times> 'd"
  xc_load :: "('v, 'w) ext_action"
  xc_activate :: "('v, 'w) ext_action"
  xc_deactivate :: "('v, 'w) ext_action"
  xc_dispose :: "('v, 'w) ext_action option"
  xc_members :: "('v, 'w) ext_member list"
  xc_on_load :: "('v, 'w) ext_action list"
  xc_on_activation :: "('v, 'w) ext_action list"
  xc_on_deactivation :: "('v, 'w) ext_action list"
  xc_on_disposal :: "('v, 'w) ext_action list"
  xc_now :: "('v, 'w) em_state \<Rightarrow> int"

record ('d, 'v, 'w, 'j) extension =
  x_class :: "('d, 'v, 'w) ext_class"
  x_meta :: "('j, stamp) ext_metadata"
  x_container :: "('d, ('v, 'w) em_state) di_container"
  x_status :: extension_status
  x_error :: "string option"
  x_commands :: "(string, string) dict"
  x_services :: "(string, string) dict"
  x_tools :: "(string, string) dict"
  x_analyzers :: "(string, string) dict"
  x_handlers :: "nat list"
  x_on_load :: "('v, 'w) ext_action list"
  x_on_activation :: "('v, 'w) ext_action list"
  x_on_deactivation :: "('v, 'w) ext_action list"
  x_on_disposal :: "('v, 'w) ext_action list"

definition new_extension ::
  "('d, 'v, 'w) ext_class \<Rightarrow> ('j, stamp) ext_metadata \<Rightarrow> ('d, ('v, 'w) em_state) di_container \<Rightarrow>
   ('d, 'v, 'w, 'j) extension" where
  "new_extension K m c =
     \<lparr>x_class = K, x_meta = m, x_container = c, x_status = UNLOADED, x_error = None, x_commands = [],
      x_services = [], x_tools = [], x_analyzers = [], x_handlers = [], x_on_load = xc_on_load K,
      x_on_activation = xc_on_activation K, x_on_deactivation = xc_on_deactivation K,
      x_on_disposal = xc_on_disposal K\<rparr>"

definition is_loaded :: "('d, 'v, 'w, 'j) extension \<Rightarrow> bool" where
  "is_loaded x \<longleftrightarrow> x_status x \<notin> {UNLOADED, ERROR, DISPOSED}"

definition is_ext_active :: "('d, 'v, 'w, 'j) extension \<Rightarrow> bool" where
  "is_ext_active x \<longleftrightarrow> x_status x = ACTIVE"

definition has_error :: "('d, 'v, 'w, 'j) extension \<Rightarrow> bool" where
  "has_error x \<longleftrightarrow> x_status x = ERROR"

definition clear_components :: "('d, 'v, 'w, 'j) extension \<Rightarrow> ('d, 'v, 'w, 'j) extension" where
  "clear_components x = x\<lparr>x_commands := [], x_services := [], x_tools := [], x_analyzers := [], x_handlers := []\<rparr>"

definition fails_with :: "string \<Rightarrow> ('d, 'v, 'w, 'j) extension \<Rightarrow> ('d, 'v, 'w, 'j) extension" where
  "fails_with e x = x\<lparr>x_error := Some e, x_status := ERROR\<rparr>"

text \<open>
  The four registrations of \<open>_setup_dependency_injection\<close>; all the types have names.
\<close>

definition setup_dependency_injection :: "('d, 'v, 'w, 'j) extension \<Rightarrow> ('d, 'v, 'w, 'j) extension" where
  "setup_dependency_injection x =
     (let K = x_class x; reg = (\<lambda>n v c. snd (register_singleton (xc_reflection K) (NamedType n) None None (Some v) c))
      in case xc_values K of (self, conf, meta) \<Rightarrow>
        x\<lparr>x_container := reg ''ExtensionMetadata'' meta (reg ''Config'' conf (reg (xc_name K) self
            (reg ''Extension'' self (x_container x))))\<rparr>)"

text \<open>
  \<open>_load_configuration\<close>. \<open>Config\<close> has no method \<open>has\<close>: its \<open>__getattr__\<close> gives the value of the key
  \<open>has\<close>, or \<open>None\<close>, and calling that raises a \<open>TypeError\<close>. The same happens with \<open>load_from_file\<close>,
  where it is caught, so that a file changes nothing.
\<close>

definition load_configuration :: "('d, 'v, 'w, 'j) extension \<Rightarrow> string option" where
  "load_configuration x =
     (case xm_default_config (x_meta x) of
        None \<Rightarrow> None
      | Some d \<Rightarrow> if d = [] then None else Some ''TypeError: 'NoneType' object is not callable'')"

text \<open>The statements of the \<open>try\<close> block that may raise, one after the other.\<close>

definition load_steps ::
  "('d, 'v, 'w, 'j) extension \<Rightarrow> ('v, 'w) em_state \<Rightarrow> string option \<times> ('v, 'w) em_state" where
  "load_steps x s =
     (case load_configuration x of
        Some e \<Rightarrow> (Some e, s)
      | None \<Rightarrow> (case xc_load (x_class x) s of (s', e) \<Rightarrow> (e, s')))"

definition load_extension_object ::
  "('d, 'v, 'w, 'j) extension \<times> ('v, 'w) em_state \<Rightarrow> bool \<times> ('d, 'v, 'w, 'j) extension \<times> ('v, 'w) em_state" where
  "load_extension_object = (\<lambda>(x, s).
     (if is_loaded x then (True, x, s)
      else
        (let x1 = setup_dependency_injection (x\<lparr>x_status := LOADING, x_error := None\<rparr>) in
         case load_steps x1 s of
           (Some e, s1) \<Rightarrow> (False, fails_with e x1, s1)
         | (None, s1) \<Rightarrow>
             (let s2 = run_all_quiet (x_on_load x1) s1 in
              (True, x1\<lparr>x_status := LOADED, x_meta := (x_meta x1)\<lparr>xm_load_time := Some (Moment (xc_now (x_class x) s2))\<rparr>\<rparr>, s2)))))"

text \<open>
  \<open>_discover_components\<close>: for each attribute its marks, then the event handlers. What raises ends it
  and leaves what was found before.
\<close>

definition put_mark :: "string \<Rightarrow> mark \<Rightarrow> (string, string) dict \<Rightarrow> string + (string, string) dict" where
  "put_mark n k d =
     (case k of
        No_Mark \<Rightarrow> Inr d
      | Mark y \<Rightarrow> Inr (AList.update (case y of None \<Rightarrow> n | Some z \<Rightarrow> z) n d)
      | Bad_Mark e \<Rightarrow> Inl e)"

definition discover_one ::
  "string \<Rightarrow> ('v, 'w) member_object \<Rightarrow> ('d, 'v, 'w, 'j) extension \<Rightarrow>
   string option \<times> ('d, 'v, 'w, 'j) extension" where
  "discover_one n ob x =
     (case put_mark n (mo_command ob) (x_commands x) of
        Inl e \<Rightarrow> (Some e, x)
      | Inr cs \<Rightarrow>
          (case put_mark n (mo_service ob) (x_services x) of
             Inl e \<Rightarrow> (Some e, x\<lparr>x_commands := cs\<rparr>)
           | Inr ss \<Rightarrow>
               (case put_mark n (mo_tool ob) (x_tools x) of
                  Inl e \<Rightarrow> (Some e, x\<lparr>x_commands := cs, x_services := ss\<rparr>)
                | Inr ts \<Rightarrow>
                    (case put_mark n (mo_analyzer ob) (x_analyzers x) of
                       Inl e \<Rightarrow> (Some e, x\<lparr>x_commands := cs, x_services := ss, x_tools := ts\<rparr>)
                     | Inr as \<Rightarrow>
                         (None, x\<lparr>x_commands := cs, x_services := ss, x_tools := ts, x_analyzers := as\<rparr>)))))"

fun scan_members ::
  "('v, 'w) ext_member list \<Rightarrow> ('d, 'v, 'w, 'j) extension \<times> ('v, 'w) em_state \<Rightarrow>
   string option \<times> ('d, 'v, 'w, 'j) extension \<times> ('v, 'w) em_state" where
  "scan_members [] (x, s) = (None, x, s)"
| "scan_members (mb # mbs) (x, s) =
     (case mb_get mb s of
        (Inl e, s1) \<Rightarrow> (Some e, x, s1)
      | (Inr ob, s1) \<Rightarrow>
          (case discover_one (mb_name mb) ob x of
             (Some e, x1) \<Rightarrow> (Some e, x1, s1)
           | (None, x1) \<Rightarrow> scan_members mbs (x1, s1)))"

definition member_function :: "('v, 'w) ext_member \<Rightarrow> ('v, 'w) member_reader" where
  "member_function mb = (\<lambda>s. (case mb_get mb s of
     (Inl e, s1) \<Rightarrow> (Inl e, s1) | (Inr ob, s1) \<Rightarrow> (Inr (mo_function ob), s1)))"

definition discover_components ::
  "('d, 'v, 'w, 'j) extension \<times> ('v, 'w) em_state \<Rightarrow>
   string option \<times> ('d, 'v, 'w, 'j) extension \<times> ('v, 'w) em_state" where
  "discover_components = (\<lambda>(x, s).
     (let mbs = xc_members (x_class x) in
      case scan_members mbs (x, s) of
        (Some e, x1, s1) \<Rightarrow> (Some e, x1, s1)
      | (None, x1, s1) \<Rightarrow>
          (case register_class_handlers (map member_function mbs) s1 of
             (Inl e, s2) \<Rightarrow> (Some e, x1, s2)
           | (Inr hs, s2) \<Rightarrow> (None, x1\<lparr>x_handlers := x_handlers x1 @ hs\<rparr>, s2))))"

definition unregister_handlers :: "nat list \<Rightarrow> ('v, 'w) em_state \<Rightarrow> ('v, 'w) em_state" where
  "unregister_handlers hs = (\<lambda>(m, s). (fold (\<lambda>i. em_unregister i None) hs m, s))"

definition unregister_components ::
  "('d, 'v, 'w, 'j) extension \<times> ('v, 'w) em_state \<Rightarrow> ('d, 'v, 'w, 'j) extension \<times> ('v, 'w) em_state" where
  "unregister_components = (\<lambda>(x, s). (clear_components x, unregister_handlers (x_handlers x) s))"

definition activate_loaded ::
  "('d, 'v, 'w, 'j) extension \<times> ('v, 'w) em_state \<Rightarrow> bool \<times> ('d, 'v, 'w, 'j) extension \<times> ('v, 'w) em_state" where
  "activate_loaded = (\<lambda>(x, s).
     (if is_ext_active x then (True, x, s)
      else
        (let x1 = x\<lparr>x_status := INITIALIZING\<rparr> in
         case xc_activate (x_class x) s of
           (s1, Some e) \<Rightarrow> (False, fails_with e x1, s1)
         | (s1, None) \<Rightarrow>
             (case discover_components (x1, s1) of
                (Some e, x2, s2) \<Rightarrow> (False, fails_with e x2, s2)
              | (None, x2, s2) \<Rightarrow>
                  (let s3 = run_all_quiet (x_on_activation x2) s2 in
                   (True, x2\<lparr>x_status := ACTIVE,
                             x_meta := (x_meta x2)\<lparr>xm_activation_time := Some (Moment (xc_now (x_class x) s3))\<rparr>\<rparr>, s3))))))"

definition activate_extension_object ::
  "('d, 'v, 'w, 'j) extension \<times> ('v, 'w) em_state \<Rightarrow> bool \<times> ('d, 'v, 'w, 'j) extension \<times> ('v, 'w) em_state" where
  "activate_extension_object = (\<lambda>(x, s).
     (if \<not> is_loaded x then
        (case load_extension_object (x, s) of
           (ok, x1, s1) \<Rightarrow> if ok then activate_loaded (x1, s1) else (False, x1, s1))
      else activate_loaded (x, s)))"

definition deactivate_extension_object ::
  "('d, 'v, 'w, 'j) extension \<times> ('v, 'w) em_state \<Rightarrow> bool \<times> ('d, 'v, 'w, 'j) extension \<times> ('v, 'w) em_state" where
  "deactivate_extension_object = (\<lambda>(x, s).
     (if \<not> is_ext_active x then (True, x, s)
      else
        (let x1 = x\<lparr>x_status := DEACTIVATING\<rparr>; s1 = run_all_quiet (x_on_deactivation x1) s in
         case unregister_components (x1, s1) of
           (x2, s2) \<Rightarrow>
             (case xc_deactivate (x_class x) s2 of
                (s3, Some e) \<Rightarrow> (False, fails_with e x2, s3)
              | (s3, None) \<Rightarrow> (True, x2\<lparr>x_status := DEACTIVATED\<rparr>, s3)))))"

text \<open>\<open>dispose\<close>: the method of the class, or the default one.\<close>

definition dispose_method ::
  "('d, 'v, 'w, 'j) extension \<times> ('v, 'w) em_state \<Rightarrow>
   string option \<times> ('d, 'v, 'w, 'j) extension \<times> ('v, 'w) em_state" where
  "dispose_method = (\<lambda>(x, s).
     (case xc_dispose (x_class x) of
        Some f \<Rightarrow> (case f s of (s', e) \<Rightarrow> (e, x, s'))
      | None \<Rightarrow>
          (case dispose_container (xc_reflection (x_class x)) (x_container x, s) of
             (c, s') \<Rightarrow> (None, clear_components (x\<lparr>x_container := c\<rparr>), s'))))"

definition dispose_extension_object ::
  "('d, 'v, 'w, 'j) extension \<times> ('v, 'w) em_state \<Rightarrow> ('d, 'v, 'w, 'j) extension \<times> ('v, 'w) em_state" where
  "dispose_extension_object = (\<lambda>(x, s).
     (if x_status x = DISPOSED then (x, s)
      else
        (case (if is_ext_active x then snd (deactivate_extension_object (x, s)) else (x, s)) of
           (x1, s1) \<Rightarrow>
             (case dispose_method (x1, run_all_quiet (x_on_disposal x1) s1) of
                (Some e, x2, s2) \<Rightarrow> (fails_with e x2, s2)
              | (None, x2, s2) \<Rightarrow> (x2\<lparr>x_status := DISPOSED\<rparr>, s2)))))"

definition on_load :: "('v, 'w) ext_action \<Rightarrow> ('d, 'v, 'w, 'j) extension \<Rightarrow> ('d, 'v, 'w, 'j) extension" where
  "on_load f x = x\<lparr>x_on_load := x_on_load x @ [f]\<rparr>"

definition on_activation :: "('v, 'w) ext_action \<Rightarrow> ('d, 'v, 'w, 'j) extension \<Rightarrow> ('d, 'v, 'w, 'j) extension" where
  "on_activation f x = x\<lparr>x_on_activation := x_on_activation x @ [f]\<rparr>"

definition on_deactivation :: "('v, 'w) ext_action \<Rightarrow> ('d, 'v, 'w, 'j) extension \<Rightarrow> ('d, 'v, 'w, 'j) extension" where
  "on_deactivation f x = x\<lparr>x_on_deactivation := x_on_deactivation x @ [f]\<rparr>"

definition on_disposal :: "('v, 'w) ext_action \<Rightarrow> ('d, 'v, 'w, 'j) extension \<Rightarrow> ('d, 'v, 'w, 'j) extension" where
  "on_disposal f x = x\<lparr>x_on_disposal := x_on_disposal x @ [f]\<rparr>"

definition get_command :: "string \<Rightarrow> ('d, 'v, 'w, 'j) extension \<Rightarrow> string option" where
  "get_command n x = map_of (x_commands x) n"

definition get_ext_service :: "string \<Rightarrow> ('d, 'v, 'w, 'j) extension \<Rightarrow> string option" where
  "get_ext_service n x = map_of (x_services x) n"

definition get_tool :: "string \<Rightarrow> ('d, 'v, 'w, 'j) extension \<Rightarrow> string option" where
  "get_tool n x = map_of (x_tools x) n"

definition get_analyzer :: "string \<Rightarrow> ('d, 'v, 'w, 'j) extension \<Rightarrow> string option" where
  "get_analyzer n x = map_of (x_analyzers x) n"

subsection \<open>The life of an extension\<close>

datatype ('v, 'w) lifecycle_op =
    DoLoad | DoActivate | DoDeactivate | DoDispose
  | OnLoad "('v, 'w) ext_action" | OnActivation "('v, 'w) ext_action"
  | OnDeactivation "('v, 'w) ext_action" | OnDisposal "('v, 'w) ext_action"

fun lifecycle_exec ::
  "('v, 'w) lifecycle_op \<Rightarrow> ('d, 'v, 'w, 'j) extension \<times> ('v, 'w) em_state \<Rightarrow>
   ('d, 'v, 'w, 'j) extension \<times> ('v, 'w) em_state" where
  "lifecycle_exec DoLoad xs = snd (load_extension_object xs)"
| "lifecycle_exec DoActivate xs = snd (activate_extension_object xs)"
| "lifecycle_exec DoDeactivate xs = snd (deactivate_extension_object xs)"
| "lifecycle_exec DoDispose xs = dispose_extension_object xs"
| "lifecycle_exec (OnLoad f) (x, s) = (on_load f x, s)"
| "lifecycle_exec (OnActivation f) (x, s) = (on_activation f x, s)"
| "lifecycle_exec (OnDeactivation f) (x, s) = (on_deactivation f x, s)"
| "lifecycle_exec (OnDisposal f) (x, s) = (on_disposal f x, s)"

abbreviation no_components :: "('d, 'v, 'w, 'j) extension \<Rightarrow> bool" where
  "no_components x \<equiv> x_commands x = [] \<and> x_services x = [] \<and> x_tools x = [] \<and> x_analyzers x = [] \<and> x_handlers x = []"

text \<open>
  What holds between calls: the transient states are over, only an active extension has event
  handlers to unregister, and the times and errors are recorded.
\<close>

definition lifecycle_ok :: "('d, 'v, 'w, 'j) extension \<Rightarrow> bool" where
  "lifecycle_ok x \<longleftrightarrow>
     x_status x \<in> {UNLOADED, LOADED, ACTIVE, DEACTIVATED, ERROR, DISPOSED} \<and>
     (x_status x = ACTIVE \<or> x_handlers x = []) \<and>
     (x_status x = ERROR \<longrightarrow> x_error x \<noteq> None) \<and>
     (is_loaded x \<longrightarrow> xm_load_time (x_meta x) \<noteq> None) \<and>
     (is_ext_active x \<longrightarrow> xm_activation_time (x_meta x) \<noteq> None)"

text \<open>Only an active extension has components.\<close>

definition lifecycle_clean :: "('d, 'v, 'w, 'j) extension \<Rightarrow> bool" where
  "lifecycle_clean x \<longleftrightarrow> is_ext_active x \<or> no_components x"

named_theorems lifecycle_defs

lemmas [lifecycle_defs] =
  lifecycle_ok_def lifecycle_clean_def is_loaded_def is_ext_active_def has_error_def fails_with_def
  clear_components_def

lemma lifecycle_ok_new: "lifecycle_ok (new_extension K m c) \<and> lifecycle_clean (new_extension K m c)"
  by (simp add: lifecycle_defs new_extension_def)

lemma setup_fields [simp]:
  "x_status (setup_dependency_injection x) = x_status x" "x_error (setup_dependency_injection x) = x_error x"
  "x_commands (setup_dependency_injection x) = x_commands x" "x_services (setup_dependency_injection x) = x_services x"
  "x_tools (setup_dependency_injection x) = x_tools x" "x_analyzers (setup_dependency_injection x) = x_analyzers x"
  "x_handlers (setup_dependency_injection x) = x_handlers x" "x_meta (setup_dependency_injection x) = x_meta x"
  "x_class (setup_dependency_injection x) = x_class x" "x_on_load (setup_dependency_injection x) = x_on_load x"
  by (simp_all add: setup_dependency_injection_def Let_def split: prod.splits)

lemma discover_one_fields:
  "discover_one n ob x = (e, x') \<Longrightarrow>
     x_meta x' = x_meta x \<and> x_handlers x' = x_handlers x \<and> x_class x' = x_class x"
  by (auto simp: discover_one_def split: sum.splits)

lemma scan_fields:
  "scan_members mbs (x, s) = (e, x', s') \<Longrightarrow>
     x_meta x' = x_meta x \<and> x_handlers x' = x_handlers x \<and> x_class x' = x_class x"
proof (induction mbs arbitrary: x s)
  case (Cons mb mbs)
  then show ?case
    by (fastforce split: prod.splits sum.splits option.splits dest: discover_one_fields)
qed simp

lemma load_object_ok:
  assumes "lifecycle_ok x" and "load_extension_object (x, s) = (ok, x', s')"
  shows "lifecycle_ok x' \<and> (ok \<longleftrightarrow> is_loaded x') \<and> (is_ext_active x' \<longleftrightarrow> is_ext_active x) \<and>
    (lifecycle_clean x \<longrightarrow> lifecycle_clean x')"
proof (cases "is_loaded x")
  case True
  with assms show ?thesis by (simp add: load_extension_object_def)
next
  case False
  then have none: "x_handlers x = []" "\<not> is_ext_active x"
    using assms(1) by (auto simp: lifecycle_ok_def is_ext_active_def is_loaded_def)
  let ?x1 = "setup_dependency_injection (x\<lparr>x_status := LOADING, x_error := None\<rparr>)"
  obtain e s1 where l: "load_steps ?x1 s = (e, s1)" by (rule prod.exhaust)
  show ?thesis
  proof (cases e)
    case (Some m)
    with l False assms(2) have "x' = fails_with m ?x1" "\<not> ok"
      by (simp_all add: load_extension_object_def Let_def)
    with none show ?thesis by (simp add: lifecycle_defs)
  next
    case None
    with l False assms(2) have "\<exists>now. x' = ?x1\<lparr>x_status := LOADED, x_meta := (x_meta ?x1)\<lparr>xm_load_time := Some now\<rparr>\<rparr>" "ok"
      by (auto simp: load_extension_object_def Let_def)
    with none show ?thesis by (auto simp: lifecycle_defs)
  qed
qed

lemma activate_loaded_cases:
  assumes "\<not> is_ext_active x" and "activate_loaded (x, s) = (ok, x', s')"
  shows "(\<exists>m. \<not> ok \<and> x_status x' = ERROR \<and> x_error x' = Some m \<and> x_handlers x' = x_handlers x) \<or>
    (ok \<and> x_status x' = ACTIVE \<and> xm_load_time (x_meta x') = xm_load_time (x_meta x) \<and>
      xm_activation_time (x_meta x') \<noteq> None)"
  using assms
  by (auto simp: activate_loaded_def discover_components_def Let_def fails_with_def
      split: prod.splits option.splits sum.splits dest!: scan_fields)

lemma activate_loaded_ok:
  assumes "lifecycle_ok x" and "is_loaded x" and "activate_loaded (x, s) = (ok, x', s')"
  shows "lifecycle_ok x' \<and> (ok \<longleftrightarrow> is_ext_active x') \<and>
    (lifecycle_clean x \<longrightarrow> lifecycle_clean x' \<or> has_error x')"
proof (cases "is_ext_active x")
  case True
  with assms show ?thesis by (simp add: activate_loaded_def)
next
  case False
  from activate_loaded_cases [OF this assms(3)] False assms(1,2) show ?thesis
    by (auto simp: lifecycle_defs)
qed

lemma activate_object_ok:
  assumes "lifecycle_ok x" and "activate_extension_object (x, s) = (ok, x', s')"
  shows "lifecycle_ok x' \<and> (ok \<longleftrightarrow> is_ext_active x') \<and>
    (lifecycle_clean x \<longrightarrow> lifecycle_clean x' \<or> has_error x')"
proof (cases "is_loaded x")
  case True
  with assms(2) have "activate_loaded (x, s) = (ok, x', s')" by (simp add: activate_extension_object_def)
  from activate_loaded_ok [OF assms(1) True this] show ?thesis .
next
  case False
  obtain b x1 s1 where l: "load_extension_object (x, s) = (b, x1, s1)" by (metis prod_cases3)
  from load_object_ok [OF assms(1) l] have 1: "lifecycle_ok x1" "b \<longleftrightarrow> is_loaded x1" "is_ext_active x1 \<longleftrightarrow> is_ext_active x"
    "lifecycle_clean x \<longrightarrow> lifecycle_clean x1"
    by blast+
  show ?thesis
  proof (cases b)
    case True
    with activate_loaded_ok [OF 1(1)] assms(2) False l 1(2,4) show ?thesis
      by (simp add: activate_extension_object_def)
  next
    case False
    with \<open>\<not> is_loaded x\<close> assms(2) l 1 show ?thesis
      by (auto simp: activate_extension_object_def is_loaded_def is_ext_active_def)
  qed
qed

lemma deactivate_object_ok:
  "lifecycle_ok x \<Longrightarrow> deactivate_extension_object (x, s) = (ok, x', s') \<Longrightarrow>
     lifecycle_ok x' \<and> \<not> is_ext_active x' \<and> (lifecycle_clean x \<longrightarrow> no_components x')"
  by (auto simp: deactivate_extension_object_def unregister_components_def lifecycle_defs Let_def
      split: if_splits prod.splits option.splits)

lemma dispose_method_ok:
  assumes "lifecycle_ok y" "\<not> is_ext_active y"
    and "(case dispose_method (y, t) of (Some e, x2, s2) \<Rightarrow> (fails_with e x2, s2)
          | (None, x2, s2) \<Rightarrow> (x2\<lparr>x_status := DISPOSED\<rparr>, s2)) = (y', t')"
  shows "lifecycle_ok y' \<and> \<not> is_ext_active y' \<and> (no_components y \<longrightarrow> no_components y')"
proof (cases "xc_dispose (x_class y)")
  case None
  with assms(3) have "\<exists>c. y' = (clear_components (y\<lparr>x_container := c\<rparr>))\<lparr>x_status := DISPOSED\<rparr>"
    by (auto simp: dispose_method_def split: prod.splits)
  then show ?thesis by (auto simp: lifecycle_defs)
next
  case (Some f)
  obtain t1 e where "f t = (t1, e)" by fastforce
  with Some assms(3) have "y' = y\<lparr>x_status := DISPOSED\<rparr> \<or> (\<exists>m. y' = fails_with m y)"
    by (cases e) (auto simp: dispose_method_def)
  then show ?thesis using assms(1,2) by (elim disjE exE) (simp_all add: lifecycle_defs)
qed

lemma dispose_object_ok:
  assumes "lifecycle_ok x" and "dispose_extension_object (x, s) = (x', s')"
  shows "lifecycle_ok x' \<and> \<not> is_ext_active x' \<and> (lifecycle_clean x \<longrightarrow> no_components x')"
proof (cases "x_status x = DISPOSED")
  case True
  with assms show ?thesis by (auto simp: dispose_extension_object_def lifecycle_defs)
next
  case False
  obtain x1 s1 where 1: "(if is_ext_active x then snd (deactivate_extension_object (x, s)) else (x, s)) = (x1, s1)"
    by (rule prod.exhaust)
  have x1: "lifecycle_ok x1 \<and> \<not> is_ext_active x1 \<and> (lifecycle_clean x \<longrightarrow> no_components x1)"
  proof (cases "is_ext_active x")
    case True
    then obtain b where "deactivate_extension_object (x, s) = (b, x1, s1)" using 1 by (metis surjective_pairing)
    from deactivate_object_ok [OF assms(1) this] show ?thesis .
  next
    case False
    with 1 assms(1) show ?thesis by (auto simp: lifecycle_defs)
  qed
  with dispose_method_ok [of x1 "run_all_quiet (x_on_disposal x1) s1" x' s'] assms(2) False 1 show ?thesis
    by (simp add: dispose_extension_object_def)
qed

lemma on_callback_ok:
  "lifecycle_ok (on_load f x) = lifecycle_ok x" "lifecycle_ok (on_activation f x) = lifecycle_ok x"
  "lifecycle_ok (on_deactivation f x) = lifecycle_ok x" "lifecycle_ok (on_disposal f x) = lifecycle_ok x"
  "lifecycle_clean (on_load f x) = lifecycle_clean x" "lifecycle_clean (on_activation f x) = lifecycle_clean x"
  "lifecycle_clean (on_deactivation f x) = lifecycle_clean x" "lifecycle_clean (on_disposal f x) = lifecycle_clean x"
  by (simp_all add: lifecycle_defs on_load_def on_activation_def on_deactivation_def on_disposal_def)

lemma lifecycle_step:
  assumes "lifecycle_ok x" and "lifecycle_exec p (x, s) = (x', s')"
  shows "lifecycle_ok x' \<and>
    (lifecycle_clean x \<longrightarrow> lifecycle_clean x' \<or> (p = DoActivate \<and> has_error x'))"
proof (cases p)
  case DoLoad
  with assms(2) obtain b where "load_extension_object (x, s) = (b, x', s')"
    by (cases "load_extension_object (x, s)") auto
  from load_object_ok [OF assms(1) this] show ?thesis by blast
next
  case DoActivate
  with assms(2) obtain b where "activate_extension_object (x, s) = (b, x', s')"
    by (cases "activate_extension_object (x, s)") auto
  from activate_object_ok [OF assms(1) this] DoActivate show ?thesis by blast
next
  case DoDeactivate
  with assms(2) obtain b where "deactivate_extension_object (x, s) = (b, x', s')"
    by (cases "deactivate_extension_object (x, s)") auto
  from deactivate_object_ok [OF assms(1) this] show ?thesis unfolding lifecycle_clean_def by blast
next
  case DoDispose
  with assms(2) have "dispose_extension_object (x, s) = (x', s')" by simp
  from dispose_object_ok [OF assms(1) this] show ?thesis unfolding lifecycle_clean_def by blast
qed (use assms in \<open>auto simp: on_callback_ok\<close>)

text \<open>
  The run so far contains an activation that ended in the state \<^const>\<open>ERROR\<close> with components in place.
\<close>

definition discovery_failed ::
  "('v, 'w) lifecycle_op list \<Rightarrow> ('d, 'v, 'w, 'j) extension \<times> ('v, 'w) em_state \<Rightarrow> bool" where
  "discovery_failed ps xs \<longleftrightarrow>
     (\<exists>ps1 ps2. ps = ps1 @ DoActivate # ps2 \<and>
        (let y = fst (fold lifecycle_exec (ps1 @ [DoActivate]) xs) in has_error y \<and> \<not> no_components y))"

lemma discovery_failed_append: "discovery_failed ps xs \<Longrightarrow> discovery_failed (ps @ qs) xs"
  unfolding discovery_failed_def by (metis append.assoc append_Cons)

lemma lifecycle_run:
  assumes "lifecycle_ok (fst xs)" and "lifecycle_clean (fst xs)"
  shows "lifecycle_ok (fst (fold lifecycle_exec ps xs)) \<and>
    (lifecycle_clean (fst (fold lifecycle_exec ps xs)) \<or> discovery_failed ps xs)"
proof (induction ps rule: rev_induct)
  case (snoc p ps)
  obtain y t y' t' where y: "fold lifecycle_exec ps xs = (y, t)" "lifecycle_exec p (y, t) = (y', t')"
    by (metis surj_pair)
  with snoc.IH have ok: "lifecycle_ok y" "lifecycle_clean y \<or> discovery_failed ps xs" by auto
  from lifecycle_step [OF ok(1) y(2)] have step: "lifecycle_ok y'"
    "lifecycle_clean y \<longrightarrow> lifecycle_clean y' \<or> (p = DoActivate \<and> has_error y')" by auto
  have "lifecycle_clean y' \<or> discovery_failed (ps @ [p]) xs"
  proof (cases "lifecycle_clean y \<and> \<not> lifecycle_clean y'")
    case True
    with step have "p = DoActivate" "has_error y'" by auto
    with True y show ?thesis by (force simp: discovery_failed_def lifecycle_clean_def)
  next
    case False
    with ok(2) show ?thesis using discovery_failed_append by blast
  qed
  with step(1) y show ?case by simp
qed (use assms in simp)


text \<open>A class without members whose methods do nothing, for the examples.\<close>

definition sample_class :: "(nat, nat, nat) ext_class" where
  "sample_class =
     \<lparr>xc_name = ''Walls'',
      xc_reflection = \<lparr>init_signature = (\<lambda>t. Inr []), construct = (\<lambda>t args s. (Inr 0, s)), disposer = (\<lambda>v. None)\<rparr>,
      xc_values = (0, 1, 2), xc_load = (\<lambda>s. (s, None)), xc_activate = (\<lambda>s. (s, None)),
      xc_deactivate = (\<lambda>s. (s, Some ''RuntimeError'')), xc_dispose = None, xc_members = [], xc_on_load = [],
      xc_on_activation = [], xc_on_deactivation = [], xc_on_disposal = [], xc_now = (\<lambda>s. 7)\<rparr>"

abbreviation sample_em :: "(nat, nat) em_state" where
  "sample_em \<equiv> (new_event_manager, sample_world (\<lambda>ev w. (Inr ReturnsOther, ev, w)) 10)"


text \<open>
  What a failed discovery leaves: the extension is in the state \<^const>\<open>ERROR\<close> with the command it had
  found before the property that raised, \<open>deactivate_extension\<close> does nothing about it, and after
  \<open>load_extension\<close> it is \<^const>\<open>LOADED\<close>, still with the command.
\<close>

definition sample_members :: "(nat, nat) ext_member list" where
  "sample_members =
     (let plain = \<lparr>mo_command = Mark None, mo_service = No_Mark, mo_tool = No_Mark, mo_analyzer = No_Mark,
                   mo_function = new_function 1 ''draw'' False (\<lambda>ev w. (Inr ReturnsOther, ev, w))\<rparr>
      in [\<lparr>mb_name = ''draw'', mb_get = (\<lambda>s. (Inr plain, s))\<rparr>,
          \<lparr>mb_name = ''view'', mb_get = (\<lambda>s. (Inl ''RuntimeError'', s))\<rparr>])"

lemma failed_discovery_keeps_components:
  "let x0 = new_extension (sample_class\<lparr>xc_members := sample_members\<rparr>) (new_metadata ''1'' ''walls'' ''1.0'' [])
              new_container :: (nat, nat, nat, unit) extension;
       x1 = fst (fold lifecycle_exec [DoActivate, DoDeactivate] (x0, sample_em));
       x2 = fst (fold lifecycle_exec [DoActivate, DoDeactivate, DoLoad] (x0, sample_em))
   in x_status x1 = ERROR \<and> get_command ''draw'' x1 = Some ''draw'' \<and>
      x_status x2 = LOADED \<and> get_command ''draw'' x2 = Some ''draw''"
  by (simp add: activate_extension_object_def load_extension_object_def load_steps_def load_configuration_def
      activate_loaded_def deactivate_extension_object_def discover_components_def sample_members_def
      discover_one_def put_mark_def get_command_def new_extension_def sample_class_def new_metadata_def
      lifecycle_defs Let_def)

text \<open>
  An extension with a default configuration never loads: \<open>load_extension\<close> fails with a
  \<open>TypeError\<close> before the author's \<open>load\<close> is called, so that nothing but the extension changes;
  and so does \<open>activate_extension\<close>.
\<close>

theorem default_config_never_loads:
  assumes "xm_default_config (x_meta x) = Some (p # ps)" and "\<not> is_loaded x"
  shows "\<exists>x'. load_extension_object (x, s) = (False, x', s) \<and> activate_extension_object (x, s) = (False, x', s) \<and>
           x_status x' = ERROR \<and> x_error x' = Some ''TypeError: 'NoneType' object is not callable''"
  using assms
  by (simp add: load_extension_object_def activate_extension_object_def load_steps_def load_configuration_def
      fails_with_def Let_def)

theorem default_config_never_loads_witness:
  "let x = new_extension sample_class ((new_metadata ''1'' ''walls'' ''1.0'' [])\<lparr>xm_default_config := Some [(''unit'', 3)]\<rparr>)
             new_container :: (nat, nat, nat, nat) extension
   in fst (activate_extension_object (x, sample_em)) = False"
proof -
  let ?x = "new_extension sample_class ((new_metadata ''1'' ''walls'' ''1.0'' [])\<lparr>xm_default_config := Some [(''unit'', 3)]\<rparr>)
             new_container :: (nat, nat, nat, nat) extension"
  have "xm_default_config (x_meta ?x) = Some [(''unit'', 3)]" "\<not> is_loaded ?x"
    by (simp_all add: new_extension_def is_loaded_def)
  from default_config_never_loads [OF this, of sample_em] show ?thesis by (auto simp: Let_def)
qed

subsection \<open>The event handlers of an extension\<close>

abbreviation handler_entries :: "('v, 'w) py_function list \<Rightarrow> (nat \<times> event_type list) list" where
  "handler_entries fs \<equiv> List.map_filter function_handler fs"

lemma register_read_method:
  "register_class_handlers (read_method f # gs) ms =
     (case function_handler f of
        None \<Rightarrow> register_class_handlers gs ms
      | Some (i, tys) \<Rightarrow>
          (case register_class_handlers gs (em_register i (Some tys) ms) of
             (Inl e, ms2) \<Rightarrow> (Inl e, ms2)
           | (Inr is, ms2) \<Rightarrow> (Inr (i # is), ms2)))"
  by (simp add: read_method_def)

lemma register_class_handlers_fold:
  "register_class_handlers (map read_method fs) (m, s) = (r, m', s') \<Longrightarrow>
     r = Inr (map fst (handler_entries fs)) \<and> s' = s \<and>
     em_dispatcher m' =
       fold (apply_registration s) (map (\<lambda>(i, tys). Register i (Some tys)) (handler_entries fs)) (em_dispatcher m)"
proof (induction fs arbitrary: m r m' s')
  case (Cons f fs)
  show ?case
  proof (cases "function_handler f")
    case None
    with Cons show ?thesis
      by (simp add: List.map_filter_def register_read_method del: register_class_handlers.simps(2))
  next
    case (Some p)
    obtain i tys where p: "p = (i, tys)" by (rule prod.exhaust)
    obtain r1 m1 s1 where 1: "register_class_handlers (map read_method fs)
        (m\<lparr>em_dispatcher := register_handler s i (Some tys) (em_dispatcher m)\<rparr>, s) = (r1, m1, s1)"
      by (metis prod_cases3)
    from Cons.IH [OF 1] 1 Cons.prems Some p show ?thesis
      by (clarsimp simp: List.map_filter_def register_read_method em_register_def apply_registration_def
          simp del: register_class_handlers.simps(2))
  qed
qed (simp add: List.map_filter_def)

lemma unregister_handlers_fold:
  "em_dispatcher (fst (unregister_handlers is (m, s))) =
     fold (apply_registration s) (map (\<lambda>i. Unregister i None) is) (em_dispatcher m)"
  by (induction "is" arbitrary: m) (simp_all add: unregister_handlers_def em_unregister_def apply_registration_def)

lemma fold_add_type:
  "distinct ts \<Longrightarrow> fold (\<lambda>t T. T(t := T t @ [i])) ts T = (\<lambda>t. if t \<in> set ts then T t @ [i] else T t)"
  by (induction ts arbitrary: T) (auto simp: fun_eq_iff)

lemma registry_entries:
  "\<forall>(i, tys) \<in> set rs. distinct tys \<Longrightarrow>
   fold registry_step (map (\<lambda>(i, tys). Register i (Some tys)) rs) (T, G) =
     (\<lambda>t. T t @ map fst (filter (\<lambda>(i, tys). t \<in> set tys) rs), G)"
proof (induction rs arbitrary: T)
  case (Cons r rs)
  then show ?case by (cases r) (auto simp: registry_step_def fold_add_type fun_eq_iff)
qed simp

lemma registry_removals:
  "fold registry_step (map (\<lambda>i. Unregister i None) is) (T, G) = (\<lambda>t. fold remove1 is (T t), fold remove1 is G)"
  by (induction "is" arbitrary: T G) (simp_all add: registry_step_def)

lemma fold_remove1_appended:
  "distinct L \<Longrightarrow> set L \<subseteq> set is \<Longrightarrow> set X \<inter> set is = {} \<Longrightarrow> fold remove1 is (X @ L) = X"
proof (induction "is" arbitrary: L)
  case (Cons i "is")
  have "fold remove1 (i # is) (X @ L) = fold remove1 is (X @ remove1 i L)"
    using Cons.prems(3) by (simp add: remove1_append)
  also have "\<dots> = X"
    using Cons.prems by (intro Cons.IH) auto
  finally show ?case .
qed simp

text \<open>
  C11: The event handlers of an extension go when they should: whatever is registered with the
  event manager, registering the decorated methods of an instance and then unregistering the
  handlers that this returned leaves, for every event, the handlers of before in their order. The
  conditions: the attributes of the instance are plain (reading them runs no code), their handler
  objects are distinct and none of them was registered before, and no method names an event type
  twice.
\<close>

theorem class_handlers_roundtrip:
  assumes "em_dispatcher m = fold (apply_registration s) ps (new_dispatcher mx b)"
    and "register_class_handlers (map read_method fs) (m, s) = (Inr is, m', s')"
    and "distinct is" and "\<forall>f \<in> set fs. \<forall>tys. fn_types f = Some tys \<longrightarrow> distinct tys"
    and "set is \<inter> (set (snd (registry ps)) \<union> (\<Union>t. set (fst (registry ps) t))) = {}"
  shows "get_handlers_for_event s ty (em_dispatcher (fst (unregister_handlers is (m', s')))) =
         get_handlers_for_event s ty (em_dispatcher m)"
proof -
  let ?rs = "handler_entries fs"
  let ?ps' = "ps @ map (\<lambda>(i, tys). Register i (Some tys)) ?rs @ map (\<lambda>i. Unregister i None) is"
  from register_class_handlers_fold [OF assms(2)] have f: "is = map fst ?rs" "s' = s"
    "em_dispatcher m' = fold (apply_registration s) (map (\<lambda>(i, tys). Register i (Some tys)) ?rs) (em_dispatcher m)"
    by blast+
  have d: "\<forall>(i, tys) \<in> set ?rs. distinct tys"
    using assms(4) by (auto simp: List.map_filter_def function_handler_def split: if_splits option.splits)
  obtain T G where r: "registry ps = (T, G)" by (rule prod.exhaust)
  have "fst (registry ?ps') ty = T ty" "snd (registry ?ps') = G"
  proof -
    have "distinct (map fst (filter (\<lambda>(i, tys). ty \<in> set tys) ?rs))"
      using assms(3) f(1) by (simp add: distinct_map_filter)
    moreover have "set (map fst (filter (\<lambda>(i, tys). ty \<in> set tys) ?rs)) \<subseteq> set is" using f(1) by auto
    moreover have "set (T ty) \<inter> set is = {}" "set G \<inter> set is = {}" using assms(5) r by auto
    ultimately show "fst (registry ?ps') ty = T ty" "snd (registry ?ps') = G"
      using r fold_remove1_appended [of "[]" "is" G]
      by (simp_all add: registry_def registry_entries [OF d] registry_removals fold_remove1_appended)
  qed
  moreover have "em_dispatcher (fst (unregister_handlers is (m', s'))) =
      fold (apply_registration s) ?ps' (new_dispatcher mx b)"
    by (simp add: unregister_handlers_fold f(2,3) assms(1))
  ultimately show ?thesis
    using registry_handlers [of s ty ps mx b] registry_handlers [of s ty ?ps' mx b] r
    by (simp add: assms(1))
qed

theorem class_handlers_roundtrip_witness:
  "let f = (new_function 3 ''on_change'' False (\<lambda>ev w. (Inr ReturnsOther, ev, w)))
             \<lparr>fn_handler := Some 1, fn_types := Some [CUSTOM], fn_marked := True\<rparr>;
       ms = snd (register_class_handlers [read_method f] sample_em)
   in get_handlers_for_event (snd ms) CUSTOM (em_dispatcher (fst ms)) = [1] \<and>
      get_handlers_for_event (snd ms) CUSTOM (em_dispatcher (fst (unregister_handlers [1] ms))) = []"
proof -
  let ?f = "(new_function 3 ''on_change'' False (\<lambda>ev w. (Inr ReturnsOther, ev, w)))
             \<lparr>fn_handler := Some 1, fn_types := Some [CUSTOM], fn_marked := True\<rparr> :: (nat, nat) py_function"
  obtain m' s' where r: "register_class_handlers (map read_method [?f]) sample_em = (Inr [1], m', s')"
    by (simp add: function_handler_def em_register_def read_method_def)
  then have s': "s' = snd sample_em"
    and g: "get_handlers_for_event s' CUSTOM (em_dispatcher m') = [1]"
    by (auto simp: function_handler_def read_method_def em_register_def register_handler_def new_event_manager_def
        new_dispatcher_def get_handlers_for_event_def handlers_of_def register_for_def sort_desc_def)
  let ?s = "sample_world (\<lambda>ev w. (Inr ReturnsOther, ev, w)) 10"
  have "em_dispatcher (new_event_manager :: nat event_manager) = fold (apply_registration ?s) [] (new_dispatcher 10000 100)"
    by (simp add: new_event_manager_def)
  from class_handlers_roundtrip [OF this r, of CUSTOM]
  have "get_handlers_for_event ?s CUSTOM (em_dispatcher (fst (unregister_handlers [1] (m', s')))) =
      get_handlers_for_event ?s CUSTOM (em_dispatcher (new_event_manager :: nat event_manager))"
    by (simp add: registry_def)
  also have "\<dots> = []"
    by (simp add: get_handlers_for_event_def new_event_manager_def new_dispatcher_def handlers_of_def)
  finally show ?thesis using r s' g by (simp add: Let_def del: register_class_handlers.simps)
qed

end
