(* ===== verification/Ext_Manager.thy ===== *)
theory Ext_Manager
  imports Extension_Lifecycle
begin

text \<open>
  The extension manager, \<open>revitpy/extensions/manager.py\<close>, with what it uses of
  \<open>revitpy/extensions/loader.py\<close>.

  Extension objects are numbered; \<open>_extensions\<close> holds each under its id and its name. The files and
  modules that the loader reads are arguments: \<open>find_class\<close> gives the class of some metadata and
  \<open>scan\<close> the metadata of a directory; both may raise. The metadata object that an extension shares
  with the registry is replaced there when it changes. The author's coroutines run without
  interleaving.

  \<open>_load_lock\<close> is an \<open>asyncio.Lock\<close>: a task that finds it locked waits until it is released, and the
  other tasks run in the meantime. \<open>mg_lock\<close> is the task that holds the lock, \<open>others\<close> one round of the
  event loop for all the other tasks. The functions that acquire the lock take the number of rounds
  they wait at most, which is also the number of nested calls, and are \<^const>\<open>None\<close> when that does not
  suffice; the theorem \<open>load_extension_returns\<close> shows when some number does.
\<close>

record ('d, 'v, 'w, 'j) ext_manager =
  mg_directories :: "string list"
  mg_auto_load :: bool
  mg_auto_activate :: bool
  mg_resolution :: bool
  mg_container :: "('d, ('v, 'w) em_state) di_container"
  mg_registry :: "'j ext_registry"
  mg_objects :: "('d, 'v, 'w, 'j) extension list"
  mg_extensions :: "(string, nat) dict"
  mg_order :: "string list"
  mg_initialized :: bool
  mg_shutting_down :: bool
  mg_lock :: "nat option"

type_synonym ('d, 'v, 'w, 'j) mg_state = "('d, 'v, 'w, 'j) ext_manager \<times> ('v, 'w) em_state"

type_synonym ('d, 'v, 'w, 'j) find_class =
  "('j, stamp) ext_metadata \<Rightarrow> ('v, 'w) em_state \<Rightarrow> (string + ('d, 'v, 'w) ext_class option) \<times> ('v, 'w) em_state"

type_synonym ('d, 'v, 'w, 'j) mg_tasks = "('d, 'v, 'w, 'j) mg_state \<Rightarrow> ('d, 'v, 'w, 'j) mg_state"

definition new_ext_manager :: "string list \<Rightarrow> bool \<Rightarrow> bool \<Rightarrow> bool \<Rightarrow> ('d, 'v, 'w, 'j) ext_manager" where
  "new_ext_manager dirs auto_load auto_activate resolution =
     \<lparr>mg_directories = dirs, mg_auto_load = auto_load, mg_auto_activate = auto_activate, mg_resolution = resolution,
      mg_container = new_container, mg_registry = new_registry, mg_objects = [], mg_extensions = [], mg_order = [],
      mg_initialized = False, mg_shutting_down = False, mg_lock = None\<rparr>"

definition object_of :: "string \<Rightarrow> ('d, 'v, 'w, 'j) ext_manager \<Rightarrow> ('d, 'v, 'w, 'j) extension option" where
  "object_of k m = map_option (\<lambda>i. mg_objects m ! i) (map_of (mg_extensions m) k)"

definition sync_metadata :: "('j, stamp) ext_metadata \<Rightarrow> ('j, stamp) ext_metadata \<Rightarrow> 'j ext_registry \<Rightarrow> 'j ext_registry" where
  "sync_metadata old new r =
     (let f = map (\<lambda>(k, x). (k, if x = old then new else x))
      in r\<lparr>xr_by_id := f (xr_by_id r), xr_by_name := f (xr_by_name r)\<rparr>)"

definition with_object ::
  "(('d, 'v, 'w, 'j) extension \<times> ('v, 'w) em_state \<Rightarrow> 'r \<times> ('d, 'v, 'w, 'j) extension \<times> ('v, 'w) em_state) \<Rightarrow>
   nat \<Rightarrow> ('d, 'v, 'w, 'j) mg_state \<Rightarrow> 'r \<times> ('d, 'v, 'w, 'j) mg_state" where
  "with_object f i = (\<lambda>(m, s).
     (case f (mg_objects m ! i, s) of
        (r, x, s') \<Rightarrow>
          (r, m\<lparr>mg_objects := (mg_objects m)[i := x],
                mg_registry := sync_metadata (x_meta (mg_objects m ! i)) (x_meta x) (mg_registry m)\<rparr>, s')))"

definition activate_safe :: "string \<Rightarrow> ('d, 'v, 'w, 'j) mg_state \<Rightarrow> bool \<times> ('d, 'v, 'w, 'j) mg_state" where
  "activate_safe k ms =
     (case map_of (mg_extensions (fst ms)) k of
        None \<Rightarrow> (False, ms) | Some i \<Rightarrow> with_object activate_extension_object i ms)"

definition deactivate_safe :: "string \<Rightarrow> ('d, 'v, 'w, 'j) mg_state \<Rightarrow> bool \<times> ('d, 'v, 'w, 'j) mg_state" where
  "deactivate_safe k ms =
     (case map_of (mg_extensions (fst ms)) k of
        None \<Rightarrow> (False, ms) | Some i \<Rightarrow> with_object deactivate_extension_object i ms)"

definition dispose_object :: "nat \<Rightarrow> ('d, 'v, 'w, 'j) mg_state \<Rightarrow> ('d, 'v, 'w, 'j) mg_state" where
  "dispose_object i ms = snd (with_object (\<lambda>xs. ((), dispose_extension_object xs)) i ms)"

text \<open>\<open>ExtensionLoader.load_extension\<close>. The child container is a new one under the manager's.\<close>

definition loader_load ::
  "('d, 'v, 'w, 'j) find_class \<Rightarrow> ('j, stamp) ext_metadata \<Rightarrow> ('v, 'w) em_state \<Rightarrow>
   ('d, 'v, 'w, 'j) extension option \<times> ('v, 'w) em_state" where
  "loader_load find_class md s =
     (case find_class md s of
        (Inl e, s1) \<Rightarrow> (None, s1)
      | (Inr None, s1) \<Rightarrow> (None, s1)
      | (Inr (Some K), s1) \<Rightarrow>
          (case load_extension_object (new_extension K md new_container, s1) of
             (ok, x, s2) \<Rightarrow> (if ok then Some x else None, s2)))"

fun resolve_extension_dependencies ::
  "(string \<Rightarrow> ('d, 'v, 'w, 'j) mg_state \<Rightarrow> (bool \<times> ('d, 'v, 'w, 'j) mg_state) option) \<Rightarrow> string list \<Rightarrow>
   ('d, 'v, 'w, 'j) mg_state \<Rightarrow> (bool \<times> ('d, 'v, 'w, 'j) mg_state) option" where
  "resolve_extension_dependencies load [] ms = Some (True, ms)"
| "resolve_extension_dependencies load (d # ds) ms =
     (if d \<in> set (dict_keys (mg_extensions (fst ms))) then resolve_extension_dependencies load ds ms
      else (case load d ms of
              None \<Rightarrow> None
            | Some (ok, ms') \<Rightarrow>
                (if ok then resolve_extension_dependencies load ds ms' else Some (False, ms'))))"

definition store_extension ::
  "('d, 'v, 'w, 'j) extension \<Rightarrow> ('j, stamp) ext_metadata \<Rightarrow> ('d, 'v, 'w, 'j) ext_manager \<Rightarrow> ('d, 'v, 'w, 'j) ext_manager" where
  "store_extension x md m =
     (let i = length (mg_objects m)
      in m\<lparr>mg_objects := mg_objects m @ [x], mg_registry := sync_metadata md (x_meta x) (mg_registry m),
           mg_extensions := AList.update (xm_name md) i (AList.update (xm_id md) i (mg_extensions m)),
           mg_order := (if xm_id md \<in> set (mg_order m) then mg_order m else mg_order m @ [xm_id md])\<rparr>)"

text \<open>The body of \<open>load_extension\<close> under the lock.\<close>

definition load_holding ::
  "(string \<Rightarrow> ('d, 'v, 'w, 'j) mg_state \<Rightarrow> (bool \<times> ('d, 'v, 'w, 'j) mg_state) option) \<Rightarrow>
   ('d, 'v, 'w, 'j) find_class \<Rightarrow> string \<Rightarrow> ('d, 'v, 'w, 'j) mg_state \<Rightarrow> (bool \<times> ('d, 'v, 'w, 'j) mg_state) option" where
  "load_holding load find_class k ms =
     (if (case object_of k (fst ms) of None \<Rightarrow> False | Some x \<Rightarrow> is_loaded x) then Some (True, ms)
      else (case get_extension k (mg_registry (fst ms)) of
              None \<Rightarrow> Some (False, ms)
            | Some md \<Rightarrow>
                (case (if mg_resolution (fst ms) then resolve_extension_dependencies load (xm_dependencies md) ms
                       else Some (True, ms)) of
                   None \<Rightarrow> None
                 | Some (ok, m1, s1) \<Rightarrow>
                     (if \<not> ok then Some (False, m1, s1)
                      else (case loader_load find_class md s1 of
                              (None, s2) \<Rightarrow> Some (False, m1, s2)
                            | (Some x, s2) \<Rightarrow>
                                (let m2 = store_extension x md m1 in
                                 Some (True,
                                   if mg_auto_activate m2 then snd (activate_safe (xm_id md) (m2, s2)) else (m2, s2))))))))"

text \<open>Acquiring the lock, as the task \<open>me\<close>, and releasing it.\<close>

fun acquire_lock ::
  "('d, 'v, 'w, 'j) mg_tasks \<Rightarrow> nat \<Rightarrow> nat \<Rightarrow> ('d, 'v, 'w, 'j) mg_state \<Rightarrow> ('d, 'v, 'w, 'j) mg_state option" where
  "acquire_lock others me 0 ms = None"
| "acquire_lock others me (Suc n) ms =
     (if mg_lock (fst ms) = None then Some ((fst ms)\<lparr>mg_lock := Some me\<rparr>, snd ms)
      else acquire_lock others me n (others ms))"

definition release_lock :: "('d, 'v, 'w, 'j) mg_state \<Rightarrow> ('d, 'v, 'w, 'j) mg_state" where
  "release_lock ms = ((fst ms)\<lparr>mg_lock := None\<rparr>, snd ms)"

fun load_extension ::
  "('d, 'v, 'w, 'j) find_class \<Rightarrow> ('d, 'v, 'w, 'j) mg_tasks \<Rightarrow> nat \<Rightarrow> nat \<Rightarrow> string \<Rightarrow> ('d, 'v, 'w, 'j) mg_state \<Rightarrow>
   (bool \<times> ('d, 'v, 'w, 'j) mg_state) option" where
  "load_extension find_class others me 0 k ms = None"
| "load_extension find_class others me (Suc n) k ms =
     (case acquire_lock others me (Suc n) ms of
        None \<Rightarrow> None
      | Some ms1 \<Rightarrow> map_option (map_prod id release_lock)
                      (load_holding (load_extension find_class others me n) find_class k ms1))"

definition forget_extension :: "('d, 'v, 'w, 'j) extension \<Rightarrow> ('d, 'v, 'w, 'j) ext_manager \<Rightarrow> ('d, 'v, 'w, 'j) ext_manager" where
  "forget_extension x m =
     m\<lparr>mg_extensions := AList.delete (xm_name (x_meta x)) (AList.delete (xm_id (x_meta x)) (mg_extensions m)),
       mg_order := remove1 (xm_id (x_meta x)) (mg_order m)\<rparr>"

text \<open>The body of \<open>unload_extension\<close> under the lock.\<close>

definition unload_holding :: "string \<Rightarrow> ('d, 'v, 'w, 'j) mg_state \<Rightarrow> bool \<times> ('d, 'v, 'w, 'j) mg_state" where
  "unload_holding k ms =
     (case map_of (mg_extensions (fst ms)) k of
        None \<Rightarrow> (False, ms)
      | Some i \<Rightarrow>
          (let ms1 = (if is_ext_active (mg_objects (fst ms) ! i)
                      then snd (with_object deactivate_extension_object i ms) else ms);
               ms2 = dispose_object i ms1
           in (True, forget_extension (mg_objects (fst ms2) ! i) (fst ms2), snd ms2)))"

definition unload_extension ::
  "('d, 'v, 'w, 'j) mg_tasks \<Rightarrow> nat \<Rightarrow> nat \<Rightarrow> string \<Rightarrow> ('d, 'v, 'w, 'j) mg_state \<Rightarrow>
   (bool \<times> ('d, 'v, 'w, 'j) mg_state) option" where
  "unload_extension others me n k ms =
     map_option (\<lambda>ms1. map_prod id release_lock (unload_holding k ms1)) (acquire_lock others me n ms)"

definition activate_extension ::
  "('d, 'v, 'w, 'j) find_class \<Rightarrow> ('d, 'v, 'w, 'j) mg_tasks \<Rightarrow> nat \<Rightarrow> nat \<Rightarrow> string \<Rightarrow> ('d, 'v, 'w, 'j) mg_state \<Rightarrow>
   (bool \<times> ('d, 'v, 'w, 'j) mg_state) option" where
  "activate_extension find_class others me n k ms =
     (case (if object_of k (fst ms) = None then load_extension find_class others me n k ms else Some (True, ms)) of
        None \<Rightarrow> None
      | Some (ok, ms1) \<Rightarrow>
          (if \<not> ok then Some (False, ms1)
           else (case object_of k (fst ms1) of
                   None \<Rightarrow> Some (False, ms1)
                 | Some x \<Rightarrow>
                     (if is_ext_active x then Some (True, ms1)
                      else Some (activate_safe (xm_id (x_meta x)) ms1)))))"

definition deactivate_extension ::
  "string \<Rightarrow> ('d, 'v, 'w, 'j) mg_state \<Rightarrow> bool \<times> ('d, 'v, 'w, 'j) mg_state" where
  "deactivate_extension k ms =
     (case object_of k (fst ms) of
        None \<Rightarrow> (True, ms)
      | Some x \<Rightarrow> if is_ext_active x then deactivate_safe (xm_id (x_meta x)) ms else (True, ms))"

fun load_each ::
  "('d, 'v, 'w, 'j) find_class \<Rightarrow> ('d, 'v, 'w, 'j) mg_tasks \<Rightarrow> nat \<Rightarrow> nat \<Rightarrow> ('j, stamp) ext_metadata list \<Rightarrow> ('d, 'v, 'w, 'j) mg_state \<Rightarrow>
   ('d, 'v, 'w, 'j) mg_state option" where
  "load_each find_class others me n [] ms = Some ms"
| "load_each find_class others me n (md # mds) ms =
     (case load_extension find_class others me n (xm_name md) ms of
        None \<Rightarrow> None | Some (ok, ms') \<Rightarrow> load_each find_class others me n mds ms')"

fun scan_directories ::
  "(string \<Rightarrow> ('v, 'w) em_state \<Rightarrow> ('j, stamp) ext_metadata list option \<times> ('v, 'w) em_state) \<Rightarrow> string list \<Rightarrow>
   ('v, 'w) em_state \<Rightarrow> ('j, stamp) ext_metadata list \<times> ('v, 'w) em_state" where
  "scan_directories scan [] s = ([], s)"
| "scan_directories scan (p # ps) s =
     (case scan p s of
        (found, s1) \<Rightarrow>
          (case scan_directories scan ps s1 of
             (mds, s2) \<Rightarrow> (case found of None \<Rightarrow> mds | Some xs \<Rightarrow> xs @ mds, s2)))"

definition discover_extensions ::
  "('d, 'v, 'w, 'j) find_class \<Rightarrow> ('d, 'v, 'w, 'j) mg_tasks \<Rightarrow> nat \<Rightarrow> nat \<Rightarrow>
   (string \<Rightarrow> ('v, 'w) em_state \<Rightarrow> ('j, stamp) ext_metadata list option \<times> ('v, 'w) em_state) \<Rightarrow>
   ('d, 'v, 'w, 'j) mg_state \<Rightarrow> (('j, stamp) ext_metadata list \<times> ('d, 'v, 'w, 'j) mg_state) option" where
  "discover_extensions find_class others me n scan = (\<lambda>(m, s).
     (case scan_directories scan (mg_directories m) s of
        (mds, s1) \<Rightarrow>
          (let m1 = m\<lparr>mg_registry := fold register_extension mds (mg_registry m)\<rparr>
           in map_option (Pair mds)
                (if mg_auto_load m1 then load_each find_class others me n mds (m1, s1) else Some (m1, s1)))))"

text \<open>\<open>initialize\<close>; the manager registers itself and its three parts, the values \<open>core\<close>.\<close>

definition register_core_services ::
  "('d, ('v, 'w) em_state) reflection \<Rightarrow> (string \<times> 'd) list \<Rightarrow> ('d, 'v, 'w, 'j) ext_manager \<Rightarrow>
   ('d, 'v, 'w, 'j) ext_manager" where
  "register_core_services R core m =
     m\<lparr>mg_container := fold (\<lambda>(n, v) c. snd (register_singleton R (NamedType n) None None (Some v) c)) core
         (mg_container m)\<rparr>"

definition initialize ::
  "('d, ('v, 'w) em_state) reflection \<Rightarrow> (string \<times> 'd) list \<Rightarrow> ('d, 'v, 'w, 'j) find_class \<Rightarrow> ('d, 'v, 'w, 'j) mg_tasks \<Rightarrow>
   nat \<Rightarrow> nat \<Rightarrow>
   (string \<Rightarrow> ('v, 'w) em_state \<Rightarrow> ('j, stamp) ext_metadata list option \<times> ('v, 'w) em_state) \<Rightarrow>
   ('d, 'v, 'w, 'j) mg_state \<Rightarrow> ('d, 'v, 'w, 'j) mg_state option" where
  "initialize R core find_class others me n scan ms =
     (if mg_initialized (fst ms) then Some ms
      else (let ms1 = (register_core_services R core (fst ms), snd ms)
            in map_option (\<lambda>(m, s). (m\<lparr>mg_initialized := True\<rparr>, s))
                 (if mg_auto_load (fst ms1) then map_option snd (discover_extensions find_class others me n scan ms1)
                  else Some ms1)))"

definition shutdown ::
  "('d, ('v, 'w) em_state) reflection \<Rightarrow> ('d, 'v, 'w, 'j) mg_state \<Rightarrow> ('d, 'v, 'w, 'j) mg_state" where
  "shutdown R ms =
     (if \<not> mg_initialized (fst ms) \<or> mg_shutting_down (fst ms) then ms
      else
        (let ms1 = fold (\<lambda>k. snd \<circ> deactivate_safe k) (rev (mg_order (fst ms)))
                     ((fst ms)\<lparr>mg_shutting_down := True\<rparr>, snd ms);
             ms2 = fold dispose_object (map snd (mg_extensions (fst ms1))) ms1
         in case dispose_container R (mg_container (fst ms2), snd ms2) of
              (c, s) \<Rightarrow>
                ((fst ms2)\<lparr>mg_registry := registry_clear (mg_registry (fst ms2)), mg_container := c,
                          mg_extensions := [], mg_order := [], mg_initialized := False, mg_shutting_down := False\<rparr>, s)))"

subsection \<open>Access and statistics\<close>

definition get_extensions :: "('d, 'v, 'w, 'j) ext_manager \<Rightarrow> (string, nat) dict" where
  "get_extensions m = filter (\<lambda>(k, i). take 4 k \<noteq> ''ext_'') (mg_extensions m)"

definition get_active_extensions :: "('d, 'v, 'w, 'j) ext_manager \<Rightarrow> (string, nat) dict" where
  "get_active_extensions m = filter (\<lambda>(k, i). is_ext_active (mg_objects m ! i)) (get_extensions m)"

definition get_extensions_by_status ::
  "extension_status \<Rightarrow> ('d, 'v, 'w, 'j) ext_manager \<Rightarrow> nat list" where
  "get_extensions_by_status st m =
     filter (\<lambda>i. x_status (mg_objects m ! i) = st) (map snd (get_extensions m))"

definition extension_count :: "('d, 'v, 'w, 'j) ext_manager \<Rightarrow> nat" where
  "extension_count m = length (mg_extensions m)"

definition active_extension_count :: "('d, 'v, 'w, 'j) ext_manager \<Rightarrow> nat" where
  "active_extension_count m = length (filter (\<lambda>(k, i). is_ext_active (mg_objects m ! i)) (mg_extensions m))"

definition is_extension_active :: "string \<Rightarrow> ('d, 'v, 'w, 'j) ext_manager \<Rightarrow> bool" where
  "is_extension_active k m = (case object_of k m of None \<Rightarrow> False | Some x \<Rightarrow> is_ext_active x)"

subsection \<open>Properties\<close>

text \<open>
  The other tasks respect the lock of \<open>me\<close>: a lock is released by the task that holds it, at the end
  of its \<open>async with\<close>.
\<close>

definition respect_lock :: "('d, 'v, 'w, 'j) mg_tasks \<Rightarrow> nat \<Rightarrow> bool" where
  "respect_lock others me \<longleftrightarrow> (\<forall>ms. mg_lock (fst ms) = Some me \<longrightarrow> mg_lock (fst (others ms)) = Some me)"

lemma respect_lockD:
  "respect_lock others me \<Longrightarrow> mg_lock (fst ms) = Some me \<Longrightarrow> mg_lock (fst (others ms)) = Some me"
  unfolding respect_lock_def by blast

lemma acquire_own_lock:
  "respect_lock others me \<Longrightarrow> mg_lock (fst ms) = Some me \<Longrightarrow> acquire_lock others me n ms = None"
  by (induction n arbitrary: ms) (simp_all add: respect_lockD)

lemma acquire_lock_holds: "acquire_lock others me n ms = Some ms1 \<Longrightarrow> mg_lock (fst ms1) = Some me"
  by (induction n arbitrary: ms) (auto split: if_splits)

lemma acquire_lock_more:
  "acquire_lock others me n ms = Some ms1 \<Longrightarrow> n \<le> n' \<Longrightarrow> acquire_lock others me n' ms = Some ms1"
proof (induction n arbitrary: n' ms)
  case (Suc n)
  then show ?case by (cases n') (auto split: if_splits)
qed simp

lemma load_extension_own_lock:
  "respect_lock others me \<Longrightarrow> mg_lock (fst ms) = Some me \<Longrightarrow> load_extension find_class others me n k ms = None"
  by (cases n) (simp_all add: acquire_own_lock del: acquire_lock.simps(2))

text \<open>Under the lock, the dependencies resolve only if there is nothing to load.\<close>

lemma resolve_under_lock:
  "respect_lock others me \<Longrightarrow> mg_lock (fst ms) = Some me \<Longrightarrow>
   resolve_extension_dependencies (load_extension find_class others me n) ds ms =
     (if set ds \<subseteq> set (dict_keys (mg_extensions (fst ms))) then Some (True, ms) else None)"
  by (induction ds) (auto simp: load_extension_own_lock)

text \<open>Nothing is to be loaded first: the extension is loaded, or not registered, or its dependencies are there.\<close>

definition ready_to_load :: "string \<Rightarrow> ('d, 'v, 'w, 'j) ext_manager \<Rightarrow> bool" where
  "ready_to_load k m \<longleftrightarrow>
     (case object_of k m of Some x \<Rightarrow> is_loaded x | None \<Rightarrow> False) \<or>
     (case get_extension k (mg_registry m) of
        None \<Rightarrow> True
      | Some md \<Rightarrow> mg_resolution m \<longrightarrow> set (xm_dependencies md) \<subseteq> set (dict_keys (mg_extensions m)))"

lemma load_holding_returns:
  assumes "respect_lock others me" and "mg_lock (fst ms) = Some me"
  shows "load_holding (load_extension find_class others me n) find_class k ms \<noteq> None \<longleftrightarrow> ready_to_load k (fst ms)"
  using assms
  by (cases ms) (auto simp: load_holding_def ready_to_load_def resolve_under_lock Let_def simp del: not_None_eq
      split: option.splits prod.splits)

text \<open>
  C10: When \<open>load_extension\<close> returns: exactly when it gets the lock, at once or after the other tasks
  released it, and at that moment the extension is loaded already, or is not registered, or
  dependencies are not resolved, or all its dependencies are in the manager. Otherwise it tries to
  load a dependency while it holds the lock, and waits for itself, however many rounds of the event
  loop pass. The other tasks may do anything but release a lock that this task holds.
\<close>

theorem load_extension_returns:
  assumes "respect_lock others me"
  shows "(\<exists>n. load_extension find_class others me n k ms \<noteq> None) \<longleftrightarrow>
         (\<exists>n ms1. acquire_lock others me n ms = Some ms1 \<and> ready_to_load k (fst ms1))"
proof
  assume "\<exists>n. load_extension find_class others me n k ms \<noteq> None"
  then obtain n where n: "load_extension find_class others me n k ms \<noteq> None" ..
  then obtain n' where Suc: "n = Suc n'" by (cases n) auto
  with n obtain ms1 where a: "acquire_lock others me n ms = Some ms1"
    and "load_holding (load_extension find_class others me n') find_class k ms1 \<noteq> None"
    by (auto simp del: acquire_lock.simps(2) split: option.splits)
  with load_holding_returns [OF assms acquire_lock_holds [OF a]] a
  show "\<exists>n ms1. acquire_lock others me n ms = Some ms1 \<and> ready_to_load k (fst ms1)" by blast
next
  assume "\<exists>n ms1. acquire_lock others me n ms = Some ms1 \<and> ready_to_load k (fst ms1)"
  then obtain n ms1 where a: "acquire_lock others me n ms = Some ms1" and r: "ready_to_load k (fst ms1)" by blast
  have "acquire_lock others me (Suc n) ms = Some ms1" 
    by (rule acquire_lock_more [OF a]) simp
  moreover have "load_holding (load_extension find_class others me n) find_class k ms1 \<noteq> None"
    using load_holding_returns [OF assms acquire_lock_holds [OF a]] r by blast
  ultimately have "load_extension find_class others me (Suc n) k ms \<noteq> None"
    by (simp del: acquire_lock.simps(2))
  then show "\<exists>n. load_extension find_class others me n k ms \<noteq> None" ..
qed

text \<open>The example: the extension \<open>walls\<close> depends on \<open>core\<close>; the lock is held by another task, which
  releases it in the first round.\<close>

definition sample_manager :: "(nat, nat, nat, unit) ext_manager" where
  "sample_manager = (new_ext_manager [] False True True)
     \<lparr>mg_registry := register_extension (new_metadata ''1'' ''walls'' ''1.0'' [''core''])
        (register_extension (new_metadata ''2'' ''core'' ''1.0'' []) new_registry)\<rparr>"

definition sample_tasks :: "(nat, nat, nat, unit) mg_tasks" where
  "sample_tasks ms = (if mg_lock (fst ms) = Some 9 then release_lock ms else ms)"

theorem load_extension_returns_witness:
  "let f = (\<lambda>md s. (Inr (Some sample_class), s)); ms = (sample_manager\<lparr>mg_lock := Some 9\<rparr>, sample_em)
   in (\<forall>n. load_extension f sample_tasks 1 n ''walls'' ms = None) \<and>
      (\<exists>n. load_extension f sample_tasks 1 n ''core'' ms \<noteq> None)"
proof -
  let ?ms = "(sample_manager\<lparr>mg_lock := Some 9\<rparr>, sample_em)"
  have resp: "respect_lock sample_tasks 1" by (simp add: respect_lock_def sample_tasks_def)
  have two: "acquire_lock sample_tasks 1 2 ?ms = Some (sample_manager\<lparr>mg_lock := Some 1\<rparr>, sample_em)"
    by (simp add: numeral_2_eq_2 sample_tasks_def release_lock_def sample_manager_def)
  then have acq: "ms1 = (sample_manager\<lparr>mg_lock := Some 1\<rparr>, sample_em)"
    if "acquire_lock sample_tasks 1 n ?ms = Some ms1" for n ms1
    using acquire_lock_more [OF that, of "max n 2"] acquire_lock_more [OF two, of "max n 2"] by simp
  note defs = sample_manager_def ready_to_load_def new_ext_manager_def object_of_def get_extension_def
    register_extension_def new_registry_def new_metadata_def
  have "\<not> (\<exists>n ms1. acquire_lock sample_tasks 1 n ?ms = Some ms1 \<and> ready_to_load ''walls'' (fst ms1))"
    using acq by (fastforce simp: defs)
  then have "\<not> (\<exists>n. load_extension (\<lambda>md s. (Inr (Some sample_class), s)) sample_tasks 1 n ''walls'' ?ms \<noteq> None)"
    using load_extension_returns [OF resp] by blast
  moreover have "ready_to_load ''core'' (sample_manager\<lparr>mg_lock := Some 1\<rparr>)" by (simp add: defs)
  with two have "\<exists>n ms1. acquire_lock sample_tasks 1 n ?ms = Some ms1 \<and> ready_to_load ''core'' (fst ms1)"
    by (metis fst_conv)
  then have "\<exists>n. load_extension (\<lambda>md s. (Inr (Some sample_class), s)) sample_tasks 1 n ''core'' ?ms \<noteq> None"
    using load_extension_returns [OF resp] by blast
  ultimately show ?thesis unfolding Let_def by blast
qed

lemma activate_safe_extensions [simp]: "mg_extensions (fst (snd (activate_safe k ms))) = mg_extensions (fst ms)"
  by (cases ms) (simp add: activate_safe_def with_object_def split: option.splits prod.splits)

text \<open>
  The manager counts an extension twice: loading one whose id and name are new adds two to the
  number of extensions that the statistics report.
\<close>

theorem loaded_extension_counted_twice:
  assumes "load_extension find_class others me n k (m, s) = Some (True, m', s')"
    and "respect_lock others me" and "mg_lock m = None"
    and "get_extension k (mg_registry m) = Some md" and "xm_id md \<noteq> xm_name md"
    and "{k, xm_id md, xm_name md} \<inter> set (dict_keys (mg_extensions m)) = {}"
  shows "extension_count m' = extension_count m + 2"
proof -
  let ?m = "m\<lparr>mg_lock := Some me\<rparr>"
  obtain n' where n: "n = Suc n'" using assms(1) by (cases n) auto
  have none: "object_of k ?m = None"
    using assms(6) by (simp add: object_of_def map_of_None_keys)
  obtain m1 s1 where l: "load_holding (load_extension find_class others me n') find_class k (?m, s) = Some (True, m1, s1)"
    and m': "m' = m1\<lparr>mg_lock := None\<rparr>"
    using assms(1,3) n by (auto simp: release_lock_def)
  have r: "(if mg_resolution ?m then resolve_extension_dependencies (load_extension find_class others me n') (xm_dependencies md) (?m, s)
        else Some (True, ?m, s)) \<in> {None, Some (True, ?m, s)}"
    using assms(2) by (simp add: resolve_under_lock)
  obtain x where "mg_extensions m1 = mg_extensions (store_extension x md ?m)"
    using l none assms(4) r
    by (auto simp: load_holding_def Let_def split: option.splits if_splits prod.splits)
      (metis activate_safe_extensions fst_conv snd_conv)+
  then show ?thesis
    using assms(5,6) by (simp add: extension_count_def m' store_extension_def Let_def length_update)
qed

theorem loaded_extension_counted_twice_witness:
  "let m = (new_ext_manager [] False False True :: (nat, nat, nat, unit) ext_manager)
             \<lparr>mg_registry := register_extension (new_metadata ''2'' ''core'' ''1.0'' []) new_registry\<rparr>;
       r = load_extension (\<lambda>md s. (Inr (Some sample_class), s)) id 1 1 ''core'' (m, sample_em)
   in extension_count (fst (snd (the r))) = 2"
proof -
  let ?m = "(new_ext_manager [] False False True :: (nat, nat, nat, unit) ext_manager)
             \<lparr>mg_registry := register_extension (new_metadata ''2'' ''core'' ''1.0'' []) new_registry\<rparr>"
  obtain m' s' where r: "load_extension (\<lambda>md s. (Inr (Some sample_class), s)) id 1 1 ''core'' (?m, sample_em) = Some (True, m', s')"
    by (simp add: load_holding_def object_of_def get_extension_def register_extension_def new_registry_def
        new_ext_manager_def new_metadata_def loader_load_def load_extension_object_def new_extension_def is_loaded_def
        load_steps_def load_configuration_def sample_class_def store_extension_def release_lock_def Let_def)
  have md: "get_extension ''core'' (mg_registry ?m) = Some (new_metadata ''2'' ''core'' ''1.0'' [])"
    by (simp add: get_extension_def register_extension_def new_registry_def new_metadata_def)
  have "extension_count m' = extension_count ?m + 2"
    by (rule loaded_extension_counted_twice [OF r _ _ md]) (simp_all add: respect_lock_def new_metadata_def new_ext_manager_def)
  moreover have "extension_count ?m = 0" by (simp add: extension_count_def new_ext_manager_def)
  ultimately show ?thesis using r by (simp add: Let_def del: load_extension.simps)
qed

end
