(* ===== verification/Cancel_Tokens.thy ===== *)
theory Cancel_Tokens
  imports Prelude
begin

text \<open>
  Cancellation tokens (\<open>async_support/cancellation.py\<close>).

  Tokens are shared mutable objects, so they live in a heap (a list, a token is its index).
  A registered callback is either one of the client's, run on the client's world and allowed to
  raise, or the closure \<open>check_cancellation\<close> that \<open>combine_tokens\<close> registers on its sources.
  Cancelling a token runs its callbacks, which may cancel further tokens; the recursion carries
  fuel, and \<open>cancel_enough\<close> shows that the number of tokens not yet cancelled suffices.
  The timer of a token source is the reason it will cancel with; it fires as an operation of
  its own.
\<close>

subsection \<open>Tokens and their callbacks\<close>

datatype 'c token_callback =
    Client_Callback 'c
  | Check_Cancellation "nat list" nat

record 'c ctoken =
  tk_cancelled :: bool
  tk_callbacks :: "'c token_callback list"
  tk_cancelled_at :: "int option"
  tk_reason :: "string option"

record ('c, 'w) token_heap =
  th_tokens :: "'c ctoken list"
  th_world :: 'w

record ('c, 'w, 'e) token_env =
  te_call :: "'c \<Rightarrow> ('w, 'e) action"
  te_clock :: "'w \<Rightarrow> int"

definition new_ctoken :: "'c ctoken" where
  "new_ctoken = \<lparr>tk_cancelled = False, tk_callbacks = [], tk_cancelled_at = None, tk_reason = None\<rparr>"

definition tok :: "('c, 'w) token_heap \<Rightarrow> nat \<Rightarrow> 'c ctoken" where
  "tok s r = th_tokens s ! r"

definition set_tok :: "nat \<Rightarrow> 'c ctoken \<Rightarrow> ('c, 'w) token_heap \<Rightarrow> ('c, 'w) token_heap" where
  "set_tok r t s = s\<lparr>th_tokens := (th_tokens s)[r := t]\<rparr>"

definition alloc_token :: "('c, 'w) token_heap \<Rightarrow> nat \<times> ('c, 'w) token_heap" where
  "alloc_token s = (length (th_tokens s), s\<lparr>th_tokens := th_tokens s @ [new_ctoken]\<rparr>)"

definition is_cancelled :: "nat \<Rightarrow> ('c, 'w) token_heap \<Rightarrow> bool" where
  "is_cancelled r s = tk_cancelled (tok s r)"

definition none_str :: "string option \<Rightarrow> string" where
  "none_str x = (case x of None \<Rightarrow> ''None'' | Some t \<Rightarrow> t)"

definition or_text :: "string option \<Rightarrow> string \<Rightarrow> string" where
  "or_text x d = (case x of None \<Rightarrow> d | Some t \<Rightarrow> if t = [] then d else t)"

definition throw_if_cancellation_requested ::
  "nat \<Rightarrow> ('c, 'w) token_heap \<Rightarrow> string option" where
  "throw_if_cancellation_requested r s =
     (if is_cancelled r s then Some (or_text (tk_reason (tok s r)) ''Operation was cancelled'') else None)"

definition call_client ::
  "('c, 'w, 'e) token_env \<Rightarrow> 'c \<Rightarrow> ('c, 'w) token_heap \<Rightarrow> ('c, 'w) token_heap" where
  "call_client E c s = s\<lparr>th_world := fst (te_call E c (th_world s))\<rparr>"

subsection \<open>Cancelling\<close>

definition mark_cancelled ::
  "('c, 'w, 'e) token_env \<Rightarrow> nat \<Rightarrow> string option \<Rightarrow> ('c, 'w) token_heap \<Rightarrow> ('c, 'w) token_heap" where
  "mark_cancelled E r why s =
     set_tok r ((tok s r)\<lparr>tk_cancelled := True, tk_cancelled_at := Some (te_clock E (th_world s)),
       tk_reason := why\<rparr>) s"

definition clear_callbacks :: "nat \<Rightarrow> ('c, 'w) token_heap \<Rightarrow> ('c, 'w) token_heap" where
  "clear_callbacks r s = set_tok r ((tok s r)\<lparr>tk_callbacks := []\<rparr>) s"

definition combined_reason :: "string option \<Rightarrow> string" where
  "combined_reason why = ''Combined token cancelled due to: '' @ none_str why"

fun run_callbacks ::
  "('b \<Rightarrow> 's \<Rightarrow> 's option) \<Rightarrow> 'b list \<Rightarrow> 's \<Rightarrow> 's option" where
  "run_callbacks f [] s = Some s"
| "run_callbacks f (b # bs) s = (case f b s of None \<Rightarrow> None | Some s' \<Rightarrow> run_callbacks f bs s')"

fun cancel_fuel ::
  "('c, 'w, 'e) token_env \<Rightarrow> nat \<Rightarrow> nat \<Rightarrow> string option \<Rightarrow> ('c, 'w) token_heap \<Rightarrow>
   ('c, 'w) token_heap option"
and run_token_callback ::
  "('c, 'w, 'e) token_env \<Rightarrow> nat \<Rightarrow> 'c token_callback \<Rightarrow> ('c, 'w) token_heap \<Rightarrow>
   ('c, 'w) token_heap option" where
  "cancel_fuel E 0 r why s = (if is_cancelled r s then Some s else None)"
| "cancel_fuel E (Suc n) r why s =
     (if is_cancelled r s then Some s
      else map_option (clear_callbacks r)
        (run_callbacks (run_token_callback E n) (tk_callbacks (tok s r)) (mark_cancelled E r why s)))"
| "run_token_callback E n (Client_Callback c) s = Some (call_client E c s)"
| "run_token_callback E n (Check_Cancellation ts c) s =
     (case find (\<lambda>t. is_cancelled t s) ts of
        None \<Rightarrow> Some s
      | Some t \<Rightarrow> cancel_fuel E n c (Some (combined_reason (tk_reason (tok s t)))) s)"

definition uncancelled :: "('c, 'w) token_heap \<Rightarrow> nat" where
  "uncancelled s = length (filter (\<lambda>t. \<not> tk_cancelled t) (th_tokens s))"

definition cancel_token ::
  "('c, 'w, 'e) token_env \<Rightarrow> nat \<Rightarrow> string option \<Rightarrow> ('c, 'w) token_heap \<Rightarrow>
   ('c, 'w) token_heap option" where
  "cancel_token E r why s = cancel_fuel E (uncancelled s) r why s"

definition invoke_callback ::
  "('c, 'w, 'e) token_env \<Rightarrow> 'c token_callback \<Rightarrow> ('c, 'w) token_heap \<Rightarrow> ('c, 'w) token_heap option" where
  "invoke_callback E b s = run_token_callback E (uncancelled s) b s"

definition register_callback ::
  "('c, 'w, 'e) token_env \<Rightarrow> nat \<Rightarrow> 'c token_callback \<Rightarrow> ('c, 'w) token_heap \<Rightarrow>
   ('c, 'w) token_heap option" where
  "register_callback E r b s =
     (if is_cancelled r s then invoke_callback E b s
      else Some (set_tok r ((tok s r)\<lparr>tk_callbacks := tk_callbacks (tok s r) @ [b]\<rparr>) s))"

definition combine_tokens ::
  "('c, 'w, 'e) token_env \<Rightarrow> nat list \<Rightarrow> ('c, 'w) token_heap \<Rightarrow> (nat \<times> ('c, 'w) token_heap) option" where
  "combine_tokens E ts s =
     (let (c, s1) = alloc_token s; check = Check_Cancellation ts c in
      map_option (Pair c)
        (case run_callbacks (\<lambda>t. register_callback E t check) ts s1 of
           None \<Rightarrow> None
         | Some s2 \<Rightarrow> invoke_callback E check s2))"


subsection \<open>What cancelling changes\<close>

text \<open>
  A cascade of cancellations keeps the number of tokens, keeps what was already cancelled with its
  reason and its time, and leaves every token that it does not cancel as it was.
\<close>

definition cascade :: "('c, 'w) token_heap \<Rightarrow> ('c, 'w) token_heap \<Rightarrow> bool" where
  "cascade s s' \<longleftrightarrow> length (th_tokens s') = length (th_tokens s) \<and>
     (\<forall>r < length (th_tokens s).
        (is_cancelled r s \<longrightarrow> is_cancelled r s' \<and> tk_reason (tok s' r) = tk_reason (tok s r) \<and>
           tk_cancelled_at (tok s' r) = tk_cancelled_at (tok s r)) \<and>
        (\<not> is_cancelled r s' \<longrightarrow> tok s' r = tok s r) \<and>
        (tk_callbacks (tok s' r) = tk_callbacks (tok s r) \<or> tk_callbacks (tok s' r) = []))"

fun callback_ok :: "('c, 'w) token_heap \<Rightarrow> 'c token_callback \<Rightarrow> bool" where
  "callback_ok s (Client_Callback c) = True"
| "callback_ok s (Check_Cancellation ts c) =
     (set ts \<subseteq> {..<length (th_tokens s)} \<and> c < length (th_tokens s))"

definition tokens_ok :: "('c, 'w) token_heap \<Rightarrow> bool" where
  "tokens_ok s \<longleftrightarrow> (\<forall>t \<in> set (th_tokens s). \<forall>b \<in> set (tk_callbacks t). callback_ok s b)"

lemma tok_set_tok [simp]:
  "r < length (th_tokens s) \<Longrightarrow> tok (set_tok r' t s) r = (if r = r' then t else tok s r)"
  by (auto simp: tok_def set_tok_def nth_list_update)

lemma length_set_tok [simp]: "length (th_tokens (set_tok r t s)) = length (th_tokens s)"
  by (simp add: set_tok_def)

lemma call_client_tokens [simp]:
  "th_tokens (call_client E c s) = th_tokens s" "tok (call_client E c s) r = tok s r"
  "is_cancelled r (call_client E c s) = is_cancelled r s"
  by (simp_all add: call_client_def tok_def is_cancelled_def)

lemma cascade_refl [simp]: "cascade s s"
  by (simp add: cascade_def)

lemma cascade_trans [trans]: "cascade s1 s2 \<Longrightarrow> cascade s2 s3 \<Longrightarrow> cascade s1 s3"
  unfolding cascade_def is_cancelled_def by (metis (no_types))

lemma cascade_length: "cascade s s' \<Longrightarrow> length (th_tokens s') = length (th_tokens s)"
  by (simp add: cascade_def)

lemma cascade_call_client [simp]: "cascade s (call_client E c s)"
  by (simp add: cascade_def)

lemma cascade_mark: "\<not> is_cancelled r s \<Longrightarrow> cascade s (mark_cancelled E r why s)"
  by (auto simp: cascade_def mark_cancelled_def is_cancelled_def)

lemma cascade_clear: "is_cancelled r s \<Longrightarrow> cascade s (clear_callbacks r s)"
  by (auto simp: cascade_def clear_callbacks_def is_cancelled_def)

lemma cascade_cancelled:
  "cascade s s' \<Longrightarrow> is_cancelled r s \<Longrightarrow> r < length (th_tokens s) \<Longrightarrow> is_cancelled r s'"
  by (simp add: cascade_def)

lemma length_mark [simp]: "length (th_tokens (mark_cancelled E r why s)) = length (th_tokens s)"
  by (simp add: mark_cancelled_def)

lemma length_clear [simp]: "length (th_tokens (clear_callbacks r s)) = length (th_tokens s)"
  by (simp add: clear_callbacks_def)

lemma is_cancelled_mark:
  "r < length (th_tokens s) \<Longrightarrow> is_cancelled r (mark_cancelled E r why s)"
  by (simp add: is_cancelled_def mark_cancelled_def)

lemma tokens_ok_iff:
  "tokens_ok s \<longleftrightarrow> (\<forall>r < length (th_tokens s). \<forall>b \<in> set (tk_callbacks (tok s r)). callback_ok s b)"
  by (metis in_set_conv_nth tok_def tokens_ok_def)

lemma callback_ok_cascade: "cascade s s' \<Longrightarrow> callback_ok s' b \<longleftrightarrow> callback_ok s b"
  by (cases b) (simp_all add: cascade_length)

lemma tokens_ok_cascade:
  assumes "cascade s s'" and "tokens_ok s"
  shows "tokens_ok s'"
  unfolding tokens_ok_iff
proof (intro allI impI ballI)
  fix r b assume r: "r < length (th_tokens s')" and b: "b \<in> set (tk_callbacks (tok s' r))"
  have "tk_callbacks (tok s' r) = tk_callbacks (tok s r) \<or> tk_callbacks (tok s' r) = []"
    using assms(1) r by (simp add: cascade_def)
  with b have "b \<in> set (tk_callbacks (tok s r))" by auto
  then show "callback_ok s' b"
    using assms r by (simp add: tokens_ok_iff callback_ok_cascade cascade_length)
qed

lemma uncancelled_card: "uncancelled s = card {r. r < length (th_tokens s) \<and> \<not> is_cancelled r s}"
  by (simp add: uncancelled_def is_cancelled_def tok_def length_filter_conv_card)

lemma uncancelled_cascade:
  assumes "cascade s s'" shows "uncancelled s' \<le> uncancelled s"
  unfolding uncancelled_card
  by (rule card_mono) (use assms in \<open>auto simp: cascade_def\<close>)

lemma uncancelled_mark:
  assumes "r < length (th_tokens s)" and "\<not> is_cancelled r s"
  shows "uncancelled (mark_cancelled E r why s) < uncancelled s"
  unfolding uncancelled_card
proof (rule psubset_card_mono)
  let ?s = "mark_cancelled E r why s"
  have "r \<notin> {i. i < length (th_tokens ?s) \<and> \<not> is_cancelled i ?s}"
    using assms(1) by (simp add: is_cancelled_mark)
  moreover have "r \<in> {i. i < length (th_tokens s) \<and> \<not> is_cancelled i s}"
    using assms by simp
  moreover have "{i. i < length (th_tokens ?s) \<and> \<not> is_cancelled i ?s}
      \<subseteq> {i. i < length (th_tokens s) \<and> \<not> is_cancelled i s}"
    using cascade_mark [OF assms(2), of E why] by (auto simp: cascade_def)
  ultimately show "{i. i < length (th_tokens ?s) \<and> \<not> is_cancelled i ?s}
      \<subset> {i. i < length (th_tokens s) \<and> \<not> is_cancelled i s}" by blast
qed simp

lemma run_callbacks_cascade:
  assumes "\<And>b s s'. b \<in> set bs \<Longrightarrow> tokens_ok s \<Longrightarrow> callback_ok s b \<Longrightarrow> f b s = Some s' \<Longrightarrow> cascade s s'"
    and "\<forall>b \<in> set bs. callback_ok s b" and "tokens_ok s"
    and "run_callbacks f bs s = Some s'"
  shows "cascade s s'"
  using assms
proof (induction bs arbitrary: s)
  case (Cons b bs)
  from Cons.prems(4) obtain s1 where s1: "f b s = Some s1" and rest: "run_callbacks f bs s1 = Some s'"
    by (auto split: option.splits)
  have 1: "cascade s s1" using Cons.prems(1) [OF _ Cons.prems(3) _ s1] Cons.prems(2) by simp
  also have "cascade s1 s'"
  proof (rule Cons.IH [OF _ _ _ rest])
    show "\<forall>b \<in> set bs. callback_ok s1 b"
      using Cons.prems(2) callback_ok_cascade [OF 1] by simp
    show "tokens_ok s1" by (rule tokens_ok_cascade [OF 1 Cons.prems(3)])
  qed (use Cons.prems(1) in auto)
  finally show ?case .
qed simp

lemma callbacks_ok: "tokens_ok s \<Longrightarrow> r < length (th_tokens s) \<Longrightarrow> b \<in> set (tk_callbacks (tok s r)) \<Longrightarrow> callback_ok s b"
  by (simp add: tokens_ok_iff)

lemma cancel_cascade_both:
  "r < length (th_tokens s) \<Longrightarrow> tokens_ok s \<Longrightarrow> cancel_fuel E n r why s = Some s' \<Longrightarrow>
     cascade s s' \<and> is_cancelled r s'"
  "tokens_ok s \<Longrightarrow> callback_ok s b \<Longrightarrow> run_token_callback E n b s = Some s' \<Longrightarrow> cascade s s'"
proof (induction E n r why s and E n b s arbitrary: s' and s'
       rule: cancel_fuel_run_token_callback.induct)
  case (2 E n r why s)
  show ?case
  proof (cases "is_cancelled r s")
    case False
    let ?m = "mark_cancelled E r why s"
    have m: "cascade s ?m" by (rule cascade_mark [OF False])
    from 2 False obtain s2 where s2: "run_callbacks (run_token_callback E n) (tk_callbacks (tok s r)) ?m = Some s2"
      and s': "s' = clear_callbacks r s2" by auto
    have ok: "tokens_ok ?m" by (rule tokens_ok_cascade [OF m 2(3)])
    have "cascade ?m s2"
    proof (rule run_callbacks_cascade [OF _ _ ok s2])
      show "\<forall>b \<in> set (tk_callbacks (tok s r)). callback_ok ?m b"
        using callbacks_ok [OF 2(3,2)] callback_ok_cascade [OF m] by simp
    qed (use 2(1) [OF False] in blast)
    moreover have "is_cancelled r s2"
      by (rule cascade_cancelled [OF calculation]) (use 2(2) in \<open>simp_all add: is_cancelled_mark\<close>)
    ultimately have "cascade s (clear_callbacks r s2)"
      by (meson cascade_clear cascade_trans m)
    moreover have "is_cancelled r (clear_callbacks r s2)"
      using \<open>is_cancelled r s2\<close> \<open>cascade ?m s2\<close> 2(2) by (simp add: is_cancelled_def clear_callbacks_def cascade_length)
    ultimately show ?thesis using s' by simp
  qed (use 2 in auto)
next
  case (4 E n ts c s)
  then show ?case by (auto split: option.splits)
qed (auto split: if_splits)


lemmas cancel_cascade = cancel_cascade_both(1)
lemmas run_callback_cascade = cancel_cascade_both(2)

lemma run_callbacks_invariant:
  assumes "\<And>b s s'. b \<in> set bs \<Longrightarrow> tokens_ok s \<Longrightarrow> callback_ok s b \<Longrightarrow> Q s \<Longrightarrow> f b s = Some s' \<Longrightarrow>
      cascade s s' \<and> Q s'"
    and "\<forall>b \<in> set bs. callback_ok s b" and "tokens_ok s" and "Q s"
    and "run_callbacks f bs s = Some s'"
  shows "Q s'"
  using assms
proof (induction bs arbitrary: s)
  case (Cons b bs)
  from Cons.prems(5) obtain s1 where s1: "f b s = Some s1" and rest: "run_callbacks f bs s1 = Some s'"
    by (auto split: option.splits)
  have 1: "cascade s s1 \<and> Q s1" using Cons.prems(1) [OF _ Cons.prems(3) _ Cons.prems(4) s1] Cons.prems(2) by simp
  show ?case
  proof (rule Cons.IH [OF _ _ _ _ rest])
    show "\<forall>b \<in> set bs. callback_ok s1 b"
      using Cons.prems(2) callback_ok_cascade 1 by auto
    show "tokens_ok s1" using tokens_ok_cascade 1 Cons.prems(3) by blast
  qed (use Cons.prems(1) 1 in auto)
qed simp

lemma run_callbacks_reaches:
  assumes "b \<in> set bs"
    and "\<And>b s s'. b \<in> set bs \<Longrightarrow> tokens_ok s \<Longrightarrow> callback_ok s b \<Longrightarrow> f b s = Some s' \<Longrightarrow> cascade s s'"
    and "\<forall>b \<in> set bs. callback_ok s b" and "tokens_ok s"
    and "run_callbacks f bs s = Some s'"
  shows "\<exists>s1 s2. cascade s s1 \<and> tokens_ok s1 \<and> f b s1 = Some s2 \<and> cascade s2 s'"
  using assms
proof (induction bs arbitrary: s)
  case (Cons b' bs)
  from Cons.prems(5) obtain s1 where s1: "f b' s = Some s1" and rest: "run_callbacks f bs s1 = Some s'"
    by (auto split: option.splits)
  have 1: "cascade s s1" using Cons.prems(2) [OF _ Cons.prems(4) _ s1] Cons.prems(3) by simp
  have ok: "tokens_ok s1" "\<forall>b \<in> set bs. callback_ok s1 b"
    using tokens_ok_cascade [OF 1] callback_ok_cascade [OF 1] Cons.prems(3,4) by auto
  have step: "\<And>b s s'. b \<in> set bs \<Longrightarrow> tokens_ok s \<Longrightarrow> callback_ok s b \<Longrightarrow> f b s = Some s' \<Longrightarrow> cascade s s'"
    by (rule Cons.prems(2)) simp_all
  show ?case
  proof (cases "b = b'")
    case True
    have "cascade s1 s'" by (rule run_callbacks_cascade [OF step ok(2,1) rest])
    with True s1 Cons.prems(4) show ?thesis using cascade_refl by blast
  next
    case False
    with Cons.prems(1) have b: "b \<in> set bs" by simp
    have "\<exists>s2 s3. cascade s1 s2 \<and> tokens_ok s2 \<and> f b s2 = Some s3 \<and> cascade s3 s'"
      by (rule Cons.IH [OF b _ ok(2,1) rest]) (rule step)
    then show ?thesis using cascade_trans [OF 1] by blast
  qed
qed simp

subsection \<open>Cancelling returns\<close>

lemma run_callbacks_total:
  assumes "\<And>b s. b \<in> set bs \<Longrightarrow> tokens_ok s \<Longrightarrow> callback_ok s b \<Longrightarrow> uncancelled s \<le> n \<Longrightarrow>
      \<exists>s'. f b s = Some s' \<and> cascade s s'"
    and "\<forall>b \<in> set bs. callback_ok s b" and "tokens_ok s" and "uncancelled s \<le> n"
  shows "\<exists>s'. run_callbacks f bs s = Some s'"
  using assms
proof (induction bs arbitrary: s)
  case (Cons b bs)
  obtain s1 where s1: "f b s = Some s1" and 1: "cascade s s1"
    using Cons.prems(1) [of b s] Cons.prems(2-4) by auto
  have "\<exists>s'. run_callbacks f bs s1 = Some s'"
  proof (rule Cons.IH)
    show "\<forall>b \<in> set bs. callback_ok s1 b" using Cons.prems(2) callback_ok_cascade [OF 1] by auto
    show "tokens_ok s1" by (rule tokens_ok_cascade [OF 1 Cons.prems(3)])
    show "uncancelled s1 \<le> n" using uncancelled_cascade [OF 1] Cons.prems(4) by simp
  qed (use Cons.prems(1) in auto)
  with s1 show ?case by simp
qed simp

lemma cancel_total_both:
  "r < length (th_tokens s) \<Longrightarrow> tokens_ok s \<Longrightarrow> uncancelled s \<le> n \<Longrightarrow> \<exists>s'. cancel_fuel E n r why s = Some s'"
  "tokens_ok s \<Longrightarrow> callback_ok s b \<Longrightarrow> uncancelled s \<le> n \<Longrightarrow> \<exists>s'. run_token_callback E n b s = Some s'"
proof (induction E n r why s and E n b s rule: cancel_fuel_run_token_callback.induct)
  case (1 E r why s)
  then have "\<not> (r < length (th_tokens s) \<and> \<not> is_cancelled r s)"
    by (auto simp: uncancelled_card)
  with 1 show ?case by auto
next
  case (2 E n r why s)
  show ?case
  proof (cases "is_cancelled r s")
    case False
    let ?m = "mark_cancelled E r why s"
    have m: "cascade s ?m" by (rule cascade_mark [OF False])
    have ok: "tokens_ok ?m" by (rule tokens_ok_cascade [OF m 2(3)])
    have "\<exists>s'. run_callbacks (run_token_callback E n) (tk_callbacks (tok s r)) ?m = Some s'"
    proof (rule run_callbacks_total [OF _ _ ok])
      show "\<forall>b \<in> set (tk_callbacks (tok s r)). callback_ok ?m b"
        using callbacks_ok [OF 2(3,2)] callback_ok_cascade [OF m] by simp
      show "uncancelled ?m \<le> n" using uncancelled_mark [OF 2(2) False, of E why] 2(4) by simp
    qed (use 2(1) [OF False] run_callback_cascade in blast)
    with False show ?thesis by auto
  qed simp
next
  case (4 E n ts c s)
  then show ?case by (auto split: option.splits)
qed simp_all

lemma cancel_token_total:
  "r < length (th_tokens s) \<Longrightarrow> tokens_ok s \<Longrightarrow> \<exists>s'. cancel_token E r why s = Some s'"
  unfolding cancel_token_def by (rule cancel_total_both(1)) simp_all

lemma invoke_callback_total:
  "tokens_ok s \<Longrightarrow> callback_ok s b \<Longrightarrow> \<exists>s'. invoke_callback E b s = Some s'"
  unfolding invoke_callback_def by (rule cancel_total_both(2)) simp_all

lemma cancel_token_cascade:
  "r < length (th_tokens s) \<Longrightarrow> tokens_ok s \<Longrightarrow> cancel_token E r why s = Some s' \<Longrightarrow>
    cascade s s' \<and> is_cancelled r s'"
  unfolding cancel_token_def by (rule cancel_cascade)

lemma invoke_callback_cascade:
  "tokens_ok s \<Longrightarrow> callback_ok s b \<Longrightarrow> invoke_callback E b s = Some s' \<Longrightarrow> cascade s s'"
  unfolding invoke_callback_def by (rule run_callback_cascade)


subsection \<open>A combined token follows its sources\<close>

text \<open>
  \<open>follows P ts c\<close>: the token \<open>c\<close> combined from \<open>ts\<close> is cancelled, or none of the sources in
  \<open>P\<close> is and each still has the callback that will cancel \<open>c\<close>.
\<close>

definition follows :: "nat list \<Rightarrow> nat list \<Rightarrow> nat \<Rightarrow> ('c, 'w) token_heap \<Rightarrow> bool" where
  "follows P ts c s \<longleftrightarrow> set P \<subseteq> set ts \<and> callback_ok s (Check_Cancellation ts c :: 'c token_callback) \<and>
     (is_cancelled c s \<or>
      (\<forall>t \<in> set P. \<not> is_cancelled t s \<and> Check_Cancellation ts c \<in> set (tk_callbacks (tok s t))))"

lemma follows_cancelled:
  "follows P ts c s \<Longrightarrow> is_cancelled c s \<Longrightarrow> cascade s s' \<Longrightarrow> follows P ts c s'"
  by (auto simp: follows_def cascade_length cascade_cancelled)

lemma follows_sources:
  "follows P ts c s \<Longrightarrow> t \<in> set P \<Longrightarrow> is_cancelled t s \<Longrightarrow> is_cancelled c s"
  by (auto simp: follows_def)

lemma follows_unchanged:
  assumes "follows P ts c s" and "cascade s s'" and "\<forall>t \<in> set P. \<not> is_cancelled t s'"
  shows "follows P ts c s'"
proof (cases "is_cancelled c s")
  case True
  with assms show ?thesis by (blast intro: follows_cancelled)
next
  case False
  have "tok s' t = tok s t" if "t \<in> set P" for t
    using assms that by (auto simp: cascade_def follows_def)
  with assms False show ?thesis by (auto simp: follows_def cascade_length)
qed

lemma follows_call_client [simp]: "follows P ts c (call_client E x s) \<longleftrightarrow> follows P ts c s"
  by (simp add: follows_def)

lemma follows_clear:
  assumes "follows P ts c s" and "is_cancelled r s" and "r < length (th_tokens s)"
  shows "follows P ts c (clear_callbacks r s)"
proof (cases "is_cancelled c s")
  case True
  with assms show ?thesis by (blast intro: follows_cancelled cascade_clear)
next
  case False
  with assms have "r \<notin> set P" using follows_sources by blast
  moreover have "\<forall>t \<in> set P. \<not> is_cancelled t s" using assms(1) False by (auto simp: follows_def)
  moreover have "\<forall>t \<in> set P. t < length (th_tokens s)" using assms(1) by (auto simp: follows_def)
  ultimately have "\<forall>t \<in> set P. \<not> is_cancelled t (clear_callbacks r s)"
    by (auto simp: is_cancelled_def clear_callbacks_def)
  with assms show ?thesis by (blast intro: follows_unchanged cascade_clear)
qed

lemma run_check_cancels:
  assumes "tokens_ok s" and "callback_ok s (Check_Cancellation ts c)" and "t \<in> set ts" and "is_cancelled t s"
    and "run_token_callback E n (Check_Cancellation ts c) s = Some s'"
  shows "is_cancelled c s'"
proof -
  from assms(3,4) obtain t' where "find (\<lambda>t. is_cancelled t s) ts = Some t'"
    by (metis find_None_iff2 not_Some_eq)
  with assms(5) have "cancel_fuel E n c (Some (combined_reason (tk_reason (tok s t')))) s = Some s'"
    by simp
  from cancel_cascade [OF _ assms(1) this] assms(2) show ?thesis by simp
qed

lemma cancel_follows_both:
  "r < length (th_tokens s) \<Longrightarrow> tokens_ok s \<Longrightarrow> follows P ts c s \<Longrightarrow> cancel_fuel E n r why s = Some s' \<Longrightarrow>
     follows P ts c s'"
  "tokens_ok s \<Longrightarrow> callback_ok s b \<Longrightarrow> follows P ts c s \<Longrightarrow> run_token_callback E n b s = Some s' \<Longrightarrow>
     follows P ts c s'"
proof (induction E n r why s and E n b s arbitrary: s' and s'
       rule: cancel_fuel_run_token_callback.induct)
  case (2 E n r why s)
  show ?case
  proof (cases "is_cancelled r s \<or> is_cancelled c s")
    case True
    then show ?thesis
    proof
      assume "is_cancelled r s"
      with 2 show ?thesis by simp
    next
      assume "is_cancelled c s"
      with 2 show ?thesis by (meson cancel_cascade follows_cancelled)
    qed
  next
    case False
    then have r: "\<not> is_cancelled r s" and c: "\<not> is_cancelled c s" by auto
    let ?m = "mark_cancelled E r why s" and ?bs = "tk_callbacks (tok s r)"
    have m: "cascade s ?m" by (rule cascade_mark [OF r])
    from 2(5) r obtain s2 where s2: "run_callbacks (run_token_callback E n) ?bs ?m = Some s2"
      and s': "s' = clear_callbacks r s2" by auto
    have ok: "tokens_ok ?m" by (rule tokens_ok_cascade [OF m 2(3)])
    have bs: "\<forall>b \<in> set ?bs. callback_ok ?m b"
      using callbacks_ok [OF 2(3,2)] callback_ok_cascade [OF m] by simp
    have step: "\<And>b s s'. b \<in> set ?bs \<Longrightarrow> tokens_ok s \<Longrightarrow> callback_ok s b \<Longrightarrow> run_token_callback E n b s = Some s' \<Longrightarrow> cascade s s'"
      by (rule run_callback_cascade)
    have ms: "cascade ?m s2" by (rule run_callbacks_cascade [OF step bs ok s2])
    have "follows P ts c s2"
    proof (cases "r \<in> set P")
      case True
      with 2(4) c have b: "Check_Cancellation ts c \<in> set ?bs" and ts: "r \<in> set ts"
        by (auto simp: follows_def)
      have "\<exists>s3 s4. cascade ?m s3 \<and> tokens_ok s3 \<and> run_token_callback E n (Check_Cancellation ts c) s3 = Some s4 \<and> cascade s4 s2"
        by (rule run_callbacks_reaches [OF b step bs ok s2])
      then obtain s3 s4 where 3: "cascade ?m s3" "tokens_ok s3"
          "run_token_callback E n (Check_Cancellation ts c) s3 = Some s4" "cascade s4 s2" by blast
      have "is_cancelled r s3"
        by (rule cascade_cancelled [OF 3(1)]) (use 2(2) in \<open>simp_all add: is_cancelled_mark\<close>)
      moreover have cb: "callback_ok s3 (Check_Cancellation ts c :: 'a token_callback)"
        using bs b callback_ok_cascade [OF 3(1)] by blast
      ultimately have "is_cancelled c s4"
        using run_check_cancels [OF 3(2) _ ts _ 3(3)] by blast
      moreover have "cascade s3 s4" by (rule run_callback_cascade [OF 3(2) cb 3(3)])
      ultimately have "is_cancelled c s2"
        using cascade_cancelled [OF 3(4)] cb cascade_length by fastforce
      with 2(4) m ms show ?thesis by (auto simp: follows_def cascade_length)
    next
      case out: False
      have P: "\<forall>t \<in> set P. t < length (th_tokens s) \<and> \<not> is_cancelled t s"
        using 2(4) c by (auto simp: follows_def)
      with out have "\<forall>t \<in> set P. \<not> is_cancelled t ?m"
        by (auto simp: is_cancelled_def mark_cancelled_def)
      from follows_unchanged [OF 2(4) m this] have "follows P ts c ?m" .
      show ?thesis
        by (rule run_callbacks_invariant [where Q = "follows P ts c", OF _ bs ok \<open>follows P ts c ?m\<close> s2])
          (use 2(1) [OF r] run_callback_cascade in blast)
    qed
    moreover have "is_cancelled r s2" "r < length (th_tokens s2)"
        using cascade_cancelled [OF ms, of r] cascade_length [OF ms] 2(2) is_cancelled_mark [OF 2(2), of E why] by auto
    ultimately show ?thesis using s' follows_clear by blast
  qed
next
  case (4 E n ts' c' s)
  then show ?case by (auto split: option.splits)
qed (auto split: if_splits)


lemma cancel_token_follows:
  "r < length (th_tokens s) \<Longrightarrow> tokens_ok s \<Longrightarrow> follows P ts c s \<Longrightarrow> cancel_token E r why s = Some s' \<Longrightarrow>
    follows P ts c s'"
  unfolding cancel_token_def by (rule cancel_follows_both(1))

lemma invoke_callback_follows:
  "tokens_ok s \<Longrightarrow> callback_ok s b \<Longrightarrow> follows P ts c s \<Longrightarrow> invoke_callback E b s = Some s' \<Longrightarrow>
    follows P ts c s'"
  unfolding invoke_callback_def by (rule cancel_follows_both(2))

lemma follows_append_callback:
  assumes "follows P ts c s" and "r < length (th_tokens s)"
  shows "follows P ts c (set_tok r ((tok s r)\<lparr>tk_callbacks := tk_callbacks (tok s r) @ [b]\<rparr>) s)"
    (is "follows P ts c ?s")
proof -
  have same: "is_cancelled t ?s = is_cancelled t s"
      "set (tk_callbacks (tok s t)) \<subseteq> set (tk_callbacks (tok ?s t))" if "t < length (th_tokens s)" for t
    using that by (auto simp: is_cancelled_def)
  have "\<forall>t \<in> set P. t < length (th_tokens s)" "c < length (th_tokens s)"
    using assms(1) by (auto simp: follows_def)
  with assms(1) same show ?thesis unfolding follows_def by (auto 4 3)
qed

lemma tokens_ok_append_callback:
  assumes "tokens_ok s" and "callback_ok s b"
  shows "tokens_ok (set_tok r ((tok s r)\<lparr>tk_callbacks := tk_callbacks (tok s r) @ [b]\<rparr>) s)"
proof -
  have same: "callback_ok (set_tok r t s) b' = callback_ok s b'" for t b'
    by (cases b') simp_all
  have "\<forall>b' \<in> set (tk_callbacks (tok s r)). callback_ok s b'" if "r < length (th_tokens s)"
    using assms(1) that by (simp add: tokens_ok_iff)
  with assms show ?thesis by (auto simp: tokens_ok_iff same)
qed

text \<open>
  \<open>later\<close> is what every operation on the tokens keeps: no token goes away, and a cancelled one
  stays cancelled, with its first reason and time.
\<close>

definition later :: "('c, 'w) token_heap \<Rightarrow> ('c, 'w) token_heap \<Rightarrow> bool" where
  "later s s' \<longleftrightarrow> length (th_tokens s) \<le> length (th_tokens s') \<and>
     (\<forall>r < length (th_tokens s). is_cancelled r s \<longrightarrow>
        is_cancelled r s' \<and> tk_reason (tok s' r) = tk_reason (tok s r) \<and>
        tk_cancelled_at (tok s' r) = tk_cancelled_at (tok s r))"

lemma later_refl [simp]: "later s s"
  by (simp add: later_def)

lemma later_trans [trans]: "later s1 s2 \<Longrightarrow> later s2 s3 \<Longrightarrow> later s1 s3"
  unfolding later_def by (metis (no_types) order_trans less_le_trans)

lemma later_cascade: "cascade s s' \<Longrightarrow> later s s'"
  by (simp add: cascade_def later_def)

lemma register_callback_steps:
  assumes "r < length (th_tokens s)" and "tokens_ok s" and "callback_ok s b"
  shows "\<exists>s'. register_callback E r b s = Some s' \<and> tokens_ok s' \<and> later s s' \<and>
    length (th_tokens s') = length (th_tokens s) \<and> (\<forall>P ts c. follows P ts c s \<longrightarrow> follows P ts c s')"
proof (cases "is_cancelled r s")
  case True
  obtain s' where s': "invoke_callback E b s = Some s'" using invoke_callback_total [OF assms(2,3)] by blast
  have cs: "cascade s s'" by (rule invoke_callback_cascade [OF assms(2,3) s'])
  have "follows P ts c s \<Longrightarrow> follows P ts c s'" for P ts c
    by (rule invoke_callback_follows [OF assms(2,3) _ s'])
  with True s' cs tokens_ok_cascade [OF cs assms(2)] show ?thesis
    by (simp add: register_callback_def later_cascade cascade_length)
next
  case False
  then show ?thesis
    using assms tokens_ok_append_callback [OF assms(2,3)]
    by (auto simp: register_callback_def later_def is_cancelled_def follows_append_callback)
qed

lemma register_check_follows:
  assumes "tokens_ok s" and "follows P ts c s" and "t \<in> set ts"
    and "register_callback E t (Check_Cancellation ts c) s = Some s'"
  shows "follows (P @ [t]) ts c s'"
proof -
  have cb: "callback_ok s (Check_Cancellation ts c :: 'a token_callback)" and t: "t < length (th_tokens s)"
    using assms(2,3) by (auto simp: follows_def)
  show ?thesis
  proof (cases "is_cancelled t s")
    case True
    with assms(4) have inv: "invoke_callback E (Check_Cancellation ts c) s = Some s'"
      by (simp add: register_callback_def)
    have "is_cancelled c s'"
      using run_check_cancels [OF assms(1) cb assms(3) True] inv by (simp add: invoke_callback_def)
    moreover have "follows P ts c s'" by (rule invoke_callback_follows [OF assms(1) cb assms(2) inv])
    ultimately show ?thesis using assms(3) by (simp add: follows_def)
  next
    case False
    with assms(4) have s': "s' = set_tok t ((tok s t)\<lparr>tk_callbacks := tk_callbacks (tok s t) @ [Check_Cancellation ts c]\<rparr>) s"
      by (simp add: register_callback_def)
    have "follows P ts c s'" unfolding s' by (rule follows_append_callback [OF assms(2) t])
    moreover have "\<not> is_cancelled t s'" "Check_Cancellation ts c \<in> set (tk_callbacks (tok s' t))"
      using False t by (auto simp: s' is_cancelled_def)
    ultimately show ?thesis using assms(3) by (auto simp: follows_def)
  qed
qed

lemma register_all_follows:
  assumes "tokens_ok s" and "follows P ts c s" and "set rs \<subseteq> set ts"
  shows "\<exists>s'. run_callbacks (\<lambda>t. register_callback E t (Check_Cancellation ts c)) rs s = Some s' \<and>
    tokens_ok s' \<and> later s s' \<and> length (th_tokens s') = length (th_tokens s) \<and>
    follows (P @ rs) ts c s' \<and> (\<forall>P' ts' c'. follows P' ts' c' s \<longrightarrow> follows P' ts' c' s')"
  using assms
proof (induction rs arbitrary: s P)
  case (Cons t rs)
  have cb: "callback_ok s (Check_Cancellation ts c :: 'a token_callback)" and t: "t < length (th_tokens s)"
    using Cons.prems(2,3) by (auto simp: follows_def)
  obtain s1 where s1: "register_callback E t (Check_Cancellation ts c) s = Some s1" "tokens_ok s1" "later s s1"
      "length (th_tokens s1) = length (th_tokens s)" "\<And>P ts c. follows P ts c s \<Longrightarrow> follows P ts c s1"
    using register_callback_steps [OF t Cons.prems(1) cb] by blast
  have f: "follows (P @ [t]) ts c s1"
    using register_check_follows [OF Cons.prems(1,2) _ s1(1)] Cons.prems(3) by simp
  from Cons.IH [OF s1(2) f] Cons.prems(3) obtain s' where
    "run_callbacks (\<lambda>t. register_callback E t (Check_Cancellation ts c)) rs s1 = Some s'"
    "tokens_ok s'" "later s1 s'" "length (th_tokens s') = length (th_tokens s1)"
    "follows ((P @ [t]) @ rs) ts c s'" "\<And>P' ts' c'. follows P' ts' c' s1 \<Longrightarrow> follows P' ts' c' s'" by auto
  with s1 show ?case using later_trans [OF s1(3)] by auto
qed simp


lemma is_cancelled_alloc:
  "r < length (th_tokens s) \<Longrightarrow> is_cancelled r (snd (alloc_token s)) = is_cancelled r s"
  "r < length (th_tokens s) \<Longrightarrow> tok (snd (alloc_token s)) r = tok s r"
  by (simp_all add: is_cancelled_def tok_def alloc_token_def nth_append)

lemma length_alloc [simp]: "length (th_tokens (snd (alloc_token s))) = Suc (length (th_tokens s))"
  by (simp add: alloc_token_def)

lemma callback_ok_alloc: "callback_ok s b \<Longrightarrow> callback_ok (snd (alloc_token s)) b"
  by (cases b) auto

lemma alloc_token_steps:
  assumes "tokens_ok s"
  shows "tokens_ok (snd (alloc_token s))" "later s (snd (alloc_token s))"
    "follows P ts c s \<Longrightarrow> follows P ts c (snd (alloc_token s))"
proof -
  have "tk_callbacks (tok (snd (alloc_token s)) (length (th_tokens s))) = []"
    by (simp add: alloc_token_def tok_def new_ctoken_def)
  then show "tokens_ok (snd (alloc_token s))"
    using assms by (auto simp: tokens_ok_iff less_Suc_eq is_cancelled_alloc intro: callback_ok_alloc)
  show "later s (snd (alloc_token s))"
    by (simp add: later_def is_cancelled_alloc)
  assume f: "follows P ts c s"
  then have "\<forall>t \<in> set P. t < length (th_tokens s)" "c < length (th_tokens s)"
    by (auto simp: follows_def)
  with f show "follows P ts c (snd (alloc_token s))"
    by (auto simp: follows_def is_cancelled_alloc)
qed

lemma combine_tokens_steps:
  assumes "tokens_ok s" and "set ts \<subseteq> {..<length (th_tokens s)}"
  shows "\<exists>s'. combine_tokens E ts s = Some (length (th_tokens s), s') \<and> tokens_ok s' \<and> later s s' \<and>
    follows ts ts (length (th_tokens s)) s' \<and> (\<forall>P ts c. follows P ts c s \<longrightarrow> follows P ts c s')"
proof -
  let ?c = "length (th_tokens s)" and ?s1 = "snd (alloc_token s)"
  let ?check = "Check_Cancellation ts ?c"
  have cb: "callback_ok ?s1 ?check" using assms(2) by auto
  have "follows [] ts ?c ?s1" using cb by (simp add: follows_def)
  from register_all_follows [where E = E, OF alloc_token_steps(1) [OF assms(1)] this order_refl] obtain s2 where
    s2: "run_callbacks (\<lambda>t. register_callback E t ?check) ts ?s1 = Some s2"
      "tokens_ok s2" "later ?s1 s2" "length (th_tokens s2) = Suc ?c" "follows ts ts ?c s2"
      "\<And>P ts c. follows P ts c ?s1 \<Longrightarrow> follows P ts c s2" by auto
  have cb2: "callback_ok s2 ?check" using cb s2(4) by simp
  obtain s3 where s3: "invoke_callback E ?check s2 = Some s3"
    using invoke_callback_total [OF s2(2) cb2] by blast
  have cs: "cascade s2 s3" by (rule invoke_callback_cascade [OF s2(2) cb2 s3])
  have keep: "follows P ts c s2 \<Longrightarrow> follows P ts c s3" for P ts c
    by (rule invoke_callback_follows [OF s2(2) cb2 _ s3])
  have "combine_tokens E ts s = Some (?c, s3)"
    using s2(1) s3 by (simp add: combine_tokens_def alloc_token_def)
  moreover have "later s s3"
    using alloc_token_steps(2) [OF assms(1)] s2(3) later_cascade [OF cs] by (blast intro: later_trans)
  moreover have "follows P ts c s \<Longrightarrow> follows P ts c s3" for P ts c
    using alloc_token_steps(3) [OF assms(1)] s2(6) keep by blast
  ultimately show ?thesis using tokens_ok_cascade [OF cs s2(2)] keep [OF s2(5)] by blast
qed

subsection \<open>Everything that can happen to the tokens\<close>

inductive token_step ::
  "('c, 'w, 'e) token_env \<Rightarrow> ('c, 'w) token_heap \<Rightarrow> ('c, 'w) token_heap \<Rightarrow> bool"
  for E :: "('c, 'w, 'e) token_env" where
  step_new: "token_step E s (snd (alloc_token s))"
| step_register:
    "r < length (th_tokens s) \<Longrightarrow> register_callback E r (Client_Callback x) s = Some s' \<Longrightarrow> token_step E s s'"
| step_cancel: "r < length (th_tokens s) \<Longrightarrow> cancel_token E r why s = Some s' \<Longrightarrow> token_step E s s'"
| step_combine:
    "set ts \<subseteq> {..<length (th_tokens s)} \<Longrightarrow> combine_tokens E ts s = Some (c, s') \<Longrightarrow> token_step E s s'"
| step_world: "token_step E s (s\<lparr>th_world := w\<rparr>)"

lemma world_irrelevant [simp]:
  "tok (s\<lparr>th_world := w\<rparr>) r = tok s r" "is_cancelled r (s\<lparr>th_world := w\<rparr>) = is_cancelled r s"
  "callback_ok (s\<lparr>th_world := w\<rparr>) b = callback_ok s b"
  "tokens_ok (s\<lparr>th_world := w\<rparr>) = tokens_ok s"
  "follows P ts c (s\<lparr>th_world := w\<rparr>) = follows P ts c s"
proof -
  show tok: "tok (s\<lparr>th_world := w\<rparr>) r = tok s r" for r by (simp add: tok_def)
  show canc: "is_cancelled r (s\<lparr>th_world := w\<rparr>) = is_cancelled r s" for r by (simp add: is_cancelled_def tok)
  show cb: "callback_ok (s\<lparr>th_world := w\<rparr>) b = callback_ok s b" for b by (cases b) simp_all
  show "tokens_ok (s\<lparr>th_world := w\<rparr>) = tokens_ok s" by (simp add: tokens_ok_iff tok cb)
  show "follows P ts c (s\<lparr>th_world := w\<rparr>) = follows P ts c s" by (simp add: follows_def tok canc)
qed

lemma token_step_keeps:
  assumes "token_step E s s'" and "tokens_ok s"
  shows "tokens_ok s' \<and> later s s' \<and> (\<forall>P ts c. follows P ts c s \<longrightarrow> follows P ts c s')"
  using assms
proof (induction rule: token_step.induct)
  case (step_new s)
  then show ?case using alloc_token_steps by blast
next
  case (step_register r s x s')
  then show ?case using register_callback_steps [where E = E and r = r and s = s and b = "Client_Callback x"] by auto
next
  case (step_cancel r s why s')
  then have "cascade s s'" using cancel_token_cascade by blast
  with step_cancel show ?case
    using tokens_ok_cascade later_cascade cancel_token_follows by blast
next
  case (step_combine ts s c s')
  then show ?case using combine_tokens_steps [of s ts E] by auto
next
  case (step_world s w)
  then show ?case by (simp add: later_def)
qed

lemma token_steps_keep:
  assumes "(token_step E)\<^sup>*\<^sup>* s s'" and "tokens_ok s"
  shows "tokens_ok s' \<and> later s s' \<and> (\<forall>P ts c. follows P ts c s \<longrightarrow> follows P ts c s')"
  using assms
proof (induction rule: rtranclp_induct)
  case (step y z)
  then show ?case using token_step_keeps [OF step(2)] later_trans by blast
qed simp

text \<open>
  C13: A token combined from others is cancelled as soon as one of them is: whatever is created,
  registered, combined and cancelled after \<open>combine_tokens\<close>, in any order, and also when a source
  had been cancelled before.
\<close>
theorem combined_token_follows:
  assumes "tokens_ok s" and "set ts \<subseteq> {..<length (th_tokens s)}"
    and "combine_tokens E ts s = Some (c, s1)" and "(token_step E)\<^sup>*\<^sup>* s1 s2"
  shows "(\<exists>t \<in> set ts. is_cancelled t s2) \<longrightarrow> is_cancelled c s2"
  using combine_tokens_steps [OF assms(1,2), of E] assms(3) token_steps_keep [OF assms(4)]
  by (auto dest: follows_sources)

text \<open>
  C19: Cancelling returns: whatever the callbacks and the combined tokens registered on a token,
  and however they lead from one token to others, the cascade of cancellations ends, after which
  the token is cancelled, and every token cancelled before has kept its reason and its time.
\<close>
theorem cancel_returns:
  assumes "tokens_ok s" and "r < length (th_tokens s)"
  shows "\<exists>s'. cancel_token E r why s = Some s' \<and> tokens_ok s' \<and> is_cancelled r s' \<and>
    (\<forall>t < length (th_tokens s). is_cancelled t s \<longrightarrow>
       is_cancelled t s' \<and> tk_reason (tok s' t) = tk_reason (tok s t))"
proof -
  obtain s' where s': "cancel_token E r why s = Some s'" using cancel_token_total [OF assms(2,1)] by blast
  have "cascade s s' \<and> is_cancelled r s'" by (rule cancel_token_cascade [OF assms(2,1) s'])
  with s' tokens_ok_cascade [OF _ assms(1)] show ?thesis by (auto simp: cascade_def)
qed

lemma run_client_callbacks:
  "run_callbacks (run_token_callback E n) (map Client_Callback cs) s =
     Some (s\<lparr>th_world := run_all_quiet (map (te_call E) cs) (th_world s)\<rparr>)"
  by (induction cs arbitrary: s) (simp_all add: call_client_def)

text \<open>
  The callbacks registered on a token run exactly once: cancelling runs them in the order of
  registration, each one also when an earlier one raised, and drops them, so that cancelling the
  token again does nothing and keeps the first reason.
\<close>
theorem callbacks_run_once:
  assumes "r < length (th_tokens s)" and "\<not> is_cancelled r s"
    and "tk_callbacks (tok s r) = map Client_Callback cs"
  shows "\<exists>s'. cancel_token E r why s = Some s' \<and>
     th_world s' = run_all_quiet (map (te_call E) cs) (th_world s) \<and>
     tk_callbacks (tok s' r) = [] \<and> tk_reason (tok s' r) = why \<and>
     cancel_token E r why' s' = Some s'"
proof -
  have "uncancelled s \<noteq> 0" using assms by (auto simp: uncancelled_card)
  then obtain n where n: "uncancelled s = Suc n" using not0_implies_Suc by blast
  let ?s = "(mark_cancelled E r why s)\<lparr>th_world := run_all_quiet (map (te_call E) cs) (th_world s)\<rparr>"
  have w: "th_world (mark_cancelled E r why s) = th_world s"
    by (simp add: mark_cancelled_def set_tok_def)
  have s': "cancel_token E r why s = Some (clear_callbacks r ?s)"
    using assms(2,3) by (simp add: cancel_token_def n run_client_callbacks w)
  have canc: "is_cancelled r (clear_callbacks r ?s)"
    using assms(1) by (simp add: is_cancelled_def clear_callbacks_def mark_cancelled_def)
  have "cancel_token E r why' (clear_callbacks r ?s) = Some (clear_callbacks r ?s)"
    using canc by (cases "uncancelled (clear_callbacks r ?s)") (simp_all add: cancel_token_def)
  with s' assms(1) show ?thesis
    by (simp add: clear_callbacks_def mark_cancelled_def set_tok_def tok_def)
qed


subsection \<open>Token sources\<close>

text \<open>
  A source owns a token and at most one running timer, which holds the reason given for it. The
  text of a \<open>timedelta\<close> (in microseconds here) is the one that \<open>str\<close> gives.
\<close>

definition pad_digits :: "nat \<Rightarrow> int \<Rightarrow> string" where
  "pad_digits n i = (let t = int_str i in replicate (n - length t) CHR ''0'' @ t)"

definition timedelta_str :: "int \<Rightarrow> string" where
  "timedelta_str us =
     (let days = us div 86400000000; secs = (us mod 86400000000) div 1000000; micro = us mod 1000000 in
      (if days = 0 then [] else int_str days @ (if \<bar>days\<bar> = 1 then '' day, '' else '' days, '')) @
      int_str (secs div 3600) @ '':'' @ pad_digits 2 (secs div 60 mod 60) @ '':'' @ pad_digits 2 (secs mod 60) @
      (if micro = 0 then [] else ''.'' @ pad_digits 6 micro))"

record csource =
  src_token :: nat
  src_timeout :: "int option"
  src_timer :: "string option option"

definition setup_timeout :: "string option \<Rightarrow> csource \<Rightarrow> csource" where
  "setup_timeout why src = src\<lparr>src_timer := Some why\<rparr>"

definition truthy_timeout :: "int option \<Rightarrow> bool" where
  "truthy_timeout t = (t \<noteq> None \<and> t \<noteq> Some 0)"

definition new_source :: "int option \<Rightarrow> ('c, 'w) token_heap \<Rightarrow> csource \<times> ('c, 'w) token_heap" where
  "new_source timeout s =
     (let (r, s1) = alloc_token s; src = \<lparr>src_token = r, src_timeout = timeout, src_timer = None\<rparr> in
      (if truthy_timeout timeout then setup_timeout None src else src, s1))"

definition source_cancel ::
  "('c, 'w, 'e) token_env \<Rightarrow> string option \<Rightarrow> csource \<Rightarrow> ('c, 'w) token_heap \<Rightarrow>
   (csource \<times> ('c, 'w) token_heap) option" where
  "source_cancel E why src s =
     map_option (Pair (src\<lparr>src_timer := None\<rparr>)) (cancel_token E (src_token src) why s)"

definition cancel_after :: "int \<Rightarrow> string option \<Rightarrow> csource \<Rightarrow> csource" where
  "cancel_after timeout why src = setup_timeout why (src\<lparr>src_timer := None, src_timeout := Some timeout\<rparr>)"

definition timeout_text :: "int option \<Rightarrow> string" where
  "timeout_text t = (case t of None \<Rightarrow> ''None'' | Some us \<Rightarrow> timedelta_str us)"

definition timeout_cancellation ::
  "('c, 'w, 'e) token_env \<Rightarrow> csource \<Rightarrow> ('c, 'w) token_heap \<Rightarrow> (csource \<times> ('c, 'w) token_heap) option" where
  "timeout_cancellation E src s =
     (case src_timer src of
        None \<Rightarrow> Some (src, s)
      | Some why \<Rightarrow>
          (if is_cancelled (src_token src) s then Some (src\<lparr>src_timer := None\<rparr>, s)
           else source_cancel E
             (Some (or_text why (''Operation timed out after '' @ timeout_text (src_timeout src)))) src s))"

definition source_dispose ::
  "('c, 'w, 'e) token_env \<Rightarrow> csource \<Rightarrow> ('c, 'w) token_heap \<Rightarrow> (csource \<times> ('c, 'w) token_heap) option" where
  "source_dispose E src s =
     (let src1 = src\<lparr>src_timer := None\<rparr> in
      if is_cancelled (src_token src) s then Some (src1, s)
      else source_cancel E (Some ''Token source disposed'') src1 s)"

text \<open>The context manager \<open>CancellationTokenContext\<close>: the source exists between entry and exit.\<close>

record token_context =
  cx_timeout :: "int option"
  cx_reason :: "string option"
  cx_source :: "csource option"

definition context_token :: "token_context \<Rightarrow> nat option" where
  "context_token x = map_option src_token (cx_source x)"

definition context_cancel ::
  "('c, 'w, 'e) token_env \<Rightarrow> string option \<Rightarrow> token_context \<Rightarrow> ('c, 'w) token_heap \<Rightarrow>
   (token_context \<times> ('c, 'w) token_heap) option" where
  "context_cancel E why x s =
     (case cx_source x of
        None \<Rightarrow> Some (x, s)
      | Some src \<Rightarrow>
          map_option (\<lambda>(src', s'). (x\<lparr>cx_source := Some src'\<rparr>, s'))
            (source_cancel E (if why = None \<or> why = Some [] then cx_reason x else why) src s))"

definition context_enter :: "token_context \<Rightarrow> ('c, 'w) token_heap \<Rightarrow> token_context \<times> ('c, 'w) token_heap" where
  "context_enter x s = (let (src, s') = new_source (cx_timeout x) s in (x\<lparr>cx_source := Some src\<rparr>, s'))"

definition context_exit ::
  "('c, 'w, 'e) token_env \<Rightarrow> token_context \<Rightarrow> ('c, 'w) token_heap \<Rightarrow>
   (token_context \<times> ('c, 'w) token_heap) option" where
  "context_exit E x s =
     (case cx_source x of
        None \<Rightarrow> Some (x, s)
      | Some src \<Rightarrow>
          map_option (\<lambda>(src', s'). (x\<lparr>cx_source := Some src'\<rparr>, s')) (source_dispose E src s))"

subsection \<open>Running a coroutine under a token\<close>

text \<open>
  \<open>with_cancellation\<close> prepares a token, waits for the coroutine or the monitor, whichever is first,
  and disposes of the source it created itself. What the coroutine does and which of the two is
  done first is decided outside: an argument of the model. When the monitor is first, the
  coroutine is cancelled and awaited, and what it raises then, other than \<open>CancelledError\<close>,
  is raised here. When both are done, \<open>done.pop()\<close> takes either.
\<close>

datatype 'e coro_error = Coro_Raised 'e | Operation_Cancelled "string option"

datatype ('r, 'e) race =
    Coroutine_Done "'e + 'r"
  | Monitor_Done "'e option"
  | Both_Done "'e + 'r" bool

definition prepare_cancellation ::
  "('c, 'w, 'e) token_env \<Rightarrow> nat option \<Rightarrow> int option \<Rightarrow> ('c, 'w) token_heap \<Rightarrow>
   (nat \<times> csource option \<times> csource option \<times> ('c, 'w) token_heap) option" where
  "prepare_cancellation E token timeout s =
     (case token of
        None \<Rightarrow> (let (src, s1) = new_source timeout s in Some (src_token src, Some src, None, s1))
      | Some r \<Rightarrow>
          (if truthy_timeout timeout
           then (let (src, s1) = new_source timeout s in
                 map_option (\<lambda>(c, s2). (c, None, Some src, s2)) (combine_tokens E [r, src_token src] s1))
           else Some (r, None, None, s)))"

definition race_result ::
  "nat \<Rightarrow> ('r, 'e) race \<Rightarrow> ('c, 'w) token_heap \<Rightarrow> 'e coro_error + 'r" where
  "race_result r x s =
     (let result = (\<lambda>out. case out of Inl e \<Rightarrow> Inl (Coro_Raised e) | Inr v \<Rightarrow> Inr v);
          cancelled = Inl (Operation_Cancelled (tk_reason (tok s r)))
      in case x of
           Coroutine_Done out \<Rightarrow> result out
         | Monitor_Done None \<Rightarrow> cancelled
         | Monitor_Done (Some e) \<Rightarrow> Inl (Coro_Raised e)
         | Both_Done out coro_popped \<Rightarrow> if coro_popped then result out else cancelled)"

definition finish_cancellation ::
  "('c, 'w, 'e) token_env \<Rightarrow> csource option \<Rightarrow> ('c, 'w) token_heap \<Rightarrow> ('c, 'w) token_heap option" where
  "finish_cancellation E src s =
     (case src of None \<Rightarrow> Some s | Some src \<Rightarrow> map_option snd (source_dispose E src s))"

definition with_cancellation ::
  "('c, 'w, 'e) token_env \<Rightarrow> (('c, 'w) token_heap \<Rightarrow> ('r, 'f) race \<times> ('c, 'w) token_heap) \<Rightarrow>
   (('c, 'w) token_heap \<Rightarrow> ('f + 'r) \<times> ('c, 'w) token_heap) \<Rightarrow>
   nat option \<Rightarrow> int option \<Rightarrow> ('c, 'w) token_heap \<Rightarrow>
   (('f coro_error + 'r) \<times> ('c, 'w) token_heap) option" where
  "with_cancellation E wait coro token timeout s =
     (if token = None \<and> \<not> truthy_timeout timeout
      then (let (out, s1) = coro s in
            Some (case out of Inl e \<Rightarrow> Inl (Coro_Raised e) | Inr v \<Rightarrow> Inr v, s1))
      else (case prepare_cancellation E token timeout s of
              None \<Rightarrow> None
            | Some (r, own, extra, s1) \<Rightarrow>
                (let (x, s2) = wait s1 in
                 map_option (Pair (race_result r x s2)) (finish_cancellation E own s2))))"

subsection \<open>Sources: properties\<close>

lemma length_new_source [simp]:
  "length (th_tokens (snd (new_source t s))) = Suc (length (th_tokens s))"
  "src_token (fst (new_source t s)) = length (th_tokens s)"
  by (simp_all add: new_source_def alloc_token_def setup_timeout_def Let_def)

lemma source_cancel_total:
  assumes "tokens_ok s" and "src_token src < length (th_tokens s)"
  shows "\<exists>s'. source_cancel E why src s = Some (src\<lparr>src_timer := None\<rparr>, s') \<and> is_cancelled (src_token src) s' \<and>
    cascade s s'"
  using cancel_token_total [OF assms(2,1), of E why] cancel_token_cascade [OF assms(2,1), of E why]
  by (auto simp: source_cancel_def)

text \<open>
  A timer that fires cancels the token of its source with its own reason, or with the text of
  the timeout; when the source was cancelled or disposed of first, no timer is left to fire and the
  first reason stays.
\<close>
theorem timer_loses_to_cancel:
  assumes "tokens_ok s" and "src_token src < length (th_tokens s)"
  shows "\<exists>src' s'. source_cancel E why src s = Some (src', s') \<and> is_cancelled (src_token src) s' \<and>
      timeout_cancellation E src' s' = Some (src', s') \<and>
      (\<exists>src'' s''. source_dispose E src s = Some (src'', s'') \<and> is_cancelled (src_token src) s'' \<and>
         timeout_cancellation E src'' s'' = Some (src'', s''))"
proof -
  obtain s1 where 1: "source_cancel E why src s = Some (src\<lparr>src_timer := None\<rparr>, s1)" "is_cancelled (src_token src) s1"
    using source_cancel_total [OF assms] by blast
  obtain s2 where 2: "source_cancel E (Some ''Token source disposed'') (src\<lparr>src_timer := None\<rparr>) s
      = Some (src\<lparr>src_timer := None\<rparr>, s2)" "is_cancelled (src_token src) s2"
    using source_cancel_total [OF assms(1), of "src\<lparr>src_timer := None\<rparr>"] assms(2) by auto
  have "\<exists>s2. source_dispose E src s = Some (src\<lparr>src_timer := None\<rparr>, s2) \<and> is_cancelled (src_token src) s2"
    using 2 by (simp add: source_dispose_def Let_def)
  with 1 show ?thesis by (auto simp: timeout_cancellation_def)
qed

subsection \<open>Witnesses\<close>

definition logging_env :: "(nat, nat list, unit) token_env" where
  "logging_env = \<lparr>te_call = (\<lambda>c w. (w @ [c], if c = 0 then Some () else None)), te_clock = (\<lambda>w. int (length w))\<rparr>"

definition two_tokens :: "(nat, nat list) token_heap" where
  "two_tokens = \<lparr>th_tokens = [new_ctoken, new_ctoken\<lparr>tk_callbacks := map Client_Callback [0, 1]\<rparr>], th_world = []\<rparr>"

lemma two_tokens_ok: "tokens_ok two_tokens" "length (th_tokens two_tokens) = 2"
  "tk_callbacks (tok two_tokens 1) = map Client_Callback [0, 1]" "\<not> is_cancelled 1 two_tokens"
  by (simp_all add: tokens_ok_def two_tokens_def new_ctoken_def tok_def is_cancelled_def)


definition combined_sample :: "(nat, nat list) token_heap" where
  "combined_sample = two_tokens\<lparr>th_tokens := map (\<lambda>t. t\<lparr>tk_callbacks := tk_callbacks t @ [Check_Cancellation [0, 1] 2]\<rparr>)
     (th_tokens two_tokens) @ [new_ctoken]\<rparr>"

lemma combine_sample: "combine_tokens logging_env [0, 1] two_tokens = Some (2, combined_sample)"
  by (simp add: combine_tokens_def alloc_token_def register_callback_def invoke_callback_def is_cancelled_def
      tok_def set_tok_def two_tokens_def new_ctoken_def uncancelled_def combined_sample_def numeral_2_eq_2 Let_def)

theorem combined_token_follows_witness:
  "\<exists>s2. cancel_token logging_env 1 (Some ''stop'') combined_sample = Some s2 \<and>
     (token_step logging_env)\<^sup>*\<^sup>* combined_sample s2 \<and>
     ((\<exists>t \<in> {0, 1}. is_cancelled t s2) \<longrightarrow> is_cancelled 2 s2) \<and> is_cancelled 1 s2"
proof -
  have ok: "tokens_ok combined_sample" "1 < length (th_tokens combined_sample)"
    by (simp_all add: tokens_ok_def combined_sample_def two_tokens_def new_ctoken_def)
  obtain s2 where s2: "cancel_token logging_env 1 (Some ''stop'') combined_sample = Some s2"
    using cancel_token_total [OF ok(2,1)] by blast
  have "token_step logging_env combined_sample s2" by (rule step_cancel [OF ok(2) s2])
  then have steps: "(token_step logging_env)\<^sup>*\<^sup>* combined_sample s2" by blast
  have "set [0, 1] \<subseteq> {..<length (th_tokens two_tokens)}" by (simp add: two_tokens_ok)
  from combined_token_follows [OF two_tokens_ok(1) this combine_sample steps] s2 steps
    cancel_token_cascade [OF ok(2,1) s2] show ?thesis by auto
qed

theorem cancel_returns_witness:
  "\<exists>s'. cancel_token logging_env 1 None two_tokens = Some s' \<and> tokens_ok s' \<and> is_cancelled 1 s'"
  using cancel_returns [OF two_tokens_ok(1), of 1 logging_env None] two_tokens_ok(2) by auto

theorem callbacks_run_once_witness:
  "\<exists>s'. cancel_token logging_env 1 None two_tokens = Some s' \<and> th_world s' = [0, 1] \<and>
     cancel_token logging_env 1 (Some ''again'') s' = Some s'"
  using callbacks_run_once [of 1 two_tokens "[0, 1]" logging_env None "Some ''again''"] two_tokens_ok
  by (auto simp: logging_env_def two_tokens_def)

theorem timer_loses_to_cancel_witness:
  "\<exists>src' s'. source_cancel logging_env (Some ''stop'') \<lparr>src_token = 1, src_timeout = Some 5, src_timer = Some None\<rparr> two_tokens
      = Some (src', s') \<and> timeout_cancellation logging_env src' s' = Some (src', s')"
  using timer_loses_to_cancel [OF two_tokens_ok(1), of "\<lparr>src_token = 1, src_timeout = Some 5, src_timer = Some None\<rparr>"
      logging_env "Some ''stop''"] two_tokens_ok(2) by auto

end
