(* ===== verification/Progress.thy ===== *)
theory Progress
  imports Complex_Main Prelude
begin

text \<open>
  Progress reporting (\<open>async_support/progress.py\<close>): the reports, the reporter with its callbacks,
  its throttling and its states, and the asynchronous reporter. Callbacks belong to the client:
  they act on a world of any type and may raise, which the reporter logs. Times are microseconds.
  A percentage is an exact rational where the code computes a float.
\<close>

subsection \<open>Reports\<close>

datatype progress_state =
    Progress_Not_Started | Progress_In_Progress | Progress_Completed | Progress_Failed | Progress_Cancelled

type_synonym 'd report_data = "(string, 'd) dict"

record 'd progress_report =
  rp_current :: int
  rp_total :: int
  rp_message :: "string option"
  rp_state :: progress_state
  rp_data :: "'d report_data"
  rp_timestamp :: int

definition clamped_percentage :: "int \<Rightarrow> int \<Rightarrow> rat" where
  "clamped_percentage n t = (if t \<le> 0 then 0 else min 100 (max 0 (Fract n t * 100)))"

definition report_percentage :: "'d progress_report \<Rightarrow> rat" where
  "report_percentage r = clamped_percentage (rp_current r) (rp_total r)"

definition report_is_complete :: "'d progress_report \<Rightarrow> bool" where
  "report_is_complete r = (rp_state r = Progress_Completed \<or> rp_total r \<le> rp_current r)"

definition is_indeterminate :: "'d progress_report \<Rightarrow> bool" where
  "is_indeterminate r = (rp_total r \<le> 0)"

definition with_message :: "int \<Rightarrow> string \<Rightarrow> 'd progress_report \<Rightarrow> 'd progress_report" where
  "with_message now m r = r\<lparr>rp_message := Some m, rp_timestamp := now\<rparr>"

definition update_all :: "('k, 'v) dict \<Rightarrow> ('k, 'v) dict \<Rightarrow> ('k, 'v) dict" where
  "update_all new d = fold (\<lambda>(k, v). AList.update k v) new d"

definition with_data :: "int \<Rightarrow> 'd report_data \<Rightarrow> 'd progress_report \<Rightarrow> 'd progress_report" where
  "with_data now new r = r\<lparr>rp_data := update_all new (rp_data r), rp_timestamp := now\<rparr>"

subsection \<open>The reporter\<close>

record ('c, 'd) reporter =
  pr_callbacks :: "'c list"
  pr_current :: int
  pr_total :: int
  pr_state :: progress_state
  pr_last_report :: "'d progress_report option"
  pr_start_time :: "int option"
  pr_last_report_time :: "int option"
  pr_async_callbacks :: "'c list"

type_synonym ('c, 'd, 'w) reporting = "('c, 'd) reporter \<times> 'w"

record ('c, 'd, 'w, 'e) report_env =
  re_call :: "'c \<Rightarrow> 'd progress_report \<Rightarrow> ('w, 'e) action"
  re_clock :: "'w \<Rightarrow> int"
  re_error_data :: "'e \<Rightarrow> 'd report_data"
  re_error_text :: "'e \<Rightarrow> string"

definition throttle_interval :: int where
  "throttle_interval = 100000"

definition new_reporter :: "int option \<Rightarrow> ('c, 'd) reporter" where
  "new_reporter t =
     \<lparr>pr_callbacks = [], pr_current = 0, pr_total = (case t of None \<Rightarrow> 0 | Some n \<Rightarrow> n),
      pr_state = Progress_Not_Started, pr_last_report = None, pr_start_time = None,
      pr_last_report_time = None, pr_async_callbacks = []\<rparr>"

definition percentage :: "('c, 'd) reporter \<Rightarrow> rat" where
  "percentage p = clamped_percentage (pr_current p) (pr_total p)"

definition elapsed_time :: "int \<Rightarrow> ('c, 'd) reporter \<Rightarrow> int option" where
  "elapsed_time now p = map_option (\<lambda>t. now - t) (pr_start_time p)"

definition estimated_remaining :: "int \<Rightarrow> ('c, 'd) reporter \<Rightarrow> rat option" where
  "estimated_remaining now p =
     (case elapsed_time now p of
        None \<Rightarrow> None
      | Some el \<Rightarrow>
          if el = 0 \<or> pr_current p \<le> 0 \<or> pr_total p \<le> 0 then None
          else if pr_total p \<le> pr_current p then Some 0
          else (let rate = of_int (pr_current p) / of_int el in
                if rate \<le> 0 then None else Some (of_int (pr_total p - pr_current p) / rate)))"

definition progress_add_callback :: "'c \<Rightarrow> ('c, 'd) reporter \<Rightarrow> ('c, 'd) reporter" where
  "progress_add_callback c p = p\<lparr>pr_callbacks := pr_callbacks p @ [c]\<rparr>"

definition progress_remove_callback :: "'c \<Rightarrow> ('c, 'd) reporter \<Rightarrow> ('c, 'd) reporter" where
  "progress_remove_callback c p = p\<lparr>pr_callbacks := remove1 c (pr_callbacks p)\<rparr>"

definition notify_callbacks ::
  "('c, 'd, 'w, 'e) report_env \<Rightarrow> 'd progress_report \<Rightarrow> ('c, 'd, 'w) reporting \<Rightarrow> ('c, 'd, 'w) reporting" where
  "notify_callbacks E r x =
     (case x of (p, w) \<Rightarrow>
       (p\<lparr>pr_last_report := Some r\<rparr>, run_all_quiet (map (\<lambda>c. re_call E c r) (pr_callbacks p)) w))"

definition message_or :: "string option \<Rightarrow> string \<Rightarrow> string" where
  "message_or m d = (case m of None \<Rightarrow> d | Some t \<Rightarrow> if t = [] then d else t)"

definition current_report ::
  "('c, 'd, 'w, 'e) report_env \<Rightarrow> string option \<Rightarrow> 'd report_data \<Rightarrow> ('c, 'd, 'w) reporting \<Rightarrow>
   'd progress_report" where
  "current_report E m data x =
     (case x of (p, w) \<Rightarrow>
       \<lparr>rp_current = pr_current p, rp_total = pr_total p, rp_message = m, rp_state = pr_state p,
        rp_data = data, rp_timestamp = re_clock E w\<rparr>)"

definition throttled :: "int \<Rightarrow> ('c, 'd) reporter \<Rightarrow> bool" where
  "throttled now p =
     (case pr_last_report_time p of
        None \<Rightarrow> False
      | Some t \<Rightarrow> now - t < throttle_interval \<and> pr_current p < pr_total p)"

definition mark_update :: "int \<Rightarrow> ('c, 'd) reporter \<Rightarrow> ('c, 'd) reporter" where
  "mark_update now p =
     p\<lparr>pr_last_report_time := Some now,
       pr_state := if pr_total p \<le> pr_current p \<and> pr_state p = Progress_In_Progress
                   then Progress_Completed else pr_state p\<rparr>"

definition update_progress ::
  "('c, 'd, 'w, 'e) report_env \<Rightarrow> string option \<Rightarrow> 'd report_data \<Rightarrow> ('c, 'd, 'w) reporting \<Rightarrow>
   ('c, 'd, 'w) reporting" where
  "update_progress E m data x =
     (case x of (p, w) \<Rightarrow>
       if throttled (re_clock E w) p then x
       else (let p1 = mark_update (re_clock E w) p in
             notify_callbacks E (current_report E m data (p1, w)) (p1, w)))"

definition set_total ::
  "('c, 'd, 'w, 'e) report_env \<Rightarrow> int \<Rightarrow> ('c, 'd, 'w) reporting \<Rightarrow> ('c, 'd, 'w) reporting" where
  "set_total E t x = (case x of (p, w) \<Rightarrow> update_progress E None [] (p\<lparr>pr_total := t\<rparr>, w))"

definition start_progress ::
  "('c, 'd, 'w, 'e) report_env \<Rightarrow> string option \<Rightarrow> ('c, 'd, 'w) reporting \<Rightarrow> ('c, 'd, 'w) reporting" where
  "start_progress E m x =
     (case x of (p, w) \<Rightarrow>
       (let p1 = p\<lparr>pr_state := Progress_In_Progress, pr_start_time := Some (re_clock E w), pr_current := 0\<rparr> in
        notify_callbacks E (current_report E (Some (message_or m ''Starting...'')) [] (p1, w)) (p1, w)))"

definition increment ::
  "('c, 'd, 'w, 'e) report_env \<Rightarrow> int \<Rightarrow> string option \<Rightarrow> 'd report_data \<Rightarrow> ('c, 'd, 'w) reporting \<Rightarrow>
   ('c, 'd, 'w) reporting" where
  "increment E n m data x =
     (case x of (p, w) \<Rightarrow>
       update_progress E m data (p\<lparr>pr_current := min (pr_total p) (pr_current p + n)\<rparr>, w))"

definition set_progress ::
  "('c, 'd, 'w, 'e) report_env \<Rightarrow> int \<Rightarrow> string option \<Rightarrow> 'd report_data \<Rightarrow> ('c, 'd, 'w) reporting \<Rightarrow>
   ('c, 'd, 'w) reporting" where
  "set_progress E n m data x =
     (case x of (p, w) \<Rightarrow>
       update_progress E m data (p\<lparr>pr_current := max 0 (min (pr_total p) n)\<rparr>, w))"

definition report_progress ::
  "('c, 'd, 'w, 'e) report_env \<Rightarrow> int \<Rightarrow> int \<Rightarrow> string option \<Rightarrow> 'd report_data \<Rightarrow> ('c, 'd, 'w) reporting \<Rightarrow>
   ('c, 'd, 'w) reporting" where
  "report_progress E n t m data x =
     (case x of (p, w) \<Rightarrow>
       update_progress E m data (p\<lparr>pr_current := max 0 n, pr_total := max 0 t\<rparr>, w))"

definition report_given ::
  "('c, 'd, 'w, 'e) report_env \<Rightarrow> 'd progress_report \<Rightarrow> ('c, 'd, 'w) reporting \<Rightarrow> ('c, 'd, 'w) reporting" where
  "report_given E r x =
     (case x of (p, w) \<Rightarrow>
       notify_callbacks E r (p\<lparr>pr_current := rp_current r, pr_total := rp_total r, pr_state := rp_state r\<rparr>, w))"

definition complete_progress ::
  "('c, 'd, 'w, 'e) report_env \<Rightarrow> string option \<Rightarrow> 'd report_data \<Rightarrow> ('c, 'd, 'w) reporting \<Rightarrow>
   ('c, 'd, 'w) reporting" where
  "complete_progress E m data x =
     (case x of (p, w) \<Rightarrow>
       (let p1 = p\<lparr>pr_current := pr_total p, pr_state := Progress_Completed\<rparr> in
        notify_callbacks E (current_report E (Some (message_or m ''Completed'')) data (p1, w)) (p1, w)))"

definition failure_message :: "('e \<Rightarrow> string) \<Rightarrow> string option \<Rightarrow> 'e option \<Rightarrow> string" where
  "failure_message text m err =
     (case err of None \<Rightarrow> ''Failed'' | Some e \<Rightarrow> message_or m (''Failed: '' @ text e))"

definition fail_progress ::
  "('c, 'd, 'w, 'e) report_env \<Rightarrow> string option \<Rightarrow> 'e option \<Rightarrow> 'd report_data \<Rightarrow> ('c, 'd, 'w) reporting \<Rightarrow>
   ('c, 'd, 'w) reporting" where
  "fail_progress E m err data x =
     (case x of (p, w) \<Rightarrow>
       (let p1 = p\<lparr>pr_state := Progress_Failed\<rparr>;
            data1 = (case err of None \<Rightarrow> data | Some e \<Rightarrow> update_all (re_error_data E e) data) in
        notify_callbacks E
          (current_report E (Some (failure_message (re_error_text E) m err)) data1 (p1, w)) (p1, w)))"

definition cancel_progress ::
  "('c, 'd, 'w, 'e) report_env \<Rightarrow> string option \<Rightarrow> 'd report_data \<Rightarrow> ('c, 'd, 'w) reporting \<Rightarrow>
   ('c, 'd, 'w) reporting" where
  "cancel_progress E m data x =
     (case x of (p, w) \<Rightarrow>
       (let p1 = p\<lparr>pr_state := Progress_Cancelled\<rparr> in
        notify_callbacks E (current_report E (Some (message_or m ''Cancelled'')) data (p1, w)) (p1, w)))"


subsection \<open>The asynchronous reporter\<close>

definition add_async_callback :: "'c \<Rightarrow> ('c, 'd) reporter \<Rightarrow> ('c, 'd) reporter" where
  "add_async_callback c p = p\<lparr>pr_async_callbacks := pr_async_callbacks p @ [c]\<rparr>"

definition remove_async_callback :: "'c \<Rightarrow> ('c, 'd) reporter \<Rightarrow> ('c, 'd) reporter" where
  "remove_async_callback c p = p\<lparr>pr_async_callbacks := remove1 c (pr_async_callbacks p)\<rparr>"

definition notify_async_callbacks ::
  "('c, 'd, 'w, 'e) report_env \<Rightarrow> 'd progress_report \<Rightarrow> ('c, 'd, 'w) reporting \<Rightarrow> ('c, 'd, 'w) reporting" where
  "notify_async_callbacks E r x =
     (case x of (p, w) \<Rightarrow> (p, run_all_quiet (map (\<lambda>c. re_call E c r) (pr_async_callbacks p)) w))"

definition notify_last ::
  "('c, 'd, 'w, 'e) report_env \<Rightarrow> ('c, 'd, 'w) reporting \<Rightarrow> ('c, 'd, 'w) reporting" where
  "notify_last E x =
     (case pr_last_report (fst x) of None \<Rightarrow> x | Some r \<Rightarrow> notify_async_callbacks E r x)"

definition async_report ::
  "('c, 'd, 'w, 'e) report_env \<Rightarrow> 'd progress_report \<Rightarrow> ('c, 'd, 'w) reporting \<Rightarrow> ('c, 'd, 'w) reporting" where
  "async_report E r x = notify_async_callbacks E r (report_given E r x)"

definition async_increment ::
  "('c, 'd, 'w, 'e) report_env \<Rightarrow> int \<Rightarrow> string option \<Rightarrow> 'd report_data \<Rightarrow> ('c, 'd, 'w) reporting \<Rightarrow>
   ('c, 'd, 'w) reporting" where
  "async_increment E n m data x = notify_last E (increment E n m data x)"

definition async_complete ::
  "('c, 'd, 'w, 'e) report_env \<Rightarrow> string option \<Rightarrow> 'd report_data \<Rightarrow> ('c, 'd, 'w) reporting \<Rightarrow>
   ('c, 'd, 'w) reporting" where
  "async_complete E m data x = notify_last E (complete_progress E m data x)"

subsection \<open>Percentages\<close>

lemma clamped_percentage_range: "0 \<le> clamped_percentage n t \<and> clamped_percentage n t \<le> 100"
  by (simp add: clamped_percentage_def)

lemma clamped_percentage_full: "0 < t \<Longrightarrow> clamped_percentage n t = 100 \<longleftrightarrow> t \<le> n"
  by (auto simp: clamped_percentage_def Fract_of_int_quotient min_def max_def field_simps)

subsection \<open>Throttling\<close>

text \<open>
  A client's calls, each made when the clock (the world, in this model) shows a given time. The
  updates that are let through are those after which the last report has the time of the call.
\<close>

datatype progress_op =
    Op_Increment int
  | Op_Set int
  | Op_Report int int
  | Op_Total int

fun progress_op_run ::
  "('c, 'd, 'w, 'e) report_env \<Rightarrow> progress_op \<Rightarrow> ('c, 'd, 'w) reporting \<Rightarrow> ('c, 'd, 'w) reporting" where
  "progress_op_run E (Op_Increment n) = increment E n None []"
| "progress_op_run E (Op_Set n) = set_progress E n None []"
| "progress_op_run E (Op_Report n t) = report_progress E n t None []"
| "progress_op_run E (Op_Total t) = set_total E t"

fun op_applied :: "progress_op \<Rightarrow> ('c, 'd) reporter \<Rightarrow> ('c, 'd) reporter" where
  "op_applied (Op_Increment n) p = p\<lparr>pr_current := min (pr_total p) (pr_current p + n)\<rparr>"
| "op_applied (Op_Set n) p = p\<lparr>pr_current := max 0 (min (pr_total p) n)\<rparr>"
| "op_applied (Op_Report n t) p = p\<lparr>pr_current := max 0 n, pr_total := max 0 t\<rparr>"
| "op_applied (Op_Total t) p = p\<lparr>pr_total := t\<rparr>"

lemma progress_op_run_eq: "progress_op_run E op (p, w) = update_progress E None [] (op_applied op p, w)"
  by (cases op) (simp_all add: increment_def set_progress_def report_progress_def set_total_def)

lemma op_applied_keeps [simp]:
  "pr_last_report_time (op_applied op p) = pr_last_report_time p" "pr_state (op_applied op p) = pr_state p"
  "pr_callbacks (op_applied op p) = pr_callbacks p"
  by (cases op; simp)+

text \<open>A client that keeps the reports it is sent, each with the reporter's clock.\<close>

definition recording_env :: "(unit, unit, int \<times> unit progress_report list, unit) report_env" where
  "recording_env =
     \<lparr>re_call = (\<lambda>_ r w. ((fst w, snd w @ [r]), None)), re_clock = fst,
      re_error_data = (\<lambda>_. []), re_error_text = (\<lambda>_. [])\<rparr>"

fun run_at ::
  "(int \<times> progress_op) list \<Rightarrow> (unit, unit, int \<times> unit progress_report list) reporting \<Rightarrow>
   (unit, unit, int \<times> unit progress_report list) reporting" where
  "run_at [] x = x"
| "run_at ((t, op) # ops) (p, w) = run_at ops (progress_op_run recording_env op (p, (t, snd w)))"

definition spaced :: "unit progress_report list \<Rightarrow> bool" where
  "spaced = sorted_wrt (\<lambda>a b. throttle_interval \<le> rp_timestamp b - rp_timestamp a \<or> rp_total b \<le> rp_current b)"


lemma update_recorded:
  assumes "pr_callbacks p = [()]"
  shows "update_progress recording_env m data (p, (t, lg)) =
    (if throttled t p then (p, (t, lg))
     else (let r = \<lparr>rp_current = pr_current p, rp_total = pr_total p, rp_message = m,
                    rp_state = pr_state (mark_update t p), rp_data = data, rp_timestamp = t\<rparr> in
           ((mark_update t p)\<lparr>pr_last_report := Some r\<rparr>, (t, lg @ [r]))))"
  using assms by (simp add: update_progress_def notify_callbacks_def current_report_def recording_env_def
      mark_update_def Let_def)

definition log_ok :: "('c, 'd) reporter \<Rightarrow> unit progress_report list \<Rightarrow> bool" where
  "log_ok p lg \<longleftrightarrow> spaced lg \<and>
     (\<forall>r \<in> set lg. \<exists>T. pr_last_report_time p = Some T \<and> rp_timestamp r \<le> T)"

lemma log_ok_step:
  assumes "log_ok p lg" and "pr_callbacks p = [()]" and "\<forall>T. pr_last_report_time p = Some T \<longrightarrow> T \<le> t"
    and "progress_op_run recording_env op (p, (t, lg)) = (p', (t', lg'))"
  shows "log_ok p' lg' \<and> pr_callbacks p' = [()] \<and> t' = t \<and> (\<forall>T. pr_last_report_time p' = Some T \<longrightarrow> T \<le> t)"
proof (cases "throttled t (op_applied op p)")
  case True
  with assms show ?thesis by (auto simp: progress_op_run_eq update_recorded log_ok_def)
next
  case False
  define p1 where "p1 = op_applied op p"
  define r :: "unit progress_report" where "r = \<lparr>rp_current = pr_current p1, rp_total = pr_total p1, rp_message = None,
      rp_state = pr_state (mark_update t p1), rp_data = [], rp_timestamp = t\<rparr>"
  have cb: "pr_callbacks p1 = [()]" using assms(2) by (simp add: p1_def)
  have new: "p' = (mark_update t p1)\<lparr>pr_last_report := Some r\<rparr>" "t' = t" "lg' = lg @ [r]"
    using assms(4) False unfolding progress_op_run_eq p1_def [symmetric] update_recorded [OF cb]
    by (auto simp: Let_def r_def)
  have "throttle_interval \<le> t - rp_timestamp a \<or> pr_total p1 \<le> pr_current p1" if "a \<in> set lg" for a
  proof -
    from assms(1) that obtain T where T: "pr_last_report_time p = Some T" "rp_timestamp a \<le> T"
      by (auto simp: log_ok_def)
    with False show ?thesis by (auto simp: throttled_def p1_def)
  qed
  moreover have "spaced lg" using assms(1) by (simp add: log_ok_def)
  ultimately have "spaced lg'" by (auto simp: spaced_def new(3) sorted_wrt_append r_def)
  moreover have "rp_timestamp a \<le> t" if "a \<in> set lg'" for a
    using that assms(1,3) by (auto simp: new(3) r_def log_ok_def)
  moreover have "pr_last_report_time p' = Some t" "pr_callbacks p' = [()]"
    using cb by (simp_all add: new(1) mark_update_def)
  ultimately show ?thesis by (simp add: log_ok_def new(2))
qed

lemma log_ok_run:
  assumes "log_ok p lg" and "pr_callbacks p = [()]" and "\<forall>T. pr_last_report_time p = Some T \<longrightarrow> T \<le> t0"
    and "sorted (t0 # map fst ops)"
  shows "spaced (snd (snd (run_at ops (p, (t0, lg)))))"
  using assms
proof (induction ops arbitrary: p t0 lg)
  case Nil
  then show ?case by (simp add: log_ok_def)
next
  case (Cons x ops)
  obtain t op where x: "x = (t, op)" by (cases x)
  obtain p' t' lg' where step: "progress_op_run recording_env op (p, (t, lg)) = (p', (t', lg'))"
    by (metis prod.exhaust)
  have "\<forall>T. pr_last_report_time p = Some T \<longrightarrow> T \<le> t" using Cons.prems(3,4) x by auto
  from log_ok_step [OF Cons.prems(1,2) this step] have
    ok: "log_ok p' lg'" "pr_callbacks p' = [()]" "t' = t" "\<forall>T. pr_last_report_time p' = Some T \<longrightarrow> T \<le> t" by auto
  have "sorted (t # map fst ops)" using Cons.prems(4) x by simp
  from Cons.IH [OF ok(1,2,4) this] show ?case using x step ok(3) by simp
qed

text \<open>
  Throttling: in any sequence of updates at times that do not go back, the reports that the
  callbacks receive are at least 100 ms after every report before them, except those made at or
  beyond the total, which are always let through.
\<close>
theorem throttled_reports_spaced:
  assumes "sorted (t0 # map fst ops)"
  shows "spaced (snd (snd (run_at ops ((new_reporter n)\<lparr>pr_callbacks := [()]\<rparr>, (t0, [])))))"
  by (rule log_ok_run) (use assms in \<open>simp_all add: log_ok_def spaced_def new_reporter_def\<close>)

text \<open>
  The update that reaches the total is never lost: whatever the throttle says, it is sent to
  the callbacks, and a reporter in progress is completed by it, at 100 percent.
\<close>
theorem final_update_reported:
  assumes "0 < pr_total p" and "pr_state p = Progress_In_Progress" and "pr_total p \<le> pr_current p + n"
  shows "\<exists>r p' w'. increment E n m data (p, w) = (p', w') \<and> pr_state p' = Progress_Completed \<and>
     percentage p' = 100 \<and> pr_last_report p' = Some r \<and> rp_message r = m \<and> report_is_complete r \<and>
     w' = run_all_quiet (map (\<lambda>c. re_call E c r) (pr_callbacks p)) w"
  using assms by (simp add: increment_def update_progress_def throttled_def mark_update_def
      notify_callbacks_def current_report_def percentage_def clamped_percentage_full report_is_complete_def Let_def
      split: option.splits)

text \<open>
  A reporter without a total completes on its first update: \<open>min(total, ...)\<close> is 0, which
  counts as the end of the work.
\<close>
theorem no_total_completes_at_once:
  assumes "0 \<le> n"
  shows "pr_state (fst (increment E n m data (start_progress E m' (new_reporter None, w)))) = Progress_Completed"
  using assms by (simp add: increment_def update_progress_def throttled_def mark_update_def start_progress_def
      notify_callbacks_def current_report_def new_reporter_def Let_def)

theorem throttled_reports_spaced_witness:
  "spaced (snd (snd (run_at [(0, Op_Set 1), (5, Op_Set 2), (200000, Op_Set 3)]
     ((new_reporter (Some 10))\<lparr>pr_callbacks := [()]\<rparr>, (0, [])))))"
  by (rule throttled_reports_spaced) simp

definition busy_reporter :: "(unit, unit) reporter" where
  "busy_reporter = (new_reporter (Some 10))\<lparr>pr_callbacks := [()], pr_state := Progress_In_Progress,
     pr_current := 9, pr_last_report_time := Some 5\<rparr>"

theorem final_update_reported_witness:
  "\<exists>r p' w'. increment recording_env 3 None [] (busy_reporter, (6, [])) = (p', w') \<and>
     pr_state p' = Progress_Completed \<and> percentage p' = 100 \<and> pr_last_report p' = Some r \<and> report_is_complete r"
  using final_update_reported [of busy_reporter 3 recording_env None "[]" "(6, [])"]
  by (auto simp: busy_reporter_def new_reporter_def)

theorem no_total_completes_at_once_witness:
  "pr_state (fst (increment recording_env 1 None [] (start_progress recording_env None (new_reporter None, (0, [])))))
     = Progress_Completed"
  by (rule no_total_completes_at_once) simp

end
