(* ===== verification/Task_Queue.thy ===== *)
theory Task_Queue
  imports Cancel_Tokens Progress
begin

text \<open>
  Background tasks and the task queue (\<open>async_support/task_queue.py\<close>).

  A task runs its function up to \<open>retry_count + 1\<close> times; what an attempt does, and whether the
  task's token is cancelled when it is looked at, comes from outside and is given per attempt.
  The workers of a queue interleave at their awaits: a worker fetches a pending task, looks at the
  shutdown flag, executes the task, stores the result; \<open>tq_step\<close> has one rule for each of these,
  for enqueueing, and for the parts of \<open>start\<close> and \<open>stop\<close>. \<open>asyncio.PriorityQueue\<close> is a bag from
  which \<open>get\<close> takes an element that no other is less than; which one among equals is not fixed.
\<close>

subsection \<open>Tasks\<close>

datatype task_status = Task_Pending | Task_Running | Task_Completed | Task_Failed | Task_Cancelled

datatype task_priority = Prio_Low | Prio_Normal | Prio_High | Prio_Critical

fun task_priority_value :: "task_priority \<Rightarrow> nat" where
  "task_priority_value Prio_Low = 0"
| "task_priority_value Prio_Normal = 1"
| "task_priority_value Prio_High = 2"
| "task_priority_value Prio_Critical = 3"

instantiation task_priority :: linorder
begin

definition less_eq_task_priority :: "task_priority \<Rightarrow> task_priority \<Rightarrow> bool" where
  "less_eq_task_priority p q = (task_priority_value p \<le> task_priority_value q)"

definition less_task_priority :: "task_priority \<Rightarrow> task_priority \<Rightarrow> bool" where
  "less_task_priority p q = (task_priority_value p < task_priority_value q)"

instance
proof
  fix p q :: task_priority
  show "p \<le> q \<Longrightarrow> q \<le> p \<Longrightarrow> p = q"
    by (cases p; cases q) (simp_all add: less_eq_task_priority_def)
qed (auto simp: less_eq_task_priority_def less_task_priority_def)

end

datatype 'e task_error =
    Op_Cancelled string
  | Task_Raised 'e
  | Raise_None_Error

record ('r, 'e, 'd) task_result =
  tres_id :: string
  tres_status :: task_status
  tres_result :: "'r option"
  tres_error :: "'e task_error option"
  tres_time :: "int option"
  tres_metadata :: "'d report_data"

definition result_successful :: "('r, 'e, 'd) task_result \<Rightarrow> bool" where
  "result_successful x = (tres_status x = Task_Completed \<and> tres_error x = None)"

definition result_failed :: "('r, 'e, 'd) task_result \<Rightarrow> bool" where
  "result_failed x = (tres_status x = Task_Failed \<or> tres_error x \<noteq> None)"

datatype 'e result_error = Result_Error "'e task_error" | Not_Completed task_status

definition get_result_or_raise :: "('r, 'e, 'd) task_result \<Rightarrow> 'e result_error + 'r option" where
  "get_result_or_raise x =
     (case tres_error x of
        Some e \<Rightarrow> Inl (Result_Error e)
      | None \<Rightarrow>
          if tres_status x = Task_Cancelled then Inl (Result_Error (Op_Cancelled ''Task was cancelled''))
          else if tres_status x \<noteq> Task_Completed then Inl (Not_Completed (tres_status x))
          else Inr (tres_result x))"

record ('r, 'e, 'c, 'd) task =
  task_id :: string
  task_name :: string
  task_prio :: task_priority
  task_timeout :: "int option"
  task_retry_count :: int
  task_retry_delay :: int
  task_token :: "nat option"
  task_reporter :: "('c, 'd) reporter option"
  task_metadata :: "'d report_data"
  task_status_of :: task_status
  task_created_at :: int
  task_started_at :: "int option"
  task_completed_at :: "int option"
  task_result_of :: "'r option"
  task_error_of :: "'e task_error option"
  task_attempts :: nat
  task_callbacks :: "'c list"
  task_progress_callbacks :: "'c list"
  task_on_progress :: 'c

definition new_task ::
  "string \<Rightarrow> string option \<Rightarrow> task_priority \<Rightarrow> int option \<Rightarrow> int \<Rightarrow> int \<Rightarrow> nat option \<Rightarrow>
   ('c, 'd) reporter option \<Rightarrow> 'd report_data \<Rightarrow> 'c \<Rightarrow> int \<Rightarrow> ('r, 'e, 'c, 'd) task" where
  "new_task i name prio timeout retries delay token rep meta on_progress now =
     \<lparr>task_id = i, task_name = message_or name (''Task_'' @ take 8 i), task_prio = prio,
      task_timeout = timeout, task_retry_count = retries, task_retry_delay = delay, task_token = token,
      task_reporter = rep, task_metadata = meta, task_status_of = Task_Pending, task_created_at = now,
      task_started_at = None, task_completed_at = None, task_result_of = None, task_error_of = None,
      task_attempts = 0, task_callbacks = [], task_progress_callbacks = [], task_on_progress = on_progress\<rparr>"

definition execution_time :: "int \<Rightarrow> ('r, 'e, 'c, 'd) task \<Rightarrow> int option" where
  "execution_time now t =
     (case task_started_at t of
        None \<Rightarrow> None
      | Some s \<Rightarrow> Some ((case task_completed_at t of None \<Rightarrow> now | Some c \<Rightarrow> c) - s))"

definition is_complete :: "('r, 'e, 'c, 'd) task \<Rightarrow> bool" where
  "is_complete t = (task_status_of t \<in> {Task_Completed, Task_Failed, Task_Cancelled})"

definition add_completion_callback :: "'c \<Rightarrow> ('r, 'e, 'c, 'd) task \<Rightarrow> ('r, 'e, 'c, 'd) task" where
  "add_completion_callback c t = t\<lparr>task_callbacks := task_callbacks t @ [c]\<rparr>"

text \<open>\<open>__lt__\<close>: the higher priority first, then the older task.\<close>

definition task_less :: "('r, 'e, 'c, 'd) task \<Rightarrow> ('r, 'e, 'c, 'd) task \<Rightarrow> bool" where
  "task_less a b =
     (if task_priority_value (task_prio a) \<noteq> task_priority_value (task_prio b)
      then task_priority_value (task_prio b) < task_priority_value (task_prio a)
      else task_created_at a < task_created_at b)"


definition add_progress_callback :: "'c \<Rightarrow> ('r, 'e, 'c, 'd) task \<Rightarrow> ('r, 'e, 'c, 'd) task" where
  "add_progress_callback c t = t\<lparr>task_progress_callbacks := task_progress_callbacks t @ [c]\<rparr>"

subsection \<open>Executing a task\<close>

text \<open>
  \<open>xe_call\<close> is one call of the task's function (as a coroutine or in the executor, under the
  timeout when there is one): it returns, raises (a \<open>TimeoutError\<close> included), or raises
  \<open>OperationCancelledError\<close>. \<open>xe_cancelled\<close> looks at a token.
\<close>

datatype ('r, 'e) attempt =
    Attempt_Returns 'r
  | Attempt_Raises 'e
  | Attempt_Cancelled string

record ('r, 'e, 'c, 'd, 'w) task_env =
  xe_report :: "('c, 'd, 'w, 'e task_error) report_env"
  xe_notify :: "'c \<Rightarrow> ('r, 'e, 'd) task_result \<Rightarrow> ('w, 'e) action"
  xe_call :: "('r, 'e, 'c, 'd) task \<Rightarrow> nat \<Rightarrow> 'w \<Rightarrow> ('r, 'e) attempt \<times> 'w"
  xe_cancelled :: "nat \<Rightarrow> 'w \<Rightarrow> bool"
  xe_sleep :: "int \<Rightarrow> 'w \<Rightarrow> 'w"

type_synonym ('r, 'e, 'c, 'd, 'w) tasking = "('r, 'e, 'c, 'd) task \<times> 'w"

definition on_progress ::
  "('c, 'd, 'w, 'e) report_env \<Rightarrow> ('r, 'e', 'c, 'd) task \<Rightarrow> 'd progress_report \<Rightarrow> 'w \<Rightarrow> 'w" where
  "on_progress E t r w = run_all_quiet (map (\<lambda>c. re_call E c r) (task_progress_callbacks t)) w"

definition notify_completion_callbacks ::
  "('r, 'e, 'c, 'd, 'w) task_env \<Rightarrow> ('r, 'e, 'd) task_result \<Rightarrow> ('r, 'e, 'c, 'd, 'w) tasking \<Rightarrow>
   ('r, 'e, 'c, 'd, 'w) tasking" where
  "notify_completion_callbacks E res x =
     (case x of (t, w) \<Rightarrow> (t, run_all_quiet (map (\<lambda>c. xe_notify E c res) (task_callbacks t)) w))"

definition task_cancelled :: "('r, 'e, 'c, 'd, 'w) task_env \<Rightarrow> ('r, 'e, 'c, 'd, 'w) tasking \<Rightarrow> bool" where
  "task_cancelled E x =
     (case x of (t, w) \<Rightarrow> (case task_token t of None \<Rightarrow> False | Some r \<Rightarrow> xe_cancelled E r w))"

definition with_reporter ::
  "(('c, 'd, 'w) reporting \<Rightarrow> ('c, 'd, 'w) reporting) \<Rightarrow> ('r, 'e, 'c, 'd, 'w) tasking \<Rightarrow>
   ('r, 'e, 'c, 'd, 'w) tasking" where
  "with_reporter f x =
     (case x of (t, w) \<Rightarrow>
       (case task_reporter t of
          None \<Rightarrow> (t, w)
        | Some p \<Rightarrow> (let (p', w') = f (p, w) in (t\<lparr>task_reporter := Some p'\<rparr>, w'))))"

definition retry_text :: "nat \<Rightarrow> int \<Rightarrow> string" where
  "retry_text k retries =
     ''Retrying after failure (attempt '' @ nat_str (k + 2) @ ''/'' @ int_str (retries + 1) @ '')''"

definition report_retry ::
  "('r, 'e, 'c, 'd, 'w) task_env \<Rightarrow> nat \<Rightarrow> ('r, 'e, 'c, 'd, 'w) tasking \<Rightarrow> ('r, 'e, 'c, 'd, 'w) tasking" where
  "report_retry E k x =
     (let n = task_retry_count (fst x) in
      with_reporter (report_progress (xe_report E) (int k + 1) (n + 1) (Some (retry_text k n)) []) x)"

fun task_retry_loop ::
  "('r, 'e, 'c, 'd, 'w) task_env \<Rightarrow> nat \<Rightarrow> nat \<Rightarrow> 'e task_error \<Rightarrow> ('r, 'e, 'c, 'd, 'w) tasking \<Rightarrow>
   ('e task_error + 'r) \<times> ('r, 'e, 'c, 'd, 'w) tasking" where
  "task_retry_loop E 0 k last_error x = (Inl last_error, x)"
| "task_retry_loop E (Suc n) k last_error (t, w) =
     (let t1 = t\<lparr>task_attempts := Suc k\<rparr> in
      if task_cancelled E (t1, w) then (Inl (Op_Cancelled ''Task cancelled during retry''), (t1, w))
      else (case xe_call E t1 k w of
              (Attempt_Returns r, w1) \<Rightarrow> (Inr r, (t1, w1))
            | (Attempt_Cancelled m, w1) \<Rightarrow> (Inl (Op_Cancelled m), (t1, w1))
            | (Attempt_Raises e, w1) \<Rightarrow>
                task_retry_loop E n (Suc k) (Task_Raised e)
                  (if int k < task_retry_count t
                   then report_retry E k (t1, xe_sleep E (task_retry_delay t) w1)
                   else (t1, w1))))"

definition execute_with_retry ::
  "('r, 'e, 'c, 'd, 'w) task_env \<Rightarrow> ('r, 'e, 'c, 'd, 'w) tasking \<Rightarrow>
   ('e task_error + 'r) \<times> ('r, 'e, 'c, 'd, 'w) tasking" where
  "execute_with_retry E x = task_retry_loop E (nat (task_retry_count (fst x) + 1)) 0 Raise_None_Error x"

definition begin_execution ::
  "('r, 'e, 'c, 'd, 'w) task_env \<Rightarrow> ('r, 'e, 'c, 'd, 'w) tasking \<Rightarrow> ('r, 'e, 'c, 'd, 'w) tasking" where
  "begin_execution E x =
     (case x of (t, w) \<Rightarrow>
       (t\<lparr>task_status_of := Task_Running, task_started_at := Some (re_clock (xe_report E) w)\<rparr>, w))"

definition setup_progress ::
  "('r, 'e, 'c, 'd, 'w) task_env \<Rightarrow> ('r, 'e, 'c, 'd, 'w) tasking \<Rightarrow> ('r, 'e, 'c, 'd, 'w) tasking" where
  "setup_progress E x =
     with_reporter (\<lambda>(p, w). start_progress (xe_report E) (Some (''Executing '' @ task_name (fst x)))
       (progress_add_callback (task_on_progress (fst x)) p, w)) x"

definition task_outcome ::
  "('r, 'e, 'c, 'd, 'w) task_env \<Rightarrow> ('r, 'e, 'c, 'd, 'w) tasking \<Rightarrow>
   ('e task_error + 'r) \<times> ('r, 'e, 'c, 'd, 'w) tasking" where
  "task_outcome E x =
     (if task_cancelled E x then (Inl (Op_Cancelled ''Task cancelled before execution''), x)
      else execute_with_retry E (setup_progress E x))"

definition settle ::
  "task_status \<Rightarrow> ('e task_error + 'r) \<Rightarrow> int \<Rightarrow> ('r, 'e, 'c, 'd) task \<Rightarrow> ('r, 'e, 'c, 'd) task" where
  "settle st out now t =
     (case out of
        Inr r \<Rightarrow> t\<lparr>task_result_of := Some r, task_status_of := st, task_completed_at := Some now\<rparr>
      | Inl e \<Rightarrow> t\<lparr>task_status_of := st, task_error_of := Some e, task_completed_at := Some now\<rparr>)"

definition result_record ::
  "('e task_error + 'r) \<Rightarrow> int \<Rightarrow> ('r, 'e, 'c, 'd) task \<Rightarrow> ('r, 'e, 'd) task_result" where
  "result_record out now t =
     \<lparr>tres_id = task_id t, tres_status = task_status_of t,
      tres_result = (case out of Inr r \<Rightarrow> Some r | Inl _ \<Rightarrow> None),
      tres_error = (case out of Inr _ \<Rightarrow> None | Inl e \<Rightarrow> Some e),
      tres_time = execution_time now t, tres_metadata = task_metadata t\<rparr>"

fun outcome_status :: "'e task_error + 'r \<Rightarrow> task_status" where
  "outcome_status (Inr _) = Task_Completed"
| "outcome_status (Inl (Op_Cancelled _)) = Task_Cancelled"
| "outcome_status (Inl (Task_Raised _)) = Task_Failed"
| "outcome_status (Inl Raise_None_Error) = Task_Failed"

definition report_end ::
  "('r, 'e, 'c, 'd, 'w) task_env \<Rightarrow> ('e task_error + 'r) \<Rightarrow> ('r, 'e, 'c, 'd, 'w) tasking \<Rightarrow>
   ('r, 'e, 'c, 'd, 'w) tasking" where
  "report_end E out x =
     (let text = (\<lambda>what. Some (''Task '' @ task_name (fst x) @ what)) in
      case outcome_status out of
        Task_Completed \<Rightarrow> with_reporter (complete_progress (xe_report E) (text '' completed'') []) x
      | Task_Cancelled \<Rightarrow> with_reporter (cancel_progress (xe_report E) (text '' cancelled'') []) x
      | _ \<Rightarrow> with_reporter (fail_progress (xe_report E) (text '' failed'')
               (case out of Inl e \<Rightarrow> Some e | Inr _ \<Rightarrow> None) []) x)"

definition run_task ::
  "('r, 'e, 'c, 'd, 'w) task_env \<Rightarrow> ('r, 'e, 'c, 'd, 'w) tasking \<Rightarrow>
   ('r, 'e, 'd) task_result \<times> ('r, 'e, 'c, 'd, 'w) tasking" where
  "run_task E x =
     (let (out, (t, w)) = task_outcome E x;
          t1 = settle (outcome_status out) out (re_clock (xe_report E) w) t;
          (t2, w2) = report_end E out (t1, w);
          res = result_record out (re_clock (xe_report E) w2) t2
      in (res, notify_completion_callbacks E res (t2, w2)))"

definition execute_task ::
  "('r, 'e, 'c, 'd, 'w) task_env \<Rightarrow> ('r, 'e, 'c, 'd, 'w) tasking \<Rightarrow>
   ('r, 'e, 'd) task_result \<times> ('r, 'e, 'c, 'd, 'w) tasking" where
  "execute_task E x = run_task E (begin_execution E x)"


subsection \<open>What executing a task gives\<close>

lemma with_reporter_keeps [simp]:
  "task_id (fst (with_reporter f x)) = task_id (fst x)"
  "task_status_of (fst (with_reporter f x)) = task_status_of (fst x)"
  "task_attempts (fst (with_reporter f x)) = task_attempts (fst x)"
  "task_retry_count (fst (with_reporter f x)) = task_retry_count (fst x)"
  "task_token (fst (with_reporter f x)) = task_token (fst x)"
  "task_result_of (fst (with_reporter f x)) = task_result_of (fst x)"
  "task_error_of (fst (with_reporter f x)) = task_error_of (fst x)"
  by (cases x; simp add: with_reporter_def split: option.splits prod.splits)+

lemma report_retry_keeps [simp]:
  "task_id (fst (report_retry E k x)) = task_id (fst x)"
  "task_attempts (fst (report_retry E k x)) = task_attempts (fst x)"
  "task_retry_count (fst (report_retry E k x)) = task_retry_count (fst x)"
  "task_token (fst (report_retry E k x)) = task_token (fst x)"
  by (simp_all add: report_retry_def Let_def)

lemma setup_progress_keeps [simp]:
  "task_id (fst (setup_progress E x)) = task_id (fst x)"
  "task_attempts (fst (setup_progress E x)) = task_attempts (fst x)"
  "task_retry_count (fst (setup_progress E x)) = task_retry_count (fst x)"
  "task_token (fst (setup_progress E x)) = task_token (fst x)"
  by (simp_all add: setup_progress_def)

lemma report_end_keeps [simp]:
  "task_id (fst (report_end E out x)) = task_id (fst x)"
  "task_status_of (fst (report_end E out x)) = task_status_of (fst x)"
  "task_attempts (fst (report_end E out x)) = task_attempts (fst x)"
  "task_result_of (fst (report_end E out x)) = task_result_of (fst x)"
  "task_error_of (fst (report_end E out x)) = task_error_of (fst x)"
  by (simp_all add: report_end_def Let_def split: task_status.splits)

lemma notify_completion_keeps [simp]: "fst (notify_completion_callbacks E res x) = fst x"
  by (cases x) (simp add: notify_completion_callbacks_def)

lemma retry_loop_keeps:
  "task_id (fst (snd (task_retry_loop E n k last_error x))) = task_id (fst x)"
proof (induction E n k last_error x rule: task_retry_loop.induct)
  case (2 E n k last_error t w)
  then show ?case by (auto simp: Let_def split: prod.splits attempt.splits)
qed simp

lemma retry_loop_attempts:
  assumes "task_attempts (fst x) \<le> k"
  shows "task_attempts (fst (snd (task_retry_loop E n k last_error x))) \<le> k + n"
  using assms
proof (induction E n k last_error x rule: task_retry_loop.induct)
  case (2 E n k last_error t w)
  then show ?case by (fastforce simp: Let_def split: prod.splits attempt.splits)
qed simp

lemma task_outcome_attempts:
  assumes "task_attempts t = 0"
  shows "task_attempts (fst (snd (task_outcome E (t, w)))) \<le> nat (task_retry_count t + 1)"
proof -
  have "task_attempts (fst (snd (execute_with_retry E (setup_progress E (t, w))))) \<le> 0 + nat (task_retry_count t + 1)"
    unfolding execute_with_retry_def setup_progress_keeps fst_conv
    by (rule retry_loop_attempts) (simp add: assms)
  then show ?thesis by (simp add: task_outcome_def assms)
qed

lemma task_outcome_id: "task_id (fst (snd (task_outcome E x))) = task_id (fst x)"
  by (simp add: task_outcome_def execute_with_retry_def retry_loop_keeps)

lemma outcome_status_final: "outcome_status out \<in> {Task_Completed, Task_Failed, Task_Cancelled}"
  by (cases out rule: outcome_status.cases) auto

lemma outcome_status_completed: "outcome_status out = Task_Completed \<longleftrightarrow> (\<exists>r. out = Inr r)"
  by (cases out rule: outcome_status.cases) auto

lemma run_task_result:
  assumes "task_outcome E x = (out, (t, w))" and "run_task E x = (res, (t', w'))"
  shows "task_status_of t' = outcome_status out" "tres_status res = outcome_status out"
    "tres_result res = (case out of Inr r \<Rightarrow> Some r | Inl _ \<Rightarrow> None)"
    "tres_error res = (case out of Inr _ \<Rightarrow> None | Inl e \<Rightarrow> Some e)"
    "tres_id res = task_id (fst x)" "task_id t' = task_id (fst x)" "task_attempts t' = task_attempts t"
proof -
  let ?t1 = "settle (outcome_status out) out (re_clock (xe_report E) w) t"
  let ?x2 = "report_end E out (?t1, w)"
  have res: "res = result_record out (re_clock (xe_report E) (snd ?x2)) (fst ?x2)"
    and t': "t' = fst ?x2"
    using assms by (auto simp: run_task_def Let_def notify_completion_callbacks_def split: prod.splits)
  have 1: "task_status_of ?t1 = outcome_status out" "task_id ?t1 = task_id t" "task_attempts ?t1 = task_attempts t"
    by (simp_all add: settle_def split: sum.splits)
  have i: "task_id t = task_id (fst x)" using task_outcome_id [of E x] assms(1) by simp
  from 1 i show "task_status_of t' = outcome_status out" "tres_status res = outcome_status out"
    "tres_result res = (case out of Inr r \<Rightarrow> Some r | Inl _ \<Rightarrow> None)"
    "tres_error res = (case out of Inr _ \<Rightarrow> None | Inl e \<Rightarrow> Some e)"
    "tres_id res = task_id (fst x)" "task_id t' = task_id (fst x)" "task_attempts t' = task_attempts t"
    by (simp_all add: res t' result_record_def)
qed

lemma begin_execution_fst [simp]:
  "task_id (fst (begin_execution E x)) = task_id (fst x)"
  "task_attempts (fst (begin_execution E x)) = task_attempts (fst x)"
  "task_retry_count (fst (begin_execution E x)) = task_retry_count (fst x)"
  "task_token (fst (begin_execution E x)) = task_token (fst x)"
  by (cases x; simp add: begin_execution_def)+

lemma run_task_final:
  assumes "run_task E x = (res, (t', w'))"
  shows "is_complete t'" "tres_status res = task_status_of t'" "tres_id res = task_id (fst x)"
    "result_successful res \<longleftrightarrow> \<not> result_failed res"
    "get_result_or_raise res = (case tres_error res of None \<Rightarrow> Inr (tres_result res) | Some e \<Rightarrow> Inl (Result_Error e))"
proof -
  obtain out t w where out: "task_outcome E x = (out, (t, w))" by (metis prod.exhaust)
  note r = run_task_result [OF out assms]
  show "is_complete t'" using r(1) outcome_status_final [of out] by (simp add: is_complete_def)
  show "tres_status res = task_status_of t'" "tres_id res = task_id (fst x)" using r by simp_all
  show "result_successful res \<longleftrightarrow> \<not> result_failed res"
    "get_result_or_raise res = (case tres_error res of None \<Rightarrow> Inr (tres_result res) | Some e \<Rightarrow> Inl (Result_Error e))"
    using r(2-4) by (cases out rule: outcome_status.cases;
      simp add: result_successful_def result_failed_def get_result_or_raise_def)+
qed

text \<open>
  However the function, the token, the reporter and the callbacks behave, executing a task
  ends it in one of the three final states, with a result that says the same, that is successful
  or failed but never both, and after at most \<open>retry_count + 1\<close> attempts.
\<close>
theorem execute_ends_the_task:
  assumes "task_attempts t = 0" and "execute_task E (t, w) = (res, (t', w'))"
  shows "is_complete t' \<and> tres_status res = task_status_of t' \<and> (result_successful res \<longleftrightarrow> \<not> result_failed res) \<and>
    task_attempts t' \<le> nat (task_retry_count t + 1)"
proof -
  obtain t0 w0 where b: "begin_execution E (t, w) = (t0, w0)" by (metis prod.exhaust)
  obtain out t1 w1 where out: "task_outcome E (t0, w0) = (out, (t1, w1))" by (metis prod.exhaust)
  have run: "run_task E (t0, w0) = (res, (t', w'))" using assms(2) b by (simp add: execute_task_def)
  have "task_attempts t0 = 0" "task_retry_count t0 = task_retry_count t"
    using begin_execution_fst [of E "(t, w)"] b assms(1) by simp_all
  with task_outcome_attempts [of t0 E w0] out run_task_result(7) [OF out run]
  have "task_attempts t' \<le> nat (task_retry_count t + 1)" by simp
  with run_task_final [OF run] show ?thesis by simp
qed


text \<open>The attempt that decides: the first one that does not raise, or the last one allowed.\<close>

definition raises :: "('r, 'e) attempt \<Rightarrow> bool" where
  "raises a = (case a of Attempt_Raises _ \<Rightarrow> True | _ \<Rightarrow> False)"

definition attempt_outcome :: "('r, 'e) attempt \<Rightarrow> 'e task_error + 'r" where
  "attempt_outcome a =
     (case a of Attempt_Returns r \<Rightarrow> Inr r | Attempt_Raises e \<Rightarrow> Inl (Task_Raised e)
      | Attempt_Cancelled m \<Rightarrow> Inl (Op_Cancelled m))"

definition deciding_attempt :: "(nat \<Rightarrow> ('r, 'e) attempt) \<Rightarrow> nat \<Rightarrow> nat \<Rightarrow> nat" where
  "deciding_attempt out k n =
     (case find (\<lambda>j. \<not> raises (out j)) [k..<k + n] of Some j \<Rightarrow> j | None \<Rightarrow> k + n - 1)"

lemma deciding_attempt_Suc:
  "deciding_attempt out k (Suc n) =
     (if \<not> raises (out k) \<or> n = 0 then k else deciding_attempt out (Suc k) n)"
proof -
  have "[k..<k + Suc n] = k # [Suc k..<Suc k + n]" by (simp add: upt_conv_Cons)
  then show ?thesis by (auto simp: deciding_attempt_def split: option.splits)
qed

lemma deciding_attempt_spec:
  assumes "0 < n"
  shows "deciding_attempt out 0 n < n" "\<forall>j < deciding_attempt out 0 n. raises (out j)"
    "raises (out (deciding_attempt out 0 n)) \<longrightarrow> deciding_attempt out 0 n = n - 1"
proof -
  have upt: "\<And>i. i < n \<Longrightarrow> [0..<n] ! i = i" by simp
  show "deciding_attempt out 0 n < n" "\<forall>j < deciding_attempt out 0 n. raises (out j)"
    "raises (out (deciding_attempt out 0 n)) \<longrightarrow> deciding_attempt out 0 n = n - 1"
    using assms by (auto simp: deciding_attempt_def find_Some_iff find_None_iff split: option.splits)
qed

lemma retry_loop_decides:
  assumes "\<forall>t k w. fst (xe_call E t k w) = out k" and "task_token t = None" and "0 < n"
  shows "fst (task_retry_loop E n k last_error (t, w)) = attempt_outcome (out (deciding_attempt out k n)) \<and>
    task_attempts (fst (snd (task_retry_loop E n k last_error (t, w)))) = Suc (deciding_attempt out k n)"
  using assms(2,3)
proof (induction n arbitrary: k t w last_error)
  case (Suc n)
  let ?t1 = "t\<lparr>task_attempts := Suc k\<rparr>"
  obtain w1 where call: "xe_call E ?t1 k w = (out k, w1)"
    using assms(1) by (metis prod.exhaust fst_conv)
  have nc: "\<not> task_cancelled E (?t1, w)" using Suc.prems(1) by (simp add: task_cancelled_def)
  define x where "x = (if int k < task_retry_count t
      then report_retry E k (?t1, xe_sleep E (task_retry_delay t) w1) else (?t1, w1))"
  have x: "task_token (fst x) = None" "task_attempts (fst x) = Suc k"
    using Suc.prems(1) by (simp_all add: x_def)
  show ?case
  proof (cases "out k")
    case (Attempt_Raises e)
    then have step: "task_retry_loop E (Suc n) k last_error (t, w) = task_retry_loop E n (Suc k) (Task_Raised e) x"
      using call nc by (simp add: x_def Let_def)
    show ?thesis
    proof (cases "n = 0")
      case True
      with Attempt_Raises step x show ?thesis
        by (simp add: deciding_attempt_Suc attempt_outcome_def)
    next
      case False
      obtain t2 w2 where x2: "x = (t2, w2)" by (cases x)
      with Suc.IH [of t2 "Suc k" "Task_Raised e" w2] x False Attempt_Raises step show ?thesis
        by (simp add: deciding_attempt_Suc raises_def)
    qed
  qed (use call nc in \<open>simp_all add: Let_def deciding_attempt_Suc raises_def attempt_outcome_def\<close>)
qed simp

lemma execute_outcome:
  assumes "\<forall>t k w. fst (xe_call E t k w) = out k" and "task_token t = None" and "0 \<le> task_retry_count t"
    and "execute_task E (t, w) = (res, (t', w'))"
  shows "tres_status res = outcome_status (attempt_outcome (out (deciding_attempt out 0 (nat (task_retry_count t + 1))))) \<and>
     tres_error res = (case attempt_outcome (out (deciding_attempt out 0 (nat (task_retry_count t + 1)))) of
        Inl e \<Rightarrow> Some e | Inr _ \<Rightarrow> None) \<and>
     tres_result res = (case attempt_outcome (out (deciding_attempt out 0 (nat (task_retry_count t + 1)))) of
        Inl _ \<Rightarrow> None | Inr r \<Rightarrow> Some r) \<and>
     task_attempts t' = Suc (deciding_attempt out 0 (nat (task_retry_count t + 1)))"
proof -
  let ?n = "nat (task_retry_count t + 1)"
  obtain t0 w0 where b: "begin_execution E (t, w) = (t0, w0)" by (metis prod.exhaust)
  have t0: "task_token t0 = None" "task_retry_count t0 = task_retry_count t"
    using begin_execution_fst [of E "(t, w)"] b assms(2) by simp_all
  obtain t1 w1 where p: "setup_progress E (t0, w0) = (t1, w1)" by (metis prod.exhaust)
  have t1: "task_token t1 = None" "task_retry_count t1 = task_retry_count t"
    using setup_progress_keeps [of E "(t0, w0)"] p t0 by simp_all
  obtain out' t2 w2 where o: "task_outcome E (t0, w0) = (out', (t2, w2))" by (metis prod.exhaust)
  have "task_outcome E (t0, w0) = task_retry_loop E ?n 0 Raise_None_Error (t1, w1)"
    using t0 t1 p by (simp add: task_outcome_def task_cancelled_def execute_with_retry_def)
  with retry_loop_decides [OF assms(1) t1(1), of ?n 0 Raise_None_Error w1] assms(3) o
  have d: "out' = attempt_outcome (out (deciding_attempt out 0 ?n))" "task_attempts t2 = Suc (deciding_attempt out 0 ?n)"
    by simp_all
  have run: "run_task E (t0, w0) = (res, (t', w'))" using assms(4) b by (simp add: execute_task_def)
  from run_task_result [OF o run] d show ?thesis by (simp split: sum.splits)
qed

text \<open>
  Retrying: without a token, the result of a task is that of its first attempt that does not
  raise, or of the last of the \<open>retry_count + 1\<close> attempts when all of them raise; the attempts
  made are those up to the deciding one.
\<close>
theorem retry_takes_first_success:
  assumes "\<forall>t k w. fst (xe_call E t k w) = out k" and "task_token t = None" and "0 \<le> task_retry_count t"
    and "execute_task E (t, w) = (res, (t', w'))"
  shows "\<exists>k. k \<le> nat (task_retry_count t) \<and> task_attempts t' = Suc k \<and> (\<forall>j < k. raises (out j)) \<and>
     (raises (out k) \<longrightarrow> k = nat (task_retry_count t)) \<and>
     tres_error res = (case attempt_outcome (out k) of Inl e \<Rightarrow> Some e | Inr _ \<Rightarrow> None) \<and>
     tres_result res = (case attempt_outcome (out k) of Inl _ \<Rightarrow> None | Inr r \<Rightarrow> Some r) \<and>
     tres_status res = outcome_status (attempt_outcome (out k))"
proof (intro exI conjI)
  let ?n = "nat (task_retry_count t + 1)"
  have n: "0 < ?n" "nat (task_retry_count t) = ?n - 1" using assms(3) by auto
  note d = deciding_attempt_spec [OF n(1), of out]
  show "deciding_attempt out 0 ?n \<le> nat (task_retry_count t)" using d(1) n(2) by simp
  show "raises (out (deciding_attempt out 0 ?n)) \<longrightarrow> deciding_attempt out 0 ?n = nat (task_retry_count t)"
    using d(3) n(2) by simp
  show "\<forall>j < deciding_attempt out 0 ?n. raises (out j)" by (rule d(2))
qed (use execute_outcome [OF assms] in simp_all)

text \<open>With a negative \<open>retry_count\<close> the function is never called and the task fails.\<close>
theorem negative_retries_fail:
  assumes "task_retry_count t < 0" and "task_token t = None" and "execute_task E (t, w) = (res, (t', w'))"
  shows "tres_status res = Task_Failed \<and> tres_error res = Some Raise_None_Error"
proof -
  obtain t0 w0 where b: "begin_execution E (t, w) = (t0, w0)" by (metis prod.exhaust)
  have t0: "task_token t0 = None" "task_retry_count t0 = task_retry_count t"
    using begin_execution_fst [of E "(t, w)"] b assms(2) by simp_all
  have "task_outcome E (t0, w0) = (Inl Raise_None_Error, setup_progress E (t0, w0))"
    using t0 assms(1) by (simp add: task_outcome_def task_cancelled_def execute_with_retry_def)
  moreover have "run_task E (t0, w0) = (res, (t', w'))" using assms(3) b by (simp add: execute_task_def)
  ultimately show ?thesis using run_task_result [of E "(t0, w0)"] by (metis outcome_status.simps(4) prod.exhaust old.sum.simps(5))
qed


subsection \<open>The queue\<close>

datatype ('r, 'e, 'c, 'd) worker =
    W_Waiting
  | W_Fetched "('r, 'e, 'c, 'd) task"
  | W_Executing "('r, 'e, 'c, 'd) task"
  | W_Stopped

record queue_stats =
  total_queued :: nat
  total_completed :: nat
  total_failed :: nat
  total_cancelled :: nat

record ('r, 'e, 'c, 'd) tqueue =
  tq_max_concurrent :: int
  tq_max_size :: "int option"
  tq_pending :: "('r, 'e, 'c, 'd) task list"
  tq_running :: "(string, ('r, 'e, 'c, 'd) task) dict"
  tq_completed :: "(string, ('r, 'e, 'd) task_result) dict"
  tq_is_running :: bool
  tq_workers :: "('r, 'e, 'c, 'd) worker list"
  tq_worker_tasks :: "nat list"
  tq_shutdown :: bool
  tq_stats :: queue_stats

text \<open>
  \<open>tq_workers\<close> are the worker coroutines created so far and how far each has come;
  \<open>tq_worker_tasks\<close> are those that \<open>_worker_tasks\<close> refers to.
\<close>

definition new_tqueue :: "int \<Rightarrow> int option \<Rightarrow> ('r, 'e, 'c, 'd) tqueue" where
  "new_tqueue m cap =
     \<lparr>tq_max_concurrent = m, tq_max_size = cap, tq_pending = [], tq_running = [], tq_completed = [],
      tq_is_running = False, tq_workers = [], tq_worker_tasks = [], tq_shutdown = False,
      tq_stats = \<lparr>total_queued = 0, total_completed = 0, total_failed = 0, total_cancelled = 0\<rparr>\<rparr>"

definition pending_count :: "('r, 'e, 'c, 'd) tqueue \<Rightarrow> nat" where
  "pending_count q = length (tq_pending q)"

definition running_count :: "('r, 'e, 'c, 'd) tqueue \<Rightarrow> nat" where
  "running_count q = length (tq_running q)"

definition completed_count :: "('r, 'e, 'c, 'd) tqueue \<Rightarrow> nat" where
  "completed_count q = length (tq_completed q)"

definition pending_full :: "('r, 'e, 'c, 'd) tqueue \<Rightarrow> bool" where
  "pending_full q =
     (let m = (case tq_max_size q of None \<Rightarrow> 0 | Some m \<Rightarrow> m) in 0 < m \<and> m \<le> int (pending_count q))"

definition put_pending ::
  "('r, 'e, 'c, 'd) task \<Rightarrow> ('r, 'e, 'c, 'd) tqueue \<Rightarrow> ('r, 'e, 'c, 'd) tqueue" where
  "put_pending t q = q\<lparr>tq_pending := tq_pending q @ [t]\<rparr>"

definition count_queued :: "('r, 'e, 'c, 'd) tqueue \<Rightarrow> ('r, 'e, 'c, 'd) tqueue" where
  "count_queued q = q\<lparr>tq_stats := (tq_stats q)\<lparr>total_queued := Suc (total_queued (tq_stats q))\<rparr>\<rparr>"

definition tenqueue ::
  "('r, 'e, 'c, 'd) task \<Rightarrow> ('r, 'e, 'c, 'd) tqueue \<Rightarrow> string + string \<times> ('r, 'e, 'c, 'd) tqueue" where
  "tenqueue t q =
     (if \<not> tq_is_running q then Inl ''Task queue is not running''
      else if (case tq_max_size q of None \<Rightarrow> False | Some m \<Rightarrow> m \<noteq> 0 \<and> m \<le> int (pending_count q))
      then Inl ''Task queue is full''
      else Inr (task_id t, count_queued (put_pending t q)))"

definition enqueue_sync ::
  "('r, 'e, 'c, 'd) task \<Rightarrow> ('r, 'e, 'c, 'd) tqueue \<Rightarrow> string + string \<times> ('r, 'e, 'c, 'd) tqueue" where
  "enqueue_sync t q =
     (if \<not> tq_is_running q then Inl ''Task queue is not running''
      else if pending_full q then Inl ''Task queue is full''
      else Inr (task_id t, count_queued (put_pending t q)))"

definition next_pending :: "nat \<Rightarrow> ('r, 'e, 'c, 'd) tqueue \<Rightarrow> bool" where
  "next_pending k q =
     (k < pending_count q \<and> list_all (\<lambda>t. \<not> task_less t (tq_pending q ! k)) (tq_pending q))"

definition drop_nth :: "nat \<Rightarrow> 'a list \<Rightarrow> 'a list" where
  "drop_nth k xs = take k xs @ drop (Suc k) xs"

definition set_worker ::
  "nat \<Rightarrow> ('r, 'e, 'c, 'd) worker \<Rightarrow> ('r, 'e, 'c, 'd) tqueue \<Rightarrow> ('r, 'e, 'c, 'd) tqueue" where
  "set_worker i s q = q\<lparr>tq_workers := (tq_workers q)[i := s]\<rparr>"

definition worker_fetch :: "nat \<Rightarrow> nat \<Rightarrow> ('r, 'e, 'c, 'd) tqueue \<Rightarrow> ('r, 'e, 'c, 'd) tqueue" where
  "worker_fetch i k q =
     set_worker i (W_Fetched (tq_pending q ! k)) (q\<lparr>tq_pending := drop_nth k (tq_pending q)\<rparr>)"

definition worker_dispatch ::
  "nat \<Rightarrow> ('r, 'e, 'c, 'd) task \<Rightarrow> ('r, 'e, 'c, 'd) task \<Rightarrow> ('r, 'e, 'c, 'd) tqueue \<Rightarrow>
   ('r, 'e, 'c, 'd) tqueue" where
  "worker_dispatch i t t' q =
     (if tq_shutdown q then set_worker i W_Stopped (put_pending t q)
      else set_worker i (W_Executing t') (q\<lparr>tq_running := AList.update (task_id t') t' (tq_running q)\<rparr>))"

definition count_result :: "task_status \<Rightarrow> queue_stats \<Rightarrow> queue_stats" where
  "count_result st s =
     (if st = Task_Completed then s\<lparr>total_completed := Suc (total_completed s)\<rparr>
      else if st = Task_Failed then s\<lparr>total_failed := Suc (total_failed s)\<rparr>
      else if st = Task_Cancelled then s\<lparr>total_cancelled := Suc (total_cancelled s)\<rparr>
      else s)"

definition forget_running :: "string \<Rightarrow> ('r, 'e, 'c, 'd) tqueue \<Rightarrow> ('r, 'e, 'c, 'd) tqueue" where
  "forget_running i q = q\<lparr>tq_running := AList.delete i (tq_running q)\<rparr>"

definition next_round :: "nat \<Rightarrow> ('r, 'e, 'c, 'd) tqueue \<Rightarrow> ('r, 'e, 'c, 'd) tqueue" where
  "next_round i q = set_worker i (if tq_is_running q then W_Waiting else W_Stopped) q"

definition worker_finish ::
  "nat \<Rightarrow> ('r, 'e, 'c, 'd) task \<Rightarrow> ('r, 'e, 'd) task_result \<Rightarrow> ('r, 'e, 'c, 'd) tqueue \<Rightarrow>
   ('r, 'e, 'c, 'd) tqueue" where
  "worker_finish i t res q =
     next_round i (forget_running (task_id t)
       (q\<lparr>tq_completed := AList.update (task_id t) res (tq_completed q),
          tq_stats := count_result (tres_status res) (tq_stats q)\<rparr>))"

definition worker_abort :: "nat \<Rightarrow> ('r, 'e, 'c, 'd) task \<Rightarrow> ('r, 'e, 'c, 'd) tqueue \<Rightarrow> ('r, 'e, 'c, 'd) tqueue" where
  "worker_abort i t q = set_worker i W_Stopped (forget_running (task_id t) q)"

definition start_queue :: "('r, 'e, 'c, 'd) tqueue \<Rightarrow> ('r, 'e, 'c, 'd) tqueue" where
  "start_queue q =
     (if tq_is_running q then q
      else (let n = length (tq_workers q); m = nat (tq_max_concurrent q) in
            q\<lparr>tq_is_running := True, tq_shutdown := False,
              tq_workers := tq_workers q @ replicate m W_Waiting, tq_worker_tasks := [n..<n + m]\<rparr>))"

definition stop_begin :: "('r, 'e, 'c, 'd) tqueue \<Rightarrow> ('r, 'e, 'c, 'd) tqueue" where
  "stop_begin q = (if tq_is_running q then q\<lparr>tq_is_running := False, tq_shutdown := True\<rparr> else q)"

definition stop_end :: "('r, 'e, 'c, 'd) tqueue \<Rightarrow> ('r, 'e, 'c, 'd) tqueue" where
  "stop_end q = q\<lparr>tq_worker_tasks := []\<rparr>"

definition tokens_to_cancel :: "('r, 'e, 'c, 'd) tqueue \<Rightarrow> nat list" where
  "tokens_to_cancel q = List.map_filter (\<lambda>(i, t). task_token t) (tq_running q)"

definition cancel_running ::
  "('c, 'w, 'x) token_env \<Rightarrow> ('r, 'e, 'c', 'd) tqueue \<Rightarrow> ('c, 'w) token_heap \<Rightarrow> ('c, 'w) token_heap option" where
  "cancel_running E q s = run_callbacks (\<lambda>r. cancel_token E r (Some ''Queue shutdown'')) (tokens_to_cancel q) s"

definition clear_completed ::
  "int option \<Rightarrow> ('r, 'e, 'c, 'd) tqueue \<Rightarrow> nat \<times> ('r, 'e, 'c, 'd) tqueue" where
  "clear_completed older_than q =
     (if older_than = None \<or> older_than = Some 0
      then (length (tq_completed q), q\<lparr>tq_completed := []\<rparr>)
      else (let to_remove = map fst (tq_completed q) in
            (length to_remove, q\<lparr>tq_completed := fold AList.delete to_remove (tq_completed q)\<rparr>)))"

definition get_task_status :: "string \<Rightarrow> ('r, 'e, 'c, 'd) tqueue \<Rightarrow> task_status option" where
  "get_task_status i q =
     (case map_of (tq_completed q) i of
        Some res \<Rightarrow> Some (tres_status res)
      | None \<Rightarrow> map_option task_status_of (map_of (tq_running q) i))"

definition get_task_result :: "string \<Rightarrow> ('r, 'e, 'c, 'd) tqueue \<Rightarrow> ('r, 'e, 'd) task_result option" where
  "get_task_result i q = map_of (tq_completed q) i"

text \<open>One round of the loop of \<open>wait_for_task\<close>; a round that finds nothing to report sleeps.\<close>

datatype ('r, 'e, 'd) wait_answer =
    Wait_Result "('r, 'e, 'd) task_result"
  | Wait_Timeout
  | Wait_Key_Error
  | Wait_Again

definition wait_round ::
  "string \<Rightarrow> bool \<Rightarrow> ('r, 'e, 'c, 'd) tqueue \<Rightarrow> ('r, 'e, 'd) wait_answer" where
  "wait_round i timed_out q =
     (case map_of (tq_completed q) i of
        Some res \<Rightarrow> Wait_Result res
      | None \<Rightarrow>
          if timed_out then Wait_Timeout
          else if map_of (tq_running q) i = None \<and> \<not> list_ex (\<lambda>t. task_id t = i) (tq_pending q)
          then Wait_Key_Error else Wait_Again)"

subsection \<open>The interleaving of the workers\<close>

text \<open>
  \<open>tq_step E detach n q q'\<close>: one step from \<open>q\<close> to \<open>q'\<close>, in which \<open>n\<close> executing tasks are
  aborted. A task that is enqueued is new to the queue. The cancellation that \<open>stop\<close> sends reaches a worker
  while it waits or executes (rules \<open>stop_waiting\<close> and \<open>stop_abort\<close>); a worker that has fetched
  an element puts it back when it sees the shutdown flag. \<open>stop\<close> returns when all its workers have
  stopped or, with \<open>detach\<close>, at its timeout; the queue is not started again in the meantime.
\<close>

definition held_task :: "('r, 'e, 'c, 'd) worker \<Rightarrow> ('r, 'e, 'c, 'd) task list" where
  "held_task s = (case s of W_Fetched t \<Rightarrow> [t] | W_Executing t \<Rightarrow> [t] | _ \<Rightarrow> [])"

definition held_tasks :: "('r, 'e, 'c, 'd) tqueue \<Rightarrow> ('r, 'e, 'c, 'd) task list" where
  "held_tasks q = concat (map held_task (tq_workers q))"

definition known_ids :: "('r, 'e, 'c, 'd) tqueue \<Rightarrow> string list" where
  "known_ids q = map task_id (tq_pending q) @ map task_id (held_tasks q)"

definition worker_at :: "nat \<Rightarrow> ('r, 'e, 'c, 'd) worker \<Rightarrow> ('r, 'e, 'c, 'd) tqueue \<Rightarrow> bool" where
  "worker_at i s q = (i < length (tq_workers q) \<and> tq_workers q ! i = s)"

inductive tq_step ::
  "('r, 'e, 'c, 'd, 'w) task_env \<Rightarrow> bool \<Rightarrow> nat \<Rightarrow> ('r, 'e, 'c, 'd) tqueue \<Rightarrow> ('r, 'e, 'c, 'd) tqueue \<Rightarrow> bool"
  for E :: "('r, 'e, 'c, 'd, 'w) task_env" and detach :: bool where
  tq_enqueue: "task_id t \<notin> set (known_ids q) \<Longrightarrow> task_id t \<notin> fst ` set (tq_completed q) \<Longrightarrow>
     tenqueue t q = Inr (i, q') \<Longrightarrow> tq_step E detach 0 q q'"
| tq_enqueue_sync: "task_id t \<notin> set (known_ids q) \<Longrightarrow> task_id t \<notin> fst ` set (tq_completed q) \<Longrightarrow>
     enqueue_sync t q = Inr (i, q') \<Longrightarrow> tq_step E detach 0 q q'"
| tq_fetch: "worker_at i W_Waiting q \<Longrightarrow> next_pending k q \<Longrightarrow> tq_step E detach 0 q (worker_fetch i k q)"
| tq_dispatch: "worker_at i (W_Fetched t) q \<Longrightarrow> tq_shutdown q \<longrightarrow> \<not> pending_full q \<Longrightarrow>
     begin_execution E (t, w) = (t', w') \<Longrightarrow> tq_step E detach 0 q (worker_dispatch i t t' q)"
| tq_finish: "worker_at i (W_Executing t) q \<Longrightarrow> run_task E (t, w) = (res, x) \<Longrightarrow>
     tq_step E detach 0 q (worker_finish i t res q)"
| tq_start: "tq_worker_tasks q = [] \<Longrightarrow> tq_step E detach 0 q (start_queue q)"
| tq_stop: "tq_step E detach 0 q (stop_begin q)"
| tq_stop_waiting: "worker_at i W_Waiting q \<Longrightarrow> \<not> tq_is_running q \<Longrightarrow>
     tq_step E detach 0 q (set_worker i W_Stopped q)"
| tq_stop_abort: "worker_at i (W_Executing t) q \<Longrightarrow> \<not> tq_is_running q \<Longrightarrow>
     tq_step E detach 1 q (worker_abort i t q)"
| tq_stop_end: "\<not> tq_is_running q \<Longrightarrow> detach \<or> (\<forall>i \<in> set (tq_worker_tasks q). worker_at i W_Stopped q) \<Longrightarrow>
     tq_step E detach 0 q (stop_end q)"
| tq_clear: "tq_step E detach 0 q (snd (clear_completed older_than q))"

inductive tq_run ::
  "('r, 'e, 'c, 'd, 'w) task_env \<Rightarrow> bool \<Rightarrow> ('r, 'e, 'c, 'd) tqueue \<Rightarrow> nat \<Rightarrow> ('r, 'e, 'c, 'd) tqueue \<Rightarrow> bool"
  for E :: "('r, 'e, 'c, 'd, 'w) task_env" and detach :: bool and q :: "('r, 'e, 'c, 'd) tqueue" where
  tq_run_start: "tq_run E detach q 0 q"
| tq_run_step: "tq_run E detach q n q1 \<Longrightarrow> tq_step E detach m q1 q2 \<Longrightarrow> tq_run E detach q (n + m) q2"


subsection \<open>The invariant of the queue\<close>

definition executing_task :: "('r, 'e, 'c, 'd) worker \<Rightarrow> ('r, 'e, 'c, 'd) task list" where
  "executing_task s = (case s of W_Executing t \<Rightarrow> [t] | _ \<Rightarrow> [])"

definition executing_tasks :: "('r, 'e, 'c, 'd) tqueue \<Rightarrow> ('r, 'e, 'c, 'd) task list" where
  "executing_tasks q = concat (map executing_task (tq_workers q))"

definition final_counts :: "queue_stats \<Rightarrow> nat" where
  "final_counts s = total_completed s + total_failed s + total_cancelled s"

definition results_ok :: "(string, ('r, 'e, 'd) task_result) dict \<Rightarrow> bool" where
  "results_ok d = (\<forall>(i, res) \<in> set d. tres_id res = i \<and>
     tres_status res \<in> {Task_Completed, Task_Failed, Task_Cancelled})"

definition tq_ok :: "('r, 'e, 'c, 'd) tqueue \<Rightarrow> bool" where
  "tq_ok q \<longleftrightarrow> distinct (known_ids q) \<and> dict_ok (tq_completed q) \<and> results_ok (tq_completed q) \<and>
     set (known_ids q) \<inter> fst ` set (tq_completed q) = {} \<and>
     mset (tq_running q) = mset (map (\<lambda>t. (task_id t, t)) (executing_tasks q)) \<and>
     (tq_is_running q \<longrightarrow> \<not> tq_shutdown q)"

lemma mset_concat_update:
  assumes "i < length ws"
  shows "mset (concat (map f (ws[i := s]))) + mset (f (ws ! i)) = mset (concat (map f ws)) + mset (f s)"
proof -
  have "ws[i := s] = take i ws @ s # drop (Suc i) ws" by (rule upd_conv_take_nth_drop [OF assms])
  moreover have "mset (concat (map f ws)) = mset (concat (map f (take i ws @ ws ! i # drop (Suc i) ws)))"
    using id_take_nth_drop [OF assms] by simp
  ultimately show ?thesis by (simp add: ac_simps)
qed

lemma held_tasks_set_worker:
  "worker_at i s0 q \<Longrightarrow>
    mset (held_tasks (set_worker i s q)) + mset (held_task s0) = mset (held_tasks q) + mset (held_task s)"
  using mset_concat_update [of i "tq_workers q" held_task s]
  by (auto simp: held_tasks_def set_worker_def worker_at_def)

lemma executing_tasks_set_worker:
  "worker_at i s0 q \<Longrightarrow>
    mset (executing_tasks (set_worker i s q)) + mset (executing_task s0) = mset (executing_tasks q) + mset (executing_task s)"
  using mset_concat_update [of i "tq_workers q" executing_task s]
  by (auto simp: executing_tasks_def set_worker_def worker_at_def)

lemma set_worker_keeps [simp]:
  "tq_pending (set_worker i s q) = tq_pending q" "tq_running (set_worker i s q) = tq_running q"
  "tq_completed (set_worker i s q) = tq_completed q" "tq_is_running (set_worker i s q) = tq_is_running q"
  "tq_worker_tasks (set_worker i s q) = tq_worker_tasks q" "tq_shutdown (set_worker i s q) = tq_shutdown q"
  "tq_stats (set_worker i s q) = tq_stats q" "tq_max_concurrent (set_worker i s q) = tq_max_concurrent q"
  "tq_max_size (set_worker i s q) = tq_max_size q" "(tq_workers (set_worker i s q) = []) = (tq_workers q = [])"
  "length (tq_workers (set_worker i s q)) = length (tq_workers q)"
  by (simp_all add: set_worker_def)

lemma held_executing_simps [simp]:
  "held_task W_Waiting = []" "held_task (W_Fetched t) = [t]" "held_task (W_Executing t) = [t]" "held_task W_Stopped = []"
  "executing_task W_Waiting = []" "executing_task (W_Fetched t) = []" "executing_task (W_Executing t) = [t]"
  "executing_task W_Stopped = []"
  by (simp_all add: held_task_def executing_task_def)

lemma tasks_other_fields [simp]:
  "held_tasks (q\<lparr>tq_pending := p\<rparr>) = held_tasks q" "held_tasks (q\<lparr>tq_running := r\<rparr>) = held_tasks q"
  "held_tasks (q\<lparr>tq_completed := c\<rparr>) = held_tasks q" "held_tasks (q\<lparr>tq_stats := st\<rparr>) = held_tasks q"
  "executing_tasks (q\<lparr>tq_pending := p\<rparr>) = executing_tasks q" "executing_tasks (q\<lparr>tq_running := r\<rparr>) = executing_tasks q"
  "executing_tasks (q\<lparr>tq_completed := c\<rparr>) = executing_tasks q" "executing_tasks (q\<lparr>tq_stats := st\<rparr>) = executing_tasks q"
  "worker_at i s (q\<lparr>tq_pending := p\<rparr>) = worker_at i s q" "worker_at i s (q\<lparr>tq_running := r\<rparr>) = worker_at i s q"
  "worker_at i s (q\<lparr>tq_completed := c\<rparr>) = worker_at i s q" "worker_at i s (q\<lparr>tq_stats := st\<rparr>) = worker_at i s q"
  by (simp_all add: held_tasks_def executing_tasks_def worker_at_def)

lemma mset_drop_nth: "k < length xs \<Longrightarrow> mset (drop_nth k xs) + {#xs ! k#} = mset xs"
  using id_take_nth_drop [of k xs] by (metis drop_nth_def mset.simps(2) mset_append union_mset_add_mset_right add_mset_add_single)

lemma mset_known_ids: "mset (known_ids q) = image_mset task_id (mset (tq_pending q) + mset (held_tasks q))"
  by (simp add: known_ids_def)

lemma known_ids_same:
  assumes "mset (tq_pending q') + mset (held_tasks q') = mset (tq_pending q) + mset (held_tasks q)"
  shows "mset (known_ids q') = mset (known_ids q)"
  unfolding mset_known_ids assms ..

lemma executing_held: "set (executing_tasks q) \<subseteq> set (held_tasks q)"
  by (auto simp: executing_tasks_def held_tasks_def executing_task_def held_task_def split: worker.splits)

lemma mset_update_new: "k \<notin> fst ` set d \<Longrightarrow> mset (AList.update k v d) = add_mset (k, v) (mset d)"
  by (simp add: update_new)

lemma mset_delete_present:
  assumes "dict_ok d" and "(k, v) \<in> set d"
  shows "mset (AList.delete k d) = mset d - {#(k, v)#}"
proof -
  from assms(2) obtain xs ys where d: "d = xs @ (k, v) # ys" by (auto simp: in_set_conv_decomp)
  with assms(1) have "k \<notin> fst ` set xs" "k \<notin> fst ` set ys" by auto
  moreover have "AList.delete k d = AList.delete k xs @ AList.delete k ys"
    by (simp add: d AList.delete_eq)
  ultimately show ?thesis by (simp add: d)
qed


lemma tq_ok_update:
  assumes "tq_ok q" and "mset (known_ids q') = mset (known_ids q)" and "tq_completed q' = tq_completed q"
    and "mset (tq_running q') = mset (map (\<lambda>t. (task_id t, t)) (executing_tasks q'))"
    and "(tq_is_running q' \<longrightarrow> \<not> tq_shutdown q')"
  shows "tq_ok q'"
proof -
  have "distinct (known_ids q') = distinct (known_ids q)" "set (known_ids q') = set (known_ids q)"
    using mset_eq_imp_distinct_iff [OF assms(2)] mset_eq_setD [OF assms(2)] by simp_all
  with assms show ?thesis by (simp add: tq_ok_def)
qed

lemma running_executing:
  assumes "tq_ok q"
  shows "set (tq_running q) = (\<lambda>t. (task_id t, t)) ` set (executing_tasks q)" "dict_ok (tq_running q)"
    "fst ` set (tq_running q) \<subseteq> task_id ` set (held_tasks q)"
proof -
  have m: "mset (tq_running q) = mset (map (\<lambda>t. (task_id t, t)) (executing_tasks q))"
    using assms by (simp add: tq_ok_def)
  from mset_eq_setD [OF m] show s: "set (tq_running q) = (\<lambda>t. (task_id t, t)) ` set (executing_tasks q)" by simp
  have "distinct (map task_id (held_tasks q))" using assms by (simp add: tq_ok_def known_ids_def)
  moreover have "mset (map fst (tq_running q)) = mset (map task_id (executing_tasks q))"
    using arg_cong [OF m, of "image_mset fst"] by (simp add: multiset.map_comp comp_def)
  moreover have "distinct (map task_id (executing_tasks q))" if "distinct (map task_id (held_tasks q))"
  proof -
    have "mset (executing_tasks q) \<subseteq># mset (held_tasks q)"
      unfolding executing_tasks_def held_tasks_def
    proof (induction "tq_workers q" arbitrary: q)
      case (Cons s ws)
      show ?case unfolding Cons.hyps(2) [symmetric]
        using Cons.hyps(1) [of "q\<lparr>tq_workers := ws\<rparr>"] by (cases s) (auto intro: subset_mset.order_trans)
    qed simp
    then have "mset (map task_id (executing_tasks q)) \<subseteq># mset (map task_id (held_tasks q))"
      by (simp add: image_mset_subseteq_mono)
    with that show ?thesis
      by (metis distinct_append mset_append mset_eq_imp_distinct_iff subset_mset.add_diff_inverse ex_mset)
  qed
  ultimately show "dict_ok (tq_running q)" using mset_eq_imp_distinct_iff by blast
  show "fst ` set (tq_running q) \<subseteq> task_id ` set (held_tasks q)"
    using s executing_held [of q] by auto
qed

lemma worker_at_held: "worker_at i s q \<Longrightarrow> set (held_task s) \<subseteq> set (held_tasks q)"
  unfolding worker_at_def held_tasks_def by (auto intro: nth_mem)

lemma worker_at_executing: "worker_at i s q \<Longrightarrow> set (executing_task s) \<subseteq> set (executing_tasks q)"
  unfolding worker_at_def executing_tasks_def by (auto intro: nth_mem)

lemma executing_worker:
  assumes "u \<in> set (executing_tasks q)"
  obtains j where "worker_at j (W_Executing u) q"
proof -
  from assms obtain s where "s \<in> set (tq_workers q)" "s = W_Executing u"
    by (auto simp: executing_tasks_def executing_task_def split: worker.splits)
  with that show thesis by (auto simp: in_set_conv_nth worker_at_def)
qed

lemma fetched_not_running:
  assumes "tq_ok q" and "worker_at i (W_Fetched t) q"
  shows "task_id t \<notin> fst ` set (tq_running q)"
proof
  assume "task_id t \<in> fst ` set (tq_running q)"
  then obtain u where u: "u \<in> set (executing_tasks q)" "task_id u = task_id t"
    using running_executing(1) [OF assms(1)] by auto
  from executing_worker [OF u(1)] obtain j where j: "worker_at j (W_Executing u) q" .
  with assms(2) have "i \<noteq> j" by (auto simp: worker_at_def)
  with assms(2) j have w1: "worker_at j (W_Executing u) (set_worker i W_Stopped q)"
    by (simp add: worker_at_def set_worker_def)
  let ?q1 = "set_worker i W_Stopped q"
  have "add_mset t (mset (held_tasks ?q1)) = mset (held_tasks q)"
    using held_tasks_set_worker [OF assms(2), of W_Stopped] by simp
  moreover have "add_mset u (mset (held_tasks (set_worker j W_Stopped ?q1))) = mset (held_tasks ?q1)"
    using held_tasks_set_worker [OF w1, of W_Stopped] by simp
  ultimately have "mset (map task_id (held_tasks q)) =
      add_mset (task_id t) (add_mset (task_id u) (image_mset task_id (mset (held_tasks (set_worker j W_Stopped ?q1)))))"
    by (metis image_mset_add_mset mset_map)
  then have "2 \<le> count (mset (map task_id (held_tasks q))) (task_id t)"
    using u(2) by simp
  moreover have "distinct (map task_id (held_tasks q))" using assms(1) by (simp add: tq_ok_def known_ids_def)
  ultimately show False
    using distinct_count_atmost_1 [of "map task_id (held_tasks q)"] by (auto split: if_splits dest!: spec [of _ "task_id t"])
qed

lemma worker_at_nonempty: "worker_at i s q \<Longrightarrow> tq_workers q \<noteq> []"
  by (auto simp: worker_at_def)

lemma fetch_ok:
  assumes "tq_ok q" and "worker_at i W_Waiting q" and "next_pending k q"
  shows "tq_ok (worker_fetch i k q)" "length (known_ids (worker_fetch i k q)) = length (known_ids q)"
    "mset (known_ids (worker_fetch i k q)) = mset (known_ids q)"
proof -
  let ?p = "q\<lparr>tq_pending := drop_nth k (tq_pending q)\<rparr>" and ?t = "tq_pending q ! k"
  have w: "worker_at i W_Waiting ?p" using assms(2) by simp
  have k: "mset (drop_nth k (tq_pending q)) + {#?t#} = mset (tq_pending q)"
    by (rule mset_drop_nth) (use assms(3) in \<open>simp add: next_pending_def pending_count_def\<close>)
  show ids: "mset (known_ids (worker_fetch i k q)) = mset (known_ids q)"
    by (rule known_ids_same)
      (use held_tasks_set_worker [OF w, of "W_Fetched ?t"] k in \<open>simp add: worker_fetch_def ac_simps\<close>)
  show "length (known_ids (worker_fetch i k q)) = length (known_ids q)"
    by (rule mset_eq_length [OF ids])
  show "tq_ok (worker_fetch i k q)"
    by (rule tq_ok_update [OF assms(1) ids])
      (use assms(1) executing_tasks_set_worker [OF w, of "W_Fetched ?t"] in \<open>simp_all add: worker_fetch_def tq_ok_def\<close>)
qed

lemma dispatch_ok:
  assumes "tq_ok q" and "worker_at i (W_Fetched t) q" and "task_id t' = task_id t"
  shows "tq_ok (worker_dispatch i t t' q)" "mset (known_ids (worker_dispatch i t t' q)) = mset (known_ids q)"
proof -
  have "tq_ok (worker_dispatch i t t' q) \<and> mset (known_ids (worker_dispatch i t t' q)) = mset (known_ids q)"
  proof (cases "tq_shutdown q")
    case True
    have w: "worker_at i (W_Fetched t) (put_pending t q)" using assms(2) by (simp add: put_pending_def)
    have ids: "mset (known_ids (worker_dispatch i t t' q)) = mset (known_ids q)"
      by (rule known_ids_same)
        (use held_tasks_set_worker [OF w, of W_Stopped] True in \<open>simp add: worker_dispatch_def put_pending_def ac_simps\<close>)
    moreover have "tq_ok (worker_dispatch i t t' q)"
      by (rule tq_ok_update [OF assms(1) ids])
        (use assms(1) True executing_tasks_set_worker [OF w, of W_Stopped]
          in \<open>simp_all add: worker_dispatch_def put_pending_def tq_ok_def\<close>)
    ultimately show ?thesis by simp
  next
    case False
    let ?r = "q\<lparr>tq_running := AList.update (task_id t') t' (tq_running q)\<rparr>"
    have w: "worker_at i (W_Fetched t) ?r" using assms(2) by simp
    have h: "mset (held_tasks (worker_dispatch i t t' q)) + {#t#} = mset (held_tasks q) + {#t'#}"
      using held_tasks_set_worker [OF w, of "W_Executing t'"] False by (simp add: worker_dispatch_def)
    have ids: "mset (known_ids (worker_dispatch i t t' q)) = mset (known_ids q)"
      using arg_cong [OF h, of "image_mset task_id"] False assms(3)
      by (simp add: mset_known_ids worker_dispatch_def)
    have "task_id t \<notin> fst ` set (tq_running q)"
      by (rule fetched_not_running [OF assms(1,2)])
    then have m: "mset (tq_running (worker_dispatch i t t' q)) = add_mset (task_id t', t') (mset (tq_running q))"
      using False assms(3) by (simp add: worker_dispatch_def mset_update_new)
    have "mset (executing_tasks (worker_dispatch i t t' q)) = add_mset t' (mset (executing_tasks q))"
      using executing_tasks_set_worker [OF w, of "W_Executing t'"] False by (simp add: worker_dispatch_def)
    then have "tq_ok (worker_dispatch i t t' q)"
      by (intro tq_ok_update [OF assms(1) ids])
        (use assms(1) m False in \<open>simp_all add: worker_dispatch_def tq_ok_def\<close>)
    with ids show ?thesis by simp
  qed
  then show "tq_ok (worker_dispatch i t t' q)" "mset (known_ids (worker_dispatch i t t' q)) = mset (known_ids q)"
    by simp_all
qed


lemma release_ok:
  assumes "tq_ok q" and "worker_at i (W_Executing t) q" and "s = W_Waiting \<or> s = W_Stopped"
    and "(tq_is_running q \<longrightarrow> \<not> tq_shutdown q)"
  defines "q' \<equiv> set_worker i s (forget_running (task_id t) q)"
  shows "mset (known_ids q) = add_mset (task_id t) (mset (known_ids q'))"
    "mset (tq_running q') = mset (map (\<lambda>t. (task_id t, t)) (executing_tasks q'))"
proof -
  have w: "worker_at i (W_Executing t) (forget_running (task_id t) q)"
    using assms(2) by (simp add: forget_running_def)
  have e: "held_task s = []" "executing_task s = []" using assms(3) by auto
  have "mset (held_tasks q) = add_mset t (mset (held_tasks q'))"
    using held_tasks_set_worker [OF w, of s] e by (simp add: q'_def forget_running_def)
  then show "mset (known_ids q) = add_mset (task_id t) (mset (known_ids q'))"
    by (simp add: mset_known_ids q'_def forget_running_def)
  have x: "mset (executing_tasks q) = add_mset t (mset (executing_tasks q'))"
    using executing_tasks_set_worker [OF w, of s] e by (simp add: q'_def forget_running_def)
  have "(task_id t, t) \<in> set (tq_running q)"
    using worker_at_executing [OF assms(2)] running_executing(1) [OF assms(1)] by simp
  then have "mset (tq_running q') = mset (tq_running q) - {#(task_id t, t)#}"
    using running_executing(2) [OF assms(1)] by (simp add: q'_def forget_running_def mset_delete_present)
  then show "mset (tq_running q') = mset (map (\<lambda>t. (task_id t, t)) (executing_tasks q'))"
    using assms(1) x by (simp add: tq_ok_def)
qed

lemma tq_ok_release:
  assumes "tq_ok q" and "mset (known_ids q) = add_mset i (mset (known_ids q'))"
    and "mset (tq_running q') = mset (map (\<lambda>t. (task_id t, t)) (executing_tasks q'))"
    and "(tq_is_running q' \<longrightarrow> \<not> tq_shutdown q')"
    and "dict_ok (tq_completed q')" and "results_ok (tq_completed q')"
    and "fst ` set (tq_completed q') \<subseteq> insert i (fst ` set (tq_completed q))"
  shows "tq_ok q'"
proof -
  have "mset (known_ids q) = mset (i # known_ids q')" using assms(2) by simp
  from mset_eq_imp_distinct_iff [OF this] mset_eq_setD [OF this]
  have "distinct (i # known_ids q')" "set (known_ids q') \<subseteq> set (known_ids q)"
    using assms(1) by (auto simp: tq_ok_def)
  with assms show ?thesis by (auto simp: tq_ok_def)
qed

lemma results_ok_update:
  assumes "results_ok d" and "tres_id res = i" and "tres_status res \<in> {Task_Completed, Task_Failed, Task_Cancelled}"
  shows "results_ok (AList.update i res d)"
  using assms by (auto simp: results_ok_def dest!: set_update_subset_pairs)

lemma finish_ok:
  assumes "tq_ok q" and "worker_at i (W_Executing t) q" and "run_task E (t, w) = (res, x)"
  shows "tq_ok (worker_finish i t res q)"
    "length (known_ids q) = Suc (length (known_ids (worker_finish i t res q)))"
    "final_counts (tq_stats (worker_finish i t res q)) = Suc (final_counts (tq_stats q))"
    "mset (known_ids q) = add_mset (task_id t) (mset (known_ids (worker_finish i t res q)))"
proof -
  obtain t' w' where x: "x = (t', w')" by (cases x)
  note run = run_task_final [OF assms(3) [unfolded x]]
  have final: "tres_status res \<in> {Task_Completed, Task_Failed, Task_Cancelled}"
    using run(1,2) by (simp add: is_complete_def)
  let ?s = "if tq_is_running q then W_Waiting else W_Stopped"
  let ?q0 = "set_worker i ?s (forget_running (task_id t) q)" and ?q' = "worker_finish i t res q"
  have same: "known_ids ?q' = known_ids ?q0" "tq_running ?q' = tq_running ?q0"
      "executing_tasks ?q' = executing_tasks ?q0" "tq_shutdown ?q' = tq_shutdown q" "tq_is_running ?q' = tq_is_running q"
      "(tq_workers ?q' = []) = (tq_workers q = [])"
    by (simp_all add: worker_finish_def next_round_def forget_running_def known_ids_def held_tasks_def
        executing_tasks_def set_worker_def)
  have sd: "(tq_is_running q \<longrightarrow> \<not> tq_shutdown q)" using assms(1) by (simp add: tq_ok_def)
  have s: "?s = W_Waiting \<or> ?s = W_Stopped" by simp
  note rel = release_ok [OF assms(1,2) s sd]
  show ids: "mset (known_ids q) = add_mset (task_id t) (mset (known_ids ?q'))" using rel(1) same by simp
  then show "length (known_ids q) = Suc (length (known_ids ?q'))"
    by (metis size_add_mset size_mset)
  show "final_counts (tq_stats ?q') = Suc (final_counts (tq_stats q))"
    using final by (auto simp: worker_finish_def next_round_def forget_running_def count_result_def final_counts_def)
  have c: "tq_completed ?q' = AList.update (task_id t) res (tq_completed q)"
    by (simp add: worker_finish_def next_round_def forget_running_def)
  show "tq_ok ?q'"
  proof (rule tq_ok_release [OF assms(1) ids])
    show "results_ok (tq_completed ?q')"
      unfolding c using assms(1) run(3) final by (intro results_ok_update) (simp_all add: tq_ok_def)
  qed (use rel(2) same sd assms(1) c in \<open>auto simp: tq_ok_def\<close>)
qed

lemma abort_ok:
  assumes "tq_ok q" and "worker_at i (W_Executing t) q"
  shows "tq_ok (worker_abort i t q)" "length (known_ids q) = Suc (length (known_ids (worker_abort i t q)))"
    "mset (known_ids q) = add_mset (task_id t) (mset (known_ids (worker_abort i t q)))"
proof -
  have sd: "(tq_is_running q \<longrightarrow> \<not> tq_shutdown q)" using assms(1) by (simp add: tq_ok_def)
  note rel = release_ok [where s = W_Stopped, OF assms(1,2) _ sd]
  show ids: "mset (known_ids q) = add_mset (task_id t) (mset (known_ids (worker_abort i t q)))"
    using rel(1) by (simp add: worker_abort_def)
  then show "length (known_ids q) = Suc (length (known_ids (worker_abort i t q)))"
    by (metis size_add_mset size_mset)
  show "tq_ok (worker_abort i t q)"
    by (rule tq_ok_release [OF assms(1) ids])
      (use rel(2) assms(1) sd in \<open>auto simp: worker_abort_def tq_ok_def forget_running_def\<close>)
qed

lemma put_counted_ok:
  assumes "tq_ok q" and "task_id t \<notin> set (known_ids q)" and "task_id t \<notin> fst ` set (tq_completed q)"
  shows "tq_ok (count_queued (put_pending t q))"
  using assms by (auto simp: tq_ok_def count_queued_def put_pending_def known_ids_def)

lemma tenqueue_result: "tenqueue t q = Inr (i, q') \<Longrightarrow> q' = count_queued (put_pending t q)"
  by (auto simp: tenqueue_def split: if_splits)

lemma enqueue_sync_result: "enqueue_sync t q = Inr (i, q') \<Longrightarrow> q' = count_queued (put_pending t q)"
  by (auto simp: enqueue_sync_def split: if_splits)

lemma count_queued_simps [simp]:
  "known_ids (count_queued q) = known_ids q" "known_ids (put_pending t q) = map task_id (tq_pending q) @ [task_id t] @ map task_id (held_tasks q)"
  "tq_stats (count_queued q) = (tq_stats q)\<lparr>total_queued := Suc (total_queued (tq_stats q))\<rparr>"
  "tq_stats (put_pending t q) = tq_stats q"
  by (simp_all add: count_queued_def put_pending_def known_ids_def)

lemma replicate_waiting [simp]:
  "concat (map held_task (replicate n W_Waiting)) = []" "concat (map executing_task (replicate n W_Waiting)) = []"
  by (induction n) simp_all

lemma start_queue_tasks [simp]:
  "known_ids (start_queue q) = known_ids q" "tq_completed (start_queue q) = tq_completed q"
  "tq_running (start_queue q) = tq_running q" "executing_tasks (start_queue q) = executing_tasks q"
  "tq_stats (start_queue q) = tq_stats q"
  by (simp_all add: start_queue_def known_ids_def held_tasks_def executing_tasks_def Let_def)

lemma start_queue_flags:
  "tq_ok q \<Longrightarrow> (tq_is_running (start_queue q) \<longrightarrow> \<not> tq_shutdown (start_queue q))"
  by (simp add: start_queue_def tq_ok_def Let_def)


text \<open>What is queued is accounted for: pending, in a worker's hands, counted as ended, or aborted.\<close>

definition queue_balanced :: "nat \<Rightarrow> ('r, 'e, 'c, 'd) tqueue \<Rightarrow> bool" where
  "queue_balanced lost q = (total_queued (tq_stats q) = length (known_ids q) + final_counts (tq_stats q) + lost)"

lemma final_counts_queued [simp]: "final_counts (s\<lparr>total_queued := n\<rparr>) = final_counts s"
  by (simp add: final_counts_def)

lemma queue_balanced_same:
  "queue_balanced l q \<Longrightarrow> tq_stats q' = tq_stats q \<Longrightarrow> mset (known_ids q') = mset (known_ids q) \<Longrightarrow> queue_balanced l q'"
  using mset_eq_length [of "known_ids q'" "known_ids q"] by (simp add: queue_balanced_def)

lemma queue_balanced_put: "queue_balanced l q \<Longrightarrow> queue_balanced l (count_queued (put_pending t q))"
  by (simp add: queue_balanced_def) (simp add: known_ids_def)

lemma worker_stats [simp]:
  "tq_stats (worker_fetch i k q) = tq_stats q" "tq_stats (worker_dispatch i t t' q) = tq_stats q"
  "tq_stats (worker_abort i t q) = tq_stats q"
  "total_queued (tq_stats (worker_finish i t res q)) = total_queued (tq_stats q)"
  by (auto simp: worker_fetch_def worker_dispatch_def worker_abort_def worker_finish_def forget_running_def
      next_round_def count_result_def put_pending_def)

lemma stop_waiting_ok:
  assumes "tq_ok q" and "worker_at i W_Waiting q"
  shows "tq_ok (set_worker i W_Stopped q)" "mset (known_ids (set_worker i W_Stopped q)) = mset (known_ids q)"
proof -
  show ids: "mset (known_ids (set_worker i W_Stopped q)) = mset (known_ids q)"
    by (rule known_ids_same) (use held_tasks_set_worker [OF assms(2), of W_Stopped] in simp)
  show "tq_ok (set_worker i W_Stopped q)"
    by (rule tq_ok_update [OF assms(1) ids])
      (use assms(1) executing_tasks_set_worker [OF assms(2), of W_Stopped] in \<open>simp_all add: tq_ok_def\<close>)
qed

lemma fold_delete_all: "set ks \<supseteq> fst ` set d \<Longrightarrow> fold AList.delete ks d = []"
proof (induction ks arbitrary: d)
  case (Cons k ks)
  have "fst ` set (AList.delete k d) \<subseteq> set ks" using Cons.prems by auto
  then show ?case using Cons.IH by simp
qed simp

lemma clear_completed_eq: "clear_completed older_than q = (length (tq_completed q), q\<lparr>tq_completed := []\<rparr>)"
  by (simp add: clear_completed_def Let_def fold_delete_all)

lemma simple_steps_ok:
  assumes "tq_ok q"
  shows "tq_ok (start_queue q)" "tq_ok (stop_begin q)" "tq_ok (stop_end q)" "tq_ok (snd (clear_completed older q))"
    "known_ids (stop_begin q) = known_ids q" "known_ids (stop_end q) = known_ids q"
    "known_ids (snd (clear_completed older q)) = known_ids q"
    "tq_stats (stop_begin q) = tq_stats q" "tq_stats (stop_end q) = tq_stats q"
    "tq_stats (snd (clear_completed older q)) = tq_stats q"
proof -
  show "tq_ok (start_queue q)" by (rule tq_ok_update [OF assms]) (use assms start_queue_flags in \<open>simp_all add: tq_ok_def\<close>)
  show "known_ids (stop_begin q) = known_ids q" "known_ids (stop_end q) = known_ids q"
    "known_ids (snd (clear_completed older q)) = known_ids q"
    "tq_stats (stop_begin q) = tq_stats q" "tq_stats (stop_end q) = tq_stats q"
    "tq_stats (snd (clear_completed older q)) = tq_stats q"
    by (simp_all add: stop_begin_def stop_end_def clear_completed_eq known_ids_def held_tasks_def)
  show "tq_ok (stop_begin q)" "tq_ok (stop_end q)" "tq_ok (snd (clear_completed older q))"
    using assms by (auto simp: tq_ok_def results_ok_def stop_begin_def stop_end_def clear_completed_eq known_ids_def
        held_tasks_def executing_tasks_def)
qed

lemma begin_execution_id: "begin_execution E (t, w) = (t', w') \<Longrightarrow> task_id t' = task_id t"
  by (auto simp: begin_execution_def)

lemma tq_step_ok:
  assumes "tq_step E detach n q q'" and "tq_ok q"
  shows "tq_ok q' \<and> (queue_balanced l q \<longrightarrow> queue_balanced (l + n) q')"
  using assms
proof (induction rule: tq_step.induct)
  case (tq_enqueue t q i q')
  then show ?case using put_counted_ok [of q t] queue_balanced_put [of l q t] by (simp add: tenqueue_result [OF tq_enqueue(3)])
next
  case (tq_enqueue_sync t q i q')
  then show ?case using put_counted_ok [of q t] queue_balanced_put [of l q t] by (simp add: enqueue_sync_result [OF tq_enqueue_sync(3)])
next
  case (tq_fetch i q k)
  note f = fetch_ok [OF tq_fetch(3,1,2)]
  from f(1) queue_balanced_same [OF _ _ f(3)] show ?case by simp
next
  case (tq_dispatch i t q w t' w')
  note f = dispatch_ok [OF tq_dispatch(4,1) begin_execution_id [OF tq_dispatch(3)]]
  from f(1) queue_balanced_same [OF _ _ f(2)] show ?case by simp
next
  case (tq_finish i t q w res x)
  from finish_ok [OF tq_finish(3,1,2)] show ?case by (simp add: queue_balanced_def)
next
  case (tq_start q)
  from simple_steps_ok [OF tq_start(2)] show ?case by (simp add: queue_balanced_def)
next
  case (tq_stop q)
  from simple_steps_ok [OF tq_stop] show ?case by (simp add: queue_balanced_def)
next
  case (tq_stop_waiting i q)
  note f = stop_waiting_ok [OF tq_stop_waiting(3,1)]
  from f(1) queue_balanced_same [OF _ _ f(2)] show ?case by simp
next
  case (tq_stop_abort i t q)
  from abort_ok [OF tq_stop_abort(3,1)] show ?case by (simp add: queue_balanced_def)
next
  case (tq_stop_end q)
  from simple_steps_ok [OF tq_stop_end(3)] show ?case by (simp add: queue_balanced_def)
next
  case (tq_clear q older_than)
  from simple_steps_ok [OF tq_clear] show ?case by (simp add: queue_balanced_def)
qed

lemmas tq_step_keeps_ok = tq_step_ok [THEN conjunct1]

lemma tq_run_ok:
  assumes "tq_run E detach q n q'" and "tq_ok q" and "queue_balanced l q"
  shows "tq_ok q' \<and> queue_balanced (l + n) q'"
  using assms
proof (induction rule: tq_run.induct)
  case (tq_run_step n q1 m q2)
  then show ?case using tq_step_ok [of E detach m q1 q2 "l + n"] by (simp add: add.assoc)
qed simp

lemma new_tqueue_ok: "tq_ok (new_tqueue m c)" "queue_balanced 0 (new_tqueue m c)"
  by (simp_all add: tq_ok_def queue_balanced_def new_tqueue_def known_ids_def held_tasks_def executing_tasks_def
      results_ok_def final_counts_def)



subsection \<open>Concurrency and stopping\<close>

definition tracked :: "('r, 'e, 'c, 'd) tqueue \<Rightarrow> bool" where
  "tracked q \<longleftrightarrow> (\<forall>i < length (tq_workers q). tq_workers q ! i \<noteq> W_Stopped \<longrightarrow> i \<in> set (tq_worker_tasks q)) \<and>
     length (tq_worker_tasks q) \<le> nat (tq_max_concurrent q)"

lemma tracked_set_worker:
  assumes "tracked q" and "worker_at i s0 q" and "s0 \<noteq> W_Stopped"
    and "tq_worker_tasks q' = tq_worker_tasks q" and "tq_max_concurrent q' = tq_max_concurrent q"
    and "tq_workers q' = (tq_workers q)[i := s]"
  shows "tracked q'"
  using assms by (auto simp: tracked_def nth_list_update worker_at_def)

lemma tracked_same_workers:
  assumes "tracked q" and "tq_worker_tasks q' = tq_worker_tasks q" and "tq_max_concurrent q' = tq_max_concurrent q"
    and "tq_workers q' = tq_workers q"
  shows "tracked q'"
  using assms by (simp add: tracked_def)

lemma tracked_start:
  assumes "tracked q" and "tq_worker_tasks q = []"
  shows "tracked (start_queue q)"
proof (cases "tq_is_running q")
  case False
  have "\<forall>i < length (tq_workers q). tq_workers q ! i = W_Stopped" using assms by (auto simp: tracked_def)
  with False show ?thesis by (auto simp: tracked_def start_queue_def Let_def nth_append)
qed (use assms in \<open>simp add: start_queue_def\<close>)

lemma tq_step_tracked:
  assumes "tq_step E False n q q'" and "tracked q"
  shows "tracked q' \<and> tq_max_concurrent q' = tq_max_concurrent q"
  using assms
proof (induction rule: tq_step.induct)
  case (tq_enqueue t q i q')
  then show ?case using tracked_same_workers [OF tq_enqueue(4)]
    by (simp add: tenqueue_result [OF tq_enqueue(3)] count_queued_def put_pending_def)
next
  case (tq_enqueue_sync t q i q')
  then show ?case using tracked_same_workers [OF tq_enqueue_sync(4)]
    by (simp add: enqueue_sync_result [OF tq_enqueue_sync(3)] count_queued_def put_pending_def)
next
  case (tq_fetch i q k)
  show ?case using tracked_set_worker [OF tq_fetch(3,1)] by (simp add: worker_fetch_def set_worker_def)
next
  case (tq_dispatch i t q w t' w')
  show ?case using tracked_set_worker [OF tq_dispatch(4,1)]
    by (simp add: worker_dispatch_def set_worker_def put_pending_def)
next
  case (tq_finish i t q w res x)
  show ?case using tracked_set_worker [OF tq_finish(3,1)]
    by (simp add: worker_finish_def next_round_def forget_running_def set_worker_def)
next
  case (tq_start q)
  then show ?case using tracked_start [of q] by (simp add: start_queue_def Let_def)
next
  case (tq_stop q)
  then show ?case using tracked_same_workers [OF tq_stop(1)] by (simp add: stop_begin_def)
next
  case (tq_stop_waiting i q)
  show ?case using tracked_set_worker [OF tq_stop_waiting(3,1)] by (simp add: set_worker_def)
next
  case (tq_stop_abort i t q)
  show ?case using tracked_set_worker [OF tq_stop_abort(3,1)]
    by (simp add: worker_abort_def forget_running_def set_worker_def)
next
  case (tq_stop_end q)
  then show ?case by (auto simp: tracked_def stop_end_def worker_at_def)
next
  case (tq_clear q older_than)
  then show ?case using tracked_same_workers [OF tq_clear] by (simp add: clear_completed_eq)
qed

lemma tq_run_tracked:
  assumes "tq_run E False q n q'" and "tracked q"
  shows "tracked q' \<and> tq_max_concurrent q' = tq_max_concurrent q"
  using assms by (induction rule: tq_run.induct) (auto dest: tq_step_tracked)

lemma executing_tasks_card:
  "length (executing_tasks q) = card {i. i < length (tq_workers q) \<and> executing_task (tq_workers q ! i) \<noteq> []}"
proof -
  have "length (concat (map executing_task ws)) = length (filter (\<lambda>s. executing_task s \<noteq> []) ws)"
    for ws :: "('a, 'b, 'c, 'd) worker list"
    by (induction ws) (auto simp: executing_task_def split: worker.splits)
  then show ?thesis by (simp add: executing_tasks_def length_filter_conv_card)
qed

lemma tracked_bound:
  assumes "tracked q"
  shows "length (executing_tasks q) \<le> nat (tq_max_concurrent q)"
proof -
  have "{i. i < length (tq_workers q) \<and> executing_task (tq_workers q ! i) \<noteq> []} \<subseteq> set (tq_worker_tasks q)"
  proof
    fix i assume i: "i \<in> {i. i < length (tq_workers q) \<and> executing_task (tq_workers q ! i) \<noteq> []}"
    then have "tq_workers q ! i \<noteq> W_Stopped" by (metis (mono_tags, lifting) held_executing_simps(8) mem_Collect_eq)
    with i assms show "i \<in> set (tq_worker_tasks q)" by (simp add: tracked_def)
  qed
  then have "length (executing_tasks q) \<le> card (set (tq_worker_tasks q))"
    unfolding executing_tasks_card by (intro card_mono) auto
  also have "\<dots> \<le> length (tq_worker_tasks q)" by (rule card_length)
  also have "\<dots> \<le> nat (tq_max_concurrent q)" using assms by (simp add: tracked_def)
  finally show ?thesis .
qed

lemma new_tqueue_tracked: "tracked (new_tqueue m c)"
  by (simp add: tracked_def new_tqueue_def)

lemma running_count_executing: "tq_ok q \<Longrightarrow> running_count q = length (executing_tasks q)"
proof -
  assume "tq_ok q"
  then have "mset (tq_running q) = mset (map (\<lambda>t. (task_id t, t)) (executing_tasks q))" by (simp add: tq_ok_def)
  from mset_eq_length [OF this] show ?thesis by (simp add: running_count_def)
qed


text \<open>
  A \<open>stop\<close> that waits for its workers cancels the token of no task: when they have all
  stopped, \<open>_running_tasks\<close> is empty and the loop that cancels the running tasks does nothing.
\<close>
theorem stop_cancels_no_token:
  assumes "tq_run E False (new_tqueue m c) n q" and "\<forall>i \<in> set (tq_worker_tasks q). worker_at i W_Stopped q"
  shows "tokens_to_cancel q = [] \<and> cancel_running CE q s = Some s"
proof -
  have "tracked q" using tq_run_tracked [OF assms(1) new_tqueue_tracked] by simp
  with assms(2) have stopped: "\<forall>i < length (tq_workers q). tq_workers q ! i = W_Stopped"
    by (auto simp: tracked_def worker_at_def)
  then have "length (executing_tasks q) = 0" by (simp add: executing_tasks_card)
  moreover have "running_count q = length (executing_tasks q)"
    using tq_run_ok [OF assms(1) new_tqueue_ok] running_count_executing by blast
  ultimately have "tq_running q = []" by (simp add: running_count_def)
  then show ?thesis by (simp add: tokens_to_cancel_def cancel_running_def map_filter_simps)
qed

text \<open>
  A task that \<open>stop\<close> interrupts vanishes: it has no status and no result any more, and
  \<open>wait_for_task\<close> raises a \<open>KeyError\<close> for it. The same error is raised for a task that a worker has
  fetched and not yet begun to execute.
\<close>
theorem interrupted_task_vanishes:
  assumes "tq_run E detach (new_tqueue m c) n q" and "worker_at i s q" and "held_task s = [t]"
  defines "q' \<equiv> (if s = W_Executing t then worker_abort i t q else q)"
  shows "get_task_status (task_id t) q' = None \<and> get_task_result (task_id t) q' = None \<and>
    wait_round (task_id t) False q' = Wait_Key_Error"
proof -
  have ok: "tq_ok q" using tq_run_ok [OF assms(1) new_tqueue_ok] by simp
  have t: "t \<in> set (held_tasks q)" using worker_at_held [OF assms(2)] assms(3) by simp
  have "task_id t \<notin> fst ` set (tq_completed q)" using ok t by (auto simp: tq_ok_def known_ids_def)
  moreover have c: "tq_completed q' = tq_completed q"
    by (simp add: q'_def worker_abort_def forget_running_def)
  moreover have "task_id t \<notin> task_id ` set (tq_pending q)"
    using ok t by (auto simp: tq_ok_def known_ids_def)
  moreover have p: "tq_pending q' = tq_pending q"
    by (simp add: q'_def worker_abort_def forget_running_def)
  moreover have "task_id t \<notin> fst ` set (tq_running q')"
  proof (cases "s = W_Executing t")
    case True
    then show ?thesis by (simp add: q'_def worker_abort_def forget_running_def)
  next
    case False
    with assms(3) have "s = W_Fetched t" by (simp add: held_task_def split: worker.splits)
    with False fetched_not_running [OF ok] assms(2) show ?thesis by (simp add: q'_def)
  qed
  ultimately have "map_of (tq_completed q') (task_id t) = None" "map_of (tq_running q') (task_id t) = None"
      "\<forall>u \<in> set (tq_pending q'). task_id u \<noteq> task_id t"
    unfolding map_of_None_keys by (auto simp: image_iff)
  then show ?thesis by (auto simp: get_task_status_def get_task_result_def wait_round_def list_ex_iff)
qed


subsection \<open>Order and progress\<close>

lemma task_less_trans: "task_less a b \<Longrightarrow> task_less b c \<Longrightarrow> task_less a c"
  by (auto simp: task_less_def split: if_splits)

lemma task_less_irrefl: "\<not> task_less a a"
  by (simp add: task_less_def)

lemma most_urgent_exists: "xs \<noteq> [] \<Longrightarrow> \<exists>t \<in> set xs. \<forall>u \<in> set xs. \<not> task_less u t"
proof (induction xs)
  case (Cons x xs)
  show ?case
  proof (cases "xs = []")
    case True
    then show ?thesis by (simp add: task_less_irrefl)
  next
    case False
    then obtain t where t: "t \<in> set xs" "\<forall>u \<in> set xs. \<not> task_less u t" using Cons.IH by blast
    show ?thesis
    proof (cases "task_less x t")
      case True
      then have "\<forall>u \<in> set (x # xs). \<not> task_less u x"
        using t task_less_irrefl task_less_trans [of _ x t] by auto
      then show ?thesis by auto
    qed (use t in auto)
  qed
qed simp

lemma next_pending_exists: "tq_pending q \<noteq> [] \<Longrightarrow> \<exists>k. next_pending k q"
  using most_urgent_exists [of "tq_pending q"]
  by (auto simp: next_pending_def pending_count_def list_all_iff in_set_conv_nth)

text \<open>
  Urgency: the task that a worker fetches has the highest priority of all pending tasks, and is
  the oldest of those with its priority; and a non-empty queue always has such a task.
\<close>
theorem most_urgent_first:
  "(next_pending k q \<longleftrightarrow> k < length (tq_pending q) \<and>
      (\<forall>t \<in> set (tq_pending q). task_prio t \<le> task_prio (tq_pending q ! k) \<and>
         (task_prio t = task_prio (tq_pending q ! k) \<longrightarrow> task_created_at (tq_pending q ! k) \<le> task_created_at t))) \<and>
   (tq_pending q \<noteq> [] \<longrightarrow> (\<exists>k. next_pending k q))"
proof
  have "\<not> task_less t u \<longleftrightarrow> task_prio t \<le> task_prio u \<and> (task_prio t = task_prio u \<longrightarrow> task_created_at u \<le> task_created_at t)"
    for t u :: "('a, 'b, 'c, 'd) task"
    by (cases "task_prio t"; cases "task_prio u")
      (auto simp: task_less_def less_eq_task_priority_def)
  then show "next_pending k q \<longleftrightarrow> k < length (tq_pending q) \<and>
      (\<forall>t \<in> set (tq_pending q). task_prio t \<le> task_prio (tq_pending q ! k) \<and>
         (task_prio t = task_prio (tq_pending q ! k) \<longrightarrow> task_created_at (tq_pending q ! k) \<le> task_created_at t))"
    by (simp add: next_pending_def pending_count_def list_all_iff)
qed (simp add: next_pending_exists)

definition weigh :: "('r, 'e, 'c, 'd) worker \<Rightarrow> unit list" where
  "weigh s = (case s of W_Fetched _ \<Rightarrow> [(), ()] | W_Executing _ \<Rightarrow> [()] | _ \<Rightarrow> [])"

definition work_left :: "('r, 'e, 'c, 'd) tqueue \<Rightarrow> nat" where
  "work_left q = 3 * length (tq_pending q) + length (concat (map weigh (tq_workers q)))"

lemma weigh_set_worker:
  "worker_at i s0 q \<Longrightarrow> length (concat (map weigh ((tq_workers q)[i := s]))) + length (weigh s0) =
    length (concat (map weigh (tq_workers q))) + length (weigh s)"
  using mset_eq_length [of "concat (map weigh ((tq_workers q)[i := s])) @ weigh s0" "concat (map weigh (tq_workers q)) @ weigh s"]
    mset_concat_update [of i "tq_workers q" weigh s]
  by (auto simp: worker_at_def)

definition live :: "('r, 'e, 'c, 'd) tqueue \<Rightarrow> bool" where
  "live q \<longleftrightarrow> tq_is_running q \<and> (\<exists>i s. worker_at i s q \<and> s \<noteq> W_Stopped)"

definition done_ids :: "('r, 'e, 'c, 'd) tqueue \<Rightarrow> string set" where
  "done_ids q = fst ` set (tq_completed q)"

lemma finish_progress:
  assumes "tq_ok q" and "live q" and "worker_at i (W_Executing t) q"
  shows "\<exists>q'. tq_step E d 0 q q' \<and> work_left q' < work_left q \<and> live q' \<and>
    set (known_ids q) \<union> done_ids q \<subseteq> set (known_ids q') \<union> done_ids q'"
proof -
  obtain res x where run: "run_task E (t, w) = (res, x)" by (metis prod.exhaust)
  let ?q' = "worker_finish i t res q"
  have r: "tq_is_running q" using assms(2) by (simp add: live_def)
  have "mset (known_ids q) = mset (task_id t # known_ids ?q')"
    using finish_ok(4) [OF assms(1,3) run] by simp
  from mset_eq_setD [OF this] have "set (known_ids q) = insert (task_id t) (set (known_ids ?q'))" by simp
  moreover have "done_ids ?q' = insert (task_id t) (done_ids q)"
    by (simp add: done_ids_def worker_finish_def next_round_def forget_running_def)
  moreover have "work_left ?q' < work_left q"
    using weigh_set_worker [OF assms(3), of W_Waiting] r
    by (simp add: work_left_def worker_finish_def next_round_def forget_running_def set_worker_def weigh_def)
  moreover have "worker_at i W_Waiting ?q'"
    using assms(3) r by (simp add: worker_finish_def next_round_def forget_running_def set_worker_def worker_at_def)
  then have "live ?q'" using r by (auto simp: live_def worker_finish_def next_round_def forget_running_def)
  ultimately show ?thesis using tq_finish [OF assms(3) run, of d] by blast
qed

lemma dispatch_progress:
  assumes "tq_ok q" and "live q" and "worker_at i (W_Fetched t) q"
  shows "\<exists>q'. tq_step E d 0 q q' \<and> work_left q' < work_left q \<and> live q' \<and>
    set (known_ids q) \<union> done_ids q \<subseteq> set (known_ids q') \<union> done_ids q'"
proof -
  obtain t' w' where b: "begin_execution E (t, w) = (t', w')" by (metis prod.exhaust)
  let ?q' = "worker_dispatch i t t' q"
  have r: "tq_is_running q" "\<not> tq_shutdown q" using assms(1,2) by (auto simp: live_def tq_ok_def)
  have "set (known_ids ?q') = set (known_ids q)"
    using mset_eq_setD [OF dispatch_ok(2) [OF assms(1,3) begin_execution_id [OF b]]] .
  moreover have "done_ids ?q' = done_ids q" using r by (simp add: done_ids_def worker_dispatch_def)
  moreover have "work_left ?q' < work_left q"
    using weigh_set_worker [OF assms(3), of "W_Executing t'"] r
    by (simp add: work_left_def worker_dispatch_def set_worker_def weigh_def)
  moreover have "worker_at i (W_Executing t') ?q'"
    using assms(3) r by (simp add: worker_dispatch_def set_worker_def worker_at_def)
  then have "live ?q'" using r by (auto simp: live_def worker_dispatch_def)
  ultimately show ?thesis using tq_dispatch [OF assms(3) _ b, of d] r by auto
qed

lemma fetch_progress:
  assumes "tq_ok q" and "live q" and "worker_at i W_Waiting q" and "tq_pending q \<noteq> []"
  shows "\<exists>q'. tq_step E d 0 q q' \<and> work_left q' < work_left q \<and> live q' \<and>
    set (known_ids q) \<union> done_ids q \<subseteq> set (known_ids q') \<union> done_ids q'"
proof -
  obtain k where k: "next_pending k q" using next_pending_exists [OF assms(4)] by blast
  let ?q' = "worker_fetch i k q" and ?t = "tq_pending q ! k"
  have "set (known_ids ?q') = set (known_ids q)"
    using mset_eq_setD [OF fetch_ok(3) [OF assms(1,3) k]] .
  moreover have "done_ids ?q' = done_ids q" by (simp add: done_ids_def worker_fetch_def)
  moreover have "Suc (length (drop_nth k (tq_pending q))) = length (tq_pending q)"
    using k by (auto simp: drop_nth_def next_pending_def pending_count_def)
  then have "work_left ?q' < work_left q"
    using weigh_set_worker [OF assms(3), of "W_Fetched ?t"]
    by (simp add: work_left_def worker_fetch_def set_worker_def weigh_def)
  moreover have "worker_at i (W_Fetched ?t) ?q'"
    using assms(3) by (simp add: worker_fetch_def set_worker_def worker_at_def)
  then have "live ?q'" using assms(2) by (auto simp: live_def worker_fetch_def)
  ultimately show ?thesis using tq_fetch [OF assms(3) k] by blast
qed

lemma queue_progress:
  assumes "tq_ok q" and "live q" and "known_ids q \<noteq> []"
  shows "\<exists>q'. tq_step E d 0 q q' \<and> work_left q' < work_left q \<and> live q' \<and>
    set (known_ids q) \<union> done_ids q \<subseteq> set (known_ids q') \<union> done_ids q'"
proof (cases "held_tasks q = []")
  case False
  then obtain s where s: "s \<in> set (tq_workers q)" "held_task s \<noteq> []" by (auto simp: held_tasks_def)
  then obtain i where i: "worker_at i s q" by (auto simp: in_set_conv_nth worker_at_def)
  show ?thesis
  proof (cases s)
    case (W_Fetched t)
    with i dispatch_progress [OF assms(1,2)] show ?thesis by blast
  next
    case (W_Executing t)
    with i finish_progress [OF assms(1,2)] show ?thesis by blast
  qed (use s in simp_all)
next
  case True
  with assms(3) have p: "tq_pending q \<noteq> []" by (auto simp: known_ids_def)
  obtain i s where i: "worker_at i s q" "s \<noteq> W_Stopped" using assms(2) by (auto simp: live_def)
  have "held_task s = []" using worker_at_held [OF i(1)] True by simp
  with i(2) have "s = W_Waiting" by (cases s) auto
  with i p fetch_progress [OF assms(1,2)] show ?thesis by blast
qed

lemma tq_run_prepend: "tq_run E d q1 m q2 \<Longrightarrow> tq_step E d n q q1 \<Longrightarrow> tq_run E d q (n + m) q2"
proof (induction rule: tq_run.induct)
  case tq_run_start
  then show ?case using tq_run_step [OF tq_run.tq_run_start] by fastforce
next
  case (tq_run_step m q1' k q2)
  then show ?case using tq_run.tq_run_step [of E d q "n + m" q1' k q2] by (simp add: add.assoc)
qed

lemma queue_drains:
  assumes "tq_ok q" and "live q"
  shows "\<exists>q'. tq_run E d q 0 q' \<and> known_ids q' = [] \<and> set (known_ids q) \<union> done_ids q \<subseteq> done_ids q'"
  using assms
proof (induction "work_left q" arbitrary: q rule: less_induct)
  case less
  show ?case
  proof (cases "known_ids q = []")
    case True
    then show ?thesis using tq_run_start [of E d q] by auto
  next
    case False
    from queue_progress [OF less.prems False] obtain q1 where
      q1: "tq_step E d 0 q q1" "work_left q1 < work_left q" "live q1"
        "set (known_ids q) \<union> done_ids q \<subseteq> set (known_ids q1) \<union> done_ids q1" by blast
    have "tq_ok q1" by (rule tq_step_keeps_ok [OF q1(1) less.prems(1)])
    from less.hyps [OF q1(2) this q1(3)] obtain q2 where
      "tq_run E d q1 0 q2" "known_ids q2 = []" "set (known_ids q1) \<union> done_ids q1 \<subseteq> done_ids q2" by blast
    with tq_run_prepend [OF _ q1(1)] q1(4) show ?thesis by fastforce
  qed
qed


definition alive :: "('r, 'e, 'c, 'd) tqueue \<Rightarrow> bool" where
  "alive q \<longleftrightarrow> (tq_is_running q \<and> 0 < tq_max_concurrent q \<longrightarrow> live q)"

lemma alive_set_worker:
  assumes "alive q" and "worker_at i s0 q" and "tq_is_running q \<longrightarrow> s \<noteq> W_Stopped"
    and "tq_is_running q' = tq_is_running q" and "tq_max_concurrent q' = tq_max_concurrent q"
    and "tq_workers q' = (tq_workers q)[i := s]"
  shows "alive q'"
proof (cases "tq_is_running q \<and> 0 < tq_max_concurrent q")
  case True
  have "worker_at i s q'" using assms(2,6) by (simp add: worker_at_def)
  with True assms(3,4) show ?thesis by (auto simp: alive_def live_def)
qed (use assms in \<open>auto simp: alive_def\<close>)

lemma alive_same:
  assumes "alive q" and "tq_is_running q' = tq_is_running q" and "tq_max_concurrent q' = tq_max_concurrent q"
    and "tq_workers q' = tq_workers q"
  shows "alive q'"
  using assms by (auto simp: alive_def live_def worker_at_def)

lemma alive_start: "alive q \<Longrightarrow> alive (start_queue q)"
proof (cases "tq_is_running q")
  case False
  assume "alive q"
  let ?n = "length (tq_workers q)"
  have "worker_at ?n W_Waiting (start_queue q)" if "0 < tq_max_concurrent q"
    using that False by (simp add: worker_at_def start_queue_def Let_def nth_append)
  moreover have "tq_max_concurrent (start_queue q) = tq_max_concurrent q"
    by (simp add: start_queue_def Let_def)
  ultimately show ?thesis unfolding alive_def live_def by auto
qed (simp add: start_queue_def)

lemma tq_step_alive:
  assumes "tq_step E d n q q'" and "tq_ok q" and "alive q"
  shows "alive q' \<and> tq_max_concurrent q' = tq_max_concurrent q"
  using assms
proof (induction rule: tq_step.induct)
  case (tq_enqueue t q i q')
  then show ?case using alive_same [of q q']
    by (simp add: tenqueue_result [OF tq_enqueue(3)] count_queued_def put_pending_def)
next
  case (tq_enqueue_sync t q i q')
  then show ?case using alive_same [of q q']
    by (simp add: enqueue_sync_result [OF tq_enqueue_sync(3)] count_queued_def put_pending_def)
next
  case (tq_fetch i q k)
  show ?case using alive_set_worker [OF tq_fetch(4,1), of "W_Fetched (tq_pending q ! k)"] by (simp add: worker_fetch_def set_worker_def)
next
  case (tq_dispatch i t q w t' w')
  then have "tq_is_running q \<Longrightarrow> \<not> tq_shutdown q" by (simp add: tq_ok_def)
  with tq_dispatch alive_set_worker [OF tq_dispatch(5,1), where s = "if tq_shutdown q then W_Stopped else W_Executing t'"]
  show ?case by (auto simp: worker_dispatch_def set_worker_def put_pending_def)
next
  case (tq_finish i t q w res x)
  show ?case
    using alive_set_worker [OF tq_finish(4,1), where s = "if tq_is_running q then W_Waiting else W_Stopped"]
    by (simp add: worker_finish_def next_round_def forget_running_def set_worker_def)
next
  case (tq_start q)
  then show ?case using alive_start [of q] by (simp add: start_queue_def Let_def)
next
  case (tq_stop q)
  then show ?case by (simp add: stop_begin_def alive_def)
next
  case (tq_stop_waiting i q)
  then show ?case using alive_set_worker [OF tq_stop_waiting(4,1), of W_Stopped] by (simp add: set_worker_def)
next
  case (tq_stop_abort i t q)
  then show ?case using alive_set_worker [OF tq_stop_abort(4,1), of W_Stopped]
    by (simp add: worker_abort_def forget_running_def set_worker_def)
next
  case (tq_stop_end q)
  then show ?case using alive_same [of q] by (simp add: stop_end_def)
next
  case (tq_clear q older_than)
  then show ?case using alive_same [of q] by (simp add: clear_completed_eq)
qed

lemma tq_run_alive:
  assumes "tq_run E d q n q'" and "tq_ok q" and "alive q"
  shows "tq_ok q' \<and> alive q' \<and> tq_max_concurrent q' = tq_max_concurrent q"
  using assms
proof (induction rule: tq_run.induct)
  case (tq_run_step n q1 m q2)
  then show ?case using tq_step_alive [of E d m q1 q2] tq_step_keeps_ok [of E d m q1 q2] by simp
qed simp


subsection \<open>Witnesses\<close>

definition sample_report_env :: "(nat, unit, nat, unit task_error) report_env" where
  "sample_report_env = \<lparr>re_call = (\<lambda>_ _ w. (w, None)), re_clock = int, re_error_data = (\<lambda>_. []), re_error_text = (\<lambda>_. [])\<rparr>"

text \<open>The function of these tasks raises on its first attempt and returns the number of its second.\<close>

definition flaky :: "nat \<Rightarrow> (nat, unit) attempt" where
  "flaky k = (if k = 0 then Attempt_Raises () else Attempt_Returns k)"

definition sample_task_env :: "(nat, unit, nat, unit, nat) task_env" where
  "sample_task_env = \<lparr>xe_report = sample_report_env, xe_notify = (\<lambda>_ _ w. (w, None)),
     xe_call = (\<lambda>_ k w. (flaky k, Suc w)), xe_cancelled = (\<lambda>_ _. False), xe_sleep = (\<lambda>_ w. w)\<rparr>"

definition sample_task :: "string \<Rightarrow> int \<Rightarrow> (nat, unit, nat, unit) task" where
  "sample_task i retries = new_task i None Prio_Normal None retries 0 None (Some (new_reporter None)) [] 0 0"

theorem execute_ends_the_task_witness:
  "is_complete (fst (snd (execute_task sample_task_env (sample_task ''a'' 2, 0))))"
proof -
  obtain res t' w' where ex: "execute_task sample_task_env (sample_task ''a'' 2, 0) = (res, (t', w'))"
    by (metis prod.exhaust)
  have "task_attempts (sample_task ''a'' 2) = 0" by (simp add: sample_task_def new_task_def)
  from execute_ends_the_task [OF this ex] ex show ?thesis by simp
qed

theorem retry_takes_first_success_witness:
  "task_attempts (fst (snd (execute_task sample_task_env (sample_task ''a'' 2, 0)))) = 2"
proof -
  have 1: "\<forall>t k w. fst (xe_call sample_task_env t k w) = flaky k" by (simp add: sample_task_env_def)
  have 2: "task_token (sample_task ''a'' 2) = None" "0 \<le> task_retry_count (sample_task ''a'' 2)"
    by (simp_all add: sample_task_def new_task_def)
  obtain res t' w' where ex: "execute_task sample_task_env (sample_task ''a'' 2, 0) = (res, (t', w'))"
    by (metis prod.exhaust)
  from retry_takes_first_success [OF 1 2 ex] obtain k where k: "task_attempts t' = Suc k" "\<forall>j < k. raises (flaky j)"
      "raises (flaky k) \<longrightarrow> k = nat (task_retry_count (sample_task ''a'' 2))" by blast
  have "raises (flaky 0)" by (simp add: raises_def flaky_def)
  then have "k \<noteq> 0" using k(3) by (cases "k = 0") (simp_all add: sample_task_def new_task_def)
  moreover have "\<not> 1 < k" using k(2) by (auto simp: raises_def flaky_def)
  ultimately show ?thesis using k(1) ex by simp
qed

theorem negative_retries_fail_witness:
  "tres_status (fst (execute_task sample_task_env (sample_task ''a'' (- 1), 0))) = Task_Failed"
proof -
  obtain res t' w' where ex: "execute_task sample_task_env (sample_task ''a'' (- 1), 0) = (res, (t', w'))"
    by (metis prod.exhaust)
  have "task_retry_count (sample_task ''a'' (- 1)) < 0" "task_token (sample_task ''a'' (- 1)) = None"
    by (simp_all add: sample_task_def new_task_def)
  from negative_retries_fail [OF this ex] ex show ?thesis by simp
qed

definition busy_queue :: "(nat, unit, nat, unit) tqueue" where
  "busy_queue = (start_queue (new_tqueue 1 None))\<lparr>tq_pending := [sample_task ''a'' 2],
     tq_stats := \<lparr>total_queued = 1, total_completed = 0, total_failed = 0, total_cancelled = 0\<rparr>\<rparr>"

lemma busy_queue_reached: "tq_run sample_task_env False (new_tqueue 1 None) 0 busy_queue"
proof -
  have 1: "tq_step sample_task_env False 0 (new_tqueue 1 None) (start_queue (new_tqueue 1 None))"
    by (rule tq_start) (simp add: new_tqueue_def)
  have 2: "tenqueue (sample_task ''a'' 2) (start_queue (new_tqueue 1 None)) = Inr (''a'', busy_queue)"
    by (simp add: tenqueue_def start_queue_def new_tqueue_def busy_queue_def put_pending_def count_queued_def
        sample_task_def new_task_def Let_def)
  have "tq_step sample_task_env False 0 (start_queue (new_tqueue 1 None)) busy_queue"
    by (rule tq_enqueue [OF _ _ 2])
      (simp_all add: start_queue_def new_tqueue_def known_ids_def held_tasks_def Let_def)
  with tq_run_step [OF tq_run_step [OF tq_run_start 1]] show ?thesis by simp
qed





theorem stop_cancels_no_token_witness:
  "cancel_running logging_env
     (set_worker 0 W_Stopped (stop_begin (start_queue (new_tqueue 1 None :: (nat, unit, nat, unit) tqueue)))) two_tokens
     = Some two_tokens"
proof -
  let ?q0 = "new_tqueue 1 None :: (nat, unit, nat, unit) tqueue"
  let ?q3 = "set_worker 0 W_Stopped (stop_begin (start_queue ?q0))"
  have 1: "tq_step sample_task_env False 0 ?q0 (start_queue ?q0)"
    by (rule tq_start) (simp add: new_tqueue_def)
  have 2: "tq_step sample_task_env False 0 (start_queue ?q0) (stop_begin (start_queue ?q0))"
    by (rule tq_stop)
  have 3: "tq_step sample_task_env False 0 (stop_begin (start_queue ?q0)) ?q3"
    by (rule tq_stop_waiting) (simp_all add: stop_begin_def start_queue_def new_tqueue_def worker_at_def Let_def)
  have "tq_run sample_task_env False ?q0 0 ?q3"
    using tq_run_step [OF tq_run_step [OF tq_run_step [OF tq_run_start 1] 2] 3] by simp
  moreover have "\<forall>i \<in> set (tq_worker_tasks ?q3). worker_at i W_Stopped ?q3"
    by (simp add: stop_begin_def start_queue_def new_tqueue_def worker_at_def set_worker_def Let_def)
  ultimately show ?thesis using stop_cancels_no_token by blast
qed

theorem interrupted_task_vanishes_witness:
  "\<exists>(q :: (nat, unit, nat, unit) tqueue) t. worker_at 0 (W_Executing t) q \<and> task_id t = ''a'' \<and>
     wait_round ''a'' False (worker_abort 0 t q) = Wait_Key_Error"
proof -
  let ?t = "sample_task ''a'' 2"
  let ?t' = "fst (begin_execution sample_task_env (?t, 0))"
  let ?q1 = "worker_fetch 0 0 busy_queue"
  let ?q2 = "worker_dispatch 0 ?t ?t' ?q1"
  have 1: "tq_step sample_task_env False 0 busy_queue ?q1"
    by (rule tq_fetch)
      (simp_all add: busy_queue_def start_queue_def new_tqueue_def worker_at_def next_pending_def pending_count_def
        task_less_irrefl Let_def)
  have w1: "worker_at 0 (W_Fetched ?t) ?q1" and r: "\<not> tq_shutdown ?q1"
    by (simp_all add: busy_queue_def start_queue_def new_tqueue_def worker_at_def worker_fetch_def set_worker_def Let_def)
  have b: "begin_execution sample_task_env (?t, 0) = (?t', 0)" by (simp add: begin_execution_def)
  have 2: "tq_step sample_task_env False 0 ?q1 ?q2"
    by (rule tq_dispatch [OF w1 _ b]) (use r in simp)
  have run: "tq_run sample_task_env False (new_tqueue 1 None) 0 ?q2"
    using tq_run_step [OF tq_run_step [OF busy_queue_reached 1] 2] by simp
  have w2: "worker_at 0 (W_Executing ?t') ?q2"
    using w1 r by (simp add: worker_dispatch_def worker_at_def set_worker_def)
  have i: "task_id ?t' = ''a''" by (simp add: begin_execution_def sample_task_def new_task_def)
  have "wait_round (task_id ?t') False (worker_abort 0 ?t' ?q2) = Wait_Key_Error"
    using interrupted_task_vanishes [OF run w2, of ?t'] by simp
  then have "wait_round ''a'' False (worker_abort 0 ?t' ?q2) = Wait_Key_Error" by (simp only: i)
  with w2 i show ?thesis by blast
qed

end
