(* ===== verification/Elements.thy ===== *)
theory Elements
  imports Complex_Main Prelude
begin

text \<open>
  The element wrapper and the element set (\<open>api/element.py\<close>), over the interface of a Revit element,
  which \<open>MockElement\<close> (\<open>testing/mock_revit.py\<close>) provides.

  A wrapped element caches the parameters it has read or written and records the changes made
  through it. The Revit element behind it is a value of any type with the two operations of
  \<open>IRevitElement\<close>; a call that raises gives \<open>None\<close>. The values of parameters are those that
  \<open>_convert_from_revit\<close> produces: \<open>None\<close>, strings, floats (rationals here) and integers.
\<close>

subsection \<open>Values\<close>

datatype pvalue = P_None | P_Int int | P_Float rat | P_Str string

text \<open>Python's \<open>==\<close> identifies an integer with the float of the same value.\<close>

fun py_equal :: "pvalue \<Rightarrow> pvalue \<Rightarrow> bool" where
  "py_equal (P_Int i) (P_Int j) = (i = j)"
| "py_equal (P_Int i) (P_Float q) = (of_int i = q)"
| "py_equal (P_Float q) (P_Int i) = (q = of_int i)"
| "py_equal (P_Float q) (P_Float r) = (q = r)"
| "py_equal (P_Str s) (P_Str t) = (s = t)"
| "py_equal P_None P_None = True"
| "py_equal _ _ = False"

lemma py_equal_refl [simp]: "py_equal a a"
  by (cases a) simp_all

lemma py_equal_sym: "py_equal a b \<Longrightarrow> py_equal b a"
  by (cases a; cases b) auto

lemma py_equal_trans: "py_equal a b \<Longrightarrow> py_equal b c \<Longrightarrow> py_equal a c"
  by (cases a; cases b; cases c) auto

fun type_name_of :: "pvalue \<Rightarrow> string" where
  "type_name_of P_None = ''NoneType''"
| "type_name_of (P_Int _) = ''int''"
| "type_name_of (P_Float _) = ''float''"
| "type_name_of (P_Str _) = ''str''"

text \<open>\<open>str(value)\<close>; the text of a float is an argument.\<close>

fun py_str :: "(rat \<Rightarrow> string) \<Rightarrow> pvalue \<Rightarrow> string" where
  "py_str fl P_None = ''None''"
| "py_str fl (P_Int i) = int_str i"
| "py_str fl (P_Float q) = fl q"
| "py_str fl (P_Str s) = s"

text \<open>
  What a Revit element returns for a parameter: nothing, or an object with some of the methods
  \<open>AsString\<close>, \<open>AsDouble\<close>, \<open>AsInteger\<close>, \<open>AsValueString\<close> (what they return), possibly a \<open>StorageType\<close>,
  and a text.
\<close>

datatype raw_value =
    Raw_None
  | Raw_Object "pvalue option" "pvalue option" "pvalue option" "pvalue option" "string option" string

definition first_of :: "pvalue option list \<Rightarrow> pvalue option" where
  "first_of xs = (case List.find (\<lambda>x. x \<noteq> None) xs of None \<Rightarrow> None | Some y \<Rightarrow> y)"

fun convert_from_revit :: "raw_value \<Rightarrow> pvalue" where
  "convert_from_revit Raw_None = P_None"
| "convert_from_revit (Raw_Object s d i v st t) = (case first_of [s, d, i, v] of Some x \<Rightarrow> x | None \<Rightarrow> P_Str t)"

fun storage_type :: "raw_value \<Rightarrow> string" where
  "storage_type (Raw_Object s d i v (Some st) t) = st"
| "storage_type _ = ''String''"

record param_value =
  pv_name :: string
  pv_value :: pvalue
  pv_type_name :: string
  pv_storage_type :: string
  pv_read_only :: bool

subsection \<open>Elements\<close>

record 'r revit_ops =
  rv_get :: "string \<Rightarrow> 'r \<Rightarrow> raw_value option"
  rv_set :: "string \<Rightarrow> pvalue \<Rightarrow> 'r \<Rightarrow> 'r option"

record 'r api_element =
  el_revit :: 'r
  el_cache :: "(string, param_value) dict"
  el_changes :: "(string, pvalue \<times> pvalue) dict"
  el_dirty :: bool

datatype api_error =
    Element_Not_Found string
  | Validation_Failed string
  | Permission_Denied string
  | Revit_Api_Failed string
  | Key_Missing string

definition wrap_element :: "'r \<Rightarrow> 'r api_element" where
  "wrap_element r = \<lparr>el_revit = r, el_cache = [], el_changes = [], el_dirty = False\<rparr>"

definition cached_param :: "string \<Rightarrow> raw_value \<Rightarrow> param_value" where
  "cached_param p raw =
     \<lparr>pv_name = p, pv_value = convert_from_revit raw, pv_type_name = type_name_of (convert_from_revit raw),
      pv_storage_type = storage_type raw, pv_read_only = False\<rparr>"

definition get_parameter_value ::
  "'r revit_ops \<Rightarrow> string \<Rightarrow> bool \<Rightarrow> 'r api_element \<Rightarrow> (api_error + pvalue) \<times> 'r api_element" where
  "get_parameter_value R p use_cache e =
     (case (if use_cache then map_of (el_cache e) p else None) of
        Some pv \<Rightarrow> (Inr (pv_value pv), e)
      | None \<Rightarrow>
          (case rv_get R p (el_revit e) of
             None \<Rightarrow> (Inl (Element_Not_Found p), e)
           | Some raw \<Rightarrow>
               (Inr (convert_from_revit raw),
                if use_cache then e\<lparr>el_cache := AList.update p (cached_param p raw) (el_cache e)\<rparr> else e)))"

definition written_param :: "string \<Rightarrow> pvalue \<Rightarrow> param_value" where
  "written_param p v =
     \<lparr>pv_name = p, pv_value = v, pv_type_name = type_name_of v, pv_storage_type = ''String'', pv_read_only = False\<rparr>"

text \<open>
  \<open>set_parameter_value\<close> writes through to Revit first. The old value is then looked up with
  \<open>self._parameter_cache.get(name, {}).get("value")\<close>: when the parameter is cached, the second
  \<open>get\<close> is called on a \<open>ParameterValue\<close>, which has none, and the \<open>AttributeError\<close> becomes a
  \<open>ValidationError\<close>.
\<close>

definition track_change :: "string \<Rightarrow> pvalue \<Rightarrow> 'r api_element \<Rightarrow> 'r api_element" where
  "track_change p v e =
     (if py_equal P_None v then e
      else e\<lparr>el_changes := AList.update p (P_None, v) (el_changes e), el_dirty := True\<rparr>)"

definition set_parameter_value ::
  "'r revit_ops \<Rightarrow> string \<Rightarrow> pvalue \<Rightarrow> bool \<Rightarrow> 'r api_element \<Rightarrow> api_error option \<times> 'r api_element" where
  "set_parameter_value R p v track e =
     (case rv_set R p v (el_revit e) of
        None \<Rightarrow> (Some (Validation_Failed p), e)
      | Some r \<Rightarrow>
          (let e1 = e\<lparr>el_revit := r\<rparr> in
           if track \<and> map_of (el_cache e) p \<noteq> None then (Some (Validation_Failed p), e1)
           else (None, (if track then track_change p v e1 else e1)
                   \<lparr>el_cache := AList.update p (written_param p v) (el_cache e)\<rparr>)))"

text \<open>The descriptors that the metaclass installs for the mapped properties.\<close>

definition element_property_mappings :: "(string \<times> string) list" where
  "element_property_mappings =
     [(''name'', ''Name''), (''family_name'', ''Family''), (''type_name'', ''Type''), (''level'', ''Level''),
      (''comments'', ''Comments''), (''mark'', ''Mark'')]"

definition property_get ::
  "'r revit_ops \<Rightarrow> string \<Rightarrow> 'r api_element \<Rightarrow> (api_error + pvalue) \<times> 'r api_element" where
  "property_get R p e =
     (case get_parameter_value R p True e of
        (Inr v, e') \<Rightarrow> (Inr v, e')
      | (Inl _, e') \<Rightarrow> (Inl (Revit_Api_Failed p), e'))"

definition property_set ::
  "'r revit_ops \<Rightarrow> bool \<Rightarrow> string \<Rightarrow> pvalue \<Rightarrow> 'r api_element \<Rightarrow> api_error option \<times> 'r api_element" where
  "property_set R read_only p v e =
     (if read_only then (Some (Permission_Denied p), e) else set_parameter_value R p v True e)"

text \<open>
  \<open>get_all_parameters\<close>: with \<open>refresh_cache\<close> the values are read past the cache and then looked up
  in it, where they are not; the \<open>KeyError\<close> is not one of the errors that the loop skips.
\<close>

fun collect_parameters ::
  "'r revit_ops \<Rightarrow> bool \<Rightarrow> string list \<Rightarrow> (string, param_value) dict \<Rightarrow> 'r api_element \<Rightarrow>
   (api_error + (string, param_value) dict) \<times> 'r api_element" where
  "collect_parameters R use_cache [] acc e = (Inr acc, e)"
| "collect_parameters R use_cache (p # ps) acc e =
     (case get_parameter_value R p use_cache e of
        (Inl _, e') \<Rightarrow> collect_parameters R use_cache ps acc e'
      | (Inr _, e') \<Rightarrow>
          (case map_of (el_cache e') p of
             None \<Rightarrow> (Inl (Key_Missing p), e')
           | Some pv \<Rightarrow> collect_parameters R use_cache ps (AList.update p pv acc) e'))"

definition get_all_parameters ::
  "'r revit_ops \<Rightarrow> bool \<Rightarrow> 'r api_element \<Rightarrow> (api_error + (string, param_value) dict) \<times> 'r api_element" where
  "get_all_parameters R refresh e =
     collect_parameters R (\<not> refresh) (map snd element_property_mappings) []
       (if refresh then e\<lparr>el_cache := []\<rparr> else e)"

definition save_changes :: "'r api_element \<Rightarrow> 'r api_element" where
  "save_changes e = (if el_dirty e then e\<lparr>el_changes := [], el_dirty := False\<rparr> else e)"

definition discard_changes :: "'r api_element \<Rightarrow> 'r api_element" where
  "discard_changes e =
     (if el_dirty e
      then e\<lparr>el_cache := fold AList.delete (map fst (el_changes e)) (el_cache e), el_changes := [], el_dirty := False\<rparr>
      else e)"

definition refresh_element :: "'r api_element \<Rightarrow> 'r api_element" where
  "refresh_element e = e\<lparr>el_cache := [], el_changes := [], el_dirty := False\<rparr>"

subsection \<open>The mock element\<close>

record mock_parameter =
  mp_name :: string
  mp_value :: pvalue
  mp_type_name :: string
  mp_storage_type :: string
  mp_read_only :: bool

record mock_element =
  me_id :: int
  me_name :: string
  me_category :: string
  me_type :: string
  me_parameters :: "(string, mock_parameter) dict"
  me_properties :: "(string, pvalue) dict"

definition mock_parameter_of :: "string \<Rightarrow> pvalue \<Rightarrow> mock_parameter" where
  "mock_parameter_of p v =
     \<lparr>mp_name = p, mp_value = v, mp_type_name = ''String'', mp_storage_type = ''String'', mp_read_only = False\<rparr>"

definition default_parameters :: "string \<Rightarrow> string \<Rightarrow> string \<Rightarrow> (string, mock_parameter) dict" where
  "default_parameters name cat ty =
     map (\<lambda>(p, v). (p, mock_parameter_of p (P_Str v)))
       [(''Name'', name), (''Category'', cat), (''Type'', ty), (''Comments'', ''''), (''Mark'', '''')]"

definition new_mock_element :: "int \<Rightarrow> string \<Rightarrow> string \<Rightarrow> string \<Rightarrow> mock_element" where
  "new_mock_element i name cat ty =
     \<lparr>me_id = i, me_name = name, me_category = cat, me_type = ty,
      me_parameters = default_parameters name cat ty, me_properties = []\<rparr>"

definition as_string :: "(rat \<Rightarrow> string) \<Rightarrow> mock_parameter \<Rightarrow> string" where
  "as_string fl m = (if mp_value m = P_None then '''' else py_str fl (mp_value m))"

text \<open>
  \<open>GetParameterValue\<close> returns the \<open>MockParameter\<close> itself. Of its four methods the wrapper calls
  \<open>AsString\<close>, the first it looks for; the others are left out here.
\<close>

definition mock_get :: "(rat \<Rightarrow> string) \<Rightarrow> string \<Rightarrow> mock_element \<Rightarrow> raw_value option" where
  "mock_get fl p m =
     (case map_of (me_parameters m) p of
        None \<Rightarrow> None
      | Some mp \<Rightarrow> Some (Raw_Object (Some (P_Str (as_string fl mp))) None None None None []))"

definition mock_set :: "string \<Rightarrow> pvalue \<Rightarrow> mock_element \<Rightarrow> mock_element option" where
  "mock_set p v m =
     (case map_of (me_parameters m) p of
        None \<Rightarrow> Some (m\<lparr>me_parameters := AList.update p (mock_parameter_of p v) (me_parameters m)\<rparr>)
      | Some mp \<Rightarrow>
          if mp_read_only mp then None
          else Some (m\<lparr>me_parameters := AList.update p (mp\<lparr>mp_value := v\<rparr>) (me_parameters m)\<rparr>))"

definition mock_ops :: "(rat \<Rightarrow> string) \<Rightarrow> mock_element revit_ops" where
  "mock_ops fl = \<lparr>rv_get = mock_get fl, rv_set = mock_set\<rparr>"


subsection \<open>The interface of a Revit element\<close>

text \<open>
  What a Revit element promises: a parameter that was set reads as the value set, up to the form
  \<open>form\<close> in which Revit gives values back, and no other parameter changes.
\<close>

definition reading :: "'r revit_ops \<Rightarrow> string \<Rightarrow> 'r \<Rightarrow> pvalue option" where
  "reading R p r = map_option convert_from_revit (rv_get R p r)"

definition coherent :: "'r revit_ops \<Rightarrow> (pvalue \<Rightarrow> pvalue) \<Rightarrow> 'r api_element \<Rightarrow> bool" where
  "coherent R form e \<longleftrightarrow> (\<forall>p pv. map_of (el_cache e) p = Some pv \<longrightarrow>
     reading R p (el_revit e) = Some (form (pv_value pv)))"

definition tracking_ok :: "'r api_element \<Rightarrow> bool" where
  "tracking_ok e \<longleftrightarrow> (el_dirty e \<longleftrightarrow> el_changes e \<noteq> []) \<and> dict_ok (el_cache e) \<and> dict_ok (el_changes e)"

lemma fold_delete_none: "map_of (fold AList.delete ks d) p = (if p \<in> set ks then None else map_of d p)"
  by (induction ks arbitrary: d) auto

lemma fold_delete_ok: "dict_ok d \<Longrightarrow> dict_ok (fold AList.delete ks d)"
  by (induction ks arbitrary: d) auto

lemma update_nonempty [simp]: "AList.update k v d \<noteq> []"
  by (cases d) auto

lemma first_of_simps [simp]: "first_of (Some x # xs) = Some x" "first_of (None # xs) = first_of xs" "first_of [] = None"
  by (simp_all add: first_of_def)

locale revit_store =
  fixes R :: "'r revit_ops" and form :: "pvalue \<Rightarrow> pvalue"
  assumes get_set: "rv_set R p v r = Some r' \<Longrightarrow> reading R p r' = Some (form v)"
    and get_set_other: "rv_set R p v r = Some r' \<Longrightarrow> q \<noteq> p \<Longrightarrow> reading R q r' = reading R q r"
    and form_read: "reading R p r = Some v \<Longrightarrow> form v = v"
begin

lemma coherent_wrap: "coherent R form (wrap_element r)"
  by (simp add: coherent_def wrap_element_def)

lemma coherent_get:
  assumes "coherent R form e"
  shows "coherent R form (snd (get_parameter_value R p c e))"
proof (cases "(if c then map_of (el_cache e) p else None) = None \<and> c")
  case True
  then show ?thesis
    using assms form_read [of p "el_revit e"]
    by (auto simp: coherent_def get_parameter_value_def cached_param_def reading_def split: option.splits)
next
  case False
  then show ?thesis using assms by (auto simp: get_parameter_value_def split: option.splits if_splits)
qed

lemma coherent_set:
  assumes "coherent R form e" and "set_parameter_value R p v track e = (None, e')"
  shows "coherent R form e'"
proof (cases "rv_set R p v (el_revit e)")
  case (Some r)
  with assms(2) have e': "el_revit e' = r" "el_cache e' = AList.update p (written_param p v) (el_cache e)"
    by (auto simp: set_parameter_value_def Let_def track_change_def split: if_splits)
  have "reading R q r = Some (form (pv_value pv))" if "map_of (el_cache e') q = Some pv" for q pv
    using that assms(1) get_set [OF Some] get_set_other [OF Some, of q]
    by (cases "q = p") (auto simp: e' written_param_def coherent_def)
  then show ?thesis by (simp add: coherent_def e'(1))
qed (use assms in \<open>simp add: set_parameter_value_def\<close>)

lemma coherent_discard: "coherent R form e \<Longrightarrow> coherent R form (discard_changes e)"
  by (auto simp: coherent_def discard_changes_def fold_delete_none split: if_splits)

lemma coherent_others:
  "coherent R form e \<Longrightarrow> coherent R form (save_changes e)" "coherent R form (refresh_element e)"
  by (auto simp: coherent_def save_changes_def refresh_element_def)

lemma coherent_collect:
  "coherent R form e \<Longrightarrow> coherent R form (snd (collect_parameters R c ps acc e))"
proof (induction ps arbitrary: acc e)
  case (Cons p ps)
  obtain x e' where g: "get_parameter_value R p c e = (x, e')" by (metis prod.exhaust)
  have "coherent R form e'" using coherent_get [OF Cons.prems, of p c] g by simp
  with g Cons.IH show ?case by (auto split: sum.splits option.splits)
qed simp

lemma get_after_set:
  assumes "set_parameter_value R p v track e = (None, e')"
  shows "fst (get_parameter_value R p True e') = Inr v"
    "fst (get_parameter_value R p True (refresh_element e')) = Inr (form v)"
proof -
  obtain r where r: "rv_set R p v (el_revit e) = Some r"
    using assms by (cases "rv_set R p v (el_revit e)") (auto simp: set_parameter_value_def)
  with assms have e': "el_revit e' = r" "el_cache e' = AList.update p (written_param p v) (el_cache e)"
    by (auto simp: set_parameter_value_def Let_def track_change_def split: if_splits)
  show "fst (get_parameter_value R p True e') = Inr v"
    by (simp add: get_parameter_value_def e' written_param_def)
  show "fst (get_parameter_value R p True (refresh_element e')) = Inr (form v)"
    using get_set [OF r] by (auto simp: get_parameter_value_def refresh_element_def e' reading_def split: option.splits)
qed

lemma discard_reads_new_value:
  assumes "set_parameter_value R p v True e = (None, e')" and "v \<noteq> P_None"
  shows "fst (get_parameter_value R p True (discard_changes e')) = Inr (form v)"
proof -
  obtain r where r: "rv_set R p v (el_revit e) = Some r"
    using assms by (cases "rv_set R p v (el_revit e)") (auto simp: set_parameter_value_def)
  have "\<not> py_equal P_None v" using assms(2) by (cases v) auto
  with assms r have e': "el_revit e' = r" "p \<in> fst ` set (el_changes e')" "el_dirty e'"
    by (auto simp: set_parameter_value_def Let_def track_change_def split: if_splits)
  then have "map_of (el_cache (discard_changes e')) p = None" "el_revit (discard_changes e') = r"
    by (auto simp: discard_changes_def fold_delete_none)
  with get_set [OF r] show ?thesis
    by (auto simp: get_parameter_value_def reading_def split: option.splits)
qed

end

definition mock_form :: "(rat \<Rightarrow> string) \<Rightarrow> pvalue \<Rightarrow> pvalue" where
  "mock_form fl v = P_Str (if v = P_None then '''' else py_str fl v)"

lemma mock_reading:
  "reading (mock_ops fl) p m = map_option (\<lambda>mp. mock_form fl (mp_value mp)) (map_of (me_parameters m) p)"
  by (simp add: reading_def mock_ops_def mock_get_def mock_form_def as_string_def split: option.splits)

lemma mock_ops_simps [simp]: "rv_set (mock_ops fl) = mock_set" "rv_get (mock_ops fl) = mock_get fl"
  by (simp_all add: mock_ops_def)

interpretation mock: revit_store "mock_ops fl" "mock_form fl" for fl
proof (unfold_locales, goal_cases)
  case (1 p v r r')
  then show ?case
    by (auto simp: mock_reading mock_set_def mock_parameter_of_def split: option.splits if_splits)
next
  case (2 p v r r' q)
  then show ?case
    by (auto simp: mock_reading mock_set_def split: option.splits if_splits)
next
  case (3 p r v)
  then show ?case by (auto simp: mock_reading mock_form_def)
qed


subsection \<open>Properties of elements\<close>

datatype el_op =
    El_Get string bool
  | El_Set string pvalue bool
  | El_All bool
  | El_Save
  | El_Discard
  | El_Refresh

text \<open>The operations of a client, run until one raises. Reading errors do not stop the run.\<close>

fun el_step :: "'r revit_ops \<Rightarrow> el_op \<Rightarrow> 'r api_element \<Rightarrow> 'r api_element option" where
  "el_step R (El_Get p c) e = Some (snd (get_parameter_value R p c e))"
| "el_step R (El_Set p v track) e =
     (case set_parameter_value R p v track e of (None, e') \<Rightarrow> Some e' | (Some _, _) \<Rightarrow> None)"
| "el_step R (El_All refresh) e = Some (snd (get_all_parameters R refresh e))"
| "el_step R El_Save e = Some (save_changes e)"
| "el_step R El_Discard e = Some (discard_changes e)"
| "el_step R El_Refresh e = Some (refresh_element e)"

fun el_run :: "'r revit_ops \<Rightarrow> el_op list \<Rightarrow> 'r api_element \<Rightarrow> 'r api_element option" where
  "el_run R [] e = Some e"
| "el_run R (op # ops) e = (case el_step R op e of None \<Rightarrow> None | Some e' \<Rightarrow> el_run R ops e')"

lemma tracking_ok_get: "tracking_ok e \<Longrightarrow> tracking_ok (snd (get_parameter_value R p c e))"
  by (auto simp: tracking_ok_def get_parameter_value_def split: option.splits)

lemma tracking_ok_collect: "tracking_ok e \<Longrightarrow> tracking_ok (snd (collect_parameters R c ps acc e))"
proof (induction ps arbitrary: acc e)
  case (Cons p ps)
  obtain x e' where g: "get_parameter_value R p c e = (x, e')" by (metis prod.exhaust)
  have "tracking_ok e'" using tracking_ok_get [OF Cons.prems, of R p c] g by simp
  with g Cons.IH show ?case by (auto split: sum.splits option.splits)
qed simp

lemma tracking_ok_set:
  "tracking_ok e \<Longrightarrow> set_parameter_value R p v track e = (None, e') \<Longrightarrow> tracking_ok e'"
  by (auto simp: tracking_ok_def set_parameter_value_def track_change_def Let_def split: option.splits if_splits)

lemma tracking_ok_others:
  "tracking_ok e \<Longrightarrow> tracking_ok (save_changes e)" "tracking_ok e \<Longrightarrow> tracking_ok (discard_changes e)"
  "tracking_ok (refresh_element e)" "tracking_ok e \<Longrightarrow> tracking_ok (e\<lparr>el_cache := []\<rparr>)"
  by (simp_all add: tracking_ok_def save_changes_def discard_changes_def refresh_element_def fold_delete_ok)

lemma tracking_ok_step:
  assumes "tracking_ok e" and "el_step R op e = Some e'"
  shows "tracking_ok e'"
proof (cases op)
  case (El_Set p v track)
  with assms tracking_ok_set show ?thesis by (auto split: prod.splits option.splits)
next
  case (El_All refresh)
  with assms tracking_ok_collect [OF tracking_ok_others(4) [OF assms(1)]] tracking_ok_collect [OF assms(1)]
  show ?thesis by (auto simp: get_all_parameters_def)
qed (use assms tracking_ok_get tracking_ok_others in auto)

lemma coherent_empty_cache: "coherent R form (e\<lparr>el_cache := []\<rparr>)"
  by (simp add: coherent_def)

lemma coherent_step:
  assumes "coherent (mock_ops fl) (mock_form fl) e" and "el_step (mock_ops fl) op e = Some e'"
  shows "coherent (mock_ops fl) (mock_form fl) e'"
proof (cases op)
  case (El_Set p v track)
  with assms mock.coherent_set show ?thesis by (auto split: prod.splits option.splits)
next
  case (El_All refresh)
  with assms mock.coherent_collect [OF coherent_empty_cache] mock.coherent_collect show ?thesis
    by (auto simp: get_all_parameters_def)
qed (use assms mock.coherent_get mock.coherent_discard mock.coherent_others in auto)

text \<open>
  C14: The parameter cache never disagrees with the element: after any sequence of reads, writes,
  saves, discards and refreshes of which none raised, every cached value is what the mock
  element holds, up to the text form in which it returns values, and the element is dirty exactly
  when it has recorded changes.
\<close>
theorem element_cache_coherent:
  assumes "el_run (mock_ops fl) ops (wrap_element m) = Some e"
  shows "coherent (mock_ops fl) (mock_form fl) e \<and> (el_dirty e \<longleftrightarrow> el_changes e \<noteq> [])"
proof -
  have "coherent (mock_ops fl) (mock_form fl) e' \<and> tracking_ok e'"
    if "el_run (mock_ops fl) ops e0 = Some e'" "coherent (mock_ops fl) (mock_form fl) e0" "tracking_ok e0" for e0 e'
    using that
  proof (induction ops arbitrary: e0)
    case (Cons op ops)
    then obtain e1 where e1: "el_step (mock_ops fl) op e0 = Some e1" "el_run (mock_ops fl) ops e1 = Some e'"
      by (auto split: option.splits)
    show ?case
      by (rule Cons.IH [OF e1(2)]) (use Cons.prems e1(1) coherent_step tracking_ok_step in blast)+
  qed simp
  with assms mock.coherent_wrap show ?thesis
    by (force simp: tracking_ok_def wrap_element_def)
qed

text \<open>
  Reading back: a parameter that was set reads as the value set; after a refresh it reads as
  the text of that value, whatever its type was.
\<close>
theorem set_then_get:
  assumes "set_parameter_value (mock_ops fl) p v track e = (None, e')"
  shows "fst (get_parameter_value (mock_ops fl) p True e') = Inr v \<and>
    fst (get_parameter_value (mock_ops fl) p True (refresh_element e')) = Inr (mock_form fl v)"
  using mock.get_after_set [OF assms] by simp

text \<open>
  A parameter that has been read cannot be set: the tracked write reaches the Revit element and
  then raises a \<open>ValidationError\<close>, nothing is recorded as changed, and the wrapper goes on giving
  the old value.
\<close>
theorem set_after_read_raises:
  assumes "get_parameter_value R p True e = (Inr old, e1)" and "rv_set R p v (el_revit e1) = Some r"
  shows "\<exists>e2. set_parameter_value R p v True e1 = (Some (Validation_Failed p), e2) \<and> el_revit e2 = r \<and>
    el_changes e2 = el_changes e1 \<and> el_dirty e2 = el_dirty e1 \<and> fst (get_parameter_value R p True e2) = Inr old"
proof -
  obtain pv where pv: "map_of (el_cache e1) p = Some pv" "pv_value pv = old"
    using assms(1) by (auto simp: get_parameter_value_def cached_param_def split: option.splits)
  then show ?thesis
    using assms(2) by (simp add: set_parameter_value_def get_parameter_value_def Let_def)
qed

text \<open>
  \<open>discard_changes\<close> does not undo a change: the parameter then reads as the value that was set,
  since \<open>set_parameter_value\<close> has written it through.
\<close>
theorem discard_keeps_new_value:
  assumes "set_parameter_value (mock_ops fl) p v True e = (None, e')" and "v \<noteq> P_None"
  shows "fst (get_parameter_value (mock_ops fl) p True (discard_changes e')) = Inr (mock_form fl v) \<and>
    \<not> el_dirty (discard_changes e')"
  using mock.discard_reads_new_value [OF assms] by (simp add: discard_changes_def)

lemma collect_uncached_raises:
  assumes "\<exists>p \<in> set ps. rv_get R p (el_revit e) \<noteq> None" and "el_cache e = []"
  shows "\<exists>p. fst (collect_parameters R False ps acc e) = Inl (Key_Missing p)"
  using assms by (induction ps) (auto simp: get_parameter_value_def split: option.splits)

text \<open>
  \<open>get_all_parameters(refresh_cache=True)\<close> raises a \<open>KeyError\<close> as soon as the element has one of the
  mapped parameters; without a refresh it returns exactly those that can be read.
\<close>
theorem refreshing_all_parameters_raises:
  assumes "\<exists>p \<in> set (map snd element_property_mappings). rv_get R p (el_revit e) \<noteq> None"
  shows "\<exists>p. fst (get_all_parameters R True e) = Inl (Key_Missing p)"
  unfolding get_all_parameters_def using collect_uncached_raises [of "map snd element_property_mappings" R "e\<lparr>el_cache := []\<rparr>"] assms
  by simp


subsection \<open>Element sets\<close>

text \<open>
  \<open>ElementSet\<close>: the elements, whether the recorded operations have been applied, and these
  operations. The lambdas are total functions here.
\<close>

datatype ('a, 'k) set_op =
    Set_Where "'a \<Rightarrow> bool"
  | Set_Select "'a \<Rightarrow> 'a"
  | Set_Order_By "'a \<Rightarrow> 'k"

record ('a, 'k) eset =
  es_elements :: "'a list"
  es_evaluated :: bool
  es_operations :: "('a, 'k) set_op list"

definition new_eset :: "'a list \<Rightarrow> ('a, 'k) eset" where
  "new_eset xs = \<lparr>es_elements = xs, es_evaluated = (xs \<noteq> []), es_operations = []\<rparr>"

fun apply_set_op :: "('a, 'k :: linorder) set_op \<Rightarrow> 'a list \<Rightarrow> 'a list" where
  "apply_set_op (Set_Where f) xs = filter f xs"
| "apply_set_op (Set_Select f) xs = map f xs"
| "apply_set_op (Set_Order_By f) xs = sort_key f xs"

definition ensure_evaluated :: "('a, 'k :: linorder) eset \<Rightarrow> ('a, 'k) eset" where
  "ensure_evaluated s =
     (if es_evaluated s then s
      else s\<lparr>es_elements := fold apply_set_op (es_operations s) (es_elements s), es_evaluated := True\<rparr>)"

definition derive_set :: "('a, 'k) set_op \<Rightarrow> ('a, 'k) eset \<Rightarrow> ('a, 'k) eset" where
  "derive_set op s = (new_eset [])\<lparr>es_operations := es_operations s @ [op], es_evaluated := False\<rparr>"

definition es_where :: "('a \<Rightarrow> bool) \<Rightarrow> ('a, 'k) eset \<Rightarrow> ('a, 'k) eset" where
  "es_where f s = derive_set (Set_Where f) s"

definition es_select :: "('a \<Rightarrow> 'a) \<Rightarrow> ('a, 'k) eset \<Rightarrow> ('a, 'k) eset" where
  "es_select f s = derive_set (Set_Select f) s"

definition es_order_by :: "('a \<Rightarrow> 'k) \<Rightarrow> ('a, 'k) eset \<Rightarrow> ('a, 'k) eset" where
  "es_order_by f s = derive_set (Set_Order_By f) s"

definition es_count :: "('a, 'k :: linorder) eset \<Rightarrow> nat \<times> ('a, 'k) eset" where
  "es_count s = (let s' = ensure_evaluated s in (length (es_elements s'), s'))"

definition es_to_list :: "('a, 'k :: linorder) eset \<Rightarrow> 'a list \<times> ('a, 'k) eset" where
  "es_to_list s = (let s' = ensure_evaluated s in (es_elements s', s'))"

datatype set_error = No_Elements | More_Than_One

definition es_first :: "('a, 'k :: linorder) eset \<Rightarrow> (set_error + 'a) \<times> ('a, 'k) eset" where
  "es_first s =
     (let s' = ensure_evaluated s in
      (case es_elements s' of [] \<Rightarrow> Inl No_Elements | x # _ \<Rightarrow> Inr x, s'))"

definition es_first_where :: "('a \<Rightarrow> bool) \<Rightarrow> ('a, 'k :: linorder) eset \<Rightarrow> set_error + 'a" where
  "es_first_where f s = fst (es_first (es_where f s))"

definition es_first_or_default :: "'a \<Rightarrow> ('a, 'k :: linorder) eset \<Rightarrow> 'a \<times> ('a, 'k) eset" where
  "es_first_or_default d s = (case es_first s of (Inl _, s') \<Rightarrow> (d, s') | (Inr x, s') \<Rightarrow> (x, s'))"

definition es_single :: "('a, 'k :: linorder) eset \<Rightarrow> (set_error + 'a) \<times> ('a, 'k) eset" where
  "es_single s =
     (let s' = ensure_evaluated s in
      (case es_elements s' of [] \<Rightarrow> Inl No_Elements | [x] \<Rightarrow> Inr x | _ \<Rightarrow> Inl More_Than_One, s'))"

definition es_single_where :: "('a \<Rightarrow> bool) \<Rightarrow> ('a, 'k :: linorder) eset \<Rightarrow> set_error + 'a" where
  "es_single_where f s = fst (es_single (es_where f s))"

definition es_any :: "('a, 'k :: linorder) eset \<Rightarrow> bool \<times> ('a, 'k) eset" where
  "es_any s = (let s' = ensure_evaluated s in (es_elements s' \<noteq> [], s'))"

definition es_any_where :: "('a \<Rightarrow> bool) \<Rightarrow> ('a, 'k :: linorder) eset \<Rightarrow> bool" where
  "es_any_where f s = fst (es_any (es_where f s))"

definition es_all :: "('a \<Rightarrow> bool) \<Rightarrow> ('a, 'k :: linorder) eset \<Rightarrow> bool \<times> ('a, 'k) eset" where
  "es_all f s = (let s' = ensure_evaluated s in (list_all f (es_elements s'), s'))"

fun add_to_group :: "'g \<Rightarrow> 'a \<Rightarrow> ('g, 'a list) dict \<Rightarrow> ('g, 'a list) dict" where
  "add_to_group g x [] = [(g, [x])]"
| "add_to_group g x ((h, xs) # ds) = (if h = g then (h, xs @ [x]) # ds else (h, xs) # add_to_group g x ds)"

definition es_group_by :: "('a \<Rightarrow> 'g) \<Rightarrow> ('a, 'k :: linorder) eset \<Rightarrow> ('g, 'a list) dict \<times> ('a, 'k) eset" where
  "es_group_by f s =
     (let s' = ensure_evaluated s in (fold (\<lambda>x. add_to_group (f x) x) (es_elements s') [], s'))"

definition es_item :: "int \<Rightarrow> ('a, 'k :: linorder) eset \<Rightarrow> 'a option \<times> ('a, 'k) eset" where
  "es_item i s =
     (let s' = ensure_evaluated s; xs = es_elements s'; j = (if i < 0 then i + int (length xs) else i) in
      (if 0 \<le> j \<and> j < int (length xs) then Some (xs ! nat j) else None, s'))"

definition es_contains :: "('a \<Rightarrow> 'i) \<Rightarrow> 'a \<Rightarrow> ('a, 'k :: linorder) eset \<Rightarrow> bool \<times> ('a, 'k) eset" where
  "es_contains ident x s =
     (let s' = ensure_evaluated s in (list_ex (\<lambda>y. ident y = ident x) (es_elements s'), s'))"

lemma apply_set_op_empty [simp]: "apply_set_op f [] = []"
  by (cases f) simp_all

lemma apply_set_ops_empty [simp]: "fold apply_set_op fs [] = []"
  by (induction fs) simp_all

lemma derived_empty: "es_elements (ensure_evaluated (derive_set op s)) = []"
  by (simp add: ensure_evaluated_def derive_set_def new_eset_def)

text \<open>
  Filtering, mapping or ordering an element set loses its elements: \<open>where\<close>, \<open>select\<close> and
  \<open>order_by\<close> start from a new empty set and take over only the recorded operations, so that the
  result is empty whatever the set holds, \<open>any\<close> with a predicate is always false, and \<open>first\<close> and
  \<open>single\<close> with a predicate always raise.
\<close>
theorem derived_sets_are_empty:
  "fst (es_to_list (es_where f s)) = [] \<and> fst (es_to_list (es_select g s)) = [] \<and>
   fst (es_to_list (es_order_by h s)) = [] \<and> fst (es_count (es_where f s)) = 0 \<and>
   \<not> es_any_where f s \<and> es_first_where f s = Inl No_Elements \<and> es_single_where f s = Inl No_Elements"
  by (simp add: es_to_list_def es_count_def es_any_where_def es_any_def es_first_where_def es_first_def
      es_single_where_def es_single_def es_where_def es_select_def es_order_by_def derived_empty Let_def)

lemma add_to_group_map:
  "map_of (add_to_group g x d) h = (if h = g then Some (case map_of d g of None \<Rightarrow> [x] | Some xs \<Rightarrow> xs @ [x]) else map_of d h)"
  by (induction d) auto

lemma group_fold_map:
  "map_of (fold (\<lambda>x. add_to_group (f x) x) xs d) g =
     (case map_of d g of
        None \<Rightarrow> if filter (\<lambda>x. f x = g) xs = [] then None else Some (filter (\<lambda>x. f x = g) xs)
      | Some ys \<Rightarrow> Some (ys @ filter (\<lambda>x. f x = g) xs))"
  by (induction xs arbitrary: d) (auto simp: add_to_group_map split: option.splits)

text \<open>
  Grouping: \<open>group_by\<close> gives for every key that occurs the elements with this key, in the order
  of the set, and has no other key.
\<close>
theorem groups_by_key:
  assumes "es_evaluated s"
  shows "map_of (fst (es_group_by f s)) g =
    (if filter (\<lambda>x. f x = g) (es_elements s) = [] then None else Some (filter (\<lambda>x. f x = g) (es_elements s)))"
  using assms by (simp add: es_group_by_def ensure_evaluated_def group_fold_map)

subsection \<open>Witnesses\<close>

definition sample_float :: "rat \<Rightarrow> string" where
  "sample_float q = ''0.5''"

definition sample_element :: "mock_element api_element" where
  "sample_element = wrap_element (new_mock_element 1 ''Wall'' ''Walls'' ''Basic'')"

theorem element_cache_coherent_witness:
  "\<exists>e. el_run (mock_ops sample_float) [El_Set ''Width'' (P_Int 5) True, El_Get ''Mark'' True] sample_element = Some e \<and>
     coherent (mock_ops sample_float) (mock_form sample_float) e \<and> el_dirty e"
proof -
  obtain e where e: "el_run (mock_ops sample_float) [El_Set ''Width'' (P_Int 5) True, El_Get ''Mark'' True]
      (wrap_element (new_mock_element 1 ''Wall'' ''Walls'' ''Basic'')) = Some e" and "el_changes e \<noteq> []"
    by (simp add: set_parameter_value_def mock_set_def new_mock_element_def default_parameters_def wrap_element_def
        track_change_def get_parameter_value_def mock_get_def mock_parameter_of_def)
  with element_cache_coherent [OF e] show ?thesis by (auto simp: sample_element_def)
qed

theorem set_then_get_witness:
  "\<exists>e'. set_parameter_value (mock_ops sample_float) ''Width'' (P_Int 5) True sample_element = (None, e') \<and>
     fst (get_parameter_value (mock_ops sample_float) ''Width'' True e') = Inr (P_Int 5) \<and>
     fst (get_parameter_value (mock_ops sample_float) ''Width'' True (refresh_element e')) = Inr (P_Str ''5'')"
proof -
  obtain e' where e': "set_parameter_value (mock_ops sample_float) ''Width'' (P_Int 5) True sample_element = (None, e')"
    by (simp add: set_parameter_value_def mock_set_def new_mock_element_def default_parameters_def wrap_element_def
        track_change_def sample_element_def)
  have "mock_form sample_float (P_Int 5) = P_Str ''5''"
    by code_simp
  with set_then_get [OF e'] e' show ?thesis by simp
qed

theorem set_after_read_raises_witness:
  "\<exists>e1 e2. get_parameter_value (mock_ops sample_float) ''Mark'' True sample_element = (Inr (P_Str ''''), e1) \<and>
     set_parameter_value (mock_ops sample_float) ''Mark'' (P_Str ''A'') True e1 = (Some (Validation_Failed ''Mark''), e2)"
proof -
  obtain e1 where e1: "get_parameter_value (mock_ops sample_float) ''Mark'' True sample_element = (Inr (P_Str ''''), e1)"
      and r: "el_revit e1 = new_mock_element 1 ''Wall'' ''Walls'' ''Basic''"
    by (simp add: get_parameter_value_def mock_get_def new_mock_element_def default_parameters_def wrap_element_def
        sample_element_def mock_parameter_of_def as_string_def)
  obtain m where "rv_set (mock_ops sample_float) ''Mark'' (P_Str ''A'') (el_revit e1) = Some m"
    by (simp add: r mock_set_def new_mock_element_def default_parameters_def mock_parameter_of_def)
  from set_after_read_raises [OF e1 this] e1 show ?thesis by blast
qed

theorem discard_keeps_new_value_witness:
  "\<exists>e'. set_parameter_value (mock_ops sample_float) ''Mark'' (P_Str ''A'') True sample_element = (None, e') \<and>
     fst (get_parameter_value (mock_ops sample_float) ''Mark'' True (discard_changes e')) = Inr (P_Str ''A'')"
proof -
  obtain e' where e': "set_parameter_value (mock_ops sample_float) ''Mark'' (P_Str ''A'') True sample_element = (None, e')"
    by (simp add: set_parameter_value_def mock_set_def new_mock_element_def default_parameters_def wrap_element_def
        track_change_def sample_element_def mock_parameter_of_def)
  from discard_keeps_new_value [OF e'] e' show ?thesis by (simp add: mock_form_def)
qed

theorem refreshing_all_parameters_raises_witness:
  "\<exists>p. fst (get_all_parameters (mock_ops sample_float) True sample_element) = Inl (Key_Missing p)"
  by (rule refreshing_all_parameters_raises)
    (simp add: element_property_mappings_def mock_get_def sample_element_def wrap_element_def new_mock_element_def
      default_parameters_def)

theorem groups_by_key_witness:
  "map_of (fst (es_group_by (\<lambda>x :: nat. x mod 2) (new_eset [1, 2, 3] :: (nat, nat) eset))) 1 = Some [1, 3]"
  using groups_by_key [of "new_eset [1, 2, 3] :: (nat, nat) eset" "\<lambda>x. x mod 2" 1] by (simp add: new_eset_def)

end
