(* ===== verification/Element_Query.thy ===== *)
theory Element_Query
  imports Elements "HOL-Library.Sublist" "HOL-Library.Char_ord" "HOL-Library.List_Lexorder" "HOL-Library.Product_Lexorder"
begin

text \<open>
  The query builder over elements (\<open>api/query.py\<close>): filter criteria, sorting, distinct values,
  paging and the terminal operations, with the builder as the state that they change.

  What reading a parameter of an element gives is the argument \<open>param\<close> (\<open>None\<close> when it raises);
  reading fills the cache of an element and changes no later answer (\<open>reading_is_stable\<close>). The
  texts of floats and lists, lower-casing and regular expressions come from the standard library
  and are arguments too. Strings are compared by code points.
\<close>

subsection \<open>Filter criteria\<close>

datatype filter_operator =
    EQUALS_OP | NOT_EQUALS_OP | GREATER_THAN | LESS_THAN | GREATER_EQUAL | LESS_EQUAL
  | CONTAINS_OP | STARTS_WITH_OP | ENDS_WITH_OP | IN_OP | NOT_IN_OP | IS_NULL_OP | IS_NOT_NULL_OP | REGEX_OP

datatype filter_value = F_One pvalue | F_Many "pvalue list"

record text_ops =
  tx_float :: "rat \<Rightarrow> string"
  tx_list :: "pvalue list \<Rightarrow> string"
  tx_lower :: "string \<Rightarrow> string"
  tx_search :: "string \<Rightarrow> string \<Rightarrow> bool option"

record criteria =
  fc_property :: string
  fc_operator :: filter_operator
  fc_value :: filter_value
  fc_case_sensitive :: bool

definition compare_op :: "filter_operator \<Rightarrow> 'a :: linorder \<Rightarrow> 'a \<Rightarrow> bool" where
  "compare_op op x y =
     (case op of EQUALS_OP \<Rightarrow> x = y | NOT_EQUALS_OP \<Rightarrow> x \<noteq> y | GREATER_THAN \<Rightarrow> y < x | LESS_THAN \<Rightarrow> x < y
      | GREATER_EQUAL \<Rightarrow> y \<le> x | LESS_EQUAL \<Rightarrow> x \<le> y | _ \<Rightarrow> False)"

fun number_of :: "pvalue \<Rightarrow> rat" where
  "number_of (P_Int i) = of_int i"
| "number_of (P_Float q) = q"
| "number_of _ = 0"

fun value_text :: "text_ops \<Rightarrow> filter_value \<Rightarrow> string" where
  "value_text T (F_One v) = py_str (tx_float T) v"
| "value_text T (F_Many vs) = tx_list T vs"

text \<open>
  \<open>_compare_values\<close>: a missing value on either side decides before the comparator is asked; a
  string and anything else are compared as texts; a number and a list are different, and compared
  for order as texts after the \<open>TypeError\<close>.
\<close>

fun compare_values :: "text_ops \<Rightarrow> filter_operator \<Rightarrow> pvalue \<Rightarrow> filter_value \<Rightarrow> bool" where
  "compare_values T op P_None v = (v = F_One P_None)"
| "compare_values T op a (F_One P_None) = False"
| "compare_values T op (P_Str s) v = compare_op op s (value_text T v)"
| "compare_values T op a (F_One (P_Str t)) = compare_op op (py_str (tx_float T) a) t"
| "compare_values T op a (F_One b) = compare_op op (number_of a) (number_of b)"
| "compare_values T op a (F_Many bs) =
     (case op of EQUALS_OP \<Rightarrow> False | NOT_EQUALS_OP \<Rightarrow> True
      | _ \<Rightarrow> compare_op op (py_str (tx_float T) a) (tx_list T bs))"

definition starts_with :: "string \<Rightarrow> string \<Rightarrow> bool" where
  "starts_with x y = (take (length y) x = y)"

definition ends_with :: "string \<Rightarrow> string \<Rightarrow> bool" where
  "ends_with x y = (take (length y) (rev x) = rev y)"

definition string_compare ::
  "text_ops \<Rightarrow> bool \<Rightarrow> (string \<Rightarrow> string \<Rightarrow> bool) \<Rightarrow> pvalue \<Rightarrow> filter_value \<Rightarrow> bool" where
  "string_compare T cs f a v =
     (let x = (if a = P_None then [] else py_str (tx_float T) a);
          y = (if v = F_One P_None then [] else value_text T v)
      in if cs then f x y else f (tx_lower T x) (tx_lower T y))"

definition truthy_value :: "filter_value \<Rightarrow> bool" where
  "truthy_value v =
     (case v of F_One P_None \<Rightarrow> False | F_One (P_Int i) \<Rightarrow> i \<noteq> 0 | F_One (P_Float q) \<Rightarrow> q \<noteq> 0
      | F_One (P_Str s) \<Rightarrow> s \<noteq> [] | F_Many vs \<Rightarrow> vs \<noteq> [])"

text \<open>\<open>a in value\<close>; \<open>None\<close> stands for the \<open>TypeError\<close> of a value that is no container for \<open>a\<close>.\<close>

fun contained_in :: "pvalue \<Rightarrow> filter_value \<Rightarrow> bool option" where
  "contained_in a (F_Many vs) = Some (list_ex (py_equal a) vs)"
| "contained_in (P_Str s) (F_One (P_Str t)) = Some (substring s t)"
| "contained_in a (F_One v) = None"

definition regex_search :: "text_ops \<Rightarrow> bool \<Rightarrow> filter_value \<Rightarrow> string \<Rightarrow> bool option" where
  "regex_search T cs v text =
     (if cs then (case v of F_One (P_Str p) \<Rightarrow> tx_search T p text | _ \<Rightarrow> None)
      else tx_search T (''(?i)'' @ value_text T v) text)"

definition is_some_true :: "bool option \<Rightarrow> bool" where
  "is_some_true x = (x = Some True)"

definition apply_criteria :: "text_ops \<Rightarrow> (string \<Rightarrow> 'e \<Rightarrow> pvalue option) \<Rightarrow> criteria \<Rightarrow> 'e \<Rightarrow> bool" where
  "apply_criteria T param c e =
     (case param (fc_property c) e of
        None \<Rightarrow> False
      | Some a \<Rightarrow>
          (case fc_operator c of
             CONTAINS_OP \<Rightarrow> string_compare T (fc_case_sensitive c) (\<lambda>x y. substring y x) a (fc_value c)
           | STARTS_WITH_OP \<Rightarrow> string_compare T (fc_case_sensitive c) starts_with a (fc_value c)
           | ENDS_WITH_OP \<Rightarrow> string_compare T (fc_case_sensitive c) ends_with a (fc_value c)
           | IN_OP \<Rightarrow> truthy_value (fc_value c) \<and> is_some_true (contained_in a (fc_value c))
           | NOT_IN_OP \<Rightarrow> \<not> truthy_value (fc_value c) \<or> is_some_true (map_option Not (contained_in a (fc_value c)))
           | IS_NULL_OP \<Rightarrow> a = P_None
           | IS_NOT_NULL_OP \<Rightarrow> a \<noteq> P_None
           | REGEX_OP \<Rightarrow> is_some_true (regex_search T (fc_case_sensitive c) (fc_value c) (py_str (tx_float T) a))
           | op \<Rightarrow> compare_values T op a (fc_value c)))"

subsection \<open>Sorting\<close>

datatype sort_direction = ASCENDING | DESCENDING

record sort_criteria =
  sc_property :: string
  sc_direction :: sort_direction

definition get_sort_key :: "(string \<Rightarrow> 'e \<Rightarrow> pvalue option) \<Rightarrow> sort_criteria \<Rightarrow> 'e \<Rightarrow> pvalue" where
  "get_sort_key param c e =
     (case param (sc_property c) e of None \<Rightarrow> P_Str [] | Some P_None \<Rightarrow> P_Str [] | Some v \<Rightarrow> v)"

fun reversed_key :: "pvalue \<Rightarrow> pvalue" where
  "reversed_key (P_Str s) = P_Str (rev s)"
| "reversed_key (P_Int i) = P_Int (- i)"
| "reversed_key (P_Float q) = P_Float (- q)"
| "reversed_key P_None = P_None"

definition directed_key :: "(string \<Rightarrow> 'e \<Rightarrow> pvalue option) \<Rightarrow> sort_criteria \<Rightarrow> 'e \<Rightarrow> pvalue" where
  "directed_key param c e =
     (case sc_direction c of ASCENDING \<Rightarrow> get_sort_key param c e | DESCENDING \<Rightarrow> reversed_key (get_sort_key param c e))"

definition sort_keys :: "(string \<Rightarrow> 'e \<Rightarrow> pvalue option) \<Rightarrow> sort_criteria list \<Rightarrow> 'e \<Rightarrow> pvalue list" where
  "sort_keys param cs e = map (\<lambda>c. directed_key param c e) cs"

text \<open>
  Two key tuples can be compared when the first place where they differ holds two strings or two
  numbers; otherwise \<open>sorted\<close> raises a \<open>TypeError\<close>. Sorting must compare neighbours of its result, so it
  raises exactly when some two tuples cannot be compared. \<open>key_rank\<close> embeds the keys in a linear
  order that agrees with Python's on comparable keys.
\<close>

fun is_string :: "pvalue \<Rightarrow> bool" where
  "is_string (P_Str _) = True"
| "is_string _ = False"

fun key_rank :: "pvalue \<Rightarrow> nat \<times> rat \<times> string" where
  "key_rank (P_Str s) = (1, 0, s)"
| "key_rank v = (0, number_of v, [])"

fun keys_comparable :: "pvalue list \<Rightarrow> pvalue list \<Rightarrow> bool" where
  "keys_comparable (x # xs) (y # ys) =
     (if key_rank x = key_rank y then keys_comparable xs ys else is_string x = is_string y)"
| "keys_comparable _ _ = True"

definition sort_elements ::
  "(string \<Rightarrow> 'e \<Rightarrow> pvalue option) \<Rightarrow> sort_criteria list \<Rightarrow> 'e list \<Rightarrow> 'e list option" where
  "sort_elements param cs xs =
     (if list_all (\<lambda>x. list_all (\<lambda>y. keys_comparable (sort_keys param cs x) (sort_keys param cs y)) xs) xs
      then Some (sort_key (\<lambda>x. map key_rank (sort_keys param cs x)) xs) else None)"

subsection \<open>The builder\<close>

record ('t, 'e) provider =
  prov_all :: "'e list option"
  prov_of_type :: "'t \<Rightarrow> 'e list option"

record 't element_builder =
  eb_type :: "'t option"
  eb_filters :: "criteria list"
  eb_sorts :: "sort_criteria list"
  eb_skip :: int
  eb_take :: "int option"
  eb_distinct :: "string option"

definition new_element_builder :: "'t option \<Rightarrow> 't element_builder" where
  "new_element_builder t =
     \<lparr>eb_type = t, eb_filters = [], eb_sorts = [], eb_skip = 0, eb_take = None, eb_distinct = None\<rparr>"

definition eb_where :: "criteria \<Rightarrow> 't element_builder \<Rightarrow> 't element_builder" where
  "eb_where c b = b\<lparr>eb_filters := eb_filters b @ [c]\<rparr>"

definition eb_simple :: "filter_operator \<Rightarrow> string \<Rightarrow> filter_value \<Rightarrow> bool \<Rightarrow> 't element_builder \<Rightarrow> 't element_builder" where
  "eb_simple op p v cs b = eb_where \<lparr>fc_property = p, fc_operator = op, fc_value = v, fc_case_sensitive = cs\<rparr> b"

definition eb_equals :: "string \<Rightarrow> filter_value \<Rightarrow> bool \<Rightarrow> 't element_builder \<Rightarrow> 't element_builder" where
  "eb_equals = eb_simple EQUALS_OP"

definition eb_not_equals :: "string \<Rightarrow> filter_value \<Rightarrow> bool \<Rightarrow> 't element_builder \<Rightarrow> 't element_builder" where
  "eb_not_equals = eb_simple NOT_EQUALS_OP"

definition eb_contains :: "string \<Rightarrow> filter_value \<Rightarrow> bool \<Rightarrow> 't element_builder \<Rightarrow> 't element_builder" where
  "eb_contains = eb_simple CONTAINS_OP"

definition eb_starts_with :: "string \<Rightarrow> filter_value \<Rightarrow> bool \<Rightarrow> 't element_builder \<Rightarrow> 't element_builder" where
  "eb_starts_with = eb_simple STARTS_WITH_OP"

definition eb_ends_with :: "string \<Rightarrow> filter_value \<Rightarrow> bool \<Rightarrow> 't element_builder \<Rightarrow> 't element_builder" where
  "eb_ends_with = eb_simple ENDS_WITH_OP"

definition eb_in_values :: "string \<Rightarrow> pvalue list \<Rightarrow> 't element_builder \<Rightarrow> 't element_builder" where
  "eb_in_values p vs = eb_simple IN_OP p (F_Many vs) True"

definition eb_is_null :: "string \<Rightarrow> 't element_builder \<Rightarrow> 't element_builder" where
  "eb_is_null p = eb_simple IS_NULL_OP p (F_One P_None) True"

definition eb_is_not_null :: "string \<Rightarrow> 't element_builder \<Rightarrow> 't element_builder" where
  "eb_is_not_null p = eb_simple IS_NOT_NULL_OP p (F_One P_None) True"

definition eb_regex :: "string \<Rightarrow> filter_value \<Rightarrow> bool \<Rightarrow> 't element_builder \<Rightarrow> 't element_builder" where
  "eb_regex = eb_simple REGEX_OP"

definition eb_order_by :: "string \<Rightarrow> sort_direction \<Rightarrow> 't element_builder \<Rightarrow> 't element_builder" where
  "eb_order_by p d b = b\<lparr>eb_sorts := eb_sorts b @ [\<lparr>sc_property = p, sc_direction = d\<rparr>]\<rparr>"

definition eb_skip_to :: "int \<Rightarrow> 't element_builder \<Rightarrow> 't element_builder" where
  "eb_skip_to n b = b\<lparr>eb_skip := n\<rparr>"

definition eb_take_only :: "int \<Rightarrow> 't element_builder \<Rightarrow> 't element_builder" where
  "eb_take_only n b = b\<lparr>eb_take := Some n\<rparr>"

definition eb_distinct_by :: "string option \<Rightarrow> 't element_builder \<Rightarrow> 't element_builder" where
  "eb_distinct_by p b = b\<lparr>eb_distinct := p\<rparr>"

subsection \<open>Running a query\<close>

definition base_elements :: "('t, 'e) provider \<Rightarrow> 't element_builder \<Rightarrow> 'e list option" where
  "base_elements P b = (case eb_type b of None \<Rightarrow> prov_all P | Some t \<Rightarrow> prov_of_type P t)"

definition filter_elements ::
  "text_ops \<Rightarrow> (string \<Rightarrow> 'e \<Rightarrow> pvalue option) \<Rightarrow> criteria list \<Rightarrow> 'e list \<Rightarrow> 'e list" where
  "filter_elements T param cs xs = fold (\<lambda>c. filter (apply_criteria T param c)) cs xs"

fun distinct_by :: "(string \<Rightarrow> 'e \<Rightarrow> pvalue option) \<Rightarrow> string \<Rightarrow> pvalue list \<Rightarrow> 'e list \<Rightarrow> 'e list" where
  "distinct_by param p seen [] = []"
| "distinct_by param p seen (x # xs) =
     (case param p x of
        None \<Rightarrow> x # distinct_by param p seen xs
      | Some v \<Rightarrow>
          if list_ex (py_equal v) seen then distinct_by param p seen xs
          else x # distinct_by param p (v # seen) xs)"

definition py_slice :: "int \<Rightarrow> int option \<Rightarrow> 'a list \<Rightarrow> 'a list" where
  "py_slice start stop xs =
     (let n = int (length xs);
          clip = (\<lambda>i. if i < 0 then max 0 (i + n) else min i n);
          a = clip start; b = (case stop of None \<Rightarrow> n | Some j \<Rightarrow> clip j)
      in take (nat (b - a)) (drop (nat a) xs))"

definition page :: "int \<Rightarrow> int option \<Rightarrow> 'a list \<Rightarrow> 'a list" where
  "page skip tk xs =
     py_slice skip (case tk of None \<Rightarrow> None | Some n \<Rightarrow> if n = 0 then None else Some (skip + n)) xs"

datatype run_error = Provider_Error | Sort_Type_Error

definition run_query ::
  "text_ops \<Rightarrow> (string \<Rightarrow> 'e \<Rightarrow> pvalue option) \<Rightarrow> ('t, 'e) provider \<Rightarrow> 't element_builder \<Rightarrow>
   run_error + 'e list" where
  "run_query T param P b =
     (case base_elements P b of
        None \<Rightarrow> Inl Provider_Error
      | Some els \<Rightarrow>
          (let fs = filter_elements T param (eb_filters b) els in
           case (if eb_sorts b = [] then Some fs else sort_elements param (eb_sorts b) fs) of
             None \<Rightarrow> Inl Sort_Type_Error
           | Some ss \<Rightarrow>
               (let ds = (case eb_distinct b of None \<Rightarrow> ss | Some p \<Rightarrow> if p = [] then ss else distinct_by param p [] ss)
                in Inr (page (eb_skip b) (eb_take b) ds))))"

text \<open>The terminal operations; \<open>first\<close>, \<open>first_or_default\<close> and \<open>single\<close> go through \<open>take\<close>, which stays set.\<close>

datatype terminal_error = Run_Error run_error | Set_Error set_error

definition eb_run_to_list ::
  "text_ops \<Rightarrow> (string \<Rightarrow> 'e \<Rightarrow> pvalue option) \<Rightarrow> ('t, 'e) provider \<Rightarrow> 't element_builder \<Rightarrow>
   (run_error + 'e list) \<times> 't element_builder" where
  "eb_run_to_list T param P b = (run_query T param P b, b)"

definition eb_run_count ::
  "text_ops \<Rightarrow> (string \<Rightarrow> 'e \<Rightarrow> pvalue option) \<Rightarrow> ('t, 'e) provider \<Rightarrow> 't element_builder \<Rightarrow>
   (run_error + nat) \<times> 't element_builder" where
  "eb_run_count T param P b = (map_sum id length (run_query T param P b), b)"

definition eb_run_any ::
  "text_ops \<Rightarrow> (string \<Rightarrow> 'e \<Rightarrow> pvalue option) \<Rightarrow> ('t, 'e) provider \<Rightarrow> 't element_builder \<Rightarrow>
   (run_error + bool) \<times> 't element_builder" where
  "eb_run_any T param P b =
     (case run_query T param P (b\<lparr>eb_take := Some 1\<rparr>) of
        Inl err \<Rightarrow> (Inl err, b\<lparr>eb_take := Some 1\<rparr>)
      | Inr xs \<Rightarrow> (Inr (0 < length xs), b))"

definition first_of_run :: "run_error + 'e list \<Rightarrow> terminal_error + 'e" where
  "first_of_run r =
     (case r of Inl err \<Rightarrow> Inl (Run_Error err)
      | Inr xs \<Rightarrow> (case fst (es_first (new_eset xs :: ('e, nat) eset)) of Inl err \<Rightarrow> Inl (Set_Error err) | Inr x \<Rightarrow> Inr x))"

definition eb_run_first ::
  "text_ops \<Rightarrow> (string \<Rightarrow> 'e \<Rightarrow> pvalue option) \<Rightarrow> ('t, 'e) provider \<Rightarrow> 't element_builder \<Rightarrow>
   (terminal_error + 'e) \<times> 't element_builder" where
  "eb_run_first T param P b = (let b1 = eb_take_only 1 b in (first_of_run (run_query T param P b1), b1))"

definition eb_run_first_or_default ::
  "text_ops \<Rightarrow> (string \<Rightarrow> 'e \<Rightarrow> pvalue option) \<Rightarrow> ('t, 'e) provider \<Rightarrow> 'e \<Rightarrow> 't element_builder \<Rightarrow>
   (run_error + 'e) \<times> 't element_builder" where
  "eb_run_first_or_default T param P d b =
     (let b1 = eb_take_only 1 b in
      (map_sum id (\<lambda>xs. fst (es_first_or_default d (new_eset xs :: ('e, nat) eset))) (run_query T param P b1), b1))"

definition eb_run_single ::
  "text_ops \<Rightarrow> (string \<Rightarrow> 'e \<Rightarrow> pvalue option) \<Rightarrow> ('t, 'e) provider \<Rightarrow> 't element_builder \<Rightarrow>
   (terminal_error + 'e) \<times> 't element_builder" where
  "eb_run_single T param P b =
     (let b1 = eb_take_only 2 b in
      (case run_query T param P b1 of Inl err \<Rightarrow> Inl (Run_Error err)
       | Inr xs \<Rightarrow> (case fst (es_single (new_eset xs :: ('e, nat) eset)) of Inl err \<Rightarrow> Inl (Set_Error err) | Inr x \<Rightarrow> Inr x),
       b1))"

text \<open>\<open>Query.from_elements\<close>: a provider over a list.\<close>

definition list_provider :: "('t \<Rightarrow> 'e \<Rightarrow> bool) \<Rightarrow> 'e list \<Rightarrow> ('t, 'e) provider" where
  "list_provider is_instance xs = \<lparr>prov_all = Some xs, prov_of_type = (\<lambda>t. Some (filter (is_instance t) xs))\<rparr>"


subsection \<open>Reading through the element cache\<close>

definition param_of :: "'r revit_ops \<Rightarrow> string \<Rightarrow> 'r api_element \<Rightarrow> pvalue option" where
  "param_of R p e = (case fst (get_parameter_value R p True e) of Inl _ \<Rightarrow> None | Inr v \<Rightarrow> Some v)"

lemma reading_is_stable: "param_of R q (snd (get_parameter_value R p True e)) = param_of R q e"
  by (auto simp: param_of_def get_parameter_value_def cached_param_def split: option.splits)

subsection \<open>Filtering and paging\<close>

lemma filter_elements_eq:
  "filter_elements T param cs xs = filter (\<lambda>e. list_all (\<lambda>c. apply_criteria T param c e) cs) xs"
  unfolding filter_elements_def
proof (induction cs arbitrary: xs)
  case (Cons c cs)
  then show ?case by (simp add: conj_commute)
qed simp

lemma page_eq:
  "0 \<le> s \<Longrightarrow> page s None xs = drop (nat s) xs"
  "0 \<le> s \<Longrightarrow> 0 \<le> n \<Longrightarrow> page s (Some n) xs = (if n = 0 then drop (nat s) xs else take (nat n) (drop (nat s) xs))"
  by (auto simp: page_def py_slice_def Let_def min_def nat_diff_distrib nat_add_distrib)

lemma run_query_eq:
  assumes "base_elements P b = Some els" and "eb_sorts b = []" and "eb_distinct b = None"
  shows "run_query T param P b = Inr (page (eb_skip b) (eb_take b)
     (filter (\<lambda>e. list_all (\<lambda>c. apply_criteria T param c e) (eb_filters b)) els))"
  using assms by (simp add: run_query_def filter_elements_eq Let_def)

text \<open>
  What an unsorted query returns: of the provider's elements, in their order, those that satisfy
  every criterion, without the first \<open>skip\<close>, and of these the first \<open>take\<close>; \<open>take(0)\<close> does not
  limit the result at all.
\<close>
theorem query_returns_page_of_matches:
  assumes "base_elements P b = Some els" and "eb_sorts b = []" and "eb_distinct b = None"
    and "0 \<le> eb_skip b" and "\<forall>n. eb_take b = Some n \<longrightarrow> 0 \<le> n"
  shows "run_query T param P b =
    Inr (let ms = drop (nat (eb_skip b)) (filter (\<lambda>e. list_all (\<lambda>c. apply_criteria T param c e) (eb_filters b)) els) in
         case eb_take b of None \<Rightarrow> ms | Some n \<Rightarrow> if n = 0 then ms else take (nat n) ms)"
  using assms run_query_eq [OF assms(1-3), of T param]
  by (cases "eb_take b") (simp_all add: page_eq Let_def)

text \<open>
  Missing values: for an element whose parameter is \<open>None\<close>, each of the six comparisons answers
  whether the filter's value is \<open>None\<close> as well. So \<open>not_equals(p, None)\<close> keeps exactly the elements
  without a value, and \<open>not_equals(p, v)\<close> drops them.
\<close>
theorem comparisons_with_missing_values:
  assumes "fc_operator c \<in> {EQUALS_OP, NOT_EQUALS_OP, GREATER_THAN, LESS_THAN, GREATER_EQUAL, LESS_EQUAL}"
  shows "(param (fc_property c) e = Some P_None \<longrightarrow> apply_criteria T param c e = (fc_value c = F_One P_None)) \<and>
    (fc_value c = F_One P_None \<longrightarrow> apply_criteria T param c e = (param (fc_property c) e = Some P_None))"
proof -
  have b: "compare_values T op a (F_One P_None) \<longleftrightarrow> a = P_None" for op a
    by (cases a) simp_all
  show ?thesis using assms by (auto simp: apply_criteria_def b split: option.splits)
qed

subsection \<open>Sorting\<close>

lemma sort_elements_result:
  assumes "sort_elements param cs xs = Some ys"
  shows "mset ys = mset xs" "sorted_wrt (\<lambda>x y. map key_rank (sort_keys param cs x) \<le> map key_rank (sort_keys param cs y)) ys"
    "filter (\<lambda>x. map key_rank (sort_keys param cs x) = k) ys = filter (\<lambda>x. map key_rank (sort_keys param cs x) = k) xs"
proof -
  have ys: "ys = sort_key (\<lambda>x. map key_rank (sort_keys param cs x)) xs"
    using assms by (simp add: sort_elements_def split: if_splits)
  show "mset ys = mset xs" by (simp add: ys)
  show "sorted_wrt (\<lambda>x y. map key_rank (sort_keys param cs x) \<le> map key_rank (sort_keys param cs y)) ys"
    using sorted_sort_key [of "\<lambda>x. map key_rank (sort_keys param cs x)" xs] by (simp add: ys sorted_map)
  show "filter (\<lambda>x. map key_rank (sort_keys param cs x) = k) ys = filter (\<lambda>x. map key_rank (sort_keys param cs x) = k) xs"
    unfolding ys by (rule sort_key_stable)
qed

text \<open>
  A sorted query without paging that returns does so with the matching elements, each once, in the
  lexicographic order of their sort keys, elements with equal keys in the provider's order.
\<close>
theorem sorted_query_is_sorted:
  assumes "base_elements P b = Some els" and "eb_sorts b \<noteq> []" and "eb_distinct b = None"
    and "eb_skip b = 0" and "eb_take b = None" and "run_query T param P b = Inr ys"
  defines "ms \<equiv> filter (\<lambda>e. list_all (\<lambda>c. apply_criteria T param c e) (eb_filters b)) els"
    and "key \<equiv> \<lambda>x. map key_rank (sort_keys param (eb_sorts b) x)"
  shows "mset ys = mset ms \<and> sorted_wrt (\<lambda>x y. key x \<le> key y) ys \<and>
    (\<forall>k. filter (\<lambda>x. key x = k) ys = filter (\<lambda>x. key x = k) ms)"
proof -
  have "sort_elements param (eb_sorts b) ms = Some ys"
    using assms(1-6) by (auto simp: run_query_def filter_elements_eq ms_def page_eq Let_def split: option.splits)
  from sort_elements_result [OF this] show ?thesis by (simp add: key_def)
qed

text \<open>
  Sorting by a numeric property raises a \<open>TypeError\<close> as soon as one matching element has a number
  there and another has no value: the missing value is replaced by the empty string.
\<close>
theorem sorting_mixed_keys_raises:
  assumes "base_elements P b = Some els" and "eb_sorts b = c # cs"
    and "x \<in> set els" and "y \<in> set els"
    and "list_all (\<lambda>c. apply_criteria T param c x) (eb_filters b)"
    and "list_all (\<lambda>c. apply_criteria T param c y) (eb_filters b)"
    and "param (sc_property c) x = None \<or> param (sc_property c) x = Some P_None"
    and "param (sc_property c) y = Some (P_Int i)"
  shows "run_query T param P b = Inl Sort_Type_Error"
proof -
  let ?ms = "filter (\<lambda>e. list_all (\<lambda>c. apply_criteria T param c e) (eb_filters b)) els"
  have k: "directed_key param c x = P_Str []" "directed_key param c y = P_Int i \<or> directed_key param c y = P_Int (- i)"
    using assms(7,8) by (auto simp: directed_key_def get_sort_key_def split: sort_direction.splits)
  then have "\<not> keys_comparable (sort_keys param (c # cs) x) (sort_keys param (c # cs) y)"
    by (auto simp: sort_keys_def)
  moreover have "x \<in> set ?ms" "y \<in> set ?ms" using assms(3-6) by auto
  ultimately have "sort_elements param (c # cs) ?ms = None"
    unfolding sort_elements_def list_all_iff by (auto simp del: set_filter)
  with assms(1,2) show ?thesis by (simp add: run_query_def filter_elements_eq Let_def)
qed

lemma sort_key_embed:
  assumes "\<forall>x \<in> set xs. f x = h (g x)" and "\<forall>a b. h a \<le> h b \<longleftrightarrow> a \<le> b"
  shows "sort_key f xs = sort_key g xs"
proof (rule properties_for_sort_key)
  let ?ys = "sort_key g xs"
  have inj: "h a = h b \<longleftrightarrow> a = b" for a b using assms(2) by (metis order_antisym order_refl)
  have "sorted_wrt (\<lambda>x y. g x \<le> g y) ?ys" using sorted_sort_key [of g xs] by (simp add: sorted_map)
  then have "sorted_wrt (\<lambda>x y. f x \<le> f y) ?ys"
    by (rule sorted_wrt_mono_rel [rotated]) (use assms in simp)
  then show "sorted (map f ?ys)" by (simp add: sorted_map)
  fix z assume z: "z \<in> set ?ys"
  have "filter (\<lambda>x. f z = f x) ws = filter (\<lambda>x. g x = g z) ws" if "set ws \<subseteq> set xs" for ws
    using that z assms(1) by (intro filter_cong refl) (auto simp: inj)
  then show "filter (\<lambda>x. f z = f x) ?ys = filter (\<lambda>x. f z = f x) xs"
    using sort_key_stable [of g "g z" xs] by simp
qed simp

text \<open>
  A descending sort by a property with string values orders the elements by the reversed texts,
  ascending: it is an ascending sort, not a descending one, by another key.
\<close>
theorem descending_strings_are_reversed_texts:
  assumes "base_elements P b = Some els" and "eb_sorts b = [\<lparr>sc_property = p, sc_direction = DESCENDING\<rparr>]"
    and "eb_filters b = []" and "eb_distinct b = None" and "eb_skip b = 0" and "eb_take b = None"
    and "\<forall>x \<in> set els. param p x = Some (P_Str (text x))"
  shows "run_query T param P b = Inr (sort_key (\<lambda>x. rev (text x)) els)"
proof -
  have keys: "sort_keys param (eb_sorts b) x = [P_Str (rev (text x))]" if "x \<in> set els" for x
    using assms(2,7) that by (simp add: sort_keys_def directed_key_def get_sort_key_def split: list.splits)
  have "list_all (\<lambda>x. list_all (\<lambda>y. keys_comparable (sort_keys param (eb_sorts b) x) (sort_keys param (eb_sorts b) y)) els) els"
    by (simp add: list_all_iff keys)
  moreover have "sort_key (\<lambda>x. map key_rank (sort_keys param (eb_sorts b) x)) els = sort_key (\<lambda>x. rev (text x)) els"
    by (rule sort_key_embed [where h = "\<lambda>s. [(1, 0, s)]"]) (simp add: keys, simp, simp add: le_less)
  ultimately show ?thesis
    using assms(1-6) by (simp add: run_query_def filter_elements_eq sort_elements_def page_eq Let_def)
qed


subsection \<open>Distinct values and the terminal operations\<close>

definition readable_values :: "(string \<Rightarrow> 'e \<Rightarrow> pvalue option) \<Rightarrow> string \<Rightarrow> 'e list \<Rightarrow> pvalue list" where
  "readable_values param p xs = List.map_filter (param p) xs"

lemma readable_values_simps [simp]:
  "readable_values param p [] = []"
  "readable_values param p (x # xs) =
     (case param p x of None \<Rightarrow> readable_values param p xs | Some v \<Rightarrow> v # readable_values param p xs)"
  by (simp_all add: readable_values_def List.map_filter_simps split: option.splits)

lemma distinct_by_separates:
  "sorted_wrt (\<lambda>a b. \<not> py_equal a b) (readable_values param p (distinct_by param p seen xs)) \<and>
   (\<forall>v \<in> set (readable_values param p (distinct_by param p seen xs)). \<forall>w \<in> set seen. \<not> py_equal v w)"
proof (induction xs arbitrary: seen)
  case (Cons x xs)
  show ?case
  proof (cases "\<exists>v. param p x = Some v \<and> \<not> list_ex (py_equal v) seen")
    case True
    then obtain v where v: "param p x = Some v" "\<forall>w \<in> set seen. \<not> py_equal v w"
      by (auto simp: list_ex_iff)
    have "\<not> list_ex (py_equal v) seen" using v(2) by (auto simp: list_ex_iff)
    with v Cons.IH [of "v # seen"] py_equal_sym [of v] show ?thesis by auto
  next
    case False
    with Cons.IH [of seen] show ?thesis by (auto split: option.splits)
  qed
qed simp

lemma distinct_by_covers:
  "w \<in> set (readable_values param p xs) \<Longrightarrow>
   \<exists>v \<in> set (readable_values param p (distinct_by param p seen xs)) \<union> set seen. py_equal w v"
proof (induction xs arbitrary: seen)
  case (Cons x xs)
  show ?case
  proof (cases "param p x")
    case None
    with Cons show ?thesis by simp
  next
    case (Some v)
    show ?thesis
    proof (cases "w = v \<or> list_ex (py_equal v) seen")
      case True
      with Some Cons show ?thesis
        by (cases "list_ex (py_equal v) seen") (auto simp: list_ex_iff split: option.splits)
    next
      case False
      with Some Cons.prems Cons.IH [of "v # seen"] show ?thesis by auto
    qed
  qed
qed simp

lemma distinct_by_subseq: "subseq (distinct_by param p seen xs) xs"
  by (induction xs arbitrary: seen) (auto split: option.splits)

lemma distinct_by_keeps_unreadable:
  "filter (\<lambda>x. param p x = None) (distinct_by param p seen xs) = filter (\<lambda>x. param p x = None) xs"
  by (induction xs arbitrary: seen) (auto split: option.splits)

text \<open>
  Distinct values: keeping one element per value of a property leaves a subsequence of the elements
  in which no two readable values are equal, every readable value of the input still occurs up to
  Python's equality, and the elements whose property cannot be read are all kept.
\<close>
theorem distinct_keeps_one_per_value:
  "subseq (distinct_by param p [] xs) xs \<and>
   sorted_wrt (\<lambda>a b. \<not> py_equal a b) (readable_values param p (distinct_by param p [] xs)) \<and>
   (\<forall>w \<in> set (readable_values param p xs).
      \<exists>v \<in> set (readable_values param p (distinct_by param p [] xs)). py_equal w v) \<and>
   filter (\<lambda>x. param p x = None) (distinct_by param p [] xs) = filter (\<lambda>x. param p x = None) xs"
  using distinct_by_separates [of param p "[]" xs] distinct_by_covers [of _ param p xs "[]"]
  by (auto simp: distinct_by_subseq distinct_by_keeps_unreadable)

lemma length_page_one: "length (page s (Some 1) xs) \<le> 1"
  by (auto simp: page_def py_slice_def Let_def)

lemma run_query_paged:
  "\<exists>r. \<forall>t. run_query T param P (b\<lparr>eb_take := t\<rparr>) = map_sum id (page (eb_skip b) t) r"
proof -
  have "run_query T param P (b\<lparr>eb_take := t\<rparr>) = map_sum id (page (eb_skip b) t)
     (case base_elements P b of
        None \<Rightarrow> Inl Provider_Error
      | Some els \<Rightarrow>
          (case (if eb_sorts b = [] then Some (filter_elements T param (eb_filters b) els)
                 else sort_elements param (eb_sorts b) (filter_elements T param (eb_filters b) els)) of
             None \<Rightarrow> Inl Sort_Type_Error
           | Some ss \<Rightarrow> Inr (case eb_distinct b of None \<Rightarrow> ss | Some p \<Rightarrow> if p = [] then ss else distinct_by param p [] ss)))"
    for t by (auto simp: run_query_def base_elements_def Let_def split: option.splits)
  then show ?thesis by blast
qed

text \<open>
  Asking a builder for its first element limits it for good: \<open>first()\<close> leaves the limit of one set,
  so that every later run of the same builder returns at most one element, while \<open>any()\<close> puts the
  old limit back when it returns.
\<close>
theorem first_limits_later_runs:
  "(\<forall>ys. run_query T param P (snd (eb_run_first T param P b)) = Inr ys \<longrightarrow> length ys \<le> 1) \<and>
   (\<forall>x. fst (eb_run_any T param P b) = Inr x \<longrightarrow> snd (eb_run_any T param P b) = b)"
proof -
  obtain r where r: "run_query T param P (b\<lparr>eb_take := t\<rparr>) = map_sum id (page (eb_skip b) t) r" for t
    using run_query_paged by metis
  show ?thesis
    by (cases r) (auto simp: eb_run_first_def eb_take_only_def eb_run_any_def Let_def r length_page_one [simplified])
qed

text \<open>
  On a builder without skip and take, the terminal operations agree with the list of results:
  \<open>first\<close> is its head and raises on an empty list, \<open>single\<close> returns exactly when it has one element,
  \<open>any\<close> tells whether it has one, \<open>first_or_default\<close> falls back to the default.
\<close>
theorem terminals_agree_with_list:
  assumes "eb_skip b = 0" and "eb_take b = None" and "run_query T param P b = Inr ys"
  shows "fst (eb_run_first T param P b) = (case ys of [] \<Rightarrow> Inl (Set_Error No_Elements) | y # _ \<Rightarrow> Inr y) \<and>
    fst (eb_run_single T param P b) =
      (case ys of [] \<Rightarrow> Inl (Set_Error No_Elements) | [y] \<Rightarrow> Inr y | _ \<Rightarrow> Inl (Set_Error More_Than_One)) \<and>
    fst (eb_run_any T param P b) = Inr (ys \<noteq> []) \<and>
    fst (eb_run_first_or_default T param P d b) = Inr (case ys of [] \<Rightarrow> d | y # _ \<Rightarrow> y) \<and>
    fst (eb_run_count T param P b) = Inr (length ys)"
proof -
  obtain r where r: "run_query T param P (b\<lparr>eb_take := t\<rparr>) = map_sum id (page (eb_skip b) t) r" for t
    using run_query_paged by metis
  have "b\<lparr>eb_take := None\<rparr> = b" using assms(2) by simp
  with r [of None] assms have "r = Inr ys" by (cases r) (auto simp: page_eq)
  then have q: "run_query T param P (b\<lparr>eb_take := Some n\<rparr>) = Inr (if n = 0 then ys else take (nat n) ys)" if "0 \<le> n" for n
    using r [of "Some n"] assms(1) that by (simp add: page_eq)
  show ?thesis
    by (simp add: eb_run_first_def eb_run_single_def eb_run_any_def eb_run_first_or_default_def eb_run_count_def
        eb_take_only_def Let_def q assms(3) first_of_run_def es_first_def es_single_def es_first_or_default_def
        ensure_evaluated_def new_eset_def numeral_2_eq_2 split: list.splits)
qed


subsection \<open>Witnesses\<close>

definition sample_texts :: text_ops where
  "sample_texts = \<lparr>tx_float = sample_float, tx_list = (\<lambda>vs. ''[]''), tx_lower = id, tx_search = (\<lambda>p s. Some (substring p s))\<rparr>"

definition sample_param :: "string \<Rightarrow> (string \<times> pvalue) list \<Rightarrow> pvalue option" where
  "sample_param p e = map_of e p"

definition sample_walls :: "(string \<times> pvalue) list list" where
  "sample_walls = [[(''Mark'', P_Str ''ab''), (''Width'', P_Int 2)], [(''Mark'', P_Str ''ba''), (''Width'', P_None)], [(''Mark'', P_Str ''b''), (''Width'', P_Int 1)]]"

definition sample_provider :: "(nat, (string \<times> pvalue) list) provider" where
  "sample_provider = list_provider (\<lambda>_ _. True) sample_walls"

abbreviation sample_builder :: "nat element_builder" where
  "sample_builder \<equiv> new_element_builder None"

lemma sample_base: "base_elements sample_provider b = Some sample_walls"
  by (simp add: base_elements_def sample_provider_def list_provider_def split: option.splits)

theorem query_returns_page_of_matches_witness:
  "run_query sample_texts sample_param sample_provider
     (eb_take_only 1 (eb_skip_to 1 (eb_is_not_null ''Width'' sample_builder))) =
   Inr [[(''Mark'', P_Str ''b''), (''Width'', P_Int 1)]]"
proof -
  let ?b = "eb_take_only 1 (eb_skip_to 1 (eb_is_not_null ''Width'' sample_builder))"
  have b: "eb_sorts ?b = []" "eb_distinct ?b = None" "0 \<le> eb_skip ?b" "\<forall>n. eb_take ?b = Some n \<longrightarrow> 0 \<le> n"
    by (simp_all add: eb_take_only_def eb_skip_to_def eb_is_not_null_def eb_simple_def eb_where_def new_element_builder_def)
  show ?thesis
    unfolding query_returns_page_of_matches [OF sample_base b]
    by (simp add: eb_take_only_def eb_skip_to_def eb_is_not_null_def eb_simple_def eb_where_def new_element_builder_def
        sample_walls_def apply_criteria_def sample_param_def)
qed

theorem comparisons_with_missing_values_witness:
  "apply_criteria sample_texts sample_param
     \<lparr>fc_property = ''Width'', fc_operator = NOT_EQUALS_OP, fc_value = F_One P_None, fc_case_sensitive = True\<rparr>
     [(''Width'', P_None)]"
proof -
  have op: "fc_operator \<lparr>fc_property = ''Width'', fc_operator = NOT_EQUALS_OP, fc_value = F_One P_None, fc_case_sensitive = True\<rparr>
      \<in> {EQUALS_OP, NOT_EQUALS_OP, GREATER_THAN, LESS_THAN, GREATER_EQUAL, LESS_EQUAL}" by simp
  show ?thesis
    using comparisons_with_missing_values [OF op, of sample_param "[(''Width'', P_None)]" sample_texts]
    by (simp add: sample_param_def)
qed

theorem sorted_query_is_sorted_witness:
  "\<exists>ys. run_query sample_texts sample_param sample_provider (eb_order_by ''Mark'' ASCENDING sample_builder) = Inr ys \<and>
     mset ys = mset sample_walls"
proof -
  let ?b = "eb_order_by ''Mark'' ASCENDING sample_builder"
  have b: "eb_sorts ?b \<noteq> []" "eb_distinct ?b = None" "eb_skip ?b = 0" "eb_take ?b = None"
    by (simp_all add: eb_order_by_def new_element_builder_def)
  have "\<exists>ys. run_query sample_texts sample_param sample_provider ?b = Inr ys"
    by (simp add: run_query_def sample_base b eb_order_by_def new_element_builder_def filter_elements_def Let_def
        sort_elements_def sample_walls_def sort_keys_def directed_key_def get_sort_key_def sample_param_def)
  then obtain ys where ys: "run_query sample_texts sample_param sample_provider ?b = Inr ys" ..
  have "eb_filters ?b = []" by (simp add: eb_order_by_def new_element_builder_def)
  with sorted_query_is_sorted [OF sample_base b ys] ys show ?thesis by simp
qed

theorem sorting_mixed_keys_raises_witness:
  "run_query sample_texts sample_param sample_provider (eb_order_by ''Width'' DESCENDING sample_builder) = Inl Sort_Type_Error"
proof -
  let ?b = "eb_order_by ''Width'' DESCENDING sample_builder"
  let ?c = "\<lparr>sc_property = ''Width'', sc_direction = DESCENDING\<rparr>"
  have s: "eb_sorts ?b = ?c # []" and f: "eb_filters ?b = []"
    by (simp_all add: eb_order_by_def new_element_builder_def)
  show ?thesis
    by (rule sorting_mixed_keys_raises [OF sample_base s, of "sample_walls ! 1" "sample_walls ! 0" sample_texts sample_param 2])
      (simp_all only: f, simp_all add: sample_walls_def sample_param_def)
qed

theorem descending_strings_are_reversed_texts_witness:
  "run_query sample_texts sample_param sample_provider (eb_order_by ''Mark'' DESCENDING sample_builder) =
     Inr (sort_key (\<lambda>x. rev (case map_of x ''Mark'' of Some (P_Str s) \<Rightarrow> s | _ \<Rightarrow> [])) sample_walls)"
  by (rule descending_strings_are_reversed_texts [OF sample_base])
    (simp_all add: eb_order_by_def new_element_builder_def sample_walls_def sample_param_def)

theorem terminals_agree_with_list_witness:
  "fst (eb_run_single sample_texts sample_param sample_provider (eb_is_null ''Width'' sample_builder)) =
     Inr [(''Mark'', P_Str ''ba''), (''Width'', P_None)]"
proof -
  let ?b = "eb_is_null ''Width'' sample_builder"
  have b: "eb_skip ?b = 0" "eb_take ?b = None"
    by (simp_all add: eb_is_null_def eb_simple_def eb_where_def new_element_builder_def)
  have q: "run_query sample_texts sample_param sample_provider ?b = Inr [[(''Mark'', P_Str ''ba''), (''Width'', P_None)]]"
    by (simp add: run_query_def sample_base eb_is_null_def eb_simple_def eb_where_def new_element_builder_def
        filter_elements_def Let_def sample_walls_def apply_criteria_def sample_param_def page_eq)
  from terminals_agree_with_list [OF b q] show ?thesis by simp
qed


theorem first_limits_later_runs_witness:
  "\<exists>ys. run_query sample_texts sample_param sample_provider
      (snd (eb_run_first sample_texts sample_param sample_provider sample_builder)) = Inr ys \<and> length ys \<le> 1 \<and>
     snd (eb_run_any sample_texts sample_param sample_provider sample_builder) = sample_builder"
proof -
  let ?b = "eb_take_only 1 sample_builder"
  have b: "snd (eb_run_first sample_texts sample_param sample_provider sample_builder) = ?b"
    by (simp add: eb_run_first_def Let_def)
  have q: "\<exists>ys. run_query sample_texts sample_param sample_provider (eb_take_only 1 sample_builder) = Inr ys"
    by (simp add: run_query_def sample_base eb_take_only_def new_element_builder_def Let_def)
  moreover have "\<exists>x. fst (eb_run_any sample_texts sample_param sample_provider sample_builder) = Inr x"
    using q by (auto simp: eb_run_any_def eb_take_only_def split: sum.splits)
  ultimately show ?thesis
    using first_limits_later_runs [of sample_texts sample_param sample_provider sample_builder] by (auto simp: b)
qed

end
