(* ===== verification/Mock_Revit.thy ===== *)
theory Mock_Revit
  imports Complex_Main Elements
begin

text \<open>
  The mock of Revit that programs are tested against (\<open>testing/mock_revit.py\<close>): the parameter
  readers and the dictionaries of \<open>MockElement\<close>, \<open>MockTransaction\<close>, \<open>MockDocument\<close>,
  \<open>MockApplication\<close> and \<open>MockRevit\<close>. The element itself is in \<open>Elements\<close>.

  Documents and elements are mutable objects that several places refer to, so the environment keeps
  them in two stores (lists that only grow) and everything else holds their indices. A document is
  polymorphic in what it holds: references in the environment, whole elements in a dictionary form.
  The identifiers that \<open>uuid4\<close> makes up are arguments. A saved state is the record that
  \<open>save_state\<close> hands to \<open>json.dump\<close>; its values are those of parameters and fixtures, which JSON
  writes and reads back.
\<close>

subsection \<open>Elements: readers, parameters, properties\<close>

text \<open>\<open>float(text)\<close> and \<open>int(text)\<close> are arguments: \<open>None\<close> is the \<open>ValueError\<close>, read as 0.\<close>

definition truncated :: "rat \<Rightarrow> int" where
  "truncated q = (if 0 \<le> q then \<lfloor>q\<rfloor> else \<lceil>q\<rceil>)"

fun as_double :: "(string \<Rightarrow> rat option) \<Rightarrow> pvalue \<Rightarrow> rat" where
  "as_double rd P_None = 0"
| "as_double rd (P_Int i) = of_int i"
| "as_double rd (P_Float q) = q"
| "as_double rd (P_Str s) = (case rd s of None \<Rightarrow> 0 | Some q \<Rightarrow> q)"

fun as_integer :: "(string \<Rightarrow> int option) \<Rightarrow> pvalue \<Rightarrow> int" where
  "as_integer rd P_None = 0"
| "as_integer rd (P_Int i) = i"
| "as_integer rd (P_Float q) = truncated q"
| "as_integer rd (P_Str s) = (case rd s of None \<Rightarrow> 0 | Some i \<Rightarrow> i)"

definition as_value_string :: "(rat \<Rightarrow> string) \<Rightarrow> mock_parameter \<Rightarrow> string" where
  "as_value_string fl m = as_string fl m"

definition mock_element_with :: "int \<Rightarrow> int option \<Rightarrow> string \<Rightarrow> string \<Rightarrow> string \<Rightarrow> mock_element" where
  "mock_element_with gen i name cat ty =
     new_mock_element (case i of None \<Rightarrow> gen | Some k \<Rightarrow> if k = 0 then gen else k) name cat ty"

definition get_parameter :: "string \<Rightarrow> mock_element \<Rightarrow> mock_parameter option" where
  "get_parameter p m = map_of (me_parameters m) p"

definition set_parameter :: "string \<Rightarrow> mock_parameter \<Rightarrow> mock_element \<Rightarrow> mock_element" where
  "set_parameter p mp m = m\<lparr>me_parameters := AList.update p mp (me_parameters m)\<rparr>"

definition has_parameter :: "string \<Rightarrow> mock_element \<Rightarrow> bool" where
  "has_parameter p m = (p \<in> set (dict_keys (me_parameters m)))"

definition get_property :: "string \<Rightarrow> mock_element \<Rightarrow> pvalue" where
  "get_property p m = (case map_of (me_properties m) p of None \<Rightarrow> P_None | Some v \<Rightarrow> v)"

definition set_property :: "string \<Rightarrow> pvalue \<Rightarrow> mock_element \<Rightarrow> mock_element" where
  "set_property p v m = m\<lparr>me_properties := AList.update p v (me_properties m)\<rparr>"

subsection \<open>Elements as dictionaries\<close>

text \<open>The optional keys of the dictionary are options: \<open>type\<close> of a parameter, and the two inner dictionaries.\<close>

record element_data =
  eld_id :: int
  eld_name :: string
  eld_category :: string
  eld_type :: string
  eld_parameters :: "(string, pvalue \<times> string option) dict option"
  eld_properties :: "(string, pvalue) dict option"

definition element_to_dict :: "mock_element \<Rightarrow> element_data" where
  "element_to_dict m =
     \<lparr>eld_id = me_id m, eld_name = me_name m, eld_category = me_category m, eld_type = me_type m,
      eld_parameters = Some (map (\<lambda>(p, mp). (p, (mp_value mp, Some (mp_type_name mp)))) (me_parameters m)),
      eld_properties = Some (me_properties m)\<rparr>"

definition set_type_name :: "string \<Rightarrow> string \<Rightarrow> mock_element \<Rightarrow> mock_element" where
  "set_type_name p ty m =
     (case map_of (me_parameters m) p of
        None \<Rightarrow> m
      | Some mp \<Rightarrow> m\<lparr>me_parameters := AList.update p (mp\<lparr>mp_type_name := ty\<rparr>) (me_parameters m)\<rparr>)"

text \<open>The loop over the parameters; a read-only one would raise.\<close>

fun load_parameters :: "(string, pvalue \<times> string option) dict \<Rightarrow> mock_element \<Rightarrow> mock_element option" where
  "load_parameters [] m = Some m"
| "load_parameters ((p, v, ty) # ps) m =
     (case mock_set p v m of
        None \<Rightarrow> None
      | Some m1 \<Rightarrow> load_parameters ps (case ty of None \<Rightarrow> m1 | Some t \<Rightarrow> set_type_name p t m1))"

definition element_from_dict :: "int \<Rightarrow> element_data \<Rightarrow> mock_element option" where
  "element_from_dict gen d =
     (case load_parameters (case eld_parameters d of None \<Rightarrow> [] | Some ps \<Rightarrow> ps)
             (mock_element_with gen (Some (eld_id d)) (eld_name d) (eld_category d) (eld_type d)) of
        None \<Rightarrow> None
      | Some m \<Rightarrow> Some (fold (\<lambda>(p, v). set_property p v) (case eld_properties d of None \<Rightarrow> [] | Some ps \<Rightarrow> ps) m))"

subsection \<open>Transactions\<close>

record mock_transaction =
  mt_name :: string
  mt_started :: bool
  mt_committed :: bool
  mt_rolled_back :: bool

definition new_mock_transaction :: "string \<Rightarrow> mock_transaction" where
  "new_mock_transaction n = \<lparr>mt_name = n, mt_started = False, mt_committed = False, mt_rolled_back = False\<rparr>"

definition mt_start :: "mock_transaction \<Rightarrow> bool \<times> mock_transaction" where
  "mt_start t = (True, t\<lparr>mt_started := True\<rparr>)"

definition mt_commit :: "mock_transaction \<Rightarrow> bool \<times> mock_transaction" where
  "mt_commit t = (if \<not> mt_started t then (False, t) else (True, t\<lparr>mt_committed := True\<rparr>))"

definition mt_roll_back :: "mock_transaction \<Rightarrow> bool \<times> mock_transaction" where
  "mt_roll_back t = (if \<not> mt_started t then (False, t) else (True, t\<lparr>mt_rolled_back := True\<rparr>))"

subsection \<open>Documents\<close>

text \<open>What callers pass as an element id: an integer, a \<open>MockElementId\<close>, or some other object.\<close>

datatype any_id = Id_Int int | Id_Mock int | Id_Other nat

fun id_key :: "any_id \<Rightarrow> int option" where
  "id_key (Id_Int k) = Some k"
| "id_key (Id_Mock k) = Some k"
| "id_key (Id_Other _) = None"

record 'r mock_document =
  md_title :: string
  md_path :: string
  md_family :: bool
  md_elements :: "(int, 'r) dict"
  md_counter :: int
  md_modified :: bool
  md_transactions :: "mock_transaction list"

definition new_mock_document :: "string \<Rightarrow> string \<Rightarrow> bool \<Rightarrow> 'r mock_document" where
  "new_mock_document title path fam =
     \<lparr>md_title = title, md_path = path, md_family = fam, md_elements = [], md_counter = 1000,
      md_modified = False, md_transactions = []\<rparr>"

definition md_get_elements :: "('r \<Rightarrow> bool) option \<Rightarrow> 'r mock_document \<Rightarrow> 'r list" where
  "md_get_elements crit d =
     (case crit of None \<Rightarrow> map snd (md_elements d) | Some f \<Rightarrow> filter f (map snd (md_elements d)))"

definition md_get_element :: "any_id \<Rightarrow> 'r mock_document \<Rightarrow> 'r option" where
  "md_get_element i d = (case id_key i of None \<Rightarrow> None | Some k \<Rightarrow> map_of (md_elements d) k)"

definition md_add_element :: "int \<Rightarrow> 'r \<Rightarrow> 'r mock_document \<Rightarrow> 'r mock_document" where
  "md_add_element k r d = d\<lparr>md_elements := AList.update k r (md_elements d), md_modified := True\<rparr>"

text \<open>\<open>CreateElement\<close>: \<open>mk\<close> allocates the element with the next identifier.\<close>

definition md_create_element :: "(int \<Rightarrow> 'r) \<Rightarrow> 'r mock_document \<Rightarrow> 'r \<times> 'r mock_document" where
  "md_create_element mk d =
     (let k = md_counter d + 1 in (mk k, md_add_element k (mk k) (d\<lparr>md_counter := k\<rparr>)))"

definition md_delete_one :: "any_id \<Rightarrow> 'r mock_document \<Rightarrow> 'r mock_document" where
  "md_delete_one i d =
     (case id_key i of
        None \<Rightarrow> d
      | Some k \<Rightarrow>
          if k \<in> set (dict_keys (md_elements d))
          then d\<lparr>md_elements := AList.delete k (md_elements d), md_modified := True\<rparr> else d)"

definition md_delete :: "any_id list \<Rightarrow> 'r mock_document \<Rightarrow> 'r mock_document" where
  "md_delete ids d = fold md_delete_one ids d"

definition md_save :: "'r mock_document \<Rightarrow> bool \<times> 'r mock_document" where
  "md_save d = (if md_path d = [] then (False, d) else (True, d\<lparr>md_modified := False\<rparr>))"

definition md_close :: "bool \<Rightarrow> 'r mock_document \<Rightarrow> bool \<times> 'r mock_document" where
  "md_close save d = (if save \<and> md_modified d then md_save d else (True, d))"

definition md_start_transaction :: "string \<Rightarrow> 'r mock_document \<Rightarrow> mock_transaction \<times> 'r mock_document" where
  "md_start_transaction n d =
     (let t = snd (mt_start (new_mock_transaction n)) in (t, d\<lparr>md_transactions := md_transactions d @ [t]\<rparr>))"

definition md_count :: "'r mock_document \<Rightarrow> nat" where
  "md_count d = length (md_elements d)"

definition md_by_category :: "('r \<Rightarrow> mock_element) \<Rightarrow> string \<Rightarrow> 'r mock_document \<Rightarrow> 'r list" where
  "md_by_category deref cat d = filter (\<lambda>r. me_category (deref r) = cat) (map snd (md_elements d))"

definition md_by_type :: "('r \<Rightarrow> mock_element) \<Rightarrow> string \<Rightarrow> 'r mock_document \<Rightarrow> 'r list" where
  "md_by_type deref ty d = filter (\<lambda>r. me_type (deref r) = ty) (map snd (md_elements d))"

record document_data =
  dod_title :: string
  dod_path :: string
  dod_family :: "bool option"
  dod_modified :: "bool option"
  dod_elements :: "element_data list option"

definition document_to_dict :: "('r \<Rightarrow> mock_element) \<Rightarrow> 'r mock_document \<Rightarrow> document_data" where
  "document_to_dict deref d =
     \<lparr>dod_title = md_title d, dod_path = md_path d, dod_family = Some (md_family d), dod_modified = Some (md_modified d),
      dod_elements = Some (map (element_to_dict \<circ> deref \<circ> snd) (md_elements d))\<rparr>"

fun load_elements ::
  "int \<Rightarrow> element_data list \<Rightarrow> mock_element mock_document \<Rightarrow> mock_element mock_document option" where
  "load_elements gen [] d = Some d"
| "load_elements gen (e # es) d =
     (case element_from_dict gen e of
        None \<Rightarrow> None
      | Some m \<Rightarrow> load_elements gen es (d\<lparr>md_elements := AList.update (me_id m) m (md_elements d)\<rparr>))"

definition document_from_dict :: "int \<Rightarrow> document_data \<Rightarrow> mock_element mock_document option" where
  "document_from_dict gen s =
     (let d = new_mock_document (dod_title s) (dod_path s) (case dod_family s of None \<Rightarrow> False | Some b \<Rightarrow> b) in
      load_elements gen (case dod_elements s of None \<Rightarrow> [] | Some es \<Rightarrow> es)
        (d\<lparr>md_modified := (case dod_modified s of None \<Rightarrow> False | Some b \<Rightarrow> b)\<rparr>))"

subsection \<open>The application and the environment\<close>

text \<open>
  \<open>mv_store\<close> and \<open>mv_heap\<close> are the elements and the documents ever made; the application's list
  and active document, the fixtures and the handlers follow the code. The transactions a document
  lists are as they were when they were started: nothing reads them.
\<close>

record ('f, 'h) mock_revit =
  mv_store :: "mock_element list"
  mv_heap :: "nat mock_document list"
  mv_documents :: "nat list"
  mv_active :: "nat option"
  mv_fixtures :: "(string, 'f) dict"
  mv_handlers :: "'h list"

definition new_mock_revit :: "('f, 'h) mock_revit" where
  "new_mock_revit =
     \<lparr>mv_store = [], mv_heap = [], mv_documents = [], mv_active = None, mv_fixtures = [], mv_handlers = []\<rparr>"

definition alloc_document :: "nat mock_document \<Rightarrow> ('f, 'h) mock_revit \<Rightarrow> nat \<times> ('f, 'h) mock_revit" where
  "alloc_document d m =
     (let i = length (mv_heap m) in
      (i, m\<lparr>mv_heap := mv_heap m @ [d], mv_documents := mv_documents m @ [i], mv_active := Some i\<rparr>))"

text \<open>\<open>Path(file_path).name\<close> on a POSIX system: the last component that is neither empty nor a dot.\<close>

fun slash_split :: "string \<Rightarrow> string list" where
  "slash_split [] = [[]]"
| "slash_split (c # s) =
     (if c = CHR ''/'' then [] # slash_split s
      else (case slash_split s of [] \<Rightarrow> [[c]] | p # ps \<Rightarrow> (c # p) # ps))"

definition path_name :: "string \<Rightarrow> string" where
  "path_name p = (case filter (\<lambda>c. c \<noteq> [] \<and> c \<noteq> ''.'') (rev (slash_split p)) of [] \<Rightarrow> [] | c # _ \<Rightarrow> c)"

definition app_open :: "string \<Rightarrow> ('f, 'h) mock_revit \<Rightarrow> nat \<times> ('f, 'h) mock_revit" where
  "app_open path m = alloc_document (new_mock_document (path_name path) path False) m"

definition app_create :: "string option \<Rightarrow> ('f, 'h) mock_revit \<Rightarrow> nat \<times> ('f, 'h) mock_revit" where
  "app_create template m = alloc_document (new_mock_document ''Untitled.rvt'' [] False) m"

definition app_close :: "nat \<Rightarrow> ('f, 'h) mock_revit \<Rightarrow> bool \<times> ('f, 'h) mock_revit" where
  "app_close i m =
     (if i \<in> set (mv_documents m)
      then (let ds = remove1 i (mv_documents m) in
            (True, m\<lparr>mv_documents := ds,
                     mv_active := (if mv_active m = Some i then (case ds of [] \<Rightarrow> None | d # _ \<Rightarrow> Some d) else mv_active m)\<rparr>))
      else (False, m))"

definition mv_create_document :: "string \<Rightarrow> ('f, 'h) mock_revit \<Rightarrow> nat \<times> ('f, 'h) mock_revit" where
  "mv_create_document title m = alloc_document (new_mock_document title [] False) m"

definition update_document ::
  "nat \<Rightarrow> (nat mock_document \<Rightarrow> nat mock_document) \<Rightarrow> ('f, 'h) mock_revit \<Rightarrow> ('f, 'h) mock_revit" where
  "update_document i f m = m\<lparr>mv_heap := (mv_heap m)[i := f (mv_heap m ! i)]\<rparr>"

text \<open>\<open>create_element\<close>; the new element has no read-only parameter, so setting its parameters does not raise.\<close>

fun set_values :: "(string, pvalue) dict \<Rightarrow> mock_element \<Rightarrow> mock_element option" where
  "set_values [] e = Some e"
| "set_values ((p, v) # ps) e = (case mock_set p v e of None \<Rightarrow> None | Some e1 \<Rightarrow> set_values ps e1)"

definition mv_create_element ::
  "int \<Rightarrow> string \<Rightarrow> string \<Rightarrow> string \<Rightarrow> (string, pvalue) dict \<Rightarrow> ('f, 'h) mock_revit \<Rightarrow> (nat \<times> ('f, 'h) mock_revit) option" where
  "mv_create_element gen name cat ty ps m =
     (case set_values ps (mock_element_with gen None name cat ty) of
        None \<Rightarrow> None
      | Some e \<Rightarrow>
          (let r = length (mv_store m); m1 = m\<lparr>mv_store := mv_store m @ [e]\<rparr> in
           Some (r, case mv_active m1 of None \<Rightarrow> m1 | Some d \<Rightarrow> update_document d (md_add_element (me_id e) r) m1)))"

text \<open>\<open>create_elements\<close>: one identifier of \<open>gens\<close> for each element, numbered from \<open>n\<close>.\<close>

fun mv_create_elements ::
  "int list \<Rightarrow> nat \<Rightarrow> string \<Rightarrow> string \<Rightarrow> string \<Rightarrow> ('f, 'h) mock_revit \<Rightarrow> (nat list \<times> ('f, 'h) mock_revit) option" where
  "mv_create_elements [] n prefix cat ty m = Some ([], m)"
| "mv_create_elements (g # gs) n prefix cat ty m =
     (case mv_create_element g (prefix @ ''_'' @ nat_str n) cat ty [] m of
        None \<Rightarrow> None
      | Some (r, m1) \<Rightarrow>
          (case mv_create_elements gs (Suc n) prefix cat ty m1 of
             None \<Rightarrow> None | Some (rs, m2) \<Rightarrow> Some (r # rs, m2)))"

text \<open>The document's own \<open>CreateElement\<close>, \<open>AddElement\<close> and \<open>Delete\<close>, on a document of the environment.\<close>

definition doc_create_element ::
  "nat \<Rightarrow> string \<Rightarrow> string \<Rightarrow> string \<Rightarrow> ('f, 'h) mock_revit \<Rightarrow> nat \<times> ('f, 'h) mock_revit" where
  "doc_create_element i name cat ty m =
     (let r = length (mv_store m); d = snd (md_create_element (\<lambda>k. r) (mv_heap m ! i)) in
      (r, m\<lparr>mv_store := mv_store m @ [new_mock_element (md_counter d) name cat ty],
            mv_heap := (mv_heap m)[i := d]\<rparr>))"

definition load_fixture :: "string \<Rightarrow> 'f \<Rightarrow> ('f, 'h) mock_revit \<Rightarrow> ('f, 'h) mock_revit" where
  "load_fixture n x m = m\<lparr>mv_fixtures := AList.update n x (mv_fixtures m)\<rparr>"

definition get_fixture :: "string \<Rightarrow> ('f, 'h) mock_revit \<Rightarrow> 'f option" where
  "get_fixture n m = map_of (mv_fixtures m) n"

definition mv_reset :: "('f, 'h) mock_revit \<Rightarrow> ('f, 'h) mock_revit" where
  "mv_reset m = m\<lparr>mv_documents := [], mv_active := None, mv_fixtures := [], mv_handlers := []\<rparr>"

definition add_event_handler :: "'h \<Rightarrow> ('f, 'h) mock_revit \<Rightarrow> ('f, 'h) mock_revit" where
  "add_event_handler h m = m\<lparr>mv_handlers := mv_handlers m @ [h]\<rparr>"

definition trigger_event ::
  "string \<Rightarrow> 'd \<Rightarrow> ('f, string \<Rightarrow> 'd \<Rightarrow> ('w, 'e) action) mock_revit \<Rightarrow> 'w \<Rightarrow> 'w" where
  "trigger_event ty x m w = run_all_quiet (map (\<lambda>h. h ty x) (mv_handlers m)) w"

record mock_statistics =
  st_documents :: nat
  st_elements :: nat
  st_fixtures :: nat
  st_handlers :: nat
  st_has_active :: bool

definition mv_statistics :: "('f, 'h) mock_revit \<Rightarrow> mock_statistics" where
  "mv_statistics m =
     \<lparr>st_documents = length (mv_documents m), st_elements = sum_list (map (\<lambda>i. md_count (mv_heap m ! i)) (mv_documents m)),
      st_fixtures = length (mv_fixtures m), st_handlers = length (mv_handlers m), st_has_active = (mv_active m \<noteq> None)\<rparr>"

subsection \<open>Saving and loading the environment\<close>

record 'f saved_state =
  ss_documents :: "document_data list option"
  ss_active_title :: "string option"
  ss_fixtures :: "(string, 'f) dict option"

text \<open>What a dictionary says of the document \<open>i\<close>.\<close>

definition document_view :: "('f, 'h) mock_revit \<Rightarrow> nat \<Rightarrow> document_data" where
  "document_view m i = document_to_dict (\<lambda>r. mv_store m ! r) (mv_heap m ! i)"

definition save_state :: "('f, 'h) mock_revit \<Rightarrow> 'f saved_state" where
  "save_state m =
     \<lparr>ss_documents = Some (map (document_view m) (mv_documents m)),
      ss_active_title = (case mv_active m of None \<Rightarrow> None | Some i \<Rightarrow> Some (md_title (mv_heap m ! i))),
      ss_fixtures = Some (mv_fixtures m)\<rparr>"

text \<open>A document read back is put into the stores, its elements first.\<close>

definition store_document :: "mock_element mock_document \<Rightarrow> ('f, 'h) mock_revit \<Rightarrow> ('f, 'h) mock_revit" where
  "store_document d m =
     (let n = length (mv_store m); i = length (mv_heap m) in
      m\<lparr>mv_store := mv_store m @ map snd (md_elements d),
        mv_heap := mv_heap m @ [\<lparr>md_title = md_title d, md_path = md_path d, md_family = md_family d,
           md_elements = zip (map fst (md_elements d)) [n ..< n + length (md_elements d)],
           md_counter = md_counter d, md_modified = md_modified d, md_transactions = md_transactions d\<rparr>],
        mv_documents := mv_documents m @ [i]\<rparr>)"

text \<open>An element that cannot be read stops the loading, with the documents so far in place.\<close>

fun load_documents :: "int \<Rightarrow> document_data list \<Rightarrow> ('f, 'h) mock_revit \<Rightarrow> bool \<times> ('f, 'h) mock_revit" where
  "load_documents gen [] m = (True, m)"
| "load_documents gen (s # ss) m =
     (case document_from_dict gen s of
        None \<Rightarrow> (False, m)
      | Some d \<Rightarrow> load_documents gen ss (store_document d m))"

definition find_titled :: "string option \<Rightarrow> ('f, 'h) mock_revit \<Rightarrow> nat option" where
  "find_titled t m =
     (case t of
        None \<Rightarrow> None
      | Some s \<Rightarrow> if s = [] then None else List.find (\<lambda>i. md_title (mv_heap m ! i) = s) (mv_documents m))"

definition load_state :: "int \<Rightarrow> 'f saved_state \<Rightarrow> ('f, 'h) mock_revit \<Rightarrow> bool \<times> ('f, 'h) mock_revit" where
  "load_state gen s m =
     (case load_documents gen (case ss_documents s of None \<Rightarrow> [] | Some ds \<Rightarrow> ds)
             (m\<lparr>mv_documents := [], mv_active := None\<rparr>) of
        (False, m1) \<Rightarrow> (False, m1)
      | (True, m1) \<Rightarrow>
          (True, m1\<lparr>mv_active := find_titled (ss_active_title s) m1,
                    mv_fixtures := (case ss_fixtures s of None \<Rightarrow> [] | Some fs \<Rightarrow> fs)\<rparr>))"


subsection \<open>Lemmas on elements\<close>

abbreviation default_names :: "string list" where
  "default_names \<equiv> [''Name'', ''Category'', ''Type'', ''Comments'', ''Mark'']"

text \<open>Every element has the five default parameters, first and in this order.\<close>

definition element_ok :: "mock_element \<Rightarrow> bool" where
  "element_ok m \<longleftrightarrow>
     dict_ok (me_parameters m) \<and> take 5 (dict_keys (me_parameters m)) = default_names \<and> dict_ok (me_properties m)"

lemma default_parameters_keys [simp]: "map fst (default_parameters n c t) = default_names"
  by (simp add: default_parameters_def)

lemma new_mock_element_ok: "element_ok (new_mock_element i n c t)"
  by (simp add: element_ok_def new_mock_element_def default_parameters_keys del: map_map)

lemma mock_element_with_ok: "element_ok (mock_element_with g i n c t)"
  by (simp add: mock_element_with_def new_mock_element_ok)

lemma keys_update: "map fst (AList.update k v d) = (if k \<in> fst ` set d then map fst d else map fst d @ [k])"
  by (simp add: AList.update_keys)

lemma update_keeps_defaults:
  assumes "take 5 (dict_keys d) = default_names"
  shows "take 5 (dict_keys (AList.update k v d)) = default_names"
proof -
  have "5 \<le> length (dict_keys d)"
    using arg_cong [OF assms, of length] by (simp split: if_splits add: min_def)
  then show ?thesis using assms by (simp add: keys_update)
qed

lemma mock_set_ok: "element_ok m \<Longrightarrow> mock_set p v m = Some m' \<Longrightarrow> element_ok m'"
  by (auto simp: element_ok_def mock_set_def update_keeps_defaults distinct_update split: option.splits if_splits)

lemma set_parameter_ok: "element_ok m \<Longrightarrow> element_ok (set_parameter p mp m)"
  by (simp add: element_ok_def set_parameter_def update_keeps_defaults distinct_update)

lemma set_property_ok: "element_ok m \<Longrightarrow> element_ok (set_property p v m)"
  by (simp add: element_ok_def set_property_def distinct_update)

lemma set_values_ok: "element_ok m \<Longrightarrow> set_values ps m = Some m' \<Longrightarrow> element_ok m'"
  by (induction ps m rule: set_values.induct) (auto split: option.splits dest: mock_set_ok)

lemma mock_get_after_set: "mock_set p v m = Some m' \<Longrightarrow> map_option mp_value (get_parameter p m') = Some v"
  by (auto simp: mock_set_def get_parameter_def mock_parameter_of_def split: option.splits if_splits)

text \<open>What a dictionary keeps of a parameter.\<close>

definition restored_param :: "string \<Rightarrow> mock_parameter \<Rightarrow> mock_parameter" where
  "restored_param p mp =
     \<lparr>mp_name = p, mp_value = mp_value mp, mp_type_name = mp_type_name mp, mp_storage_type = ''String'', mp_read_only = False\<rparr>"

definition restored_element :: "mock_element \<Rightarrow> mock_element" where
  "restored_element m = m\<lparr>me_parameters := map (\<lambda>(p, mp). (p, restored_param p mp)) (me_parameters m)\<rparr>"

abbreviation param_dict :: "(string, mock_parameter) dict \<Rightarrow> (string, pvalue \<times> string option) dict" where
  "param_dict ps \<equiv> map (\<lambda>(p, mp). (p, (mp_value mp, Some (mp_type_name mp)))) ps"

lemma update_middle: "k \<notin> fst ` set d1 \<Longrightarrow> AList.update k v (d1 @ (k, w) # d2) = d1 @ (k, v) # d2"
  by (induction d1) auto

lemma map_of_middle: "k \<notin> fst ` set d1 \<Longrightarrow> map_of (d1 @ (k, w) # d2) k = Some w"
  by (induction d1) auto

text \<open>
  Reading the parameters back: those not yet read are still as a new element has them, and their
  names are the next ones to be read.
\<close>

lemma load_parameters_restores:
  assumes "me_parameters m = done @ map (\<lambda>(p, v). (p, mock_parameter_of p v)) fresh"
    and "take (length fresh) (map fst ps) = map fst fresh"
    and "distinct (map fst done @ map fst ps)"
  shows "load_parameters (param_dict ps) m =
           Some (m\<lparr>me_parameters := done @ map (\<lambda>(p, mp). (p, restored_param p mp)) ps\<rparr>)"
  using assms
proof (induction ps arbitrary: m "done" fresh)
  case Nil
  then show ?case by simp
next
  case (Cons x ps)
  obtain p mp where x: "x = (p, mp)" by force
  have new: "p \<notin> fst ` set done" using Cons.prems(3) x by force
  define m1 where "m1 = m\<lparr>me_parameters := (done @ [(p, restored_param p mp)]) @
      map (\<lambda>(p, v). (p, mock_parameter_of p v)) (tl fresh)\<rparr>"
  have step: "load_parameters (param_dict (x # ps)) m = load_parameters (param_dict ps) m1"
  proof (cases fresh)
    case Nil
    have gone: "map_of done p = None" using new by (simp add: map_of_eq_None_iff)
    show ?thesis
      using Cons.prems(1) new x Nil gone
      by (simp add: m1_def mock_set_def set_type_name_def restored_param_def mock_parameter_of_def
          update_new map_add_def update_middle)
  next
    case (Cons y fr)
    then obtain v where y: "y = (p, v)" using Cons.prems(2) x by (cases y) auto
    moreover have "map_of done p = None" using new by (simp add: map_of_eq_None_iff)
    ultimately show ?thesis
      using Cons.prems(1) new x Cons
      by (simp add: m1_def mock_set_def set_type_name_def restored_param_def mock_parameter_of_def
          update_middle map_add_def)
  qed
  have "load_parameters (param_dict ps) m1 =
      Some (m1\<lparr>me_parameters := (done @ [(p, restored_param p mp)]) @ map (\<lambda>(p, mp). (p, restored_param p mp)) ps\<rparr>)"
  proof (rule Cons.IH)
    show "me_parameters m1 = (done @ [(p, restored_param p mp)]) @ map (\<lambda>(p, v). (p, mock_parameter_of p v)) (tl fresh)"
      by (simp add: m1_def)
    show "take (length (tl fresh)) (map fst ps) = map fst (tl fresh)"
      using Cons.prems(2) by (cases fresh) auto
    show "distinct (map fst (done @ [(p, restored_param p mp)]) @ map fst ps)"
      using Cons.prems(3) x by auto
  qed
  then show ?case using step x by (simp add: m1_def)
qed

lemma fold_set_property:
  "dict_ok (me_properties m @ ps) \<Longrightarrow>
   fold (\<lambda>(p, v). set_property p v) ps m = m\<lparr>me_properties := me_properties m @ ps\<rparr>"
proof (induction ps arbitrary: m)
  case Nil
  then show ?case by simp
next
  case (Cons x ps)
  have "set_property (fst x) (snd x) m = m\<lparr>me_properties := me_properties m @ [x]\<rparr>"
    using Cons.prems by (auto simp: set_property_def update_new)
  with Cons show ?case by (simp add: case_prod_beta)
qed

lemma element_roundtrip:
  assumes "element_ok m" and "me_id m \<noteq> 0"
  shows "element_from_dict gen (element_to_dict m) = Some (restored_element m)"
proof -
  let ?n = "new_mock_element (me_id m) (me_name m) (me_category m) (me_type m)"
  let ?fresh = "[(''Name'', P_Str (me_name m)), (''Category'', P_Str (me_category m)), (''Type'', P_Str (me_type m)),
     (''Comments'', P_Str ''''), (''Mark'', P_Str '''')]"
  have "load_parameters (param_dict (me_parameters m)) ?n =
      Some (?n\<lparr>me_parameters := [] @ map (\<lambda>(p, mp). (p, restored_param p mp)) (me_parameters m)\<rparr>)"
    by (rule load_parameters_restores [where fresh = ?fresh])
      (use assms(1) in \<open>simp_all add: element_ok_def new_mock_element_def default_parameters_def numeral_eq_Suc\<close>)
  then show ?thesis
    using assms fold_set_property [of "?n\<lparr>me_parameters := map (\<lambda>(p, mp). (p, restored_param p mp)) (me_parameters m)\<rparr>" "me_properties m"]
    by (simp add: element_from_dict_def element_to_dict_def mock_element_with_def element_ok_def restored_element_def
        new_mock_element_def)
qed

lemma restored_facts [simp]:
  "me_id (restored_element m) = me_id m" "element_to_dict (restored_element m) = element_to_dict m"
  by (auto simp: restored_element_def element_to_dict_def restored_param_def)

lemma read_only_is_lost:
  "element_ok m \<Longrightarrow> me_id m \<noteq> 0 \<Longrightarrow> element_from_dict gen (element_to_dict m) = Some m' \<Longrightarrow>
   get_parameter p m' = Some mp \<Longrightarrow> \<not> mp_read_only mp"
  by (auto simp: element_roundtrip restored_element_def get_parameter_def restored_param_def dest!: map_of_SomeD)


subsection \<open>Lemmas on documents\<close>

lemma md_delete_one_get [simp]:
  "map_of (md_elements (md_delete_one i d)) k = (if id_key i = Some k then None else map_of (md_elements d) k)"
  by (auto simp: md_delete_one_def delete_conv' map_of_eq_None_iff split: option.splits)

lemma md_delete_get:
  "map_of (md_elements (md_delete ids d)) k = (if Some k \<in> id_key ` set ids then None else map_of (md_elements d) k)"
proof (induction ids arbitrary: d)
  case Nil
  show ?case by (simp add: md_delete_def)
next
  case (Cons i ids)
  then show ?case by (auto simp: md_delete_def)
qed

lemma md_delete_one_keys: "dict_ok (md_elements d) \<Longrightarrow> dict_ok (md_elements (md_delete_one i d))"
  by (auto simp: md_delete_one_def distinct_delete split: option.splits)

text \<open>A document whose elements are well formed, have non-zero identifiers and stand under them.\<close>

definition document_ok :: "('r \<Rightarrow> mock_element) \<Rightarrow> 'r mock_document \<Rightarrow> bool" where
  "document_ok deref d \<longleftrightarrow>
     dict_ok (md_elements d) \<and>
     (\<forall>(k, r) \<in> set (md_elements d). k \<noteq> 0 \<and> me_id (deref r) = k \<and> element_ok (deref r))"

lemma load_elements_restores:
  assumes "\<forall>(k, r) \<in> set es. k \<noteq> 0 \<and> me_id (deref r) = k \<and> element_ok (deref r)"
    and "distinct (map fst (md_elements d) @ map fst es)"
  shows "load_elements gen (map (element_to_dict \<circ> deref \<circ> snd) es) d =
           Some (d\<lparr>md_elements := md_elements d @ map (\<lambda>(k, r). (k, restored_element (deref r))) es\<rparr>)"
  using assms
proof (induction es arbitrary: d)
  case Nil
  show ?case by simp
next
  case (Cons x es)
  obtain k r where x: "x = (k, r)" by force
  let ?d = "d\<lparr>md_elements := md_elements d @ [(k, restored_element (deref r))]\<rparr>"
  have "element_from_dict gen (element_to_dict (deref r)) = Some (restored_element (deref r))"
    using Cons.prems(1) x by (auto intro: element_roundtrip)
  moreover have "AList.update k (restored_element (deref r)) (md_elements d) = md_elements d @ [(k, restored_element (deref r))]"
    by (rule update_new) (use Cons.prems(2) x in auto)
  moreover have "load_elements gen (map (element_to_dict \<circ> deref \<circ> snd) es) ?d =
      Some (?d\<lparr>md_elements := md_elements ?d @ map (\<lambda>(k, r). (k, restored_element (deref r))) es\<rparr>)"
    by (rule Cons.IH) (use Cons.prems x in auto)
  ultimately show ?case using Cons.prems(1) x by (simp add: comp_def)
qed

text \<open>What a dictionary keeps of a document.\<close>

definition restored_document :: "('r \<Rightarrow> mock_element) \<Rightarrow> 'r mock_document \<Rightarrow> mock_element mock_document" where
  "restored_document deref d =
     \<lparr>md_title = md_title d, md_path = md_path d, md_family = md_family d,
      md_elements = map (\<lambda>(k, r). (k, restored_element (deref r))) (md_elements d), md_counter = 1000,
      md_modified = md_modified d, md_transactions = []\<rparr>"

lemma document_roundtrip:
  "document_ok deref d \<Longrightarrow> document_from_dict gen (document_to_dict deref d) = Some (restored_document deref d)"
  using load_elements_restores [of "md_elements d" deref
      "(new_mock_document (md_title d) (md_path d) (md_family d) :: mock_element mock_document)\<lparr>md_modified := md_modified d\<rparr>" gen]
  by (simp add: document_ok_def document_from_dict_def document_to_dict_def restored_document_def new_mock_document_def)

lemma restored_same_dict: "document_to_dict id (restored_document deref d) = document_to_dict deref d"
  by (auto simp: document_to_dict_def restored_document_def)

subsection \<open>Lemmas on the environment\<close>

text \<open>
  The open documents exist and are listed once, the active one is open, and every document holds
  elements of the store, under their identifiers, none of which is 0.
\<close>

definition holds_elements :: "mock_element list \<Rightarrow> nat mock_document \<Rightarrow> bool" where
  "holds_elements st d \<longleftrightarrow>
     0 \<le> md_counter d \<and> dict_ok (md_elements d) \<and>
     (\<forall>(k, r) \<in> set (md_elements d). r < length st \<and> k \<noteq> 0 \<and> me_id (st ! r) = k)"

definition env_ok :: "('f, 'h) mock_revit \<Rightarrow> bool" where
  "env_ok m \<longleftrightarrow>
     distinct (mv_documents m) \<and> (\<forall>i \<in> set (mv_documents m). i < length (mv_heap m)) \<and>
     (\<forall>i. mv_active m = Some i \<longrightarrow> i \<in> set (mv_documents m)) \<and>
     (\<forall>d \<in> set (mv_heap m). holds_elements (mv_store m) d) \<and> (\<forall>e \<in> set (mv_store m). element_ok e)"

lemma holds_elements_append: "holds_elements st d \<Longrightarrow> holds_elements (st @ es) d"
  by (fastforce simp: holds_elements_def nth_append)

lemma holds_elements_none [simp]: "md_elements d = [] \<Longrightarrow> 0 \<le> md_counter d \<Longrightarrow> holds_elements st d"
  by (simp add: holds_elements_def)

lemma holds_elements_add:
  "holds_elements st d \<Longrightarrow> k \<noteq> 0 \<Longrightarrow> me_id e = k \<Longrightarrow>
   md_elements d' = AList.update k (length st) (md_elements d) \<Longrightarrow> 0 \<le> md_counter d' \<Longrightarrow> holds_elements (st @ [e]) d'"
  by (auto simp: holds_elements_def distinct_update nth_append dest!: set_update_subset_pairs)

lemma holds_elements_subset:
  "holds_elements st d \<Longrightarrow> set (md_elements d') \<subseteq> set (md_elements d) \<Longrightarrow> dict_ok (md_elements d') \<Longrightarrow>
   0 \<le> md_counter d' \<Longrightarrow> holds_elements st d'"
  by (auto simp: holds_elements_def)

lemma holds_elements_delete: "holds_elements st d \<Longrightarrow> holds_elements st (md_delete ids d)"
proof (induction ids arbitrary: d)
  case Nil
  then show ?case by (simp add: md_delete_def)
next
  case (Cons i ids)
  have "holds_elements st (md_delete_one i d)"
    using Cons.prems
    by (rule holds_elements_subset)
      (use Cons.prems in \<open>auto simp: md_delete_one_def holds_elements_def distinct_delete
         dest: set_delete_pairs split: option.splits\<close>)
  then show ?case using Cons.IH by (simp add: md_delete_def)
qed

lemma holds_elements_document_ok:
  "holds_elements st d \<Longrightarrow> \<forall>e \<in> set st. element_ok e \<Longrightarrow> document_ok (\<lambda>r. st ! r) d"
  by (fastforce simp: holds_elements_def document_ok_def dest: nth_mem)

lemma env_ok_new [simp]: "env_ok new_mock_revit"
  by (simp add: env_ok_def new_mock_revit_def)

lemma env_ok_alloc: "env_ok m \<Longrightarrow> md_elements d = [] \<Longrightarrow> 0 \<le> md_counter d \<Longrightarrow> env_ok (snd (alloc_document d m))"
  by (fastforce simp: env_ok_def alloc_document_def Let_def)

lemma env_ok_app:
  "env_ok m \<Longrightarrow> env_ok (snd (app_open p m))" "env_ok m \<Longrightarrow> env_ok (snd (app_create t m))"
  "env_ok m \<Longrightarrow> env_ok (snd (mv_create_document s m))"
  by (simp_all add: app_open_def app_create_def mv_create_document_def env_ok_alloc new_mock_document_def)

lemma env_ok_app_close:
  assumes "env_ok m"
  shows "env_ok (snd (app_close i m))"
proof (cases "i \<in> set (mv_documents m)")
  case True
  let ?ds = "remove1 i (mv_documents m)"
  have s: "set ?ds = set (mv_documents m) - {i}" using assms by (simp add: env_ok_def set_remove1_eq)
  have hd_in: "d \<in> set ?ds" if "?ds = d # ds" for d ds using that by simp
  show ?thesis
  proof (cases "mv_active m = Some i")
    case a: True
    have "\<forall>j. (case ?ds of [] \<Rightarrow> None | d # _ \<Rightarrow> Some d) = Some j \<longrightarrow> j \<in> set ?ds"
      using hd_in by (simp split: list.splits)
    with assms True a s show ?thesis by (simp add: app_close_def Let_def env_ok_def distinct_remove1)
  next
    case False
    with assms True s show ?thesis by (auto simp: app_close_def Let_def env_ok_def distinct_remove1)
  qed
qed (use assms in \<open>simp add: app_close_def\<close>)

lemma env_ok_heap: "env_ok m \<Longrightarrow> i < length (mv_heap m) \<Longrightarrow> holds_elements (mv_store m) (mv_heap m ! i)"
  by (simp add: env_ok_def)

lemma env_ok_active: "env_ok m \<Longrightarrow> mv_active m = Some i \<Longrightarrow> i < length (mv_heap m)"
  by (auto simp: env_ok_def)

text \<open>A new element in the store and a changed document in the heap.\<close>

lemma env_ok_add:
  assumes "env_ok m" and "\<forall>e \<in> set es. element_ok e" and "holds_elements (mv_store m @ es) d"
  shows "env_ok (m\<lparr>mv_store := mv_store m @ es, mv_heap := (mv_heap m)[i := d]\<rparr>)"
proof -
  have "holds_elements (mv_store m @ es) d'" if "d' \<in> set ((mv_heap m)[i := d])" for d'
    using that assms(1,3) holds_elements_append
    by (auto simp: env_ok_def dest!: set_update_subset_insert [THEN subsetD])
  with assms(1,2) show ?thesis by (auto simp: env_ok_def)
qed

lemma env_ok_update:
  "env_ok m \<Longrightarrow> holds_elements (mv_store m) d \<Longrightarrow> env_ok (m\<lparr>mv_heap := (mv_heap m)[i := d]\<rparr>)"
  using env_ok_add [of m "[]" d i] by simp

lemma env_ok_create_element:
  assumes "env_ok m" and "g \<noteq> 0" and "mv_create_element g n c t ps m = Some (r, m')"
  shows "env_ok m'"
proof -
  obtain e where e: "set_values ps (mock_element_with g None n c t) = Some e"
    using assms(3) by (auto simp: mv_create_element_def split: option.splits)
  have ok: "element_ok e" using mock_element_with_ok e by (rule set_values_ok)
  have "me_id e' = me_id f" if "set_values qs f = Some e'" for qs f e'
    using that by (induction qs f rule: set_values.induct) (auto simp: mock_set_def split: option.splits if_splits)
  then have id: "me_id e = g" using e by (fastforce simp: mock_element_with_def new_mock_element_def)
  show ?thesis
  proof (cases "mv_active m")
    case None
    have "env_ok (m\<lparr>mv_store := mv_store m @ [e]\<rparr>)"
      using assms(1) ok holds_elements_append by (auto simp: env_ok_def)
    with None assms(3) e show ?thesis by (auto simp: mv_create_element_def Let_def)
  next
    case (Some i)
    have "holds_elements (mv_store m @ [e]) (md_add_element (me_id e) (length (mv_store m)) (mv_heap m ! i))"
      using env_ok_heap [OF assms(1) env_ok_active [OF assms(1) Some]] assms(2) id
      by (auto simp: md_add_element_def holds_elements_def [of _ "mv_heap m ! i"] intro!: holds_elements_add)
    with Some assms(1,3) e ok env_ok_add [of m "[e]"] show ?thesis
      by (auto simp: mv_create_element_def Let_def update_document_def)
  qed
qed


lemma env_ok_doc_create_element:
  assumes "env_ok m" and "i < length (mv_heap m)"
  shows "env_ok (snd (doc_create_element i n c t m))"
proof -
  let ?d = "mv_heap m ! i"
  let ?e = "new_mock_element (md_counter ?d + 1) n c t"
  let ?d' = "snd (md_create_element (\<lambda>k. length (mv_store m)) ?d)"
  have d: "holds_elements (mv_store m) ?d" using assms by (rule env_ok_heap)
  have "holds_elements (mv_store m @ [?e]) ?d'"
    by (rule holds_elements_add [OF d, of "md_counter ?d + 1"])
      (use d in \<open>simp_all add: holds_elements_def md_create_element_def md_add_element_def Let_def new_mock_element_def\<close>)
  then show ?thesis
    using env_ok_add [OF assms(1), of "[?e]"]
    by (simp add: doc_create_element_def md_create_element_def md_add_element_def Let_def new_mock_element_ok)
qed

lemma env_ok_create_elements:
  "env_ok m \<Longrightarrow> 0 \<notin> set gs \<Longrightarrow> mv_create_elements gs n p c t m = Some (rs, m') \<Longrightarrow> env_ok m'"
proof (induction gs arbitrary: n m rs)
  case Nil
  then show ?case by simp
next
  case (Cons g gs)
  obtain r m1 rs1 where one: "mv_create_element g (p @ ''_'' @ nat_str n) c t [] m = Some (r, m1)"
    and more: "mv_create_elements gs (Suc n) p c t m1 = Some (rs1, m')"
    using Cons.prems(3) by (auto split: option.splits)
  have "env_ok m1" using Cons.prems(1) _ one by (rule env_ok_create_element) (use Cons.prems(2) in simp)
  then show ?case using _ more by (rule Cons.IH) (use Cons.prems(2) in simp)
qed

lemma mock_set_new: "\<not> (\<exists>mp \<in> snd ` set (me_parameters m). mp_read_only mp) \<Longrightarrow> mock_set p v m \<noteq> None"
  by (force simp: mock_set_def split: option.splits dest: map_of_SomeD)

lemma set_values_fresh:
  "\<not> (\<exists>mp \<in> snd ` set (me_parameters m). mp_read_only mp) \<Longrightarrow> set_values ps m \<noteq> None"
proof (induction ps arbitrary: m)
  case Nil
  show ?case by simp
next
  case (Cons x ps)
  obtain p v where x: "x = (p, v)" by force
  obtain m1 where m1: "mock_set p v m = Some m1" using mock_set_new [OF Cons.prems] by blast
  have "\<not> (\<exists>mp \<in> snd ` set (me_parameters m1). mp_read_only mp)"
    using Cons.prems m1
    by (force simp: mock_set_def mock_parameter_of_def split: option.splits if_splits
        dest!: set_update_subset_pairs dest: map_of_SomeD)
  then show ?case using Cons.IH m1 x by simp
qed

lemma create_element_returns: "mv_create_element g n c t ps m \<noteq> None"
proof -
  have "set_values ps (mock_element_with g None n c t) \<noteq> None"
    by (rule set_values_fresh)
      (auto simp: mock_element_with_def new_mock_element_def default_parameters_def mock_parameter_of_def)
  then show ?thesis by (auto simp: mv_create_element_def Let_def split: option.splits)
qed

lemma create_elements_return: "mv_create_elements gs n p c t m \<noteq> None"
proof (induction gs arbitrary: n m)
  case Nil
  show ?case by simp
next
  case (Cons g gs)
  obtain r m1 where one: "mv_create_element g (p @ ''_'' @ nat_str n) c t [] m = Some (r, m1)"
    using create_element_returns [of g _ c t "[]" m] by fastforce
  then show ?case using Cons.IH [of "Suc n" m1] by (auto split: option.splits)
qed

lemma create_element_document:
  assumes "env_ok m" and "mv_active m = Some i" and "mv_create_element g n c t ps m = Some (r, m')"
  shows "mv_active m' = Some i" and "mv_documents m' = mv_documents m" and "r = length (mv_store m)"
    and "md_elements (mv_heap m' ! i) = AList.update g r (md_elements (mv_heap m ! i))"
proof -
  obtain e where e: "set_values ps (mock_element_with g None n c t) = Some e"
    using assms(3) by (auto simp: mv_create_element_def split: option.splits)
  have "me_id e' = me_id f" if "set_values qs f = Some e'" for qs f e'
    using that by (induction qs f rule: set_values.induct) (auto simp: mock_set_def split: option.splits if_splits)
  then have id: "me_id e = g" using e by (fastforce simp: mock_element_with_def new_mock_element_def)
  note act = env_ok_active [OF assms(1,2)]
  show "mv_active m' = Some i" "mv_documents m' = mv_documents m" "r = length (mv_store m)"
    "md_elements (mv_heap m' ! i) = AList.update g r (md_elements (mv_heap m ! i))"
    using assms(2,3) e id act
    by (auto simp: mv_create_element_def Let_def update_document_def md_add_element_def)
qed


lemma create_elements_fill_document:
  assumes "env_ok m" and "mv_active m = Some i" and "0 \<notin> set gs" and "distinct gs"
    and "set gs \<inter> fst ` set (md_elements (mv_heap m ! i)) = {}"
    and "mv_create_elements gs n p c t m = Some (rs, m')"
  shows "md_elements (mv_heap m' ! i) = md_elements (mv_heap m ! i) @ zip gs rs \<and> length rs = length gs"
  using assms
proof (induction gs arbitrary: n m rs)
  case Nil
  then show ?case by simp
next
  case (Cons g gs)
  obtain r m1 rs1 where one: "mv_create_element g (p @ ''_'' @ nat_str n) c t [] m = Some (r, m1)"
    and more: "mv_create_elements gs (Suc n) p c t m1 = Some (rs1, m')" and rs: "rs = r # rs1"
    using Cons.prems(6) by (auto split: option.splits)
  have ok: "env_ok m1" using Cons.prems(1) _ one by (rule env_ok_create_element) (use Cons.prems(3) in simp)
  note doc = create_element_document [OF Cons.prems(1,2) one]
  have els: "md_elements (mv_heap m1 ! i) = md_elements (mv_heap m ! i) @ [(g, r)]"
    unfolding doc(4) by (rule update_new) (use Cons.prems(5) in auto)
  have "md_elements (mv_heap m' ! i) = md_elements (mv_heap m1 ! i) @ zip gs rs1 \<and> length rs1 = length gs"
    by (rule Cons.IH [OF ok doc(1) _ _ _ more]) (use Cons.prems els in auto)
  then show ?case using els rs by simp
qed

subsection \<open>Lemmas on saved states\<close>

lemma view_of_stored:
  assumes "s = document_to_dict id d" and "\<forall>(k, e) \<in> set (md_elements d). element_ok e \<and> k \<noteq> 0 \<and> me_id e = k"
    and "dict_ok (md_elements d)" and "0 \<le> md_counter d" and "env_ok m"
  shows "env_ok (store_document d m)" and "document_view (store_document d m) (length (mv_heap m)) = s"
    and "mv_documents (store_document d m) = mv_documents m @ [length (mv_heap m)]"
    and "length (mv_heap (store_document d m)) = Suc (length (mv_heap m))"
    and "i < length (mv_heap m) \<Longrightarrow> document_view (store_document d m) i = document_view m i"
proof -
  let ?n = "length (mv_store m)"
  let ?els = "zip (map fst (md_elements d)) [?n ..< ?n + length (md_elements d)]"
  have nth: "(mv_store m @ map snd (md_elements d)) ! snd (?els ! j) = snd (md_elements d ! j)"
    "fst (?els ! j) = fst (md_elements d ! j)" if "j < length (md_elements d)" for j
    using that by (simp_all add: nth_append)
  have els: "map (\<lambda>x. element_to_dict ((mv_store m @ map snd (md_elements d)) ! snd x)) ?els =
      map (\<lambda>x. element_to_dict (snd x)) (md_elements d)"
    by (rule nth_equalityI) (simp_all add: nth)
  show "document_view (store_document d m) (length (mv_heap m)) = s"
    using els
    by (simp add: document_view_def store_document_def Let_def document_to_dict_def assms(1) comp_def)
  show "mv_documents (store_document d m) = mv_documents m @ [length (mv_heap m)]"
    "length (mv_heap (store_document d m)) = Suc (length (mv_heap m))"
    by (simp_all add: store_document_def Let_def)
  show "document_view (store_document d m) i = document_view m i" if "i < length (mv_heap m)"
  proof -
    have "holds_elements (mv_store m) (mv_heap m ! i)" using assms(5) that by (rule env_ok_heap)
    then show ?thesis using that
      by (auto simp: document_view_def store_document_def Let_def document_to_dict_def nth_append holds_elements_def)
  qed
  have held: "holds_elements (mv_store m @ map snd (md_elements d)) d'"
    if d': "md_elements d' = ?els" "md_counter d' = md_counter d" for d'
  proof -
    have "r < ?n + length (md_elements d) \<and> k \<noteq> 0 \<and> me_id ((mv_store m @ map snd (md_elements d)) ! r) = k"
      if kr: "(k, r) \<in> set ?els" for k r
    proof -
      obtain j where j: "j < length (md_elements d)" "?els ! j = (k, r)"
        using kr by (auto simp: in_set_conv_nth)
      moreover have "md_elements d ! j \<in> set (md_elements d)" using j(1) by simp
      ultimately show ?thesis using assms(2) nth [OF j(1)] j by (auto simp: case_prod_beta nth_append)
    qed
    then show ?thesis using assms(3,4) d' by (auto simp: holds_elements_def)
  qed
  show "env_ok (store_document d m)"
    using assms(2,5) holds_elements_append
    by (auto simp: env_ok_def store_document_def Let_def nth_append less_Suc_eq intro: held)
qed


lemma restored_ok: "element_ok m \<Longrightarrow> element_ok (restored_element m)"
  by (auto simp: element_ok_def restored_element_def comp_def case_prod_beta)

lemma load_documents_restores:
  assumes "\<forall>i \<in> set is. document_ok (\<lambda>r. mv_store m0 ! r) (mv_heap m0 ! i)" and "env_ok m"
  shows "\<exists>m'. load_documents gen (map (document_view m0) is) m = (True, m') \<and> env_ok m' \<and>
           mv_documents m' = mv_documents m @ [length (mv_heap m) ..< length (mv_heap m) + length is] \<and>
           map (document_view m') [length (mv_heap m) ..< length (mv_heap m) + length is] = map (document_view m0) is \<and>
           (\<forall>i < length (mv_heap m). document_view m' i = document_view m i) \<and>
           length (mv_heap m') = length (mv_heap m) + length is"
  using assms
proof (induction "is" arbitrary: m)
  case Nil
  then show ?case by auto
next
  case (Cons j js)
  let ?d = "restored_document (\<lambda>r. mv_store m0 ! r) (mv_heap m0 ! j)"
  let ?m1 = "store_document ?d m"
  let ?n = "length (mv_heap m)"
  have ok: "document_ok (\<lambda>r. mv_store m0 ! r) (mv_heap m0 ! j)" using Cons.prems(1) by simp
  then have read: "document_from_dict gen (document_view m0 j) = Some ?d"
    unfolding document_view_def by (rule document_roundtrip)
  have view: "document_view m0 j = document_to_dict id ?d"
    by (simp add: document_view_def restored_same_dict)
  have els: "\<forall>(k, e) \<in> set (md_elements ?d). element_ok e \<and> k \<noteq> 0 \<and> me_id e = k" "dict_ok (md_elements ?d)"
    "0 \<le> md_counter ?d"
    using ok by (auto simp: document_ok_def restored_document_def restored_ok comp_def case_prod_beta)
  note st = view_of_stored [OF view els Cons.prems(2)]
  from Cons.IH [of ?m1] Cons.prems(1) st(1) obtain m' where m':
    "load_documents gen (map (document_view m0) js) ?m1 = (True, m')" "env_ok m'"
    "mv_documents m' = mv_documents ?m1 @ [Suc ?n ..< Suc ?n + length js]"
    "map (document_view m') [Suc ?n ..< Suc ?n + length js] = map (document_view m0) js"
    "\<forall>i < Suc ?n. document_view m' i = document_view ?m1 i" "length (mv_heap m') = Suc ?n + length js"
    unfolding st(4) by auto
  have range: "[?n ..< ?n + length (j # js)] = ?n # [Suc ?n ..< Suc ?n + length js]"
    by (simp add: upt_rec)
  show ?case
  proof (intro exI conjI)
    show "load_documents gen (map (document_view m0) (j # js)) m = (True, m')" using read m'(1) by simp
    show "env_ok m'" by (rule m'(2))
    show "mv_documents m' = mv_documents m @ [?n ..< ?n + length (j # js)]"
      unfolding range using m'(3) st(3) by simp
    show "map (document_view m') [?n ..< ?n + length (j # js)] = map (document_view m0) (j # js)"
      unfolding range using m'(4,5) st(2) by simp
    show "\<forall>i < ?n. document_view m' i = document_view m i" using m'(5) st(5) by simp
    show "length (mv_heap m') = ?n + length (j # js)" using m'(6) by simp
  qed
qed

lemma env_ok_documents:
  assumes "env_ok m" and "i \<in> set (mv_documents m)"
  shows "document_ok (\<lambda>r. mv_store m ! r) (mv_heap m ! i)"
proof (rule holds_elements_document_ok)
  show "holds_elements (mv_store m) (mv_heap m ! i)" using assms by (simp add: env_ok_def)
  show "\<forall>e \<in> set (mv_store m). element_ok e" using assms(1) by (simp add: env_ok_def)
qed

lemma view_title: "dod_title (document_view m i) = md_title (mv_heap m ! i)"
  by (simp add: document_view_def document_to_dict_def)

lemma find_titled_title:
  assumes "\<exists>i \<in> set (mv_documents m). md_title (mv_heap m ! i) = s" and "s \<noteq> []"
  shows "\<exists>i \<in> set (mv_documents m). find_titled (Some s) m = Some i \<and> md_title (mv_heap m ! i) = s"
proof (cases "List.find (\<lambda>i. md_title (mv_heap m ! i) = s) (mv_documents m)")
  case None
  with assms(1) show ?thesis by (auto simp: find_None_iff)
next
  case (Some i)
  then have "i \<in> set (mv_documents m)" "md_title (mv_heap m ! i) = s"
    by (auto simp: find_Some_iff)
  with Some assms(2) show ?thesis by (simp add: find_titled_def)
qed

text \<open>
  A saved state survives loading: saving the environment again gives the same state, unless the
  active document has no title.
\<close>

lemma saved_state_roundtrip:
  assumes "env_ok m" and "env_ok m2" and "\<forall>i. mv_active m = Some i \<longrightarrow> md_title (mv_heap m ! i) \<noteq> []"
  shows "\<exists>m'. load_state gen (save_state m) m2 = (True, m') \<and> save_state m' = save_state m \<and> env_ok m'"
proof -
  let ?m2 = "m2\<lparr>mv_documents := [], mv_active := None\<rparr>"
  let ?n = "length (mv_heap m2)"
  have "env_ok ?m2" using assms(2) by (simp add: env_ok_def)
  then obtain m1 where m1: "load_documents gen (map (document_view m) (mv_documents m)) ?m2 = (True, m1)" "env_ok m1"
    "mv_documents m1 = [?n ..< ?n + length (mv_documents m)]"
    "map (document_view m1) (mv_documents m1) = map (document_view m) (mv_documents m)"
    using load_documents_restores [of "mv_documents m" m ?m2 gen] env_ok_documents [OF assms(1)] by auto
  let ?t = "ss_active_title (save_state m)"
  let ?m' = "m1\<lparr>mv_active := find_titled ?t m1, mv_fixtures := mv_fixtures m\<rparr>"
  have load: "load_state gen (save_state m) m2 = (True, ?m')"
    using m1(1) by (simp add: load_state_def save_state_def)
  have titles: "map (\<lambda>i. md_title (mv_heap m1 ! i)) (mv_documents m1) = map (\<lambda>i. md_title (mv_heap m ! i)) (mv_documents m)"
    using arg_cong [OF m1(4), of "map dod_title"] by (simp add: comp_def view_title)
  have act: "(case find_titled ?t m1 of None \<Rightarrow> None | Some i \<Rightarrow> Some (md_title (mv_heap m1 ! i))) = ?t \<and>
      (\<forall>i. find_titled ?t m1 = Some i \<longrightarrow> i \<in> set (mv_documents m1))"
  proof (cases "mv_active m")
    case None
    then show ?thesis by (simp add: save_state_def find_titled_def)
  next
    case (Some i)
    then have "i \<in> set (mv_documents m)" using assms(1) by (simp add: env_ok_def)
    then have "md_title (mv_heap m ! i) \<in> set (map (\<lambda>i. md_title (mv_heap m1 ! i)) (mv_documents m1))"
      unfolding titles by auto
    then have "\<exists>j \<in> set (mv_documents m1). md_title (mv_heap m1 ! j) = md_title (mv_heap m ! i)" by auto
    moreover have "md_title (mv_heap m ! i) \<noteq> []" using Some assms(3) by simp
    ultimately obtain j where "j \<in> set (mv_documents m1)" "find_titled (Some (md_title (mv_heap m ! i))) m1 = Some j"
      "md_title (mv_heap m1 ! j) = md_title (mv_heap m ! i)"
      using find_titled_title by blast
    then show ?thesis using Some by (simp add: save_state_def)
  qed
  have views: "map (document_view ?m') (mv_documents ?m') = map (document_view m) (mv_documents m)"
    unfolding m1(4) [symmetric] by (simp add: document_view_def)
  have "save_state ?m' = save_state m"
    using act views by (simp add: save_state_def cong: option.case_cong)
  moreover have "env_ok ?m'" using m1(2) act by (auto simp: env_ok_def)
  ultimately show ?thesis using load by blast
qed


subsection \<open>Properties\<close>

text \<open>What a test does with the environment; identifiers made up by \<open>uuid4\<close> come with the operation.\<close>

datatype ('f, 'h) env_op =
    Env_Open string
  | Env_Create "string option"
  | Env_New string
  | Env_Close nat
  | Env_Element int string string string "(string, pvalue) dict"
  | Env_Elements "int list" string string string
  | Env_Doc_Element nat string string string
  | Env_Doc_Delete nat "any_id list"
  | Env_Doc_Save nat
  | Env_Doc_Close nat bool
  | Env_Doc_Transaction nat string
  | Env_Set nat string pvalue
  | Env_Fixture string 'f
  | Env_Handler 'h
  | Env_Reload int
  | Env_Reset

text \<open>A caller only holds documents and elements that exist, and \<open>uuid4\<close> makes up no zero.\<close>

fun env_op_ok :: "('f, 'h) mock_revit \<Rightarrow> ('f, 'h) env_op \<Rightarrow> bool" where
  "env_op_ok m (Env_Element g n c t ps) = (g \<noteq> 0)"
| "env_op_ok m (Env_Elements gs p c t) = (0 \<notin> set gs)"
| "env_op_ok m (Env_Doc_Element i n c t) = (i < length (mv_heap m))"
| "env_op_ok m (Env_Doc_Delete i ids) = (i < length (mv_heap m))"
| "env_op_ok m (Env_Doc_Save i) = (i < length (mv_heap m))"
| "env_op_ok m (Env_Doc_Close i s) = (i < length (mv_heap m))"
| "env_op_ok m (Env_Doc_Transaction i n) = (i < length (mv_heap m))"
| "env_op_ok m (Env_Set r p v) = (r < length (mv_store m))"
| "env_op_ok m (Env_Reload g) = (case mv_active m of None \<Rightarrow> True | Some i \<Rightarrow> md_title (mv_heap m ! i) \<noteq> [])"
| "env_op_ok m _ = True"

fun env_step :: "('f, 'h) env_op \<Rightarrow> ('f, 'h) mock_revit \<Rightarrow> ('f, 'h) mock_revit" where
  "env_step (Env_Open p) m = snd (app_open p m)"
| "env_step (Env_Create t) m = snd (app_create t m)"
| "env_step (Env_New s) m = snd (mv_create_document s m)"
| "env_step (Env_Close i) m = snd (app_close i m)"
| "env_step (Env_Element g n c t ps) m = (case mv_create_element g n c t ps m of None \<Rightarrow> m | Some (_, m') \<Rightarrow> m')"
| "env_step (Env_Elements gs p c t) m = (case mv_create_elements gs 1 p c t m of None \<Rightarrow> m | Some (_, m') \<Rightarrow> m')"
| "env_step (Env_Doc_Element i n c t) m = snd (doc_create_element i n c t m)"
| "env_step (Env_Doc_Delete i ids) m = update_document i (md_delete ids) m"
| "env_step (Env_Doc_Save i) m = update_document i (\<lambda>d. snd (md_save d)) m"
| "env_step (Env_Doc_Close i s) m = update_document i (\<lambda>d. snd (md_close s d)) m"
| "env_step (Env_Doc_Transaction i n) m = update_document i (\<lambda>d. snd (md_start_transaction n d)) m"
| "env_step (Env_Set r p v) m =
     (case mock_set p v (mv_store m ! r) of None \<Rightarrow> m | Some e \<Rightarrow> m\<lparr>mv_store := (mv_store m)[r := e]\<rparr>)"
| "env_step (Env_Fixture n x) m = load_fixture n x m"
| "env_step (Env_Handler h) m = add_event_handler h m"
| "env_step (Env_Reload g) m = snd (load_state g (save_state m) m)"
| "env_step Env_Reset m = mv_reset m"

fun env_run :: "('f, 'h) env_op list \<Rightarrow> ('f, 'h) mock_revit \<Rightarrow> ('f, 'h) mock_revit option" where
  "env_run [] m = Some m"
| "env_run (op # ops) m = (if env_op_ok m op then env_run ops (env_step op m) else None)"

lemma holds_elements_flags:
  "holds_elements st d \<Longrightarrow> holds_elements st (snd (md_save d))"
  "holds_elements st d \<Longrightarrow> holds_elements st (snd (md_close s d))"
  "holds_elements st d \<Longrightarrow> holds_elements st (snd (md_start_transaction n d))"
  by (auto simp: holds_elements_def md_save_def md_close_def md_start_transaction_def Let_def)

lemma env_ok_document_step:
  "env_ok m \<Longrightarrow> i < length (mv_heap m) \<Longrightarrow> holds_elements (mv_store m) (f (mv_heap m ! i)) \<Longrightarrow>
   env_ok (update_document i f m)"
  by (simp add: update_document_def env_ok_update)

lemma env_ok_set:
  assumes "env_ok m" and "r < length (mv_store m)" and "mock_set p v (mv_store m ! r) = Some e"
  shows "env_ok (m\<lparr>mv_store := (mv_store m)[r := e]\<rparr>)"
proof -
  have e: "me_id e = me_id (mv_store m ! r)"
    using assms(3) by (auto simp: mock_set_def split: option.splits if_splits)
  have ok: "element_ok e"
    by (rule mock_set_ok [OF _ assms(3)]) (use assms(1,2) in \<open>simp add: env_ok_def\<close>)
  have same: "me_id ((mv_store m)[r := e] ! j) = me_id (mv_store m ! j)" for j
    using e assms(2) by (cases "j = r") simp_all
  have "holds_elements ((mv_store m)[r := e]) d" if "holds_elements (mv_store m) d" for d
    using that by (simp add: holds_elements_def same)
  with assms(1) ok show ?thesis
    by (auto simp: env_ok_def dest!: set_update_subset_insert [THEN subsetD])
qed

lemma env_ok_step:
  assumes "env_ok m" and "env_op_ok m op"
  shows "env_ok (env_step op m)"
proof (cases op)
  case (Env_Reload g)
  with assms saved_state_roundtrip [OF assms(1,1), of g] show ?thesis by fastforce
next
  case (Env_Set r p v)
  with assms env_ok_set show ?thesis by (auto split: option.splits)
next
  case (Env_Element g n c t ps)
  with assms env_ok_create_element show ?thesis by (auto split: option.splits)
next
  case (Env_Elements gs p c t)
  with assms env_ok_create_elements show ?thesis by (auto split: option.splits)
next
  case Env_Reset
  with assms show ?thesis by (auto simp: env_ok_def mv_reset_def)
next
  case (Env_Fixture n x)
  with assms show ?thesis by (auto simp: env_ok_def load_fixture_def)
next
  case (Env_Handler h)
  with assms show ?thesis by (auto simp: env_ok_def add_event_handler_def)
qed (use assms in \<open>auto intro: env_ok_app env_ok_app_close env_ok_doc_create_element env_ok_document_step
  holds_elements_flags holds_elements_delete env_ok_heap\<close>)

lemma env_ok_run: "env_run ops m = Some m' \<Longrightarrow> env_ok m \<Longrightarrow> env_ok m'"
  by (induction ops arbitrary: m) (auto split: if_splits dest: env_ok_step)


text \<open>
  Whatever a test does with the environment, the open documents exist and are listed once, the
  active document is one of them, and every document holds existing elements under their own
  identifiers, each with its five default parameters.
\<close>
theorem environment_well_formed:
  assumes "env_run ops new_mock_revit = Some m"
  shows "env_ok m"
  using env_ok_run [OF assms env_ok_new] .

definition sample_ops :: "(nat, nat) env_op list" where
  "sample_ops =
     [Env_Open ''/models/tower.rvt'', Env_Elements [7, 8] ''Wall'' ''Walls'' ''Wall'',
      Env_Doc_Element 0 ''Door'' ''Doors'' ''Door'', Env_Set 0 ''Height'' (P_Float 3),
      Env_Doc_Delete 0 [Id_Mock 8, Id_Other 3], Env_New ''Test.rvt'', Env_Element 9 ''Roof'' ''Roofs'' ''Roof'' [(''Mark'', P_Str ''R'')],
      Env_Close 1, Env_Fixture ''walls'' 2, Env_Doc_Save 0]"

definition sample_revit :: "(nat, nat) mock_revit" where
  "sample_revit = (case env_run sample_ops new_mock_revit of None \<Rightarrow> new_mock_revit | Some m \<Rightarrow> m)"

lemma sample_run: "env_run sample_ops new_mock_revit = Some sample_revit"
proof -
  have "env_run sample_ops new_mock_revit \<noteq> None" by code_simp
  then show ?thesis by (auto simp: sample_revit_def)
qed

lemma environment_well_formed_witness: "env_ok sample_revit"
  by (rule environment_well_formed [OF sample_run])

text \<open>
  C40: Saving the environment, loading the state into any other environment and saving again gives the
  same state: titles, paths, flags, elements with their parameters, values and type names, and the
  title of the active document, as long as it has one.
\<close>
theorem saved_state_reloads:
  assumes "env_run ops new_mock_revit = Some m" and "env_run ops2 new_mock_revit = Some m2"
    and "mv_active m = None \<or> md_title (mv_heap m ! the (mv_active m)) \<noteq> []"
  shows "map_prod id save_state (load_state gen (save_state m) m2) = (True, save_state m)"
  using saved_state_roundtrip [of m m2 gen] env_ok_run [OF assms(1)] env_ok_run [OF assms(2)] assms(3) by fastforce

lemma saved_state_reloads_witness:
  "map_prod id save_state (load_state 5 (save_state sample_revit) new_mock_revit) = (True, save_state sample_revit)"
proof (rule saved_state_reloads [OF sample_run, of "[]"])
  show "mv_active sample_revit = None \<or> md_title (mv_heap sample_revit ! the (mv_active sample_revit)) \<noteq> []"
    by code_simp
qed simp

text \<open>
  A document read back from its dictionary has the same elements in the same order, with every
  parameter's value and type name; read-only flags and storage types are back at their defaults, and
  so are the counter of identifiers and the transactions.
\<close>
theorem document_reads_back:
  assumes "env_run ops new_mock_revit = Some m" and "i \<in> set (mv_documents m)"
  shows "document_from_dict gen (document_view m i) = Some (restored_document (\<lambda>r. mv_store m ! r) (mv_heap m ! i))"
  unfolding document_view_def
  by (rule document_roundtrip, rule env_ok_documents [OF env_ok_run [OF assms(1) env_ok_new] assms(2)])

lemma document_reads_back_witness:
  "document_from_dict 5 (document_view sample_revit 0) = Some (restored_document (\<lambda>r. mv_store sample_revit ! r) (mv_heap sample_revit ! 0))"
proof (rule document_reads_back [OF sample_run])
  show "0 \<in> set (mv_documents sample_revit)" by code_simp
qed

text \<open>
  \<open>create_elements\<close> always returns, and with fresh identifiers the active document gains exactly the
  new elements, in order, after those it had.
\<close>
theorem numbered_elements_fill_document:
  assumes "env_run ops new_mock_revit = Some m" and "mv_active m = Some i" and "distinct gs" and "0 \<notin> set gs"
    and "set gs \<inter> fst ` set (md_elements (mv_heap m ! i)) = {}"
  shows "\<exists>rs m'. mv_create_elements gs 1 p c t m = Some (rs, m') \<and> length rs = length gs \<and>
           md_elements (mv_heap m' ! i) = md_elements (mv_heap m ! i) @ zip gs rs"
proof -
  obtain rs m' where run: "mv_create_elements gs 1 p c t m = Some (rs, m')"
    using create_elements_return [of gs 1 p c t m] by fastforce
  with create_elements_fill_document [OF env_ok_run [OF assms(1) env_ok_new] assms(2,4,3,5) run] show ?thesis
    by blast
qed

lemma numbered_elements_fill_document_witness:
  "\<exists>rs m'. mv_create_elements [20, 21] 1 ''Beam'' ''Frames'' ''Beam'' sample_revit = Some (rs, m') \<and> length rs = length [20, 21 :: int] \<and>
     md_elements (mv_heap m' ! 0) = md_elements (mv_heap sample_revit ! 0) @ zip [20, 21] rs"
proof (rule numbered_elements_fill_document [OF sample_run])
  show "mv_active sample_revit = Some 0" by code_simp
  show "set [20, 21] \<inter> fst ` set (md_elements (mv_heap sample_revit ! 0)) = {}" by code_simp
qed simp_all

text \<open>
  A document that was read back numbers its new elements from 1001 again: if it has an element of that
  number, the next \<open>CreateElement\<close> takes its place.
\<close>
lemma created_after_reading_replaces:
  assumes "document_ok deref d" and "document_from_dict gen (document_to_dict deref d) = Some d'"
    and "1001 \<in> set (dict_keys (md_elements d))"
  shows "md_count (snd (md_create_element mk d')) = md_count d' \<and>
         md_get_element (Id_Int 1001) (snd (md_create_element mk d')) = Some (mk 1001)"
proof -
  have "dict_keys (md_elements d') = dict_keys (md_elements d)" "md_counter d' = 1000"
    using document_roundtrip [OF assms(1)] assms(2)
    by (auto simp: restored_document_def comp_def case_prod_beta)
  moreover from this have "1001 \<in> fst ` set (md_elements d')" using assms(3) by (metis list.set_map)
  ultimately show ?thesis
    by (simp add: md_create_element_def md_add_element_def md_count_def md_get_element_def length_update)
qed

text \<open>The active document is found by its title: the first of two documents with one title.\<close>

lemma active_document_confused:
  "(let m = snd (mv_create_document ''TestDocument.rvt'' (snd (mv_create_document ''TestDocument.rvt''
              (new_mock_revit :: (nat, nat) mock_revit))));
        m' = snd (load_state 5 (save_state m) m)
    in mv_active m = Some 1 \<and> mv_documents m' = [2, 3] \<and> mv_active m' = Some 2)"
  by code_simp

text \<open>A transaction of the mock can be committed and rolled back.\<close>

lemma mock_transaction_both:
  "(let t = snd (mt_roll_back (snd (mt_commit (snd (mt_start (new_mock_transaction n))))))
    in mt_committed t \<and> mt_rolled_back t)"
  by (simp add: mt_start_def mt_commit_def mt_roll_back_def new_mock_transaction_def)

text \<open>A read-only parameter can be written again once the element has been through a dictionary.\<close>

lemma read_only_parameter_writable_after_reading:
  assumes "element_ok m" and "me_id m \<noteq> 0" and "element_from_dict gen (element_to_dict m) = Some m'"
  shows "mock_set p v m' \<noteq> None"
  using read_only_is_lost [OF assms, of p] by (auto simp: mock_set_def get_parameter_def split: option.splits)

lemma path_name_sample: "path_name ''/models/./tower.rvt/'' = ''tower.rvt''"
  by code_simp

end
