(* ===== verification/Revit_Api.thy ===== *)
theory Revit_Api
  imports Complex_Main Txn Element_Query Mock_Revit
begin

text \<open>
  The entry point of the library (\<open>api/wrapper.py\<close>): the document provider with its cache of wrapped
  elements, and \<open>RevitAPI\<close> with its connection, its active document, its queries and transactions.

  What the code calls of Revit (\<open>IRevitApplication\<close>, \<open>IRevitDocument\<close>) is the record \<open>host\<close> over a
  world \<open>'w\<close>; a call that raises gives \<open>None\<close>. Providers and wrapped elements are objects that the
  client and the API share: \<open>api_state\<close> holds them in two lists that only grow, and everything else
  refers to them by index. A provider is the transaction stack of \<open>Txn\<close> around its document and its
  cache. The locale \<open>revit_host\<close> states what a document promises about lookups and deletions; the
  environment of \<open>Mock_Revit\<close> is its interpretation.
\<close>

subsection \<open>Revit, as the code calls it\<close>

record ('a, 'w, 'd, 'r) host =
  h_active :: "'a \<Rightarrow> 'w \<Rightarrow> 'd option option"
  h_open :: "'a \<Rightarrow> string \<Rightarrow> 'w \<Rightarrow> 'w \<times> 'd option option"
  h_create :: "'a \<Rightarrow> string option \<Rightarrow> 'w \<Rightarrow> 'w \<times> 'd option option"
  h_elements :: "'d \<Rightarrow> 'w \<Rightarrow> 'r list option"
  h_element :: "'d \<Rightarrow> any_id \<Rightarrow> 'w \<Rightarrow> 'r option option"
  h_delete :: "'d \<Rightarrow> any_id list \<Rightarrow> 'w \<Rightarrow> 'w \<times> bool"
  h_save :: "'d \<Rightarrow> 'w \<Rightarrow> 'w \<times> bool option"
  h_close :: "'d \<Rightarrow> bool \<Rightarrow> 'w \<Rightarrow> 'w \<times> bool option"
  h_title :: "'d \<Rightarrow> 'w \<Rightarrow> string"
  h_path :: "'d \<Rightarrow> 'w \<Rightarrow> string"
  h_id :: "'r \<Rightarrow> 'w \<Rightarrow> int"

record 'd element_access =
  ea_document :: 'd
  ea_cache :: "(int, nat) dict"

type_synonym 'd provider_obj = "'d element_access doc_world"

record ('a, 'd, 'r) api_state =
  as_app :: "'a option"
  as_active :: "nat option"
  as_documents :: "(string, nat) dict"
  as_connected :: bool
  as_providers :: "'d provider_obj list"
  as_elements :: "'r api_element list"

datatype api_fault =
    Connection_Fault string
  | Api_Fault string
  | Lookup_Fault any_id
  | Value_Fault string

abbreviation provider_at :: "('a, 'd, 'r) api_state \<Rightarrow> nat \<Rightarrow> 'd provider_obj" where
  "provider_at s p \<equiv> as_providers s ! p"

abbreviation document_of :: "('a, 'd, 'r) api_state \<Rightarrow> nat \<Rightarrow> 'd" where
  "document_of s p \<equiv> ea_document (doc_state (provider_at s p))"

abbreviation cache_of :: "('a, 'd, 'r) api_state \<Rightarrow> nat \<Rightarrow> (int, nat) dict" where
  "cache_of s p \<equiv> ea_cache (doc_state (provider_at s p))"

subsection \<open>The document provider\<close>

definition new_provider :: "'d \<Rightarrow> 'd provider_obj" where
  "new_provider d = \<lparr>txn_stack = [], doc_state = \<lparr>ea_document = d, ea_cache = []\<rparr>\<rparr>"

definition set_cache :: "nat \<Rightarrow> (int, nat) dict \<Rightarrow> ('a, 'd, 'r) api_state \<Rightarrow> ('a, 'd, 'r) api_state" where
  "set_cache p c s =
     s\<lparr>as_providers := (as_providers s)[p := (provider_at s p)\<lparr>doc_state := (doc_state (provider_at s p))\<lparr>ea_cache := c\<rparr>\<rparr>]\<rparr>"

definition wrap_new :: "'r \<Rightarrow> ('a, 'd, 'r) api_state \<Rightarrow> nat \<times> ('a, 'd, 'r) api_state" where
  "wrap_new r s = (length (as_elements s), s\<lparr>as_elements := as_elements s @ [wrap_element r]\<rparr>)"

definition pr_all_elements ::
  "('a, 'w, 'd, 'r) host \<Rightarrow> nat \<Rightarrow> ('a, 'd, 'r) api_state \<Rightarrow> 'w \<Rightarrow> (api_fault + nat list) \<times> ('a, 'd, 'r) api_state" where
  "pr_all_elements H p s w =
     (case h_elements H (document_of s p) w of
        None \<Rightarrow> (Inl (Api_Fault ''Failed to retrieve elements''), s)
      | Some rs \<Rightarrow>
          (let n = length (as_elements s) in
           (Inr [n ..< n + length rs], s\<lparr>as_elements := as_elements s @ map wrap_element rs\<rparr>)))"

text \<open>
  \<open>get_elements_of_type\<close>: every element is wrapped in the class \<open>Element\<close> itself, so \<open>isinstance\<close> only
  depends on the type asked for: \<open>covers t\<close> when \<open>Element\<close> is \<open>t\<close> or derived from it.
\<close>

definition pr_elements_of_type ::
  "('t \<Rightarrow> bool) \<Rightarrow> ('a, 'w, 'd, 'r) host \<Rightarrow> 't \<Rightarrow> nat \<Rightarrow> ('a, 'd, 'r) api_state \<Rightarrow> 'w \<Rightarrow>
   (api_fault + nat list) \<times> ('a, 'd, 'r) api_state" where
  "pr_elements_of_type covers H t p s w =
     (case pr_all_elements H p s w of
        (Inl e, s1) \<Rightarrow> (Inl e, s1)
      | (Inr es, s1) \<Rightarrow> (Inr (filter (\<lambda>_. covers t) es), s1))"

fun int_id :: "any_id \<Rightarrow> int option" where
  "int_id (Id_Int k) = Some k"
| "int_id _ = None"

definition pr_get_element ::
  "('a, 'w, 'd, 'r) host \<Rightarrow> nat \<Rightarrow> any_id \<Rightarrow> ('a, 'd, 'r) api_state \<Rightarrow> 'w \<Rightarrow>
   (api_fault + nat option) \<times> ('a, 'd, 'r) api_state" where
  "pr_get_element H p i s w =
     (case (case int_id i of None \<Rightarrow> None | Some k \<Rightarrow> map_of (cache_of s p) k) of
        Some a \<Rightarrow> (Inr (Some a), s)
      | None \<Rightarrow>
          (case h_element H (document_of s p) i w of
             None \<Rightarrow> (Inl (Lookup_Fault i), s)
           | Some None \<Rightarrow> (Inr None, s)
           | Some (Some r) \<Rightarrow>
               (let (a, s1) = wrap_new r s in
                (Inr (Some a),
                 case int_id i of None \<Rightarrow> s1 | Some k \<Rightarrow> set_cache p (AList.update k a (cache_of s1 p)) s1))))"

definition pr_delete ::
  "('a, 'w, 'd, 'r) host \<Rightarrow> nat \<Rightarrow> any_id list \<Rightarrow> ('a, 'd, 'r) api_state \<Rightarrow> 'w \<Rightarrow>
   api_fault option \<times> ('a, 'd, 'r) api_state \<times> 'w" where
  "pr_delete H p ids s w =
     (case h_delete H (document_of s p) ids w of
        (w1, False) \<Rightarrow> (Some (Api_Fault ''Failed to delete elements''), s, w1)
      | (w1, True) \<Rightarrow>
          (None, set_cache p (fold AList.delete (List.map_filter int_id ids) (cache_of s p)) s, w1))"

definition pr_refresh :: "nat \<Rightarrow> ('a, 'd, 'r) api_state \<Rightarrow> ('a, 'd, 'r) api_state" where
  "pr_refresh p s = set_cache p [] s"

subsection \<open>The connection\<close>

definition new_api :: "'a option \<Rightarrow> ('a, 'd, 'r) api_state" where
  "new_api app =
     \<lparr>as_app = app, as_active = None, as_documents = [], as_connected = False, as_providers = [], as_elements = []\<rparr>"

definition is_connected :: "('a, 'd, 'r) api_state \<Rightarrow> bool" where
  "is_connected s = (as_connected s \<and> as_app s \<noteq> None)"

definition add_provider :: "'d \<Rightarrow> ('a, 'd, 'r) api_state \<Rightarrow> nat \<times> ('a, 'd, 'r) api_state" where
  "add_provider d s =
     (length (as_providers s),
      s\<lparr>as_providers := as_providers s @ [new_provider d], as_active := Some (length (as_providers s))\<rparr>)"

definition active_document ::
  "('a, 'w, 'd, 'r) host \<Rightarrow> ('a, 'd, 'r) api_state \<Rightarrow> 'w \<Rightarrow> (api_fault + nat option) \<times> ('a, 'd, 'r) api_state" where
  "active_document H s w =
     (case as_app s of
        None \<Rightarrow> (Inr None, s)
      | Some app \<Rightarrow>
          if \<not> is_connected s then (Inr None, s)
          else (case as_active s of
                  Some p \<Rightarrow> (Inr (Some p), s)
                | None \<Rightarrow>
                    (case h_active H app w of
                       None \<Rightarrow> (Inl (Api_Fault ''Failed to get active document''), s)
                     | Some None \<Rightarrow> (Inr None, s)
                     | Some (Some d) \<Rightarrow> (let (p, s1) = add_provider d s in (Inr (Some p), s1)))))"

text \<open>The guard that most operations start with.\<close>

definition need_document ::
  "('a, 'w, 'd, 'r) host \<Rightarrow> string \<Rightarrow> ('a, 'd, 'r) api_state \<Rightarrow> 'w \<Rightarrow> (api_fault + nat) \<times> ('a, 'd, 'r) api_state" where
  "need_document H msg s w =
     (case active_document H s w of
        (Inl e, s1) \<Rightarrow> (Inl e, s1)
      | (Inr None, s1) \<Rightarrow> (Inl (Connection_Fault msg), s1)
      | (Inr (Some p), s1) \<Rightarrow> (Inr p, s1))"

definition connect ::
  "('a, 'w, 'd, 'r) host \<Rightarrow> 'a option \<Rightarrow> ('a, 'd, 'r) api_state \<Rightarrow> 'w \<Rightarrow> api_fault option \<times> ('a, 'd, 'r) api_state" where
  "connect H app s w =
     (let s1 = (case app of None \<Rightarrow> s | Some a \<Rightarrow> s\<lparr>as_app := Some a\<rparr>) in
      case as_app s1 of
        None \<Rightarrow> (Some (Connection_Fault ''No Revit application provided''), s1)
      | Some a \<Rightarrow>
          (case h_active H a w of
             None \<Rightarrow> (Some (Connection_Fault ''Failed to connect to Revit application''), s1\<lparr>as_connected := False\<rparr>)
           | Some _ \<Rightarrow> (None, s1\<lparr>as_connected := True\<rparr>)))"

definition disconnect :: "('a, 'd, 'r) api_state \<Rightarrow> ('a, 'd, 'r) api_state" where
  "disconnect s = s\<lparr>as_app := None, as_active := None, as_documents := [], as_connected := False\<rparr>"

subsection \<open>Documents\<close>

text \<open>
  Opening and creating. A host that answers nothing makes the code raise a \<open>ModelError\<close> inside the
  same \<open>try\<close>, so it leaves as a \<open>RevitAPIError\<close> as well.
\<close>

definition open_document ::
  "('a, 'w, 'd, 'r) host \<Rightarrow> string \<Rightarrow> ('a, 'd, 'r) api_state \<Rightarrow> 'w \<Rightarrow> (api_fault + nat) \<times> ('a, 'd, 'r) api_state \<times> 'w" where
  "open_document H path s w =
     (case as_app s of
        None \<Rightarrow> (Inl (Connection_Fault ''Not connected to Revit''), s, w)
      | Some app \<Rightarrow>
          if \<not> is_connected s then (Inl (Connection_Fault ''Not connected to Revit''), s, w)
          else (case h_open H app path w of
                  (w1, Some (Some d)) \<Rightarrow>
                    (let (p, s1) = add_provider d s in
                     (Inr p, s1\<lparr>as_documents := AList.update path p (as_documents s1)\<rparr>, w1))
                | (w1, _) \<Rightarrow> (Inl (Api_Fault (''Failed to open document: '' @ path)), s, w1)))"

definition create_document ::
  "('a, 'w, 'd, 'r) host \<Rightarrow> string option \<Rightarrow> ('a, 'd, 'r) api_state \<Rightarrow> 'w \<Rightarrow>
   (api_fault + nat) \<times> ('a, 'd, 'r) api_state \<times> 'w" where
  "create_document H template s w =
     (case as_app s of
        None \<Rightarrow> (Inl (Connection_Fault ''Not connected to Revit''), s, w)
      | Some app \<Rightarrow>
          if \<not> is_connected s then (Inl (Connection_Fault ''Not connected to Revit''), s, w)
          else (case h_create H app template w of
                  (w1, Some (Some d)) \<Rightarrow> (let (p, s1) = add_provider d s in (Inr p, s1, w1))
                | (w1, _) \<Rightarrow> (Inl (Api_Fault ''Failed to create document''), s, w1)))"

text \<open>\<open>provider or self.active_document\<close>\<close>

definition given_or_active ::
  "('a, 'w, 'd, 'r) host \<Rightarrow> nat option \<Rightarrow> ('a, 'd, 'r) api_state \<Rightarrow> 'w \<Rightarrow> (api_fault + nat option) \<times> ('a, 'd, 'r) api_state" where
  "given_or_active H prov s w = (case prov of Some p \<Rightarrow> (Inr (Some p), s) | None \<Rightarrow> active_document H s w)"

record document_info =
  di_title :: string
  di_path :: string
  di_modified :: bool
  di_read_only :: bool
  di_version :: "string option"

definition get_document_info ::
  "('a, 'w, 'd, 'r) host \<Rightarrow> nat option \<Rightarrow> ('a, 'd, 'r) api_state \<Rightarrow> 'w \<Rightarrow>
   (api_fault + document_info) \<times> ('a, 'd, 'r) api_state" where
  "get_document_info H prov s w =
     (case given_or_active H prov s w of
        (Inl e, s1) \<Rightarrow> (Inl e, s1)
      | (Inr None, s1) \<Rightarrow> (Inl (Connection_Fault ''No document available''), s1)
      | (Inr (Some p), s1) \<Rightarrow>
          (Inr \<lparr>di_title = h_title H (document_of s1 p) w, di_path = h_path H (document_of s1 p) w,
                di_modified = False, di_read_only = False, di_version = None\<rparr>, s1))"

text \<open>
  The name is \<open>os.path.splitext(title)[0]\<close>: the title up to its last dot, unless only dots stand
  between the last slash and that dot.
\<close>

definition splitext_root :: "string \<Rightarrow> string" where
  "splitext_root t =
     (let suffix = takeWhile (\<lambda>c. c \<noteq> CHR ''.'' \<and> c \<noteq> CHR ''/'') (rev t);
          rest = dropWhile (\<lambda>c. c \<noteq> CHR ''.'' \<and> c \<noteq> CHR ''/'') (rev t)
      in case rest of
           [] \<Rightarrow> t
         | c # before \<Rightarrow>
             if c = CHR ''.'' \<and> list_ex (\<lambda>b. b \<noteq> CHR ''.'') (takeWhile (\<lambda>b. b \<noteq> CHR ''/'') before) then rev before else t)"

definition document_name :: "document_info \<Rightarrow> string" where
  "document_name i = splitext_root (di_title i)"

definition save_document ::
  "('a, 'w, 'd, 'r) host \<Rightarrow> nat option \<Rightarrow> ('a, 'd, 'r) api_state \<Rightarrow> 'w \<Rightarrow>
   (api_fault + bool) \<times> ('a, 'd, 'r) api_state \<times> 'w" where
  "save_document H prov s w =
     (case given_or_active H prov s w of
        (Inl e, s1) \<Rightarrow> (Inl e, s1, w)
      | (Inr None, s1) \<Rightarrow> (Inl (Connection_Fault ''No document to save''), s1, w)
      | (Inr (Some p), s1) \<Rightarrow>
          (case h_save H (document_of s1 p) w of
             (w1, None) \<Rightarrow> (Inl (Api_Fault ''Failed to save document''), s1, w1)
           | (w1, Some b) \<Rightarrow> (Inr b, s1, w1)))"

text \<open>The first path whose provider is \<open>p\<close> and has not been collected is forgotten.\<close>

fun forget_provider :: "(nat \<Rightarrow> bool) \<Rightarrow> nat \<Rightarrow> (string, nat) dict \<Rightarrow> (string, nat) dict" where
  "forget_provider alive p [] = []"
| "forget_provider alive p ((path, q) # ds) =
     (if alive q \<and> q = p then ds else (path, q) # forget_provider alive p ds)"

definition close_document ::
  "('a, 'w, 'd, 'r) host \<Rightarrow> (nat \<Rightarrow> bool) \<Rightarrow> nat option \<Rightarrow> bool \<Rightarrow> ('a, 'd, 'r) api_state \<Rightarrow> 'w \<Rightarrow>
   (api_fault + bool) \<times> ('a, 'd, 'r) api_state \<times> 'w" where
  "close_document H alive prov save s w =
     (case given_or_active H prov s w of
        (Inl e, s1) \<Rightarrow> (Inl e, s1, w)
      | (Inr None, s1) \<Rightarrow> (Inr True, s1, w)
      | (Inr (Some p), s1) \<Rightarrow>
          (case h_close H (document_of s1 p) save w of
             (w1, None) \<Rightarrow> (Inl (Api_Fault ''Failed to close document''), s1, w1)
           | (w1, Some b) \<Rightarrow>
               (Inr b, s1\<lparr>as_active := (if as_active s1 = Some p then None else as_active s1),
                          as_documents := forget_provider alive p (as_documents s1)\<rparr>, w1)))"

subsection \<open>Elements, queries and transactions of the active document\<close>

definition api_get_element ::
  "('a, 'w, 'd, 'r) host \<Rightarrow> any_id \<Rightarrow> ('a, 'd, 'r) api_state \<Rightarrow> 'w \<Rightarrow> (api_fault + nat option) \<times> ('a, 'd, 'r) api_state" where
  "api_get_element H i s w =
     (case need_document H ''No active document'' s w of
        (Inl e, s1) \<Rightarrow> (Inl e, s1)
      | (Inr p, s1) \<Rightarrow> pr_get_element H p i s1 w)"

text \<open>What \<open>delete_elements\<close> accepts; the identifiers are read from Revit's elements.\<close>

datatype deletion = Del_Element nat | Del_Set "nat list" | Del_List "nat list" | Del_Other

fun deletion_list :: "deletion \<Rightarrow> nat list option" where
  "deletion_list (Del_Element a) = Some [a]"
| "deletion_list (Del_Set as) = Some as"
| "deletion_list (Del_List as) = Some as"
| "deletion_list Del_Other = None"

definition element_ids :: "('a, 'w, 'd, 'r) host \<Rightarrow> nat list \<Rightarrow> ('a, 'd, 'r) api_state \<Rightarrow> 'w \<Rightarrow> any_id list" where
  "element_ids H as s w = map (\<lambda>a. Id_Int (h_id H (el_revit (as_elements s ! a)) w)) as"

definition api_delete_elements ::
  "('a, 'w, 'd, 'r) host \<Rightarrow> deletion \<Rightarrow> ('a, 'd, 'r) api_state \<Rightarrow> 'w \<Rightarrow> api_fault option \<times> ('a, 'd, 'r) api_state \<times> 'w" where
  "api_delete_elements H del s w =
     (case need_document H ''No active document'' s w of
        (Inl e, s1) \<Rightarrow> (Some e, s1, w)
      | (Inr p, s1) \<Rightarrow>
          (case deletion_list del of
             None \<Rightarrow> (Some (Value_Fault ''Invalid elements parameter''), s1, w)
           | Some as \<Rightarrow> pr_delete H p (element_ids H as s1 w) s1 w))"

text \<open>\<open>query\<close>, \<open>elements\<close>: a builder on the provider that is active now.\<close>

definition api_query ::
  "('a, 'w, 'd, 'r) host \<Rightarrow> 't option \<Rightarrow> ('a, 'd, 'r) api_state \<Rightarrow> 'w \<Rightarrow>
   (api_fault + nat \<times> 't element_builder) \<times> ('a, 'd, 'r) api_state" where
  "api_query H ty s w =
     (case need_document H ''No active document'' s w of
        (Inl e, s1) \<Rightarrow> (Inl e, s1)
      | (Inr p, s1) \<Rightarrow> (Inr (p, new_element_builder ty), s1))"

text \<open>
  What a query gets from the provider, seen through the wrapped elements as they are when it starts:
  \<open>deref\<close> reads the element that Revit holds.
\<close>

definition provider_view ::
  "('t \<Rightarrow> bool) \<Rightarrow> ('a, 'w, 'd, 'r) host \<Rightarrow> ('r \<Rightarrow> 'w \<Rightarrow> 'm) \<Rightarrow> nat \<Rightarrow> ('a, 'd, 'r) api_state \<Rightarrow> 'w \<Rightarrow>
   ('t, 'm api_element) provider" where
  "provider_view covers H deref p s w =
     (let els = (\<lambda>(res, s1).
            case res of Inl e \<Rightarrow> None
            | Inr as \<Rightarrow> Some (map (\<lambda>a. wrap_element (deref (el_revit (as_elements s1 ! a)) w)) as))
      in \<lparr>prov_all = els (pr_all_elements H p s w),
          prov_of_type = (\<lambda>t. els (pr_elements_of_type covers H t p s w))\<rparr>)"

text \<open>
  \<open>transaction\<close> and \<open>transaction_group\<close>. The provider's part of a transaction works on its own stack;
  the world of the transaction is the state of the API together with Revit's.
\<close>

definition on_provider ::
  "nat \<Rightarrow> ('d provider_obj \<Rightarrow> 'd provider_obj \<times> (exn + 'x)) \<Rightarrow> ('a, 'd, 'r) api_state \<times> 'w \<Rightarrow>
   (('a, 'd, 'r) api_state \<times> 'w) \<times> (exn + 'x)" where
  "on_provider p f = (\<lambda>(s, w).
     if p < length (as_providers s)
     then (let (x, res) = f (provider_at s p) in ((s\<lparr>as_providers := (as_providers s)[p := x]\<rparr>, w), res))
     else ((s, w), Inl (PyError ''AttributeError'')))"

definition provider_env ::
  "(('a, 'd, 'r) api_state \<times> 'w \<Rightarrow> int) \<Rightarrow> nat \<Rightarrow> (('a, 'd, 'r) api_state \<times> 'w, string) txn_env" where
  "provider_env clk p =
     \<lparr>start_transaction = (\<lambda>n. on_provider p (doc_start n)), commit_transaction = (\<lambda>h. on_provider p (doc_commit h)),
      rollback_transaction = (\<lambda>h. on_provider p (doc_rollback h)), loop_time = (\<lambda>x. (x, Inr (clk x))),
      truthy = (\<lambda>h. h \<noteq> [])\<rparr>"

definition api_transaction ::
  "('a, 'w, 'd, 'r) host \<Rightarrow> string \<Rightarrow> bool \<Rightarrow> ('a, 'd, 'r) api_state \<Rightarrow> 'w \<Rightarrow>
   (api_fault + nat \<times> (('a, 'd, 'r) api_state \<times> 'w, string) txn) \<times> ('a, 'd, 'r) api_state" where
  "api_transaction H name auto s w =
     (case need_document H ''No active document'' s w of
        (Inl e, s1) \<Rightarrow> (Inl e, s1)
      | (Inr p, s1) \<Rightarrow> (Inr (p, new_txn name auto), s1))"

definition api_transaction_group ::
  "('a, 'w, 'd, 'r) host \<Rightarrow> ('a, 'd, 'r) api_state \<Rightarrow> 'w \<Rightarrow>
   (api_fault + nat \<times> (('a, 'd, 'r) api_state \<times> 'w, string) txn_group) \<times> ('a, 'd, 'r) api_state" where
  "api_transaction_group H s w =
     (case need_document H ''No active document'' s w of
        (Inl e, s1) \<Rightarrow> (Inl e, s1)
      | (Inr p, s1) \<Rightarrow> (Inr (p, new_group), s1))"

text \<open>\<open>refresh_cache\<close>: the active provider's cache is emptied and the dead references are dropped.\<close>

definition refresh_cache ::
  "('a, 'w, 'd, 'r) host \<Rightarrow> (nat \<Rightarrow> bool) \<Rightarrow> ('a, 'd, 'r) api_state \<Rightarrow> 'w \<Rightarrow> api_fault option \<times> ('a, 'd, 'r) api_state" where
  "refresh_cache H alive s w =
     (case active_document H s w of
        (Inl e, s1) \<Rightarrow> (Some e, s1)
      | (Inr act, s1) \<Rightarrow>
          (let s2 = (case act of None \<Rightarrow> s1 | Some p \<Rightarrow> pr_refresh p s1) in
           (None, s2\<lparr>as_documents := filter (\<lambda>(path, q). alive q) (as_documents s2)\<rparr>)))"

text \<open>\<open>with RevitAPI(...) as api\<close>: leaving the block disconnects, also when the body raised.\<close>

definition with_api ::
  "(('a, 'd, 'r) api_state \<Rightarrow> 'w \<Rightarrow> ('e + 'x) \<times> ('a, 'd, 'r) api_state \<times> 'w) \<Rightarrow> ('a, 'd, 'r) api_state \<Rightarrow> 'w \<Rightarrow>
   ('e + 'x) \<times> ('a, 'd, 'r) api_state \<times> 'w" where
  "with_api body s w = (case body s w of (res, s1, w1) \<Rightarrow> (res, disconnect s1, w1))"

subsection \<open>The mock as a host\<close>

text \<open>
  There is one application. A reference to a document that was never made does not exist in Python;
  a call on such a number fails.
\<close>

definition mock_host :: "(unit, ('f, 'h) mock_revit, nat, nat) host" where
  "mock_host =
     \<lparr>h_active = (\<lambda>_ m. Some (mv_active m)),
      h_open = (\<lambda>_ path m. case app_open path m of (d, m1) \<Rightarrow> (m1, Some (Some d))),
      h_create = (\<lambda>_ t m. case app_create t m of (d, m1) \<Rightarrow> (m1, Some (Some d))),
      h_elements = (\<lambda>d m. if d < length (mv_heap m) then Some (md_get_elements None (mv_heap m ! d)) else None),
      h_element = (\<lambda>d i m. if d < length (mv_heap m) then Some (md_get_element i (mv_heap m ! d)) else None),
      h_delete = (\<lambda>d ids m. if d < length (mv_heap m) then (update_document d (md_delete ids) m, True) else (m, False)),
      h_save = (\<lambda>d m. if d < length (mv_heap m)
                 then (update_document d (\<lambda>x. snd (md_save x)) m, Some (fst (md_save (mv_heap m ! d)))) else (m, None)),
      h_close = (\<lambda>d save m. if d < length (mv_heap m)
                 then (update_document d (\<lambda>x. snd (md_close save x)) m, Some (fst (md_close save (mv_heap m ! d)))) else (m, None)),
      h_title = (\<lambda>d m. md_title (mv_heap m ! d)),
      h_path = (\<lambda>d m. md_path (mv_heap m ! d)),
      h_id = (\<lambda>r m. me_id (mv_store m ! r))\<rparr>"

subsection \<open>What a document promises\<close>

lemma in_map_filter_iff: "k \<in> set (List.map_filter f xs) \<longleftrightarrow> (\<exists>x \<in> set xs. f x = Some k)"
  by (induction xs) (auto simp: map_filter_simps split: option.splits)

locale revit_host =
  fixes H :: "('a, 'w, 'd, 'r) host"
  assumes lookup_by_key: "id_key i = id_key j \<Longrightarrow> id_key i \<noteq> None \<Longrightarrow> h_element H d i w = h_element H d j w"
    and delete_gone: "h_delete H d ids w = (w', True) \<Longrightarrow> id_key i \<noteq> None \<Longrightarrow> id_key i \<in> id_key ` set ids \<Longrightarrow>
      h_element H d i w' = Some None"
    and delete_keeps: "h_delete H d ids w = (w', True) \<Longrightarrow> id_key i \<notin> id_key ` set ids \<Longrightarrow>
      h_element H d i w' = h_element H d i w"
    and delete_fails: "h_delete H d ids w = (w', False) \<Longrightarrow> h_element H e i w' = h_element H e i w"
begin

lemma map_of_fold_delete: "map_of (fold AList.delete ks c) k = (if k \<in> set ks then None else map_of c k)"
  by (induction ks arbitrary: c) (auto simp: delete_conv')

text \<open>What was deleted by its number is not found again.\<close>

lemma deleted_not_found:
  assumes "p < length (as_providers s)" and "pr_delete H p ids s w = (None, s', w')" and "Id_Int k \<in> set ids"
  shows "fst (pr_get_element H p (Id_Int k) s' w') = Inr None"
proof -
  have del: "h_delete H (document_of s p) ids w = (w', True)"
    and s': "s' = set_cache p (fold AList.delete (List.map_filter int_id ids) (cache_of s p)) s"
    using assms(2) by (auto simp: pr_delete_def split: prod.splits bool.splits)
  have "k \<in> set (List.map_filter int_id ids)" using assms(3) by (force simp: in_map_filter_iff)
  moreover have "h_element H (document_of s p) (Id_Int k) w' = Some None"
    using delete_gone [OF del, of "Id_Int k"] assms(3) by force
  ultimately show ?thesis using assms(1)
    by (simp add: s' pr_get_element_def set_cache_def map_of_fold_delete)
qed

end


interpretation env: revit_host "mock_host :: (unit, ('f, 'h) mock_revit, nat, nat) host"
proof (unfold_locales, goal_cases)
  case (1 i j d w)
  then show ?case by (simp add: mock_host_def md_get_element_def)
next
  case (2 d ids w w' i)
  then show ?case
    by (auto simp: mock_host_def md_get_element_def update_document_def md_delete_get split: if_splits)
next
  case (3 d ids w w' i)
  then show ?case
    by (auto simp: mock_host_def md_get_element_def update_document_def md_delete_get split: if_splits option.splits)
next
  case (4 d ids w w' e i)
  then show ?case by (auto simp: mock_host_def split: if_splits)
qed

text \<open>The transactions that a provider holds open.\<close>

definition provider_open :: "nat \<Rightarrow> ('a, 'd, 'r) api_state \<times> 'w \<Rightarrow> string multiset" where
  "provider_open p x = (if p < length (as_providers (fst x)) then mset (txn_stack (provider_at (fst x) p)) else {#})"

interpretation api_txn: transaction_provider "provider_env clk p" "provider_open p"
  for clk :: "('a, 'd, 'r) api_state \<times> 'w \<Rightarrow> int" and p
  by unfold_locales
    (auto simp: provider_open_def provider_env_def on_provider_def doc_start_def doc_commit_def doc_rollback_def Let_def
          split: if_splits)

subsection \<open>Sequences of calls\<close>

datatype 'a api_op =
    Api_Connect "'a option"
  | Api_Disconnect
  | Api_Open string
  | Api_Create "string option"
  | Api_Save "nat option"
  | Api_Close "nat option" bool
  | Api_Info "nat option"
  | Api_Get any_id
  | Api_Delete deletion
  | Api_Query
  | Api_Refresh

text \<open>The fault of the call, if any, the state and the world; references are to objects that exist.\<close>

definition fault_of :: "'e + 'x \<Rightarrow> 'e option" where
  "fault_of r = (case r of Inl e \<Rightarrow> Some e | Inr _ \<Rightarrow> None)"

fun api_step ::
  "('a, 'w, 'd, 'r) host \<Rightarrow> (nat \<Rightarrow> bool) \<Rightarrow> 'a api_op \<Rightarrow> ('a, 'd, 'r) api_state \<Rightarrow> 'w \<Rightarrow>
   api_fault option \<times> ('a, 'd, 'r) api_state \<times> 'w" where
  "api_step H alive (Api_Connect a) s w = (case connect H a s w of (e, s1) \<Rightarrow> (e, s1, w))"
| "api_step H alive Api_Disconnect s w = (None, disconnect s, w)"
| "api_step H alive (Api_Open path) s w = (case open_document H path s w of (r, s1, w1) \<Rightarrow> (fault_of r, s1, w1))"
| "api_step H alive (Api_Create t) s w = (case create_document H t s w of (r, s1, w1) \<Rightarrow> (fault_of r, s1, w1))"
| "api_step H alive (Api_Save p) s w = (case save_document H p s w of (r, s1, w1) \<Rightarrow> (fault_of r, s1, w1))"
| "api_step H alive (Api_Close p b) s w = (case close_document H alive p b s w of (r, s1, w1) \<Rightarrow> (fault_of r, s1, w1))"
| "api_step H alive (Api_Info p) s w = (case get_document_info H p s w of (r, s1) \<Rightarrow> (fault_of r, s1, w))"
| "api_step H alive (Api_Get i) s w = (case api_get_element H i s w of (r, s1) \<Rightarrow> (fault_of r, s1, w))"
| "api_step H alive (Api_Delete d) s w = api_delete_elements H d s w"
| "api_step H alive Api_Query s w =
     (case api_query H (None :: unit option) s w of (r, s1) \<Rightarrow> (fault_of r, s1, w))"
| "api_step H alive Api_Refresh s w = (case refresh_cache H alive s w of (e, s1) \<Rightarrow> (e, s1, w))"

fun api_run ::
  "('a, 'w, 'd, 'r) host \<Rightarrow> (nat \<Rightarrow> bool) \<Rightarrow> 'a api_op list \<Rightarrow> ('a, 'd, 'r) api_state \<Rightarrow> 'w \<Rightarrow>
   ('a, 'd, 'r) api_state \<times> 'w" where
  "api_run H alive [] s w = (s, w)"
| "api_run H alive (op # ops) s w = (case api_step H alive op s w of (_, s1, w1) \<Rightarrow> api_run H alive ops s1 w1)"

text \<open>The references of the API are to objects that exist, and a connected API has an application.\<close>

definition caches_ok :: "'d provider_obj list \<Rightarrow> nat \<Rightarrow> bool" where
  "caches_ok Ps n \<longleftrightarrow> (\<forall>P \<in> set Ps. \<forall>(k, a) \<in> set (ea_cache (doc_state P)). a < n)"

definition api_ok :: "('a, 'd, 'r) api_state \<Rightarrow> bool" where
  "api_ok s \<longleftrightarrow>
     (\<forall>p. as_active s = Some p \<longrightarrow> p < length (as_providers s)) \<and>
     dict_ok (as_documents s) \<and> (\<forall>(path, p) \<in> set (as_documents s). p < length (as_providers s)) \<and>
     (as_connected s \<longrightarrow> as_app s \<noteq> None) \<and>
     caches_ok (as_providers s) (length (as_elements s))"

lemma api_ok_new [simp]: "api_ok (new_api app)"
  by (simp add: api_ok_def new_api_def caches_ok_def)

lemma api_ok_disconnect [simp]: "api_ok s \<Longrightarrow> api_ok (disconnect s)"
  by (simp add: api_ok_def disconnect_def)

lemma api_ok_add_provider:
  "api_ok s \<Longrightarrow> add_provider d s = (p, s') \<Longrightarrow> api_ok s' \<and> p < length (as_providers s') \<and> as_documents s' = as_documents s"
  by (fastforce simp: api_ok_def caches_ok_def add_provider_def new_provider_def less_SucI)

lemma active_document_ok:
  "api_ok s \<Longrightarrow> active_document H s w = (r, s') \<Longrightarrow> api_ok s' \<and> (\<forall>p. r = Inr (Some p) \<longrightarrow> p < length (as_providers s'))"
  by (auto simp: active_document_def Let_def api_ok_add_provider split: option.splits if_splits prod.splits)
    (auto simp: api_ok_def)

lemma need_document_ok:
  "api_ok s \<Longrightarrow> need_document H msg s w = (r, s') \<Longrightarrow> api_ok s' \<and> (\<forall>p. r = Inr p \<longrightarrow> p < length (as_providers s'))"
  by (cases "active_document H s w")
    (auto simp: need_document_def split: sum.splits option.splits dest: active_document_ok)

lemma api_ok_set_cache:
  assumes "api_ok s" and "\<And>k a. (k, a) \<in> set c \<Longrightarrow> a < length (as_elements s)"
  shows "api_ok (set_cache p c s)"
  using assms unfolding api_ok_def caches_ok_def set_cache_def
  by (fastforce dest!: set_update_subset_insert [THEN subsetD])

lemma api_ok_wrap: "api_ok s \<Longrightarrow> api_ok (snd (wrap_new r s))"
  by (fastforce simp: api_ok_def caches_ok_def wrap_new_def less_SucI)

lemma api_ok_cache: "api_ok s \<Longrightarrow> p < length (as_providers s) \<Longrightarrow> (k, a) \<in> set (cache_of s p) \<Longrightarrow> a < length (as_elements s)"
  by (fastforce simp: api_ok_def caches_ok_def dest: nth_mem)

lemma get_element_ok:
  assumes "api_ok s" and "p < length (as_providers s)" and "pr_get_element H p i s w = (r, s')"
  shows "api_ok s'"
proof -
  have "api_ok (set_cache p (AList.update k (length (as_elements s)) (cache_of s p)) (snd (wrap_new x s)))" for k x
    using api_ok_wrap [OF assms(1)] api_ok_cache [OF assms(1,2)]
    by (intro api_ok_set_cache) (auto simp: wrap_new_def less_SucI dest!: set_update_subset_pairs)
  then show ?thesis using assms api_ok_wrap [OF assms(1)]
    by (auto simp: pr_get_element_def wrap_new_def Let_def split: option.splits)
qed

lemma set_fold_delete: "x \<in> set (fold AList.delete ks c) \<Longrightarrow> x \<in> set c"
  by (induction ks arbitrary: c) (auto dest: set_delete_pairs)

lemma delete_ok:
  assumes "api_ok s" and "p < length (as_providers s)" and "pr_delete H p ids s w = (r, s', w')"
  shows "api_ok s'"
  using assms api_ok_cache [OF assms(1,2)]
  by (auto simp: pr_delete_def split: prod.splits bool.splits intro!: api_ok_set_cache dest!: set_fold_delete)

lemma set_forget_provider: "x \<in> set (forget_provider alive p ds) \<Longrightarrow> x \<in> set ds"
  by (induction alive p ds rule: forget_provider.induct) (auto split: if_splits)

lemma dict_ok_forget_provider: "dict_ok ds \<Longrightarrow> dict_ok (forget_provider alive p ds)"
  by (induction alive p ds rule: forget_provider.induct) (auto dest: set_forget_provider)

lemma given_or_active_ok:
  "api_ok s \<Longrightarrow> given_or_active H prov s w = (r, s') \<Longrightarrow> api_ok s'"
  by (auto simp: given_or_active_def split: option.splits dest: active_document_ok)

lemma api_ok_close:
  "api_ok s \<Longrightarrow> api_ok (s\<lparr>as_active := (if as_active s = Some p then None else as_active s),
     as_documents := forget_provider alive p (as_documents s)\<rparr>)"
  by (auto simp: api_ok_def dict_ok_forget_provider dest: set_forget_provider)

lemma api_ok_close_document:
  assumes "api_ok s" and "close_document H alive prov b s w = (r, s', w')"
  shows "api_ok s'"
proof -
  obtain res s1 where act: "given_or_active H prov s w = (res, s1)" by force
  have ok: "api_ok s1" using assms(1) act by (rule given_or_active_ok)
  show ?thesis
    using assms(2) act ok api_ok_close [OF ok]
    by (auto simp: close_document_def split: sum.splits option.splits prod.splits simp del: fun_upd_apply)
qed

lemma api_ok_open:
  "api_ok s \<Longrightarrow> add_provider d s = (p, s1) \<Longrightarrow> api_ok (s1\<lparr>as_documents := AList.update path p (as_documents s1)\<rparr>)"
  by (drule (1) api_ok_add_provider) (auto simp: api_ok_def distinct_update dest!: set_update_subset_pairs)

lemma api_ok_connect: "api_ok s \<Longrightarrow> connect H a s w = (r, s') \<Longrightarrow> api_ok s'"
  by (auto simp: connect_def Let_def api_ok_def split: option.splits)

lemma api_ok_refresh:
  assumes "api_ok s" and "refresh_cache H alive s w = (r, s')"
  shows "api_ok s'"
proof -
  obtain res s1 where act: "active_document H s w = (res, s1)" by force
  note ok = active_document_ok [OF assms(1) act]
  have purge: "api_ok (x\<lparr>as_documents := filter (\<lambda>(path, q). alive q) (as_documents x)\<rparr>)" if "api_ok x" for x
    using that by (auto simp: api_ok_def distinct_map_filter)
  have "api_ok (pr_refresh p s1)" for p using ok by (auto simp: pr_refresh_def intro!: api_ok_set_cache)
  with ok purge assms(2) act show ?thesis
    by (auto simp: refresh_cache_def Let_def split: sum.splits option.splits)
qed

lemma api_ok_step:
  assumes "api_ok s" and "api_step H alive op s w = (e, s', w')"
  shows "api_ok s'"
proof (cases op)
  case (Api_Open path)
  with assms api_ok_open [OF assms(1)] show ?thesis
    by (auto simp: open_document_def Let_def split: option.splits if_splits prod.splits)
next
  case (Api_Create t)
  with assms api_ok_add_provider [OF assms(1)] show ?thesis
    by (auto simp: create_document_def Let_def split: option.splits if_splits prod.splits)
next
  case (Api_Save p)
  with assms given_or_active_ok [OF assms(1)] show ?thesis
    by (auto simp: save_document_def split: option.splits sum.splits prod.splits)
next
  case (Api_Close p b)
  with assms show ?thesis by (auto split: prod.splits dest: api_ok_close_document)
next
  case (Api_Info p)
  with assms given_or_active_ok [OF assms(1)] show ?thesis
    by (auto simp: get_document_info_def split: option.splits sum.splits prod.splits)
next
  case (Api_Get i)
  with assms(2) show ?thesis
    by (auto simp: api_get_element_def split: sum.splits prod.splits option.splits
        dest!: need_document_ok [OF assms(1)] dest: get_element_ok)
next
  case (Api_Delete d)
  with assms(2) show ?thesis
    by (auto simp: api_delete_elements_def split: sum.splits prod.splits option.splits
        dest!: need_document_ok [OF assms(1)] dest: delete_ok)
next
  case Api_Query
  with assms(2) show ?thesis
    by (auto simp: api_query_def split: sum.splits prod.splits option.splits
        dest!: need_document_ok [OF assms(1)])
qed (use assms api_ok_connect [OF assms(1)] api_ok_refresh [OF assms(1)] in \<open>auto split: prod.splits\<close>)

lemma api_ok_run: "api_ok s \<Longrightarrow> api_run H alive ops s w = (s', w') \<Longrightarrow> api_ok s'"
proof (induction ops arbitrary: s w)
  case Nil
  then show ?case by simp
next
  case (Cons op ops)
  obtain e s1 w1 where st: "api_step H alive op s w = (e, s1, w1)" by (metis prod_cases3)
  with Cons.prems have "api_run H alive ops s1 w1 = (s', w')" by simp
  with Cons.IH api_ok_step [OF Cons.prems(1) st] show ?case by blast
qed

subsection \<open>Properties\<close>

text \<open>
  Whatever a client calls, with whatever Revit answers, the active document, the remembered
  documents and the cached elements of \<open>RevitAPI\<close> are objects that exist, and it is not connected without an
  application.
\<close>
theorem api_state_well_formed:
  assumes "api_run H alive ops (new_api app) w = (s, w')"
  shows "api_ok s"
  by (rule api_ok_run [OF api_ok_new assms])

definition sample_calls :: "unit api_op list" where
  "sample_calls =
     [Api_Connect (Some ()), Api_Get (Id_Int 7), Api_Open ''/models/annex.rvt'', Api_Save None, Api_Close None True,
      Api_Get (Id_Mock 7), Api_Refresh]"

lemma api_state_well_formed_witness:
  "api_ok (fst (api_run mock_host (\<lambda>_. True) sample_calls (new_api None) sample_revit))"
  by (rule api_state_well_formed [of mock_host "\<lambda>_. True" sample_calls None sample_revit _
        "snd (api_run mock_host (\<lambda>_. True) sample_calls (new_api None) sample_revit)"]) simp

text \<open>
  Without a connection every operation on a document, an element or a query raises
  \<open>ConnectionError\<close> and changes nothing, in the API or in Revit.
\<close>
theorem disconnected_api_refuses:
  assumes "\<not> is_connected s" and "op \<in> {Api_Open path, Api_Create t, Api_Save None, Api_Info None, Api_Get i, Api_Delete d, Api_Query}"
  shows "\<exists>msg. api_step H alive op s w = (Some (Connection_Fault msg), s, w)"
proof -
  have act: "active_document H s w = (Inr None, s)"
    using assms(1) by (simp add: active_document_def split: option.splits)
  show ?thesis using assms(2) assms(1)
    by (auto simp: open_document_def create_document_def save_document_def get_document_info_def given_or_active_def
        api_get_element_def api_delete_elements_def api_query_def need_document_def act fault_of_def split: option.splits)
qed

lemma disconnected_api_refuses_witness:
  "\<exists>msg. api_step mock_host (\<lambda>_. True) (Api_Get (Id_Int 7)) (disconnect (new_api (Some ()))) sample_revit =
     (Some (Connection_Fault msg), disconnect (new_api (Some ())), sample_revit)"
  by (rule disconnected_api_refuses) (simp_all add: is_connected_def disconnect_def)

text \<open>Leaving a \<open>with\<close> block disconnects, whatever the body did or raised.\<close>

lemma with_api_disconnects: "\<not> is_connected (fst (snd (with_api body s w)))"
  by (simp add: with_api_def is_connected_def disconnect_def split: prod.splits)

text \<open>
  What \<open>RevitAPI.delete_elements\<close> deleted without an error, \<open>get_element_by_id\<close> does not find any more:
  neither in the document nor in the provider's cache.
\<close>
theorem deleted_elements_not_found:
  assumes "api_delete_elements (mock_host :: (unit, ('f, 'h) mock_revit, nat, nat) host) del s w = (None, s', w')"
    and "api_ok s" and "deletion_list del = Some as"
    and "need_document (mock_host :: (unit, ('f, 'h) mock_revit, nat, nat) host) ''No active document'' s w = (Inr p, s1)"
    and "a \<in> set as"
  shows "fst (pr_get_element mock_host p (Id_Int (me_id (mv_store w ! el_revit (as_elements s1 ! a)))) s' w') = Inr None"
proof -
  let ?H = "mock_host :: (unit, ('f, 'h) mock_revit, nat, nat) host"
  let ?ids = "element_ids ?H as s1 w"
  have p: "p < length (as_providers s1)" using need_document_ok [OF assms(2,4)] by simp
  have del: "pr_delete ?H p ?ids s1 w = (None, s', w')"
    using assms(1,3,4) by (simp add: api_delete_elements_def)
  have "Id_Int (me_id (mv_store w ! el_revit (as_elements s1 ! a))) \<in> set ?ids"
    using assms(5) by (force simp: element_ids_def mock_host_def)
  then show ?thesis by (rule env.deleted_not_found [OF p del])
qed


definition sample_api :: "(unit, nat, nat) api_state" where
  "sample_api = fst (api_run mock_host (\<lambda>_. True) [Api_Connect (Some ()), Api_Get (Id_Int 7)] (new_api None) sample_revit)"

definition sample_deletion :: "api_fault option \<times> (unit, nat, nat) api_state \<times> (nat, nat) mock_revit" where
  "sample_deletion = api_delete_elements mock_host (Del_Element 0) sample_api sample_revit"

lemma deleted_elements_not_found_witness:
  "fst (pr_get_element mock_host 0 (Id_Int (me_id (mv_store sample_revit ! el_revit (as_elements sample_api ! 0))))
     (fst (snd sample_deletion)) (snd (snd sample_deletion))) = Inr None"
proof (rule deleted_elements_not_found [where del = "Del_Element 0" and s = sample_api and w = sample_revit])
  have "fst sample_deletion = None" by code_simp
  then show "api_delete_elements mock_host (Del_Element 0) sample_api sample_revit =
      (None, fst (snd sample_deletion), snd (snd sample_deletion))"
    by (simp add: sample_deletion_def prod_eq_iff)
  show "api_ok sample_api"
    unfolding sample_api_def by (rule api_ok_run [OF api_ok_new]) (rule surjective_pairing)
  show "deletion_list (Del_Element 0) = Some [0]" by simp
  have "need_document mock_host ''No active document'' sample_api sample_revit = (Inr 0, sample_api)" by code_simp
  then show "need_document mock_host ''No active document'' sample_api sample_revit = (Inr 0, sample_api)" .
  show "0 \<in> set [0]" by simp
qed

text \<open>
  The calls of one provider, and what other code does to the document in between: \<open>Pr_Host f\<close> is
  any change of Revit that does not go through this provider.
\<close>

datatype 'w pr_op = Pr_All | Pr_Get any_id | Pr_Delete "any_id list" | Pr_Refresh | Pr_Host "'w \<Rightarrow> 'w"

fun pr_step ::
  "('a, 'w, 'd, 'r) host \<Rightarrow> nat \<Rightarrow> 'w pr_op \<Rightarrow> ('a, 'd, 'r) api_state \<Rightarrow> 'w \<Rightarrow> ('a, 'd, 'r) api_state \<times> 'w" where
  "pr_step H p Pr_All s w = (snd (pr_all_elements H p s w), w)"
| "pr_step H p (Pr_Get i) s w = (snd (pr_get_element H p i s w), w)"
| "pr_step H p (Pr_Delete ids) s w = snd (pr_delete H p ids s w)"
| "pr_step H p Pr_Refresh s w = (pr_refresh p s, w)"
| "pr_step H p (Pr_Host f) s w = (s, f w)"

fun pr_run ::
  "('a, 'w, 'd, 'r) host \<Rightarrow> nat \<Rightarrow> 'w pr_op list \<Rightarrow> ('a, 'd, 'r) api_state \<Rightarrow> 'w \<Rightarrow> ('a, 'd, 'r) api_state \<times> 'w" where
  "pr_run H p [] s w = (s, w)"
| "pr_run H p (op # ops) s w = (case pr_step H p op s w of (s1, w1) \<Rightarrow> pr_run H p ops s1 w1)"

text \<open>
  When the cached wrapper of a number goes stale: the element was deleted by an identifier object,
  or other code changed what the document has under that number, and since then the provider
  neither deleted it by its number nor was refreshed.
\<close>

fun key_stale ::
  "('a, 'w, 'd, 'r) host \<Rightarrow> nat \<Rightarrow> int \<Rightarrow> 'w pr_op \<Rightarrow> ('a, 'd, 'r) api_state \<Rightarrow> 'w \<Rightarrow> bool \<Rightarrow> bool" where
  "key_stale H p k (Pr_Delete ids) s w b =
     (case fst (pr_delete H p ids s w) of
        Some _ \<Rightarrow> b
      | None \<Rightarrow> k \<notin> set (List.map_filter int_id ids) \<and>
          (b \<or> (map_of (cache_of s p) k \<noteq> None \<and> Some k \<in> id_key ` set ids)))"
| "key_stale H p k Pr_Refresh s w b = False"
| "key_stale H p k (Pr_Host f) s w b =
     (b \<or> (map_of (cache_of s p) k \<noteq> None \<and>
        h_element H (document_of s p) (Id_Int k) (f w) \<noteq> h_element H (document_of s p) (Id_Int k) w))"
| "key_stale H p k _ s w b = b"

fun run_stale ::
  "('a, 'w, 'd, 'r) host \<Rightarrow> nat \<Rightarrow> int \<Rightarrow> 'w pr_op list \<Rightarrow> ('a, 'd, 'r) api_state \<Rightarrow> 'w \<Rightarrow> bool \<Rightarrow> bool" where
  "run_stale H p k [] s w b = b"
| "run_stale H p k (op # ops) s w b =
     (case pr_step H p op s w of (s1, w1) \<Rightarrow> run_stale H p k ops s1 w1 (key_stale H p k op s w b))"

context revit_host
begin

definition key_fits :: "int \<Rightarrow> bool \<Rightarrow> nat \<Rightarrow> ('a, 'd, 'r) api_state \<Rightarrow> 'w \<Rightarrow> bool" where
  "key_fits k b p s w \<longleftrightarrow> p < length (as_providers s) \<and>
     (\<forall>a. map_of (cache_of s p) k = Some a \<longrightarrow> a < length (as_elements s) \<and>
        (b \<or> h_element H (document_of s p) (Id_Int k) w = Some (Some (el_revit (as_elements s ! a)))))"

lemma key_fits_all: "key_fits k b p s w \<Longrightarrow> key_fits k b p (snd (pr_all_elements H p s w)) w"
  by (auto simp: pr_all_elements_def key_fits_def Let_def nth_append split: option.splits)

lemma key_fits_get:
  "key_fits k b p s w \<Longrightarrow> key_fits k b p (snd (pr_get_element H p i s w)) w"
  by (cases i)
    (auto simp: pr_get_element_def key_fits_def wrap_new_def set_cache_def wrap_element_def nth_append Let_def
       split: option.splits)

lemma key_fits_delete:
  assumes fits: "key_fits k b p s w" and run: "pr_delete H p ids s w = (res, s', w')"
  shows "key_fits k (key_stale H p k (Pr_Delete ids) s w b) p s' w'"
proof -
  let ?d = "document_of s p"
  obtain ok where del: "h_delete H ?d ids w = (w', ok)"
    using run by (auto simp: pr_delete_def split: prod.splits bool.splits)
  show ?thesis
  proof (cases ok)
    case False
    with del run have s': "s' = s" "res \<noteq> None" by (auto simp: pr_delete_def)
    show ?thesis using fits delete_fails del False run s' by (auto simp: key_fits_def)
  next
    case True
    let ?c = "fold AList.delete (List.map_filter int_id ids) (cache_of s p)"
    have s': "s' = set_cache p ?c s" "res = None" using del True run by (simp_all add: pr_delete_def)
    have same: "h_element H ?d (Id_Int k) w' = h_element H ?d (Id_Int k) w" if "Some k \<notin> id_key ` set ids"
      using delete_keeps [of ?d ids w w' "Id_Int k"] del True that by auto
    show ?thesis
      using fits same run
      by (cases "Some k \<in> id_key ` set ids")
        (simp_all add: s' key_fits_def set_cache_def map_of_fold_delete)
  qed
qed

lemma key_fits_step:
  assumes "key_fits k b p s w" and "pr_step H p op s w = (s', w')"
  shows "key_fits k (key_stale H p k op s w b) p s' w'"
proof (cases op)
  case (Pr_Delete ids)
  with assms(2) have "pr_delete H p ids s w = (fst (pr_delete H p ids s w), s', w')" by (simp add: prod_eq_iff)
  from key_fits_delete [OF assms(1) this] show ?thesis unfolding Pr_Delete .
next
  case Pr_Refresh
  with assms show ?thesis by (auto simp: key_fits_def pr_refresh_def set_cache_def)
next
  case (Pr_Host f)
  with assms show ?thesis by (auto simp: key_fits_def)
qed (use assms key_fits_all key_fits_get in auto)

lemma key_fits_run:
  "key_fits k b p s w \<Longrightarrow> pr_run H p ops s w = (s', w') \<Longrightarrow> key_fits k (run_stale H p k ops s w b) p s' w'"
proof (induction ops arbitrary: s w b)
  case (Cons op ops)
  obtain s1 w1 where st: "pr_step H p op s w = (s1, w1)" by force
  with Cons.IH [OF key_fits_step [OF Cons.prems(1) st]] Cons.prems(2) show ?case by simp
qed simp

end

text \<open>
  C34: After any calls of a document provider whose cache was empty, mixed with any changes that other
  code makes to Revit, a wrapper in its cache is around the very element that the document has
  under that number, and asking for it again gives the same wrapper, unless it went stale: since it was
  cached, its element was deleted through the provider by an identifier object, or other code
  changed what the document has under the number, and the provider did not drop it since.
\<close>
theorem provider_cache_coherent:
  assumes "pr_run (mock_host :: (unit, ('f, 'h) mock_revit, nat, nat) host) p ops s m = (s', m')"
    and "p < length (as_providers s)" and "cache_of s p = []" and "map_of (cache_of s' p) k = Some a"
    and "\<not> run_stale mock_host p k ops s m False"
  shows "h_element mock_host (document_of s' p) (Id_Int k) m' = Some (Some (el_revit (as_elements s' ! a))) \<and>
         pr_get_element mock_host p (Id_Int k) s' m' = (Inr (Some a), s')"
proof -
  have "env.key_fits k False p s m" using assms(2,3) by (simp add: env.key_fits_def)
  from env.key_fits_run [OF this assms(1)] assms(4,5) show ?thesis
    by (simp add: env.key_fits_def pr_get_element_def)
qed

text \<open>The example: 1001 is deleted by its object while it is cached, and another element by other code.\<close>

definition sample_pr_ops :: "(nat, nat) mock_revit pr_op list" where
  "sample_pr_ops =
     [Pr_Get (Id_Int 7), Pr_All, Pr_Get (Id_Int 1001), Pr_Delete [Id_Mock 1001], Pr_Host (update_document 0 (md_delete [Id_Int 1002]))]"

definition sample_pr_run :: "(unit, nat, nat) api_state \<times> (nat, nat) mock_revit" where
  "sample_pr_run = pr_run mock_host 0 sample_pr_ops (snd (add_provider 0 (new_api (Some ())))) sample_revit"

lemma provider_cache_coherent_witness:
  "h_element mock_host (document_of (fst sample_pr_run) 0) (Id_Int 7) (snd sample_pr_run) =
     Some (Some (el_revit (as_elements (fst sample_pr_run) ! 0))) \<and>
   pr_get_element mock_host 0 (Id_Int 7) (fst sample_pr_run) (snd sample_pr_run) = (Inr (Some 0), fst sample_pr_run)"
proof (rule provider_cache_coherent)
  show "pr_run mock_host 0 sample_pr_ops (snd (add_provider 0 (new_api (Some ())))) sample_revit =
      (fst sample_pr_run, snd sample_pr_run)"
    by (simp add: sample_pr_run_def)
  show "0 < length (as_providers (snd (add_provider 0 (new_api (Some ())))))" by code_simp
  show "cache_of (snd (add_provider 0 (new_api (Some ())))) 0 = []" by code_simp
  show "map_of (cache_of (fst sample_pr_run) 0) 7 = Some 0" by code_simp
  show "\<not> run_stale mock_host 0 7 sample_pr_ops (snd (add_provider 0 (new_api (Some ())))) sample_revit False"
    by code_simp
qed


text \<open>
  C33: A query for a name over the active document returns, in the document's order, exactly the elements
  whose parameter \<open>Name\<close> reads as that text.
\<close>
theorem name_query_returns_matches:
  assumes "document_of s p < length (mv_heap m)"
  shows "run_query T (param_of (mock_ops fl))
      (provider_view covers (mock_host :: (unit, ('f, 'h) mock_revit, nat, nat) host) (\<lambda>r m. mv_store m ! r) p s m)
      (eb_equals ''Name'' (F_One (P_Str v)) True (new_element_builder None)) =
    Inr (map wrap_element (filter (\<lambda>e. \<exists>mp. map_of (me_parameters e) ''Name'' = Some mp \<and> as_string fl mp = v)
      (map (\<lambda>r. mv_store m ! r) (map snd (md_elements (mv_heap m ! document_of s p))))))"
proof -
  let ?els = "map (\<lambda>r. mv_store m ! r) (map snd (md_elements (mv_heap m ! document_of s p)))"
  let ?P = "provider_view covers (mock_host :: (unit, ('f, 'h) mock_revit, nat, nat) host) (\<lambda>r m. mv_store m ! r) p s m"
  let ?b = "eb_equals ''Name'' (F_One (P_Str v)) True (new_element_builder None)"
  have nth: "map (\<lambda>a. wrap_element (mv_store m ! el_revit ((as_elements s @ map wrap_element rs) ! a)))
      [length (as_elements s) ..< length (as_elements s) + length rs] = map wrap_element (map (\<lambda>r. mv_store m ! r) rs)" for rs
    by (rule nth_equalityI) (simp_all add: nth_append wrap_element_def)
  have base: "base_elements ?P ?b = Some (map wrap_element ?els)"
    using assms nth [of "map snd (md_elements (mv_heap m ! document_of s p))"]
    by (simp add: base_elements_def eb_equals_def eb_simple_def eb_where_def new_element_builder_def provider_view_def
        pr_all_elements_def mock_host_def md_get_elements_def Let_def)
  have crit: "apply_criteria T (param_of (mock_ops fl)) \<lparr>fc_property = ''Name'', fc_operator = EQUALS_OP,
        fc_value = F_One (P_Str v), fc_case_sensitive = True\<rparr> (wrap_element e) \<longleftrightarrow>
      (\<exists>mp. map_of (me_parameters e) ''Name'' = Some mp \<and> as_string fl mp = v)" for e
    by (auto simp: apply_criteria_def param_of_def get_parameter_value_def wrap_element_def mock_get_def first_of_def compare_op_def
        split: option.splits)
  show ?thesis
    using run_query_eq [OF base, of T "param_of (mock_ops fl)"]
    by (simp add: eb_equals_def eb_simple_def eb_where_def new_element_builder_def page_eq crit filter_map comp_def)
qed

lemma name_query_returns_matches_witness:
  "run_query sample_texts (param_of (mock_ops sample_float))
      (provider_view (\<lambda>_ :: unit. True) mock_host (\<lambda>r m. mv_store m ! r) 0 sample_api sample_revit)
      (eb_equals ''Name'' (F_One (P_Str ''Wall_1'')) True (new_element_builder None)) =
    Inr (map wrap_element (filter (\<lambda>e. \<exists>mp. map_of (me_parameters e) ''Name'' = Some mp \<and> as_string sample_float mp = ''Wall_1'')
      (map (\<lambda>r. mv_store sample_revit ! r) (map snd (md_elements (mv_heap sample_revit ! document_of sample_api 0))))))"
proof (rule name_query_returns_matches)
  show "document_of sample_api 0 < length (mv_heap sample_revit)" by code_simp
qed

text \<open>
  A \<open>with\<close> block on a transaction of \<open>RevitAPI\<close> leaves the provider's stack with the open
  transactions it had and the transaction no longer active, whatever the body does with the API,
  as long as it closes what it opens itself.
\<close>
theorem api_transaction_balanced:
  assumes "api_transaction H name auto s0 w = (Inr (p, t), s)"
    and "\<And>t x t' x' r. body t x = (t', x', r) \<Longrightarrow>
      txn_steps (provider_env clk p) (\<lambda>x x'. provider_open p x' = provider_open p x) (t, x) (t', x')"
  shows "case with_txn (provider_env clk p) body t (s, w) of
           (t', x', r) \<Rightarrow> provider_open p x' = provider_open p (s, w) \<and> \<not> is_active t'"
proof -
  have t: "t = new_txn name auto"
    using assms(1) by (auto simp: api_transaction_def split: sum.splits prod.splits)
  obtain t' x' r where "with_txn (provider_env clk p) body t (s, w) = (t', x', r)"
    by (cases "with_txn (provider_env clk p) body t (s, w)")
  with api_txn.with_txn_balanced [of body clk p name auto "(s, w)" t' x' r] assms(2) show ?thesis
    by (simp add: is_active_def t)
qed

lemma api_transaction_balanced_witness:
  "case with_txn (provider_env (\<lambda>_. 7) 0) (\<lambda>t x. (t, x, Inl (PyError ''ValueError'') :: exn + nat))
          (new_txn ''Rename'' True) (sample_api, sample_revit) of
     (t', x', r) \<Rightarrow> provider_open 0 x' = provider_open 0 (sample_api, sample_revit) \<and> \<not> is_active t'"
proof (rule api_transaction_balanced)
  have "need_document mock_host ''No active document'' sample_api sample_revit = (Inr 0, sample_api)" by code_simp
  then show "api_transaction mock_host ''Rename'' True sample_api sample_revit = (Inr (0, new_txn ''Rename'' True), sample_api)"
    by (simp add: api_transaction_def)
qed simp

subsection \<open>What the connection does not notice\<close>

text \<open>
  \<open>connect\<close> keeps the active document: connected to another application, the API still works on the
  document of the old one.
\<close>

lemma reconnect_keeps_document:
  assumes "as_active s = Some p" and "connect H (Some app) s w = (None, s')"
  shows "active_document H s' w' = (Inr (Some p), s')"
  using assms by (auto simp: connect_def Let_def active_document_def is_connected_def split: option.splits)

text \<open>
  A document that was closed through the API is active again at the next call, in a new provider, when
  Revit still names it as its active document; the mock does.
\<close>

lemma closed_document_returns:
  assumes "close_document H alive (Some p) save s w = (Inr b, s', w')" and "is_connected s" and "as_active s = Some p"
    and "as_app s = Some app" and "h_active H app w' = Some (Some d)"
  shows "active_document H s' w' = (Inr (Some (length (as_providers s))),
           s'\<lparr>as_providers := as_providers s @ [new_provider d], as_active := Some (length (as_providers s))\<rparr>)"
  using assms
  by (auto simp: close_document_def given_or_active_def active_document_def is_connected_def add_provider_def Let_def
      split: option.splits prod.splits)

lemma mock_close_keeps_active:
  "h_close mock_host d save m = (m', Some b) \<Longrightarrow> h_active mock_host app m' = Some (mv_active m)"
  by (auto simp: mock_host_def update_document_def split: if_splits)

text \<open>A document that could not be saved on closing is dropped from the API nevertheless.\<close>

lemma unsaved_document_dropped:
  assumes "h_close H (document_of s p) True w = (w', Some False)" and "as_active s = Some p"
  shows "\<exists>s'. close_document H alive (Some p) True s w = (Inr False, s', w') \<and> as_active s' = None"
  using assms by (simp add: close_document_def given_or_active_def)

text \<open>A typed query for a class derived from \<open>Element\<close> finds nothing in any document.\<close>

lemma typed_query_empty:
  assumes "\<not> covers ty" and "h_elements H (document_of s p) w = Some rs"
  shows "fst (pr_elements_of_type covers H ty p s w) = Inr []"
  using assms by (simp add: pr_elements_of_type_def pr_all_elements_def Let_def)

text \<open>
  Deleting by a \<open>MockElementId\<close> leaves the wrapper in the cache: \<open>get_element_by_id\<close> still returns the
  element that the document no longer has.
\<close>

lemma deleted_by_object_still_found:
  "(let (e, s, m) = pr_delete mock_host 0 [Id_Mock 7] sample_api sample_revit
    in e = None \<and> h_element mock_host (document_of s 0) (Id_Int 7) m = Some None \<and>
       fst (pr_get_element mock_host 0 (Id_Int 7) s m) = Inr (Some 0))"
  by code_simp

text \<open>The same path opened twice is opened twice: the remembered documents are never looked up.\<close>

lemma open_document_twice:
  assumes "is_connected s" and "as_app s = Some app" and "h_open H app path w = (w', Some (Some d))"
  shows "fst (open_document H path s w) = Inr (length (as_providers s))"
  using assms by (simp add: open_document_def add_provider_def)

lemma document_name_samples:
  "splitext_root ''Tower.v2.rvt'' = ''Tower.v2''" "splitext_root ''.rvt'' = ''.rvt''" "splitext_root ''Tower'' = ''Tower''"
  by code_simp+

end
