(* ===== verification/Type_Registry.thy ===== *)
theory Type_Registry
  imports Elements
begin

text \<open>
  What the Speckle mapper (\<open>interop/mapper.py\<close>) and the IFC mapper (\<open>ifc/mapper.py\<close>) have in common:
  a registry from the element types to the foreign types and a reverse registry, both extended by
  each registration; and the index of a list of elements by their identifiers, which both model
  comparisons build. The two mappers interpret the locale.
\<close>

subsection \<open>Registries in two directions\<close>

text \<open>
  \<open>register x t s m\<close> registers the type \<open>t\<close> for the foreign type \<open>s\<close>, with further data \<open>x\<close>;
  only registrations with \<open>two_way x\<close> enter the reverse registry.
\<close>

definition mutual :: "('m \<Rightarrow> string \<Rightarrow> string option) \<Rightarrow> ('m \<Rightarrow> string \<Rightarrow> string option) \<Rightarrow> 'm \<Rightarrow> bool" where
  "mutual fwd bwd m \<longleftrightarrow> (\<forall>t s. fwd m t = Some s \<longleftrightarrow> bwd m s = Some t)"

locale type_registry =
  fixes fwd :: "'m \<Rightarrow> string \<Rightarrow> string option"
    and bwd :: "'m \<Rightarrow> string \<Rightarrow> string option"
    and register :: "'x \<Rightarrow> string \<Rightarrow> string \<Rightarrow> 'm \<Rightarrow> 'm"
    and two_way :: "'x \<Rightarrow> bool"
  assumes fwd_register: "fwd (register x t s m) = (fwd m)(t \<mapsto> s)"
    and back_register: "bwd (register x t s m) = (if two_way x then (bwd m)(s \<mapsto> t) else bwd m)"
begin

lemma last_registration_wins:
  "two_way x \<Longrightarrow> fwd (register x t s m) t = Some s \<and> bwd (register x t s m) s = Some t"
  by (simp add: fwd_register back_register)

lemma mutual_register:
  assumes "mutual fwd bwd m" and "two_way x" and "fwd m t = None \<or> fwd m t = Some s"
    and "bwd m s = None \<or> bwd m s = Some t"
  shows "mutual fwd bwd (register x t s m)"
proof -
  have m: "fwd m t' = Some s' \<longleftrightarrow> bwd m s' = Some t'" for t' s' using assms(1) by (simp add: mutual_def)
  show ?thesis
    unfolding mutual_def
  proof (intro allI)
    fix t' s'
    show "fwd (register x t s m) t' = Some s' \<longleftrightarrow> bwd (register x t s m) s' = Some t'"
      using m [of t' s'] m [of t s'] m [of t' s] assms(2-4) by (auto simp: fwd_register back_register)
  qed
qed

text \<open>Registering a known type for another foreign type leaves the old entry of the reverse registry.\<close>

lemma stale_reverse:
  assumes "two_way x" and "bwd m s = Some t" and "s' \<noteq> s"
  shows "fwd (register x t s' m) t = Some s'" "bwd (register x t s' m) s = Some t"
  using assms by (simp_all add: fwd_register back_register)

text \<open>Two types for one foreign type: the way back leads to the later one.\<close>

lemma shared_foreign_type:
  assumes "two_way x'" and "t' \<noteq> t" and "fwd m t = Some s"
  shows "fwd (register x' t' s m) t = Some s" "bwd (register x' t' s m) s = Some t'"
  using assms by (simp_all add: fwd_register back_register)

definition register_all :: "('x \<times> string \<times> string) list \<Rightarrow> 'm \<Rightarrow> 'm" where
  "register_all rs = fold (\<lambda>(x, t, s). register x t s) rs"

lemma register_all_simps:
  "register_all [] m = m" "register_all ((x, t, s) # rs) m = register_all rs (register x t s m)"
  by (simp_all add: register_all_def)

lemma mutual_register_all:
  assumes "mutual fwd bwd m" and "list_all (\<lambda>(x, t, s). two_way x) rs"
    and "distinct (map (fst \<circ> snd) rs)" and "distinct (map (snd \<circ> snd) rs)"
    and "\<forall>(x, t, s) \<in> set rs. fwd m t = None \<and> bwd m s = None"
  shows "mutual fwd bwd (register_all rs m) \<and> (\<forall>(x, t, s) \<in> set rs. fwd (register_all rs m) t = Some s)"
proof -
  have keep: "fwd (register_all rs m) t = fwd m t" if "t \<notin> fst ` snd ` set rs" for rs t m
    using that by (induction rs arbitrary: m) (auto simp: register_all_simps fwd_register)
  show ?thesis
    using assms
  proof (induction rs arbitrary: m)
    case Nil
    then show ?case by (simp add: register_all_simps)
  next
    case (Cons r rs)
    obtain x t s where r: "r = (x, t, s)" by (metis prod.exhaust)
    have fresh: "t \<notin> fst ` snd ` set rs" "s \<notin> snd ` snd ` set rs"
      using Cons.prems(3,4) by (auto simp: r image_image)
    have m: "mutual fwd bwd (register x t s m)"
      using Cons.prems by (intro mutual_register) (auto simp: r)
    have "\<forall>(x', t', s') \<in> set rs. fwd (register x t s m) t' = None \<and> bwd (register x t s m) s' = None"
      using Cons.prems(5) fresh by (auto simp: r fwd_register back_register image_iff split: prod.splits; force)
    with Cons.IH [OF m] Cons.prems show ?case
      by (auto simp: r register_all_simps keep [OF fresh(1)] fwd_register)
  qed
qed

end

subsection \<open>Indexing by identifier\<close>

text \<open>A loop that stores each element that has an identifier in a dictionary: the last one stays.\<close>

definition index_step :: "('e \<Rightarrow> string option) \<Rightarrow> 'e \<Rightarrow> (string, 'e) dict \<Rightarrow> (string, 'e) dict" where
  "index_step key e d = (case key e of None \<Rightarrow> d | Some k \<Rightarrow> AList.update k e d)"

definition index_by :: "('e \<Rightarrow> string option) \<Rightarrow> 'e list \<Rightarrow> (string, 'e) dict" where
  "index_by key xs = fold (index_step key) xs []"

lemma index_fold:
  "map_of (fold (index_step key) xs d) k =
     (case filter (\<lambda>e. key e = Some k) xs of [] \<Rightarrow> map_of d k | ys \<Rightarrow> Some (last ys))"
proof (induction xs arbitrary: d)
  case (Cons x xs)
  then show ?case
    by (auto simp: index_step_def split: list.splits option.splits)
qed simp

lemma map_of_index_by:
  "map_of (index_by key xs) k =
     (case filter (\<lambda>e. key e = Some k) xs of [] \<Rightarrow> None | ys \<Rightarrow> Some (last ys))"
  by (simp add: index_by_def index_fold split: list.split)

lemma dict_ok_index_by [simp]: "dict_ok (index_by key xs)"
proof -
  have "dict_ok d \<Longrightarrow> dict_ok (fold (index_step key) xs d)" for d
    by (induction xs arbitrary: d) (auto simp: index_step_def split: option.splits)
  then show ?thesis by (simp add: index_by_def)
qed

lemma index_by_key: "map_of (index_by key xs) k = Some e \<Longrightarrow> key e = Some k \<and> e \<in> set xs"
proof -
  assume "map_of (index_by key xs) k = Some e"
  then obtain y ys where "filter (\<lambda>e. key e = Some k) xs = y # ys" "e = last (y # ys)"
    by (auto simp: map_of_index_by split: list.splits)
  then have "e \<in> set (filter (\<lambda>e. key e = Some k) xs)" by (metis last_in_set list.distinct(1))
  then show ?thesis by simp
qed

lemma index_by_distinct:
  assumes "distinct (List.map_filter key xs)"
  shows "map_of (index_by key xs) k = Some e \<longleftrightarrow> e \<in> set xs \<and> key e = Some k"
proof -
  have "filter (\<lambda>e. key e = Some k) xs = [e]" if "e \<in> set xs" "key e = Some k"
    using that assms
  proof (induction xs)
    case (Cons x xs)
    show ?case
    proof (cases "x = e")
      case True
      with Cons.prems have "k \<notin> set (List.map_filter key xs)"
        by (auto simp: List.map_filter_simps)
      then have "filter (\<lambda>e. key e = Some k) xs = []"
        by (force simp: filter_empty_conv List.map_filter_def)
      with True Cons.prems show ?thesis by simp
    next
      case False
      with Cons.prems have "e \<in> set xs" by simp
      then have "k \<in> set (List.map_filter key xs)"
        using Cons.prems(2) by (force simp: List.map_filter_def)
      with Cons show ?thesis by (auto simp: List.map_filter_simps False split: option.splits)
    qed
  qed simp
  then have "map_of (index_by key xs) k = Some e" if "e \<in> set xs" "key e = Some k"
    using that by (simp add: map_of_index_by)
  then show ?thesis using index_by_key [of key xs k e] by blast
qed

end
