(* ===== verification/Speckle_Client.thy ===== *)
theory Speckle_Client
  imports Type_Registry
begin

text \<open>
  The client of the Speckle server, \<open>interop/client.py\<close>: the connection, the GraphQL calls, and what the
  methods read from the answers.

  The server is an argument, \<open>sv_post\<close>: what the HTTP client gets for a request in a state of the
  server. A request is the constant query of the source with its variables. The JSON values of the
  answers are \<open>gql_value\<close>; the objects that are exchanged, dictionaries of scalar values, are
  \<open>G_Data\<close>. An exception that is neither a \<open>SpeckleSyncError\<close> nor a \<open>SpeckleConnectionError\<close> is a
  \<open>Client_Error\<close>, of which only the kind is kept. \<open>sv_str\<close> is Python's \<open>str\<close> on a JSON value.
\<close>

subsection \<open>Values\<close>

type_synonym object_dict = "(string, pvalue) dict"

fun py_truthy :: "pvalue \<Rightarrow> bool" where
  "py_truthy P_None = False"
| "py_truthy (P_Int i) = (i \<noteq> 0)"
| "py_truthy (P_Float q) = (q \<noteq> 0)"
| "py_truthy (P_Str s) = (s \<noteq> [])"

datatype gql_value =
  G_Scalar pvalue | G_Data object_dict | G_List "gql_value list" | G_Object "(string \<times> gql_value) list"

abbreviation G_Text :: "string \<Rightarrow> gql_value" where
  "G_Text t \<equiv> G_Scalar (P_Str t)"

fun gql_truthy :: "gql_value \<Rightarrow> bool" where
  "gql_truthy (G_Scalar v) = py_truthy v"
| "gql_truthy (G_Data d) = (d \<noteq> [])"
| "gql_truthy (G_List vs) = (vs \<noteq> [])"
| "gql_truthy (G_Object kvs) = (kvs \<noteq> [])"

fun gql_members :: "gql_value \<Rightarrow> (string \<times> gql_value) list option" where
  "gql_members (G_Object kvs) = Some kvs"
| "gql_members (G_Data d) = Some (map (\<lambda>(k, v). (k, G_Scalar v)) d)"
| "gql_members _ = None"

text \<open>\<open>v.get(k, d)\<close>, \<open>v[k]\<close> and iterating over \<open>v\<close>.\<close>

definition gql_get :: "string \<Rightarrow> gql_value \<Rightarrow> gql_value \<Rightarrow> string + gql_value" where
  "gql_get k d v =
     (case gql_members v of
        None \<Rightarrow> Inl ''AttributeError''
      | Some kvs \<Rightarrow> Inr (case map_of kvs k of None \<Rightarrow> d | Some x \<Rightarrow> x))"

definition gql_item :: "string \<Rightarrow> gql_value \<Rightarrow> string + gql_value" where
  "gql_item k v =
     (case gql_members v of
        None \<Rightarrow> Inl ''TypeError''
      | Some kvs \<Rightarrow> (case map_of kvs k of None \<Rightarrow> Inl ''KeyError'' | Some x \<Rightarrow> Inr x))"

fun gql_iterate :: "gql_value \<Rightarrow> string + gql_value list" where
  "gql_iterate (G_List vs) = Inr vs"
| "gql_iterate (G_Object kvs) = Inr (map (\<lambda>(k, v). G_Text k) kvs)"
| "gql_iterate (G_Data d) = Inr (map (\<lambda>(k, v). G_Text k) d)"
| "gql_iterate (G_Scalar v) = (case v of P_Str t \<Rightarrow> Inr (map (\<lambda>c. G_Text [c]) t) | _ \<Rightarrow> Inl ''TypeError'')"

text \<open>A chain of \<open>get\<close> with their defaults, and a comprehension whose element may raise.\<close>

fun gql_path :: "(string \<times> gql_value) list \<Rightarrow> gql_value \<Rightarrow> string + gql_value" where
  "gql_path [] v = Inr v"
| "gql_path ((k, d) # ps) v = (case gql_get k d v of Inl e \<Rightarrow> Inl e | Inr x \<Rightarrow> gql_path ps x)"

fun collect :: "('a \<Rightarrow> 'e + 'b) \<Rightarrow> 'a list \<Rightarrow> 'e + 'b list" where
  "collect f [] = Inr []"
| "collect f (x # xs) =
     (case f x of
        Inl e \<Rightarrow> Inl e
      | Inr y \<Rightarrow> (case collect f xs of Inl e \<Rightarrow> Inl e | Inr ys \<Rightarrow> Inr (y # ys)))"

subsection \<open>The connection\<close>

record http_client =
  hc_url :: string
  hc_headers :: "(string, string) dict"
  hc_closed :: bool

record speckle_client =
  scl_url :: string
  scl_token :: "string option"
  scl_http :: "http_client option"
  scl_connected :: bool

definition new_speckle_client :: "string \<Rightarrow> string option \<Rightarrow> speckle_client" where
  "new_speckle_client url token = \<lparr>scl_url = url, scl_token = token, scl_http = None, scl_connected = False\<rparr>"

record commit_input =
  ci_stream :: string
  ci_branch :: string
  ci_message :: string
  ci_source :: string
  ci_total :: nat
  ci_object :: string

datatype gql_request =
    Server_Info | Streams | Stream_Of string | Branches_Of string | Commits_Of string string int
  | Commit_Create commit_input | Object_Of string gql_value

datatype post_result = Posted gql_value | Http_Failed string | Not_Json string

record 's speckle_server =
  sv_post :: "http_client \<Rightarrow> gql_request \<Rightarrow> 's \<Rightarrow> post_result \<times> 's"
  sv_str :: "gql_value \<Rightarrow> string"

datatype client_error = Speckle_Sync_Error string | Speckle_Connection_Error string | Client_Error string

type_synonym ('s, 'r) client_result = "(client_error + 'r) \<times> speckle_client \<times> 's"

definition build_headers :: "speckle_client \<Rightarrow> (string, string) dict" where
  "build_headers c =
     (''Content-Type'', ''application/json'') #
     (case scl_token c of
        None \<Rightarrow> []
      | Some t \<Rightarrow> if t = [] then [] else [(''Authorization'', ''Bearer '' @ t)])"

definition ensure_client :: "speckle_client \<Rightarrow> http_client \<times> speckle_client" where
  "ensure_client c =
     (let fresh = \<lparr>hc_url = scl_url c, hc_headers = build_headers c, hc_closed = False\<rparr> in
      case scl_http c of
        None \<Rightarrow> (fresh, c\<lparr>scl_http := Some fresh\<rparr>)
      | Some h \<Rightarrow> if hc_closed h then (fresh, c\<lparr>scl_http := Some fresh\<rparr>) else (h, c))"

text \<open>\<open>"; ".join(e.get("message", str(e)) for e in errors)\<close>.\<close>

fun join_semi :: "string list \<Rightarrow> string" where
  "join_semi [] = []"
| "join_semi [x] = x"
| "join_semi (x # y # ys) = x @ ''; '' @ join_semi (y # ys)"

definition error_messages :: "'s speckle_server \<Rightarrow> gql_value \<Rightarrow> string + string" where
  "error_messages S errs =
     (case gql_iterate errs of
        Inl e \<Rightarrow> Inl e
      | Inr es \<Rightarrow>
          (case collect (\<lambda>e. gql_get ''message'' (G_Text (sv_str S e)) e) es of
             Inl e \<Rightarrow> Inl e
           | Inr ms \<Rightarrow>
               map_sum id join_semi
                 (collect (\<lambda>m. case m of G_Scalar (P_Str t) \<Rightarrow> Inr t | _ \<Rightarrow> Inl ''TypeError'') ms)))"

definition graphql_data :: "'s speckle_server \<Rightarrow> gql_value \<Rightarrow> client_error + gql_value" where
  "graphql_data S body =
     (case gql_members body of
        None \<Rightarrow> Inl (Client_Error ''not a dictionary'')
      | Some kvs \<Rightarrow>
          (case map_of kvs ''errors'' of
             Some errs \<Rightarrow>
               Inl (case error_messages S errs of
                      Inl e \<Rightarrow> Client_Error e | Inr t \<Rightarrow> Speckle_Sync_Error (''GraphQL errors: '' @ t))
           | None \<Rightarrow> Inr (case map_of kvs ''data'' of None \<Rightarrow> G_Object [] | Some d \<Rightarrow> d)))"

definition graphql ::
  "'s speckle_server \<Rightarrow> gql_request \<Rightarrow> speckle_client \<times> 's \<Rightarrow> ('s, gql_value) client_result" where
  "graphql S q = (\<lambda>(c, s).
     (case ensure_client c of
        (h, c1) \<Rightarrow>
          (case sv_post S h q s of
             (Http_Failed t, s1) \<Rightarrow> (Inl (Speckle_Sync_Error (''GraphQL request failed: '' @ t)), c1, s1)
           | (Not_Json t, s1) \<Rightarrow> (Inl (Client_Error t), c1, s1)
           | (Posted body, s1) \<Rightarrow> (graphql_data S body, c1, s1))))"

text \<open>A query whose answer is read by \<open>f\<close>; what \<open>f\<close> raises is not caught.\<close>

definition graphql_read ::
  "'s speckle_server \<Rightarrow> gql_request \<Rightarrow> (gql_value \<Rightarrow> string + 'r) \<Rightarrow> speckle_client \<times> 's \<Rightarrow> ('s, 'r) client_result" where
  "graphql_read S q f cs =
     (case graphql S q cs of
        (Inl e, cs1) \<Rightarrow> (Inl e, cs1)
      | (Inr d, cs1) \<Rightarrow> (map_sum Client_Error id (f d), cs1))"

definition sc_connect :: "'s speckle_server \<Rightarrow> speckle_client \<times> 's \<Rightarrow> ('s, unit) client_result" where
  "sc_connect S cs =
     (case graphql_read S Server_Info
             (\<lambda>d. case gql_get ''serverInfo'' (G_Object []) d of
                    Inl e \<Rightarrow> Inl e | Inr info \<Rightarrow> gql_get ''name'' (G_Text ''unknown'') info) cs of
        (Inl e, c1, s1) \<Rightarrow> (Inl (Speckle_Connection_Error (''Failed to connect to '' @ scl_url c1)), c1, s1)
      | (Inr _, c1, s1) \<Rightarrow> (Inr (), c1\<lparr>scl_connected := True\<rparr>, s1))"

definition sc_close :: "speckle_client \<Rightarrow> speckle_client" where
  "sc_close c =
     c\<lparr>scl_http := (case scl_http c of Some h \<Rightarrow> if hc_closed h then Some h else None | None \<Rightarrow> None),
       scl_connected := False\<rparr>"

subsection \<open>Streams, branches and commits\<close>

definition get_streams :: "'s speckle_server \<Rightarrow> speckle_client \<times> 's \<Rightarrow> ('s, gql_value) client_result" where
  "get_streams S = graphql_read S Streams (gql_path [(''streams'', G_Object []), (''items'', G_List [])])"

definition get_stream :: "'s speckle_server \<Rightarrow> string \<Rightarrow> speckle_client \<times> 's \<Rightarrow> ('s, gql_value) client_result" where
  "get_stream S stream = graphql_read S (Stream_Of stream) (gql_path [(''stream'', G_Object [])])"

definition get_branches :: "'s speckle_server \<Rightarrow> string \<Rightarrow> speckle_client \<times> 's \<Rightarrow> ('s, gql_value) client_result" where
  "get_branches S stream = graphql_read S (Branches_Of stream)
     (gql_path [(''stream'', G_Object []), (''branches'', G_Object []), (''items'', G_List [])])"

record speckle_commit =
  sk_id :: gql_value
  sk_message :: gql_value
  sk_author :: gql_value
  sk_created :: gql_value
  sk_source :: gql_value
  sk_total :: gql_value

definition commit_of :: "gql_value \<Rightarrow> string + speckle_commit" where
  "commit_of item =
     (let f = (\<lambda>k d. case gql_get k d item of Inl _ \<Rightarrow> d | Inr x \<Rightarrow> x) in
      map_sum id (\<lambda>i. \<lparr>sk_id = i, sk_message = f ''message'' (G_Text []), sk_author = f ''authorName'' (G_Text []),
          sk_created = f ''createdAt'' (G_Text []), sk_source = f ''sourceApplication'' (G_Text ''revitpy''),
          sk_total = f ''totalChildrenCount'' (G_Scalar (P_Int 0))\<rparr>)
        (gql_item ''id'' item))"

definition get_commits ::
  "'s speckle_server \<Rightarrow> string \<Rightarrow> string \<Rightarrow> int \<Rightarrow> speckle_client \<times> 's \<Rightarrow> ('s, speckle_commit list) client_result" where
  "get_commits S stream branch limit = graphql_read S (Commits_Of stream branch limit)
     (\<lambda>d. case gql_path [(''stream'', G_Object []), (''branch'', G_Object []), (''commits'', G_Object []), (''items'', G_List [])] d of
            Inl e \<Rightarrow> Inl e
          | Inr items \<Rightarrow> (case gql_iterate items of Inl e \<Rightarrow> Inl e | Inr is \<Rightarrow> collect commit_of is))"

subsection \<open>Sending and receiving\<close>

definition commit_request :: "string \<Rightarrow> object_dict list \<Rightarrow> string \<Rightarrow> string \<Rightarrow> commit_input" where
  "commit_request stream objs branch msg =
     \<lparr>ci_stream = stream, ci_branch = branch,
      ci_message = (if msg = [] then ''revitpy push ('' @ nat_str (length objs) @ '' objects)'' else msg),
      ci_source = ''revitpy'', ci_total = length objs,
      ci_object = ''revitpy-'' @ stream @ ''-'' @ nat_str (length objs)\<rparr>"

text \<open>Any other exception than a \<open>SpeckleSyncError\<close> becomes one.\<close>

definition as_sync_error :: "string \<Rightarrow> client_error \<Rightarrow> client_error" where
  "as_sync_error t e = (case e of Speckle_Sync_Error u \<Rightarrow> Speckle_Sync_Error u | _ \<Rightarrow> Speckle_Sync_Error t)"

definition send_objects ::
  "'s speckle_server \<Rightarrow> string \<Rightarrow> object_dict list \<Rightarrow> string \<Rightarrow> string \<Rightarrow> speckle_client \<times> 's \<Rightarrow>
   ('s, speckle_commit) client_result" where
  "send_objects S stream objs branch msg cs =
     (let r = commit_request stream objs branch msg in
      case graphql_read S (Commit_Create r) (gql_get ''commitCreate'' (G_Text [])) cs of
        (Inl e, cs1) \<Rightarrow> (Inl (as_sync_error (''Failed to send objects to stream '' @ stream) e), cs1)
      | (Inr cid, cs1) \<Rightarrow>
          (Inr \<lparr>sk_id = cid, sk_message = G_Text (ci_message r), sk_author = G_Text ''revitpy'', sk_created = G_Text [],
                sk_source = G_Text ''revitpy'', sk_total = G_Scalar (P_Int (int (length objs)))\<rparr>, cs1))"

text \<open>The objects of an answer: the data of the children, or of the object itself when there are none.\<close>

definition received_objects :: "gql_value \<Rightarrow> string + gql_value list" where
  "received_objects d =
     (case gql_path [(''stream'', G_Object []), (''object'', G_Object [])] d of
        Inl e \<Rightarrow> Inl e
      | Inr obj \<Rightarrow>
          (case gql_path [(''children'', G_Object []), (''objects'', G_List [])] obj of
             Inl e \<Rightarrow> Inl e
           | Inr children \<Rightarrow>
               (case gql_iterate children of
                  Inl e \<Rightarrow> Inl e
                | Inr cs \<Rightarrow>
                    (case collect (\<lambda>c. gql_get ''data'' c c) cs of
                       Inl e \<Rightarrow> Inl e
                     | Inr objs \<Rightarrow>
                         (if objs \<noteq> [] then Inr objs
                          else map_sum id (\<lambda>x. if gql_truthy x then [x] else []) (gql_get ''data'' (G_Scalar P_None) obj))))))"

definition receive_object ::
  "'s speckle_server \<Rightarrow> string \<Rightarrow> gql_value \<Rightarrow> speckle_client \<times> 's \<Rightarrow> ('s, gql_value list) client_result" where
  "receive_object S stream cid cs =
     (case graphql_read S (Object_Of stream cid) received_objects cs of
        (Inl e, cs1) \<Rightarrow> (Inl (as_sync_error (''Failed to receive objects from stream '' @ stream) e), cs1)
      | (Inr objs, cs1) \<Rightarrow> (Inr objs, cs1))"

definition receive_objects ::
  "'s speckle_server \<Rightarrow> string \<Rightarrow> string option \<Rightarrow> string \<Rightarrow> speckle_client \<times> 's \<Rightarrow> ('s, gql_value list) client_result" where
  "receive_objects S stream commit branch cs =
     (case commit of
        Some cid \<Rightarrow> receive_object S stream (G_Text cid) cs
      | None \<Rightarrow>
          (case get_commits S stream branch 1 cs of
             (Inl e, cs1) \<Rightarrow> (Inl e, cs1)
           | (Inr [], cs1) \<Rightarrow> (Inr [], cs1)
           | (Inr (cm # _), cs1) \<Rightarrow> receive_object S stream (sk_id cm) cs1))"

subsection \<open>What a client keeps and what it sends\<close>

text \<open>The HTTP client in use is open, and has the address and the headers of the configuration.\<close>

definition client_ok :: "speckle_client \<Rightarrow> bool" where
  "client_ok c \<longleftrightarrow>
     (\<forall>h. scl_http c = Some h \<longrightarrow> \<not> hc_closed h \<and> hc_url h = scl_url c \<and> hc_headers h = build_headers c)"

lemma client_ok_new: "client_ok (new_speckle_client url token)"
  by (simp add: client_ok_def new_speckle_client_def)

lemma client_ok_close: "client_ok c \<Longrightarrow> client_ok (sc_close c)"
  by (auto simp: client_ok_def sc_close_def build_headers_def split: option.splits)

lemma client_ok_connected [simp]: "client_ok (c\<lparr>scl_connected := b\<rparr>) = client_ok c"
  by (simp add: client_ok_def build_headers_def)

lemma ensure_client_ok: "client_ok c \<Longrightarrow> ensure_client c = (h, c1) \<Longrightarrow> client_ok c1 \<and> hc_headers h = build_headers c"
  by (auto simp: client_ok_def ensure_client_def build_headers_def Let_def split: option.splits if_splits)

lemma graphql_ok: "client_ok c \<Longrightarrow> graphql S q (c, s) = (r, c', s') \<Longrightarrow> client_ok c'"
  using ensure_client_ok [of c]
  by (cases "ensure_client c") (auto simp: graphql_def split: prod.splits post_result.splits)

lemma graphql_read_ok: "client_ok c \<Longrightarrow> graphql_read S q f (c, s) = (r, c', s') \<Longrightarrow> client_ok c'"
  by (cases "graphql S q (c, s)") (auto simp: graphql_read_def split: sum.splits dest: graphql_ok)

text \<open>
  Pushing transmits no object: what is sent, and so everything that follows, depends only on how many
  objects there are.
\<close>

lemma send_objects_sends_no_object:
  assumes "length objs = length objs'"
  shows "send_objects S stream objs branch msg cs = send_objects S stream objs' branch msg cs"
proof -
  have "commit_request stream objs branch msg = commit_request stream objs' branch msg"
    using assms by (simp add: commit_request_def)
  then show ?thesis by (simp only: send_objects_def assms)
qed

text \<open>Sending raises nothing but a \<open>SpeckleSyncError\<close>.\<close>

lemma send_objects_error:
  "send_objects S stream objs branch msg cs = (Inl e, cs1) \<Longrightarrow> \<exists>t. e = Speckle_Sync_Error t"
  by (auto simp: send_objects_def as_sync_error_def Let_def split: prod.splits sum.splits client_error.splits)

text \<open>
  Receiving the latest commit of a branch asks for the object whose identifier is that of the
  commit, while the commit of a push names the object \<open>revitpy-...\<close>.
\<close>

lemma receive_asks_for_commit_id:
  "get_commits S stream branch 1 cs = (Inr (cm # cms), cs1) \<Longrightarrow>
     receive_objects S stream None branch cs = receive_object S stream (sk_id cm) cs1"
  by (simp add: receive_objects_def)

end
