(* ===== verification/Interop.thy ===== *)
theory Interop
  imports Speckle_Client "HOL-Library.Char_ord" "HOL-Library.List_Lexorder"
begin

text \<open>
  The Speckle layer (\<open>interop/\<close>): the type mapper, the comparison of local and remote elements, the
  merge with its conflict strategies, the synchronisation and the subscriptions.

  Elements on the way to and from Speckle are dictionaries of scalar values. An element of the
  model is its class name and its attributes that are not callable. The client of the server is
  that of \<open>Speckle_Client\<close>. Durations are left out.
\<close>

subsection \<open>The type mapper\<close>

datatype mapping_status = Mapped | Unmapped | Partially_Mapped | Mapping_Failed

record type_mapping =
  tm_revitpy_type :: string
  tm_speckle_type :: string
  tm_property_map :: "(string, string) dict"
  tm_status :: mapping_status

record type_mapper =
  ty_registry :: "(string, type_mapping) dict"
  ty_reverse :: "(string, string) dict"

definition default_speckle_types :: "(string \<times> string) list" where
  "default_speckle_types =
     [(''WallElement'', ''Objects.BuiltElements.Wall:Wall''), (''RoomElement'', ''Objects.BuiltElements.Room:Room''),
      (''DoorElement'', ''Objects.BuiltElements.Door:Door''), (''WindowElement'', ''Objects.BuiltElements.Window:Window''),
      (''SlabElement'', ''Objects.BuiltElements.Floor:Floor''), (''RoofElement'', ''Objects.BuiltElements.Roof:Roof''),
      (''ColumnElement'', ''Objects.BuiltElements.Column:Column''), (''BeamElement'', ''Objects.BuiltElements.Beam:Beam''),
      (''StairElement'', ''Objects.BuiltElements.Stair:Stair''), (''RailingElement'', ''Objects.BuiltElements.Railing:Railing'')]"

definition register_mapping :: "(string, string) dict \<Rightarrow> string \<Rightarrow> string \<Rightarrow> type_mapper \<Rightarrow> type_mapper" where
  "register_mapping pm t s m =
     m\<lparr>ty_registry := AList.update t
         \<lparr>tm_revitpy_type = t, tm_speckle_type = s, tm_property_map = pm, tm_status = Mapped\<rparr> (ty_registry m),
       ty_reverse := AList.update s t (ty_reverse m)\<rparr>"

definition new_type_mapper :: type_mapper where
  "new_type_mapper =
     fold (\<lambda>(t, s). register_mapping [] t s) default_speckle_types \<lparr>ty_registry = [], ty_reverse = []\<rparr>"

definition get_mapping :: "string \<Rightarrow> type_mapper \<Rightarrow> type_mapping option" where
  "get_mapping t m = map_of (ty_registry m) t"

definition get_unmapped_status :: "string \<Rightarrow> type_mapping" where
  "get_unmapped_status t = \<lparr>tm_revitpy_type = t, tm_speckle_type = '''', tm_property_map = [], tm_status = Unmapped\<rparr>"

definition registered_types :: "type_mapper \<Rightarrow> string list" where
  "registered_types m = map fst (ty_registry m)"

definition registered_speckle_types :: "type_mapper \<Rightarrow> string list" where
  "registered_speckle_types m = map fst (ty_reverse m)"

record source_element =
  se_type :: string
  se_attrs :: "(string, pvalue) dict"

definition attr_of :: "string \<Rightarrow> source_element \<Rightarrow> pvalue" where
  "attr_of a e = (case map_of (se_attrs e) a of None \<Rightarrow> P_None | Some v \<Rightarrow> v)"

definition entry_of :: "string \<Rightarrow> object_dict \<Rightarrow> pvalue" where
  "entry_of k d = (case map_of d k of None \<Rightarrow> P_None | Some v \<Rightarrow> v)"

definition put_some :: "string \<Rightarrow> pvalue \<Rightarrow> object_dict \<Rightarrow> object_dict" where
  "put_some k v d = (if v = P_None then d else AList.update k v d)"

definition is_public :: "string \<Rightarrow> bool" where
  "is_public a = (case a of [] \<Rightarrow> True | c # _ \<Rightarrow> c \<noteq> CHR ''_'')"

text \<open>Without a property map, all public attributes are copied, in the order of \<open>dir\<close>, which sorts them.\<close>

definition copied_attrs :: "source_element \<Rightarrow> string list" where
  "copied_attrs e = filter (\<lambda>a. is_public a \<and> a \<notin> {''id'', ''name''}) (sort (map fst (se_attrs e)))"

definition to_speckle :: "type_mapper \<Rightarrow> source_element \<Rightarrow> string + object_dict" where
  "to_speckle m e =
     (case map_of (ty_registry m) (se_type e) of
        None \<Rightarrow> Inl (''No Speckle mapping found for type: '' @ se_type e)
      | Some tm \<Rightarrow>
          (let obj = [(''speckle_type'', P_Str (tm_speckle_type tm)), (''revitpy_type'', P_Str (se_type e)),
                      (''id'', attr_of ''id'' e), (''name'', attr_of ''name'' e)] in
           Inr (if tm_property_map tm \<noteq> []
                then fold (\<lambda>(rp, sp). put_some sp (attr_of rp e)) (tm_property_map tm) obj
                else fold (\<lambda>a. put_some a (attr_of a e)) (copied_attrs e) obj)))"

definition reverse_map :: "(string, string) dict \<Rightarrow> (string, string) dict" where
  "reverse_map pm = fold (\<lambda>(k, v). AList.update v k) pm []"

text \<open>The error of \<open>from_speckle\<close> carries the Speckle type that is not mapped.\<close>

definition from_speckle :: "type_mapper \<Rightarrow> object_dict \<Rightarrow> string option \<Rightarrow> pvalue + object_dict" where
  "from_speckle m obj target =
     (let st = (case map_of obj ''speckle_type'' of None \<Rightarrow> P_Str ''Unknown'' | Some v \<Rightarrow> v) in
      case (case target of Some t \<Rightarrow> Some t
            | None \<Rightarrow> (case st of P_Str s \<Rightarrow> map_of (ty_reverse m) s | _ \<Rightarrow> None)) of
        None \<Rightarrow> Inl st
      | Some t \<Rightarrow>
          (let res = [(''type'', P_Str t), (''speckle_type'', st), (''id'', entry_of ''id'' obj), (''name'', entry_of ''name'' obj)];
               pm = (case map_of (ty_registry m) t of None \<Rightarrow> [] | Some tm \<Rightarrow> tm_property_map tm)
           in Inr (if pm \<noteq> []
                   then fold (\<lambda>(sp, rp). put_some rp (entry_of sp obj)) (reverse_map pm) res
                   else fold (\<lambda>(k, v) r. if k \<in> {''speckle_type'', ''id'', ''name''} then r else AList.update k v r) obj res)))"

subsection \<open>Differences\<close>

definition or_else :: "pvalue \<Rightarrow> pvalue \<Rightarrow> pvalue" where
  "or_else x y = (if py_truthy x then x else y)"

definition diff_element_id :: "(rat \<Rightarrow> string) \<Rightarrow> object_dict \<Rightarrow> string option" where
  "diff_element_id fl e =
     (let s = py_str fl (or_else (entry_of ''id'' e) (or_else (entry_of ''element_id'' e) (or_else (entry_of ''Id'' e) (P_Str []))))
      in if s = [] then None else Some s)"

datatype change_kind = Added | Removed | Modified

record diff_entry =
  de_element :: string
  de_change :: change_kind
  de_property :: "string option"
  de_local :: pvalue
  de_remote :: pvalue

definition ignored_keys :: "string list" where
  "ignored_keys = [''speckle_type'', ''revitpy_type'', ''type'']"

definition compared_keys :: "object_dict \<Rightarrow> object_dict \<Rightarrow> string list" where
  "compared_keys l r = sort (filter (\<lambda>k. k \<notin> set ignored_keys) (remdups (map fst l @ map fst r)))"

definition modified_entries :: "string \<Rightarrow> object_dict \<Rightarrow> object_dict \<Rightarrow> diff_entry list" where
  "modified_entries eid l r =
     map (\<lambda>k. \<lparr>de_element = eid, de_change = Modified, de_property = Some k, de_local = entry_of k l, de_remote = entry_of k r\<rparr>)
       (filter (\<lambda>k. \<not> py_equal (entry_of k l) (entry_of k r)) (compared_keys l r))"

definition plain_entry :: "change_kind \<Rightarrow> string \<Rightarrow> diff_entry" where
  "plain_entry c eid = \<lparr>de_element = eid, de_change = c, de_property = None, de_local = P_None, de_remote = P_None\<rparr>"

definition compare_elements :: "(rat \<Rightarrow> string) \<Rightarrow> object_dict list \<Rightarrow> object_dict list \<Rightarrow> diff_entry list" where
  "compare_elements fl ls rs =
     (let L = index_by (diff_element_id fl) ls; R = index_by (diff_element_id fl) rs in
      map (plain_entry Added) (filter (\<lambda>k. map_of R k = None) (map fst L)) @
      map (plain_entry Removed) (filter (\<lambda>k. map_of L k = None) (map fst R)) @
      concat (map (\<lambda>(k, l). case map_of R k of None \<Rightarrow> [] | Some r \<Rightarrow> modified_entries k l r) L))"

definition elements_differ :: "(rat \<Rightarrow> string) \<Rightarrow> object_dict list \<Rightarrow> object_dict list \<Rightarrow> bool" where
  "elements_differ fl ls rs = (0 < length (compare_elements fl ls rs))"

subsection \<open>Merging\<close>

datatype conflict_resolution = Local_Wins | Remote_Wins | Manual

record merge_result =
  mgr_merged :: nat
  mgr_conflict_count :: nat
  mgr_conflicts :: "diff_entry list"
  mgr_resolution :: conflict_resolution

datatype merge_error = Merge_Conflict "string option" "string list"

definition conflict_name :: "diff_entry \<Rightarrow> string" where
  "conflict_name c = de_element c @ ''.'' @ (case de_property c of None \<Rightarrow> ''None'' | Some p \<Rightarrow> p)"

definition merge_elements ::
  "(rat \<Rightarrow> string) \<Rightarrow> conflict_resolution \<Rightarrow> object_dict list \<Rightarrow> object_dict list \<Rightarrow> diff_entry list option \<Rightarrow>
   merge_error + merge_result" where
  "merge_elements fl res ls rs given =
     (let ds = (case given of None \<Rightarrow> compare_elements fl ls rs | Some ds \<Rightarrow> ds);
          cs = filter (\<lambda>d. de_change d = Modified) ds in
      if res = Manual \<and> cs \<noteq> []
      then Inl (Merge_Conflict (case remdups (map de_element cs) of [i] \<Rightarrow> Some i | _ \<Rightarrow> None) (map conflict_name cs))
      else Inr \<lparr>mgr_merged = length (filter (\<lambda>d. de_change d \<in> {Added, Removed}) ds) +
                  (if cs \<noteq> [] \<and> res \<noteq> Manual then length cs else 0),
                mgr_conflict_count = length cs, mgr_conflicts = cs, mgr_resolution = res\<rparr>)"

record resolved_value =
  rv_element :: string
  rv_property :: "string option"
  rv_value :: pvalue

definition resolve_conflicts ::
  "diff_entry list \<Rightarrow> conflict_resolution \<Rightarrow> merge_error + resolved_value list" where
  "resolve_conflicts cs s =
     (if s = Manual then Inl (Merge_Conflict None (map conflict_name cs))
      else Inr (map (\<lambda>c. \<lparr>rv_element = de_element c, rv_property = de_property c,
                        rv_value = (if s = Local_Wins then de_local c else de_remote c)\<rparr>) cs))"


subsection \<open>Synchronisation\<close>

datatype sync_direction = Push_Only | Pull_Only | Bidirectional

datatype sync_mode = Full_Sync | Incremental_Sync | Selective_Sync

record sync_result =
  sy_direction :: sync_direction
  sy_sent :: nat
  sy_received :: nat
  sy_errors :: "string list"
  sy_commit :: gql_value

definition mapped_objects :: "type_mapper \<Rightarrow> source_element list \<Rightarrow> object_dict list" where
  "mapped_objects m es = List.map_filter (\<lambda>e. case to_speckle m e of Inl _ \<Rightarrow> None | Inr obj \<Rightarrow> Some obj) es"

definition mapping_errors :: "type_mapper \<Rightarrow> source_element list \<Rightarrow> string list" where
  "mapping_errors m es =
     List.map_filter (\<lambda>e. case to_speckle m e of
        Inl msg \<Rightarrow> Some (''Failed to map '' @ se_type e @ '': '' @ msg) | Inr _ \<Rightarrow> None) es"

definition push_objects ::
  "'s speckle_server \<Rightarrow> type_mapper \<Rightarrow> source_element list \<Rightarrow> string \<Rightarrow> string \<Rightarrow> string \<Rightarrow> speckle_client \<times> 's \<Rightarrow>
   ('s, sync_result) client_result" where
  "push_objects S m es stream branch msg cs =
     (let objs = mapped_objects m es; errs = mapping_errors m es;
          result = (\<lambda>commit errs'. \<lparr>sy_direction = Push_Only, sy_sent = length objs, sy_received = 0,
                     sy_errors = errs', sy_commit = commit\<rparr>)
      in if objs = [] then (Inr (result (G_Scalar P_None) errs), cs)
         else (case send_objects S stream objs branch msg cs of
             (Inr commit, cs1) \<Rightarrow> (Inr (result (sk_id commit) errs), cs1)
           | (Inl (Speckle_Sync_Error t), cs1) \<Rightarrow> (Inr (result (G_Scalar P_None) (errs @ [t])), cs1)
           | (Inl e, cs1) \<Rightarrow> (Inl e, cs1)))"

text \<open>
  What \<open>from_speckle\<close> is given: a dictionary of scalar values; for anything else (\<open>None\<close>, a list, a
  text) it raises. A dictionary with nested values is outside the model.
\<close>

definition as_dict :: "gql_value \<Rightarrow> object_dict option" where
  "as_dict v =
     (case v of
        G_Data d \<Rightarrow> Some d
      | G_Object kvs \<Rightarrow>
          (case collect (\<lambda>(k, x). case x of G_Scalar p \<Rightarrow> Inr (k, p) | _ \<Rightarrow> Inl ()) kvs of Inl _ \<Rightarrow> None | Inr d \<Rightarrow> Some d)
      | _ \<Rightarrow> None)"

definition mapped_back :: "type_mapper \<Rightarrow> gql_value list \<Rightarrow> object_dict list" where
  "mapped_back m raws =
     List.map_filter (\<lambda>v. case as_dict v of
        None \<Rightarrow> None
      | Some obj \<Rightarrow> (case from_speckle m obj None of Inl _ \<Rightarrow> None | Inr e \<Rightarrow> Some e)) raws"

definition pull_objects ::
  "'s speckle_server \<Rightarrow> type_mapper \<Rightarrow> string \<Rightarrow> string \<Rightarrow> string option \<Rightarrow> speckle_client \<times> 's \<Rightarrow>
   ('s, object_dict list) client_result" where
  "pull_objects S m stream branch commit cs =
     (case receive_objects S stream commit branch cs of
        (Inl e, cs1) \<Rightarrow> (Inl e, cs1)
      | (Inr raws, cs1) \<Rightarrow> (Inr (mapped_back m raws), cs1))"

text \<open>
  The tracker is an optional argument of the synchronisation: what \<open>is_changed\<close> answers for an
  element, \<open>None\<close> when the call raises.
\<close>

datatype sync_error = In_Client client_error | In_Tracker

definition selected_elements ::
  "sync_mode \<Rightarrow> (source_element \<Rightarrow> bool option) option \<Rightarrow> source_element list \<Rightarrow> source_element list option" where
  "selected_elements mode tracker es =
     (case tracker of
        Some is_changed \<Rightarrow>
          if mode = Incremental_Sync
          then (if list_all (\<lambda>e. is_changed e \<noteq> None) es then Some (filter (\<lambda>e. is_changed e = Some True) es) else None)
          else Some es
      | None \<Rightarrow> Some es)"

definition sync_elements ::
  "'s speckle_server \<Rightarrow> type_mapper \<Rightarrow> (source_element \<Rightarrow> bool option) option \<Rightarrow> source_element list \<Rightarrow> string \<Rightarrow>
   sync_mode \<Rightarrow> sync_direction \<Rightarrow> speckle_client \<times> 's \<Rightarrow> (sync_error + sync_result) \<times> speckle_client \<times> 's" where
  "sync_elements S m tracker es stream mode dir cs =
     (case selected_elements mode tracker es of
        None \<Rightarrow> (Inl In_Tracker, cs)
      | Some chosen \<Rightarrow>
          (let (pushed, cs1) =
             (if dir \<in> {Push_Only, Bidirectional} then push_objects S m chosen stream ''main'' '''' cs
              else (Inr \<lparr>sy_direction = Push_Only, sy_sent = 0, sy_received = 0, sy_errors = [],
                         sy_commit = G_Scalar P_None\<rparr>, cs))
           in case pushed of
             Inl err \<Rightarrow> (Inl (In_Client err), cs1)
           | Inr p \<Rightarrow>
               (if dir \<in> {Pull_Only, Bidirectional}
                then (case pull_objects S m stream ''main'' None cs1 of
                    (Inl err, cs2) \<Rightarrow> (Inl (In_Client err), cs2)
                  | (Inr objs, cs2) \<Rightarrow> (Inr (p\<lparr>sy_direction := dir, sy_received := length objs\<rparr>), cs2))
                else (Inr (p\<lparr>sy_direction := dir\<rparr>), cs1))))"

subsection \<open>Subscriptions\<close>

record 'c subscriptions =
  su_active :: "(string, string \<times> string) dict"
  su_callbacks :: "(string, 'c) dict"

definition new_subscriptions :: "'c subscriptions" where
  "new_subscriptions = \<lparr>su_active = [], su_callbacks = []\<rparr>"

definition sub_key :: "string \<Rightarrow> string \<Rightarrow> string" where
  "sub_key stream branch = stream @ ''/'' @ branch"

definition subscribe :: "string \<Rightarrow> string \<Rightarrow> 'c option \<Rightarrow> 'c subscriptions \<Rightarrow> 'c subscriptions" where
  "subscribe stream branch cb u =
     (let k = sub_key stream branch in
      if map_of (su_active u) k \<noteq> None then u
      else u\<lparr>su_active := AList.update k (stream, branch) (su_active u),
             su_callbacks := (case cb of None \<Rightarrow> su_callbacks u | Some f \<Rightarrow> AList.update k f (su_callbacks u))\<rparr>)"

definition key_prefix :: "string \<Rightarrow> string \<Rightarrow> bool" where
  "key_prefix p k = (take (length p) k = p)"

definition unsubscribe :: "string \<Rightarrow> 'c subscriptions \<Rightarrow> 'c subscriptions" where
  "unsubscribe stream u =
     (let ks = filter (key_prefix (stream @ ''/'')) (map fst (su_active u)) in
      u\<lparr>su_active := fold AList.delete ks (su_active u), su_callbacks := fold AList.delete ks (su_callbacks u)\<rparr>)"

definition active_subscriptions :: "'c subscriptions \<Rightarrow> string list" where
  "active_subscriptions u = map fst (su_active u)"

definition close_subscriptions :: "'c subscriptions \<Rightarrow> 'c subscriptions" where
  "close_subscriptions u =
     (let ks = map fst (su_active u) in
      u\<lparr>su_active := fold AList.delete ks (su_active u), su_callbacks := fold AList.delete ks (su_callbacks u)\<rparr>)"


subsection \<open>Mapping there and back\<close>

interpretation speckle_types: type_registry "\<lambda>m t. map_option tm_speckle_type (map_of (ty_registry m) t)"
  "\<lambda>m. map_of (ty_reverse m)" register_mapping "\<lambda>_. True"
  by unfold_locales (simp_all add: register_mapping_def fun_eq_iff)

lemma default_types_mutual:
  "mutual (\<lambda>m t. map_option tm_speckle_type (map_of (ty_registry m) t)) (\<lambda>m. map_of (ty_reverse m)) new_type_mapper"
proof -
  have "new_type_mapper = speckle_types.register_all (map (\<lambda>(t, s). ([], t, s)) default_speckle_types)
      \<lparr>ty_registry = [], ty_reverse = []\<rparr>"
    by (simp add: new_type_mapper_def speckle_types.register_all_def fold_map comp_def case_prod_unfold)
  moreover have "mutual (\<lambda>m t. map_option tm_speckle_type (map_of (ty_registry m) t)) (\<lambda>m. map_of (ty_reverse m))
      \<lparr>ty_registry = [], ty_reverse = []\<rparr>"
    by (simp add: mutual_def)
  ultimately show ?thesis
    using speckle_types.mutual_register_all [of "\<lparr>ty_registry = [], ty_reverse = []\<rparr>"
        "map (\<lambda>(t, s). ([], t, s)) default_speckle_types"]
    by (simp add: default_speckle_types_def)
qed

lemma map_of_put_some: "map_of (put_some k v d) = (if v = P_None then map_of d else (map_of d)(k \<mapsto> v))"
  by (simp add: put_some_def)

lemma fold_put_some:
  assumes "distinct (map fst ps)"
  shows "map_of (fold (\<lambda>(k, v). put_some k v) ps d) k =
    (case map_of ps k of None \<Rightarrow> map_of d k | Some v \<Rightarrow> if v = P_None then map_of d k else Some v)"
  using assms
proof (induction ps arbitrary: d)
  case (Cons p ps)
  obtain a v where p: "p = (a, v)" by (metis prod.exhaust)
  with Cons.prems have "map_of ps a = None" by (auto simp: map_of_None_keys)
  with Cons p show ?case by (auto simp: map_of_put_some split: option.splits)
qed simp

lemma fold_put_pairs:
  "fold (\<lambda>(rp, sp). put_some sp (f rp)) pm d = fold (\<lambda>(k, v). put_some k v) (map (\<lambda>(rp, sp). (sp, f rp)) pm) d"
  by (induction pm arbitrary: d) auto

lemma fold_put_attrs:
  "fold (\<lambda>a. put_some a (f a)) as d = fold (\<lambda>(k, v). put_some k v) (map (\<lambda>a. (a, f a)) as) d"
  by (induction as arbitrary: d) auto

lemma reverse_map_eq:
  assumes "distinct (map snd pm)"
  shows "reverse_map pm = map (\<lambda>(k, v). (v, k)) pm"
proof -
  have "fold (\<lambda>(k, v). AList.update v k) pm d = d @ map (\<lambda>(k, v). (v, k)) pm"
    if "distinct (map snd pm)" "fst ` set d \<inter> snd ` set pm = {}" for d
    using that by (induction pm arbitrary: d) (auto simp: update_new)
  with assms show ?thesis by (simp add: reverse_map_def)
qed

lemma fold_copy:
  assumes "dict_ok obj"
  shows "map_of (fold (\<lambda>(k, v) r. if k \<in> S then r else AList.update k v r) obj res) a =
    (if a \<in> S then map_of res a else case map_of obj a of None \<Rightarrow> map_of res a | Some v \<Rightarrow> Some v)"
  using assms
proof (induction obj arbitrary: res)
  case (Cons p obj)
  obtain b v where p: "p = (b, v)" by (metis prod.exhaust)
  with Cons.prems have "map_of obj b = None" by (auto simp: map_of_None_keys)
  with Cons p show ?case by (auto split: option.splits)
qed simp

lemma dict_ok_put_pairs: "dict_ok d \<Longrightarrow> dict_ok (fold (\<lambda>(k, v). put_some k v) ps d)"
proof (induction ps arbitrary: d)
  case (Cons p ps)
  then show ?case by (cases p) (simp add: put_some_def)
qed simp

text \<open>The attributes that the mapping of a type carries over.\<close>

definition carried :: "type_mapping \<Rightarrow> string \<Rightarrow> bool" where
  "carried tm a =
     (if tm_property_map tm = [] then is_public a \<and> a \<notin> {''id'', ''name''} else a \<in> set (map fst (tm_property_map tm)))"

definition property_map_ok :: "(string, string) dict \<Rightarrow> bool" where
  "property_map_ok pm \<longleftrightarrow> dict_ok pm \<and> distinct (map snd pm) \<and>
     set (map fst pm) \<inter> {''id'', ''name''} = {} \<and> set (map snd pm) \<inter> {''speckle_type'', ''id'', ''name''} = {}"

lemma to_speckle_lookup:
  assumes "map_of (ty_registry m) (se_type e) = Some tm" and "dict_ok (se_attrs e)" and "property_map_ok (tm_property_map tm)"
    and "tm_property_map tm = [] \<longrightarrow> attr_of ''speckle_type'' e = P_None"
  obtains obj where "to_speckle m e = Inr obj" and "dict_ok obj"
    and "map_of obj ''speckle_type'' = Some (P_Str (tm_speckle_type tm))"
    and "entry_of ''id'' obj = attr_of ''id'' e" and "entry_of ''name'' obj = attr_of ''name'' e"
    and "\<forall>rp sp. (rp, sp) \<in> set (tm_property_map tm) \<and> attr_of rp e \<noteq> P_None \<longrightarrow> entry_of sp obj = attr_of rp e"
    and "\<forall>a. tm_property_map tm = [] \<and> carried tm a \<and> attr_of a e \<noteq> P_None \<longrightarrow> map_of obj a = Some (attr_of a e)"
proof -
  let ?pm = "tm_property_map tm"
  let ?base = "[(''speckle_type'', P_Str (tm_speckle_type tm)), (''revitpy_type'', P_Str (se_type e)),
                (''id'', attr_of ''id'' e), (''name'', attr_of ''name'' e)]"
  show ?thesis
  proof (cases "?pm = []")
    case True
    let ?ps = "map (\<lambda>a. (a, attr_of a e)) (copied_attrs e)"
    let ?obj = "fold (\<lambda>(k, v). put_some k v) ?ps ?base"
    have ps: "map_of ?ps a = (if a \<in> set (copied_attrs e) then Some (attr_of a e) else None)" for a
      by (auto simp: map_of_map_restrict restrict_map_def)
    have d: "distinct (map fst ?ps)"
      using assms(2) by (simp add: copied_attrs_def comp_def)
    have ni: "''id'' \<notin> set (copied_attrs e)" "''name'' \<notin> set (copied_attrs e)"
      by (simp_all add: copied_attrs_def)
    have attrs: "a \<in> set (copied_attrs e)" if "carried tm a" "attr_of a e \<noteq> P_None" for a
      using that True by (force simp: carried_def copied_attrs_def attr_of_def dest: map_of_Some_keys split: option.splits)
    show ?thesis
    proof (rule that [of ?obj])
      show "to_speckle m e = Inr ?obj"
        using assms(1) True by (simp add: to_speckle_def Let_def fold_put_attrs)
      show "map_of ?obj ''speckle_type'' = Some (P_Str (tm_speckle_type tm))"
        using assms(4) True by (simp add: fold_put_some [OF d] ps)
      show "entry_of ''id'' ?obj = attr_of ''id'' e" "entry_of ''name'' ?obj = attr_of ''name'' e"
        using ni by (simp_all add: entry_of_def fold_put_some [OF d] ps)
      show "\<forall>a. ?pm = [] \<and> carried tm a \<and> attr_of a e \<noteq> P_None \<longrightarrow> map_of ?obj a = Some (attr_of a e)"
        using attrs by (simp add: fold_put_some [OF d] ps)
    qed (use True in \<open>auto intro: dict_ok_put_pairs\<close>)
  next
    case False
    let ?ps = "map (\<lambda>(rp, sp). (sp, attr_of rp e)) ?pm"
    let ?obj = "fold (\<lambda>(k, v). put_some k v) ?ps ?base"
    have keys: "map fst ?ps = map snd ?pm" by (simp add: comp_def case_prod_unfold)
    have d: "distinct (map fst ?ps)" unfolding keys using assms(3) by (simp add: property_map_ok_def)
    have none: "map_of ?ps k = None" if "k \<in> {''speckle_type'', ''id'', ''name''}" for k
    proof -
      have "k \<notin> set (map fst ?ps)" unfolding keys using that assms(3) unfolding property_map_ok_def by blast
      then show ?thesis by (simp only: map_of_None_keys list.set_map not_False_eq_True)
    qed
    show ?thesis
    proof (rule that [of ?obj])
      show "to_speckle m e = Inr ?obj"
        using assms(1) False by (simp add: to_speckle_def Let_def fold_put_pairs)
      show "map_of ?obj ''speckle_type'' = Some (P_Str (tm_speckle_type tm))"
        by (simp add: fold_put_some [OF d] none)
      show "entry_of ''id'' ?obj = attr_of ''id'' e" "entry_of ''name'' ?obj = attr_of ''name'' e"
        by (simp_all add: entry_of_def fold_put_some [OF d] none)
      have "entry_of sp ?obj = attr_of rp e" if "(rp, sp) \<in> set ?pm" "attr_of rp e \<noteq> P_None" for rp sp
      proof -
        have "(sp, attr_of rp e) \<in> set ?ps" using that(1) by force
        then have "map_of ?ps sp = Some (attr_of rp e)" using d by simp
        with that(2) show ?thesis by (simp add: entry_of_def fold_put_some [OF d])
      qed
      then show "\<forall>rp sp. (rp, sp) \<in> set ?pm \<and> attr_of rp e \<noteq> P_None \<longrightarrow> entry_of sp ?obj = attr_of rp e"
        by blast
    qed (use False in \<open>auto intro: dict_ok_put_pairs\<close>)
  qed
qed


lemma speckle_roundtrip_lemma:
  assumes "map_of (ty_registry m) (se_type e) = Some tm" and "map_of (ty_reverse m) (tm_speckle_type tm) = Some (se_type e)"
    and "dict_ok (se_attrs e)" and "property_map_ok (tm_property_map tm)"
    and "tm_property_map tm = [] \<longrightarrow> attr_of ''speckle_type'' e = P_None"
  obtains obj r where "to_speckle m e = Inr obj" and "from_speckle m obj None = Inr r"
    and "\<forall>a. carried tm a \<and> attr_of a e \<noteq> P_None \<longrightarrow> entry_of a r = attr_of a e"
    and "entry_of ''id'' r = attr_of ''id'' e" and "entry_of ''name'' r = attr_of ''name'' e"
proof -
  let ?pm = "tm_property_map tm"
  obtain obj where obj: "to_speckle m e = Inr obj" "dict_ok obj" "map_of obj ''speckle_type'' = Some (P_Str (tm_speckle_type tm))"
      "entry_of ''id'' obj = attr_of ''id'' e" "entry_of ''name'' obj = attr_of ''name'' e"
      "\<forall>rp sp. (rp, sp) \<in> set ?pm \<and> attr_of rp e \<noteq> P_None \<longrightarrow> entry_of sp obj = attr_of rp e"
      "\<forall>a. ?pm = [] \<and> carried tm a \<and> attr_of a e \<noteq> P_None \<longrightarrow> map_of obj a = Some (attr_of a e)"
    by (rule to_speckle_lookup [OF assms(1,3,4,5)])
  let ?res = "[(''type'', P_Str (se_type e)), (''speckle_type'', P_Str (tm_speckle_type tm)),
               (''id'', entry_of ''id'' obj), (''name'', entry_of ''name'' obj)]"
  show ?thesis
  proof (cases "?pm = []")
    case True
    let ?r = "fold (\<lambda>(k, v) r. if k \<in> {''speckle_type'', ''id'', ''name''} then r else AList.update k v r) obj ?res"
    show ?thesis
    proof (rule that [OF obj(1), of ?r])
      show "from_speckle m obj None = Inr ?r"
        using assms(1,2) True obj(3) by (simp add: from_speckle_def)
      have "entry_of a ?r = attr_of a e" if "carried tm a" "attr_of a e \<noteq> P_None" for a
      proof -
        have "a \<notin> {''speckle_type'', ''id'', ''name''}"
          using that True assms(5) by (auto simp: carried_def)
        moreover have "map_of obj a = Some (attr_of a e)" using obj(7) True that by blast
        ultimately show ?thesis
          by (simp only: entry_of_def fold_copy [OF obj(2)] if_False option.simps)
      qed
      then show "\<forall>a. carried tm a \<and> attr_of a e \<noteq> P_None \<longrightarrow> entry_of a ?r = attr_of a e" by blast
      show "entry_of ''id'' ?r = attr_of ''id'' e" "entry_of ''name'' ?r = attr_of ''name'' e"
        unfolding entry_of_def [of _ ?r] fold_copy [OF obj(2)] using obj(4,5) by simp_all
    qed
  next
    case False
    let ?ps = "map (\<lambda>(rp, sp). (rp, entry_of sp obj)) ?pm"
    let ?r = "fold (\<lambda>(k, v). put_some k v) ?ps ?res"
    have keys: "map fst ?ps = map fst ?pm" by (simp add: comp_def case_prod_unfold)
    have d: "distinct (map fst ?ps)" unfolding keys using assms(4) by (simp add: property_map_ok_def)
    have step: "map_of ?ps a = Some (attr_of a e)" if a: "a \<in> set (map fst ?pm)" "attr_of a e \<noteq> P_None" for a
    proof -
      obtain sp where sp: "(a, sp) \<in> set ?pm" using a(1) by auto
      then have "(a, entry_of sp obj) \<in> set ?ps" by force
      moreover have "entry_of sp obj = attr_of a e" using obj(6) sp a(2) by blast
      ultimately show ?thesis using d by simp
    qed
    have none: "entry_of a ?r = attr_of a e" if "a \<in> {''id'', ''name''}" for a
    proof -
      have "a \<notin> set (map fst ?ps)" unfolding keys using that assms(4) unfolding property_map_ok_def by blast
      then have "map_of ?ps a = None" by (simp only: map_of_None_keys list.set_map not_False_eq_True)
      then have "map_of ?r a = map_of ?res a" by (simp only: fold_put_some [OF d] option.simps)
      then show ?thesis using that obj(4,5) by (auto simp: entry_of_def simp del: fold_simps)
    qed
    show ?thesis
    proof (rule that [OF obj(1), of ?r])
      show "from_speckle m obj None = Inr ?r"
        using assms(1,2,4) False obj(3)
        by (simp add: from_speckle_def property_map_ok_def reverse_map_eq fold_map comp_def case_prod_unfold)
      show "\<forall>a. carried tm a \<and> attr_of a e \<noteq> P_None \<longrightarrow> entry_of a ?r = attr_of a e"
        using step False by (simp add: carried_def entry_of_def [of _ ?r] fold_put_some [OF d])
    qed (use none in simp_all)
  qed
qed


text \<open>
  Mapping an element to Speckle and back: if the type's mapping is two-way, \<open>from_speckle\<close> accepts
  what \<open>to_speckle\<close> gives and restores the identifier, the name and every carried attribute that has a
  value: the mapped ones, or all public ones when there is no property map.
\<close>
theorem speckle_roundtrip:
  assumes "get_mapping (se_type e) m = Some tm" and "map_of (ty_reverse m) (tm_speckle_type tm) = Some (se_type e)"
    and "dict_ok (se_attrs e)" and "property_map_ok (tm_property_map tm)"
    and "tm_property_map tm = [] \<longrightarrow> attr_of ''speckle_type'' e = P_None"
  shows "\<exists>obj r. to_speckle m e = Inr obj \<and> from_speckle m obj None = Inr r \<and>
    entry_of ''id'' r = attr_of ''id'' e \<and> entry_of ''name'' r = attr_of ''name'' e \<and>
    (\<forall>a. carried tm a \<and> attr_of a e \<noteq> P_None \<longrightarrow> entry_of a r = attr_of a e)"
  using speckle_roundtrip_lemma [OF assms(1) [unfolded get_mapping_def] assms(2-5)] by metis

text \<open>
  Registering mappings: starting from the default mapper, registrations of pairwise different new types
  for pairwise different new Speckle types keep the two registries inverse to each other. Registering a
  default type again for another Speckle type does not: objects of the old one are still taken for it.
\<close>
theorem registrations_stay_mutual:
  assumes "distinct (map (\<lambda>(pm, t, s). t) rs)" and "distinct (map (\<lambda>(pm, t, s). s) rs)"
    and "\<forall>(pm, t, s) \<in> set rs. map_of default_speckle_types t = None \<and> s \<notin> set (map snd default_speckle_types)"
  defines "m \<equiv> fold (\<lambda>(pm, t, s). register_mapping pm t s) rs new_type_mapper"
  shows "(\<forall>t s. map_option tm_speckle_type (get_mapping t m) = Some s \<longleftrightarrow> map_of (ty_reverse m) s = Some t) \<and>
    (\<forall>pm s'. s' \<noteq> ''Objects.BuiltElements.Wall:Wall'' \<longrightarrow>
       map_of (ty_reverse (register_mapping pm ''WallElement'' s' new_type_mapper)) ''Objects.BuiltElements.Wall:Wall'' =
         Some ''WallElement'')"
proof -
  have types: "map_option tm_speckle_type (map_of (ty_registry new_type_mapper) t) = map_of default_speckle_types t" for t
    by (simp add: new_type_mapper_def default_speckle_types_def register_mapping_def)
  have reverse: "map_of (ty_reverse new_type_mapper) s = None" if "s \<notin> set (map snd default_speckle_types)" for s
    using that by (simp add: new_type_mapper_def default_speckle_types_def register_mapping_def)
  have wall: "map_of (ty_reverse new_type_mapper) ''Objects.BuiltElements.Wall:Wall'' = Some ''WallElement''"
    by (simp add: new_type_mapper_def default_speckle_types_def register_mapping_def)
  have "mutual (\<lambda>m t. map_option tm_speckle_type (map_of (ty_registry m) t)) (\<lambda>m. map_of (ty_reverse m))
      (speckle_types.register_all rs new_type_mapper)"
  proof (rule speckle_types.mutual_register_all [THEN conjunct1, OF default_types_mutual])
    show "distinct (map (fst \<circ> snd) rs)" "distinct (map (snd \<circ> snd) rs)"
      using assms(1,2) by (simp_all add: comp_def case_prod_unfold)
    show "\<forall>(pm, t, s) \<in> set rs. map_option tm_speckle_type (map_of (ty_registry new_type_mapper) t) = None \<and>
        map_of (ty_reverse new_type_mapper) s = None"
      using assms(3) reverse unfolding types by blast
  qed (simp add: list_all_iff case_prod_unfold)
  then show ?thesis
    using speckle_types.stale_reverse(2) [OF _ wall]
    by (simp add: mutual_def get_mapping_def m_def speckle_types.register_all_def)
qed

subsection \<open>What the comparison finds\<close>

abbreviation local_index :: "(rat \<Rightarrow> string) \<Rightarrow> object_dict list \<Rightarrow> string \<Rightarrow> object_dict option" where
  "local_index fl es \<equiv> map_of (index_by (diff_element_id fl) es)"

definition property_entry :: "string \<Rightarrow> string \<Rightarrow> object_dict \<Rightarrow> object_dict \<Rightarrow> diff_entry" where
  "property_entry k p l r = \<lparr>de_element = k, de_change = Modified, de_property = Some p, de_local = entry_of p l, de_remote = entry_of p r\<rparr>"

lemma set_compared_keys:
  "p \<in> set (compared_keys l r) \<longleftrightarrow> p \<notin> set ignored_keys \<and> (p \<in> fst ` set l \<or> p \<in> fst ` set r)"
  by (auto simp: compared_keys_def)

lemma set_modified_entries:
  "d \<in> set (modified_entries k l r) \<longleftrightarrow>
   (\<exists>p. d = property_entry k p l r \<and> p \<notin> set ignored_keys \<and> \<not> py_equal (entry_of p l) (entry_of p r))"
proof -
  have "p \<in> fst ` set l \<or> p \<in> fst ` set r" if "\<not> py_equal (entry_of p l) (entry_of p r)" for p
  proof (rule ccontr)
    assume "\<not> ?thesis"
    then have "map_of l p = None" "map_of r p = None" by (simp_all add: map_of_None_keys)
    with that show False by (simp add: entry_of_def)
  qed
  then show ?thesis
    unfolding modified_entries_def property_entry_def by (auto simp: set_compared_keys)
qed

lemma set_compare:
  "d \<in> set (compare_elements fl ls rs) \<longleftrightarrow>
   (\<exists>k. d = plain_entry Added k \<and> local_index fl ls k \<noteq> None \<and> local_index fl rs k = None) \<or>
   (\<exists>k. d = plain_entry Removed k \<and> local_index fl ls k = None \<and> local_index fl rs k \<noteq> None) \<or>
   (\<exists>k l r p. d = property_entry k p l r \<and> local_index fl ls k = Some l \<and> local_index fl rs k = Some r \<and>
      p \<notin> set ignored_keys \<and> \<not> py_equal (entry_of p l) (entry_of p r))"
proof -
  let ?L = "index_by (diff_element_id fl) ls" and ?R = "index_by (diff_element_id fl) rs"
  have keys: "k \<in> set (map fst D) \<longleftrightarrow> map_of D k \<noteq> None" for k and D :: "(string, object_dict) dict"
    by (auto simp: map_of_None_keys)
  have missing: "d \<in> set (map (plain_entry c) (filter (\<lambda>k. map_of E k = None) (map fst D))) \<longleftrightarrow>
      (\<exists>k. d = plain_entry c k \<and> map_of D k \<noteq> None \<and> map_of E k = None)" for c and D E :: "(string, object_dict) dict"
    unfolding set_map set_filter keys [symmetric] by blast
  have common: "d \<in> set (concat (map (\<lambda>(k, l). case map_of ?R k of None \<Rightarrow> [] | Some r \<Rightarrow> modified_entries k l r) ?L)) \<longleftrightarrow>
      (\<exists>k l r. (k, l) \<in> set ?L \<and> map_of ?R k = Some r \<and> d \<in> set (modified_entries k l r))"
    by (fastforce split: option.splits)
  have pairs: "(k, l) \<in> set ?L \<longleftrightarrow> map_of ?L k = Some l" for k l
    by simp
  show ?thesis
    unfolding compare_elements_def Let_def set_append Un_iff missing common pairs set_modified_entries by blast
qed


text \<open>Two models agree: the same identifiers, and equal values outside the ignored keys.\<close>

definition models_agree :: "(rat \<Rightarrow> string) \<Rightarrow> object_dict list \<Rightarrow> object_dict list \<Rightarrow> bool" where
  "models_agree fl ls rs \<longleftrightarrow>
     (\<forall>k. (local_index fl ls k = None) = (local_index fl rs k = None) \<and>
          (\<forall>l r p. local_index fl ls k = Some l \<and> local_index fl rs k = Some r \<and> p \<notin> set ignored_keys \<longrightarrow>
             py_equal (entry_of p l) (entry_of p r)))"

lemma models_agreeD:
  assumes "models_agree fl ls rs"
  shows "(local_index fl ls k = None) = (local_index fl rs k = None)"
    "local_index fl ls k = Some l \<Longrightarrow> local_index fl rs k = Some r \<Longrightarrow> p \<notin> set ignored_keys \<Longrightarrow>
      py_equal (entry_of p l) (entry_of p r)"
  using assms unfolding models_agree_def by blast+

definition flip_entry :: "diff_entry \<Rightarrow> diff_entry" where
  "flip_entry d = d\<lparr>de_change := (case de_change d of Added \<Rightarrow> Removed | Removed \<Rightarrow> Added | Modified \<Rightarrow> Modified),
                    de_local := de_remote d, de_remote := de_local d\<rparr>"

lemma flip_entries:
  "flip_entry (plain_entry Added k) = plain_entry Removed k" "flip_entry (plain_entry Removed k) = plain_entry Added k"
  "flip_entry (property_entry k p l r) = property_entry k p r l"
  by (simp_all add: flip_entry_def plain_entry_def property_entry_def)

lemma compare_cases:
  assumes "d \<in> set (compare_elements fl ls rs)"
  obtains (added) k where "d = plain_entry Added k" "local_index fl ls k \<noteq> None" "local_index fl rs k = None"
    | (removed) k where "d = plain_entry Removed k" "local_index fl ls k = None" "local_index fl rs k \<noteq> None"
    | (modified) k l r p where "d = property_entry k p l r" "local_index fl ls k = Some l" "local_index fl rs k = Some r"
        "p \<notin> set ignored_keys" "\<not> py_equal (entry_of p l) (entry_of p r)"
  using assms unfolding set_compare by blast

lemma flip_compare:
  assumes "d \<in> set (compare_elements fl ls rs)"
  shows "flip_entry d \<in> set (compare_elements fl rs ls)"
  using assms
proof (cases rule: compare_cases)
  case (modified k l r p)
  then have "\<not> py_equal (entry_of p r) (entry_of p l)" using py_equal_sym by blast
  with modified(2-4) show ?thesis unfolding modified(1) flip_entries set_compare by blast
next
  case (added k)
  then show ?thesis unfolding added(1) flip_entries set_compare by blast
next
  case (removed k)
  then show ?thesis unfolding removed(1) flip_entries set_compare by blast
qed

text \<open>
  C16: The comparison is exact and symmetric: it finds no difference exactly when the two models have the
  same identifiers and equal values in every property that is not ignored; an element with a repeated
  identifier counts with its last occurrence; exchanging the two models exchanges additions with
  removals and local with remote values.
\<close>
theorem comparison_is_exact:
  "(elements_differ fl ls rs \<longleftrightarrow> \<not> models_agree fl ls rs) \<and>
   flip_entry ` set (compare_elements fl ls rs) = set (compare_elements fl rs ls)"
proof
  show "elements_differ fl ls rs \<longleftrightarrow> \<not> models_agree fl ls rs"
  proof (cases "compare_elements fl ls rs")
    case Nil
    then have none: "d \<notin> set (compare_elements fl ls rs)" for d by simp
    have "models_agree fl ls rs"
      unfolding models_agree_def
    proof (intro allI conjI impI)
      show "(local_index fl ls k = None) = (local_index fl rs k = None)" for k
        using none [of "plain_entry Added k"] none [of "plain_entry Removed k"] unfolding set_compare by blast
      show "py_equal (entry_of p l) (entry_of p r)"
        if "local_index fl ls k = Some l \<and> local_index fl rs k = Some r \<and> p \<notin> set ignored_keys" for k l r p
        using that none [of "property_entry k p l r"] unfolding set_compare by blast
    qed
    with Nil show ?thesis by (simp add: elements_differ_def)
  next
    case (Cons d ds)
    then have "d \<in> set (compare_elements fl ls rs)" by simp
    then have "\<not> models_agree fl ls rs"
    proof (cases rule: compare_cases)
      case (added k)
      then show ?thesis using models_agreeD(1) [of fl ls rs k] by metis
    next
      case (removed k)
      then show ?thesis using models_agreeD(1) [of fl ls rs k] by metis
    next
      case (modified k l r p)
      then show ?thesis using models_agreeD(2) [OF _ modified(2-4)] by metis
    qed
    with Cons show ?thesis by (simp add: elements_differ_def)
  qed
  have "flip_entry (flip_entry d) = d" for d
    by (cases "de_change d") (simp_all add: flip_entry_def)
  then show "flip_entry ` set (compare_elements fl ls rs) = set (compare_elements fl rs ls)"
    using flip_compare by (metis (no_types, lifting) image_eqI image_subsetI subsetI subset_antisym)
qed

subsection \<open>Merging\<close>

text \<open>Writing the resolved values into an indexed model, as the caller of \<open>resolve_conflicts\<close> does.\<close>

definition apply_resolved :: "resolved_value \<Rightarrow> (string, object_dict) dict \<Rightarrow> (string, object_dict) dict" where
  "apply_resolved v d =
     (case (rv_property v, map_of d (rv_element v)) of
        (Some p, Some e) \<Rightarrow> AList.update (rv_element v) (AList.update p (rv_value v) e) d
      | _ \<Rightarrow> d)"

lemma apply_resolved_lookup:
  assumes "\<forall>v \<in> set vs. \<exists>p. rv_property v = Some p \<and> rv_value v = f (rv_element v) p"
    and "map_of (fold apply_resolved vs d) k = Some l'"
  shows "\<exists>l. map_of d k = Some l \<and>
    (\<forall>p. entry_of p l' = (if \<exists>v \<in> set vs. rv_element v = k \<and> rv_property v = Some p then f k p else entry_of p l))"
  using assms
proof (induction vs arbitrary: d)
  case (Cons v vs)
  obtain p where p: "rv_property v = Some p" "rv_value v = f (rv_element v) p" using Cons.prems(1) by auto
  let ?d = "apply_resolved v d"
  have "\<forall>v \<in> set vs. \<exists>p. rv_property v = Some p \<and> rv_value v = f (rv_element v) p"
    "map_of (fold apply_resolved vs ?d) k = Some l'"
    using Cons.prems by simp_all
  from Cons.IH [OF this] obtain l1 where l1: "map_of ?d k = Some l1"
      "\<forall>q. entry_of q l' = (if \<exists>v \<in> set vs. rv_element v = k \<and> rv_property v = Some q then f k q else entry_of q l1)"
    by blast
  show ?case
  proof (cases "rv_element v = k \<and> map_of d k \<noteq> None")
    case True
    then obtain l where l: "map_of d k = Some l" by auto
    with True p l1(1) have "l1 = AList.update p (f k p) l" by (simp add: apply_resolved_def)
    then have "entry_of q l1 = (if q = p then f k p else entry_of q l)" for q by (simp add: entry_of_def)
    with l l1(2) True p show ?thesis by auto
  next
    case False
    with l1(1) p have "map_of d k = Some l1" "rv_element v \<noteq> k"
      by (auto simp: apply_resolved_def split: option.splits if_splits)
    with l1(2) show ?thesis by auto
  qed
qed auto

lemma conflicts_are_modified:
  assumes "merge_elements fl res ls rs None = Inr mr"
  shows "mgr_conflicts mr = filter (\<lambda>d. de_change d = Modified) (compare_elements fl ls rs)"
  using assms by (auto simp: merge_elements_def Let_def split: if_splits)

lemma kinds [simp]: "de_change (plain_entry c k) = c" "de_change (property_entry k p l r) = Modified"
  by (simp_all add: plain_entry_def property_entry_def)

lemma set_conflicts:
  "d \<in> set (filter (\<lambda>d. de_change d = Modified) (compare_elements fl ls rs)) \<longleftrightarrow>
   (\<exists>k l r p. d = property_entry k p l r \<and> local_index fl ls k = Some l \<and> local_index fl rs k = Some r \<and>
      p \<notin> set ignored_keys \<and> \<not> py_equal (entry_of p l) (entry_of p r))"
proof
  assume "d \<in> set (filter (\<lambda>d. de_change d = Modified) (compare_elements fl ls rs))"
  then have "d \<in> set (compare_elements fl ls rs)" and m: "de_change d = Modified" by simp_all
  then show "\<exists>k l r p. d = property_entry k p l r \<and> local_index fl ls k = Some l \<and> local_index fl rs k = Some r \<and>
      p \<notin> set ignored_keys \<and> \<not> py_equal (entry_of p l) (entry_of p r)"
  proof (cases rule: compare_cases)
    case (modified k l r p)
    then show ?thesis by blast
  qed (use m in simp_all)
next
  assume d: "\<exists>k l r p. d = property_entry k p l r \<and> local_index fl ls k = Some l \<and> local_index fl rs k = Some r \<and>
      p \<notin> set ignored_keys \<and> \<not> py_equal (entry_of p l) (entry_of p r)"
  then have "d \<in> set (compare_elements fl ls rs)" unfolding set_compare by blast
  with d show "d \<in> set (filter (\<lambda>d. de_change d = Modified) (compare_elements fl ls rs))" by auto
qed

text \<open>
  C15: A merge settles every conflict for one side: when the conflicts that \<open>merge\<close> reports are resolved
  with a strategy and the results are written into the local elements, every element that both
  models have has, for every key outside the ignored ones, the remote value with \<open>REMOTE_WINS\<close> and its own
  with \<open>LOCAL_WINS\<close>, up to Python's equality. Elements that only one model has are no conflicts, and
  the merge leaves them. A \<open>merge\<close> with \<open>MANUAL\<close> returns only when there is no conflict.
\<close>
theorem merge_settles_conflicts:
  assumes "merge_elements fl res ls rs None = Inr mr" and "resolve_conflicts (mgr_conflicts mr) s = Inr vs"
    and "map_of (fold apply_resolved vs (index_by (diff_element_id fl) ls)) k = Some l'"
    and "local_index fl ls k = Some l" and "local_index fl rs k = Some r" and "p \<notin> set ignored_keys"
  shows "py_equal (entry_of p l') (entry_of p (if s = Remote_Wins then r else l)) \<and>
    (res = Manual \<longrightarrow> mgr_conflicts mr = [] \<and> vs = [])"
proof -
  let ?cs = "filter (\<lambda>d. de_change d = Modified) (compare_elements fl ls rs)"
  have cs: "mgr_conflicts mr = ?cs" using assms(1) by (rule conflicts_are_modified)
  have s: "s \<noteq> Manual" using assms(2) by (auto simp: resolve_conflicts_def)
  let ?f = "\<lambda>k p. entry_of p (the (if s = Remote_Wins then local_index fl rs k else local_index fl ls k))"
  have vs: "vs = map (\<lambda>c. \<lparr>rv_element = de_element c, rv_property = de_property c,
                   rv_value = (if s = Local_Wins then de_local c else de_remote c)\<rparr>) ?cs"
    using assms(2) s by (auto simp: resolve_conflicts_def cs)
  have v: "(\<exists>v \<in> set vs. rv_element v = k \<and> rv_property v = Some p) \<longleftrightarrow>
      (\<exists>c \<in> set ?cs. de_element c = k \<and> de_property c = Some p)" for k p
    unfolding vs by force
  have "\<forall>v \<in> set vs. \<exists>p. rv_property v = Some p \<and> rv_value v = ?f (rv_element v) p"
    using s unfolding vs set_map ball_simps set_conflicts
    by (cases s) (auto simp: property_entry_def set_conflicts simp del: set_filter)
  from apply_resolved_lookup [OF this assms(3)] assms(4)
  have l': "entry_of p l' = (if \<exists>v \<in> set vs. rv_element v = k \<and> rv_property v = Some p then ?f k p else entry_of p l)"
    by auto
  have "py_equal (entry_of p l') (entry_of p (if s = Remote_Wins then r else l))"
  proof (cases "\<exists>v \<in> set vs. rv_element v = k \<and> rv_property v = Some p")
    case True
    with l' assms(4,5) show ?thesis by simp
  next
    case False
    then have "\<not> (\<exists>c \<in> set ?cs. de_element c = k \<and> de_property c = Some p)" unfolding v .
    moreover have "de_element (property_entry k p l r) = k" "de_property (property_entry k p l r) = Some p"
      by (simp_all add: property_entry_def)
    ultimately have "property_entry k p l r \<notin> set ?cs" by blast
    then have "py_equal (entry_of p l) (entry_of p r)"
      unfolding set_conflicts using assms(4-6) by blast
    moreover have "entry_of p l' = entry_of p l" using l' unfolding if_not_P [OF False] .
    ultimately show ?thesis by simp
  qed
  moreover have "res = Manual \<longrightarrow> mgr_conflicts mr = [] \<and> vs = []"
    using assms(1) vs cs by (auto simp: merge_elements_def Let_def split: if_splits)
  ultimately show ?thesis by blast
qed


subsection \<open>Synchronising\<close>

lemma mapping_partition: "length (mapped_objects m es) + length (mapping_errors m es) = length es"
  by (induction es) (auto simp: mapped_objects_def mapping_errors_def List.map_filter_simps split: sum.splits)

lemma mapped_count: "length (mapped_objects m es) = length (filter (\<lambda>e. get_mapping (se_type e) m \<noteq> None) es)"
  by (induction es) (auto simp: mapped_objects_def List.map_filter_simps to_speckle_def get_mapping_def Let_def split: option.splits)

text \<open>
  What a push reports: it always returns, whatever the server answers; the number of objects sent is
  the number of elements with a mapped type, and each other element has its error; that number is
  reported even when sending fails, in which case there is one more error and no commit.
\<close>
theorem push_accounts_for_elements:
  "\<exists>r cs1. push_objects S m es stream branch msg cs = (Inr r, cs1) \<and>
     sy_sent r = length (filter (\<lambda>e. get_mapping (se_type e) m \<noteq> None) es) \<and>
     (let failed = sy_sent r \<noteq> 0 \<and> (\<exists>e. fst (send_objects S stream (mapped_objects m es) branch msg cs) = Inl e)
      in length (sy_errors r) + sy_sent r = length es + (if failed then 1 else 0) \<and>
         (if failed then sy_commit r = G_Scalar P_None else True))"
proof (cases "mapped_objects m es = []")
  case True
  with mapping_partition [of m es] mapped_count [of m es] show ?thesis
    by (simp add: push_objects_def Let_def)
next
  case False
  obtain q cs1 where q: "send_objects S stream (mapped_objects m es) branch msg cs = (q, cs1)" by (rule prod.exhaust)
  have ne: "filter (\<lambda>e. get_mapping (se_type e) m \<noteq> None) es \<noteq> []"
    using False mapped_count [of m es] by (metis length_0_conv)
  show ?thesis
  proof (cases q)
    case (Inl e)
    with send_objects_error q obtain t where t: "e = Speckle_Sync_Error t" by blast
    from Inl False q t mapping_partition [of m es] mapped_count [of m es] ne show ?thesis
      by (simp add: push_objects_def Let_def)
  next
    case (Inr c)
    with False q mapping_partition [of m es] mapped_count [of m es] show ?thesis
      by (simp add: push_objects_def Let_def)
  qed
qed

subsection \<open>Witnesses\<close>

definition sample_door :: source_element where
  "sample_door = \<lparr>se_type = ''DoorElement'', se_attrs = [(''id'', P_Int 7), (''name'', P_Str ''D1''), (''width'', P_Float (9 / 10))]\<rparr>"

definition sample_mapper :: type_mapper where
  "sample_mapper = register_mapping [(''width'', ''Breite'')] ''DoorElement'' ''Objects.Custom:Door'' \<lparr>ty_registry = [], ty_reverse = []\<rparr>"

definition sample_door_mapping :: type_mapping where
  "sample_door_mapping = \<lparr>tm_revitpy_type = ''DoorElement'', tm_speckle_type = ''Objects.Custom:Door'',
     tm_property_map = [(''width'', ''Breite'')], tm_status = Mapped\<rparr>"

lemma sample_mapping:
  "get_mapping (se_type sample_door) sample_mapper = Some sample_door_mapping"
  "map_of (ty_reverse sample_mapper) (tm_speckle_type sample_door_mapping) = Some (se_type sample_door)"
  "dict_ok (se_attrs sample_door)" "property_map_ok (tm_property_map sample_door_mapping)"
  "tm_property_map sample_door_mapping = [] \<longrightarrow> attr_of ''speckle_type'' sample_door = P_None"
  by (simp_all add: sample_mapper_def sample_door_def sample_door_mapping_def get_mapping_def register_mapping_def
      property_map_ok_def)

theorem speckle_roundtrip_witness:
  "\<exists>obj r. to_speckle sample_mapper sample_door = Inr obj \<and> from_speckle sample_mapper obj None = Inr r \<and>
     entry_of ''width'' r = P_Float (9 / 10)"
proof -
  have "carried sample_door_mapping ''width''" "attr_of ''width'' sample_door = P_Float (9 / 10)"
    by (simp_all add: carried_def sample_door_mapping_def sample_door_def attr_of_def)
  with speckle_roundtrip [OF sample_mapping] show ?thesis by (metis pvalue.distinct(3))
qed

theorem registrations_stay_mutual_witness:
  "map_option tm_speckle_type (get_mapping ''Pipe'' (register_mapping [] ''Pipe'' ''Objects.Pipe'' new_type_mapper)) = Some ''Objects.Pipe'' \<and>
   map_of (ty_reverse (register_mapping [] ''Pipe'' ''Objects.Pipe'' new_type_mapper)) ''Objects.Pipe'' = Some ''Pipe''"
proof -
  have "\<forall>(pm, t, s) \<in> set [([], ''Pipe'', ''Objects.Pipe'')].
      map_of default_speckle_types t = None \<and> s \<notin> set (map snd default_speckle_types)"
    by (simp add: default_speckle_types_def)
  from registrations_stay_mutual [OF _ _ this] show ?thesis
    by (simp add: get_mapping_def register_mapping_def)
qed

definition sample_local :: "object_dict list" where
  "sample_local = [[(''id'', P_Int 1), (''mark'', P_Str ''A''), (''width'', P_Int 2)], [(''id'', P_Int 2)]]"

definition sample_remote :: "object_dict list" where
  "sample_remote = [[(''id'', P_Int 1), (''mark'', P_Str ''B''), (''width'', P_Float 2)], [(''id'', P_Int 3)]]"

lemma sample_indexes:
  "index_by (diff_element_id sample_float) sample_local =
     [(''1'', [(''id'', P_Int 1), (''mark'', P_Str ''A''), (''width'', P_Int 2)]), (''2'', [(''id'', P_Int 2)])]"
  "index_by (diff_element_id sample_float) sample_remote =
     [(''1'', [(''id'', P_Int 1), (''mark'', P_Str ''B''), (''width'', P_Float 2)]), (''3'', [(''id'', P_Int 3)])]"
  by code_simp+

theorem merge_settles_conflicts_witness:
  "\<exists>mr vs l'. merge_elements sample_float Remote_Wins sample_local sample_remote None = Inr mr \<and>
     resolve_conflicts (mgr_conflicts mr) Remote_Wins = Inr vs \<and>
     map_of (fold apply_resolved vs (index_by (diff_element_id sample_float) sample_local)) ''1'' = Some l' \<and>
     py_equal (entry_of ''mark'' l') (P_Str ''B'')"
proof -
  obtain mr where mr: "merge_elements sample_float Remote_Wins sample_local sample_remote None = Inr mr"
    by (simp add: merge_elements_def Let_def)
  obtain vs where vs: "resolve_conflicts (mgr_conflicts mr) Remote_Wins = Inr vs"
    by (simp add: resolve_conflicts_def)
  have dom: "map_of (fold apply_resolved vs d) k \<noteq> None" if "map_of d k \<noteq> None" for vs k and d :: "(string, object_dict) dict"
    using that
  proof (induction vs arbitrary: d)
    case (Cons v vs)
    have "map_of (apply_resolved v d) k \<noteq> None"
      using Cons.prems by (simp add: apply_resolved_def split: option.splits)
    with Cons.IH show ?case by simp
  qed simp
  have l: "local_index sample_float sample_local ''1'' \<noteq> None" by (simp add: sample_indexes)
  obtain l' where l': "map_of (fold apply_resolved vs (index_by (diff_element_id sample_float) sample_local)) ''1'' = Some l'"
    using dom [OF l, of vs] by auto
  have ix: "local_index sample_float sample_local ''1'' = Some [(''id'', P_Int 1), (''mark'', P_Str ''A''), (''width'', P_Int 2)]"
    "local_index sample_float sample_remote ''1'' = Some [(''id'', P_Int 1), (''mark'', P_Str ''B''), (''width'', P_Float 2)]"
    by (simp_all add: sample_indexes)
  have "''mark'' \<notin> set ignored_keys" by (simp add: ignored_keys_def)
  from merge_settles_conflicts [OF mr vs l' ix this] have "py_equal (entry_of ''mark'' l') (P_Str ''B'')"
    by (simp add: entry_of_def)
  with mr vs l' show ?thesis by blast
qed

end
