(* ===== verification/Ifc.thy ===== *)
theory Ifc
  imports Interop
begin

text \<open>
  The IFC layer (\<open>ifc/\<close>): the element mapper, importer and exporter, the IDS validator, the comparison
  of two models and the BCF issues.

  The library that reads and writes IFC files is an argument: how it creates an entity and stores
  an attribute (\<open>None\<close> when it raises), and which entities a file gives for a type. An IFC entity is its
  type name and its attributes. Files, XML text and dates are handled by the standard library: a BCF
  archive is the list of its members, a member the tree of its XML document, and the text form
  of dates is an argument.
\<close>

subsection \<open>The element mapper\<close>

record ifc_mapping =
  im_revitpy_type :: string
  im_ifc_type :: string
  im_property_map :: "(string, string) dict"
  im_bidirectional :: bool

record ifc_mapper =
  ir_registry :: "(string, ifc_mapping) dict"
  ir_reverse :: "(string, string) dict"

definition default_ifc_types :: "(string \<times> string) list" where
  "default_ifc_types =
     [(''WallElement'', ''IfcWall''), (''RoomElement'', ''IfcSpace''), (''DoorElement'', ''IfcDoor''),
      (''WindowElement'', ''IfcWindow''), (''SlabElement'', ''IfcSlab''), (''RoofElement'', ''IfcRoof''),
      (''ColumnElement'', ''IfcColumn''), (''BeamElement'', ''IfcBeam''), (''StairElement'', ''IfcStairFlight''),
      (''RailingElement'', ''IfcRailing'')]"

definition register_ifc_mapping ::
  "(string, string) dict \<times> bool \<Rightarrow> string \<Rightarrow> string \<Rightarrow> ifc_mapper \<Rightarrow> ifc_mapper" where
  "register_ifc_mapping x t i m =
     m\<lparr>ir_registry := AList.update t
         \<lparr>im_revitpy_type = t, im_ifc_type = i, im_property_map = fst x, im_bidirectional = snd x\<rparr> (ir_registry m),
       ir_reverse := (if snd x then AList.update i t (ir_reverse m) else ir_reverse m)\<rparr>"

definition new_ifc_mapper :: ifc_mapper where
  "new_ifc_mapper =
     fold (\<lambda>(t, i). register_ifc_mapping ([], True) t i) default_ifc_types \<lparr>ir_registry = [], ir_reverse = []\<rparr>"

definition get_ifc_mapping :: "string \<Rightarrow> ifc_mapper \<Rightarrow> ifc_mapping option" where
  "get_ifc_mapping t m = map_of (ir_registry m) t"

definition get_ifc_type :: "string \<Rightarrow> ifc_mapper \<Rightarrow> string option" where
  "get_ifc_type t m = map_option im_ifc_type (get_ifc_mapping t m)"

definition get_revitpy_type :: "string \<Rightarrow> ifc_mapper \<Rightarrow> string option" where
  "get_revitpy_type i m = map_of (ir_reverse m) i"

record ifc_entity =
  ie_type :: string
  ie_attrs :: object_dict

record ifc_library =
  il_create :: "string \<Rightarrow> string \<Rightarrow> pvalue \<Rightarrow> ifc_entity option"
  il_store :: "string \<Rightarrow> pvalue \<Rightarrow> ifc_entity \<Rightarrow> ifc_entity option"

datatype ifc_error = Ifc_Unmapped string | Ifc_Conversion_Failed string

text \<open>Storing stops at the first attribute that raises; the entity keeps what was stored before.\<close>

fun store_properties ::
  "ifc_library \<Rightarrow> source_element \<Rightarrow> (string, string) dict \<Rightarrow> ifc_entity \<Rightarrow> bool \<times> ifc_entity" where
  "store_properties L e [] i = (True, i)"
| "store_properties L e ((rp, ip) # pm) i =
     (if attr_of rp e = P_None then store_properties L e pm i
      else (case il_store L ip (attr_of rp e) i of None \<Rightarrow> (False, i) | Some i' \<Rightarrow> store_properties L e pm i'))"

text \<open>
  The argument \<open>g\<close> is the new global identifier. The second component is what the call has added to
  the file: \<open>create_entity\<close> enters the entity at once, so that one whose attributes fail stays there.
\<close>

definition to_ifc ::
  "ifc_library \<Rightarrow> ifc_mapper \<Rightarrow> string \<Rightarrow> source_element \<Rightarrow> (ifc_error + ifc_entity) \<times> ifc_entity list" where
  "to_ifc L m g e =
     (case map_of (ir_registry m) (se_type e) of
        None \<Rightarrow> (Inl (Ifc_Unmapped (se_type e)), [])
      | Some im \<Rightarrow>
          (case il_create L (im_ifc_type im) g (case map_of (se_attrs e) ''name'' of None \<Rightarrow> P_Str [] | Some v \<Rightarrow> v) of
             None \<Rightarrow> (Inl (Ifc_Conversion_Failed (se_type e)), [])
           | Some i \<Rightarrow>
               (case store_properties L e (im_property_map im) i of
                  (False, i') \<Rightarrow> (Inl (Ifc_Conversion_Failed (se_type e)), [i'])
                | (True, i') \<Rightarrow> (Inr i', [i']))))"

definition from_ifc :: "ifc_mapper \<Rightarrow> ifc_entity \<Rightarrow> string option \<Rightarrow> ifc_error + object_dict" where
  "from_ifc m i target =
     (case (case target of Some t \<Rightarrow> Some t | None \<Rightarrow> map_of (ir_reverse m) (ie_type i)) of
        None \<Rightarrow> Inl (Ifc_Unmapped (ie_type i))
      | Some t \<Rightarrow>
          Inr (fold (\<lambda>(rp, ip). put_some rp (entry_of ip (ie_attrs i)))
                 (case map_of (ir_registry m) t of None \<Rightarrow> [] | Some im \<Rightarrow> im_property_map im)
                 [(''type'', P_Str t), (''ifc_type'', P_Str (ie_type i)),
                  (''global_id'', entry_of ''GlobalId'' (ie_attrs i)), (''name'', entry_of ''Name'' (ie_attrs i))]))"

subsection \<open>Import and export of files\<close>

definition ifc_element_types :: "string list" where
  "ifc_element_types =
     [''IfcWall'', ''IfcWallStandardCase'', ''IfcDoor'', ''IfcWindow'', ''IfcSlab'', ''IfcRoof'', ''IfcColumn'',
      ''IfcBeam'', ''IfcStairFlight'', ''IfcRailing'', ''IfcSpace'']"

definition rename_key :: "string \<times> string \<Rightarrow> object_dict \<Rightarrow> object_dict" where
  "rename_key sd d =
     (case map_of d (fst sd) of None \<Rightarrow> d | Some v \<Rightarrow> AList.update (snd sd) v (AList.delete (fst sd) d))"

definition import_entity :: "ifc_mapper \<Rightarrow> (string, string) dict \<Rightarrow> ifc_entity \<Rightarrow> object_dict option" where
  "import_entity m renames i =
     (case from_ifc m i None of Inl _ \<Rightarrow> None | Inr d \<Rightarrow> Some (fold rename_key renames d))"

text \<open>\<open>by_type\<close> gives the entities of a type in the file, or raises, which skips the type.\<close>

definition import_entities ::
  "ifc_mapper \<Rightarrow> (string, string) dict \<Rightarrow> (string \<Rightarrow> ifc_entity list option) \<Rightarrow> object_dict list" where
  "import_entities m renames by_type =
     concat (map (\<lambda>t. case by_type t of None \<Rightarrow> [] | Some es \<Rightarrow> List.map_filter (import_entity m renames) es)
       ifc_element_types)"

datatype ifc_import_error = Ifc_File_Missing | Ifc_Open_Failed

definition import_file ::
  "ifc_mapper \<Rightarrow> (string, string) dict \<Rightarrow> bool \<Rightarrow> (string \<Rightarrow> ifc_entity list option) option \<Rightarrow>
   ifc_import_error + object_dict list" where
  "import_file m renames present opened =
     (if \<not> present then Inl Ifc_File_Missing
      else (case opened of None \<Rightarrow> Inl Ifc_Open_Failed | Some by_type \<Rightarrow> Inr (import_entities m renames by_type)))"

text \<open>
  Export: the entities of the file that is written, the project structure first; \<open>guid n\<close> is the n-th
  identifier that is drawn. An element without a mapping, or one whose conversion fails, is skipped;
  the number of the others is the count that is logged.
\<close>

record ifc_export_config =
  ec_site :: string
  ec_building :: string

fun export_elements ::
  "ifc_library \<Rightarrow> ifc_mapper \<Rightarrow> (nat \<Rightarrow> string) \<Rightarrow> nat \<Rightarrow> source_element list \<Rightarrow> nat \<times> ifc_entity list" where
  "export_elements L m guid n [] = (0, [])"
| "export_elements L m guid n (e # es) =
     (let (r, added) = to_ifc L m (guid n) e;
          n' = (case r of Inl (Ifc_Unmapped _) \<Rightarrow> n | _ \<Rightarrow> Suc n);
          (c, rest) = export_elements L m guid n' es
      in ((case r of Inr _ \<Rightarrow> Suc c | Inl _ \<Rightarrow> c), added @ rest))"

datatype ifc_export_error = No_Elements_To_Export | Ifc_Export_Failed

definition export_file ::
  "ifc_library \<Rightarrow> ifc_mapper \<Rightarrow> ifc_export_config \<Rightarrow> (nat \<Rightarrow> string) \<Rightarrow> source_element list \<Rightarrow>
   ifc_export_error + nat \<times> ifc_entity list" where
  "export_file L m cfg guid es =
     (if es = [] then Inl No_Elements_To_Export
      else (case (il_create L ''IfcProject'' (guid 0) (P_Str ''RevitPy Export''),
                  il_create L ''IfcSite'' (guid 1) (P_Str (ec_site cfg)),
                  il_create L ''IfcBuilding'' (guid 2) (P_Str (ec_building cfg))) of
          (Some p, Some s, Some b) \<Rightarrow> Inr (apsnd (append [p, s, b]) (export_elements L m guid 3 es))
        | _ \<Rightarrow> Inl Ifc_Export_Failed))"

subsection \<open>IDS validation\<close>

record ids_requirement =
  rq_name :: string
  rq_entity_type :: "string option"
  rq_property :: "string option"
  rq_value :: "string option"
  rq_required :: bool

record ids_result =
  ir_requirement :: ids_requirement
  ir_passed :: bool
  ir_entity :: pvalue
  ir_actual :: pvalue
  ir_message :: string

definition element_type_of :: "source_element \<Rightarrow> string" where
  "element_type_of e = (case attr_of ''category'' e of P_Str c \<Rightarrow> if c = [] then se_type e else c | _ \<Rightarrow> se_type e)"

definition given :: "string option \<Rightarrow> bool" where
  "given x \<longleftrightarrow> x \<noteq> None \<and> x \<noteq> Some []"

definition quoted :: "string \<Rightarrow> string" where
  "quoted s = CHR 0x27 # s @ [CHR 0x27]"

definition check_requirement :: "(rat \<Rightarrow> string) \<Rightarrow> source_element \<Rightarrow> ids_requirement \<Rightarrow> ids_result" where
  "check_requirement fl e r =
     (let res = (\<lambda>ok a msg. \<lparr>ir_requirement = r, ir_passed = ok, ir_entity = attr_of ''id'' e, ir_actual = a, ir_message = msg\<rparr>) in
      if given (rq_entity_type r) \<and> rq_entity_type r \<noteq> Some (element_type_of e)
      then res True P_None ''Requirement not applicable to this entity type''
      else if \<not> given (rq_property r) then res True P_None ''No property check specified''
      else (let p = the (rq_property r); a = attr_of p e in
        if a = P_None \<and> rq_required r then res False P_None (''Required property '' @ quoted p @ '' is missing'')
        else (case rq_value r of
            Some v \<Rightarrow>
              if py_str fl a = v then res True a ''Property value matches''
              else res False a (''Expected '' @ quoted v @ '', got '' @ quoted (py_str fl a))
          | None \<Rightarrow> res True a ''Property exists'')))"

definition ids_validate :: "(rat \<Rightarrow> string) \<Rightarrow> source_element list \<Rightarrow> ids_requirement list \<Rightarrow> ids_result list" where
  "ids_validate fl es rs = concat (map (\<lambda>e. map (check_requirement fl e) rs) es)"


subsection \<open>Comparing two models\<close>

text \<open>
  An element is a dictionary or an object; \<open>id(element)\<close>, the number that stands in for a missing
  identifier, is part of it. The entries come in the order of the models here; the source walks
  over sets, so that their order is not specified.
\<close>

datatype ifc_element = Dict_Element object_dict int | Object_Element source_element int

definition ifc_element_id :: "(rat \<Rightarrow> string) \<Rightarrow> ifc_element \<Rightarrow> string" where
  "ifc_element_id fl e =
     (case e of
        Dict_Element d n \<Rightarrow> py_str fl (or_else (entry_of ''global_id'' d) (or_else (entry_of ''id'' d) (P_Int n)))
      | Object_Element s n \<Rightarrow> py_str fl (or_else (attr_of ''global_id'' s) (or_else (attr_of ''id'' s) (P_Int n))))"

definition ifc_type_text :: "ifc_element \<Rightarrow> pvalue" where
  "ifc_type_text e =
     (case e of
        Dict_Element d _ \<Rightarrow>
          (case map_of d ''type'' of Some v \<Rightarrow> v
           | None \<Rightarrow> (case map_of d ''ifc_type'' of Some v \<Rightarrow> v | None \<Rightarrow> P_Str ''Unknown''))
      | Object_Element s _ \<Rightarrow> or_else (attr_of ''category'' s) (P_Str (se_type s)))"

definition compared_attributes :: "string list" where
  "compared_attributes =
     [''name'', ''category'', ''height'', ''width'', ''length'', ''area'', ''volume'', ''level'', ''material'']"

definition ifc_properties :: "ifc_element \<Rightarrow> object_dict" where
  "ifc_properties e =
     (case e of
        Dict_Element d _ \<Rightarrow> d
      | Object_Element s _ \<Rightarrow> fold (\<lambda>a. put_some a (attr_of a s)) compared_attributes [])"

record ifc_diff_entry =
  id_global :: string
  id_type :: pvalue
  id_kind :: change_kind
  id_old :: object_dict
  id_new :: object_dict
  id_fields :: "string list"

record ifc_diff_result =
  ix_added :: "ifc_diff_entry list"
  ix_modified :: "ifc_diff_entry list"
  ix_removed :: "ifc_diff_entry list"
  ix_summary :: "(string \<times> nat) list"

definition changed_fields :: "object_dict \<Rightarrow> object_dict \<Rightarrow> string list" where
  "changed_fields old new =
     sort (filter (\<lambda>k. \<not> py_equal (entry_of k old) (entry_of k new)) (remdups (map fst old @ map fst new)))"

definition modified_entry :: "string \<Rightarrow> ifc_element \<Rightarrow> ifc_element \<Rightarrow> ifc_diff_entry option" where
  "modified_entry k e e' =
     (let fs = changed_fields (ifc_properties e) (ifc_properties e') in
      if fs = [] then None
      else Some \<lparr>id_global = k, id_type = ifc_type_text e', id_kind = Modified, id_old = ifc_properties e,
                 id_new = ifc_properties e', id_fields = fs\<rparr>)"

definition ifc_compare :: "(rat \<Rightarrow> string) \<Rightarrow> ifc_element list \<Rightarrow> ifc_element list \<Rightarrow> ifc_diff_result" where
  "ifc_compare fl olds news =
     (let key = (\<lambda>e. Some (ifc_element_id fl e)); A = index_by key olds; B = index_by key news;
          added = map (\<lambda>(k, e). \<lparr>id_global = k, id_type = ifc_type_text e, id_kind = Added, id_old = [],
                     id_new = ifc_properties e, id_fields = []\<rparr>) (filter (\<lambda>(k, e). map_of A k = None) B);
          removed = map (\<lambda>(k, e). \<lparr>id_global = k, id_type = ifc_type_text e, id_kind = Removed, id_old = ifc_properties e,
                     id_new = [], id_fields = []\<rparr>) (filter (\<lambda>(k, e). map_of B k = None) A);
          modified = List.map_filter (\<lambda>(k, e). case map_of B k of None \<Rightarrow> None | Some e' \<Rightarrow> modified_entry k e e') A
      in \<lparr>ix_added = added, ix_modified = modified, ix_removed = removed,
          ix_summary = [(''added'', length added), (''modified'', length modified), (''removed'', length removed)]\<rparr>)"

subsection \<open>BCF issues\<close>

record 'd bcf_issue =
  bc_guid :: string
  bc_title :: string
  bc_description :: string
  bc_author :: string
  bc_date :: 'd
  bc_status :: string
  bc_assigned :: string
  bc_elements :: "string list"

datatype xml = Xml (xml_tag: string) (xml_attrs: "(string \<times> string) list") (xml_text: "string option") (xml_children: "xml list")

definition text_child :: "string \<Rightarrow> string \<Rightarrow> xml" where
  "text_child tag text = Xml tag [] (Some text) []"

definition issue_to_xml :: "('d \<Rightarrow> string) \<Rightarrow> 'd bcf_issue \<Rightarrow> xml" where
  "issue_to_xml iso_text i =
     Xml ''Markup'' [] None
       [Xml ''Topic'' [(''Guid'', bc_guid i)] None
         ([text_child ''Title'' (bc_title i), text_child ''Description'' (bc_description i),
           text_child ''CreationAuthor'' (bc_author i), text_child ''CreationDate'' (iso_text (bc_date i)),
           text_child ''TopicStatus'' (bc_status i)] @
          (if bc_assigned i = [] then [] else [text_child ''AssignedTo'' (bc_assigned i)]) @
          map (text_child ''ReferenceLink'') (bc_elements i))]"

text \<open>Writing a document and parsing it again: an empty text is read back as no text.\<close>

fun xml_transfer :: "xml \<Rightarrow> xml" where
  "xml_transfer (Xml tag as t cs) = Xml tag as (if t = Some [] then None else t) (map xml_transfer cs)"

definition find_child :: "string \<Rightarrow> xml \<Rightarrow> xml option" where
  "find_child tag x = List.find (\<lambda>c. xml_tag c = tag) (xml_children x)"

definition child_text :: "xml \<Rightarrow> string \<Rightarrow> string \<Rightarrow> string" where
  "child_text x tag dflt =
     (case find_child tag x of
        None \<Rightarrow> dflt
      | Some c \<Rightarrow> (case xml_text c of None \<Rightarrow> dflt | Some t \<Rightarrow> if t = [] then dflt else t))"

text \<open>\<open>now\<close> and \<open>fresh\<close> stand for the clock and for \<open>uuid4\<close>.\<close>

definition xml_to_issue :: "(string \<Rightarrow> 'd option) \<Rightarrow> 'd \<Rightarrow> string \<Rightarrow> xml \<Rightarrow> 'd bcf_issue option" where
  "xml_to_issue parse now fresh doc =
     (case find_child ''Topic'' doc of
        None \<Rightarrow> None
      | Some t \<Rightarrow>
          Some \<lparr>bc_guid = (case map_of (xml_attrs t) ''Guid'' of None \<Rightarrow> fresh | Some g \<Rightarrow> g),
                bc_title = child_text t ''Title'' [], bc_description = child_text t ''Description'' [],
                bc_author = child_text t ''CreationAuthor'' [],
                bc_date = (let ds = child_text t ''CreationDate'' [] in
                           if ds = [] then now else (case parse ds of None \<Rightarrow> now | Some d \<Rightarrow> d)),
                bc_status = child_text t ''TopicStatus'' ''Open'', bc_assigned = child_text t ''AssignedTo'' [],
                bc_elements = List.map_filter (\<lambda>c. if xml_tag c = ''ReferenceLink'' then
                    (case xml_text c of None \<Rightarrow> None | Some s \<Rightarrow> if s = [] then None else Some s) else None) (xml_children t)\<rparr>)"

text \<open>
  An archive: its members in the order written. Two members may have the same name; reading by
  name gives the last of them.
\<close>

type_synonym archive = "(string \<times> xml) list"

definition member_name :: "'d bcf_issue \<Rightarrow> string" where
  "member_name i = bc_guid i @ ''/markup.xml''"

datatype bcf_error = No_Issues | Bcf_Missing | Bcf_Unsupported | Bcf_Parse_Failed

definition write_bcf :: "('d \<Rightarrow> string) \<Rightarrow> 'd bcf_issue list option \<Rightarrow> 'd bcf_issue list \<Rightarrow> bcf_error + archive" where
  "write_bcf iso_text chosen managed =
     (let iss = (case chosen of Some iss \<Rightarrow> iss | None \<Rightarrow> managed) in
      if iss = [] then Inl No_Issues else Inr (map (\<lambda>i. (member_name i, xml_transfer (issue_to_xml iso_text i))) iss))"

definition read_member :: "archive \<Rightarrow> string \<Rightarrow> xml option" where
  "read_member a n = map_of (rev a) n"

definition ends_in :: "string \<Rightarrow> string \<Rightarrow> bool" where
  "ends_in suffix n = (take (length suffix) (rev n) = rev suffix)"

definition read_zip ::
  "(string \<Rightarrow> 'd option) \<Rightarrow> 'd \<Rightarrow> string \<Rightarrow> archive \<Rightarrow> 'd bcf_issue list \<Rightarrow> 'd bcf_issue list \<times> 'd bcf_issue list" where
  "read_zip parse now fresh a managed =
     (let iss = List.map_filter (\<lambda>n. case read_member a n of None \<Rightarrow> None | Some x \<Rightarrow> xml_to_issue parse now fresh x)
                 (filter (\<lambda>n. ends_in ''markup.xml'' n) (map fst a))
      in (iss, managed @ iss))"

definition create_issue ::
  "string \<Rightarrow> 'd \<Rightarrow> string \<Rightarrow> string \<Rightarrow> string \<Rightarrow> string \<Rightarrow> string \<Rightarrow> string list \<Rightarrow> 'd bcf_issue list \<Rightarrow>
   'd bcf_issue \<times> 'd bcf_issue list" where
  "create_issue fresh now title descr author status assigned els managed =
     (let i = \<lparr>bc_guid = fresh, bc_title = title, bc_description = descr, bc_author = author, bc_date = now,
               bc_status = status, bc_assigned = assigned, bc_elements = els\<rparr>
      in (i, managed @ [i]))"


subsection \<open>Mapping to IFC and back\<close>

interpretation ifc_types: type_registry "\<lambda>m t. get_ifc_type t m" "\<lambda>m i. get_revitpy_type i m" register_ifc_mapping snd
  by unfold_locales (simp_all add: register_ifc_mapping_def get_ifc_type_def get_revitpy_type_def get_ifc_mapping_def fun_eq_iff)

lemma default_ifc_mutual: "mutual (\<lambda>m t. get_ifc_type t m) (\<lambda>m i. get_revitpy_type i m) new_ifc_mapper"
proof -
  let ?empty = "\<lparr>ir_registry = [], ir_reverse = []\<rparr>" and ?rs = "map (\<lambda>(t, i). (([], True), t, i)) default_ifc_types"
  have "new_ifc_mapper = ifc_types.register_all ?rs ?empty"
    by (simp add: new_ifc_mapper_def ifc_types.register_all_def fold_map comp_def case_prod_unfold)
  moreover have "mutual (\<lambda>m t. get_ifc_type t m) (\<lambda>m i. get_revitpy_type i m) ?empty"
    by (simp add: mutual_def get_ifc_type_def get_ifc_mapping_def get_revitpy_type_def)
  ultimately show ?thesis
    using ifc_types.mutual_register_all [of ?empty ?rs]
    by (simp add: default_ifc_types_def get_ifc_type_def get_ifc_mapping_def get_revitpy_type_def)
qed

text \<open>
  What is relied on of the library: a created entity has its type, identifier and name, and storing
  an attribute changes this attribute only.
\<close>

definition stores_faithfully :: "ifc_library \<Rightarrow> bool" where
  "stores_faithfully L \<longleftrightarrow>
     (\<forall>t g n i. il_create L t g n = Some i \<longrightarrow>
        ie_type i = t \<and> entry_of ''GlobalId'' (ie_attrs i) = P_Str g \<and> entry_of ''Name'' (ie_attrs i) = n) \<and>
     (\<forall>k v i i'. il_store L k v i = Some i' \<longrightarrow>
        ie_type i' = ie_type i \<and> (\<forall>q. entry_of q (ie_attrs i') = (if q = k then v else entry_of q (ie_attrs i))))"

lemma store_properties_lookup:
  assumes "stores_faithfully L" and "store_properties L e pm i = (True, i')" and "distinct (map snd pm)"
  shows "ie_type i' = ie_type i \<and>
    (\<forall>q. q \<notin> set (map snd pm) \<longrightarrow> entry_of q (ie_attrs i') = entry_of q (ie_attrs i)) \<and>
    (\<forall>(rp, ip) \<in> set pm. attr_of rp e \<noteq> P_None \<longrightarrow> entry_of ip (ie_attrs i') = attr_of rp e)"
  using assms(2,3)
proof (induction pm arbitrary: i)
  case (Cons p pm)
  obtain rp ip where p: "p = (rp, ip)" by (metis prod.exhaust)
  show ?case
  proof (cases "attr_of rp e = P_None")
    case True
    with Cons p show ?thesis by simp
  next
    case False
    with Cons.prems p obtain i1 where i1: "il_store L ip (attr_of rp e) i = Some i1" "store_properties L e pm i1 = (True, i')"
      by (auto split: option.splits)
    then have "ie_type i1 = ie_type i" "\<And>q. entry_of q (ie_attrs i1) = (if q = ip then attr_of rp e else entry_of q (ie_attrs i))"
      using assms(1) by (simp_all add: stores_faithfully_def)
    with Cons.IH [OF i1(2)] Cons.prems(2) p show ?thesis by auto
  qed
qed auto

definition ifc_map_ok :: "(string, string) dict \<Rightarrow> bool" where
  "ifc_map_ok pm \<longleftrightarrow> dict_ok pm \<and> distinct (map snd pm) \<and>
     set (map fst pm) \<inter> {''type'', ''ifc_type'', ''global_id'', ''name''} = {} \<and> set (map snd pm) \<inter> {''GlobalId'', ''Name''} = {}"

text \<open>
  Mapping an element to an IFC entity and back: with a two-way mapping, \<open>from_ifc\<close> gives a
  dictionary with the type, the new identifier, the name, and each mapped property that has a value.
\<close>
theorem ifc_roundtrip:
  assumes "stores_faithfully L" and "get_ifc_mapping (se_type e) m = Some im"
    and "get_revitpy_type (im_ifc_type im) m = Some (se_type e)" and "ifc_map_ok (im_property_map im)"
    and "fst (to_ifc L m g e) = Inr i" and "attr_of ''name'' e \<noteq> P_None"
  shows "\<exists>d. from_ifc m i None = Inr d \<and> entry_of ''type'' d = P_Str (se_type e) \<and> entry_of ''global_id'' d = P_Str g \<and>
    entry_of ''name'' d = attr_of ''name'' e \<and>
    (\<forall>rp \<in> set (map fst (im_property_map im)). attr_of rp e \<noteq> P_None \<longrightarrow> entry_of rp d = attr_of rp e)"
proof -
  let ?pm = "im_property_map im"
  let ?ps = "map (\<lambda>(rp, ip). (rp, entry_of ip (ie_attrs i))) ?pm"
  have reg: "map_of (ir_registry m) (se_type e) = Some im" using assms(2) by (simp add: get_ifc_mapping_def)
  have name: "(case map_of (se_attrs e) ''name'' of None \<Rightarrow> P_Str [] | Some v \<Rightarrow> v) = attr_of ''name'' e"
    using assms(6) by (auto simp: attr_of_def split: option.splits)
  obtain i0 where i0: "il_create L (im_ifc_type im) g (attr_of ''name'' e) = Some i0" "store_properties L e ?pm i0 = (True, i)"
    using assms(5) by (auto simp: to_ifc_def reg name split: option.splits prod.splits bool.splits)
  have ok: "dict_ok ?pm" "distinct (map snd ?pm)" "set (map fst ?pm) \<inter> {''type'', ''ifc_type'', ''global_id'', ''name''} = {}"
      "set (map snd ?pm) \<inter> {''GlobalId'', ''Name''} = {}"
    using assms(4) by (simp_all only: ifc_map_ok_def simp_thms)
  have created: "ie_type i0 = im_ifc_type im" "entry_of ''GlobalId'' (ie_attrs i0) = P_Str g" "entry_of ''Name'' (ie_attrs i0) = attr_of ''name'' e"
    using assms(1) i0(1) by (auto simp: stores_faithfully_def)
  note st = store_properties_lookup [OF assms(1) i0(2) ok(2)]
  have "''GlobalId'' \<notin> set (map snd ?pm)" "''Name'' \<notin> set (map snd ?pm)" using ok(4) by blast+
  moreover have "ie_type i = ie_type i0" "\<And>q. q \<notin> set (map snd ?pm) \<Longrightarrow> entry_of q (ie_attrs i) = entry_of q (ie_attrs i0)"
    using st by blast+
  ultimately have i: "ie_type i = im_ifc_type im" "entry_of ''GlobalId'' (ie_attrs i) = P_Str g" "entry_of ''Name'' (ie_attrs i) = attr_of ''name'' e"
    using created by simp_all
  let ?b = "[(''type'', P_Str (se_type e)), (''ifc_type'', P_Str (ie_type i)),
     (''global_id'', entry_of ''GlobalId'' (ie_attrs i)), (''name'', entry_of ''Name'' (ie_attrs i))]"
  define d where "d = fold (\<lambda>(k, v). put_some k v) ?ps ?b"
  have d: "from_ifc m i None = Inr d"
    using assms(3) reg by (simp add: from_ifc_def get_revitpy_type_def i(1) fold_map comp_def case_prod_unfold d_def)
  have keys: "map fst ?ps = map fst ?pm" by (simp add: comp_def case_prod_unfold)
  have dist: "distinct (map fst ?ps)" unfolding keys by (rule ok(1))
  have base: "map_of d k = map_of ?b k" if "k \<in> {''type'', ''ifc_type'', ''global_id'', ''name''}" for k
  proof -
    have "k \<notin> set (map fst ?ps)" unfolding keys using that ok(3) by blast
    then have "map_of ?ps k = None" by (simp only: map_of_None_keys list.set_map not_False_eq_True)
    then show ?thesis unfolding d_def fold_put_some [OF dist] by (simp only: option.simps)
  qed
  have "entry_of ''type'' d = P_Str (se_type e)" "entry_of ''global_id'' d = P_Str g" "entry_of ''name'' d = attr_of ''name'' e"
    using i(2,3) by (simp_all add: entry_of_def [of _ d] base)
  moreover have "entry_of rp d = attr_of rp e" if a: "rp \<in> set (map fst ?pm)" "attr_of rp e \<noteq> P_None" for rp
  proof -
    obtain ip where ip: "(rp, ip) \<in> set ?pm" using a(1) by auto
    with st a(2) have v: "entry_of ip (ie_attrs i) = attr_of rp e" by blast
    have "(rp, entry_of ip (ie_attrs i)) \<in> set ?ps" using ip by force
    then have "map_of ?ps rp = Some (attr_of rp e)" using dist v by simp
    with a(2) have "map_of d rp = Some (attr_of rp e)" unfolding d_def fold_put_some [OF dist] by simp
    then show ?thesis by (simp add: entry_of_def [of rp d])
  qed
  ultimately show ?thesis using d by blast
qed

text \<open>
  An import gives, type by type in the fixed order, one dictionary for each entity whose own type is
  registered, and drops the others: with the default mapper all walls of type \<open>IfcWallStandardCase\<close>
  are dropped, although the importer asks for this type.
\<close>
theorem import_keeps_registered_types:
  "length (import_entities m renames by_type) =
     sum_list (map (\<lambda>t. case by_type t of None \<Rightarrow> 0
                      | Some es \<Rightarrow> length (filter (\<lambda>i. get_revitpy_type (ie_type i) m \<noteq> None) es)) ifc_element_types) \<and>
   ''IfcWallStandardCase'' \<in> set ifc_element_types \<and> get_revitpy_type ''IfcWallStandardCase'' new_ifc_mapper = None"
proof (intro conjI)
  have "length (List.map_filter (import_entity m renames) es) = length (filter (\<lambda>i. get_revitpy_type (ie_type i) m \<noteq> None) es)" for es
    by (induction es) (auto simp: List.map_filter_simps import_entity_def from_ifc_def get_revitpy_type_def split: option.splits)
  then show "length (import_entities m renames by_type) =
     sum_list (map (\<lambda>t. case by_type t of None \<Rightarrow> 0
                      | Some es \<Rightarrow> length (filter (\<lambda>i. get_revitpy_type (ie_type i) m \<noteq> None) es)) ifc_element_types)"
    unfolding import_entities_def length_concat map_map comp_def
    by (intro arg_cong [where f = sum_list] map_cong refl) (auto split: option.splits)
qed (simp_all add: ifc_element_types_def new_ifc_mapper_def default_ifc_types_def register_ifc_mapping_def get_revitpy_type_def)

lemma export_count:
  "fst (export_elements L m guid n es) \<le> length (snd (export_elements L m guid n es))"
proof (induction es arbitrary: n)
  case (Cons e es)
  obtain r added where r: "to_ifc L m (guid n) e = (r, added)" by (metis prod.exhaust)
  have a: "added \<noteq> []" if "\<not> isl r"
    using r that by (auto simp: to_ifc_def split: option.splits prod.splits bool.splits)
  obtain c rest where c: "export_elements L m guid (case r of Inl (Ifc_Unmapped _) \<Rightarrow> n | _ \<Rightarrow> Suc n) es = (c, rest)"
    by (metis prod.exhaust)
  with Cons.IH have "c \<le> length rest" by (metis fst_conv snd_conv)
  with r c a show ?case by (cases r) (auto simp: Let_def Suc_le_eq intro: le_less_trans [of c "length rest"])
qed simp

text \<open>
  A failed conversion leaves its entity in the exported file: when storing an attribute raises, the
  element is counted as skipped, but the entity that was created for it stays, with the attributes
  stored before.
\<close>
theorem skipped_element_stays_in_file:
  assumes "get_ifc_mapping (se_type e) m = Some im"
    and "il_create L (im_ifc_type im) (guid n) (case map_of (se_attrs e) ''name'' of None \<Rightarrow> P_Str [] | Some v \<Rightarrow> v) = Some i"
    and "store_properties L e (im_property_map im) i = (False, i')"
  shows "export_elements L m guid n (e # es) = apsnd (Cons i') (export_elements L m guid (Suc n) es)"
  using assms by (simp add: to_ifc_def get_ifc_mapping_def case_prod_unfold Let_def apsnd_def map_prod_def)


subsection \<open>IDS validation\<close>

text \<open>What a requirement asks of an element, as the type of the requirement describes it.\<close>

definition meets :: "(rat \<Rightarrow> string) \<Rightarrow> source_element \<Rightarrow> ids_requirement \<Rightarrow> bool" where
  "meets fl e r \<longleftrightarrow>
     (\<forall>t p. rq_entity_type r \<in> {None, Some [], Some t} \<and> t = element_type_of e \<and> rq_property r = Some p \<and> p \<noteq> [] \<longrightarrow>
        (if attr_of p e = P_None then \<not> rq_required r \<and> rq_value r \<in> {None, Some ''None''}
         else rq_value r \<in> {None, Some (py_str fl (attr_of p e))}))"

lemma check_requirement_meets: "ir_passed (check_requirement fl e r) \<longleftrightarrow> meets fl e r"
  by (cases "rq_entity_type r"; cases "rq_property r"; cases "rq_value r")
    (auto simp: check_requirement_def meets_def given_def Let_def)

text \<open>
  IDS validation gives one result for each pair of an element and a requirement, elements first, and
  a result passes exactly when the element meets the requirement. An optional property with an
  expected value that the element does not have fails, like a required one.
\<close>
theorem ids_validation_exact:
  "map (\<lambda>x. (ir_requirement x, ir_entity x, ir_passed x)) (ids_validate fl es rs) =
     concat (map (\<lambda>e. map (\<lambda>r. (r, attr_of ''id'' e, meets fl e r)) rs) es) \<and>
   (attr_of p e = P_None \<longrightarrow> v \<noteq> ''None'' \<longrightarrow> p \<noteq> [] \<longrightarrow>
     \<not> meets fl e \<lparr>rq_name = n, rq_entity_type = None, rq_property = Some p, rq_value = Some v, rq_required = False\<rparr>)"
proof
  have fields: "ir_requirement (check_requirement fl e r) = r" "ir_entity (check_requirement fl e r) = attr_of ''id'' e" for e r
    by (auto simp: check_requirement_def Let_def split: option.splits)
  show "map (\<lambda>x. (ir_requirement x, ir_entity x, ir_passed x)) (ids_validate fl es rs) =
     concat (map (\<lambda>e. map (\<lambda>r. (r, attr_of ''id'' e, meets fl e r)) rs) es)"
    by (simp add: ids_validate_def map_concat comp_def fields check_requirement_meets)
qed (simp add: meets_def)

subsection \<open>The comparison\<close>

lemma set_changed_fields:
  "p \<in> set (changed_fields old new) \<longleftrightarrow> \<not> py_equal (entry_of p old) (entry_of p new)"
proof -
  have "p \<in> fst ` set old \<or> p \<in> fst ` set new" if "\<not> py_equal (entry_of p old) (entry_of p new)"
  proof (rule ccontr)
    assume "\<not> ?thesis"
    then have "map_of old p = None" "map_of new p = None" by (simp_all add: map_of_None_keys)
    with that show False by (simp add: entry_of_def)
  qed
  then show ?thesis by (auto simp: changed_fields_def)
qed

abbreviation ifc_index :: "(rat \<Rightarrow> string) \<Rightarrow> ifc_element list \<Rightarrow> string \<Rightarrow> ifc_element option" where
  "ifc_index fl es \<equiv> map_of (index_by (\<lambda>e. Some (ifc_element_id fl e)) es)"

lemma id_of_modified: "modified_entry k e e' = Some x \<Longrightarrow> id_global x = k"
  by (auto simp: modified_entry_def Let_def split: if_splits)

lemma distinct_map_filter_keys:
  assumes "dict_ok d" and "\<And>k e x. f (k, e) = Some x \<Longrightarrow> g x = k"
  shows "distinct (map g (List.map_filter f d)) \<and> set (map g (List.map_filter f d)) \<subseteq> set (map fst d)"
  using assms(1)
proof (induction d)
  case (Cons p d)
  obtain k e where p: "p = (k, e)" by (metis prod.exhaust)
  with Cons assms(2) [of k e] show ?case by (auto simp: List.map_filter_simps split: option.splits)
qed (simp add: List.map_filter_simps)

text \<open>
  C23: The comparison of two IFC models sorts every identifier into at most one class: added if only the new
  model has it, removed if only the old one has it, modified if both have it and some property differs,
  with exactly the differing properties in the entry; no identifier is listed twice, and the summary
  counts the entries.
\<close>
theorem ifc_comparison_classifies:
  fixes fl :: "rat \<Rightarrow> string" and olds news :: "ifc_element list"
  defines "r \<equiv> ifc_compare fl olds news"
  shows "set (map id_global (ix_added r)) = {k. ifc_index fl olds k = None \<and> ifc_index fl news k \<noteq> None} \<and>
    set (map id_global (ix_removed r)) = {k. ifc_index fl olds k \<noteq> None \<and> ifc_index fl news k = None} \<and>
    (\<forall>k fs. (\<exists>x \<in> set (ix_modified r). id_global x = k \<and> set (id_fields x) = fs) \<longleftrightarrow>
       (\<exists>e e'. ifc_index fl olds k = Some e \<and> ifc_index fl news k = Some e' \<and> fs \<noteq> {} \<and>
          fs = {p. \<not> py_equal (entry_of p (ifc_properties e)) (entry_of p (ifc_properties e'))})) \<and>
    distinct (map id_global (ix_added r @ ix_modified r @ ix_removed r)) \<and>
    ix_summary r = [(''added'', length (ix_added r)), (''modified'', length (ix_modified r)), (''removed'', length (ix_removed r))]"
proof -
  let ?A = "index_by (\<lambda>e. Some (ifc_element_id fl e)) olds" and ?B = "index_by (\<lambda>e. Some (ifc_element_id fl e)) news"
  let ?f = "\<lambda>(k, e). case map_of ?B k of None \<Rightarrow> None | Some e' \<Rightarrow> modified_entry k e e'"
  have in_dict: "k \<in> set (map fst d) \<longleftrightarrow> map_of d k \<noteq> None" for k and d :: "(string, ifc_element) dict"
    by (auto simp: map_of_None_keys)
  have names: "map id_global (ix_added r) = filter (\<lambda>k. map_of ?A k = None) (map fst ?B)"
      "map id_global (ix_removed r) = filter (\<lambda>k. map_of ?B k = None) (map fst ?A)"
      "ix_modified r = List.map_filter ?f ?A"
    by (simp_all add: r_def ifc_compare_def Let_def filter_map comp_def case_prod_unfold)
  have added: "set (map id_global (ix_added r)) = {k. map_of ?A k = None \<and> map_of ?B k \<noteq> None}"
    unfolding names set_filter in_dict by blast
  have removed: "set (map id_global (ix_removed r)) = {k. map_of ?A k \<noteq> None \<and> map_of ?B k = None}"
    unfolding names set_filter in_dict by blast
  have f_key: "id_global x = k" if "?f (k, e) = Some x" for k e x
    using that id_of_modified by (auto split: option.splits)
  have mods: "distinct (map id_global (ix_modified r))"
    unfolding names(3) using distinct_map_filter_keys [of ?A ?f id_global] f_key by simp
  have mod_sub: "k \<in> set (map id_global (ix_modified r)) \<Longrightarrow> map_of ?A k \<noteq> None \<and> map_of ?B k \<noteq> None" for k
  proof -
    assume "k \<in> set (map id_global (ix_modified r))"
    then obtain x k' e where x: "(k', e) \<in> set ?A" "?f (k', e) = Some x" "id_global x = k"
      unfolding names(3) List.map_filter_def by auto
    then have "k' = k" using f_key by blast
    then show "map_of ?A k \<noteq> None \<and> map_of ?B k \<noteq> None"
      using x(1,2) by (auto split: option.splits)
  qed
  have dist: "distinct (map id_global (ix_added r @ ix_modified r @ ix_removed r))"
  proof -
    have "distinct (map id_global (ix_added r))" "distinct (map id_global (ix_removed r))"
      unfolding names(1,2) by simp_all
    moreover have "set (map id_global (ix_added r)) \<inter> set (map id_global (ix_modified r)) = {}"
      "set (map id_global (ix_added r)) \<inter> set (map id_global (ix_removed r)) = {}"
      "set (map id_global (ix_modified r)) \<inter> set (map id_global (ix_removed r)) = {}"
      using mod_sub unfolding added removed by blast+
    ultimately show ?thesis using mods by (simp add: Int_Un_distrib)
  qed
  have entries: "(\<exists>x \<in> set (ix_modified r). id_global x = k \<and> set (id_fields x) = fs) \<longleftrightarrow>
      (\<exists>e e'. map_of ?A k = Some e \<and> map_of ?B k = Some e' \<and> fs \<noteq> {} \<and>
          fs = {p. \<not> py_equal (entry_of p (ifc_properties e)) (entry_of p (ifc_properties e'))})" (is "?L \<longleftrightarrow> ?R") for k fs
  proof
    assume ?L
    then obtain x k' e where x: "(k', e) \<in> set ?A" "?f (k', e) = Some x" "id_global x = k" "set (id_fields x) = fs"
      unfolding names(3) List.map_filter_def by auto
    then have "k' = k" using f_key by blast
    with x obtain e' where e': "map_of ?B k = Some e'" "modified_entry k e e' = Some x"
      by (auto split: option.splits)
    then have "id_fields x = changed_fields (ifc_properties e) (ifc_properties e')" "id_fields x \<noteq> []"
      by (auto simp: modified_entry_def Let_def split: if_splits)
    then have "fs = {p. \<not> py_equal (entry_of p (ifc_properties e)) (entry_of p (ifc_properties e'))}" "fs \<noteq> {}"
      using x(4) set_changed_fields by auto
    moreover have "map_of ?A k = Some e" using x(1) \<open>k' = k\<close> by simp
    ultimately show ?R using e'(1) by blast
  next
    assume ?R
    then obtain e e' where e: "map_of ?A k = Some e" "map_of ?B k = Some e'" "fs \<noteq> {}"
        "fs = {p. \<not> py_equal (entry_of p (ifc_properties e)) (entry_of p (ifc_properties e'))}"
      by blast
    have fs: "set (changed_fields (ifc_properties e) (ifc_properties e')) = fs"
      using set_changed_fields by (auto simp: e(4))
    with e(3) have "changed_fields (ifc_properties e) (ifc_properties e') \<noteq> []" by auto
    then obtain x where x: "modified_entry k e e' = Some x" "set (id_fields x) = fs" "id_global x = k"
      using fs by (simp add: modified_entry_def Let_def)
    have "(k, e) \<in> set ?A" using e(1) by simp
    moreover have "?f (k, e) = Some x" using e(2) x(1) by simp
    ultimately have "x \<in> set (ix_modified r)" unfolding names(3) List.map_filter_def by force
    with x show ?L by blast
  qed
  have "ix_summary r = [(''added'', length (ix_added r)), (''modified'', length (ix_modified r)), (''removed'', length (ix_removed r))]"
    by (simp add: r_def ifc_compare_def Let_def)
  then show ?thesis using added removed entries dist by (intro conjI allI)
qed


subsection \<open>Writing and reading issues\<close>

text \<open>What of an issue survives a file: an empty status becomes \<open>Open\<close>, empty references are lost.\<close>

definition as_read :: "'d bcf_issue \<Rightarrow> 'd bcf_issue" where
  "as_read i = i\<lparr>bc_status := (if bc_status i = [] then ''Open'' else bc_status i),
                 bc_elements := filter (\<lambda>s. s \<noteq> []) (bc_elements i)\<rparr>"

lemma xml_transfer_simps [simp]:
  "xml_tag (xml_transfer x) = xml_tag x" "xml_attrs (xml_transfer x) = xml_attrs x"
  "xml_text (xml_transfer x) = (if xml_text x = Some [] then None else xml_text x)"
  "xml_children (xml_transfer x) = map xml_transfer (xml_children x)"
  by (cases x; simp)+

lemma text_child_simps [simp]:
  "xml_tag (text_child t s) = t" "xml_text (text_child t s) = Some s"
  by (simp_all add: text_child_def)

lemma find_child_Cons:
  "find_child t x = (case xml_children x of [] \<Rightarrow> None | c # cs \<Rightarrow> if xml_tag c = t then Some c else find_child t (Xml (xml_tag x) [] None cs))"
  by (simp add: find_child_def split: list.splits)

lemma references_read:
  "List.map_filter (\<lambda>c. if xml_tag c = ''ReferenceLink'' then
      (case xml_text c of None \<Rightarrow> None | Some s \<Rightarrow> if s = [] then None else Some s) else None)
     (map (xml_transfer \<circ> text_child ''ReferenceLink'') els) = filter (\<lambda>s. s \<noteq> []) els"
  by (induction els) (auto simp: List.map_filter_simps)

lemma find_in_references: "List.find (\<lambda>c. xml_tag c = t) (map (xml_transfer \<circ> text_child ''ReferenceLink'') els) =
    (if t = ''ReferenceLink'' \<and> els \<noteq> [] then Some (xml_transfer (text_child ''ReferenceLink'' (hd els))) else None)"
  by (induction els) auto

lemma issue_xml_read:
  assumes "parse (iso_text (bc_date i)) = Some (bc_date i)" and "iso_text (bc_date i) \<noteq> []"
  shows "xml_to_issue parse now fresh (xml_transfer (issue_to_xml iso_text i)) = Some (as_read i)"
  using assms
  by (cases "bc_assigned i = []")
    (simp_all add: xml_to_issue_def issue_to_xml_def find_child_def child_text_def
      List.map_filter_simps references_read find_in_references as_read_def)

lemma ends_in_append [simp]: "ends_in s (x @ s)"
  by (simp add: ends_in_def)

lemma ends_in_member [simp]: "ends_in ''markup.xml'' (member_name i)"
proof -
  have "member_name i = (bc_guid i @ ''/'') @ ''markup.xml''" by (simp add: member_name_def)
  then show ?thesis by (simp only: ends_in_append)
qed

text \<open>
  BCF issues survive a file: writing issues with different identifiers to an archive and reading it
  back gives the same issues in order, with an empty status read as \<open>Open\<close> and empty references
  dropped, and the reader appends them to the issues it manages; writing no issue raises.
\<close>
theorem bcf_roundtrip:
  assumes "\<forall>i \<in> set issues. parse (iso_text (bc_date i)) = Some (bc_date i) \<and> iso_text (bc_date i) \<noteq> []"
    and "distinct (map bc_guid issues)" and "issues \<noteq> []"
  shows "\<exists>a. write_bcf iso_text (Some issues) managed = Inr a \<and>
    read_zip parse now fresh a managed' = (map as_read issues, managed' @ map as_read issues)"
proof -
  let ?a = "map (\<lambda>i. (member_name i, xml_transfer (issue_to_xml iso_text i))) issues"
  have d: "dict_ok ?a"
  proof -
    have "map fst ?a = map (\<lambda>g. g @ ''/markup.xml'') (map bc_guid issues)" by (simp add: member_name_def)
    then show ?thesis using assms(2) by (simp only: distinct_map inj_on_def) simp
  qed
  have member: "read_member ?a (member_name i) = Some (xml_transfer (issue_to_xml iso_text i))" if "i \<in> set issues" for i
  proof -
    have "(member_name i, xml_transfer (issue_to_xml iso_text i)) \<in> set (rev ?a)" using that by auto
    moreover have "dict_ok (rev ?a)" using d by (simp only: rev_map [symmetric] distinct_rev)
    ultimately show ?thesis unfolding read_member_def by simp
  qed
  have all: "filter (ends_in ''markup.xml'') (map fst ?a) = map member_name issues"
    by (simp add: filter_map comp_def)
  have "List.map_filter (\<lambda>n. case read_member ?a n of None \<Rightarrow> None | Some x \<Rightarrow> xml_to_issue parse now fresh x)
      (map member_name is) = map as_read is" if "set is \<subseteq> set issues" for "is"
    using that
  proof (induction "is")
    case (Cons i rest)
    then have "i \<in> set issues" by simp
    then show ?case
      using Cons member [of i] issue_xml_read [of parse iso_text i now fresh] assms(1)
      by (simp add: List.map_filter_simps del: xml_transfer.simps)
  qed (simp add: List.map_filter_simps)
  then have "List.map_filter (\<lambda>n. case read_member ?a n of None \<Rightarrow> None | Some x \<Rightarrow> xml_to_issue parse now fresh x)
      (map member_name issues) = map as_read issues"
    by simp
  then have "read_zip parse now fresh ?a managed' = (map as_read issues, managed' @ map as_read issues)"
    unfolding read_zip_def all Let_def by simp
  moreover have "write_bcf iso_text (Some issues) managed = Inr ?a" using assms(3) by (simp add: write_bcf_def)
  ultimately show ?thesis by blast
qed


subsection \<open>Witnesses\<close>

definition sample_ifc_library :: ifc_library where
  "sample_ifc_library =
     \<lparr>il_create = (\<lambda>t g n. Some \<lparr>ie_type = t, ie_attrs = [(''GlobalId'', P_Str g), (''Name'', n)]\<rparr>),
      il_store = (\<lambda>k v i. if k = ''Bad'' then None else Some (i\<lparr>ie_attrs := AList.update k v (ie_attrs i)\<rparr>))\<rparr>"

lemma sample_library_faithful: "stores_faithfully sample_ifc_library"
  by (auto simp: stores_faithfully_def sample_ifc_library_def entry_of_def split: if_splits)

definition sample_wall :: source_element where
  "sample_wall = \<lparr>se_type = ''WallElement'', se_attrs = [(''name'', P_Str ''W1''), (''height'', P_Int 3)]\<rparr>"

definition sample_ifc_mapping :: "string \<Rightarrow> ifc_mapping" where
  "sample_ifc_mapping k = \<lparr>im_revitpy_type = ''WallElement'', im_ifc_type = ''IfcWall'', im_property_map = [(''height'', k)], im_bidirectional = True\<rparr>"

definition sample_ifc_mapper :: "string \<Rightarrow> ifc_mapper" where
  "sample_ifc_mapper k = register_ifc_mapping ([(''height'', k)], True) ''WallElement'' ''IfcWall'' \<lparr>ir_registry = [], ir_reverse = []\<rparr>"

lemma sample_ifc_lookup:
  "get_ifc_mapping (se_type sample_wall) (sample_ifc_mapper k) = Some (sample_ifc_mapping k)"
  "get_revitpy_type (im_ifc_type (sample_ifc_mapping k)) (sample_ifc_mapper k) = Some (se_type sample_wall)"
  "im_property_map (sample_ifc_mapping k) = [(''height'', k)]"
  by (simp_all add: sample_ifc_mapper_def sample_wall_def sample_ifc_mapping_def get_ifc_mapping_def get_revitpy_type_def
      register_ifc_mapping_def)

theorem ifc_roundtrip_witness:
  "\<exists>i d. fst (to_ifc sample_ifc_library (sample_ifc_mapper ''Height'') ''g1'' sample_wall) = Inr i \<and>
     from_ifc (sample_ifc_mapper ''Height'') i None = Inr d \<and> entry_of ''height'' d = P_Int 3"
proof -
  obtain i where i: "fst (to_ifc sample_ifc_library (sample_ifc_mapper ''Height'') ''g1'' sample_wall) = Inr i"
    by (simp add: to_ifc_def sample_ifc_mapper_def register_ifc_mapping_def sample_wall_def sample_ifc_library_def attr_of_def)
  have "ifc_map_ok (im_property_map (sample_ifc_mapping ''Height''))"
    by (simp add: sample_ifc_lookup(3) ifc_map_ok_def)
  moreover have "attr_of ''name'' sample_wall \<noteq> P_None" "attr_of ''height'' sample_wall = P_Int 3"
    by (simp_all add: sample_wall_def attr_of_def)
  ultimately show ?thesis
    using ifc_roundtrip [OF sample_library_faithful sample_ifc_lookup(1,2) _ i] i by (auto simp: sample_ifc_lookup(3))
qed

theorem skipped_element_stays_in_file_witness:
  "length (snd (export_elements sample_ifc_library (sample_ifc_mapper ''Bad'') (\<lambda>n. ''g'') 3 [sample_wall])) = 1 \<and>
   fst (export_elements sample_ifc_library (sample_ifc_mapper ''Bad'') (\<lambda>n. ''g'') 3 [sample_wall]) = 0"
proof -
  let ?i = "\<lparr>ie_type = ''IfcWall'', ie_attrs = [(''GlobalId'', P_Str ''g''), (''Name'', P_Str ''W1'')]\<rparr>"
  have c: "il_create sample_ifc_library (im_ifc_type (sample_ifc_mapping ''Bad'')) ''g''
      (case map_of (se_attrs sample_wall) ''name'' of None \<Rightarrow> P_Str [] | Some v \<Rightarrow> v) = Some ?i"
    by (simp add: sample_ifc_library_def sample_ifc_mapping_def sample_wall_def)
  have s: "store_properties sample_ifc_library sample_wall (im_property_map (sample_ifc_mapping ''Bad'')) ?i = (False, ?i)"
    by (simp add: sample_ifc_lookup(3) sample_ifc_library_def sample_wall_def attr_of_def)
  show ?thesis
    using skipped_element_stays_in_file [OF sample_ifc_lookup(1) c s, of 3 "[]"] by simp
qed

theorem ids_validation_exact_witness:
  "\<not> meets sample_float sample_wall \<lparr>rq_name = ''r'', rq_entity_type = None, rq_property = Some ''width'', rq_value = Some ''2'', rq_required = False\<rparr>"
proof -
  have "attr_of ''width'' sample_wall = P_None" by (simp add: sample_wall_def attr_of_def)
  with ids_validation_exact [of sample_float "[]" "[]" "''width''" sample_wall "''2''" "''r''"] show ?thesis by simp
qed

definition sample_issue :: "string \<Rightarrow> nat bcf_issue" where
  "sample_issue g = \<lparr>bc_guid = g, bc_title = ''Clash'', bc_description = [], bc_author = ''A'', bc_date = 5, bc_status = [],
     bc_assigned = [], bc_elements = [''12'', '''']\<rparr>"

theorem bcf_roundtrip_witness:
  "\<exists>a. write_bcf (\<lambda>n. ''2024'') (Some [sample_issue ''a'', sample_issue ''b'']) [] = Inr a \<and>
     fst (read_zip (\<lambda>s. Some 5) 0 [] a []) = [as_read (sample_issue ''a''), as_read (sample_issue ''b'')]"
  using bcf_roundtrip [of "[sample_issue ''a'', sample_issue ''b'']" "\<lambda>s. Some 5" "\<lambda>n. ''2024''" "[]" 0 "[]" "[]"]
  by (auto simp: sample_issue_def)

end
