(* ===== verification/Element_Set.thy ===== *)
theory Element_Set
  imports Query_Plan
begin

text \<open>
  Element sets (\<open>orm/element_set.py\<close>): collections that hold their elements or the query that finds
  them. Sets are objects with state, so they live in a store, beside the store of the builders and
  executors of \<open>Query_Plan\<close>.

  A builder that is tested for truth is asked for its length, which runs its query: an empty query
  counts as no query. Exceptions that are not of the package, such as those of callables, are
  \<open>CallableFailed\<close>. The clock is read once in an operation.
\<close>

subsection \<open>Sets and their store\<close>

record ('t, 'a) element_set =
  os_elements :: "'a list"
  os_type :: "'t option"
  os_builder :: "'t query_builder option"
  os_done :: bool
  os_includes :: "string list"
  os_loaded :: "string list"

record ('t, 'a, 'k, 's, 'c) set_world =
  sw_sets :: "('t, 'a) element_set list"
  sw_query :: "('t, 'a, 'k, 's, 'c) query_store"

type_synonym ('r, 't, 'a, 'k, 's, 'c) set_result =
  "((query_error + 'r) \<times> ('t, 'a, 'k, 's, 'c) set_world) option"

definition new_element_set :: "'a list option \<Rightarrow> 't option \<Rightarrow> bool \<Rightarrow> 't query_builder option \<Rightarrow> ('t, 'a) element_set" where
  "new_element_set xs ty lazy b =
     \<lparr>os_elements = (case xs of None \<Rightarrow> [] | Some ys \<Rightarrow> ys), os_type = ty, os_builder = b,
      os_done = (\<not> lazy \<or> xs \<noteq> None), os_includes = [], os_loaded = []\<rparr>"

definition empty_set :: "'t option \<Rightarrow> ('t, 'a) element_set" where
  "empty_set ty = new_element_set (Some []) ty False None"

definition from_query :: "'t query_builder \<Rightarrow> ('t, 'a) element_set" where
  "from_query b = new_element_set None None True (Some b)"

definition add_set :: "('t, 'a) element_set \<Rightarrow> ('t, 'a, 'k, 's, 'c) set_world \<Rightarrow> nat \<times> ('t, 'a, 'k, 's, 'c) set_world" where
  "add_set s st = (length (sw_sets st), st\<lparr>sw_sets := sw_sets st @ [s]\<rparr>)"

definition put_set :: "nat \<Rightarrow> ('t, 'a) element_set \<Rightarrow> ('t, 'a, 'k, 's, 'c) set_world \<Rightarrow> ('t, 'a, 'k, 's, 'c) set_world" where
  "put_set i s st = st\<lparr>sw_sets := (sw_sets st)[i := s]\<rparr>"

definition set_bind ::
  "('r, 't, 'a, 'k, 's, 'c) set_result \<Rightarrow> ('r \<Rightarrow> ('t, 'a, 'k, 's, 'c) set_world \<Rightarrow> ('q, 't, 'a, 'k, 's, 'c) set_result) \<Rightarrow>
   ('q, 't, 'a, 'k, 's, 'c) set_result" where
  "set_bind r f = (case r of None \<Rightarrow> None | Some (Inl e, st) \<Rightarrow> Some (Inl e, st) | Some (Inr x, st) \<Rightarrow> f x st)"

definition on_query ::
  "(('t, 'a, 'k, 's, 'c) query_store \<Rightarrow> ('r, 't, 'a, 'k, 's, 'c) query_result) \<Rightarrow> ('t, 'a, 'k, 's, 'c) set_world \<Rightarrow>
   ('r, 't, 'a, 'k, 's, 'c) set_result" where
  "on_query f st = map_option (\<lambda>(x, q). (x, st\<lparr>sw_query := q\<rparr>)) (f (sw_query st))"

definition yields :: "(query_error + 'r) \<Rightarrow> ('t, 'a, 'k, 's, 'c) set_world \<Rightarrow> ('r, 't, 'a, 'k, 's, 'c) set_result" where
  "yields x st = Some (x, st)"

text \<open>\<open>if self._query_builder\<close>: the builder, if there is one and its query finds something.\<close>

definition query_of_set ::
  "('t, 'a, 'k::linorder, 's) query_env \<Rightarrow> int \<Rightarrow> 't query_builder option \<Rightarrow> ('t, 'a, 'k, 's, 'c) set_world \<Rightarrow>
   ('t query_builder option, 't, 'a, 'k, 's, 'c) set_result" where
  "query_of_set E now qb st =
     (case qb of
        None \<Rightarrow> yields (Inr None) st
      | Some b \<Rightarrow> set_bind (on_query (q_count E now None b) st) (\<lambda>n. yields (Inr (if 0 < n then Some b else None))))"

definition ensure_materialized ::
  "('t, 'a, 'k::linorder, 's) query_env \<Rightarrow> int \<Rightarrow> nat \<Rightarrow> ('t, 'a, 'k, 's, 'c) set_world \<Rightarrow>
   ('a list, 't, 'a, 'k, 's, 'c) set_result" where
  "ensure_materialized E now i st =
     (let s = sw_sets st ! i in
      if os_done s then yields (Inr (os_elements s)) st
      else set_bind (query_of_set E now (os_builder s) st) (\<lambda>qb st1.
             case qb of
               None \<Rightarrow> yields (Inr (os_elements s)) (put_set i (s\<lparr>os_done := True\<rparr>) st1)
             | Some b \<Rightarrow> set_bind (on_query (q_to_list E now b) st1) (\<lambda>ys st2.
                   yields (Inr ys) (put_set i (s\<lparr>os_elements := ys, os_done := True\<rparr>) st2))))"

subsection \<open>Operations that give a set\<close>

text \<open>What a lazy list is when all of it is asked for.\<close>

definition strict :: "'a lazy_list \<Rightarrow> query_error + 'a list" where
  "strict l = (case l of (xs, None) \<Rightarrow> Inr xs | (xs, Some e) \<Rightarrow> Inl (CallableFailed e))"

definition slice_from :: "int \<Rightarrow> 'a list \<Rightarrow> 'a list" where
  "slice_from n xs = drop (if n < 0 then nat (int (length xs) + n) else nat n) xs"

definition slice_upto :: "int \<Rightarrow> 'a list \<Rightarrow> 'a list" where
  "slice_upto n xs = take (if n < 0 then nat (int (length xs) + n) else nat n) xs"

text \<open>The set is derived by the builder if there is one, and from the elements otherwise.\<close>

definition derive_orm_set ::
  "('t, 'a, 'k::linorder, 's) query_env \<Rightarrow> int \<Rightarrow>
   ('t query_builder \<Rightarrow> ('t, 'a, 'k, 's, 'c) query_store \<Rightarrow> (query_error + 't query_builder) \<times> ('t, 'a, 'k, 's, 'c) query_store) \<Rightarrow>
   ('a list \<Rightarrow> query_error + 'a list) \<Rightarrow> bool \<Rightarrow> nat \<Rightarrow> ('t, 'a, 'k, 's, 'c) set_world \<Rightarrow>
   (nat, 't, 'a, 'k, 's, 'c) set_result" where
  "derive_orm_set E now f g typed i st =
     (let ty = (if typed then os_type (sw_sets st ! i) else None) in
      set_bind (query_of_set E now (os_builder (sw_sets st ! i)) st) (\<lambda>qb st1.
        case qb of
          Some b \<Rightarrow> set_bind (on_query (\<lambda>q. Some (f b q)) st1) (\<lambda>b' st2.
              Some (apfst Inr (add_set (new_element_set None ty True (Some b')) st2)))
        | None \<Rightarrow> set_bind (ensure_materialized E now i st1) (\<lambda>xs st2.
              case g xs of
                Inl e \<Rightarrow> yields (Inl e) st2
              | Inr ys \<Rightarrow> Some (apfst Inr (add_set (new_element_set (Some ys) ty False None) st2)))))"

definition os_where where
  "os_where E now p i st = derive_orm_set E now (\<lambda>b q. apfst Inr (q_where p b q)) (\<lambda>xs. strict (filter_lazy p xs None)) True i st"

definition os_select where
  "os_select E now f i st = derive_orm_set E now (\<lambda>b q. apfst Inr (q_select f b q)) (\<lambda>xs. strict (map_lazy f xs None)) False i st"

definition os_order_by where
  "os_order_by E now key i st =
     derive_orm_set E now (\<lambda>b q. apfst Inr (q_order_by key b q)) (\<lambda>xs. strict (sort_lazy key False xs None)) True i st"

definition os_order_by_descending where
  "os_order_by_descending E now key i st =
     derive_orm_set E now (\<lambda>b q. apfst Inr (q_order_by_descending key b q)) (\<lambda>xs. strict (sort_lazy key True xs None)) True i st"

definition os_skip where
  "os_skip E now n i st = derive_orm_set E now (q_skip n) (\<lambda>xs. Inr (slice_from n xs)) True i st"

definition os_take where
  "os_take E now n i st = derive_orm_set E now (q_take n) (\<lambda>xs. Inr (slice_upto n xs)) True i st"

definition os_distinct where
  "os_distinct E now key i st =
     derive_orm_set E now (\<lambda>b q. apfst Inr (q_distinct key b q))
       (\<lambda>xs. strict (distinct_lazy (case key of None \<Rightarrow> \<lambda>x. Inr (identity E x) | Some f \<Rightarrow> f) [] xs None)) True i st"

subsection \<open>Operations that give a result\<close>

definition os_source where
  "os_source E now pred i st = (case pred of None \<Rightarrow> yields (Inr i) st | Some p \<Rightarrow> os_where E now p i st)"

definition on_elements where
  "on_elements E now f i st = set_bind (ensure_materialized E now i st) (\<lambda>xs. yields (f xs))"

definition the_last :: "string \<Rightarrow> 'a list \<Rightarrow> query_error + 'a" where
  "the_last op xs = (if xs = [] then Inl (NoElements op) else Inr (last xs))"

definition os_first where
  "os_first E now pred i st = set_bind (os_source E now pred i st) (on_elements E now (the_first ''first''))"

definition os_last where
  "os_last E now pred i st = set_bind (os_source E now pred i st) (on_elements E now (the_last ''last''))"

definition os_single where
  "os_single E now pred i st = set_bind (os_source E now pred i st) (on_elements E now (the_single ''single''))"

text \<open>Only a \<open>QueryError\<close> gives the default; what a callable raises goes through.\<close>

fun is_query_error :: "query_error \<Rightarrow> bool" where
  "is_query_error (NoElements s) = True"
| "is_query_error (MoreThanOne s n) = True"
| "is_query_error (ExecutionFailed s) = True"
| "is_query_error _ = False"

definition default_on_error ::
  "'a option \<Rightarrow> ('a, 't, 'b, 'k, 's, 'c) set_result \<Rightarrow> ('a option, 't, 'b, 'k, 's, 'c) set_result" where
  "default_on_error d r =
     map_option (apfst (\<lambda>x. case x of Inr y \<Rightarrow> Inr (Some y) | Inl e \<Rightarrow> if is_query_error e then Inr d else Inl e)) r"

definition os_first_or_default where "os_first_or_default E now pred d i st = default_on_error d (os_first E now pred i st)"
definition os_last_or_default where "os_last_or_default E now pred d i st = default_on_error d (os_last E now pred i st)"
definition os_single_or_default where "os_single_or_default E now pred d i st = default_on_error d (os_single E now pred i st)"

definition any_of_set where
  "any_of_set E now i st =
     set_bind (query_of_set E now (os_builder (sw_sets st ! i)) st) (\<lambda>qb st1.
       case qb of
         Some b \<Rightarrow> on_query (q_any E now None b) st1
       | None \<Rightarrow> yields (Inr (os_elements (sw_sets st1 ! i) \<noteq> [])) st1)"

definition os_any where
  "os_any E now pred i st =
     (case pred of None \<Rightarrow> any_of_set E now i st | Some p \<Rightarrow> set_bind (os_where E now p i st) (any_of_set E now))"

fun all_satisfy :: "('a \<Rightarrow> string + bool) \<Rightarrow> 'a list \<Rightarrow> query_error + bool" where
  "all_satisfy p [] = Inr True"
| "all_satisfy p (x # xs) =
     (case p x of Inl e \<Rightarrow> Inl (CallableFailed e) | Inr b \<Rightarrow> if b then all_satisfy p xs else Inr False)"

definition os_all where
  "os_all E now p i st =
     set_bind (query_of_set E now (os_builder (sw_sets st ! i)) st) (\<lambda>qb st1.
       case qb of
         Some b \<Rightarrow> on_query (q_all E now p b) st1
       | None \<Rightarrow> on_elements E now (all_satisfy p) i st1)"

definition os_count where "os_count E now = on_elements E now (\<lambda>xs. Inr (length xs))"

definition os_contains where "os_contains E now x = on_elements E now (\<lambda>xs. Inr (x \<in> set xs))"

definition index_list :: "int \<Rightarrow> 'a list \<Rightarrow> query_error + 'a" where
  "index_list n xs =
     (let k = (if n < 0 then int (length xs) + n else n) in
      if 0 \<le> k \<and> k < int (length xs) then Inr (xs ! nat k) else Inl (CallableFailed ''list index out of range''))"

definition os_getitem where "os_getitem E now n = on_elements E now (index_list n)"

definition os_to_list where "os_to_list E now = on_elements E now Inr"

definition os_to_dict where "os_to_dict E now key = on_elements E now (\<lambda>xs. dict_by key xs [])"

definition os_to_lookup where "os_to_lookup E now key = on_elements E now (\<lambda>xs. group_into key xs [])"

fun add_groups ::
  "'t option \<Rightarrow> ('k, 'a list) dict \<Rightarrow> ('t, 'a, 'l, 's, 'c) set_world \<Rightarrow> ('k, nat) dict \<times> ('t, 'a, 'l, 's, 'c) set_world" where
  "add_groups ty [] st = ([], st)"
| "add_groups ty ((k, xs) # gs) st =
     (case add_set (new_element_set (Some xs) ty False None) st of
        (i, st1) \<Rightarrow> apfst (Cons (k, i)) (add_groups ty gs st1))"

definition os_group_by where
  "os_group_by E now key i st =
     set_bind (os_to_lookup E now key i st) (\<lambda>gs st1. Some (apfst Inr (add_groups (os_type (sw_sets st ! i)) gs st1)))"

text \<open>Aggregates. Numbers are of any type with a zero and an addition; \<open>divide\<close> is division by a length.\<close>

fun sum_by :: "('a \<Rightarrow> string + 'n::{zero, plus}) \<Rightarrow> 'a list \<Rightarrow> 'n \<Rightarrow> query_error + 'n" where
  "sum_by f [] n = Inr n"
| "sum_by f (x # xs) n = (case f x of Inl e \<Rightarrow> Inl (CallableFailed e) | Inr y \<Rightarrow> sum_by f xs (n + y))"

definition os_sum where "os_sum E now f = on_elements E now (\<lambda>xs. sum_by f xs 0)"

definition os_average where
  "os_average E now div_count f =
     on_elements E now (\<lambda>xs. if xs = [] then Inl (NoElements ''average'') else map_sum id (\<lambda>n. div_count n (length xs)) (sum_by f xs 0))"

fun best_by :: "('k \<Rightarrow> 'k \<Rightarrow> bool) \<Rightarrow> ('a \<Rightarrow> string + 'k) \<Rightarrow> 'a \<Rightarrow> 'k \<Rightarrow> 'a list \<Rightarrow> query_error + 'a" where
  "best_by better key b kb [] = Inr b"
| "best_by better key b kb (x # xs) =
     (case key x of
        Inl e \<Rightarrow> Inl (CallableFailed e)
      | Inr k \<Rightarrow> if better k kb then best_by better key x k xs else best_by better key b kb xs)"

definition best_of :: "string \<Rightarrow> ('k \<Rightarrow> 'k \<Rightarrow> bool) \<Rightarrow> ('a \<Rightarrow> string + 'k) \<Rightarrow> 'a list \<Rightarrow> query_error + 'a" where
  "best_of op better key xs =
     (case xs of
        [] \<Rightarrow> Inl (NoElements op)
      | x # ys \<Rightarrow> (case key x of Inl e \<Rightarrow> Inl (CallableFailed e) | Inr k \<Rightarrow> best_by better key x k ys))"

definition os_min where "os_min E now key = on_elements E now (best_of ''min'' (\<lambda>k l. k < l) key)"

definition os_max where "os_max E now key = on_elements E now (best_of ''max'' (\<lambda>k l. l < k) key)"

subsection \<open>Two sets\<close>

definition combine_sets where
  "combine_sets E now f i j st =
     set_bind (ensure_materialized E now i st) (\<lambda>xs st1.
       set_bind (ensure_materialized E now j st1) (\<lambda>ys st2.
         Some (apfst Inr (add_set (new_element_set (Some (f xs ys)) (os_type (sw_sets st ! i)) False None) st2))))"

definition list_union :: "'a list \<Rightarrow> 'a list \<Rightarrow> 'a list" where
  "list_union xs ys = fold pset_add ys xs"

definition os_union where "os_union E now = combine_sets E now list_union"

definition os_intersect where "os_intersect E now = combine_sets E now (\<lambda>xs ys. filter (\<lambda>x. x \<in> set ys) xs)"

definition os_except where "os_except E now = combine_sets E now (\<lambda>xs ys. filter (\<lambda>x. x \<notin> set ys) xs)"

subsection \<open>Relationships and effects on the elements\<close>

text \<open>The new set knows the given path and none of the paths that this set includes.\<close>

definition os_include where
  "os_include E now path i st =
     (let s = sw_sets st ! i in
      set_bind (query_of_set E now (os_builder s) st) (\<lambda>qb st1.
        case qb of
          Some b \<Rightarrow> Some (apfst Inr (add_set ((new_element_set None (os_type s) True (Some b))\<lparr>os_includes := [path]\<rparr>) st1))
        | None \<Rightarrow> Some (apfst Inr (add_set ((new_element_set (Some (os_elements (sw_sets st1 ! i))) (os_type s) False None)
                     \<lparr>os_includes := [path]\<rparr>) st1))))"

text \<open>Actions on the elements, one after the other until one raises.\<close>

fun run_each :: "('a \<Rightarrow> ('w, string) action) \<Rightarrow> 'a list \<Rightarrow> ('w, string) action" where
  "run_each f [] w = (w, None)"
| "run_each f (x # xs) w = (case f x w of (w', Some e) \<Rightarrow> (w', Some e) | (w', None) \<Rightarrow> run_each f xs w')"

definition on_world where
  "on_world r w f = (case r of None \<Rightarrow> None | Some (Inl e, st) \<Rightarrow> Some (Inl e, st, w)
     | Some (Inr xs, st) \<Rightarrow> Some (case f xs st w of (x, st', w') \<Rightarrow> (x, st', w')))"

definition os_for_each where
  "os_for_each E now act i st w =
     on_world (ensure_materialized E now i st) w (\<lambda>xs st1 w1.
       case run_each act xs w1 of
         (w2, None) \<Rightarrow> (Inr (), st1, w2)
       | (w2, Some e) \<Rightarrow> (Inl (CallableFailed e), st1, w2))"

text \<open>\<open>loadable\<close>: the element has a method \<open>_load_relationship\<close>; only the first one is asked.\<close>

definition os_load_relationship where
  "os_load_relationship E now loadable load name i st w =
     on_world (ensure_materialized E now i st) w (\<lambda>xs st1 w1.
       case xs of
         [] \<Rightarrow> (Inl (CallableFailed ''list index out of range''), st1, w1)
       | x # _ \<Rightarrow>
           (case (if loadable x then run_each (load name) xs w1 else (w1, None)) of
              (w2, Some e) \<Rightarrow> (Inl (CallableFailed e), st1, w2)
            | (w2, None) \<Rightarrow>
                (let s = sw_sets st1 ! i in (Inr (), put_set i (s\<lparr>os_loaded := pset_add name (os_loaded s)\<rparr>) st1, w2))))"

fun update_attributes ::
  "('a \<Rightarrow> string \<Rightarrow> 'w \<Rightarrow> bool) \<Rightarrow> ('a \<Rightarrow> string \<Rightarrow> 'v \<Rightarrow> ('w, string) action) \<Rightarrow> ('a \<times> string \<times> 'v) list \<Rightarrow> nat \<Rightarrow> 'w \<Rightarrow>
   (query_error + nat) \<times> 'w" where
  "update_attributes has put [] n w = (Inr n, w)"
| "update_attributes has put ((x, p, v) # us) n w =
     (if has x p w
      then (case put x p v w of
              (w', Some e) \<Rightarrow> (Inl (CallableFailed e), w')
            | (w', None) \<Rightarrow> update_attributes has put us (Suc n) w')
      else update_attributes has put us n w)"

definition batch_list :: "int \<Rightarrow> 'a list \<Rightarrow> query_error + 'a list list" where
  "batch_list n xs =
     (if n = 0 then Inl (ValueErr ''range() arg 3 must not be zero'') else if n < 0 then Inr [] else Inr (chunks (nat n) xs))"

definition os_batch_update where
  "os_batch_update E now has put ups n i st w =
     on_world (ensure_materialized E now i st) w (\<lambda>xs st1 w1.
       case batch_list n xs of
         Inl e \<Rightarrow> (Inl e, st1, w1)
       | Inr bs \<Rightarrow>
           (case update_attributes has put (concat (map (\<lambda>b. List.product b ups) bs)) 0 w1 of (x, w2) \<Rightarrow> (x, st1, w2)))"

subsection \<open>Asynchronous sets\<close>

text \<open>\<open>element_set or ElementSet()\<close>: a set is tested for truth by \<open>any\<close>, and an empty one is replaced.\<close>

record 't async_set =
  as_set :: nat
  as_builder :: "'t query_builder option"

definition new_async_set where
  "new_async_set E now so qb st =
     set_bind (case so of None \<Rightarrow> yields (Inr False) st | Some i \<Rightarrow> os_any E now None i st) (\<lambda>full st1.
       case (if full then so else None) of
         Some i \<Rightarrow> yields (Inr \<lparr>as_set = i, as_builder = qb\<rparr>) st1
       | None \<Rightarrow> Some (apfst (\<lambda>i. Inr \<lparr>as_set = i, as_builder = qb\<rparr>) (add_set (new_element_set None None True None) st1)))"

definition derive_async where
  "derive_async E now f g a st =
     set_bind (query_of_set E now (as_builder a) st) (\<lambda>qb st1.
       case qb of
         Some b \<Rightarrow> set_bind (on_query (\<lambda>q. Some (f b q)) st1) (\<lambda>b'. new_async_set E now None (Some b'))
       | None \<Rightarrow> set_bind (g (as_set a) st1) (\<lambda>i. new_async_set E now (Some i) None))"

definition as_where where
  "as_where E now p = derive_async E now (\<lambda>b q. apfst Inr (q_where p b q)) (os_where E now p)"

definition as_select where
  "as_select E now f = derive_async E now (\<lambda>b q. apfst Inr (q_select f b q)) (os_select E now f)"

definition as_order_by where
  "as_order_by E now key = derive_async E now (\<lambda>b q. apfst Inr (q_order_by key b q)) (os_order_by E now key)"

definition as_skip where "as_skip E now n = derive_async E now (q_skip n) (os_skip E now n)"

definition as_take where "as_take E now n = derive_async E now (q_take n) (os_take E now n)"

definition async_terminal where
  "async_terminal E now f g a st =
     set_bind (query_of_set E now (as_builder a) st) (\<lambda>qb st1.
       case qb of Some b \<Rightarrow> on_query (f b) st1 | None \<Rightarrow> g (as_set a) st1)"

definition as_first where
  "as_first E now pred = async_terminal E now (q_first_async E now pred) (os_first E now pred)"

definition as_count where
  "as_count E now pred =
     async_terminal E now (q_count_async E now pred) (\<lambda>i st. set_bind (os_source E now pred i st) (os_count E now))"

definition as_any where
  "as_any E now pred = async_terminal E now (q_any_async E now pred) (os_any E now pred)"

definition as_to_list where
  "as_to_list E now = async_terminal E now (q_to_list E now) (os_to_list E now)"

definition as_batch_update where
  "as_batch_update E now has put ups n a st w = os_batch_update E now has put ups n (as_set a) st w"


subsection \<open>Lemmas\<close>

lemma set_bind_simps [simp]:
  "set_bind None f = None"
  "set_bind (Some (Inl e, st)) f = Some (Inl e, st)"
  "set_bind (Some (Inr x, st)) f = f x st"
  "set_bind (yields (Inl e) st) f = yields (Inl e) st"
  "set_bind (yields (Inr x) st) f = f x st"
  by (simp_all add: set_bind_def yields_def)

lemma query_of_set_simps [simp]:
  "query_of_set E now None st = yields (Inr None) st"
  by (simp add: query_of_set_def)

lemma executed_stays:
  assumes "builder_execute E now b q = Some (Inr ys, q1)" "qb_exec b < length (executors q)"
  shows "builder_execute E' now' b q1 = Some (Inr ys, set_executor_plan b q1)"
    and "qb_exec b < length (executors q1)"
proof -
  have "ex_executed (executors q1 ! qb_exec b) \<and> ex_results (executors q1 ! qb_exec b) = Some ys \<and>
      length (executors q1) = length (executors q)"
    using assms
    by (auto simp: builder_execute_def execute_def Let_def set_executor_plan_def put_executor_def finish_def
        split: option.splits if_splits sum.splits prod.splits)
  then show "builder_execute E' now' b q1 = Some (Inr ys, set_executor_plan b q1)" "qb_exec b < length (executors q1)"
    using assms(2)
    by (simp_all add: builder_execute_def execute_def set_executor_plan_def put_executor_def set_query_plan_def)
qed

lemma count_executes:
  "q_count E now None b q = map_option (apfst (map_sum id length)) (builder_execute E now b q)"
  unfolding q_count_def where_opt_def then_result_def option.case prod.case
  by (intro arg_cong [where f = "\<lambda>g. map_option (apfst g) (builder_execute E now b q)"] ext) (simp split: sum.splits)

lemma query_of_set_Some:
  "query_of_set E now (Some b) st =
     (case builder_execute E now b (sw_query st) of
        None \<Rightarrow> None
      | Some (Inl e, q) \<Rightarrow> Some (Inl e, st\<lparr>sw_query := q\<rparr>)
      | Some (Inr ys, q) \<Rightarrow> Some (Inr (if ys = [] then None else Some b), st\<lparr>sw_query := q\<rparr>))"
  by (auto simp: query_of_set_def on_query_def count_executes yields_def split: option.splits sum.splits prod.splits)

definition set_ok :: "nat \<Rightarrow> ('t, 'a, 'k, 's, 'c) set_world \<Rightarrow> bool" where
  "set_ok i st \<longleftrightarrow> i < length (sw_sets st) \<and> (\<not> os_done (sw_sets st ! i) \<longrightarrow> os_elements (sw_sets st ! i) = []) \<and>
     (case os_builder (sw_sets st ! i) of None \<Rightarrow> True | Some b \<Rightarrow> qb_exec b < length (executors (sw_query st)))"

lemma materialize_query:
  assumes "set_ok i st" "\<not> os_done (sw_sets st ! i)" "os_builder (sw_sets st ! i) = Some b"
  shows "ensure_materialized E now i st =
     (case builder_execute E now b (sw_query st) of
        None \<Rightarrow> None
      | Some (Inl e, q) \<Rightarrow> Some (Inl e, st\<lparr>sw_query := q\<rparr>)
      | Some (Inr ys, q) \<Rightarrow>
          Some (Inr ys, put_set i ((sw_sets st ! i)\<lparr>os_elements := ys, os_done := True\<rparr>)
                 (st\<lparr>sw_query := (if ys = [] then q else set_executor_plan b q)\<rparr>)))"
proof -
  have e: "os_elements (sw_sets st ! i) = []" "qb_exec b < length (executors (sw_query st))"
    using assms by (auto simp: set_ok_def)
  have s: "(sw_sets st ! i)\<lparr>os_done := True\<rparr> = (sw_sets st ! i)\<lparr>os_elements := [], os_done := True\<rparr>"
    using e(1) by simp
  show ?thesis
  proof (cases "builder_execute E now b (sw_query st)")
    case (Some r)
    obtain x q where r: "r = (x, q)" by (cases r)
    show ?thesis
    proof (cases x)
      case (Inr ys)
      with Some r e assms executed_stays(1) [of E now b "sw_query st" ys q E now] show ?thesis
        by (simp add: ensure_materialized_def query_of_set_Some on_query_def q_to_list_def yields_def put_set_def s)
    qed (use Some r assms in \<open>simp add: ensure_materialized_def query_of_set_Some yields_def\<close>)
  qed (use assms in \<open>simp add: ensure_materialized_def query_of_set_Some\<close>)
qed

definition eager_set :: "nat \<Rightarrow> ('t, 'a, 'k, 's, 'c) set_world \<Rightarrow> 'a list \<Rightarrow> bool" where
  "eager_set i st xs \<longleftrightarrow> i < length (sw_sets st) \<and> os_done (sw_sets st ! i) \<and> os_builder (sw_sets st ! i) = None \<and>
     os_elements (sw_sets st ! i) = xs"

lemma eager_materialized: "eager_set i st xs \<Longrightarrow> ensure_materialized E now i st = Some (Inr xs, st)"
  by (auto simp: eager_set_def ensure_materialized_def Let_def yields_def)

lemma eager_add: "eager_set (length (sw_sets st)) (snd (add_set (new_element_set (Some ys) ty False None) st)) ys"
  by (simp add: eager_set_def add_set_def new_element_set_def)

lemma eager_added: "eager_set i st xs \<Longrightarrow> eager_set i (snd (add_set s st)) xs"
  by (auto simp: eager_set_def add_set_def nth_append)

lemma derive_eager:
  assumes "eager_set i st xs"
  shows "(\<forall>e. g xs = Inl e \<longrightarrow> derive_orm_set E now f g typed i st = Some (Inl e, st)) \<and>
    (\<forall>ys. g xs = Inr ys \<longrightarrow> (\<exists>j st'. derive_orm_set E now f g typed i st = Some (Inr j, st') \<and> eager_set j st' ys \<and>
        sw_query st' = sw_query st))"
proof -
  have "os_builder (sw_sets st ! i) = None" using assms by (simp add: eager_set_def)
  then have "derive_orm_set E now f g typed i st =
      (case g xs of Inl e \<Rightarrow> yields (Inl e) st
       | Inr ys \<Rightarrow> Some (apfst Inr (add_set (new_element_set (Some ys) (if typed then os_type (sw_sets st ! i) else None) False None) st)))"
    by (simp add: derive_orm_set_def Let_def eager_materialized [OF assms])
  then show ?thesis
    using eager_add [of st] by (auto simp: yields_def add_set_def)
qed

fun os_apply where
  "os_apply E now (QFilter p) i st = os_where E now p i st"
| "os_apply E now (QSelect f) i st = os_select E now f i st"
| "os_apply E now (QOrderBy key desc) i st = (if desc then os_order_by_descending E now key i st else os_order_by E now key i st)"
| "os_apply E now (QSkip n) i st = os_skip E now (int n) i st"
| "os_apply E now (QTake n) i st = os_take E now (int n) i st"
| "os_apply E now (QDistinct key) i st = os_distinct E now key i st"

fun os_chain where
  "os_chain E now [] i st = yields (Inr i) st"
| "os_chain E now (p # ps) i st = set_bind (os_apply E now p i st) (os_chain E now ps)"

lemma os_apply_eager:
  assumes "eager_set i st xs"
  shows "case apply_operation (identity E) p (xs, None) of
      (ys, None) \<Rightarrow> \<exists>j st'. os_apply E now p i st = Some (Inr j, st') \<and> eager_set j st' ys \<and> sw_query st' = sw_query st
    | (ys, Some e) \<Rightarrow> os_apply E now p i st = Some (Inl (CallableFailed e), st)"
  using derive_eager [OF assms]
  by (cases p)
    (auto simp: apply_operation_def os_where_def os_select_def os_order_by_def os_order_by_descending_def os_skip_def
      os_take_def os_distinct_def strict_def slice_from_def slice_upto_def take_lazy_def split: option.splits prod.splits)

text \<open>The pipeline in which every operation is carried out before the next begins.\<close>

fun eager_operations :: "('a \<Rightarrow> 'k) \<Rightarrow> ('a, 'k::linorder) query_op list \<Rightarrow> 'a list \<Rightarrow> query_error + 'a list" where
  "eager_operations ident [] xs = Inr xs"
| "eager_operations ident (p # ps) xs =
     (case apply_operation ident p (xs, None) of
        (ys, None) \<Rightarrow> eager_operations ident ps ys
      | (ys, Some e) \<Rightarrow> Inl (CallableFailed e))"

lemma eager_operations_lazy:
  "eager_operations ident ps xs = Inr ys \<Longrightarrow> apply_operations ident ps (xs, None) = (ys, None)"
  by (induction ps arbitrary: xs) (auto split: prod.splits option.splits)

lemma os_chain_eager:
  "eager_set i st xs \<Longrightarrow>
   (case eager_operations (identity E) ps xs of
      Inl e \<Rightarrow> \<exists>st'. os_chain E now ps i st = Some (Inl e, st') \<and> sw_query st' = sw_query st
    | Inr ys \<Rightarrow> \<exists>j st'. os_chain E now ps i st = Some (Inr j, st') \<and> eager_set j st' ys \<and> sw_query st' = sw_query st)"
proof (induction ps arbitrary: i st xs)
  case (Cons p ps)
  obtain ys err where p: "apply_operation (identity E) p (xs, None) = (ys, err)" by (cases "apply_operation (identity E) p (xs, None)")
  show ?case
  proof (cases err)
    case None
    with p os_apply_eager [OF Cons.prems, where E = E and p = p and now = now] obtain j st1
      where "os_apply E now p i st = Some (Inr j, st1)" "eager_set j st1 ys" "sw_query st1 = sw_query st" by auto
    with p None Cons.IH [of j st1 ys] show ?thesis by (auto split: sum.splits)
  next
    case (Some e)
    with p os_apply_eager [OF Cons.prems, where E = E and p = p and now = now] show ?thesis by simp
  qed
qed (simp add: yields_def)


subsection \<open>Properties\<close>

definition no_cache :: "(unit, 'v) backend" where
  "no_cache = \<lparr>b_get = (\<lambda>_ _ s. (Inr None, s)), b_set = (\<lambda>_ _ _ s. Some (Inr False, s)), b_delete = (\<lambda>_ s. (Inr False, s)),
     b_clear = (\<lambda>s. (None, s)), b_keys = (\<lambda>s. (Inr [], s)), b_size = (\<lambda>_. 0), b_invalidate = None\<rparr>"

definition sample_env :: "(string + nat list) \<Rightarrow> (unit, nat, nat, unit) query_env" where
  "sample_env r = \<lparr>all_elements = r, elements_of_type = (\<lambda>_. r), type_text = (\<lambda>_. ''Wall''), plan_hash = (\<lambda>_. ''h''),
     identity = (\<lambda>x. x), q_backend = no_cache, q_config = sample_config 2 LRU\<rparr>"

definition sample_orm_builder :: "unit query_builder" where
  "sample_orm_builder = \<lparr>qb_type = None, qb_plan = 0, qb_exec = 0\<rparr>"

definition sample_store :: "(unit, nat, nat, unit, unit) query_store" where
  "sample_store = \<lparr>plans = [empty_plan], executors = [new_executor None], q_cache = new_manager (sample_config 2 LRU) ()\<rparr>"

definition sample_sets :: "(unit, nat, nat, unit, unit) set_world" where
  "sample_sets = \<lparr>sw_sets = [from_query sample_orm_builder, new_element_set (Some [1, 5, 2]) None False None,
     new_element_set (Some [5, 9, 9]) None False None], sw_query = sample_store\<rparr>"

lemma sample_facts:
  "set_ok 0 sample_sets" "\<not> os_done (sw_sets sample_sets ! 0)" "os_builder (sw_sets sample_sets ! 0) = Some sample_orm_builder"
  "eager_set 1 sample_sets [1, 5, 2]" "eager_set 2 sample_sets [5, 9, 9]" "sw_query sample_sets = sample_store"
  by (simp_all add: set_ok_def sample_sets_def from_query_def new_element_set_def sample_orm_builder_def sample_store_def eager_set_def)

lemma sample_runs: "\<exists>q. builder_execute (sample_env r) now sample_orm_builder sample_store = Some (map_sum ExecutionFailed id r, q)"
  by (cases r) (simp_all add: builder_execute_def execute_def Let_def set_executor_plan_def put_executor_def sample_store_def
      sample_orm_builder_def new_executor_def set_query_plan_def builder_plan_def empty_plan_def optimize_def reorder_def
      query_results_def sample_env_def no_cache_def cm_get_def cm_set_def)

text \<open>
  Materialising a set that a query backs runs the query once and keeps what it finds: afterwards
  every operation that reads the elements gives these, whatever the provider, the cache and the
  builder have become.
\<close>

theorem materialized_set_is_fixed:
  assumes "set_ok i st" "\<not> os_done (sw_sets st ! i)" "os_builder (sw_sets st ! i) = Some b"
    and "builder_execute E now b (sw_query st) = Some (Inr ys, q)"
  shows "\<exists>st'. os_to_list E now i st = Some (Inr ys, st') \<and> os_builder (sw_sets st' ! i) = Some b \<and>
    (\<forall>E' now' q'. os_to_list E' now' i (st'\<lparr>sw_query := q'\<rparr>) = Some (Inr ys, st'\<lparr>sw_query := q'\<rparr>) \<and>
       os_count E' now' i (st'\<lparr>sw_query := q'\<rparr>) = Some (Inr (length ys), st'\<lparr>sw_query := q'\<rparr>))"
proof -
  have i: "i < length (sw_sets st)" using assms(1) by (simp add: set_ok_def)
  show ?thesis
    using materialize_query [OF assms(1-3), of E now] assms(3,4) i
    by (simp add: os_to_list_def os_count_def on_elements_def yields_def ensure_materialized_def put_set_def)
qed

theorem materialized_set_is_fixed_witness:
  "\<exists>st'. os_to_list (sample_env (Inr [4])) 0 0 sample_sets = Some (Inr [4], st') \<and>
     os_to_list (sample_env (Inr [7, 7])) 9 0 st' = Some (Inr [4], st')"
proof -
  obtain q where "builder_execute (sample_env (Inr [4])) 0 sample_orm_builder sample_store = Some (Inr [4], q)"
    using sample_runs [of "Inr [4]" 0] by auto
  then obtain st' where st': "os_to_list (sample_env (Inr [4])) 0 0 sample_sets = Some (Inr [4], st')"
    "\<And>q'. os_to_list (sample_env (Inr [7, 7])) 9 0 (st'\<lparr>sw_query := q'\<rparr>) = Some (Inr [4], st'\<lparr>sw_query := q'\<rparr>)"
    using materialized_set_is_fixed [OF sample_facts(1-3), of "sample_env (Inr [4])" 0 "[4]" q] by (auto simp: sample_facts(6))
  with st'(2) [of "sw_query st'"] show ?thesis by auto
qed

text \<open>
  On elements at hand a chain of operations is the list pipeline in the order in which it is
  written: when it gives a set, that set has the elements of the pipeline, and when it raises, a
  callable raised. It never asks the provider or the cache.
\<close>

theorem eager_chain_is_pipeline:
  assumes "eager_set i st xs" and "os_chain E now ps i st = Some (r, st')"
  shows "sw_query st' = sw_query st \<and>
    (case r of
       Inl e \<Rightarrow> \<exists>x. e = CallableFailed x
     | Inr j \<Rightarrow> \<exists>ys. apply_operations (identity E) ps (xs, None) = (ys, None) \<and> os_to_list E now' j st' = Some (Inr ys, st'))"
proof (cases "eager_operations (identity E) ps xs")
  case (Inl e)
  moreover have "eager_operations ident ps xs = Inl e \<Longrightarrow> \<exists>x. e = CallableFailed x" for ident
    by (induction ps arbitrary: xs) (auto split: prod.splits option.splits)
  ultimately show ?thesis using os_chain_eager [OF assms(1), where E = E and ps = ps and now = now] assms(2) by auto
next
  case (Inr ys)
  then obtain j where "r = Inr j" "eager_set j st' ys" "sw_query st' = sw_query st"
    using os_chain_eager [OF assms(1), where E = E and ps = ps and now = now] assms(2) by auto
  with eager_operations_lazy [OF Inr] show ?thesis
    by (simp add: os_to_list_def on_elements_def eager_materialized yields_def)
qed

theorem eager_chain_is_pipeline_witness:
  "\<exists>j st'. os_chain (sample_env (Inr [])) 0 [QFilter (\<lambda>x. Inr (x < 4)), QOrderBy (\<lambda>x. Inr x) True] 1 sample_sets = Some (Inr j, st') \<and>
     os_to_list (sample_env (Inr [])) 0 j st' = Some (Inr [2, 1], st')"
proof -
  let ?ps = "[QFilter (\<lambda>x. Inr (x < 4)), QOrderBy (\<lambda>x. Inr x) True] :: (nat, nat) query_op list"
  have "eager_operations (identity (sample_env (Inr []))) ?ps [1, 5, 2] = Inr [2, 1]"
    by (simp add: apply_operation_def sort_lazy_def sort_pairs_def)
  with os_chain_eager [OF sample_facts(4), where E = "sample_env (Inr [])" and ps = ?ps and now = 0] obtain j st'
    where run: "os_chain (sample_env (Inr [])) 0 ?ps 1 sample_sets = Some (Inr j, st')" by auto
  from eager_chain_is_pipeline [OF sample_facts(4) run] run show ?thesis
    by (auto simp: apply_operation_def sort_lazy_def sort_pairs_def)
qed

text \<open>
  No operation on a query-backed set is lazy: each first asks its builder for its length, which
  runs the query. If that fails, so does the operation, and no set is made.
\<close>

theorem deriving_runs_query:
  assumes "os_builder (sw_sets st ! i) = Some b" and "builder_execute E now b (sw_query st) = Some (Inl e, q)"
  shows "os_apply E now p i st = Some (Inl e, st\<lparr>sw_query := q\<rparr>)"
  using assms
  by (cases p) (simp_all add: os_where_def os_select_def os_order_by_def os_order_by_descending_def os_skip_def
      os_take_def os_distinct_def derive_orm_set_def query_of_set_Some)

theorem deriving_runs_query_witness:
  "\<exists>st'. os_apply (sample_env (Inl ''closed'')) 0 (QTake 1) 0 sample_sets = Some (Inl (ExecutionFailed ''closed''), st')"
proof -
  obtain q where "builder_execute (sample_env (Inl ''closed'')) 0 sample_orm_builder (sw_query sample_sets) =
      Some (Inl (ExecutionFailed ''closed''), q)"
    using sample_runs [of "Inl ''closed''" 0] by (auto simp: sample_facts(6))
  from deriving_runs_query [OF sample_facts(3) this] show ?thesis by blast
qed

text \<open>
  A negative count is an error for a query that finds something, and Python's slice from the end
  for elements at hand and for a query that finds nothing.
\<close>

theorem negative_skip_depends_on_backing:
  assumes "n < 0"
  shows "(eager_set i st xs \<longrightarrow> (\<exists>j st'. os_skip E now n i st = Some (Inr j, st') \<and>
           eager_set j st' (drop (length xs - nat (- n)) xs))) \<and>
    (os_builder (sw_sets st ! i) = Some b \<and> builder_execute E now b (sw_query st) = Some (Inr ys, q) \<and> ys \<noteq> [] \<longrightarrow>
         os_skip E now n i st = Some (Inl (ValueErr ''Skip count cannot be negative''), st\<lparr>sw_query := q\<rparr>))"
proof (intro conjI impI)
  assume e: "eager_set i st xs"
  have "nat (int (length xs) + n) = length xs - nat (- n)" using assms by simp
  then have slice: "slice_from n xs = drop (length xs - nat (- n)) xs" using assms by (simp add: slice_from_def)
  obtain j st' where "os_skip E now n i st = Some (Inr j, st')" "eager_set j st' (slice_from n xs)"
    unfolding os_skip_def using derive_eager [OF e, of "\<lambda>xs. Inr (slice_from n xs)" E now "q_skip n" True] by blast
  then show "\<exists>j st'. os_skip E now n i st = Some (Inr j, st') \<and> eager_set j st' (drop (length xs - nat (- n)) xs)"
    unfolding slice by blast
next
  assume "os_builder (sw_sets st ! i) = Some b \<and> builder_execute E now b (sw_query st) = Some (Inr ys, q) \<and> ys \<noteq> []"
  with assms show "os_skip E now n i st = Some (Inl (ValueErr ''Skip count cannot be negative''), st\<lparr>sw_query := q\<rparr>)"
    by (simp add: os_skip_def derive_orm_set_def query_of_set_Some on_query_def q_skip_def)
qed

theorem negative_skip_depends_on_backing_witness:
  "(\<exists>j st'. os_skip (sample_env (Inr [4])) 0 (- 1) 1 sample_sets = Some (Inr j, st') \<and> eager_set j st' [2]) \<and>
   (\<exists>st'. os_skip (sample_env (Inr [4])) 0 (- 1) 0 sample_sets = Some (Inl (ValueErr ''Skip count cannot be negative''), st'))"
proof -
  obtain q where "builder_execute (sample_env (Inr [4])) 0 sample_orm_builder (sw_query sample_sets) = Some (Inr [4], q)"
    using sample_runs [of "Inr [4]" 0] by (auto simp: sample_facts(6))
  with negative_skip_depends_on_backing [of "- 1" 0 sample_sets _ "sample_env (Inr [4])" 0 sample_orm_builder "[4]" q]
    negative_skip_depends_on_backing [of "- 1" 1 sample_sets "[1, 5, 2]" "sample_env (Inr [4])" 0]
  show ?thesis using sample_facts(3,4) by auto
qed

lemma set_list_union [simp]: "set (list_union xs ys) = set xs \<union> set ys"
  by (induction ys arbitrary: xs) (auto simp: list_union_def)

lemma list_union_prefix: "\<exists>zs. list_union xs ys = xs @ zs \<and> distinct zs \<and> set zs = set ys - set xs"
proof (induction ys rule: rev_induct)
  case (snoc y ys)
  then obtain zs where zs: "list_union xs ys = xs @ zs" "distinct zs" "set zs = set ys - set xs" by blast
  have "list_union xs (ys @ [y]) = pset_add y (xs @ zs)" using zs(1) by (simp add: list_union_def)
  then have "list_union xs (ys @ [y]) = xs @ (if y \<in> set xs \<union> set zs then zs else zs @ [y])"
    by (simp add: pset_add_def)
  moreover have "distinct (if y \<in> set xs \<union> set zs then zs else zs @ [y])" using zs(2) by simp
  moreover have "set (if y \<in> set xs \<union> set zs then zs else zs @ [y]) = set (ys @ [y]) - set xs" using zs(3) by auto
  ultimately show ?case by blast
qed (simp add: list_union_def)

text \<open>
  The union of two sets at hand is the first, repetitions included, followed by the other elements
  of the second, once each; the intersection and the difference split the first set.
\<close>

theorem set_algebra:
  assumes "eager_set i st xs" "eager_set j st ys"
  shows "\<exists>u su zs k sk l sl.
    (os_union E now i j st = Some (Inr u, su) \<and> eager_set u su (xs @ zs) \<and> distinct zs \<and> set zs = set ys - set xs) \<and>
    (os_intersect E now i j st = Some (Inr k, sk) \<and> eager_set k sk (filter (\<lambda>x. x \<in> set ys) xs)) \<and>
    os_except E now i j st = Some (Inr l, sl) \<and> eager_set l sl (filter (\<lambda>x. x \<notin> set ys) xs)"
proof -
  have c: "\<exists>k sk. combine_sets E now f i j st = Some (Inr k, sk) \<and> eager_set k sk (f xs ys)" for f
  proof -
    let ?s = "new_element_set (Some (f xs ys)) (os_type (sw_sets st ! i)) False None"
    have "combine_sets E now f i j st = Some (apfst Inr (add_set ?s st))"
      unfolding combine_sets_def eager_materialized [OF assms(1)] eager_materialized [OF assms(2)] set_bind_simps ..
    also have "\<dots> = Some (Inr (length (sw_sets st)), snd (add_set ?s st))" by (simp add: add_set_def)
    finally show ?thesis using eager_add [of st "f xs ys"] by (intro exI conjI)
  qed
  obtain zs where zs: "list_union xs ys = xs @ zs" "distinct zs" "set zs = set ys - set xs" using list_union_prefix [of xs ys] by (elim exE conjE) (rule that)
  obtain u su where u: "os_union E now i j st = Some (Inr u, su)" "eager_set u su (xs @ zs)"
    using c [of list_union] by (elim exE conjE) (rule that, simp_all only: os_union_def zs(1))
  obtain k sk where k: "os_intersect E now i j st = Some (Inr k, sk)" "eager_set k sk (filter (\<lambda>x. x \<in> set ys) xs)"
    using c [of "\<lambda>xs ys. filter (\<lambda>x. x \<in> set ys) xs"] by (elim exE conjE) (rule that, simp_all only: os_intersect_def)
  obtain l sl where l: "os_except E now i j st = Some (Inr l, sl)" "eager_set l sl (filter (\<lambda>x. x \<notin> set ys) xs)"
    using c [of "\<lambda>xs ys. filter (\<lambda>x. x \<notin> set ys) xs"] by (elim exE conjE) (rule that, simp_all only: os_except_def)
  show ?thesis
    by (rule exI [of _ u], rule exI [of _ su], rule exI [of _ zs], rule exI [of _ k], rule exI [of _ sk], rule exI [of _ l],
        rule exI [of _ sl]) (simp only: zs(2,3) u k l simp_thms)
qed

theorem set_algebra_witness:
  "\<exists>u su. os_union (sample_env (Inr [])) 0 1 2 sample_sets = Some (Inr u, su) \<and> set (os_elements (sw_sets su ! u)) = {1, 5, 2, 9}"
proof -
  obtain u su zs where "os_union (sample_env (Inr [])) 0 1 2 sample_sets = Some (Inr u, su)"
    "eager_set u su ([1, 5, 2] @ zs)" "set zs = set [5, 9, 9] - set [1, 5, 2]"
    using set_algebra [OF sample_facts(4,5), of "sample_env (Inr [])" 0] by (elim exE conjE) (rule that)
  then show ?thesis by (intro exI [of _ u] exI [of _ su]) (auto simp: eager_set_def)
qed

lemma operations_on_nothing: "apply_operations ident ps ([], None) = ([], None)"
proof (induction ps)
  case (Cons p ps)
  have "apply_operation ident p ([], None) = ([], None)"
    by (cases p) (simp_all add: apply_operation_def sort_lazy_def sort_pairs_def take_lazy_def)
  with Cons show ?case by simp
qed simp

definition cold :: "('t, 'a, 'k, 's) query_env \<Rightarrow> bool" where
  "cold E \<longleftrightarrow> (\<forall>now k s. b_get (q_backend E) now k s = (Inr None, s)) \<and> (\<forall>now k e s. b_set (q_backend E) now k e s \<noteq> None)"

lemma execute_cold:
  assumes "cold E" "i < length (executors st)" "\<not> ex_executed (executors st ! i)" "query_results E (executors st ! i) = Inr ys"
  shows "\<exists>st'. execute E now i st = Some (Inr ys, st')"
proof -
  have get: "\<exists>m'. cm_get (q_backend E) now k m = (None, m')" for now k m
    using assms(1) by (simp add: cold_def cm_get_def)
  have put: "\<exists>r. cm_set (q_backend E) c now k v None [] m = Some r" for c now k v m
    using assms(1) by (auto simp: cold_def cm_set_def split: option.splits sum.splits)
  let ?key = "executor_key E (executors st ! i)"
  obtain m' where m': "cm_get (q_backend E) now ?key (q_cache st) = (None, m')" using get by blast
  obtain r where r: "cm_set (q_backend E) (q_config E) now ?key (Some ys) None [] m' = Some r" using put by blast
  show ?thesis using assms(3,4) m' r by (auto simp: execute_def Let_def)
qed

lemma take_finds_nothing:
  assumes "cold E" "all_elements E = Inr []" "\<forall>t. elements_of_type E t = Inr []"
  shows "\<exists>q'. take_execute E now n None b q = Some (Inr [], q')"
proof -
  obtain b2 q2 where b2: "take_some n b q = (b2, q2)" by fastforce
  then have fresh: "qb_exec b2 < length (executors q2)" "executors q2 ! qb_exec b2 = new_executor (qb_type b)"
    by (auto simp: take_some_def extend_clone_def clone_builder_def new_builder_def put_plan_def split: prod.splits)
  let ?q = "set_executor_plan b2 q2"
  have "qb_exec b2 < length (executors ?q)" "\<not> ex_executed (executors ?q ! qb_exec b2)"
    "query_results E (executors ?q ! qb_exec b2) = Inr []"
    using fresh assms(2,3)
    by (simp_all add: set_executor_plan_def put_executor_def set_query_plan_def new_executor_def query_results_def
        operations_on_nothing split: option.splits)
  from execute_cold [OF assms(1) this] show ?thesis
    by (simp add: take_execute_def where_opt_def b2 builder_execute_def)
qed

text \<open>
  A materialised set answers \<open>count\<close> from what it holds and \<open>any\<close> by a new query: when the
  elements have gone from the model meanwhile, and no cache remembers them, the set counts
  elements and says that it has none.
\<close>

theorem count_and_any_disagree:
  assumes "set_ok i st" "\<not> os_done (sw_sets st ! i)" "os_builder (sw_sets st ! i) = Some b"
    and "builder_execute E now b (sw_query st) = Some (Inr ys, q)" "ys \<noteq> []"
    and "cold E'" "all_elements E' = Inr []" "\<forall>t. elements_of_type E' t = Inr []"
  shows "\<exists>st1 st2. os_to_list E now i st = Some (Inr ys, st1) \<and> os_count E' now' i st1 = Some (Inr (length ys), st1) \<and>
    os_any E' now' None i st1 = Some (Inr False, st2)"
proof -
  have i: "i < length (sw_sets st)" "qb_exec b < length (executors (sw_query st))"
    using assms(1,3) by (simp_all add: set_ok_def)
  note ex1 = executed_stays [OF assms(4) i(2)]
  note ex2 = executed_stays [OF ex1(1) [of E now] ex1(2)]
  let ?st1 = "put_set i ((sw_sets st ! i)\<lparr>os_elements := ys, os_done := True\<rparr>) (st\<lparr>sw_query := set_executor_plan b q\<rparr>)"
  have 1: "os_to_list E now i st = Some (Inr ys, ?st1)"
    using materialize_query [OF assms(1-3), of E now] assms(4,5) by (simp add: os_to_list_def on_elements_def yields_def)
  have 2: "os_count E' now' i ?st1 = Some (Inr (length ys), ?st1)"
    using i by (simp add: os_count_def on_elements_def ensure_materialized_def put_set_def yields_def)
  have b: "os_builder (sw_sets ?st1 ! i) = Some b" "sw_query ?st1 = set_executor_plan b q"
    using i assms(3) by (simp_all add: put_set_def)
  obtain q3 where q3: "take_execute E' now' 1 None b (set_executor_plan b (set_executor_plan b q)) = Some (Inr [], q3)"
    using take_finds_nothing [OF assms(6-8)] by blast
  have "os_any E' now' None i ?st1 = Some (Inr False, ?st1\<lparr>sw_query := q3\<rparr>)"
    unfolding os_any_def option.case any_of_set_def b query_of_set_Some ex2(1)
    using assms(5) q3 by (simp add: on_query_def q_any_def then_result_def)
  with 1 2 show ?thesis by blast
qed

theorem count_and_any_disagree_witness:
  "\<exists>st1 st2. os_to_list (sample_env (Inr [4])) 0 0 sample_sets = Some (Inr [4], st1) \<and>
     os_count (sample_env (Inr [])) 9 0 st1 = Some (Inr 1, st1) \<and>
     os_any (sample_env (Inr [])) 9 None 0 st1 = Some (Inr False, st2)"
proof -
  obtain q where "builder_execute (sample_env (Inr [4])) 0 sample_orm_builder (sw_query sample_sets) = Some (Inr [4], q)"
    using sample_runs [of "Inr [4]" 0] by (auto simp: sample_facts(6))
  moreover have "cold (sample_env (Inr []))" by (simp add: cold_def sample_env_def no_cache_def)
  ultimately obtain st1 st2 where "os_to_list (sample_env (Inr [4])) 0 0 sample_sets = Some (Inr [4], st1)"
     "os_count (sample_env (Inr [])) 9 0 st1 = Some (Inr (length [4::nat]), st1)"
     "os_any (sample_env (Inr [])) 9 None 0 st1 = Some (Inr False, st2)"
    using count_and_any_disagree [OF sample_facts(1-3), of "sample_env (Inr [4])" 0 "[4]" q "sample_env (Inr [])" 9]
    by (auto simp: sample_env_def)
  then show ?thesis by auto
qed

end
