(* ===== verification/Relationships.thy ===== *)
theory Relationships
  imports Cache_Manager
begin

text \<open>
  Relationships between entities (\<open>orm/relationships.py\<close>): a relationship keeps what it has loaded in
  a dictionary of its own and in the cache manager that it shares with others; the relationship
  manager finds the relationship by the type of the entity and its name.

  Entities are values of a type \<open>'o\<close>; \<open>ident\<close> gives what \<open>_get_entity_id\<close> finds. The loader is the
  client's: an action on a world that gives nothing, one object or a list, or raises. Values of
  entities count as true. The three classes differ in what they make of the loader's answer.
\<close>

subsection \<open>Configuration\<close>

datatype relationship_type = ONE_TO_ONE | ONE_TO_MANY | MANY_TO_ONE | MANY_TO_MANY

datatype load_strategy = LAZY | EAGER | SELECT_LOAD | BATCH_LOAD

record relation_config =
  rc_name :: string
  rc_type :: relationship_type
  rc_target :: string
  rc_strategy :: load_strategy
  rc_cache_enabled :: bool
  rc_batch_size :: int

definition config_accepted :: "relation_config \<Rightarrow> bool" where
  "config_accepted c \<longleftrightarrow>
     \<not> (rc_type c \<in> {ONE_TO_MANY, MANY_TO_MANY} \<and> rc_strategy c = EAGER \<and> rc_batch_size c < 1)"

datatype 'o orm_value = OV_None | OV_One 'o | OV_List "'o list"

definition to_data :: "'o orm_value \<Rightarrow> 'o orm_value option" where
  "to_data v = (if v = OV_None then None else Some v)"

record 'o relation =
  rl_config :: relation_config
  rl_loaded :: "(element_id option, 'o orm_value) dict"

text \<open>Making a relationship of one class raises when the configuration is for another one.\<close>

definition new_relation :: "relationship_type \<Rightarrow> relation_config \<Rightarrow> 'o relation option" where
  "new_relation t c = (if config_accepted c \<and> rc_type c = t then Some \<lparr>rl_config = c, rl_loaded = []\<rparr> else None)"

definition as_collection :: "'o orm_value \<Rightarrow> 'o orm_value" where
  "as_collection v = (case v of OV_None \<Rightarrow> OV_List [] | OV_One x \<Rightarrow> OV_List [x] | OV_List xs \<Rightarrow> OV_List xs)"

definition shaped :: "relationship_type \<Rightarrow> 'o orm_value \<Rightarrow> 'o orm_value" where
  "shaped t v = (if t = ONE_TO_ONE then v else as_collection v)"

subsection \<open>Loading\<close>

definition relation_key :: "relation_config \<Rightarrow> element_id option \<Rightarrow> cache_key" where
  "relation_key c i =
     \<lparr>entity_type = rc_target c, query_hash = None, entity_id = i, relationship_path = Some (rc_name c)\<rparr>"

definition use_cache :: "relation_config \<Rightarrow> element_id option \<Rightarrow> bool" where
  "use_cache c i \<longleftrightarrow> rc_cache_enabled c \<and> i \<noteq> None"

type_synonym ('o, 'w) loader = "'o \<Rightarrow> string \<Rightarrow> load_strategy \<Rightarrow> 'w \<Rightarrow> 'o orm_value option \<times> 'w"

record ('o, 's, 'w) loading =
  ld_backend :: "('s, 'o orm_value) backend"
  ld_cache_config :: cache_config
  ld_ident :: "'o \<Rightarrow> element_id option"
  ld_load :: "('o, 'w) loader"

definition remember :: "element_id option \<Rightarrow> 'o orm_value \<Rightarrow> 'o relation \<Rightarrow> 'o relation" where
  "remember i v r = r\<lparr>rl_loaded := AList.update i v (rl_loaded r)\<rparr>"

text \<open>What is stored after the loader has answered; \<open>None\<close> when the cache does not return.\<close>

definition store_loaded ::
  "('o, 's, 'w) loading \<Rightarrow> int \<Rightarrow> element_id option \<Rightarrow> 'o orm_value \<Rightarrow>
   'o relation \<times> ('s, 'c) manager \<Rightarrow> ('o relation \<times> ('s, 'c) manager) option" where
  "store_loaded E now i v = (\<lambda>(r, m).
     (if use_cache (rl_config r) i
      then map_option (\<lambda>(ok, m'). (remember i v r, m'))
             (cm_set (ld_backend E) (ld_cache_config E) now (relation_key (rl_config r) i) (to_data v) None [] m)
      else Some (remember i v r, m)))"

definition cached_relation ::
  "('o, 's, 'w) loading \<Rightarrow> int \<Rightarrow> bool \<Rightarrow> element_id option \<Rightarrow> 'o relation \<times> ('s, 'c) manager \<Rightarrow>
   'o orm_value option \<times> 'o relation \<times> ('s, 'c) manager" where
  "cached_relation E now force i = (\<lambda>(r, m).
     (if \<not> force \<and> use_cache (rl_config r) i
      then (case cm_get (ld_backend E) now (relation_key (rl_config r) i) m of
              (Some v, m') \<Rightarrow> (Some v, remember i v r, m')
            | (None, m') \<Rightarrow> (None, r, m'))
      else (None, r, m)))"

datatype relation_error = Load_Failed string | Not_Registered string | Not_A_Collection

definition relation_load ::
  "('o, 's, 'w) loading \<Rightarrow> int \<Rightarrow> bool \<Rightarrow> 'o \<Rightarrow> 'o relation \<times> ('s, 'c) manager \<times> 'w \<Rightarrow>
   ((relation_error + 'o orm_value) \<times> 'o relation \<times> ('s, 'c) manager \<times> 'w) option" where
  "relation_load E now force e = (\<lambda>(r, m, w).
     (let i = ld_ident E e; c = rl_config r in
      case (if force then None else map_of (rl_loaded r) i) of
        Some v \<Rightarrow> Some (Inr v, r, m, w)
      | None \<Rightarrow>
          (case cached_relation E now force i (r, m) of
             (Some v, r1, m1) \<Rightarrow> Some (Inr v, r1, m1, w)
           | (None, r1, m1) \<Rightarrow>
               (case ld_load E e (rc_name c) (rc_strategy c) w of
                  (None, w') \<Rightarrow> Some (Inl (Load_Failed (rc_name c)), r1, m1, w')
                | (Some x, w') \<Rightarrow>
                    (let v = shaped (rc_type c) x in
                     map_option (\<lambda>(r2, m2). (Inr v, r2, m2, w')) (store_loaded E now i v (r1, m1)))))))"

text \<open>Dropping what is cached. The invalidation callbacks of the manager run on the world.\<close>

definition drop_cached ::
  "('o, 's, 'w) loading \<Rightarrow> ('c, 'w) caller \<Rightarrow> element_id option \<Rightarrow> 'o relation \<times> ('s, 'c) manager \<times> 'w \<Rightarrow>
   'o relation \<times> ('s, 'c) manager \<times> 'w" where
  "drop_cached E call i = (\<lambda>(r, m, w).
     (if use_cache (rl_config r) i
      then (r, snd (cm_invalidate (ld_backend E) call (relation_key (rl_config r) i) (m, w)))
      else (r, m, w)))"

definition invalidate_relation ::
  "('o, 's, 'w) loading \<Rightarrow> ('c, 'w) caller \<Rightarrow> 'o \<Rightarrow> 'o relation \<times> ('s, 'c) manager \<times> 'w \<Rightarrow>
   'o relation \<times> ('s, 'c) manager \<times> 'w" where
  "invalidate_relation E call e x =
     (case drop_cached E call (ld_ident E e) x of
        (r, mw) \<Rightarrow> (r\<lparr>rl_loaded := AList.delete (ld_ident E e) (rl_loaded r)\<rparr>, mw))"

text \<open>
  Adding to and removing from a collection, which \<open>OneToManyRelationship\<close> has: the collection is
  loaded first if need be, changed in place, and its cache entry dropped. An object that the loader
  or the cache gave instead of a list has no \<open>append\<close>.
\<close>

definition change_collection ::
  "('o, 's, 'w) loading \<Rightarrow> ('c, 'w) caller \<Rightarrow> int \<Rightarrow> ('o list \<Rightarrow> 'o list option) \<Rightarrow> 'o \<Rightarrow>
   'o relation \<times> ('s, 'c) manager \<times> 'w \<Rightarrow>
   ((relation_error + bool) \<times> 'o relation \<times> ('s, 'c) manager \<times> 'w) option" where
  "change_collection E call now f e x =
     (let i = ld_ident E e in
      case (if map_of (rl_loaded (fst x)) i \<noteq> None then Some (Inr OV_None, x) else relation_load E now False e x) of
        None \<Rightarrow> None
      | Some (Inl err, y) \<Rightarrow> Some (Inl err, y)
      | Some (Inr _, r, m, w) \<Rightarrow>
          (case map_of (rl_loaded r) i of
             Some (OV_List xs) \<Rightarrow>
               (case f xs of
                  None \<Rightarrow> Some (Inr False, r, m, w)
                | Some ys \<Rightarrow> Some (Inr True, drop_cached E call i (remember i (OV_List ys) r, m, w)))
           | _ \<Rightarrow> Some (Inl Not_A_Collection, r, m, w)))"

definition added :: "'o \<Rightarrow> 'o list \<Rightarrow> 'o list option" where
  "added x xs = (if x \<in> set xs then None else Some (xs @ [x]))"

definition removed_from :: "'o \<Rightarrow> 'o list \<Rightarrow> 'o list option" where
  "removed_from x xs = (if x \<in> set xs then Some (remove1 x xs) else None)"

definition relation_add where
  "relation_add E call now e x = change_collection E call now (added x) e"

definition relation_remove where
  "relation_remove E call now e x = change_collection E call now (removed_from x) e"

subsection \<open>The relationship manager\<close>

text \<open>Relationships by the name of the source type and their own name.\<close>

record 'o relation_manager =
  rm_relations :: "(string, (string, 'o relation) dict) dict"
  rm_inverse :: "(string, (string, string) dict) dict"

definition new_relation_manager :: "'o relation_manager" where
  "new_relation_manager = \<lparr>rm_relations = [], rm_inverse = []\<rparr>"

definition sub_dict :: "string \<Rightarrow> (string, (string, 'x) dict) dict \<Rightarrow> (string, 'x) dict" where
  "sub_dict t d = (case map_of d t of None \<Rightarrow> [] | Some s \<Rightarrow> s)"

definition register_relation :: "string \<Rightarrow> 'o relation \<Rightarrow> 'o relation_manager \<Rightarrow> 'o relation_manager" where
  "register_relation src r M =
     M\<lparr>rm_relations := AList.update src (AList.update (rc_name (rl_config r)) r (sub_dict src (rm_relations M))) (rm_relations M)\<rparr>"

definition register_inverse :: "string \<Rightarrow> string \<Rightarrow> string \<Rightarrow> 'o relation_manager \<Rightarrow> 'o relation_manager" where
  "register_inverse tgt n inv_prop M =
     M\<lparr>rm_inverse := AList.update tgt (AList.update inv_prop n (sub_dict tgt (rm_inverse M))) (rm_inverse M)\<rparr>"

definition register_kind ::
  "relationship_type \<Rightarrow> string \<Rightarrow> relation_config \<Rightarrow> string option \<Rightarrow> 'o relation_manager \<Rightarrow> 'o relation_manager option" where
  "register_kind t src c inv_prop M =
     (case new_relation t (c\<lparr>rc_type := t\<rparr>) of
        None \<Rightarrow> None
      | Some r \<Rightarrow>
          (let M1 = register_relation src r M in
           Some (case inv_prop of
               Some p \<Rightarrow> if p = [] then M1 else register_inverse (rc_target c) (rc_name c) p M1
             | None \<Rightarrow> M1)))"

definition register_one_to_one where "register_one_to_one = register_kind ONE_TO_ONE"
definition register_one_to_many where "register_one_to_many = register_kind ONE_TO_MANY"
definition register_many_to_many where "register_many_to_many = register_kind MANY_TO_MANY"

definition get_relationship :: "string \<Rightarrow> string \<Rightarrow> 'o relation_manager \<Rightarrow> 'o relation option" where
  "get_relationship t n M = map_of (sub_dict t (rm_relations M)) n"

definition put_relation :: "string \<Rightarrow> 'o relation \<Rightarrow> 'o relation_manager \<Rightarrow> 'o relation_manager" where
  "put_relation t r M = register_relation t r M"

text \<open>\<open>tyname\<close> gives the name of an entity's class.\<close>

definition manager_load ::
  "('o, 's, 'w) loading \<Rightarrow> ('o \<Rightarrow> string) \<Rightarrow> int \<Rightarrow> bool \<Rightarrow> 'o \<Rightarrow> string \<Rightarrow>
   'o relation_manager \<times> ('s, 'c) manager \<times> 'w \<Rightarrow>
   ((relation_error + 'o orm_value) \<times> 'o relation_manager \<times> ('s, 'c) manager \<times> 'w) option" where
  "manager_load E tyname now force e n = (\<lambda>(M, m, w).
     (case get_relationship (tyname e) n M of
        None \<Rightarrow> Some (Inl (Not_Registered n), M, m, w)
      | Some r \<Rightarrow>
          map_option (\<lambda>(res, r', m', w'). (res, put_relation (tyname e) r' M, m', w'))
            (relation_load E now force e (r, m, w))))"

definition invalidate_relationship ::
  "('o, 's, 'w) loading \<Rightarrow> ('o \<Rightarrow> string) \<Rightarrow> ('c, 'w) caller \<Rightarrow> 'o \<Rightarrow> string \<Rightarrow>
   'o relation_manager \<times> ('s, 'c) manager \<times> 'w \<Rightarrow> 'o relation_manager \<times> ('s, 'c) manager \<times> 'w" where
  "invalidate_relationship E tyname call e n = (\<lambda>(M, m, w).
     (case get_relationship (tyname e) n M of
        None \<Rightarrow> (M, m, w)
      | Some r \<Rightarrow>
          (case invalidate_relation E call e (r, m, w) of (r', mw) \<Rightarrow> (put_relation (tyname e) r' M, mw))))"

definition invalidate_entity ::
  "('o, 's, 'w) loading \<Rightarrow> ('o \<Rightarrow> string) \<Rightarrow> ('c, 'w) caller \<Rightarrow> 'o \<Rightarrow>
   'o relation_manager \<times> ('s, 'c) manager \<times> 'w \<Rightarrow> 'o relation_manager \<times> ('s, 'c) manager \<times> 'w" where
  "invalidate_entity E tyname call e x =
     fold (\<lambda>n. invalidate_relationship E tyname call e n) (map fst (sub_dict (tyname e) (rm_relations (fst x)))) x"

definition get_registered_relationships :: "string \<Rightarrow> 'o relation_manager \<Rightarrow> (string, 'o relation) dict" where
  "get_registered_relationships t M = sub_dict t (rm_relations M)"


subsection \<open>One memo table\<close>

text \<open>
  The specification of a relationship: a table of the values that are known, without any cache.
\<close>

type_synonym 'o memo = "element_id option \<Rightarrow> 'o orm_value option"

definition memo_load ::
  "('o, 's, 'w) loading \<Rightarrow> relation_config \<Rightarrow> bool \<Rightarrow> 'o \<Rightarrow> 'o memo \<times> 'w \<Rightarrow>
   (relation_error + 'o orm_value) \<times> 'o memo \<times> 'w" where
  "memo_load E c force e = (\<lambda>(t, w).
     (case (if force then None else t (ld_ident E e)) of
        Some v \<Rightarrow> (Inr v, t, w)
      | None \<Rightarrow>
          (case ld_load E e (rc_name c) (rc_strategy c) w of
             (None, w') \<Rightarrow> (Inl (Load_Failed (rc_name c)), t, w')
           | (Some x, w') \<Rightarrow> (Inr (shaped (rc_type c) x), t(ld_ident E e \<mapsto> shaped (rc_type c) x), w'))))"

definition memo_change ::
  "('o, 's, 'w) loading \<Rightarrow> relation_config \<Rightarrow> ('o list \<Rightarrow> 'o list option) \<Rightarrow> 'o \<Rightarrow> 'o memo \<times> 'w \<Rightarrow>
   (relation_error + bool) \<times> 'o memo \<times> 'w" where
  "memo_change E c f e x =
     (case memo_load E c False e x of
        (Inl err, y) \<Rightarrow> (Inl err, y)
      | (Inr v, t, w) \<Rightarrow>
          (case v of
             OV_List xs \<Rightarrow>
               (case f xs of None \<Rightarrow> (Inr False, t, w) | Some ys \<Rightarrow> (Inr True, t(ld_ident E e \<mapsto> OV_List ys), w))
           | _ \<Rightarrow> (Inl Not_A_Collection, t, w)))"

datatype 'o relation_op =
    Rel_Load int bool 'o
  | Rel_Add int 'o 'o
  | Rel_Remove int 'o 'o
  | Rel_Invalidate 'o

datatype 'o relation_answer = Answer_Value "relation_error + 'o orm_value" | Answer_Flag "relation_error + bool" | Answer_Nothing

fun op_entity :: "'o relation_op \<Rightarrow> 'o" where
  "op_entity (Rel_Load now force e) = e"
| "op_entity (Rel_Add now e x) = e"
| "op_entity (Rel_Remove now e x) = e"
| "op_entity (Rel_Invalidate e) = e"

fun relation_exec ::
  "('o, 's, 'w) loading \<Rightarrow> ('c, 'w) caller \<Rightarrow> 'o relation_op \<Rightarrow> 'o relation \<times> ('s, 'c) manager \<times> 'w \<Rightarrow>
   ('o relation_answer \<times> 'o relation \<times> ('s, 'c) manager \<times> 'w) option" where
  "relation_exec E call (Rel_Load now force e) x = map_option (apfst Answer_Value) (relation_load E now force e x)"
| "relation_exec E call (Rel_Add now e y) x = map_option (apfst Answer_Flag) (relation_add E call now e y x)"
| "relation_exec E call (Rel_Remove now e y) x = map_option (apfst Answer_Flag) (relation_remove E call now e y x)"
| "relation_exec E call (Rel_Invalidate e) x = Some (Answer_Nothing, invalidate_relation E call e x)"

fun memo_exec ::
  "('o, 's, 'w) loading \<Rightarrow> relation_config \<Rightarrow> 'o relation_op \<Rightarrow> 'o memo \<times> 'w \<Rightarrow> 'o relation_answer \<times> 'o memo \<times> 'w" where
  "memo_exec E c (Rel_Load now force e) x = apfst Answer_Value (memo_load E c force e x)"
| "memo_exec E c (Rel_Add now e y) x = apfst Answer_Flag (memo_change E c (added y) e x)"
| "memo_exec E c (Rel_Remove now e y) x = apfst Answer_Flag (memo_change E c (removed_from y) e x)"
| "memo_exec E c (Rel_Invalidate e) (t, w) = (Answer_Nothing, t(ld_ident E e := None), w)"

fun relation_run ::
  "('o, 's, 'w) loading \<Rightarrow> ('c, 'w) caller \<Rightarrow> 'o relation_op list \<Rightarrow> 'o relation \<times> ('s, 'c) manager \<times> 'w \<Rightarrow>
   ('o relation_answer list \<times> 'o relation \<times> ('s, 'c) manager \<times> 'w) option" where
  "relation_run E call [] x = Some ([], x)"
| "relation_run E call (p # ps) x =
     (case relation_exec E call p x of
        None \<Rightarrow> None
      | Some (a, y) \<Rightarrow> map_option (apfst (Cons a)) (relation_run E call ps y))"

fun memo_run ::
  "('o, 's, 'w) loading \<Rightarrow> relation_config \<Rightarrow> 'o relation_op list \<Rightarrow> 'o memo \<times> 'w \<Rightarrow> 'o relation_answer list \<times> 'o memo \<times> 'w" where
  "memo_run E c [] x = ([], x)"
| "memo_run E c (p # ps) x = (case memo_exec E c p x of (a, y) \<Rightarrow> apfst (Cons a) (memo_run E c ps y))"

lemma callbacks_kept [simp]:
  "cm_callbacks (snd (cm_get B now k m)) = cm_callbacks m"
  "cm_callbacks (count_stat f m) = cm_callbacks m"
  by (auto simp: cm_get_def count_stat_def split: prod.splits sum.splits option.splits)

lemma callbacks_set: "cm_set B cfg now k v ttl ds m = Some (ok, m') \<Longrightarrow> cm_callbacks m' = cm_callbacks m"
  by (auto simp: cm_set_def split: option.splits prod.splits sum.splits)

lemma delete_quiet:
  assumes "cm_callbacks m = []"
  shows "cm_callbacks (fst (snd (cm_delete B call k (m, w)))) = []" "snd (snd (cm_delete B call k (m, w))) = w"
  using assms by (auto simp: cm_delete_def notify_def count_stat_def split: prod.splits sum.splits bool.splits)

subsection \<open>The refinement\<close>

locale relation_cache = cache_backend "ld_backend E" ok peek
  for E :: "('o, 's, 'w) loading" and ok :: "'s \<Rightarrow> bool" and peek :: "'s \<Rightarrow> 'o orm_value store"
begin

text \<open>What the cache may hold for the identifiers of \<open>I\<close>: only what the relationship knows itself.\<close>

definition known ::
  "relation_config \<Rightarrow> element_id option set \<Rightarrow> ('s, 'c) manager \<Rightarrow> 'o memo \<Rightarrow> bool" where
  "known c I m t \<longleftrightarrow> cm_callbacks m = [] \<and>
     (\<exists>st. held m st \<and> (\<forall>i \<in> I. st (key_str (relation_key c i)) \<noteq> None \<longrightarrow> use_cache c i \<and> t i \<noteq> None))"

lemma known_get: "known c I m t \<Longrightarrow> known c I (snd (cm_get (ld_backend E) now k m)) t"
  unfolding known_def by (auto intro: get_held(1))

lemma known_miss:
  assumes "known c I m t" "i \<in> I" "t i = None"
  shows "fst (cm_get (ld_backend E) now (relation_key c i) m) = None"
  using assms get_held(2) unfolding known_def by (metis not_None_eq)

lemma known_more: "known c I m t \<Longrightarrow> known c I m (t(i \<mapsto> v))"
  by (auto simp: known_def)

lemma known_set:
  assumes "known c I m t" "i \<in> I" "use_cache c i" "inj_on (\<lambda>i. key_str (relation_key c i)) I"
  shows "\<exists>m'. cm_set (ld_backend E) cfg now (relation_key c i) d None [] m = Some (True, m') \<and>
              known c I m' (t(i \<mapsto> v))"
proof -
  obtain st where st: "held m st" "cm_callbacks m = []"
    "\<forall>i \<in> I. st (key_str (relation_key c i)) \<noteq> None \<longrightarrow> use_cache c i \<and> t i \<noteq> None"
    using assms(1) by (auto simp: known_def)
  obtain m' where m': "cm_set (ld_backend E) cfg now (relation_key c i) d None [] m = Some (True, m')"
    "held m' (st(key_str (relation_key c i) \<mapsto> make_entry cfg now d None []))"
    using set_held [OF st(1)] by blast
  have "known c I m' (t(i \<mapsto> v))"
    unfolding known_def using callbacks_set [OF m'(1)] st m'(2) assms(2-4)
    by (intro conjI exI [of _ "st(key_str (relation_key c i) \<mapsto> make_entry cfg now d None [])"])
      (auto dest: inj_onD)
  with m'(1) show ?thesis by blast
qed

lemma known_delete:
  assumes "known c I m t" "i \<in> I" "inj_on (\<lambda>i. key_str (relation_key c i)) I"
  shows "known c I (fst (snd (cm_delete (ld_backend E) call (relation_key c i) (m, w)))) (t(i := x))"
proof -
  obtain st where st: "held m st" "cm_callbacks m = []"
    "\<forall>i \<in> I. st (key_str (relation_key c i)) \<noteq> None \<longrightarrow> use_cache c i \<and> t i \<noteq> None"
    using assms(1) by (auto simp: known_def)
  then have "held (fst (snd (cm_delete (ld_backend E) call (relation_key c i) (m, w)))) (st(key_str (relation_key c i) := None))"
    using delete_held [of "(m, w)" st] by simp
  then show ?thesis unfolding known_def using st assms(2,3)
    by (intro conjI exI [of _ "st(key_str (relation_key c i) := None)"])
      (auto simp: delete_quiet dest: inj_onD)
qed

lemma known_unused: "known c I m t \<Longrightarrow> \<not> use_cache c i \<Longrightarrow> known c I m (t(i := x))"
  unfolding known_def by (metis fun_upd_apply)

lemma drop_known:
  assumes "known (rl_config r) I m t" "i \<in> I" "inj_on (\<lambda>i. key_str (relation_key (rl_config r) i)) I"
  shows "\<exists>m'. drop_cached E call i (r, m, w) = (r, m', w) \<and> known (rl_config r) I m' (t(i := x))"
proof -
  have "cm_callbacks m = []" using assms(1) by (simp add: known_def)
  then have w: "snd (snd (cm_delete (ld_backend E) call (relation_key (rl_config r) i) (m, w))) = w"
    by (rule delete_quiet)
  show ?thesis
    using known_delete [OF assms(1-3), of call w x] known_unused [OF assms(1), of i x] w
    by (cases "snd (cm_delete (ld_backend E) call (relation_key (rl_config r) i) (m, w))")
      (auto simp: drop_cached_def cm_invalidate_def)
qed

lemma load_refines:
  assumes r: "rl_config r = c" "known c I m (map_of (rl_loaded r))"
    and e: "ld_ident E e \<in> I" and inj: "inj_on (\<lambda>i. key_str (relation_key c i)) I"
    and spec: "memo_load E c force e (map_of (rl_loaded r), w) = (a, t', w')"
  shows "\<exists>r' m'. relation_load E now force e (r, m, w) = Some (a, r', m', w') \<and> rl_config r' = c \<and>
           map_of (rl_loaded r') = t' \<and> known c I m' t'"
proof (cases "if force then None else map_of (rl_loaded r) (ld_ident E e)")
  case (Some v)
  with r spec show ?thesis by (auto simp: relation_load_def memo_load_def Let_def)
next
  case None
  let ?i = "ld_ident E e"
  have miss: "fst (cm_get (ld_backend E) now (relation_key c ?i) m) = None" if "\<not> force"
    using known_miss [OF r(2) e] None that by simp
  obtain m1 where m1: "cached_relation E now force ?i (r, m) = (None, r, m1)" "known c I m1 (map_of (rl_loaded r))"
    using miss known_get [OF r(2), of now "relation_key c ?i"] r
    by (cases "cm_get (ld_backend E) now (relation_key c ?i) m"; cases "\<not> force \<and> use_cache c ?i")
      (auto simp: cached_relation_def)
  show ?thesis
  proof (cases "ld_load E e (rc_name c) (rc_strategy c) w")
    case (Pair x w1)
    show ?thesis
    proof (cases x)
      case None
      with Pair \<open>(if force then None else map_of (rl_loaded r) ?i) = None\<close> m1 spec r show ?thesis
        by (auto simp: relation_load_def memo_load_def Let_def)
    next
      case (Some y)
      let ?v = "shaped (rc_type c) y"
      have "\<exists>m2. store_loaded E now ?i ?v (r, m1) = Some (remember ?i ?v r, m2) \<and>
              known c I m2 ((map_of (rl_loaded r))(?i \<mapsto> ?v))"
        using known_set [OF m1(2) e _ inj] known_more [OF m1(2)] r(1)
        by (fastforce simp: store_loaded_def)
      with Some Pair \<open>(if force then None else map_of (rl_loaded r) ?i) = None\<close> m1(1) spec r show ?thesis
        by (auto simp: relation_load_def memo_load_def Let_def remember_def)
    qed
  qed
qed

lemma memo_load_known: "memo_load E c False e (t, w) = (Inr v, t', w') \<Longrightarrow> t' (ld_ident E e) = Some v"
  by (auto simp: memo_load_def split: option.splits prod.splits)

lemma change_refines:
  assumes r: "rl_config r = c" "known c I m (map_of (rl_loaded r))"
    and e: "ld_ident E e \<in> I" and inj: "inj_on (\<lambda>i. key_str (relation_key c i)) I"
    and spec: "memo_change E c f e (map_of (rl_loaded r), w) = (a, t', w')"
  shows "\<exists>r' m'. change_collection E call now f e (r, m, w) = Some (a, r', m', w') \<and> rl_config r' = c \<and>
           map_of (rl_loaded r') = t' \<and> known c I m' t'"
proof -
  let ?i = "ld_ident E e"
  obtain b t1 w1 where b: "memo_load E c False e (map_of (rl_loaded r), w) = (b, t1, w1)" by (metis prod_cases3)
  obtain r1 m1 where l: "relation_load E now False e (r, m, w) = Some (b, r1, m1, w1)"
    and r1: "rl_config r1 = c" "map_of (rl_loaded r1) = t1" "known c I m1 t1"
    using load_refines [OF r e inj b, of now] by blast
  show ?thesis
  proof (cases b)
    case (Inl err)
    with b have "map_of (rl_loaded r) ?i = None" by (auto simp: memo_load_def split: option.splits prod.splits)
    with Inl l r1 b spec show ?thesis by (auto simp: change_collection_def memo_change_def)
  next
    case (Inr v)
    have t1: "t1 ?i = Some v" using memo_load_known b Inr by blast
    obtain z where start: "(if map_of (rl_loaded r) ?i \<noteq> None then Some (Inr OV_None, r, m, w) else relation_load E now False e (r, m, w))
        = Some (Inr z, r1, m1, w1)"
      using l Inr by (cases "map_of (rl_loaded r) ?i") (auto simp: relation_load_def Let_def)
    have change: "change_collection E call now f e (r, m, w) =
        (case v of
           OV_List xs \<Rightarrow> (case f xs of None \<Rightarrow> Some (Inr False, r1, m1, w1)
             | Some ys \<Rightarrow> Some (Inr True, drop_cached E call ?i (remember ?i (OV_List ys) r1, m1, w1)))
         | _ \<Rightarrow> Some (Inl Not_A_Collection, r1, m1, w1))"
      unfolding change_collection_def Let_def fst_conv start by (simp add: t1 r1(2))
    have drop: "\<exists>m'. drop_cached E call ?i (remember ?i (OV_List ys) r1, m1, w1) = (remember ?i (OV_List ys) r1, m', w1) \<and>
            known c I m' (t1(?i \<mapsto> OV_List ys))" for ys
      using drop_known [of "remember ?i (OV_List ys) r1" I m1 t1 ?i call w1 "Some (OV_List ys)"] r1 e inj
      by (simp add: remember_def)
    show ?thesis
    proof (cases v)
      case (OV_List xs)
      show ?thesis
      proof (cases "f xs")
        case None
        with OV_List Inr b spec r1 change show ?thesis by (auto simp: memo_change_def)
      next
        case (Some ys)
        obtain m' where "drop_cached E call ?i (remember ?i (OV_List ys) r1, m1, w1) = (remember ?i (OV_List ys) r1, m', w1)"
          "known c I m' (t1(?i \<mapsto> OV_List ys))"
          using drop by blast
        with Some OV_List Inr b spec r1 change show ?thesis by (auto simp: memo_change_def remember_def)
      qed
    qed (use Inr b spec r1 change in \<open>auto simp: memo_change_def\<close>)
  qed
qed

lemma exec_refines:
  assumes r: "rl_config r = c" "known c I m (map_of (rl_loaded r))"
    and e: "ld_ident E (op_entity p) \<in> I" and inj: "inj_on (\<lambda>i. key_str (relation_key c i)) I"
    and spec: "memo_exec E c p (map_of (rl_loaded r), w) = (a, t', w')"
  shows "\<exists>r' m'. relation_exec E call p (r, m, w) = Some (a, r', m', w') \<and> rl_config r' = c \<and>
           map_of (rl_loaded r') = t' \<and> known c I m' t'"
proof (cases p)
  case (Rel_Load now force x)
  with spec obtain b where "memo_load E c force x (map_of (rl_loaded r), w) = (b, t', w')" "a = Answer_Value b"
    by (cases "memo_load E c force x (map_of (rl_loaded r), w)") auto
  with load_refines [OF r _ inj this(1), of now] e Rel_Load show ?thesis by fastforce
next
  case (Rel_Add now x y)
  with spec obtain b where "memo_change E c (added y) x (map_of (rl_loaded r), w) = (b, t', w')" "a = Answer_Flag b"
    by (cases "memo_change E c (added y) x (map_of (rl_loaded r), w)") auto
  with change_refines [OF r _ inj this(1), of call now] e Rel_Add show ?thesis by (fastforce simp: relation_add_def)
next
  case (Rel_Remove now x y)
  with spec obtain b where "memo_change E c (removed_from y) x (map_of (rl_loaded r), w) = (b, t', w')" "a = Answer_Flag b"
    by (cases "memo_change E c (removed_from y) x (map_of (rl_loaded r), w)") auto
  with change_refines [OF r _ inj this(1), of call now] e Rel_Remove show ?thesis by (fastforce simp: relation_remove_def)
next
  case (Rel_Invalidate x)
  with drop_known [of r I m "map_of (rl_loaded r)" "ld_ident E x" call w None] r e inj spec show ?thesis
    by (auto simp: invalidate_relation_def)
qed

lemma run_refines:
  "rl_config r = c \<Longrightarrow> known c I m (map_of (rl_loaded r)) \<Longrightarrow> \<forall>p \<in> set ps. ld_ident E (op_entity p) \<in> I \<Longrightarrow>
   inj_on (\<lambda>i. key_str (relation_key c i)) I \<Longrightarrow> memo_run E c ps (map_of (rl_loaded r), w) = (as, t', w') \<Longrightarrow>
   \<exists>r' m'. relation_run E call ps (r, m, w) = Some (as, r', m', w') \<and> map_of (rl_loaded r') = t'"
proof (induction ps arbitrary: r m w as)
  case (Cons p ps)
  obtain a t1 w1 where a: "memo_exec E c p (map_of (rl_loaded r), w) = (a, t1, w1)" by (metis prod_cases3)
  obtain r1 m1 where r1: "relation_exec E call p (r, m, w) = Some (a, r1, m1, w1)" "rl_config r1 = c"
    "map_of (rl_loaded r1) = t1" "known c I m1 t1"
    using exec_refines [OF Cons.prems(1,2) _ Cons.prems(4) a, of call] Cons.prems(3) by auto
  obtain as1 where as1: "memo_run E c ps (t1, w1) = (as1, t', w')" "as = a # as1"
    using Cons.prems(5) a by (auto simp: apfst_def map_prod_def split: prod.splits)
  with Cons.IH [of r1 m1 w1 as1] r1 Cons.prems(3,4) show ?case by auto
qed simp

end

subsection \<open>Asynchronous loading\<close>

text \<open>
  \<open>load_async\<close> of the three classes: the first caller for an entity creates a task and enters it into
  the promises; callers that come before it has finished await the same task. The body of a task
  runs up to the call of the loader, waits there, and goes on with the loader's answer; its
  \<open>finally\<close> takes the promise out. A task that is cancelled before its first step never enters its
  body.
\<close>

datatype 'o task_phase =
    Task_Created
  | Task_Loading
  | Task_Finished "relation_error + 'o orm_value"
  | Task_Cancelled

record 'o load_task =
  lt_entity :: 'o
  lt_force :: bool
  lt_phase :: "'o task_phase"

record ('o, 's, 'c, 'w) async_loading =
  al_relation :: "'o relation"
  al_manager :: "('s, 'c) manager"
  al_world :: 'w
  al_promises :: "(element_id option, nat) dict"
  al_tasks :: "'o load_task list"

definition new_async_loading :: "'o relation \<Rightarrow> ('s, 'c) manager \<Rightarrow> 'w \<Rightarrow> ('o, 's, 'c, 'w) async_loading" where
  "new_async_loading r m w = \<lparr>al_relation = r, al_manager = m, al_world = w, al_promises = [], al_tasks = []\<rparr>"

datatype 'o call_outcome = Returns_Loaded "'o orm_value" | Awaits_Task nat

definition load_async ::
  "('o, 's, 'w) loading \<Rightarrow> bool \<Rightarrow> 'o \<Rightarrow> ('o, 's, 'c, 'w) async_loading \<Rightarrow>
   'o call_outcome \<times> ('o, 's, 'c, 'w) async_loading" where
  "load_async E force e st =
     (let i = ld_ident E e in
      case map_of (al_promises st) i of
        Some k \<Rightarrow> (Awaits_Task k, st)
      | None \<Rightarrow>
          (case (if force then None else map_of (rl_loaded (al_relation st)) i) of
             Some v \<Rightarrow> (Returns_Loaded v, st)
           | None \<Rightarrow>
               (Awaits_Task (length (al_tasks st)),
                st\<lparr>al_tasks := al_tasks st @ [\<lparr>lt_entity = e, lt_force = force, lt_phase = Task_Created\<rparr>],
                   al_promises := AList.update i (length (al_tasks st)) (al_promises st)\<rparr>)))"

definition put_phase :: "nat \<Rightarrow> 'o task_phase \<Rightarrow> ('o, 's, 'c, 'w) async_loading \<Rightarrow> ('o, 's, 'c, 'w) async_loading" where
  "put_phase k p st = st\<lparr>al_tasks := (al_tasks st)[k := (al_tasks st ! k)\<lparr>lt_phase := p\<rparr>]\<rparr>"

text \<open>The end of a task whose body has been entered.\<close>

definition task_end ::
  "('o, 's, 'w) loading \<Rightarrow> nat \<Rightarrow> 'o task_phase \<Rightarrow> ('o, 's, 'c, 'w) async_loading \<Rightarrow> ('o, 's, 'c, 'w) async_loading" where
  "task_end E k p st =
     put_phase k p (st\<lparr>al_promises := AList.delete (ld_ident E (lt_entity (al_tasks st ! k))) (al_promises st)\<rparr>)"

definition task_start ::
  "('o, 's, 'w) loading \<Rightarrow> int \<Rightarrow> nat \<Rightarrow> ('o, 's, 'c, 'w) async_loading \<Rightarrow> ('o, 's, 'c, 'w) async_loading" where
  "task_start E now k st =
     (let t = al_tasks st ! k in
      case cached_relation E now (lt_force t) (ld_ident E (lt_entity t)) (al_relation st, al_manager st) of
        (Some v, r, m) \<Rightarrow> task_end E k (Task_Finished (Inr v)) (st\<lparr>al_relation := r, al_manager := m\<rparr>)
      | (None, r, m) \<Rightarrow> put_phase k Task_Loading (st\<lparr>al_relation := r, al_manager := m\<rparr>))"

definition task_answer ::
  "('o, 's, 'w) loading \<Rightarrow> int \<Rightarrow> nat \<Rightarrow> ('o, 's, 'c, 'w) async_loading \<Rightarrow> ('o, 's, 'c, 'w) async_loading option" where
  "task_answer E now k st =
     (let e = lt_entity (al_tasks st ! k); c = rl_config (al_relation st) in
      case ld_load E e (rc_name c) (rc_strategy c) (al_world st) of
        (None, w) \<Rightarrow> Some (task_end E k (Task_Finished (Inl (Load_Failed (rc_name c)))) (st\<lparr>al_world := w\<rparr>))
      | (Some x, w) \<Rightarrow>
          map_option (\<lambda>(r, m).
              task_end E k (Task_Finished (Inr (shaped (rc_type c) x)))
                (st\<lparr>al_relation := r, al_manager := m, al_world := w\<rparr>))
            (store_loaded E now (ld_ident E e) (shaped (rc_type c) x) (al_relation st, al_manager st)))"

inductive async_step ::
  "('o, 's, 'w) loading \<Rightarrow> ('o, 's, 'c, 'w) async_loading \<Rightarrow> ('o, 's, 'c, 'w) async_loading \<Rightarrow> bool"
  for E :: "('o, 's, 'w) loading" where
  step_call: "load_async E force e st = (out, st') \<Longrightarrow> async_step E st st'"
| step_start: "k < length (al_tasks st) \<Longrightarrow> lt_phase (al_tasks st ! k) = Task_Created \<Longrightarrow>
     async_step E st (task_start E now k st)"
| step_answer: "k < length (al_tasks st) \<Longrightarrow> lt_phase (al_tasks st ! k) = Task_Loading \<Longrightarrow>
     task_answer E now k st = Some st' \<Longrightarrow> async_step E st st'"
| step_cancel_created: "k < length (al_tasks st) \<Longrightarrow> lt_phase (al_tasks st ! k) = Task_Created \<Longrightarrow>
     async_step E st (put_phase k Task_Cancelled st)"
| step_cancel_loading: "k < length (al_tasks st) \<Longrightarrow> lt_phase (al_tasks st ! k) = Task_Loading \<Longrightarrow>
     async_step E st (task_end E k Task_Cancelled st)"

definition under_way :: "'o load_task \<Rightarrow> bool" where
  "under_way t \<longleftrightarrow> lt_phase t = Task_Created \<or> lt_phase t = Task_Loading"

text \<open>Every task under way holds the promise of its entity; a promise belongs to a task of its entity.\<close>

definition promises_kept :: "('o, 's, 'w) loading \<Rightarrow> ('o, 's, 'c, 'w) async_loading \<Rightarrow> bool" where
  "promises_kept E st \<longleftrightarrow>
     (\<forall>k < length (al_tasks st). under_way (al_tasks st ! k) \<longrightarrow>
        map_of (al_promises st) (ld_ident E (lt_entity (al_tasks st ! k))) = Some k) \<and>
     (\<forall>i k. map_of (al_promises st) i = Some k \<longrightarrow>
        k < length (al_tasks st) \<and> ld_ident E (lt_entity (al_tasks st ! k)) = i \<and>
        (under_way (al_tasks st ! k) \<or> lt_phase (al_tasks st ! k) = Task_Cancelled))"

lemma put_phase_simps [simp]:
  "al_promises (put_phase k p st) = al_promises st"
  "length (al_tasks (put_phase k p st)) = length (al_tasks st)"
  "k < length (al_tasks st) \<Longrightarrow> al_tasks (put_phase k p st) ! j =
     (if j = k then (al_tasks st ! k)\<lparr>lt_phase := p\<rparr> else al_tasks st ! j)"
  by (auto simp: put_phase_def)

lemma promises_keptI:
  assumes "\<And>k. k < length (al_tasks st) \<Longrightarrow> under_way (al_tasks st ! k) \<Longrightarrow>
      map_of (al_promises st) (ld_ident E (lt_entity (al_tasks st ! k))) = Some k"
    and "\<And>i k. map_of (al_promises st) i = Some k \<Longrightarrow>
      k < length (al_tasks st) \<and> ld_ident E (lt_entity (al_tasks st ! k)) = i \<and>
      (under_way (al_tasks st ! k) \<or> lt_phase (al_tasks st ! k) = Task_Cancelled)"
  shows "promises_kept E st"
  using assms unfolding promises_kept_def by blast

lemma promises_keptD:
  assumes "promises_kept E st"
  shows "k < length (al_tasks st) \<Longrightarrow> under_way (al_tasks st ! k) \<Longrightarrow>
      map_of (al_promises st) (ld_ident E (lt_entity (al_tasks st ! k))) = Some k"
    and "map_of (al_promises st) i = Some k \<Longrightarrow>
      k < length (al_tasks st) \<and> ld_ident E (lt_entity (al_tasks st ! k)) = i \<and>
      (under_way (al_tasks st ! k) \<or> lt_phase (al_tasks st ! k) = Task_Cancelled)"
  using assms unfolding promises_kept_def by blast+

lemma promises_new_task:
  assumes ok: "promises_kept E st" and new: "map_of (al_promises st) (ld_ident E (lt_entity t)) = None" "under_way t"
  shows "promises_kept E (st\<lparr>al_tasks := al_tasks st @ [t],
      al_promises := AList.update (ld_ident E (lt_entity t)) (length (al_tasks st)) (al_promises st)\<rparr>)"
proof (rule promises_keptI, goal_cases)
  case (1 k)
  show ?case
  proof (cases "k < length (al_tasks st)")
    case True
    with 1 promises_keptD(1) [OF ok True] new show ?thesis by (auto simp: nth_append)
  next
    case False
    with 1 have "k = length (al_tasks st)" by simp
    then show ?thesis by simp
  qed
next
  case (2 i k)
  show ?case
  proof (cases "i = ld_ident E (lt_entity t)")
    case True
    with 2 new show ?thesis by (auto simp: nth_append)
  next
    case False
    with 2 promises_keptD(2) [OF ok, of i k] show ?thesis by (simp add: nth_append)
  qed
qed

lemma promises_call: "promises_kept E st \<Longrightarrow> promises_kept E (snd (load_async E force e st))"
  using promises_new_task [of E st "\<lparr>lt_entity = e, lt_force = force, lt_phase = Task_Created\<rparr>"]
  by (auto simp: load_async_def Let_def under_way_def split: option.splits)

lemma promises_phase:
  assumes "promises_kept E st" "k < length (al_tasks st)" "under_way (al_tasks st ! k)"
    "p \<in> {Task_Created, Task_Loading, Task_Cancelled}"
  shows "promises_kept E (put_phase k p st)"
  using assms by (auto simp: promises_kept_def under_way_def)

lemma promises_end:
  assumes "promises_kept E st" "k < length (al_tasks st)" "under_way (al_tasks st ! k)"
    "\<not> under_way ((al_tasks st ! k)\<lparr>lt_phase := p\<rparr>)"
  shows "promises_kept E (task_end E k p st)"
proof -
  let ?i = "ld_ident E (lt_entity (al_tasks st ! k))"
  have own: "map_of (al_promises st) ?i = Some k" using assms(1-3) by (simp add: promises_kept_def)
  have others: "map_of (al_promises st) (ld_ident E (lt_entity (al_tasks st ! j))) = Some j"
    "ld_ident E (lt_entity (al_tasks st ! j)) \<noteq> ?i"
    if "j < length (al_tasks st)" "under_way (al_tasks st ! j)" "j \<noteq> k" for j
    using promises_keptD(1) [OF assms(1) that(1,2)] own that(3) by auto
  show ?thesis
  proof (rule promises_keptI, goal_cases)
    case (1 j)
    with others [of j] assms(2,4) show ?case by (simp add: task_end_def split: if_splits)
  next
    case (2 i j)
    then have "map_of (al_promises st) i = Some j" "i \<noteq> ?i"
      by (simp_all add: task_end_def split: if_splits)
    with promises_keptD(2) [OF assms(1), of i j] assms(2) show ?case by (auto simp: task_end_def)
  qed
qed

lemma promises_state [simp]:
  "promises_kept E (st\<lparr>al_relation := r, al_manager := m\<rparr>) = promises_kept E st"
  "promises_kept E (st\<lparr>al_relation := r, al_manager := m, al_world := w\<rparr>) = promises_kept E st"
  "promises_kept E (st\<lparr>al_world := w\<rparr>) = promises_kept E st"
  by (simp_all add: promises_kept_def)

lemma promises_step: "async_step E st st' \<Longrightarrow> promises_kept E st \<Longrightarrow> promises_kept E st'"
proof (induction rule: async_step.induct)
  case (step_call force e st out st')
  then show ?case using promises_call [of E st force e] by simp
next
  case (step_start k st now)
  then show ?case
    by (auto simp: task_start_def Let_def under_way_def intro!: promises_end promises_phase
        split: prod.splits option.splits)
next
  case (step_answer k st now st')
  then show ?case
    by (auto simp: task_answer_def Let_def under_way_def intro!: promises_end split: prod.splits option.splits)
next
  case (step_cancel_created k st)
  then show ?case by (intro promises_phase) (simp_all add: under_way_def)
next
  case (step_cancel_loading k st)
  then show ?case by (intro promises_end) (simp_all add: under_way_def)
qed

lemma promises_reached: "(async_step E)\<^sup>*\<^sup>* (new_async_loading r m w) st \<Longrightarrow> promises_kept E st"
proof (induction rule: rtranclp_induct)
  case base
  show ?case by (simp add: promises_kept_def new_async_loading_def)
qed (rule promises_step)

text \<open>A promise whose task was cancelled before it began is never taken out.\<close>

definition stuck :: "element_id option \<Rightarrow> nat \<Rightarrow> ('o, 's, 'c, 'w) async_loading \<Rightarrow> bool" where
  "stuck i k st \<longleftrightarrow> map_of (al_promises st) i = Some k \<and> k < length (al_tasks st) \<and>
     lt_phase (al_tasks st ! k) = Task_Cancelled"

lemma stuck_step:
  assumes "async_step E st st'" "promises_kept E st" "stuck i k st"
  shows "stuck i k st'"
  using assms
proof (induction rule: async_step.induct)
  case (step_call force e st out st')
  then show ?case by (auto simp: stuck_def load_async_def Let_def nth_append split: option.splits)
next
  case (step_start j st now)
  then show ?case
    by (auto simp: stuck_def task_start_def task_end_def Let_def promises_kept_def under_way_def
        split: prod.splits option.splits)
next
  case (step_answer j st now st')
  then show ?case
    by (auto simp: stuck_def task_answer_def task_end_def Let_def promises_kept_def under_way_def
        split: prod.splits option.splits)
next
  case (step_cancel_created j st)
  then show ?case by (auto simp: stuck_def)
next
  case (step_cancel_loading j st)
  then show ?case by (auto simp: stuck_def task_end_def promises_kept_def under_way_def)
qed

lemma stuck_stays:
  "(async_step E)\<^sup>*\<^sup>* st st' \<Longrightarrow> promises_kept E st \<Longrightarrow> stuck i k st \<Longrightarrow> promises_kept E st' \<and> stuck i k st'"
proof (induction rule: rtranclp_induct)
  case (step y z)
  with promises_step [OF step.hyps(2)] stuck_step [OF step.hyps(2)] show ?case by blast
qed simp

subsection \<open>Relationships by type and name\<close>

definition well_named :: "'o relation_manager \<Rightarrow> bool" where
  "well_named M \<longleftrightarrow> (\<forall>t n r. get_relationship t n M = Some r \<longrightarrow> rc_name (rl_config r) = n)"

lemma get_put_relation:
  "get_relationship t' n (put_relation t r M) =
     (if t' = t \<and> n = rc_name (rl_config r) then Some r else get_relationship t' n M)"
  by (simp add: get_relationship_def put_relation_def register_relation_def sub_dict_def)

lemma get_register_relation:
  "get_relationship t' n (register_relation t r M) =
     (if t' = t \<and> n = rc_name (rl_config r) then Some r else get_relationship t' n M)"
  using get_put_relation [of t' n t r M] by (simp add: put_relation_def)

lemma get_register_inverse [simp]: "get_relationship t n (register_inverse tgt k p M) = get_relationship t n M"
  by (simp add: get_relationship_def register_inverse_def)

lemma well_named_new [simp]: "well_named new_relation_manager"
  by (simp add: well_named_def get_relationship_def new_relation_manager_def sub_dict_def)

lemma well_named_register:
  "well_named M \<Longrightarrow> register_kind k src c inv_prop M = Some M' \<Longrightarrow> well_named M'"
  by (auto simp: well_named_def register_kind_def Let_def get_register_relation split: option.splits if_splits)

lemma invalidate_relation_loaded:
  "fst (invalidate_relation E call e x) = (fst x)\<lparr>rl_loaded := AList.delete (ld_ident E e) (rl_loaded (fst x))\<rparr>"
  by (cases x) (auto simp: invalidate_relation_def drop_cached_def split: prod.splits)

definition forget :: "element_id option \<Rightarrow> 'o relation \<Rightarrow> 'o relation" where
  "forget i r = r\<lparr>rl_loaded := AList.delete i (rl_loaded r)\<rparr>"

lemma forget_simps [simp]:
  "rl_config (forget i r) = rl_config r" "map_of (rl_loaded (forget i r)) = (map_of (rl_loaded r))(i := None)"
  by (simp_all add: forget_def)

lemma get_invalidated:
  assumes "well_named M" "invalidate_relationship E tyname call e n (M, m, w) = (M', m', w')"
  shows "get_relationship t k M' =
           (if t = tyname e \<and> k = n then map_option (forget (ld_ident E e)) (get_relationship t k M)
            else get_relationship t k M)"
    and "well_named M'"
proof -
  show get: "get_relationship t k M' =
           (if t = tyname e \<and> k = n then map_option (forget (ld_ident E e)) (get_relationship t k M)
            else get_relationship t k M)" for t k
  proof (cases "get_relationship (tyname e) n M")
    case None
    with assms(2) show ?thesis by (auto simp: invalidate_relationship_def)
  next
    case (Some r)
    then have "rc_name (rl_config r) = n" using assms(1) by (simp add: well_named_def)
    with Some assms(2) invalidate_relation_loaded [of E call e "(r, m, w)"] show ?thesis
      by (auto simp: invalidate_relationship_def get_put_relation forget_def split: prod.splits)
  qed
  show "well_named M'" using assms(1) by (auto simp: well_named_def get split: if_splits)
qed

lemma get_invalidated_all:
  "well_named M \<Longrightarrow>
   get_relationship t k (fst (fold (\<lambda>n. invalidate_relationship E tyname call e n) ns (M, m, w))) =
     (if t = tyname e \<and> k \<in> set ns then map_option (forget (ld_ident E e)) (get_relationship t k M)
      else get_relationship t k M)"
proof (induction ns arbitrary: M m w)
  case (Cons n ns)
  obtain M1 m1 w1 where s: "invalidate_relationship E tyname call e n (M, m, w) = (M1, m1, w1)" by (metis prod_cases3)
  have twice: "forget i (forget i r) = forget i r" for i and r :: "'a relation"
    by (simp add: forget_def delete_idem)
  show ?case
    using Cons.IH [OF get_invalidated(2) [OF Cons.prems s], of m1 w1] get_invalidated(1) [OF Cons.prems s] s
    by (auto simp: option.map_comp comp_def twice)
qed simp

lemma invalidate_entity_gets:
  assumes "well_named M"
  shows "get_relationship t n (fst (invalidate_entity E tyname call e (M, m, w))) =
    (if t = tyname e then map_option (forget (ld_ident E e)) (get_relationship t n M) else get_relationship t n M)"
proof -
  have "get_relationship (tyname e) n M = None" if "n \<notin> set (map fst (sub_dict (tyname e) (rm_relations M)))"
    using that by (simp add: get_relationship_def map_of_None_keys)
  then show ?thesis
    unfolding invalidate_entity_def get_invalidated_all [OF assms] by (cases "n \<in> set (map fst (sub_dict (tyname e) (rm_relations M)))") auto
qed

lemma relation_load_config:
  "relation_load E now force e (r, m, w) = Some (a, r', x) \<Longrightarrow> rl_config r' = rl_config r"
  by (auto simp: relation_load_def cached_relation_def store_loaded_def remember_def Let_def
      split: option.splits prod.splits if_splits)

subsection \<open>Properties\<close>

definition memory_loading ::
  "cache_config \<Rightarrow> ('o \<Rightarrow> element_id option) \<Rightarrow> ('o, 'w) loader \<Rightarrow> ('o, 'o orm_value mem_cache, 'w) loading" where
  "memory_loading cfg ident load =
     \<lparr>ld_backend = memory_backend cfg, ld_cache_config = cfg, ld_ident = ident, ld_load = load\<rparr>"

interpretation rel: relation_cache "memory_loading cfg ident load" "mem_ok cfg" mem_peek for cfg ident load
  by unfold_locales
    (use mem.get_law mem.set_law mem.delete_law mem.clear_law mem.keys_law in \<open>simp_all add: memory_loading_def\<close>)

definition sample_relation :: "relationship_type \<Rightarrow> relation_config" where
  "sample_relation k = \<lparr>rc_name = ''rooms'', rc_type = k, rc_target = ''Room'', rc_strategy = LAZY, rc_cache_enabled = True,
     rc_batch_size = 100\<rparr>"

definition nat_ident :: "nat \<Rightarrow> element_id option" where
  "nat_ident n = Some (IntId (int n))"

definition next_loader :: "(nat, nat) loader" where
  "next_loader e n s w = (Some (OV_One (Suc e)), Suc w)"

text \<open>
  A new relationship over a memory cache behaves as one table of loaded values: every sequence of
  loads, additions, removals and invalidations returns, with the answers, the calls of the loader
  and the known values of the specification, which has no cache. The lifetime and the size of the
  cache have no effect: what is loaded is never loaded again unless it is forced or invalidated.
\<close>

theorem relation_is_a_memo:
  assumes "config_ok cfg" and "new_relation k c = Some r"
    and "inj_on (\<lambda>i. key_str (relation_key c i)) (ident ` op_entity ` set ps)"
    and "memo_run (memory_loading cfg ident load) c ps (Map.empty, w) = (as, t, w')"
  shows "\<exists>r' m'. relation_run (memory_loading cfg ident load) call ps (r, new_manager cfg (empty_mem_cache t0), w)
           = Some (as, r', m', w') \<and> map_of (rl_loaded r') = t"
proof -
  let ?m = "new_manager cfg (empty_mem_cache t0)"
  have r: "rl_config r = c" "map_of (rl_loaded r) = Map.empty"
    using assms(2) by (auto simp: new_relation_def split: if_splits)
  have "rel.held cfg ?m (\<lambda>_. None)"
    using assms(1) by (simp add: rel.held_def new_manager_def mem_ok_def mem_peek_def)
      (simp add: empty_mem_cache_def within_store_def)
  then have "rel.known cfg c (ident ` op_entity ` set ps) ?m (map_of (rl_loaded r))"
    unfolding rel.known_def by (intro conjI exI [of _ "\<lambda>_. None"]) (simp_all add: new_manager_def)
  from rel.run_refines [OF r(1) this _ assms(3), of ps ident load w as t w' call] assms(4) r(2) show ?thesis
    by (simp add: memory_loading_def)
qed

theorem relation_is_a_memo_witness:
  "\<exists>r' m'. relation_run (memory_loading (sample_config 1 LRU) nat_ident next_loader) (\<lambda>(_ :: unit) _ w. (w, None))
       [Rel_Load 5 False 1, Rel_Add 6 1 9, Rel_Load 700000000 False 1]
       (\<lparr>rl_config = sample_relation ONE_TO_MANY, rl_loaded = []\<rparr>,
        new_manager (sample_config 1 LRU) (empty_mem_cache 0), 0)
     = Some ([Answer_Value (Inr (OV_List [Suc 1])), Answer_Flag (Inr True), Answer_Value (Inr (OV_List [Suc 1, 9]))], r', m', 1) \<and>
     map_of (rl_loaded r') = [Some (IntId 1) \<mapsto> OV_List [Suc 1, 9]]"
proof (rule relation_is_a_memo [where k = ONE_TO_MANY and c = "sample_relation ONE_TO_MANY"])
  show "config_ok (sample_config 1 LRU)" by (simp add: config_ok_iff)
qed (simp_all add: new_relation_def config_accepted_def sample_relation_def memory_loading_def memo_load_def memo_change_def
      nat_ident_def next_loader_def shaped_def as_collection_def added_def)

text \<open>
  While an entity's relationship is being loaded by one task, no other task loads it: two tasks
  under way for the same identifier are the same, and every caller that comes meanwhile awaits it.
\<close>

theorem one_load_per_entity:
  assumes "(async_step E)\<^sup>*\<^sup>* (new_async_loading r m w) st"
    and "k < length (al_tasks st)" "under_way (al_tasks st ! k)"
    and "ld_ident E e = ld_ident E (lt_entity (al_tasks st ! k))"
  shows "load_async E force e st = (Awaits_Task k, st) \<and>
    (\<forall>j < length (al_tasks st). under_way (al_tasks st ! j) \<and> ld_ident E (lt_entity (al_tasks st ! j)) = ld_ident E e
       \<longrightarrow> j = k)"
proof -
  note kept = promises_keptD(1) [OF promises_reached [OF assms(1)]]
  have own: "map_of (al_promises st) (ld_ident E e) = Some k" using kept [OF assms(2,3)] assms(4) by simp
  have "j = k" if "j < length (al_tasks st)" "under_way (al_tasks st ! j)"
    "ld_ident E (lt_entity (al_tasks st ! j)) = ld_ident E e" for j
    using kept [OF that(1,2)] that(3) own by simp
  with own show ?thesis by (auto simp: load_async_def)
qed

theorem one_load_per_entity_witness:
  "let E = memory_loading (sample_config 1 LRU) nat_ident next_loader;
       st = snd (load_async E False 1 (new_async_loading \<lparr>rl_config = sample_relation ONE_TO_ONE, rl_loaded = []\<rparr>
              (new_manager (sample_config 1 LRU) (empty_mem_cache 0) :: (nat orm_value mem_cache, unit) manager) 0))
   in load_async E True 1 st = (Awaits_Task 0, st)"
proof -
  let ?E = "memory_loading (sample_config 1 LRU) nat_ident next_loader"
  let ?init = "new_async_loading \<lparr>rl_config = sample_relation ONE_TO_ONE, rl_loaded = []\<rparr>
              (new_manager (sample_config 1 LRU) (empty_mem_cache 0) :: (nat orm_value mem_cache, unit) manager) 0"
  let ?st = "snd (load_async ?E False 1 ?init)"
  have call: "load_async ?E False 1 ?init = (fst (load_async ?E False 1 ?init), ?st)" by simp
  note step = r_into_rtranclp [of "async_step ?E", OF step_call [OF call]]
  show ?thesis unfolding Let_def
    by (rule conjunct1 [OF one_load_per_entity [OF step]])
      (simp_all add: load_async_def new_async_loading_def under_way_def memory_loading_def)
qed

text \<open>
  A task that is cancelled before its first step leaves its promise behind for good: whatever
  happens afterwards, every later \<open>load_async\<close> for the entity awaits the cancelled task.
\<close>

theorem cancelled_load_blocks_entity:
  assumes "(async_step E)\<^sup>*\<^sup>* (new_async_loading r m w) st0"
    and "map_of (al_promises st0) (ld_ident E e) = None"
    and "load_async E force e st0 = (Awaits_Task k, st)"
    and "(async_step E)\<^sup>*\<^sup>* (put_phase k Task_Cancelled st) st'"
    and "ld_ident E e' = ld_ident E e"
  shows "load_async E force' e' st' = (Awaits_Task k, st') \<and> lt_phase (al_tasks st' ! k) = Task_Cancelled"
proof -
  have st: "promises_kept E st" using promises_call [OF promises_reached [OF assms(1)], of force e] assms(3) by simp
  have k: "k < length (al_tasks st)" "lt_phase (al_tasks st ! k) = Task_Created"
    "map_of (al_promises st) (ld_ident E e) = Some k"
    using assms(2,3) by (auto simp: load_async_def Let_def split: option.splits)
  have "promises_kept E (put_phase k Task_Cancelled st)" "stuck (ld_ident E e) k (put_phase k Task_Cancelled st)"
    using k promises_phase [OF st k(1)] by (simp_all add: under_way_def stuck_def)
  from stuck_stays [OF assms(4) this] assms(5) show ?thesis by (auto simp: stuck_def load_async_def)
qed

theorem cancelled_load_blocks_entity_witness:
  "let E = memory_loading (sample_config 1 LRU) nat_ident next_loader;
       st = put_phase 0 Task_Cancelled (snd (load_async E False 1 (new_async_loading
              \<lparr>rl_config = sample_relation ONE_TO_ONE, rl_loaded = []\<rparr>
              (new_manager (sample_config 1 LRU) (empty_mem_cache 0) :: (nat orm_value mem_cache, unit) manager) 0)))
   in load_async E True 1 st = (Awaits_Task 0, st)"
proof -
  let ?E = "memory_loading (sample_config 1 LRU) nat_ident next_loader"
  let ?init = "new_async_loading \<lparr>rl_config = sample_relation ONE_TO_ONE, rl_loaded = []\<rparr>
              (new_manager (sample_config 1 LRU) (empty_mem_cache 0) :: (nat orm_value mem_cache, unit) manager) 0"
  have call: "load_async ?E False 1 ?init = (Awaits_Task 0, snd (load_async ?E False 1 ?init))"
    by (rule prod_eqI) (simp_all add: load_async_def new_async_loading_def)
  show ?thesis unfolding Let_def
    by (rule conjunct1 [OF cancelled_load_blocks_entity [OF rtranclp.rtrancl_refl _ call rtranclp.rtrancl_refl]])
      (simp_all add: new_async_loading_def)
qed

text \<open>
  After \<open>invalidate_entity\<close> no relationship of the entity's class knows anything of it; what they
  know of other entities, and the relationships of other classes, stay.
\<close>

theorem invalidate_entity_forgets:
  assumes "register_kind k src c inv_prop new_relation_manager = Some M0"
    and "manager_load E tyname now force e0 n0 (M0, m0, w0) = Some (a, M, m, w)"
    and "get_relationship t n (fst (invalidate_entity E tyname call e (M, m, w))) = Some r'"
  shows "\<exists>r. get_relationship t n M = Some r \<and> rl_config r' = rl_config r \<and>
    map_of (rl_loaded r') = (if t = tyname e then (map_of (rl_loaded r))(ld_ident E e := None) else map_of (rl_loaded r))"
proof -
  have M0: "well_named M0" using well_named_register [OF well_named_new assms(1)] .
  have "well_named M"
    using M0 assms(2)
    by (auto simp: manager_load_def well_named_def get_put_relation dest!: relation_load_config split: option.splits if_splits)
  from invalidate_entity_gets [OF this, of t n E tyname call e m w] assms(3) show ?thesis
    by (cases "get_relationship t n M") (auto split: if_splits)
qed

theorem invalidate_entity_forgets_witness:
  "let E = memory_loading (sample_config 1 LRU) nat_ident next_loader;
       c = (sample_relation ONE_TO_ONE)\<lparr>rc_cache_enabled := False\<rparr>;
       m = new_manager (sample_config 1 LRU) (empty_mem_cache 0) :: (nat orm_value mem_cache, unit) manager;
       M = \<lparr>rm_relations = [(''Wall'', [(''rooms'', \<lparr>rl_config = c, rl_loaded = [(nat_ident 1, OV_One 2)]\<rparr>)])], rm_inverse = []\<rparr>;
       r = the (get_relationship ''Wall'' ''rooms'' (fst (invalidate_entity E (\<lambda>_. ''Wall'') (\<lambda>_ _ w. (w, None)) 1 (M, m, 1))))
   in map_of (rl_loaded r) (nat_ident 1) = None"
proof -
  let ?E = "memory_loading (sample_config 1 LRU) nat_ident next_loader"
  let ?c = "(sample_relation ONE_TO_ONE)\<lparr>rc_cache_enabled := False\<rparr>"
  let ?m = "new_manager (sample_config 1 LRU) (empty_mem_cache 0) :: (nat orm_value mem_cache, unit) manager"
  let ?N = "\<lparr>rm_relations = [(''Wall'', [(''rooms'', \<lparr>rl_config = ?c, rl_loaded = []\<rparr>)])], rm_inverse = []\<rparr>"
  let ?M = "\<lparr>rm_relations = [(''Wall'', [(''rooms'', \<lparr>rl_config = ?c, rl_loaded = [(nat_ident 1, OV_One 2)]\<rparr>)])], rm_inverse = []\<rparr>"
  let ?r = "\<lparr>rl_config = ?c, rl_loaded = []\<rparr> :: nat relation"
  have 1: "register_kind ONE_TO_ONE ''Wall'' ?c None new_relation_manager = Some ?N"
    by (simp add: register_kind_def new_relation_def config_accepted_def sample_relation_def register_relation_def
        new_relation_manager_def sub_dict_def)
  have 2: "manager_load ?E (\<lambda>_. ''Wall'') 5 False 1 ''rooms'' (?N, ?m, 0) = Some (Inr (OV_One 2), ?M, ?m, 1)"
    by (simp add: manager_load_def get_relationship_def sub_dict_def sample_relation_def relation_load_def Let_def
        cached_relation_def use_cache_def store_loaded_def remember_def memory_loading_def next_loader_def shaped_def
        put_relation_def register_relation_def)
  have 3: "get_relationship ''Wall'' ''rooms'' (fst (invalidate_entity ?E (\<lambda>_. ''Wall'') (\<lambda>_ _ w. (w, None)) 1 (?M, ?m, 1))) = Some ?r"
    by (simp add: invalidate_entity_def invalidate_relationship_def get_relationship_def sub_dict_def invalidate_relation_def
        drop_cached_def use_cache_def put_relation_def register_relation_def sample_relation_def memory_loading_def)
  show ?thesis
    unfolding Let_def 3 option.sel using invalidate_entity_forgets [OF 1 2 3] by (simp add: memory_loading_def)
qed

end
