(* ===== verification/Orm_Context.thy ===== *)
theory Orm_Context
  imports Change_Tracker Element_Set Relationships
begin

text \<open>
  The ORM context (\<open>RevitContext\<close> of \<open>orm/context.py\<close>), which puts the cache manager, the change
  tracker, the element sets with their queries, and the relationship manager together.

  Identifiers are scalars (numbers, texts, UUIDs). The one cache manager is in the query store:
  entities and related objects are kept in it as \<open>orm_value\<close>s, and queries use it through
  \<open>list_view\<close>. Keys of the three kinds differ in their text, so a query never meets an entity, nor
  the other way round. The element provider and the unit of work are arguments; \<open>cv_change\<close> is a
  change set seen as an object. Entities count as true.
\<close>

subsection \<open>The cache as the queries see it\<close>

definition value_list :: "'o orm_value \<Rightarrow> 'o list option" where
  "value_list v = (case v of OV_None \<Rightarrow> None | OV_One x \<Rightarrow> Some [x] | OV_List xs \<Rightarrow> Some xs)"

definition map_entry :: "('v \<Rightarrow> 'u option) \<Rightarrow> 'v cache_entry \<Rightarrow> 'u cache_entry" where
  "map_entry f e =
     \<lparr>ce_data = Option.bind (ce_data e) f, ce_created = ce_created e, ce_accessed = ce_accessed e,
      ce_count = ce_count e, ce_ttl = ce_ttl e, ce_deps = ce_deps e\<rparr>"

definition list_view :: "('s, 'o orm_value) backend \<Rightarrow> ('s, 'o list) backend" where
  "list_view B =
     \<lparr>b_get = (\<lambda>now k s. apfst (map_sum id (map_option (map_entry value_list))) (b_get B now k s)),
      b_set = (\<lambda>now k e s. b_set B now k (map_entry (\<lambda>xs. Some (OV_List xs)) e) s),
      b_delete = b_delete B, b_clear = b_clear B, b_keys = b_keys B, b_size = b_size B, b_invalidate = b_invalidate B\<rparr>"

subsection \<open>Environment and state\<close>

record ('a, 'w) unit_of_work =
  uw_new :: "'a change_set \<Rightarrow> ('w, string) action"
  uw_dirty :: "'a change_set \<Rightarrow> ('w, string) action"
  uw_removed :: "'a change_set \<Rightarrow> ('w, string) action"
  uw_commit :: "('w, string) action"
  uw_rollback :: "('w, string) action option"

record ('o, 't, 'k, 's, 'c, 'w) context_env =
  cv_objects :: "('o, element_id, 'w) objects"
  cv_fetch :: "element_id \<Rightarrow> 'w \<Rightarrow> (string + 'o option) \<times> 'w"
  cv_work :: "(element_id, 'w) unit_of_work option"
  cv_backend :: "('s, 'o orm_value) backend"
  cv_cache_config :: cache_config
  cv_call :: "('c, 'w) caller"
  cv_loader :: "('o, 'w) loader"
  cv_all :: "'w \<Rightarrow> string + 'o list"
  cv_of_type :: "'w \<Rightarrow> 't \<Rightarrow> string + 'o list"
  cv_type_text :: "'t \<Rightarrow> string"
  cv_plan_hash :: "('o, 'k) query_op list \<Rightarrow> string"
  cv_identity :: "'o \<Rightarrow> 'k"
  cv_change :: "element_id change_set \<Rightarrow> 'o"

record context_config =
  auto_track_changes :: bool
  context_policy :: cache_policy

record ('o, 't, 'k, 's, 'c, 'd) orm_context =
  cx_config :: context_config
  cx_sets :: "('t, 'o, 'k, 's, 'c) set_world"
  cx_tracker :: "('o, element_id, 'd) change_tracker"
  cx_relations :: "'o relation_manager option"
  cx_entity_sets :: "('t, nat) dict"
  cx_disposed :: bool

definition new_context ::
  "context_config \<Rightarrow> ('t, 'o, 'k, 's, 'c) set_world \<Rightarrow> ('o, element_id, 'd) change_tracker \<Rightarrow> 'o relation_manager option \<Rightarrow>
   ('o, 't, 'k, 's, 'c, 'd) orm_context" where
  "new_context cfg sets t rel =
     \<lparr>cx_config = cfg, cx_sets = sets, cx_tracker = set_auto_track (auto_track_changes cfg) t, cx_relations = rel,
      cx_entity_sets = [], cx_disposed = False\<rparr>"

datatype context_error =
    Disposed
  | Orm_Failed string
  | Tracking_Failed tracking_error
  | Relation_Failed relation_error
  | No_Relations string
  | Query_Failed query_error
  | Body_Raised string
  | Body_Interrupted string

type_synonym ('r, 'o, 't, 'k, 's, 'c, 'd, 'w) context_result =
  "((context_error + 'r) \<times> ('o, 't, 'k, 's, 'c, 'd) orm_context \<times> 'w) option"

definition cx_cache :: "('o, 't, 'k, 's, 'c, 'd) orm_context \<Rightarrow> ('s, 'c) manager" where
  "cx_cache x = q_cache (sw_query (cx_sets x))"

definition put_cache :: "('s, 'c) manager \<Rightarrow> ('o, 't, 'k, 's, 'c, 'd) orm_context \<Rightarrow> ('o, 't, 'k, 's, 'c, 'd) orm_context" where
  "put_cache m x = x\<lparr>cx_sets := (cx_sets x)\<lparr>sw_query := (sw_query (cx_sets x))\<lparr>q_cache := m\<rparr>\<rparr>\<rparr>"

definition put_change_tracker ::
  "('o, element_id, 'd) change_tracker \<Rightarrow> ('o, 't, 'k, 's, 'c, 'd) orm_context \<Rightarrow> ('o, 't, 'k, 's, 'c, 'd) orm_context" where
  "put_change_tracker t x = x\<lparr>cx_tracker := t\<rparr>"

definition scalar_id :: "element_id pyval \<Rightarrow> element_id option" where
  "scalar_id v = (case v of Scalar i \<Rightarrow> Some i | _ \<Rightarrow> None)"

text \<open>\<open>_get_entity_id\<close> of the context falls back on \<open>id\<close>, that of the tracker on \<open>hash\<close>.\<close>

definition context_entity_id :: "('o, 'a, 'w) objects \<Rightarrow> 'o \<Rightarrow> 'w \<Rightarrow> 'a pyval" where
  "context_entity_id Ob ent w =
     (case read_attr Ob ent ''id'' w of Some v \<Rightarrow> v
      | None \<Rightarrow> (case read_attr Ob ent ''Id'' w of Some v \<Rightarrow> v | None \<Rightarrow> object_address Ob ent))"

definition query_env_of ::
  "('o, 't, 'k, 's, 'c, 'w) context_env \<Rightarrow> 'w \<Rightarrow> ('t, 'o, 'k, 's) query_env" where
  "query_env_of V w =
     \<lparr>all_elements = cv_all V w, elements_of_type = cv_of_type V w, type_text = cv_type_text V, plan_hash = cv_plan_hash V,
      identity = cv_identity V, q_backend = list_view (cv_backend V), q_config = cv_cache_config V\<rparr>"

definition loading_of :: "('o, 't, 'k, 's, 'c, 'w) context_env \<Rightarrow> 'w \<Rightarrow> ('o, 's, 'w) loading" where
  "loading_of V w =
     \<lparr>ld_backend = cv_backend V, ld_cache_config = cv_cache_config V,
      ld_ident = (\<lambda>e. scalar_id (context_entity_id (cv_objects V) e w)), ld_load = cv_loader V\<rparr>"

definition when_open ::
  "(('o, 't, 'k, 's, 'c, 'd) orm_context \<Rightarrow> 'w \<Rightarrow> ('r, 'o, 't, 'k, 's, 'c, 'd, 'w) context_result) \<Rightarrow>
   ('o, 't, 'k, 's, 'c, 'd) orm_context \<Rightarrow> 'w \<Rightarrow> ('r, 'o, 't, 'k, 's, 'c, 'd, 'w) context_result" where
  "when_open f x w = (if cx_disposed x then Some (Inl Disposed, x, w) else f x w)"

definition cx_has_changes :: "('o, 't, 'k, 's, 'c, 'd) orm_context \<Rightarrow> bool" where
  "cx_has_changes x = has_changes (cx_tracker x)"

definition cx_change_count :: "('o, 't, 'k, 's, 'c, 'd) orm_context \<Rightarrow> nat" where
  "cx_change_count x = change_count (cx_tracker x)"

subsection \<open>Queries\<close>

definition cx_query ::
  "'t \<Rightarrow> ('o, 't, 'k, 's, 'c, 'd) orm_context \<Rightarrow> 'w \<Rightarrow> ('t query_builder, 'o, 't, 'k, 's, 'c, 'd, 'w) context_result" where
  "cx_query ty = when_open (\<lambda>x w.
     case new_builder (Some ty) (sw_query (cx_sets x)) of
       (b, q) \<Rightarrow> Some (Inr b, x\<lparr>cx_sets := (cx_sets x)\<lparr>sw_query := q\<rparr>\<rparr>, w))"

definition cx_all ::
  "'t \<Rightarrow> ('o, 't, 'k, 's, 'c, 'd) orm_context \<Rightarrow> 'w \<Rightarrow> (nat, 'o, 't, 'k, 's, 'c, 'd, 'w) context_result" where
  "cx_all ty = when_open (\<lambda>x w.
     case map_of (cx_entity_sets x) ty of
       Some i \<Rightarrow> Some (Inr i, x, w)
     | None \<Rightarrow>
         (case new_builder (Some ty) (sw_query (cx_sets x)) of
            (b, q) \<Rightarrow>
              (case add_set (from_query b) ((cx_sets x)\<lparr>sw_query := q\<rparr>) of
                 (i, s) \<Rightarrow> Some (Inr i, x\<lparr>cx_sets := s, cx_entity_sets := AList.update ty i (cx_entity_sets x)\<rparr>, w))))"

definition on_entity_set where
  "on_entity_set V ty f x w =
     (case cx_all ty x w of
        Some (Inr i, x1, w1) \<Rightarrow>
          map_option (\<lambda>(r, s). (map_sum Query_Failed id r, x1\<lparr>cx_sets := s\<rparr>, w1)) (f (query_env_of V w1) i (cx_sets x1))
      | Some (Inl e, x1, w1) \<Rightarrow> Some (Inl e, x1, w1)
      | None \<Rightarrow> None)"

definition cx_where where
  "cx_where V now ty p = on_entity_set V ty (\<lambda>E i s. os_where E now p i s)"

definition cx_first where
  "cx_first V now ty pred = on_entity_set V ty (\<lambda>E i s. os_first E now pred i s)"

definition cx_first_or_default where
  "cx_first_or_default V now ty pred d = on_entity_set V ty (\<lambda>E i s. os_first_or_default E now pred d i s)"

definition cx_single where
  "cx_single V now ty pred = on_entity_set V ty (\<lambda>E i s. os_single E now pred i s)"

definition cx_count where
  "cx_count V now ty pred = on_entity_set V ty (\<lambda>E i s. set_bind (os_source E now pred i s) (os_count E now))"

definition cx_any where
  "cx_any V now ty pred = on_entity_set V ty (\<lambda>E i s. os_any E now pred i s)"

subsection \<open>Entities by identifier\<close>

definition keep_tracking where
  "keep_tracking V ent i w x =
     (if auto_track_changes (cx_config x)
      then (case attach (cv_objects V) ent (Some (Scalar i)) w (cx_tracker x) of
              (r, t) \<Rightarrow> (map_option Tracking_Failed r, put_change_tracker t x))
      else (None, x))"

text \<open>Only an element that is tracked is cached.\<close>

definition fetch_entity where
  "fetch_entity V now ty i = (\<lambda>x w.
     (case cv_fetch V i w of
        (Inl e, w1) \<Rightarrow> Some (Inl (Orm_Failed e), x, w1)
      | (Inr None, w1) \<Rightarrow> Some (Inr OV_None, x, w1)
      | (Inr (Some ent), w1) \<Rightarrow>
          (if auto_track_changes (cx_config x)
           then (case keep_tracking V ent i w1 x of
                   (Some e, x1) \<Rightarrow> Some (Inl (Orm_Failed ''attach''), x1, w1)
                 | (None, x1) \<Rightarrow>
                     (if context_policy (cx_config x) = NONE then Some (Inr (OV_One ent), x1, w1)
                      else map_option (\<lambda>(ok, m). (Inr (OV_One ent), put_cache m x1, w1))
                             (cm_set (cv_backend V) (cv_cache_config V) now
                                (create_entity_cache_key (cv_type_text V ty) i) (Some (OV_One ent)) None [] (cx_cache x1))))
           else Some (Inr (OV_One ent), x, w1))))"

definition cx_get_by_id where
  "cx_get_by_id V now ty i = when_open (\<lambda>x w.
     (if context_policy (cx_config x) = NONE then fetch_entity V now ty i x w
      else
        (case cm_get (cv_backend V) now (create_entity_cache_key (cv_type_text V ty) i) (cx_cache x) of
           (Some (OV_One ent), m) \<Rightarrow>
             (case keep_tracking V ent i w (put_cache m x) of
                (Some e, x1) \<Rightarrow> Some (Inl e, x1, w)
              | (None, x1) \<Rightarrow> Some (Inr (OV_One ent), x1, w))
         | (Some v, m) \<Rightarrow> Some (Inr v, put_cache m x, w)
         | (None, m) \<Rightarrow> fetch_entity V now ty i (put_cache m x) w)))"


subsection \<open>Change tracking\<close>

definition tracked_result where
  "tracked_result r x w =
     (case r of
        (None, t) \<Rightarrow> Some (Inr (), put_change_tracker t x, w)
      | (Some e, t) \<Rightarrow> Some (Inl (Tracking_Failed e), put_change_tracker t x, w))"

definition cx_attach where
  "cx_attach V ent eid = when_open (\<lambda>x w.
     tracked_result
       (attach (cv_objects V) ent
          (Some (case eid of Some i \<Rightarrow> Scalar i | None \<Rightarrow> context_entity_id (cv_objects V) ent w)) w (cx_tracker x)) x w)"

definition cx_detach where
  "cx_detach V ent = when_open (\<lambda>x w.
     Some (Inr (), put_change_tracker (detach (context_entity_id (cv_objects V) ent w) (cx_tracker x)) x, w))"

definition cx_add where
  "cx_add V ent = when_open (\<lambda>x w. tracked_result (mark_as_added (cv_objects V) ent w (cx_tracker x)) x w)"

definition cx_remove where
  "cx_remove V ent = when_open (\<lambda>x w. tracked_result (mark_as_deleted (cv_objects V) ent w (cx_tracker x)) x w)"

definition cx_get_entity_state where
  "cx_get_entity_state V ent x w = get_entity_state (context_entity_id (cv_objects V) ent w) (cx_tracker x)"

definition cx_accept_changes where
  "cx_accept_changes V ent = when_open (\<lambda>x w.
     Some (Inr (), put_change_tracker
        (accept_changes (map_option (\<lambda>e. context_entity_id (cv_objects V) e w) ent) (cx_tracker x)) x, w))"

definition reject_in where
  "reject_in V eid x w =
     (case reject_changes (cv_objects V) eid (cx_tracker x, w) of (t, w') \<Rightarrow> (put_change_tracker t x, w'))"

definition cx_reject_changes where
  "cx_reject_changes V ent = when_open (\<lambda>x w.
     (case reject_in V (map_option (\<lambda>e. context_entity_id (cv_objects V) e w) ent) x w of (x', w') \<Rightarrow> Some (Inr (), x', w')))"

subsection \<open>Saving\<close>

definition register_change :: "('a, 'w) unit_of_work \<Rightarrow> 'a change_set \<Rightarrow> ('w, string) action" where
  "register_change U ch w =
     (case cs_state ch of
        ADDED \<Rightarrow> uw_new U ch w
      | MODIFIED \<Rightarrow> uw_dirty U ch w
      | DELETED \<Rightarrow> uw_removed U ch w
      | _ \<Rightarrow> (w, None))"

definition run_unit_of_work :: "('a, 'w) unit_of_work option \<Rightarrow> 'a change_set list \<Rightarrow> ('w, string) action" where
  "run_unit_of_work u changes w =
     (case u of
        None \<Rightarrow> (w, None)
      | Some U \<Rightarrow>
          (case run_each (register_change U) changes w of
             (w1, Some e) \<Rightarrow> (w1, Some e)
           | (w1, None) \<Rightarrow> uw_commit U w1))"

definition undo_unit_of_work :: "('a, 'w) unit_of_work option \<Rightarrow> 'w \<Rightarrow> 'w" where
  "undo_unit_of_work u w =
     (case u of None \<Rightarrow> w | Some U \<Rightarrow> (case uw_rollback U of None \<Rightarrow> w | Some f \<Rightarrow> fst (f w)))"

definition change_key :: "element_id change_set \<Rightarrow> cache_key" where
  "change_key ch =
     \<lparr>entity_type = cs_entity_type ch, query_hash = None, entity_id = scalar_id (cs_entity_id ch), relationship_path = None\<rparr>"

text \<open>The relationship manager is handed the change set, not the entity that has changed.\<close>

definition invalidate_for_change where
  "invalidate_for_change V ch = (\<lambda>(x, w).
     (case cm_invalidate (cv_backend V) (cv_call V) (change_key ch) (cx_cache x, w) of
        (ok, m, w1) \<Rightarrow>
          (case cx_relations x of
             None \<Rightarrow> (put_cache m x, w1)
           | Some M \<Rightarrow>
               (case invalidate_entity (loading_of V w1) (type_name (cv_objects V)) (cv_call V) (cv_change V ch) (M, m, w1) of
                  (M', m', w2) \<Rightarrow> ((put_cache m' x)\<lparr>cx_relations := Some M'\<rparr>, w2)))))"

definition save_body where
  "save_body V x w =
     (let changes = get_all_changes (cx_tracker x) in
      case run_unit_of_work (cv_work V) changes w of
        (w1, Some e) \<Rightarrow> (Inl (Orm_Failed e), x, undo_unit_of_work (cv_work V) w1)
      | (w1, None) \<Rightarrow>
          (case fold (invalidate_for_change V) changes (put_change_tracker (accept_changes None (cx_tracker x)) x, w1) of
             (x', w') \<Rightarrow> (Inr (length changes), x', w')))"

definition cx_save_changes where
  "cx_save_changes V = when_open (\<lambda>x w. Some (if cx_has_changes x then save_body V x w else (Inr 0, x, w)))"

subsection \<open>Relationships\<close>

definition cx_load_relationship where
  "cx_load_relationship V now ent n = when_open (\<lambda>x w.
     case cx_relations x of
       None \<Rightarrow> Some (Inl (No_Relations n), x, w)
     | Some M \<Rightarrow>
         map_option (\<lambda>(r, M', m, w'). (map_sum Relation_Failed id r, (put_cache m x)\<lparr>cx_relations := Some M'\<rparr>, w'))
           (manager_load (loading_of V w) (type_name (cv_objects V)) now False ent n (M, cx_cache x, w)))"

text \<open>\<open>configure_relationship\<close> makes a manager if there is none, and registers nothing.\<close>

definition cx_configure_relationship where
  "cx_configure_relationship x =
     (case cx_relations x of None \<Rightarrow> x\<lparr>cx_relations := Some new_relation_manager\<rparr> | Some M \<Rightarrow> x)"

subsection \<open>Transactions\<close>

text \<open>
  \<open>with context.transaction(auto_commit)\<close>: the body changes the context and the world, may dispose of
  the context, and may raise an \<open>Exception\<close> or another \<open>BaseException\<close> (\<open>KeyboardInterrupt\<close>,
  \<open>CancelledError\<close>), which \<open>except Exception\<close> does not catch.
\<close>

datatype body_end = Body_Done | Body_Exception string | Body_Base_Exception string

definition cx_transaction where
  "cx_transaction V auto_commit body x w =
     (if cx_disposed x then Some (Inl Disposed, x, w)
      else
        (let orig = auto_track (cx_tracker x);
             restore = (\<lambda>y. put_change_tracker (set_auto_track orig (cx_tracker y)) y);
             fail = (\<lambda>e y u. case cx_reject_changes V None y u of
                       Some (Inr _, y', u') \<Rightarrow> Some (Inl e, restore y', u')
                     | Some (Inl e', y', u') \<Rightarrow> Some (Inl e', restore y', u')
                     | None \<Rightarrow> None)
         in case body x w of
              (x1, w1, Body_Exception e) \<Rightarrow> fail (Body_Raised e) x1 w1
            | (x1, w1, Body_Base_Exception e) \<Rightarrow> Some (Inl (Body_Interrupted e), restore x1, w1)
            | (x1, w1, Body_Done) \<Rightarrow>
                (if auto_commit \<and> cx_has_changes x1
                 then (case cx_save_changes V x1 w1 of
                         None \<Rightarrow> None
                       | Some (Inl e, x2, w2) \<Rightarrow> fail e x2 w2
                       | Some (Inr n, x2, w2) \<Rightarrow> Some (Inr (), restore x2, w2))
                 else Some (Inr (), restore x1, w1))))"

subsection \<open>Cache and disposal\<close>

definition cx_clear_cache where
  "cx_clear_cache V = when_open (\<lambda>x w.
     Some (Inr (), (put_cache (cm_clear (cv_backend V) (cx_cache x)) x)\<lparr>cx_entity_sets := []\<rparr>, w))"

definition cx_invalidate_cache where
  "cx_invalidate_cache V ty eid = when_open (\<lambda>x w.
     case ty of
       None \<Rightarrow> cx_clear_cache V x w
     | Some t \<Rightarrow>
         (case (if eid \<noteq> None \<and> id_truthy (the eid)
                then apfst (\<lambda>_. ()) (cm_invalidate (cv_backend V) (cv_call V) (create_entity_cache_key (cv_type_text V t) (the eid)) (cx_cache x, w))
                else apfst (\<lambda>_. ()) (cm_invalidate_by_pattern (cv_backend V) (cv_call V) (cv_type_text V t) (cx_cache x, w))) of
            (_, m, w') \<Rightarrow> Some (Inr (), put_cache m x, w')))"

definition cx_dispose where
  "cx_dispose V x w =
     (if cx_disposed x then (x, w)
      else
        (case (if cx_has_changes x then reject_in V None x w else (x, w)) of
           (x1, w1) \<Rightarrow>
             ((put_cache (cm_clear (cv_backend V) (cx_cache x1)) (put_change_tracker (ct_clear (cx_tracker x1)) x1))
                \<lparr>cx_entity_sets := [], cx_disposed := True\<rparr>, w1)))"


subsection \<open>Accepting and rejecting everything\<close>

lemma accept_one_get:
  "map_of (tracked_entities (accept_one i c)) j =
     (if j = i then map_option tr_accept (map_of (tracked_entities c) j) else map_of (tracked_entities c) j)"
  by (auto simp: accept_one_def put_state_def put_tracker_def split: option.splits)

lemma accept_list_get:
  "distinct is \<Longrightarrow> map_of (tracked_entities (fold accept_one is c)) j =
     (if j \<in> set is then map_option tr_accept (map_of (tracked_entities c) j) else map_of (tracked_entities c) j)"
  by (induction "is" arbitrary: c) (auto simp: accept_one_get)

lemma accept_all_get:
  assumes "ct_ok c"
  shows "map_of (tracked_entities (accept_changes None c)) j = map_option tr_accept (map_of (tracked_entities c) j)"
proof -
  have "distinct (dict_keys (tracked_entities c))" using assms by (simp add: ct_ok_def)
  moreover have "map_of (tracked_entities c) j = None" if "j \<notin> set (dict_keys (tracked_entities c))"
    using that map_of_None_keys by (metis set_map)
  ultimately show ?thesis by (auto simp: accept_changes_def accept_list_get)
qed

definition rejected :: "('o, 'a) tracker \<Rightarrow> ('o, 'a) tracker" where
  "rejected t = t\<lparr>property_changes := [], relationship_changes := [], tr_current := [], tr_state := UNCHANGED\<rparr>"

lemma reject_one_get:
  "map_of (tracked_entities (fst (reject_one Ob i cw))) j =
     (if j = i then map_option rejected (map_of (tracked_entities (fst cw)) j) else map_of (tracked_entities (fst cw)) j)"
  by (cases cw) (auto simp: reject_one_def put_state_def put_tracker_def rejected_def tr_reject_def split: option.splits)

lemma reject_list_get:
  "distinct is \<Longrightarrow> map_of (tracked_entities (fst (fold (reject_one Ob) is cw))) j =
     (if j \<in> set is then map_option rejected (map_of (tracked_entities (fst cw)) j) else map_of (tracked_entities (fst cw)) j)"
  by (induction "is" arbitrary: cw) (auto simp: reject_one_get)

lemma reject_all_get:
  assumes "ct_ok c"
  shows "map_of (tracked_entities (fst (reject_changes Ob None (c, w)))) j = map_option rejected (map_of (tracked_entities c) j)"
proof -
  have "distinct (dict_keys (tracked_entities c))" using assms by (simp add: ct_ok_def)
  moreover have "map_of (tracked_entities c) j = None" if "j \<notin> set (dict_keys (tracked_entities c))"
    using that map_of_None_keys by (metis set_map)
  ultimately show ?thesis by (auto simp: reject_changes_def reject_list_get)
qed

lemma has_changes_lookup:
  "ct_ok c \<Longrightarrow> has_changes c \<longleftrightarrow> (\<exists>i t. map_of (tracked_entities c) i = Some t \<and> tr_is_dirty t)"
  by (auto simp: has_changes_def list_ex_iff ct_ok_def)

lemma clean_trackers: "\<not> tr_is_dirty (tr_accept t)" "\<not> tr_is_dirty (rejected t)"
  by (simp_all add: tr_is_dirty_def tr_accept_def rejected_def)

lemma accept_all_clean: "ct_ok c \<Longrightarrow> \<not> has_changes (accept_changes None c)"
  using has_changes_lookup [OF ct_ok_accept] accept_all_get clean_trackers(1) by fastforce

lemma reject_all_clean: "ct_ok c \<Longrightarrow> \<not> has_changes (fst (reject_changes Ob None (c, w)))"
proof -
  assume ok: "ct_ok c"
  then have "ct_ok (fst (reject_changes Ob None (c, w)))" by (simp add: ct_ok_reject)
  from has_changes_lookup [OF this] reject_all_get [OF ok, of Ob w] clean_trackers(2) show ?thesis by fastforce
qed

lemma has_changes_all: "has_changes c \<longleftrightarrow> get_all_changes c \<noteq> []"
  by (auto simp: has_changes_def get_all_changes_def list_ex_iff filter_empty_conv)

lemma reject_one_auto [simp]: "auto_track (fst (reject_one Ob i cw)) = auto_track (fst cw)"
  by (cases cw) (auto simp: reject_one_def put_state_def put_tracker_def split: option.splits prod.splits)

lemma accept_one_auto [simp]: "auto_track (accept_one i c) = auto_track c"
  by (auto simp: accept_one_def put_state_def put_tracker_def split: option.splits)

lemma auto_has_changes [simp]: "has_changes (set_auto_track b c) = has_changes c" "auto_track (set_auto_track b c) = b"
  by (simp_all add: has_changes_def set_auto_track_def)

subsection \<open>Frames\<close>

lemma put_simps [simp]:
  "cx_tracker (put_cache m x) = cx_tracker x" "cx_cache (put_cache m x) = m" "cx_relations (put_cache m x) = cx_relations x"
  "cx_disposed (put_cache m x) = cx_disposed x" "cx_config (put_cache m x) = cx_config x"
  "cx_entity_sets (put_cache m x) = cx_entity_sets x"
  "cx_tracker (put_change_tracker t x) = t" "cx_cache (put_change_tracker t x) = cx_cache x"
  "cx_relations (put_change_tracker t x) = cx_relations x" "cx_disposed (put_change_tracker t x) = cx_disposed x"
  "cx_config (put_change_tracker t x) = cx_config x" "cx_entity_sets (put_change_tracker t x) = cx_entity_sets x"
  "cx_sets (put_change_tracker t x) = cx_sets x"
  by (simp_all add: put_cache_def cx_cache_def put_change_tracker_def)

lemma put_relations_cache [simp]: "cx_cache (x\<lparr>cx_relations := r\<rparr>) = cx_cache x"
  by (simp add: cx_cache_def)

lemma invalidate_frame:
  "cx_tracker (fst (invalidate_for_change V ch y)) = cx_tracker (fst y)"
  "cx_disposed (fst (invalidate_for_change V ch y)) = cx_disposed (fst y)"
  "cx_config (fst (invalidate_for_change V ch y)) = cx_config (fst y)"
  by (auto simp: invalidate_for_change_def case_prod_unfold split: option.splits)

lemma invalidate_all_frame:
  "cx_tracker (fst (fold (invalidate_for_change V) chs y)) = cx_tracker (fst y)"
  "cx_disposed (fst (fold (invalidate_for_change V) chs y)) = cx_disposed (fst y)"
  "cx_config (fst (fold (invalidate_for_change V) chs y)) = cx_config (fst y)"
  by (induction chs arbitrary: y) (simp_all add: invalidate_frame)

lemma save_outcome:
  assumes "ct_ok (cx_tracker x)" "cx_save_changes V x w = Some (r, x', w')"
  shows "case r of
      Inl e \<Rightarrow> x' = x
    | Inr n \<Rightarrow> n = length (get_all_changes (cx_tracker x)) \<and> \<not> cx_has_changes x' \<and> cx_disposed x' = cx_disposed x \<and>
        (\<forall>i. map_of (tracked_entities (cx_tracker x')) i =
           (if n = 0 then map_of (tracked_entities (cx_tracker x)) i
            else map_option tr_accept (map_of (tracked_entities (cx_tracker x)) i)))"
proof (cases "cx_disposed x \<or> \<not> cx_has_changes x")
  case True
  with assms(2) show ?thesis by (auto simp: cx_save_changes_def when_open_def cx_has_changes_def has_changes_all split: if_splits)
next
  case False
  then have b: "save_body V x w = (r, x', w')" using assms(2) by (simp add: cx_save_changes_def when_open_def)
  let ?chs = "get_all_changes (cx_tracker x)"
  let ?x1 = "put_change_tracker (accept_changes None (cx_tracker x)) x"
  obtain w1 err where u: "run_unit_of_work (cv_work V) ?chs w = (w1, err)" by fastforce
  show ?thesis
  proof (cases err)
    case None
    with u b have r: "r = Inr (length ?chs)" "(x', w') = fold (invalidate_for_change V) ?chs (?x1, w1)"
      by (auto simp: save_body_def Let_def split: prod.splits)
    then have "x' = fst (fold (invalidate_for_change V) ?chs (?x1, w1))" by (metis fst_conv)
    then have t: "cx_tracker x' = accept_changes None (cx_tracker x)" "cx_disposed x' = cx_disposed x"
      by (simp_all add: invalidate_all_frame)
    have "?chs \<noteq> []" using False by (simp add: cx_has_changes_def has_changes_all)
    with r(1) t accept_all_get [OF assms(1)] accept_all_clean [OF assms(1)] show ?thesis
      by (simp add: cx_has_changes_def)
  next
    case (Some e)
    with u b show ?thesis by (auto simp: save_body_def Let_def)
  qed
qed


subsection \<open>Properties\<close>

definition sample_view ::
  "string option \<Rightarrow> cache_config \<Rightarrow> (nat, string, nat, nat orm_value mem_cache, unit, element_id heap) context_env" where
  "sample_view fault cfg =
     \<lparr>cv_objects = plain_objects ''Door'', cv_fetch = (\<lambda>i w. (Inr (Some 2), w)),
      cv_work = Some \<lparr>uw_new = (\<lambda>_ w. (w, None)), uw_dirty = (\<lambda>_ w. (w, None)), uw_removed = (\<lambda>_ w. (w, None)),
                       uw_commit = (\<lambda>w. (w, fault)), uw_rollback = None\<rparr>,
      cv_backend = memory_backend cfg, cv_cache_config = cfg, cv_call = (\<lambda>_ _ w. (w, None)),
      cv_loader = (\<lambda>_ _ _ w. (Some OV_None, w)), cv_all = (\<lambda>_. Inr []), cv_of_type = (\<lambda>_ _. Inr []),
      cv_type_text = (\<lambda>t. t), cv_plan_hash = (\<lambda>_. ''h''), cv_identity = (\<lambda>e. e), cv_change = (\<lambda>_. 0)\<rparr>"

definition sample_tracker :: "(nat, element_id) tracker" where
  "sample_tracker = (new_tracker (plain_objects ''Door'') 1 (Scalar (IntId 7)) :: (nat, element_id) tracker)\<lparr>tr_state := DELETED\<rparr>"

definition sample_context ::
  "(string, nat cache_entry) dict \<Rightarrow> (nat, string, nat, nat orm_value mem_cache, unit, unit) orm_context" where
  "sample_context d =
     new_context \<lparr>auto_track_changes = True, context_policy = MEMORY\<rparr>
       \<lparr>sw_sets = [], sw_query = \<lparr>plans = [], executors = [],
          q_cache = new_manager (sample_config 2 LRU)
            ((empty_mem_cache 0)\<lparr>mc_cache := map (\<lambda>(k, e). (k, map_entry (\<lambda>n. Some (OV_One n)) e)) d\<rparr>)\<rparr>\<rparr>
       (put_state (Scalar (IntId 7)) DELETED (put_tracker (Scalar (IntId 7)) sample_tracker new_change_tracker)) None"

lemma sample_context_facts:
  "ct_ok (cx_tracker (sample_context d))" "\<not> cx_disposed (sample_context d)" "auto_track_changes (cx_config (sample_context d))"
  "context_policy (cx_config (sample_context d)) = MEMORY" "cx_has_changes (sample_context d)" "cx_relations (sample_context d) = None"
  "get_all_changes (cx_tracker (sample_context d)) = [get_change_set sample_tracker]"
  "map_of (tracked_entities (cx_tracker (sample_context d))) (Scalar (IntId 7)) = Some sample_tracker"
  "mem_peek (cm_backend (cx_cache (sample_context d))) k = map_option (map_entry (\<lambda>n. Some (OV_One n))) (map_of d k)"
  by (simp_all add: sample_context_def new_context_def ct_ok_auto ct_ok_put sample_tracker_def tr_ok_mark cx_has_changes_def
      has_changes_def put_state_def put_tracker_def new_change_tracker_def tr_is_dirty_def get_all_changes_def set_auto_track_def
      mem_peek_def cx_cache_def new_manager_def map_of_map ct_ok_def tr_ok_def new_tracker_def)

text \<open>
  Saving is all or nothing for the context: if the unit of work raises at any point, the context is
  as before, with every change still pending; otherwise the number of changed entities is returned
  and each tracked entity has accepted its changes, so that none is pending.
\<close>

theorem save_is_all_or_nothing:
  assumes "ct_ok (cx_tracker x)" "cx_save_changes V x w = Some (r, x', w')"
  shows "case r of
      Inl e \<Rightarrow> x' = x
    | Inr n \<Rightarrow> n = length (get_all_changes (cx_tracker x)) \<and> \<not> cx_has_changes x' \<and>
        (\<forall>i. map_of (tracked_entities (cx_tracker x')) i =
           (if n = 0 then map_of (tracked_entities (cx_tracker x)) i
            else map_option tr_accept (map_of (tracked_entities (cx_tracker x)) i)))"
  using save_outcome [OF assms] by (auto split: sum.splits)

theorem save_is_all_or_nothing_witness:
  "\<exists>w'. cx_save_changes (sample_view (Some ''locked'') (sample_config 2 LRU)) (sample_context []) (\<lambda>_. []) =
     Some (Inl (Orm_Failed ''locked''), sample_context [], w')"
proof -
  obtain r x' w' where s: "cx_save_changes (sample_view (Some ''locked'') (sample_config 2 LRU)) (sample_context []) (\<lambda>_. []) = Some (r, x', w')"
    by (cases "save_body (sample_view (Some ''locked'') (sample_config 2 LRU)) (sample_context []) (\<lambda>_. [])")
      (auto simp: cx_save_changes_def when_open_def sample_context_facts)
  then have "r = Inl (Orm_Failed ''locked'')"
    by (simp add: cx_save_changes_def when_open_def sample_context_facts save_body_def run_unit_of_work_def sample_view_def
        register_change_def get_change_set_def sample_tracker_def)
  with save_is_all_or_nothing [OF sample_context_facts(1) s] s show ?thesis by auto
qed

lemma reject_in_facts:
  assumes "ct_ok (cx_tracker x)" "reject_in V None x w = (x', w')"
  shows "\<not> cx_has_changes x'" "cx_disposed x' = cx_disposed x"
proof -
  obtain t u where t: "reject_changes (cv_objects V) None (cx_tracker x, w) = (t, u)" by fastforce
  with reject_all_clean [OF assms(1), of "cv_objects V" w] have "\<not> has_changes t" by simp
  with t assms(2) show "\<not> cx_has_changes x'" "cx_disposed x' = cx_disposed x"
    by (auto simp: reject_in_def cx_has_changes_def)
qed

lemma restored [simp]:
  "cx_has_changes (put_change_tracker (set_auto_track b (cx_tracker y)) y) = cx_has_changes y"
  by (simp add: cx_has_changes_def)

text \<open>
  C37: However the block of a context transaction ends, automatic tracking is as before it. If the body
  leaves the context open: when it raises an \<open>Exception\<close>, that comes out and no change is pending;
  when it ends normally, no change is pending after an automatic commit, saved or, if saving
  fails, undone; without \<open>auto_commit\<close> the transaction succeeds. If it disposes of the context and then
  raises an \<open>Exception\<close>, \<open>reject_changes\<close> raises in place of it. Any other \<open>BaseException\<close> comes out and
  the changes stay pending as the body left them.
\<close>

theorem transaction_leaves_nothing_pending:
  assumes "\<not> cx_disposed x" "body x w = (x1, w1, out)" "ct_ok (cx_tracker x1)"
  shows "\<exists>r x' w'. cx_transaction V auto_commit body x w = Some (r, x', w') \<and>
    auto_track (cx_tracker x') = auto_track (cx_tracker x) \<and>
    (case out of
       Body_Exception e \<Rightarrow>
         if cx_disposed x1 then r = Inl Disposed else r = Inl (Body_Raised e) \<and> \<not> cx_has_changes x'
     | Body_Base_Exception e \<Rightarrow> r = Inl (Body_Interrupted e) \<and> cx_has_changes x' = cx_has_changes x1
     | Body_Done \<Rightarrow>
         (auto_commit \<and> \<not> cx_disposed x1 \<longrightarrow> \<not> cx_has_changes x') \<and> (\<not> auto_commit \<longrightarrow> r = Inr ()))"
proof -
  have reject: "\<exists>y' u'. cx_reject_changes V None y u = Some (Inr (), y', u') \<and> \<not> cx_has_changes y'"
    if "\<not> cx_disposed y" "ct_ok (cx_tracker y)" for y u
    using that reject_in_facts(1) [OF that(2), of V u]
    by (cases "reject_in V None y u") (auto simp: cx_reject_changes_def when_open_def)
  have closed: "cx_reject_changes V None y u = Some (Inl Disposed, y, u)" if "cx_disposed y" for y u
    using that by (simp add: cx_reject_changes_def when_open_def)
  show ?thesis
  proof (cases out)
    case (Body_Exception e)
    show ?thesis
    proof (cases "cx_disposed x1")
      case True
      with closed [OF True] Body_Exception assms(1,2) show ?thesis by (simp add: cx_transaction_def Let_def)
    next
      case False
      obtain y' u' where "cx_reject_changes V None x1 w1 = Some (Inr (), y', u')" "\<not> cx_has_changes y'"
        using reject [OF False assms(3)] by blast
      with Body_Exception False assms(1,2) show ?thesis by (simp add: cx_transaction_def Let_def)
    qed
  next
    case (Body_Base_Exception e)
    with assms(1,2) show ?thesis by (simp add: cx_transaction_def Let_def)
  next
    case Body_Done
    show ?thesis
    proof (cases "auto_commit \<and> cx_has_changes x1")
      case False
      with Body_Done assms(1,2) show ?thesis by (auto simp: cx_transaction_def Let_def)
    next
      case True
      show ?thesis
      proof (cases "cx_disposed x1")
        case disp: True
        then have "cx_save_changes V x1 w1 = Some (Inl Disposed, x1, w1)" by (simp add: cx_save_changes_def when_open_def)
        with closed [OF disp] Body_Done True disp assms(1,2) show ?thesis by (simp add: cx_transaction_def Let_def)
      next
        case op: False
        obtain r x2 w2 where s: "cx_save_changes V x1 w1 = Some (r, x2, w2)"
          using True op by (cases "save_body V x1 w1") (auto simp: cx_save_changes_def when_open_def)
        show ?thesis
        proof (cases r)
          case (Inl e)
          with save_outcome [OF assms(3) s] have "x2 = x1" by simp
          moreover obtain y' u' where "cx_reject_changes V None x1 w2 = Some (Inr (), y', u')" "\<not> cx_has_changes y'"
            using reject [OF op assms(3)] by blast
          ultimately show ?thesis using Body_Done True Inl s assms(1,2) by (simp add: cx_transaction_def Let_def)
        next
          case (Inr n)
          with save_outcome [OF assms(3) s] have "\<not> cx_has_changes x2" by simp
          with Body_Done True Inr s assms(1,2) show ?thesis by (simp add: cx_transaction_def Let_def)
        qed
      qed
    qed
  qed
qed

theorem transaction_leaves_nothing_pending_witness:
  "\<exists>x' w'. cx_transaction (sample_view None (sample_config 2 LRU)) True (\<lambda>x w. (x, w, Body_Exception ''stop''))
       (sample_context []) (\<lambda>_. []) = Some (Inl (Body_Raised ''stop''), x', w') \<and> \<not> cx_has_changes x'"
  using transaction_leaves_nothing_pending [where x = "sample_context []" and ?x1.0 = "sample_context []" and w = "\<lambda>_. []"
      and ?w1.0 = "\<lambda>_. []" and body = "\<lambda>x w. (x, w, Body_Exception ''stop'')" and out = "Body_Exception ''stop''"
      and V = "sample_view None (sample_config 2 LRU)" and auto_commit = True, OF sample_context_facts(2) refl sample_context_facts(1)]
    sample_context_facts(2)
  by auto

text \<open>
  A disposed context has no pending changes and no tracked entities, its operations raise and
  change nothing, and disposing of it again does nothing.
\<close>

theorem disposed_context_is_closed:
  assumes "cx_dispose V x w = (x', w')"
  shows "(\<not> cx_disposed x \<longrightarrow> tracked_entities (cx_tracker x') = [] \<and> \<not> cx_has_changes x' \<and> cx_entity_sets x' = []) \<and>
    cx_dispose V x' u = (x', u) \<and>
    cx_save_changes V x' u = Some (Inl Disposed, x', u) \<and> cx_get_by_id V now ty i x' u = Some (Inl Disposed, x', u) \<and>
    cx_all ty x' u = Some (Inl Disposed, x', u) \<and> cx_query ty x' u = Some (Inl Disposed, x', u) \<and>
    cx_add V ent x' u = Some (Inl Disposed, x', u) \<and> cx_remove V ent x' u = Some (Inl Disposed, x', u) \<and>
    cx_attach V ent eid x' u = Some (Inl Disposed, x', u) \<and> cx_load_relationship V now ent n x' u = Some (Inl Disposed, x', u) \<and>
    cx_transaction V c body x' u = Some (Inl Disposed, x', u)"
proof -
  have d: "cx_disposed x'" using assms by (auto simp: cx_dispose_def split: if_splits prod.splits)
  have "tracked_entities (cx_tracker x') = [] \<and> \<not> cx_has_changes x' \<and> cx_entity_sets x' = []" if "\<not> cx_disposed x"
    using that assms by (auto simp: cx_dispose_def ct_clear_def cx_has_changes_def has_changes_def put_cache_def
        put_change_tracker_def split: if_splits prod.splits)
  with d show ?thesis
    by (simp add: cx_dispose_def cx_save_changes_def cx_get_by_id_def cx_all_def cx_query_def cx_add_def cx_remove_def
        cx_attach_def cx_load_relationship_def cx_transaction_def when_open_def)
qed

theorem disposed_context_is_closed_witness:
  "case cx_dispose (sample_view None (sample_config 2 LRU)) (sample_context []) (\<lambda>_. []) of (x', w') \<Rightarrow>
     \<not> cx_has_changes x' \<and> cx_save_changes (sample_view None (sample_config 2 LRU)) x' w' = Some (Inl Disposed, x', w')"
  using disposed_context_is_closed [of "sample_view None (sample_config 2 LRU)" "sample_context []" "\<lambda>_. []"]
  by (auto simp: sample_context_facts split: prod.splits)

text \<open>
  \<open>save_changes\<close> hands its change sets, not the changed entities, to the relationship manager. So
  unless relationships are registered for change sets themselves, no relationship forgets what it
  has loaded for an entity that was changed or deleted.
\<close>

lemma invalidate_keeps_relations:
  assumes "cx_relations x = Some M" "sub_dict (type_name (cv_objects V) (cv_change V ch)) (rm_relations M) = []"
  shows "cx_relations (fst (invalidate_for_change V ch (x, w))) = Some M"
  using assms by (auto simp: invalidate_for_change_def invalidate_entity_def split: prod.splits)

theorem save_keeps_relationships:
  assumes "cx_relations x = Some M"
    and "\<forall>ch. sub_dict (type_name (cv_objects V) (cv_change V ch)) (rm_relations M) = []"
    and "cx_save_changes V x w = Some (Inr n, x', w')"
  shows "cx_relations x' = Some M"
proof -
  have all: "cx_relations (fst (fold (invalidate_for_change V) chs (y, u))) = Some M" if "cx_relations y = Some M" for chs y u
    using that
  proof (induction chs arbitrary: y u)
    case (Cons ch chs)
    with invalidate_keeps_relations [OF Cons.prems, of V ch u] assms(2) show ?case
      by (cases "invalidate_for_change V ch (y, u)") simp
  qed simp
  show ?thesis
  proof (cases "cx_has_changes x \<and> \<not> cx_disposed x")
    case True
    then obtain w1 where "fold (invalidate_for_change V) (get_all_changes (cx_tracker x))
        (put_change_tracker (accept_changes None (cx_tracker x)) x, w1) = (x', w')"
      using assms(3) by (auto simp: cx_save_changes_def when_open_def save_body_def Let_def split: prod.splits option.splits)
    with all [of "put_change_tracker (accept_changes None (cx_tracker x)) x" "get_all_changes (cx_tracker x)" w1] assms(1)
    show ?thesis by simp
  next
    case False
    with assms(1,3) show ?thesis by (auto simp: cx_save_changes_def when_open_def split: if_splits)
  qed
qed

theorem save_keeps_relationships_witness:
  "let M = register_relation ''Wall'' \<lparr>rl_config = sample_relation ONE_TO_ONE, rl_loaded = [(Some (IntId 7), OV_One 3)]\<rparr> new_relation_manager;
       x = (sample_context [])\<lparr>cx_relations := Some M\<rparr>
   in \<exists>n x' w'. cx_save_changes (sample_view None (sample_config 2 LRU)) x (\<lambda>_. []) = Some (Inr n, x', w') \<and> cx_relations x' = Some M"
proof -
  let ?V = "sample_view None (sample_config 2 LRU)"
  let ?M = "register_relation ''Wall'' \<lparr>rl_config = sample_relation ONE_TO_ONE, rl_loaded = [(Some (IntId 7), OV_One 3)]\<rparr> new_relation_manager"
  let ?x = "(sample_context [])\<lparr>cx_relations := Some ?M\<rparr>"
  have same: "cx_tracker ?x = cx_tracker (sample_context [])" "cx_disposed ?x = cx_disposed (sample_context [])" by simp_all
  obtain x' w' where s: "cx_save_changes ?V ?x (\<lambda>_. []) = Some (Inr 1, x', w')"
  proof -
    obtain u where u: "run_unit_of_work (cv_work ?V) (get_all_changes (cx_tracker ?x)) (\<lambda>_. []) = (u, None)"
      by (simp add: same sample_context_facts run_unit_of_work_def sample_view_def register_change_def get_change_set_def
          sample_tracker_def)
    obtain y v where "fold (invalidate_for_change ?V) (get_all_changes (cx_tracker ?x))
        (put_change_tracker (accept_changes None (cx_tracker ?x)) ?x, u) = (y, v)" by fastforce
    with u have "cx_save_changes ?V ?x (\<lambda>_. []) = Some (Inr 1, y, v)"
      using sample_context_facts(2,5) by (simp add: cx_save_changes_def when_open_def save_body_def cx_has_changes_def Let_def
          same sample_context_facts(7))
    then show thesis by (rule that)
  qed
  have t: "sub_dict (type_name (cv_objects ?V) (cv_change ?V ch)) (rm_relations ?M) = []" for ch
    by (simp add: sample_view_def plain_objects_def register_relation_def new_relation_manager_def sub_dict_def)
  have "cx_relations x' = Some ?M"
    by (rule save_keeps_relationships [OF _ _ s]) (simp_all add: t)
  with s show ?thesis unfolding Let_def by blast
qed

text \<open>
  The context keeps no identity map beside its cache: when the entry of a tracked element has left
  the cache, \<open>get_by_id\<close> returns the new object that the provider makes, while the tracker goes on
  watching the old one, whose attributes alone \<open>reject_changes\<close> will restore.
\<close>

theorem refetched_object_is_not_tracked:
  assumes "\<not> cx_disposed x" "auto_track_changes (cx_config x)" "context_policy (cx_config x) \<noteq> NONE"
    and "map_of (tracked_entities (cx_tracker x)) (Scalar i) = Some t"
    and "cm_get (cv_backend V) now (create_entity_cache_key (cv_type_text V ty) i) (cx_cache x) = (None, m)"
    and "cv_fetch V i w = (Inr (Some ent), w1)"
    and "cm_set (cv_backend V) (cv_cache_config V) now (create_entity_cache_key (cv_type_text V ty) i) (Some (OV_One ent)) None [] m = Some (ok, m')"
  shows "\<exists>x'. cx_get_by_id V now ty i x w = Some (Inr (OV_One ent), x', w1) \<and>
    map_of (tracked_entities (cx_tracker x')) (Scalar i) = Some t \<and>
    reject_changes (cv_objects V) (Some (Scalar i)) (cx_tracker x', w2) =
      (put_state (Scalar i) UNCHANGED (put_tracker (Scalar i) (rejected t) (cx_tracker x')),
       fold (revert_property (cv_objects V) (tr_entity_ref t)) (tr_original t) w2)"
proof -
  have a: "attach (cv_objects V) ent (Some (Scalar i)) w1 (cx_tracker x) = (None, cx_tracker x)"
    using assms(4) by (simp add: attach_def)
  have "cx_get_by_id V now ty i x w = Some (Inr (OV_One ent), put_cache m' (put_change_tracker (cx_tracker x) (put_cache m x)), w1)"
    using assms a by (simp add: cx_get_by_id_def when_open_def fetch_entity_def keep_tracking_def)
  with assms(4) show ?thesis
    by (simp add: reject_changes_def reject_one_def tr_reject_def rejected_def)
qed


theorem refetched_object_is_not_tracked_witness:
  "\<exists>x'. cx_get_by_id (sample_view None (sample_config 2 LRU)) 5 ''Element'' (IntId 7) (sample_context []) (\<lambda>_. []) =
       Some (Inr (OV_One 2), x', \<lambda>_. []) \<and>
     map_option tr_entity_ref (map_of (tracked_entities (cx_tracker x')) (Scalar (IntId 7))) = Some 1"
proof -
  let ?V = "sample_view None (sample_config 2 LRU)"
  let ?k = "create_entity_cache_key (cv_type_text ?V ''Element'') (IntId 7)"
  have get: "cm_get (cv_backend ?V) 5 ?k (cx_cache (sample_context [])) = (None, snd (cm_get (cv_backend ?V) 5 ?k (cx_cache (sample_context []))))"
    using sample_context_facts(9) [of "[]" "key_str ?k"]
    by (simp add: cm_get_def memory_backend_def mem_get_def mem_peek_def sample_view_def split: option.splits)
  let ?m = "snd (cm_get (cv_backend ?V) 5 ?k (cx_cache (sample_context [])))"
  have "rel.held (sample_config 2 LRU) (cx_cache (sample_context [])) (\<lambda>_. None)"
  proof -
    have e: "cx_cache (sample_context []) = new_manager (sample_config 2 LRU) (empty_mem_cache 0)"
      by (simp add: sample_context_def new_context_def cx_cache_def empty_mem_cache_def)
    have "mem.held (sample_config 2 LRU) (cx_cache (sample_context [])) (\<lambda>_. None)"
      unfolding e by (rule held_new) (simp add: config_ok_iff)
    then show ?thesis by (simp add: mem.held_def rel.held_def)
  qed
  from rel.get_held(1) [OF this] have "rel.held (sample_config 2 LRU) ?m (\<lambda>_. None)"
    by (simp add: sample_view_def memory_loading_def)
  from rel.set_held [OF this, where cfg = "sample_config 2 LRU" and now = 5 and k = ?k and v = "Some (OV_One 2)" and ttl = None and ds = "[]"] obtain m' where
    put: "cm_set (cv_backend ?V) (cv_cache_config ?V) 5 ?k (Some (OV_One 2)) None [] ?m = Some (True, m')"
    by (auto simp: sample_view_def memory_loading_def)
  have fetch: "cv_fetch ?V (IntId 7) (\<lambda>_. []) = (Inr (Some 2), \<lambda>_. [])" by (simp add: sample_view_def)
  have "tr_entity_ref sample_tracker = 1" by (simp add: sample_tracker_def new_tracker_def)
  moreover have "context_policy (cx_config (sample_context [])) \<noteq> NONE" by (simp add: sample_context_facts(4))
  ultimately show ?thesis
    using refetched_object_is_not_tracked [OF sample_context_facts(2,3) _ sample_context_facts(8) get fetch put, of "\<lambda>_. []"]
    by fastforce
qed

lemma delete_spares:
  assumes "j \<noteq> key_str k"
  shows "mem_peek (cm_backend (fst (snd (cm_invalidate (memory_backend cfg) call k mw)))) j = mem_peek (cm_backend (fst mw)) j"
  using assms by (cases mw) (auto simp: cm_invalidate_def cm_delete_def memory_backend_def mem_delete_def)

lemma invalidate_spares:
  assumes "cv_backend V = memory_backend cfg" "cx_relations x = None" "j \<noteq> key_str (change_key ch)"
  shows "mem_peek (cm_backend (cx_cache (fst (invalidate_for_change V ch (x, w))))) j = mem_peek (cm_backend (cx_cache x)) j \<and>
    cx_relations (fst (invalidate_for_change V ch (x, w))) = None"
  using assms delete_spares [OF assms(3), of cfg "cv_call V" "(cx_cache x, w)"]
  by (auto simp: invalidate_for_change_def case_prod_unfold)

lemma invalidate_all_spares:
  assumes "cv_backend V = memory_backend cfg"
  shows "cx_relations x = None \<Longrightarrow> \<forall>ch \<in> set chs. j \<noteq> key_str (change_key ch) \<Longrightarrow>
    mem_peek (cm_backend (cx_cache (fst (fold (invalidate_for_change V) chs (x, w))))) j = mem_peek (cm_backend (cx_cache x)) j"
proof (induction chs arbitrary: x w)
  case (Cons ch chs)
  with invalidate_spares [OF assms Cons.prems(1), of j ch w] show ?case
    by (cases "invalidate_for_change V ch (x, w)") auto
qed simp

text \<open>
  Saving drops only cache entries under the name of the changed entity's own class: an element that
  was asked for by the name of another class, a base class say, is served from the cache for as
  long as its entry lives, also when it has just been deleted.
\<close>

theorem stale_under_other_type:
  assumes "cv_backend V = memory_backend cfg" "cx_relations x = None" "ct_ok (cx_tracker x)"
    and "\<not> cx_disposed x" "context_policy (cx_config x) \<noteq> NONE"
    and "map_of (tracked_entities (cx_tracker x)) (Scalar i) \<noteq> None"
    and "mem_peek (cm_backend (cx_cache x)) (key_str (create_entity_cache_key (cv_type_text V ty) i)) = Some en"
    and "ce_data en = Some (OV_One ent)" "\<not> is_expired now en"
    and "\<forall>ch \<in> set (get_all_changes (cx_tracker x)). key_str (create_entity_cache_key (cv_type_text V ty) i) \<noteq> key_str (change_key ch)"
    and "cx_save_changes V x w = Some (Inr n, x', w')"
  shows "\<exists>x''. cx_get_by_id V now ty i x' w' = Some (Inr (OV_One ent), x'', w')"
proof -
  let ?k = "create_entity_cache_key (cv_type_text V ty) i"
  have s: "mem_peek (cm_backend (cx_cache x')) (key_str ?k) = Some en \<and> cx_config x' = cx_config x"
  proof (cases "cx_has_changes x")
    case False
    with assms(4,7,11) show ?thesis by (simp add: cx_save_changes_def when_open_def)
  next
    case True
    then obtain w1 where "fold (invalidate_for_change V) (get_all_changes (cx_tracker x))
        (put_change_tracker (accept_changes None (cx_tracker x)) x, w1) = (x', w')"
      using assms(4,11) by (auto simp: cx_save_changes_def when_open_def save_body_def Let_def split: prod.splits option.splits)
    with invalidate_all_spares [OF assms(1) _ assms(10), of "put_change_tracker (accept_changes None (cx_tracker x)) x" w1]
      invalidate_all_frame(3) [of V "get_all_changes (cx_tracker x)" "(put_change_tracker (accept_changes None (cx_tracker x)) x, w1)"]
      assms(2,7)
    show ?thesis by simp
  qed
  obtain m where m: "cm_get (cv_backend V) now ?k (cx_cache x') = (Some (OV_One ent), m)"
    using s assms(1,8,9)
    by (auto simp: cm_get_def memory_backend_def mem_get_def mem_peek_def Let_def mark_accessed_def)
  have out: "cx_disposed x' = cx_disposed x" "map_of (tracked_entities (cx_tracker x')) (Scalar i) \<noteq> None"
    using save_outcome [OF assms(3,11)] assms(6) by (auto split: if_splits)
  have "\<exists>x''. keep_tracking V ent i w' (put_cache m x') = (None, x'')"
    using out(2) by (simp add: keep_tracking_def attach_def)
  with out(1) s m assms(4,5) show ?thesis by (auto simp: cx_get_by_id_def when_open_def)
qed

theorem stale_under_other_type_witness:
  "let V = sample_view None (sample_config 2 LRU);
       d = [(''Element|id:7'', make_entry (sample_config 2 LRU) 0 (Some 1) None [])]
   in \<exists>n x' w' x''. cx_save_changes V (sample_context d) (\<lambda>_. []) = Some (Inr n, x', w') \<and>
        cx_get_by_id V 5 ''Element'' (IntId 7) x' w' = Some (Inr (OV_One 1), x'', w')"
proof -
  let ?V = "sample_view None (sample_config 2 LRU)"
  let ?d = "[(''Element|id:7'', make_entry (sample_config 2 LRU) 0 (Some 1) None [])] :: (string, nat cache_entry) dict"
  let ?x = "sample_context ?d"
  have key: "key_str (create_entity_cache_key ''Element'' (IntId 7)) = ''Element|id:7''" by code_simp
  have other: "key_str (change_key (get_change_set sample_tracker)) = ''Door|id:7''"
    by (simp add: change_key_def get_change_set_def sample_tracker_def new_tracker_def plain_objects_def scalar_id_def) code_simp
  have no_ttl: "\<not> is_expired 5 (map_entry (\<lambda>n. Some (OV_One n)) (make_entry (sample_config 2 LRU) 0 (Some 1) None []))"
    by (simp add: is_expired_def map_entry_def make_entry_def effective_ttl_def)
  obtain x' w' where s: "cx_save_changes ?V ?x (\<lambda>_. []) = Some (Inr 1, x', w')"
  proof -
    obtain u where u: "run_unit_of_work (cv_work ?V) (get_all_changes (cx_tracker ?x)) (\<lambda>_. []) = (u, None)"
      by (simp add: sample_context_facts run_unit_of_work_def sample_view_def register_change_def get_change_set_def
          sample_tracker_def)
    obtain y v where "fold (invalidate_for_change ?V) (get_all_changes (cx_tracker ?x))
        (put_change_tracker (accept_changes None (cx_tracker ?x)) ?x, u) = (y, v)" by fastforce
    with u have "cx_save_changes ?V ?x (\<lambda>_. []) = Some (Inr 1, y, v)"
      using sample_context_facts(2,5,7) by (simp add: cx_save_changes_def when_open_def save_body_def cx_has_changes_def Let_def)
    then show thesis by (rule that)
  qed
  have "\<exists>x''. cx_get_by_id ?V 5 ''Element'' (IntId 7) x' w' = Some (Inr (OV_One 1), x'', w')"
    by (rule stale_under_other_type [OF _ sample_context_facts(6,1,2) _ _ _ _ no_ttl _ s])
      (simp_all add: sample_context_facts(4,7,8,9) key other, simp_all add: sample_view_def key other map_entry_def make_entry_def)
  with s show ?thesis unfolding Let_def by blast
qed

text \<open>
  The cache policy of the context is handed to its queries as their mode, which nothing reads: the
  plan of every query of the context caches in memory, also when the policy is \<open>NONE\<close>.
\<close>

theorem queries_ignore_policy:
  assumes "cx_query ty x w = Some (Inr b, x', w')"
  shows "cache_strategy (builder_plan b (sw_query (cx_sets x'))) = MEMORY"
  using assms by (auto simp: cx_query_def when_open_def new_builder_def builder_plan_def empty_plan_def nth_append split: if_splits)

theorem queries_ignore_policy_witness:
  "\<exists>b x'. cx_query ''Wall'' (sample_context []) () = Some (Inr b, x', ()) \<and>
     cache_strategy (builder_plan b (sw_query (cx_sets x'))) = MEMORY"
proof -
  have "\<exists>b x'. cx_query ''Wall'' (sample_context []) () = Some (Inr b, x', ())"
    by (simp add: cx_query_def when_open_def sample_context_facts new_builder_def)
  then obtain b x' where q: "cx_query ''Wall'' (sample_context []) () = Some (Inr b, x', ())" by blast
  from queries_ignore_policy [OF q] q show ?thesis by blast
qed

end
