(* ===== verification/Cloud_Client.thy ===== *)
theory Cloud_Client
  imports Prelude
begin

text \<open>
  The client of the cloud service: the token of \<open>cloud/auth.py\<close>, the requests with their rate limit
  and retries of \<open>cloud/client.py\<close>, and the webhooks of \<open>cloud/webhooks.py\<close>.

  Times are integers in microseconds; one clock stands for \<open>time.time\<close> and \<open>time.monotonic\<close>. The
  service and the time that its answers and \<open>asyncio.sleep\<close> take are the arguments of the record
  \<open>service\<close>; of a JSON object only the fields that the code reads are kept.
\<close>

subsection \<open>The service\<close>

definition second :: int where "second = 1000000"

record token_body =
  tb_access :: "string option"
  tb_type :: "string option"
  tb_expires :: "int option"
  tb_scope :: "string option"

record aps_body =
  ab_id :: "string option"
  ab_status :: "string option"
  ab_files :: "string list option"
  ab_report :: "string option"
  ab_error :: "string option"

definition no_content :: aps_body where
  "no_content = \<lparr>ab_id = None, ab_status = None, ab_files = None, ab_report = None, ab_error = None\<rparr>"

datatype http_outcome = Transport_Error string | Response int "aps_body option"

text \<open>\<open>sv_http\<close>: method, endpoint, authorization header, and the request's JSON text.\<close>

record 'w service =
  sv_token :: "int \<Rightarrow> 'w \<Rightarrow> (string + token_body) \<times> int \<times> 'w"
  sv_http :: "string \<Rightarrow> string \<Rightarrow> string \<Rightarrow> string \<Rightarrow> int \<Rightarrow> 'w \<Rightarrow> http_outcome \<times> int \<times> 'w"
  sv_nap :: "int \<Rightarrow> int \<Rightarrow> int"

record aps_token =
  tk_access :: string
  tk_type :: string
  tk_expires :: int
  tk_scope :: string
  tk_issued :: int

record 'w cloud =
  cl_token :: "aps_token option"
  cl_times :: "int list"
  cl_now :: int
  cl_world :: 'w

definition new_cloud :: "int \<Rightarrow> 'w \<Rightarrow> 'w cloud" where
  "new_cloud now w = \<lparr>cl_token = None, cl_times = [], cl_now = now, cl_world = w\<rparr>"

datatype cloud_error =
    Auth_Failed string
  | Key_Missing string
  | Api_Error "int option"
  | Bad_Json
  | Submission_Failed string
  | Execution_Failed string

subsection \<open>Tokens\<close>

definition token_expired :: "int \<Rightarrow> aps_token \<Rightarrow> bool" where
  "token_expired now t \<longleftrightarrow> tk_issued t + (tk_expires t - 60) * second \<le> now"

definition is_token_valid :: "'w cloud \<Rightarrow> bool" where
  "is_token_valid st = (case cl_token st of None \<Rightarrow> False | Some t \<Rightarrow> \<not> token_expired (cl_now st) t)"

definition get_or :: "'a \<Rightarrow> 'a option \<Rightarrow> 'a" where
  "get_or d x = (case x of None \<Rightarrow> d | Some y \<Rightarrow> y)"

definition authenticate :: "'w service \<Rightarrow> 'w cloud \<Rightarrow> (cloud_error + aps_token) \<times> 'w cloud" where
  "authenticate S st =
     (case sv_token S (cl_now st) (cl_world st) of
        (r, now, w) \<Rightarrow>
          (let st1 = st\<lparr>cl_now := now, cl_world := w\<rparr> in
           case r of
             Inl e \<Rightarrow> (Inl (Auth_Failed e), st1)
           | Inr b \<Rightarrow>
               (case tb_access b of
                  None \<Rightarrow> (Inl (Key_Missing ''access_token''), st1)
                | Some a \<Rightarrow>
                    (let t = \<lparr>tk_access = a, tk_type = get_or ''Bearer'' (tb_type b), tk_expires = get_or 3600 (tb_expires b),
                              tk_scope = get_or [] (tb_scope b), tk_issued = now\<rparr>
                     in (Inr t, st1\<lparr>cl_token := Some t\<rparr>)))))"

definition get_token :: "'w service \<Rightarrow> 'w cloud \<Rightarrow> (cloud_error + aps_token) \<times> 'w cloud" where
  "get_token S st =
     (case cl_token st of
        None \<Rightarrow> authenticate S st
      | Some t \<Rightarrow> if is_token_valid st then (Inr t, st) else authenticate S st)"

subsection \<open>The rate limit\<close>

definition max_requests :: nat where "max_requests = 20"

text \<open>The times that are kept, and how long the caller has to wait before its own is added.\<close>

definition prune_times :: "int \<Rightarrow> int list \<Rightarrow> int list" where
  "prune_times now q = dropWhile (\<lambda>t. second < now - t) q"

definition wait_time :: "int \<Rightarrow> int list \<Rightarrow> int" where
  "wait_time now q = (if max_requests \<le> length q then second - (now - hd q) else 0)"

definition rate_limit :: "(int \<Rightarrow> int \<Rightarrow> int) \<Rightarrow> int \<Rightarrow> int list \<Rightarrow> int \<times> int list" where
  "rate_limit nap now q =
     (let q1 = prune_times now q; d = wait_time now q1; t = (if 0 < d then nap now d else now) in (t, q1 @ [t]))"

subsection \<open>Requests\<close>

definition retryable :: "int \<Rightarrow> bool" where
  "retryable s \<longleftrightarrow> s \<in> {429, 500, 502, 503}"

definition max_retries :: nat where "max_retries = 3"

definition pass_limit :: "'w service \<Rightarrow> 'w cloud \<Rightarrow> 'w cloud" where
  "pass_limit S st = (case rate_limit (sv_nap S) (cl_now st) (cl_times st) of (t, q) \<Rightarrow> st\<lparr>cl_now := t, cl_times := q\<rparr>)"

definition sleep_for :: "'w service \<Rightarrow> int \<Rightarrow> 'w cloud \<Rightarrow> 'w cloud" where
  "sleep_for S d st = st\<lparr>cl_now := sv_nap S (cl_now st) d\<rparr>"

definition backoff :: "nat \<Rightarrow> int" where "backoff attempt = second * 2 ^ attempt"

definition send_once ::
  "'w service \<Rightarrow> string \<Rightarrow> string \<Rightarrow> string \<Rightarrow> string \<Rightarrow> 'w cloud \<Rightarrow> http_outcome \<times> 'w cloud" where
  "send_once S meth ep auth body st =
     (let st1 = pass_limit S st in
      case sv_http S meth ep auth body (cl_now st1) (cl_world st1) of
        (r, now, w) \<Rightarrow> (r, st1\<lparr>cl_now := now, cl_world := w\<rparr>))"

text \<open>
  The loop over the attempts. A status that may be retried sleeps also after the last attempt, a
  transport error does not.
\<close>

function request_loop ::
  "'w service \<Rightarrow> string \<Rightarrow> string \<Rightarrow> string \<Rightarrow> string \<Rightarrow> nat \<Rightarrow> 'w cloud \<Rightarrow> (cloud_error + aps_body) \<times> 'w cloud" where
  "request_loop S meth ep auth body k st =
     (if max_retries \<le> k then (Inl (Api_Error None), st)
      else
        (case send_once S meth ep auth body st of
           (Transport_Error e, st1) \<Rightarrow>
             request_loop S meth ep auth body (Suc k) (if k < max_retries - 1 then sleep_for S (backoff k) st1 else st1)
         | (Response s b, st1) \<Rightarrow>
             (if retryable s then request_loop S meth ep auth body (Suc k) (sleep_for S (backoff k) st1)
              else if \<not> (200 \<le> s \<and> s < 300) then (Inl (Api_Error (Some s)), st1)
              else if s = 204 then (Inr no_content, st1)
              else (case b of None \<Rightarrow> Inl Bad_Json | Some x \<Rightarrow> Inr x, st1))))"
  by pat_completeness auto
termination by (relation "measure (\<lambda>(S, meth, ep, auth, body, k, st). max_retries - k)") auto

declare request_loop.simps [simp del]

definition cloud_request ::
  "'w service \<Rightarrow> string \<Rightarrow> string \<Rightarrow> string \<Rightarrow> 'w cloud \<Rightarrow> (cloud_error + aps_body) \<times> 'w cloud" where
  "cloud_request S meth ep body st =
     (case get_token S st of
        (Inl e, st1) \<Rightarrow> (Inl e, st1)
      | (Inr t, st1) \<Rightarrow> request_loop S meth ep (tk_type t @ '' '' @ tk_access t) body 0 st1)"

subsection \<open>Webhooks\<close>

datatype job_status = PENDING | QUEUED | RUNNING | COMPLETED | FAILED | CANCELLED | TIMED_OUT

fun status_value :: "job_status \<Rightarrow> string" where
  "status_value PENDING = ''pending''"
| "status_value QUEUED = ''queued''"
| "status_value RUNNING = ''running''"
| "status_value COMPLETED = ''completed''"
| "status_value FAILED = ''failed''"
| "status_value CANCELLED = ''cancelled''"
| "status_value TIMED_OUT = ''timed_out''"

definition parse_status :: "string \<Rightarrow> job_status" where
  "parse_status raw =
     get_or PENDING (map_of (map (\<lambda>s. (status_value s, s)) [PENDING, QUEUED, RUNNING, COMPLETED, FAILED, CANCELLED, TIMED_OUT])
       (map lower_letter raw))"

record webhook_event =
  we_type :: string
  we_job :: string
  we_status :: job_status
  we_timestamp :: string
  we_payload :: "(string, string) dict"

record 'c webhook_handler =
  wh_secret :: "string option"
  wh_callbacks :: "(string, 'c list) dict"

datatype webhook_error = No_Secret | Missing_Field string | Type_Error

text \<open>\<open>hmac.compare_digest\<close> raises on a string with a character that is not ASCII.\<close>

definition is_ascii :: "string \<Rightarrow> bool" where
  "is_ascii s = list_all (\<lambda>c. of_char c < (128 :: nat)) s"

definition verify_signature ::
  "(string \<Rightarrow> string \<Rightarrow> string) \<Rightarrow> string \<Rightarrow> string \<Rightarrow> 'c webhook_handler \<Rightarrow> webhook_error + bool" where
  "verify_signature mac payload signature h =
     (case wh_secret h of
        None \<Rightarrow> Inl No_Secret
      | Some s \<Rightarrow> if s = [] then Inl No_Secret else if \<not> is_ascii signature then Inl Type_Error else Inr (mac s payload = signature))"

definition register_webhook :: "string \<Rightarrow> 'c \<Rightarrow> 'c webhook_handler \<Rightarrow> 'c webhook_handler" where
  "register_webhook t cb h = h\<lparr>wh_callbacks := AList.update t (get_or [] (map_of (wh_callbacks h) t) @ [cb]) (wh_callbacks h)\<rparr>"

definition webhook_callbacks :: "'c webhook_handler \<Rightarrow> string \<Rightarrow> 'c list" where
  "webhook_callbacks h t = get_or [] (map_of (wh_callbacks h) t) @ get_or [] (map_of (wh_callbacks h) ''*'')"

definition dispatch_webhook ::
  "('c \<Rightarrow> webhook_event \<Rightarrow> ('w, string) action) \<Rightarrow> 'c webhook_handler \<Rightarrow> webhook_event \<Rightarrow> 'w \<Rightarrow> 'w" where
  "dispatch_webhook call h ev w = run_all_quiet (map (\<lambda>cb. call cb ev) (webhook_callbacks h (we_type ev))) w"

definition handle_webhook ::
  "('c \<Rightarrow> webhook_event \<Rightarrow> ('w, string) action) \<Rightarrow> 'c webhook_handler \<Rightarrow> (string, string) dict \<Rightarrow> 'w \<Rightarrow>
   (webhook_error + webhook_event) \<times> 'w" where
  "handle_webhook call h d w =
     (case map_of d ''eventType'' of
        None \<Rightarrow> (Inl (Missing_Field ''eventType''), w)
      | Some t \<Rightarrow>
          (let ev = \<lparr>we_type = t, we_job = get_or [] (map_of d ''jobId''),
                     we_status = parse_status (get_or ''pending'' (map_of d ''status'')),
                     we_timestamp = get_or [] (map_of d ''timestamp''), we_payload = d\<rparr>
           in (Inr ev, dispatch_webhook call h ev w)))"


subsection \<open>The rate limit, one request at a time\<close>

text \<open>
  The times at which requests were let through, with the list that the client keeps, when each
  request begins after the one before it was let through.
\<close>

inductive passes :: "(int \<Rightarrow> int \<Rightarrow> int) \<Rightarrow> int list \<Rightarrow> int list \<Rightarrow> bool" for nap where
  passes_none: "passes nap [] []"
| passes_next: "passes nap h q \<Longrightarrow> (h \<noteq> [] \<Longrightarrow> last h < now) \<Longrightarrow> rate_limit nap now q = (t, q') \<Longrightarrow> passes nap (h @ [t]) q'"

definition rate_spaced :: "int list \<Rightarrow> bool" where
  "rate_spaced h \<longleftrightarrow> (\<forall>i. i + max_requests < length h \<longrightarrow> h ! i + second \<le> h ! (i + max_requests))"

lemma rate_limit_facts:
  assumes "rate_limit nap now q = (t, q')" "\<And>n d. n + d \<le> nap n d"
  shows "now \<le> t" "q' = prune_times now q @ [t]"
    "max_requests \<le> length (prune_times now q) \<Longrightarrow> hd (prune_times now q) + second \<le> t"
proof -
  let ?q = "prune_times now q"
  let ?d = "wait_time now ?q"
  have t: "t = (if 0 < ?d then nap now ?d else now)" and q: "q' = ?q @ [t]"
    using assms(1) by (auto simp: rate_limit_def Let_def)
  have n: "now + ?d \<le> nap now ?d" by (rule assms(2))
  show "now \<le> t" using t n by (auto split: if_splits)
  show "q' = ?q @ [t]" by (rule q)
  assume "max_requests \<le> length ?q"
  then have "?d = second - (now - hd ?q)" by (simp add: wait_time_def)
  with t n show "hd ?q + second \<le> t" by (auto split: if_splits)
qed

lemma pruned_suffix: "\<exists>d. q = d @ prune_times now q \<and> (\<forall>x \<in> set d. x + second < now)"
  unfolding prune_times_def
  by (rule exI [of _ "takeWhile (\<lambda>t. second < now - t) q"]) (auto dest: set_takeWhileD)

lemma pruned_head: "prune_times now q \<noteq> [] \<Longrightarrow> now \<le> hd (prune_times now q) + second"
  unfolding prune_times_def using hd_dropWhile [of "\<lambda>t. second < now - t" q] by simp

lemma second_pos: "0 < second" by (simp add: second_def)

lemma sorted_last: "sorted xs \<Longrightarrow> x \<in> set xs \<Longrightarrow> x \<le> last xs"
  by (induction xs) auto

lemma passes_spaced:
  assumes "\<And>n d. n + d \<le> nap n d"
  shows "passes nap h q \<Longrightarrow>
    rate_spaced h \<and> sorted h \<and> (\<exists>pre. h = pre @ q \<and> (\<forall>x \<in> set pre. x + second < last h))"
proof (induction rule: passes.induct)
  case passes_none
  then show ?case by (simp add: rate_spaced_def)
next
  case (passes_next h q now t q')
  let ?q = "prune_times now q"
  note R = rate_limit_facts [OF passes_next.hyps(3) assms]
  have sorted: "sorted h" using passes_next.IH by blast
  obtain pre where pre: "h = pre @ q" "\<forall>x \<in> set pre. x + second < last h" using passes_next.IH by blast
  obtain d where d: "q = d @ ?q" "\<forall>x \<in> set d. x + second < now" using pruned_suffix [of q now] by blast
  have h: "h = (pre @ d) @ ?q" using pre(1) d(1) by simp
  have early: "x + second < t" if "x \<in> set (pre @ d)" for x
  proof (cases "x \<in> set pre")
    case True
    then have "h \<noteq> []" using pre(1) by auto
    with passes_next.hyps(2) pre(2) True R(1) show ?thesis by force
  qed (use that d(2) R(1) in force)
  have small: "length ?q \<le> max_requests"
  proof (rule ccontr)
    assume "\<not> length ?q \<le> max_requests"
    then have long: "max_requests < length ?q" by simp
    let ?m = "length (pre @ d)"
    have "?m + max_requests < length h" using h long by simp
    then have "h ! ?m + second \<le> h ! (?m + max_requests)" using passes_next.IH by (auto simp: rate_spaced_def)
    also have "h ! (?m + max_requests) \<le> last h"
      by (rule sorted_last [OF sorted nth_mem]) (rule \<open>?m + max_requests < length h\<close>)
    also have "last h < now" using passes_next.hyps(2) long h by force
    finally have "h ! ?m + second < now" .
    moreover have "?q \<noteq> []" using long by auto
    then have "h ! ?m = hd ?q" by (subst h) (simp add: hd_conv_nth nth_append)
    ultimately show False using pruned_head [OF \<open>?q \<noteq> []\<close>] by simp
  qed
  have rate_spaced: "rate_spaced (h @ [t])"
    unfolding rate_spaced_def
  proof (intro allI impI)
    fix i assume i: "i + max_requests < length (h @ [t])"
    show "(h @ [t]) ! i + second \<le> (h @ [t]) ! (i + max_requests)"
    proof (cases "i + max_requests < length h")
      case True
      with passes_next.IH show ?thesis by (auto simp: rate_spaced_def nth_append)
    next
      case False
      with i have i: "i + max_requests = length h" by simp
      then have "i < length h" by (simp add: max_requests_def)
      have "h ! i + second \<le> t"
      proof (cases "i < length (pre @ d)")
        case True
        then have "h ! i \<in> set (pre @ d)" by (metis h nth_append nth_mem)
        with early show ?thesis by force
      next
        case False
        then have "length ?q = max_requests" "i = length (pre @ d)" using small i h by (auto simp: max_requests_def) 
        moreover from this have "?q \<noteq> []" by (auto simp: max_requests_def)
        then have "h ! i = hd ?q"
          using \<open>i = length (pre @ d)\<close> by (subst h) (simp add: hd_conv_nth nth_append)
        ultimately show ?thesis using R(3) by simp
      qed
      with i \<open>i < length h\<close> show ?thesis by (simp add: nth_append)
    qed
  qed
  have "x \<le> t" if "x \<in> set h" for x
    using sorted_last [OF sorted that] passes_next.hyps(2) R(1) that by force
  then have "sorted (h @ [t])" using passes_next.IH by (simp add: sorted_append)
  moreover have "h @ [t] = (pre @ d) @ q'" "\<forall>x \<in> set (pre @ d). x + second < last (h @ [t])"
    using h R(2) early by simp_all
  ultimately show ?case using rate_spaced by blast
qed

text \<open>
  One request at a time, at most twenty requests are let through in any second: a request passes at
  least a second after the twentieth before it.
\<close>

lemma sequential_requests_spaced:
  assumes "passes nap h q" "\<And>n d. n + d \<le> nap n d"
  shows "rate_spaced h"
  using passes_spaced [OF assms(2) assms(1)] by blast

text \<open>Twenty requests in the first microseconds; the next one waits.\<close>

lemma passes_first: "k \<le> 20 \<Longrightarrow> passes (+) (map int [0..<k]) (map int [0..<k])"
proof (induction k)
  case (Suc k)
  let ?q = "map int [0..<k]"
  have "prune_times (int k) ?q = ?q"
    using Suc.prems unfolding prune_times_def by (subst dropWhile_eq_self_iff) (auto simp: second_def hd_map)
  then have "rate_limit (+) (int k) ?q = (int k, ?q @ [int k])"
    using Suc.prems by (simp add: rate_limit_def wait_time_def max_requests_def Let_def)
  then have "passes (+) (?q @ [int k]) (?q @ [int k])"
    using Suc by (intro passes_next) (auto simp: last_map last_upt)
  then show ?case by simp
qed (simp add: passes_none)

lemma sequential_requests_spaced_witness: "rate_spaced (map int [0..<20] @ [1000000])"
proof -
  let ?q = "map int [0..<20]"
  have hd: "hd ?q = 0" by (simp add: hd_map)
  have "prune_times 20 ?q = ?q"
    unfolding prune_times_def by (subst dropWhile_eq_self_iff) (simp add: second_def hd del: upt_conv_Cons)
  then have "rate_limit (+) 20 ?q = (1000000, ?q @ [1000000])"
    by (simp add: rate_limit_def wait_time_def max_requests_def hd second_def Let_def del: upt_conv_Cons)
  then have "passes (+) (?q @ [1000000]) (?q @ [1000000])"
    by (intro passes_next [OF passes_first]) (simp_all add: last_map last_upt)
  then show ?thesis by (rule sequential_requests_spaced) simp
qed

subsection \<open>The rate limit with several callers\<close>

text \<open>
  Callers of one client: \<open>rs_sleeping\<close> are the times at which sleeping callers wake up. A caller
  that wakes up does not look at the list again.
\<close>

record rate_state =
  rs_now :: int
  rs_times :: "int list"
  rs_sleeping :: "int list"
  rs_passed :: "int list"

definition new_rate :: rate_state where
  "new_rate = \<lparr>rs_now = 0, rs_times = [], rs_sleeping = [], rs_passed = []\<rparr>"

inductive rate_step :: "rate_state \<Rightarrow> rate_state \<Rightarrow> bool" where
  rate_call: "prune_times (rs_now s) (rs_times s) = q \<Longrightarrow> wait_time (rs_now s) q \<le> 0 \<Longrightarrow>
    rate_step s (s\<lparr>rs_times := q @ [rs_now s], rs_passed := rs_passed s @ [rs_now s]\<rparr>)"
| rate_sleep: "prune_times (rs_now s) (rs_times s) = q \<Longrightarrow> 0 < wait_time (rs_now s) q \<Longrightarrow>
    rate_step s (s\<lparr>rs_times := q, rs_sleeping := rs_sleeping s @ [rs_now s + wait_time (rs_now s) q]\<rparr>)"
| rate_wake: "rs_sleeping s = a @ w # b \<Longrightarrow> w \<le> rs_now s \<Longrightarrow>
    rate_step s (s\<lparr>rs_times := rs_times s @ [rs_now s], rs_sleeping := a @ b, rs_passed := rs_passed s @ [rs_now s]\<rparr>)"
| rate_tick: "0 < d \<Longrightarrow> rate_step s (s\<lparr>rs_now := rs_now s + d\<rparr>)"

abbreviation rate_run :: "rate_state \<Rightarrow> rate_state \<Rightarrow> bool" where
  "rate_run \<equiv> rate_step\<^sup>*\<^sup>*"

lemma rate_fill:
  "n \<le> 20 \<Longrightarrow> rate_run new_rate \<lparr>rs_now = 0, rs_times = replicate n 0, rs_sleeping = [], rs_passed = replicate n 0\<rparr>"
proof (induction n)
  case (Suc n)
  let ?s = "\<lparr>rs_now = 0, rs_times = replicate n 0, rs_sleeping = [], rs_passed = replicate n 0\<rparr> :: rate_state"
  have "prune_times (rs_now ?s) (rs_times ?s) = replicate n 0"
    by (cases n) (simp_all add: prune_times_def second_def)
  moreover have "wait_time (rs_now ?s) (replicate n 0) \<le> 0" using Suc.prems by (simp add: wait_time_def max_requests_def)
  ultimately have "rate_step ?s (?s\<lparr>rs_times := replicate n 0 @ [rs_now ?s], rs_passed := rs_passed ?s @ [rs_now ?s]\<rparr>)"
    by (rule rate_call)
  then have "rate_step ?s \<lparr>rs_now = 0, rs_times = replicate (Suc n) 0, rs_sleeping = [], rs_passed = replicate (Suc n) 0\<rparr>"
    by (simp add: replicate_append_same)
  with Suc show ?case by (meson Suc_leD rtranclp.rtrancl_into_rtrancl)
qed (simp add: new_rate_def)

lemma rate_line_up:
  "rate_run \<lparr>rs_now = 0, rs_times = replicate 20 0, rs_sleeping = [], rs_passed = P\<rparr>
     \<lparr>rs_now = 0, rs_times = replicate 20 0, rs_sleeping = replicate n second, rs_passed = P\<rparr>"
proof (induction n)
  case (Suc n)
  let ?s = "\<lparr>rs_now = 0, rs_times = replicate 20 0, rs_sleeping = replicate n second, rs_passed = P\<rparr>"
  have h: "hd (replicate 20 (0 :: int)) = 0" by (simp add: numeral_eq_Suc)
  have "prune_times (rs_now ?s) (rs_times ?s) = replicate 20 0"
    by (simp add: prune_times_def second_def numeral_eq_Suc)
  moreover have w: "wait_time 0 (replicate 20 0) = second" by (simp add: wait_time_def max_requests_def h)
  ultimately have "rate_step ?s (?s\<lparr>rs_times := replicate 20 0, rs_sleeping := rs_sleeping ?s @ [rs_now ?s + wait_time (rs_now ?s) (replicate 20 0)]\<rparr>)"
    by (intro rate_sleep) (simp_all add: second_def)
  then have "rate_step ?s \<lparr>rs_now = 0, rs_times = replicate 20 0, rs_sleeping = replicate (Suc n) second, rs_passed = P\<rparr>"
    by (simp add: w replicate_append_same)
  with Suc show ?case by (meson rtranclp.rtrancl_into_rtrancl)
qed simp

lemma rate_burst:
  "rate_run \<lparr>rs_now = t, rs_times = Q, rs_sleeping = replicate n t, rs_passed = P\<rparr>
     \<lparr>rs_now = t, rs_times = Q @ replicate n t, rs_sleeping = [], rs_passed = P @ replicate n t\<rparr>"
proof (induction n arbitrary: P Q)
  case (Suc n)
  let ?s = "\<lparr>rs_now = t, rs_times = Q, rs_sleeping = replicate (Suc n) t, rs_passed = P\<rparr>"
  have "rate_step ?s (?s\<lparr>rs_times := rs_times ?s @ [rs_now ?s], rs_sleeping := [] @ replicate n t, rs_passed := rs_passed ?s @ [rs_now ?s]\<rparr>)"
    by (rule rate_wake [where w = t]) simp_all
  then have "rate_step ?s \<lparr>rs_now = t, rs_times = Q @ [t], rs_sleeping = replicate n t, rs_passed = P @ [t]\<rparr>" by simp
  with Suc.IH [of "Q @ [t]" "P @ [t]"] show ?case
    by (simp add: converse_rtranclp_into_rtranclp)
qed simp

text \<open>
  Callers that wait together wake together: any number of requests can pass at the same instant.
\<close>

lemma concurrent_requests_burst:
  "\<exists>s. rate_run new_rate s \<and> n \<le> count (mset (rs_passed s)) second"
proof (rule exI, rule conjI)
  let ?P = "replicate 20 (0 :: int)"
  have "rate_run new_rate \<lparr>rs_now = 0, rs_times = ?P, rs_sleeping = replicate n second, rs_passed = ?P\<rparr>"
    using rate_fill [of 20] rate_line_up [of ?P n] by (meson order_refl rtranclp_trans)
  moreover have "rate_step \<lparr>rs_now = 0, rs_times = ?P, rs_sleeping = replicate n second, rs_passed = ?P\<rparr>
      \<lparr>rs_now = second, rs_times = ?P, rs_sleeping = replicate n second, rs_passed = ?P\<rparr>"
    using rate_tick [of second "\<lparr>rs_now = 0, rs_times = ?P, rs_sleeping = replicate n second, rs_passed = ?P\<rparr>"]
    by (simp add: second_def)
  ultimately show "rate_run new_rate \<lparr>rs_now = second, rs_times = ?P @ replicate n second, rs_sleeping = [], rs_passed = ?P @ replicate n second\<rparr>"
    using rate_burst [of second ?P n ?P] by (meson rtranclp.rtrancl_into_rtrancl rtranclp_trans)
qed simp

subsection \<open>Tokens and requests\<close>

lemma authenticate_stores:
  "authenticate S st = (Inr t, st') \<Longrightarrow> cl_token st' = Some t \<and> tk_issued t = cl_now st'"
  unfolding authenticate_def by (auto simp: Let_def split: prod.splits sum.splits option.splits)

text \<open>
  The token that \<open>get_token\<close> returns is the one it keeps. It has not expired, unless the service
  issued it with a life of a minute or less.
\<close>

lemma token_is_fresh:
  assumes "get_token S st = (Inr t, st')"
  shows "cl_token st' = Some t \<and> (token_expired (cl_now st') t \<longrightarrow> tk_issued t = cl_now st' \<and> tk_expires t \<le> 60)"
proof (cases "is_token_valid st")
  case True
  with assms show ?thesis by (auto simp: get_token_def is_token_valid_def split: option.splits)
next
  case False
  with assms have "authenticate S st = (Inr t, st')" by (auto simp: get_token_def split: option.splits)
  from authenticate_stores [OF this] show ?thesis
    by (auto simp: token_expired_def second_def)
qed

lemma valid_token_is_reused:
  assumes "cl_token st = Some t" "\<not> token_expired (cl_now st) t"
  shows "get_token S st = (Inr t, st)"
  using assms by (simp add: get_token_def is_token_valid_def)

lemma failed_refresh_keeps_token:
  assumes "get_token S st = (Inl e, st')"
  shows "cl_token st' = cl_token st \<and> cl_times st' = cl_times st"
  using assms unfolding get_token_def authenticate_def
  by (auto simp: Let_def split: prod.splits sum.splits option.splits if_splits)

text \<open>
  A service that answers from a script. An answer is decisive unless it is a transport error or a
  status that may be retried.
\<close>

fun decisive :: "http_outcome \<Rightarrow> bool" where
  "decisive (Transport_Error e) = False"
| "decisive (Response s b) = (\<not> retryable s)"

fun verdict :: "http_outcome \<Rightarrow> cloud_error + aps_body" where
  "verdict (Transport_Error e) = Inl (Api_Error None)"
| "verdict (Response s b) =
     (if \<not> (200 \<le> s \<and> s < 300) then Inl (Api_Error (Some s))
      else if s = 204 then Inr no_content
      else case b of None \<Rightarrow> Inl Bad_Json | Some x \<Rightarrow> Inr x)"

text \<open>What a request makes of the answers to come: the first decisive one of so many attempts.\<close>

fun first_decisive :: "nat \<Rightarrow> http_outcome list \<Rightarrow> (cloud_error + aps_body) \<times> http_outcome list" where
  "first_decisive 0 os = (Inl (Api_Error None), os)"
| "first_decisive (Suc n) [] = first_decisive n []"
| "first_decisive (Suc n) (a # os) = (if decisive a then (verdict a, os) else first_decisive n os)"

definition from_script :: "string \<Rightarrow> string \<Rightarrow> string \<Rightarrow> string \<Rightarrow> int \<Rightarrow> http_outcome list \<Rightarrow> http_outcome \<times> int \<times> http_outcome list" where
  "from_script meth ep auth body now w = (case w of [] \<Rightarrow> (Transport_Error [], now, []) | a # os \<Rightarrow> (a, now, os))"

lemma pass_limit_keeps: "cl_world (pass_limit S st) = cl_world st \<and> cl_token (pass_limit S st) = cl_token st"
  by (simp add: pass_limit_def split: prod.splits)

lemma send_once_script:
  assumes "sv_http S = from_script"
  obtains st1 where "send_once S meth ep auth body st = (case cl_world st of [] \<Rightarrow> Transport_Error [] | a # os \<Rightarrow> a, st1)"
    "cl_world st1 = tl (cl_world st)" "cl_token st1 = cl_token st"
  using that [of "(pass_limit S st)\<lparr>cl_world := tl (cl_world st)\<rparr>"] assms pass_limit_keeps [of S st]
  by (cases "cl_world st") (simp_all add: send_once_def from_script_def Let_def)

lemma request_loop_script:
  assumes "sv_http S = from_script"
  shows "map_prod id cl_world (request_loop S meth ep auth body k st) = first_decisive (max_retries - k) (cl_world st)"
  using assms
proof (induction S meth ep auth body k st rule: request_loop.induct)
  case (1 S meth ep auth body k st)
  show ?case
  proof (cases "max_retries \<le> k")
    case True
    then show ?thesis by (subst request_loop.simps) simp
  next
    case False
    then obtain n where n: "max_retries - k = Suc n" "max_retries - Suc k = n" by (metis Suc_diff_Suc not_le)
    obtain st1 where s: "send_once S meth ep auth body st = (case cl_world st of [] \<Rightarrow> Transport_Error [] | a # os \<Rightarrow> a, st1)"
      and w: "cl_world st1 = tl (cl_world st)" by (rule send_once_script [OF "1.prems", of meth ep auth body st])
    have sleeping: "cl_world (sleep_for S d st1) = tl (cl_world st)" for d by (simp add: sleep_for_def w)
    have error: "map_prod id cl_world (request_loop S meth ep auth body (Suc k) (if k < max_retries - 1 then sleep_for S (backoff k) st1 else st1)) =
        first_decisive n (tl (cl_world st))" if "send_once S meth ep auth body st = (Transport_Error e, st1)" for e
      using "1.IH"(1) [OF False that [symmetric] refl "1.prems"] n(2) sleeping w by (auto simp: id_def split: if_splits)
    have again: "map_prod id cl_world (request_loop S meth ep auth body (Suc k) (sleep_for S (backoff k) st1)) =
        first_decisive n (tl (cl_world st))" if "send_once S meth ep auth body st = (Response c b, st1)" "retryable c" for c b
      using "1.IH"(2) [OF False that(1) [symmetric] refl that(2) "1.prems"] n(2) sleeping by (simp add: id_def)
    show ?thesis
    proof (cases "cl_world st")
      case Nil
      then show ?thesis using error [of "[]"] s n False by (subst request_loop.simps) simp
    next
      case (Cons a os)
      then show ?thesis
        using error again s n False w
        by (subst request_loop.simps) (cases a; auto split: option.splits)
    qed
  qed
qed

text \<open>
  A request with a valid token sends at most three times. Its result is that of the first decisive
  answer, and it fails when there is none.
\<close>

lemma request_is_first_decisive:
  assumes "sv_http S = from_script" "cl_token st = Some t" "\<not> token_expired (cl_now st) t"
  shows "map_prod id cl_world (cloud_request S meth ep body st) = first_decisive 3 (cl_world st)"
  using request_loop_script [OF assms(1), of meth ep "tk_type t @ '' '' @ tk_access t" body 0 st]
  by (simp add: cloud_request_def valid_token_is_reused [OF assms(2,3)] max_retries_def)

lemma first_decisive_at_most: "length os - n \<le> length (snd (first_decisive n os))"
  by (induction n os rule: first_decisive.induct) auto

definition sample_service :: "http_outcome list service" where
  "sample_service = \<lparr>sv_token = \<lambda>now w. (Inl ''no'', now, w), sv_http = from_script, sv_nap = (+)\<rparr>"

lemma request_is_first_decisive_witness:
  "map_prod id cl_world
     (cloud_request sample_service ''GET'' ''/x'' []
       \<lparr>cl_token = Some \<lparr>tk_access = ''t'', tk_type = ''Bearer'', tk_expires = 3600, tk_scope = [], tk_issued = 0\<rparr>,
        cl_times = [], cl_now = 0, cl_world = [Response 503 None, Transport_Error ''reset'', Response 404 None, Response 200 None]\<rparr>)
   = (Inl (Api_Error (Some 404)), [Response 200 None])"
  by (subst request_is_first_decisive [where t = "\<lparr>tk_access = ''t'', tk_type = ''Bearer'', tk_expires = 3600, tk_scope = [], tk_issued = 0\<rparr>"])
    (simp_all add: sample_service_def token_expired_def second_def retryable_def numeral_eq_Suc)

lemma token_is_fresh_witness:
  "cl_token (snd (get_token \<lparr>sv_token = \<lambda>now w. (Inr \<lparr>tb_access = Some ''t'', tb_type = None, tb_expires = Some 30, tb_scope = None\<rparr>, now + 5, ()),
       sv_http = \<lambda>meth ep auth body now w. (Transport_Error [], now, w), sv_nap = (+)\<rparr> (new_cloud 0 ()))) =
   Some \<lparr>tk_access = ''t'', tk_type = ''Bearer'', tk_expires = 30, tk_scope = [], tk_issued = 5\<rparr>"
  using token_is_fresh [of "\<lparr>sv_token = \<lambda>now w. (Inr \<lparr>tb_access = Some ''t'', tb_type = None, tb_expires = Some 30, tb_scope = None\<rparr>, now + 5, ()),
       sv_http = \<lambda>meth ep auth body now w. (Transport_Error [], now, w), sv_nap = (+)\<rparr>" "new_cloud 0 ()"
     "\<lparr>tk_access = ''t'', tk_type = ''Bearer'', tk_expires = 30, tk_scope = [], tk_issued = 5\<rparr>"]
  by (simp add: get_token_def authenticate_def new_cloud_def get_or_def Let_def)

subsection \<open>Webhooks\<close>

text \<open>Every status is read back from its value, and an unknown text is a pending job.\<close>

lemma status_roundtrip:
  "parse_status (status_value s) = s \<and> (parse_status raw \<noteq> PENDING \<longrightarrow> map lower_letter raw = status_value (parse_status raw))"
proof
  show "parse_status (status_value s) = s" by (cases s; hypsubst) (code_simp | rule)+
  show "parse_status raw \<noteq> PENDING \<longrightarrow> map lower_letter raw = status_value (parse_status raw)"
    unfolding parse_status_def get_or_def
    by (auto split: option.splits dest!: map_of_SomeD)
qed

lemma status_roundtrip_witness: "map lower_letter ''Timed_Out'' = status_value TIMED_OUT"
proof -
  have p: "parse_status ''Timed_Out'' = TIMED_OUT" by code_simp
  have "parse_status ''Timed_Out'' \<noteq> PENDING \<longrightarrow> map lower_letter ''Timed_Out'' = status_value (parse_status ''Timed_Out'')"
    using status_roundtrip [of TIMED_OUT "''Timed_Out''"] by (rule conjunct2)
  then show ?thesis by (simp only: p) simp
qed

text \<open>
  A signature is accepted exactly when a secret is set and the signature is the code of the payload
  under it.
\<close>

lemma signature_accepted_iff:
  assumes "\<And>s p. is_ascii (mac s p)"
  shows "verify_signature mac payload signature h = Inr True \<longleftrightarrow>
    (\<exists>s. wh_secret h = Some s \<and> s \<noteq> [] \<and> signature = mac s payload)"
  using assms unfolding verify_signature_def by (auto split: option.splits if_splits)

lemma signature_accepted_iff_witness:
  "verify_signature (\<lambda>s p. ''ab'') ''{}'' ''ab'' \<lparr>wh_secret = Some ''k'', wh_callbacks = []\<rparr> = Inr True"
  by (subst signature_accepted_iff) (simp_all add: is_ascii_def)

text \<open>The callbacks of an event run in the order of registration, those for every event last, whatever they raise.\<close>

lemma registered_callbacks_run:
  "webhook_callbacks (register_webhook t cb h) u =
     (if u = t then get_or [] (map_of (wh_callbacks h) u) @ [cb] else get_or [] (map_of (wh_callbacks h) u)) @
     (if t = ''*'' then get_or [] (map_of (wh_callbacks h) ''*'') @ [cb] else get_or [] (map_of (wh_callbacks h) ''*''))"
  by (simp add: webhook_callbacks_def register_webhook_def update_conv get_or_def)

lemma wildcard_event_runs_twice:
  "webhook_callbacks h ''*'' = get_or [] (map_of (wh_callbacks h) ''*'') @ get_or [] (map_of (wh_callbacks h) ''*'')"
  by (simp add: webhook_callbacks_def)

lemma webhook_event_recorded:
  assumes "handle_webhook call h d w = (Inr ev, w')"
  shows "map_of d ''eventType'' = Some (we_type ev) \<and> we_payload ev = d \<and> w' = dispatch_webhook call h ev w"
  using assms by (auto simp: handle_webhook_def Let_def split: option.splits)

end
