(* ===== verification/Cloud_Jobs.thy ===== *)
theory Cloud_Jobs
  imports Cloud_Client
begin

text \<open>
  Jobs of the cloud service and batches of them: \<open>cloud/jobs.py\<close> and \<open>cloud/batch.py\<close>.

  The JSON text of a request is a parameter \<open>render\<close>, the text of an exception a parameter \<open>msg\<close>.
  Downloading result files and logs is not modelled.
\<close>

subsection \<open>Job management\<close>

record job_config =
  jc_activity :: string
  jc_input :: string
  jc_output :: "string option"
  jc_script :: "string option"
  jc_parameters :: "(string \<times> string) list"
  jc_timeout :: int

record job_result =
  jr_job :: string
  jr_status :: job_status
  jr_files :: "string list"
  jr_logs :: string
  jr_duration :: int
  jr_error :: "string option"

definition plain_result :: "job_status \<Rightarrow> string option \<Rightarrow> job_result" where
  "plain_result s e = \<lparr>jr_job = [], jr_status = s, jr_files = [], jr_logs = [], jr_duration = 0, jr_error = e\<rparr>"

datatype argument = File_Argument string string | Parameter_Argument "(string \<times> string) list"

type_synonym da_payload = "string \<times> (string \<times> argument) list"

definition da_base :: string where "da_base = ''/da/us-east/v3/workitems''"

definition job_path :: "string \<Rightarrow> string" where "job_path j = da_base @ ''/'' @ j"

definition job_payload :: "job_config \<Rightarrow> da_payload" where
  "job_payload cfg =
     (jc_activity cfg,
      [(''inputFile'', File_Argument (jc_input cfg) ''get'')] @
      (case jc_output cfg of None \<Rightarrow> [] | Some f \<Rightarrow> [(''outputFile'', File_Argument f ''put'')]) @
      (case jc_script cfg of None \<Rightarrow> [] | Some f \<Rightarrow> [(''scriptPath'', File_Argument f ''get'')]) @
      (if jc_parameters cfg = [] then [] else [(''parameters'', Parameter_Argument (jc_parameters cfg))]))"

definition submit_job ::
  "'w service \<Rightarrow> (da_payload \<Rightarrow> string) \<Rightarrow> job_config \<Rightarrow> 'w cloud \<Rightarrow> (cloud_error + string) \<times> 'w cloud" where
  "submit_job S render cfg st =
     (case cloud_request S ''POST'' da_base (render (job_payload cfg)) st of
        (Inl e, st1) \<Rightarrow> (Inl (Submission_Failed (jc_activity cfg)), st1)
      | (Inr b, st1) \<Rightarrow>
          (let j = get_or [] (ab_id b) in
           (if j = [] then Inl (Submission_Failed ''no job ID'') else Inr j, st1)))"

definition get_job_status :: "'w service \<Rightarrow> string \<Rightarrow> 'w cloud \<Rightarrow> (cloud_error + job_status) \<times> 'w cloud" where
  "get_job_status S j st =
     (case cloud_request S ''GET'' (job_path j) [] st of
        (Inl e, st1) \<Rightarrow> (Inl e, st1)
      | (Inr b, st1) \<Rightarrow> (Inr (parse_status (get_or ''pending'' (ab_status b))), st1))"

definition terminal_status :: "job_status \<Rightarrow> bool" where
  "terminal_status s \<longleftrightarrow> s \<in> {COMPLETED, FAILED, CANCELLED, TIMED_OUT}"

definition job_outcome :: "string \<Rightarrow> int \<Rightarrow> aps_body \<Rightarrow> cloud_error + job_result" where
  "job_outcome j elapsed b =
     (let s = parse_status (get_or ''pending'' (ab_status b)) in
      if s = FAILED then Inl (Execution_Failed (status_value s))
      else Inr \<lparr>jr_job = j, jr_status = s, jr_files = get_or [] (ab_files b), jr_logs = get_or [] (ab_report b),
                jr_duration = elapsed, jr_error = ab_error b\<rparr>)"

text \<open>The loop that polls. It need not end, so its value is an option.\<close>

partial_function (option) poll_loop ::
  "'w service \<Rightarrow> string \<Rightarrow> int \<Rightarrow> int \<Rightarrow> int \<Rightarrow> 'w cloud \<Rightarrow> ((cloud_error + job_result) \<times> 'w cloud) option" where
  "poll_loop S j timeout poll start st =
     (if timeout < cl_now st - start then Some (Inl (Execution_Failed ''timed_out''), st)
      else
        (case cloud_request S ''GET'' (job_path j) [] st of
           (Inl e, st1) \<Rightarrow> Some (Inl e, st1)
         | (Inr b, st1) \<Rightarrow>
             if terminal_status (parse_status (get_or ''pending'' (ab_status b)))
             then Some (job_outcome j (cl_now st - start) b, st1)
             else poll_loop S j timeout poll start (sleep_for S poll st1)))"

definition wait_for_completion ::
  "'w service \<Rightarrow> string \<Rightarrow> int \<Rightarrow> int \<Rightarrow> 'w cloud \<Rightarrow> ((cloud_error + job_result) \<times> 'w cloud) option" where
  "wait_for_completion S j timeout poll st = poll_loop S j timeout poll (cl_now st) st"

definition cancel_job :: "'w service \<Rightarrow> string \<Rightarrow> 'w cloud \<Rightarrow> bool \<times> 'w cloud" where
  "cancel_job S j st =
     (case cloud_request S ''DELETE'' (job_path j) [] st of
        (Inl e, st1) \<Rightarrow> (False, st1)
      | (Inr b, st1) \<Rightarrow> (True, st1))"

subsection \<open>One job of a batch, with retries\<close>

record batch_config =
  bc_parallel :: nat
  bc_retries :: int
  bc_delay :: int
  bc_continue :: bool

definition default_poll :: int where "default_poll = 5 * second"

fun is_execution_error :: "cloud_error \<Rightarrow> bool" where
  "is_execution_error (Execution_Failed s) = True"
| "is_execution_error _ = False"

definition try_job ::
  "'w service \<Rightarrow> (da_payload \<Rightarrow> string) \<Rightarrow> job_config \<Rightarrow> 'w cloud \<Rightarrow> ((cloud_error + job_result) \<times> 'w cloud) option" where
  "try_job S render cfg st =
     (case submit_job S render cfg st of
        (Inl e, st1) \<Rightarrow> Some (Inl e, st1)
      | (Inr j, st1) \<Rightarrow> wait_for_completion S j (jc_timeout cfg) default_poll st1)"

text \<open>\<open>left\<close> is the number of attempts that are left.\<close>

fun job_retry_loop ::
  "'w service \<Rightarrow> (da_payload \<Rightarrow> string) \<Rightarrow> (cloud_error \<Rightarrow> string) \<Rightarrow> batch_config \<Rightarrow> job_config \<Rightarrow> nat \<Rightarrow> string option \<Rightarrow>
   'w cloud \<Rightarrow> (job_result \<times> 'w cloud) option" where
  "job_retry_loop S render msg bc cfg 0 err st = Some (plain_result FAILED err, st)"
| "job_retry_loop S render msg bc cfg (Suc left) err st =
     (case try_job S render cfg st of
        None \<Rightarrow> None
      | Some (Inr r, st1) \<Rightarrow> Some (r, st1)
      | Some (Inl e, st1) \<Rightarrow>
          if is_execution_error e
          then job_retry_loop S render msg bc cfg left (Some (msg e)) (if 0 < left then sleep_for S (bc_delay bc) st1 else st1)
          else Some (plain_result FAILED (Some (msg e)), st1))"

definition run_with_retry ::
  "'w service \<Rightarrow> (da_payload \<Rightarrow> string) \<Rightarrow> (cloud_error \<Rightarrow> string) \<Rightarrow> batch_config \<Rightarrow> job_config \<Rightarrow> 'w cloud \<Rightarrow>
   (job_result \<times> 'w cloud) option" where
  "run_with_retry S render msg bc cfg st = job_retry_loop S render msg bc cfg (nat (bc_retries bc + 1)) None st"

subsection \<open>Polling ends\<close>

text \<open>A service whose calls and sleeps take no negative time.\<close>

definition service_advances :: "'w service \<Rightarrow> bool" where
  "service_advances S \<longleftrightarrow>
     (\<forall>now w. now \<le> fst (snd (sv_token S now w))) \<and>
     (\<forall>meth ep auth body now w. now \<le> fst (snd (sv_http S meth ep auth body now w))) \<and>
     (\<forall>now d. now \<le> sv_nap S now d \<and> now + d \<le> sv_nap S now d)"

lemma get_token_time:
  assumes "service_advances S"
  shows "cl_now st \<le> cl_now (snd (get_token S st))"
proof -
  obtain r n w where t: "sv_token S (cl_now st) (cl_world st) = (r, n, w)" by (metis prod_cases3)
  then have "cl_now st \<le> n" using assms unfolding service_advances_def by (metis fst_conv snd_conv)
  with t have "cl_now st \<le> cl_now (snd (authenticate S st))"
    by (auto simp: authenticate_def Let_def split: sum.splits option.splits)
  then show ?thesis by (auto simp: get_token_def split: option.splits)
qed

lemma sleep_for_time:
  assumes "service_advances S"
  shows "cl_now st \<le> cl_now (sleep_for S d st) \<and> cl_now st + d \<le> cl_now (sleep_for S d st)"
  using assms by (simp add: service_advances_def sleep_for_def)

lemma send_once_time:
  assumes "service_advances S"
  shows "cl_now st \<le> cl_now (snd (send_once S meth ep auth body st))"
proof -
  have p: "cl_now st \<le> cl_now (pass_limit S st)"
    using assms by (auto simp: service_advances_def pass_limit_def rate_limit_def Let_def split: prod.splits)
  obtain r n w where t: "sv_http S meth ep auth body (cl_now (pass_limit S st)) (cl_world (pass_limit S st)) = (r, n, w)"
    by (metis prod_cases3)
  then have "cl_now (pass_limit S st) \<le> n" using assms unfolding service_advances_def by (metis fst_conv snd_conv)
  with p t show ?thesis by (simp add: send_once_def Let_def)
qed

lemma request_loop_time:
  assumes "service_advances S"
  shows "cl_now st \<le> cl_now (snd (request_loop S meth ep auth body k st))"
  using assms
proof (induction S meth ep auth body k st rule: request_loop.induct)
  case (1 S meth ep auth body k st)
  show ?case
  proof (cases "max_retries \<le> k")
    case True
    then show ?thesis by (subst request_loop.simps) simp
  next
    case False
    obtain r st1 where s: "send_once S meth ep auth body st = (r, st1)" by fastforce
    have t: "cl_now st \<le> cl_now st1" using send_once_time [OF "1.prems", of st meth ep auth body] s by simp
    show ?thesis
    proof (cases r)
      case (Transport_Error e)
      let ?st = "if k < max_retries - 1 then sleep_for S (backoff k) st1 else st1"
      have "cl_now st1 \<le> cl_now ?st" using sleep_for_time [OF "1.prems"] by auto
      with t "1.IH"(1) [OF False s [symmetric] Transport_Error "1.prems"] False Transport_Error s show ?thesis
        by (subst request_loop.simps) (cases "k < max_retries - 1"; simp)
    next
      case (Response c b)
      have "cl_now st1 \<le> cl_now (sleep_for S (backoff k) st1)" using sleep_for_time [OF "1.prems"] by auto
      with t "1.IH"(2) [OF False s [symmetric] Response _ "1.prems"] False Response s show ?thesis
        by (subst request_loop.simps) (auto split: option.splits)
    qed
  qed
qed

lemma cloud_request_time:
  assumes "service_advances S"
  shows "cl_now st \<le> cl_now (snd (cloud_request S meth ep body st))"
proof -
  obtain r st1 where g: "get_token S st = (r, st1)" by fastforce
  have "cl_now st \<le> cl_now st1" using get_token_time [OF assms, of st] g by simp
  with g request_loop_time [OF assms] order_trans show ?thesis
    by (cases r) (fastforce simp: cloud_request_def)+
qed

text \<open>What the polling may end with.\<close>

definition wait_post :: "string \<Rightarrow> int \<Rightarrow> int \<Rightarrow> (cloud_error + job_result) \<times> 'w cloud \<Rightarrow> bool" where
  "wait_post j timeout start y =
     (case fst y of
        Inr r \<Rightarrow> jr_job r = j \<and> jr_status r \<in> {COMPLETED, CANCELLED, TIMED_OUT} \<and> jr_duration r \<le> timeout
      | Inl (Execution_Failed s) \<Rightarrow> s = ''failed'' \<or> s = ''timed_out'' \<and> timeout < cl_now (snd y) - start
      | Inl e \<Rightarrow> True)"

lemma cloud_request_not_execution:
  "cloud_request S meth ep body st = (Inl e, st1) \<Longrightarrow> \<not> is_execution_error e"
proof -
  have loop: "fst (request_loop S meth ep auth body k st) = Inl e \<Longrightarrow> \<not> is_execution_error e" for auth k st
  proof (induction S meth ep auth body k st rule: request_loop.induct)
    case (1 S meth ep auth body k st)
    show ?case
      using "1.prems" "1.IH"
      by (subst (asm) request_loop.simps) (auto split: if_splits prod.splits http_outcome.splits option.splits)
  qed
  have token: "get_token S st = (Inl e, st1) \<Longrightarrow> \<not> is_execution_error e" for st st1
    by (auto simp: get_token_def authenticate_def Let_def split: prod.splits sum.splits option.splits if_splits)
  assume "cloud_request S meth ep body st = (Inl e, st1)"
  then show ?thesis
    unfolding cloud_request_def
    by (auto split: prod.splits sum.splits dest: token loop [OF arg_cong [where f = fst, of _ "(Inl e, st1)", simplified]])
qed

lemma poll_loop_ends:
  assumes adv: "service_advances S" and poll: "0 < poll"
  shows "\<exists>y. poll_loop S j timeout poll start st = Some y \<and> wait_post j timeout start y"
proof (induction "nat (timeout + start + 1 - cl_now st)" arbitrary: st rule: less_induct)
  case less
  show ?case
  proof (cases "timeout < cl_now st - start")
    case True
    then show ?thesis by (subst poll_loop.simps) (simp add: wait_post_def)
  next
    case False
    obtain r st1 where r: "cloud_request S ''GET'' (job_path j) [] st = (r, st1)" by fastforce
    have "cl_now st \<le> cl_now st1" using cloud_request_time [OF adv, of st "''GET''" "job_path j" "[]"] r by simp
    then have "cl_now st < cl_now (sleep_for S poll st1)"
      using sleep_for_time [OF adv, of st1 poll] poll by linarith
    then have "nat (timeout + start + 1 - cl_now (sleep_for S poll st1)) < nat (timeout + start + 1 - cl_now st)"
      using False by linarith
    note again = less [OF this]
    show ?thesis
    proof (cases r)
      case (Inl e)
      then have "\<not> is_execution_error e" using cloud_request_not_execution r by blast
      then have "wait_post j timeout start (Inl e, st1)" by (cases e) (simp_all add: wait_post_def)
      with Inl r False show ?thesis by (subst poll_loop.simps) simp
    next
      case (Inr b)
      let ?s = "parse_status (get_or ''pending'' (ab_status b))"
      show ?thesis
      proof (cases "terminal_status ?s")
        case True
        then have "wait_post j timeout start (job_outcome j (cl_now st - start) b, st1)"
          using False by (auto simp: job_outcome_def wait_post_def Let_def terminal_status_def)
        with True Inr r False show ?thesis by (subst poll_loop.simps) simp
      next
        case False
        with again Inr r \<open>\<not> timeout < cl_now st - start\<close> show ?thesis by (subst poll_loop.simps) simp
      qed
    qed
  qed
qed

text \<open>
  When calls and sleeps take no negative time and the poll interval is positive,
  \<open>wait_for_completion\<close> ends. It returns a completed, cancelled or timed-out job, or raises because
  the job failed, more than the timeout has passed, or a request failed.
\<close>

lemma wait_ends:
  assumes "service_advances S" "0 < poll"
  shows "\<exists>y. wait_for_completion S j timeout poll st = Some y \<and> wait_post j timeout (cl_now st) y"
  using poll_loop_ends [OF assms] by (simp add: wait_for_completion_def)

text \<open>A service that issues tokens, and answers each request with the next status in a list; a request takes a second.\<close>

definition status_service :: "string list service" where
  "status_service =
     \<lparr>sv_token = \<lambda>now w. (Inr \<lparr>tb_access = Some ''t'', tb_type = None, tb_expires = None, tb_scope = None\<rparr>, now, w),
      sv_http = \<lambda>meth ep auth body now w.
        (Response 200 (Some (no_content\<lparr>ab_id := Some ''j1'', ab_status := (case w of [] \<Rightarrow> None | s # _ \<Rightarrow> Some s)\<rparr>)), now + second, tl w),
      sv_nap = \<lambda>now d. now + \<bar>d\<bar>\<rparr>"

lemma status_service_advances: "service_advances status_service"
  by (simp add: service_advances_def status_service_def second_def abs_ge_self)

lemma wait_ends_witness:
  "\<exists>y. wait_for_completion status_service ''j1'' 600000000 5000000 (new_cloud 0 [''queued'', ''SUCCESS'']) = Some y \<and>
       wait_post ''j1'' 600000000 0 y"
  using wait_ends [OF status_service_advances, of 5000000 "''j1''" 600000000 "new_cloud 0 [''queued'', ''SUCCESS'']"]
  by (simp add: new_cloud_def)

subsection \<open>Retries end\<close>

definition job_post :: "job_result \<Rightarrow> bool" where
  "job_post r \<longleftrightarrow> terminal_status (jr_status r) \<and> (jr_status r = FAILED \<longrightarrow> jr_job r = [] \<and> jr_files r = [])"

lemma job_post_plain: "job_post (plain_result FAILED e)" "job_post (plain_result CANCELLED e)"
  by (simp_all add: job_post_def plain_result_def terminal_status_def)

lemma try_job_ends:
  assumes "service_advances S"
  shows "\<exists>r st'. try_job S render cfg st = Some (r, st') \<and> (\<forall>x. r = Inr x \<longrightarrow> job_post x)"
proof -
  obtain r st1 where s: "submit_job S render cfg st = (r, st1)" by fastforce
  show ?thesis
  proof (cases r)
    case (Inr j)
    obtain y where "wait_for_completion S j (jc_timeout cfg) default_poll st1 = Some y"
      "wait_post j (jc_timeout cfg) (cl_now st1) y"
      using wait_ends [OF assms, of default_poll j "jc_timeout cfg" st1] by (auto simp: default_poll_def second_def)
    with Inr s show ?thesis
      by (cases y) (auto simp: try_job_def wait_post_def job_post_def terminal_status_def)
  qed (simp add: try_job_def s)
qed

lemma retry_loop_ends:
  assumes "service_advances S"
  shows "\<exists>r st'. job_retry_loop S render msg bc cfg n err st = Some (r, st') \<and> job_post r"
proof (induction n arbitrary: err st)
  case (Suc n)
  obtain r st1 where t: "try_job S render cfg st = Some (r, st1)" and post: "\<forall>x. r = Inr x \<longrightarrow> job_post x"
    using try_job_ends [OF assms] by blast
  from Suc.IH post show ?case by (cases r) (simp_all add: t job_post_plain)
qed (simp add: job_post_plain)

text \<open>
  A job of a batch always yields a result: whatever the service answers, the retries end with a
  finished status, and with no exception.
\<close>

lemma run_with_retry_ends:
  assumes "service_advances S"
  shows "\<exists>r st'. run_with_retry S render msg bc cfg st = Some (r, st') \<and> terminal_status (jr_status r)"
  using retry_loop_ends [OF assms, of render msg bc cfg "nat (bc_retries bc + 1)" None st]
  by (auto simp: run_with_retry_def job_post_def)

definition sample_batch :: batch_config where
  "sample_batch = \<lparr>bc_parallel = 5, bc_retries = 2, bc_delay = 30 * second, bc_continue = True\<rparr>"

definition sample_job :: job_config where
  "sample_job = \<lparr>jc_activity = ''RevitPy.Validate+prod'', jc_input = ''a.rvt'', jc_output = None, jc_script = None,
                 jc_parameters = [], jc_timeout = 600 * second\<rparr>"

lemma run_with_retry_ends_witness:
  "\<exists>r st'. run_with_retry status_service (\<lambda>p. []) (\<lambda>e. ''failed'') sample_batch sample_job (new_cloud 0 [''pending'', ''failed'']) = Some (r, st') \<and>
     terminal_status (jr_status r)"
  by (rule run_with_retry_ends [OF status_service_advances])

text \<open>A submission that fails is not tried again.\<close>

lemma submission_not_retried:
  assumes "submit_job S render cfg st = (Inl e, st1)" "0 \<le> bc_retries bc"
  shows "run_with_retry S render msg bc cfg st = Some (plain_result FAILED (Some (msg e)), st1)"
proof -
  have e: "\<not> is_execution_error e"
    using assms(1) by (auto simp: submit_job_def Let_def split: prod.splits sum.splits if_splits)
  obtain n where "nat (bc_retries bc + 1) = Suc n" using assms(2) by (cases "nat (bc_retries bc + 1)") auto
  with assms(1) e show ?thesis by (simp add: run_with_retry_def try_job_def)
qed

subsection \<open>Batches\<close>

text \<open>
  One stage per job: its task has been created, waits for the semaphore, runs, has a result, and its
  result has been collected by \<open>process\<close>. \<open>ba_open\<close> says that \<open>process\<close> still collects;
  \<open>asyncio.as_completed\<close> gives the results in any order in which they are there. \<open>run i r\<close> says that
  job \<open>i\<close> may end with \<open>r\<close>. The progress callback is not modelled.
\<close>

datatype job_stage = Created | Waiting | Working | Ended job_result | Gathered

record batch =
  ba_stages :: "job_stage list"
  ba_free :: nat
  ba_cancel :: bool
  ba_open :: bool
  ba_results :: "job_result list"
  ba_completed :: nat
  ba_failed :: nat
  ba_cancelled :: nat

definition new_batch :: "batch_config \<Rightarrow> nat \<Rightarrow> batch" where
  "new_batch bc n = \<lparr>ba_stages = replicate n Created, ba_free = bc_parallel bc, ba_cancel = False, ba_open = True,
                     ba_results = [], ba_completed = 0, ba_failed = 0, ba_cancelled = 0\<rparr>"

definition set_stage :: "nat \<Rightarrow> job_stage \<Rightarrow> batch \<Rightarrow> batch" where
  "set_stage i s b = b\<lparr>ba_stages := (ba_stages b)[i := s]\<rparr>"

definition stage_at :: "batch \<Rightarrow> nat \<Rightarrow> job_stage \<Rightarrow> bool" where
  "stage_at b i s \<longleftrightarrow> i < length (ba_stages b) \<and> ba_stages b ! i = s"

text \<open>The body of the loop of \<open>process\<close>; \<open>has_cancel\<close> says that a cancel event was given.\<close>

definition collect_result :: "batch_config \<Rightarrow> bool \<Rightarrow> job_result \<Rightarrow> batch \<Rightarrow> batch" where
  "collect_result bc has_cancel r b =
     (let b1 = b\<lparr>ba_results := ba_results b @ [r]\<rparr>;
          b2 = (case jr_status r of
                  COMPLETED \<Rightarrow> b1\<lparr>ba_completed := ba_completed b + 1\<rparr>
                | FAILED \<Rightarrow> b1\<lparr>ba_failed := ba_failed b + 1\<rparr>
                | CANCELLED \<Rightarrow> b1\<lparr>ba_cancelled := ba_cancelled b + 1\<rparr>
                | _ \<Rightarrow> b1)
      in if \<not> bc_continue bc \<and> jr_status r = FAILED
         then b2\<lparr>ba_cancel := ba_cancel b \<or> has_cancel, ba_open := False\<rparr>
         else b2)"

inductive batch_step :: "(nat \<Rightarrow> job_result \<Rightarrow> bool) \<Rightarrow> batch_config \<Rightarrow> bool \<Rightarrow> batch \<Rightarrow> batch \<Rightarrow> bool"
  for run bc has_cancel where
  job_skipped: "stage_at b i Created \<Longrightarrow> ba_cancel b \<Longrightarrow>
    batch_step run bc has_cancel b (set_stage i (Ended (plain_result CANCELLED None)) b)"
| job_begins: "stage_at b i Created \<Longrightarrow> \<not> ba_cancel b \<Longrightarrow>
    batch_step run bc has_cancel b (set_stage i Waiting b)"
| job_acquires: "stage_at b i Waiting \<Longrightarrow> 0 < ba_free b \<Longrightarrow>
    batch_step run bc has_cancel b (set_stage i Working b\<lparr>ba_free := ba_free b - 1\<rparr>)"
| job_ends: "stage_at b i Working \<Longrightarrow> run i r \<Longrightarrow>
    batch_step run bc has_cancel b (set_stage i (Ended r) b\<lparr>ba_free := ba_free b + 1\<rparr>)"
| job_gathered: "stage_at b i (Ended r) \<Longrightarrow> ba_open b \<Longrightarrow>
    batch_step run bc has_cancel b (collect_result bc has_cancel r (set_stage i Gathered b))"
| cancel_is_set: "has_cancel \<Longrightarrow> batch_step run bc has_cancel b (b\<lparr>ba_cancel := True\<rparr>)"

inductive_cases batch_stepE: "batch_step run bc has_cancel b b'"

subsection \<open>Facts on batches\<close>

definition in_stage :: "(job_stage \<Rightarrow> bool) \<Rightarrow> batch \<Rightarrow> nat" where
  "in_stage P b = length (filter P (ba_stages b))"

lemma filter_update_count:
  "i < length xs \<Longrightarrow> length (filter P (xs[i := y])) + of_bool (P (xs ! i)) = length (filter P xs) + of_bool (P y)"
proof (induction xs arbitrary: i)
  case (Cons x xs)
  then show ?case by (cases i) auto
qed simp

lemma in_stage_set:
  assumes "stage_at b i s"
  shows "in_stage P (set_stage i t b) + of_bool (P s) = in_stage P b + of_bool (P t)"
  using assms filter_update_count [of i "ba_stages b" P t] by (auto simp: stage_at_def in_stage_def set_stage_def)

lemma in_stage_pos: "stage_at b i s \<Longrightarrow> P s \<Longrightarrow> 0 < in_stage P b"
  unfolding stage_at_def in_stage_def by (auto intro: filter_False simp: filter_empty_conv)

lemma in_stage_simps [simp]:
  "in_stage P (b\<lparr>ba_free := f\<rparr>) = in_stage P b" "in_stage P (b\<lparr>ba_cancel := c\<rparr>) = in_stage P b"
  "in_stage P (collect_result bc hc r b) = in_stage P b"
  by (auto simp: in_stage_def collect_result_def Let_def split: job_status.splits)

lemma set_stage_simps [simp]:
  "ba_free (set_stage i s b) = ba_free b" "ba_cancel (set_stage i s b) = ba_cancel b" "ba_open (set_stage i s b) = ba_open b"
  "ba_results (set_stage i s b) = ba_results b" "ba_completed (set_stage i s b) = ba_completed b"
  "ba_failed (set_stage i s b) = ba_failed b" "ba_cancelled (set_stage i s b) = ba_cancelled b"
  "ba_stages (set_stage i s b) = (ba_stages b)[i := s]"
  by (simp_all add: set_stage_def)

definition with_status :: "job_status \<Rightarrow> job_result list \<Rightarrow> nat" where
  "with_status s rs = length (filter (\<lambda>r. jr_status r = s) rs)"

definition batch_accounts :: "batch_config \<Rightarrow> nat \<Rightarrow> batch \<Rightarrow> bool" where
  "batch_accounts bc n b \<longleftrightarrow>
     length (ba_stages b) = n \<and> ba_free b + in_stage ((=) Working) b = bc_parallel bc \<and>
     length (ba_results b) = in_stage ((=) Gathered) b \<and>
     ba_completed b = with_status COMPLETED (ba_results b) \<and> ba_failed b = with_status FAILED (ba_results b) \<and>
     ba_cancelled b = with_status CANCELLED (ba_results b)"

lemma collect_result_simps [simp]:
  "ba_stages (collect_result bc hc r b) = ba_stages b" "ba_free (collect_result bc hc r b) = ba_free b"
  "ba_results (collect_result bc hc r b) = ba_results b @ [r]"
  "ba_completed (collect_result bc hc r b) = ba_completed b + of_bool (jr_status r = COMPLETED)"
  "ba_failed (collect_result bc hc r b) = ba_failed b + of_bool (jr_status r = FAILED)"
  "ba_cancelled (collect_result bc hc r b) = ba_cancelled b + of_bool (jr_status r = CANCELLED)"
  "ba_open (collect_result bc hc r b) \<longleftrightarrow> ba_open b \<and> (bc_continue bc \<or> jr_status r \<noteq> FAILED)"
  by (auto simp: collect_result_def Let_def split: job_status.splits)

lemma batch_step_accounts:
  assumes "batch_step run bc has_cancel b b'" "batch_accounts bc n b"
  shows "batch_accounts bc n b'"
  using assms(1)
proof cases
  case (job_skipped i)
  then show ?thesis using assms(2) in_stage_set [OF job_skipped(2), of "(=) Working" "Ended (plain_result CANCELLED None)"] in_stage_set [OF job_skipped(2), of "(=) Gathered" "Ended (plain_result CANCELLED None)"]
    by (simp add: batch_accounts_def)
next
  case (job_begins i)
  then show ?thesis using assms(2) in_stage_set [OF job_begins(2), of "(=) Working" "Waiting"] in_stage_set [OF job_begins(2), of "(=) Gathered" "Waiting"]
    by (simp add: batch_accounts_def)
next
  case (job_acquires i)
  then show ?thesis using assms(2) in_stage_set [OF job_acquires(2), of "(=) Working" "Working"] in_stage_set [OF job_acquires(2), of "(=) Gathered" "Working"]
    by (simp add: batch_accounts_def)
next
  case (job_ends i r)
  then show ?thesis using assms(2) in_stage_set [OF job_ends(2), of "(=) Working" "Ended r"] in_stage_set [OF job_ends(2), of "(=) Gathered" "Ended r"]
    by (simp add: batch_accounts_def)
next
  case (job_gathered i r)
  then show ?thesis using assms(2) in_stage_set [OF job_gathered(2), of "(=) Working" "Gathered"] in_stage_set [OF job_gathered(2), of "(=) Gathered" "Gathered"]
    by (simp add: batch_accounts_def with_status_def)
next
  case cancel_is_set
  then show ?thesis using assms(2) by (simp add: batch_accounts_def)
qed

lemma new_batch_accounts: "batch_accounts bc n (new_batch bc n)"
  by (simp add: batch_accounts_def new_batch_def in_stage_def with_status_def)

lemma batch_run_accounts:
  "(batch_step run bc has_cancel)\<^sup>*\<^sup>* (new_batch bc n) b \<Longrightarrow> batch_accounts bc n b"
  by (induction rule: rtranclp_induct) (auto intro: new_batch_accounts batch_step_accounts)

text \<open>Results of a batch, when every job ends with a finished status.\<close>

locale job_runner =
  fixes run :: "nat \<Rightarrow> job_result \<Rightarrow> bool"
  assumes run_terminal: "run i r \<Longrightarrow> terminal_status (jr_status r)"
begin

definition settled :: "batch \<Rightarrow> bool" where
  "settled b \<longleftrightarrow> (\<forall>i r. stage_at b i (Ended r) \<longrightarrow> terminal_status (jr_status r)) \<and>
     (\<forall>r \<in> set (ba_results b). terminal_status (jr_status r))"

lemma step_settled: "batch_step run bc has_cancel b b' \<Longrightarrow> settled b \<Longrightarrow> settled b'"
proof (induction rule: batch_step.induct)
  case (job_gathered b i r)
  then show ?case by (auto simp: settled_def stage_at_def nth_list_update split: if_splits)
next
  case (job_ends b i r)
  then show ?case using run_terminal [of i r] by (auto simp: settled_def stage_at_def nth_list_update split: if_splits)
qed (auto simp: settled_def stage_at_def nth_list_update plain_result_def terminal_status_def split: if_splits)

lemma run_settled: "(batch_step run bc has_cancel)\<^sup>*\<^sup>* (new_batch bc n) b \<Longrightarrow> settled b"
proof (induction rule: rtranclp_induct)
  case base
  show ?case by (auto simp: settled_def stage_at_def new_batch_def)
qed (rule step_settled)

lemma results_by_status:
  assumes "(batch_step run bc has_cancel)\<^sup>*\<^sup>* (new_batch bc n) b"
  shows "with_status COMPLETED (ba_results b) + with_status FAILED (ba_results b) + with_status CANCELLED (ba_results b) +
    with_status TIMED_OUT (ba_results b) = length (ba_results b)"
proof -
  have "\<forall>r \<in> set rs. terminal_status (jr_status r) \<Longrightarrow>
    with_status COMPLETED rs + with_status FAILED rs + with_status CANCELLED rs + with_status TIMED_OUT rs = length rs" for rs
    by (induction rs) (auto simp: with_status_def terminal_status_def)
  with run_settled [OF assms] show ?thesis by (simp add: settled_def)
qed

end

text \<open>The jobs of a list, as the batch runs them.\<close>

definition job_runs ::
  "'w service \<Rightarrow> (da_payload \<Rightarrow> string) \<Rightarrow> (cloud_error \<Rightarrow> string) \<Rightarrow> batch_config \<Rightarrow> job_config list \<Rightarrow> nat \<Rightarrow> job_result \<Rightarrow> bool" where
  "job_runs S render msg bc jobs i r \<longleftrightarrow> (\<exists>st st'. run_with_retry S render msg bc (jobs ! i) st = Some (r, st'))"

lemma poll_loop_result:
  assumes "poll_loop S j timeout poll start st = Some y"
  shows "fst y = Inr r \<longrightarrow> terminal_status (jr_status r)"
proof (rule poll_loop.raw_induct [where P = "\<lambda>S j timeout poll start st y. fst y = Inr r \<longrightarrow> terminal_status (jr_status r)",
      OF _ assms], goal_cases)
  case (1 loop S j timeout poll start st y)
  have again: "loop S j timeout poll start st' = Some y \<Longrightarrow> fst y = Inr r \<longrightarrow> terminal_status (jr_status r)" for st'
    by (rule 1(1))
  from 1(2) again show ?case
    by (auto simp: job_outcome_def Let_def split: if_splits prod.splits sum.splits)
qed

lemma retry_loop_result:
  "job_retry_loop S render msg bc cfg n err st = Some (r, st') \<Longrightarrow> terminal_status (jr_status r)"
proof (induction n arbitrary: err st)
  case 0
  then show ?case by (auto simp: plain_result_def terminal_status_def)
next
  case (Suc n)
  obtain x st1 where t: "try_job S render cfg st = Some (x, st1)" using Suc.prems by (cases "try_job S render cfg st") auto
  show ?case
  proof (cases x)
    case (Inr y)
    then have "r = y" using Suc.prems t by simp
    moreover obtain j st2 where "wait_for_completion S j (jc_timeout cfg) default_poll st2 = Some (x, st1)"
      using t Inr by (auto simp: try_job_def split: prod.splits sum.splits)
    ultimately show ?thesis using poll_loop_result Inr by (fastforce simp: wait_for_completion_def)
  qed (use Suc t in \<open>auto simp: plain_result_def terminal_status_def split: if_splits\<close>)
qed

interpretation jobs: job_runner "job_runs S render msg bc jobs" for S render msg bc jobs
  by unfold_locales (auto simp: job_runs_def run_with_retry_def intro: retry_loop_result)


subsection \<open>Batches can finish\<close>

fun stage_weight :: "job_stage \<Rightarrow> nat" where
  "stage_weight Created = 4"
| "stage_weight Waiting = 3"
| "stage_weight Working = 2"
| "stage_weight (Ended r) = 1"
| "stage_weight Gathered = 0"

definition batch_weight :: "batch \<Rightarrow> nat" where
  "batch_weight b = sum_list (map stage_weight (ba_stages b))"

lemma batch_weight_set:
  assumes "stage_at b i s" "stage_weight t < stage_weight s"
  shows "batch_weight (set_stage i t b) < batch_weight b"
proof -
  have "i < length xs \<Longrightarrow> f y < f (xs ! i) \<Longrightarrow> sum_list (map f (xs[i := y])) < sum_list (map f xs)"
    for f :: "job_stage \<Rightarrow> nat" and xs y
    by (induction xs arbitrary: i) (auto simp: nth_Cons split: nat.splits)
  with assms show ?thesis by (auto simp: stage_at_def batch_weight_def)
qed

lemma batch_weight_simps [simp]:
  "batch_weight (b\<lparr>ba_free := f\<rparr>) = batch_weight b" "batch_weight (collect_result bc hc r b) = batch_weight b"
  by (simp_all add: batch_weight_def)

lemma batch_progress:
  assumes "batch_accounts bc n b" "0 < bc_parallel bc" "\<And>i. \<exists>r. run i r" "ba_open b" "stage_at b i s" "s \<noteq> Gathered"
  shows "\<exists>b'. batch_step run bc has_cancel b b' \<and> batch_weight b' < batch_weight b"
proof (cases s)
  case Created
  show ?thesis
  proof (cases "ba_cancel b")
    case True
    then show ?thesis using job_skipped batch_weight_set assms(5) Created by fastforce
  next
    case False
    then show ?thesis using job_begins batch_weight_set assms(5) Created by fastforce
  qed
next
  case Waiting
  show ?thesis
  proof (cases "0 < ba_free b")
    case True
    then show ?thesis
      using job_acquires [of b i] batch_weight_set [OF assms(5), of Working] assms(5) Waiting by fastforce
  next
    case False
    then have "0 < in_stage ((=) Working) b" using assms(1,2) by (simp add: batch_accounts_def)
    then obtain k where k: "stage_at b k Working"
      unfolding in_stage_def length_greater_0_conv filter_empty_conv stage_at_def by (auto simp: in_set_conv_nth)
    obtain r where "run k r" using assms(3) by blast
    then show ?thesis using job_ends [OF k] batch_weight_set [OF k, of "Ended r"] by fastforce
  qed
next
  case Working
  obtain r where "run i r" using assms(3) by blast
  then show ?thesis using job_ends [of b i run r] batch_weight_set [OF assms(5), of "Ended r"] assms(5) Working by fastforce
next
  case (Ended r)
  then show ?thesis using job_gathered [of b i r] batch_weight_set [OF assms(5), of Gathered] assms(4,5) by fastforce
qed (use assms(6) in simp)

lemma batch_finishes_from:
  assumes "0 < bc_parallel bc" "\<And>i. \<exists>r. run i r"
  shows "batch_accounts bc n b \<Longrightarrow>
    \<exists>b'. (batch_step run bc has_cancel)\<^sup>*\<^sup>* b b' \<and> (ba_open b' \<longrightarrow> length (ba_results b') = n)"
proof (induction "batch_weight b" arbitrary: b rule: less_induct)
  case less
  show ?case
  proof (cases "ba_open b \<and> (\<exists>i s. stage_at b i s \<and> s \<noteq> Gathered)")
    case True
    then obtain b1 where s: "batch_step run bc has_cancel b b1" "batch_weight b1 < batch_weight b"
      using batch_progress [OF less.prems assms(1), where run = run and has_cancel = has_cancel] assms(2) by blast
    from less.hyps [OF s(2) batch_step_accounts [OF s(1) less.prems]]
    obtain b2 where "(batch_step run bc has_cancel)\<^sup>*\<^sup>* b1 b2" "ba_open b2 \<longrightarrow> length (ba_results b2) = n" by blast
    then show ?thesis using converse_rtranclp_into_rtranclp [of "batch_step run bc has_cancel", OF s(1)] by blast
  next
    case False
    then have "ba_open b \<Longrightarrow> \<forall>s \<in> set (ba_stages b). s = Gathered" by (auto simp: stage_at_def in_set_conv_nth)
    then have "ba_open b \<Longrightarrow> in_stage ((=) Gathered) b = length (ba_stages b)" by (auto simp: in_stage_def intro!: arg_cong [of _ _ length] filter_True)
    then show ?thesis using less.prems by (auto simp: batch_accounts_def)
  qed
qed

text \<open>
  A batch with a positive \<open>max_parallel\<close> can always go on until \<open>process\<close> has a result for every job
  or stopped at a failed one.
\<close>

lemma batch_can_finish:
  assumes "service_advances S" "0 < bc_parallel bc"
    "(batch_step (job_runs S render msg bc jobs) bc has_cancel)\<^sup>*\<^sup>* (new_batch bc (length jobs)) b"
  shows "\<exists>b'. (batch_step (job_runs S render msg bc jobs) bc has_cancel)\<^sup>*\<^sup>* b b' \<and>
    (ba_open b' \<longrightarrow> length (ba_results b') = length jobs)"
proof (rule batch_finishes_from [OF assms(2)])
  show "\<exists>r. job_runs S render msg bc jobs i r" for i
    using run_with_retry_ends [OF assms(1)] unfolding job_runs_def by blast
  show "batch_accounts bc (length jobs) b" by (rule batch_run_accounts [OF assms(3)])
qed


lemma batch_can_finish_witness:
  "\<exists>b'. (batch_step (job_runs status_service (\<lambda>p. []) (\<lambda>e. []) sample_batch [sample_job, sample_job]) sample_batch True)\<^sup>*\<^sup>*
     (new_batch sample_batch (length [sample_job, sample_job])) b' \<and> (ba_open b' \<longrightarrow> length (ba_results b') = length [sample_job, sample_job])"
  by (rule batch_can_finish [OF status_service_advances _ rtranclp.rtrancl_refl]) (simp add: sample_batch_def)

subsection \<open>Jobs that start although the batch was stopped\<close>

text \<open>Two jobs and one permit: the first runs to its end while the second waits for the permit.\<close>

lemma two_jobs_run:
  assumes "bc_parallel bc = 1" "run 0 r"
  shows "(batch_step run bc hc)\<^sup>*\<^sup>* (new_batch bc 2)
    \<lparr>ba_stages = [Ended r, Waiting], ba_free = 1, ba_cancel = False, ba_open = True, ba_results = [],
     ba_completed = 0, ba_failed = 0, ba_cancelled = 0\<rparr>"
proof -
  let ?b = "\<lambda>f ss. \<lparr>ba_stages = ss, ba_free = f, ba_cancel = False, ba_open = True, ba_results = [],
     ba_completed = 0, ba_failed = 0, ba_cancelled = 0\<rparr>"
  have 1: "batch_step run bc hc (?b 1 [Created, Created]) (?b 1 [Waiting, Created])"
    using job_begins [of "?b 1 [Created, Created]" 0 run bc hc] by (simp add: stage_at_def set_stage_def)
  have 2: "batch_step run bc hc (?b 1 [Waiting, Created]) (?b 0 [Working, Created])"
    using job_acquires [of "?b 1 [Waiting, Created]" 0 run bc hc] by (simp add: stage_at_def set_stage_def)
  have 3: "batch_step run bc hc (?b 0 [Working, Created]) (?b 0 [Working, Waiting])"
    using job_begins [of "?b 0 [Working, Created]" 1 run bc hc] by (simp add: stage_at_def set_stage_def)
  have 4: "batch_step run bc hc (?b 0 [Working, Waiting]) (?b 1 [Ended r, Waiting])"
    using job_ends [of "?b 0 [Working, Waiting]" 0 run r bc hc] assms(2) by (simp add: stage_at_def set_stage_def)
  have "new_batch bc 2 = ?b 1 [Created, Created]" using assms(1) by (simp add: new_batch_def numeral_2_eq_2)
  with 1 2 3 4 show ?thesis by (metis (no_types, lifting) converse_rtranclp_into_rtranclp r_into_rtranclp)
qed

text \<open>The cancel event is read before the permit is awaited: a job that waits starts although the event is set.\<close>

lemma job_starts_after_cancel:
  assumes "bc_parallel bc = 1" "run 0 r"
  shows "\<exists>b b'. (batch_step run bc True)\<^sup>*\<^sup>* (new_batch bc 2) b \<and> ba_cancel b \<and> batch_step run bc True b b' \<and>
    in_stage ((=) Working) b = 0 \<and> in_stage ((=) Working) b' = 1"
proof (intro exI conjI)
  let ?b = "\<lambda>c. \<lparr>ba_stages = [Ended r, Waiting], ba_free = 1, ba_cancel = c, ba_open = True, ba_results = [],
     ba_completed = 0, ba_failed = 0, ba_cancelled = 0\<rparr>"
  have "batch_step run bc True (?b False) (?b True)" using cancel_is_set [of True run bc "?b False"] by simp
  with two_jobs_run [where bc = bc and run = run and r = r, OF assms, of True]
  show "(batch_step run bc True)\<^sup>*\<^sup>* (new_batch bc 2) (?b True)" by (rule rtranclp.rtrancl_into_rtrancl)
  show "batch_step run bc True (?b True) (set_stage 1 Working (?b True)\<lparr>ba_free := 0\<rparr>)"
    using job_acquires [of "?b True" 1 run bc True] by (simp add: stage_at_def)
qed (simp_all add: in_stage_def set_stage_def)

lemma job_starts_after_cancel_witness:
  "\<exists>b b'. (batch_step (\<lambda>i r. r = plain_result COMPLETED None) (sample_batch\<lparr>bc_parallel := 1\<rparr>) True)\<^sup>*\<^sup>*
     (new_batch (sample_batch\<lparr>bc_parallel := 1\<rparr>) 2) b \<and> ba_cancel b \<and>
     batch_step (\<lambda>i r. r = plain_result COMPLETED None) (sample_batch\<lparr>bc_parallel := 1\<rparr>) True b b' \<and>
     in_stage ((=) Working) b = 0 \<and> in_stage ((=) Working) b' = 1"
  by (rule job_starts_after_cancel [where r = "plain_result COMPLETED None"]) simp_all

text \<open>\<open>process\<close> stops collecting at a failed job, but the tasks go on: the next job is still submitted.\<close>

lemma job_starts_after_failure:
  assumes "bc_parallel bc = 1" "\<not> bc_continue bc" "run 0 r" "jr_status r = FAILED"
  shows "\<exists>b b'. (batch_step run bc False)\<^sup>*\<^sup>* (new_batch bc 2) b \<and> \<not> ba_open b \<and> batch_step run bc False b b' \<and>
    in_stage ((=) Working) b = 0 \<and> in_stage ((=) Working) b' = 1"
proof (intro exI conjI)
  let ?b = "\<lparr>ba_stages = [Ended r, Waiting], ba_free = 1, ba_cancel = False, ba_open = True, ba_results = [],
     ba_completed = 0, ba_failed = 0, ba_cancelled = 0\<rparr>"
  let ?c = "\<lparr>ba_stages = [Gathered, Waiting], ba_free = 1, ba_cancel = False, ba_open = False, ba_results = [r],
     ba_completed = 0, ba_failed = 1, ba_cancelled = 0\<rparr>"
  have "batch_step run bc False ?b ?c"
    using job_gathered [of ?b 0 r run bc False] assms(2,4)
    by (simp add: stage_at_def set_stage_def collect_result_def Let_def)
  with two_jobs_run [where bc = bc and run = run and r = r, OF assms(1,3), of False]
  show "(batch_step run bc False)\<^sup>*\<^sup>* (new_batch bc 2) ?c" by (rule rtranclp.rtrancl_into_rtrancl)
  show "batch_step run bc False ?c (set_stage 1 Working ?c\<lparr>ba_free := 0\<rparr>)"
    using job_acquires [of ?c 1 run bc False] by (simp add: stage_at_def)
qed (simp_all add: in_stage_def set_stage_def)

lemma job_starts_after_failure_witness:
  "\<exists>b b'. (batch_step (\<lambda>i r. r = plain_result FAILED None) (sample_batch\<lparr>bc_parallel := 1, bc_continue := False\<rparr>) False)\<^sup>*\<^sup>*
     (new_batch (sample_batch\<lparr>bc_parallel := 1, bc_continue := False\<rparr>) 2) b \<and> \<not> ba_open b \<and>
     batch_step (\<lambda>i r. r = plain_result FAILED None) (sample_batch\<lparr>bc_parallel := 1, bc_continue := False\<rparr>) False b b' \<and>
     in_stage ((=) Working) b = 0 \<and> in_stage ((=) Working) b' = 1"
  by (rule job_starts_after_failure [where r = "plain_result FAILED None"]) (simp_all add: plain_result_def)

end
