(* ===== verification/Mcp_Server.thy ===== *)
theory Mcp_Server
  imports Prelude Complex_Main "HOL-Library.Char_ord" "HOL-Library.List_Lexorder"
begin

text \<open>
  The server for AI clients (\<open>ai/\<close>): JSON-RPC messages, the tool registry, the safety guard, the
  prompt library and the dispatch of messages.

  A message is the JSON value that \<open>json.loads\<close> gives, or the text of the error it raises. Python's
  \<open>str\<close> of a value, the text of an exception that Python itself raises, and the rendering of a
  template by Jinja are the arguments in the record \<open>texts\<close>. A tool handler acts on a world of any
  type and may raise. Execution times, the sockets and log calls are left out.
\<close>

subsection \<open>JSON and messages\<close>

datatype json = J_Null | J_Bool bool | J_Num rat | J_Str string | J_Arr "json list" | J_Obj "(string \<times> json) list"

fun json_true :: "json \<Rightarrow> bool" where
  "json_true J_Null = False"
| "json_true (J_Bool b) = b"
| "json_true (J_Num n) = (n \<noteq> 0)"
| "json_true (J_Str s) = (s \<noteq> [])"
| "json_true (J_Arr xs) = (xs \<noteq> [])"
| "json_true (J_Obj d) = (d \<noteq> [])"

definition field_or :: "json \<Rightarrow> (string, json) dict \<Rightarrow> string \<Rightarrow> json" where
  "field_or x d k = (case map_of d k of None \<Rightarrow> x | Some y \<Rightarrow> y)"

text \<open>A name between single quotes, and what stands before and after it.\<close>

definition in_quotes :: "string \<Rightarrow> string \<Rightarrow> string \<Rightarrow> string" where
  "in_quotes a n b = a @ [char_of (39 :: nat)] @ n @ [char_of (39 :: nat)] @ b"

datatype message =
    Request (msg_rpc: json) (msg_id: json) (msg_method: json) (msg_params: json)
  | Reply (msg_rpc: json) (msg_id: json) (msg_result: json) (msg_error: json)
  | Notification (msg_rpc: json) (msg_method: json) (msg_params: json)

definition params_part :: "json \<Rightarrow> (string, json) dict" where
  "params_part p = (if json_true p then [(''params'', p)] else [])"

fun message_to_json :: "message \<Rightarrow> json" where
  "message_to_json (Request rpc i m p) = J_Obj ([(''jsonrpc'', rpc), (''id'', i), (''method'', m)] @ params_part p)"
| "message_to_json (Reply rpc i r e) =
     J_Obj ([(''jsonrpc'', rpc), (''id'', i)] @ (if e \<noteq> J_Null then [(''error'', e)] else [(''result'', r)]))"
| "message_to_json (Notification rpc m p) = J_Obj ([(''jsonrpc'', rpc), (''method'', m)] @ params_part p)"

fun message_from_json :: "json \<Rightarrow> string + message" where
  "message_from_json (J_Obj d) =
     (let rpc = field_or (J_Str ''2.0'') d ''jsonrpc''; i = field_or J_Null d ''id'' in
      if map_of d ''result'' \<noteq> None \<or> map_of d ''error'' \<noteq> None
      then Inr (Reply rpc i (field_or J_Null d ''result'') (field_or J_Null d ''error''))
      else let m = field_or J_Null d ''method''; p = field_or (J_Obj []) d ''params'' in
        if m = J_Null then Inl (''Cannot determine message type: missing '' @ in_quotes [] ''method'' '', '' @ in_quotes [] ''result'' '', and '' @ in_quotes [] ''error'' [])
        else if i \<noteq> J_Null then Inr (Request rpc i m p)
        else Inr (Notification rpc m p))"
| "message_from_json _ = Inl ''Expected a JSON object''"

subsection \<open>Tools\<close>

datatype tool_category = QUERY | MODIFY | ANALYZE | EXPORT

fun category_value :: "tool_category \<Rightarrow> string" where
  "category_value QUERY = ''query''"
| "category_value MODIFY = ''modify''"
| "category_value ANALYZE = ''analyze''"
| "category_value EXPORT = ''export''"

datatype parameter_type = PT_STRING | PT_INTEGER | PT_NUMBER | PT_BOOLEAN | PT_ARRAY | PT_OBJECT

fun parameter_type_value :: "parameter_type \<Rightarrow> string" where
  "parameter_type_value PT_STRING = ''string''"
| "parameter_type_value PT_INTEGER = ''integer''"
| "parameter_type_value PT_NUMBER = ''number''"
| "parameter_type_value PT_BOOLEAN = ''boolean''"
| "parameter_type_value PT_ARRAY = ''array''"
| "parameter_type_value PT_OBJECT = ''object''"

record tool_parameter =
  tp_name :: string
  tp_type :: parameter_type
  tp_description :: string
  tp_required :: bool
  tp_default :: json

record tool_definition =
  tdef_name :: string
  tdef_description :: string
  tdef_category :: tool_category
  tdef_parameters :: "tool_parameter list"
  tdef_returns :: string

datatype tool_status = SUCCESS | ERROR | DENIED

record tool_result =
  tr_status :: tool_status
  tr_data :: json
  tr_error :: "string option"

type_synonym 'w tool_handler = "json \<Rightarrow> 'w \<Rightarrow> (string + json) \<times> 'w"
type_synonym 'w tools = "(string, tool_definition \<times> 'w tool_handler) dict"

record texts =
  tx_str :: "json \<Rightarrow> string"
  tx_type_error :: string
  tx_render :: "string \<Rightarrow> json \<Rightarrow> (bool \<times> string) + string"

definition register_tool :: "tool_definition \<Rightarrow> 'w tool_handler \<Rightarrow> 'w tools \<Rightarrow> 'w tools" where
  "register_tool d h T = AList.update (tdef_name d) (d, h) T"

definition find_tool :: "string \<Rightarrow> 'w tools \<Rightarrow> tool_definition option" where
  "find_tool n T = map_option fst (map_of T n)"

definition list_tools :: "'w tools \<Rightarrow> tool_definition list" where
  "list_tools T = map (fst \<circ> snd) T"

text \<open>Python's \<open>name in arguments\<close>, which raises unless the value is a container.\<close>

fun in_arguments :: "string \<Rightarrow> json \<Rightarrow> bool option" where
  "in_arguments n (J_Obj d) = Some (map_of d n \<noteq> None)"
| "in_arguments n (J_Arr xs) = Some (J_Str n \<in> set xs)"
| "in_arguments n (J_Str s) = Some (substring n s)"
| "in_arguments n _ = None"

fun missing_parameters :: "tool_parameter list \<Rightarrow> json \<Rightarrow> string list option" where
  "missing_parameters [] args = Some []"
| "missing_parameters (p # ps) args =
     (if tp_required p
      then (case in_arguments (tp_name p) args of
              None \<Rightarrow> None
            | Some b \<Rightarrow> map_option (\<lambda>ns. if b then ns else tp_name p # ns) (missing_parameters ps args))
      else missing_parameters ps args)"

fun comma_join :: "string list \<Rightarrow> string" where
  "comma_join [] = []"
| "comma_join [x] = x"
| "comma_join (x # y # ys) = x @ '', '' @ comma_join (y # ys)"

text \<open>A handler is called with keyword arguments: a value that is not a mapping raises.\<close>

definition call_handler :: "texts \<Rightarrow> 'w tool_handler \<Rightarrow> 'w tool_handler" where
  "call_handler X h args w = (case args of J_Obj d \<Rightarrow> h args w | _ \<Rightarrow> (Inl (tx_type_error X), w))"

definition execute_tool :: "texts \<Rightarrow> string \<Rightarrow> json \<Rightarrow> 'w tools \<Rightarrow> 'w \<Rightarrow> (string + tool_result) \<times> 'w" where
  "execute_tool X n args T w =
     (case map_of T n of
        None \<Rightarrow> (Inr \<lparr>tr_status = ERROR, tr_data = J_Null, tr_error = Some (''Unknown tool: '' @ n)\<rparr>, w)
      | Some (d, h) \<Rightarrow>
          (case missing_parameters (tdef_parameters d) args of
             None \<Rightarrow> (Inl (tx_type_error X), w)
           | Some (m # ms) \<Rightarrow>
               (Inr \<lparr>tr_status = ERROR, tr_data = J_Null, tr_error = Some (''Missing required parameters: '' @ comma_join (m # ms))\<rparr>, w)
           | Some [] \<Rightarrow>
               (case call_handler X h args w of
                  (Inr x, w1) \<Rightarrow> (Inr \<lparr>tr_status = SUCCESS, tr_data = x, tr_error = None\<rparr>, w1)
                | (Inl e, w1) \<Rightarrow> (Inl (in_quotes ''Tool '' n '' failed: '' @ e), w1))))"

definition parameter_schema :: "tool_parameter \<Rightarrow> json" where
  "parameter_schema p =
     J_Obj ([(''type'', J_Str (parameter_type_value (tp_type p))), (''description'', J_Str (tp_description p))] @
            (if tp_default p \<noteq> J_Null then [(''default'', tp_default p)] else []))"

definition tool_schema :: "tool_definition \<Rightarrow> json" where
  "tool_schema d =
     (let props = fold (\<lambda>p. AList.update (tp_name p) (parameter_schema p)) (tdef_parameters d) [];
          req = map tp_name (filter tp_required (tdef_parameters d))
      in J_Obj [(''name'', J_Str (tdef_name d)), (''description'', J_Str (tdef_description d)),
                (''inputSchema'', J_Obj ([(''type'', J_Str ''object''), (''properties'', J_Obj props)] @
                   (if req \<noteq> [] then [(''required'', J_Arr (map J_Str req))] else [])))])"

definition to_mcp_tool_list :: "'w tools \<Rightarrow> json list" where
  "to_mcp_tool_list T = map (tool_schema \<circ> fst \<circ> snd) T"

subsection \<open>The built-in tools\<close>

text \<open>
  The arguments of a built-in handler: a required one may not be missing, an unknown one raises, and
  the others have their defaults.
\<close>

definition bind_arguments ::
  "texts \<Rightarrow> string list \<Rightarrow> (string \<times> json) list \<Rightarrow> json \<Rightarrow> string + (string \<Rightarrow> json)" where
  "bind_arguments X req opt args =
     (case args of
        J_Obj d \<Rightarrow>
          if list_all (\<lambda>n. map_of d n \<noteq> None) req \<and> list_all (\<lambda>n. n \<in> set req \<or> n \<in> set (map fst opt)) (map fst d)
          then Inr (\<lambda>n. field_or (field_or J_Null opt n) d n)
          else Inl (tx_type_error X)
      | _ \<Rightarrow> Inl (tx_type_error X))"

definition builtin_handler ::
  "texts \<Rightarrow> string list \<Rightarrow> (string \<times> json) list \<Rightarrow> bool \<Rightarrow> ((string \<Rightarrow> json) \<Rightarrow> (string, json) dict) \<Rightarrow>
   ((string \<Rightarrow> json) \<Rightarrow> (string, json) dict) \<Rightarrow> 'w tool_handler" where
  "builtin_handler X req opt has_context without_context with_context args w =
     (case bind_arguments X req opt args of
        Inl e \<Rightarrow> (Inl e, w)
      | Inr a \<Rightarrow> (Inr (J_Obj (if has_context then with_context a else without_context a)), w))"

definition plain_parameter :: "string \<Rightarrow> parameter_type \<Rightarrow> string \<Rightarrow> tool_parameter" where
  "plain_parameter n t desc = \<lparr>tp_name = n, tp_type = t, tp_description = desc, tp_required = True, tp_default = J_Null\<rparr>"

definition optional_parameter :: "string \<Rightarrow> parameter_type \<Rightarrow> string \<Rightarrow> json \<Rightarrow> tool_parameter" where
  "optional_parameter n t desc x = \<lparr>tp_name = n, tp_type = t, tp_description = desc, tp_required = False, tp_default = x\<rparr>"

definition handle_query_elements :: "texts \<Rightarrow> bool \<Rightarrow> 'w tool_handler" where
  "handle_query_elements X ctx = builtin_handler X [''category''] [(''filter'', J_Str [])] ctx
     (\<lambda>a. [(''elements'', J_Arr []), (''count'', J_Num 0), (''category'', a ''category''), (''filter'', a ''filter'')])
     (\<lambda>a. [(''elements'', J_Arr []), (''count'', J_Num 0), (''category'', a ''category'')])"

definition handle_get_element :: "texts \<Rightarrow> bool \<Rightarrow> 'w tool_handler" where
  "handle_get_element X ctx = builtin_handler X [''element_id''] [] ctx
     (\<lambda>a. [(''element_id'', a ''element_id''), (''name'', J_Str ''Placeholder''), (''category'', J_Str ''Unknown''), (''parameters'', J_Obj [])])
     (\<lambda>a. [(''element_id'', a ''element_id'')])"

definition handle_modify_parameter :: "texts \<Rightarrow> bool \<Rightarrow> 'w tool_handler" where
  "handle_modify_parameter X ctx = builtin_handler X [''element_id'', ''parameter_name'', ''value''] [] ctx
     (\<lambda>a. [(''element_id'', a ''element_id''), (''parameter_name'', a ''parameter_name''), (''old_value'', J_Null),
            (''new_value'', a ''value''), (''success'', J_Bool True)])
     (\<lambda>a. [(''success'', J_Bool True)])"

definition handle_get_quantities :: "texts \<Rightarrow> bool \<Rightarrow> 'w tool_handler" where
  "handle_get_quantities X ctx = builtin_handler X [''category''] [(''group_by'', J_Str ''type'')] ctx
     (\<lambda>a. [(''category'', a ''category''), (''group_by'', a ''group_by''), (''quantities'', J_Arr []), (''total'', J_Num 0)])
     (\<lambda>a. [(''quantities'', J_Arr []), (''total'', J_Num 0)])"

definition handle_validate_model :: "texts \<Rightarrow> bool \<Rightarrow> 'w tool_handler" where
  "handle_validate_model X ctx = builtin_handler X [] [(''checks'', J_Null)] ctx
     (\<lambda>a. [(''checks_run'', if json_true (a ''checks'') then a ''checks'' else J_Arr [J_Str ''all'']), (''issues'', J_Arr []), (''passed'', J_Bool True)])
     (\<lambda>a. [(''issues'', J_Arr []), (''passed'', J_Bool True)])"

definition handle_export_data :: "texts \<Rightarrow> bool \<Rightarrow> 'w tool_handler" where
  "handle_export_data X ctx = builtin_handler X [''category''] [(''format'', J_Str ''json'')] ctx
     (\<lambda>a. [(''category'', a ''category''), (''format'', a ''format''), (''data'', J_Arr []), (''row_count'', J_Num 0)])
     (\<lambda>a. [(''data'', J_Arr []), (''row_count'', J_Num 0)])"

definition builtin_tools :: "tool_definition list" where
  "builtin_tools =
     [\<lparr>tdef_name = ''query_elements'', tdef_description = ''Query Revit elements by category and filter'', tdef_category = QUERY,
       tdef_parameters = [plain_parameter ''category'' PT_STRING ''Element category (e.g. Walls, Doors)'',
                        optional_parameter ''filter'' PT_STRING ''Optional filter expression'' (J_Str [])],
       tdef_returns = ''List of matching elements''\<rparr>,
      \<lparr>tdef_name = ''get_element'', tdef_description = ''Get a single Revit element by ID'', tdef_category = QUERY,
       tdef_parameters = [plain_parameter ''element_id'' PT_INTEGER ''Revit element ID''],
       tdef_returns = ''Element details''\<rparr>,
      \<lparr>tdef_name = ''modify_parameter'', tdef_description = ''Modify a parameter value on a Revit element'', tdef_category = MODIFY,
       tdef_parameters = [plain_parameter ''element_id'' PT_INTEGER ''Revit element ID'',
                        plain_parameter ''parameter_name'' PT_STRING ''Parameter name to modify'',
                        plain_parameter ''value'' PT_STRING ''New parameter value''],
       tdef_returns = ''Modification result''\<rparr>,
      \<lparr>tdef_name = ''get_quantities'', tdef_description = ''Get quantity takeoff for elements'', tdef_category = ANALYZE,
       tdef_parameters = [plain_parameter ''category'' PT_STRING ''Element category for takeoff'',
                        optional_parameter ''group_by'' PT_STRING ''Property to group quantities by'' (J_Str ''type'')],
       tdef_returns = ''Quantity takeoff data''\<rparr>,
      \<lparr>tdef_name = ''validate_model'', tdef_description = ''Run validation checks on the Revit model'', tdef_category = ANALYZE,
       tdef_parameters = [optional_parameter ''checks'' PT_ARRAY ''List of validation checks to run'' J_Null],
       tdef_returns = ''Validation report''\<rparr>,
      \<lparr>tdef_name = ''export_data'', tdef_description = ''Export element data to a structured format'', tdef_category = EXPORT,
       tdef_parameters = [plain_parameter ''category'' PT_STRING ''Element category to export'',
                        optional_parameter ''format'' PT_STRING ''Export format (json, csv, xlsx)'' (J_Str ''json'')],
       tdef_returns = ''Exported data''\<rparr>]"

definition new_tools :: "texts \<Rightarrow> bool \<Rightarrow> 'w tools" where
  "new_tools X ctx =
     fold (\<lambda>(d, h). register_tool d h)
       (zip builtin_tools
         [handle_query_elements X ctx, handle_get_element X ctx, handle_modify_parameter X ctx, handle_get_quantities X ctx,
          handle_validate_model X ctx, handle_export_data X ctx]) []"

subsection \<open>The safety guard\<close>

datatype safety_mode = READ_ONLY | CAUTIOUS | FULL_ACCESS

fun safety_mode_value :: "safety_mode \<Rightarrow> string" where
  "safety_mode_value READ_ONLY = ''read_only''"
| "safety_mode_value CAUTIOUS = ''cautious''"
| "safety_mode_value FULL_ACCESS = ''full_access''"

record safety_config =
  sc_mode :: safety_mode
  sc_max_undo :: int
  sc_confirm :: "tool_category list"
  sc_blocked :: "string list"

definition default_safety :: safety_config where
  "default_safety = \<lparr>sc_mode = CAUTIOUS, sc_max_undo = 50, sc_confirm = [], sc_blocked = []\<rparr>"

record 'op safety_guard =
  sg_config :: safety_config
  sg_undo :: "'op list"

definition validate_tool_call :: "safety_config \<Rightarrow> tool_definition \<Rightarrow> string + bool" where
  "validate_tool_call c d =
     (if tdef_name d \<in> set (sc_blocked c) then Inl (in_quotes ''Tool '' (tdef_name d) '' is blocked by safety policy'')
      else if sc_mode c = READ_ONLY \<and> tdef_category d = MODIFY
      then Inl (in_quotes ''Modify tool '' (tdef_name d) '' denied in READ_ONLY mode'')
      else Inr True)"

definition preview_changes :: "safety_config \<Rightarrow> tool_definition \<Rightarrow> json \<Rightarrow> json" where
  "preview_changes c d args =
     J_Obj [(''tool'', J_Str (tdef_name d)), (''category'', J_Str (category_value (tdef_category d))), (''arguments'', args),
            (''safety_mode'', J_Str (safety_mode_value (sc_mode c))),
            (''requires_confirmation'', J_Bool (tdef_category d \<in> set (sc_confirm c))),
            (''is_blocked'', J_Bool (tdef_name d \<in> set (sc_blocked c)))]"

text \<open>\<open>None\<close> when \<open>pop(0)\<close> raises on an empty list.\<close>

definition push_undo :: "'op \<Rightarrow> 'op safety_guard \<Rightarrow> 'op safety_guard option" where
  "push_undo x g =
     (if sc_max_undo (sg_config g) \<le> int (length (sg_undo g))
      then (case sg_undo g of [] \<Rightarrow> None | _ # ys \<Rightarrow> Some (g\<lparr>sg_undo := ys @ [x]\<rparr>))
      else Some (g\<lparr>sg_undo := sg_undo g @ [x]\<rparr>))"

definition undo_last :: "'op safety_guard \<Rightarrow> 'op option \<times> 'op safety_guard" where
  "undo_last g = (if sg_undo g = [] then (None, g) else (Some (last (sg_undo g)), g\<lparr>sg_undo := butlast (sg_undo g)\<rparr>))"

subsection \<open>Prompts\<close>

type_synonym prompts = "(string, string) dict"

definition register_template :: "string \<Rightarrow> string \<Rightarrow> prompts \<Rightarrow> prompts" where
  "register_template n t P = AList.update n t P"

definition get_template :: "string \<Rightarrow> prompts \<Rightarrow> string option" where
  "get_template n P = map_of P n"

definition list_templates :: "prompts \<Rightarrow> string list" where
  "list_templates P = sort (map fst P)"

definition to_mcp_prompts_list :: "prompts \<Rightarrow> json list" where
  "to_mcp_prompts_list P =
     map (\<lambda>n. J_Obj [(''name'', J_Str n), (''description'', J_Str (''Prompt template: '' @ n)), (''arguments'', J_Arr [])]) (sort (map fst P))"

text \<open>Only a template error of Jinja is wrapped; other exceptions come out as they are.\<close>

definition render_prompt :: "texts \<Rightarrow> string \<Rightarrow> json \<Rightarrow> prompts \<Rightarrow> string + string" where
  "render_prompt X n args P =
     (case map_of P n of
        None \<Rightarrow> Inl (in_quotes ''Template '' n '' not found'')
      | Some src \<Rightarrow>
          (case tx_render X src args of
             Inr t \<Rightarrow> Inr t
           | Inl (template_error, e) \<Rightarrow> Inl (if template_error then in_quotes ''Failed to render template '' n ('': '' @ e) else e)))"

subsection \<open>The server\<close>

record 'w mcp_server =
  ms_name :: string
  ms_version :: string
  ms_tools :: "'w tools"
  ms_safety :: safety_config
  ms_prompts :: prompts

definition rpc_error :: "json \<Rightarrow> int \<Rightarrow> string \<Rightarrow> message" where
  "rpc_error i c t = Reply (J_Str ''2.0'') i J_Null (J_Obj [(''code'', J_Num (of_int c)), (''message'', J_Str t)])"

definition rpc_result :: "json \<Rightarrow> (string, json) dict \<Rightarrow> message" where
  "rpc_result i d = Reply (J_Str ''2.0'') i (J_Obj d) J_Null"

definition text_content :: "string \<Rightarrow> bool \<Rightarrow> (string, json) dict" where
  "text_content t e = [(''content'', J_Arr [J_Obj [(''type'', J_Str ''text''), (''text'', J_Str t)]]), (''isError'', J_Bool e)]"

definition handle_initialize :: "'w mcp_server \<Rightarrow> json \<Rightarrow> message" where
  "handle_initialize M i = rpc_result i
     [(''protocolVersion'', J_Str ''2024-11-05''),
      (''capabilities'', J_Obj [(''tools'', J_Obj [(''listChanged'', J_Bool True)]), (''prompts'', J_Obj [(''listChanged'', J_Bool True)])]),
      (''serverInfo'', J_Obj [(''name'', J_Str (ms_name M)), (''version'', J_Str (ms_version M))])]"

text \<open>
  What \<open>params.get(key, x)\<close> gives: raises unless the parameters are a mapping. A dictionary is
  then asked for the name, which raises for a list or a mapping.
\<close>

definition get_param :: "texts \<Rightarrow> json \<Rightarrow> string \<Rightarrow> json \<Rightarrow> string + json" where
  "get_param X p k x = (case p of J_Obj d \<Rightarrow> Inr (field_or x d k) | _ \<Rightarrow> Inl (tx_type_error X))"

fun hashable :: "json \<Rightarrow> bool" where
  "hashable (J_Arr xs) = False"
| "hashable (J_Obj d) = False"
| "hashable _ = True"

fun as_name :: "json \<Rightarrow> string option" where
  "as_name (J_Str s) = Some s"
| "as_name _ = None"

definition handle_tools_call :: "texts \<Rightarrow> 'w mcp_server \<Rightarrow> json \<Rightarrow> json \<Rightarrow> 'w \<Rightarrow> (string + message) \<times> 'w" where
  "handle_tools_call X M i p w =
     (case (get_param X p ''name'' (J_Str []), get_param X p ''arguments'' (J_Obj [])) of
        (Inr name, Inr args) \<Rightarrow>
          if \<not> hashable name then (Inl (tx_type_error X), w)
          else
            (case Option.bind (as_name name) (\<lambda>n. map_option (\<lambda>d. (n, d)) (find_tool n (ms_tools M))) of
               None \<Rightarrow> (Inr (rpc_error i (- 32602) (''Unknown tool: '' @ tx_str X name)), w)
             | Some (n, d) \<Rightarrow>
                 (case validate_tool_call (ms_safety M) d of
                    Inl e \<Rightarrow> (Inr (rpc_result i (text_content (''Safety violation: '' @ e) True)), w)
                  | Inr _ \<Rightarrow>
                      (case execute_tool X n args (ms_tools M) w of
                         (Inl e, w1) \<Rightarrow> (Inl e, w1)
                       | (Inr r, w1) \<Rightarrow> (Inr (rpc_result i (text_content (tx_str X (tr_data r)) (tr_error r \<noteq> None))), w1))))
      | (Inl e, _) \<Rightarrow> (Inl e, w)
      | (_, Inl e) \<Rightarrow> (Inl e, w))"

definition handle_prompts_get :: "texts \<Rightarrow> 'w mcp_server \<Rightarrow> json \<Rightarrow> json \<Rightarrow> string + message" where
  "handle_prompts_get X M i p =
     (case (get_param X p ''name'' (J_Str []), get_param X p ''arguments'' (J_Obj [])) of
        (Inr name, Inr args) \<Rightarrow>
          if \<not> hashable name then Inl (tx_type_error X)
          else
            (case Option.bind (as_name name) (\<lambda>n. map_option (\<lambda>s. n) (get_template n (ms_prompts M))) of
               None \<Rightarrow> Inr (rpc_error i (- 32602) (''Unknown prompt: '' @ tx_str X name))
             | Some n \<Rightarrow>
                 (case (case args of J_Obj d \<Rightarrow> render_prompt X n args (ms_prompts M) | _ \<Rightarrow> Inl (tx_type_error X)) of
                    Inl e \<Rightarrow> Inr (rpc_error i (- 32603) (''Prompt render error: '' @ e))
                  | Inr t \<Rightarrow> Inr (rpc_result i
                      [(''description'', J_Str (''Prompt: '' @ n)),
                       (''messages'', J_Arr [J_Obj [(''role'', J_Str ''user''),
                          (''content'', J_Obj [(''type'', J_Str ''text''), (''text'', J_Str t)])]])])))
      | (Inl e, _) \<Rightarrow> Inl e
      | (_, Inl e) \<Rightarrow> Inl e)"

definition handle_message :: "texts \<Rightarrow> 'w mcp_server \<Rightarrow> json \<Rightarrow> json \<Rightarrow> json \<Rightarrow> 'w \<Rightarrow> (string + message) \<times> 'w" where
  "handle_message X M i meth p w =
     (if meth = J_Str ''initialize'' then (Inr (handle_initialize M i), w)
      else if meth = J_Str ''tools/list'' then (Inr (rpc_result i [(''tools'', J_Arr (to_mcp_tool_list (ms_tools M)))]), w)
      else if meth = J_Str ''tools/call'' then handle_tools_call X M i p w
      else if meth = J_Str ''prompts/list'' then (Inr (rpc_result i [(''prompts'', J_Arr (to_mcp_prompts_list (ms_prompts M)))]), w)
      else if meth = J_Str ''prompts/get'' then (handle_prompts_get X M i p, w)
      else (Inr (rpc_error i (- 32601) (''Method not found: '' @ tx_str X meth)), w))"

text \<open>One message of a connection: what is sent back, if anything.\<close>

definition handle_raw :: "texts \<Rightarrow> 'w mcp_server \<Rightarrow> string + json \<Rightarrow> 'w \<Rightarrow> message option \<times> 'w" where
  "handle_raw X M raw w =
     (case (case raw of Inl e \<Rightarrow> Inl e | Inr x \<Rightarrow> message_from_json x) of
        Inl e \<Rightarrow> (Some (rpc_error J_Null (- 32603) e), w)
      | Inr (Request rpc i meth p) \<Rightarrow>
          (case handle_message X M i meth p w of
             (Inl e, w1) \<Rightarrow> (Some (rpc_error J_Null (- 32603) e), w1)
           | (Inr r, w1) \<Rightarrow> (Some r, w1))
      | Inr _ \<Rightarrow> (None, w))"

fun serve :: "texts \<Rightarrow> 'w mcp_server \<Rightarrow> (string + json) list \<Rightarrow> 'w \<Rightarrow> message list \<times> 'w" where
  "serve X M [] w = ([], w)"
| "serve X M (r # rs) w =
     (case handle_raw X M r w of (a, w1) \<Rightarrow>
        case serve X M rs w1 of (as, w2) \<Rightarrow> (case a of None \<Rightarrow> as | Some m \<Rightarrow> m # as, w2))"

subsection \<open>Facts on messages and the guard\<close>

definition message_ok :: "message \<Rightarrow> bool" where
  "message_ok m =
     (case m of
        Request rpc i meth p \<Rightarrow> i \<noteq> J_Null \<and> meth \<noteq> J_Null \<and> (json_true p \<or> p = J_Obj [])
      | Reply rpc i r e \<Rightarrow> e = J_Null \<or> r = J_Null
      | Notification rpc meth p \<Rightarrow> meth \<noteq> J_Null \<and> (json_true p \<or> p = J_Obj []))"

text \<open>
  A message is read back from what it is written as, when a request has an id, a method is there, the
  parameters are not an empty value other than a mapping, and a response has a result or an error.
\<close>

lemma message_roundtrip:
  assumes "message_ok m"
  shows "message_from_json (message_to_json m) = Inr m"
  using assms by (cases m) (auto simp: message_ok_def params_part_def field_or_def Let_def)

lemma message_roundtrip_witness:
  "message_from_json (message_to_json (Request (J_Str ''2.0'') (J_Num 1) (J_Str ''tools/list'') (J_Obj []))) =
   Inr (Request (J_Str ''2.0'') (J_Num 1) (J_Str ''tools/list'') (J_Obj []))"
  by (rule message_roundtrip) (simp add: message_ok_def)

text \<open>The undo stack keeps the newest operations, no more than the limit when that is positive.\<close>

definition undo_ok :: "'op safety_guard \<Rightarrow> bool" where
  "undo_ok g \<longleftrightarrow> int (length (sg_undo g)) \<le> sc_max_undo (sg_config g)"

fun push_all :: "'op list \<Rightarrow> 'op safety_guard \<Rightarrow> 'op safety_guard option" where
  "push_all [] g = Some g"
| "push_all (x # xs) g = Option.bind (push_undo x g) (push_all xs)"

lemma push_undo_newest:
  assumes "0 < sc_max_undo (sg_config g)" "undo_ok g"
  obtains g' where "push_undo x g = Some g'" "undo_ok g'" "sg_config g' = sg_config g"
    "sg_undo g' = drop (length (sg_undo g) + 1 - nat (sc_max_undo (sg_config g))) (sg_undo g @ [x])"
proof (cases "sc_max_undo (sg_config g) \<le> int (length (sg_undo g))")
  case True
  with assms obtain y ys where "sg_undo g = y # ys" by (cases "sg_undo g") auto
  moreover from this True assms(2) have "nat (sc_max_undo (sg_config g)) = Suc (length ys)" by (simp add: undo_ok_def)
  ultimately show ?thesis
    using True assms that [of "g\<lparr>sg_undo := ys @ [x]\<rparr>"] by (simp add: push_undo_def undo_ok_def)
next
  case False
  with assms that [of "g\<lparr>sg_undo := sg_undo g @ [x]\<rparr>"] show ?thesis by (simp add: push_undo_def undo_ok_def)
qed

lemma drop_drop_append:
  "drop (length (drop k xs) + 1 - n) (drop k xs @ [x]) = drop (length xs + 1 - n) (xs @ [x])" if "k = length xs - n" "0 < n"
proof (cases "length xs \<le> n")
  case False
  then have "length (drop k xs) + 1 - n = 1" "length xs + 1 - n = Suc k" using that by auto
  then show ?thesis using False that by (simp add: drop_Suc drop_tl)
qed (use that in simp)

text \<open>The stack holds the last operations that were pushed, up to a positive limit.\<close>

lemma undo_stack_is_newest:
  assumes "0 < sc_max_undo c"
  shows "\<exists>g. push_all xs \<lparr>sg_config = c, sg_undo = []\<rparr> = Some g \<and>
    sg_undo g = drop (length xs - nat (sc_max_undo c)) xs \<and>
    undo_last g = (if xs = [] then None else Some (last xs), g\<lparr>sg_undo := butlast (sg_undo g)\<rparr>)"
proof -
  let ?n = "nat (sc_max_undo c)"
  have all: "push_all (xs @ [x]) g = Option.bind (push_all xs g) (push_undo x)" for xs x and g :: "'a safety_guard"
  proof (induction xs arbitrary: g)
    case Nil
    show ?case by (cases "push_undo x g") simp_all
  next
    case (Cons a xs)
    then show ?case by (cases "push_undo a g") auto
  qed
  have "\<exists>g. push_all xs \<lparr>sg_config = c, sg_undo = []\<rparr> = Some g \<and> sg_config g = c \<and> undo_ok g \<and> sg_undo g = drop (length xs - ?n) xs"
  proof (induction xs rule: rev_induct)
    case Nil
    with assms show ?case by (simp add: undo_ok_def)
  next
    case (snoc x xs)
    then obtain g where g: "push_all xs \<lparr>sg_config = c, sg_undo = []\<rparr> = Some g" "sg_config g = c" "undo_ok g"
      "sg_undo g = drop (length xs - ?n) xs" by blast
    obtain g' where "push_undo x g = Some g'" "undo_ok g'" "sg_config g' = sg_config g"
      "sg_undo g' = drop (length (sg_undo g) + 1 - nat (sc_max_undo (sg_config g))) (sg_undo g @ [x])"
      using push_undo_newest [of g x] g assms by metis
    with g assms drop_drop_append [of "length xs - ?n" xs ?n x] show ?case by (simp add: all)
  qed
  then obtain g where g: "push_all xs \<lparr>sg_config = c, sg_undo = []\<rparr> = Some g" "sg_undo g = drop (length xs - ?n) xs" by blast
  have "undo_last g = (if xs = [] then None else Some (last xs), g\<lparr>sg_undo := butlast (sg_undo g)\<rparr>)"
  proof (cases "xs = []")
    case False
    with assms have "length xs - ?n < length xs" by simp
    with False g(2) show ?thesis by (simp add: undo_last_def last_drop)
  qed (simp add: undo_last_def g(2))
  with g show ?thesis by blast
qed

lemma undo_stack_is_newest_witness:
  "\<exists>g. push_all ''abc'' \<lparr>sg_config = default_safety\<lparr>sc_max_undo := 2\<rparr>, sg_undo = []\<rparr> = Some g \<and> sg_undo g = ''bc'' \<and>
    undo_last g = (Some CHR ''c'', g\<lparr>sg_undo := butlast (sg_undo g)\<rparr>)"
  using undo_stack_is_newest [of "default_safety\<lparr>sc_max_undo := 2\<rparr>" "''abc''"] by (simp add: default_safety_def)

lemma push_undo_without_room:
  "sc_max_undo (sg_config g) \<le> 0 \<Longrightarrow> sg_undo g = [] \<Longrightarrow> push_undo x g = None"
  by (simp add: push_undo_def)

subsection \<open>What the server runs\<close>

lemma execute_tool_world:
  assumes "\<And>d h args w. map_of T n = Some (d, h) \<Longrightarrow> snd (h args w) = w"
  shows "snd (execute_tool X n args T w) = w"
proof (cases "map_of T n")
  case None
  then show ?thesis by (simp add: execute_tool_def)
next
  case (Some dh)
  then obtain d h where dh: "map_of T n = Some (d, h)" by (cases dh) auto
  have "snd (call_handler X h args w) = w" for w
    using assms [OF dh] by (simp add: call_handler_def split: json.splits)
  then show ?thesis
    by (auto simp: execute_tool_def dh split: option.splits list.splits prod.splits sum.splits) (metis snd_conv)+
qed

lemma handle_raw_world:
  assumes "\<And>n d h b args w. map_of (ms_tools M) n = Some (d, h) \<Longrightarrow> validate_tool_call (ms_safety M) d = Inr b \<Longrightarrow> snd (h args w) = w"
  shows "snd (handle_raw X M raw w) = w"
proof -
  have call: "snd (handle_tools_call X M i p w) = w" for i p
  proof -
    have "snd (execute_tool X n args (ms_tools M) w) = w"
      if "find_tool n (ms_tools M) = Some d" "validate_tool_call (ms_safety M) d = Inr b" for n args d b
    proof (rule execute_tool_world)
      fix d' h args w
      assume "map_of (ms_tools M) n = Some (d', h)"
      with that assms [of n d' h b args w] show "snd (h args w) = w" by (simp add: find_tool_def)
    qed
    then show ?thesis
      unfolding handle_tools_call_def
      by (auto split: sum.splits option.splits prod.splits if_splits simp: bind_eq_Some_conv) (metis snd_conv)+
  qed
  have "snd (handle_message X M i meth p w) = w" for i meth p by (simp add: handle_message_def call)
  then show ?thesis
    unfolding handle_raw_def by (auto split: sum.splits message.splits prod.splits) (metis snd_conv)+
qed

text \<open>
  What the guard refuses does not run: when the handlers of the tools that it allows leave the world
  alone, so does every conversation. In read-only mode these are the tools that do not modify
  and are not blocked.
\<close>

lemma read_only_world_unchanged:
  assumes "sc_mode (ms_safety M) = READ_ONLY"
    and "\<And>n d h args w. map_of (ms_tools M) n = Some (d, h) \<Longrightarrow> tdef_category d \<noteq> MODIFY \<Longrightarrow>
      tdef_name d \<notin> set (sc_blocked (ms_safety M)) \<Longrightarrow> snd (h args w) = w"
  shows "snd (serve X M msgs w) = w"
proof (induction msgs arbitrary: w)
  case (Cons r rs)
  have "snd (handle_raw X M r w) = w"
    by (rule handle_raw_world) (use assms in \<open>auto simp: validate_tool_call_def split: if_splits\<close>)
  then show ?case using Cons.IH by (auto split: prod.splits option.splits) (metis snd_conv)+
qed simp

definition mcp_texts :: texts where
  "mcp_texts = \<lparr>tx_str = (\<lambda>x. case x of J_Null \<Rightarrow> ''None'' | _ \<Rightarrow> ''x''), tx_type_error = ''TypeError'', tx_render = \<lambda>src args. Inr src\<rparr>"

definition sample_count :: "nat tool_handler" where
  "sample_count args w = (if w = 0 then Inl ''empty model'' else Inr (J_Num (of_nat w)), w)"

definition mcp_sample :: "nat mcp_server" where
  "mcp_sample =
     \<lparr>ms_name = ''revitpy-mcp'', ms_version = ''1.0.0'',
      ms_tools = register_tool \<lparr>tdef_name = ''delete_all'', tdef_description = [], tdef_category = MODIFY, tdef_parameters = [], tdef_returns = []\<rparr>
        (\<lambda>args w. (Inr J_Null, 0)) (register_tool \<lparr>tdef_name = ''count'', tdef_description = [], tdef_category = QUERY,
          tdef_parameters = [plain_parameter ''kind'' PT_STRING []], tdef_returns = []\<rparr>
        sample_count []),
      ms_safety = default_safety\<lparr>sc_mode := READ_ONLY\<rparr>, ms_prompts = []\<rparr>"

definition tool_call :: "string \<Rightarrow> json \<Rightarrow> json \<Rightarrow> json" where
  "tool_call n i args = J_Obj [(''jsonrpc'', J_Str ''2.0''), (''id'', i), (''method'', J_Str ''tools/call''),
     (''params'', J_Obj [(''name'', J_Str n), (''arguments'', args)])]"

lemma read_only_world_unchanged_witness:
  "snd (serve mcp_texts mcp_sample [Inr (tool_call ''delete_all'' (J_Num 1) (J_Obj [])),
      Inr (tool_call ''count'' (J_Num 2) (J_Obj [(''kind'', J_Str ''Walls'')]))] 7) = 7"
proof (rule read_only_world_unchanged)
  fix n d h args and w :: nat
  assume "map_of (ms_tools mcp_sample) n = Some (d, h)" "tdef_category d \<noteq> MODIFY"
  then show "snd (h args w) = w" by (auto simp: mcp_sample_def register_tool_def sample_count_def split: if_splits)
qed (simp add: mcp_sample_def)

text \<open>
  Every request gets exactly one answer. It carries the request's id, unless an exception came out of a
  tool call or of a prompt request: then its id is null.
\<close>

lemma handle_message_id:
  "fst (handle_message X M i meth p w) = Inr m \<Longrightarrow> msg_id m = i"
  by (auto simp: handle_message_def handle_initialize_def handle_tools_call_def handle_prompts_get_def rpc_result_def rpc_error_def
      split: if_splits sum.splits option.splits prod.splits)

lemma handle_message_raises:
  "fst (handle_message X M i meth p w) = Inl e \<Longrightarrow> meth = J_Str ''tools/call'' \<or> meth = J_Str ''prompts/get''"
  by (auto simp: handle_message_def split: if_splits)

fun is_request :: "string + json \<Rightarrow> bool" where
  "is_request (Inl e) = False"
| "is_request (Inr x) = (case message_from_json x of Inr (Request rpc i meth p) \<Rightarrow> True | _ \<Rightarrow> False)"

lemma request_is_answered:
  assumes "message_from_json x = Inr (Request rpc i meth p)"
  shows "\<exists>m. fst (handle_raw X M (Inr x) w) = Some m \<and>
    (msg_id m = i \<or> msg_id m = J_Null \<and> (meth = J_Str ''tools/call'' \<or> meth = J_Str ''prompts/get''))"
proof -
  obtain r w1 where r: "handle_message X M i meth p w = (r, w1)" by fastforce
  show ?thesis
  proof (cases r)
    case (Inl e)
    with r handle_message_raises [of X M i meth p w e] assms show ?thesis by (simp add: handle_raw_def rpc_error_def)
  next
    case (Inr m)
    with r handle_message_id [of X M i meth p w m] assms show ?thesis by (simp add: handle_raw_def)
  qed
qed

lemma request_is_answered_witness:
  "\<exists>m. fst (handle_raw mcp_texts mcp_sample (Inr (tool_call ''count'' (J_Num 2) (J_Obj []))) 3) = Some m \<and>
    (msg_id m = J_Num 2 \<or> msg_id m = J_Null \<and> (J_Str ''tools/call'' = J_Str ''tools/call'' \<or> J_Str ''tools/call'' = J_Str ''prompts/get''))"
  by (rule request_is_answered) (simp add: tool_call_def Let_def field_or_def)

text \<open>Notifications and responses are not answered, and run nothing.\<close>

lemma others_not_answered:
  assumes "message_from_json x = Inr m" "\<And>rpc i meth p. m \<noteq> Request rpc i meth p"
  shows "handle_raw X M (Inr x) w = (None, w)"
  using assms by (cases m) (auto simp: handle_raw_def)

text \<open>
  When a tool's handler raises, the answer has no id and the client cannot tell which request it
  belongs to.
\<close>

lemma failing_tool_answer_has_no_id:
  assumes "map_of (ms_tools M) n = Some (d, h)" "validate_tool_call (ms_safety M) d = Inr b"
    "missing_parameters (tdef_parameters d) (J_Obj args) = Some []" "h (J_Obj args) w = (Inl e, w1)" "i \<noteq> J_Null"
  shows "handle_raw X M (Inr (tool_call n i (J_Obj args))) w =
    (Some (rpc_error J_Null (- 32603) (in_quotes ''Tool '' n ('' failed: '' @ e))), w1)"
  using assms
  by (simp add: handle_raw_def tool_call_def Let_def field_or_def handle_message_def handle_tools_call_def get_param_def
      find_tool_def execute_tool_def call_handler_def in_quotes_def)

lemma failing_tool_answer_has_no_id_witness:
  "handle_raw mcp_texts mcp_sample (Inr (tool_call ''count'' (J_Num 2) (J_Obj [(''kind'', J_Str ''Walls'')]))) 0 =
    (Some (rpc_error J_Null (- 32603) (in_quotes ''Tool '' ''count'' ('' failed: '' @ ''empty model''))), 0)"
  by (rule failing_tool_answer_has_no_id [where h = sample_count]) (auto simp: mcp_sample_def sample_count_def register_tool_def plain_parameter_def validate_tool_call_def default_safety_def)

text \<open>What is missing is not told to the client: the text of the answer is that of \<open>None\<close>.\<close>

lemma missing_parameters_not_told:
  assumes "map_of (ms_tools M) n = Some (d, h)" "validate_tool_call (ms_safety M) d = Inr b"
    "missing_parameters (tdef_parameters d) (J_Obj args) = Some (m # ms)" "i \<noteq> J_Null"
  shows "handle_raw X M (Inr (tool_call n i (J_Obj args))) w = (Some (rpc_result i (text_content (tx_str X J_Null) True)), w)"
  using assms
  by (simp add: handle_raw_def tool_call_def Let_def field_or_def handle_message_def handle_tools_call_def get_param_def
      find_tool_def execute_tool_def)

lemma missing_parameters_not_told_witness:
  "handle_raw mcp_texts mcp_sample (Inr (tool_call ''count'' (J_Num 2) (J_Obj []))) 5 =
    (Some (rpc_result (J_Num 2) (text_content (tx_str mcp_texts J_Null) True)), 5)"
  by (rule missing_parameters_not_told) (auto simp: mcp_sample_def sample_count_def register_tool_def plain_parameter_def validate_tool_call_def default_safety_def)

subsection \<open>Registered tools\<close>

text \<open>
  A registered tool is found under its name, in the position of the one it replaces, and the others stay.
\<close>

lemma register_tool_found:
  "find_tool n (register_tool d h T) = (if n = tdef_name d then Some d else find_tool n T)"
  by (simp add: find_tool_def register_tool_def)

lemma builtin_tools_complete: "map tdef_name (list_tools (new_tools X ctx)) = map tdef_name builtin_tools"
  by (simp add: new_tools_def builtin_tools_def register_tool_def list_tools_def)

text \<open>
  The schema of a tool requires what \<open>execute_tool\<close> misses: a mapping of arguments passes exactly when
  it has every required name.
\<close>

lemma schema_requires_what_is_checked:
  "missing_parameters ps (J_Obj args) = Some [n \<leftarrow> map tp_name (filter tp_required ps). map_of args n = None]"
  by (induction ps) auto

text \<open>Without a context or with one, no built-in tool touches the world.\<close>

lemma builtin_handlers_pure:
  assumes "map_of (new_tools X ctx) n = Some (d, h)"
  shows "snd (h args w) = w"
proof -
  have pure: "snd (builtin_handler X req opt ctx f g args w) = w" for req opt f g
    by (simp add: builtin_handler_def split: sum.splits)
  have "h \<in> {handle_query_elements X ctx, handle_get_element X ctx, handle_modify_parameter X ctx, handle_get_quantities X ctx,
      handle_validate_model X ctx, handle_export_data X ctx}"
    using assms by (auto simp: new_tools_def builtin_tools_def register_tool_def split: if_splits)
  then show ?thesis
    by (auto simp: handle_query_elements_def handle_get_element_def handle_modify_parameter_def handle_get_quantities_def
        handle_validate_model_def handle_export_data_def pure)
qed

end
