(* ===== verification/Measures.thy ===== *)
theory Measures
  imports Complex_Main Prelude
begin

text \<open>
  What the extraction and sustainability layers share: matching of names, sums and groups kept in
  dictionaries (\<open>defaultdict\<close>), rounding, and attributes that may be missing.

  Floats are rationals. The arithmetic on them is an argument of the definitions that accumulate or
  multiply measures, since float sums depend on the order in which they are taken: \<open>fa_add\<close>, \<open>fa_mul\<close> and
  \<open>fa_div\<close> are \<open>+\<close>, \<open>*\<close> and \<open>/\<close>, \<open>fa_sum\<close> is the built-in \<open>sum\<close>, whose way of adding floats has
  changed between Python versions, and \<open>fa_round\<close> is \<open>round\<close>, which gives the float nearest to the
  decimal \<open>py_round\<close>, half to even.
\<close>

subsection \<open>Names\<close>

definition py_lower :: "string \<Rightarrow> string" where
  "py_lower = map lower_letter"

definition is_space :: "char \<Rightarrow> bool" where
  "is_space c \<longleftrightarrow> of_char c \<in> {9, 10, 11, 12, 13, 28, 29, 30, 31, 32 :: nat}"

definition py_strip :: "string \<Rightarrow> string" where
  "py_strip s = rev (dropWhile is_space (rev (dropWhile is_space s)))"

definition norm_name :: "string \<Rightarrow> string" where
  "norm_name s = py_strip (py_lower s)"

definition overlaps :: "string \<Rightarrow> string \<Rightarrow> bool" where
  "overlaps a b \<longleftrightarrow> substring a b \<or> substring b a"

definition first_key :: "('k \<Rightarrow> bool) \<Rightarrow> ('k, 'v) dict \<Rightarrow> 'v option" where
  "first_key P d = map_option snd (find (P \<circ> fst) d)"

lemma substring_empty [simp]: "substring [] s"
  by (simp add: substring_def list_ex_iff) (rule exI [of _ 0], simp)

lemma overlaps_empty [simp]: "overlaps a []" "overlaps [] a"
  by (simp_all add: overlaps_def)

lemma find_first: "xs \<noteq> [] \<Longrightarrow> P (hd xs) \<Longrightarrow> find P xs = Some (hd xs)"
  by (cases xs) auto

lemma first_key_hd: "d \<noteq> [] \<Longrightarrow> P (fst (hd d)) \<Longrightarrow> first_key P d = Some (snd (hd d))"
  by (simp add: first_key_def find_first)

lemma first_key_None: "first_key P d = None \<longleftrightarrow> (\<forall>k \<in> fst ` set d. \<not> P k)"
  by (auto simp: first_key_def find_None_iff)

lemma first_key_in: "first_key P d = Some v \<Longrightarrow> \<exists>k. (k, v) \<in> set d \<and> P k"
  by (auto simp: first_key_def find_Some_iff in_set_conv_nth) (metis nth_mem fst_conv)

subsection \<open>Rounding\<close>

definition round_even :: "rat \<Rightarrow> int" where
  "round_even x =
     (let f = \<lfloor>x\<rfloor>; r = x - of_int f in if r < 1 / 2 then f else if 1 / 2 < r then f + 1 else if even f then f else f + 1)"

definition py_round :: "nat \<Rightarrow> rat \<Rightarrow> rat" where
  "py_round n x = of_int (round_even (x * 10 ^ n)) / 10 ^ n"

lemma round_even_close: "\<bar>of_int (round_even x) - x\<bar> \<le> 1 / 2"
proof -
  have f: "of_int \<lfloor>x\<rfloor> \<le> x" "x < of_int \<lfloor>x\<rfloor> + 1" by linarith+
  show ?thesis
  proof (cases "x - of_int \<lfloor>x\<rfloor> \<le> 1 / 2 \<and> round_even x = \<lfloor>x\<rfloor>")
    case True
    then have "round_even x = \<lfloor>x\<rfloor>" "x - of_int \<lfloor>x\<rfloor> \<le> 1 / 2" by simp_all
    with f show ?thesis by (simp only: abs_le_iff) linarith
  next
    case False
    then have "1 / 2 \<le> x - of_int \<lfloor>x\<rfloor>" "round_even x = \<lfloor>x\<rfloor> + 1"
      by (auto simp: round_even_def Let_def split: if_splits)
    with f show ?thesis by (simp only: abs_le_iff of_int_add of_int_1) linarith
  qed
qed

lemma py_round_close: "\<bar>py_round n x - x\<bar> \<le> 1 / (2 * 10 ^ n)"
proof -
  have "py_round n x - x = (of_int (round_even (x * 10 ^ n)) - x * 10 ^ n) / 10 ^ n"
    by (simp add: py_round_def field_simps)
  then have "\<bar>py_round n x - x\<bar> = \<bar>of_int (round_even (x * 10 ^ n)) - x * 10 ^ n\<bar> / 10 ^ n"
    by (simp add: abs_divide)
  also have "\<dots> \<le> (1 / 2) / 10 ^ n"
    by (rule divide_right_mono [OF round_even_close]) simp
  finally show ?thesis by simp
qed

lemma py_round_of_int [simp]: "py_round n (of_int i) = of_int i"
proof -
  have "(of_int i :: rat) * 10 ^ n = of_int (i * 10 ^ n)" by simp
  then have "round_even (of_int i * 10 ^ n) = i * 10 ^ n" by (simp only: round_even_def Let_def floor_of_int) simp
  then show ?thesis by (simp add: py_round_def)
qed

lemma py_round_nonneg: "0 \<le> x \<Longrightarrow> 0 \<le> py_round n x"
proof -
  assume "0 \<le> x"
  then have "0 \<le> \<lfloor>x * 10 ^ n\<rfloor>" by simp
  then have "0 \<le> round_even (x * 10 ^ n)" unfolding round_even_def Let_def by auto
  then show ?thesis by (simp add: py_round_def)
qed

lemma round_even_mono:
  assumes "x \<le> y"
  shows "round_even x \<le> round_even y"
proof -
  have bounds: "\<lfloor>z\<rfloor> \<le> round_even z" "round_even z \<le> \<lfloor>z\<rfloor> + 1" for z
    by (auto simp: round_even_def Let_def)
  have "\<lfloor>x\<rfloor> \<le> \<lfloor>y\<rfloor>" using assms by (rule floor_mono)
  then consider "\<lfloor>x\<rfloor> = \<lfloor>y\<rfloor>" | "\<lfloor>x\<rfloor> + 1 \<le> \<lfloor>y\<rfloor>" by linarith
  then show ?thesis
  proof cases
    case 1
    then show ?thesis using assms by (auto simp: round_even_def Let_def)
  next
    case 2
    then show ?thesis using bounds [of x] bounds [of y] by linarith
  qed
qed

lemma py_round_mono: "x \<le> y \<Longrightarrow> py_round n x \<le> py_round n y"
  unfolding py_round_def
  by (intro divide_right_mono of_int_le_iff [THEN iffD2] round_even_mono mult_right_mono) simp_all

subsection \<open>Float arithmetic\<close>

record float_arith =
  fa_add :: "rat \<Rightarrow> rat \<Rightarrow> rat"
  fa_mul :: "rat \<Rightarrow> rat \<Rightarrow> rat"
  fa_div :: "rat \<Rightarrow> rat \<Rightarrow> rat"
  fa_sum :: "rat list \<Rightarrow> rat"
  fa_round :: "nat \<Rightarrow> rat \<Rightarrow> rat"

definition exact_arith :: float_arith where
  "exact_arith = \<lparr>fa_add = (+), fa_mul = (*), fa_div = (/), fa_sum = sum_list, fa_round = py_round\<rparr>"

lemma exact_arith_ops [simp]:
  "fa_add exact_arith = (+)" "fa_mul exact_arith = (*)" "fa_div exact_arith = (/)" "fa_sum exact_arith = sum_list"
  "fa_round exact_arith = py_round"
  by (simp_all add: exact_arith_def)

text \<open>\<open>t = 0.0\<close>, then \<open>t += x\<close> for each \<open>x\<close> in order.\<close>

definition float_total :: "float_arith \<Rightarrow> rat list \<Rightarrow> rat" where
  "float_total A xs = fold (\<lambda>x t. fa_add A t x) xs 0"

text \<open>
  An arithmetic whose operations on numbers that are not negative have a relative error of at
  most \<open>u\<close>, as that of Python's floats has with \<open>u\<close> = 2^(-53) as long as nothing overflows or
  underflows; and what that makes of \<open>n\<close> operations.
\<close>

definition close_to :: "rat \<Rightarrow> nat \<Rightarrow> rat \<Rightarrow> rat \<Rightarrow> bool" where
  "close_to u n x S \<longleftrightarrow> (1 - u) ^ n * S \<le> x \<and> x \<le> (1 + u) ^ n * S"

definition float_ok :: "rat \<Rightarrow> float_arith \<Rightarrow> bool" where
  "float_ok u A \<longleftrightarrow> 0 \<le> u \<and> u \<le> 1 \<and>
     (\<forall>x y. 0 \<le> x \<and> 0 \<le> y \<longrightarrow>
        close_to u 1 (fa_add A x y) (x + y) \<and> close_to u 1 (fa_mul A x y) (x * y) \<and> close_to u 1 (fa_div A x y) (x / y)) \<and>
     (\<forall>n x. 0 \<le> x \<longrightarrow> close_to u 1 (fa_round A n x) (py_round n x))"

lemma close_to_exact [simp]: "close_to 0 n x S \<longleftrightarrow> x = S"
  by (auto simp: close_to_def)

lemma float_ok_exact: "float_ok 0 exact_arith"
  by (simp add: float_ok_def)

text \<open>
  Rounding to a binary fraction of 53 digits, the nearest one, half to even: the arithmetic of
  Python's floats as long as the exponents are in range, with the built-in \<open>sum\<close> of Python 3.11.
\<close>

definition ulp :: "rat \<Rightarrow> rat" where
  "ulp x = 2 powi (\<lfloor>log 2 (real_of_rat x)\<rfloor> - 52)"

definition to_double :: "rat \<Rightarrow> rat" where
  "to_double x = (if x = 0 then 0 else sgn x * (of_int (round_even (\<bar>x\<bar> / ulp \<bar>x\<bar>)) * ulp \<bar>x\<bar>))"

definition double_arith :: float_arith where
  "double_arith = \<lparr>fa_add = \<lambda>x y. to_double (x + y), fa_mul = \<lambda>x y. to_double (x * y), fa_div = \<lambda>x y. to_double (x / y),
     fa_sum = \<lambda>xs. fold (\<lambda>x t. to_double (t + x)) xs 0, fa_round = \<lambda>n x. to_double (py_round n x)\<rparr>"

lemma of_rat_powi: "real_of_rat (2 powi k) = 2 powi k"
  by (simp add: power_int_def of_rat_power of_rat_divide)

lemma close_to_abs: "\<bar>x - y\<bar> \<le> u * y \<Longrightarrow> close_to u 1 x y"
  by (simp add: close_to_def abs_le_iff algebra_simps)

lemma ulp_le:
  assumes "0 < x"
  shows "0 < ulp x" "2 ^ 52 * ulp x \<le> x"
proof -
  let ?e = "\<lfloor>log 2 (real_of_rat x)\<rfloor>"
  have "(2 :: real) powi ?e = 2 powr (of_int ?e)" by (simp add: powr_real_of_int')
  also have "\<dots> \<le> 2 powr (log 2 (real_of_rat x))" by (simp del: powr_log_cancel)
  also have "\<dots> = real_of_rat x" using assms by simp
  finally have "real_of_rat (2 powi ?e) \<le> real_of_rat x" by (simp only: of_rat_powi)
  then have "2 powi ?e \<le> x" by (simp only: of_rat_less_eq)
  moreover have "2 ^ 52 * ulp x = 2 powi ?e" by (simp add: ulp_def power_int_diff)
  ultimately show "2 ^ 52 * ulp x \<le> x" by simp
  show "0 < ulp x" by (simp add: ulp_def)
qed

lemma to_double_close:
  assumes "0 \<le> x"
  shows "close_to (1 / 2 ^ 53) 1 (to_double x) x"
proof (cases "x = 0")
  case False
  with assms have x: "0 < x" by simp
  let ?u = "ulp x" and ?r = "of_int (round_even (x / ulp x))"
  note u = ulp_le [OF x]
  have "\<bar>?r - x / ?u\<bar> * ?u \<le> 1 / 2 * ?u" using round_even_close u(1) by (intro mult_right_mono) auto
  then have "\<bar>(?r - x / ?u) * ?u\<bar> \<le> ?u / 2" using u(1) by (simp add: abs_mult)
  moreover have "(?r - x / ?u) * ?u = ?r * ?u - x" using u(1) by (simp add: left_diff_distrib)
  ultimately have "\<bar>to_double x - x\<bar> \<le> ?u / 2" using x by (simp add: to_double_def)
  then have "\<bar>to_double x - x\<bar> \<le> 1 / 2 ^ 53 * x" using u(2) by simp
  then show ?thesis by (rule close_to_abs)
qed (simp add: close_to_def to_double_def)

lemma double_arith_ok: "float_ok (1 / 2 ^ 53) double_arith"
  using to_double_close by (auto simp: float_ok_def double_arith_def py_round_nonneg simp del: One_nat_def)

lemma float_okD:
  assumes "float_ok u A"
  shows "0 \<le> u" "u \<le> 1"
    and "0 \<le> x \<Longrightarrow> 0 \<le> y \<Longrightarrow> (1 - u) * (x + y) \<le> fa_add A x y"
    and "0 \<le> x \<Longrightarrow> 0 \<le> y \<Longrightarrow> fa_add A x y \<le> (1 + u) * (x + y)"
    and "0 \<le> x \<Longrightarrow> 0 \<le> y \<Longrightarrow> close_to u 1 (fa_mul A x y) (x * y)"
    and "0 \<le> x \<Longrightarrow> 0 \<le> y \<Longrightarrow> close_to u 1 (fa_div A x y) (x / y)"
    and "0 \<le> x \<Longrightarrow> close_to u 1 (fa_round A n x) (py_round n x)"
  using assms by (simp_all add: float_ok_def) (simp_all add: close_to_def)

lemma close_to_nonneg: "close_to u n x S \<Longrightarrow> u \<le> 1 \<Longrightarrow> 0 \<le> S \<Longrightarrow> 0 \<le> x"
  unfolding close_to_def by (meson diff_ge_0_iff_ge mult_nonneg_nonneg order_trans zero_le_power)

lemma close_to_trans:
  assumes "close_to u m x y" "close_to u n y z" and "0 \<le> u" "u \<le> 1"
  shows "close_to u (m + n) x z"
proof -
  have "(1 - u) ^ m * ((1 - u) ^ n * z) \<le> (1 - u) ^ m * y" "(1 + u) ^ m * y \<le> (1 + u) ^ m * ((1 + u) ^ n * z)"
    using assms by (auto simp: close_to_def intro!: mult_left_mono)
  then show ?thesis using assms(1) by (auto simp: close_to_def power_add mult.assoc)
qed

lemma close_to_sum: "(\<And>x. x \<in> set xs \<Longrightarrow> close_to u n (f x) (g x)) \<Longrightarrow> close_to u n (sum_list (map f xs)) (sum_list (map g xs))"
proof (induction xs)
  case (Cons x xs)
  then have "close_to u n (f x) (g x)" "close_to u n (sum_list (map f xs)) (sum_list (map g xs))" by simp_all
  then show ?case unfolding close_to_def sum_list.Cons list.map distrib_left by (auto intro: add_mono)
qed (simp add: close_to_def)

lemma float_add_nonneg: "float_ok u A \<Longrightarrow> 0 \<le> x \<Longrightarrow> 0 \<le> y \<Longrightarrow> 0 \<le> fa_add A x y"
  using float_okD(2) [of u A] float_okD(3) [of u A x y] by (meson add_nonneg_nonneg diff_ge_0_iff_ge mult_nonneg_nonneg order_trans)

lemma close_to_refl [simp]: "close_to u 0 x x"
  by (simp add: close_to_def)

lemma close_to_step:
  assumes "close_to u n t S" and "0 \<le> u" "u \<le> 1" "0 \<le> x" "(1 - u) * (t + x) \<le> t'" "t' \<le> (1 + u) * (t + x)"
  shows "close_to u (Suc n) t' (S + x)"
proof -
  have p: "(1 - u) ^ n \<le> 1" "1 \<le> (1 + u) ^ n" using assms(2,3) by (simp_all add: power_le_one)
  have "(1 - u) ^ n * (S + x) \<le> t + x" "t + x \<le> (1 + u) ^ n * (S + x)"
    using assms(1,4) p mult_left_le_one_le [of x "(1 - u) ^ n"] mult_right_mono [OF p(2) assms(4)] assms(3)
    by (simp_all add: close_to_def distrib_left)
  then have "(1 - u) * ((1 - u) ^ n * (S + x)) \<le> (1 - u) * (t + x)" "(1 + u) * (t + x) \<le> (1 + u) * ((1 + u) ^ n * (S + x))"
    using assms(2,3) by (auto intro: mult_left_mono)
  then show ?thesis using assms(5,6) by (auto simp: close_to_def mult.assoc)
qed

lemma close_to_more:
  assumes "close_to u n t S" and "0 \<le> u" "u \<le> 1" "0 \<le> t"
  shows "close_to u (Suc n) t S"
  using close_to_step [OF assms(1-3), of 0 t] assms(2,4)
    mult_left_le_one_le [of t "1 - u"] mult_right_mono [of 1 "1 + u" t] assms(3)
  by simp

lemma float_total_snoc: "float_total A (xs @ [x]) = fa_add A (float_total A xs) x"
  by (simp add: float_total_def)

lemma float_total_Nil [simp]: "float_total A [] = 0"
  by (simp add: float_total_def)

lemma float_total_exact: "float_total exact_arith xs = sum_list xs"
  by (induction xs rule: rev_induct) (simp_all add: float_total_snoc exact_arith_def)

lemma float_total_nonneg: "float_ok u A \<Longrightarrow> \<forall>x \<in> set xs. 0 \<le> x \<Longrightarrow> 0 \<le> float_total A xs"
  by (induction xs rule: rev_induct) (auto simp: float_total_snoc intro: float_add_nonneg)

lemma float_total_within:
  assumes "float_ok u A" and "\<forall>x \<in> set xs. 0 \<le> x"
  shows "close_to u (length xs) (float_total A xs) (sum_list xs)"
  using assms(2)
proof (induction xs rule: rev_induct)
  case (snoc x xs)
  note f = float_okD [OF assms(1)]
  have "0 \<le> float_total A xs" using float_total_nonneg [OF assms(1)] snoc.prems by simp
  with snoc close_to_step [of u "length xs" "float_total A xs" "sum_list xs" x] f(1,2) f(3,4) [of "float_total A xs" x]
  show ?case by (simp add: float_total_snoc)
qed simp

subsection \<open>Sums in a dictionary\<close>

definition dd_add :: "float_arith \<Rightarrow> 'k \<Rightarrow> rat \<Rightarrow> ('k, rat) dict \<Rightarrow> ('k, rat) dict" where
  "dd_add A k x d = AList.update k (fa_add A (case map_of d k of None \<Rightarrow> 0 | Some y \<Rightarrow> y) x) d"

text \<open>What the entries of a dictionary add up to, exactly.\<close>

definition dict_total :: "('k, rat) dict \<Rightarrow> rat" where
  "dict_total d = sum_list (map snd d)"

lemma dict_total_Nil [simp]: "dict_total [] = 0"
  by (simp add: dict_total_def)

lemma dict_total_update:
  "dict_ok d \<Longrightarrow> dict_total (AList.update k v d) = dict_total d + v - (case map_of d k of None \<Rightarrow> 0 | Some y \<Rightarrow> y)"
  by (induction d) (auto simp: dict_total_def map_of_None_keys split: option.splits)

lemma dict_ok_add [simp, intro]: "dict_ok d \<Longrightarrow> dict_ok (dd_add A k x d)"
  by (simp add: dd_add_def)

lemma map_of_dd_add: "map_of (dd_add A k x d) = (map_of d)(k \<mapsto> fa_add A (case map_of d k of None \<Rightarrow> 0 | Some y \<Rightarrow> y) x)"
  by (simp add: dd_add_def)

text \<open>The loop \<open>for x in xs: d[f(x)] += g(x)\<close>, over the elements that satisfy a condition.\<close>

definition sum_into :: "float_arith \<Rightarrow> ('a \<Rightarrow> 'k option) \<Rightarrow> ('a \<Rightarrow> rat) \<Rightarrow> 'a list \<Rightarrow> ('k, rat) dict" where
  "sum_into A f g xs = fold (\<lambda>x d. case f x of None \<Rightarrow> d | Some k \<Rightarrow> dd_add A k (g x) d) xs []"

lemma sum_into_snoc:
  "sum_into A f g (xs @ [x]) = (case f x of None \<Rightarrow> sum_into A f g xs | Some k \<Rightarrow> dd_add A k (g x) (sum_into A f g xs))"
  by (simp add: sum_into_def split: option.splits)

lemma sum_into_Nil [simp]: "sum_into A f g [] = []"
  by (simp add: sum_into_def)

lemma sum_into_ok [simp]: "dict_ok (sum_into A f g xs)"
  by (induction xs rule: rev_induct) (auto simp: sum_into_snoc split: option.splits)

text \<open>Each entry is the sum, in order, of the elements that go there.\<close>

lemma sum_into_lookup:
  "map_of (sum_into A f g xs) k =
     (if \<exists>x \<in> set xs. f x = Some k then Some (float_total A (map g (filter (\<lambda>x. f x = Some k) xs))) else None)"
proof (induction xs rule: rev_induct)
  case (snoc x xs)
  have none: "filter (\<lambda>x. f x = Some k) xs = []" if "\<not> (\<exists>x \<in> set xs. f x = Some k)"
    using that by (auto simp: filter_empty_conv)
  show ?case
    using snoc none by (cases "f x") (auto simp: sum_into_snoc map_of_dd_add float_total_snoc)
qed simp

lemma dict_total_entry:
  assumes "dict_ok d" and "\<forall>y \<in> snd ` set d. 0 \<le> y" and "map_of d k = Some (y :: rat)"
  shows "y \<le> dict_total d"
  using assms by (induction d) (fastforce simp: dict_total_def split: if_splits intro: add_increasing sum_list_nonneg)+

text \<open>
  The entries together are the exact sum up to the rounding of as many additions as there are
  elements, whatever the keys.
\<close>

lemma sum_into_within:
  assumes "float_ok u A" and "\<forall>x \<in> set xs. 0 \<le> g x"
  shows "close_to u (length xs) (dict_total (sum_into A f g xs)) (sum_list (map g (filter (\<lambda>x. f x \<noteq> None) xs))) \<and>
    (\<forall>y \<in> snd ` set (sum_into A f g xs). 0 \<le> y)"
  using assms(2)
proof (induction xs rule: rev_induct)
  case (snoc x xs)
  let ?d = "sum_into A f g xs"
  have IH: "close_to u (length xs) (dict_total ?d) (sum_list (map g (filter (\<lambda>x. f x \<noteq> None) xs)))"
    and pos: "\<forall>y \<in> snd ` set ?d. 0 \<le> y" and x: "0 \<le> g x"
    using snoc by auto
  note fl = float_okD [OF assms(1)]
  have t: "0 \<le> dict_total ?d" using pos by (auto simp: dict_total_def intro!: sum_list_nonneg)
  show ?case
  proof (cases "f x")
    case None
    with close_to_more [OF IH fl(1,2) t] pos show ?thesis by (simp add: sum_into_snoc)
  next
    case (Some k)
    define y where "y = (case map_of ?d k of None \<Rightarrow> 0 | Some y \<Rightarrow> y)"
    have y: "0 \<le> y" "y \<le> dict_total ?d"
      using pos t dict_total_entry [OF sum_into_ok pos]
      by (force simp: y_def split: option.splits dest: map_of_SomeD)+
    have new: "dict_total (dd_add A k (g x) ?d) = dict_total ?d + fa_add A y (g x) - y"
      by (simp add: dd_add_def dict_total_update y_def)
    have uy: "u * y \<le> u * dict_total ?d" using y fl(1) by (simp add: mult_left_mono)
    have "(1 - u) * (dict_total ?d + g x) \<le> dict_total (dd_add A k (g x) ?d)"
      "dict_total (dd_add A k (g x) ?d) \<le> (1 + u) * (dict_total ?d + g x)"
      using fl(3,4) [OF y(1) x] uy unfolding new by (simp_all add: algebra_simps)
    from close_to_step [OF IH fl(1,2) x this] have "close_to u (Suc (length xs)) (dict_total (dd_add A k (g x) ?d))
        (sum_list (map g (filter (\<lambda>x. f x \<noteq> None) xs)) + g x)" .
    moreover have "\<forall>z \<in> snd ` set (dd_add A k (g x) ?d). 0 \<le> z"
      using pos float_add_nonneg [OF assms(1) y(1) x] set_update_subset_pairs [of _ k _ ?d]
      unfolding dd_add_def y_def [symmetric] by fastforce
    ultimately show ?thesis using Some by (simp add: sum_into_snoc)
  qed
qed simp

subsection \<open>Groups in a dictionary\<close>

definition dd_push :: "'k \<Rightarrow> 'a \<Rightarrow> ('k, 'a list) dict \<Rightarrow> ('k, 'a list) dict" where
  "dd_push k x d = AList.update k ((case map_of d k of None \<Rightarrow> [] | Some ys \<Rightarrow> ys) @ [x]) d"

definition group_dict :: "('a \<Rightarrow> 'k) \<Rightarrow> 'a list \<Rightarrow> ('k, 'a list) dict" where
  "group_dict f xs = fold (\<lambda>x. dd_push (f x) x) xs []"

lemma group_dict_snoc: "group_dict f (xs @ [x]) = dd_push (f x) x (group_dict f xs)"
  by (simp add: group_dict_def)

lemma group_dict_lookup:
  "map_of (group_dict f xs) k = (if filter (\<lambda>x. f x = k) xs = [] then None else Some (filter (\<lambda>x. f x = k) xs))"
proof (induction xs arbitrary: k rule: rev_induct)
  case (snoc x xs)
  then show ?case by (auto simp: group_dict_snoc dd_push_def)
qed (simp add: group_dict_def)

lemma group_dict_ok [simp]: "dict_ok (group_dict f xs)"
  by (induction xs rule: rev_induct) (auto simp: group_dict_def dd_push_def)

subsection \<open>Attributes of elements\<close>

text \<open>
  An element is what \<open>getattr\<close> finds in it. The texts of values and the number that a text stands
  for are arguments; the number of anything else that is not a number does not exist.
\<close>

datatype attribute = At_None | At_Number rat | At_Text string | At_Other nat

type_synonym element = "string \<Rightarrow> attribute option"

record py_values =
  pv_number :: "string \<Rightarrow> rat option"
  pv_text :: "attribute \<Rightarrow> string"

definition attr_or :: "attribute \<Rightarrow> element \<Rightarrow> string \<Rightarrow> attribute" where
  "attr_or x e n = (case e n of None \<Rightarrow> x | Some y \<Rightarrow> y)"

fun attribute_true :: "attribute \<Rightarrow> bool" where
  "attribute_true At_None = False"
| "attribute_true (At_Number x) = (x \<noteq> 0)"
| "attribute_true (At_Text s) = (s \<noteq> [])"
| "attribute_true (At_Other i) = True"

fun py_float :: "py_values \<Rightarrow> attribute \<Rightarrow> rat option" where
  "py_float V (At_Number x) = Some x"
| "py_float V (At_Text s) = pv_number V s"
| "py_float V _ = None"

fun attr_text :: "py_values \<Rightarrow> attribute \<Rightarrow> string" where
  "attr_text V (At_Text s) = s"
| "attr_text V At_None = ''None''"
| "attr_text V a = pv_text V a"

end
