(* ===== verification/Sustainability.thy ===== *)
theory Sustainability
  imports Measures
begin

text \<open>
  The sustainability layer (\<open>sustainability/\<close>): the EPD database, the extraction and classification of
  materials, the carbon calculation with its summary and benchmark, the compliance checks and the
  rows of the reports.

  The EC3 service is an argument: what it answers to a name and a category. JSON files are the
  dictionaries that \<open>json\<close> reads and writes; of a record only its fields are kept, a missing one
  being \<open>None\<close>. The calculation date is an argument, and so are the float operations with
  which masses and carbon are computed and added up; the quotients of the benchmark, the checks and the
  reports are exact. The HTML templates are not modelled.
\<close>

subsection \<open>Data\<close>

datatype carbon_stage = A1 | A2 | A3 | A4 | A5 | B1 | B2 | B3 | B4 | B5 | B6 | B7 | C1 | C2 | C3 | C4 | D_REUSE

fun stage_value :: "carbon_stage \<Rightarrow> string" where
  "stage_value A1 = ''A1''" | "stage_value A2 = ''A2''" | "stage_value A3 = ''A3''" | "stage_value A4 = ''A4''"
| "stage_value A5 = ''A5''" | "stage_value B1 = ''B1''" | "stage_value B2 = ''B2''" | "stage_value B3 = ''B3''"
| "stage_value B4 = ''B4''" | "stage_value B5 = ''B5''" | "stage_value B6 = ''B6''" | "stage_value B7 = ''B7''"
| "stage_value C1 = ''C1''" | "stage_value C2 = ''C2''" | "stage_value C3 = ''C3''" | "stage_value C4 = ''C4''"
| "stage_value D_REUSE = ''D''"

definition carbon_stages :: "carbon_stage list" where
  "carbon_stages = [A1, A2, A3, A4, A5, B1, B2, B3, B4, B5, B6, B7, C1, C2, C3, C4, D_REUSE]"

definition stage_of_value :: "string \<Rightarrow> carbon_stage option" where
  "stage_of_value s = find (\<lambda>t. stage_value t = s) carbon_stages"

record material_data =
  md_name :: string
  md_category :: string
  md_volume :: rat
  md_area :: rat
  md_mass :: rat
  md_density :: "rat option"
  md_element :: "string option"
  md_level :: "string option"
  md_system :: "string option"

record epd_record =
  ep_material :: string
  ep_category :: string
  ep_per_kg :: rat
  ep_per_m3 :: "rat option"
  ep_source :: string
  ep_stages :: "carbon_stage list"
  ep_valid_until :: "string option"
  ep_manufacturer :: "string option"

record carbon_result =
  cr_material :: material_data
  cr_epd :: epd_record
  cr_carbon :: rat
  cr_stages :: "carbon_stage list"
  cr_method :: string

record carbon_summary =
  cs_total :: rat
  cs_by_material :: "(string, rat) dict"
  cs_by_system :: "(string, rat) dict"
  cs_by_level :: "(string, rat) dict"
  cs_by_stage :: "(string, rat) dict"
  cs_count :: nat
  cs_date :: string

subsection \<open>The EPD database\<close>

definition generic_epd :: "string \<Rightarrow> string \<Rightarrow> rat \<Rightarrow> rat \<Rightarrow> epd_record" where
  "generic_epd n c kg m3 = \<lparr>ep_material = n, ep_category = c, ep_per_kg = kg, ep_per_m3 = Some m3, ep_source = ''generic-ice'',
     ep_stages = [A1, A2, A3], ep_valid_until = None, ep_manufacturer = None\<rparr>"

definition generic_epds :: "(string, epd_record) dict" where
  "generic_epds =
     [(''concrete'', generic_epd ''Concrete'' ''Concrete'' (13 / 100) 312),
      (''steel'', generic_epd ''Steel'' ''Metals'' (155 / 100) (121675 / 10)),
      (''timber'', generic_epd ''Timber'' ''Wood'' (45 / 100) 225),
      (''glass'', generic_epd ''Glass'' ''Glass'' (86 / 100) 2150),
      (''aluminum'', generic_epd ''Aluminum'' ''Metals'' (824 / 100) 22248),
      (''brick'', generic_epd ''Brick'' ''Masonry'' (24 / 100) 432),
      (''insulation'', generic_epd ''Insulation'' ''Insulation'' (186 / 100) (558 / 10)),
      (''gypsum'', generic_epd ''Gypsum Board'' ''Interior Finishes'' (39 / 100) 312)]"

record epd_database =
  ed_token :: "string option"
  ed_cache :: "(string, epd_record) dict"

definition new_epd_database :: "string option \<Rightarrow> epd_database" where
  "new_epd_database token = \<lparr>ed_token = token, ed_cache = generic_epds\<rparr>"

definition has_text :: "string option \<Rightarrow> bool" where
  "has_text x = (case x of None \<Rightarrow> False | Some s \<Rightarrow> s \<noteq> [])"

definition get_generic_epd :: "string \<Rightarrow> epd_record option" where
  "get_generic_epd category =
     (let c = norm_name category in
      case map_of generic_epds c of
        Some e \<Rightarrow> Some e
      | None \<Rightarrow>
          (case find (\<lambda>e. substring c (py_lower (ep_category e))) (map snd generic_epds) of
             Some e \<Rightarrow> Some e
           | None \<Rightarrow> first_key (\<lambda>k. overlaps k c) generic_epds))"

definition epd_lookup :: "epd_database \<Rightarrow> string \<Rightarrow> string option \<Rightarrow> epd_record option" where
  "epd_lookup db name category =
     (let key = norm_name name in
      case map_of (ed_cache db) key of
        Some e \<Rightarrow> Some e
      | None \<Rightarrow>
          (case first_key (\<lambda>k. overlaps k key) (ed_cache db) of
             Some e \<Rightarrow> Some e
           | None \<Rightarrow>
               (case first_key (\<lambda>k. overlaps k key) generic_epds of
                  Some e \<Rightarrow> Some e
                | None \<Rightarrow> (case category of None \<Rightarrow> None | Some c \<Rightarrow> if c = [] then None else get_generic_epd c))))"

text \<open>An item of an answer of the service, and the record made of it.\<close>

record ec3_item =
  ei_name :: "string option"
  ei_category :: "string option"
  ei_gwp :: "rat option"
  ei_manufacturer :: "string option"

definition ec3_record :: "string \<Rightarrow> string \<Rightarrow> ec3_item \<Rightarrow> epd_record" where
  "ec3_record name category it =
     \<lparr>ep_material = (case ei_name it of None \<Rightarrow> name | Some n \<Rightarrow> n),
      ep_category = (case ei_category it of None \<Rightarrow> category | Some c \<Rightarrow> c),
      ep_per_kg = (case ei_gwp it of None \<Rightarrow> 0 | Some g \<Rightarrow> g), ep_per_m3 = None, ep_source = ''ec3-api'',
      ep_stages = [], ep_valid_until = None, ep_manufacturer = ei_manufacturer it\<rparr>"

definition epd_lookup_async ::
  "(string \<Rightarrow> string option \<Rightarrow> string + ec3_item list) \<Rightarrow> string \<Rightarrow> string option \<Rightarrow> epd_database \<Rightarrow>
   (string + epd_record option) \<times> epd_database" where
  "epd_lookup_async service name category db =
     (case epd_lookup db name category of
        Some e \<Rightarrow> (Inr (Some e), db)
      | None \<Rightarrow>
          if \<not> has_text (ed_token db) then (Inr None, db)
          else
            (case service name (if has_text category then category else None) of
               Inl err \<Rightarrow> (Inl err, db)
             | Inr [] \<Rightarrow> (Inr None, db)
             | Inr (it # its) \<Rightarrow>
                 (let e = ec3_record name (case category of None \<Rightarrow> [] | Some c \<Rightarrow> c) it
                  in (Inr (Some e), db\<lparr>ed_cache := AList.update (norm_name name) e (ed_cache db)\<rparr>))))"

text \<open>The two local loops of the search; the limit is looked at after every entry.\<close>

fun search_cache :: "string \<Rightarrow> int \<Rightarrow> bool \<Rightarrow> (string, epd_record) dict \<Rightarrow> epd_record list \<Rightarrow> bool \<times> epd_record list" where
  "search_cache q limit fresh [] rs = (False, rs)"
| "search_cache q limit fresh ((k, e) # d) rs =
     (let rs1 = (if overlaps q k \<and> (fresh \<longrightarrow> e \<notin> set rs) then rs @ [e] else rs) in
      if limit \<le> int (length rs1) then (True, rs1) else search_cache q limit fresh d rs1)"

definition epd_search :: "(string \<Rightarrow> string + ec3_item list) \<Rightarrow> string \<Rightarrow> nat \<Rightarrow> epd_database \<Rightarrow> epd_record list" where
  "epd_search service query limit db =
     (let q = norm_name query in
      case search_cache q (int limit) False (ed_cache db) [] of
        (True, rs) \<Rightarrow> rs
      | (False, rs) \<Rightarrow>
          (case search_cache q (int limit) True generic_epds rs of
             (True, rs1) \<Rightarrow> rs1
           | (False, rs1) \<Rightarrow>
               take limit (if has_text (ed_token db)
                 then (case service query of Inl e \<Rightarrow> rs1 | Inr its \<Rightarrow> rs1 @ map (ec3_record query []) (take limit its))
                 else rs1)))"

text \<open>A record in a cache file. A field that the code indexes may be missing.\<close>

record cached_record =
  ca_material :: "string option"
  ca_category :: "string option"
  ca_per_kg :: "rat option"
  ca_per_m3 :: "rat option"
  ca_source :: "string option"
  ca_stages :: "string list"
  ca_valid_until :: "string option"
  ca_manufacturer :: "string option"

datatype load_error = Value_Error

definition to_cached :: "epd_record \<Rightarrow> cached_record" where
  "to_cached e = \<lparr>ca_material = Some (ep_material e), ca_category = Some (ep_category e), ca_per_kg = Some (ep_per_kg e),
     ca_per_m3 = ep_per_m3 e, ca_source = Some (ep_source e), ca_stages = map stage_value (ep_stages e),
     ca_valid_until = ep_valid_until e, ca_manufacturer = ep_manufacturer e\<rparr>"

text \<open>\<open>Inl None\<close> is a \<open>KeyError\<close>, \<open>Inl (Some Value_Error)\<close> an unknown life-cycle stage.\<close>

definition from_cached :: "cached_record \<Rightarrow> load_error option + epd_record" where
  "from_cached c =
     (case those (map stage_of_value (ca_stages c)) of
        None \<Rightarrow> Inl (Some Value_Error)
      | Some ss \<Rightarrow>
          (case (ca_material c, ca_category c, ca_per_kg c) of
             (Some m, Some g, Some kg) \<Rightarrow>
               Inr \<lparr>ep_material = m, ep_category = g, ep_per_kg = kg, ep_per_m3 = ca_per_m3 c,
                    ep_source = (case ca_source c of None \<Rightarrow> ''cache'' | Some s \<Rightarrow> s), ep_stages = ss,
                    ep_valid_until = ca_valid_until c, ep_manufacturer = ca_manufacturer c\<rparr>
           | _ \<Rightarrow> Inl None))"

text \<open>Entries read before an error stay; a \<open>KeyError\<close> is logged, a \<open>ValueError\<close> comes out.\<close>

fun load_epds :: "(string, cached_record) dict \<Rightarrow> (string, epd_record) dict \<Rightarrow> (string, epd_record) dict \<times> load_error option" where
  "load_epds [] d = (d, None)"
| "load_epds ((k, c) # cs) d =
     (case from_cached c of
        Inl e \<Rightarrow> (d, e)
      | Inr e \<Rightarrow> load_epds cs (AList.update k e d))"

definition load_cache :: "(string, cached_record) dict \<Rightarrow> epd_database \<Rightarrow> load_error option \<times> epd_database" where
  "load_cache cs db = (case load_epds cs (ed_cache db) of (d, e) \<Rightarrow> (e, db\<lparr>ed_cache := d\<rparr>))"

definition save_cache :: "epd_database \<Rightarrow> (string, cached_record) dict" where
  "save_cache db = map (\<lambda>(k, e). (k, to_cached e)) (ed_cache db)"

subsection \<open>Materials\<close>

text \<open>\<open>None\<close> is the error that a value which is no number raises.\<close>

definition number_or_zero :: "py_values \<Rightarrow> element \<Rightarrow> string \<Rightarrow> rat option" where
  "number_or_zero V e n = (let x = attr_or (At_Number 0) e n in py_float V (if attribute_true x then x else At_Number 0))"

definition text_or :: "py_values \<Rightarrow> string \<Rightarrow> element \<Rightarrow> string \<Rightarrow> string" where
  "text_or V x e n = (let y = attr_or At_None e n in if attribute_true y then attr_text V y else x)"

definition optional_text :: "py_values \<Rightarrow> element \<Rightarrow> string \<Rightarrow> string option" where
  "optional_text V e n = (case attr_or At_None e n of At_None \<Rightarrow> None | x \<Rightarrow> Some (attr_text V x))"

definition extract_material :: "float_arith \<Rightarrow> py_values \<Rightarrow> element \<Rightarrow> material_data option" where
  "extract_material A V e =
     (case (number_or_zero V e ''volume'', number_or_zero V e ''area'', number_or_zero V e ''mass'') of
        (Some v, Some a, Some m) \<Rightarrow>
          (case (case attr_or At_None e ''density'' of At_None \<Rightarrow> Some None | x \<Rightarrow> map_option Some (py_float V x)) of
             None \<Rightarrow> None
           | Some dens \<Rightarrow>
               (let i = attr_text V (attr_or (At_Text []) e ''element_id'') in
                Some \<lparr>md_name = text_or V ''Unknown'' e ''material_name'', md_category = text_or V ''Uncategorized'' e ''category'',
                      md_volume = v, md_area = a,
                      md_mass = (case dens of Some r \<Rightarrow> if m = 0 \<and> 0 < v then fa_mul A v r else m | None \<Rightarrow> m),
                      md_density = dens, md_element = (if i = [] then None else Some i),
                      md_level = optional_text V e ''level'', md_system = optional_text V e ''system''\<rparr>))
      | _ \<Rightarrow> None)"

definition extract_materials :: "float_arith \<Rightarrow> py_values \<Rightarrow> element list \<Rightarrow> material_data list option" where
  "extract_materials A V es = those (map (extract_material A V) es)"

definition add_material :: "float_arith \<Rightarrow> material_data \<Rightarrow> (string, material_data) dict \<Rightarrow> (string, material_data) dict" where
  "add_material A m d =
     (case map_of d (md_name m) of
        Some x \<Rightarrow> AList.update (md_name m) (x\<lparr>md_volume := fa_add A (md_volume x) (md_volume m),
                    md_area := fa_add A (md_area x) (md_area m), md_mass := fa_add A (md_mass x) (md_mass m)\<rparr>) d
      | None \<Rightarrow> AList.update (md_name m) (m\<lparr>md_element := None\<rparr>) d)"

definition aggregate_materials :: "float_arith \<Rightarrow> material_data list \<Rightarrow> material_data list" where
  "aggregate_materials A ms = map snd (fold (add_material A) ms [])"

definition uniformat :: "(string, string) dict" where
  "uniformat = [(''concrete'', ''B1010''), (''steel'', ''B1020''), (''timber'', ''B1030''), (''wood'', ''B1030''),
     (''masonry'', ''B1010''), (''brick'', ''B1010''), (''glass'', ''B2020''), (''aluminum'', ''B2010''),
     (''insulation'', ''B2010''), (''gypsum'', ''C1010''), (''plaster'', ''C1010''), (''roofing'', ''B3010''),
     (''flooring'', ''C3020''), (''carpet'', ''C3020''), (''tile'', ''C3020'')]"

definition masterformat :: "(string, string) dict" where
  "masterformat = [(''concrete'', ''03 00 00''), (''steel'', ''05 00 00''), (''timber'', ''06 00 00''), (''wood'', ''06 00 00''),
     (''masonry'', ''04 00 00''), (''brick'', ''04 00 00''), (''glass'', ''08 80 00''), (''aluminum'', ''05 00 00''),
     (''insulation'', ''07 20 00''), (''gypsum'', ''09 20 00''), (''plaster'', ''09 20 00''), (''roofing'', ''07 50 00''),
     (''flooring'', ''09 60 00''), (''carpet'', ''09 68 00''), (''tile'', ''09 30 00'')]"

definition classify_material :: "string \<Rightarrow> material_data \<Rightarrow> material_data" where
  "classify_material scheme m =
     (case first_key (\<lambda>k. substring k (norm_name (md_name m))) (if scheme = ''MasterFormat'' then masterformat else uniformat) of
        None \<Rightarrow> m
      | Some c \<Rightarrow> m\<lparr>md_category := md_category m @ '' ['' @ c @ '']''\<rparr>)"

subsection \<open>Carbon\<close>

definition default_stages :: "carbon_stage list" where "default_stages = [A1, A2, A3]"

definition compute_carbon :: "float_arith \<Rightarrow> material_data \<Rightarrow> epd_record \<Rightarrow> rat \<times> string" where
  "compute_carbon A m e =
     (if 0 < md_mass m \<and> 0 < ep_per_kg e then (fa_round A 4 (fa_mul A (md_mass m) (ep_per_kg e)), ''mass_based'')
      else
        (case ep_per_m3 e of
           Some g \<Rightarrow> if 0 < md_volume m \<and> 0 < g then (fa_round A 4 (fa_mul A (md_volume m) g), ''volume_based'') else (0, ''no_data'')
         | None \<Rightarrow> (0, ''no_data'')))"

definition carbon_of :: "float_arith \<Rightarrow> epd_database \<Rightarrow> carbon_stage list \<Rightarrow> material_data \<Rightarrow> carbon_result option" where
  "carbon_of A db stages m =
     (case epd_lookup db (md_name m) (Some (md_category m)) of
        None \<Rightarrow> None
      | Some e \<Rightarrow>
          (case compute_carbon A m e of (c, meth) \<Rightarrow>
             Some \<lparr>cr_material = m, cr_epd = e, cr_carbon = c, cr_stages = stages, cr_method = meth\<rparr>))"

definition stages_or_default :: "carbon_stage list option \<Rightarrow> carbon_stage list" where
  "stages_or_default ss = (case ss of None \<Rightarrow> default_stages | Some xs \<Rightarrow> if xs = [] then default_stages else xs)"

definition calculate :: "float_arith \<Rightarrow> epd_database \<Rightarrow> material_data list \<Rightarrow> carbon_stage list option \<Rightarrow> carbon_result list" where
  "calculate A db ms ss = List.map_filter (carbon_of A db (stages_or_default ss)) ms"

text \<open>The asynchronous loop, which also calls \<open>progress\<close> after every material.\<close>

fun calculate_async_loop ::
  "float_arith \<Rightarrow> epd_database \<Rightarrow> carbon_stage list \<Rightarrow> (nat \<Rightarrow> nat \<Rightarrow> 'w \<Rightarrow> 'w) \<Rightarrow> nat \<Rightarrow> nat \<Rightarrow> material_data list \<Rightarrow>
   carbon_result list \<Rightarrow> 'w \<Rightarrow> carbon_result list \<times> 'w" where
  "calculate_async_loop A db ss progress n i [] rs w = (rs, w)"
| "calculate_async_loop A db ss progress n i (m # ms) rs w =
     calculate_async_loop A db ss progress n (Suc i) ms
       (case carbon_of A db ss m of None \<Rightarrow> rs | Some r \<Rightarrow> rs @ [r]) (progress (Suc i) n w)"

definition calculate_async ::
  "float_arith \<Rightarrow> epd_database \<Rightarrow> (nat \<Rightarrow> nat \<Rightarrow> 'w \<Rightarrow> 'w) \<Rightarrow> material_data list \<Rightarrow> carbon_stage list option \<Rightarrow> 'w \<Rightarrow> carbon_result list \<times> 'w" where
  "calculate_async A db progress ms ss w = calculate_async_loop A db (stages_or_default ss) progress (length ms) 0 ms [] w"

definition text_or_unassigned :: "string option \<Rightarrow> string" where
  "text_or_unassigned x = (case x of None \<Rightarrow> ''Unassigned'' | Some s \<Rightarrow> if s = [] then ''Unassigned'' else s)"

definition stage_shares :: "float_arith \<Rightarrow> carbon_result list \<Rightarrow> (string \<times> rat) list" where
  "stage_shares A rs = concat (map (\<lambda>r. map (\<lambda>s. (stage_value s, fa_div A (cr_carbon r) (of_nat (length (cr_stages r))))) (cr_stages r)) rs)"

definition summarize_carbon :: "float_arith \<Rightarrow> string \<Rightarrow> carbon_result list \<Rightarrow> carbon_summary" where
  "summarize_carbon A date rs =
     \<lparr>cs_total = fa_round A 2 (float_total A (map cr_carbon rs)),
      cs_by_material = sum_into A (\<lambda>r. Some (md_name (cr_material r))) cr_carbon rs,
      cs_by_system = sum_into A (\<lambda>r. Some (text_or_unassigned (md_system (cr_material r)))) cr_carbon rs,
      cs_by_level = sum_into A (\<lambda>r. Some (text_or_unassigned (md_level (cr_material r)))) cr_carbon rs,
      cs_by_stage = sum_into A (Some \<circ> fst) snd (stage_shares A rs),
      cs_count = length rs, cs_date = date\<rparr>"

definition riba_targets :: "(string, rat) dict" where
  "riba_targets = [(''residential'', 300), (''office'', 350), (''school'', 300), (''retail'', 350), (''industrial'', 400), (''default'', 350)]"

definition in_or_default :: "(string, rat) dict \<Rightarrow> rat \<Rightarrow> string \<Rightarrow> rat" where
  "in_or_default d x k = (case map_of d k of None \<Rightarrow> x | Some y \<Rightarrow> y)"

record carbon_benchmark =
  cb_actual :: rat
  cb_target :: rat
  cb_rating :: string
  cb_percentile :: rat

definition rate_ratio :: "rat \<Rightarrow> string \<times> rat" where
  "rate_ratio r =
     (if r \<le> 1 / 2 then (''Excellent'', 95) else if r \<le> 3 / 4 then (''Good'', 75) else if r \<le> 1 then (''Acceptable'', 50)
      else if r \<le> 5 / 4 then (''Below Average'', 25) else (''Poor'', 10))"

text \<open>\<open>None\<close> is the error on an area that is not positive. All targets are positive.\<close>

definition benchmark :: "carbon_summary \<Rightarrow> rat \<Rightarrow> string \<Rightarrow> carbon_benchmark option" where
  "benchmark s area kind =
     (if area \<le> 0 then None
      else
        let actual = cs_total s / area; target = in_or_default riba_targets 350 (py_lower kind) in
        case rate_ratio (actual / target) of (rating, pct) \<Rightarrow>
          Some \<lparr>cb_actual = py_round 2 actual, cb_target = target, cb_rating = rating, cb_percentile = pct\<rparr>)"

subsection \<open>Compliance\<close>

datatype compliance_standard = LL97 | BERDO | EPBD | ASHRAE_90_1

datatype detail = D_Text string | D_Number rat

record compliance_result =
  co_standard :: compliance_standard
  co_passed :: bool
  co_threshold :: rat
  co_actual :: rat
  co_unit :: string
  co_recommendations :: "string list"
  co_details :: "(string \<times> detail) list"

text \<open>The entries of \<open>building_data\<close>.\<close>

record building_data =
  bd_area_sqft :: "rat option"
  bd_area_m2 :: "rat option"
  bd_emissions_t :: "rat option"
  bd_emissions_kg :: "rat option"
  bd_energy :: "rat option"
  bd_occupancy :: "string option"
  bd_type :: "string option"
  bd_wall :: "rat option"
  bd_roof :: "rat option"
  bd_window :: "rat option"
  bd_glazing :: "rat option"
  bd_tightness :: "rat option"

definition number_default :: "rat \<Rightarrow> rat option \<Rightarrow> rat" where
  "number_default x y = (case y of None \<Rightarrow> x | Some z \<Rightarrow> z)"

definition kind_of :: "string option \<Rightarrow> string" where
  "kind_of x = py_lower (case x of None \<Rightarrow> ''default'' | Some s \<Rightarrow> s)"

definition ll97_limits :: "(string, rat) dict" where
  "ll97_limits = [(''office'', 846 / 100000), (''residential'', 675 / 100000), (''retail'', 1074 / 100000), (''hotel'', 987 / 100000),
     (''healthcare'', 2381 / 100000), (''education'', 758 / 100000), (''warehouse'', 574 / 100000), (''default'', 846 / 100000)]"

definition berdo_limits :: "(string, rat) dict" where
  "berdo_limits = [(''office'', 54 / 10), (''residential'', 36 / 10), (''retail'', 61 / 10), (''education'', 48 / 10), (''default'', 54 / 10)]"

definition epbd_limits :: "(string, rat) dict" where
  "epbd_limits = [(''residential'', 100), (''office'', 120), (''retail'', 130), (''education'', 110), (''default'', 120)]"

definition ll97_recommendations :: "rat \<Rightarrow> rat \<Rightarrow> bool \<Rightarrow> string list" where
  "ll97_recommendations actual limit passed =
     (if passed then []
      else [''Upgrade HVAC systems to high-efficiency equipment'', ''Install building energy management system (BEMS)'',
            ''Consider on-site renewable energy generation''] @
           (if 1 / 2 < (if 0 < limit then (actual - limit) / limit else 0)
            then [''Significant reduction needed: consider deep retrofit''] else []))"

definition berdo_recommendations :: "bool \<Rightarrow> string list" where
  "berdo_recommendations passed =
     (if passed then []
      else [''Improve building envelope insulation'', ''Electrify heating systems (heat pumps)'',
            ''Procure renewable energy certificates (RECs)''])"

definition epbd_recommendations :: "bool \<Rightarrow> string list" where
  "epbd_recommendations passed =
     (if passed then []
      else [''Improve thermal insulation of building envelope'', ''Install high-performance glazing systems'',
            ''Integrate renewable energy systems (solar PV, heat pumps)''])"

definition check_ll97 :: "building_data \<Rightarrow> compliance_result option" where
  "check_ll97 b =
     (let area = number_default 0 (bd_area_sqft b); emissions = number_default 0 (bd_emissions_t b); occ = kind_of (bd_occupancy b) in
      if area \<le> 0 then None
      else
        let limit = in_or_default ll97_limits (846 / 100000) occ; actual = emissions / area; passed = (actual \<le> limit) in
        Some \<lparr>co_standard = LL97, co_passed = passed, co_threshold = limit, co_actual = py_round 6 actual, co_unit = ''tCO2e/sqft/year'',
              co_recommendations = ll97_recommendations actual limit passed,
              co_details = [(''occupancy_type'', D_Text occ), (''area_sqft'', D_Number area),
                (''annual_emissions_tco2e'', D_Number emissions), (''limit_period'', D_Text ''2024-2029'')]\<rparr>)"

definition check_berdo :: "building_data \<Rightarrow> compliance_result option" where
  "check_berdo b =
     (let area = number_default 0 (bd_area_sqft b); emissions = number_default 0 (bd_emissions_kg b); kind = kind_of (bd_type b) in
      if area \<le> 0 then None
      else
        let limit = in_or_default berdo_limits (54 / 10) kind; actual = emissions / area; passed = (actual \<le> limit) in
        Some \<lparr>co_standard = BERDO, co_passed = passed, co_threshold = limit, co_actual = py_round 4 actual, co_unit = ''kgCO2e/sqft/year'',
              co_recommendations = berdo_recommendations passed,
              co_details = [(''building_type'', D_Text kind), (''area_sqft'', D_Number area),
                (''annual_emissions_kgco2e'', D_Number emissions)]\<rparr>)"

definition check_epbd :: "building_data \<Rightarrow> compliance_result option" where
  "check_epbd b =
     (let area = number_default 0 (bd_area_m2 b); energy = number_default 0 (bd_energy b); kind = kind_of (bd_type b) in
      if area \<le> 0 then None
      else
        let limit = in_or_default epbd_limits 120 kind; actual = energy / area; passed = (actual \<le> limit) in
        Some \<lparr>co_standard = EPBD, co_passed = passed, co_threshold = limit, co_actual = py_round 2 actual, co_unit = ''kWh/m2/year'',
              co_recommendations = epbd_recommendations passed,
              co_details = [(''building_type'', D_Text kind), (''area_m2'', D_Number area), (''primary_energy_kwh'', D_Number energy)]\<rparr>)"

record envelope_data =
  en_wall :: rat
  en_roof :: rat
  en_window :: rat
  en_glazing :: rat
  en_tightness :: "rat option"

text \<open>\<open>show\<close> is the text of a number.\<close>

definition envelope_failures :: "(rat \<Rightarrow> string) \<Rightarrow> envelope_data \<Rightarrow> string list" where
  "envelope_failures num e =
     (if en_wall e < 13 then [''Wall R-value '' @ num (en_wall e) @ '' below minimum '' @ num 13] else []) @
     (if en_roof e < 25 then [''Roof R-value '' @ num (en_roof e) @ '' below minimum '' @ num 25] else []) @
     (if 38 / 100 < en_window e then [''Window U-value '' @ num (en_window e) @ '' above maximum '' @ num (38 / 100)] else []) @
     (if 4 / 10 < en_glazing e then [''Glazing ratio '' @ num (en_glazing e) @ '' above maximum '' @ num (4 / 10)] else [])"

definition check_ashrae :: "(rat \<Rightarrow> string) \<Rightarrow> envelope_data \<Rightarrow> compliance_result" where
  "check_ashrae num e =
     (let fs = envelope_failures num e; passed = (fs = []) in
      \<lparr>co_standard = ASHRAE_90_1, co_passed = passed, co_threshold = 1,
       co_actual = py_round 2 ((4 - of_nat (length fs)) / 4), co_unit = ''compliance_ratio'',
       co_recommendations = (if passed then [''All envelope criteria met''] else fs),
       co_details = [(''wall_r_value'', D_Number (en_wall e)), (''wall_r_min'', D_Number 13), (''roof_r_value'', D_Number (en_roof e)),
         (''roof_r_min'', D_Number 25), (''window_u_value'', D_Number (en_window e)), (''window_u_max'', D_Number (38 / 100)),
         (''glazing_ratio'', D_Number (en_glazing e)), (''glazing_ratio_max'', D_Number (4 / 10))]\<rparr>)"

definition envelope_of :: "building_data \<Rightarrow> envelope_data" where
  "envelope_of b = \<lparr>en_wall = number_default 0 (bd_wall b), en_roof = number_default 0 (bd_roof b), en_window = number_default 1 (bd_window b),
     en_glazing = number_default (1 / 2) (bd_glazing b), en_tightness = bd_tightness b\<rparr>"

definition check_standard :: "(rat \<Rightarrow> string) \<Rightarrow> compliance_standard \<Rightarrow> building_data \<Rightarrow> compliance_result option" where
  "check_standard num s b =
     (case s of LL97 \<Rightarrow> check_ll97 b | BERDO \<Rightarrow> check_berdo b | EPBD \<Rightarrow> check_epbd b
      | ASHRAE_90_1 \<Rightarrow> Some (check_ashrae num (envelope_of b)))"

fun unique_texts :: "string list \<Rightarrow> string list \<Rightarrow> string list" where
  "unique_texts seen [] = []"
| "unique_texts seen (x # xs) = (if x \<in> set seen then unique_texts seen xs else x # unique_texts (x # seen) xs)"

definition get_recommendations :: "compliance_result \<Rightarrow> string list" where
  "get_recommendations r =
     (if co_passed r then [''Compliance achieved. Consider exceeding targets.'']
      else unique_texts []
        (co_recommendations r @
         (case co_standard r of
            LL97 \<Rightarrow> ll97_recommendations (co_actual r) (co_threshold r) (co_passed r)
          | BERDO \<Rightarrow> berdo_recommendations (co_passed r)
          | EPBD \<Rightarrow> epbd_recommendations (co_passed r)
          | ASHRAE_90_1 \<Rightarrow> [])))"

subsection \<open>Reports\<close>

text \<open>A line of the table of materials: the name, its carbon and its percentage.\<close>

definition carbon_rows :: "carbon_summary \<Rightarrow> (string \<times> rat \<times> rat) list" where
  "carbon_rows s =
     map (\<lambda>(m, c). (m, c, if 0 < cs_total s then c / cs_total s * 100 else 0)) (sort_key (\<lambda>x. - snd x) (cs_by_material s))"

datatype certification_system = LEED | BREEAM | WELL | GREENSTAR | DGNB

definition leed_points :: "carbon_summary \<Rightarrow> nat" where
  "leed_points s = (if 5 \<le> cs_count s then 3 else if 3 \<le> cs_count s then 2 else 1)"

definition breeam_credits :: "carbon_summary \<Rightarrow> nat" where
  "breeam_credits s = (if 5 \<le> cs_count s then 6 else if 3 \<le> cs_count s then 4 else 2)"

text \<open>The credits of a certification: their key, the materials they apply to, and the points, if given.\<close>

definition certification_credits :: "carbon_summary \<Rightarrow> certification_system \<Rightarrow> (string \<times> string list \<times> nat option) list" where
  "certification_credits s c =
     (let ms = map fst (cs_by_material s) in
      case c of
        LEED \<Rightarrow> [(''MRc1'', ms, Some (leed_points s))]
      | BREEAM \<Rightarrow> [(''Mat01'', ms, Some (breeam_credits s))]
      | DGNB \<Rightarrow> [(''ENV1.1'', ms, None)]
      | GREENSTAR \<Rightarrow> [(''Materials'', ms, None)]
      | WELL \<Rightarrow> [])"

subsection \<open>Facts on carbon\<close>

lemma compute_carbon_nonneg:
  assumes "float_ok u A"
  shows "0 \<le> fst (compute_carbon A m e)"
proof -
  note fl = float_okD [OF assms]
  have "0 \<le> fa_round A 4 (fa_mul A x y)" if "0 < x" "0 < y" for x y
  proof -
    have "0 \<le> fa_mul A x y" using close_to_nonneg [OF fl(5) fl(2)] that by simp
    then show ?thesis using close_to_nonneg [OF fl(7) fl(2)] py_round_nonneg by simp
  qed
  then show ?thesis by (simp add: compute_carbon_def split: option.splits)
qed

lemma calculate_carbon_nonneg:
  assumes "float_ok u A" and "r \<in> set (calculate A db ms ss)"
  shows "0 \<le> cr_carbon r"
proof -
  obtain m e where "cr_carbon r = fst (compute_carbon A m e)"
    using assms(2) by (auto simp: calculate_def List.map_filter_def carbon_of_def case_prod_beta split: option.splits)
  with compute_carbon_nonneg [OF assms(1)] show ?thesis by simp
qed

lemma calculate_stages: "r \<in> set (calculate A db ms ss) \<Longrightarrow> cr_stages r \<noteq> []"
  by (auto simp: calculate_def List.map_filter_def carbon_of_def stages_or_default_def default_stages_def
      split: option.splits prod.splits if_splits)

lemma stage_shares_sum:
  assumes "float_ok u A" and "\<forall>r \<in> set rs. cr_stages r \<noteq> [] \<and> 0 \<le> cr_carbon r"
  shows "close_to u 1 (sum_list (map snd (stage_shares A rs))) (sum_list (map cr_carbon rs))"
    and "\<forall>p \<in> set (stage_shares A rs). 0 \<le> snd p"
proof -
  let ?n = "\<lambda>r. length (cr_stages r)" and ?q = "\<lambda>r. fa_div A (cr_carbon r) (of_nat (length (cr_stages r)))"
  have q: "close_to u 1 (?q r) (cr_carbon r / of_nat (?n r))" if "r \<in> set rs" for r
    using float_okD(6) [OF assms(1)] assms(2) that by simp
  have "close_to u 1 (of_nat (?n r) * ?q r) (cr_carbon r)" if "r \<in> set rs" for r
    using q [OF that] assms(2) that by (simp add: close_to_def field_simps)
  then have "close_to u 1 (sum_list (map (\<lambda>r. of_nat (?n r) * ?q r) rs)) (sum_list (map cr_carbon rs))"
    by (rule close_to_sum)
  moreover have "sum_list (map snd (stage_shares A rs)) = sum_list (map (\<lambda>r. of_nat (?n r) * ?q r) rs)"
    by (induction rs) (simp_all add: stage_shares_def comp_def sum_list_triv)
  ultimately show "close_to u 1 (sum_list (map snd (stage_shares A rs))) (sum_list (map cr_carbon rs))" by simp
  show "\<forall>p \<in> set (stage_shares A rs). 0 \<le> snd p"
    using close_to_nonneg [OF q float_okD(2) [OF assms(1)]] assms(2) by (auto simp: stage_shares_def)
qed

text \<open>
  The breakdowns of a summary by material, system and level each add up, as far as float
  arithmetic does, to the carbon \<open>c\<close> of the \<open>n\<close> results: with relative error \<open>u\<close> in every operation their
  entries together are between (1 - u)^n and (1 + u)^n times \<open>c\<close>. Those by stage, which also divide, are
  within the factor of one operation more than there are shares. The reported total is the float
  next to a total of that kind, rounded to two decimals.
\<close>

lemma carbon_breakdowns_agree:
  assumes "float_ok u A"
  shows "let rs = calculate A db ms ss; s = summarize_carbon A date rs; c = sum_list (map cr_carbon rs); n = length rs;
      t = float_total A (map cr_carbon rs) in
    close_to u n (dict_total (cs_by_material s)) c \<and> close_to u n (dict_total (cs_by_system s)) c \<and>
    close_to u n (dict_total (cs_by_level s)) c \<and> close_to u (Suc (length (stage_shares A rs))) (dict_total (cs_by_stage s)) c \<and>
    close_to u n t c \<and> \<bar>py_round 2 t - t\<bar> \<le> 1 / 200 \<and> close_to u 1 (cs_total s) (py_round 2 t)"
proof -
  define rs where "rs = calculate A db ms ss"
  let ?t = "float_total A (map cr_carbon rs)" and ?sh = "stage_shares A rs"
  note fl = float_okD [OF assms]
  have pos: "\<forall>r \<in> set rs. 0 \<le> cr_carbon r" and st: "\<forall>r \<in> set rs. cr_stages r \<noteq> [] \<and> 0 \<le> cr_carbon r"
    using calculate_carbon_nonneg [OF assms] calculate_stages by (auto simp: rs_def)
  have sums: "close_to u (length rs) (dict_total (sum_into A (\<lambda>r. Some (f r)) cr_carbon rs)) (sum_list (map cr_carbon rs))"
    for f :: "carbon_result \<Rightarrow> string"
    using sum_into_within [OF assms pos, of "\<lambda>r. Some (f r)"] by simp
  have "close_to u (length ?sh) (dict_total (sum_into A (Some \<circ> fst) snd ?sh)) (sum_list (map snd ?sh))"
    using sum_into_within [OF assms stage_shares_sum(2) [OF assms st], of "Some \<circ> fst"] by simp
  from close_to_trans [OF this stage_shares_sum(1) [OF assms st] fl(1,2)]
  have stage: "close_to u (Suc (length ?sh)) (dict_total (sum_into A (Some \<circ> fst) snd ?sh)) (sum_list (map cr_carbon rs))"
    by simp
  have t: "close_to u (length rs) ?t (sum_list (map cr_carbon rs))" "0 \<le> ?t"
    using float_total_within [OF assms, of "map cr_carbon rs"] float_total_nonneg [OF assms, of "map cr_carbon rs"] pos by simp_all
  show ?thesis
    using sums stage t fl(7) [OF t(2), of 2] py_round_close [of 2 ?t]
    by (simp add: Let_def summarize_carbon_def rs_def [symmetric])
qed

definition sample_material :: "string \<Rightarrow> rat \<Rightarrow> string option \<Rightarrow> material_data" where
  "sample_material n v l = \<lparr>md_name = n, md_category = ''c'', md_volume = v, md_area = 0, md_mass = 0, md_density = None,
     md_element = None, md_level = l, md_system = None\<rparr>"

lemma carbon_breakdowns_agree_witness:
  "let rs = calculate exact_arith (new_epd_database None)
       [sample_material ''Concrete'' (1 / 3) (Some ''L1''), sample_material ''Brick'' 2 None] (Some [A1, A3]);
       s = summarize_carbon exact_arith ''now'' rs in
     dict_total (cs_by_material s) = 968 \<and> dict_total (cs_by_system s) = 968 \<and> dict_total (cs_by_level s) = 968 \<and>
     dict_total (cs_by_stage s) = 968 \<and> cs_total s = 968"
proof -
  let ?ms = "[sample_material ''Concrete'' (1 / 3) (Some ''L1''), sample_material ''Brick'' 2 None]"
  have "epd_lookup (new_epd_database None) ''Concrete'' (Some ''c'') = Some (generic_epd ''Concrete'' ''Concrete'' (13 / 100) 312)"
    "epd_lookup (new_epd_database None) ''Brick'' (Some ''c'') = Some (generic_epd ''Brick'' ''Masonry'' (24 / 100) 432)"
    by code_simp+
  then have "map cr_carbon (calculate exact_arith (new_epd_database None) ?ms (Some [A1, A3])) = [104, 864]"
    using py_round_of_int [of 4 104] py_round_of_int [of 4 864]
    by (simp add: calculate_def List.map_filter_simps carbon_of_def sample_material_def compute_carbon_def generic_epd_def)
  with carbon_breakdowns_agree [OF float_ok_exact, of "new_epd_database None" ?ms "Some [A1, A3]" "''now''"] py_round_of_int [of 2 968]
  show ?thesis by (simp add: Let_def)
qed

text \<open>The carbon of a material in the summary is the sum, in order, of that of the results for it.\<close>

lemma carbon_by_material:
  "map_of (cs_by_material (summarize_carbon A date rs)) n =
     (if \<exists>r \<in> set rs. md_name (cr_material r) = n
      then Some (float_total A (map cr_carbon (filter (\<lambda>r. md_name (cr_material r) = n) rs))) else None)"
  by (simp add: summarize_carbon_def sum_into_lookup)

text \<open>The asynchronous calculation gives the results of the synchronous one, and reports each material once.\<close>

lemma calculate_async_is_calculate:
  "calculate_async A db (\<lambda>i n w. w @ [(i, n)]) ms ss w =
     (calculate A db ms ss, w @ map (\<lambda>i. (i, length ms)) [1..<Suc (length ms)])"
proof -
  have "calculate_async_loop A db st (\<lambda>i n w. w @ [(i, n)]) n i ms rs w =
      (rs @ List.map_filter (carbon_of A db st) ms, w @ map (\<lambda>i. (i, n)) [Suc i..<Suc (i + length ms)])" for st n i rs w
  proof (induction ms arbitrary: i rs w)
    case (Cons m ms)
    have "[Suc i..<Suc (i + length (m # ms))] = Suc i # [Suc (Suc i)..<Suc (Suc i + length ms)]"
      by (subst upt_conv_Cons) simp_all
    with Cons show ?case by (simp add: List.map_filter_simps del: upt_Suc split: option.splits)
  qed (simp add: List.map_filter_simps)
  then show ?thesis by (cases ms) (simp_all add: calculate_async_def calculate_def del: upt_Suc)
qed

text \<open>A benchmark fails exactly on an area that is not positive; more carbon never rates better.\<close>

lemma rate_ratio_antimono: "r \<le> r' \<Longrightarrow> snd (rate_ratio r') \<le> snd (rate_ratio r)"
  by (auto simp: rate_ratio_def)

lemma riba_target_pos: "0 < in_or_default riba_targets 350 k"
  by (auto simp: in_or_default_def riba_targets_def split: option.splits if_splits)

lemma benchmark_monotone:
  assumes "benchmark s area kind = Some b" "benchmark s' area kind = Some b'" "cs_total s \<le> cs_total s'"
  shows "0 < area \<and> cb_percentile b' \<le> cb_percentile b \<and> cb_target b = cb_target b'"
proof -
  let ?t = "in_or_default riba_targets 350 (py_lower kind)"
  have area: "0 < area" using assms(1) by (auto simp: benchmark_def split: if_splits)
  have "cs_total s / area / ?t \<le> cs_total s' / area / ?t"
    using assms(3) area riba_target_pos [of "py_lower kind"] by (intro divide_right_mono) auto
  note rate_ratio_antimono [OF this]
  with area assms(1,2) show ?thesis by (auto simp: benchmark_def Let_def split: prod.splits)
qed

definition sample_summary :: "rat \<Rightarrow> carbon_summary" where
  "sample_summary c = \<lparr>cs_total = c, cs_by_material = [], cs_by_system = [], cs_by_level = [], cs_by_stage = [], cs_count = 0, cs_date = []\<rparr>"

lemma benchmark_monotone_witness:
  "(0 :: rat) < 100 \<and> (10 :: rat) \<le> 75 \<and> (350 :: rat) = 350"
  using benchmark_monotone [of "sample_summary 20000" 100 "''Office''" _ "sample_summary 90000"]
  by (simp add: benchmark_def sample_summary_def in_or_default_def riba_targets_def py_lower_def lower_letter_def rate_ratio_def)

subsection \<open>Facts on the EPD database\<close>

text \<open>A material without a name, or whose name is blank, gets the first record of the cache.\<close>

lemma nameless_material_matches:
  assumes "norm_name name = []" "map_of (ed_cache db) [] = None" "ed_cache db \<noteq> []"
  shows "epd_lookup db name category = Some (snd (hd (ed_cache db)))"
  using assms by (simp add: epd_lookup_def Let_def first_key_hd)

lemma nameless_material_matches_witness:
  "epd_lookup (new_epd_database None) '' '' None = Some (generic_epd ''Concrete'' ''Concrete'' (13 / 100) 312)"
  by (subst nameless_material_matches)
    (simp_all add: norm_name_def py_lower_def py_strip_def is_space_def lower_letter_def new_epd_database_def generic_epds_def)

text \<open>What a lookup finds is in the cache or among the generic records.\<close>

lemma lookup_known:
  assumes "epd_lookup db name category = Some e"
  shows "e \<in> snd ` set (ed_cache db) \<union> snd ` set generic_epds"
proof -
  have "get_generic_epd c = Some e \<Longrightarrow> e \<in> snd ` set generic_epds" for c
    by (auto simp: get_generic_epd_def Let_def find_Some_iff split: option.splits dest!: map_of_SomeD first_key_in
        intro: rev_image_eqI)
  with assms show ?thesis
    by (auto simp: epd_lookup_def Let_def split: option.splits if_splits dest!: map_of_SomeD first_key_in intro: rev_image_eqI)
qed

text \<open>A record that the service gave is found in the cache afterwards.\<close>

lemma async_lookup_is_cached:
  assumes "epd_lookup_async service name category db = (Inr (Some e), db')"
  shows "epd_lookup db' name category = Some e \<and> (db' = db \<or> map_of (ed_cache db') (norm_name name) = Some e)"
  using assms by (auto simp: epd_lookup_async_def epd_lookup_def Let_def split: option.splits if_splits sum.splits list.splits)

lemma async_lookup_is_cached_witness:
  "epd_lookup (snd (epd_lookup_async (\<lambda>n c. Inr [\<lparr>ei_name = None, ei_category = None, ei_gwp = Some 2, ei_manufacturer = None\<rparr>])
      ''Cork'' None (new_epd_database (Some ''t'')))) ''Cork'' None =
   Some (ec3_record ''Cork'' [] \<lparr>ei_name = None, ei_category = None, ei_gwp = Some 2, ei_manufacturer = None\<rparr>)"
proof -
  let ?s = "\<lambda>n c. Inr [\<lparr>ei_name = None, ei_category = None, ei_gwp = Some 2, ei_manufacturer = None\<rparr>] :: string + ec3_item list"
  let ?r = "ec3_record ''Cork'' [] \<lparr>ei_name = None, ei_category = None, ei_gwp = Some 2, ei_manufacturer = None\<rparr>"
  have "epd_lookup (new_epd_database (Some ''t'')) ''Cork'' None = None" by code_simp
  then have "epd_lookup_async ?s ''Cork'' None (new_epd_database (Some ''t'')) =
      (Inr (Some ?r), snd (epd_lookup_async ?s ''Cork'' None (new_epd_database (Some ''t''))))"
    by (simp add: epd_lookup_async_def new_epd_database_def has_text_def Let_def)
  from async_lookup_is_cached [OF this] show ?thesis by (rule conjunct1)
qed

text \<open>A saved cache is read back into a new database, whatever its token.\<close>

lemma stage_roundtrip: "stage_of_value (stage_value s) = Some s"
  by (cases s) (simp_all add: stage_of_value_def carbon_stages_def)

lemma cached_roundtrip: "from_cached (to_cached e) = Inr e"
proof -
  have "those (map (stage_of_value \<circ> stage_value) ss) = Some ss" for ss
    by (induction ss) (simp_all add: stage_roundtrip)
  then show ?thesis by (simp add: from_cached_def to_cached_def)
qed

lemma load_saved: "load_epds (map (\<lambda>(k, e). (k, to_cached e)) d) d1 = (fold (\<lambda>(k, e). AList.update k e) d d1, None)"
  by (induction d arbitrary: d1) (auto simp: cached_roundtrip)

lemma map_of_fold_update: "dict_ok d \<Longrightarrow> map_of (fold (\<lambda>(k, e). AList.update k e) d d1) = map_of d1 ++ map_of d"
proof (induction d arbitrary: d1)
  case (Cons p d)
  obtain k e where p: "p = (k, e)" by fastforce
  with Cons show ?case by (simp add: map_add_upd_left dom_map_of_conv_image_fst del: fun_upd_apply)
qed simp

lemma epd_cache_roundtrip:
  assumes "dict_ok (ed_cache db)" "fst ` set generic_epds \<subseteq> fst ` set (ed_cache db)"
  shows "fst (load_cache (save_cache db) (new_epd_database t)) = None \<and>
    map_of (ed_cache (snd (load_cache (save_cache db) (new_epd_database t)))) = map_of (ed_cache db)"
proof -
  have "map_of generic_epds ++ map_of (ed_cache db) = map_of (ed_cache db)"
    using assms(2) by (auto simp: map_add_def fun_eq_iff split: option.splits) (metis map_of_None_keys subsetD)
  with assms(1) show ?thesis
    by (simp add: load_cache_def save_cache_def new_epd_database_def load_saved map_of_fold_update)
qed

lemma epd_cache_roundtrip_witness:
  "map_of (ed_cache (snd (load_cache (save_cache (new_epd_database None)) (new_epd_database (Some ''t''))))) = map_of generic_epds"
  using epd_cache_roundtrip [of "new_epd_database None" "Some ''t''"]
  by (simp add: new_epd_database_def) (simp add: generic_epds_def)

text \<open>A search with limit 0 can still give a result.\<close>

lemma search_limit_zero:
  assumes "ed_cache db = (k, e) # d" "overlaps (norm_name q) k"
  shows "epd_search service q 0 db = [e]"
  using assms by (simp add: epd_search_def Let_def)

subsection \<open>Facts on compliance\<close>

lemma limits_are_round:
  "py_round 6 (in_or_default ll97_limits (846 / 100000) k) = in_or_default ll97_limits (846 / 100000) k"
  "py_round 4 (in_or_default berdo_limits (54 / 10) k) = in_or_default berdo_limits (54 / 10) k"
  "py_round 2 (in_or_default epbd_limits 120 k) = in_or_default epbd_limits 120 k"
  by (auto simp: in_or_default_def ll97_limits_def berdo_limits_def epbd_limits_def py_round_def round_even_def)

text \<open>
  A standard that is met has no recommendations, and its reported value does not exceed the
  threshold; one that is not met has at least three. ASHRAE 90.1 counts its criteria instead.
\<close>

lemma compliance_verdict:
  assumes "check_standard num s b = Some r" "s \<noteq> ASHRAE_90_1"
  shows "co_standard r = s \<and> (co_passed r \<longleftrightarrow> co_recommendations r = []) \<and> (co_passed r \<longrightarrow> co_actual r \<le> co_threshold r) \<and>
    (\<not> co_passed r \<longrightarrow> 3 \<le> length (co_recommendations r))"
proof -
  have "py_round 6 a \<le> in_or_default ll97_limits (846 / 100000) k" if "a \<le> in_or_default ll97_limits (846 / 100000) k" for a k
    using py_round_mono [OF that, of 6] by (simp only: limits_are_round)
  moreover have "py_round 4 a \<le> in_or_default berdo_limits (54 / 10) k" if "a \<le> in_or_default berdo_limits (54 / 10) k" for a k
    using py_round_mono [OF that, of 4] by (simp only: limits_are_round)
  moreover have "py_round 2 a \<le> in_or_default epbd_limits 120 k" if "a \<le> in_or_default epbd_limits 120 k" for a k
    using py_round_mono [OF that, of 2] by (simp only: limits_are_round)
  ultimately show ?thesis
    using assms
    by (cases s) (auto simp: check_standard_def check_ll97_def check_berdo_def check_epbd_def Let_def ll97_recommendations_def
        berdo_recommendations_def epbd_recommendations_def split: if_splits)
qed

definition no_building_data :: building_data where
  "no_building_data = \<lparr>bd_area_sqft = None, bd_area_m2 = None, bd_emissions_t = None, bd_emissions_kg = None, bd_energy = None,
     bd_occupancy = None, bd_type = None, bd_wall = None, bd_roof = None, bd_window = None, bd_glazing = None, bd_tightness = None\<rparr>"

definition sample_building :: "rat \<Rightarrow> building_data" where
  "sample_building e = no_building_data\<lparr>bd_area_m2 := Some 1000, bd_energy := Some e, bd_type := Some ''office''\<rparr>"

lemma sample_building_check:
  "check_epbd (sample_building e) = Some \<lparr>co_standard = EPBD, co_passed = (e / 1000 \<le> 120), co_threshold = 120,
     co_actual = py_round 2 (e / 1000), co_unit = ''kWh/m2/year'', co_recommendations = epbd_recommendations (e / 1000 \<le> 120),
     co_details = [(''building_type'', D_Text ''office''), (''area_m2'', D_Number 1000), (''primary_energy_kwh'', D_Number e)]\<rparr>"
  by (simp add: check_epbd_def sample_building_def no_building_data_def number_default_def kind_of_def py_lower_def lower_letter_def
      in_or_default_def epbd_limits_def Let_def)

lemma compliance_verdict_witness:
  "EPBD = EPBD \<and> (True \<longleftrightarrow> epbd_recommendations True = []) \<and> (True \<longrightarrow> py_round 2 100 \<le> 120) \<and> (\<not> True \<longrightarrow> 3 \<le> length (epbd_recommendations True))"
  using compliance_verdict [of "\<lambda>x. []" EPBD "sample_building 100000"]
  by (simp add: check_standard_def sample_building_check)

text \<open>A building that fails can be reported with a value that equals the threshold: the value is rounded, the verdict is not.\<close>

lemma failed_value_can_equal_threshold:
  "\<exists>b r. check_epbd b = Some r \<and> \<not> co_passed r \<and> co_actual r = co_threshold r"
proof -
  have "\<lfloor>120001 / 10 :: rat\<rfloor> = 12000" by (simp add: floor_eq_iff)
  then have "co_actual (the (check_epbd (sample_building 120001))) = 120"
    by (simp add: sample_building_check py_round_def round_even_def Let_def)
  then show ?thesis by (intro exI [of _ "sample_building 120001"]) (simp add: sample_building_check)
qed

text \<open>An envelope passes exactly when none of its four values is out of bounds; the reported value counts them.\<close>

lemma ashrae_verdict:
  "co_passed (check_ashrae num e) \<longleftrightarrow> 13 \<le> en_wall e \<and> 25 \<le> en_roof e \<and> en_window e \<le> 38 / 100 \<and> en_glazing e \<le> 4 / 10"
  by (auto simp: check_ashrae_def envelope_failures_def Let_def)

lemma unique_texts_set: "set (unique_texts seen xs) = set xs - set seen"
  by (induction xs arbitrary: seen) auto

lemma unique_texts_distinct: "distinct (unique_texts seen xs)"
  by (induction xs arbitrary: seen) (auto simp: unique_texts_set)

text \<open>The recommendations of a result are never repeated, never empty, and keep those that the check gave.\<close>

lemma recommendations_complete:
  "distinct (get_recommendations r) \<and> (\<not> co_passed r \<longrightarrow> set (co_recommendations r) \<subseteq> set (get_recommendations r))"
  by (simp add: get_recommendations_def unique_texts_distinct unique_texts_set)

subsection \<open>Facts on materials\<close>

definition material_total :: "(material_data \<Rightarrow> rat) \<Rightarrow> (string, material_data) dict \<Rightarrow> rat" where
  "material_total f d = sum_list (map (f \<circ> snd) d)"

lemma material_total_update:
  "dict_ok d \<Longrightarrow> material_total f (AList.update k x d) =
     material_total f d + f x - (case map_of d k of None \<Rightarrow> 0 | Some y \<Rightarrow> f y)"
  by (induction d) (auto simp: material_total_def map_of_None_keys split: option.splits)

lemma add_material_invariant:
  assumes "dict_ok d" "\<forall>(k, x) \<in> set d. md_name x = k"
  shows "dict_ok (add_material exact_arith m d)" "\<forall>(k, x) \<in> set (add_material exact_arith m d). md_name x = k"
    "fst ` set (add_material exact_arith m d) = insert (md_name m) (fst ` set d)"
    "material_total md_volume (add_material exact_arith m d) = material_total md_volume d + md_volume m"
    "material_total md_area (add_material exact_arith m d) = material_total md_area d + md_area m"
    "material_total md_mass (add_material exact_arith m d) = material_total md_mass d + md_mass m"
proof -
  have name: "md_name x = md_name m" if "map_of d (md_name m) = Some x" for x
    using assms(2) map_of_SomeD [OF that] by auto
  show "dict_ok (add_material exact_arith m d)" using assms(1) by (simp add: add_material_def split: option.splits)
  show "\<forall>(k, x) \<in> set (add_material exact_arith m d). md_name x = k"
  proof (clarify)
    fix k x assume x: "(k, x) \<in> set (add_material exact_arith m d)"
    obtain y where "add_material exact_arith m d = AList.update (md_name m) y d" "md_name y = md_name m"
    proof (cases "map_of d (md_name m)")
      case None
      then show thesis by (intro that [of "m\<lparr>md_element := None\<rparr>"]) (simp_all add: add_material_def)
    next
      case (Some z)
      with name [OF Some] show thesis
        by (intro that [of "z\<lparr>md_volume := md_volume z + md_volume m, md_area := md_area z + md_area m, md_mass := md_mass z + md_mass m\<rparr>"])
          (simp_all add: add_material_def)
    qed
    with x set_update_subset_pairs [of "(k, x)" "md_name m" y d] assms(2) show "md_name x = k" by auto
  qed
  show "fst ` set (add_material exact_arith m d) = insert (md_name m) (fst ` set d)" by (simp add: add_material_def split: option.splits)
  show "material_total md_volume (add_material exact_arith m d) = material_total md_volume d + md_volume m"
    "material_total md_area (add_material exact_arith m d) = material_total md_area d + md_area m"
    "material_total md_mass (add_material exact_arith m d) = material_total md_mass d + md_mass m"
    using assms(1) by (simp_all add: add_material_def material_total_update split: option.splits)
qed

text \<open>
  Aggregation gives one entry per material name, and with exact additions keeps the total volume, area and mass.
\<close>

lemma aggregation_keeps_totals:
  "let as = aggregate_materials exact_arith ms in
     distinct (map md_name as) \<and> set (map md_name as) = set (map md_name ms) \<and>
     sum_list (map md_volume as) = sum_list (map md_volume ms) \<and> sum_list (map md_area as) = sum_list (map md_area ms) \<and>
     sum_list (map md_mass as) = sum_list (map md_mass ms)"
proof -
  let ?d = "fold (add_material exact_arith) ms []"
  have inv: "dict_ok ?d \<and> (\<forall>(k, x) \<in> set ?d. md_name x = k) \<and> fst ` set ?d = set (map md_name ms) \<and>
      material_total md_volume ?d = sum_list (map md_volume ms) \<and> material_total md_area ?d = sum_list (map md_area ms) \<and>
      material_total md_mass ?d = sum_list (map md_mass ms)"
  proof (induction ms rule: rev_induct)
    case (snoc m ms)
    then have "dict_ok (fold (add_material exact_arith) ms [])" "\<forall>(k, x) \<in> set (fold (add_material exact_arith) ms []). md_name x = k" by simp_all
    note A = add_material_invariant [OF this, of m]
    with snoc show ?case by simp
  qed (simp add: material_total_def)
  have "map md_name (map snd ?d) = map fst ?d" using inv by auto
  with inv have "distinct (map md_name (map snd ?d))" "set (map md_name (map snd ?d)) = set (map md_name ms)"
    by (simp_all del: map_map)
  moreover have "sum_list (map md_volume (map snd ?d)) = sum_list (map md_volume ms)"
    "sum_list (map md_area (map snd ?d)) = sum_list (map md_area ms)" "sum_list (map md_mass (map snd ?d)) = sum_list (map md_mass ms)"
    using inv by (simp_all add: material_total_def)
  ultimately show ?thesis unfolding aggregate_materials_def Let_def by blast
qed

text \<open>Classifying changes categories only.\<close>

lemma classification_keeps_quantities:
  "classify_material scheme m\<lparr>md_category := c\<rparr> = m\<lparr>md_category := c\<rparr>"
  by (simp add: classify_material_def split: option.splits)

text \<open>An element whose identifier is \<open>None\<close> gets the text of \<open>None\<close> for it.\<close>

lemma missing_identifier_becomes_text:
  assumes "e ''element_id'' = Some At_None" "extract_material A V e = Some m"
  shows "md_element m = Some ''None''"
  using assms by (auto simp: extract_material_def attr_or_def Let_def split: option.splits)

end
