(* ===== verification/Takeoff.thy ===== *)
theory Takeoff
  imports Measures "HOL-Library.Char_ord" "HOL-Library.List_Lexorder" "HOL-Library.Product_Lexorder"
begin

text \<open>
  The extraction layer (\<open>extract/\<close>): quantities and materials taken from elements, costs, and
  schedules.

  The float operations are an argument. The rows of a CSV file and the values of a JSON or YAML file come as the standard library and
  \<open>yaml\<close> read them. The export of tables to files is not modelled.
\<close>

subsection \<open>Quantities\<close>

datatype quantity_type = AREA | VOLUME | LENGTH | COUNT | WEIGHT

fun quantity_value :: "quantity_type \<Rightarrow> string" where
  "quantity_value AREA = ''area''"
| "quantity_value VOLUME = ''volume''"
| "quantity_value LENGTH = ''length''"
| "quantity_value COUNT = ''count''"
| "quantity_value WEIGHT = ''weight''"

definition all_quantities :: "quantity_type list" where
  "all_quantities = [AREA, VOLUME, LENGTH, COUNT, WEIGHT]"

fun quantity_attr :: "quantity_type \<Rightarrow> string \<times> string" where
  "quantity_attr AREA = (''area'', ''m2'')"
| "quantity_attr VOLUME = (''volume'', ''m3'')"
| "quantity_attr LENGTH = (''length'', ''m'')"
| "quantity_attr COUNT = (''count'', ''ea'')"
| "quantity_attr WEIGHT = (''weight'', ''kg'')"

datatype aggregation = BY_ELEMENT | BY_CATEGORY | BY_LEVEL | BY_SYSTEM | BY_BUILDING

record quantity_item =
  qi_element :: attribute
  qi_name :: string
  qi_category :: string
  qi_type :: quantity_type
  qi_value :: rat
  qi_unit :: string
  qi_level :: string
  qi_system :: string

text \<open>Python's \<open>str(getattr(element, name, default))\<close>.\<close>

definition attr_str :: "py_values \<Rightarrow> string \<Rightarrow> element \<Rightarrow> string \<Rightarrow> string" where
  "attr_str V x e n = attr_text V (attr_or (At_Text x) e n)"

definition quantity_item_of :: "py_values \<Rightarrow> element \<Rightarrow> quantity_type \<Rightarrow> rat \<Rightarrow> string \<Rightarrow> quantity_item" where
  "quantity_item_of V e t x u =
     (let i = attr_or At_None e ''id''; it = attr_text V i in
      \<lparr>qi_element = i, qi_name = attr_str V (if it = [] then ''Unknown'' else it) e ''name'',
       qi_category = attr_str V ''Uncategorized'' e ''category'', qi_type = t, qi_value = x, qi_unit = u,
       qi_level = attr_str V [] e ''level'', qi_system = attr_str V [] e ''system''\<rparr>)"

definition measured_quantity :: "py_values \<Rightarrow> element \<Rightarrow> quantity_type \<Rightarrow> quantity_item option" where
  "measured_quantity V e t =
     (case quantity_attr t of (n, u) \<Rightarrow>
        case attr_or At_None e n of
          At_None \<Rightarrow> None
        | a \<Rightarrow>
            (case py_float V a of
               None \<Rightarrow> None
             | Some x \<Rightarrow> if 0 < x then Some (quantity_item_of V e t x (attr_str V u e (n @ ''_unit''))) else None))"

definition extract_element :: "py_values \<Rightarrow> quantity_type list \<Rightarrow> element \<Rightarrow> quantity_item list" where
  "extract_element V ts e =
     List.map_filter (measured_quantity V e) ts @
     (if COUNT \<in> set ts \<and> attr_or At_None e ''count'' = At_None then [quantity_item_of V e COUNT 1 ''ea''] else [])"

definition types_or_all :: "quantity_type list option \<Rightarrow> quantity_type list" where
  "types_or_all ts = (case ts of None \<Rightarrow> all_quantities | Some xs \<Rightarrow> xs)"

definition extract_quantities :: "py_values \<Rightarrow> element list \<Rightarrow> quantity_type list option \<Rightarrow> quantity_item list" where
  "extract_quantities V es ts = concat (map (extract_element V (types_or_all ts)) es)"

definition group_key :: "py_values \<Rightarrow> aggregation \<Rightarrow> quantity_item \<Rightarrow> string" where
  "group_key V g i =
     (case g of
        BY_CATEGORY \<Rightarrow> qi_category i
      | BY_LEVEL \<Rightarrow> if qi_level i = [] then ''No Level'' else qi_level i
      | BY_SYSTEM \<Rightarrow> if qi_system i = [] then ''No System'' else qi_system i
      | BY_ELEMENT \<Rightarrow> attr_text V (qi_element i)
      | BY_BUILDING \<Rightarrow> ''Building'')"

definition extract_grouped ::
  "py_values \<Rightarrow> element list \<Rightarrow> aggregation \<Rightarrow> quantity_type list option \<Rightarrow> (string, quantity_item list) dict" where
  "extract_grouped V es g ts = group_dict (group_key V g) (extract_quantities V es ts)"

definition summarize_quantities :: "float_arith \<Rightarrow> quantity_item list \<Rightarrow> (string, rat) dict" where
  "summarize_quantities A qs = sum_into A (\<lambda>i. Some (quantity_value (qi_type i))) qi_value qs"

fun extract_async_loop ::
  "py_values \<Rightarrow> quantity_type list \<Rightarrow> (nat \<Rightarrow> nat \<Rightarrow> 'w \<Rightarrow> 'w) \<Rightarrow> nat \<Rightarrow> nat \<Rightarrow> element list \<Rightarrow> quantity_item list \<Rightarrow> 'w \<Rightarrow>
   quantity_item list \<times> 'w" where
  "extract_async_loop V ts progress n i [] qs w = (qs, w)"
| "extract_async_loop V ts progress n i (e # es) qs w =
     extract_async_loop V ts progress n (Suc i) es (qs @ extract_element V ts e) (progress (Suc i) n w)"

definition extract_async ::
  "py_values \<Rightarrow> (nat \<Rightarrow> nat \<Rightarrow> 'w \<Rightarrow> 'w) \<Rightarrow> element list \<Rightarrow> quantity_type list option \<Rightarrow> 'w \<Rightarrow> quantity_item list \<times> 'w" where
  "extract_async V progress es ts w = extract_async_loop V (types_or_all ts) progress (length es) 0 es [] w"

subsection \<open>Materials\<close>

record material_quantity =
  mq_name :: string
  mq_category :: string
  mq_volume :: rat
  mq_area :: rat
  mq_mass :: rat
  mq_code :: string
  mq_scheme :: string

definition safe_float :: "py_values \<Rightarrow> element \<Rightarrow> string \<Rightarrow> rat" where
  "safe_float V e n = (case py_float V (attr_or At_None e n) of None \<Rightarrow> 0 | Some x \<Rightarrow> x)"

definition takeoff_element :: "py_values \<Rightarrow> element \<Rightarrow> material_quantity option" where
  "takeoff_element V e =
     (case (case attr_or At_None e ''material_name'' of At_None \<Rightarrow> attr_or At_None e ''material'' | a \<Rightarrow> a) of
        At_None \<Rightarrow> None
      | a \<Rightarrow>
          (let v = safe_float V e ''material_volume''; r = safe_float V e ''material_area''; m = safe_float V e ''material_mass'';
               generic = (v = 0 \<and> r = 0 \<and> m = 0)
           in Some \<lparr>mq_name = attr_text V a, mq_category = attr_str V ''Uncategorized'' e ''category'',
                    mq_volume = (if generic then safe_float V e ''volume'' else v),
                    mq_area = (if generic then safe_float V e ''area'' else r), mq_mass = m, mq_code = [], mq_scheme = []\<rparr>))"

definition takeoff :: "py_values \<Rightarrow> element list \<Rightarrow> material_quantity list" where
  "takeoff V es = List.map_filter (takeoff_element V) es"

definition join_material :: "float_arith \<Rightarrow> material_quantity \<Rightarrow> (string, material_quantity) dict \<Rightarrow> (string, material_quantity) dict" where
  "join_material A m d =
     AList.update (mq_name m)
       (case map_of d (mq_name m) of
          None \<Rightarrow> m
        | Some x \<Rightarrow> x\<lparr>mq_volume := fa_add A (mq_volume x) (mq_volume m), mq_area := fa_add A (mq_area x) (mq_area m),
                    mq_mass := fa_add A (mq_mass x) (mq_mass m)\<rparr>) d"

definition aggregate_takeoff :: "float_arith \<Rightarrow> material_quantity list \<Rightarrow> material_quantity list" where
  "aggregate_takeoff A ms = map snd (fold (join_material A) ms [])"

definition takeoff_uniformat :: "(string, string) dict" where
  "takeoff_uniformat =
     [(''concrete'', ''A1010''), (''steel'', ''A1020''), (''wood'', ''A1030''), (''masonry'', ''A1040''), (''glass'', ''B2020''),
      (''aluminum'', ''B2010''), (''gypsum'', ''C1010''), (''insulation'', ''C1020''), (''carpet'', ''C3020''), (''tile'', ''C3010''),
      (''paint'', ''C3030''), (''roofing'', ''B3010''), (''waterproofing'', ''B1020''), (''brick'', ''A1040''), (''stone'', ''A1050''),
      (''plaster'', ''C1030''), (''copper'', ''B2030''), (''asphalt'', ''G2020''), (''gravel'', ''G2010'')]"

definition takeoff_masterformat :: "(string, string) dict" where
  "takeoff_masterformat =
     [(''concrete'', ''03 00 00''), (''steel'', ''05 00 00''), (''wood'', ''06 00 00''), (''masonry'', ''04 00 00''), (''glass'', ''08 80 00''),
      (''aluminum'', ''08 40 00''), (''gypsum'', ''09 20 00''), (''insulation'', ''07 20 00''), (''carpet'', ''09 68 00''), (''tile'', ''09 30 00''),
      (''paint'', ''09 90 00''), (''roofing'', ''07 50 00''), (''waterproofing'', ''07 10 00''), (''brick'', ''04 20 00''), (''stone'', ''04 40 00''),
      (''plaster'', ''09 20 00''), (''copper'', ''05 50 00''), (''asphalt'', ''32 10 00''), (''gravel'', ''31 00 00'')]"

definition code_map :: "string \<Rightarrow> (string, string) dict" where
  "code_map scheme =
     (if scheme = ''UniFormat'' then takeoff_uniformat else if scheme = ''MasterFormat'' then takeoff_masterformat else [])"

definition classify_code :: "(string, string) dict \<Rightarrow> string \<Rightarrow> string" where
  "classify_code d name =
     (let key = norm_name name; exact = (case map_of d key of None \<Rightarrow> [] | Some c \<Rightarrow> c) in
      if exact \<noteq> [] then exact else (case first_key (\<lambda>k. overlaps k key) d of None \<Rightarrow> [] | Some c \<Rightarrow> c))"

definition classify_takeoff :: "string \<Rightarrow> material_quantity list \<Rightarrow> material_quantity list" where
  "classify_takeoff scheme ms =
     map (\<lambda>m. let c = classify_code (code_map scheme) (mq_name m) in m\<lparr>mq_code := c, mq_scheme := (if c = [] then [] else scheme)\<rparr>) ms"

subsection \<open>Costs\<close>

datatype cost_source = CSV_FILE | JSON_FILE | YAML_FILE | MANUAL

record estimator =
  es_database :: "(string, rat) dict"
  es_source :: cost_source

definition text_field_or :: "(string, string) dict \<Rightarrow> string \<Rightarrow> string \<Rightarrow> string \<Rightarrow> string" where
  "text_field_or row n n' x =
     (case map_of row n of
        Some s \<Rightarrow> if s \<noteq> [] then s else (case map_of row n' of None \<Rightarrow> x | Some s' \<Rightarrow> s')
      | None \<Rightarrow> (case map_of row n' of None \<Rightarrow> x | Some s' \<Rightarrow> s'))"

text \<open>The result says whether the loop ended without an error; what was read before one stays.\<close>

fun load_csv :: "py_values \<Rightarrow> (string, string) dict list \<Rightarrow> (string, rat) dict \<Rightarrow> (string, rat) dict \<times> bool" where
  "load_csv V [] d = (d, True)"
| "load_csv V (row # rows) d =
     (let name = text_field_or row ''name'' ''category'' []; cost = text_field_or row ''unit_cost'' ''cost'' ''0'' in
      if name = [] then load_csv V rows d
      else (case pv_number V cost of None \<Rightarrow> (d, False) | Some x \<Rightarrow> load_csv V rows (AList.update (py_strip name) x d)))"

fun load_mapping :: "py_values \<Rightarrow> (string \<times> attribute) list \<Rightarrow> (string, rat) dict \<Rightarrow> (string, rat) dict \<times> bool" where
  "load_mapping V [] d = (d, True)"
| "load_mapping V ((k, a) # kvs) d =
     (case py_float V a of None \<Rightarrow> (d, False) | Some x \<Rightarrow> load_mapping V kvs (AList.update k x d))"

definition first_true :: "(string \<times> attribute) list \<Rightarrow> string \<Rightarrow> string \<Rightarrow> attribute \<Rightarrow> attribute" where
  "first_true row n n' x =
     (case map_of row n of
        Some a \<Rightarrow> if attribute_true a then a else (case map_of row n' of None \<Rightarrow> x | Some b \<Rightarrow> b)
      | None \<Rightarrow> (case map_of row n' of None \<Rightarrow> x | Some b \<Rightarrow> b))"

fun load_entries :: "py_values \<Rightarrow> (string \<times> attribute) list list \<Rightarrow> (string, rat) dict \<Rightarrow> (string, rat) dict \<times> bool" where
  "load_entries V [] d = (d, True)"
| "load_entries V (row # rows) d =
     (let name = first_true row ''name'' ''category'' (At_Text []); cost = first_true row ''unit_cost'' ''cost'' (At_Number 0) in
      if \<not> attribute_true name then load_entries V rows d
      else (case py_float V cost of None \<Rightarrow> (d, False) | Some x \<Rightarrow> load_entries V rows (AList.update (attr_text V name) x d)))"

datatype cost_file =
    Csv_Rows "(string, string) dict list"
  | Json_Mapping "(string \<times> attribute) list"
  | Json_List "(string \<times> attribute) list list"
  | Yaml_Mapping "(string \<times> attribute) list"
  | Other_Value cost_source
  | Unreadable

definition load_database :: "py_values \<Rightarrow> cost_file \<Rightarrow> estimator \<Rightarrow> estimator \<times> bool" where
  "load_database V f s =
     (let finish = (\<lambda>(d, ok) src. (s\<lparr>es_database := d, es_source := (if ok then src else es_source s)\<rparr>, ok)) in
      case f of
        Csv_Rows rows \<Rightarrow> finish (load_csv V rows (es_database s)) CSV_FILE
      | Json_Mapping kvs \<Rightarrow> finish (load_mapping V kvs (es_database s)) JSON_FILE
      | Json_List rows \<Rightarrow> finish (load_entries V rows (es_database s)) JSON_FILE
      | Yaml_Mapping kvs \<Rightarrow> finish (load_mapping V kvs (es_database s)) YAML_FILE
      | Other_Value src \<Rightarrow> (s\<lparr>es_source := src\<rparr>, True)
      | Unreadable \<Rightarrow> (s, False))"

definition lookup_cost :: "estimator \<Rightarrow> string \<Rightarrow> rat option" where
  "lookup_cost s c =
     (case map_of (es_database s) c of
        Some x \<Rightarrow> Some x
      | None \<Rightarrow>
          (case first_key (\<lambda>k. py_lower k = py_lower c) (es_database s) of
             Some x \<Rightarrow> Some x
           | None \<Rightarrow> first_key (\<lambda>k. overlaps (py_lower k) (py_lower c)) (es_database s)))"

record cost_item =
  ci_description :: string
  ci_quantity :: rat
  ci_unit :: string
  ci_unit_cost :: rat
  ci_total :: rat
  ci_source :: cost_source
  ci_category :: string
  ci_system :: string

record cost_summary =
  cu_items :: "cost_item list"
  cu_total :: rat
  cu_category :: "(string, rat) dict"
  cu_system :: "(string, rat) dict"
  cu_level :: "(string, rat) dict"

definition cost_item_of :: "float_arith \<Rightarrow> estimator \<Rightarrow> quantity_item \<Rightarrow> rat \<Rightarrow> cost_item" where
  "cost_item_of A s q u = \<lparr>ci_description = qi_name q @ '' - '' @ quantity_value (qi_type q), ci_quantity = qi_value q, ci_unit = qi_unit q,
     ci_unit_cost = u, ci_total = fa_mul A (qi_value q) u, ci_source = es_source s, ci_category = qi_category q, ci_system = qi_system q\<rparr>"

text \<open>One turn of the loop of \<open>estimate\<close>.\<close>

definition add_cost :: "float_arith \<Rightarrow> estimator \<Rightarrow> quantity_item \<Rightarrow> cost_summary \<Rightarrow> cost_summary" where
  "add_cost A s q t =
     (case lookup_cost s (qi_category q) of
        None \<Rightarrow> t
      | Some u \<Rightarrow>
          (let c = fa_mul A (qi_value q) u in
           t\<lparr>cu_items := cu_items t @ [cost_item_of A s q u], cu_total := fa_add A (cu_total t) c,
             cu_category := dd_add A (qi_category q) c (cu_category t),
             cu_system := (if qi_system q = [] then cu_system t else dd_add A (qi_system q) c (cu_system t)),
             cu_level := (if qi_level q = [] then cu_level t else dd_add A (qi_level q) c (cu_level t))\<rparr>))"

definition estimate :: "float_arith \<Rightarrow> estimator \<Rightarrow> quantity_item list \<Rightarrow> cost_summary" where
  "estimate A s qs = fold (add_cost A s) qs \<lparr>cu_items = [], cu_total = 0, cu_category = [], cu_system = [], cu_level = []\<rparr>"

subsection \<open>Schedules\<close>

datatype cell = Ce_None | Ce_Number rat | Ce_Bool bool | Ce_Text string

type_synonym row = "(string, cell) dict"

text \<open>Numbers and truth values are numbers to Python: \<open>True == 1\<close>.\<close>

fun cell_number :: "cell \<Rightarrow> rat option" where
  "cell_number (Ce_Number x) = Some x"
| "cell_number (Ce_Bool b) = Some (if b then 1 else 0)"
| "cell_number _ = None"

definition cell_eq :: "cell \<Rightarrow> cell \<Rightarrow> bool" where
  "cell_eq a b \<longleftrightarrow> a = b \<or> (cell_number a \<noteq> None \<and> cell_number a = cell_number b)"

datatype expected = E_One cell | E_Any "cell list"

record schedule_config =
  sh_columns :: "string list"
  sh_filters :: "(string, expected) dict"
  sh_sort :: "string list"
  sh_totals :: bool

definition row_get :: "row \<Rightarrow> string \<Rightarrow> cell" where
  "row_get r c = (case map_of r c of None \<Rightarrow> Ce_None | Some x \<Rightarrow> x)"

definition row_matches :: "(string, expected) dict \<Rightarrow> row \<Rightarrow> bool" where
  "row_matches fs r = list_all (\<lambda>(c, e). case e of E_One x \<Rightarrow> cell_eq (row_get r c) x | E_Any xs \<Rightarrow> list_ex (cell_eq (row_get r c)) xs) fs"

definition filter_rows :: "(string, expected) dict \<Rightarrow> row list \<Rightarrow> row list" where
  "filter_rows fs rows = filter (row_matches fs) rows"

text \<open>
  The sort key is the pair of \<open>row.get(c) is None\<close> and \<open>row.get(c, "")\<close>. Two keys compare when their first
  parts differ or their second parts are both numbers, both texts or both \<open>None\<close>; every stable sort
  compares two keys that do not, if there are any.
\<close>

definition sort_cell :: "string \<Rightarrow> row \<Rightarrow> cell" where
  "sort_cell c r = (case map_of r c of None \<Rightarrow> Ce_Text [] | Some x \<Rightarrow> x)"

definition key_le :: "string \<Rightarrow> row \<Rightarrow> row \<Rightarrow> bool option" where
  "key_le c r s =
     (if row_get r c = Ce_None \<and> row_get s c \<noteq> Ce_None then Some False
      else if row_get r c \<noteq> Ce_None \<and> row_get s c = Ce_None then Some True
      else
        (case (sort_cell c r, sort_cell c s) of
           (Ce_None, Ce_None) \<Rightarrow> Some True
         | (Ce_Text a, Ce_Text b) \<Rightarrow> Some (a \<le> b)
         | (a, b) \<Rightarrow> (case (cell_number a, cell_number b) of (Some x, Some y) \<Rightarrow> Some (x \<le> y) | _ \<Rightarrow> None)))"

definition all_comparable :: "string \<Rightarrow> row list \<Rightarrow> bool" where
  "all_comparable c rows = list_all (\<lambda>r. list_all (\<lambda>s. key_le c r s \<noteq> None) rows) rows"

fun insert_stable :: "('a \<Rightarrow> 'a \<Rightarrow> bool) \<Rightarrow> 'a \<Rightarrow> 'a list \<Rightarrow> 'a list" where
  "insert_stable le x [] = [x]"
| "insert_stable le x (y # ys) = (if le x y then x # y # ys else y # insert_stable le x ys)"

definition stable_sort :: "('a \<Rightarrow> 'a \<Rightarrow> bool) \<Rightarrow> 'a list \<Rightarrow> 'a list" where
  "stable_sort le xs = foldr (insert_stable le) xs []"

definition sort_dir :: "string \<Rightarrow> bool" where
  "sort_dir spec = (take 1 spec = ''-'')"

definition sort_column :: "string \<Rightarrow> string" where
  "sort_column spec = dropWhile (\<lambda>c. c = CHR ''-'') spec"

text \<open>Whether the row \<open>r\<close> may stand before the row \<open>s\<close>.\<close>

definition spec_le :: "string \<Rightarrow> row \<Rightarrow> row \<Rightarrow> bool" where
  "spec_le spec r s =
     (if sort_dir spec then key_le (sort_column spec) s r = Some True else key_le (sort_column spec) r s = Some True)"

fun sort_rows :: "string list \<Rightarrow> row list \<Rightarrow> row list option" where
  "sort_rows [] rows = Some rows"
| "sort_rows (spec # specs) rows =
     (case sort_rows specs rows of
        None \<Rightarrow> None
      | Some rs \<Rightarrow> if all_comparable (sort_column spec) rs then Some (stable_sort (spec_le spec) rs) else None)"

definition project_columns :: "string list \<Rightarrow> row list \<Rightarrow> row list" where
  "project_columns cols rows = map (\<lambda>r. fold (\<lambda>c. AList.update c (row_get r c)) cols []) rows"

definition column_numbers :: "row list \<Rightarrow> string \<Rightarrow> rat list" where
  "column_numbers rows c = List.map_filter (\<lambda>r. cell_number (row_get r c)) rows"

definition totals_cell :: "float_arith \<Rightarrow> string list \<Rightarrow> row list \<Rightarrow> string \<Rightarrow> cell" where
  "totals_cell A cols rows c =
     (if column_numbers rows c \<noteq> [] then Ce_Number (fa_sum A (column_numbers rows c))
      else if take 1 cols = [c] then Ce_Text ''TOTAL'' else Ce_Text [])"

definition add_totals :: "float_arith \<Rightarrow> string list \<Rightarrow> row list \<Rightarrow> row list" where
  "add_totals A cols rows =
     (if rows = [] then rows else rows @ [fold (\<lambda>c. AList.update c (totals_cell A cols rows c)) cols []])"

text \<open>\<open>None\<close> is the \<open>ScheduleError\<close> that a comparison of unlike values ends in.\<close>

definition build_schedule :: "float_arith \<Rightarrow> schedule_config \<Rightarrow> row list \<Rightarrow> row list option" where
  "build_schedule A cfg rows =
     (case sort_rows (sh_sort cfg) (filter_rows (sh_filters cfg) rows) of
        None \<Rightarrow> None
      | Some rs \<Rightarrow>
          (let ps = (if sh_columns cfg = [] then rs else project_columns (sh_columns cfg) rs)
           in Some (if sh_totals cfg \<and> sh_columns cfg \<noteq> [] then add_totals A (sh_columns cfg) ps else ps)))"

definition group_rows :: "(cell \<Rightarrow> string) \<Rightarrow> string \<Rightarrow> row list \<Rightarrow> (string, row list) dict" where
  "group_rows show_cell c rows = group_dict (\<lambda>r. show_cell (case map_of r c of None \<Rightarrow> Ce_Text ''Ungrouped'' | Some x \<Rightarrow> x)) rows"

subsection \<open>Facts on quantities\<close>

lemma in_map_filter: "x \<in> set (List.map_filter f xs) \<longleftrightarrow> (\<exists>y \<in> set xs. f y = Some x)"
  by (force simp: List.map_filter_def)

lemma measured_quantity_facts:
  assumes "measured_quantity V e t = Some i"
  shows "0 < qi_value i \<and> qi_type i = t \<and> attr_or At_None e (fst (quantity_attr t)) \<noteq> At_None \<and>
    py_float V (attr_or At_None e (fst (quantity_attr t))) = Some (qi_value i)"
  using assms by (cases "quantity_attr t"; cases "attr_or At_None e (fst (quantity_attr t))")
    (auto simp: measured_quantity_def quantity_item_of_def Let_def split: option.splits if_splits)

lemma extracted_positive: "i \<in> set (extract_quantities V es ts) \<Longrightarrow> 0 < qi_value i"
  by (auto simp: extract_quantities_def extract_element_def quantity_item_of_def Let_def in_map_filter dest: measured_quantity_facts split: if_splits)

text \<open>
  Grouping loses nothing: a group holds the quantities with its key in their order, no group is empty, and
  the totals by type of a group, taken exactly, never exceed those of all quantities.
\<close>

lemma groups_partition:
  "map_of (extract_grouped V es g ts) k =
     (let qs = filter (\<lambda>i. group_key V g i = k) (extract_quantities V es ts) in if qs = [] then None else Some qs)"
  by (simp add: extract_grouped_def group_dict_lookup Let_def)

lemma sum_filter_le:
  assumes "\<And>x. x \<in> set xs \<Longrightarrow> 0 \<le> (f x :: rat)"
  shows "sum_list (map f (filter P xs)) \<le> sum_list (map f xs)"
  using assms by (induction xs) (auto intro: add_increasing)

lemma group_totals_bounded:
  assumes "map_of (extract_grouped V es g ts) k = Some qs" "map_of (summarize_quantities exact_arith qs) t = Some x"
  shows "qs \<noteq> [] \<and> 0 < x \<and> (\<exists>y. map_of (summarize_quantities exact_arith (extract_quantities V es ts)) t = Some y \<and> x \<le> y)"
proof -
  let ?all = "extract_quantities V es ts"
  have G: "qs = filter (\<lambda>i. group_key V g i = k) ?all" "qs \<noteq> []"
    using assms(1) by (auto simp: groups_partition Let_def split: if_splits)
  let ?P = "\<lambda>i. quantity_value (qi_type i) = t"
  have x: "x = sum_list (map qi_value (filter ?P qs))" "\<exists>i \<in> set qs. ?P i"
    using assms(2) by (auto simp: summarize_quantities_def sum_into_lookup float_total_exact split: if_splits)
  have pos: "0 < qi_value i" if "i \<in> set ?all" for i using extracted_positive that .
  have "filter ?P qs = filter (\<lambda>i. group_key V g i = k) (filter ?P ?all)" by (simp add: G(1) conj_commute)
  then have le: "x \<le> sum_list (map qi_value (filter ?P ?all))"
    unfolding x(1) by (simp only:) (rule sum_filter_le, use pos in \<open>auto intro: less_imp_le\<close>)
  have sum_pos: "\<forall>i \<in> set xs. 0 < qi_value i \<Longrightarrow> xs \<noteq> [] \<Longrightarrow> 0 < sum_list (map qi_value xs)" for xs
  proof (induction xs)
    case (Cons i xs)
    then show ?case by (cases "xs = []") (auto intro: add_pos_pos)
  qed simp
  have "0 < x" unfolding x(1) by (rule sum_pos) (use x(2) G(1) pos in \<open>auto simp: filter_empty_conv\<close>)
  moreover have "\<exists>i \<in> set ?all. ?P i" using x(2) G(1) by auto
  ultimately show ?thesis using le G(2) by (simp add: summarize_quantities_def sum_into_lookup float_total_exact)
qed

text \<open>The asynchronous extraction gives what the synchronous one does, and reports every element once.\<close>

lemma extract_async_is_extract:
  "extract_async V (\<lambda>i n w. w @ [(i, n)]) es ts w =
     (extract_quantities V es ts, w @ map (\<lambda>i. (i, length es)) [1..<Suc (length es)])"
proof -
  have loop: "extract_async_loop V us (\<lambda>i n w. w @ [(i, n)]) n i es qs w =
      (qs @ concat (map (extract_element V us) es), w @ map (\<lambda>i. (i, n)) [Suc i..<Suc (i + length es)])" for us n i qs w
  proof (induction es arbitrary: i qs w)
    case (Cons e es)
    have "[Suc i..<Suc (i + length (e # es))] = Suc i # [Suc (Suc i)..<Suc (Suc i + length es)]"
      by (subst upt_conv_Cons) simp_all
    with Cons show ?case by (simp del: upt_Suc)
  qed simp
  show ?thesis by (simp add: extract_async_def extract_quantities_def loop del: upt_Suc)
qed

text \<open>An element whose count is there but not a positive number is not counted.\<close>

lemma zero_count_not_counted:
  assumes "e ''count'' = Some (At_Number 0)"
  shows "\<forall>i \<in> set (extract_element V all_quantities e). qi_type i \<noteq> COUNT"
proof
  fix i assume "i \<in> set (extract_element V all_quantities e)"
  then obtain t where t: "measured_quantity V e t = Some i"
    using assms by (auto simp: extract_element_def in_map_filter attr_or_def)
  have "t \<noteq> COUNT" using measured_quantity_facts [OF t] assms by (auto simp: attr_or_def)
  then show "qi_type i \<noteq> COUNT" using measured_quantity_facts [OF t] by simp
qed

text \<open>A level that is \<open>None\<close> becomes the text of \<open>None\<close>, and is a level of its own.\<close>

lemma none_level_is_a_group:
  assumes "e ''level'' = Some At_None"
  shows "group_key V BY_LEVEL (quantity_item_of V e t x u) = ''None''"
  using assms by (simp add: group_key_def quantity_item_of_def attr_str_def attr_or_def Let_def)

subsection \<open>Facts on materials and costs\<close>

definition takeoff_total :: "(material_quantity \<Rightarrow> rat) \<Rightarrow> (string, material_quantity) dict \<Rightarrow> rat" where
  "takeoff_total f d = sum_list (map (f \<circ> snd) d)"

lemma takeoff_total_update:
  "dict_ok d \<Longrightarrow> takeoff_total f (AList.update k x d) =
     takeoff_total f d + f x - (case map_of d k of None \<Rightarrow> 0 | Some y \<Rightarrow> f y)"
  by (induction d) (auto simp: takeoff_total_def map_of_None_keys split: option.splits)

definition joined :: "material_quantity list \<Rightarrow> (string, material_quantity) dict \<Rightarrow> bool" where
  "joined ms d \<longleftrightarrow> dict_ok d \<and> (\<forall>(k, x) \<in> set d. mq_name x = k) \<and> fst ` set d = mq_name ` set ms \<and>
     takeoff_total mq_volume d = sum_list (map mq_volume ms) \<and> takeoff_total mq_area d = sum_list (map mq_area ms) \<and>
     takeoff_total mq_mass d = sum_list (map mq_mass ms)"

lemma join_material_joined:
  assumes "joined ms d"
  shows "joined (ms @ [m]) (join_material exact_arith m d)"
proof -
  have ok: "dict_ok d" and names: "\<forall>(k, x) \<in> set d. mq_name x = k" using assms by (simp_all add: joined_def)
  define y where "y = (case map_of d (mq_name m) of None \<Rightarrow> m
      | Some x \<Rightarrow> x\<lparr>mq_volume := mq_volume x + mq_volume m, mq_area := mq_area x + mq_area m, mq_mass := mq_mass x + mq_mass m\<rparr>)"
  have join: "join_material exact_arith m d = AList.update (mq_name m) y d"
    by (simp add: join_material_def y_def cong: option.case_cong)
  have "mq_name y = mq_name m"
    using names by (auto simp: y_def split: option.splits dest: map_of_SomeD)
  then have "\<forall>(k, x) \<in> set (AList.update (mq_name m) y d). mq_name x = k"
    using names set_update_subset_pairs [of _ "mq_name m" y d] by fastforce
  moreover have "takeoff_total mq_volume (AList.update (mq_name m) y d) = takeoff_total mq_volume d + mq_volume m"
    "takeoff_total mq_area (AList.update (mq_name m) y d) = takeoff_total mq_area d + mq_area m"
    "takeoff_total mq_mass (AList.update (mq_name m) y d) = takeoff_total mq_mass d + mq_mass m"
    using ok by (simp_all add: takeoff_total_update y_def split: option.splits)
  ultimately show ?thesis using assms by (simp add: joined_def join)
qed

text \<open>Aggregation gives one entry per material and, with exact additions, keeps the totals.\<close>

lemma takeoff_aggregation_keeps_totals:
  "distinct (map mq_name (aggregate_takeoff exact_arith ms)) \<and> set (map mq_name (aggregate_takeoff exact_arith ms)) = set (map mq_name ms) \<and>
     sum_list (map mq_volume (aggregate_takeoff exact_arith ms)) = sum_list (map mq_volume ms) \<and>
     sum_list (map mq_area (aggregate_takeoff exact_arith ms)) = sum_list (map mq_area ms) \<and>
     sum_list (map mq_mass (aggregate_takeoff exact_arith ms)) = sum_list (map mq_mass ms)"
proof -
  let ?d = "fold (join_material exact_arith) ms []"
  have inv: "joined ms ?d"
  proof (induction ms rule: rev_induct)
    case (snoc m ms)
    then show ?case using join_material_joined [of ms _ m] by simp
  qed (simp add: joined_def takeoff_total_def)
  then have "map mq_name (map snd ?d) = map fst ?d" by (auto simp: joined_def)
  with inv have "distinct (map mq_name (map snd ?d))" "set (map mq_name (map snd ?d)) = set (map mq_name ms)"
    by (simp_all add: joined_def del: map_map)
  moreover have "sum_list (map mq_volume (map snd ?d)) = sum_list (map mq_volume ms)"
    "sum_list (map mq_area (map snd ?d)) = sum_list (map mq_area ms)" "sum_list (map mq_mass (map snd ?d)) = sum_list (map mq_mass ms)"
    using inv by (simp_all add: joined_def takeoff_total_def)
  ultimately show ?thesis unfolding aggregate_takeoff_def by blast
qed

text \<open>A material without a name is classified as the first of the table, and so is a category without a name in the costs.\<close>

lemma nameless_material_is_concrete:
  assumes "norm_name n = []"
  shows "classify_code (code_map ''UniFormat'') n = ''A1010'' \<and> classify_code (code_map ''MasterFormat'') n = ''03 00 00''"
  using assms by (simp add: classify_code_def code_map_def takeoff_uniformat_def takeoff_masterformat_def first_key_hd Let_def)

lemma empty_category_has_cost:
  assumes "es_database s \<noteq> []" "map_of (es_database s) [] = None"
  shows "lookup_cost s [] \<noteq> None"
  using first_key_hd [of "es_database s" "\<lambda>k. overlaps (py_lower k) (py_lower [])"] assms
  by (simp add: lookup_cost_def py_lower_def split: option.splits)

text \<open>What \<open>estimate\<close> has after the quantities so far.\<close>

definition priced :: "estimator \<Rightarrow> quantity_item list \<Rightarrow> quantity_item list" where
  "priced s qs = filter (\<lambda>q. lookup_cost s (qi_category q) \<noteq> None) qs"

definition price :: "float_arith \<Rightarrow> estimator \<Rightarrow> quantity_item \<Rightarrow> rat" where
  "price A s q = fa_mul A (qi_value q) (the (lookup_cost s (qi_category q)))"

lemma estimate_snoc: "estimate A s (qs @ [q]) = add_cost A s q (estimate A s qs)"
  by (simp add: estimate_def)

lemma estimate_is_sum:
  "cu_total (estimate A s qs) = float_total A (map (price A s) (priced s qs)) \<and>
   cu_items (estimate A s qs) = map (\<lambda>q. cost_item_of A s q (the (lookup_cost s (qi_category q)))) (priced s qs) \<and>
   cu_category (estimate A s qs) = sum_into A (\<lambda>q. Some (qi_category q)) (price A s) (priced s qs) \<and>
   cu_system (estimate A s qs) = sum_into A (\<lambda>q. if qi_system q = [] then None else Some (qi_system q)) (price A s) (priced s qs) \<and>
   cu_level (estimate A s qs) = sum_into A (\<lambda>q. if qi_level q = [] then None else Some (qi_level q)) (price A s) (priced s qs)"
proof (induction qs rule: rev_induct)
  case Nil
  show ?case by (simp add: estimate_def priced_def)
next
  case (snoc q qs)
  show ?case
  proof (cases "lookup_cost s (qi_category q)")
    case None
    with snoc show ?thesis by (simp add: estimate_snoc add_cost_def priced_def)
  next
    case (Some u)
    then have "priced s (qs @ [q]) = priced s qs @ [q]" "price A s q = fa_mul A (qi_value q) u"
      by (simp_all add: priced_def price_def)
    with snoc Some show ?thesis
      by (simp add: estimate_snoc add_cost_def sum_into_snoc float_total_snoc Let_def)
  qed
qed

text \<open>The items carry the prices, the categories and the systems of the priced quantities.\<close>

lemma cost_items_of:
  "map ci_total (cu_items (estimate A s qs)) = map (price A s) (priced s qs)"
  "map ci_total (filter (\<lambda>i. P (ci_category i) (ci_system i)) (cu_items (estimate A s qs))) =
     map (price A s) (filter (\<lambda>q. P (qi_category q) (qi_system q)) (priced s qs))"
proof -
  have c: "ci_total (cost_item_of A s q (the (lookup_cost s (qi_category q)))) = price A s q"
    "ci_category (cost_item_of A s q u) = qi_category q" "ci_system (cost_item_of A s q u) = qi_system q" for q u
    by (simp_all add: cost_item_of_def price_def)
  show "map ci_total (cu_items (estimate A s qs)) = map (price A s) (priced s qs)"
    "map ci_total (filter (\<lambda>i. P (ci_category i) (ci_system i)) (cu_items (estimate A s qs))) =
       map (price A s) (filter (\<lambda>q. P (qi_category q) (qi_system q)) (priced s qs))"
    by (simp_all add: estimate_is_sum c comp_def filter_map)
qed

text \<open>
  An estimate adds up, as far as float sums do: its total is the sum, in order, of its items, the
  entry of a category that of the items of the category, and in any arithmetic with relative
  error \<open>u\<close> the total, and the entries by category taken together, differ from the exact sum of the \<open>n\<close>
  items, none of them negative, by at most the factors (1 - u)^n and (1 + u)^n; the entries by
  system and by level differ likewise from the sum of the items that have one.
\<close>

lemma estimate_adds_up:
  assumes "float_ok u A" and "\<forall>i \<in> set (cu_items (estimate A s qs)). 0 \<le> ci_total i"
  shows "let E = estimate A s qs; n = length (cu_items E); costs = map ci_total (cu_items E) in
    cu_total E = float_total A costs \<and>
    (\<forall>k. map_of (cu_category E) k =
       (if \<exists>i \<in> set (cu_items E). ci_category i = k
        then Some (float_total A (map ci_total (filter (\<lambda>i. ci_category i = k) (cu_items E)))) else None)) \<and>
    close_to u n (cu_total E) (sum_list costs) \<and>
    close_to u n (dict_total (cu_category E)) (sum_list costs) \<and>
    close_to u n (dict_total (cu_system E)) (sum_list (map ci_total (filter (\<lambda>i. ci_system i \<noteq> []) (cu_items E)))) \<and>
    close_to u n (dict_total (cu_level E)) (sum_list (map (price A s) (filter (\<lambda>q. qi_level q \<noteq> []) (priced s qs))))"
proof -
  let ?E = "estimate A s qs" and ?ps = "priced s qs"
  note items = cost_items_of [where A = A and s = s and qs = qs]
  have len: "length (cu_items ?E) = length ?ps" by (simp add: estimate_is_sum)
  have pos: "\<forall>q \<in> set ?ps. 0 \<le> price A s q"
    using assms(2) items(1) by (metis (mono_tags, lifting) image_eqI image_iff list.set_map)
  have cat: "(\<exists>i \<in> set (cu_items ?E). ci_category i = k) \<longleftrightarrow> (\<exists>q \<in> set ?ps. qi_category q = k)" for k
    by (simp add: estimate_is_sum cost_item_of_def)
  have n: "(if P then None else Some x) \<noteq> None \<longleftrightarrow> \<not> P" for P and x :: string by simp
  have "close_to u (length ?ps) (float_total A (map (price A s) ?ps)) (sum_list (map (price A s) ?ps))"
    using float_total_within [OF assms(1), of "map (price A s) ?ps"] pos by simp
  moreover have "close_to u (length ?ps) (dict_total (cu_category ?E)) (sum_list (map (price A s) ?ps))"
    using sum_into_within [OF assms(1) pos, of "\<lambda>q. Some (qi_category q)"] by (simp add: estimate_is_sum)
  moreover have "close_to u (length ?ps) (dict_total (cu_system ?E))
      (sum_list (map (price A s) (filter (\<lambda>q. qi_system q \<noteq> []) ?ps)))"
    using sum_into_within [OF assms(1) pos, of "\<lambda>q. if qi_system q = [] then None else Some (qi_system q)"]
    by (simp only: estimate_is_sum n)
  moreover have "close_to u (length ?ps) (dict_total (cu_level ?E))
      (sum_list (map (price A s) (filter (\<lambda>q. qi_level q \<noteq> []) ?ps)))"
    using sum_into_within [OF assms(1) pos, of "\<lambda>q. if qi_level q = [] then None else Some (qi_level q)"]
    by (simp only: estimate_is_sum n)
  moreover have "map_of (cu_category ?E) k =
      (if \<exists>i \<in> set (cu_items ?E). ci_category i = k
       then Some (float_total A (map ci_total (filter (\<lambda>i. ci_category i = k) (cu_items ?E)))) else None)" for k
    unfolding cat items(2) [where P = "\<lambda>c y. c = k"] by (simp add: estimate_is_sum sum_into_lookup)
  moreover have "cu_total ?E = float_total A (map ci_total (cu_items ?E))" unfolding items(1) by (simp add: estimate_is_sum)
  ultimately show ?thesis
    unfolding Let_def len items(1) items(2) [where P = "\<lambda>c y. y \<noteq> []"] by (simp add: estimate_is_sum)
qed

definition sample_estimator :: estimator where
  "sample_estimator = \<lparr>es_database = [(''Walls'', 2), (''Doors'', 5)], es_source = MANUAL\<rparr>"

definition sample_quantities :: "quantity_item list" where
  "sample_quantities =
     map (\<lambda>(c, v). \<lparr>qi_element = At_None, qi_name = ''e'', qi_category = c, qi_type = AREA, qi_value = v, qi_unit = ''m2'',
                     qi_level = [], qi_system = []\<rparr>) [(''Walls'', 1 / 10), (''Doors'', 2 / 10), (''Doors'', 3 / 10)]"

lemma estimate_adds_up_witness:
  "let E = estimate exact_arith sample_estimator sample_quantities in
     cu_total E = 27 / 10 \<and> dict_total (cu_category E) = 27 / 10 \<and> map_of (cu_category E) ''Doors'' = Some (5 / 2)"
proof -
  let ?E = "estimate exact_arith sample_estimator sample_quantities"
  have items: "map (\<lambda>i. (ci_category i, ci_total i)) (cu_items ?E) = [(''Walls'', 1 / 5), (''Doors'', 1), (''Doors'', 3 / 2)]"
    by (simp add: estimate_def add_cost_def lookup_cost_def cost_item_of_def sample_estimator_def sample_quantities_def
        Let_def)
  then have "\<forall>i \<in> set (cu_items ?E). 0 \<le> ci_total i" by auto
  from estimate_adds_up [OF float_ok_exact this] items show ?thesis
    by (auto simp: Let_def close_to_def float_total_exact)
qed

text \<open>Every quantity whose category is in the database, in any case of its letters, is priced.\<close>

lemma known_category_is_priced:
  assumes "q \<in> set qs" "k \<in> fst ` set (es_database s)" "py_lower k = py_lower (qi_category q)"
  shows "q \<in> set (priced s qs)"
  using assms by (auto simp: priced_def lookup_cost_def first_key_None split: option.splits)

subsection \<open>Facts on schedules\<close>

lemma mset_insert_stable [simp]: "mset (insert_stable le x ys) = add_mset x (mset ys)"
  by (induction ys) auto

lemma mset_stable_sort [simp]: "mset (stable_sort le xs) = mset xs"
  by (induction xs) (auto simp: stable_sort_def)

lemma set_stable_sort [simp]: "set (stable_sort le xs) = set xs"
  by (metis mset_stable_sort set_mset_mset)

text \<open>Sorting by one order keeps another one among what the first holds equal.\<close>

definition refine :: "('a \<Rightarrow> 'a \<Rightarrow> bool) \<Rightarrow> ('a \<Rightarrow> 'a \<Rightarrow> bool) \<Rightarrow> 'a \<Rightarrow> 'a \<Rightarrow> bool" where
  "refine le R x y \<longleftrightarrow> le x y \<and> (le y x \<longrightarrow> R x y)"

lemma insert_stable_refines:
  assumes "sorted_wrt (refine le R) ys" "\<forall>y \<in> set ys. R x y"
    "\<And>a b. a \<in> insert x (set ys) \<Longrightarrow> b \<in> insert x (set ys) \<Longrightarrow> le a b \<or> le b a"
    "\<And>a b c. a \<in> insert x (set ys) \<Longrightarrow> b \<in> insert x (set ys) \<Longrightarrow> c \<in> insert x (set ys) \<Longrightarrow> le a b \<Longrightarrow> le b c \<Longrightarrow> le a c"
  shows "sorted_wrt (refine le R) (insert_stable le x ys)"
  using assms
proof (induction ys)
  case Nil
  show ?case by simp
next
  case (Cons y ys)
  have set: "set (insert_stable le x ys) = insert x (set ys)" by (metis mset_insert_stable set_mset_add_mset_insert set_mset_mset)
  show ?case
  proof (cases "le x y")
    case True
    have "le x z" if "z \<in> set ys" for z
      using Cons.prems(4) [of x y z] Cons.prems(1) True that by (auto simp: refine_def)
    with Cons.prems(1,2) True show ?thesis by (auto simp: refine_def)
  next
    case False
    then have "le y x" using Cons.prems(3) [of x y] by simp
    have "sorted_wrt (refine le R) (insert_stable le x ys)"
    proof (rule Cons.IH)
      show "sorted_wrt (refine le R) ys" "\<forall>z \<in> set ys. R x z" using Cons.prems(1,2) by simp_all
      show "le a b \<or> le b a" if "a \<in> insert x (set ys)" "b \<in> insert x (set ys)" for a b
        by (rule Cons.prems(3)) (use that in auto)
      show "le a c" if "a \<in> insert x (set ys)" "b \<in> insert x (set ys)" "c \<in> insert x (set ys)" "le a b" "le b c" for a b c
        by (rule Cons.prems(4) [of a b c]) (use that in auto)
    qed
    moreover have "\<forall>z \<in> set (insert_stable le x ys). refine le R y z"
      using Cons.prems(1) \<open>le y x\<close> False by (auto simp: set refine_def)
    ultimately show ?thesis using False by simp
  qed
qed

lemma stable_sort_refines:
  assumes "\<And>a b. a \<in> set xs \<Longrightarrow> b \<in> set xs \<Longrightarrow> le a b \<or> le b a"
    "\<And>a b c. a \<in> set xs \<Longrightarrow> b \<in> set xs \<Longrightarrow> c \<in> set xs \<Longrightarrow> le a b \<Longrightarrow> le b c \<Longrightarrow> le a c"
    "sorted_wrt R xs"
  shows "sorted_wrt (refine le R) (stable_sort le xs)"
  using assms
proof (induction xs)
  case Nil
  show ?case by (simp add: stable_sort_def)
next
  case (Cons x xs)
  have IH: "sorted_wrt (refine le R) (stable_sort le xs)"
  proof (rule Cons.IH)
    show "le a c" if "a \<in> set xs" "b \<in> set xs" "c \<in> set xs" "le a b" "le b c" for a b c
      by (rule Cons.prems(2) [of a b c]) (use that in auto)
    show "le a b \<or> le b a" if "a \<in> set xs" "b \<in> set xs" for a b
      by (rule Cons.prems(1)) (use that in auto)
    show "sorted_wrt R xs" using Cons.prems(3) by simp
  qed
  have "sorted_wrt (refine le R) (insert_stable le x (stable_sort le xs))"
  proof (rule insert_stable_refines [OF IH])
    show "\<forall>y \<in> set (stable_sort le xs). R x y" using Cons.prems(3) by simp
    show "le a b \<or> le b a" if "a \<in> insert x (set (stable_sort le xs))" "b \<in> insert x (set (stable_sort le xs))" for a b
      by (rule Cons.prems(1)) (use that in auto)
    show "le a c" if "a \<in> insert x (set (stable_sort le xs))" "b \<in> insert x (set (stable_sort le xs))"
      "c \<in> insert x (set (stable_sort le xs))" "le a b" "le b c" for a b c
      by (rule Cons.prems(2) [of a b c]) (use that in auto)
  qed
  then show ?case by (simp add: stable_sort_def)
qed

text \<open>Comparable keys compare like their ranks.\<close>

definition cell_rank :: "string \<Rightarrow> row \<Rightarrow> bool \<times> rat \<times> string" where
  "cell_rank c r =
     (row_get r c = Ce_None,
      (case cell_number (sort_cell c r) of None \<Rightarrow> 0 | Some x \<Rightarrow> x),
      (case sort_cell c r of Ce_Text s \<Rightarrow> s | _ \<Rightarrow> []))"

lemma key_le_rank: "key_le c r s = Some b \<Longrightarrow> b \<longleftrightarrow> cell_rank c r \<le> cell_rank c s"
  unfolding key_le_def cell_rank_def
  by (cases "sort_cell c r"; cases "sort_cell c s") (auto simp: row_get_def sort_cell_def split: if_splits option.splits)

lemma comparable_rank:
  assumes "all_comparable c rows" "r \<in> set rows" "s \<in> set rows"
  shows "key_le c r s = Some (cell_rank c r \<le> cell_rank c s)"
proof -
  obtain b where "key_le c r s = Some b" using assms by (auto simp: all_comparable_def list_all_iff)
  with key_le_rank show ?thesis by simp
qed

text \<open>The rows in the order of the first column, those that it does not tell apart by the next, and so on.\<close>

fun lex_le :: "string list \<Rightarrow> row \<Rightarrow> row \<Rightarrow> bool" where
  "lex_le [] r s = True"
| "lex_le (spec # specs) r s \<longleftrightarrow> spec_le spec r s \<and> (spec_le spec s r \<longrightarrow> lex_le specs r s)"

lemma sort_rows_lex:
  "sort_rows specs rows = Some rs \<Longrightarrow> mset rs = mset rows \<and> sorted_wrt (lex_le specs) rs"
proof (induction specs arbitrary: rs)
  case Nil
  then show ?case by (auto simp: sorted_wrt_iff_nth_less)
next
  case (Cons spec specs)
  then obtain qs where qs: "sort_rows specs rows = Some qs" "all_comparable (sort_column spec) qs"
      "rs = stable_sort (spec_le spec) qs"
    by (auto split: option.splits if_splits)
  have IH: "mset qs = mset rows" "sorted_wrt (lex_le specs) qs" using Cons.IH [OF qs(1)] by simp_all
  note rank = comparable_rank [OF qs(2)]
  have "sorted_wrt (refine (spec_le spec) (lex_le specs)) (stable_sort (spec_le spec) qs)"
  proof (rule stable_sort_refines [OF _ _ IH(2)])
    show "spec_le spec a b \<or> spec_le spec b a" if "a \<in> set qs" "b \<in> set qs" for a b
      using rank [OF that] rank [OF that(2,1)] by (auto simp: spec_le_def)
    show "spec_le spec a c" if "a \<in> set qs" "b \<in> set qs" "c \<in> set qs" "spec_le spec a b" "spec_le spec b c" for a b c
      using rank that by (auto simp: spec_le_def split: if_splits)
  qed
  moreover have "refine (spec_le spec) (lex_le specs) = lex_le (spec # specs)" by (intro ext) (simp add: refine_def)
  ultimately show ?case using IH(1) qs(3) by (simp only: mset_stable_sort)
qed

text \<open>
  A row in which the column is missing and one in which it is \<open>None\<close> cannot be sorted together, although
  the key means to put both last.
\<close>

lemma missing_and_none_not_sorted:
  assumes "r \<in> set rows" "s \<in> set rows" "map_of r c = None" "map_of s c = Some Ce_None"
  shows "\<not> all_comparable c rows"
proof -
  have "key_le c r s = None" using assms(3,4) by (simp add: key_le_def row_get_def sort_cell_def)
  with assms(1,2) show ?thesis by (auto simp: all_comparable_def list_all_iff)
qed

text \<open>Projected rows have exactly the chosen columns, so after the projection no column is missing.\<close>

lemma fold_update_lookup:
  "map_of (fold (\<lambda>c. AList.update c (f c)) cols d) c = (if c \<in> set cols then Some (f c) else map_of d c)"
  by (induction cols arbitrary: d) auto

lemma projection_columns:
  "r \<in> set (project_columns cols rows) \<Longrightarrow> \<exists>r' \<in> set rows. \<forall>c. map_of r c = (if c \<in> set cols then Some (row_get r' c) else None)"
  by (auto simp: project_columns_def fold_update_lookup)

text \<open>The totals row sums the numbers of each column, and counts truth values as numbers.\<close>

lemma totals_row_sums:
  assumes "rows \<noteq> []" "c \<in> set cols" "column_numbers rows c \<noteq> []"
  shows "row_get (last (add_totals A cols rows)) c = Ce_Number (fa_sum A (column_numbers rows c)) \<and>
    butlast (add_totals A cols rows) = rows"
  using assms by (simp add: add_totals_def row_get_def fold_update_lookup totals_cell_def)

lemma totals_row_sums_witness:
  "row_get (last (add_totals exact_arith [''n''] [[(''n'', Ce_Number 2)], [(''n'', Ce_Bool True)]])) ''n'' = Ce_Number 3"
  using totals_row_sums [of "[[(''n'', Ce_Number 2)], [(''n'', Ce_Bool True)]]" "''n''" "[''n'']" exact_arith]
  by (simp add: column_numbers_def row_get_def List.map_filter_simps)

text \<open>
  A schedule that is built has a row for exactly the rows that match the filters, sorted by the columns
  of \<open>sort_by\<close>, the first one first (without \<open>sort_by\<close>, in the order of the data). Without a choice of columns
  these are the rows themselves; with one, each has exactly the chosen columns, with the values of
  its row. \<open>include_totals\<close> adds one last row if there are columns and rows: its cells are the
  totals of the columns.
\<close>

lemma schedule_is_sorted_selection:
  assumes "build_schedule A cfg rows = Some rs"
  shows "\<exists>sel ps. mset sel = mset (filter (row_matches (sh_filters cfg)) rows) \<and> sorted_wrt (lex_le (sh_sort cfg)) sel \<and>
    (if sh_sort cfg = [] then sel = filter (row_matches (sh_filters cfg)) rows else True) \<and>
    (if sh_columns cfg = [] then ps = sel
     else list_all2 (\<lambda>r p. \<forall>c. map_of p c = (if c \<in> set (sh_columns cfg) then Some (row_get r c) else None)) sel ps) \<and>
    (if sh_totals cfg \<and> sh_columns cfg \<noteq> [] \<and> sel \<noteq> []
     then \<exists>t. rs = ps @ [t] \<and>
       (\<forall>c. map_of t c = (if c \<in> set (sh_columns cfg) then Some (totals_cell A (sh_columns cfg) ps c) else None))
     else rs = ps)"
proof -
  let ?cols = "sh_columns cfg"
  obtain sel where sel: "sort_rows (sh_sort cfg) (filter_rows (sh_filters cfg) rows) = Some sel"
    and rs: "rs = (let ps = (if ?cols = [] then sel else project_columns ?cols sel)
           in if sh_totals cfg \<and> ?cols \<noteq> [] then add_totals A ?cols ps else ps)"
    using assms by (auto simp: build_schedule_def Let_def split: option.splits)
  define ps where "ps = (if ?cols = [] then sel else project_columns ?cols sel)"
  have "mset sel = mset (filter (row_matches (sh_filters cfg)) rows)" "sorted_wrt (lex_le (sh_sort cfg)) sel"
    using sort_rows_lex [OF sel] by (simp_all add: filter_rows_def)
  moreover have "if sh_sort cfg = [] then sel = filter (row_matches (sh_filters cfg)) rows else True"
    using sel by (auto simp: filter_rows_def)
  moreover have "if ?cols = [] then ps = sel
      else list_all2 (\<lambda>r p. \<forall>c. map_of p c = (if c \<in> set ?cols then Some (row_get r c) else None)) sel ps"
    by (auto simp: ps_def project_columns_def list_all2_conv_all_nth fold_update_lookup)
  moreover have "if sh_totals cfg \<and> ?cols \<noteq> [] \<and> sel \<noteq> []
      then \<exists>t. rs = ps @ [t] \<and>
        (\<forall>c. map_of t c = (if c \<in> set ?cols then Some (totals_cell A ?cols ps c) else None))
      else rs = ps"
    using rs by (auto simp: ps_def add_totals_def project_columns_def fold_update_lookup Let_def)
  ultimately show ?thesis by blast
qed

definition sample_schedule :: schedule_config where
  "sample_schedule = \<lparr>sh_columns = [''b'', ''a''], sh_filters = [], sh_sort = [''a'', ''-b''], sh_totals = True\<rparr>"

lemma schedule_is_sorted_selection_witness:
  "\<exists>sel ps t. mset sel = mset (filter (row_matches [])
       [[(''a'', Ce_Number 2)], [(''a'', Ce_Bool True), (''b'', Ce_Text ''x'')], [(''a'', Ce_Number 1), (''b'', Ce_Text ''y'')]]) \<and>
     sorted_wrt (lex_le [''a'', ''-b'']) sel \<and> ps @ [t] =
       [[(''b'', Ce_Text ''y''), (''a'', Ce_Number 1)], [(''b'', Ce_Text ''x''), (''a'', Ce_Bool True)],
        [(''b'', Ce_None), (''a'', Ce_Number 2)], [(''b'', Ce_Text ''TOTAL''), (''a'', Ce_Number 4)]]"
proof -
  let ?rows = "[[(''a'', Ce_Number 2)], [(''a'', Ce_Bool True), (''b'', Ce_Text ''x'')], [(''a'', Ce_Number 1), (''b'', Ce_Text ''y'')]]"
  have b: "build_schedule exact_arith sample_schedule ?rows =
      Some [[(''b'', Ce_Text ''y''), (''a'', Ce_Number 1)], [(''b'', Ce_Text ''x''), (''a'', Ce_Bool True)],
        [(''b'', Ce_None), (''a'', Ce_Number 2)], [(''b'', Ce_Text ''TOTAL''), (''a'', Ce_Number 4)]]"
    by (simp add: sample_schedule_def build_schedule_def filter_rows_def row_matches_def all_comparable_def key_le_def
        row_get_def sort_cell_def stable_sort_def spec_le_def sort_dir_def sort_column_def project_columns_def add_totals_def
        totals_cell_def column_numbers_def List.map_filter_simps ex_bool_eq)
  have c: "sh_columns sample_schedule \<noteq> []" "sh_totals sample_schedule" "sh_filters sample_schedule = []"
    "sh_sort sample_schedule = [''a'', ''-b'']" by (simp_all add: sample_schedule_def)
  from schedule_is_sorted_selection [OF b] obtain sel ps where
    s: "mset sel = mset (filter (row_matches []) ?rows)" "sorted_wrt (lex_le [''a'', ''-b'']) sel"
    and r: "if sel \<noteq> [] then \<exists>t. [[(''b'', Ce_Text ''y''), (''a'', Ce_Number 1)], [(''b'', Ce_Text ''x''), (''a'', Ce_Bool True)],
        [(''b'', Ce_None), (''a'', Ce_Number 2)], [(''b'', Ce_Text ''TOTAL''), (''a'', Ce_Number 4)]] = ps @ [t] else True"
    unfolding c(3,4) using c(1,2) by (auto split: if_splits)
  have "sel \<noteq> []" using s(1) by (auto simp: row_matches_def)
  with s r show ?thesis by (metis (no_types, lifting))
qed

end
