(* ===== verification/Spec2Isabelle.thy ===== *)
theory Spec2Isabelle
  imports Txn Cache_Manager Change_Tracker Query_Plan Resolver Ext_Manager Cancel_Tokens Progress Task_Queue
    Elements Element_Query Mock_Revit Revit_Api Interop Ifc Orm_Context Cloud_Jobs Mcp_Server
    Sustainability Takeoff
begin

text \<open>
  Verification of the core of RevitPy.

  RevitPy gives Python programs access to a Revit model: elements and queries over them, an object
  mapper with a cache and change tracking, transactions, events, extensions with dependency
  injection, background tasks, a package manager's dependency resolution, and layers that extract
  quantities, compute carbon, exchange IFC, BCF and Speckle data, run jobs in the cloud and serve AI
  clients. The theories model the Python code of these parts; all paths below are under \<open>src/\<close>,
  and under \<open>src/revitpy/\<close> where they name a module of the package.

  \<^bold>\<open>How the code is modelled.\<close> A class is a record of its attributes, a method a function that takes the
  record and the world (everything outside the object that callbacks and collaborators touch) and
  returns both with its result. An exception is a value: \<open>option\<close>, or a sum with an error datatype
  whose \<open>Inl\<close> side is what is raised. Dictionaries are association lists in insertion order, sets are lists
  without repetition, objects that are shared are numbers in a store. Clocks, random identifiers, the
  file system, the network, the Revit API and third-party packages are arguments of the definitions.
  Times are integers in microseconds. Floats are rationals; where measures are multiplied and added up
  (costs, carbon, quantities, totals of schedules) the float operations are an argument, and what is
  shown of their results holds for every arithmetic of bounded relative error, which that of doubles in
  range is proved to be (\<open>double_arith_ok\<close> in \<open>Measures\<close>); a single quotient that is compared with a limit is exact.
  Concurrency is a step relation whose steps are the stretches between two awaits or two
  lock operations. Log calls are left out unless their arguments have effects.

  \<^bold>\<open>Theories and code.\<close>

  \<^item> \<open>Prelude\<close>: ordered dictionaries, ordered sets, stable sorting, callables that may raise, decimal
    texts. \<open>Measures\<close>: names, sums and groups kept in dictionaries, rounding, attributes.
  \<^item> \<open>Txn\<close>: \<open>api/transaction.py\<close> (\<open>Transaction\<close>, \<open>TransactionGroup\<close>, \<open>retry_transaction\<close>) with the
    transaction stack of \<open>RevitDocumentProvider\<close> in \<open>api/wrapper.py\<close>.
  \<^item> \<open>Elements\<close>, \<open>Element_Query\<close>: \<open>api/element.py\<close>, \<open>api/query.py\<close>, over \<open>MockElement\<close> of
    \<open>testing/mock_revit.py\<close>. \<open>Mock_Revit\<close>: the rest of that file, documents, application and environment
    with their saved states. \<open>Revit_Api\<close>: \<open>api/wrapper.py\<close>, the document provider with its element cache and
    \<open>RevitAPI\<close>, over a record of the calls into Revit that the mock environment instantiates.
  \<^item> \<open>Cache\<close>, \<open>Cache_Manager\<close>: \<open>MemoryCache\<close>, \<open>CacheManager\<close> and \<open>CacheStatistics\<close> of
    \<open>orm/cache.py\<close>, keys and entries of \<open>orm/types.py\<close>. \<open>Change_Tracker\<close>: \<open>orm/change_tracker.py\<close>.
    \<open>Query_Plan\<close>: \<open>orm/query_builder.py\<close>. \<open>Element_Set\<close>: \<open>orm/element_set.py\<close>. \<open>Relationships\<close>:
    \<open>orm/relationships.py\<close>. \<open>Orm_Context\<close>: \<open>orm/context.py\<close>, which puts the five together.
  \<^item> \<open>Event_Filters\<close>, \<open>Event_Dispatch\<close>, \<open>Event_Manager\<close>: \<open>events/\<close>: types and filters, handlers and the
    dispatcher with its queue, decorators and the manager.
  \<^item> \<open>Ext_Container\<close>, \<open>Ext_Registry\<close>, \<open>Extension_Lifecycle\<close>, \<open>Ext_Manager\<close>: \<open>extensions/\<close>: the
    dependency injection container, the registry with its load order, one extension and its life
    cycle, the manager with what it uses of the loader. An extension registers its handlers with the event manager.
  \<^item> \<open>Cancel_Tokens\<close>, \<open>Progress\<close>, \<open>Task_Queue\<close>: \<open>async_support/\<close>: cancellation tokens, progress
    reporters, and the queue whose workers use both.
  \<^item> \<open>Resolver\<close>: \<open>revitpy-package-manager/revitpy_package_manager/installer/resolver.py\<close>.
  \<^item> \<open>Type_Registry\<close>, \<open>Interop\<close>, \<open>Ifc\<close>: the mappers, comparison, merge, synchronisation and
    subscriptions of \<open>interop/\<close>; the mapper, importer, exporter, validator, comparison and BCF issues of \<open>ifc/\<close>.
  \<^item> \<open>Cloud_Client\<close>, \<open>Cloud_Jobs\<close>: \<open>cloud/auth.py\<close>, \<open>client.py\<close>, \<open>webhooks.py\<close>, \<open>jobs.py\<close> and
    \<open>batch.py\<close>.
  \<^item> \<open>Mcp_Server\<close>: \<open>ai/\<close>: messages, tools, safety guard, prompts, dispatch.
  \<^item> \<open>Sustainability\<close>: \<open>sustainability/\<close>. \<open>Takeoff\<close>: \<open>extract/\<close> without its exporters.

  \<^bold>\<open>Interfaces.\<close> Each locale states what a client relies on and is interpreted on the model of the
  code that provides it: \<open>transaction_provider\<close> (begin, commit and rollback keep a stack) on the document
  provider and on the providers of \<open>RevitAPI\<close>; \<open>cache_backend\<close> and its extension \<open>invalidating_backend\<close> on \<open>MemoryCache\<close>, and
  \<open>relation_cache\<close>, which extends it, on the cache under the relationship manager; \<open>attribute_store\<close>
  (reading after writing an attribute) on plain objects; \<open>revit_store\<close> on the mock elements;
  \<open>revit_host\<close> (lookups after deletions) on the mock environment;
  \<open>type_registry\<close> on both type mappers; \<open>job_runner\<close> (a job ends with a finished status) on the
  retry loop that batches run.

  \<^bold>\<open>What the lemmas show.\<close>

  \<^item> Transactions: every run of the step relation keeps the provider's stack balanced, a block that is
    left without commit rolls back, groups commit or roll back in order, retries end.
  \<^item> API: cached parameters and cached elements are those of the document, deleted elements are not found
    again, a query returns what the document holds, a saved environment is read back.
  \<^item> ORM: the cache keeps its limits and its indexes consistent, what it returns was the last value set
    and has not expired; a relationship loads once, a query returns what its plan says; trackers know
    exactly the changed attributes and rejecting restores them; saving accepts everything or nothing.
  \<^item> Events: handlers run by priority, the queue is first-in first-out with its bound, a handler that
    keeps failing is disabled. Extensions: the load order puts dependencies first, services are resolved
    in finitely many steps and cycles are reported, components and handlers come and go with the
    extension's states.
  \<^item> Tasks: cancellation reaches every combined token and ends; the queue accounts for every task, runs
    no more than its workers at a time, and can always finish.
  \<^item> Resolution: what is resolved is closed under dependencies and meets every specifier; a lock file
    is read back.
  \<^item> Data exchange: comparisons are exact, merges settle every conflict, synchronised elements are
    restored, issues and files are read back.
  \<^item> Cloud: the rate limit for one caller, the first decisive answer of a request, the end of polling
    and retrying, the bound and the counts of a batch. AI: what the safety mode refuses never runs, every
    request is answered.
  \<^item> Takeoff and sustainability: sums and their breakdowns agree, groups partition, sorting by several
    columns is lexicographic, verdicts agree with the limits.

  Several lemmas state what the code does where its comments promise something else; they are named
  after the behaviour, and the manifest lists them as findings.

  \<^bold>\<open>Fuel and bounds.\<close> Loops whose end is not structural are functions with a measure (requests, the
  resolver's search, chunked queries, load orders), \<open>while_option\<close> (eviction, shown to end while the
  cache's invariant holds) or \<open>partial_function\<close> where the code may really not end (polling, the
  registry's load loop), with a lemma that says when it does. Cancelling a token has as fuel the number of tokens that
  are not cancelled, and \<open>cancel_enough\<close> shows that no more is needed. Handlers that contain
  handlers and services that need services take a depth, and are \<^const>\<open>None\<close> below it; \<open>get_service_terminates\<close>
  and \<open>load_extension_returns\<close> give depths that suffice.

  \<^bold>\<open>Not modelled.\<close> Floating-point rounding, threads inside a step, and memory addresses. Of the package:
  \<open>performance/\<close> (measurements of the running process by \<open>psutil\<close>, \<open>gc\<close> and timers), the disk and
  Redis backends of the cache, \<open>orm/validation.py\<close>, \<open>orm/async_support.py\<close> and \<open>orm/decorators.py\<close>
  (asynchronous forms and decorators over the modelled parts), the asynchronous facade of
  \<open>async_support/\<close>, the loader's
  file and module handling, the exporters, HTML and workflow templates, and the clients of remote
  services. Outside the package: \<open>bridge/\<close>, \<open>cli/\<close>, the package manager's registry, builder, security
  and virtual environments (web framework, database, cryptography, subprocesses), the proofs of concept and examples.
\<close>

end
